(* ===== verification/Prelude.thy ===== *)
theory Prelude
  imports Main "HOL-Library.AList" "HOL-Library.Sublist" "HOL-Library.Multiset"
begin

text \<open>
  What the components share: instants and durations, the Go string operations the
  sources use (on the bytes of the string), Go maps as association lists, and the
  collections of hints the component theories extend.
\<close>

named_theorems go_map \<open>laws of Go maps kept as association lists\<close>
named_theorems go_string \<open>laws of the Go string operations\<close>

section \<open>Time\<close>

text \<open>
  A \<open>time.Time\<close> is the number of nanoseconds since the Go zero time; the zero value
  \<open>time.Time{}\<close> is 0. \<open>t.After(u)\<close> is \<open>u < t\<close>, \<open>t.Before(u)\<close> is \<open>t < u\<close>,
  \<open>t.Add(d)\<close> is \<open>t + d\<close>, \<open>t.Sub(u)\<close> is \<open>t - u\<close> and \<open>t.IsZero()\<close> is \<open>t = 0\<close>.
  A \<open>time.Duration\<close> is a number of nanoseconds. Go's \<open>Sub\<close> saturates at 292 years; the
  instants the sources subtract are never that far apart, so \<open>-\<close> is exact here.
\<close>

type_synonym instant = int
type_synonym duration = int

definition zero_time :: instant where
  "zero_time = 0"

definition is_zero_time :: "instant \<Rightarrow> bool" where
  "is_zero_time t \<longleftrightarrow> t = 0"

definition millisecond :: duration where
  "millisecond = 1000000"

definition second :: duration where
  "second = 1000000000"

definition minute :: duration where
  "minute = 60000000000"

definition hour :: duration where
  "hour = 3600000000000"

lemmas time_defs = zero_time_def is_zero_time_def millisecond_def second_def minute_def hour_def

text \<open>Go's integer division truncates towards zero.\<close>

definition go_quot :: "int \<Rightarrow> int \<Rightarrow> int" where
  "go_quot a b = sgn a * sgn b * (\<bar>a\<bar> div \<bar>b\<bar>)"

section \<open>Strings\<close>

text \<open>
  A Go string is its list of bytes. \<open>strings.TrimSpace\<close> removes Unicode white space:
  the six ASCII characters and the UTF-8 encodings of U+0085, U+00A0, U+1680,
  U+2000 to U+200A, U+2028, U+2029, U+202F, U+205F and U+3000.
\<close>

definition white_runes :: "string list" where
  "white_runes =
     [[CHR 0x20], [CHR 0x09], [CHR 0x0A], [CHR 0x0B], [CHR 0x0C], [CHR 0x0D],
      [CHR 0xC2, CHR 0x85], [CHR 0xC2, CHR 0xA0], [CHR 0xE1, CHR 0x9A, CHR 0x80],
      [CHR 0xE2, CHR 0x80, CHR 0x80], [CHR 0xE2, CHR 0x80, CHR 0x81],
      [CHR 0xE2, CHR 0x80, CHR 0x82], [CHR 0xE2, CHR 0x80, CHR 0x83],
      [CHR 0xE2, CHR 0x80, CHR 0x84], [CHR 0xE2, CHR 0x80, CHR 0x85],
      [CHR 0xE2, CHR 0x80, CHR 0x86], [CHR 0xE2, CHR 0x80, CHR 0x87],
      [CHR 0xE2, CHR 0x80, CHR 0x88], [CHR 0xE2, CHR 0x80, CHR 0x89],
      [CHR 0xE2, CHR 0x80, CHR 0x8A], [CHR 0xE2, CHR 0x80, CHR 0xA8],
      [CHR 0xE2, CHR 0x80, CHR 0xA9], [CHR 0xE2, CHR 0x80, CHR 0xAF],
      [CHR 0xE2, CHR 0x81, CHR 0x9F], [CHR 0xE3, CHR 0x80, CHR 0x80]]"

function strip_any :: "string list \<Rightarrow> string \<Rightarrow> string" where
  "strip_any ws s =
     (case find (\<lambda>w. w \<noteq> [] \<and> prefix w s) ws of
        None \<Rightarrow> s
      | Some w \<Rightarrow> strip_any ws (drop (length w) s))"
  by pat_completeness auto
termination
  by (relation "measure (\<lambda>(ws, s). length s)")
     (auto simp: find_Some_iff prefix_def)

declare strip_any.simps [simp del]

definition trim_space :: "string \<Rightarrow> string" where
  "trim_space s = rev (strip_any (map rev white_runes) (rev (strip_any white_runes s)))"

lemma strip_any_suffix: "suffix (strip_any ws s) s"
proof (induction ws s rule: strip_any.induct)
  case (1 ws s)
  show ?case
  proof (cases "find (\<lambda>w. w \<noteq> [] \<and> prefix w s) ws")
    case None
    then show ?thesis by (simp add: strip_any.simps [of ws s])
  next
    case (Some w)
    have "suffix (drop (length w) s) s" by (rule suffix_drop)
    with "1.IH" [OF Some] Some show ?thesis
      by (auto simp: strip_any.simps [of ws s] intro: suffix_order.trans)
  qed
qed

lemma strip_any_normal: "w \<in> set ws \<Longrightarrow> w \<noteq> [] \<Longrightarrow> \<not> prefix w (strip_any ws s)"
proof (induction ws s rule: strip_any.induct)
  case (1 ws s)
  show ?case
  proof (cases "find (\<lambda>w. w \<noteq> [] \<and> prefix w s) ws")
    case None
    then have "strip_any ws s = s" by (simp add: strip_any.simps [of ws s])
    with None "1.prems" show ?thesis by (auto simp: find_None_iff)
  next
    case (Some v)
    with "1.IH" [OF Some "1.prems"] show ?thesis by (simp add: strip_any.simps [of ws s])
  qed
qed

lemma strip_any_id: "\<forall>w \<in> set ws. w \<noteq> [] \<longrightarrow> \<not> prefix w s \<Longrightarrow> strip_any ws s = s"
  by (subst strip_any.simps) (auto split: option.splits simp: find_Some_iff)

lemma strip_any_idem: "strip_any ws (strip_any ws s) = strip_any ws s"
  by (rule strip_any_id) (auto dest: strip_any_normal)

lemma strip_any_Nil [simp]: "strip_any ws [] = []"
  by (rule strip_any_id) auto

lemma trim_space_Nil [simp, go_string]: "trim_space [] = []"
  by (simp add: trim_space_def)

lemma trim_space_idem [simp, go_string]: "trim_space (trim_space s) = trim_space s"
proof -
  let ?l = "strip_any white_runes s"
  let ?r = "rev (strip_any (map rev white_runes) (rev ?l))"
  have "prefix ?r ?l"
    using strip_any_suffix [of "map rev white_runes" "rev ?l"]
    by (simp add: suffix_to_prefix)
  then have "strip_any white_runes ?r = ?r"
    by (intro strip_any_id) (auto dest: prefix_order.trans strip_any_normal)
  then show ?thesis
    by (simp add: trim_space_def strip_any_idem)
qed

text \<open>A string with a byte that no white space contains is not blank.\<close>

lemma strip_any_set: "set s \<subseteq> set (strip_any ws s) \<union> \<Union> (set ` set ws)"
proof (induction ws s rule: strip_any.induct)
  case (1 ws s)
  show ?case
  proof (cases "find (\<lambda>w. w \<noteq> [] \<and> prefix w s) ws")
    case None
    then show ?thesis by (simp add: strip_any.simps [of ws s])
  next
    case (Some w)
    then have w: "w \<in> set ws" "prefix w s" by (auto simp: find_Some_iff)
    then have "set s = set w \<union> set (drop (length w) s)" by (auto simp: prefix_def)
    with "1.IH" [OF Some] Some w(1) show ?thesis by (auto simp: strip_any.simps [of ws s])
  qed
qed

lemma trim_space_not_blank:
  assumes "c \<in> set s" "33 \<le> (of_char c :: nat)" "(of_char c :: nat) \<le> 126"
  shows "trim_space s \<noteq> []"
proof -
  have w: "c \<notin> \<Union> (set ` set white_runes)" "c \<notin> \<Union> (set ` set (map rev white_runes))"
    using assms(2,3) by (auto simp: white_runes_def)
  from strip_any_set [of s white_runes] assms(1) w(1) have "c \<in> set (strip_any white_runes s)" by blast
  with strip_any_set [of "rev (strip_any white_runes s)" "map rev white_runes"] w(2)
  have "c \<in> set (strip_any (map rev white_runes) (rev (strip_any white_runes s)))"
    by auto
  then show ?thesis by (auto simp: trim_space_def)
qed

text \<open>
  \<open>strings.ToLower\<close> has an ASCII fast path, modelled here byte by byte; on a string
  with a byte of 0x80 or more it applies the Unicode tables, the parameter \<open>uni\<close>.
\<close>

definition is_ascii :: "string \<Rightarrow> bool" where
  "is_ascii s \<longleftrightarrow> list_all (\<lambda>c. of_char c < (128::nat)) s"

definition ascii_lower_char :: "char \<Rightarrow> char" where
  "ascii_lower_char c =
     (let n = of_char c :: nat in if 65 \<le> n \<and> n \<le> 90 then char_of (n + 32) else c)"

definition to_lower :: "(string \<Rightarrow> string) \<Rightarrow> string \<Rightarrow> string" where
  "to_lower uni s = (if is_ascii s then map ascii_lower_char s else uni s)"

text \<open>\<open>strings.TrimPrefix\<close>, \<open>strings.TrimSuffix\<close>, \<open>strings.Index\<close> and \<open>strings.Split\<close>
  at a one-byte separator.\<close>

definition trim_prefix :: "string \<Rightarrow> string \<Rightarrow> string" where
  "trim_prefix p s = (if prefix p s then drop (length p) s else s)"

definition trim_suffix :: "string \<Rightarrow> string \<Rightarrow> string" where
  "trim_suffix p s = (if suffix p s then take (length s - length p) s else s)"

fun str_index :: "string \<Rightarrow> string \<Rightarrow> nat option" where
  "str_index s p =
     (if prefix p s then Some 0
      else case s of [] \<Rightarrow> None | _ # s' \<Rightarrow> map_option Suc (str_index s' p))"

declare str_index.simps [simp del]

fun split_at :: "char \<Rightarrow> string \<Rightarrow> string list" where
  "split_at c [] = [[]]"
| "split_at c (x # xs) =
     (if x = c then [] # split_at c xs
      else case split_at c xs of [] \<Rightarrow> [[x]] | p # ps \<Rightarrow> (x # p) # ps)"

lemma split_at_not_Nil [simp]: "split_at c s \<noteq> []"
  by (cases "(c, s)" rule: split_at.cases) (auto split: list.splits)

lemma str_index_Some:
  "str_index s p = Some i \<Longrightarrow> \<exists>u v. s = u @ p @ v \<and> length u = i"
proof (induction s arbitrary: i)
  case Nil
  then show ?case by (subst (asm) str_index.simps) (auto split: if_splits)
next
  case (Cons x s)
  show ?case
  proof (cases "prefix p (x # s)")
    case True
    with Cons.prems show ?thesis
      by (subst (asm) str_index.simps) (auto simp: prefix_def)
  next
    case False
    with Cons.prems obtain j where j: "str_index s p = Some j" "i = Suc j"
      by (subst (asm) str_index.simps) auto
    from Cons.IH [OF j(1)] obtain u v where "s = u @ p @ v" "length u = j" by blast
    with j(2) have "x # s = (x # u) @ p @ v \<and> length (x # u) = i" by simp
    then show ?thesis by blast
  qed
qed

text \<open>The index found is the first one: every occurrence starts at it or later.\<close>

lemma str_index_le:
  "s = u @ p @ v \<Longrightarrow> \<exists>i \<le> length u. str_index s p = Some i"
proof (induction u arbitrary: s)
  case Nil
  then show ?case by (subst str_index.simps) simp
next
  case (Cons x u)
  show ?case
  proof (cases "prefix p s")
    case True
    then show ?thesis by (subst str_index.simps) simp
  next
    case False
    from Cons.IH [OF refl] obtain i where "i \<le> length u" "str_index (u @ p @ v) p = Some i"
      by blast
    with False Cons.prems show ?thesis by (subst str_index.simps) auto
  qed
qed

text \<open>\<open>utf8.ValidString\<close>: the byte ranges of well-formed UTF-8.\<close>

definition byte_in :: "nat \<Rightarrow> nat \<Rightarrow> char \<Rightarrow> bool" where
  "byte_in lo hi c \<longleftrightarrow> lo \<le> (of_char c :: nat) \<and> (of_char c :: nat) \<le> hi"

fun utf8_valid :: "string \<Rightarrow> bool" where
  "utf8_valid [] = True"
| "utf8_valid (a # s) =
     (if byte_in 0 0x7F a then utf8_valid s
      else case s of [] \<Rightarrow> False
      | b # s2 \<Rightarrow>
          if byte_in 0xC2 0xDF a then byte_in 0x80 0xBF b \<and> utf8_valid s2
          else case s2 of [] \<Rightarrow> False
          | c # s3 \<Rightarrow>
              if byte_in 0xE0 0xEF a then
                (if byte_in 0xE0 0xE0 a then byte_in 0xA0 0xBF b
                 else if byte_in 0xED 0xED a then byte_in 0x80 0x9F b
                 else byte_in 0x80 0xBF b) \<and> byte_in 0x80 0xBF c \<and> utf8_valid s3
              else case s3 of [] \<Rightarrow> False
              | d # s4 \<Rightarrow>
                  byte_in 0xF0 0xF4 a \<and>
                  (if byte_in 0xF0 0xF0 a then byte_in 0x90 0xBF b
                   else if byte_in 0xF4 0xF4 a then byte_in 0x80 0x8F b
                   else byte_in 0x80 0xBF b) \<and>
                  byte_in 0x80 0xBF c \<and> byte_in 0x80 0xBF d \<and> utf8_valid s4)"

section \<open>Decimal numbers\<close>

text \<open>\<open>strconv.FormatInt(i, 10)\<close> and the \<open>%d\<close> verb.\<close>

definition digit_char :: "nat \<Rightarrow> char" where
  "digit_char d = char_of (48 + d)"

fun digits_of_nat :: "nat \<Rightarrow> string" where
  "digits_of_nat n =
     (if n < 10 then [digit_char n] else digits_of_nat (n div 10) @ [digit_char (n mod 10)])"

declare digits_of_nat.simps [simp del]

definition itoa :: "int \<Rightarrow> string" where
  "itoa i = (if i < 0 then CHR ''-'' # digits_of_nat (nat (- i)) else digits_of_nat (nat i))"

definition read_digits :: "string \<Rightarrow> nat" where
  "read_digits = foldl (\<lambda>n c. 10 * n + (of_char c - 48)) 0"

lemma of_char_digit: "d < 10 \<Longrightarrow> of_char (digit_char d) = 48 + d"
  by (simp add: digit_char_def)

lemma read_digits_of_nat: "read_digits (digits_of_nat n) = n"
proof (induction n rule: digits_of_nat.induct)
  case (1 n)
  then show ?case
    by (subst digits_of_nat.simps) (auto simp: read_digits_def of_char_digit)
qed

lemma digits_of_nat_chars: "\<forall>c \<in> set (digits_of_nat n). 48 \<le> (of_char c :: nat) \<and> (of_char c :: nat) \<le> 57"
proof (induction n rule: digits_of_nat.induct)
  case (1 n)
  then show ?case
    by (subst digits_of_nat.simps) (auto simp: of_char_digit)
qed

lemma digits_of_nat_inj: "digits_of_nat m = digits_of_nat n \<Longrightarrow> m = n"
  by (metis read_digits_of_nat)

lemma digits_no_char:
  "(of_char c :: nat) < 48 \<or> 57 < (of_char c :: nat) \<Longrightarrow> c \<notin> set (digits_of_nat n)"
  using digits_of_nat_chars [of n] by auto

lemma itoa_inj: "itoa i = itoa j \<Longrightarrow> i = j"
proof -
  assume eq: "itoa i = itoa j"
  have dash: "CHR ''-'' \<notin> set (digits_of_nat n)" for n
    by (rule digits_no_char) simp
  have "digits_of_nat m \<noteq> CHR ''-'' # s" for m s
    using dash [of m] by auto
  with eq show ?thesis
    by (auto simp: itoa_def split: if_splits dest!: digits_of_nat_inj)
       (metis)+
qed

lemma itoa_no_colon: "CHR '':'' \<notin> set (itoa i)"
  using digits_no_char [of "CHR '':''"] by (auto simp: itoa_def)

text \<open>A decimal number and a colon in front of a string can be read back.\<close>

lemma itoa_colon_inj:
  assumes "itoa i @ CHR '':'' # s = itoa j @ CHR '':'' # t"
  shows "i = j \<and> s = t"
proof -
  have "itoa i = takeWhile (\<lambda>c. c \<noteq> CHR '':'') (itoa i @ CHR '':'' # s)"
    using itoa_no_colon [of i] by (subst takeWhile_append2) auto
  also have "\<dots> = itoa j"
    unfolding assms using itoa_no_colon [of j] by (subst takeWhile_append2) auto
  finally have "itoa i = itoa j" .
  with assms show ?thesis by (auto dest: itoa_inj)
qed

text \<open>\<open>strconv.Atoi\<close>: an optional sign, at least one digit, and a value of 64 bits.\<close>

definition is_digit :: "char \<Rightarrow> bool" where
  "is_digit c \<longleftrightarrow> 48 \<le> (of_char c :: nat) \<and> (of_char c :: nat) \<le> 57"

definition go_atoi :: "string \<Rightarrow> int option" where
  "go_atoi s =
     (let (neg, ds) = (case s of [] \<Rightarrow> (False, [])
            | c # cs \<Rightarrow> if c = CHR ''-'' then (True, cs) else if c = CHR ''+'' then (False, cs) else (False, s));
          v = (if neg then - int (read_digits ds) else int (read_digits ds))
      in if ds \<noteq> [] \<and> list_all is_digit ds \<and> - (2 ^ 63) \<le> v \<and> v < 2 ^ 63 then Some v else None)"

lemma digits_of_nat_not_Nil [simp]: "digits_of_nat n \<noteq> []"
  by (subst digits_of_nat.simps) simp

lemma digits_of_nat_is_digit: "c \<in> set (digits_of_nat n) \<Longrightarrow> is_digit c"
  using digits_of_nat_chars [of n] by (simp add: is_digit_def)

lemma go_atoi_itoa:
  assumes "- (2 ^ 63) \<le> i" "i < 2 ^ 63"
  shows "go_atoi (itoa i) = Some i"
proof -
  have ds: "list_all is_digit (digits_of_nat n)" for n
    by (auto simp: list_all_iff digits_of_nat_is_digit)
  obtain c cs where c: "digits_of_nat (nat i) = c # cs"
    using digits_of_nat_not_Nil [of "nat i"] by (cases "digits_of_nat (nat i)") blast+
  then have "is_digit c" using digits_of_nat_is_digit [of c "nat i"] by simp
  then have "c \<noteq> CHR ''-''" "c \<noteq> CHR ''+''" by (auto simp: is_digit_def)
  with assms ds [of "nat i"] ds [of "nat (- i)"] c read_digits_of_nat [of "nat i"] show ?thesis
    by (simp add: go_atoi_def itoa_def read_digits_of_nat) linarith
qed

lemma itoa_not_Nil [simp]: "itoa i \<noteq> []"
  by (simp add: itoa_def)

text \<open>A decimal number has no white space to trim.\<close>

lemma trim_space_id:
  assumes "\<And>w. w \<in> set white_runes \<Longrightarrow> \<not> prefix w s" "\<And>w. w \<in> set white_runes \<Longrightarrow> \<not> suffix w s"
  shows "trim_space s = s"
proof -
  have "strip_any white_runes s = s" using assms(1) by (intro strip_any_id) auto
  moreover have "strip_any (map rev white_runes) (rev s) = rev s"
    using assms(2) by (intro strip_any_id) (auto simp: suffix_to_prefix)
  ultimately show ?thesis by (simp add: trim_space_def)
qed

lemma white_rune_bytes: "w \<in> set white_runes \<Longrightarrow> \<exists>c \<in> set w. \<not> (33 \<le> (of_char c :: nat) \<and> (of_char c :: nat) \<le> 126)"
  by (auto simp: white_runes_def)

lemma to_lower_plain:
  assumes "list_all (\<lambda>c. of_char c < (65::nat) \<or> 90 < (of_char c :: nat) \<and> of_char c < (128::nat)) s"
  shows "to_lower low s = s"
proof -
  have "map ascii_lower_char s = s" "is_ascii s"
    using assms by (induction s) (auto simp: is_ascii_def ascii_lower_char_def Let_def)
  then show ?thesis by (simp add: to_lower_def)
qed

lemma trim_space_graphic:
  assumes "\<forall>c \<in> set s. 33 \<le> (of_char c :: nat) \<and> (of_char c :: nat) \<le> 126"
  shows "trim_space s = s"
proof (rule trim_space_id)
  fix w assume "w \<in> set white_runes"
  from white_rune_bytes [OF this] assms show "\<not> prefix w s" "\<not> suffix w s"
    by (auto dest!: set_mono_prefix set_mono_suffix)
qed

lemma trim_space_itoa [simp]: "trim_space (itoa i) = itoa i"
  by (rule trim_space_graphic)
     (use digits_of_nat_chars [of "nat i"] digits_of_nat_chars [of "nat (- i)"] in
       \<open>auto simp: itoa_def\<close>; fastforce)

text \<open>\<open>strings.ToUpper\<close>, like \<open>to_lower\<close>.\<close>

definition ascii_upper_char :: "char \<Rightarrow> char" where
  "ascii_upper_char c =
     (let n = of_char c :: nat in if 97 \<le> n \<and> n \<le> 122 then char_of (n - 32) else c)"

definition to_upper :: "(string \<Rightarrow> string) \<Rightarrow> string \<Rightarrow> string" where
  "to_upper uni s = (if is_ascii s then map ascii_upper_char s else uni s)"

text \<open>\<open>strings.EqualFold\<close>; the parameter decides for strings that are not ASCII.\<close>

definition equal_fold :: "(string \<Rightarrow> string \<Rightarrow> bool) \<Rightarrow> string \<Rightarrow> string \<Rightarrow> bool" where
  "equal_fold fld s t =
     (if is_ascii s \<and> is_ascii t then map ascii_lower_char s = map ascii_lower_char t else fld s t)"

section \<open>Go maps\<close>

text \<open>
  A Go map whose size or iteration matters is an association list with distinct keys.
  An operation whose result depends on the unspecified order of \<open>range\<close> takes the order
  as an argument \<open>ord\<close>, a function that lists the entries of a map; \<open>range_ok ord\<close> says
  that it visits every entry once.
\<close>

type_synonym ('k, 'v) gomap = "('k \<times> 'v) list"

definition gm_ok :: "('k, 'v) gomap \<Rightarrow> bool" where
  "gm_ok m \<longleftrightarrow> distinct (map fst m)"

abbreviation gm_get :: "('k, 'v) gomap \<Rightarrow> 'k \<Rightarrow> 'v option" where
  "gm_get \<equiv> map_of"

abbreviation gm_set :: "'k \<Rightarrow> 'v \<Rightarrow> ('k, 'v) gomap \<Rightarrow> ('k, 'v) gomap" where
  "gm_set \<equiv> AList.update"

abbreviation gm_delete :: "'k \<Rightarrow> ('k, 'v) gomap \<Rightarrow> ('k, 'v) gomap" where
  "gm_delete \<equiv> AList.delete"

abbreviation gm_len :: "('k, 'v) gomap \<Rightarrow> nat" where
  "gm_len \<equiv> length"

definition gm_keys :: "('k, 'v) gomap \<Rightarrow> 'k set" where
  "gm_keys m = fst ` set m"

definition gm_filter :: "('k \<Rightarrow> 'v \<Rightarrow> bool) \<Rightarrow> ('k, 'v) gomap \<Rightarrow> ('k, 'v) gomap" where
  "gm_filter P m = filter (\<lambda>(k, v). P k v) m"

lemma gm_ok_Nil [simp, go_map]: "gm_ok []"
  by (simp add: gm_ok_def)

lemma gm_ok_set [simp, go_map]: "gm_ok m \<Longrightarrow> gm_ok (gm_set k v m)"
  by (simp add: gm_ok_def distinct_update)

lemma gm_ok_delete [simp, go_map]: "gm_ok m \<Longrightarrow> gm_ok (gm_delete k m)"
  by (simp add: gm_ok_def distinct_delete)

lemma gm_ok_filter [simp, go_map]: "gm_ok m \<Longrightarrow> gm_ok (gm_filter P m)"
  by (auto simp: gm_ok_def gm_filter_def intro: distinct_map_filter)

lemma gm_get_set [simp, go_map]: "gm_get (gm_set k v m) k' = (if k' = k then Some v else gm_get m k')"
  by (simp add: update_conv')

lemma gm_get_delete [simp, go_map]: "gm_get (gm_delete k m) k' = (if k' = k then None else gm_get m k')"
  by (simp add: delete_conv')

lemma gm_get_filter:
  "gm_ok m \<Longrightarrow> gm_get (gm_filter P m) k =
     (case gm_get m k of Some v \<Rightarrow> if P k v then Some v else None | None \<Rightarrow> None)"
proof (induction m)
  case Nil
  then show ?case by (simp add: gm_filter_def)
next
  case (Cons a m)
  obtain k' v' where a: "a = (k', v')" by (cases a)
  from Cons.prems a have ok: "gm_ok m" and notin: "k' \<notin> fst ` set m"
    by (auto simp: gm_ok_def)
  from notin have "gm_get m k' = None" by (simp add: map_of_eq_None_iff)
  with Cons.IH [OF ok] a show ?case
    by (auto simp: gm_filter_def split: option.splits)
qed

lemma gm_len_set: "gm_len (gm_set k v m) = (if gm_get m k = None then Suc (gm_len m) else gm_len m)"
  by (induction m) (auto split: if_splits)

lemma gm_len_delete: 
  "gm_ok m \<Longrightarrow> gm_len (gm_delete k m) = (if gm_get m k = None then gm_len m else gm_len m - 1)"
proof (induction m)
  case Nil
  then show ?case by simp
next
  case (Cons a m)
  obtain k' v' where a: "a = (k', v')" by (cases a)
  from Cons.prems a have ok: "gm_ok m" and notin: "k' \<notin> fst ` set m"
    by (auto simp: gm_ok_def)
  show ?case
  proof (cases "k = k'")
    case True
    with notin have "gm_delete k m = m" by (simp add: delete_idem)
    with True a show ?thesis by simp
  next
    case False
    from Cons.IH [OF ok] False a show ?thesis
      by (cases m) auto
  qed
qed

lemma gm_keys_delete [go_map]: "gm_keys (gm_delete k m) = gm_keys m - {k}"
  using arg_cong [OF delete_keys, of set k m] by (simp add: gm_keys_def)

lemma gm_keys_set [go_map]: "gm_keys (gm_set k v m) = insert k (gm_keys m)"
  by (simp add: gm_keys_def dom_update)

lemma gm_keys_filter: "gm_keys (gm_filter P m) \<subseteq> gm_keys m"
  by (auto simp: gm_keys_def gm_filter_def)

definition range_ok :: "(('k, 'v) gomap \<Rightarrow> ('k, 'v) gomap) \<Rightarrow> bool" where
  "range_ok ord \<longleftrightarrow> (\<forall>m. mset (ord m) = mset m)"

lemma range_ok_set: "range_ok ord \<Longrightarrow> set (ord m) = set m"
  unfolding range_ok_def by (metis set_mset_mset)

lemma range_ok_length: "range_ok ord \<Longrightarrow> length (ord m) = length m"
  unfolding range_ok_def by (metis size_mset)

lemma range_ok_id [simp]: "range_ok id" "range_ok (\<lambda>m. m)" "range_ok rev"
  by (simp_all add: range_ok_def)

text \<open>The order may also be given on the keys alone, so that one order serves several maps.\<close>

type_synonym 'k range_order = "'k list \<Rightarrow> 'k list"

definition order_ok :: "'k range_order \<Rightarrow> bool" where
  "order_ok ord \<longleftrightarrow> (\<forall>ks. mset (ord ks) = mset ks)"

lemma order_ok_id [simp]: "order_ok id" "order_ok rev"
  by (simp_all add: order_ok_def)

lemma order_ok_set: "order_ok ord \<Longrightarrow> set (ord ks) = set ks"
  unfolding order_ok_def by (metis set_mset_mset)

lemma order_ok_length: "order_ok ord \<Longrightarrow> length (ord ks) = length ks"
  unfolding order_ok_def by (metis size_mset)

lemma gm_len_filter: "gm_len (gm_filter P m) \<le> gm_len m"
  by (simp add: gm_filter_def)

lemma gm_get_in_keys: "gm_get m k = Some v \<Longrightarrow> k \<in> gm_keys m"
  by (auto simp: gm_keys_def dest: map_of_SomeD intro: rev_image_eqI)

lemma gm_keys_get: "k \<in> gm_keys m \<Longrightarrow> \<exists>v. gm_get m k = Some v"
  by (metis gm_keys_def dom_map_of_conv_image_fst domD)

section \<open>Sorting\<close>

text \<open>\<open>sort.SliceStable\<close> with a comparison function, as a stable insertion sort. When the
  comparison is the strict order of a key, it is the library's \<open>sort_key\<close>.\<close>

fun insert_by :: "('a \<Rightarrow> 'a \<Rightarrow> bool) \<Rightarrow> 'a \<Rightarrow> 'a list \<Rightarrow> 'a list" where
  "insert_by lt x [] = [x]"
| "insert_by lt x (y # ys) = (if lt y x then y # insert_by lt x ys else x # y # ys)"

definition stable_sort :: "('a \<Rightarrow> 'a \<Rightarrow> bool) \<Rightarrow> 'a list \<Rightarrow> 'a list" where
  "stable_sort lt xs = foldr (insert_by lt) xs []"

lemma mset_insert_by: "mset (insert_by lt x xs) = add_mset x (mset xs)"
  by (induction xs) auto

lemma mset_stable_sort: "mset (stable_sort lt xs) = mset xs"
  by (induction xs) (simp_all add: stable_sort_def mset_insert_by)

lemma stable_sort_key:
  fixes key :: "'a \<Rightarrow> 'b::linorder"
  assumes "\<And>x y. lt x y \<longleftrightarrow> key x < key y"
  shows "stable_sort lt xs = sort_key key xs"
proof -
  have "insert_by lt x ys = insort_key key x ys" for x ys
    by (induction ys) (auto simp: assms not_less)
  then have "insert_by lt = insort_key key" by (intro ext)
  then show ?thesis by (simp add: stable_sort_def sort_key_def)
qed

text \<open>The head of a sorted list is the first of the least elements.\<close>

lemma hd_sort_key:
  fixes key :: "'a \<Rightarrow> 'b::linorder"
  assumes "xs \<noteq> []"
  shows "hd (sort_key key xs) \<in> set xs" "x \<in> set xs \<Longrightarrow> key (hd (sort_key key xs)) \<le> key x"
proof -
  obtain y ys where s: "sort_key key xs = y # ys"
    using assms set_sort [of key xs] by (cases "sort_key key xs") auto
  then have hd: "hd (sort_key key xs) = y" by simp
  have set: "set (y # ys) = set xs" using set_sort [of key xs] s by simp
  then show "hd (sort_key key xs) \<in> set xs" unfolding hd by auto
  have "sorted (map key (y # ys))" using sorted_sort_key [of key xs] s by simp
  then show "x \<in> set xs \<Longrightarrow> key (hd (sort_key key xs)) \<le> key x" unfolding hd set [symmetric] by auto
qed

text \<open>Filtering with a partial function.\<close>

lemma map_filter_Nil: "List.map_filter f xs = [] \<longleftrightarrow> (\<forall>x \<in> set xs. f x = None)"
  by (induction xs) (auto split: option.splits)

lemma map_filter_set: "set (List.map_filter f xs) = {y. \<exists>x \<in> set xs. f x = Some y}"
  by (induction xs) (auto split: option.splits)

end
