(* ===== verification/GoFloats.thy ===== *)
theory GoFloats
  imports Complex_Main Prelude
begin

text \<open>
  Finite floats as rationals: the conversion \<^verbatim>\<open>int(v)\<close>, which truncates towards zero.
\<close>

definition truncate_rat :: "rat \<Rightarrow> int" where
  "truncate_rat q = (if q < 0 then \<lceil>q\<rceil> else \<lfloor>q\<rfloor>)"

lemma truncate_rat_int [simp]: "truncate_rat (of_int i) = i"
  by (simp add: truncate_rat_def)

lemma truncate_rat_uminus: "truncate_rat (- q) = - truncate_rat q"
  by (cases q "0 :: rat" rule: linorder_cases) (simp_all add: truncate_rat_def ceiling_minus floor_minus)

lemma truncate_rat_abs: "\<bar>truncate_rat q\<bar> = \<lfloor>\<bar>q\<bar>\<rfloor>"
proof (cases "q < 0")
  case True
  then have "\<lceil>q\<rceil> \<le> 0" by (simp add: ceiling_le_iff)
  with True show ?thesis by (simp add: truncate_rat_def floor_minus)
qed (simp add: truncate_rat_def)

end
