(* ===== verification/Platforms.thy ===== *)
theory Platforms
  imports Prelude
begin

text \<open>
  The registry of the platforms (\<^verbatim>\<open>internal/domain/platforms.go\<close>) and the detection of the
  platform a model name belongs to (\<^verbatim>\<open>internal/service/composite_platform.go\<close>).
\<close>

section \<open>The registry\<close>

definition platform_anthropic :: string where "platform_anthropic = ''anthropic''"
definition platform_openai :: string where "platform_openai = ''openai''"
definition platform_gemini :: string where "platform_gemini = ''gemini''"
definition platform_antigravity :: string where "platform_antigravity = ''antigravity''"
definition platform_grok :: string where "platform_grok = ''grok''"
definition platform_kimi :: string where "platform_kimi = ''kimi''"
definition platform_zhipu :: string where "platform_zhipu = ''zhipu''"
definition platform_deepseek :: string where "platform_deepseek = ''deepseek''"
definition platform_minimax :: string where "platform_minimax = ''minimax''"
definition platform_typesafe :: string where "platform_typesafe = ''typesafe''"
definition platform_opencode_go :: string where "platform_opencode_go = ''opencode_go''"
definition platform_command_code :: string where "platform_command_code = ''command_code''"
definition platform_cline :: string where "platform_cline = ''cline''"
definition platform_composite :: string where "platform_composite = ''composite''"

lemmas platform_names = platform_anthropic_def platform_openai_def platform_gemini_def
  platform_antigravity_def platform_grok_def platform_kimi_def platform_zhipu_def
  platform_deepseek_def platform_minimax_def platform_typesafe_def platform_opencode_go_def
  platform_command_code_def platform_cline_def platform_composite_def

datatype platform_gateway =
  Gateway_anthropic | Gateway_openai | Gateway_gemini | Gateway_antigravity

record platform_spec =
  ps_id :: string
  ps_display_name :: string
  ps_gateway :: platform_gateway
  ps_cn_provider :: bool
  ps_litellm_provider :: string

definition platform_list :: "platform_spec list" where
  "platform_list =
     [\<lparr>ps_id = platform_anthropic, ps_display_name = ''Anthropic'', ps_gateway = Gateway_anthropic,
       ps_cn_provider = False, ps_litellm_provider = ''anthropic''\<rparr>,
      \<lparr>ps_id = platform_openai, ps_display_name = ''OpenAI'', ps_gateway = Gateway_openai,
       ps_cn_provider = False, ps_litellm_provider = ''openai''\<rparr>,
      \<lparr>ps_id = platform_gemini, ps_display_name = ''Gemini'', ps_gateway = Gateway_gemini,
       ps_cn_provider = False, ps_litellm_provider = ''gemini''\<rparr>,
      \<lparr>ps_id = platform_antigravity, ps_display_name = ''Antigravity'', ps_gateway = Gateway_antigravity,
       ps_cn_provider = False, ps_litellm_provider = ''anthropic''\<rparr>,
      \<lparr>ps_id = platform_grok, ps_display_name = ''Grok'', ps_gateway = Gateway_openai,
       ps_cn_provider = False, ps_litellm_provider = ''xai''\<rparr>,
      \<lparr>ps_id = platform_kimi, ps_display_name = ''Kimi'', ps_gateway = Gateway_openai,
       ps_cn_provider = True, ps_litellm_provider = ''moonshot''\<rparr>,
      \<lparr>ps_id = platform_zhipu, ps_display_name = ''Zhipu GLM'', ps_gateway = Gateway_openai,
       ps_cn_provider = True, ps_litellm_provider = ''zhipu''\<rparr>,
      \<lparr>ps_id = platform_deepseek, ps_display_name = ''DeepSeek'', ps_gateway = Gateway_openai,
       ps_cn_provider = True, ps_litellm_provider = ''deepseek''\<rparr>,
      \<lparr>ps_id = platform_minimax, ps_display_name = ''MiniMax'', ps_gateway = Gateway_openai,
       ps_cn_provider = True, ps_litellm_provider = ''minimax''\<rparr>,
      \<lparr>ps_id = platform_opencode_go, ps_display_name = ''OpenCode'', ps_gateway = Gateway_openai,
       ps_cn_provider = False, ps_litellm_provider = ''opencode-go''\<rparr>,
      \<lparr>ps_id = platform_typesafe, ps_display_name = ''TypeSafe / Jev'', ps_gateway = Gateway_anthropic,
       ps_cn_provider = False, ps_litellm_provider = ''typesafe''\<rparr>,
      \<lparr>ps_id = platform_command_code, ps_display_name = ''Command Code'', ps_gateway = Gateway_openai,
       ps_cn_provider = False, ps_litellm_provider = []\<rparr>,
      \<lparr>ps_id = platform_cline, ps_display_name = ''Cline'', ps_gateway = Gateway_openai,
       ps_cn_provider = False, ps_litellm_provider = []\<rparr>]"

definition platform_index :: "(string, nat) gomap" where
  "platform_index = fold (\<lambda>(i, spec). gm_set (ps_id spec) i) (enumerate 0 platform_list) []"

definition lookup_platform :: "string \<Rightarrow> platform_spec option" where
  "lookup_platform p = (case gm_get platform_index p of None \<Rightarrow> None | Some i \<Rightarrow> Some (platform_list ! i))"

definition is_concrete_platform :: "string \<Rightarrow> bool" where
  "is_concrete_platform p \<longleftrightarrow> gm_get platform_index p \<noteq> None"

definition is_group_platform :: "string \<Rightarrow> bool" where
  "is_group_platform p \<longleftrightarrow> p = platform_composite \<or> is_concrete_platform p"

definition platform_ids_where :: "(platform_spec \<Rightarrow> bool) \<Rightarrow> string list" where
  "platform_ids_where match = map ps_id (filter match platform_list)"

definition concrete_platform_ids :: "string list" where
  "concrete_platform_ids = platform_ids_where (\<lambda>_. True)"

definition composite_precedence_head :: "string list" where
  "composite_precedence_head = [platform_anthropic, platform_gemini, platform_openai]"

definition composite_precedence_ids :: "string list" where
  "composite_precedence_ids =
     (let head = filter is_concrete_platform composite_precedence_head
      in head @ filter (\<lambda>p. p \<notin> set head) (map ps_id platform_list))"

definition uses_openai_gateway :: "string \<Rightarrow> bool" where
  "uses_openai_gateway p =
     (case lookup_platform p of None \<Rightarrow> False | Some spec \<Rightarrow> ps_gateway spec = Gateway_openai)"

definition is_cn_provider :: "string \<Rightarrow> bool" where
  "is_cn_provider p = (case lookup_platform p of None \<Rightarrow> False | Some spec \<Rightarrow> ps_cn_provider spec)"

section \<open>Detection\<close>

definition has_prefix_in :: "string list \<Rightarrow> string \<Rightarrow> bool" where
  "has_prefix_in ps s \<longleftrightarrow> (\<exists>p \<in> set ps. prefix p s)"

definition has_openai_series_prefix :: "string \<Rightarrow> bool" where
  "has_openai_series_prefix m \<longleftrightarrow>
     (\<exists>p \<in> set [''o1'', ''o3'', ''o4'', ''o5'']. m = p \<or> prefix (p @ ''-'') m)"

definition provider_platform :: "string \<Rightarrow> string option" where
  "provider_platform p =
     (if p \<in> set [''anthropic'', ''claude''] then Some platform_anthropic
      else if p \<in> set [''openai'', ''chatgpt''] then Some platform_openai
      else if p \<in> set [''google'', ''google-ai-studio'', ''gemini''] then Some platform_gemini
      else if p \<in> set [''xai'', ''x-ai'', ''grok''] then Some platform_grok
      else if p \<in> set [''kimi'', ''moonshot''] then Some platform_kimi
      else if p \<in> set [''zhipu'', ''glm'', ''bigmodel''] then Some platform_zhipu
      else if p = ''deepseek'' then Some platform_deepseek
      else if p = ''minimax'' then Some platform_minimax
      else if p \<in> set [''typesafe'', ''jev''] then Some platform_typesafe
      else None)"

definition name_platform :: "string \<Rightarrow> string option" where
  "name_platform m =
     (if has_prefix_in [''anthropic.claude-'', ''claude-''] m then Some platform_anthropic
      else if has_prefix_in [''gpt-'', ''chatgpt-'', ''codex-'', ''text-embedding-'', ''text-moderation-'',
                ''omni-moderation-'', ''dall-e-'', ''gpt-image-'', ''tts-'', ''whisper-''] m \<or>
              has_openai_series_prefix m then Some platform_openai
      else if has_prefix_in [''gemini-'', ''learnlm-''] m then Some platform_gemini
      else if m = ''grok'' \<or> prefix ''grok-'' m then Some platform_grok
      else if m = ''k3'' \<or> m = ''k3-256k'' \<or> has_prefix_in [''kimi-'', ''moonshot-''] m then Some platform_kimi
      else if prefix ''glm-'' m then Some platform_zhipu
      else if prefix ''deepseek-'' m then Some platform_deepseek
      else if has_prefix_in [''minimax-'', ''abab5'', ''abab6'', ''abab7''] m then Some platform_minimax
      else if m = ''jev-latest'' \<or> prefix ''jev-'' m then Some platform_typesafe
      else None)"

definition detect_model_platform :: "(string \<Rightarrow> string) \<Rightarrow> string \<Rightarrow> string option" where
  "detect_model_platform uni model =
     (let normalized = to_lower uni (trim_space model) in
      if normalized = [] then None
      else
        let m = trim_prefix ''models/'' normalized in
        case str_index m ''/'' of
          Some slash \<Rightarrow>
            if 0 < slash then
              let provider = trim_space (take slash m); rest = trim_space (drop (slash + 1) m) in
              (case provider_platform provider of
                 Some p \<Rightarrow> Some p
               | None \<Rightarrow> if rest \<noteq> [] then name_platform (trim_prefix ''models/'' rest) else name_platform m)
            else name_platform m
        | None \<Rightarrow> name_platform m)"

section \<open>The registry is consistent\<close>

lemma platform_index_eq:
  "platform_index = zip (map ps_id platform_list) [0..<13]"
  by code_simp

lemma concrete_iff: "is_concrete_platform p \<longleftrightarrow> p \<in> set (map ps_id platform_list)"
proof -
  have "length platform_list = 13" by (simp add: platform_list_def)
  then have "map fst platform_index = map ps_id platform_list"
    by (simp add: platform_index_eq)
  then have "fst ` set platform_index = set (map ps_id platform_list)"
    by (metis set_map)
  then show ?thesis by (simp add: is_concrete_platform_def map_of_eq_None_iff)
qed

lemma concrete_names:
  "is_concrete_platform p \<longleftrightarrow>
     p \<in> {platform_anthropic, platform_openai, platform_gemini, platform_antigravity, platform_grok,
       platform_kimi, platform_zhipu, platform_deepseek, platform_minimax, platform_opencode_go,
       platform_typesafe, platform_command_code, platform_cline}"
  by (simp add: concrete_iff platform_list_def)

lemma composite_not_concrete: "\<not> is_concrete_platform platform_composite"
  by (simp add: concrete_names) (simp add: platform_names)

lemma provider_platform_concrete: "provider_platform s = Some p \<Longrightarrow> is_concrete_platform p"
  by (auto simp: provider_platform_def concrete_names split: if_splits)

lemma name_platform_concrete: "name_platform s = Some p \<Longrightarrow> is_concrete_platform p"
  by (auto simp: name_platform_def concrete_names split: if_splits)

lemma detected_concrete: "detect_model_platform uni m = Some p \<Longrightarrow> is_concrete_platform p"
  by (auto simp: detect_model_platform_def Let_def dest: provider_platform_concrete name_platform_concrete
      split: option.splits if_splits)

lemma is_concrete_not_Nil: "is_concrete_platform p \<Longrightarrow> p \<noteq> []"
  by (auto simp: concrete_names platform_names)

lemma concrete_trim: "is_concrete_platform p \<Longrightarrow> trim_space p = p"
  by (rule trim_space_graphic) (auto simp: concrete_names platform_names)

end
