(* ===== verification/Failover.thy ===== *)
theory Failover
  imports GoFloats Platforms
begin

text \<open>
  The failover of a gateway request between accounts (\<^verbatim>\<open>handler/failover_loop.go\<close>) and the loop
  of the handlers around it (\<^verbatim>\<open>handler/gateway_systemone.go\<close> and
  \<^verbatim>\<open>handler/gateway_handler_chat_completions.go\<close>): an account is selected outside the excluded ones,
  it may be vetoed by the profit control, its forward may fail, and then the failover state decides
  whether the same account is tried again, another one is selected, or the request ends.
\<close>

section \<open>What a failed forward says\<close>

datatype next_account_action = Legacy_retry | Next_retry | Next_stop

text \<open>The fields of \<^verbatim>\<open>UpstreamFailoverError\<close> the failover reads; \<open>uf_retry_deadline\<close> is 0 when unset.\<close>

record upstream_failure =
  uf_status :: int
  uf_force_cache :: bool
  uf_retryable :: bool
  uf_retry_delay :: duration
  uf_retry_deadline :: instant
  uf_retry_max :: int
  uf_request_scoped :: bool
  uf_next :: next_account_action

definition should_retry_next_account :: "upstream_failure option \<Rightarrow> bool" where
  "should_retry_next_account f =
     (case f of None \<Rightarrow> False | Some e \<Rightarrow> uf_next e \<noteq> Next_stop)"

section \<open>How often an account is tried again\<close>

text \<open>
  A value of the JSON object of credentials, as far as the retry count looks at it. A JSON float is
  finite, so it is a rational; \<open>int(v)\<close> truncates towards zero.
\<close>

datatype credential_value =
    Cred_null
  | Cred_bool bool
  | Cred_int int
  | Cred_float rat
  | Cred_number string
  | Cred_string string
  | Cred_other

record retry_account =
  ra_id :: int
  ra_platform :: string
  ra_type :: string
  ra_credentials :: "(string, credential_value) gomap option"

definition default_pool_retries :: int where
  "default_pool_retries = 3"

definition max_pool_retries :: int where
  "max_pool_retries = 10"

definition is_api_key_or_bedrock :: "retry_account \<Rightarrow> bool" where
  "is_api_key_or_bedrock a \<longleftrightarrow> ra_type a = ''apikey'' \<or> ra_type a = ''bedrock''"

definition is_pool_mode :: "retry_account \<Rightarrow> bool" where
  "is_pool_mode a =
     (if \<not> is_api_key_or_bedrock a then False
      else case ra_credentials a of
             None \<Rightarrow> False
           | Some m \<Rightarrow> (case map_of m ''pool_mode'' of Some (Cred_bool b) \<Rightarrow> b | _ \<Rightarrow> False))"

fun parse_pool_retries :: "credential_value \<Rightarrow> int" where
  "parse_pool_retries (Cred_int i) = i"
| "parse_pool_retries (Cred_float q) = truncate_rat q"
| "parse_pool_retries (Cred_number s) = (case go_atoi s of Some i \<Rightarrow> i | None \<Rightarrow> default_pool_retries)"
| "parse_pool_retries (Cred_string s) =
     (case go_atoi (trim_space s) of Some i \<Rightarrow> i | None \<Rightarrow> default_pool_retries)"
| "parse_pool_retries _ = default_pool_retries"

definition pool_retry_count :: "retry_account option \<Rightarrow> int" where
  "pool_retry_count account =
     (case account of None \<Rightarrow> default_pool_retries
      | Some a \<Rightarrow>
          if \<not> is_pool_mode a then default_pool_retries
          else case ra_credentials a of
                 None \<Rightarrow> default_pool_retries
               | Some m \<Rightarrow> (case map_of m ''pool_mode_retry_count'' of
                     None \<Rightarrow> default_pool_retries
                   | Some Cred_null \<Rightarrow> default_pool_retries
                   | Some v \<Rightarrow> (let n = parse_pool_retries v
                       in if n < 0 then 0 else if max_pool_retries < n then max_pool_retries else n)))"

definition effective_retry_limit :: "upstream_failure option \<Rightarrow> retry_account option \<Rightarrow> int" where
  "effective_retry_limit f account =
     (case account of None \<Rightarrow> 0
      | Some a \<Rightarrow>
          (let limit = pool_retry_count account
           in case f of
                None \<Rightarrow> limit
              | Some e \<Rightarrow> if 0 < limit \<and> 0 < uf_retry_max e \<and> uf_retry_max e < limit then uf_retry_max e
                          else limit))"

definition retry_deadline_allows :: "instant \<Rightarrow> upstream_failure option \<Rightarrow> bool" where
  "retry_deadline_allows now f =
     (case f of None \<Rightarrow> True
      | Some e \<Rightarrow> is_zero_time (uf_retry_deadline e) \<or> now < uf_retry_deadline e)"

definition same_account_retry_allowed :: "instant \<Rightarrow> upstream_failure option \<Rightarrow> int \<Rightarrow> int \<Rightarrow> bool" where
  "same_account_retry_allowed now f tries limit =
     (case f of None \<Rightarrow> False
      | Some e \<Rightarrow>
          if \<not> uf_retryable e then False
          else if \<not> retry_deadline_allows now f then False
          else if 0 < uf_retry_max e then
            (if limit \<le> 0 then False
             else tries < (if uf_retry_max e < limit then uf_retry_max e else limit))
          else if \<not> is_zero_time (uf_retry_deadline e) then True
          else 0 < limit \<and> tries < limit)"

section \<open>How long it waits\<close>

definition same_account_retry_delay :: duration where
  "same_account_retry_delay = 500 * millisecond"

definition max_request_scoped_delay :: duration where
  "max_request_scoped_delay = 8 * second"

definition single_account_backoff :: duration where
  "single_account_backoff = 2 * second"

text \<open>The loop that doubles the delay, with the number of rounds left.\<close>

primrec doubled_delay :: "nat \<Rightarrow> duration \<Rightarrow> duration" where
  "doubled_delay 0 d = d"
| "doubled_delay (Suc n) d =
     (if go_quot max_request_scoped_delay 2 \<le> d then max_request_scoped_delay else doubled_delay n (2 * d))"

definition retry_delay_for :: "upstream_failure option \<Rightarrow> int \<Rightarrow> duration" where
  "retry_delay_for f tries =
     (case f of None \<Rightarrow> same_account_retry_delay
      | Some e \<Rightarrow>
          if 0 < uf_retry_delay e then uf_retry_delay e
          else if \<not> uf_request_scoped e \<or> tries \<le> 1 then same_account_retry_delay
          else doubled_delay (nat (tries - 1)) same_account_retry_delay)"

text \<open>\<open>interrupted\<close> says that the context is done before the time has passed.\<close>

definition sleep_with_context :: "bool \<Rightarrow> duration \<Rightarrow> bool" where
  "sleep_with_context interrupted d = (if d \<le> 0 then True else \<not> interrupted)"

section \<open>The failover state\<close>

datatype failover_action = Failover_continue | Failover_exhausted | Failover_canceled

text \<open>
  What the failover does to the outside: it sleeps, or takes an account out of scheduling until an
  instant. A missing entry of the retry counts reads as 0.
\<close>

datatype failover_effect = Slept duration | Unscheduled int instant string

record failover_state =
  switch_count :: int
  max_switches :: int
  failed_ids :: "int set"
  retry_counts :: "int \<rightharpoonup> int"
  last_failure :: "upstream_failure option"
  force_cache :: bool
  bound_session :: bool
  vetoed_ids :: "int set"
  veto_count :: int

definition new_failover_state :: "int \<Rightarrow> bool \<Rightarrow> failover_state" where
  "new_failover_state maximum bound =
     \<lparr>switch_count = 0, max_switches = maximum, failed_ids = {}, retry_counts = Map.empty,
      last_failure = None, force_cache = False, bound_session = bound, vetoed_ids = {}, veto_count = 0\<rparr>"

definition retries_of :: "failover_state \<Rightarrow> int \<Rightarrow> int" where
  "retries_of s aid = (case retry_counts s aid of None \<Rightarrow> 0 | Some n \<Rightarrow> n)"

definition max_profit_vetoes :: int where
  "max_profit_vetoes = 10"

definition record_profit_veto :: "int \<Rightarrow> failover_state \<Rightarrow> failover_action \<times> failover_state" where
  "record_profit_veto aid s =
     (let s1 = s\<lparr>failed_ids := insert aid (failed_ids s), vetoed_ids := insert aid (vetoed_ids s),
                 veto_count := veto_count s + 1\<rparr>
      in (if max_profit_vetoes \<le> veto_count s1 then Failover_exhausted else Failover_continue, s1))"

definition all_exclusions_vetoed :: "failover_state \<Rightarrow> bool" where
  "all_exclusions_vetoed s =
     (if vetoed_ids s = {} \<or> failed_ids s = {} then False else failed_ids s \<subseteq> vetoed_ids s)"

definition need_force_cache_billing :: "bool \<Rightarrow> upstream_failure option \<Rightarrow> bool \<Rightarrow> bool" where
  "need_force_cache_billing bound f again \<longleftrightarrow>
     (bound \<and> \<not> again) \<or> (case f of None \<Rightarrow> False | Some e \<Rightarrow> uf_force_cache e)"

text \<open>
  The service takes an account out of scheduling only for the two states of the upstream that blame
  the account. The calls of \<open>time.Now\<close> of one invocation read one instant.
\<close>

definition google_config_cooldown :: duration where
  "google_config_cooldown = 1 * minute"

definition empty_response_cooldown :: duration where
  "empty_response_cooldown = 1 * minute"

definition unschedule_google_config :: "instant \<Rightarrow> int \<Rightarrow> failover_effect" where
  "unschedule_google_config now aid =
     Unscheduled aid (now + google_config_cooldown) ''400: invalid project resource name (auto temp-unschedule 1m)''"

definition unschedule_empty_response :: "instant \<Rightarrow> int \<Rightarrow> failover_effect" where
  "unschedule_empty_response now aid =
     Unscheduled aid (now + empty_response_cooldown) ''empty stream response (auto temp-unschedule 1m)''"

definition temp_unschedule :: "instant \<Rightarrow> int \<Rightarrow> upstream_failure option \<Rightarrow> failover_effect list" where
  "temp_unschedule now aid f =
     (case f of None \<Rightarrow> []
      | Some e \<Rightarrow>
          if \<not> uf_retryable e then []
          else if uf_request_scoped e then []
          else if uf_status e = 400 then [unschedule_google_config now aid]
          else if uf_status e = 502 then [unschedule_empty_response now aid]
          else [])"

definition handle_failover_error ::
  "bool \<Rightarrow> bool \<Rightarrow> instant \<Rightarrow> int \<Rightarrow> string \<Rightarrow> int \<Rightarrow> upstream_failure option \<Rightarrow> failover_state
     \<Rightarrow> failover_action \<times> failover_effect list \<times> failover_state" where
  "handle_failover_error gone interrupted now aid platform limit f s =
     (if gone then (Failover_canceled, [], s)
      else
        let s1 = s\<lparr>last_failure := f\<rparr>
        in if \<not> should_retry_next_account f then (Failover_exhausted, [], s1)
        else
          let tries = retries_of s1 aid;
              again = same_account_retry_allowed now f tries limit;
              s2 = (if need_force_cache_billing (bound_session s1) f again then s1\<lparr>force_cache := True\<rparr> else s1)
          in if again then
               (let s3 = s2\<lparr>retry_counts := (retry_counts s2)(aid \<mapsto> retries_of s2 aid + 1)\<rparr>;
                    d = retry_delay_for f (retries_of s3 aid)
                in (if \<not> sleep_with_context interrupted d then Failover_canceled else Failover_continue,
                    [Slept d], s3))
             else
               (let effs = (case f of None \<Rightarrow> []
                            | Some e \<Rightarrow> if uf_retryable e then temp_unschedule now aid f else []);
                    s3 = s2\<lparr>failed_ids := insert aid (failed_ids s2)\<rparr>
                in if max_switches s3 \<le> switch_count s3 then (Failover_exhausted, effs, s3)
                   else
                     let s4 = s3\<lparr>switch_count := switch_count s3 + 1\<rparr>
                     in if platform = platform_antigravity then
                          (let d = (switch_count s4 - 1) * second
                           in (if \<not> sleep_with_context interrupted d then Failover_canceled
                               else Failover_continue, effs @ [Slept d], s4))
                        else (Failover_continue, effs, s4)))"

definition handle_selection_exhausted ::
  "bool \<Rightarrow> bool \<Rightarrow> failover_state \<Rightarrow> failover_action \<times> failover_effect list \<times> failover_state" where
  "handle_selection_exhausted gone interrupted s =
     (if gone then (Failover_canceled, [], s)
      else if (case last_failure s of None \<Rightarrow> False | Some e \<Rightarrow> uf_status e = 503) \<and> switch_count s \<le> max_switches s then
        (if all_exclusions_vetoed s then (Failover_exhausted, [], s)
         else if \<not> sleep_with_context interrupted single_account_backoff then
           (Failover_canceled, [Slept single_account_backoff], s)
         else (Failover_continue, [Slept single_account_backoff], s\<lparr>failed_ids := vetoed_ids s\<rparr>))
      else (Failover_exhausted, [], s))"

section \<open>The loop of a handler\<close>

text \<open>
  What the handler meets in one round. The booleans of \<open>Selection_failed\<close> and \<open>Forward_failed\<close> say whether the
  client is gone and whether it leaves during the sleep. \<open>Account_skipped\<close> is an account of another
  platform in a Gemini group, which only the chat-completions handler drops at this place. All other ways
  out of the loop (an answer, an error that is no failover, no slot) are \<open>Request_ended\<close>.
\<close>

datatype loop_event =
    Client_left
  | Selection_failed bool bool
  | Account_vetoed int
  | Account_skipped int
  | Forward_failed retry_account upstream_failure bool bool instant
  | Request_ended

datatype loop_end =
    End_gone
  | End_no_account
  | End_vetoed
  | End_failover "upstream_failure option"
  | End_other

definition loop_select_failed ::
  "bool \<Rightarrow> bool \<Rightarrow> failover_state \<Rightarrow> failover_effect list \<times> (loop_end + failover_state)" where
  "loop_select_failed gone interrupted s =
     (if gone then ([], Inl End_gone)
      else if failed_ids s = {} then ([], Inl End_no_account)
      else (case handle_selection_exhausted gone interrupted s of (action, effs, s1) \<Rightarrow>
        (case action of
           Failover_continue \<Rightarrow> (effs, Inr s1)
         | Failover_canceled \<Rightarrow> (effs, Inl End_gone)
         | Failover_exhausted \<Rightarrow> (effs, Inl (End_failover (last_failure s1))))))"

definition loop_vetoed :: "int \<Rightarrow> failover_state \<Rightarrow> failover_effect list \<times> (loop_end + failover_state)" where
  "loop_vetoed aid s =
     (case record_profit_veto aid s of (action, s1) \<Rightarrow>
        (if action = Failover_exhausted then ([], Inl End_vetoed) else ([], Inr s1)))"

definition loop_skipped :: "int \<Rightarrow> failover_state \<Rightarrow> failover_effect list \<times> (loop_end + failover_state)" where
  "loop_skipped aid s = ([], Inr (s\<lparr>failed_ids := insert aid (failed_ids s)\<rparr>))"

definition loop_forward_failed ::
  "retry_account \<Rightarrow> upstream_failure \<Rightarrow> bool \<Rightarrow> bool \<Rightarrow> instant \<Rightarrow> failover_state
     \<Rightarrow> failover_effect list \<times> (loop_end + failover_state)" where
  "loop_forward_failed a e gone interrupted now s =
     (case handle_failover_error gone interrupted now (ra_id a) (ra_platform a) (pool_retry_count (Some a)) (Some e) s of
        (action, effs, s1) \<Rightarrow>
          (case action of
             Failover_continue \<Rightarrow> (effs, Inr s1)
           | Failover_exhausted \<Rightarrow> (effs, Inl (End_failover (last_failure s1)))
           | Failover_canceled \<Rightarrow> (effs, Inl End_gone)))"

fun failover_round :: "loop_event \<Rightarrow> failover_state \<Rightarrow> failover_effect list \<times> (loop_end + failover_state)" where
  "failover_round Client_left s = ([], Inl End_gone)"
| "failover_round (Selection_failed gone interrupted) s = loop_select_failed gone interrupted s"
| "failover_round (Account_vetoed aid) s = loop_vetoed aid s"
| "failover_round (Account_skipped aid) s = loop_skipped aid s"
| "failover_round (Forward_failed a e gone interrupted now) s = loop_forward_failed a e gone interrupted now s"
| "failover_round Request_ended s = ([], Inl End_other)"

text \<open>The rounds of a request up to the one that ends it; what would come after it does not happen.\<close>

fun failover_run :: "loop_event list \<Rightarrow> failover_state \<Rightarrow> failover_effect list \<times> (loop_end + failover_state)" where
  "failover_run [] s = ([], Inr s)"
| "failover_run (ev # evs) s =
     (case failover_round ev s of (effs, r) \<Rightarrow>
        (case r of
           Inl fin \<Rightarrow> (effs, Inl fin)
         | Inr s1 \<Rightarrow> (case failover_run evs s1 of (effs1, r1) \<Rightarrow> (effs @ effs1, r1))))"

text \<open>The events of a list that really happen.\<close>

fun rounds_run :: "loop_event list \<Rightarrow> failover_state \<Rightarrow> loop_event list" where
  "rounds_run [] s = []"
| "rounds_run (ev # evs) s =
     ev # (case snd (failover_round ev s) of Inl fin \<Rightarrow> [] | Inr s1 \<Rightarrow> rounds_run evs s1)"

section \<open>The limits of retries and delays\<close>

lemma pool_retry_count_bounds: "0 \<le> pool_retry_count a \<and> pool_retry_count a \<le> max_pool_retries"
  by (auto simp: pool_retry_count_def default_pool_retries_def max_pool_retries_def Let_def
      split: option.splits credential_value.splits)

lemma effective_limit_le: "effective_retry_limit f a \<le> pool_retry_count a"
  using pool_retry_count_bounds [of a]
  by (auto simp: effective_retry_limit_def Let_def split: option.splits)

lemma retry_allowed_below:
  assumes "same_account_retry_allowed now f tries limit" "\<forall>e. f = Some e \<longrightarrow> is_zero_time (uf_retry_deadline e)"
  shows "tries < limit"
  using assms by (auto simp: same_account_retry_allowed_def split: option.splits if_splits)

lemma doubled_delay_eq:
  assumes "0 \<le> d"
  shows "d \<le> max_request_scoped_delay \<Longrightarrow> doubled_delay n d = min (2 ^ n * d) max_request_scoped_delay"
  using assms
proof (induction n arbitrary: d)
  case (Suc n)
  have half: "go_quot 8000000000 2 = 4000000000" "max_request_scoped_delay = 8000000000"
    by (simp_all add: go_quot_def max_request_scoped_delay_def second_def)
  have "(1 :: int) \<le> 2 ^ n" by simp
  show ?case
  proof (cases "4000000000 \<le> d")
    case True
    with \<open>1 \<le> 2 ^ n\<close> have "4000000000 \<le> 2 ^ n * d"
      by (meson Suc.prems(2) mult_le_cancel_right1 order_trans not_less)
    then show ?thesis using True by (simp add: half)
  next
    case False
    with Suc.prems show ?thesis by (simp add: Suc.IH half mult.commute mult.left_commute)
  qed
qed simp

lemma backoff_closed_form:
  assumes "uf_request_scoped e" "uf_retry_delay e \<le> 0" "1 \<le> tries"
  shows "retry_delay_for (Some e) tries =
           min (2 ^ nat (tries - 1) * same_account_retry_delay) max_request_scoped_delay"
proof (cases "tries = 1")
  case True
  with assms show ?thesis
    by (simp add: retry_delay_for_def same_account_retry_delay_def max_request_scoped_delay_def time_defs)
next
  case False
  with assms show ?thesis
    by (simp add: retry_delay_for_def doubled_delay_eq same_account_retry_delay_def
        max_request_scoped_delay_def time_defs)
qed

section \<open>What a round that goes on does\<close>

lemma failover_round_cases:
  assumes "failover_round ev s = (effs, Inr s1)"
  obtains
    (backoff) interrupted where "ev = Selection_failed False interrupted" "failed_ids s \<noteq> {}"
      "\<not> all_exclusions_vetoed s" "s1 = s\<lparr>failed_ids := vetoed_ids s\<rparr>"
  | (veto) aid where "ev = Account_vetoed aid" "veto_count s + 1 < max_profit_vetoes"
      "s1 = s\<lparr>failed_ids := insert aid (failed_ids s), vetoed_ids := insert aid (vetoed_ids s),
              veto_count := veto_count s + 1\<rparr>"
  | (skip) aid where "ev = Account_skipped aid" "s1 = s\<lparr>failed_ids := insert aid (failed_ids s)\<rparr>"
  | (again) a e interrupted now where "ev = Forward_failed a e False interrupted now"
      "same_account_retry_allowed now (Some e) (retries_of s (ra_id a)) (pool_retry_count (Some a))"
      "s1 = s\<lparr>last_failure := Some e, force_cache := force_cache s \<or> uf_force_cache e,
              retry_counts := (retry_counts s)(ra_id a \<mapsto> retries_of s (ra_id a) + 1)\<rparr>"
  | (switch) a e interrupted now where "ev = Forward_failed a e False interrupted now"
      "switch_count s < max_switches s"
      "s1 = s\<lparr>last_failure := Some e, force_cache := force_cache s \<or> bound_session s \<or> uf_force_cache e,
              failed_ids := insert (ra_id a) (failed_ids s), switch_count := switch_count s + 1\<rparr>"
proof (cases ev)
  case (Selection_failed gone interrupted)
  with assms show ?thesis
    by (intro backoff [of interrupted])
      (auto simp: loop_select_failed_def handle_selection_exhausted_def
        split: if_splits option.splits failover_action.splits)
next
  case (Account_vetoed aid)
  with assms show ?thesis
    by (intro veto [of aid]) (auto simp: loop_vetoed_def record_profit_veto_def Let_def split: if_splits)
next
  case (Account_skipped aid)
  with assms show ?thesis by (auto simp: loop_skipped_def intro!: skip)
next
  case (Forward_failed a e gone interrupted now)
  let ?again = "same_account_retry_allowed now (Some e) (retries_of s (ra_id a)) (pool_retry_count (Some a))"
  have r [simp]: "retries_of (s\<lparr>last_failure := x\<rparr>) i = retries_of s i"
    "retries_of (s\<lparr>last_failure := x, force_cache := b\<rparr>) i = retries_of s i" for x b i
    by (simp_all add: retries_of_def)
  have "\<not> gone" using assms Forward_failed
    by (auto simp: loop_forward_failed_def handle_failover_error_def)
  show ?thesis
  proof (cases ?again)
    case True
    with assms Forward_failed \<open>\<not> gone\<close> show ?thesis
      by (intro again [of a e interrupted now])
        (auto simp: loop_forward_failed_def handle_failover_error_def need_force_cache_billing_def Let_def
          split: if_splits failover_action.splits)
  next
    case False
    with assms Forward_failed \<open>\<not> gone\<close> show ?thesis
      by (intro switch [of a e interrupted now])
        (auto simp: loop_forward_failed_def handle_failover_error_def need_force_cache_billing_def Let_def
          split: if_splits failover_action.splits)
  qed
qed (use assms in simp_all)

lemma failover_run_Cons_Inr:
  "failover_run (ev # evs) s = (effs, Inr t) \<longleftrightarrow>
     (\<exists>effs0 s1 effs1. failover_round ev s = (effs0, Inr s1) \<and> failover_run evs s1 = (effs1, Inr t)
        \<and> effs = effs0 @ effs1)"
  by (auto split: prod.splits sum.splits)

lemma failover_run_append:
  "failover_run evs s = (effs, Inr s1) \<Longrightarrow>
     failover_run (evs @ evs') s = (effs @ fst (failover_run evs' s1), snd (failover_run evs' s1))"
  by (induction evs arbitrary: s effs) (auto split: prod.splits sum.splits)

declare failover_run.simps(2) [simp del]

lemma failover_run_split:
  assumes "failover_run (us @ ev # vs) s = (effs, Inr t)"
  obtains e1 s1 e2 s2 e3 where "failover_run us s = (e1, Inr s1)" "failover_round ev s1 = (e2, Inr s2)"
    "failover_run vs s2 = (e3, Inr t)"
proof -
  have "\<exists>e1 s1 e2 s2 e3. failover_run us s = (e1, Inr s1) \<and> failover_round ev s1 = (e2, Inr s2) \<and> failover_run vs s2 = (e3, Inr t)"
    using assms
  proof (induction us arbitrary: s effs)
    case Nil
    then show ?case by (auto simp: failover_run_Cons_Inr)
  next
    case (Cons u us)
    from Cons.prems obtain e0 s0 e where r: "failover_round u s = (e0, Inr s0)" "failover_run (us @ ev # vs) s0 = (e, Inr t)"
      by (auto simp: failover_run_Cons_Inr)
    from Cons.IH [OF r(2)] obtain e1 s1 e2 s2 e3 where "failover_run us s0 = (e1, Inr s1)" "failover_round ev s1 = (e2, Inr s2)"
      "failover_run vs s2 = (e3, Inr t)" by blast
    moreover from this(1) r(1) have "failover_run (u # us) s = (e0 @ e1, Inr s1)" unfolding failover_run_Cons_Inr by blast
    ultimately show ?case by blast
  qed
  then show ?thesis using that by blast
qed

lemma rounds_run_prefix:
  "\<exists>rest. evs = rounds_run evs s @ rest"
  by (induction evs arbitrary: s) (auto split: sum.splits)

section \<open>Every request ends\<close>

text \<open>
  What is left to do: the retries of the accounts of the pool, a switch with the back-off it may cause, the
  vetoes, and whether an excluded account is not vetoed, which one more back-off needs.
\<close>

definition retries_left :: "nat \<Rightarrow> int set \<Rightarrow> failover_state \<Rightarrow> nat" where
  "retries_left r accounts s = (\<Sum>a\<in>accounts. nat (int r - retries_of s a))"

definition rounds_left :: "nat \<Rightarrow> int set \<Rightarrow> failover_state \<Rightarrow> nat" where
  "rounds_left r accounts s =
     retries_left r accounts s + 2 * nat (max_switches s - switch_count s)
     + nat (max_profit_vetoes - 1 - veto_count s) + (if failed_ids s \<subseteq> vetoed_ids s then 0 else 1)"

definition forwards_left :: "nat \<Rightarrow> int set \<Rightarrow> failover_state \<Rightarrow> nat" where
  "forwards_left r accounts s = retries_left r accounts s + nat (max_switches s - switch_count s)"

text \<open>Failed forwards are on accounts of the pool, with retries limited by number only; no account is skipped.\<close>

fun bounded_event :: "nat \<Rightarrow> int set \<Rightarrow> loop_event \<Rightarrow> bool" where
  "bounded_event r accounts (Forward_failed a e gone interrupted now) \<longleftrightarrow>
     ra_id a \<in> accounts \<and> pool_retry_count (Some a) \<le> int r \<and> is_zero_time (uf_retry_deadline e)"
| "bounded_event r accounts (Account_skipped aid) \<longleftrightarrow> False"
| "bounded_event r accounts _ \<longleftrightarrow> True"

fun is_forward :: "loop_event \<Rightarrow> bool" where
  "is_forward (Forward_failed _ _ _ _ _) \<longleftrightarrow> True"
| "is_forward _ \<longleftrightarrow> False"

lemma retries_left_simps [simp]:
  "retries_left r p (s\<lparr>failed_ids := x\<rparr>) = retries_left r p s"
  "retries_left r p (s\<lparr>vetoed_ids := x\<rparr>) = retries_left r p s"
  "retries_left r p (s\<lparr>veto_count := n\<rparr>) = retries_left r p s"
  "retries_left r p (s\<lparr>switch_count := n\<rparr>) = retries_left r p s"
  "retries_left r p (s\<lparr>last_failure := f\<rparr>) = retries_left r p s"
  "retries_left r p (s\<lparr>force_cache := b\<rparr>) = retries_left r p s"
  by (simp_all add: retries_left_def retries_of_def)

lemma retries_left_again:
  assumes "finite p" "a \<in> p" "retries_of s a < int r"
  shows "retries_left r p (s\<lparr>retry_counts := (retry_counts s)(a \<mapsto> retries_of s a + 1)\<rparr>) < retries_left r p s"
proof -
  let ?s = "s\<lparr>retry_counts := (retry_counts s)(a \<mapsto> retries_of s a + 1)\<rparr>"
  have "retries_of ?s b = (if b = a then retries_of s a + 1 else retries_of s b)" for b
    by (simp add: retries_of_def)
  with assms show ?thesis
    unfolding retries_left_def by (intro sum_strict_mono_ex1) auto
qed

lemma round_uses_up:
  assumes "failover_round ev s = (effs, Inr s1)" "finite p" "bounded_event r p ev"
  shows "rounds_left r p s1 < rounds_left r p s"
    and "forwards_left r p s1 + (if is_forward ev then 1 else 0) \<le> forwards_left r p s"
proof -
  from assms(1) have "rounds_left r p s1 < rounds_left r p s \<and>
      forwards_left r p s1 + (if is_forward ev then 1 else 0) \<le> forwards_left r p s"
  proof (cases rule: failover_round_cases)
    case (backoff interrupted)
    moreover from backoff have "\<not> failed_ids s \<subseteq> vetoed_ids s"
      by (auto simp: all_exclusions_vetoed_def split: if_splits)
    ultimately show ?thesis by (simp add: rounds_left_def forwards_left_def)
  next
    case (veto aid)
    then show ?thesis by (auto simp: rounds_left_def forwards_left_def)
  next
    case (again a e interrupted now)
    from again assms(3) have "retries_of s (ra_id a) < pool_retry_count (Some a)"
      by (intro retry_allowed_below [of now "Some e"]) auto
    with again assms have "retries_of s (ra_id a) < int r" "ra_id a \<in> p" by auto
    from retries_left_again [OF assms(2) this(2) this(1)] again have "retries_left r p s1 < retries_left r p s"
      by (simp add: retries_left_def retries_of_def)
    with again show ?thesis by (simp add: rounds_left_def forwards_left_def)
  next
    case (switch a e interrupted now)
    then show ?thesis by (auto simp: rounds_left_def forwards_left_def)
  qed (use assms in auto)
  then show "rounds_left r p s1 < rounds_left r p s"
    and "forwards_left r p s1 + (if is_forward ev then 1 else 0) \<le> forwards_left r p s" by blast+
qed

lemma rounds_bounded:
  assumes "finite p" "list_all (bounded_event r p) (rounds_run evs s)"
  shows "length (rounds_run evs s) \<le> Suc (rounds_left r p s)
    \<and> length (filter is_forward (rounds_run evs s)) \<le> Suc (forwards_left r p s)"
  using assms(2)
proof (induction evs arbitrary: s)
  case (Cons ev evs)
  obtain effs res where round: "failover_round ev s = (effs, res)" by (cases "failover_round ev s")
  show ?case
  proof (cases res)
    case (Inl fin)
    with round show ?thesis by simp
  next
    case (Inr s1)
    with round Cons.prems have "bounded_event r p ev" "list_all (bounded_event r p) (rounds_run evs s1)" by simp_all
    with Cons.IH [of s1] round_uses_up [OF round [unfolded Inr] assms(1)] round Inr show ?thesis
      by (fastforce split: if_splits)
  qed
qed simp

lemma new_state_budget:
  "rounds_left r p (new_failover_state m b) = r * card p + 2 * nat m + 9"
  "forwards_left r p (new_failover_state m b) = r * card p + nat m"
  by (simp_all add: rounds_left_def forwards_left_def retries_left_def retries_of_def new_failover_state_def
      max_profit_vetoes_def)

text \<open>C25: A request ends: whatever the upstream, the selection and the profit control do, the loop of a handler
  makes at most \<open>r * n + 2 * m + 10\<close> rounds and at most \<open>r * n + m + 1\<close> forwards over \<open>n\<close> accounts with \<open>m\<close>
  switches and \<open>r\<close> retries each, if failures carry no deadline and no account is skipped.\<close>

theorem failover_ends:
  assumes "finite p" "list_all (bounded_event r p) (rounds_run evs (new_failover_state m b))"
  shows "length (rounds_run evs (new_failover_state m b)) \<le> r * card p + 2 * nat m + 10
    \<and> length (filter is_forward (rounds_run evs (new_failover_state m b))) \<le> r * card p + nat m + 1"
  using rounds_bounded [OF assms] by (simp add: new_state_budget)

definition demo_account :: "int \<Rightarrow> retry_account" where
  "demo_account i = \<lparr>ra_id = i, ra_platform = ''anthropic'', ra_type = ''apikey'', ra_credentials = None\<rparr>"

definition demo_failure :: "int \<Rightarrow> bool \<Rightarrow> upstream_failure" where
  "demo_failure status again =
     \<lparr>uf_status = status, uf_force_cache = False, uf_retryable = again, uf_retry_delay = 0, uf_retry_deadline = 0,
      uf_retry_max = 0, uf_request_scoped = False, uf_next = Legacy_retry\<rparr>"

definition demo_requests :: "loop_event list" where
  "demo_requests =
     [Forward_failed (demo_account 1) (demo_failure 502 True) False False 0,
      Forward_failed (demo_account 1) (demo_failure 503 False) False False 0,
      Selection_failed False False,
      Account_vetoed 2,
      Forward_failed (demo_account 1) (demo_failure 503 False) False False 0]"

lemma failover_ends_witness:
  "length (rounds_run demo_requests (new_failover_state 1 True)) \<le> 15
    \<and> length (filter is_forward (rounds_run demo_requests (new_failover_state 1 True))) \<le> 5"
proof -
  have "list_all (bounded_event 3 {1}) (rounds_run demo_requests (new_failover_state 1 True))"
    by code_simp
  from failover_ends [OF _ this] show ?thesis by simp
qed

section \<open>A skipped account keeps a request alive\<close>

definition skip_rounds :: "nat \<Rightarrow> int \<Rightarrow> loop_event list" where
  "skip_rounds n b = concat (replicate n [Account_skipped b, Selection_failed False False])"

lemma skip_rounds_run:
  assumes "last_failure s = Some e" "uf_status e = 503" "switch_count s \<le> max_switches s" "vetoed_ids s = {}"
  shows "failover_run (skip_rounds (Suc n) b) s =
           (replicate (Suc n) (Slept (2 * second)), Inr (s\<lparr>failed_ids := {}\<rparr>))"
  using assms
proof (induction n arbitrary: s)
  case 0
  then show ?case
    by (simp add: failover_run.simps skip_rounds_def loop_skipped_def loop_select_failed_def handle_selection_exhausted_def
        all_exclusions_vetoed_def sleep_with_context_def single_account_backoff_def)
next
  case (Suc n)
  have "skip_rounds (Suc (Suc n)) b = [Account_skipped b, Selection_failed False False] @ skip_rounds (Suc n) b"
    by (simp add: skip_rounds_def)
  moreover have "failover_run [Account_skipped b, Selection_failed False False] s =
      ([Slept (2 * second)], Inr (s\<lparr>failed_ids := {}\<rparr>))"
    using Suc.prems
    by (simp add: failover_run.simps loop_skipped_def loop_select_failed_def handle_selection_exhausted_def
        all_exclusions_vetoed_def sleep_with_context_def single_account_backoff_def)
  ultimately show ?case using Suc.IH [of "s\<lparr>failed_ids := {}\<rparr>"] Suc.prems
    by (simp add: failover_run_append del: append.simps)
qed

text \<open>C26: A chat-completions request of a Gemini group can wait forever: after one answer 503 an account of another
  platform, which is excluded without counting, and the empty selection after it alternate for any number of
  rounds, with two seconds of sleep each; no account is ever switched to and nothing is excluded afterwards.\<close>

theorem skipped_account_livelock:
  assumes "uf_status e = 503" "\<not> uf_retryable e" "uf_next e \<noteq> Next_stop"
    and "ra_platform a \<noteq> platform_antigravity" "0 < m"
  shows "\<exists>t. failover_run (Forward_failed a e False False now # skip_rounds (Suc n) b) (new_failover_state m False) =
               (replicate (Suc n) (Slept (2 * second)), Inr t)
             \<and> failed_ids t = {} \<and> switch_count t = 1"
proof -
  define s where "s = (new_failover_state m False)
    \<lparr>last_failure := Some e, force_cache := uf_force_cache e, failed_ids := {ra_id a}, switch_count := 1\<rparr>"
  have "failover_round (Forward_failed a e False False now) (new_failover_state m False) = ([], Inr s)"
    using assms
    by (auto simp: s_def loop_forward_failed_def handle_failover_error_def same_account_retry_allowed_def
        should_retry_next_account_def need_force_cache_billing_def new_failover_state_def Let_def)
  moreover have "failover_run (skip_rounds (Suc n) b) s =
      (replicate (Suc n) (Slept (2 * second)), Inr (s\<lparr>failed_ids := {}\<rparr>))"
    using assms by (intro skip_rounds_run [of _ e]) (simp_all add: s_def new_failover_state_def)
  ultimately show ?thesis by (simp add: s_def failover_run.simps)
qed

lemma skipped_account_livelock_witness:
  "\<exists>t. failover_run (Forward_failed (demo_account 1) (demo_failure 503 False) False False 0 # skip_rounds (Suc 99) 2)
         (new_failover_state 10 False) = (replicate (Suc 99) (Slept (2 * second)), Inr t)
       \<and> failed_ids t = {} \<and> switch_count t = 1"
  by (rule skipped_account_livelock)
    (simp_all add: demo_failure_def demo_account_def platform_antigravity_def)

section \<open>What a run leaves behind\<close>

lemma continuing_run_invariant:
  assumes "failover_run evs s = (effs, Inr t)"
    and "I s" "\<And>ev x effs y. ev \<in> set evs \<Longrightarrow> failover_round ev x = (effs, Inr y) \<Longrightarrow> I x \<Longrightarrow> I y"
  shows "I t"
  using assms
proof (induction evs arbitrary: s effs)
  case (Cons ev evs)
  from Cons.prems(1) obtain effs0 s1 effs1 where
    "failover_round ev s = (effs0, Inr s1)" "failover_run evs s1 = (effs1, Inr t)"
    by (auto simp: failover_run_Cons_Inr)
  with Cons show ?case by (metis list.set_intros)
qed simp

lemma round_keeps_vetoed:
  assumes "failover_round ev s = (effs, Inr s1)" "vetoed_ids s \<subseteq> failed_ids s"
  shows "vetoed_ids s1 \<subseteq> failed_ids s1 \<and> vetoed_ids s \<subseteq> vetoed_ids s1"
  using assms by (cases rule: failover_round_cases) auto

text \<open>An account the profit control vetoed stays excluded for the rest of the request, also
  after a back-off has cleared the other exclusions.\<close>

theorem vetoed_stays_excluded:
  assumes "failover_run evs (new_failover_state m b) = (effs, Inr t)" "Account_vetoed aid \<in> set evs"
  shows "aid \<in> failed_ids t"
proof -
  from assms(2) obtain us vs where evs: "evs = us @ Account_vetoed aid # vs" by (meson split_list)
  obtain e1 s1 e2 s2 e3 where
    r: "failover_run us (new_failover_state m b) = (e1, Inr s1)"
      "failover_round (Account_vetoed aid) s1 = (e2, Inr s2)" "failover_run vs s2 = (e3, Inr t)"
    by (rule failover_run_split [OF assms(1) [unfolded evs]])
  have "vetoed_ids s1 \<subseteq> failed_ids s1"
    by (rule continuing_run_invariant [OF r(1)]) (auto simp: new_failover_state_def dest: round_keeps_vetoed)
  with r(2) have "vetoed_ids s2 \<subseteq> failed_ids s2 \<and> aid \<in> vetoed_ids s2"
    by (cases rule: failover_round_cases) auto
  then have "vetoed_ids t \<subseteq> failed_ids t \<and> aid \<in> vetoed_ids t"
    by (rule continuing_run_invariant [OF r(3)]) (use round_keeps_vetoed in blast)
  then show ?thesis by blast
qed

definition demo_veto_run :: "loop_event list" where
  "demo_veto_run =
     [Account_vetoed 2, Forward_failed (demo_account 1) (demo_failure 503 False) False False 0, Selection_failed False False]"

lemma vetoed_stays_excluded_witness:
  "\<exists>t effs. failover_run demo_veto_run (new_failover_state 3 True) = (effs, Inr t) \<and> 2 \<in> failed_ids t \<and> 1 \<notin> failed_ids t"
proof -
  obtain t effs where r: "failover_run demo_veto_run (new_failover_state 3 True) = (effs, Inr t)"
    and "1 \<notin> failed_ids t"
    by (auto simp: failover_run.simps demo_veto_run_def demo_account_def demo_failure_def loop_vetoed_def record_profit_veto_def
        new_failover_state_def loop_forward_failed_def handle_failover_error_def should_retry_next_account_def
        same_account_retry_allowed_def need_force_cache_billing_def loop_select_failed_def Let_def
        handle_selection_exhausted_def all_exclusions_vetoed_def sleep_with_context_def max_profit_vetoes_def
        platform_antigravity_def)
  moreover from vetoed_stays_excluded [OF r, of 2] have "2 \<in> failed_ids t" by (simp add: demo_veto_run_def)
  ultimately show ?thesis by blast
qed

fun flagged_failure :: "loop_event \<Rightarrow> bool" where
  "flagged_failure (Forward_failed a e gone interrupted now) \<longleftrightarrow> uf_force_cache e"
| "flagged_failure _ \<longleftrightarrow> False"

lemma round_force_cache:
  assumes "failover_round ev s = (effs, Inr s1)" "0 \<le> switch_count s"
  shows "force_cache s1 \<longleftrightarrow> force_cache s \<or> flagged_failure ev \<or> bound_session s \<and> switch_count s < switch_count s1"
    and "bound_session s1 = bound_session s" "switch_count s \<le> switch_count s1"
  using assms by (cases rule: failover_round_cases; auto)+

text \<open>Input tokens are billed as cache reads exactly if a request of a bound session has counted a switch or
  a failure asked for it. A switch is counted when an account is given up, so it also counts when a back-off
  clears the exclusions and the same account serves the request after all.\<close>

theorem forced_cache_exact:
  assumes "failover_run evs (new_failover_state m b) = (effs, Inr t)"
  shows "force_cache t \<longleftrightarrow> b \<and> 0 < switch_count t \<or> (\<exists>ev \<in> set evs. flagged_failure ev)"
proof -
  have "force_cache t \<longleftrightarrow> force_cache s \<or> bound_session s \<and> switch_count s < switch_count t
      \<or> (\<exists>ev \<in> set evs. flagged_failure ev)"
    if "failover_run evs s = (effs, Inr t)" "0 \<le> switch_count s" for s effs
    using that
  proof (induction evs arbitrary: s effs)
    case (Cons ev evs)
    from Cons.prems(1) obtain effs0 s1 effs1 where
      r: "failover_round ev s = (effs0, Inr s1)" "failover_run evs s1 = (effs1, Inr t)"
      by (auto simp: failover_run_Cons_Inr)
    note st = round_force_cache [OF r(1) Cons.prems(2)]
    have "switch_count s1 \<le> switch_count t"
      using continuing_run_invariant [OF r(2), of "\<lambda>x. switch_count s1 \<le> switch_count x \<and> 0 \<le> switch_count x"]
        round_force_cache(3) Cons.prems(2) st(3) by (meson order_trans order_refl)
    with Cons.IH [OF r(2)] st Cons.prems(2) show ?case by auto
  qed simp
  from this [OF assms] show ?thesis by (simp add: new_failover_state_def)
qed

end
