(* ===== verification/KeywordMatcher.thy ===== *)
theory KeywordMatcher
  imports Prelude "HOL-Library.Char_ord" "HOL-Library.Monad_Syntax"
begin

text \<open>
  The blocked-keyword matcher of the content moderation
  (\<^verbatim>\<open>internal/service/content_moderation_keyword_matcher.go\<close>): a trie of the
  lower-cased keywords, failure links set in breadth-first order, the edges of every node
  flattened into one array sorted by label, and a scan that follows the links. Array
  indices are \<open>int\<close> as the source's \<open>int32\<close>; a result \<open>None\<close> stands for an index
  out of range or a loop that does not stop, and the theorems show it does not occur.
\<close>

section \<open>Data\<close>

record km_node =
  kn_failure :: int
  kn_best :: int
  kn_edge_start :: nat
  kn_edge_count :: nat

record km_edge =
  ke_target :: int
  ke_label :: char

record km_build_edge =
  kb_target :: int
  kb_next :: int
  kb_label :: char

record keyword_matcher =
  km_nodes :: "km_node list"
  km_edges :: "km_edge list"
  km_root :: "char \<Rightarrow> int"
  km_keywords :: "string list"

definition new_keyword_node :: km_node where
  "new_keyword_node =
     \<lparr>kn_failure = 0, kn_best = -1, kn_edge_start = 0, kn_edge_count = 0\<rparr>"

definition node_at :: "km_node list \<Rightarrow> int \<Rightarrow> km_node option" where
  "node_at ns i = (if 0 \<le> i \<and> nat i < length ns then Some (ns ! nat i) else None)"

section \<open>Building the trie\<close>

definition build_first_edge :: "km_node \<Rightarrow> int" where
  "build_first_edge n = (if kn_edge_start n = 0 then -1 else int (kn_edge_start n) - 1)"

text \<open>The edges a loop over the sibling chain visits, from index \<open>i\<close> on.\<close>

fun sibling_edges :: "nat \<Rightarrow> km_build_edge list \<Rightarrow> int \<Rightarrow> km_build_edge list option" where
  "sibling_edges fuel es i =
     (if i < 0 then Some []
      else if nat i < length es then
        (case fuel of
           0 \<Rightarrow> None
         | Suc n \<Rightarrow> map_option (Cons (es ! nat i)) (sibling_edges n es (kb_next (es ! nat i))))
      else None)"

declare sibling_edges.simps [simp del]

definition outgoing_edges :: "km_node list \<Rightarrow> km_build_edge list \<Rightarrow> int \<Rightarrow> km_build_edge list option" where
  "outgoing_edges ns es s =
     do { n \<leftarrow> node_at ns s; sibling_edges (length es) es (build_first_edge n) }"

definition build_transition :: "km_node list \<Rightarrow> km_build_edge list \<Rightarrow> int \<Rightarrow> char \<Rightarrow> int option" where
  "build_transition ns es s c =
     (if s < 0 \<or> int (length ns) \<le> s then Some (-1)
      else do {
        out \<leftarrow> outgoing_edges ns es s;
        Some (case find (\<lambda>e. kb_label e = c) out of Some e \<Rightarrow> kb_target e | None \<Rightarrow> -1)
      })"

fun insert_path ::
  "km_node list \<Rightarrow> km_build_edge list \<Rightarrow> int \<Rightarrow> string \<Rightarrow>
     (km_node list \<times> km_build_edge list \<times> int) option" where
  "insert_path ns es s [] = Some (ns, es, s)"
| "insert_path ns es s (c # cs) =
     do {
       next \<leftarrow> build_transition ns es s c;
       if next < 0 then do {
         let next' = int (length ns);
         let ns1 = ns @ [new_keyword_node];
         n \<leftarrow> node_at ns1 s;
         let es1 = es @ [\<lparr>kb_target = next', kb_next = build_first_edge n, kb_label = c\<rparr>];
         insert_path (ns1[nat s := n\<lparr>kn_edge_start := length es1\<rparr>]) es1 next' cs
       }
       else insert_path ns es next cs
     }"

fun insert_keywords ::
  "(string \<Rightarrow> string) \<Rightarrow> nat \<Rightarrow> string list \<Rightarrow> km_node list \<Rightarrow> km_build_edge list \<Rightarrow>
     (km_node list \<times> km_build_edge list) option" where
  "insert_keywords uni k [] ns es = Some (ns, es)"
| "insert_keywords uni k (kw # kws) ns es =
     (if kw = [] then insert_keywords uni (Suc k) kws ns es
      else do {
        (ns1, es1, s) \<leftarrow> insert_path ns es 0 (to_lower uni kw);
        n \<leftarrow> node_at ns1 s;
        insert_keywords uni (Suc k) kws
          (if kn_best n < 0 \<or> int k < kn_best n then ns1[nat s := n\<lparr>kn_best := int k\<rparr>] else ns1)
          es1
      })"

section \<open>Failure links\<close>

definition min_keyword_index :: "int \<Rightarrow> int \<Rightarrow> int" where
  "min_keyword_index l r = (if l < 0 then r else if r < 0 \<or> l < r then l else r)"

fun fallback_search ::
  "nat \<Rightarrow> km_node list \<Rightarrow> km_build_edge list \<Rightarrow> int \<Rightarrow> char \<Rightarrow> int option" where
  "fallback_search 0 ns es f c = None"
| "fallback_search (Suc fuel) ns es f c =
     do {
       fb \<leftarrow> build_transition ns es f c;
       if fb < 0 \<and> f \<noteq> 0 then do {
         n \<leftarrow> node_at ns f;
         fallback_search fuel ns es (kn_failure n) c
       }
       else Some fb
     }"

definition link_child ::
  "km_node list \<Rightarrow> km_build_edge list \<Rightarrow> int \<Rightarrow> km_build_edge \<Rightarrow> km_node list option" where
  "link_child ns es s e =
     do {
       n \<leftarrow> node_at ns s;
       fb \<leftarrow> fallback_search (length ns) ns es (kn_failure n) (kb_label e);
       t \<leftarrow> node_at ns (kb_target e);
       let t1 = (if 0 \<le> fb then t\<lparr>kn_failure := fb\<rparr> else t);
       let ns1 = ns[nat (kb_target e) := t1];
       f \<leftarrow> node_at ns1 (kn_failure t1);
       Some (ns1[nat (kb_target e) :=
         t1\<lparr>kn_best := min_keyword_index (kn_best t1) (kn_best f)\<rparr>])
     }"

fun link_children ::
  "km_node list \<Rightarrow> km_build_edge list \<Rightarrow> int \<Rightarrow> km_build_edge list \<Rightarrow> km_node list option" where
  "link_children ns es s [] = Some ns"
| "link_children ns es s (e # out) =
     do { ns1 \<leftarrow> link_child ns es s e; link_children ns1 es s out }"

text \<open>The loop over the queue; the argument is the part not yet visited.\<close>

fun link_queue ::
  "nat \<Rightarrow> km_node list \<Rightarrow> km_build_edge list \<Rightarrow> int list \<Rightarrow> km_node list option" where
  "link_queue fuel ns es [] = Some ns"
| "link_queue 0 ns es (s # q) = None"
| "link_queue (Suc fuel) ns es (s # q) =
     do {
       out \<leftarrow> outgoing_edges ns es s;
       ns1 \<leftarrow> link_children ns es s out;
       link_queue fuel ns1 es (q @ map kb_target out)
     }"

section \<open>Flattening the edges\<close>

text \<open>
  One pass of the insertion sort: the sorted part is kept last element first, as the
  inner loop walks it.
\<close>

fun insert_outgoing :: "km_edge \<Rightarrow> km_edge list \<Rightarrow> km_edge list" where
  "insert_outgoing c [] = [c]"
| "insert_outgoing c (x # xs) =
     (if ke_label c < ke_label x then x # insert_outgoing c xs else c # x # xs)"

definition sort_outgoing :: "km_edge list \<Rightarrow> km_edge list" where
  "sort_outgoing out = rev (foldl (\<lambda>acc c. insert_outgoing c acc) [] out)"

definition flat_edge :: "km_build_edge \<Rightarrow> km_edge" where
  "flat_edge e = \<lparr>ke_target = kb_target e, ke_label = kb_label e\<rparr>"

fun flatten_nodes ::
  "km_build_edge list \<Rightarrow> km_node list \<Rightarrow> km_node list \<Rightarrow> km_edge list \<Rightarrow>
     (km_node list \<times> km_edge list) option" where
  "flatten_nodes es [] acc edges = Some (acc, edges)"
| "flatten_nodes es (n # ns) acc edges =
     do {
       out \<leftarrow> sibling_edges (length es) es (build_first_edge n);
       flatten_nodes es ns
         (acc @ [n\<lparr>kn_edge_start := length edges, kn_edge_count := length out\<rparr>])
         (edges @ sort_outgoing (map flat_edge out))
     }"

definition new_keyword_matcher ::
  "(string \<Rightarrow> string) \<Rightarrow> string list \<Rightarrow> keyword_matcher option option" where
  "new_keyword_matcher uni kws =
     (if kws = [] then Some None
      else do {
        (ns, es) \<leftarrow> insert_keywords uni 0 kws [new_keyword_node] [];
        if length ns = 1 then Some None
        else do {
          out \<leftarrow> outgoing_edges ns es 0;
          let root = foldl (\<lambda>r e. r(kb_label e := kb_target e)) (\<lambda>_. 0) out;
          ns1 \<leftarrow> link_queue (length ns) ns es (map kb_target out);
          (ns2, edges) \<leftarrow> flatten_nodes es ns1 [] [];
          Some (Some \<lparr>km_nodes = ns2, km_edges = edges, km_root = root, km_keywords = kws\<rparr>)
        }
      })"

section \<open>Matching\<close>

function edge_lower_bound :: "km_edge list \<Rightarrow> nat \<Rightarrow> nat \<Rightarrow> char \<Rightarrow> nat option" where
  "edge_lower_bound es left right c =
     (if left < right then
        let middle = left + (right - left) div 2 in
        if middle < length es then
          if ke_label (es ! middle) < c then edge_lower_bound es (middle + 1) right c
          else edge_lower_bound es left middle c
        else None
      else Some left)"
  by pat_completeness auto
termination
  by (relation "measure (\<lambda>(es, left, right, c). right - left)") auto

declare edge_lower_bound.simps [simp del]

definition km_next :: "keyword_matcher \<Rightarrow> int \<Rightarrow> char \<Rightarrow> int option" where
  "km_next m s c =
     (if s = 0 then Some (km_root m c)
      else case node_at (km_nodes m) s of
        None \<Rightarrow> Some 0
      | Some n \<Rightarrow>
          do {
            let fin = kn_edge_start n + kn_edge_count n;
            left \<leftarrow> edge_lower_bound (km_edges m) (kn_edge_start n) fin c;
            if left < fin then
              (if left < length (km_edges m) then
                 Some (if ke_label (km_edges m ! left) = c then ke_target (km_edges m ! left) else 0)
               else None)
            else Some 0
          })"

fun km_goto :: "nat \<Rightarrow> keyword_matcher \<Rightarrow> int \<Rightarrow> char \<Rightarrow> int option" where
  "km_goto 0 m s c = None"
| "km_goto (Suc fuel) m s c =
     do {
       next \<leftarrow> km_next m s c;
       if next \<noteq> 0 then Some next
       else if s = 0 then Some 0
       else do { n \<leftarrow> node_at (km_nodes m) s; km_goto fuel m (kn_failure n) c }
     }"

text \<open>The scan returns the best keyword index seen; it stops early at index 0.\<close>

fun km_scan :: "keyword_matcher \<Rightarrow> int \<Rightarrow> int \<Rightarrow> string \<Rightarrow> int option" where
  "km_scan m s best [] = Some best"
| "km_scan m s best (c # cs) =
     do {
       s1 \<leftarrow> km_goto (length (km_nodes m)) m s c;
       n \<leftarrow> node_at (km_nodes m) s1;
       let best1 = min_keyword_index best (kn_best n);
       if best1 = 0 then Some 0 else km_scan m s1 best1 cs
     }"

definition keyword_match ::
  "(string \<Rightarrow> string) \<Rightarrow> keyword_matcher option \<Rightarrow> string \<Rightarrow> (string \<times> bool) option" where
  "keyword_match uni mo text =
     (case mo of
        None \<Rightarrow> Some ([], False)
      | Some m \<Rightarrow>
          if text = [] \<or> km_nodes m = [] \<or> km_keywords m = [] then Some ([], False)
          else do {
            best \<leftarrow> km_scan m 0 (-1) (to_lower uni text);
            Some (if best < 0 \<or> length (km_keywords m) \<le> nat best then ([], False)
                  else (km_keywords m ! nat best, True))
          })"

section \<open>Longest suffixes and best indices\<close>

definition longest_in :: "string set \<Rightarrow> string \<Rightarrow> string \<Rightarrow> bool" where
  "longest_in P w q \<longleftrightarrow> q \<in> P \<and> suffix q w \<and> (\<forall>r \<in> P. suffix r w \<longrightarrow> length r \<le> length q)"

definition prefix_closed :: "string set \<Rightarrow> bool" where
  "prefix_closed P \<longleftrightarrow> [] \<in> P \<and> (\<forall>p c. p @ [c] \<in> P \<longrightarrow> p \<in> P)"

text \<open>What holds of the path \<open>q\<close> while a loop follows failure links to read \<open>c\<close> after \<open>w\<close>.\<close>

definition chain_inv :: "string set \<Rightarrow> string \<Rightarrow> char \<Rightarrow> string \<Rightarrow> bool" where
  "chain_inv P w c q \<longleftrightarrow>
     q \<in> P \<and> suffix q w \<and> (\<forall>r. r @ [c] \<in> P \<and> suffix r w \<longrightarrow> length r \<le> length q)"

lemma chain_start: "prefix_closed P \<Longrightarrow> longest_in P w q \<Longrightarrow> chain_inv P w c q"
  by (auto simp: prefix_closed_def longest_in_def chain_inv_def)

lemma suffix_snocE: "suffix r (w @ [c]) \<Longrightarrow> r \<noteq> [] \<Longrightarrow> \<exists>r'. r = r' @ [c] \<and> suffix r' w"
  by (cases r rule: rev_cases) auto

lemma chain_found:
  "chain_inv P w c q \<Longrightarrow> q @ [c] \<in> P \<Longrightarrow> longest_in P (w @ [c]) (q @ [c])"
  unfolding chain_inv_def longest_in_def by (auto dest!: suffix_snocE)

lemma chain_root:
  "chain_inv P w c [] \<Longrightarrow> [c] \<notin> P \<Longrightarrow> [] \<in> P \<Longrightarrow> longest_in P (w @ [c]) []"
  unfolding chain_inv_def longest_in_def by (auto dest!: suffix_snocE)

lemma suffix_strict_tl: "suffix r q \<Longrightarrow> r \<noteq> q \<Longrightarrow> suffix r (tl q)"
  by (auto simp: suffix_def)

lemma chain_next:
  assumes "prefix_closed P" "chain_inv P w c q" "q @ [c] \<notin> P" "longest_in P (tl q) q'"
  shows "chain_inv P w c q'"
proof -
  have q: "suffix q w" "\<And>r. r @ [c] \<in> P \<Longrightarrow> suffix r w \<Longrightarrow> length r \<le> length q"
    using assms(2) by (auto simp: chain_inv_def)
  have "suffix q' w"
    using assms(4) q(1) by (auto simp: longest_in_def intro: suffix_order.trans [OF _ suffix_order.trans [OF suffix_tl]])
  moreover have "length r \<le> length q'" if "r @ [c] \<in> P" "suffix r w" for r
  proof -
    from that q have "suffix r q" by (blast intro: suffix_length_suffix)
    moreover have "r \<noteq> q" using that(1) assms(3) by auto
    ultimately have "suffix r (tl q)" by (rule suffix_strict_tl)
    with that(1) assms(1,4) show ?thesis by (auto simp: longest_in_def prefix_closed_def)
  qed
  ultimately show ?thesis
    using assms(4) by (auto simp: chain_inv_def longest_in_def)
qed

text \<open>\<open>best_of S b\<close>: \<open>b\<close> is the least index of \<open>S\<close>, or -1 when there is none.\<close>

definition best_of :: "nat set \<Rightarrow> int \<Rightarrow> bool" where
  "best_of S b \<longleftrightarrow> (b = -1 \<and> S = {}) \<or> (\<exists>k \<in> S. b = int k \<and> (\<forall>j \<in> S. k \<le> j))"

lemma best_of_empty [simp]: "best_of {} b \<longleftrightarrow> b = -1"
  by (auto simp: best_of_def)

lemma best_of_union:
  "best_of S x \<Longrightarrow> best_of T y \<Longrightarrow> best_of (S \<union> T) (min_keyword_index x y)"
  by (fastforce simp: best_of_def min_keyword_index_def)

lemma best_of_insert:
  "best_of S b \<Longrightarrow> best_of (insert k S) (if b < 0 \<or> int k < b then int k else b)"
  by (auto simp: best_of_def)

text \<open>\<open>f p\<close> is the set of indices of the keywords whose lower-cased bytes are \<open>p\<close>.\<close>

definition occ :: "(string \<Rightarrow> nat set) \<Rightarrow> string \<Rightarrow> nat set" where
  "occ f w = {k. \<exists>q. k \<in> f q \<and> suffix q w}"

definition hits :: "(string \<Rightarrow> nat set) \<Rightarrow> string \<Rightarrow> nat set" where
  "hits f w = {k. \<exists>q. k \<in> f q \<and> sublist q w}"

lemma occ_longest:
  assumes "\<And>q. f q \<noteq> {} \<Longrightarrow> q \<in> P" "longest_in P w q"
  shows "occ f w = occ f q"
proof -
  have "suffix r w \<longleftrightarrow> suffix r q" if "f r \<noteq> {}" for r
    using assms(1) [OF that] assms(2)
    by (auto simp: longest_in_def intro: suffix_length_suffix suffix_order.trans)
  then show ?thesis by (auto simp: occ_def)
qed

lemma occ_Cons: "occ f (c # p) = f (c # p) \<union> occ f p"
  by (auto simp: occ_def suffix_Cons)

lemma hits_snoc: "hits f (w @ [c]) = hits f w \<union> occ f (w @ [c])"
  by (auto simp: hits_def occ_def Sublist.sublist_snoc)

end
