(* ===== verification/KeywordTrie.thy ===== *)
theory KeywordTrie
  imports KeywordMatcher
begin

text \<open>
  The trie of the keyword matcher. \<open>trie_rep ns es ps\<close> relates the two arrays of the build
  phase to the list \<open>ps\<close> of the strings the nodes spell: the sibling chain of a node holds
  exactly its children. Inserting keywords keeps the relation and records at every node the
  least index of the keywords that spell its string.
\<close>

section \<open>Sibling chains\<close>

lemma sibling_edges_neg [simp]: "i < 0 \<Longrightarrow> sibling_edges fuel es i = Some []"
  by (simp add: sibling_edges.simps)

lemma sibling_edges_mono:
  "sibling_edges n es i = Some L \<Longrightarrow> n \<le> m \<Longrightarrow> sibling_edges m (es @ xs) i = Some L"
proof (induction n arbitrary: m i L)
  case 0
  then show ?case by (auto simp: sibling_edges.simps split: if_splits)
next
  case (Suc n)
  show ?case
  proof (cases "i < 0")
    case True
    with Suc.prems show ?thesis by simp
  next
    case False
    with Suc.prems(1) obtain L' where l: "nat i < length es" "L = es ! nat i # L'"
      "sibling_edges n es (kb_next (es ! nat i)) = Some L'"
      by (subst (asm) sibling_edges.simps) (auto split: if_splits)
    from Suc.prems(2) obtain m' where m: "m = Suc m'" "n \<le> m'" by (cases m) auto
    from Suc.IH [OF l(3) m(2)] l m False show ?thesis
      by (subst sibling_edges.simps) (simp add: nth_append)
  qed
qed

lemma sibling_edges_new:
  assumes "sibling_edges (length es) es (kb_next e) = Some L"
  shows "sibling_edges (Suc (length es)) (es @ [e]) (int (length es)) = Some (e # L)"
  using sibling_edges_mono [OF assms order_refl, of "[e]"]
  by (subst sibling_edges.simps) simp

lemma node_at_nth [simp]: "i < length ns \<Longrightarrow> node_at ns (int i) = Some (ns ! i)"
  by (simp add: node_at_def)

lemma outgoing_edges_nth:
  "i < length ns \<Longrightarrow>
     outgoing_edges ns es (int i) = sibling_edges (length es) es (build_first_edge (ns ! i))"
  by (simp add: outgoing_edges_def)

lemma build_first_edge_cong:
  "kn_edge_start n = kn_edge_start n' \<Longrightarrow> build_first_edge n = build_first_edge n'"
  by (simp add: build_first_edge_def)

section \<open>The representation\<close>

definition child_ok :: "string list \<Rightarrow> nat \<Rightarrow> km_build_edge \<Rightarrow> bool" where
  "child_ok ps i e \<longleftrightarrow> 0 \<le> kb_target e \<and> nat (kb_target e) < length ps \<and>
     ps ! nat (kb_target e) = ps ! i @ [kb_label e]"

definition children_ok :: "string list \<Rightarrow> nat \<Rightarrow> km_build_edge list \<Rightarrow> bool" where
  "children_ok ps i out \<longleftrightarrow>
     distinct (map kb_label out) \<and> (\<forall>e \<in> set out. child_ok ps i e) \<and>
     (\<forall>c. ps ! i @ [c] \<in> set ps \<longrightarrow> c \<in> kb_label ` set out)"

definition trie_rep :: "km_node list \<Rightarrow> km_build_edge list \<Rightarrow> string list \<Rightarrow> bool" where
  "trie_rep ns es ps \<longleftrightarrow>
     length ps = length ns \<and> ps \<noteq> [] \<and> ps ! 0 = [] \<and> distinct ps \<and> prefix_closed (set ps) \<and>
     (\<forall>i < length ns. \<exists>out. outgoing_edges ns es (int i) = Some out \<and> children_ok ps i out)"

lemma trie_repD:
  assumes "trie_rep ns es ps"
  shows "length ps = length ns" "ps \<noteq> []" "ps ! 0 = []" "distinct ps" "prefix_closed (set ps)"
    and "ns \<noteq> []" "0 < length ps"
  using assms by (auto simp: trie_rep_def)

lemma trie_rep_out:
  "trie_rep ns es ps \<Longrightarrow> i < length ns \<Longrightarrow>
     \<exists>out. outgoing_edges ns es (int i) = Some out \<and> children_ok ps i out"
  by (simp add: trie_rep_def)

lemma trie_rep_cong:
  assumes "trie_rep ns es ps" "map kn_edge_start ns' = map kn_edge_start ns"
  shows "trie_rep ns' es ps"
proof -
  have len: "length ns' = length ns" using assms(2) by (metis length_map)
  have "kn_edge_start (ns' ! i) = kn_edge_start (ns ! i)" if "i < length ns" for i
    using assms(2) that len by (metis nth_map)
  then have "outgoing_edges ns' es (int i) = outgoing_edges ns es (int i)" if "i < length ns" for i
    using that len by (simp add: outgoing_edges_nth build_first_edge_def)
  with assms(1) len show ?thesis by (simp add: trie_rep_def)
qed

lemma child_target:
  assumes "distinct ps" "child_ok ps i e" "j < length ps" "ps ! j = ps ! i @ [kb_label e]"
  shows "kb_target e = int j"
proof -
  have "nat (kb_target e) = j"
    using assms by (metis child_ok_def nth_eq_iff_index_eq)
  with assms(2) show ?thesis by (auto simp: child_ok_def)
qed

lemma build_transition_child:
  assumes t: "trie_rep ns es ps" and i: "i < length ns"
    and j: "j < length ns" "ps ! j = ps ! i @ [c]"
  shows "build_transition ns es (int i) c = Some (int j)"
proof -
  from trie_rep_out [OF t i] obtain out where
    out: "outgoing_edges ns es (int i) = Some out" and ch: "children_ok ps i out" by blast
  from j trie_repD(1) [OF t] have "ps ! i @ [c] \<in> set ps" by (metis nth_mem)
  with ch have "c \<in> kb_label ` set out" by (simp add: children_ok_def)
  then obtain e where e: "find (\<lambda>e. kb_label e = c) out = Some e"
    by (cases "find (\<lambda>e. kb_label e = c) out") (auto simp: find_None_iff)
  then have "e \<in> set out" "kb_label e = c" by (auto simp: find_Some_iff)
  with ch j trie_repD(1,4) [OF t] have "kb_target e = int j"
    by (auto simp: children_ok_def intro: child_target)
  with e out i show ?thesis by (simp add: build_transition_def)
qed

lemma build_transition_none:
  assumes t: "trie_rep ns es ps" and i: "i < length ns" and c: "ps ! i @ [c] \<notin> set ps"
  shows "build_transition ns es (int i) c = Some (- 1)"
proof -
  from trie_rep_out [OF t i] obtain out where
    out: "outgoing_edges ns es (int i) = Some out" and ch: "children_ok ps i out" by blast
  have "kb_label e \<noteq> c" if "e \<in> set out" for e
    using ch that c by (auto simp: children_ok_def child_ok_def) (metis nth_mem)
  then have "find (\<lambda>e. kb_label e = c) out = None" by (simp add: find_None_iff)
  with out i show ?thesis by (simp add: build_transition_def)
qed

section \<open>Inserting\<close>

lemma trie_rep_init: "trie_rep [new_keyword_node] [] [[]]"
  by (auto simp: trie_rep_def prefix_closed_def children_ok_def outgoing_edges_def node_at_def
      build_first_edge_def new_keyword_node_def)

lemma children_ok_grow:
  assumes ch: "children_ok ps i out" and i: "i < length ps" and q: "\<And>c. ps ! i @ [c] \<noteq> q"
  shows "children_ok (ps @ [q]) i out"
  using assms by (auto simp: children_ok_def child_ok_def nth_append)

lemma children_ok_new:
  assumes ch: "children_ok ps i out" and i: "i < length ps" and c: "ps ! i @ [c] \<notin> set ps"
    and e: "kb_target e = int (length ps)" "kb_label e = c"
  shows "children_ok (ps @ [ps ! i @ [c]]) i (e # out)"
proof -
  have "c \<notin> kb_label ` set out"
    using ch c by (auto simp: children_ok_def child_ok_def) (metis nth_mem)
  with assms show ?thesis
    by (auto simp: children_ok_def child_ok_def nth_append)
qed

lemma trie_rep_add:
  assumes t: "trie_rep ns es ps" and i: "i < length ns" and c: "ps ! i @ [c] \<notin> set ps"
  defines "e \<equiv> \<lparr>kb_target = int (length ns), kb_next = build_first_edge (ns ! i), kb_label = c\<rparr>"
  shows "trie_rep ((ns @ [new_keyword_node])[i := (ns ! i)\<lparr>kn_edge_start := Suc (length es)\<rparr>])
           (es @ [e]) (ps @ [ps ! i @ [c]])" (is "trie_rep ?ns ?es ?ps")
proof -
  note d = trie_repD [OF t]
  have pc: "prefix_closed (set ?ps)"
    using d(1,5) i by (auto simp: prefix_closed_def)
  have out: "\<exists>out. outgoing_edges ?ns ?es (int j) = Some out \<and> children_ok ?ps j out"
    if j: "j < Suc (length ns)" for j
  proof (cases "j = i")
    case True
    from trie_rep_out [OF t i] obtain out where
      o: "outgoing_edges ns es (int i) = Some out" "children_ok ps i out" by blast
    from o(1) i have "sibling_edges (length es) es (kb_next e) = Some out"
      by (simp add: outgoing_edges_nth e_def)
    from sibling_edges_new [OF this] True i
    have "outgoing_edges ?ns ?es (int j) = Some (e # out)"
      by (simp add: outgoing_edges_nth build_first_edge_def)
    moreover have "children_ok ?ps i (e # out)"
      using o(2) i c d(1) by (intro children_ok_new) (simp_all add: e_def)
    ultimately show ?thesis using True by blast
  next
    case False
    show ?thesis
    proof (cases "j < length ns")
      case True
      from trie_rep_out [OF t this] obtain out where
        o: "outgoing_edges ns es (int j) = Some out" "children_ok ps j out" by blast
      from o(1) True have "sibling_edges (length es) es (build_first_edge (ns ! j)) = Some out"
        by (simp add: outgoing_edges_nth)
      then have "sibling_edges (Suc (length es)) ?es (build_first_edge (ns ! j)) = Some out"
        by (rule sibling_edges_mono) simp
      with True False have "outgoing_edges ?ns ?es (int j) = Some out"
        by (simp add: outgoing_edges_nth nth_append)
      moreover have "ps ! j @ [c'] \<noteq> ps ! i @ [c]" for c'
        using False True i d(1,4) by (auto simp: nth_eq_iff_index_eq)
      with o(2) True d(1) have "children_ok ?ps j out" by (intro children_ok_grow) auto
      ultimately show ?thesis by blast
    next
      case False2: False
      with j have jn: "j = length ns" by simp
      with False i have "outgoing_edges ?ns ?es (int j) = Some []"
        by (simp add: outgoing_edges_nth nth_append build_first_edge_def new_keyword_node_def)
      moreover have "children_ok ?ps j []"
      proof -
        have "(ps ! i @ [c]) @ [c'] \<notin> set ps" for c'
          using c d(5) by (auto simp only: prefix_closed_def)
        with jn d(1) show ?thesis by (auto simp: children_ok_def nth_append)
      qed
      ultimately show ?thesis by blast
    qed
  qed
  show ?thesis
    using d pc out c i by (simp add: trie_rep_def nth_append)
qed

text \<open>The build invariant: every node carries the least index of the keywords it spells.\<close>

definition build_inv ::
  "(string \<Rightarrow> nat set) \<Rightarrow> km_node list \<Rightarrow> km_build_edge list \<Rightarrow> string list \<Rightarrow> bool" where
  "build_inv f ns es ps \<longleftrightarrow>
     trie_rep ns es ps \<and> (\<forall>q. f q \<noteq> {} \<longrightarrow> q \<in> set ps) \<and>
     (\<forall>i < length ns. kn_failure (ns ! i) = 0 \<and> best_of (f (ps ! i)) (kn_best (ns ! i)))"

lemma build_inv_add:
  assumes b: "build_inv f ns es ps" and i: "i < length ns" and c: "ps ! i @ [c] \<notin> set ps"
  defines "e \<equiv> \<lparr>kb_target = int (length ns), kb_next = build_first_edge (ns ! i), kb_label = c\<rparr>"
  shows "build_inv f ((ns @ [new_keyword_node])[i := (ns ! i)\<lparr>kn_edge_start := Suc (length es)\<rparr>])
           (es @ [e]) (ps @ [ps ! i @ [c]])" (is "build_inv f ?ns ?es ?ps")
proof -
  from b have t: "trie_rep ns es ps" and p: "\<And>q. f q \<noteq> {} \<Longrightarrow> q \<in> set ps"
    and nd: "\<And>j. j < length ns \<Longrightarrow> kn_failure (ns ! j) = 0 \<and> best_of (f (ps ! j)) (kn_best (ns ! j))"
    by (auto simp: build_inv_def)
  note len = trie_repD(1) [OF t]
  from p c have fc: "f (ps ! i @ [c]) = {}" by blast
  have "kn_failure (?ns ! j) = 0 \<and> best_of (f (?ps ! j)) (kn_best (?ns ! j))"
    if "j < Suc (length ns)" for j
    using that nd [of j] i len fc
    by (cases "j = i"; cases "j < length ns") (auto simp: nth_append new_keyword_node_def less_Suc_eq)
  with trie_rep_add [OF t i c] p show ?thesis
    by (simp add: build_inv_def e_def)
qed

lemma insert_path_inv:
  assumes "build_inv f ns es ps" "i < length ns"
  shows "\<exists>ns' es' ps' j. insert_path ns es (int i) cs = Some (ns', es', int j) \<and>
     build_inv f ns' es' ps' \<and> j < length ns' \<and> ps' ! j = ps ! i @ cs"
  using assms
proof (induction cs arbitrary: ns es ps i)
  case Nil
  then show ?case by auto
next
  case (Cons c cs)
  from Cons.prems have t: "trie_rep ns es ps" by (simp add: build_inv_def)
  note len = trie_repD(1) [OF t]
  show ?case
  proof (cases "ps ! i @ [c] \<in> set ps")
    case True
    then obtain j where j: "j < length ns" "ps ! j = ps ! i @ [c]"
      using len by (metis in_set_conv_nth)
    from build_transition_child [OF t Cons.prems(2) j] Cons.IH [OF Cons.prems(1) j(1)] j(2)
    show ?thesis by (simp add: Let_def)
  next
    case False
    let ?e = "\<lparr>kb_target = int (length ns), kb_next = build_first_edge (ns ! i), kb_label = c\<rparr>"
    let ?ns = "(ns @ [new_keyword_node])[i := (ns ! i)\<lparr>kn_edge_start := Suc (length es)\<rparr>]"
    have inv: "build_inv f ?ns (es @ [?e]) (ps @ [ps ! i @ [c]])"
      by (rule build_inv_add [OF Cons.prems False])
    from Cons.IH [OF inv, of "length ns"] build_transition_none [OF t Cons.prems(2) False]
      Cons.prems(2) len
    show ?thesis
      by (simp add: Let_def nth_append node_at_def)
  qed
qed

section \<open>The keyword indices\<close>

fun kw_at :: "(string \<Rightarrow> string) \<Rightarrow> nat \<Rightarrow> string list \<Rightarrow> string \<Rightarrow> nat set" where
  "kw_at uni k [] p = {}"
| "kw_at uni k (kw # kws) p =
     (if kw \<noteq> [] \<and> to_lower uni kw = p then {k} else {}) \<union> kw_at uni (Suc k) kws p"

lemma kw_at_iff:
  "j \<in> kw_at uni k kws p \<longleftrightarrow>
     (\<exists>i < length kws. j = k + i \<and> kws ! i \<noteq> [] \<and> to_lower uni (kws ! i) = p)"
proof (induction kws arbitrary: k)
  case Nil
  then show ?case by simp
next
  case (Cons kw kws)
  show ?case
    unfolding kw_at.simps Un_iff Cons.IH
    by (auto simp: less_Suc_eq_0_disj split: if_splits)
qed

lemma build_inv_best:
  assumes b: "build_inv f ns es ps" and j: "j < length ns"
    and g: "\<And>q. g q = (if q = ps ! j then insert k (f q) else f q)"
  shows "build_inv g
     (if kn_best (ns ! j) < 0 \<or> int k < kn_best (ns ! j)
      then ns[j := (ns ! j)\<lparr>kn_best := int k\<rparr>] else ns) es ps" (is "build_inv g ?ns es ps")
proof -
  from b have t: "trie_rep ns es ps" by (simp add: build_inv_def)
  have es: "map kn_edge_start ?ns = map kn_edge_start ns"
    by (simp add: map_update list_update_same_conv j)
  have "kn_failure (?ns ! i) = 0 \<and> best_of (g (ps ! i)) (kn_best (?ns ! i))"
    if i: "i < length ns" for i
  proof (cases "i = j")
    case True
    from b i have "best_of (f (ps ! i)) (kn_best (ns ! i))" "kn_failure (ns ! i) = 0"
      by (auto simp: build_inv_def)
    with best_of_insert [OF this(1), of k] True i g show ?thesis by auto
  next
    case False
    with i j trie_repD(1,4) [OF t] have "ps ! i \<noteq> ps ! j" by (simp add: nth_eq_iff_index_eq)
    with b i g False show ?thesis by (simp add: build_inv_def)
  qed
  moreover have "q \<in> set ps" if "g q \<noteq> {}" for q
    using that b j trie_repD(1) [OF t] g by (auto simp: build_inv_def split: if_splits)
  moreover have "length ?ns = length ns" by simp
  ultimately show ?thesis
    using trie_rep_cong [OF t es] by (simp only: build_inv_def) auto
qed

lemma insert_keywords_inv:
  assumes "build_inv f ns es ps"
  shows "\<exists>ns' es' ps'. insert_keywords uni k kws ns es = Some (ns', es') \<and>
     build_inv (\<lambda>p. f p \<union> kw_at uni k kws p) ns' es' ps'"
  using assms
proof (induction kws arbitrary: f k ns es ps)
  case Nil
  then show ?case by auto
next
  case (Cons kw kws)
  show ?case
  proof (cases "kw = []")
    case True
    with Cons.IH [OF Cons.prems, of "Suc k"] show ?thesis by simp
  next
    case False
    let ?w = "to_lower uni kw"
    from Cons.prems have t: "trie_rep ns es ps" by (simp add: build_inv_def)
    from insert_path_inv [OF Cons.prems, of 0 ?w] trie_repD(1,3,6) [OF t]
    obtain ns1 es1 ps1 j where s: "insert_path ns es 0 ?w = Some (ns1, es1, int j)"
      "build_inv f ns1 es1 ps1" "j < length ns1" "ps1 ! j = ?w"
      by auto
    let ?g = "\<lambda>q. if q = ps1 ! j then insert k (f q) else f q"
    from build_inv_best [OF s(2,3), of ?g k]
    have "build_inv ?g (if kn_best (ns1 ! j) < 0 \<or> int k < kn_best (ns1 ! j)
       then ns1[j := (ns1 ! j)\<lparr>kn_best := int k\<rparr>] else ns1) es1 ps1" by simp
    from Cons.IH [OF this, of "Suc k"] obtain ns' es' ps' where
      r: "insert_keywords uni (Suc k) kws (if kn_best (ns1 ! j) < 0 \<or> int k < kn_best (ns1 ! j)
            then ns1[j := (ns1 ! j)\<lparr>kn_best := int k\<rparr>] else ns1) es1 = Some (ns', es')"
         "build_inv (\<lambda>p. ?g p \<union> kw_at uni (Suc k) kws p) ns' es' ps'" by blast
    have "(\<lambda>p. ?g p \<union> kw_at uni (Suc k) kws p) = (\<lambda>p. f p \<union> kw_at uni k (kw # kws) p)"
      using False s(4) by (auto simp: fun_eq_iff)
    with r s(1,3) False show ?thesis by auto
  qed
qed

end
