(* ===== verification/KeywordLinks.thy ===== *)
theory KeywordLinks
  imports KeywordTrie
begin

text \<open>
  The breadth-first pass over the trie. A node is \<open>linked\<close> when its failure link leads to
  the longest proper suffix of its string in the trie and its index is the least one of the
  keywords that end its string; the pass returns with every node linked.
\<close>

definition linked :: "(string \<Rightarrow> nat set) \<Rightarrow> string list \<Rightarrow> km_node \<Rightarrow> nat \<Rightarrow> bool" where
  "linked f ps n i \<longleftrightarrow>
     0 \<le> kn_failure n \<and> nat (kn_failure n) < length ps \<and>
     longest_in (set ps) (tl (ps ! i)) (ps ! nat (kn_failure n)) \<and>
     best_of (occ f (ps ! i)) (kn_best n)"

definition fresh :: "(string \<Rightarrow> nat set) \<Rightarrow> string list \<Rightarrow> km_node \<Rightarrow> nat \<Rightarrow> bool" where
  "fresh f ps n i \<longleftrightarrow> kn_failure n = 0 \<and> best_of (f (ps ! i)) (kn_best n)"

definition link_inv ::
  "(string \<Rightarrow> nat set) \<Rightarrow> km_node list \<Rightarrow> km_build_edge list \<Rightarrow> string list \<Rightarrow> nat set \<Rightarrow> bool" where
  "link_inv f ns es ps E \<longleftrightarrow>
     trie_rep ns es ps \<and> (\<forall>q. f q \<noteq> {} \<longrightarrow> q \<in> set ps) \<and> f [] = {} \<and> 0 \<in> E \<and> E \<subseteq> {..<length ns} \<and>
     (\<forall>i < length ns. if i \<in> E then linked f ps (ns ! i) i else fresh f ps (ns ! i) i)"

lemma link_invD:
  assumes "link_inv f ns es ps E"
  shows "trie_rep ns es ps" "\<And>q. f q \<noteq> {} \<Longrightarrow> q \<in> set ps" "f [] = {}" "0 \<in> E" "E \<subseteq> {..<length ns}"
    and "\<And>i. i \<in> E \<Longrightarrow> linked f ps (ns ! i) i"
    and "\<And>i. i < length ns \<Longrightarrow> i \<notin> E \<Longrightarrow> fresh f ps (ns ! i) i"
  using assms by (auto simp: link_inv_def subset_iff split: if_splits)

lemma depth_less:
  assumes t: "trie_rep ns es ps" and i: "i < length ns"
  shows "length (ps ! i) < length ns"
proof -
  note d = trie_repD [OF t]
  have "p @ u \<in> set ps \<Longrightarrow> p \<in> set ps" for p u
    using d(5) by (induction u rule: rev_induct) (auto simp: prefix_closed_def simp flip: append_assoc)
  then have "p \<in> set ps" if "prefix p (ps ! i)" for p
    using that i d(1) unfolding prefix_def by (metis nth_mem)
  then have "set (prefixes (ps ! i)) \<subseteq> set ps" by auto
  then have "card (set (prefixes (ps ! i))) \<le> card (set ps)" by (rule card_mono [OF finite_set])
  moreover have "card (set (prefixes (ps ! i))) = Suc (length (ps ! i))"
    using distinct_card [OF distinct_prefixes, of "ps ! i"] by simp
  ultimately show ?thesis
    using d(1,4) by (simp add: distinct_card)
qed

text \<open>Following the failure links of linked nodes finds the longest suffix that reads \<open>c\<close>.\<close>

lemma fallback_search_spec:
  assumes "link_inv f ns es ps E" "i < length ns" "chain_inv (set ps) w c (ps ! i)"
    and "\<And>j. j < length ns \<Longrightarrow> length (ps ! j) \<le> length (ps ! i) \<Longrightarrow> j \<in> E"
    and "length (ps ! i) < fuel"
  shows "\<exists>fb. fallback_search fuel ns es (int i) c = Some fb \<and>
     (if 0 \<le> fb then nat fb < length ns \<and> longest_in (set ps) (w @ [c]) (ps ! nat fb)
      else longest_in (set ps) (w @ [c]) [])"
  using assms(2-)
proof (induction fuel arbitrary: i)
  case 0
  then show ?case by simp
next
  case (Suc fuel)
  note t = link_invD(1) [OF assms(1)]
  note d = trie_repD [OF t]
  show ?case
  proof (cases "ps ! i @ [c] \<in> set ps")
    case True
    then obtain j where j: "j < length ns" "ps ! j = ps ! i @ [c]"
      using d(1) by (metis in_set_conv_nth)
    from build_transition_child [OF t Suc.prems(1) j] chain_found [OF Suc.prems(2) True] j
    show ?thesis by simp
  next
    case False
    note bt = build_transition_none [OF t Suc.prems(1) False]
    show ?thesis
    proof (cases "i = 0")
      case True
      with chain_root [of "set ps" w c] Suc.prems(2) False d bt show ?thesis
        by (auto simp: prefix_closed_def)
    next
      case i0: False
      from Suc.prems(1,3) link_invD(6) [OF assms(1)] have l: "linked f ps (ns ! i) i" by simp
      let ?k = "nat (kn_failure (ns ! i))"
      from l d(1) have k: "0 \<le> kn_failure (ns ! i)" "?k < length ns"
        "longest_in (set ps) (tl (ps ! i)) (ps ! ?k)" by (auto simp: linked_def)
      have ne: "ps ! i \<noteq> []"
        using i0 Suc.prems(1) d by (metis nth_eq_iff_index_eq)
      from k(3) have "length (ps ! ?k) \<le> length (tl (ps ! i))"
        by (auto simp: longest_in_def dest: suffix_length_le)
      with ne have sh: "length (ps ! ?k) < length (ps ! i)" by (cases "ps ! i") auto
      have ch: "chain_inv (set ps) w c (ps ! ?k)"
        by (rule chain_next [OF d(5) Suc.prems(2) False k(3)])
      from Suc.IH [OF k(2) ch] Suc.prems(3,4) sh k(1,2) bt i0 Suc.prems(1)
      show ?thesis by (simp add: Let_def node_at_def)
    qed
  qed
qed

lemma longest_shorter:
  "longest_in P w q \<Longrightarrow> length q \<le> length w"
  by (auto simp: longest_in_def dest: suffix_length_le)

lemma link_child_spec:
  assumes inv: "link_inv f ns es ps E" and s: "s < length ns" and e: "child_ok ps s e"
    and all: "\<And>j. j < length ns \<Longrightarrow> length (ps ! j) \<le> length (ps ! s) \<Longrightarrow> j \<in> E"
    and new: "nat (kb_target e) \<notin> E" and s0: "s \<noteq> 0"
  shows "\<exists>ns'. link_child ns es (int s) e = Some ns' \<and>
     map kn_edge_start ns' = map kn_edge_start ns \<and>
     link_inv f ns' es ps (insert (nat (kb_target e)) E)"
proof -
  let ?t = "nat (kb_target e)" and ?c = "kb_label e"
  note tr = link_invD(1) [OF inv]
  note d = trie_repD [OF tr]
  from all [OF s] have sE: "s \<in> E" by simp
  from link_invD(6) [OF inv sE] d(1) have ls: "0 \<le> kn_failure (ns ! s)"
    "nat (kn_failure (ns ! s)) < length ns"
    "longest_in (set ps) (tl (ps ! s)) (ps ! nat (kn_failure (ns ! s)))" by (auto simp: linked_def)
  from e d(1) have t: "?t < length ns" "ps ! ?t = ps ! s @ [?c]" "0 \<le> kb_target e"
    by (auto simp: child_ok_def)
  have ne: "ps ! s \<noteq> []" using s0 s d by (metis nth_eq_iff_index_eq)
  have tlt: "tl (ps ! ?t) = tl (ps ! s) @ [?c]" using t(2) ne by (cases "ps ! s") auto
  let ?k = "nat (kn_failure (ns ! s))"
  have allk: "j \<in> E" if "j < length ns" "length (ps ! j) \<le> length (ps ! ?k)" for j
    using all [of j] that longest_shorter [OF ls(3)] by auto
  have fuel: "length (ps ! ?k) < length ns" using depth_less [OF tr ls(2)] .
  from fallback_search_spec [OF inv ls(2) chain_start [OF d(5) ls(3), of ?c] allk fuel] ls(1)
  obtain fb where fb: "fallback_search (length ns) ns es (kn_failure (ns ! s)) ?c = Some fb"
    "if 0 \<le> fb then nat fb < length ns \<and> longest_in (set ps) (tl (ps ! ?t)) (ps ! nat fb)
     else longest_in (set ps) (tl (ps ! ?t)) []"
    by (auto simp: tlt)
  let ?t1 = "if 0 \<le> fb then (ns ! ?t)\<lparr>kn_failure := fb\<rparr> else ns ! ?t"
  let ?F = "nat (kn_failure ?t1)"
  from link_invD(7) [OF inv t(1) new] have fr: "kn_failure (ns ! ?t) = 0" "best_of (f (ps ! ?t)) (kn_best (ns ! ?t))"
    by (auto simp: fresh_def)
  have F: "0 \<le> kn_failure ?t1" "?F < length ns" "longest_in (set ps) (tl (ps ! ?t)) (ps ! ?F)"
    using fb(2) fr(1) d by (auto split: if_splits)
  from longest_shorter [OF F(3)] have Fd: "length (ps ! ?F) \<le> length (ps ! s)"
    using t(2) by simp
  then have FE: "?F \<in> E" using all [OF F(2)] by simp
  have Ft: "?F \<noteq> ?t" using FE new by auto
  let ?b = "min_keyword_index (kn_best ?t1) (kn_best (ns ! ?F))"
  let ?ns = "ns[?t := ?t1\<lparr>kn_best := ?b\<rparr>]"
  have res: "link_child ns es (int s) e = Some ?ns"
    using fb(1) s t F Ft by (simp add: link_child_def node_at_def Let_def)
  have starts: "map kn_edge_start ?ns = map kn_edge_start ns"
    using t(1) by (simp add: map_update list_update_same_conv)
  have "best_of (occ f (ps ! ?F)) (kn_best (ns ! ?F))"
    using link_invD(6) [OF inv FE] by (simp add: linked_def)
  moreover have "occ f (ps ! ?t) = f (ps ! ?t) \<union> occ f (ps ! ?F)"
  proof -
    have "occ f (tl (ps ! ?t)) = occ f (ps ! ?F)"
      by (rule occ_longest [OF link_invD(2) [OF inv] F(3)])
    moreover have "ps ! ?t \<noteq> []" using t(2) by simp
    ultimately show ?thesis by (metis list.collapse occ_Cons)
  qed
  moreover have "kn_best ?t1 = kn_best (ns ! ?t)" by simp
  ultimately have "best_of (occ f (ps ! ?t)) ?b"
    using best_of_union [OF fr(2)] by simp
  with F d(1) have lt: "linked f ps (?t1\<lparr>kn_best := ?b\<rparr>) ?t" by (simp add: linked_def)
  have "link_inv f ?ns es ps (insert ?t E)"
    unfolding link_inv_def
    using trie_rep_cong [OF tr starts] link_invD [OF inv] lt t(1)
    by (auto simp: nth_list_update)
  with res starts show ?thesis by blast
qed

lemma link_children_spec:
  assumes "link_inv f ns es ps E" "s < length ns" "\<forall>e \<in> set out. child_ok ps s e"
    and "\<And>j. j < length ns \<Longrightarrow> length (ps ! j) \<le> length (ps ! s) \<Longrightarrow> j \<in> E"
    and "\<forall>e \<in> set out. nat (kb_target e) \<notin> E" "distinct (map kb_label out)" "s \<noteq> 0"
  shows "\<exists>ns'. link_children ns es (int s) out = Some ns' \<and>
     map kn_edge_start ns' = map kn_edge_start ns \<and>
     link_inv f ns' es ps (E \<union> (\<lambda>e. nat (kb_target e)) ` set out)"
  using assms
proof (induction out arbitrary: ns E)
  case Nil
  then show ?case by simp
next
  case (Cons e out)
  from link_child_spec [OF Cons.prems(1,2) _ Cons.prems(4) _ Cons.prems(7), of e] Cons.prems(3,5)
  obtain ns1 where n1: "link_child ns es (int s) e = Some ns1"
    "map kn_edge_start ns1 = map kn_edge_start ns"
    "link_inv f ns1 es ps (insert (nat (kb_target e)) E)" by auto
  have len: "length ns1 = length ns" using n1(2) by (metis length_map)
  have diff: "nat (kb_target x) \<noteq> nat (kb_target e)" if "x \<in> set out" for x
  proof
    assume eq: "nat (kb_target x) = nat (kb_target e)"
    from Cons.prems(3) that have "child_ok ps s x" "child_ok ps s e" by auto
    with eq have "kb_label x = kb_label e" by (auto simp: child_ok_def)
    with that Cons.prems(6) show False by (simp add: image_iff) metis
  qed
  from Cons.IH [OF n1(3)] len Cons.prems diff
  obtain ns' where "link_children ns1 es (int s) out = Some ns'"
    "map kn_edge_start ns' = map kn_edge_start ns1"
    "link_inv f ns' es ps (insert (nat (kb_target e)) E \<union> (\<lambda>e. nat (kb_target e)) ` set out)"
    by auto
  with n1 show ?case by auto
qed

section \<open>The queue\<close>

text \<open>
  \<open>queue_inv ps E q\<close>: \<open>q\<close> are the enqueued nodes not yet visited, in order of depth;
  \<open>E\<close> is the root and the nodes enqueued so far, the children of the visited ones.
\<close>

definition queue_inv :: "string list \<Rightarrow> nat set \<Rightarrow> nat list \<Rightarrow> bool" where
  "queue_inv ps E q \<longleftrightarrow>
     set q \<subseteq> E - {0} \<and> distinct q \<and> E \<subseteq> {..<length ps} \<and>
     sorted (map (\<lambda>i. length (ps ! i)) q) \<and>
     (\<forall>i \<in> set q. length (ps ! i) \<le> Suc (length (ps ! hd q))) \<and>
     (\<forall>i < length ps. \<forall>j < length ps. \<forall>c. ps ! i = ps ! j @ [c] \<longrightarrow> (i \<in> E \<longleftrightarrow> j \<in> E - set q)) \<and>
     (\<forall>i < length ps. q \<noteq> [] \<longrightarrow> length (ps ! i) \<le> length (ps ! hd q) \<longrightarrow> i \<in> E)"

lemma queue_inv_all:
  assumes "queue_inv ps E []" "0 \<in> E" "prefix_closed (set ps)" "distinct ps" "ps ! 0 = []"
  shows "E = {..<length ps}"
proof -
  have "\<forall>i < length ps. ps ! i = p \<longrightarrow> i \<in> E" if "p \<in> set ps" for p
    using that
  proof (induction p rule: rev_induct)
    case Nil
    have "i = 0" if "i < length ps" "ps ! i = []" for i
      using that assms(4,5) by (metis nth_eq_iff_index_eq gr_implies_not0 not_gr_zero)
    with assms(2) show ?case by auto
  next
    case (snoc c p)
    from snoc.prems assms(3) have "p \<in> set ps" by (auto simp: prefix_closed_def)
    then obtain j where j: "j < length ps" "ps ! j = p" by (auto simp: in_set_conv_nth)
    with snoc.IH [OF \<open>p \<in> set ps\<close>] have "j \<in> E" by auto
    with j assms(1) show ?case by (auto simp: queue_inv_def)
  qed
  then have "i \<in> E" if "i < length ps" for i using that nth_mem by blast
  with assms(1) show ?thesis by (auto simp: queue_inv_def)
qed

lemma targets_distinct:
  assumes "children_ok ps s out"
  shows "distinct (map (\<lambda>e. nat (kb_target e)) out)"
proof -
  have "inj_on (\<lambda>e. nat (kb_target e)) (set out)"
  proof (rule inj_onI)
    fix x y assume xy: "x \<in> set out" "y \<in> set out" "nat (kb_target x) = nat (kb_target y)"
    have "ps ! nat (kb_target x) = ps ! s @ [kb_label x]" "ps ! nat (kb_target y) = ps ! s @ [kb_label y]"
      using xy(1,2) assms by (auto simp: children_ok_def child_ok_def)
    with xy(3) have "kb_label x = kb_label y" by simp
    moreover have "inj_on kb_label (set out)"
      using assms by (simp add: children_ok_def distinct_map)
    ultimately show "x = y" using xy(1,2) by (simp add: inj_on_def)
  qed
  moreover have "distinct out" using assms by (auto simp: children_ok_def distinct_map)
  ultimately show ?thesis by (simp add: distinct_map)
qed

lemma child_index:
  assumes "children_ok ps s out" "distinct ps" "i < length ps" "ps ! i = ps ! s @ [c]"
  shows "i \<in> (\<lambda>e. nat (kb_target e)) ` set out"
proof -
  from assms(1,3,4) have "c \<in> kb_label ` set out" by (metis children_ok_def nth_mem)
  then obtain e where e: "e \<in> set out" "kb_label e = c" by auto
  with assms have "nat (kb_target e) = i"
    by (metis children_ok_def child_ok_def nth_eq_iff_index_eq)
  with e show ?thesis by auto
qed

lemma queue_inv_step:
  assumes q: "queue_inv ps E (s # q)" and ch: "children_ok ps s out" and d: "distinct ps"
    and z: "ps ! 0 = []" and pc: "prefix_closed (set ps)"
  defines "T \<equiv> map (\<lambda>e. nat (kb_target e)) out"
  shows "queue_inv ps (E \<union> set T) (q @ T)" "set T \<inter> E = {}"
proof -
  have T: "t < length ps \<and> (\<exists>c. ps ! t = ps ! s @ [c])" if "t \<in> set T" for t
    using that ch by (auto simp: T_def children_ok_def child_ok_def)
  have s: "s < length ps" "s \<in> E" "s \<notin> set q" using q by (auto simp: queue_inv_def)
  have ed: "i \<in> E \<longleftrightarrow> j \<in> E - set (s # q)"
    if "i < length ps" "j < length ps" "ps ! i = ps ! j @ [c]" for i j c
    using q that unfolding queue_inv_def by blast
  show disj: "set T \<inter> E = {}"
    using T ed [OF _ s(1)] by fastforce
  have Td: "length (ps ! t) = Suc (length (ps ! s))" if "t \<in> set T" for t
    using T [OF that] by auto
  have qd: "length (ps ! s) \<le> length (ps ! i)" "length (ps ! i) \<le> Suc (length (ps ! s))"
    if "i \<in> set q" for i
    using q that by (auto simp: queue_inv_def)
  have mT: "map (\<lambda>i. length (ps ! i)) T = replicate (length T) (Suc (length (ps ! s)))"
    using Td by (auto intro: map_replicate_const [THEN trans] simp: map_eq_conv list_eq_iff_nth_eq)
  have srt: "sorted (map (\<lambda>i. length (ps ! i)) (q @ T))"
    using q qd Td by (auto simp: queue_inv_def sorted_append mT)
  have "distinct T" using targets_distinct [OF ch] by (simp add: T_def)
  with q disj have dq: "distinct (q @ T)" by (auto simp: queue_inv_def)
  have hdq: "\<forall>i \<in> set (q @ T). length (ps ! i) \<le> Suc (length (ps ! hd (q @ T)))"
  proof
    fix i assume i: "i \<in> set (q @ T)"
    then have "length (ps ! s) \<le> length (ps ! hd (q @ T))"
      using qd(1) Td by (metis hd_in_set Un_iff empty_iff empty_set le_Suc_eq order_refl set_append)
    with i qd(2) Td show "length (ps ! i) \<le> Suc (length (ps ! hd (q @ T)))" by fastforce
  qed
  have ed': "i \<in> E \<union> set T \<longleftrightarrow> j \<in> (E \<union> set T) - set (q @ T)"
    if ij: "i < length ps" "j < length ps" "ps ! i = ps ! j @ [c]" for i j c
  proof (cases "j = s")
    case True
    with ij child_index [OF ch d ij(1)] have "i \<in> set T" by (auto simp: T_def)
    with True s disj show ?thesis by auto
  next
    case False
    have "i \<notin> set T"
    proof
      assume "i \<in> set T"
      from T [OF this] ij(3) have "ps ! j = ps ! s" by auto
      with False s(1) ij(2) d show False by (simp add: nth_eq_iff_index_eq)
    qed
    with ed [OF ij] False disj show ?thesis by auto
  qed
  have low: "i \<in> E \<union> set T"
    if i: "i < length ps" "q @ T \<noteq> []" "length (ps ! i) \<le> length (ps ! hd (q @ T))" for i
  proof (cases "length (ps ! i) \<le> length (ps ! s)")
    case True
    with q i(1) show ?thesis by (auto simp: queue_inv_def)
  next
    case False
    have h: "hd (q @ T) \<in> set (q @ T)" using i(2) by (rule hd_in_set)
    then have "length (ps ! hd (q @ T)) \<le> Suc (length (ps ! s))" using qd(2) Td by fastforce
    with False i(3) have hs: "length (ps ! hd (q @ T)) = Suc (length (ps ! s))"
      and li: "length (ps ! i) = Suc (length (ps ! s))" by auto
    then obtain p c where pc': "ps ! i = p @ [c]" by (cases "ps ! i" rule: rev_cases) auto
    with pc i(1) have "p \<in> set ps" by (metis nth_mem prefix_closed_def)
    then obtain j where j: "j < length ps" "ps ! j = p" by (auto simp: in_set_conv_nth)
    with pc' li have lj: "length (ps ! j) = length (ps ! s)" by simp
    then have jE: "j \<in> E" using q j(1) by (auto simp: queue_inv_def)
    have "j \<notin> set q"
    proof
      assume jq: "j \<in> set q"
      then have "length (ps ! hd (q @ T)) \<le> length (ps ! j)"
        using srt by (cases q) auto
      with hs lj show False by simp
    qed
    moreover have "j \<notin> set T" using Td lj by fastforce
    ultimately show ?thesis using ed' [OF i(1) j(1)] pc' j(2) jE by auto
  qed
  have T0: "0 \<notin> set T" using Td z by fastforce
  have TE: "E \<union> set T \<subseteq> {..<length ps}" "set (q @ T) \<subseteq> E \<union> set T - {0}"
    using q T T0 by (auto simp: queue_inv_def)
  show "queue_inv ps (E \<union> set T) (q @ T)"
    unfolding queue_inv_def using TE dq srt hdq ed' low by blast
qed

lemma link_queue_spec:
  assumes "link_inv f ns es ps E" "queue_inv ps E q" "length q + (length ps - card E) \<le> fuel"
  shows "\<exists>ns'. link_queue fuel ns es (map int q) = Some ns' \<and>
     map kn_edge_start ns' = map kn_edge_start ns \<and> link_inv f ns' es ps {..<length ps}"
  using assms
proof (induction fuel arbitrary: ns E q)
  case 0
  then have "q = []" by simp
  with 0 queue_inv_all [of ps E] link_invD [OF 0(1)] trie_repD [OF link_invD(1) [OF 0(1)]]
  show ?case by auto
next
  case (Suc fuel)
  note inv = Suc.prems(1)
  note t = link_invD(1) [OF inv]
  note d = trie_repD [OF t]
  show ?case
  proof (cases q)
    case Nil
    with Suc.prems queue_inv_all [of ps E] link_invD [OF inv] d show ?thesis by auto
  next
    case (Cons s q')
    from Suc.prems(2) Cons d(1) have s: "s < length ns" "s \<noteq> 0"
      and low: "\<And>j. j < length ns \<Longrightarrow> length (ps ! j) \<le> length (ps ! s) \<Longrightarrow> j \<in> E"
      by (auto simp: queue_inv_def)
    from trie_rep_out [OF t s(1)] obtain out where
      out: "outgoing_edges ns es (int s) = Some out" "children_ok ps s out" by blast
    let ?T = "map (\<lambda>e. nat (kb_target e)) out"
    note st = queue_inv_step [OF Suc.prems(2) [unfolded Cons] out(2) d(4,3,5)]
    from link_children_spec [OF inv s(1) _ low _ _ s(2), of out] out(2) st(2)
    obtain ns1 where n1: "link_children ns es (int s) out = Some ns1"
      "map kn_edge_start ns1 = map kn_edge_start ns" "link_inv f ns1 es ps (E \<union> set ?T)"
      by (auto simp: children_ok_def disjoint_iff)
    have ints: "map kb_target out = map int ?T"
      using out(2) by (auto simp: children_ok_def child_ok_def)
    have fin: "finite E" using link_invD(5) [OF inv] finite_subset by blast
    have cardT: "card (E \<union> set ?T) = card E + length out"
      using st(2) targets_distinct [OF out(2)] fin
      distinct_card [of ?T] by (subst card_Un_disjoint) auto
    have "card (E \<union> set ?T) \<le> length ps"
      using st(1) card_mono [of "{..<length ps}" "E \<union> set ?T"] by (simp add: queue_inv_def)
    with cardT Suc.prems(3) Cons have "length (q' @ ?T) + (length ps - card (E \<union> set ?T)) \<le> fuel"
      by simp
    from Suc.IH [OF n1(3) st(1) this] n1 out(1) Cons show ?thesis
      by (simp add: ints del: map_map)
  qed
qed

text \<open>Starting from the children of the root, the pass links every node.\<close>

lemma link_inv_start:
  assumes b: "build_inv f ns es ps" and f0: "f [] = {}"
    and out: "outgoing_edges ns es 0 = Some out"
  defines "T \<equiv> map (\<lambda>e. nat (kb_target e)) out"
  shows "link_inv f ns es ps (insert 0 (set T))" "queue_inv ps (insert 0 (set T)) T"
    and "map kb_target out = map int T" "children_ok ps 0 out"
proof -
  from b have t: "trie_rep ns es ps" by (simp add: build_inv_def)
  note d = trie_repD [OF t]
  from trie_rep_out [OF t, of 0] d(1,7) out show ch: "children_ok ps 0 out" by auto
  then show "map kb_target out = map int T"
    by (auto simp: children_ok_def child_ok_def T_def)
  have T: "i < length ps \<and> (\<exists>c. ps ! i = [c])" if "i \<in> set T" for i
    using that ch d(3) by (auto simp: T_def children_ok_def child_ok_def)
  have l: "linked f ps (ns ! i) i" if "i < length ns" "length (ps ! i) \<le> 1" for i
  proof -
    from that b have n: "kn_failure (ns ! i) = 0" "best_of (f (ps ! i)) (kn_best (ns ! i))"
      by (auto simp: build_inv_def)
    have "occ f (ps ! i) = f (ps ! i)"
    proof (cases "ps ! i")
      case Nil
      then show ?thesis by (auto simp: occ_def)
    next
      case (Cons c p)
      with that(2) have "ps ! i = [c]" by simp
      then show ?thesis using f0 by (simp add: occ_Cons) (auto simp: occ_def)
    qed
    moreover have "tl (ps ! i) = []" using that(2) by (cases "ps ! i") auto
    moreover have "longest_in (set ps) [] []"
      using d(5) by (auto simp: longest_in_def prefix_closed_def)
    ultimately show ?thesis using n d by (auto simp: linked_def)
  qed
  have "i \<in> insert 0 (set T) \<Longrightarrow> i < length ns \<and> length (ps ! i) \<le> 1" for i
    using T [of i] d by auto
  with l t b f0 d show "link_inv f ns es ps (insert 0 (set T))"
    by (auto simp: link_inv_def build_inv_def fresh_def)
  have iT: "i \<in> set T \<longleftrightarrow> (\<exists>c. ps ! i = [c])" if "i < length ps" for i
    using T [of i] child_index [OF ch d(4) that] d(3) by (auto simp: T_def)
  have i0: "ps ! i = [] \<longleftrightarrow> i = 0" if "i < length ps" for i
    using that d by (metis nth_eq_iff_index_eq)
  have dT: "distinct T" using targets_distinct [OF ch] by (simp add: T_def)
  have lT: "length (ps ! i) = 1" if "i \<in> set T" for i using T [OF that] by auto
  have ed: "i \<in> insert 0 (set T) \<longleftrightarrow> j \<in> insert 0 (set T) - set T"
    if "i < length ps" "j < length ps" "ps ! i = ps ! j @ [c]" for i j c
    using that iT [OF that(1)] i0 [OF that(1)] i0 [OF that(2)] iT [of 0] d(3,7) by auto
  have low: "i \<in> insert 0 (set T)" if "i < length ps" "T \<noteq> []" "length (ps ! i) \<le> length (ps ! hd T)" for i
  proof -
    have "length (ps ! hd T) = 1" using lT that(2) by simp
    with that(3) have "ps ! i = [] \<or> (\<exists>c. ps ! i = [c])"
      by (cases "ps ! i") auto
    with i0 iT that(1) show ?thesis by auto
  qed
  show "queue_inv ps (insert 0 (set T)) T"
    unfolding queue_inv_def
    using T dT ed low lT iT [of 0] d(3,7) by (auto simp: sorted_iff_nth_mono)
qed

end
