(* ===== verification/KeywordScan.thy ===== *)
theory KeywordScan
  imports KeywordLinks
begin

text \<open>
  The flattened edge table, the scan of the keyword matcher, and its correctness: the
  matcher returns the first keyword of the configured list that occurs in the text.
\<close>

section \<open>Sorting and flattening\<close>

lemma insert_outgoing_sorted:
  "sorted_wrt (\<lambda>x y. ke_label y \<le> ke_label x) xs \<Longrightarrow>
     sorted_wrt (\<lambda>x y. ke_label y \<le> ke_label x) (insert_outgoing c xs) \<and>
     set (insert_outgoing c xs) = insert c (set xs) \<and> length (insert_outgoing c xs) = Suc (length xs)"
  by (induction xs) force+

lemma sort_outgoing_spec:
  "sorted_wrt (\<lambda>x y. ke_label x \<le> ke_label y) (sort_outgoing out) \<and>
   set (sort_outgoing out) = set out \<and> length (sort_outgoing out) = length out"
proof -
  have "sorted_wrt (\<lambda>x y. ke_label y \<le> ke_label x) acc \<Longrightarrow>
      sorted_wrt (\<lambda>x y. ke_label y \<le> ke_label x) (foldl (\<lambda>acc c. insert_outgoing c acc) acc out) \<and>
      set (foldl (\<lambda>acc c. insert_outgoing c acc) acc out) = set acc \<union> set out \<and>
      length (foldl (\<lambda>acc c. insert_outgoing c acc) acc out) = length acc + length out" for acc
    by (induction out arbitrary: acc) (use insert_outgoing_sorted in \<open>auto\<close>)
  from this [of "[]"] show ?thesis
    by (simp add: sort_outgoing_def sorted_wrt_rev)
qed

text \<open>What the flattened table says of node \<open>i\<close>.\<close>

definition slice_ok :: "string list \<Rightarrow> km_node \<Rightarrow> km_edge list \<Rightarrow> nat \<Rightarrow> bool" where
  "slice_ok ps n edges i \<longleftrightarrow>
     kn_edge_start n + kn_edge_count n \<le> length edges \<and>
     (\<forall>j k. kn_edge_start n \<le> j \<longrightarrow> j \<le> k \<longrightarrow> k < kn_edge_start n + kn_edge_count n \<longrightarrow>
        ke_label (edges ! j) \<le> ke_label (edges ! k)) \<and>
     (\<forall>j. kn_edge_start n \<le> j \<longrightarrow> j < kn_edge_start n + kn_edge_count n \<longrightarrow>
        (\<exists>t < length ps. ke_target (edges ! j) = int t \<and> ps ! t = ps ! i @ [ke_label (edges ! j)])) \<and>
     (\<forall>c. ps ! i @ [c] \<in> set ps \<longrightarrow>
        (\<exists>j. kn_edge_start n \<le> j \<and> j < kn_edge_start n + kn_edge_count n \<and> ke_label (edges ! j) = c))"

lemma slice_ok_append: "slice_ok ps n edges i \<Longrightarrow> slice_ok ps n (edges @ xs) i"
  unfolding slice_ok_def by (simp add: nth_append) (smt (verit, best) le_trans not_less)

lemma slice_ok_new:
  assumes "children_ok ps i out"
  shows "slice_ok ps (n\<lparr>kn_edge_start := length edges, kn_edge_count := length out\<rparr>)
    (edges @ sort_outgoing (map flat_edge out)) i"
proof -
  let ?L = "sort_outgoing (map flat_edge out)"
  have L: "sorted_wrt (\<lambda>x y. ke_label x \<le> ke_label y) ?L" "set ?L = flat_edge ` set out"
    "length ?L = length out"
    using sort_outgoing_spec [of "map flat_edge out"] by auto
  have mono: "ke_label (?L ! j) \<le> ke_label (?L ! k)" if "j \<le> k" "k < length out" for j k
    using that L by (cases "j = k") (auto intro: sorted_wrt_nth_less)
  have tgt: "\<exists>t < length ps. ke_target x = int t \<and> ps ! t = ps ! i @ [ke_label x]"
    if x: "x \<in> set ?L" for x
  proof -
    from x L obtain e where e: "e \<in> set out" "x = flat_edge e" by auto
    with assms have "child_ok ps i e" by (simp add: children_ok_def)
    with e(2) show ?thesis
      by (intro exI [of _ "nat (kb_target e)"]) (auto simp: child_ok_def flat_edge_def)
  qed
  have lab: "\<exists>j. length edges \<le> j \<and> j < length edges + length out \<and> ke_label ((edges @ ?L) ! j) = c"
    if "ps ! i @ [c] \<in> set ps" for c
  proof -
    from that assms have "c \<in> kb_label ` set out" by (simp add: children_ok_def)
    then have "c \<in> ke_label ` set ?L" unfolding L by (auto simp: flat_edge_def image_image)
    then obtain k where "k < length out" "ke_label (?L ! k) = c"
      using L(3) by (auto simp: in_set_conv_nth)
    then show ?thesis by (intro exI [of _ "length edges + k"]) simp
  qed
  show ?thesis
    unfolding slice_ok_def using mono tgt lab L(3)
    by (auto simp: nth_append)
qed

lemma flatten_nodes_spec:
  assumes "\<And>i. i < length ns \<Longrightarrow> \<exists>out. sibling_edges (length es) es (build_first_edge (ns ! i)) = Some out \<and>
      children_ok ps (length acc + i) out"
    and "\<And>i. i < length acc \<Longrightarrow> slice_ok ps (acc ! i) edges i"
  shows "\<exists>ns' edges'. flatten_nodes es ns acc edges = Some (ns', edges') \<and>
     length ns' = length acc + length ns \<and> (\<forall>i < length ns'. slice_ok ps (ns' ! i) edges' i) \<and>
     map kn_failure ns' = map kn_failure (acc @ ns) \<and> map kn_best ns' = map kn_best (acc @ ns)"
  using assms
proof (induction ns arbitrary: acc edges)
  case Nil
  then show ?case by simp
next
  case (Cons n ns)
  from Cons.prems(1) [of 0] obtain out where
    out: "sibling_edges (length es) es (build_first_edge n) = Some out" "children_ok ps (length acc) out"
    by auto
  let ?n = "n\<lparr>kn_edge_start := length edges, kn_edge_count := length out\<rparr>"
  let ?edges = "edges @ sort_outgoing (map flat_edge out)"
  have 1: "\<exists>out. sibling_edges (length es) es (build_first_edge (ns ! i)) = Some out \<and>
      children_ok ps (length (acc @ [?n]) + i) out" if "i < length ns" for i
    using Cons.prems(1) [of "Suc i"] that by simp
  have 2: "slice_ok ps ((acc @ [?n]) ! i) ?edges i" if "i < length (acc @ [?n])" for i
    using that Cons.prems(2) slice_ok_append slice_ok_new [OF out(2)]
    by (cases "i < length acc") (auto simp: nth_append less_Suc_eq)
  from Cons.IH [OF 1 2] out(1) show ?case by simp
qed

section \<open>Transitions\<close>

lemma edge_lower_bound_spec:
  assumes "\<And>j k. lo \<le> j \<Longrightarrow> j \<le> k \<Longrightarrow> k < hi \<Longrightarrow> ke_label (es ! j) \<le> ke_label (es ! k)"
    and "lo \<le> left" "left \<le> right" "right \<le> hi" "hi \<le> length es"
    and "\<And>j. lo \<le> j \<Longrightarrow> j < left \<Longrightarrow> ke_label (es ! j) < c"
    and "\<And>j. right \<le> j \<Longrightarrow> j < hi \<Longrightarrow> c \<le> ke_label (es ! j)"
  shows "\<exists>l. edge_lower_bound es left right c = Some l \<and> lo \<le> l \<and> l \<le> hi \<and>
     (\<forall>j. lo \<le> j \<and> j < l \<longrightarrow> ke_label (es ! j) < c) \<and> (\<forall>j. l \<le> j \<and> j < hi \<longrightarrow> c \<le> ke_label (es ! j))"
  using assms
proof (induction es left right c rule: edge_lower_bound.induct)
  case (1 es left right c)
  show ?case
  proof (cases "left < right")
    case False
    with 1 show ?thesis by (subst edge_lower_bound.simps) auto
  next
    case True
    let ?m = "left + (right - left) div 2"
    have m: "left \<le> ?m" "?m < right" "?m < length es" using True "1.prems" by auto
    show ?thesis
    proof (cases "ke_label (es ! ?m) < c")
      case True2: True
      have "ke_label (es ! j) < c" if "lo \<le> j" "j < ?m + 1" for j
        using that "1.prems"(1) [of j ?m] m "1.prems"(4) True2 by (auto intro: le_less_trans)
      with "1.IH"(1) [OF True refl m(3) True2] "1.prems" m True True2 show ?thesis
        by (subst edge_lower_bound.simps) (simp add: Let_def)
    next
      case False2: False
      have "c \<le> ke_label (es ! j)" if "?m \<le> j" "j < hi" for j
        using that "1.prems"(1) [of ?m j] m "1.prems"(2) False2 by (auto intro: order_trans)
      with "1.IH"(2) [OF True refl m(3) False2] "1.prems" m True False2 show ?thesis
        by (subst edge_lower_bound.simps) (simp add: Let_def)
    qed
  qed
qed

text \<open>The relation between a finished matcher, the strings \<open>ps\<close> of its nodes and the keywords.\<close>

definition matcher_rep ::
  "(string \<Rightarrow> nat set) \<Rightarrow> string list \<Rightarrow> keyword_matcher \<Rightarrow> bool" where
  "matcher_rep f ps m \<longleftrightarrow>
     length ps = length (km_nodes m) \<and> ps \<noteq> [] \<and> ps ! 0 = [] \<and> distinct ps \<and>
     prefix_closed (set ps) \<and> (\<forall>q. f q \<noteq> {} \<longrightarrow> q \<in> set ps) \<and>
     (\<forall>i < length ps. linked f ps (km_nodes m ! i) i \<and> slice_ok ps (km_nodes m ! i) (km_edges m) i \<and>
        length (ps ! i) < length ps) \<and>
     (\<forall>c. (\<forall>i < length ps. ps ! i = [c] \<longrightarrow> km_root m c = int i) \<and> ([c] \<notin> set ps \<longrightarrow> km_root m c = 0))"

lemma matcher_repD:
  assumes "matcher_rep f ps m"
  shows "length (km_nodes m) = length ps" "ps \<noteq> []" "ps ! 0 = []" "distinct ps" "prefix_closed (set ps)"
    "\<And>q. f q \<noteq> {} \<Longrightarrow> q \<in> set ps" "\<And>i. i < length ps \<Longrightarrow> linked f ps (km_nodes m ! i) i"
    "\<And>i. i < length ps \<Longrightarrow> slice_ok ps (km_nodes m ! i) (km_edges m) i"
    "\<And>i. i < length ps \<Longrightarrow> length (ps ! i) < length ps"
    "\<And>i c. i < length ps \<Longrightarrow> ps ! i = [c] \<Longrightarrow> km_root m c = int i" "\<And>c. [c] \<notin> set ps \<Longrightarrow> km_root m c = 0"
  using assms unfolding matcher_rep_def by (elim conjE, simp)+

lemma km_next_spec:
  assumes r: "matcher_rep f ps m" and i: "i < length ps"
  shows "\<exists>n. km_next m (int i) c = Some (int n) \<and>
     (if ps ! i @ [c] \<in> set ps then n < length ps \<and> n \<noteq> 0 \<and> ps ! n = ps ! i @ [c] else n = 0)"
proof -
  note d = matcher_repD [OF r]
  have nz: "n \<noteq> 0" if "ps ! n = ps ! i @ [c]" for n using that d(3) by (metis snoc_eq_iff_butlast)
  show ?thesis
  proof (cases "i = 0")
    case True
    show ?thesis
    proof (cases "[c] \<in> set ps")
      case T: True
      then obtain n where "n < length ps" "ps ! n = [c]" by (auto simp: in_set_conv_nth)
      with True T d(3,10) nz [of n] show ?thesis by (auto simp: km_next_def)
    next
      case F: False
      with True d(3,11) show ?thesis by (auto simp: km_next_def)
    qed
  next
    case False
    let ?n = "km_nodes m ! i" and ?es = "km_edges m"
    let ?lo = "kn_edge_start ?n" and ?hi = "kn_edge_start ?n + kn_edge_count ?n"
    from d(8) [OF i] have s: "?hi \<le> length ?es"
      "\<And>j k. ?lo \<le> j \<Longrightarrow> j \<le> k \<Longrightarrow> k < ?hi \<Longrightarrow> ke_label (?es ! j) \<le> ke_label (?es ! k)"
      "\<And>j. ?lo \<le> j \<Longrightarrow> j < ?hi \<Longrightarrow>
        \<exists>t < length ps. ke_target (?es ! j) = int t \<and> ps ! t = ps ! i @ [ke_label (?es ! j)]"
      "\<And>c. ps ! i @ [c] \<in> set ps \<Longrightarrow> \<exists>j. ?lo \<le> j \<and> j < ?hi \<and> ke_label (?es ! j) = c"
      unfolding slice_ok_def by blast+
    from edge_lower_bound_spec [where lo = ?lo and hi = ?hi and es = ?es and left = ?lo and right = ?hi
        and c = c, OF s(2)] s(1) obtain l where
      l: "edge_lower_bound ?es ?lo ?hi c = Some l" "?lo \<le> l" "l \<le> ?hi"
      "\<And>j. ?lo \<le> j \<Longrightarrow> j < l \<Longrightarrow> ke_label (?es ! j) < c"
      "\<And>j. l \<le> j \<Longrightarrow> j < ?hi \<Longrightarrow> c \<le> ke_label (?es ! j)"
      by auto
    have nx: "km_next m (int i) c =
       Some (if l < ?hi \<and> ke_label (?es ! l) = c then ke_target (?es ! l) else 0)"
      using False i d(1) l(1) s(1) by (simp add: km_next_def Let_def)
    show ?thesis
    proof (cases "ps ! i @ [c] \<in> set ps")
      case T: True
      from s(4) [OF T] obtain j where j: "?lo \<le> j" "j < ?hi" "ke_label (?es ! j) = c" by blast
      with l(4) [of j] have "l \<le> j" by (meson less_irrefl not_less)
      with s(2) [of l j] l(2) j have "l < ?hi \<and> ke_label (?es ! l) = c"
        using l(5) [of l] by fastforce
      with s(3) [of l] l(2) nx T nz show ?thesis by auto
    next
      case F: False
      have "\<not> (l < ?hi \<and> ke_label (?es ! l) = c)"
        using s(3) [of l] l(2) F by (metis nth_mem)
      with nx F show ?thesis by auto
    qed
  qed
qed

lemma km_goto_spec:
  assumes r: "matcher_rep f ps m"
  shows "i < length ps \<Longrightarrow> chain_inv (set ps) w c (ps ! i) \<Longrightarrow> length (ps ! i) < fuel \<Longrightarrow>
     \<exists>n < length ps. km_goto fuel m (int i) c = Some (int n) \<and> longest_in (set ps) (w @ [c]) (ps ! n)"
proof (induction fuel arbitrary: i)
  case 0
  then show ?case by simp
next
  case (Suc fuel)
  note d = matcher_repD [OF r]
  from km_next_spec [OF r Suc.prems(1), of c] obtain n where
    n: "km_next m (int i) c = Some (int n)"
    "if ps ! i @ [c] \<in> set ps then n < length ps \<and> n \<noteq> 0 \<and> ps ! n = ps ! i @ [c] else n = 0" by blast
  show ?case
  proof (cases "ps ! i @ [c] \<in> set ps")
    case True
    with n chain_found [OF Suc.prems(2) True] show ?thesis by auto
  next
    case False
    with n have n0: "km_next m (int i) c = Some 0" by simp
    show ?thesis
    proof (cases "i = 0")
      case True
      with chain_root [of "set ps" w c] Suc.prems(2) False d n0 show ?thesis
        by (intro exI [of _ 0]) (auto simp: prefix_closed_def)
    next
      case i0: False
      let ?k = "nat (kn_failure (km_nodes m ! i))"
      from d(7) [OF Suc.prems(1)] have k: "0 \<le> kn_failure (km_nodes m ! i)" "?k < length ps"
        "longest_in (set ps) (tl (ps ! i)) (ps ! ?k)" by (auto simp: linked_def)
      have "ps ! i \<noteq> []" using i0 Suc.prems(1) d by (metis nth_eq_iff_index_eq length_greater_0_conv)
      with longest_shorter [OF k(3)] have sh: "length (ps ! ?k) < length (ps ! i)"
        by (cases "ps ! i") auto
      have ch: "chain_inv (set ps) w c (ps ! ?k)"
        by (rule chain_next [OF d(5) Suc.prems(2) False k(3)])
      from Suc.IH [OF k(2) ch] Suc.prems sh k n0 i0 d(1) show ?thesis
        by (simp add: Let_def node_at_def)
    qed
  qed
qed

section \<open>The scan\<close>

lemma best_of_hits_0: "best_of (hits f w) 0 \<Longrightarrow> best_of (hits f (w @ v)) 0"
proof -
  assume "best_of (hits f w) 0"
  then have "0 \<in> hits f w" by (auto simp: best_of_def)
  then have "0 \<in> hits f (w @ v)"
    unfolding hits_def using sublist_order.order_trans [OF _ sublist_append_rightI] by blast
  then show ?thesis by (auto simp: best_of_def)
qed

lemma km_scan_spec:
  assumes r: "matcher_rep f ps m"
  shows "i < length ps \<Longrightarrow> longest_in (set ps) w (ps ! i) \<Longrightarrow> best_of (hits f w) best \<Longrightarrow>
     \<exists>b. km_scan m (int i) best v = Some b \<and> best_of (hits f (w @ v)) b"
proof (induction v arbitrary: w i best)
  case Nil
  then show ?case by simp
next
  case (Cons c v)
  note d = matcher_repD [OF r]
  from km_goto_spec [OF r Cons.prems(1) chain_start [OF d(5) Cons.prems(2)] d(9) [OF Cons.prems(1)]]
  obtain n where n: "n < length ps" "km_goto (length ps) m (int i) c = Some (int n)"
    "longest_in (set ps) (w @ [c]) (ps ! n)" by blast
  let ?b = "min_keyword_index best (kn_best (km_nodes m ! n))"
  have "best_of (occ f (w @ [c])) (kn_best (km_nodes m ! n))"
    using d(7) [OF n(1)] occ_longest [of f "set ps", OF d(6) n(3)] by (auto simp: linked_def)
  from best_of_union [OF Cons.prems(3) this] have b: "best_of (hits f (w @ [c])) ?b"
    by (simp add: hits_snoc)
  have at: "node_at (km_nodes m) (int n) = Some (km_nodes m ! n)" using n(1) d(1) by simp
  show ?case
  proof (cases "?b = 0")
    case True
    with best_of_hits_0 [of f "w @ [c]" v] b n(2) at d(1) show ?thesis by (simp add: Let_def)
  next
    case False
    with Cons.IH [OF n(1,3) b] n(2) at d(1) show ?thesis by (simp add: Let_def)
  qed
qed

section \<open>Construction\<close>

lemma root_table:
  "distinct (map kb_label out) \<Longrightarrow>
     foldl (\<lambda>r e. r(kb_label e := kb_target e)) r0 out c =
       (case find (\<lambda>e. kb_label e = c) out of Some e \<Rightarrow> kb_target e | None \<Rightarrow> r0 c)"
proof (induction out arbitrary: r0)
  case Nil
  then show ?case by simp
next
  case (Cons e out)
  show ?case
  proof (cases "kb_label e = c")
    case True
    with Cons.prems have "kb_label x \<noteq> c" if "x \<in> set out" for x
      using that by (auto simp: image_iff)
    then have "find (\<lambda>e. kb_label e = c) out = None" by (simp add: find_None_iff)
    with Cons True show ?thesis by simp
  next
    case False
    with Cons show ?thesis by (auto split: option.splits)
  qed
qed

lemma root_table_spec:
  assumes ch: "children_ok ps 0 out" and d: "distinct ps" "ps ! 0 = []"
  defines "r \<equiv> foldl (\<lambda>r e. r(kb_label e := kb_target e)) (\<lambda>_. 0) out"
  shows "i < length ps \<Longrightarrow> ps ! i = [c] \<Longrightarrow> r c = int i" "[c] \<notin> set ps \<Longrightarrow> r c = 0"
proof -
  have r: "r c = (case find (\<lambda>e. kb_label e = c) out of Some e \<Rightarrow> kb_target e | None \<Rightarrow> 0)"
    using ch by (simp add: r_def root_table children_ok_def)
  show "r c = int i" if "i < length ps" "ps ! i = [c]"
  proof -
    from that ch d(2) have "c \<in> kb_label ` set out"
      by (metis append_Nil children_ok_def nth_mem)
    then obtain e where e: "find (\<lambda>e. kb_label e = c) out = Some e"
      by (cases "find (\<lambda>e. kb_label e = c) out") (auto simp: find_None_iff)
    then have "e \<in> set out" "kb_label e = c" by (auto simp: find_Some_iff)
    with ch that d have "kb_target e = int i"
      by (auto simp: children_ok_def intro: child_target)
    with r e show ?thesis by simp
  qed
  show "r c = 0" if "[c] \<notin> set ps"
  proof -
    have "kb_label e \<noteq> c" if "e \<in> set out" for e
      using that ch d(2) \<open>[c] \<notin> set ps\<close> by (auto simp: children_ok_def child_ok_def) (metis nth_mem)
    then have "find (\<lambda>e. kb_label e = c) out = None" by (simp add: find_None_iff)
    with r show ?thesis by simp
  qed
qed

lemma matcher_repI:
  assumes inv: "link_inv f ns es ps {..<length ps}" and fl: "flatten_nodes es ns [] [] = Some (ns2, edges)"
    and out: "outgoing_edges ns es 0 = Some out"
  shows "matcher_rep f ps \<lparr>km_nodes = ns2, km_edges = edges,
           km_root = foldl (\<lambda>r e. r(kb_label e := kb_target e)) (\<lambda>_. 0) out, km_keywords = kws\<rparr>"
proof -
  note t = link_invD(1) [OF inv]
  note d = trie_repD [OF t]
  have "\<exists>out. sibling_edges (length es) es (build_first_edge (ns ! i)) = Some out \<and> children_ok ps (0 + i) out"
    if "i < length ns" for i
    using trie_rep_out [OF t that] that by (simp add: outgoing_edges_nth)
  from flatten_nodes_spec [of ns es ps "[]" "[]"] this fl
  have n2: "length ns2 = length ns" "\<And>i. i < length ns2 \<Longrightarrow> slice_ok ps (ns2 ! i) edges i"
    "map kn_failure ns2 = map kn_failure ns" "map kn_best ns2 = map kn_best ns" by auto
  have fb: "kn_failure (ns2 ! i) = kn_failure (ns ! i)" "kn_best (ns2 ! i) = kn_best (ns ! i)"
    if "i < length ns" for i
    using that n2 by (metis nth_map)+
  have l: "linked f ps (ns2 ! i) i" if "i < length ns" for i
    using link_invD(6) [OF inv, of i] that fb [OF that] d(1) by (simp add: linked_def)
  from trie_rep_out [OF t, of 0] d(6) out have ch: "children_ok ps 0 out" by auto
  have dl: "length (ps ! i) < length ps" if "i < length ps" for i
    using depth_less [OF t] that d(1) by simp
  show ?thesis
    unfolding matcher_rep_def
    using d(2-5) n2(1,2) l link_invD(2) [OF inv] root_table_spec [OF ch d(4,3)]
    by (simp add: dl d(1) [symmetric])
qed

lemma kw_at_ne: "kw_at uni k kws q \<noteq> {} \<Longrightarrow> \<exists>kw \<in> set kws. kw \<noteq> [] \<and> to_lower uni kw = q"
  using kw_at_iff [of _ uni k kws q] by (metis all_not_in_conv nth_mem)

lemma new_keyword_matcher_spec:
  assumes low: "\<And>s. s \<noteq> [] \<Longrightarrow> to_lower uni s \<noteq> []"
  shows "\<exists>mo. new_keyword_matcher uni kws = Some mo \<and>
     (case mo of
        None \<Rightarrow> \<forall>kw \<in> set kws. kw = []
      | Some m \<Rightarrow> kws \<noteq> [] \<and> km_keywords m = kws \<and> (\<exists>ps. matcher_rep (kw_at uni 0 kws) ps m))"
proof (cases "kws = []")
  case True
  then show ?thesis by (simp add: new_keyword_matcher_def)
next
  case False
  let ?f = "kw_at uni 0 kws"
  have "build_inv (\<lambda>_. {}) [new_keyword_node] [] [[]]"
    using trie_rep_init by (simp add: build_inv_def new_keyword_node_def)
  from insert_keywords_inv [OF this, of uni 0 kws] obtain ns es ps where
    ik: "insert_keywords uni 0 kws [new_keyword_node] [] = Some (ns, es)" and b: "build_inv ?f ns es ps"
    by auto
  then have t: "trie_rep ns es ps" by (simp add: build_inv_def)
  note d = trie_repD [OF t]
  have f0: "?f [] = {}" using kw_at_ne [of uni 0 kws "[]"] low by blast
  show ?thesis
  proof (cases "length ns = 1")
    case True
    have "kw = []" if "kw \<in> set kws" for kw
    proof (rule ccontr)
      assume ne: "kw \<noteq> []"
      with that have "?f (to_lower uni kw) \<noteq> {}" by (auto simp: in_set_conv_nth kw_at_iff set_eq_iff)
      with b have "to_lower uni kw \<in> set ps" by (simp add: build_inv_def)
      moreover from True d(1,3) have "set ps = {[]}" by (cases ps) auto
      ultimately show False using low [OF ne] by simp
    qed
    with True ik False show ?thesis by (auto simp: new_keyword_matcher_def)
  next
    case n1: False
    from trie_rep_out [OF t, of 0] d(6) obtain out where out: "outgoing_edges ns es 0 = Some out" by auto
    let ?T = "map (\<lambda>e. nat (kb_target e)) out"
    note st = link_inv_start [OF b f0 out]
    have "card (insert 0 (set ?T)) = Suc (length out)"
      using targets_distinct [OF st(4)] st(4) d(3) distinct_card [of ?T]
      by (subst card_insert_disjoint) (auto simp: children_ok_def child_ok_def)
    moreover have "card (insert 0 (set ?T)) \<le> length ps"
      using st(2) card_mono [of "{..<length ps}" "insert 0 (set ?T)"] by (auto simp: queue_inv_def)
    ultimately have "length ?T + (length ps - card (insert 0 (set ?T))) \<le> length ns"
      using d(1) by simp
    from link_queue_spec [OF st(1,2) this] st(3) obtain ns1 where
      lq: "link_queue (length ns) ns es (map kb_target out) = Some ns1"
      "map kn_edge_start ns1 = map kn_edge_start ns" "link_inv ?f ns1 es ps {..<length ps}" by auto
    note t1 = link_invD(1) [OF lq(3)]
    have "\<exists>out. sibling_edges (length es) es (build_first_edge (ns1 ! i)) = Some out \<and> children_ok ps (0 + i) out"
      if "i < length ns1" for i
      using trie_rep_out [OF t1 that] that by (simp add: outgoing_edges_nth)
    from flatten_nodes_spec [of ns1 es ps "[]" "[]"] this obtain ns2 edges where
      fl: "flatten_nodes es ns1 [] [] = Some (ns2, edges)" by auto
    have "length ns1 = length ns" using lq(2) by (metis length_map)
    moreover have "kn_edge_start (ns1 ! 0) = kn_edge_start (ns ! 0)"
      using lq(2) d(6) \<open>length ns1 = length ns\<close> by (metis length_greater_0_conv nth_map)
    ultimately have "outgoing_edges ns1 es 0 = Some out"
      using out d(6) outgoing_edges_nth [of 0 ns1 es] outgoing_edges_nth [of 0 ns es]
      by (simp add: build_first_edge_def)
    from matcher_repI [OF lq(3) fl this] ik n1 out lq(1) fl False show ?thesis
      by (auto simp: new_keyword_matcher_def Let_def)
  qed
qed

section \<open>The result\<close>

definition first_keyword_in :: "(string \<Rightarrow> string) \<Rightarrow> string list \<Rightarrow> string \<Rightarrow> (string \<times> bool)" where
  "first_keyword_in uni kws text =
     (case find (\<lambda>kw. kw \<noteq> [] \<and> sublist (to_lower uni kw) (to_lower uni text)) kws of
        None \<Rightarrow> ([], False)
      | Some kw \<Rightarrow> (kw, True))"

lemma hits_kw_at:
  "hits (kw_at uni 0 kws) w =
     {i. i < length kws \<and> kws ! i \<noteq> [] \<and> sublist (to_lower uni (kws ! i)) w}"
  by (auto simp: hits_def kw_at_iff)

lemma best_of_find:
  assumes "best_of {i. i < length xs \<and> P (xs ! i)} b"
  shows "find P xs = (if b < 0 then None else Some (xs ! nat b))" "b < 0 \<or> nat b < length xs"
proof -
  have "find P xs = (if b < 0 then None else Some (xs ! nat b)) \<and> (b < 0 \<or> nat b < length xs)"
  proof (cases "{i. i < length xs \<and> P (xs ! i)} = {}")
    case True
    with assms have "b = -1" by simp
    moreover have "find P xs = None" using True by (auto simp: find_None_iff in_set_conv_nth)
    ultimately show ?thesis by simp
  next
    case False
    with assms obtain k where k: "b = int k" "k < length xs" "P (xs ! k)"
      "\<And>j. j < length xs \<Longrightarrow> P (xs ! j) \<Longrightarrow> k \<le> j"
      by (auto simp: best_of_def)
    then have "\<forall>j < k. \<not> P (xs ! j)" by (metis less_le_trans less_imp_le not_le)
    with k show ?thesis by (auto simp: find_Some_iff)
  qed
  then show "find P xs = (if b < 0 then None else Some (xs ! nat b))" "b < 0 \<or> nat b < length xs" by auto
qed

text \<open>C27: for every keyword list and text the matcher is built and the scan returns, with
  all indices in range, and the answer is the first configured keyword (as written in the
  configuration) that is not empty and whose lower-cased bytes occur in the lower-cased
  text; no match is reported when there is none. The one assumption is that lower-casing
  a string that is not empty does not give the empty string.\<close>

theorem keyword_match_first:
  assumes "\<And>s. s \<noteq> [] \<Longrightarrow> uni s \<noteq> []"
  shows "\<exists>mo. new_keyword_matcher uni kws = Some mo \<and>
     keyword_match uni mo text = Some (first_keyword_in uni kws text)"
proof -
  have low: "\<And>s. s \<noteq> [] \<Longrightarrow> to_lower uni s \<noteq> []" using assms by (simp add: to_lower_def)
  from new_keyword_matcher_spec [OF low, of kws] obtain mo where mo: "new_keyword_matcher uni kws = Some mo"
    "case mo of None \<Rightarrow> \<forall>kw \<in> set kws. kw = []
      | Some m \<Rightarrow> kws \<noteq> [] \<and> km_keywords m = kws \<and> (\<exists>ps. matcher_rep (kw_at uni 0 kws) ps m)" by auto
  show ?thesis
  proof (cases mo)
    case None
    with mo(2) have "find (\<lambda>kw. kw \<noteq> [] \<and> sublist (to_lower uni kw) (to_lower uni text)) kws = None"
      by (auto simp: find_None_iff)
    with None mo(1) show ?thesis by (simp add: keyword_match_def first_keyword_in_def)
  next
    case (Some m)
    with mo(2) obtain ps where m: "kws \<noteq> []" "km_keywords m = kws" "matcher_rep (kw_at uni 0 kws) ps m"
      by auto
    note d = matcher_repD [OF m(3)]
    show ?thesis
    proof (cases "text = []")
      case True
      then have "to_lower uni text = []" by (simp add: to_lower_def is_ascii_def)
      then have "find (\<lambda>kw. kw \<noteq> [] \<and> sublist (to_lower uni kw) (to_lower uni text)) kws = None"
        using low by (simp add: find_None_iff) blast
      with True Some mo(1) show ?thesis by (simp add: keyword_match_def first_keyword_in_def)
    next
      case False
      have "hits (kw_at uni 0 kws) [] = {}" using low by (auto simp: hits_kw_at)
      then have b0: "best_of (hits (kw_at uni 0 kws) []) (- 1)" by simp
      have l0: "longest_in (set ps) [] (ps ! 0)" using d(2,3,5) by (auto simp: longest_in_def prefix_closed_def)
      from km_scan_spec [OF m(3) _ l0 b0, of "to_lower uni text"] d(2) obtain b where
        b: "km_scan m 0 (- 1) (to_lower uni text) = Some b"
        "best_of (hits (kw_at uni 0 kws) (to_lower uni text)) b" by auto
      note f = best_of_find [of kws "\<lambda>kw. kw \<noteq> [] \<and> sublist (to_lower uni kw) (to_lower uni text)" b]
      from b(2) f have "find (\<lambda>kw. kw \<noteq> [] \<and> sublist (to_lower uni kw) (to_lower uni text)) kws =
          (if b < 0 then None else Some (kws ! nat b))" "b < 0 \<or> nat b < length kws"
        by (simp_all add: hits_kw_at)
      with b(1) False m(1,2) Some mo(1) d(1,2) show ?thesis
        by (auto simp: keyword_match_def first_keyword_in_def)
    qed
  qed
qed

theorem keyword_match_first_witness:
  "\<exists>mo. new_keyword_matcher id [''Bomb'', ''om'', ''''] = Some mo \<and>
     keyword_match id mo ''a ROOM'' = Some (''om'', True)"
proof -
  have "first_keyword_in id [''Bomb'', ''om'', ''''] ''a ROOM'' = (''om'', True)"
    by code_simp
  with keyword_match_first [of id "[''Bomb'', ''om'', '''']" "''a ROOM''"] show ?thesis by simp
qed

end
