(* ===== verification/ProxyCircuit.thy ===== *)
theory ProxyCircuit
  imports Prelude
begin

text \<open>
  The stream-disconnect circuit of the upstream proxies
  (\<^verbatim>\<open>internal/service/openai_proxy_stream_circuit.go\<close>): a bounded map from proxy IDs to
  failure observations. A proxy that loses enough streams within a window is quarantined
  for a while; disconnects close to each other count once.
\<close>

section \<open>Settings\<close>

record circuit_settings =
  cs_disabled :: bool
  cs_failure_threshold :: int
  cs_failure_window :: duration
  cs_quarantine_ttl :: duration
  cs_collapse_interval :: duration
  cs_max_entries :: int

record circuit_config =
  cc_disabled :: bool
  cc_failure_threshold :: int
  cc_window_seconds :: int
  cc_ttl_seconds :: int

record circuit_entry =
  ce_failure_count :: int
  ce_window_start :: instant
  ce_last_failure_at :: instant
  ce_blocked_until :: instant
  ce_last_touched :: instant

record proxy_circuit =
  pc_settings :: circuit_settings
  pc_entries :: "(int, circuit_entry) gomap"

definition default_circuit_settings :: circuit_settings where
  "default_circuit_settings =
     \<lparr>cs_disabled = False, cs_failure_threshold = 2, cs_failure_window = minute,
      cs_quarantine_ttl = 10 * minute, cs_collapse_interval = 3 * second,
      cs_max_entries = 4096\<rparr>"

definition zero_circuit_entry :: circuit_entry where
  "zero_circuit_entry =
     \<lparr>ce_failure_count = 0, ce_window_start = zero_time, ce_last_failure_at = zero_time,
      ce_blocked_until = zero_time, ce_last_touched = zero_time\<rparr>"

definition resolve_circuit_settings :: "circuit_config option \<Rightarrow> circuit_settings" where
  "resolve_circuit_settings cfg =
     (case cfg of
        None \<Rightarrow> default_circuit_settings
      | Some c \<Rightarrow>
          let s0 = default_circuit_settings\<lparr>cs_disabled := cc_disabled c\<rparr>;
              s1 = (if 0 < cc_failure_threshold c
                    then s0\<lparr>cs_failure_threshold := cc_failure_threshold c\<rparr> else s0);
              s2 = (if 0 < cc_window_seconds c
                    then s1\<lparr>cs_failure_window := cc_window_seconds c * second\<rparr> else s1)
          in if 0 < cc_ttl_seconds c
             then s2\<lparr>cs_quarantine_ttl := cc_ttl_seconds c * second\<rparr> else s2)"

definition new_proxy_circuit :: "circuit_settings \<Rightarrow> proxy_circuit" where
  "new_proxy_circuit s =
     (let d = default_circuit_settings;
          s1 = (if cs_failure_threshold s \<le> 0
                then s\<lparr>cs_failure_threshold := cs_failure_threshold d\<rparr> else s);
          s2 = (if cs_failure_window s1 \<le> 0
                then s1\<lparr>cs_failure_window := cs_failure_window d\<rparr> else s1);
          s3 = (if cs_quarantine_ttl s2 \<le> 0
                then s2\<lparr>cs_quarantine_ttl := cs_quarantine_ttl d\<rparr> else s2);
          s4 = (if cs_max_entries s3 \<le> 0 then s3\<lparr>cs_max_entries := cs_max_entries d\<rparr> else s3);
          s5 = (if cs_collapse_interval s4 < 0 then s4\<lparr>cs_collapse_interval := 0\<rparr> else s4)
      in \<lparr>pc_settings = s5, pc_entries = []\<rparr>)"

section \<open>Operations\<close>

definition circuit_reclaimable :: "circuit_settings \<Rightarrow> instant \<Rightarrow> circuit_entry \<Rightarrow> bool" where
  "circuit_reclaimable s now e \<longleftrightarrow>
     (is_zero_time (ce_blocked_until e) \<and> cs_failure_window s < now - ce_last_touched e) \<or>
     (\<not> is_zero_time (ce_blocked_until e) \<and> ce_blocked_until e \<le> now)"

fun oldest_entry :: "int \<times> instant \<Rightarrow> (int, circuit_entry) gomap \<Rightarrow> int \<times> instant" where
  "oldest_entry (k, t) [] = (k, t)"
| "oldest_entry (k, t) ((k', e) # m) =
     (if k = 0 \<or> ce_last_touched e < t then oldest_entry (k', ce_last_touched e) m
      else oldest_entry (k, t) m)"

definition circuit_ensure_capacity ::
  "((int, circuit_entry) gomap \<Rightarrow> (int, circuit_entry) gomap) \<Rightarrow>
     proxy_circuit \<Rightarrow> instant \<Rightarrow> proxy_circuit" where
  "circuit_ensure_capacity ord c now =
     (if int (gm_len (pc_entries c)) < cs_max_entries (pc_settings c) then c
      else let m = gm_filter (\<lambda>_ e. \<not> circuit_reclaimable (pc_settings c) now e) (pc_entries c) in
        if int (gm_len m) < cs_max_entries (pc_settings c) then c\<lparr>pc_entries := m\<rparr>
        else let k = fst (oldest_entry (0, zero_time) (ord m)) in
          c\<lparr>pc_entries := (if 0 < k then gm_delete k m else m)\<rparr>)"

definition record_failure ::
  "((int, circuit_entry) gomap \<Rightarrow> (int, circuit_entry) gomap) \<Rightarrow>
     proxy_circuit \<Rightarrow> int \<Rightarrow> instant \<Rightarrow> proxy_circuit \<times> bool \<times> instant" where
  "record_failure ord c proxy_id now =
     (if cs_disabled (pc_settings c) \<or> proxy_id \<le> 0 then (c, False, zero_time)
      else let s = pc_settings c;
               found = gm_get (pc_entries c) proxy_id;
               e0 = (case found of Some e \<Rightarrow> e | None \<Rightarrow> zero_circuit_entry);
               store = (\<lambda>c e. c\<lparr>pc_entries := gm_set proxy_id e (pc_entries c)\<rparr>) in
        if found \<noteq> None \<and> now < ce_blocked_until e0 then
          (store c (e0\<lparr>ce_last_touched := now\<rparr>), False, ce_blocked_until e0)
        else let c1 = (if found = None then circuit_ensure_capacity ord c now else c);
                 e1 = (if is_zero_time (ce_window_start e0) \<or> now < ce_window_start e0 \<or>
                          cs_failure_window s < now - ce_window_start e0
                       then e0\<lparr>ce_failure_count := 0, ce_window_start := now,
                               ce_blocked_until := zero_time\<rparr>
                       else e0) in
          if 0 < cs_collapse_interval s \<and> \<not> is_zero_time (ce_last_failure_at e1) \<and>
             0 \<le> now - ce_last_failure_at e1 \<and>
             now - ce_last_failure_at e1 < cs_collapse_interval s
          then (store c1 (e1\<lparr>ce_last_touched := now\<rparr>), False, zero_time)
          else let e2 = e1\<lparr>ce_failure_count := ce_failure_count e1 + 1,
                           ce_last_failure_at := now, ce_last_touched := now\<rparr>;
                   tripped = (cs_failure_threshold s \<le> ce_failure_count e2);
                   e3 = (if tripped then e2\<lparr>ce_blocked_until := now + cs_quarantine_ttl s\<rparr>
                         else e2)
            in (store c1 e3, tripped, ce_blocked_until e3))"

definition record_success :: "proxy_circuit \<Rightarrow> int \<Rightarrow> proxy_circuit \<times> bool" where
  "record_success c proxy_id =
     (if proxy_id \<le> 0 then (c, False)
      else if gm_get (pc_entries c) proxy_id = None then (c, False)
      else (c\<lparr>pc_entries := gm_delete proxy_id (pc_entries c)\<rparr>, True))"

definition is_blocked :: "proxy_circuit \<Rightarrow> int \<Rightarrow> instant \<Rightarrow> proxy_circuit \<times> bool" where
  "is_blocked c proxy_id now =
     (if cs_disabled (pc_settings c) \<or> proxy_id \<le> 0 then (c, False)
      else case gm_get (pc_entries c) proxy_id of
        None \<Rightarrow> (c, False)
      | Some e \<Rightarrow>
          if is_zero_time (ce_blocked_until e) then (c, False)
          else if ce_blocked_until e \<le> now then
            (c\<lparr>pc_entries := gm_delete proxy_id (pc_entries c)\<rparr>, False)
          else (c, True))"

definition active_block_count :: "proxy_circuit \<Rightarrow> instant \<Rightarrow> nat" where
  "active_block_count c now =
     (if cs_disabled (pc_settings c) then 0
      else length (filter (\<lambda>(k, e). \<not> is_zero_time (ce_blocked_until e) \<and> now < ce_blocked_until e)
             (pc_entries c)))"

section \<open>The gateway's use of the circuit\<close>

text \<open>The fields of \<open>OpenAIGatewayService\<close> and \<open>Account\<close> the functions read; the request
  context is \<open>None\<close> when nil and otherwise the value under the bypass key.\<close>

record circuit_gateway =
  cg_cfg :: "circuit_config option"
  cg_once_done :: bool
  cg_circuit :: "proxy_circuit option"
  cg_fail_open_log_at :: int

record circuit_account =
  ca_platform :: string
  ca_proxy_id :: "int option"

datatype stream_error = StreamCanceled | StreamDeadlineExceeded | StreamOther string

type_synonym bypass_ctx = "bool option option"

definition get_proxy_circuit :: "circuit_gateway \<Rightarrow> circuit_gateway \<times> proxy_circuit option" where
  "get_proxy_circuit g =
     (let g1 = (if cg_once_done g then g
                else g\<lparr>cg_once_done := True,
                       cg_circuit := (case cg_circuit g of
                          None \<Rightarrow> Some (new_proxy_circuit (resolve_circuit_settings (cg_cfg g)))
                        | Some c \<Rightarrow> Some c)\<rparr>)
      in (g1, cg_circuit g1))"

definition circuit_proxy_id :: "circuit_account option \<Rightarrow> (int \<times> bool)" where
  "circuit_proxy_id acc =
     (case acc of
        None \<Rightarrow> (0, False)
      | Some a \<Rightarrow>
          if ca_platform a \<noteq> ''openai'' then (0, False)
          else case ca_proxy_id a of
            None \<Rightarrow> (0, False)
          | Some p \<Rightarrow> if p \<le> 0 then (0, False) else (p, True))"

definition record_stream_disconnect ::
  "((int, circuit_entry) gomap \<Rightarrow> (int, circuit_entry) gomap) \<Rightarrow>
     circuit_gateway \<Rightarrow> circuit_account option \<Rightarrow> stream_error option \<Rightarrow> instant \<Rightarrow> circuit_gateway" where
  "record_stream_disconnect ord g acc err now =
     (let (proxy_id, ok) = circuit_proxy_id acc in
      if \<not> ok \<or> err = None \<or> err = Some StreamCanceled \<or> err = Some StreamDeadlineExceeded then g
      else case get_proxy_circuit g of
        (g1, None) \<Rightarrow> g1
      | (g1, Some c) \<Rightarrow> g1\<lparr>cg_circuit := Some (fst (record_failure ord c proxy_id now))\<rparr>)"

definition clear_stream_disconnect :: "circuit_gateway \<Rightarrow> circuit_account option \<Rightarrow> circuit_gateway" where
  "clear_stream_disconnect g acc =
     (let (proxy_id, ok) = circuit_proxy_id acc in
      if \<not> ok then g
      else case get_proxy_circuit g of
        (g1, None) \<Rightarrow> g1
      | (g1, Some c) \<Rightarrow> g1\<lparr>cg_circuit := Some (fst (record_success c proxy_id))\<rparr>)"

text \<open>\<open>context.WithValue\<close> panics on a nil context: the result is then \<open>None\<close>.\<close>

definition with_quarantine_bypass :: "bypass_ctx \<Rightarrow> bypass_ctx option" where
  "with_quarantine_bypass ctx = map_option (\<lambda>_. Some (Some True)) ctx"

definition quarantine_bypassed :: "bypass_ctx \<Rightarrow> bool" where
  "quarantine_bypassed ctx =
     (case ctx of None \<Rightarrow> False | Some None \<Rightarrow> False | Some (Some b) \<Rightarrow> b)"

definition is_stream_quarantined ::
  "circuit_gateway \<Rightarrow> bypass_ctx \<Rightarrow> circuit_account option \<Rightarrow> instant \<Rightarrow> circuit_gateway \<times> bool" where
  "is_stream_quarantined g ctx acc now =
     (let (proxy_id, ok) = circuit_proxy_id acc in
      if \<not> ok then (g, False)
      else if quarantine_bypassed ctx then (g, False)
      else case get_proxy_circuit g of
        (g1, None) \<Rightarrow> (g1, False)
      | (g1, Some c) \<Rightarrow>
          let (c1, b) = is_blocked c proxy_id now in (g1\<lparr>cg_circuit := Some c1\<rparr>, b))"

text \<open>The flag \<open>swapped\<close> is the result of the compare-and-swap; the second component says
  whether the warning is written.\<close>

definition log_quarantine_fail_open :: "circuit_gateway \<Rightarrow> int \<Rightarrow> bool \<Rightarrow> circuit_gateway \<times> bool" where
  "log_quarantine_fail_open g now swapped =
     (if now - cg_fail_open_log_at g < 5 * second \<or> \<not> swapped then (g, False)
      else (g\<lparr>cg_fail_open_log_at := now\<rparr>, True))"

section \<open>The map stays well formed and bounded\<close>

definition settings_ok :: "circuit_settings \<Rightarrow> bool" where
  "settings_ok s \<longleftrightarrow>
     0 < cs_failure_threshold s \<and> 0 < cs_failure_window s \<and> 0 < cs_quarantine_ttl s \<and>
     0 \<le> cs_collapse_interval s \<and> 0 < cs_max_entries s"

lemma new_circuit_settings_ok: "settings_ok (pc_settings (new_proxy_circuit s))"
  by (simp add: new_proxy_circuit_def settings_ok_def default_circuit_settings_def Let_def time_defs)

lemma new_circuit_settings_id: "settings_ok s \<Longrightarrow> pc_settings (new_proxy_circuit s) = s"
  by (simp add: new_proxy_circuit_def settings_ok_def Let_def)

lemma new_circuit_entries [simp]: "pc_entries (new_proxy_circuit s) = []"
  by (simp add: new_proxy_circuit_def Let_def)

definition circuit_inv :: "proxy_circuit \<Rightarrow> bool" where
  "circuit_inv c \<longleftrightarrow>
     settings_ok (pc_settings c) \<and> gm_ok (pc_entries c) \<and> (\<forall>k \<in> gm_keys (pc_entries c). 0 < k) \<and>
     int (gm_len (pc_entries c)) \<le> cs_max_entries (pc_settings c)"

lemma oldest_entry_in:
  "fst (oldest_entry (k, t) m) = k \<and> (k \<noteq> 0 \<or> m = []) \<or> fst (oldest_entry (k, t) m) \<in> fst ` set m"
  by (induction "(k, t)" m arbitrary: k t rule: oldest_entry.induct) auto


lemma ensure_capacity_settings [simp]:
  "pc_settings (circuit_ensure_capacity ord c now) = pc_settings c"
  by (simp add: circuit_ensure_capacity_def Let_def)

lemma ensure_capacity_inv:
  assumes ord: "range_ok ord" and inv: "circuit_inv c"
  shows "circuit_inv (circuit_ensure_capacity ord c now)"
    and "int (gm_len (pc_entries (circuit_ensure_capacity ord c now))) < cs_max_entries (pc_settings c)"
proof -
  let ?max = "cs_max_entries (pc_settings c)"
  let ?m = "gm_filter (\<lambda>_ e. \<not> circuit_reclaimable (pc_settings c) now e) (pc_entries c)"
  let ?k = "fst (oldest_entry (0, zero_time) (ord ?m))"
  from inv have ok: "gm_ok ?m" "\<forall>k \<in> gm_keys ?m. 0 < k" "0 < ?max" "settings_ok (pc_settings c)"
    "int (gm_len ?m) \<le> ?max"
    using gm_keys_filter [of _ "pc_entries c"] gm_len_filter [of _ "pc_entries c"]
    by (auto simp: circuit_inv_def settings_ok_def) (smt (verit, best) of_nat_mono)
  have del: "0 < ?k \<and> int (gm_len (gm_delete ?k ?m)) < ?max" if full: "\<not> int (gm_len ?m) < ?max"
  proof -
    from full ok(3) have "?m \<noteq> []" by auto
    then have "ord ?m \<noteq> []" using range_ok_length [OF ord, of ?m] by auto
    then have "?k \<in> gm_keys ?m"
      using oldest_entry_in [of 0 zero_time "ord ?m"] range_ok_set [OF ord, of ?m]
      by (auto simp: gm_keys_def)
    with gm_keys_get [of ?k ?m] gm_len_delete [OF ok(1), of ?k] have
      "gm_len (gm_delete ?k ?m) = gm_len ?m - 1" by auto
    moreover have "0 < gm_len ?m" using \<open>?m \<noteq> []\<close> by blast
    ultimately have "int (gm_len (gm_delete ?k ?m)) < ?max" using ok(5) by linarith
    with ok(2) \<open>?k \<in> gm_keys ?m\<close> show ?thesis by blast
  qed
  show "circuit_inv (circuit_ensure_capacity ord c now)"
    using inv ok del
    by (auto simp: circuit_ensure_capacity_def circuit_inv_def Let_def gm_keys_delete)
  show "int (gm_len (pc_entries (circuit_ensure_capacity ord c now))) < ?max"
    using del by (auto simp: circuit_ensure_capacity_def Let_def)
qed

lemma ensure_capacity_get:
  assumes "circuit_inv c"
  shows "gm_get (pc_entries (circuit_ensure_capacity ord c now)) k = gm_get (pc_entries c) k \<or>
     gm_get (pc_entries (circuit_ensure_capacity ord c now)) k = None"
  using assms
  by (auto simp: circuit_ensure_capacity_def circuit_inv_def Let_def gm_get_filter split: option.splits)

text \<open>The entry a recorded failure leaves, as a function of the one before it.\<close>

definition window_entry :: "circuit_settings \<Rightarrow> circuit_entry \<Rightarrow> instant \<Rightarrow> circuit_entry" where
  "window_entry s e0 now =
     (if is_zero_time (ce_window_start e0) \<or> now < ce_window_start e0 \<or>
         cs_failure_window s < now - ce_window_start e0
      then e0\<lparr>ce_failure_count := 0, ce_window_start := now, ce_blocked_until := zero_time\<rparr>
      else e0)"

definition collapses :: "circuit_settings \<Rightarrow> circuit_entry \<Rightarrow> instant \<Rightarrow> bool" where
  "collapses s e now \<longleftrightarrow>
     0 < cs_collapse_interval s \<and> \<not> is_zero_time (ce_last_failure_at e) \<and>
     0 \<le> now - ce_last_failure_at e \<and> now - ce_last_failure_at e < cs_collapse_interval s"

definition count_entry :: "circuit_settings \<Rightarrow> circuit_entry \<Rightarrow> instant \<Rightarrow> circuit_entry" where
  "count_entry s e now =
     (let e2 = e\<lparr>ce_failure_count := ce_failure_count e + 1, ce_last_failure_at := now,
                ce_last_touched := now\<rparr>
      in if cs_failure_threshold s \<le> ce_failure_count e2
         then e2\<lparr>ce_blocked_until := now + cs_quarantine_ttl s\<rparr> else e2)"

definition failed_entry :: "circuit_settings \<Rightarrow> circuit_entry \<Rightarrow> instant \<Rightarrow> circuit_entry" where
  "failed_entry s e0 now =
     (if now < ce_blocked_until e0 then e0\<lparr>ce_last_touched := now\<rparr>
      else let e1 = window_entry s e0 now in
        if collapses s e1 now then e1\<lparr>ce_last_touched := now\<rparr> else count_entry s e1 now)"

definition entry_or_zero :: "proxy_circuit \<Rightarrow> int \<Rightarrow> circuit_entry" where
  "entry_or_zero c p = (case gm_get (pc_entries c) p of Some e \<Rightarrow> e | None \<Rightarrow> zero_circuit_entry)"

lemma record_failure_entries:
  assumes "\<not> cs_disabled (pc_settings c)" "0 < p" "0 < now"
  shows "pc_entries (fst (record_failure ord c p now)) =
     gm_set p (failed_entry (pc_settings c) (entry_or_zero c p) now)
       (pc_entries (if gm_get (pc_entries c) p = None then circuit_ensure_capacity ord c now else c))"
  using assms
  by (cases "gm_get (pc_entries c) p")
     (simp_all add: record_failure_def failed_entry_def window_entry_def collapses_def
       count_entry_def entry_or_zero_def Let_def zero_circuit_entry_def zero_time_def)

lemma record_failure_settings [simp]:
  "pc_settings (fst (record_failure ord c p now)) = pc_settings c"
proof -
  have lets: "(\<And>x. pc_settings (fst (f x)) = d) \<Longrightarrow> pc_settings (fst (Let e f :: proxy_circuit \<times> bool \<times> instant)) = d" for f d and e :: 'a
    by (simp add: Let_def)
  have cases: "pc_settings (fst x) = d \<Longrightarrow> pc_settings (fst y) = d \<Longrightarrow> pc_settings (fst (if b then x else y)) = d"
    for x y :: "proxy_circuit \<times> bool \<times> instant" and d b by simp
  show ?thesis
    unfolding record_failure_def Let_def [where f = "\<lambda>store. if _ store then _ store else _ store"]
    by (intro cases lets) simp_all
qed

lemma record_success_settings [simp]: "pc_settings (fst (record_success c p)) = pc_settings c"
  by (simp add: record_success_def)

lemma is_blocked_settings [simp]: "pc_settings (fst (is_blocked c p now)) = pc_settings c"
  by (simp add: is_blocked_def split: option.splits)

lemma circuit_inv_delete: "circuit_inv c \<Longrightarrow> circuit_inv (c\<lparr>pc_entries := gm_delete p (pc_entries c)\<rparr>)"
  by (auto simp: circuit_inv_def gm_keys_delete gm_len_delete)

lemma record_failure_inv:
  assumes ord: "range_ok ord" and inv: "circuit_inv c" and now: "0 < now"
  shows "circuit_inv (fst (record_failure ord c p now))"
proof (cases "cs_disabled (pc_settings c) \<or> p \<le> 0")
  case True
  with inv show ?thesis by (simp add: record_failure_def)
next
  case False
  let ?c = "if gm_get (pc_entries c) p = None then circuit_ensure_capacity ord c now else c"
  have c: "circuit_inv ?c" using ensure_capacity_inv(1) [OF ord inv] inv by simp
  have room: "gm_get (pc_entries ?c) p = None \<Longrightarrow> int (gm_len (pc_entries ?c)) < cs_max_entries (pc_settings c)"
    using ensure_capacity_inv(2) [OF ord inv, of now] by (simp split: if_splits)
  show ?thesis
    using c room False now
    by (auto simp: circuit_inv_def record_failure_entries gm_keys_set gm_len_set split: if_splits)
qed

lemma record_success_inv: "circuit_inv c \<Longrightarrow> circuit_inv (fst (record_success c p))"
  by (simp add: record_success_def circuit_inv_delete)

lemma is_blocked_inv: "circuit_inv c \<Longrightarrow> circuit_inv (fst (is_blocked c p now))"
  by (simp add: is_blocked_def circuit_inv_delete split: option.splits)

section \<open>Runs and the evidence behind a quarantine\<close>

datatype circuit_event = Stream_failed int instant | Stream_completed int

text \<open>The states a circuit reaches, with the clock and the events so far, latest first; every
  failure may range over the map in its own order.\<close>

inductive circuit_run ::
  "circuit_settings \<Rightarrow> proxy_circuit \<Rightarrow> instant \<Rightarrow> circuit_event list \<Rightarrow> bool"
  for s where
  start: "0 < t \<Longrightarrow> circuit_run s (new_proxy_circuit s) t []"
| failure: "circuit_run s c t h \<Longrightarrow> range_ok ord \<Longrightarrow> t \<le> t' \<Longrightarrow>
     circuit_run s (fst (record_failure ord c p t')) t' (Stream_failed p t' # h)"
| success: "circuit_run s c t h \<Longrightarrow>
     circuit_run s (fst (record_success c p)) t (Stream_completed p # h)"
| query: "circuit_run s c t h \<Longrightarrow> t \<le> t' \<Longrightarrow> circuit_run s (fst (is_blocked c p t')) t' h"

definition failures_since_success :: "int \<Rightarrow> circuit_event list \<Rightarrow> instant set" where
  "failures_since_success p h =
     {t. Stream_failed p t \<in> set (takeWhile (\<lambda>e. e \<noteq> Stream_completed p) h)}"

definition spaced :: "duration \<Rightarrow> instant list \<Rightarrow> bool" where
  "spaced d ts \<longleftrightarrow> sorted_wrt (\<lambda>x y. x + d \<le> y) ts"

text \<open>The failures an entry has counted: spaced by the collapse interval, inside one window.\<close>

definition entry_evidence ::
  "circuit_settings \<Rightarrow> instant set \<Rightarrow> instant \<Rightarrow> circuit_entry \<Rightarrow> instant list \<Rightarrow> bool" where
  "entry_evidence s F now e ts \<longleftrightarrow>
     int (length ts) = ce_failure_count e \<and> spaced (cs_collapse_interval s) ts \<and> set ts \<subseteq> F \<and>
     (\<forall>t \<in> set ts. 0 < t \<and> t \<le> now \<and> ce_window_start e \<le> t \<and>
        t \<le> ce_window_start e + cs_failure_window s) \<and>
     (ts \<noteq> [] \<longrightarrow> last ts = ce_last_failure_at e) \<and>
     (ce_blocked_until e \<noteq> 0 \<longrightarrow> cs_failure_threshold s \<le> ce_failure_count e \<and>
        ce_blocked_until e = ce_last_failure_at e + cs_quarantine_ttl s)"

lemma zero_entry_evidence: "settings_ok s \<Longrightarrow> entry_evidence s F now zero_circuit_entry []"
  by (simp add: entry_evidence_def zero_circuit_entry_def zero_time_def spaced_def)

lemma entry_evidence_mono:
  "entry_evidence s F now e ts \<Longrightarrow> F \<subseteq> F' \<Longrightarrow> now \<le> now' \<Longrightarrow> entry_evidence s F' now' e ts"
  by (auto simp: entry_evidence_def)

lemma spaced_snoc:
  "spaced d ts \<Longrightarrow> 0 \<le> d \<Longrightarrow> (ts \<noteq> [] \<Longrightarrow> last ts + d \<le> t) \<Longrightarrow> spaced d (ts @ [t])"
proof (cases ts rule: rev_cases)
  case (snoc ys y)
  assume a: "spaced d ts" "0 \<le> d" "ts \<noteq> [] \<Longrightarrow> last ts + d \<le> t"
  from a(3) have "y + d \<le> t" by (simp add: snoc)
  with a(1,2) show ?thesis by (fastforce simp: spaced_def sorted_wrt_append snoc)
qed (simp add: spaced_def)

lemma failed_entry_evidence:
  assumes s: "settings_ok s" and e: "entry_evidence s F t e ts" and now: "t \<le> now" "0 < now" "now \<in> F"
  shows "\<exists>ts'. entry_evidence s F now (failed_entry s e now) ts'"
proof (cases "now < ce_blocked_until e")
  case True
  with entry_evidence_mono [OF e order_refl now(1)] show ?thesis
    by (intro exI [of _ ts]) (simp add: failed_entry_def entry_evidence_def)
next
  case False
  let ?e1 = "window_entry s e now"
  have "\<exists>ts1. entry_evidence s F now ?e1 ts1"
    using entry_evidence_mono [OF e order_refl now(1)]
    by (cases "?e1 = e") (auto simp: window_entry_def entry_evidence_def spaced_def zero_time_def split: if_splits)
  then obtain ts1 where e1: "entry_evidence s F now ?e1 ts1" by blast
  have w: "ce_window_start ?e1 \<le> now" "now \<le> ce_window_start ?e1 + cs_failure_window s"
    using s by (auto simp: settings_ok_def window_entry_def)
  show ?thesis
  proof (cases "collapses s ?e1 now")
    case True
    with False e1 show ?thesis
      by (intro exI [of _ ts1]) (simp add: entry_evidence_def failed_entry_def Let_def)
  next
    case nc: False
    have gap: "last ts1 + cs_collapse_interval s \<le> now" if ne: "ts1 \<noteq> []"
    proof -
      from e1 ne have l: "last ts1 = ce_last_failure_at ?e1" "0 < last ts1" "last ts1 \<le> now"
        unfolding entry_evidence_def using last_in_set by blast+
      with nc s show ?thesis by (auto simp: time_defs settings_ok_def collapses_def)
    qed
    have sp: "spaced (cs_collapse_interval s) (ts1 @ [now])"
      using e1 gap s by (intro spaced_snoc) (auto simp: entry_evidence_def settings_ok_def)
    have "entry_evidence s F now (count_entry s ?e1 now) (ts1 @ [now])"
      using e1 sp w now
      by (cases "cs_failure_threshold s \<le> ce_failure_count ?e1 + 1")
         (simp_all add: entry_evidence_def Let_def count_entry_def)
    with False nc show ?thesis by (auto simp: failed_entry_def Let_def)
  qed
qed

definition circuit_evidence :: "circuit_settings \<Rightarrow> proxy_circuit \<Rightarrow> instant \<Rightarrow> circuit_event list \<Rightarrow> bool" where
  "circuit_evidence s c t h \<longleftrightarrow>
     (\<forall>p e. gm_get (pc_entries c) p = Some e \<longrightarrow>
        (\<exists>ts. entry_evidence s (failures_since_success p h) t e ts))"

lemma failures_since_failed:
  "failures_since_success p (Stream_failed q t # h) =
     (if p = q then insert t (failures_since_success p h) else failures_since_success p h)"
  by (auto simp: failures_since_success_def)

lemma failures_since_completed:
  "failures_since_success p (Stream_completed q # h) =
     (if p = q then {} else failures_since_success p h)"
  by (auto simp: failures_since_success_def)

lemma circuit_get_pos: "circuit_inv c \<Longrightarrow> p \<le> 0 \<Longrightarrow> gm_get (pc_entries c) p = None"
  by (cases "gm_get (pc_entries c) p") (auto simp: circuit_inv_def dest!: gm_get_in_keys)

lemma circuit_run_inv:
  assumes "circuit_run s c t h"
  shows "circuit_inv c \<and> pc_settings c = pc_settings (new_proxy_circuit s) \<and> 0 < t \<and>
    (\<not> cs_disabled (pc_settings c) \<longrightarrow> circuit_evidence (pc_settings c) c t h)"
  using assms
proof induction
  case (start t)
  then show ?case
    using new_circuit_settings_ok [of s]
    by (simp add: circuit_inv_def gm_keys_def circuit_evidence_def settings_ok_def)
next
  case (failure c t h ord t' p)
  let ?c' = "fst (record_failure ord c p t')"
  from failure have inv: "circuit_inv c" "0 < t'" by auto
  have ev: "circuit_evidence (pc_settings c) ?c' t' (Stream_failed p t' # h)"
    if en: "\<not> cs_disabled (pc_settings c)"
    unfolding circuit_evidence_def
  proof (intro allI impI)
    fix q e assume get: "gm_get (pc_entries ?c') q = Some e"
    have old: "\<exists>ts. entry_evidence (pc_settings c) (failures_since_success q (Stream_failed p t' # h)) t' e0 ts"
      if "gm_get (pc_entries c) q = Some e0" for e0
    proof -
      from failure.IH en have "circuit_evidence (pc_settings c) c t h" by blast
      with that obtain ts where "entry_evidence (pc_settings c) (failures_since_success q h) t e0 ts"
        unfolding circuit_evidence_def by blast
      moreover have "failures_since_success q h \<subseteq> failures_since_success q (Stream_failed p t' # h)"
        by (auto simp: failures_since_failed)
      ultimately show ?thesis using entry_evidence_mono failure.hyps(3) by blast
    qed
    show "\<exists>ts. entry_evidence (pc_settings c) (failures_since_success q (Stream_failed p t' # h)) t' e ts"
    proof (cases "0 < p")
      case False
      then have "?c' = c" by (simp add: record_failure_def)
      with get old show ?thesis by simp
    next
      case True
      note ent = record_failure_entries [OF en True inv(2), of ord]
      show ?thesis
      proof (cases "q = p")
        case False
        with get ent have "gm_get (pc_entries c) q = Some e"
          using ensure_capacity_get [OF inv(1), of ord t' q] by (auto split: if_splits)
        with old show ?thesis by blast
      next
        case qp: True
        with get ent have e: "e = failed_entry (pc_settings c) (entry_or_zero c p) t'" by simp
        from inv(1) have sok: "settings_ok (pc_settings c)" by (simp add: circuit_inv_def)
        have "\<exists>ts. entry_evidence (pc_settings c) (failures_since_success p (Stream_failed p t' # h)) t'
            (entry_or_zero c p) ts"
          using old qp zero_entry_evidence [OF sok]
          by (cases "gm_get (pc_entries c) p") (auto simp: entry_or_zero_def)
        then obtain ts where "entry_evidence (pc_settings c)
            (failures_since_success p (Stream_failed p t' # h)) t' (entry_or_zero c p) ts" by blast
        from failed_entry_evidence [OF sok this order_refl inv(2)] qp e show ?thesis
          by (simp add: failures_since_failed)
      qed
    qed
  qed
  from failure record_failure_inv [OF failure.hyps(2)] ev show ?case by auto
next
  case (success c t h p)
  have "circuit_evidence (pc_settings c) (fst (record_success c p)) t (Stream_completed p # h)"
    if "circuit_evidence (pc_settings c) c t h"
    using that circuit_get_pos [of c] success.IH
    unfolding circuit_evidence_def
    by (auto simp: record_success_def failures_since_completed split: if_splits)
  with success record_success_inv show ?case by auto
next
  case (query c t h t' p)
  have "circuit_evidence (pc_settings c) (fst (is_blocked c p t')) t' h"
    if "circuit_evidence (pc_settings c) c t h"
    using that query.hyps(2)
    by (auto simp: circuit_evidence_def is_blocked_def split: option.splits if_splits
        intro: entry_evidence_mono [OF _ order_refl]) (blast intro: entry_evidence_mono [OF _ order_refl])+
  with query is_blocked_inv show ?case by auto
qed

text \<open>C37: quarantine is never the result of one incident. In every state a circuit reaches
  while the clock does not go back, a proxy found blocked has failed at least
  \<open>failure_threshold\<close> times since its last completed stream, at instants that are at least
  \<open>collapse_interval\<close> apart and lie within one \<open>failure_window\<close>, and the quarantine ends
  \<open>quarantine_ttl\<close> after the last of them.\<close>

theorem quarantine_has_evidence:
  assumes "circuit_run s c t h" "t \<le> now" "snd (is_blocked c p now)"
  defines "cfg \<equiv> pc_settings (new_proxy_circuit s)"
  shows "\<exists>ts. cs_failure_threshold cfg \<le> int (length ts) \<and> ts \<noteq> [] \<and>
     spaced (cs_collapse_interval cfg) ts \<and> set ts \<subseteq> failures_since_success p h \<and>
     (\<forall>x \<in> set ts. \<forall>y \<in> set ts. y - x \<le> cs_failure_window cfg) \<and>
     now < last ts + cs_quarantine_ttl cfg"
proof -
  from circuit_run_inv [OF assms(1)] have r: "circuit_inv c" "pc_settings c = cfg"
    "\<not> cs_disabled cfg \<Longrightarrow> circuit_evidence cfg c t h" by (auto simp: cfg_def)
  from assms(3) r(2) obtain e where e: "gm_get (pc_entries c) p = Some e" "\<not> cs_disabled cfg"
    "ce_blocked_until e \<noteq> 0" "now < ce_blocked_until e"
    by (auto simp: is_blocked_def time_defs split: if_splits option.splits)
  from r(3) [OF e(2)] e(1) obtain ts where ts: "entry_evidence cfg (failures_since_success p h) t e ts"
    by (auto simp: circuit_evidence_def)
  from r(1,2) have sok: "settings_ok cfg" by (simp add: circuit_inv_def)
  from ts e(3) have th: "cs_failure_threshold cfg \<le> int (length ts)"
    "ce_blocked_until e = ce_last_failure_at e + cs_quarantine_ttl cfg"
    by (simp_all add: entry_evidence_def)
  with sok have ne: "ts \<noteq> []" by (auto simp: settings_ok_def)
  have "y - x \<le> cs_failure_window cfg" if "x \<in> set ts" "y \<in> set ts" for x y
  proof -
    from ts that have "y \<le> ce_window_start e + cs_failure_window cfg" "ce_window_start e \<le> x"
      unfolding entry_evidence_def by blast+
    then show ?thesis by linarith
  qed
  moreover from ts ne have "spaced (cs_collapse_interval cfg) ts" "set ts \<subseteq> failures_since_success p h"
    "last ts = ce_last_failure_at e" by (simp_all add: entry_evidence_def)
  moreover from this(3) th(2) e(4) have "now < last ts + cs_quarantine_ttl cfg" by simp
  ultimately show ?thesis using th(1) ne by blast
qed

lemma quarantine_run_example:
  "let s = default_circuit_settings;
       c1 = fst (record_failure id (new_proxy_circuit s) 7 second);
       c2 = fst (record_failure id c1 7 (11 * second))
   in circuit_run s c2 (11 * second) [Stream_failed 7 (11 * second), Stream_failed 7 second] \<and>
      snd (is_blocked c2 7 (12 * second))"
proof -
  have "circuit_run default_circuit_settings
     (fst (record_failure id (new_proxy_circuit default_circuit_settings) 7 second)) second
     [Stream_failed 7 second]"
    by (rule circuit_run.failure [OF circuit_run.start range_ok_id(1) order_refl]) (simp add: second_def)
  from circuit_run.failure [OF this range_ok_id(1), of "11 * second" 7]
  have "circuit_run default_circuit_settings
     (fst (record_failure id
        (fst (record_failure id (new_proxy_circuit default_circuit_settings) 7 second)) 7 (11 * second)))
     (11 * second) [Stream_failed 7 (11 * second), Stream_failed 7 second]"
    by (simp add: second_def)
  moreover have "snd (is_blocked (fst (record_failure id
        (fst (record_failure id (new_proxy_circuit default_circuit_settings) 7 second)) 7 (11 * second)))
     7 (12 * second))"
    by code_simp
  ultimately show ?thesis by (simp add: Let_def)
qed

theorem quarantine_has_evidence_witness:
  "\<exists>ts. (2::int) \<le> int (length ts) \<and> set ts \<subseteq> {second, 11 * second} \<and> spaced (3 * second) ts"
proof -
  let ?s = "default_circuit_settings"
  let ?c = "fst (record_failure id (fst (record_failure id (new_proxy_circuit ?s) 7 second)) 7 (11 * second))"
  let ?h = "[Stream_failed 7 (11 * second), Stream_failed 7 second]"
  have run: "circuit_run ?s ?c (11 * second) ?h" "snd (is_blocked ?c 7 (12 * second))"
    using quarantine_run_example by (auto simp: Let_def)
  have cfg: "pc_settings (new_proxy_circuit ?s) = ?s" by code_simp
  have "failures_since_success 7 ?h = {second, 11 * second}"
    by (auto simp: failures_since_success_def)
  with quarantine_has_evidence [OF run(1) _ run(2)] cfg show ?thesis
    by (auto simp: default_circuit_settings_def second_def)
qed

text \<open>the circuit is bounded: whatever the order in which the runtime ranges over the
  map, no sequence of operations makes it hold more than \<open>maxEntries\<close> proxies, its keys
  are positive and it never holds two entries for one proxy.\<close>

theorem circuit_bounded:
  assumes "circuit_run s c t h"
  shows "int (gm_len (pc_entries c)) \<le> cs_max_entries (pc_settings (new_proxy_circuit s)) \<and>
     gm_ok (pc_entries c) \<and> (\<forall>k \<in> gm_keys (pc_entries c). 0 < k)"
  using circuit_run_inv [OF assms] by (auto simp: circuit_inv_def)

theorem circuit_bounded_witness:
  "gm_len (pc_entries (fst (record_failure id
      (fst (record_failure id (new_proxy_circuit (default_circuit_settings\<lparr>cs_max_entries := 1\<rparr>)) 7 second))
      8 (2 * second)))) \<le> 1"
proof -
  let ?s = "default_circuit_settings\<lparr>cs_max_entries := 1\<rparr>"
  have "circuit_run ?s (fst (record_failure id (new_proxy_circuit ?s) 7 second)) second
     [Stream_failed 7 second]"
    by (rule circuit_run.failure [OF circuit_run.start range_ok_id(1) order_refl]) (simp add: second_def)
  from circuit_run.failure [OF this range_ok_id(1), of "2 * second" 8]
  have "circuit_run ?s (fst (record_failure id (fst (record_failure id (new_proxy_circuit ?s) 7 second))
      8 (2 * second))) (2 * second) [Stream_failed 8 (2 * second), Stream_failed 7 second]"
    by (simp add: second_def)
  from circuit_bounded [OF this] have
    "int (gm_len (pc_entries (fst (record_failure id
      (fst (record_failure id (new_proxy_circuit ?s) 7 second)) 8 (2 * second)))))
     \<le> cs_max_entries (pc_settings (new_proxy_circuit ?s))" by blast
  moreover have "cs_max_entries (pc_settings (new_proxy_circuit ?s)) = 1" by code_simp
  ultimately show ?thesis by simp
qed

section \<open>The circuit trips\<close>

definition fail_all ::
  "((int, circuit_entry) gomap \<Rightarrow> (int, circuit_entry) gomap) \<Rightarrow> proxy_circuit \<Rightarrow> int \<Rightarrow>
     instant list \<Rightarrow> proxy_circuit" where
  "fail_all ord c p ts = foldl (\<lambda>c t. fst (record_failure ord c p t)) c ts"

lemma fail_all_settings [simp]: "pc_settings (fail_all ord c p ts) = pc_settings c"
  by (induction ts rule: rev_induct) (simp_all add: fail_all_def)

lemma spaced_hd_last: "spaced d ts \<Longrightarrow> 0 \<le> d \<Longrightarrow> ts \<noteq> [] \<Longrightarrow> hd ts \<le> last ts"
  by (cases ts) (auto simp: spaced_def dest!: bspec [OF _ last_in_set])

lemma fail_all_entry:
  assumes c: "settings_ok (pc_settings c)" "\<not> cs_disabled (pc_settings c)" "0 < p"
    "gm_get (pc_entries c) p = None"
  shows "ts \<noteq> [] \<Longrightarrow> 0 < hd ts \<Longrightarrow> spaced (cs_collapse_interval (pc_settings c)) ts \<Longrightarrow>
     last ts \<le> hd ts + cs_failure_window (pc_settings c) \<Longrightarrow>
     int (length ts) \<le> cs_failure_threshold (pc_settings c) \<Longrightarrow>
     \<exists>e. gm_get (pc_entries (fail_all ord c p ts)) p = Some e \<and>
       ce_failure_count e = int (length ts) \<and> ce_window_start e = hd ts \<and>
       ce_last_failure_at e = last ts \<and>
       ce_blocked_until e = (if int (length ts) = cs_failure_threshold (pc_settings c)
         then last ts + cs_quarantine_ttl (pc_settings c) else 0)"
proof (induction ts rule: rev_induct)
  case Nil
  then show ?case by simp
next
  case (snoc t ts)
  let ?s = "pc_settings c" and ?c = "fail_all ord c p ts"
  show ?case
  proof (cases "ts = []")
    case True
    with snoc.prems c show ?thesis
      by (simp add: fail_all_def record_failure_entries entry_or_zero_def failed_entry_def
          window_entry_def collapses_def count_entry_def zero_circuit_entry_def time_defs Let_def settings_ok_def)
  next
    case False
    from snoc.prems False have sp: "spaced (cs_collapse_interval ?s) ts" "last ts + cs_collapse_interval ?s \<le> t"
      "hd ts \<le> last ts" "hd (ts @ [t]) = hd ts"
      using c(1) spaced_hd_last [of "cs_collapse_interval ?s" ts]
      by (auto simp: spaced_def sorted_wrt_append settings_ok_def)
    with snoc.prems snoc.IH [OF False] c(1) obtain e where
      e: "gm_get (pc_entries ?c) p = Some e" "ce_failure_count e = int (length ts)"
        "ce_window_start e = hd ts" "ce_last_failure_at e = last ts" "ce_blocked_until e = 0"
      by (auto simp: settings_ok_def)
    have t: "0 < t" "last ts \<le> t" "hd ts \<le> t" using sp snoc.prems c(1) by (auto simp: settings_ok_def)
    have "fail_all ord c p (ts @ [t]) = fst (record_failure ord ?c p t)" by (simp add: fail_all_def)
    moreover have "failed_entry ?s e t = count_entry ?s e t"
      using e t sp snoc.prems by (simp add: failed_entry_def window_entry_def collapses_def time_defs Let_def)
    ultimately have "gm_get (pc_entries (fail_all ord c p (ts @ [t]))) p = Some (count_entry ?s e t)"
      using record_failure_entries [of ?c p t ord] c e(1) t(1) by (simp add: entry_or_zero_def)
    with e sp snoc.prems show ?thesis by (auto simp: count_entry_def Let_def)
  qed
qed

text \<open>the circuit does trip. From any state without an observation of the proxy, as
  many disconnects as the threshold, spaced by at least the collapse interval and within
  one failure window, quarantine the proxy: it is blocked from the last disconnect until
  \<open>quarantine_ttl\<close> later, and at that instant it is usable again.\<close>

theorem spaced_failures_quarantine:
  assumes "settings_ok (pc_settings c)" "\<not> cs_disabled (pc_settings c)" "0 < p"
    "gm_get (pc_entries c) p = None"
    and "int (length ts) = cs_failure_threshold (pc_settings c)" "0 < hd ts"
    and "spaced (cs_collapse_interval (pc_settings c)) ts"
    and "last ts \<le> hd ts + cs_failure_window (pc_settings c)" "last ts \<le> now"
  shows "snd (is_blocked (fail_all ord c p ts) p now) \<longleftrightarrow>
     now < last ts + cs_quarantine_ttl (pc_settings c)"
proof -
  from assms(1,5) have ne: "ts \<noteq> []" by (auto simp: settings_ok_def)
  have "hd ts \<le> last ts" using assms(1,7) ne spaced_hd_last by (auto simp: settings_ok_def)
  with fail_all_entry [OF assms(1-4) ne assms(6,7,8), of ord] assms show ?thesis
    by (auto simp: is_blocked_def time_defs settings_ok_def split: if_splits)
qed

theorem spaced_failures_quarantine_witness:
  "snd (is_blocked (fail_all id (new_proxy_circuit default_circuit_settings) 7 [second, 11 * second])
     7 (12 * second))"
proof -
  let ?c = "new_proxy_circuit default_circuit_settings"
  have cfg: "pc_settings ?c = default_circuit_settings" by code_simp
  have "snd (is_blocked (fail_all id ?c 7 [second, 11 * second]) 7 (12 * second)) \<longleftrightarrow>
      12 * second < last [second, 11 * second] + cs_quarantine_ttl (pc_settings ?c)"
    by (rule spaced_failures_quarantine [OF new_circuit_settings_ok])
       (simp_all add: new_proxy_circuit_def default_circuit_settings_def spaced_def time_defs)
  then show ?thesis by (simp add: cfg) (simp add: default_circuit_settings_def time_defs)
qed

end
