(* ===== verification/BoundedTables.thy ===== *)
theory BoundedTables
  imports Prelude
begin

text \<open>
  The interface the process-local stores are built on: a table that may forget entries
  (because it is full or because they have expired) but never invents or changes one.
  The locale says what its operations promise; the lemmas say what a client may rely on
  after any sequence of them.
\<close>

datatype ('k, 'v, 'a) table_op = Table_put 'a 'k 'v | Table_del 'k | Table_sweep 'a

text \<open>What a table without bound and expiry would hold for a key, from the operations,
  latest first.\<close>

fun last_put :: "('k, 'v, 'a) table_op list \<Rightarrow> 'k \<Rightarrow> 'v option" where
  "last_put [] k = None"
| "last_put (Table_put a k' v # ops) k = (if k' = k then Some v else last_put ops k)"
| "last_put (Table_del k' # ops) k = (if k' = k then None else last_put ops k)"
| "last_put (Table_sweep a # ops) k = last_put ops k"

locale forgetful_table =
  fixes ok :: "'a \<Rightarrow> bool"
    and wf :: "'m \<Rightarrow> bool"
    and lookup :: "'m \<Rightarrow> 'k \<Rightarrow> 'v option"
    and entries :: "'m \<Rightarrow> nat"
    and bound :: nat
    and put :: "'a \<Rightarrow> 'k \<Rightarrow> 'v \<Rightarrow> 'm \<Rightarrow> 'm"
    and del :: "'k \<Rightarrow> 'm \<Rightarrow> 'm"
    and sweep :: "'a \<Rightarrow> 'm \<Rightarrow> 'm"
  assumes wf_put: "ok a \<Longrightarrow> wf m \<Longrightarrow> wf (put a k v m)"
    and wf_del: "wf m \<Longrightarrow> wf (del k m)"
    and wf_sweep: "ok a \<Longrightarrow> wf m \<Longrightarrow> wf (sweep a m)"
    and lookup_put: "ok a \<Longrightarrow> wf m \<Longrightarrow> lookup (put a k v m) k = Some v"
    and lookup_put_other:
      "ok a \<Longrightarrow> wf m \<Longrightarrow> k' \<noteq> k \<Longrightarrow> lookup (put a k v m) k' = Some w \<Longrightarrow> lookup m k' = Some w"
    and lookup_del: "wf m \<Longrightarrow> lookup (del k m) k = None"
    and lookup_del_other: "wf m \<Longrightarrow> k' \<noteq> k \<Longrightarrow> lookup (del k m) k' = lookup m k'"
    and lookup_sweep: "ok a \<Longrightarrow> wf m \<Longrightarrow> lookup (sweep a m) k = Some v \<Longrightarrow> lookup m k = Some v"
    and entries_put: "ok a \<Longrightarrow> wf m \<Longrightarrow> entries m \<le> bound \<Longrightarrow> entries (put a k v m) \<le> bound"
    and entries_del: "wf m \<Longrightarrow> entries (del k m) \<le> entries m"
    and entries_sweep: "ok a \<Longrightarrow> wf m \<Longrightarrow> entries (sweep a m) \<le> entries m"
begin

fun table_step :: "('k, 'v, 'a) table_op \<Rightarrow> 'm \<Rightarrow> 'm" where
  "table_step (Table_put a k v) m = put a k v m"
| "table_step (Table_del k) m = del k m"
| "table_step (Table_sweep a) m = sweep a m"

fun op_ok :: "('k, 'v, 'a) table_op \<Rightarrow> bool" where
  "op_ok (Table_put a k v) = ok a"
| "op_ok (Table_del k) = True"
| "op_ok (Table_sweep a) = ok a"

definition covers :: "'m \<Rightarrow> ('k \<Rightarrow> 'v option) \<Rightarrow> bool" where
  "covers m f \<longleftrightarrow> wf m \<and> entries m \<le> bound \<and> (\<forall>k v. lookup m k = Some v \<longrightarrow> f k = Some v)"

lemma covers_put:
  assumes "covers m f" "ok a"
  shows "covers (put a k v m) (f(k := Some v))"
proof -
  from assms have a: "ok a" "wf m" "entries m \<le> bound" by (auto simp: covers_def)
  have "lookup (put a k v m) k' = Some w \<Longrightarrow> (f(k := Some v)) k' = Some w" for k' w
    using assms(1) lookup_put [OF a(1,2)] lookup_put_other [OF a(1,2), of k' k v w]
    by (cases "k' = k") (auto simp: covers_def)
  with wf_put [OF a(1,2)] entries_put [OF a] show ?thesis by (simp add: covers_def)
qed

lemma covers_del:
  assumes "covers m f"
  shows "covers (del k m) (f(k := None))"
proof -
  from assms have m: "wf m" "entries m \<le> bound" by (auto simp: covers_def)
  have "lookup (del k m) k' = Some w \<Longrightarrow> (f(k := None)) k' = Some w" for k' w
    using assms lookup_del [OF m(1)] lookup_del_other [OF m(1), of k' k]
    by (cases "k' = k") (auto simp: covers_def)
  with wf_del [OF m(1)] order_trans [OF entries_del [OF m(1)] m(2)] show ?thesis
    by (simp add: covers_def)
qed

lemma covers_sweep:
  assumes "covers m f" "ok a"
  shows "covers (sweep a m) f"
proof -
  from assms have a: "ok a" "wf m" "entries m \<le> bound" by (auto simp: covers_def)
  with assms(1) wf_sweep [OF a(1,2)] order_trans [OF entries_sweep [OF a(1,2)] a(3)]
    lookup_sweep [OF a(1,2)] show ?thesis
    by (auto simp: covers_def)
qed

lemma last_put_simps:
  "last_put (Table_put a k v # ops) = (last_put ops)(k := Some v)"
  "last_put (Table_del k # ops) = (last_put ops)(k := None)"
  "last_put (Table_sweep a # ops) = last_put ops"
  by (auto simp: fun_eq_iff)

lemma covers_step:
  assumes "covers m (last_put ops)" "op_ok op"
  shows "covers (table_step op m) (last_put (op # ops))"
  using assms covers_put covers_del covers_sweep
  by (cases op) (auto simp only: last_put_simps op_ok.simps table_step.simps)

theorem covers_run:
  assumes "covers m (last_put ops)" "\<forall>op \<in> set new. op_ok op"
  shows "covers (fold table_step new m) (last_put (rev new @ ops))"
  using assms by (induction new arbitrary: m ops) (auto dest: covers_step)

lemma covers_lookup: "covers m f \<Longrightarrow> lookup m k = Some v \<Longrightarrow> f k = Some v"
  by (simp add: covers_def)

lemma covers_bound: "covers m f \<Longrightarrow> entries m \<le> bound"
  by (simp add: covers_def)

end

text \<open>
  The latest event for a key. An event function says what an operation of a history does to
  the logical key it concerns: a value for a store, \<open>None\<close> for a removal.
\<close>

fun latest :: "('e \<Rightarrow> ('k \<times> 'v option) option) \<Rightarrow> 'e list \<Rightarrow> 'k \<Rightarrow> 'v option" where
  "latest ev [] k = None"
| "latest ev (x # h) k =
     (case ev x of None \<Rightarrow> latest ev h k
      | Some (k', v) \<Rightarrow> if k' = k then v else latest ev h k)"

lemma latest_step:
  "latest ev (x # h) =
     (case ev x of None \<Rightarrow> latest ev h | Some (k, v) \<Rightarrow> (latest ev h)(k := v))"
  by (auto simp: fun_eq_iff split: option.splits)

lemma latest_Some:
  "latest ev h k = Some v \<Longrightarrow>
     \<exists>h1 x h2. h = h1 @ x # h2 \<and> ev x = Some (k, Some v) \<and> (\<forall>y \<in> set h1. \<forall>w. ev y \<noteq> Some (k, w))"
proof (induction h)
  case Nil
  then show ?case by simp
next
  case (Cons x h)
  show ?case
  proof (cases "\<exists>w. ev x = Some (k, w)")
    case True
    with Cons.prems have "ev x = Some (k, Some v)" by auto
    then show ?thesis by (intro exI [of _ "[]"]) auto
  next
    case False
    with Cons.prems have "latest ev h k = Some v" by (auto split: option.splits if_splits)
    from Cons.IH [OF this] obtain h1 y h2 where "h = h1 @ y # h2" "ev y = Some (k, Some v)"
      "\<forall>z \<in> set h1. \<forall>w. ev z \<noteq> Some (k, w)" by blast
    with False show ?thesis by (intro exI [of _ "x # h1"]) auto
  qed
qed

text \<open>An injective encoding of the logical keys does not mix up events.\<close>

lemma latest_encoded:
  assumes "\<And>k'. enc k' = enc k \<Longrightarrow> k' = k"
  shows "latest (\<lambda>x. map_option (map_prod enc id) (ev x)) h (enc k) = latest ev h k"
  using assms by (induction h) (auto split: option.splits)

end
