(* ===== verification/WsStateStore.thy ===== *)
theory WsStateStore
  imports BoundedTables "HOL-Library.Monad_Syntax"
begin

text \<open>
  The sticky state of the websocket and HTTP continuations
  (\<^verbatim>\<open>internal/service/openai_ws_state_store.go\<close>): six process-local maps with an expiry per
  entry and a fixed capacity, in front of the shared cache. The cache is the parameter
  \<open>gateway_cache\<close>; an error is its message. The clock reads of one call are one instant
  \<open>now\<close>, the runtime's order of ranging over a map is the parameter \<open>ord\<close>, and the hex
  SHA-256 of the cache keys is the parameter \<open>sha\<close>.
\<close>

section \<open>Data\<close>

record account_binding =
  ab_account_id :: int
  ab_expires_at :: instant

record owner_binding =
  ob_user_id :: int
  ob_api_key_id :: int
  ob_expires_at :: instant

record conn_binding =
  cb_conn_id :: string
  cb_expires_at :: instant

record turn_state_binding =
  tb_turn_state :: string
  tb_expires_at :: instant

record session_conn_binding =
  sb_conn_id :: string
  sb_expires_at :: instant

text \<open>The digest set is a Go map to empty structs; a nil map is the empty one.\<close>

record invalid_encrypted_binding =
  ib_digests :: "(string, unit) gomap"
  ib_expires_at :: instant

record 'c gateway_cache =
  gc_set_session_account :: "int \<Rightarrow> string \<Rightarrow> int \<Rightarrow> duration \<Rightarrow> 'c \<Rightarrow> 'c \<times> string option"
  gc_get_session_account :: "int \<Rightarrow> string \<Rightarrow> 'c \<Rightarrow> int \<times> string option"
  gc_delete_session_account :: "int \<Rightarrow> string \<Rightarrow> 'c \<Rightarrow> 'c \<times> string option"

record 'c ws_store =
  ws_cache :: "'c gateway_cache option"
  ws_remote :: 'c
  ws_response_to_account :: "(string, account_binding) gomap"
  ws_response_owners :: "(string, owner_binding) gomap"
  ws_response_to_conn :: "(string, conn_binding) gomap"
  ws_session_to_turn_state :: "(string, turn_state_binding) gomap"
  ws_session_to_conn :: "(string, session_conn_binding) gomap"
  ws_session_invalid_encrypted :: "(string, invalid_encrypted_binding) gomap"
  ws_last_cleanup :: instant

definition cleanup_interval :: duration where
  "cleanup_interval = minute"

definition cleanup_max_per_map :: nat where
  "cleanup_max_per_map = 512"

definition max_entries_per_map :: nat where
  "max_entries_per_map = 65536"

definition invalid_digests_per_session :: nat where
  "invalid_digests_per_session = 512"

definition new_ws_store :: "'c gateway_cache option \<Rightarrow> 'c \<Rightarrow> instant \<Rightarrow> 'c ws_store" where
  "new_ws_store cache remote now =
     \<lparr>ws_cache = cache, ws_remote = remote, ws_response_to_account = [],
      ws_response_owners = [], ws_response_to_conn = [], ws_session_to_turn_state = [],
      ws_session_to_conn = [], ws_session_invalid_encrypted = [], ws_last_cleanup = now\<rparr>"

section \<open>Keys and lifetimes\<close>

definition normalize_ws_response_id :: "string \<Rightarrow> string" where
  "normalize_ws_response_id s = trim_space s"

definition normalize_ws_ttl :: "duration \<Rightarrow> duration" where
  "normalize_ws_ttl ttl = (if ttl \<le> 0 then hour else ttl)"

definition response_account_map_key :: "int \<Rightarrow> string \<Rightarrow> string" where
  "response_account_map_key group_id rid = itoa group_id @ '':'' @ rid"

definition session_turn_state_key :: "int \<Rightarrow> string \<Rightarrow> string" where
  "session_turn_state_key group_id session_hash =
     (let h = trim_space session_hash in
      if h = [] then [] else itoa group_id @ '':'' @ h)"

definition response_account_cache_key :: "(string \<Rightarrow> string) \<Rightarrow> string \<Rightarrow> string" where
  "response_account_cache_key sha rid = ''openai:response:'' @ sha rid"

definition response_owner_cache_key :: "(string \<Rightarrow> string) \<Rightarrow> string \<Rightarrow> string \<Rightarrow> string" where
  "response_owner_cache_key sha pre rid = pre @ sha rid"

definition owner_user_prefix :: string where
  "owner_user_prefix = ''openai:http-response-owner:user:''"

definition owner_key_prefix :: string where
  "owner_key_prefix = ''openai:http-response-owner:key:''"

section \<open>Capacity and cleanup\<close>

definition ensure_binding_capacity ::
  "string range_order \<Rightarrow> (string, 'v) gomap \<Rightarrow> string \<Rightarrow> nat \<Rightarrow> (string, 'v) gomap" where
  "ensure_binding_capacity ord m incoming max_n =
     (if gm_len m < max_n \<or> max_n = 0 then m
      else if gm_get m incoming \<noteq> None then m
      else case ord (map fst m) of [] \<Rightarrow> m | k # _ \<Rightarrow> gm_delete k m)"

text \<open>The six cleanup functions are one loop over different binding types.\<close>

definition cleanup_expired ::
  "('v \<Rightarrow> instant) \<Rightarrow> string range_order \<Rightarrow> (string, 'v) gomap \<Rightarrow> instant \<Rightarrow> nat \<Rightarrow> (string, 'v) gomap" where
  "cleanup_expired exp ord m now max_scan =
     (if m = [] \<or> max_scan = 0 then m
      else foldl (\<lambda>m' k. case gm_get m k of
               None \<Rightarrow> m' | Some b \<Rightarrow> if exp b < now then gm_delete k m' else m')
             m (take max_scan (ord (map fst m))))"

definition cleanup_account_bindings where
  "cleanup_account_bindings = cleanup_expired ab_expires_at"

definition cleanup_owner_bindings where
  "cleanup_owner_bindings = cleanup_expired ob_expires_at"

definition cleanup_conn_bindings where
  "cleanup_conn_bindings = cleanup_expired cb_expires_at"

definition cleanup_turn_state_bindings where
  "cleanup_turn_state_bindings = cleanup_expired tb_expires_at"

definition cleanup_session_conn_bindings where
  "cleanup_session_conn_bindings = cleanup_expired sb_expires_at"

definition cleanup_invalid_encrypted_bindings where
  "cleanup_invalid_encrypted_bindings = cleanup_expired ib_expires_at"

definition maybe_cleanup :: "string range_order \<Rightarrow> instant \<Rightarrow> 'c ws_store \<Rightarrow> 'c ws_store" where
  "maybe_cleanup ord now s =
     (if now - ws_last_cleanup s < cleanup_interval then s
      else s\<lparr>ws_last_cleanup := now,
             ws_response_to_account :=
               cleanup_account_bindings ord (ws_response_to_account s) now cleanup_max_per_map,
             ws_response_owners :=
               cleanup_owner_bindings ord (ws_response_owners s) now cleanup_max_per_map,
             ws_response_to_conn :=
               cleanup_conn_bindings ord (ws_response_to_conn s) now cleanup_max_per_map,
             ws_session_to_turn_state :=
               cleanup_turn_state_bindings ord (ws_session_to_turn_state s) now cleanup_max_per_map,
             ws_session_to_conn :=
               cleanup_session_conn_bindings ord (ws_session_to_conn s) now cleanup_max_per_map,
             ws_session_invalid_encrypted :=
               cleanup_invalid_encrypted_bindings ord (ws_session_invalid_encrypted s) now
                 cleanup_max_per_map\<rparr>)"

text \<open>Storing a binding: make room, then set.\<close>

definition store_binding ::
  "string range_order \<Rightarrow> string \<Rightarrow> 'v \<Rightarrow> (string, 'v) gomap \<Rightarrow> (string, 'v) gomap" where
  "store_binding ord k v m = gm_set k v (ensure_binding_capacity ord m k max_entries_per_map)"

section \<open>Owners of HTTP responses\<close>

definition bind_http_response_owner ::
  "(string \<Rightarrow> string) \<Rightarrow> string range_order \<Rightarrow> instant \<Rightarrow> int \<Rightarrow> string \<Rightarrow> int \<Rightarrow> int \<Rightarrow> duration \<Rightarrow>
     'c ws_store \<Rightarrow> 'c ws_store \<times> string option" where
  "bind_http_response_owner sha ord now group_id response_id user_id api_key_id ttl s =
     (let rid = normalize_ws_response_id response_id in
      if rid = [] \<or> user_id \<le> 0 \<or> api_key_id \<le> 0 then (s, None)
      else
        let ttl = normalize_ws_ttl ttl;
            s1 = maybe_cleanup ord now s;
            s2 = s1\<lparr>ws_response_owners :=
                   store_binding ord (response_account_map_key group_id rid)
                     \<lparr>ob_user_id = user_id, ob_api_key_id = api_key_id, ob_expires_at = now + ttl\<rparr>
                     (ws_response_owners s1)\<rparr>
        in case ws_cache s2 of
             None \<Rightarrow> (s2, None)
           | Some c \<Rightarrow>
               (case gc_set_session_account c group_id
                       (response_owner_cache_key sha owner_user_prefix rid) user_id ttl (ws_remote s2) of
                  (r, Some err) \<Rightarrow> (s2\<lparr>ws_remote := r\<rparr>, Some err)
                | (r, None) \<Rightarrow>
                    (case gc_set_session_account c group_id
                            (response_owner_cache_key sha owner_key_prefix rid) api_key_id ttl r of
                       (r', err) \<Rightarrow> (s2\<lparr>ws_remote := r'\<rparr>, err))))"

definition get_http_response_owner ::
  "(string \<Rightarrow> string) \<Rightarrow> string range_order \<Rightarrow> instant \<Rightarrow> int \<Rightarrow> string \<Rightarrow>
     'c ws_store \<Rightarrow> 'c ws_store \<times> int \<times> int \<times> bool \<times> string option" where
  "get_http_response_owner sha ord now group_id response_id s =
     (let rid = normalize_ws_response_id response_id in
      if rid = [] then (s, 0, 0, False, None)
      else
        let s1 = maybe_cleanup ord now s;
            key = response_account_map_key group_id rid;
            miss = (case ws_cache s1 of
                None \<Rightarrow> (s1, 0, 0, False, None)
              | Some c \<Rightarrow>
                  (case gc_get_session_account c group_id
                          (response_owner_cache_key sha owner_user_prefix rid) (ws_remote s1) of
                     (user_id, err) \<Rightarrow>
                       if err \<noteq> None \<or> user_id \<le> 0 then (s1, 0, 0, False, err)
                       else
                         (case gc_get_session_account c group_id
                                 (response_owner_cache_key sha owner_key_prefix rid) (ws_remote s1) of
                            (api_key_id, err) \<Rightarrow>
                              if err \<noteq> None \<or> api_key_id \<le> 0 then (s1, 0, 0, False, err)
                              else
                                (s1\<lparr>ws_response_owners := store_binding ord key
                                      \<lparr>ob_user_id = user_id, ob_api_key_id = api_key_id,
                                       ob_expires_at = now + minute\<rparr> (ws_response_owners s1)\<rparr>,
                                 user_id, api_key_id, True, None))))
        in case gm_get (ws_response_owners s1) key of
             Some b \<Rightarrow>
               if now < ob_expires_at b then (s1, ob_user_id b, ob_api_key_id b, True, None) else miss
           | None \<Rightarrow> miss)"

section \<open>Accounts of responses\<close>

definition bind_response_account ::
  "(string \<Rightarrow> string) \<Rightarrow> string range_order \<Rightarrow> instant \<Rightarrow> int \<Rightarrow> string \<Rightarrow> int \<Rightarrow> duration \<Rightarrow>
     'c ws_store \<Rightarrow> 'c ws_store \<times> string option" where
  "bind_response_account sha ord now group_id response_id account_id ttl s =
     (let rid = normalize_ws_response_id response_id in
      if rid = [] \<or> account_id \<le> 0 then (s, None)
      else
        let ttl = normalize_ws_ttl ttl;
            s1 = maybe_cleanup ord now s;
            s2 = s1\<lparr>ws_response_to_account :=
                   store_binding ord (response_account_map_key group_id rid)
                     \<lparr>ab_account_id = account_id, ab_expires_at = now + ttl\<rparr>
                     (ws_response_to_account s1)\<rparr>
        in case ws_cache s2 of
             None \<Rightarrow> (s2, None)
           | Some c \<Rightarrow>
               (case gc_set_session_account c group_id (response_account_cache_key sha rid)
                       account_id ttl (ws_remote s2) of
                  (r, err) \<Rightarrow> (s2\<lparr>ws_remote := r\<rparr>, err)))"

definition get_response_account ::
  "(string \<Rightarrow> string) \<Rightarrow> string range_order \<Rightarrow> instant \<Rightarrow> int \<Rightarrow> string \<Rightarrow>
     'c ws_store \<Rightarrow> 'c ws_store \<times> int" where
  "get_response_account sha ord now group_id response_id s =
     (let rid = normalize_ws_response_id response_id in
      if rid = [] then (s, 0)
      else
        let s1 = maybe_cleanup ord now s;
            miss = (case ws_cache s1 of
                None \<Rightarrow> (s1, 0)
              | Some c \<Rightarrow>
                  (case gc_get_session_account c group_id (response_account_cache_key sha rid)
                          (ws_remote s1) of
                     (account_id, err) \<Rightarrow>
                       if err \<noteq> None \<or> account_id \<le> 0 then (s1, 0) else (s1, account_id)))
        in case gm_get (ws_response_to_account s1) (response_account_map_key group_id rid) of
             Some b \<Rightarrow> if now < ab_expires_at b then (s1, ab_account_id b) else miss
           | None \<Rightarrow> miss)"

definition delete_response_account ::
  "(string \<Rightarrow> string) \<Rightarrow> int \<Rightarrow> string \<Rightarrow> 'c ws_store \<Rightarrow> 'c ws_store \<times> string option" where
  "delete_response_account sha group_id response_id s =
     (let rid = normalize_ws_response_id response_id in
      if rid = [] then (s, None)
      else
        let s1 = s\<lparr>ws_response_to_account :=
                   gm_delete (response_account_map_key group_id rid) (ws_response_to_account s)\<rparr>
        in case ws_cache s1 of
             None \<Rightarrow> (s1, None)
           | Some c \<Rightarrow>
               (case gc_delete_session_account c group_id (response_account_cache_key sha rid)
                       (ws_remote s1) of
                  (r, err) \<Rightarrow> (s1\<lparr>ws_remote := r\<rparr>, err)))"

section \<open>Connections and turn states\<close>

definition bind_response_conn ::
  "string range_order \<Rightarrow> instant \<Rightarrow> string \<Rightarrow> string \<Rightarrow> duration \<Rightarrow> 'c ws_store \<Rightarrow> 'c ws_store" where
  "bind_response_conn ord now response_id conn_id ttl s =
     (let rid = normalize_ws_response_id response_id; conn = trim_space conn_id in
      if rid = [] \<or> conn = [] then s
      else let s1 = maybe_cleanup ord now s in
        s1\<lparr>ws_response_to_conn := store_binding ord rid
             \<lparr>cb_conn_id = conn, cb_expires_at = now + normalize_ws_ttl ttl\<rparr> (ws_response_to_conn s1)\<rparr>)"

definition get_response_conn ::
  "string range_order \<Rightarrow> instant \<Rightarrow> string \<Rightarrow> 'c ws_store \<Rightarrow> 'c ws_store \<times> string \<times> bool" where
  "get_response_conn ord now response_id s =
     (let rid = normalize_ws_response_id response_id in
      if rid = [] then (s, [], False)
      else let s1 = maybe_cleanup ord now s in
        case gm_get (ws_response_to_conn s1) rid of
          None \<Rightarrow> (s1, [], False)
        | Some b \<Rightarrow>
            if cb_expires_at b < now \<or> trim_space (cb_conn_id b) = [] then (s1, [], False)
            else (s1, cb_conn_id b, True))"

definition delete_response_conn :: "string \<Rightarrow> 'c ws_store \<Rightarrow> 'c ws_store" where
  "delete_response_conn response_id s =
     (let rid = normalize_ws_response_id response_id in
      if rid = [] then s
      else s\<lparr>ws_response_to_conn := gm_delete rid (ws_response_to_conn s)\<rparr>)"

definition bind_session_turn_state ::
  "string range_order \<Rightarrow> instant \<Rightarrow> int \<Rightarrow> string \<Rightarrow> string \<Rightarrow> duration \<Rightarrow> 'c ws_store \<Rightarrow> 'c ws_store" where
  "bind_session_turn_state ord now group_id session_hash turn_state ttl s =
     (let key = session_turn_state_key group_id session_hash; st = trim_space turn_state in
      if key = [] \<or> st = [] then s
      else let s1 = maybe_cleanup ord now s in
        s1\<lparr>ws_session_to_turn_state := store_binding ord key
             \<lparr>tb_turn_state = st, tb_expires_at = now + normalize_ws_ttl ttl\<rparr>
             (ws_session_to_turn_state s1)\<rparr>)"

definition get_session_turn_state ::
  "string range_order \<Rightarrow> instant \<Rightarrow> int \<Rightarrow> string \<Rightarrow> 'c ws_store \<Rightarrow> 'c ws_store \<times> string \<times> bool" where
  "get_session_turn_state ord now group_id session_hash s =
     (let key = session_turn_state_key group_id session_hash in
      if key = [] then (s, [], False)
      else let s1 = maybe_cleanup ord now s in
        case gm_get (ws_session_to_turn_state s1) key of
          None \<Rightarrow> (s1, [], False)
        | Some b \<Rightarrow>
            if tb_expires_at b < now \<or> trim_space (tb_turn_state b) = [] then (s1, [], False)
            else (s1, tb_turn_state b, True))"

definition delete_session_turn_state :: "int \<Rightarrow> string \<Rightarrow> 'c ws_store \<Rightarrow> 'c ws_store" where
  "delete_session_turn_state group_id session_hash s =
     (let key = session_turn_state_key group_id session_hash in
      if key = [] then s
      else s\<lparr>ws_session_to_turn_state := gm_delete key (ws_session_to_turn_state s)\<rparr>)"

definition bind_session_conn ::
  "string range_order \<Rightarrow> instant \<Rightarrow> int \<Rightarrow> string \<Rightarrow> string \<Rightarrow> duration \<Rightarrow> 'c ws_store \<Rightarrow> 'c ws_store" where
  "bind_session_conn ord now group_id session_hash conn_id ttl s =
     (let key = session_turn_state_key group_id session_hash; conn = trim_space conn_id in
      if key = [] \<or> conn = [] then s
      else let s1 = maybe_cleanup ord now s in
        s1\<lparr>ws_session_to_conn := store_binding ord key
             \<lparr>sb_conn_id = conn, sb_expires_at = now + normalize_ws_ttl ttl\<rparr>
             (ws_session_to_conn s1)\<rparr>)"

definition get_session_conn ::
  "string range_order \<Rightarrow> instant \<Rightarrow> int \<Rightarrow> string \<Rightarrow> 'c ws_store \<Rightarrow> 'c ws_store \<times> string \<times> bool" where
  "get_session_conn ord now group_id session_hash s =
     (let key = session_turn_state_key group_id session_hash in
      if key = [] then (s, [], False)
      else let s1 = maybe_cleanup ord now s in
        case gm_get (ws_session_to_conn s1) key of
          None \<Rightarrow> (s1, [], False)
        | Some b \<Rightarrow>
            if sb_expires_at b < now \<or> trim_space (sb_conn_id b) = [] then (s1, [], False)
            else (s1, sb_conn_id b, True))"

definition delete_session_conn :: "int \<Rightarrow> string \<Rightarrow> 'c ws_store \<Rightarrow> 'c ws_store" where
  "delete_session_conn group_id session_hash s =
     (let key = session_turn_state_key group_id session_hash in
      if key = [] then s
      else s\<lparr>ws_session_to_conn := gm_delete key (ws_session_to_conn s)\<rparr>)"

section \<open>Digests of rejected content\<close>

fun add_digests :: "string list \<Rightarrow> (string, unit) gomap \<Rightarrow> (string, unit) gomap" where
  "add_digests [] m = m"
| "add_digests (d # ds) m =
     (let d' = trim_space d in
      if d' = [] then add_digests ds m
      else if invalid_digests_per_session \<le> gm_len m then add_digests ds m
      else add_digests ds (gm_set d' () m))"

definition mark_session_invalid_encrypted ::
  "string range_order \<Rightarrow> instant \<Rightarrow> int \<Rightarrow> string \<Rightarrow> string list \<Rightarrow> duration \<Rightarrow>
     'c ws_store \<Rightarrow> 'c ws_store" where
  "mark_session_invalid_encrypted ord now group_id session_hash digests ttl s =
     (let key = session_turn_state_key group_id session_hash in
      if key = [] \<or> digests = [] then s
      else
        let s1 = maybe_cleanup ord now s;
            m = ensure_binding_capacity ord (ws_session_invalid_encrypted s1) key max_entries_per_map;
            old = (case gm_get m key of
                None \<Rightarrow> []
              | Some b \<Rightarrow> if ib_expires_at b < now then [] else ib_digests b)
        in s1\<lparr>ws_session_invalid_encrypted := gm_set key
                \<lparr>ib_digests = add_digests digests old, ib_expires_at = now + normalize_ws_ttl ttl\<rparr> m\<rparr>)"

text \<open>The copy of the digest set the caller gets; \<open>None\<close> is nil.\<close>

definition get_session_invalid_digests ::
  "string range_order \<Rightarrow> instant \<Rightarrow> int \<Rightarrow> string \<Rightarrow> 'c ws_store \<Rightarrow>
     'c ws_store \<times> (string, unit) gomap option" where
  "get_session_invalid_digests ord now group_id session_hash s =
     (let key = session_turn_state_key group_id session_hash in
      if key = [] then (s, None)
      else let s1 = maybe_cleanup ord now s in
        case gm_get (ws_session_invalid_encrypted s1) key of
          None \<Rightarrow> (s1, None)
        | Some b \<Rightarrow>
            if ib_expires_at b < now \<or> ib_digests b = [] then (s1, None)
            else (s1, Some (ib_digests b)))"

definition has_any_session_invalid :: "'c ws_store \<Rightarrow> bool" where
  "has_any_session_invalid s \<longleftrightarrow> 0 < gm_len (ws_session_invalid_encrypted s)"

end
