(* ===== verification/WsStateRuns.thy ===== *)
theory WsStateRuns
  imports WsStateStore
begin

text \<open>
  Every map of the sticky-state store is a \<open>forgetful_table\<close>; the runs of the store and what
  a look-up may return in them.
\<close>

section \<open>The maps as tables\<close>

lemma ensure_capacity_ok [simp]: "gm_ok m \<Longrightarrow> gm_ok (ensure_binding_capacity ord m k n)"
  by (auto simp: ensure_binding_capacity_def split: list.splits)

lemma ensure_capacity_get_sub:
  "gm_get (ensure_binding_capacity ord m k n) k' = Some v \<Longrightarrow> gm_get m k' = Some v"
  by (auto simp: ensure_binding_capacity_def split: list.splits if_splits)

lemma ensure_capacity_len:
  assumes "order_ok ord" "gm_ok m" "gm_len m \<le> n" "0 < n"
  shows "gm_len (gm_set k v (ensure_binding_capacity ord m k n)) \<le> n"
proof -
  consider "gm_len m < n" | "gm_get m k \<noteq> None" | "gm_len m = n" "gm_get m k = None"
    using assms(3) by linarith
  then show ?thesis
  proof cases
    case 3
    then have "map fst m \<noteq> []" using assms(4) by auto
    then have "ord (map fst m) \<noteq> []" using order_ok_length [OF assms(1), of "map fst m"] by auto
    then obtain k1 ks where k1: "ord (map fst m) = k1 # ks" by (cases "ord (map fst m)") auto
    then have "k1 \<in> set (map fst m)" using order_ok_set [OF assms(1), of "map fst m"] by auto
    then have "k1 \<in> gm_keys m" by (simp add: gm_keys_def)
    then have "gm_get m k1 \<noteq> None" by (auto dest: gm_keys_get)
    then have "gm_len (gm_delete k1 m) = n - 1" using gm_len_delete [OF assms(2), of k1] 3 by auto
    with k1 3 assms(4) show ?thesis
      by (simp add: ensure_binding_capacity_def gm_len_set)
  qed (use assms in \<open>auto simp: ensure_binding_capacity_def gm_len_set\<close>)
qed

abbreviation cleanup_scan ::
  "('v \<Rightarrow> instant) \<Rightarrow> (string, 'v) gomap \<Rightarrow> instant \<Rightarrow> (string, 'v) gomap \<Rightarrow> string list \<Rightarrow> (string, 'v) gomap" where
  "cleanup_scan exp m now \<equiv> foldl (\<lambda>m' k. case gm_get m k of
     None \<Rightarrow> m' | Some b \<Rightarrow> if exp b < now then gm_delete k m' else m')"

lemma cleanup_fold:
  assumes "gm_ok m'"
  shows "gm_ok (cleanup_scan exp m now m' ks) \<and> gm_len (cleanup_scan exp m now m' ks) \<le> gm_len m' \<and>
     (gm_get (cleanup_scan exp m now m' ks) q = Some v \<longrightarrow> gm_get m' q = Some v)"
  using assms
proof (induction ks arbitrary: m')
  case Nil
  then show ?case by simp
next
  case (Cons k ks)
  let ?m = "case gm_get m k of None \<Rightarrow> m' | Some b \<Rightarrow> if exp b < now then gm_delete k m' else m'"
  have 1: "gm_ok ?m" "gm_len ?m \<le> gm_len m'" "gm_get ?m q = Some v \<longrightarrow> gm_get m' q = Some v"
    using Cons.prems by (auto split: option.splits simp: gm_len_delete)
  from Cons.IH [OF 1(1)] 1(2,3) show ?case by (simp only: foldl_Cons) auto
qed

lemma cleanup_fresh:
  assumes "gm_ok m'" "gm_get m q = Some v" "gm_get m' q = Some v" "now \<le> exp v"
  shows "gm_get (cleanup_scan exp m now m' ks) q = Some v"
  using assms
proof (induction ks arbitrary: m')
  case Nil
  then show ?case by simp
next
  case (Cons k ks)
  let ?m = "case gm_get m k of None \<Rightarrow> m' | Some b \<Rightarrow> if exp b < now then gm_delete k m' else m'"
  have "\<not> exp v < now" using Cons.prems(4) by simp
  then have "gm_ok ?m" "gm_get ?m q = Some v"
    using Cons.prems(1-3) by (auto split: option.splits)
  from Cons.IH [OF this(1) Cons.prems(2) this(2) Cons.prems(4)] show ?case by (simp only: foldl_Cons)
qed

lemmas cleanup_scan_ok = cleanup_fold [THEN conjunct1]
lemmas cleanup_scan_len = cleanup_fold [THEN conjunct2, THEN conjunct1]
lemmas cleanup_scan_get = cleanup_fold [THEN conjunct2, THEN conjunct2, THEN mp]

lemma cleanup_ok [simp]: "gm_ok m \<Longrightarrow> gm_ok (cleanup_expired exp ord m now n)"
  unfolding cleanup_expired_def by (simp split: if_split add: cleanup_scan_ok)

lemma cleanup_len: "gm_ok m \<Longrightarrow> gm_len (cleanup_expired exp ord m now n) \<le> gm_len m"
  unfolding cleanup_expired_def by (simp split: if_split add: cleanup_scan_len)

lemma cleanup_get:
  assumes "gm_ok m" "gm_get (cleanup_expired exp ord m now n) q = Some v"
  shows "gm_get m q = Some v"
proof (cases "m = [] \<or> n = 0")
  case True
  with assms(2) show ?thesis by (auto simp: cleanup_expired_def)
next
  case False
  show ?thesis
    using assms(2) unfolding cleanup_expired_def if_not_P [OF False]
    by (rule cleanup_scan_get [OF assms(1)])
qed

text \<open>A cleanup never removes an entry that has not expired.\<close>

lemma cleanup_keeps:
  "gm_ok m \<Longrightarrow> gm_get m q = Some v \<Longrightarrow> now \<le> exp v \<Longrightarrow> gm_get (cleanup_expired exp ord m now n) q = Some v"
  unfolding cleanup_expired_def by (simp split: if_split add: cleanup_fresh)

lemma bindings_table:
  "forgetful_table (\<lambda>(ord, now). order_ok ord) gm_ok gm_get gm_len max_entries_per_map
     (\<lambda>(ord, now). store_binding ord) gm_delete
     (\<lambda>(ord, now) m. cleanup_expired exp ord m now cleanup_max_per_map)"
  by unfold_locales
    (auto simp: store_binding_def gm_len_delete max_entries_per_map_def cleanup_len
      intro: ensure_capacity_len dest: ensure_capacity_get_sub cleanup_get split: prod.splits)

interpretation account_table: forgetful_table "\<lambda>(ord, now). order_ok ord" gm_ok gm_get gm_len
  max_entries_per_map "\<lambda>(ord, now). store_binding ord" gm_delete
  "\<lambda>(ord, now) m. cleanup_account_bindings ord m now cleanup_max_per_map"
  unfolding cleanup_account_bindings_def by (rule bindings_table)

interpretation owner_table: forgetful_table "\<lambda>(ord, now). order_ok ord" gm_ok gm_get gm_len
  max_entries_per_map "\<lambda>(ord, now). store_binding ord" gm_delete
  "\<lambda>(ord, now) m. cleanup_owner_bindings ord m now cleanup_max_per_map"
  unfolding cleanup_owner_bindings_def by (rule bindings_table)

interpretation conn_table: forgetful_table "\<lambda>(ord, now). order_ok ord" gm_ok gm_get gm_len
  max_entries_per_map "\<lambda>(ord, now). store_binding ord" gm_delete
  "\<lambda>(ord, now) m. cleanup_conn_bindings ord m now cleanup_max_per_map"
  unfolding cleanup_conn_bindings_def by (rule bindings_table)

interpretation turn_state_table: forgetful_table "\<lambda>(ord, now). order_ok ord" gm_ok gm_get gm_len
  max_entries_per_map "\<lambda>(ord, now). store_binding ord" gm_delete
  "\<lambda>(ord, now) m. cleanup_turn_state_bindings ord m now cleanup_max_per_map"
  unfolding cleanup_turn_state_bindings_def by (rule bindings_table)

interpretation session_conn_table: forgetful_table "\<lambda>(ord, now). order_ok ord" gm_ok gm_get gm_len
  max_entries_per_map "\<lambda>(ord, now). store_binding ord" gm_delete
  "\<lambda>(ord, now) m. cleanup_session_conn_bindings ord m now cleanup_max_per_map"
  unfolding cleanup_session_conn_bindings_def by (rule bindings_table)

interpretation digest_table: forgetful_table "\<lambda>(ord, now). order_ok ord" gm_ok gm_get gm_len
  max_entries_per_map "\<lambda>(ord, now). store_binding ord" gm_delete
  "\<lambda>(ord, now) m. cleanup_invalid_encrypted_bindings ord m now cleanup_max_per_map"
  unfolding cleanup_invalid_encrypted_bindings_def by (rule bindings_table)

section \<open>Runs\<close>

datatype ws_op =
    Bind_owner int string int int duration
  | Get_owner int string
  | Bind_account int string int duration
  | Get_account int string
  | Delete_account int string
  | Bind_conn string string duration
  | Get_conn string
  | Delete_conn string
  | Bind_turn_state int string string duration
  | Get_turn_state int string
  | Delete_turn_state int string
  | Bind_session_conn int string string duration
  | Get_session_conn int string
  | Delete_session_conn int string
  | Mark_invalid int string "string list" duration
  | Get_invalid int string

fun ws_exec ::
  "(string \<Rightarrow> string) \<Rightarrow> string range_order \<Rightarrow> instant \<Rightarrow> ws_op \<Rightarrow> 'c ws_store \<Rightarrow> 'c ws_store" where
  "ws_exec sha ord now (Bind_owner g r u k ttl) s = fst (bind_http_response_owner sha ord now g r u k ttl s)"
| "ws_exec sha ord now (Get_owner g r) s = fst (get_http_response_owner sha ord now g r s)"
| "ws_exec sha ord now (Bind_account g r a ttl) s = fst (bind_response_account sha ord now g r a ttl s)"
| "ws_exec sha ord now (Get_account g r) s = fst (get_response_account sha ord now g r s)"
| "ws_exec sha ord now (Delete_account g r) s = fst (delete_response_account sha g r s)"
| "ws_exec sha ord now (Bind_conn r c ttl) s = bind_response_conn ord now r c ttl s"
| "ws_exec sha ord now (Get_conn r) s = fst (get_response_conn ord now r s)"
| "ws_exec sha ord now (Delete_conn r) s = delete_response_conn r s"
| "ws_exec sha ord now (Bind_turn_state g h t ttl) s = bind_session_turn_state ord now g h t ttl s"
| "ws_exec sha ord now (Get_turn_state g h) s = fst (get_session_turn_state ord now g h s)"
| "ws_exec sha ord now (Delete_turn_state g h) s = delete_session_turn_state g h s"
| "ws_exec sha ord now (Bind_session_conn g h c ttl) s = bind_session_conn ord now g h c ttl s"
| "ws_exec sha ord now (Get_session_conn g h) s = fst (get_session_conn ord now g h s)"
| "ws_exec sha ord now (Delete_session_conn g h) s = delete_session_conn g h s"
| "ws_exec sha ord now (Mark_invalid g h ds ttl) s = mark_session_invalid_encrypted ord now g h ds ttl s"
| "ws_exec sha ord now (Get_invalid g h) s = fst (get_session_invalid_digests ord now g h s)"

text \<open>The stores reached from a new one, each operation with its own order of ranging; the
  history is latest first and pairs each operation with its instant.\<close>

inductive ws_run :: "(string \<Rightarrow> string) \<Rightarrow> 'c ws_store \<Rightarrow> (ws_op \<times> instant) list \<Rightarrow> bool" for sha where
  fresh: "ws_run sha (new_ws_store cache remote t) []"
| op: "ws_run sha s h \<Longrightarrow> order_ok ord \<Longrightarrow> ws_run sha (ws_exec sha ord now op s) ((op, now) # h)"

lemma maybe_cleanup_cache [simp]: "ws_cache (maybe_cleanup ord now s) = ws_cache s"
  by (simp add: maybe_cleanup_def)

text \<open>What a cleanup does to each map.\<close>

lemma covers_cleanup:
  assumes "order_ok ord"
  shows "account_table.covers (ws_response_to_account s) f1 \<Longrightarrow>
      account_table.covers (ws_response_to_account (maybe_cleanup ord now s)) f1"
    and "owner_table.covers (ws_response_owners s) f2 \<Longrightarrow>
      owner_table.covers (ws_response_owners (maybe_cleanup ord now s)) f2"
    and "conn_table.covers (ws_response_to_conn s) f3 \<Longrightarrow>
      conn_table.covers (ws_response_to_conn (maybe_cleanup ord now s)) f3"
    and "turn_state_table.covers (ws_session_to_turn_state s) f4 \<Longrightarrow>
      turn_state_table.covers (ws_session_to_turn_state (maybe_cleanup ord now s)) f4"
    and "session_conn_table.covers (ws_session_to_conn s) f5 \<Longrightarrow>
      session_conn_table.covers (ws_session_to_conn (maybe_cleanup ord now s)) f5"
    and "digest_table.covers (ws_session_invalid_encrypted s) f6 \<Longrightarrow>
      digest_table.covers (ws_session_invalid_encrypted (maybe_cleanup ord now s)) f6"
  using assms account_table.covers_sweep [of _ f1 "(ord, now)"] owner_table.covers_sweep [of _ f2 "(ord, now)"]
    conn_table.covers_sweep [of _ f3 "(ord, now)"] turn_state_table.covers_sweep [of _ f4 "(ord, now)"]
    session_conn_table.covers_sweep [of _ f5 "(ord, now)"] digest_table.covers_sweep [of _ f6 "(ord, now)"]
  by (simp_all add: maybe_cleanup_def)

lemmas ws_op_defs =
  bind_http_response_owner_def get_http_response_owner_def bind_response_account_def
  get_response_account_def delete_response_account_def bind_response_conn_def get_response_conn_def
  delete_response_conn_def bind_session_turn_state_def get_session_turn_state_def
  delete_session_turn_state_def bind_session_conn_def get_session_conn_def delete_session_conn_def
  mark_session_invalid_encrypted_def get_session_invalid_digests_def

section \<open>Events\<close>

text \<open>What an operation does to the binding of a logical key.\<close>

definition session_key :: "int \<times> string \<Rightarrow> string" where
  "session_key = (\<lambda>(g, h). itoa g @ '':'' @ h)"

lemma session_key_inj: "session_key k = session_key k' \<Longrightarrow> k = k'"
  by (cases k; cases k') (auto simp: session_key_def dest: itoa_colon_inj)

lemma session_turn_state_key_eq:
  "session_turn_state_key g h = (if trim_space h = [] then [] else session_key (g, trim_space h))"
  by (simp add: session_turn_state_key_def session_key_def Let_def)

lemma response_account_map_key_eq: "response_account_map_key g r = session_key (g, r)"
  by (simp add: response_account_map_key_def session_key_def)

lemma session_key_not_Nil [simp]: "session_key k \<noteq> []"
  by (cases k) (simp add: session_key_def)

fun session_conn_event :: "ws_op \<times> instant \<Rightarrow> ((int \<times> string) \<times> session_conn_binding option) option" where
  "session_conn_event (Bind_session_conn g h c ttl, t) =
     (if trim_space h = [] \<or> trim_space c = [] then None
      else Some ((g, trim_space h), Some \<lparr>sb_conn_id = trim_space c, sb_expires_at = t + normalize_ws_ttl ttl\<rparr>))"
| "session_conn_event (Delete_session_conn g h, t) =
     (if trim_space h = [] then None else Some ((g, trim_space h), None))"
| "session_conn_event _ = None"

fun turn_state_event :: "ws_op \<times> instant \<Rightarrow> ((int \<times> string) \<times> turn_state_binding option) option" where
  "turn_state_event (Bind_turn_state g h c ttl, t) =
     (if trim_space h = [] \<or> trim_space c = [] then None
      else Some ((g, trim_space h), Some \<lparr>tb_turn_state = trim_space c, tb_expires_at = t + normalize_ws_ttl ttl\<rparr>))"
| "turn_state_event (Delete_turn_state g h, t) =
     (if trim_space h = [] then None else Some ((g, trim_space h), None))"
| "turn_state_event _ = None"

fun conn_event :: "ws_op \<times> instant \<Rightarrow> (string \<times> conn_binding option) option" where
  "conn_event (Bind_conn r c ttl, t) =
     (if trim_space r = [] \<or> trim_space c = [] then None
      else Some (trim_space r, Some \<lparr>cb_conn_id = trim_space c, cb_expires_at = t + normalize_ws_ttl ttl\<rparr>))"
| "conn_event (Delete_conn r, t) = (if trim_space r = [] then None else Some (trim_space r, None))"
| "conn_event _ = None"

fun owner_event :: "ws_op \<times> instant \<Rightarrow> ((int \<times> string) \<times> owner_binding option) option" where
  "owner_event (Bind_owner g r u k ttl, t) =
     (if trim_space r = [] \<or> u \<le> 0 \<or> k \<le> 0 then None
      else Some ((g, trim_space r), Some \<lparr>ob_user_id = u, ob_api_key_id = k, ob_expires_at = t + normalize_ws_ttl ttl\<rparr>))"
| "owner_event _ = None"

abbreviation encoded :: "('e \<Rightarrow> ((int \<times> string) \<times> 'v option) option) \<Rightarrow> 'e \<Rightarrow> (string \<times> 'v option) option" where
  "encoded ev \<equiv> (\<lambda>x. map_option (map_prod session_key id) (ev x))"

lemma latest_session_key: "latest (encoded ev) h (session_key k) = latest ev h k"
  by (rule latest_encoded) (rule session_key_inj)

lemma session_conn_step:
  assumes "order_ok ord" "session_conn_table.covers (ws_session_to_conn s) (latest (encoded session_conn_event) h)"
  shows "session_conn_table.covers (ws_session_to_conn (ws_exec sha ord now op s))
    (latest (encoded session_conn_event) ((op, now) # h))"
  using assms covers_cleanup(5) [OF assms, of now] session_conn_table.covers_del [OF assms(2)]
    session_conn_table.covers_put [OF covers_cleanup(5) [OF assms, of now], of "(ord, now)"]
  by (cases op)
     (simp_all add: ws_op_defs latest_step Let_def normalize_ws_response_id_def session_turn_state_key_eq
       split: option.splits prod.splits if_splits)

lemma turn_state_step:
  assumes "order_ok ord" "turn_state_table.covers (ws_session_to_turn_state s) (latest (encoded turn_state_event) h)"
  shows "turn_state_table.covers (ws_session_to_turn_state (ws_exec sha ord now op s))
    (latest (encoded turn_state_event) ((op, now) # h))"
  using assms covers_cleanup(4) [OF assms, of now] turn_state_table.covers_del [OF assms(2)]
    turn_state_table.covers_put [OF covers_cleanup(4) [OF assms, of now], of "(ord, now)"]
  by (cases op)
     (simp_all add: ws_op_defs latest_step Let_def normalize_ws_response_id_def session_turn_state_key_eq
       split: option.splits prod.splits if_splits)

lemma conn_step:
  assumes "order_ok ord" "conn_table.covers (ws_response_to_conn s) (latest conn_event h)"
  shows "conn_table.covers (ws_response_to_conn (ws_exec sha ord now op s)) (latest conn_event ((op, now) # h))"
  using assms covers_cleanup(3) [OF assms, of now] conn_table.covers_del [OF assms(2)]
    conn_table.covers_put [OF covers_cleanup(3) [OF assms, of now], of "(ord, now)"]
  by (cases op)
     (simp_all add: ws_op_defs latest_step Let_def normalize_ws_response_id_def session_turn_state_key_eq
       split: option.splits prod.splits if_splits)

lemma owner_step:
  assumes "order_ok ord" "owner_table.covers (ws_response_owners s) (latest (encoded owner_event) h)"
    and "ws_cache s = None"
  shows "owner_table.covers (ws_response_owners (ws_exec sha ord now op s))
      (latest (encoded owner_event) ((op, now) # h))"
  using assms covers_cleanup(2) [OF assms(1,2), of now]
    owner_table.covers_put [OF covers_cleanup(2) [OF assms(1,2), of now], of "(ord, now)"]
  by (cases op)
     (simp_all add: ws_op_defs latest_step Let_def normalize_ws_response_id_def response_account_map_key_eq
       split: option.splits prod.splits if_splits)

lemma other_steps:
  assumes "order_ok ord"
  shows "account_table.covers (ws_response_to_account s) f1 \<Longrightarrow>
      \<exists>f. account_table.covers (ws_response_to_account (ws_exec sha ord now op s)) f"
    and "owner_table.covers (ws_response_owners s) f2 \<Longrightarrow>
      \<exists>f. owner_table.covers (ws_response_owners (ws_exec sha ord now op s)) f"
    and "digest_table.covers (ws_session_invalid_encrypted s) f3 \<Longrightarrow>
      \<exists>f. digest_table.covers (ws_session_invalid_encrypted (ws_exec sha ord now op s)) f"
proof -
  assume c: "account_table.covers (ws_response_to_account s) f1"
  note c' = covers_cleanup(1) [OF assms c, of now]
  from c c' account_table.covers_del [OF c] account_table.covers_put [OF c', of "(ord, now)"] assms
  show "\<exists>f. account_table.covers (ws_response_to_account (ws_exec sha ord now op s)) f"
    by (cases op) (auto simp: ws_op_defs Let_def split: option.splits prod.splits)
next
  assume c: "owner_table.covers (ws_response_owners s) f2"
  note c' = covers_cleanup(2) [OF assms c, of now]
  from c c' owner_table.covers_put [OF c', of "(ord, now)"] assms
  show "\<exists>f. owner_table.covers (ws_response_owners (ws_exec sha ord now op s)) f"
    by (cases op) (auto simp: ws_op_defs Let_def split: option.splits prod.splits)
next
  assume c: "digest_table.covers (ws_session_invalid_encrypted s) f3"
  note c' = covers_cleanup(6) [OF assms c, of now]
  from c c' digest_table.covers_put [OF c', of "(ord, now)"] assms
  show "\<exists>f. digest_table.covers (ws_session_invalid_encrypted (ws_exec sha ord now op s)) f"
    by (cases op) (auto simp: ws_op_defs Let_def store_binding_def split: option.splits prod.splits)
qed

lemma ws_exec_cache [simp]: "ws_cache (ws_exec sha ord now op s) = ws_cache s"
  by (cases op) (auto simp: ws_op_defs Let_def split: option.splits prod.splits)

section \<open>Properties of every run\<close>

lemma covers_new:
  "account_table.covers [] f1" "owner_table.covers [] f2" "conn_table.covers [] f3"
  "turn_state_table.covers [] f4" "session_conn_table.covers [] f5" "digest_table.covers [] f6"
  by (simp_all add: account_table.covers_def owner_table.covers_def conn_table.covers_def
      turn_state_table.covers_def session_conn_table.covers_def digest_table.covers_def)

lemma ws_run_covers:
  assumes "ws_run sha s h"
  shows "(\<exists>f. account_table.covers (ws_response_to_account s) f) \<and>
    (\<exists>f. owner_table.covers (ws_response_owners s) f) \<and>
    conn_table.covers (ws_response_to_conn s) (latest conn_event h) \<and>
    turn_state_table.covers (ws_session_to_turn_state s) (latest (encoded turn_state_event) h) \<and>
    session_conn_table.covers (ws_session_to_conn s) (latest (encoded session_conn_event) h) \<and>
    (\<exists>f. digest_table.covers (ws_session_invalid_encrypted s) f) \<and>
    (ws_cache s = None \<longrightarrow>
       owner_table.covers (ws_response_owners s) (latest (encoded owner_event) h))"
  using assms
proof induction
  case (fresh cache remote t)
  then show ?case by (auto simp: new_ws_store_def intro: covers_new)
next
  case (op s h ord now op)
  note ord = op.hyps(2)
  from op.IH obtain f1 f2 f3 where c: "account_table.covers (ws_response_to_account s) f1"
    "owner_table.covers (ws_response_owners s) f2"
    "digest_table.covers (ws_session_invalid_encrypted s) f3"
    "conn_table.covers (ws_response_to_conn s) (latest conn_event h)"
    "turn_state_table.covers (ws_session_to_turn_state s) (latest (encoded turn_state_event) h)"
    "session_conn_table.covers (ws_session_to_conn s) (latest (encoded session_conn_event) h)"
    "ws_cache s = None \<longrightarrow> owner_table.covers (ws_response_owners s) (latest (encoded owner_event) h)"
    by (elim conjE exE) (rule that)
  have o: "owner_table.covers (ws_response_owners (ws_exec sha ord now op s))
      (latest (encoded owner_event) ((op, now) # h))" if "ws_cache s = None"
    by (rule owner_step [OF ord mp [OF c(7) that] that])
  show ?case
    unfolding ws_exec_cache
    by (intro conjI impI other_steps(1) [OF ord c(1)] other_steps(2) [OF ord c(2)]
        other_steps(3) [OF ord c(3)] conn_step [OF ord c(4)] turn_state_step [OF ord c(5)]
        session_conn_step [OF ord c(6)] o)
qed

text \<open>C38: memory stays bounded. In every run, with any order of ranging over the maps at
  every operation, each of the six process-local maps holds at most
  \<open>openAIWSStateStoreMaxEntriesPerMap\<close> entries.\<close>

theorem ws_store_bounded:
  assumes "ws_run sha s h"
  shows "gm_len (ws_response_to_account s) \<le> 65536 \<and> gm_len (ws_response_owners s) \<le> 65536 \<and>
    gm_len (ws_response_to_conn s) \<le> 65536 \<and> gm_len (ws_session_to_turn_state s) \<le> 65536 \<and>
    gm_len (ws_session_to_conn s) \<le> 65536 \<and> gm_len (ws_session_invalid_encrypted s) \<le> 65536"
  using ws_run_covers [OF assms] account_table.covers_bound owner_table.covers_bound
    conn_table.covers_bound turn_state_table.covers_bound session_conn_table.covers_bound
    digest_table.covers_bound
  unfolding max_entries_per_map_def [symmetric] by blast

theorem ws_store_bounded_witness:
  "gm_len (ws_session_to_conn (ws_exec (\<lambda>s. s) id 5 (Bind_session_conn 1 ''h'' ''c'' 0)
     (new_ws_store None () 1))) \<le> 65536"
  using ws_store_bounded [OF ws_run.op [OF ws_run.fresh order_ok_id(1),
      of "\<lambda>s. s" 5 "Bind_session_conn 1 ''h'' ''c'' 0" None "()" 1]] by simp

text \<open>the connection a session look-up returns is never stale, foreign or removed. If
  \<open>GetSessionConn\<close> finds a connection, then the latest operation of the history that bound or
  deleted the connection of this group and this (trimmed) session hash bound exactly that
  connection, and its lifetime has not ended; and the same holds of the turn state.\<close>

theorem session_lookup_sound:
  assumes "ws_run sha s h" "order_ok ord"
  shows "(snd (get_session_conn ord now g sh s) = (c, True) \<longrightarrow>
      (\<exists>h1 x h2 b. h = h1 @ x # h2 \<and> session_conn_event x = Some ((g, trim_space sh), Some b) \<and>
         sb_conn_id b = c \<and> now \<le> sb_expires_at b \<and>
         (\<forall>y \<in> set h1. \<forall>w. session_conn_event y \<noteq> Some ((g, trim_space sh), w)))) \<and>
    (snd (get_session_turn_state ord now g sh s) = (c, True) \<longrightarrow>
      (\<exists>h1 x h2 b. h = h1 @ x # h2 \<and> turn_state_event x = Some ((g, trim_space sh), Some b) \<and>
         tb_turn_state b = c \<and> now \<le> tb_expires_at b \<and>
         (\<forall>y \<in> set h1. \<forall>w. turn_state_event y \<noteq> Some ((g, trim_space sh), w))))"
proof (intro conjI impI)
  assume "snd (get_session_conn ord now g sh s) = (c, True)"
  then obtain b where b: "gm_get (ws_session_to_conn (maybe_cleanup ord now s))
      (session_key (g, trim_space sh)) = Some b" "sb_conn_id b = c" "now \<le> sb_expires_at b"
    by (auto simp: get_session_conn_def session_turn_state_key_eq Let_def
        split: if_splits option.splits)
  from ws_run_covers [OF assms(1)] have
    "session_conn_table.covers (ws_session_to_conn s) (latest (encoded session_conn_event) h)" by blast
  from session_conn_table.covers_lookup [OF covers_cleanup(5) [OF assms(2) this] b(1)]
  have "latest session_conn_event h (g, trim_space sh) = Some b" by (simp only: latest_session_key)
  from latest_Some [OF this] b(2,3) show "\<exists>h1 x h2 b. h = h1 @ x # h2 \<and>
      session_conn_event x = Some ((g, trim_space sh), Some b) \<and> sb_conn_id b = c \<and> now \<le> sb_expires_at b \<and>
      (\<forall>y \<in> set h1. \<forall>w. session_conn_event y \<noteq> Some ((g, trim_space sh), w))"
    by blast
next
  assume "snd (get_session_turn_state ord now g sh s) = (c, True)"
  then obtain b where b: "gm_get (ws_session_to_turn_state (maybe_cleanup ord now s))
      (session_key (g, trim_space sh)) = Some b" "tb_turn_state b = c" "now \<le> tb_expires_at b"
    by (auto simp: get_session_turn_state_def session_turn_state_key_eq Let_def
        split: if_splits option.splits)
  from ws_run_covers [OF assms(1)] have
    "turn_state_table.covers (ws_session_to_turn_state s) (latest (encoded turn_state_event) h)" by blast
  from turn_state_table.covers_lookup [OF covers_cleanup(4) [OF assms(2) this] b(1)]
  have "latest turn_state_event h (g, trim_space sh) = Some b" by (simp only: latest_session_key)
  from latest_Some [OF this] b(2,3) show "\<exists>h1 x h2 b. h = h1 @ x # h2 \<and>
      turn_state_event x = Some ((g, trim_space sh), Some b) \<and> tb_turn_state b = c \<and> now \<le> tb_expires_at b \<and>
      (\<forall>y \<in> set h1. \<forall>w. turn_state_event y \<noteq> Some ((g, trim_space sh), w))"
    by blast
qed

theorem session_lookup_sound_witness:
  "\<exists>h1 x h2 b. [(Bind_session_conn 1 ''h'' ''c'' second, 5::int)] = h1 @ x # h2 \<and>
     session_conn_event x = Some ((1, trim_space ''h ''), Some b) \<and> sb_conn_id b = ''c''"
proof -
  let ?s = "ws_exec (\<lambda>s. s) id 5 (Bind_session_conn 1 ''h'' ''c'' second) (new_ws_store None () 1)"
  have run: "ws_run (\<lambda>s. s) ?s [(Bind_session_conn 1 ''h'' ''c'' second, 5)]"
    by (rule ws_run.op [OF ws_run.fresh order_ok_id(1)])
  have trims: "trim_space ''h'' = ''h''" "trim_space ''c'' = ''c''" "trim_space ''h '' = ''h''"
    by code_simp+
  have "snd (get_session_conn id 6 1 ''h '' ?s) = (''c'', True)"
    by (simp add: get_session_conn_def bind_session_conn_def session_turn_state_key_def Let_def trims
        store_binding_def maybe_cleanup_def new_ws_store_def cleanup_interval_def time_defs
        normalize_ws_ttl_def ensure_binding_capacity_def max_entries_per_map_def)
  from mp [OF conjunct1 [OF session_lookup_sound [OF run order_ok_id(1)]] this]
  show ?thesis by (elim exE conjE) (intro exI conjI)
qed

text \<open>the owner check of HTTP responses. Without a shared cache, an owner reported for a
  response of a group is the pair of user and key of the latest binding of exactly this
  group and (trimmed) response, and that binding has not expired: an owner recorded in one
  group is never reported in another.\<close>

theorem response_owner_sound:
  assumes "ws_run sha s h" "order_ok ord" "ws_cache s = None"
    and "snd (get_http_response_owner sha ord now g r s) = (u, k, True, err)"
  shows "\<exists>h1 x h2 b. h = h1 @ x # h2 \<and> owner_event x = Some ((g, trim_space r), Some b) \<and>
    ob_user_id b = u \<and> ob_api_key_id b = k \<and> now < ob_expires_at b \<and>
    (\<forall>y \<in> set h1. \<forall>w. owner_event y \<noteq> Some ((g, trim_space r), w))"
proof -
  from assms(3,4) obtain b where b: "gm_get (ws_response_owners (maybe_cleanup ord now s))
      (session_key (g, trim_space r)) = Some b" "ob_user_id b = u" "ob_api_key_id b = k"
      "now < ob_expires_at b"
    by (auto simp: get_http_response_owner_def response_account_map_key_eq Let_def
        normalize_ws_response_id_def split: if_splits option.splits)
  from ws_run_covers [OF assms(1)] assms(3) have
    "owner_table.covers (ws_response_owners s) (latest (encoded owner_event) h)" by blast
  from owner_table.covers_lookup [OF covers_cleanup(2) [OF assms(2) this] b(1)]
  have "latest owner_event h (g, trim_space r) = Some b" by (simp only: latest_session_key)
  from latest_Some [OF this] b show ?thesis by blast
qed

theorem response_owner_sound_witness:
  "\<exists>h1 x h2 b. [(Bind_owner 1 ''resp_1'' 3 4 second, 5::int)] = h1 @ x # h2 \<and>
     owner_event x = Some ((1, trim_space ''resp_1''), Some b) \<and> ob_user_id b = 3 \<and> ob_api_key_id b = 4"
proof -
  let ?s = "ws_exec (\<lambda>s. s) id 5 (Bind_owner 1 ''resp_1'' 3 4 second) (new_ws_store None () 1)"
  have run: "ws_run (\<lambda>s. s) ?s [(Bind_owner 1 ''resp_1'' 3 4 second, 5)]"
    by (rule ws_run.op [OF ws_run.fresh order_ok_id(1)])
  have trims: "trim_space ''resp_1'' = ''resp_1''" by code_simp
  have "snd (get_http_response_owner (\<lambda>s. s) id 6 1 ''resp_1'' ?s) = (3, 4, True, None)"
    "ws_cache ?s = None"
    by (simp_all add: get_http_response_owner_def bind_http_response_owner_def Let_def trims
        normalize_ws_response_id_def response_account_map_key_def
        store_binding_def maybe_cleanup_def new_ws_store_def cleanup_interval_def time_defs
        normalize_ws_ttl_def ensure_binding_capacity_def max_entries_per_map_def)
  from response_owner_sound [OF run order_ok_id(1) this(2,1)]
  show ?thesis by (elim exE conjE) (intro exI conjI)
qed

text \<open>a binding can be read back. A connection bound to a session is the one found for
  it at every instant up to the end of its lifetime, for every spelling of the hash that
  trims to the same text, also when the cleanup runs in between; after the lifetime the
  look-up finds nothing.\<close>

theorem session_conn_read_back:
  assumes "gm_ok (ws_session_to_conn s)" "order_ok ord" "trim_space sh \<noteq> []" "trim_space c \<noteq> []"
    and "trim_space sh' = trim_space sh"
  shows "snd (get_session_conn ord' now' g sh' (bind_session_conn ord now g sh c ttl s)) =
    (if now' \<le> now + normalize_ws_ttl ttl then (trim_space c, True) else ([], False))"
proof -
  let ?s = "bind_session_conn ord now g sh c ttl s"
  let ?b = "\<lparr>sb_conn_id = trim_space c, sb_expires_at = now + normalize_ws_ttl ttl\<rparr>"
  let ?k = "session_key (g, trim_space sh)"
  have m: "gm_ok (ws_session_to_conn ?s)" "gm_get (ws_session_to_conn ?s) ?k = Some ?b"
    using assms(1-4)
    by (auto simp: bind_session_conn_def session_turn_state_key_eq Let_def store_binding_def
        maybe_cleanup_def cleanup_session_conn_bindings_def)
  have "gm_get (ws_session_to_conn (maybe_cleanup ord' now' ?s)) ?k = Some ?b"
    if "now' \<le> now + normalize_ws_ttl ttl"
    using that m cleanup_keeps [OF m, of now' sb_expires_at]
    by (simp add: maybe_cleanup_def cleanup_session_conn_bindings_def)
  moreover have "gm_get (ws_session_to_conn (maybe_cleanup ord' now' ?s)) ?k = None \<or>
      gm_get (ws_session_to_conn (maybe_cleanup ord' now' ?s)) ?k = Some ?b"
    using m cleanup_get [OF m(1), of sb_expires_at ord' now' cleanup_max_per_map ?k]
    by (cases "gm_get (ws_session_to_conn (maybe_cleanup ord' now' ?s)) ?k")
       (auto simp: maybe_cleanup_def cleanup_session_conn_bindings_def split: if_splits)
  moreover have "snd (get_session_conn ord' now' g sh' ?s) =
     (case gm_get (ws_session_to_conn (maybe_cleanup ord' now' ?s)) ?k of None \<Rightarrow> ([], False)
      | Some b \<Rightarrow> if sb_expires_at b < now' \<or> trim_space (sb_conn_id b) = [] then ([], False)
                  else (sb_conn_id b, True))"
    using assms(3,5)
    by (simp add: get_session_conn_def session_turn_state_key_eq Let_def split: option.splits)
  ultimately show ?thesis using assms(4) by auto
qed

theorem session_conn_read_back_witness:
  "snd (get_session_conn rev 9 2 '' h'' (bind_session_conn id 3 2 ''h'' ''conn'' 0 (new_ws_store None () 0)))
     = (''conn'', True)"
proof -
  have "trim_space ''h'' = ''h''" "trim_space ''conn'' = ''conn''" "trim_space '' h'' = ''h''"
    by code_simp+
  with session_conn_read_back [of "new_ws_store None () 0" id "''h''" "''conn''" "'' h''" rev 9 2 3 0]
  show ?thesis by (simp add: new_ws_store_def normalize_ws_ttl_def hour_def)
qed

end
