(* ===== verification/AppErrors.thy ===== *)
theory AppErrors
  imports Prelude "HOL-Library.Word"
begin

text \<open>
  Application errors (\<^verbatim>\<open>internal/pkg/errors\<close>): an error is a chain of wrapped errors; an
  \<open>ApplicationError\<close> carries a status whose code is a 32-bit integer, a reason, a message
  and metadata. The text \<open>Error()\<close> prints is left out. A nil error is \<open>None\<close>.
\<close>

record app_status =
  st_code :: "32 word"
  st_reason :: string
  st_message :: string
  st_metadata :: "(string, string) gomap option"

datatype go_error =
    Plain_error string
  | Wrapping_error string go_error
  | App_error app_status (app_cause: "go_error option")

definition unknown_code :: int where "unknown_code = 500"
definition unknown_reason :: string where "unknown_reason = []"
definition unknown_message :: string where "unknown_message = ''internal error''"

definition new_app :: "int \<Rightarrow> string \<Rightarrow> string \<Rightarrow> go_error" where
  "new_app code reason message =
     App_error \<lparr>st_code = word_of_int code, st_reason = reason, st_message = message,
                st_metadata = None\<rparr> None"

text \<open>\<open>errors.As\<close> with an \<open>ApplicationError\<close> target: the first one of the chain.\<close>

fun as_app :: "go_error \<Rightarrow> (app_status \<times> go_error option) option" where
  "as_app (Plain_error m) = None"
| "as_app (Wrapping_error m e) = as_app e"
| "as_app (App_error st cause) = Some (st, cause)"

definition unwrap_app :: "app_status \<times> go_error option \<Rightarrow> go_error option" where
  "unwrap_app e = snd e"

definition is_app :: "app_status \<Rightarrow> go_error option \<Rightarrow> bool" where
  "is_app st err =
     (case err of None \<Rightarrow> False
      | Some e \<Rightarrow> (case as_app e of None \<Rightarrow> False
          | Some (st', _) \<Rightarrow> st_code st' = st_code st \<and> st_reason st' = st_reason st))"

text \<open>\<open>Clone\<close> copies the status; the metadata map is copied entry by entry.\<close>

definition clone_app :: "app_status \<times> go_error option \<Rightarrow> app_status \<times> go_error option" where
  "clone_app e =
     (\<lparr>st_code = st_code (fst e), st_reason = st_reason (fst e), st_message = st_message (fst e),
       st_metadata = map_option (\<lambda>m. foldr (\<lambda>(k, v). gm_set k v) m []) (st_metadata (fst e))\<rparr>, snd e)"

definition with_cause :: "app_status \<times> go_error option \<Rightarrow> go_error option \<Rightarrow> app_status \<times> go_error option" where
  "with_cause e cause = (fst (clone_app e), cause)"

definition with_metadata ::
  "app_status \<times> go_error option \<Rightarrow> (string, string) gomap option \<Rightarrow> app_status \<times> go_error option" where
  "with_metadata e md =
     (case md of
        None \<Rightarrow> ((fst (clone_app e))\<lparr>st_metadata := None\<rparr>, snd (clone_app e))
      | Some m \<Rightarrow> ((fst (clone_app e))\<lparr>st_metadata := Some (foldr (\<lambda>(k, v). gm_set k v) m [])\<rparr>,
                  snd (clone_app e)))"

abbreviation app :: "app_status \<times> go_error option \<Rightarrow> go_error" where
  "app e \<equiv> App_error (fst e) (snd e)"

definition from_error :: "go_error option \<Rightarrow> (app_status \<times> go_error option) option" where
  "from_error err =
     (case err of None \<Rightarrow> None
      | Some e \<Rightarrow> (case as_app e of
          Some a \<Rightarrow> Some a
        | None \<Rightarrow>
            Some (with_cause
              (\<lparr>st_code = word_of_int unknown_code, st_reason = unknown_reason,
                st_message = unknown_message, st_metadata = None\<rparr>, None) (Some e))))"

definition error_code :: "go_error option \<Rightarrow> int" where
  "error_code err = (case from_error err of None \<Rightarrow> 200 | Some a \<Rightarrow> sint (st_code (fst a)))"

definition error_reason :: "go_error option \<Rightarrow> string" where
  "error_reason err = (case from_error err of None \<Rightarrow> unknown_reason | Some a \<Rightarrow> st_reason (fst a))"

definition error_message :: "go_error option \<Rightarrow> string" where
  "error_message err = (case from_error err of None \<Rightarrow> [] | Some a \<Rightarrow> st_message (fst a))"

section \<open>Named errors\<close>

definition bad_request where "bad_request reason msg = new_app 400 reason msg"
definition unauthorized where "unauthorized reason msg = new_app 401 reason msg"
definition forbidden where "forbidden reason msg = new_app 403 reason msg"
definition not_found where "not_found reason msg = new_app 404 reason msg"
definition conflict where "conflict reason msg = new_app 409 reason msg"
definition too_many_requests where "too_many_requests reason msg = new_app 429 reason msg"
definition client_closed where "client_closed reason msg = new_app 499 reason msg"
definition internal_server where "internal_server reason msg = new_app 500 reason msg"
definition service_unavailable where "service_unavailable reason msg = new_app 503 reason msg"
definition gateway_timeout where "gateway_timeout reason msg = new_app 504 reason msg"

definition is_bad_request where "is_bad_request err \<longleftrightarrow> error_code err = 400"
definition is_unauthorized where "is_unauthorized err \<longleftrightarrow> error_code err = 401"
definition is_forbidden where "is_forbidden err \<longleftrightarrow> error_code err = 403"
definition is_not_found where "is_not_found err \<longleftrightarrow> error_code err = 404"
definition is_conflict where "is_conflict err \<longleftrightarrow> error_code err = 409"
definition is_too_many_requests where "is_too_many_requests err \<longleftrightarrow> error_code err = 429"
definition is_client_closed where "is_client_closed err \<longleftrightarrow> error_code err = 499"
definition is_internal_server where "is_internal_server err \<longleftrightarrow> error_code err = 500"
definition is_service_unavailable where "is_service_unavailable err \<longleftrightarrow> error_code err = 503"
definition is_gateway_timeout where "is_gateway_timeout err \<longleftrightarrow> error_code err = 504"

definition to_http :: "go_error option \<Rightarrow> int \<times> app_status" where
  "to_http err =
     (case from_error err of
        None \<Rightarrow> (200, \<lparr>st_code = 200, st_reason = [], st_message = [], st_metadata = None\<rparr>)
      | Some (st, _) \<Rightarrow>
          (sint (st_code st),
           \<lparr>st_code = st_code st, st_reason = st_reason st, st_message = st_message st,
            st_metadata = map_option (\<lambda>m. foldr (\<lambda>(k, v). gm_set k v) m []) (st_metadata st)\<rparr>))"

section \<open>Properties\<close>

lemma copy_map_get:
  "gm_ok m \<Longrightarrow> gm_get (foldr (\<lambda>(k, v). gm_set k v) m []) = gm_get m"
  by (induction m) (auto simp: gm_ok_def fun_eq_iff)

lemma as_app_app [simp]: "as_app (app e) = Some e"
  by simp

lemma from_error_app [simp]: "from_error (Some (app e)) = Some e"
  by (simp add: from_error_def)

lemma clone_app_fields [simp]:
  "st_code (fst (clone_app e)) = st_code (fst e)" "st_reason (fst (clone_app e)) = st_reason (fst e)"
  "st_message (fst (clone_app e)) = st_message (fst e)" "snd (clone_app e) = snd e"
  by (simp_all add: clone_app_def)

lemma with_cause_fields [simp]:
  "st_code (fst (with_cause e c)) = st_code (fst e)" "st_reason (fst (with_cause e c)) = st_reason (fst e)"
  "st_message (fst (with_cause e c)) = st_message (fst e)" "snd (with_cause e c) = c"
  by (simp_all add: with_cause_def)

lemma with_metadata_fields [simp]:
  "st_code (fst (with_metadata e m)) = st_code (fst e)"
  "st_reason (fst (with_metadata e m)) = st_reason (fst e)"
  "st_message (fst (with_metadata e m)) = st_message (fst e)" "snd (with_metadata e m) = snd e"
  by (cases m; simp add: with_metadata_def)+

fun wrap_all :: "string list \<Rightarrow> go_error \<Rightarrow> go_error" where
  "wrap_all [] e = e"
| "wrap_all (m # ms) e = Wrapping_error m (wrap_all ms e)"

lemma as_app_wrap_all [simp]: "as_app (wrap_all ms e) = as_app e"
  by (induction ms) simp_all

text \<open>an application error keeps its identity: attaching a cause or metadata, and wrapping
  it in any number of other errors, changes neither the HTTP code nor the reason nor the
  message a handler derives from it, and the error still matches the one it was made from.\<close>

theorem error_identity:
  "fst (to_http (Some (wrap_all ms (app (with_cause (with_metadata e md) cause))))) = sint (st_code (fst e)) \<and>
   error_code (Some (wrap_all ms (app (with_cause (with_metadata e md) cause)))) = sint (st_code (fst e)) \<and>
   error_reason (Some (wrap_all ms (app (with_cause (with_metadata e md) cause)))) = st_reason (fst e) \<and>
   error_message (Some (wrap_all ms (app (with_cause (with_metadata e md) cause)))) = st_message (fst e) \<and>
   is_app (fst e) (Some (wrap_all ms (app (with_cause (with_metadata e md) cause))))"
  by (simp add: from_error_def to_http_def error_code_def error_reason_def error_message_def
      is_app_def split: prod.splits)

lemma error_code_new_app:
  "- (2 ^ 31) \<le> code \<Longrightarrow> code < 2 ^ 31 \<Longrightarrow> error_code (Some (wrap_all ms (new_app code r m))) = code"
  by (simp add: error_code_def from_error_def new_app_def sint_sbintrunc' signed_take_bit_int_eq_self)

end
