(* ===== verification/Idempotency.thy ===== *)
theory Idempotency
  imports AppErrors
begin

text \<open>
  Idempotent execution of write requests (\<^verbatim>\<open>internal/service/idempotency.go\<close>) over the
  records of \<^verbatim>\<open>internal/repository/idempotency_repo.go\<close>. \<open>Execute\<close> is a machine whose steps
  are its repository calls and the call of the business function, so that several requests
  can be interleaved; run to the end it is the function itself. Metrics and audit logs are
  left out. SHA-256, JSON and the log redaction are parameters.
\<close>

section \<open>Errors and data\<close>

definition status_processing :: string where "status_processing = ''processing''"
definition status_succeeded :: string where "status_succeeded = ''succeeded''"
definition status_failed_retryable :: string where "status_failed_retryable = ''failed_retryable''"

lemmas status_defs = status_processing_def status_succeeded_def status_failed_retryable_def

definition err_key_required :: go_error where
  "err_key_required = bad_request ''IDEMPOTENCY_KEY_REQUIRED'' ''idempotency key is required''"
definition err_key_invalid :: go_error where
  "err_key_invalid = bad_request ''IDEMPOTENCY_KEY_INVALID'' ''idempotency key is invalid''"
definition err_key_conflict :: go_error where
  "err_key_conflict = conflict ''IDEMPOTENCY_KEY_CONFLICT'' ''idempotency key reused with different payload''"
definition err_in_progress :: go_error where
  "err_in_progress = conflict ''IDEMPOTENCY_IN_PROGRESS'' ''idempotent request is still processing''"
definition err_retry_backoff :: go_error where
  "err_retry_backoff = conflict ''IDEMPOTENCY_RETRY_BACKOFF'' ''idempotent request is in retry backoff window''"
definition err_store_unavailable :: go_error where
  "err_store_unavailable =
     service_unavailable ''IDEMPOTENCY_STORE_UNAVAILABLE'' ''idempotency store unavailable''"
definition err_invalid_payload :: go_error where
  "err_invalid_payload = bad_request ''IDEMPOTENCY_PAYLOAD_INVALID'' ''failed to normalize request payload''"
definition err_executor_nil :: go_error where
  "err_executor_nil = internal_server ''IDEMPOTENCY_EXECUTOR_NIL'' ''idempotency executor is nil''"
definition err_scope_required :: go_error where
  "err_scope_required = bad_request ''IDEMPOTENCY_SCOPE_REQUIRED'' ''idempotency scope is required''"

text \<open>Methods of the sentinel errors, which are application errors.\<close>

definition cause_of :: "go_error \<Rightarrow> go_error \<Rightarrow> go_error" where
  "cause_of base c = (case as_app base of None \<Rightarrow> base | Some a \<Rightarrow> app (with_cause a (Some c)))"

definition metadata_of :: "go_error \<Rightarrow> (string, string) gomap \<Rightarrow> go_error" where
  "metadata_of base md = (case as_app base of None \<Rightarrow> base | Some a \<Rightarrow> app (with_metadata a (Some md)))"

record idem_record =
  ir_id :: int
  ir_scope :: string
  ir_key_hash :: string
  ir_fingerprint :: string
  ir_status :: string
  ir_response_status :: "int option"
  ir_response_body :: "string option"
  ir_error_reason :: "string option"
  ir_locked_until :: "instant option"
  ir_expires_at :: instant
  ir_created_at :: instant
  ir_updated_at :: instant

record idem_config =
  ic_default_ttl :: duration
  ic_system_operation_ttl :: duration
  ic_processing_timeout :: duration
  ic_failed_retry_backoff :: duration
  ic_max_stored_response_len :: int
  ic_observe_only :: bool

definition default_idem_config :: idem_config where
  "default_idem_config =
     \<lparr>ic_default_ttl = 24 * hour, ic_system_operation_ttl = hour,
      ic_processing_timeout = 30 * second, ic_failed_retry_backoff = 5 * second,
      ic_max_stored_response_len = 64 * 1024, ic_observe_only = True\<rparr>"

record 'p idem_options =
  io_scope :: string
  io_actor_scope :: string
  io_method :: string
  io_route :: string
  io_key :: string
  io_payload :: 'p
  io_ttl :: duration
  io_require_key :: bool
  io_execution_timeout :: duration

text \<open>The repository interface; \<open>clock\<close> is the database's \<open>NOW()\<close>.\<close>

record 'r idem_repo =
  rp_create_processing :: "instant \<Rightarrow> idem_record \<Rightarrow> 'r \<Rightarrow> 'r \<times> (go_error + bool \<times> idem_record)"
  rp_get :: "string \<Rightarrow> string \<Rightarrow> 'r \<Rightarrow> go_error + idem_record option"
  rp_try_reclaim ::
    "instant \<Rightarrow> int \<Rightarrow> string \<Rightarrow> instant \<Rightarrow> instant \<Rightarrow> instant \<Rightarrow> 'r \<Rightarrow> 'r \<times> (go_error + bool)"
  rp_extend_lock :: "instant \<Rightarrow> int \<Rightarrow> string \<Rightarrow> instant \<Rightarrow> instant \<Rightarrow> 'r \<Rightarrow> 'r \<times> (go_error + bool)"
  rp_mark_succeeded ::
    "instant \<Rightarrow> int \<Rightarrow> int \<Rightarrow> string \<Rightarrow> instant \<Rightarrow> 'r \<Rightarrow> 'r \<times> go_error option"
  rp_mark_failed ::
    "instant \<Rightarrow> int \<Rightarrow> string \<Rightarrow> instant \<Rightarrow> instant \<Rightarrow> 'r \<Rightarrow> 'r \<times> go_error option"

text \<open>The code outside the repository: hex SHA-256, the Unicode case tables, JSON of the
  payload and of the result, and the redaction of the stored body.\<close>

record ('p, 'd) idem_env =
  ie_sha :: "string \<Rightarrow> string"
  ie_upper :: "string \<Rightarrow> string"
  ie_marshal_payload :: "'p \<Rightarrow> go_error + string"
  ie_marshal :: "'d \<Rightarrow> go_error + string"
  ie_unmarshal :: "string \<Rightarrow> go_error + 'd"
  ie_empty_object :: 'd
  ie_redact :: "string \<Rightarrow> string"

section \<open>Helpers\<close>

definition write_idempotency_ttl :: "idem_config option \<Rightarrow> duration" where
  "write_idempotency_ttl c =
     (case c of Some cfg \<Rightarrow> if 0 < ic_default_ttl cfg then ic_default_ttl cfg
                            else ic_default_ttl default_idem_config
      | None \<Rightarrow> ic_default_ttl default_idem_config)"

definition system_operation_ttl :: "idem_config option \<Rightarrow> duration" where
  "system_operation_ttl c =
     (case c of Some cfg \<Rightarrow> if 0 < ic_system_operation_ttl cfg then ic_system_operation_ttl cfg
                            else ic_system_operation_ttl default_idem_config
      | None \<Rightarrow> ic_system_operation_ttl default_idem_config)"

definition normalize_idempotency_key :: "string \<Rightarrow> go_error + string" where
  "normalize_idempotency_key raw =
     (let key = trim_space raw in
      if key = [] then Inr []
      else if 128 < length key then Inl err_key_invalid
      else if list_all (byte_in 33 126) key then Inr key else Inl err_key_invalid)"

definition build_fingerprint ::
  "('p, 'd) idem_env \<Rightarrow> string \<Rightarrow> string \<Rightarrow> string \<Rightarrow> 'p \<Rightarrow> go_error + string" where
  "build_fingerprint env method route actor payload =
     (let m = (if method = [] then ''POST'' else method);
          rt = (if route = [] then ''/'' else route);
          a = (if actor = [] then ''anonymous'' else actor)
      in case ie_marshal_payload env payload of
           Inl e \<Rightarrow> Inl (cause_of err_invalid_payload e)
         | Inr raw \<Rightarrow>
             Inr (ie_sha env (to_upper (ie_upper env) m @ [CHR 0x0A] @ rt @ [CHR 0x0A] @ a @
               [CHR 0x0A] @ raw)))"

definition retry_after_seconds :: "go_error option \<Rightarrow> int" where
  "retry_after_seconds err =
     (case Option.bind err as_app of None \<Rightarrow> 0
      | Some (st, _) \<Rightarrow>
          (case st_metadata st of None \<Rightarrow> 0
           | Some md \<Rightarrow>
               let v = trim_space (case gm_get md ''retry_after'' of None \<Rightarrow> [] | Some s \<Rightarrow> s) in
               if v = [] then 0
               else case go_atoi v of None \<Rightarrow> 0 | Some n \<Rightarrow> if n \<le> 0 then 0 else n))"

text \<open>The seconds are \<open>int(d.Seconds())\<close>, exact for the lock times, which are short.\<close>

definition conflict_with_retry_after :: "go_error \<Rightarrow> instant option \<Rightarrow> instant \<Rightarrow> go_error" where
  "conflict_with_retry_after base locked_until now =
     (case locked_until of None \<Rightarrow> base
      | Some t \<Rightarrow>
          let sec = go_quot (t - now) second; sec' = (if sec \<le> 0 then 1 else sec)
          in metadata_of base [(''retry_after'', itoa sec')])"

fun shrink_utf8 :: "nat \<Rightarrow> string \<Rightarrow> nat" where
  "shrink_utf8 0 s = 0"
| "shrink_utf8 (Suc n) s = (if utf8_valid (take (Suc n) s) then Suc n else shrink_utf8 n s)"

definition truncate_utf8 :: "string \<Rightarrow> int \<Rightarrow> string" where
  "truncate_utf8 s max_bytes =
     (if max_bytes \<le> 0 \<or> int (length s) \<le> max_bytes then s
      else take (shrink_utf8 (nat max_bytes) s) s)"

definition marshal_stored_response :: "('p, 'd) idem_env \<Rightarrow> idem_config \<Rightarrow> 'd \<Rightarrow> go_error + string" where
  "marshal_stored_response env cfg data =
     (case ie_marshal env data of
        Inl e \<Rightarrow> Inl e
      | Inr raw \<Rightarrow>
          let redacted = ie_redact env raw; mx = ic_max_stored_response_len cfg in
          Inr (if 0 < mx \<and> mx < int (length redacted)
               then truncate_utf8 redacted mx @ ''...(truncated)'' else redacted))"

definition decode_stored_response :: "('p, 'd) idem_env \<Rightarrow> string option \<Rightarrow> go_error + 'd" where
  "decode_stored_response env stored =
     (case stored of None \<Rightarrow> Inr (ie_empty_object env)
      | Some s \<Rightarrow>
          if trim_space s = [] then Inr (ie_empty_object env)
          else case ie_unmarshal env s of
             Inl e \<Rightarrow> Inl (Wrapping_error ''decode stored response'' e)
           | Inr d \<Rightarrow> Inr d)"

section \<open>The machine of Execute\<close>

record idem_ctx =
  ix_record :: idem_record
  ix_now :: instant
  ix_locked_until :: instant
  ix_expires_at :: instant
  ix_ttl :: duration
  ix_bounded :: bool

datatype 'd idem_pc =
    Idem_unkeyed
  | Idem_create idem_ctx
  | Idem_lookup idem_ctx
  | Idem_reclaim_expired idem_ctx idem_record
  | Idem_lookup_again idem_ctx
  | Idem_reclaim_failed idem_ctx idem_record
  | Idem_running idem_ctx
  | Idem_mark_failed idem_ctx go_error string instant instant
  | Idem_mark_succeeded idem_ctx 'd string instant
  | Idem_done "go_error + 'd \<times> bool"

definition idem_unavailable :: "go_error \<Rightarrow> 'd idem_pc" where
  "idem_unavailable e = Idem_done (Inl (cause_of err_store_unavailable e))"

text \<open>Everything before the first repository call.\<close>

definition idem_start ::
  "('p, 'd) idem_env \<Rightarrow> idem_config \<Rightarrow> bool \<Rightarrow> bool \<Rightarrow> instant \<Rightarrow> 'p idem_options \<Rightarrow> 'd idem_pc" where
  "idem_start env cfg executor_nil repo_nil now opts =
     (if executor_nil then Idem_done (Inl err_executor_nil)
      else case normalize_idempotency_key (io_key opts) of
        Inl e \<Rightarrow> Idem_done (Inl e)
      | Inr key \<Rightarrow>
          if key = [] then
            (if io_require_key opts \<and> \<not> ic_observe_only cfg then Idem_done (Inl err_key_required)
             else Idem_unkeyed)
          else if repo_nil then Idem_done (Inl err_store_unavailable)
          else if io_scope opts = [] then Idem_done (Inl err_scope_required)
          else case build_fingerprint env (io_method opts) (io_route opts) (io_actor_scope opts)
                  (io_payload opts) of
            Inl e \<Rightarrow> Idem_done (Inl e)
          | Inr fp \<Rightarrow>
              let ttl = (if io_ttl opts \<le> 0 then ic_default_ttl cfg else io_ttl opts);
                  locked = now + ic_processing_timeout cfg
              in Idem_create
                   \<lparr>ix_record = \<lparr>ir_id = 0, ir_scope = io_scope opts, ir_key_hash = ie_sha env key,
                      ir_fingerprint = fp, ir_status = status_processing, ir_response_status = None,
                      ir_response_body = None, ir_error_reason = None, ir_locked_until = Some locked,
                      ir_expires_at = now + ttl, ir_created_at = zero_time, ir_updated_at = zero_time\<rparr>,
                    ix_now = now, ix_locked_until = locked, ix_expires_at = now + ttl, ix_ttl = ttl,
                    ix_bounded = (0 < io_execution_timeout opts)\<rparr>)"

definition idem_enter :: "idem_ctx \<Rightarrow> int \<Rightarrow> 'd idem_pc" where
  "idem_enter c rid =
     (if rid = 0 then Idem_done (Inl err_store_unavailable)
      else Idem_running (c\<lparr>ix_record := (ix_record c)\<lparr>ir_id := rid\<rparr>\<rparr>))"

definition idem_existing :: "('p, 'd) idem_env \<Rightarrow> idem_ctx \<Rightarrow> idem_record \<Rightarrow> 'd idem_pc" where
  "idem_existing env c ex =
     (if ir_status ex = status_succeeded then
        (case decode_stored_response env (ir_response_body ex) of
           Inl e \<Rightarrow> idem_unavailable e
         | Inr d \<Rightarrow> Idem_done (Inr (d, True)))
      else if ir_status ex = status_processing then
        Idem_done (Inl (conflict_with_retry_after err_in_progress (ir_locked_until ex) (ix_now c)))
      else if ir_status ex = status_failed_retryable then
        (if (\<exists>t. ir_locked_until ex = Some t \<and> ix_now c < t) then
           Idem_done (Inl (conflict_with_retry_after err_retry_backoff (ir_locked_until ex) (ix_now c)))
         else Idem_reclaim_failed c ex)
      else Idem_done (Inl err_key_conflict))"

definition idem_found :: "('p, 'd) idem_env \<Rightarrow> idem_ctx \<Rightarrow> idem_record \<Rightarrow> 'd idem_pc" where
  "idem_found env c ex =
     (if ir_fingerprint ex \<noteq> ir_fingerprint (ix_record c) then Idem_done (Inl err_key_conflict)
      else if ir_expires_at ex \<le> ix_now c then Idem_reclaim_expired c ex
      else idem_existing env c ex)"

text \<open>What follows the business function, up to storing its outcome.\<close>

definition idem_outcome ::
  "('p, 'd) idem_env \<Rightarrow> idem_config \<Rightarrow> instant \<Rightarrow> idem_ctx \<Rightarrow> (go_error + 'd) \<Rightarrow> 'd idem_pc" where
  "idem_outcome env cfg now c outcome =
     (let expires = (if ix_bounded c then now + ix_ttl c else ix_expires_at c) in
      case outcome of
        Inl e \<Rightarrow>
          let reason = error_reason (Some e) in
          Idem_mark_failed c e (if reason = [] then ''EXECUTION_FAILED'' else reason)
            (now + ic_failed_retry_backoff cfg) expires
      | Inr d \<Rightarrow>
          (case marshal_stored_response env cfg d of
             Inl e \<Rightarrow> idem_unavailable e
           | Inr body \<Rightarrow> Idem_mark_succeeded c d body expires))"

text \<open>One step: a repository call, or the business function with its \<open>outcome\<close>; \<open>now\<close> is
  the clock at that moment.\<close>

fun idem_step ::
  "('p, 'd) idem_env \<Rightarrow> idem_config \<Rightarrow> 'r idem_repo \<Rightarrow> instant \<Rightarrow> (go_error + 'd) \<Rightarrow>
     'd idem_pc \<times> 'r \<Rightarrow> 'd idem_pc \<times> 'r" where
  "idem_step env cfg repo now outcome (Idem_unkeyed, r) =
     (Idem_done (case outcome of Inl e \<Rightarrow> Inl e | Inr d \<Rightarrow> Inr (d, False)), r)"
| "idem_step env cfg repo now outcome (Idem_create c, r) =
     (case rp_create_processing repo now (ix_record c) r of
        (r', Inl e) \<Rightarrow> (idem_unavailable e, r')
      | (r', Inr (owner, rec)) \<Rightarrow>
          if owner then (idem_enter (c\<lparr>ix_record := rec\<rparr>) (ir_id rec), r')
          else (Idem_lookup (c\<lparr>ix_record := rec\<rparr>), r'))"
| "idem_step env cfg repo now outcome (Idem_lookup c, r) =
     (case rp_get repo (ir_scope (ix_record c)) (ir_key_hash (ix_record c)) r of
        Inl e \<Rightarrow> (idem_unavailable e, r)
      | Inr None \<Rightarrow> (Idem_done (Inl err_store_unavailable), r)
      | Inr (Some ex) \<Rightarrow> (idem_found env c ex, r))"
| "idem_step env cfg repo now outcome (Idem_reclaim_expired c ex, r) =
     (case rp_try_reclaim repo now (ir_id ex) (ir_status ex) (ix_now c) (ix_locked_until c)
             (ix_expires_at c) r of
        (r', Inl e) \<Rightarrow> (idem_unavailable e, r')
      | (r', Inr taken) \<Rightarrow>
          (if taken then idem_enter c (ir_id ex) else Idem_lookup_again c, r'))"
| "idem_step env cfg repo now outcome (Idem_lookup_again c, r) =
     (case rp_get repo (ir_scope (ix_record c)) (ir_key_hash (ix_record c)) r of
        Inl e \<Rightarrow> (idem_unavailable e, r)
      | Inr None \<Rightarrow> (Idem_done (Inl err_store_unavailable), r)
      | Inr (Some latest) \<Rightarrow>
          (if ir_fingerprint latest \<noteq> ir_fingerprint (ix_record c)
           then Idem_done (Inl err_key_conflict) else idem_existing env c latest, r))"
| "idem_step env cfg repo now outcome (Idem_reclaim_failed c ex, r) =
     (case rp_try_reclaim repo now (ir_id ex) status_failed_retryable (ix_now c) (ix_locked_until c)
             (ix_expires_at c) r of
        (r', Inl e) \<Rightarrow> (idem_unavailable e, r')
      | (r', Inr taken) \<Rightarrow>
          (if taken then idem_enter c (ir_id ex)
           else Idem_done (Inl (conflict_with_retry_after err_in_progress (ir_locked_until ex) (ix_now c))),
           r'))"
| "idem_step env cfg repo now outcome (Idem_running c, r) =
     (idem_outcome env cfg now c outcome, r)"
| "idem_step env cfg repo now outcome (Idem_mark_failed c e reason backoff expires, r) =
     (Idem_done (Inl e), fst (rp_mark_failed repo now (ir_id (ix_record c)) reason backoff expires r))"
| "idem_step env cfg repo now outcome (Idem_mark_succeeded c d body expires, r) =
     (case rp_mark_succeeded repo now (ir_id (ix_record c)) 200 body expires r of
        (r', Some e) \<Rightarrow> (idem_unavailable e, r')
      | (r', None) \<Rightarrow> (Idem_done (Inr (d, False)), r'))"
| "idem_step env cfg repo now outcome (Idem_done res, r) = (Idem_done res, r)"

text \<open>A call of \<open>Execute\<close> that runs alone: at most seven steps.\<close>

definition idem_execute ::
  "('p, 'd) idem_env \<Rightarrow> idem_config \<Rightarrow> 'r idem_repo \<Rightarrow> instant \<Rightarrow> 'p idem_options \<Rightarrow>
     (go_error + 'd) \<Rightarrow> 'r \<Rightarrow> 'd idem_pc \<times> 'r" where
  "idem_execute env cfg repo now opts outcome r =
     (idem_step env cfg repo now outcome ^^ 7) (idem_start env cfg False False now opts, r)"

text \<open>The renewal of the lease: its period, and one tick; the second result says whether
  the renewal goes on.\<close>

definition renew_lease :: "idem_config \<Rightarrow> duration" where
  "renew_lease cfg =
     (if ic_processing_timeout cfg \<le> 0 then ic_processing_timeout default_idem_config
      else ic_processing_timeout cfg)"

definition renew_interval :: "idem_config \<Rightarrow> duration \<Rightarrow> duration" where
  "renew_interval cfg ttl =
     (let i = min (go_quot (renew_lease cfg) 3) (go_quot ttl 3) in
      if i < millisecond then millisecond else i)"

definition idem_renew ::
  "idem_config \<Rightarrow> 'r idem_repo \<Rightarrow> instant \<Rightarrow> idem_ctx \<Rightarrow> 'r \<Rightarrow> 'r \<times> bool" where
  "idem_renew cfg repo now c r =
     (case rp_extend_lock repo now (ir_id (ix_record c)) (ir_fingerprint (ix_record c))
             (now + renew_lease cfg) (now + ix_ttl c) r of
        (r', Inl e) \<Rightarrow> (r', True)
      | (r', Inr b) \<Rightarrow> (r', b))"

section \<open>The SQL repository\<close>

record idem_db =
  db_rows :: "idem_record list"
  db_next_id :: int

text \<open>\<open>UPDATE ... WHERE\<close> on the rows; the second result is \<open>RowsAffected() > 0\<close>.\<close>

definition update_rows ::
  "(idem_record \<Rightarrow> bool) \<Rightarrow> (idem_record \<Rightarrow> idem_record) \<Rightarrow> idem_db \<Rightarrow> idem_db \<times> bool" where
  "update_rows P f db =
     (db\<lparr>db_rows := map (\<lambda>x. if P x then f x else x) (db_rows db)\<rparr>, list_ex P (db_rows db))"

definition sql_create_processing ::
  "instant \<Rightarrow> idem_record \<Rightarrow> idem_db \<Rightarrow> idem_db \<times> (go_error + bool \<times> idem_record)" where
  "sql_create_processing clock rec db =
     (if list_ex (\<lambda>x. ir_scope x = ir_scope rec \<and> ir_key_hash x = ir_key_hash rec) (db_rows db)
      then (db, Inr (False, rec))
      else let rec' = rec\<lparr>ir_id := db_next_id db, ir_created_at := clock, ir_updated_at := clock\<rparr>;
               row = rec'\<lparr>ir_response_status := None, ir_response_body := None, ir_error_reason := None\<rparr>
        in (db\<lparr>db_rows := db_rows db @ [row], db_next_id := db_next_id db + 1\<rparr>, Inr (True, rec')))"

definition sql_get :: "string \<Rightarrow> string \<Rightarrow> idem_db \<Rightarrow> go_error + idem_record option" where
  "sql_get scope key_hash db =
     Inr (find (\<lambda>x. ir_scope x = scope \<and> ir_key_hash x = key_hash) (db_rows db))"

definition sql_try_reclaim ::
  "instant \<Rightarrow> int \<Rightarrow> string \<Rightarrow> instant \<Rightarrow> instant \<Rightarrow> instant \<Rightarrow> idem_db \<Rightarrow>
     idem_db \<times> (go_error + bool)" where
  "sql_try_reclaim clock rid from_status now locked expires db =
     map_prod id Inr (update_rows
       (\<lambda>x. ir_id x = rid \<and> ir_status x = from_status \<and>
            (case ir_locked_until x of None \<Rightarrow> True | Some t \<Rightarrow> t \<le> now))
       (\<lambda>x. x\<lparr>ir_status := status_processing, ir_locked_until := Some locked,
              ir_error_reason := None, ir_updated_at := clock, ir_expires_at := expires\<rparr>) db)"

definition sql_extend_lock ::
  "instant \<Rightarrow> int \<Rightarrow> string \<Rightarrow> instant \<Rightarrow> instant \<Rightarrow> idem_db \<Rightarrow> idem_db \<times> (go_error + bool)" where
  "sql_extend_lock clock rid fp locked expires db =
     map_prod id Inr (update_rows
       (\<lambda>x. ir_id x = rid \<and> ir_status x = status_processing \<and> ir_fingerprint x = fp)
       (\<lambda>x. x\<lparr>ir_locked_until := Some locked, ir_expires_at := expires, ir_updated_at := clock\<rparr>) db)"

definition sql_mark_succeeded ::
  "instant \<Rightarrow> int \<Rightarrow> int \<Rightarrow> string \<Rightarrow> instant \<Rightarrow> idem_db \<Rightarrow> idem_db \<times> go_error option" where
  "sql_mark_succeeded clock rid resp_status body expires db =
     (fst (update_rows (\<lambda>x. ir_id x = rid)
        (\<lambda>x. x\<lparr>ir_status := status_succeeded, ir_response_status := Some resp_status,
               ir_response_body := Some body, ir_error_reason := None, ir_locked_until := None,
               ir_expires_at := expires, ir_updated_at := clock\<rparr>) db), None)"

definition sql_mark_failed ::
  "instant \<Rightarrow> int \<Rightarrow> string \<Rightarrow> instant \<Rightarrow> instant \<Rightarrow> idem_db \<Rightarrow> idem_db \<times> go_error option" where
  "sql_mark_failed clock rid reason locked expires db =
     (fst (update_rows (\<lambda>x. ir_id x = rid)
        (\<lambda>x. x\<lparr>ir_status := status_failed_retryable, ir_error_reason := Some reason,
               ir_locked_until := Some locked, ir_expires_at := expires, ir_updated_at := clock\<rparr>) db),
      None)"

text \<open>\<open>ord\<close> is the order in which the database lists rows of equal expiry.\<close>

definition sql_delete_expired ::
  "(idem_record list \<Rightarrow> idem_record list) \<Rightarrow> instant \<Rightarrow> int \<Rightarrow> idem_db \<Rightarrow> idem_db \<times> int" where
  "sql_delete_expired ord now limit db =
     (let n = (if limit \<le> 0 then 500 else nat limit);
          victims = map ir_id (take n (sort_key ir_expires_at
            (ord (filter (\<lambda>x. ir_expires_at x \<le> now) (db_rows db)))))
      in (db\<lparr>db_rows := filter (\<lambda>x. ir_id x \<notin> set victims) (db_rows db)\<rparr>,
          int (length (filter (\<lambda>x. ir_id x \<in> set victims) (db_rows db)))))"

definition sql_repo :: "idem_db idem_repo" where
  "sql_repo =
     \<lparr>rp_create_processing = sql_create_processing, rp_get = sql_get,
      rp_try_reclaim = sql_try_reclaim, rp_extend_lock = sql_extend_lock,
      rp_mark_succeeded = sql_mark_succeeded, rp_mark_failed = sql_mark_failed\<rparr>"

lemmas sql_defs = sql_create_processing_def sql_get_def sql_try_reclaim_def sql_extend_lock_def
  sql_mark_succeeded_def sql_mark_failed_def update_rows_def

definition empty_db :: idem_db where
  "empty_db = \<lparr>db_rows = [], db_next_id = 1\<rparr>"

text \<open>The batch size and the period of the cleanup service.\<close>

record cleanup_config =
  cl_interval_seconds :: int
  cl_batch_size :: int

definition new_idempotency_cleanup :: "cleanup_config option \<Rightarrow> duration \<times> int" where
  "new_idempotency_cleanup cfg =
     (case cfg of None \<Rightarrow> (60 * second, 500)
      | Some c \<Rightarrow>
          (if 0 < cl_interval_seconds c then cl_interval_seconds c * second else 60 * second,
           if 0 < cl_batch_size c then cl_batch_size c else 500))"

definition cleanup_once ::
  "(idem_record list \<Rightarrow> idem_record list) \<Rightarrow> instant \<Rightarrow> int \<Rightarrow> idem_db \<Rightarrow> idem_db" where
  "cleanup_once ord now batch db = fst (sql_delete_expired ord now batch db)"

end
