(* ===== verification/IdempotencyRuns.thy ===== *)
theory IdempotencyRuns
  imports Idempotency
begin

text \<open>
  Requests that run concurrently over one database: each step of the system is one
  repository call of one request, a renewal of a lease, a pass of the cleanup, a crash or
  the passing of time. The main result is that two requests never hold the record of a key
  together as long as they keep to their time limits.
\<close>

fun claimed :: "'d idem_pc \<Rightarrow> idem_ctx option" where
  "claimed (Idem_running c) = Some c"
| "claimed (Idem_mark_failed c e r b x) = Some c"
| "claimed (Idem_mark_succeeded c d b x) = Some c"
| "claimed _ = None"

fun pc_ctx :: "'d idem_pc \<Rightarrow> idem_ctx option" where
  "pc_ctx Idem_unkeyed = None"
| "pc_ctx (Idem_create c) = Some c"
| "pc_ctx (Idem_lookup c) = Some c"
| "pc_ctx (Idem_reclaim_expired c ex) = Some c"
| "pc_ctx (Idem_lookup_again c) = Some c"
| "pc_ctx (Idem_reclaim_failed c ex) = Some c"
| "pc_ctx (Idem_running c) = Some c"
| "pc_ctx (Idem_mark_failed c e r b x) = Some c"
| "pc_ctx (Idem_mark_succeeded c d b x) = Some c"
| "pc_ctx (Idem_done res) = None"

fun pc_existing :: "'d idem_pc \<Rightarrow> (idem_ctx \<times> idem_record) option" where
  "pc_existing (Idem_reclaim_expired c ex) = Some (c, ex)"
| "pc_existing (Idem_reclaim_failed c ex) = Some (c, ex)"
| "pc_existing _ = None"

type_synonym 'd idem_sys = "instant \<times> idem_db \<times> (nat \<Rightarrow> 'd idem_pc)"

text \<open>A request that claims a record does so before the lock it sets would have run out.\<close>

definition timely :: "instant \<Rightarrow> 'd idem_pc \<Rightarrow> 'd idem_pc \<Rightarrow> bool" where
  "timely clock old new \<longleftrightarrow>
     (claimed old = None \<longrightarrow> (\<forall>c. claimed new = Some c \<longrightarrow> clock < ix_locked_until c))"

text \<open>No request is still at work when the record it holds has expired.\<close>

fun on_time :: "'d idem_sys \<Rightarrow> bool" where
  "on_time (t, db, ps) \<longleftrightarrow>
     (\<forall>p c x. claimed (ps p) = Some c \<longrightarrow> x \<in> set (db_rows db) \<longrightarrow>
        ir_id x = ir_id (ix_record c) \<longrightarrow> t < ir_expires_at x)"

inductive idem_sys_step ::
  "('p, 'd) idem_env \<Rightarrow> idem_config \<Rightarrow> 'd idem_sys \<Rightarrow> 'd idem_sys \<Rightarrow> bool" for env cfg where
  time: "t \<le> t' \<Longrightarrow> idem_sys_step env cfg (t, db, ps) (t', db, ps)"
| arrive: "ps p = Idem_done res \<Longrightarrow>
     idem_sys_step env cfg (t, db, ps) (t, db, ps(p := idem_start env cfg False False t opts))"
| call: "idem_step env cfg sql_repo t outcome (ps p, db) = (pc, db') \<Longrightarrow> timely t (ps p) pc \<Longrightarrow>
     idem_sys_step env cfg (t, db, ps) (t, db', ps(p := pc))"
| renew: "ps p = Idem_running c \<Longrightarrow> ix_bounded c \<Longrightarrow>
     idem_sys_step env cfg (t, db, ps) (t, fst (idem_renew cfg sql_repo t c db), ps)"
| cleanup: "(\<And>xs. mset (ord xs) = mset xs) \<Longrightarrow>
     idem_sys_step env cfg (t, db, ps) (t, cleanup_once ord t batch db, ps)"
| crash: "idem_sys_step env cfg (t, db, ps) (t, db, ps(p := Idem_done res))"

inductive idem_reach :: "('p, 'd) idem_env \<Rightarrow> idem_config \<Rightarrow> 'd idem_sys \<Rightarrow> bool" for env cfg where
  init: "idem_reach env cfg (t, empty_db, \<lambda>_. Idem_done (Inl err_store_unavailable))"
| step: "idem_reach env cfg s \<Longrightarrow> idem_sys_step env cfg s s' \<Longrightarrow> on_time s' \<Longrightarrow> idem_reach env cfg s'"

section \<open>The invariant\<close>

definition same_key :: "idem_record \<Rightarrow> idem_record \<Rightarrow> bool" where
  "same_key x y \<longleftrightarrow> ir_scope x = ir_scope y \<and> ir_key_hash x = ir_key_hash y"

definition rows_ok :: "idem_db \<Rightarrow> bool" where
  "rows_ok db \<longleftrightarrow>
     (\<forall>x \<in> set (db_rows db). 0 < ir_id x \<and> ir_id x < db_next_id db) \<and> 0 < db_next_id db \<and>
     (\<forall>x \<in> set (db_rows db). \<forall>y \<in> set (db_rows db). ir_id x = ir_id y \<or> same_key x y \<longrightarrow> x = y)"

definition holds_row :: "idem_db \<Rightarrow> idem_ctx \<Rightarrow> bool" where
  "holds_row db c \<longleftrightarrow>
     (\<exists>x \<in> set (db_rows db). ir_id x = ir_id (ix_record c) \<and> ir_status x = status_processing \<and>
        same_key x (ix_record c))"

definition saw_row :: "idem_db \<Rightarrow> idem_ctx \<Rightarrow> idem_record \<Rightarrow> bool" where
  "saw_row db c ex \<longleftrightarrow>
     0 < ir_id ex \<and> ir_id ex < db_next_id db \<and> same_key ex (ix_record c) \<and>
     (\<forall>x \<in> set (db_rows db). ir_id x = ir_id ex \<longrightarrow> same_key x ex)"

text \<open>A claimed record is locked for longer than any other request that read it as expired
  can see.\<close>

definition guarded :: "idem_db \<Rightarrow> idem_ctx \<Rightarrow> idem_record \<Rightarrow> bool" where
  "guarded db c ex \<longleftrightarrow>
     (\<forall>x \<in> set (db_rows db). ir_id x = ir_id ex \<longrightarrow>
        (\<exists>t. ir_locked_until x = Some t \<and> ix_now c < t))"

definition ctx_ok :: "instant \<Rightarrow> idem_ctx \<Rightarrow> bool" where
  "ctx_ok t c \<longleftrightarrow> ix_now c \<le> t \<and> ir_status (ix_record c) = status_processing"

fun idem_inv :: "'d idem_sys \<Rightarrow> bool" where
  "idem_inv (t, db, ps) \<longleftrightarrow>
     rows_ok db \<and>
     (\<forall>p c. pc_ctx (ps p) = Some c \<longrightarrow> ctx_ok t c) \<and>
     (\<forall>p c. claimed (ps p) = Some c \<longrightarrow> holds_row db c) \<and>
     (\<forall>p q c d. claimed (ps p) = Some c \<longrightarrow> claimed (ps q) = Some d \<longrightarrow>
        ir_id (ix_record c) = ir_id (ix_record d) \<longrightarrow> p = q) \<and>
     (\<forall>p c ex. pc_existing (ps p) = Some (c, ex) \<longrightarrow> saw_row db c ex) \<and>
     (\<forall>p q c d ex. ps q = Idem_reclaim_expired c ex \<longrightarrow> claimed (ps p) = Some d \<longrightarrow>
        ir_id (ix_record d) = ir_id ex \<longrightarrow> guarded db c ex)"

lemma idem_invI:
  assumes "rows_ok db" "\<And>p c. pc_ctx (ps p) = Some c \<Longrightarrow> ctx_ok t c"
    and "\<And>p c. claimed (ps p) = Some c \<Longrightarrow> holds_row db c"
    and "\<And>p q c d. claimed (ps p) = Some c \<Longrightarrow> claimed (ps q) = Some d \<Longrightarrow>
      ir_id (ix_record c) = ir_id (ix_record d) \<Longrightarrow> p = q"
    and "\<And>p c ex. pc_existing (ps p) = Some (c, ex) \<Longrightarrow> saw_row db c ex"
    and "\<And>p q c d ex. ps q = Idem_reclaim_expired c ex \<Longrightarrow> claimed (ps p) = Some d \<Longrightarrow>
      ir_id (ix_record d) = ir_id ex \<Longrightarrow> guarded db c ex"
  shows "idem_inv (t, db, ps)"
  using assms by auto

lemma idem_invD:
  assumes "idem_inv (t, db, ps)"
  shows "rows_ok db" "\<And>p c. pc_ctx (ps p) = Some c \<Longrightarrow> ctx_ok t c"
    and "\<And>p c. claimed (ps p) = Some c \<Longrightarrow> holds_row db c"
    and "\<And>p q c d. claimed (ps p) = Some c \<Longrightarrow> claimed (ps q) = Some d \<Longrightarrow>
      ir_id (ix_record c) = ir_id (ix_record d) \<Longrightarrow> p = q"
    and "\<And>p c ex. pc_existing (ps p) = Some (c, ex) \<Longrightarrow> saw_row db c ex"
    and "\<And>p q c d ex. ps q = Idem_reclaim_expired c ex \<Longrightarrow> claimed (ps p) = Some d \<Longrightarrow>
      ir_id (ix_record d) = ir_id ex \<Longrightarrow> guarded db c ex"
  using assms by (auto)

declare idem_inv.simps [simp del]

text \<open>A request that changes only its own program counter.\<close>

lemma idem_inv_local:
  assumes inv: "idem_inv (t, db, ps)"
    and ctx: "\<And>c. pc_ctx pc = Some c \<Longrightarrow> ctx_ok t c"
    and cl: "claimed pc = None \<or> (\<exists>c c'. claimed pc = Some c \<and> claimed (ps p) = Some c' \<and> ix_record c = ix_record c')"
    and ex: "\<And>c e. pc_existing pc = Some (c, e) \<Longrightarrow> saw_row db c e"
    and g: "\<And>c e q d. pc = Idem_reclaim_expired c e \<Longrightarrow> claimed (ps q) = Some d \<Longrightarrow>
      ir_id (ix_record d) = ir_id e \<Longrightarrow> guarded db c e"
  shows "idem_inv (t, db, ps(p := pc))"
proof -
  note d = idem_invD [OF inv]
  have cl': "\<exists>c'. claimed (ps q) = Some c' \<and> ix_record c = ix_record c'"
    if "claimed ((ps(p := pc)) q) = Some c" for q c
    using that cl by (cases "q = p") auto
  show ?thesis
  proof (rule idem_invI)
    fix q c assume "pc_ctx ((ps(p := pc)) q) = Some c"
    then show "ctx_ok t c" using ctx d(2) by (cases "q = p") auto
  next
    fix q c assume "claimed ((ps(p := pc)) q) = Some c"
    from cl' [OF this] show "holds_row db c" using d(3) by (auto simp: holds_row_def)
  next
    fix q r c e assume a: "claimed ((ps(p := pc)) q) = Some c" "claimed ((ps(p := pc)) r) = Some e"
      "ir_id (ix_record c) = ir_id (ix_record e)"
    from cl' [OF a(1)] obtain c' where c': "claimed (ps q) = Some c'" "ix_record c = ix_record c'" by blast
    from cl' [OF a(2)] obtain e' where e': "claimed (ps r) = Some e'" "ix_record e = ix_record e'" by blast
    show "q = r" by (rule d(4) [OF c'(1) e'(1)]) (use a(3) in \<open>simp only: c'(2) e'(2)\<close>)
  next
    fix q c e assume "pc_existing ((ps(p := pc)) q) = Some (c, e)"
    then show "saw_row db c e" using ex d(5) by (cases "q = p") auto
  next
    fix q r c e f assume a: "(ps(p := pc)) r = Idem_reclaim_expired c f"
      "claimed ((ps(p := pc)) q) = Some e" "ir_id (ix_record e) = ir_id f"
    from cl' [OF a(2)] obtain e' where e': "claimed (ps q) = Some e'" "ix_record e = ix_record e'" by blast
    show "guarded db c f"
    proof (cases "r = p")
      case True
      with a e' g show ?thesis by auto
    next
      case False
      with a e' d(6) [of r c f q e'] show ?thesis by simp
    qed
  qed (rule d(1))
qed

section \<open>Updates of rows\<close>

definition keeps_key :: "(idem_record \<Rightarrow> idem_record) \<Rightarrow> bool" where
  "keeps_key f \<longleftrightarrow> (\<forall>x. ir_id (f x) = ir_id x \<and> ir_scope (f x) = ir_scope x \<and>
     ir_key_hash (f x) = ir_key_hash x)"

lemma update_rows_set:
  "set (db_rows (fst (update_rows P f db))) = (\<lambda>x. if P x then f x else x) ` set (db_rows db)"
  by (simp add: update_rows_def)

lemma update_rows_next [simp]: "db_next_id (fst (update_rows P f db)) = db_next_id db"
  by (simp add: update_rows_def)

lemma rows_ok_update:
  assumes "keeps_key f" "rows_ok db"
  shows "rows_ok (fst (update_rows P f db))"
proof -
  let ?g = "\<lambda>x. if P x then f x else x"
  have k: "ir_id (?g x) = ir_id x" "ir_scope (?g x) = ir_scope x" "ir_key_hash (?g x) = ir_key_hash x" for x
    using assms(1) by (auto simp: keeps_key_def)
  have "?g x = ?g y" if "x \<in> set (db_rows db)" "y \<in> set (db_rows db)"
    "ir_id (?g x) = ir_id (?g y) \<or> same_key (?g x) (?g y)" for x y
  proof -
    from that(3) have "ir_id x = ir_id y \<or> same_key x y" unfolding same_key_def k .
    with assms(2) that(1,2) have "x = y" by (auto simp: rows_ok_def)
    then show ?thesis by simp
  qed
  moreover have "0 < ir_id (?g x) \<and> ir_id (?g x) < db_next_id db" if "x \<in> set (db_rows db)" for x
    using assms(2) that unfolding k by (simp add: rows_ok_def)
  ultimately show ?thesis
    using assms(2) unfolding rows_ok_def update_rows_set update_rows_next ball_simps by blast
qed

lemma saw_row_update: "keeps_key f \<Longrightarrow> saw_row db c ex \<Longrightarrow> saw_row (fst (update_rows P f db)) c ex"
  unfolding saw_row_def update_rows_set by (auto simp: keeps_key_def same_key_def)

lemma holds_row_update:
  assumes "keeps_key f" "holds_row db c"
    and "\<And>x. x \<in> set (db_rows db) \<Longrightarrow> P x \<Longrightarrow> ir_id x = ir_id (ix_record c) \<Longrightarrow> ir_status (f x) = status_processing"
  shows "holds_row (fst (update_rows P f db)) c"
proof -
  from assms(2) obtain x where x: "x \<in> set (db_rows db)" "ir_id x = ir_id (ix_record c)"
    "ir_status x = status_processing" "same_key x (ix_record c)" by (auto simp: holds_row_def)
  then show ?thesis
    using assms(1,3) unfolding holds_row_def update_rows_set
    by (intro bexI [of _ "if P x then f x else x"]) (auto simp: keeps_key_def same_key_def)
qed

lemma guarded_update:
  assumes "keeps_key f" "guarded db c ex"
    and "\<And>x. x \<in> set (db_rows db) \<Longrightarrow> P x \<Longrightarrow> ir_id x = ir_id ex \<Longrightarrow> \<exists>t. ir_locked_until (f x) = Some t \<and> ix_now c < t"
  shows "guarded (fst (update_rows P f db)) c ex"
  using assms unfolding guarded_def update_rows_set by (auto simp: keeps_key_def)

lemma keeps_key_sql [simp]:
  "keeps_key (\<lambda>x. x\<lparr>ir_status := s, ir_locked_until := l, ir_error_reason := e, ir_updated_at := u, ir_expires_at := ee\<rparr>)"
  "keeps_key (\<lambda>x. x\<lparr>ir_locked_until := l, ir_expires_at := ee, ir_updated_at := u\<rparr>)"
  "keeps_key (\<lambda>x. x\<lparr>ir_status := s, ir_response_status := rs, ir_response_body := rb, ir_error_reason := e, ir_locked_until := l, ir_expires_at := ee, ir_updated_at := u\<rparr>)"
  "keeps_key (\<lambda>x. x\<lparr>ir_status := s, ir_error_reason := e, ir_locked_until := l, ir_expires_at := ee, ir_updated_at := u\<rparr>)"
  by (simp_all add: keeps_key_def)

text \<open>A request that finishes by updating the row it holds.\<close>

lemma idem_inv_finish:
  assumes inv: "idem_inv (t, db, ps)" and c: "claimed (ps p) = Some c" and f: "keeps_key f"
    and pc: "pc_ctx pc = None" "claimed pc = None" "pc_existing pc = None"
  shows "idem_inv (t, fst (update_rows (\<lambda>x. ir_id x = ir_id (ix_record c)) f db), ps(p := pc))"
proof -
  note d = idem_invD [OF inv]
  have other: "q \<noteq> p \<and> claimed (ps q) = Some e \<and> ir_id (ix_record e) \<noteq> ir_id (ix_record c)"
    if "claimed ((ps(p := pc)) q) = Some e" for q e
    using that pc(2) d(4) [of q e p c] c by (auto split: if_splits)
  show ?thesis
  proof (rule idem_invI)
    show "rows_ok (fst (update_rows (\<lambda>x. ir_id x = ir_id (ix_record c)) f db))"
      by (rule rows_ok_update [OF f d(1)])
  next
    fix q e assume "pc_ctx ((ps(p := pc)) q) = Some e"
    then show "ctx_ok t e" using d(2) pc(1) by (auto split: if_splits)
  next
    fix q e assume "claimed ((ps(p := pc)) q) = Some e"
    with other [OF this] d(3) show "holds_row (fst (update_rows (\<lambda>x. ir_id x = ir_id (ix_record c)) f db)) e"
      by (intro holds_row_update [OF f]) auto
  next
    fix q r e g assume "claimed ((ps(p := pc)) q) = Some e" "claimed ((ps(p := pc)) r) = Some g"
      "ir_id (ix_record e) = ir_id (ix_record g)"
    with other [of q e] other [of r g] d(4) show "q = r" by blast
  next
    fix q e ex assume "pc_existing ((ps(p := pc)) q) = Some (e, ex)"
    with pc(3) d(5) show "saw_row (fst (update_rows (\<lambda>x. ir_id x = ir_id (ix_record c)) f db)) e ex"
      by (intro saw_row_update [OF f]) (auto split: if_splits)
  next
    fix q r e g ex assume a: "(ps(p := pc)) r = Idem_reclaim_expired e ex"
      "claimed ((ps(p := pc)) q) = Some g" "ir_id (ix_record g) = ir_id ex"
    with other [OF a(2)] d(6) [of r e ex q g] pc(3)
    show "guarded (fst (update_rows (\<lambda>x. ir_id x = ir_id (ix_record c)) f db)) e ex"
      by (intro guarded_update [OF f]) (auto split: if_splits)
  qed
qed

section \<open>Claims\<close>

lemma rows_unique:
  "rows_ok db \<Longrightarrow> x \<in> set (db_rows db) \<Longrightarrow> y \<in> set (db_rows db) \<Longrightarrow> ir_id x = ir_id y \<Longrightarrow> x = y"
  by (auto simp: rows_ok_def)

lemma idem_inv_reclaim:
  assumes inv: "idem_inv (t, db, ps)" and ex: "pc_existing (ps p) = Some (c, ex)" "pc_ctx (ps p) = Some c"
    and P: "\<And>x. P x \<Longrightarrow> ir_id x = ir_id ex" and taken: "x \<in> set (db_rows db)" "P x"
    and f: "keeps_key f" "\<And>x. ir_status (f x) = status_processing"
      "\<And>x. ir_locked_until (f x) = Some (ix_locked_until c)" and timely: "t < ix_locked_until c"
    and alone: "\<And>q d. claimed (ps q) = Some d \<Longrightarrow> ir_id (ix_record d) \<noteq> ir_id ex"
  defines "c' \<equiv> c\<lparr>ix_record := (ix_record c)\<lparr>ir_id := ir_id ex\<rparr>\<rparr>"
  shows "idem_inv (t, fst (update_rows P f db), ps(p := Idem_running c'))" (is "idem_inv (t, ?db, ?ps)")
proof -
  note d = idem_invD [OF inv]
  from d(5) [OF ex(1)] have saw: "saw_row db c ex" .
  have id': "ir_id (ix_record c') = ir_id ex" by (simp add: c'_def)
  have cl: "(q = p \<and> e = c') \<or> (q \<noteq> p \<and> claimed (ps q) = Some e \<and> ir_id (ix_record e) \<noteq> ir_id ex)"
    if "claimed (?ps q) = Some e" for q e
    using that alone by (cases "q = p") auto
  show ?thesis
  proof (rule idem_invI)
    show "rows_ok ?db" by (rule rows_ok_update [OF f(1) d(1)])
  next
    fix q e assume "pc_ctx (?ps q) = Some e"
    then show "ctx_ok t e" using d(2) [of q e] d(2) [OF ex(2)] by (cases "q = p") (auto simp: ctx_ok_def c'_def)
  next
    fix q e assume "claimed (?ps q) = Some e"
    from cl [OF this] show "holds_row ?db e"
    proof
      assume "q = p \<and> e = c'"
      moreover have "f x \<in> set (db_rows ?db)"
        unfolding update_rows_set using taken by (auto intro!: image_eqI [of _ _ x])
      moreover have "same_key x ex" using saw taken P by (auto simp: saw_row_def)
      ultimately show ?thesis
        using f P [OF taken(2)] saw
        by (auto simp: holds_row_def keeps_key_def same_key_def saw_row_def c'_def intro!: bexI [of _ "f x"])
    next
      assume "q \<noteq> p \<and> claimed (ps q) = Some e \<and> ir_id (ix_record e) \<noteq> ir_id ex"
      then show ?thesis using d(3) P by (intro holds_row_update [OF f(1)]) auto
    qed
  next
    fix q r e g assume a: "claimed (?ps q) = Some e" "claimed (?ps r) = Some g"
      "ir_id (ix_record e) = ir_id (ix_record g)"
    show "q = r" using cl [OF a(1)] cl [OF a(2)] a(3) id' d(4) [of q e r g] by auto
  next
    fix q e ex' assume "pc_existing (?ps q) = Some (e, ex')"
    then show "saw_row ?db e ex'" using d(5) by (intro saw_row_update [OF f(1)]) (auto split: if_splits)
  next
    fix q r e g ex' assume a: "?ps r = Idem_reclaim_expired e ex'" "claimed (?ps q) = Some g"
      "ir_id (ix_record g) = ir_id ex'"
    from a(1) have r: "ps r = Idem_reclaim_expired e ex'" by (auto split: if_splits)
    then have now: "ix_now e \<le> t" using d(2) [of r e] by (simp add: ctx_ok_def)
    from cl [OF a(2)] show "guarded ?db e ex'"
    proof
      assume "q = p \<and> g = c'"
      with a(3) id' have "ir_id ex' = ir_id ex" by simp
      moreover have "y = x" if "y \<in> set (db_rows db)" "ir_id y = ir_id ex" for y
        using rows_unique [OF d(1) that(1) taken(1)] that(2) P [OF taken(2)] by simp
      ultimately show ?thesis
        using taken f(1,3) now timely unfolding guarded_def update_rows_set
        by (auto simp: keeps_key_def split: if_splits)
    next
      assume "q \<noteq> p \<and> claimed (ps q) = Some g \<and> ir_id (ix_record g) \<noteq> ir_id ex"
      with a(3) d(6) [OF r, of q g] P show ?thesis
        by (intro guarded_update [OF f(1)]) auto
    qed
  qed
qed

lemma sql_try_reclaim_eq:
  "sql_try_reclaim clock rid from now locked expires db =
     (let u = update_rows (\<lambda>x. ir_id x = rid \<and> ir_status x = from \<and>
            (case ir_locked_until x of None \<Rightarrow> True | Some t \<Rightarrow> t \<le> now))
       (\<lambda>x. x\<lparr>ir_status := status_processing, ir_locked_until := Some locked,
              ir_error_reason := None, ir_updated_at := clock, ir_expires_at := expires\<rparr>) db
      in (fst u, Inr (snd u)))"
  by (simp add: sql_try_reclaim_def Let_def prod_eq_iff)

lemma update_rows_none: "\<not> snd (update_rows P f db) \<Longrightarrow> fst (update_rows P f db) = db"
  by (cases db) (auto simp: update_rows_def list_ex_iff map_idI)

lemma update_rows_some: "snd (update_rows P f db) \<Longrightarrow> \<exists>x \<in> set (db_rows db). P x"
  by (simp add: update_rows_def list_ex_iff)

lemma idem_inv_create:
  assumes inv: "idem_inv (t, db, ps)" and p: "ps p = Idem_create c"
    and new: "\<not> list_ex (\<lambda>x. ir_scope x = ir_scope (ix_record c) \<and> ir_key_hash x = ir_key_hash (ix_record c)) (db_rows db)"
    and db': "db' = db\<lparr>db_rows := db_rows db @ [row], db_next_id := db_next_id db + 1\<rparr>"
    and row: "ir_id row = db_next_id db" "ir_status row = status_processing" "same_key row (ix_record c')"
      "ir_id (ix_record c') = db_next_id db" "same_key (ix_record c') (ix_record c)" "ctx_ok t c'"
  shows "idem_inv (t, db', ps(p := Idem_running c'))" (is "idem_inv (t, db', ?ps)")
proof -
  note d = idem_invD [OF inv]
  have set': "set (db_rows db') = insert row (set (db_rows db))" "db_next_id db' = db_next_id db + 1"
    by (simp_all add: db')
  have old: "ir_id x < db_next_id db" if "x \<in> set (db_rows db)" for x
    using d(1) that by (simp add: rows_ok_def)
  have cl: "(q = p \<and> e = c') \<or> (q \<noteq> p \<and> claimed (ps q) = Some e \<and> ir_id (ix_record e) < db_next_id db)"
    if "claimed (?ps q) = Some e" for q e
  proof (cases "q = p")
    case False
    with that have "claimed (ps q) = Some e" by simp
    from d(3) [OF this] obtain x where "x \<in> set (db_rows db)" "ir_id x = ir_id (ix_record e)"
      by (auto simp: holds_row_def)
    with old [of x] that False show ?thesis by auto
  qed (use that in simp)
  have nk: "\<not> same_key x row" "\<not> same_key row x" if "x \<in> set (db_rows db)" for x
    using new that row(3,5) by (auto simp: list_ex_iff same_key_def)
  show ?thesis
  proof (rule idem_invI)
    show "rows_ok db'"
      unfolding rows_ok_def set'
    proof (intro conjI ballI impI)
      fix x y assume a: "x \<in> insert row (set (db_rows db))" "y \<in> insert row (set (db_rows db))"
        "ir_id x = ir_id y \<or> same_key x y"
      show "x = y"
        using a d(1) nk old [of x] old [of y] row(1) unfolding rows_ok_def by fastforce
    qed (use d(1) old row(1) in \<open>fastforce simp: rows_ok_def\<close>)+
  next
    fix q e assume "pc_ctx (?ps q) = Some e"
    then show "ctx_ok t e" using d(2) row(6) by (cases "q = p") auto
  next
    fix q e assume "claimed (?ps q) = Some e"
    from cl [OF this] show "holds_row db' e"
      using row d(3) [of q e] unfolding holds_row_def set' by auto
  next
    fix q r e g assume a: "claimed (?ps q) = Some e" "claimed (?ps r) = Some g"
      "ir_id (ix_record e) = ir_id (ix_record g)"
    show "q = r" using cl [OF a(1)] cl [OF a(2)] a(3) row(4) d(4) [of q e r g] by auto
  next
    fix q e ex' assume "pc_existing (?ps q) = Some (e, ex')"
    then have "saw_row db e ex'" using d(5) by (auto split: if_splits)
    then show "saw_row db' e ex'" using row(1) unfolding saw_row_def set' by auto
  next
    fix q r e g ex' assume a: "?ps r = Idem_reclaim_expired e ex'" "claimed (?ps q) = Some g"
      "ir_id (ix_record g) = ir_id ex'"
    from a(1) have r: "ps r = Idem_reclaim_expired e ex'" by (auto split: if_splits)
    then have "saw_row db e ex'" using d(5) [of r e ex'] by simp
    then have ne: "ir_id ex' < db_next_id db" by (simp add: saw_row_def)
    with cl [OF a(2)] a(3) row(4) have "claimed (ps q) = Some g" by auto
    from d(6) [OF r this a(3)] ne row(1) show "guarded db' e ex'" unfolding guarded_def set' by auto
  qed
qed

lemma idem_inv_cleanup:
  assumes inv: "idem_inv (t, db, ps)" and time: "on_time (t, db, ps)" and ord: "\<And>xs. mset (ord xs) = mset xs"
  shows "idem_inv (t, cleanup_once ord t batch db, ps)"
proof -
  note d = idem_invD [OF inv]
  let ?n = "if batch \<le> 0 then 500 else nat batch"
  let ?V = "map ir_id (take ?n (sort_key ir_expires_at (ord (filter (\<lambda>x. ir_expires_at x \<le> t) (db_rows db)))))"
  let ?db = "cleanup_once ord t batch db"
  have db: "db_rows ?db = filter (\<lambda>x. ir_id x \<notin> set ?V) (db_rows db)" "db_next_id ?db = db_next_id db"
    by (simp_all add: cleanup_once_def sql_delete_expired_def Let_def)
  have ords: "set (ord xs) = set xs" for xs using ord [of xs] by (metis set_mset_mset)
  have V: "\<exists>x \<in> set (db_rows db). ir_id x = i \<and> ir_expires_at x \<le> t" if "i \<in> set ?V" for i
    using that by (auto dest!: in_set_takeD simp: ords)
  have keep: "x \<in> set (db_rows ?db)"
    if "claimed (ps p) = Some c" "x \<in> set (db_rows db)" "ir_id x = ir_id (ix_record c)" for p c x
  proof -
    have "ir_id x \<notin> set ?V"
    proof
      assume "ir_id x \<in> set ?V"
      from V [OF this] obtain y where y: "y \<in> set (db_rows db)" "ir_id y = ir_id x" "ir_expires_at y \<le> t" by blast
      from time that have "t < ir_expires_at x" by simp
      with y rows_unique [OF d(1) y(1) that(2) y(2)] show False by simp
    qed
    with that(2) db(1) show ?thesis by simp
  qed
  have sub: "set (db_rows ?db) \<subseteq> set (db_rows db)" by (auto simp: db(1))
  show ?thesis
  proof (rule idem_invI)
    show "rows_ok ?db" using d(1) sub unfolding rows_ok_def db(2) by (simp add: subset_iff)
  next
    fix p c assume a: "claimed (ps p) = Some c"
    from d(3) [OF a] keep [OF a] show "holds_row ?db c" unfolding holds_row_def by blast
  next
    fix p c ex assume "pc_existing (ps p) = Some (c, ex)"
    from d(5) [OF this] sub show "saw_row ?db c ex" unfolding saw_row_def db(2) by blast
  next
    fix p q c e ex assume "ps q = Idem_reclaim_expired c ex" "claimed (ps p) = Some e"
      "ir_id (ix_record e) = ir_id ex"
    from d(6) [OF this] sub show "guarded ?db c ex" unfolding guarded_def by blast
  qed (use d in blast)+
qed

lemma idem_inv_renew:
  assumes inv: "idem_inv (t, db, ps)" and p: "ps p = Idem_running c"
  shows "idem_inv (t, fst (idem_renew cfg sql_repo t c db), ps)"
proof -
  note d = idem_invD [OF inv]
  let ?P = "\<lambda>x. ir_id x = ir_id (ix_record c) \<and> ir_status x = status_processing \<and>
    ir_fingerprint x = ir_fingerprint (ix_record c)"
  let ?f = "\<lambda>x. x\<lparr>ir_locked_until := Some (t + renew_lease cfg), ir_expires_at := t + ix_ttl c, ir_updated_at := t\<rparr>"
  have lease: "0 < renew_lease cfg"
    by (simp add: renew_lease_def default_idem_config_def second_def)
  have db: "fst (idem_renew cfg sql_repo t c db) = fst (update_rows ?P ?f db)"
    by (simp add: idem_renew_def sql_repo_def sql_extend_lock_def map_prod_def split: prod.splits)
  show ?thesis
    unfolding db
  proof (rule idem_invI)
    fix q r e g ex assume a: "ps r = Idem_reclaim_expired e ex" "claimed (ps q) = Some g"
      "ir_id (ix_record g) = ir_id ex"
    from d(2) [of r e] a(1) have "ix_now e \<le> t" by (simp add: ctx_ok_def)
    with lease show "guarded (fst (update_rows ?P ?f db)) e ex"
      by (intro guarded_update [OF keeps_key_sql(2) d(6) [OF a]]) auto
  qed (auto intro: rows_ok_update d saw_row_update holds_row_update)
qed

lemma idem_existing_cases:
  "(\<exists>res. idem_existing env c ex = Idem_done res) \<or> idem_existing env c ex = Idem_reclaim_failed c ex"
  by (auto simp: idem_existing_def idem_unavailable_def split: sum.splits)

lemma sql_get_saw:
  assumes "rows_ok db" "sql_get (ir_scope (ix_record c)) (ir_key_hash (ix_record c)) db = Inr (Some ex)"
  shows "saw_row db c ex" "ex \<in> set (db_rows db)"
proof -
  from assms(2) have ex: "ex \<in> set (db_rows db)" "same_key ex (ix_record c)"
    by (auto simp: sql_get_def find_Some_iff same_key_def)
  then show "ex \<in> set (db_rows db)" "saw_row db c ex"
    using assms(1) rows_unique [OF assms(1) _ ex(1)]
    by (auto simp: saw_row_def rows_ok_def) (metis same_key_def)
qed

lemma no_claim_failed:
  assumes inv: "idem_inv (t, db, ps)"
    and x: "x \<in> set (db_rows db)" "ir_id x = i" "ir_status x = status_failed_retryable"
  shows "claimed (ps q) = Some d \<Longrightarrow> ir_id (ix_record d) \<noteq> i"
proof
  assume a: "claimed (ps q) = Some d" "ir_id (ix_record d) = i"
  from idem_invD(3) [OF inv a(1)] obtain y where y: "y \<in> set (db_rows db)" "ir_id y = i"
    "ir_status y = status_processing" using a(2) by (auto simp: holds_row_def)
  from rows_unique [OF idem_invD(1) [OF inv] x(1) y(1)] x(2) y(2) have "x = y" by simp
  with x(3) y(3) show False by (simp add: status_defs)
qed

lemma no_claim_expired:
  assumes inv: "idem_inv (t, db, ps)" and p: "ps p = Idem_reclaim_expired c ex"
    and x: "x \<in> set (db_rows db)" "ir_id x = ir_id ex"
      "case ir_locked_until x of None \<Rightarrow> True | Some t \<Rightarrow> t \<le> ix_now c"
  shows "claimed (ps q) = Some d \<Longrightarrow> ir_id (ix_record d) \<noteq> ir_id ex"
  using idem_invD(6) [OF inv p, of q d] x by (fastforce simp: guarded_def)

lemma idem_inv_call:
  assumes inv: "idem_inv (t, db, ps)" and time: "on_time (t, db, ps)"
    and call: "idem_step env cfg sql_repo t outcome (ps p, db) = (pc, db')" and tm: "timely t (ps p) pc"
  shows "idem_inv (t, db', ps(p := pc))"
proof -
  note d = idem_invD [OF inv]
  have fin: "idem_inv (t, db, ps(p := Idem_done res))" for res
    by (rule idem_inv_local [OF inv]) auto
  have unav: "idem_inv (t, db, ps(p := idem_unavailable e))" for e
    unfolding idem_unavailable_def by (rule fin)
  have existing: "idem_inv (t, db, ps(p := idem_existing env c ex))"
    if "pc_ctx (ps p) = Some c" "saw_row db c ex" for c ex
    using idem_existing_cases [of env c ex]
  proof
    assume "idem_existing env c ex = Idem_reclaim_failed c ex"
    then show ?thesis using d(2) [OF that(1)] that(2) by (intro idem_inv_local [OF inv]) auto
  qed (auto simp: fin)
  show ?thesis
  proof (cases "ps p")
    case Idem_unkeyed
    with call fin show ?thesis by auto
  next
    case (Idem_create c)
    have c: "ctx_ok t c" using d(2) [of p c] Idem_create by simp
    show ?thesis
    proof (cases "list_ex (\<lambda>x. ir_scope x = ir_scope (ix_record c) \<and> ir_key_hash x = ir_key_hash (ix_record c)) (db_rows db)")
      case True
      with call Idem_create have "pc = Idem_lookup (c\<lparr>ix_record := ix_record c\<rparr>)" "db' = db"
        by (auto simp: sql_repo_def sql_create_processing_def)
      with c show ?thesis by (auto intro: idem_inv_local [OF inv])
    next
      case False
      let ?rec = "(ix_record c)\<lparr>ir_id := db_next_id db, ir_created_at := t, ir_updated_at := t\<rparr>"
      let ?c = "c\<lparr>ix_record := ?rec\<rparr>"
      have nz: "db_next_id db \<noteq> 0" using d(1) by (simp add: rows_ok_def)
      from False call Idem_create nz have "pc = Idem_running (?c\<lparr>ix_record := ?rec\<lparr>ir_id := db_next_id db\<rparr>\<rparr>)"
        and db': "db' = db\<lparr>db_rows := db_rows db @ [?rec\<lparr>ir_response_status := None, ir_response_body := None,
            ir_error_reason := None\<rparr>], db_next_id := db_next_id db + 1\<rparr>"
        by (auto simp: sql_repo_def sql_create_processing_def idem_enter_def Let_def)
      then have pc: "pc = Idem_running ?c" by simp
      show ?thesis unfolding pc
        by (rule idem_inv_create [OF inv Idem_create False db'])
           (use c in \<open>auto simp: ctx_ok_def same_key_def\<close>)
    qed
  next
    case (Idem_lookup c)
    have ctx: "pc_ctx (ps p) = Some c" using Idem_lookup by simp
    from d(2) [OF ctx] have now: "ix_now c \<le> t" by (simp add: ctx_ok_def)
    show ?thesis
    proof (cases "find (\<lambda>x. ir_scope x = ir_scope (ix_record c) \<and> ir_key_hash x = ir_key_hash (ix_record c)) (db_rows db)")
      case None
      with call Idem_lookup fin show ?thesis by (auto simp: sql_repo_def sql_get_def)
    next
      case (Some ex)
      then have "sql_get (ir_scope (ix_record c)) (ir_key_hash (ix_record c)) db = Inr (Some ex)"
        by (simp add: sql_get_def)
      note saw = sql_get_saw [OF d(1) this]
      from Some call Idem_lookup have pc: "pc = idem_found env c ex" "db' = db"
        by (auto simp: sql_repo_def sql_get_def)
      have "idem_inv (t, db, ps(p := Idem_reclaim_expired c ex))" if "ir_expires_at ex \<le> ix_now c"
      proof (rule idem_inv_local [OF inv])
        fix c' e q g assume a: "Idem_reclaim_expired c ex = Idem_reclaim_expired c' e"
          "claimed (ps q) = Some g" "ir_id (ix_record g) = ir_id e"
        with time saw(2) have "t < ir_expires_at ex" by auto
        with that now show "guarded db c' e" by simp
      qed (use saw(1) d(2) [OF ctx] in auto)
      with existing [OF ctx saw(1)] fin pc show ?thesis by (simp add: idem_found_def)
    qed
  next
    case (Idem_reclaim_expired c ex)
    have ctx: "pc_ctx (ps p) = Some c" "pc_existing (ps p) = Some (c, ex)" using Idem_reclaim_expired by auto
    let ?P = "\<lambda>x. ir_id x = ir_id ex \<and> ir_status x = ir_status ex \<and>
      (case ir_locked_until x of None \<Rightarrow> True | Some t \<Rightarrow> t \<le> ix_now c)"
    let ?f = "\<lambda>x. x\<lparr>ir_status := status_processing, ir_locked_until := Some (ix_locked_until c),
      ir_error_reason := None, ir_updated_at := t, ir_expires_at := ix_expires_at c\<rparr>"
    from call Idem_reclaim_expired have db': "db' = fst (update_rows ?P ?f db)"
      and pc: "pc = (if snd (update_rows ?P ?f db) then idem_enter c (ir_id ex) else Idem_lookup_again c)"
      by (auto simp: sql_repo_def sql_try_reclaim_eq Let_def)
    show ?thesis
    proof (cases "snd (update_rows ?P ?f db)")
      case False
      with pc db' update_rows_none [OF False] d(2) [OF ctx(1)] show ?thesis
        by (auto intro: idem_inv_local [OF inv])
    next
      case True
      from update_rows_some [OF True] obtain x where x: "x \<in> set (db_rows db)" "?P x" by blast
      have nz: "ir_id ex \<noteq> 0" using d(5) [OF ctx(2)] by (simp add: saw_row_def)
      with True pc have pc': "pc = Idem_running (c\<lparr>ix_record := (ix_record c)\<lparr>ir_id := ir_id ex\<rparr>\<rparr>)"
        by (simp add: idem_enter_def)
      with tm Idem_reclaim_expired have lk: "t < ix_locked_until c" by (simp add: timely_def)
      show ?thesis unfolding pc' db'
        by (rule idem_inv_reclaim [where P = ?P and f = ?f, OF inv ctx(2,1) _ x _ _ _ lk])
           (use x no_claim_expired [OF inv Idem_reclaim_expired x(1)] in auto)
    qed
  next
    case (Idem_lookup_again c)
    have ctx: "pc_ctx (ps p) = Some c" using Idem_lookup_again by simp
    show ?thesis
    proof (cases "find (\<lambda>x. ir_scope x = ir_scope (ix_record c) \<and> ir_key_hash x = ir_key_hash (ix_record c)) (db_rows db)")
      case None
      with call Idem_lookup_again fin show ?thesis by (auto simp: sql_repo_def sql_get_def)
    next
      case (Some ex)
      then have "sql_get (ir_scope (ix_record c)) (ir_key_hash (ix_record c)) db = Inr (Some ex)"
        by (simp add: sql_get_def)
      from sql_get_saw(1) [OF d(1) this] existing [OF ctx] have "idem_inv (t, db, ps(p := idem_existing env c ex))"
        by blast
      with Some call Idem_lookup_again fin show ?thesis
        by (auto simp: sql_repo_def sql_get_def split: if_splits)
    qed
  next
    case (Idem_reclaim_failed c ex)
    have ctx: "pc_ctx (ps p) = Some c" "pc_existing (ps p) = Some (c, ex)" using Idem_reclaim_failed by auto
    let ?P = "\<lambda>x. ir_id x = ir_id ex \<and> ir_status x = status_failed_retryable \<and>
      (case ir_locked_until x of None \<Rightarrow> True | Some t \<Rightarrow> t \<le> ix_now c)"
    let ?f = "\<lambda>x. x\<lparr>ir_status := status_processing, ir_locked_until := Some (ix_locked_until c),
      ir_error_reason := None, ir_updated_at := t, ir_expires_at := ix_expires_at c\<rparr>"
    from call Idem_reclaim_failed have db': "db' = fst (update_rows ?P ?f db)"
      and pc: "pc = (if snd (update_rows ?P ?f db) then idem_enter c (ir_id ex)
        else Idem_done (Inl (conflict_with_retry_after err_in_progress (ir_locked_until ex) (ix_now c))))"
      by (auto simp: sql_repo_def sql_try_reclaim_eq Let_def)
    show ?thesis
    proof (cases "snd (update_rows ?P ?f db)")
      case False
      with pc db' update_rows_none [OF False] fin show ?thesis by simp
    next
      case True
      from update_rows_some [OF True] obtain x where x: "x \<in> set (db_rows db)" "?P x" by blast
      have nz: "ir_id ex \<noteq> 0" using d(5) [OF ctx(2)] by (simp add: saw_row_def)
      with True pc have pc': "pc = Idem_running (c\<lparr>ix_record := (ix_record c)\<lparr>ir_id := ir_id ex\<rparr>\<rparr>)"
        by (simp add: idem_enter_def)
      with tm Idem_reclaim_failed have lk: "t < ix_locked_until c" by (simp add: timely_def)
      show ?thesis unfolding pc' db'
        by (rule idem_inv_reclaim [where P = ?P and f = ?f, OF inv ctx(2,1) _ x _ _ _ lk])
           (use x no_claim_failed [OF inv x(1)] in auto)
    qed
  next
    case (Idem_running c)
    have ctx: "pc_ctx (ps p) = Some c" using Idem_running by simp
    have mark: "idem_inv (t, db, ps(p := pc'))"
      if "pc_ctx pc' = Some c" "claimed pc' = Some c" "pc_existing pc' = None"
        "\<And>c e. pc' \<noteq> Idem_reclaim_expired c e" for pc'
      using that d(2) [OF ctx] Idem_running by (intro idem_inv_local [OF inv]) auto
    from call Idem_running mark unav show ?thesis
      by (auto simp: Let_def idem_outcome_def split: sum.splits)
  next
    case (Idem_mark_failed c e r b x)
    from call Idem_mark_failed have "pc = Idem_done (Inl e)"
      "db' = fst (update_rows (\<lambda>x. ir_id x = ir_id (ix_record c))
         (\<lambda>y. y\<lparr>ir_status := status_failed_retryable, ir_error_reason := Some r,
               ir_locked_until := Some b, ir_expires_at := x, ir_updated_at := t\<rparr>) db)"
      by (auto simp: sql_repo_def sql_mark_failed_def)
    then show ?thesis
      using idem_inv_finish [OF inv, of p c _ "Idem_done (Inl e)"] Idem_mark_failed by simp
  next
    case (Idem_mark_succeeded c dt b x)
    from call Idem_mark_succeeded have "pc = Idem_done (Inr (dt, False))"
      "db' = fst (update_rows (\<lambda>x. ir_id x = ir_id (ix_record c))
         (\<lambda>y. y\<lparr>ir_status := status_succeeded, ir_response_status := Some 200, ir_response_body := Some b,
               ir_error_reason := None, ir_locked_until := None, ir_expires_at := x, ir_updated_at := t\<rparr>) db)"
      by (auto simp: sql_repo_def sql_mark_succeeded_def)
    then show ?thesis
      using idem_inv_finish [OF inv, of p c _ "Idem_done (Inr (dt, False))"] Idem_mark_succeeded by simp
  next
    case (Idem_done res)
    with call inv show ?thesis by auto
  qed
qed

section \<open>Reachable states\<close>

lemma idem_inv_done: "idem_inv (t, db, ps) \<Longrightarrow> idem_inv (t, db, ps(p := Idem_done res))"
  by (rule idem_inv_local) auto

lemma idem_start_ctx:
  "idem_start env cfg en rn now opts = pc \<Longrightarrow>
     claimed pc = None \<and> pc_existing pc = None \<and> (\<forall>c. pc_ctx pc = Some c \<longrightarrow> ctx_ok now c) \<and>
     (\<forall>c e. pc \<noteq> Idem_reclaim_expired c e)"
  by (auto simp: idem_start_def Let_def ctx_ok_def split: sum.splits if_splits)

lemma idem_inv_time: "idem_inv (t, db, ps) \<Longrightarrow> t \<le> t' \<Longrightarrow> idem_inv (t', db, ps)"
  by (rule idem_invI) (auto dest: idem_invD simp: ctx_ok_def)

lemma idem_inv_step:
  assumes "idem_sys_step env cfg s s'" "idem_inv s" "on_time s"
  shows "idem_inv s'"
  using assms
proof cases
  case (time t t' db ps)
  with assms(2) idem_inv_time show ?thesis by simp
next
  case (arrive ps p res t db opts)
  then show ?thesis
    using assms(2) idem_start_ctx [OF refl, of env cfg False False t opts]
    by (auto intro!: idem_inv_local)
next
  case (call t outcome ps p db pc db')
  with assms(2,3) idem_inv_call show ?thesis by (simp del: on_time.simps)
next
  case (renew ps p c t db)
  with assms(2) idem_inv_renew show ?thesis by simp
next
  case (cleanup ord t db ps batch)
  show ?thesis unfolding cleanup(2)
    by (rule idem_inv_cleanup [OF _ _ cleanup(3)]) (use assms(2,3) cleanup(1) in \<open>simp_all del: on_time.simps\<close>)
next
  case (crash t db ps p res)
  with assms(2) idem_inv_done show ?thesis by simp
qed

lemma idem_reach_inv: "idem_reach env cfg s \<Longrightarrow> idem_inv s \<and> on_time s"
proof (induction rule: idem_reach.induct)
  case (init t)
  then show ?case by (auto intro!: idem_invI simp: rows_ok_def empty_db_def)
next
  case (step s s')
  then show ?case using idem_inv_step by blast
qed

text \<open>C1: mutual exclusion. However requests, renewals, cleanup passes and crashes interleave
  at the granularity of single repository calls, at most one request at a time holds the
  record of a scope and key (is executing its business function or about to store its
  outcome), as long as requests claim a record before their lock would have run out and
  finish before the record expires.\<close>

theorem idempotency_mutual_exclusion:
  assumes "idem_reach env cfg (t, db, ps)"
    and "claimed (ps p) = Some c" "claimed (ps q) = Some d"
    and "ir_scope (ix_record c) = ir_scope (ix_record d)"
    and "ir_key_hash (ix_record c) = ir_key_hash (ix_record d)"
  shows "p = q"
proof -
  from idem_reach_inv [OF assms(1)] have inv: "idem_inv (t, db, ps)" by blast
  note d = idem_invD [OF inv]
  from d(3) [OF assms(2)] obtain x where x: "x \<in> set (db_rows db)" "ir_id x = ir_id (ix_record c)"
    "same_key x (ix_record c)" by (auto simp: holds_row_def)
  from d(3) [OF assms(3)] obtain y where y: "y \<in> set (db_rows db)" "ir_id y = ir_id (ix_record d)"
    "same_key y (ix_record d)" by (auto simp: holds_row_def)
  have "same_key x y" using x(3) y(3) assms(4,5) by (simp add: same_key_def)
  with d(1) x(1) y(1) have "x = y" unfolding rows_ok_def by blast
  with x(2) y(2) d(4) [OF assms(2,3)] show ?thesis by simp
qed

section \<open>A concrete instance\<close>

text \<open>Payloads and results are strings, JSON is the identity, hashes are the text itself.\<close>

definition plain_env :: "(string, string) idem_env" where
  "plain_env =
     \<lparr>ie_sha = (\<lambda>s. s), ie_upper = (\<lambda>s. s), ie_marshal_payload = Inr, ie_marshal = Inr,
      ie_unmarshal = Inr, ie_empty_object = ''{}'', ie_redact = (\<lambda>s. s)\<rparr>"

definition order_request :: "string idem_options" where
  "order_request =
     \<lparr>io_scope = ''orders'', io_actor_scope = ''u1'', io_method = ''POST'', io_route = ''/o'',
      io_key = ''k1'', io_payload = ''{}'', io_ttl = 0, io_require_key = True,
      io_execution_timeout = 0\<rparr>"

definition order_ctx :: "instant \<Rightarrow> int \<Rightarrow> instant \<Rightarrow> idem_ctx" where
  "order_ctx now rid created =
     \<lparr>ix_record = \<lparr>ir_id = rid, ir_scope = ''orders'', ir_key_hash = ''k1'',
        ir_fingerprint = ''POST'' @ [CHR 0x0A] @ ''/o'' @ [CHR 0x0A] @ ''u1'' @ [CHR 0x0A] @ ''{}'',
        ir_status = ''processing'', ir_response_status = None, ir_response_body = None,
        ir_error_reason = None, ir_locked_until = Some (now + 30 * second),
        ir_expires_at = now + 24 * hour, ir_created_at = created, ir_updated_at = created\<rparr>,
      ix_now = now, ix_locked_until = now + 30 * second, ix_expires_at = now + 24 * hour,
      ix_ttl = 24 * hour, ix_bounded = False\<rparr>"

lemma order_start:
  "idem_start plain_env default_idem_config False False now order_request = Idem_create (order_ctx now 0 0)"
proof -
  have "normalize_idempotency_key ''k1'' = Inr ''k1''" by code_simp
  moreover have "to_upper (\<lambda>s. s) ''POST'' = ''POST''" by code_simp
  ultimately show ?thesis
    by (simp add: idem_start_def order_request_def build_fingerprint_def plain_env_def order_ctx_def
        default_idem_config_def Let_def status_defs zero_time_def)
qed

lemma order_claims:
  "idem_reach plain_env default_idem_config
     (second, \<lparr>db_rows = [ix_record (order_ctx second 1 second)], db_next_id = 2\<rparr>,
      (\<lambda>_. Idem_done (Inl err_store_unavailable))(0 := Idem_running (order_ctx second 1 second)))"
proof -
  let ?e = plain_env and ?g = default_idem_config
  let ?ps = "\<lambda>_. Idem_done (Inl err_store_unavailable) :: string idem_pc"
  have 1: "idem_reach ?e ?g (second, empty_db, ?ps)" by (rule idem_reach.init)
  have "idem_sys_step ?e ?g (second, empty_db, ?ps)
      (second, empty_db, ?ps(0 := idem_start ?e ?g False False second order_request))"
    by (rule idem_sys_step.arrive) simp
  then have "idem_sys_step ?e ?g (second, empty_db, ?ps)
      (second, empty_db, ?ps(0 := Idem_create (order_ctx second 0 0)))"
    unfolding order_start .
  from idem_reach.step [OF 1 this]
  have 2: "idem_reach ?e ?g (second, empty_db, ?ps(0 := Idem_create (order_ctx second 0 0)))" by simp
  have st: "idem_step ?e ?g sql_repo second (Inr ''r'')
      ((?ps(0 := Idem_create (order_ctx second 0 0))) 0, empty_db) =
      (Idem_running (order_ctx second 1 second), \<lparr>db_rows = [ix_record (order_ctx second 1 second)], db_next_id = 2\<rparr>)"
    by (simp add: sql_repo_def sql_create_processing_def empty_db_def order_ctx_def idem_enter_def Let_def)
  have "idem_sys_step ?e ?g (second, empty_db, ?ps(0 := Idem_create (order_ctx second 0 0)))
     (second, \<lparr>db_rows = [ix_record (order_ctx second 1 second)], db_next_id = 2\<rparr>,
      (?ps(0 := Idem_create (order_ctx second 0 0)))(0 := Idem_running (order_ctx second 1 second)))"
    by (rule idem_sys_step.call [where p = 0 and ps = "?ps(0 := Idem_create (order_ctx second 0 0))", OF st]) (simp add: timely_def order_ctx_def second_def)
  from idem_reach.step [OF 2 this] show ?thesis by (simp add: order_ctx_def second_def hour_def)
qed

theorem idempotency_mutual_exclusion_witness:
  "\<exists>ps c. claimed (ps (0::nat)) = Some c \<and>
     (\<forall>q d. claimed (ps q :: string idem_pc) = Some d \<and> ir_scope (ix_record d) = ''orders'' \<and>
        ir_key_hash (ix_record d) = ''k1'' \<longrightarrow> q = 0)"
proof -
  let ?ps = "(\<lambda>_. Idem_done (Inl err_store_unavailable))(0 := Idem_running (order_ctx second 1 second)) :: nat \<Rightarrow> string idem_pc"
  have c: "claimed (?ps 0) = Some (order_ctx second 1 second)" by simp
  have "q = 0" if "claimed (?ps q) = Some d" "ir_scope (ix_record d) = ''orders''"
    "ir_key_hash (ix_record d) = ''k1''" for q d
    by (rule idempotency_mutual_exclusion [OF order_claims that(1) c])
       (simp_all add: that order_ctx_def)
  with c show ?thesis by blast
qed

end
