(* ===== verification/IdempotencyCalls.thy ===== *)
theory IdempotencyCalls
  imports IdempotencyRuns
begin

text \<open>
  Calls of \<open>Execute\<close> that run alone: they return, they replay what was stored, they refuse
  a key reused for another request, they back off after a failure; and the limits of the
  stored body and of the reclaim of expired records.
\<close>

section \<open>Every call returns\<close>

fun idem_rank :: "'d idem_pc \<Rightarrow> nat" where
  "idem_rank Idem_unkeyed = 1"
| "idem_rank (Idem_create c) = 7"
| "idem_rank (Idem_lookup c) = 6"
| "idem_rank (Idem_reclaim_expired c ex) = 5"
| "idem_rank (Idem_lookup_again c) = 4"
| "idem_rank (Idem_reclaim_failed c ex) = 3"
| "idem_rank (Idem_running c) = 2"
| "idem_rank (Idem_mark_failed c e r b x) = 1"
| "idem_rank (Idem_mark_succeeded c d b x) = 1"
| "idem_rank (Idem_done res) = 0"

lemma idem_rank_parts:
  "idem_rank (idem_unavailable e) = 0" "idem_rank (idem_enter c i) \<le> 2"
  "idem_rank (idem_existing env c ex) \<le> 3" "idem_rank (idem_found env c ex) \<le> 5"
proof -
  show a: "idem_rank (idem_unavailable e) = 0" for e by (simp add: idem_unavailable_def)
  show "idem_rank (idem_enter c i) \<le> 2" by (simp add: idem_enter_def)
  show b: "idem_rank (idem_existing env c ex) \<le> 3"
    by (simp add: idem_existing_def a split: sum.split)
  then show "idem_rank (idem_found env c ex) \<le> 5" by (simp add: idem_found_def)
qed

lemma idem_rank_bounds:
  "2 \<le> n \<Longrightarrow> idem_rank (idem_enter c i) \<le> n" "3 \<le> n \<Longrightarrow> idem_rank (idem_existing env c ex) \<le> n"
  "5 \<le> n \<Longrightarrow> idem_rank (idem_found env c ex) \<le> n"
  by (rule order_trans [OF idem_rank_parts(2)], assumption)
     (rule order_trans [OF idem_rank_parts(3)], assumption,
      rule order_trans [OF idem_rank_parts(4)], assumption)

lemma idem_rank_step:
  "idem_step env cfg repo now outcome (pc, r) = (pc', r') \<Longrightarrow> idem_rank pc' \<le> idem_rank pc - 1"
  by (cases pc) (auto simp: Let_def idem_outcome_def idem_rank_parts(1) split: sum.splits prod.splits option.splits if_splits
      intro: idem_rank_bounds)

lemma idem_rank_iterate:
  "idem_rank (fst ((idem_step env cfg repo now outcome ^^ n) (pc, r))) \<le> idem_rank pc - n"
proof (induction n)
  case 0
  then show ?case by simp
next
  case (Suc n)
  obtain pc1 r1 where s1: "(idem_step env cfg repo now outcome ^^ n) (pc, r) = (pc1, r1)" by fastforce
  obtain pc2 r2 where s2: "idem_step env cfg repo now outcome (pc1, r1) = (pc2, r2)" by fastforce
  from Suc.IH idem_rank_step [OF s2] s1 s2 show ?case by simp
qed


section \<open>The steps of a call\<close>

lemma idem_done_iterate [simp]:
  "(idem_step env cfg repo now outcome ^^ n) (Idem_done res, r) = (Idem_done res, r)"
  by (induction n) simp_all

lemma idem_execute_steps:
  "idem_execute env cfg repo now opts outcome r =
     (let f = idem_step env cfg repo now outcome in
      f (f (f (f (f (f (f (idem_start env cfg False False now opts, r))))))))"
  by (simp add: idem_execute_def eval_nat_numeral Let_def)

text \<open>A keyed request that passes the checks before the first repository call.\<close>

definition request_ttl :: "idem_config \<Rightarrow> 'p idem_options \<Rightarrow> duration" where
  "request_ttl cfg opts = (if io_ttl opts \<le> 0 then ic_default_ttl cfg else io_ttl opts)"

definition request_ok :: "('p, 'd) idem_env \<Rightarrow> 'p idem_options \<Rightarrow> string \<Rightarrow> string \<Rightarrow> bool" where
  "request_ok env opts key fp \<longleftrightarrow>
     normalize_idempotency_key (io_key opts) = Inr key \<and> key \<noteq> [] \<and> io_scope opts \<noteq> [] \<and>
     build_fingerprint env (io_method opts) (io_route opts) (io_actor_scope opts) (io_payload opts) = Inr fp"

definition request_ctx ::
  "('p, 'd) idem_env \<Rightarrow> idem_config \<Rightarrow> 'p idem_options \<Rightarrow> string \<Rightarrow> string \<Rightarrow> instant \<Rightarrow> idem_ctx" where
  "request_ctx env cfg opts key fp now =
     \<lparr>ix_record = \<lparr>ir_id = 0, ir_scope = io_scope opts, ir_key_hash = ie_sha env key,
        ir_fingerprint = fp, ir_status = status_processing, ir_response_status = None,
        ir_response_body = None, ir_error_reason = None,
        ir_locked_until = Some (now + ic_processing_timeout cfg),
        ir_expires_at = now + request_ttl cfg opts, ir_created_at = zero_time, ir_updated_at = zero_time\<rparr>,
      ix_now = now, ix_locked_until = now + ic_processing_timeout cfg,
      ix_expires_at = now + request_ttl cfg opts, ix_ttl = request_ttl cfg opts,
      ix_bounded = (0 < io_execution_timeout opts)\<rparr>"

lemma idem_start_request:
  "request_ok env opts key fp \<Longrightarrow>
     idem_start env cfg False False now opts = Idem_create (request_ctx env cfg opts key fp now)"
  by (simp add: idem_start_def request_ok_def request_ctx_def request_ttl_def Let_def)

definition row_of :: "string \<Rightarrow> string \<Rightarrow> idem_db \<Rightarrow> idem_record option" where
  "row_of scope key_hash db = find (\<lambda>x. ir_scope x = scope \<and> ir_key_hash x = key_hash) (db_rows db)"

lemma row_of_None:
  "row_of scope kh db = None \<longleftrightarrow> \<not> list_ex (\<lambda>x. ir_scope x = scope \<and> ir_key_hash x = kh) (db_rows db)"
  by (auto simp: row_of_def find_None_iff list_ex_iff)

lemma update_rows_in:
  "x \<in> set (db_rows db) \<Longrightarrow> P x \<Longrightarrow> f x \<in> set (db_rows (fst (update_rows P f db)))"
  unfolding update_rows_set by (rule image_eqI [of _ _ x]) simp_all

lemma find_append_None: "find P xs = None \<Longrightarrow> find P (xs @ ys) = find P ys"
  by (induction xs) (auto split: if_splits)

text \<open>A request whose record exists first finds out that it is not the owner.\<close>

lemma idem_execute_existing:
  assumes "request_ok env opts key fp" "row_of (io_scope opts) (ie_sha env key) db = Some ex"
  shows "idem_execute env cfg sql_repo now opts outcome db =
    (idem_step env cfg sql_repo now outcome ^^ 5) (idem_found env (request_ctx env cfg opts key fp now) ex, db)"
proof -
  define c where "c = request_ctx env cfg opts key fp now"
  have "list_ex (\<lambda>x. ir_scope x = io_scope opts \<and> ir_key_hash x = ie_sha env key) (db_rows db)"
    using assms(2) row_of_None [of "io_scope opts" "ie_sha env key" db] by simp
  then have 1: "idem_step env cfg sql_repo now outcome (Idem_create c, db) = (Idem_lookup c, db)"
    by (simp add: sql_repo_def sql_create_processing_def c_def request_ctx_def)
  have 2: "idem_step env cfg sql_repo now outcome (Idem_lookup c, db) = (idem_found env c ex, db)"
    using assms(2) by (simp add: sql_repo_def sql_get_def c_def request_ctx_def row_of_def)
  show ?thesis
    using idem_start_request [OF assms(1), of cfg now] 1 2
    by (simp add: idem_execute_steps c_def [symmetric] Let_def eval_nat_numeral)
qed

text \<open>What a call that owns a fresh record leaves behind.\<close>

definition owned_row ::
  "('p, 'd) idem_env \<Rightarrow> idem_config \<Rightarrow> 'p idem_options \<Rightarrow> string \<Rightarrow> string \<Rightarrow> instant \<Rightarrow> int \<Rightarrow> idem_record" where
  "owned_row env cfg opts key fp now rid =
     (ix_record (request_ctx env cfg opts key fp now))\<lparr>ir_id := rid, ir_created_at := now, ir_updated_at := now\<rparr>"

lemma update_new_row:
  assumes "rows_ok db" "ir_id row = db_next_id db" "keeps_key f"
  shows "db_rows (fst (update_rows (\<lambda>x. ir_id x = db_next_id db) f
     (db\<lparr>db_rows := db_rows db @ [row], db_next_id := db_next_id db + 1\<rparr>))) = db_rows db @ [f row]"
proof -
  have "ir_id x \<noteq> db_next_id db" if "x \<in> set (db_rows db)" for x
    using assms(1) that by (auto simp: rows_ok_def)
  then show ?thesis using assms(2) by (auto simp: update_rows_def intro: map_idI)
qed

lemma idem_execute_succeeds:
  assumes "request_ok env opts key fp" "row_of (io_scope opts) (ie_sha env key) db = None" "rows_ok db"
    and "marshal_stored_response env cfg d = Inr body"
  shows "\<exists>db'. idem_execute env cfg sql_repo now opts (Inr d) db = (Idem_done (Inr (d, False)), db') \<and>
    db_rows db' = db_rows db @ [(owned_row env cfg opts key fp now (db_next_id db))
      \<lparr>ir_status := status_succeeded, ir_response_status := Some 200, ir_response_body := Some body,
       ir_error_reason := None, ir_locked_until := None, ir_expires_at := now + request_ttl cfg opts,
       ir_updated_at := now\<rparr>]"
proof -
  let ?row = "owned_row env cfg opts key fp now (db_next_id db)"
  let ?c = "(request_ctx env cfg opts key fp now)\<lparr>ix_record := ?row\<rparr>"
  let ?f = "idem_step env cfg sql_repo now (Inr d)"
  let ?db = "db\<lparr>db_rows := db_rows db @ [?row], db_next_id := db_next_id db + 1\<rparr>"
  let ?db' = "fst (sql_mark_succeeded now (db_next_id db) 200 body (now + request_ttl cfg opts) ?db)"
  have nz: "db_next_id db \<noteq> 0" using assms(3) by (simp add: rows_ok_def)
  have 1: "?f (Idem_create (request_ctx env cfg opts key fp now), db) = (Idem_running ?c, ?db)"
    using assms(2) nz
    by (simp add: sql_repo_def sql_create_processing_def row_of_None request_ctx_def owned_row_def
        idem_enter_def Let_def)
  have 2: "?f (Idem_running ?c, ?db) = (Idem_mark_succeeded ?c d body (now + request_ttl cfg opts), ?db)"
    using assms(4) by (simp add: request_ctx_def idem_outcome_def Let_def)
  have 3: "?f (Idem_mark_succeeded ?c d body (now + request_ttl cfg opts), ?db) = (Idem_done (Inr (d, False)), ?db')"
    by (simp add: sql_repo_def owned_row_def sql_mark_succeeded_def)
  have "idem_execute env cfg sql_repo now opts (Inr d) db = (Idem_done (Inr (d, False)), ?db')"
    using idem_start_request [OF assms(1), of cfg now] 1 2 3
    by (simp add: idem_execute_steps Let_def)
  moreover have "db_rows ?db' = db_rows db @ [?row\<lparr>ir_status := status_succeeded, ir_response_status := Some 200,
       ir_response_body := Some body, ir_error_reason := None, ir_locked_until := None,
       ir_expires_at := now + request_ttl cfg opts, ir_updated_at := now\<rparr>]"
    using update_new_row [OF assms(3), of ?row] by (simp add: sql_mark_succeeded_def owned_row_def)
  ultimately show ?thesis by blast
qed

lemma row_of_append:
  "row_of scope kh db = None \<Longrightarrow> db_rows db' = db_rows db @ [row] \<Longrightarrow> ir_scope row = scope \<Longrightarrow>
     ir_key_hash row = kh \<Longrightarrow> row_of scope kh db' = Some row"
  by (simp add: row_of_def find_append_None)

section \<open>Replay, conflict and backoff\<close>


lemma order_request_ok:
  "request_ok plain_env order_request ''k1''
     (''POST'' @ [CHR 0x0A] @ ''/o'' @ [CHR 0x0A] @ ''u1'' @ [CHR 0x0A] @ ''{}'')"
proof -
  have "normalize_idempotency_key ''k1'' = Inr ''k1''" "to_upper (\<lambda>s. s) ''POST'' = ''POST''"
    by code_simp+
  then show ?thesis
    by (simp add: request_ok_def order_request_def build_fingerprint_def plain_env_def)
qed

lemma order_ttl [simp]: "request_ttl default_idem_config order_request = 24 * hour"
  by (simp add: request_ttl_def order_request_def default_idem_config_def)

lemma empty_db_ok [simp]: "rows_ok empty_db" "row_of s k empty_db = None"
  by (simp_all add: rows_ok_def empty_db_def row_of_def)


text \<open>a key belongs to one request. While an unexpired or an expired record of a scope
  and key exists, a call with the same key and a different request is refused with a
  conflict, never executes the business function and changes nothing.\<close>

theorem idem_execute_key_reuse:
  assumes "request_ok env opts key fp" "row_of (io_scope opts) (ie_sha env key) db = Some ex"
    and "ir_fingerprint ex \<noteq> fp"
  shows "idem_execute env cfg sql_repo now opts outcome db = (Idem_done (Inl err_key_conflict), db)"
  using idem_execute_existing [OF assms(1,2), of cfg now outcome] assms(3)
  by (simp add: idem_found_def request_ctx_def)

theorem idem_execute_key_reuse_witness:
  "idem_execute plain_env default_idem_config sql_repo 5 order_request (Inr ''x'')
     \<lparr>db_rows = [(ix_record (order_ctx 1 1 1))\<lparr>ir_fingerprint := ''other''\<rparr>], db_next_id = 2\<rparr> =
   (Idem_done (Inl err_key_conflict),
     \<lparr>db_rows = [(ix_record (order_ctx 1 1 1))\<lparr>ir_fingerprint := ''other''\<rparr>], db_next_id = 2\<rparr>)"
  by (rule idem_execute_key_reuse [OF order_request_ok,
      where ex = "(ix_record (order_ctx 1 1 1))\<lparr>ir_fingerprint := ''other''\<rparr>"])
     (simp_all add: row_of_def order_request_def order_ctx_def plain_env_def)

text \<open>after a failure the key backs off and then may be used again. A call that finds the
  record of a failed execution is refused without executing while the backoff lasts; from
  the end of the backoff on it executes the business function, and its success is stored.\<close>

theorem idem_execute_after_failure:
  assumes "request_ok env opts key fp" "rows_ok db"
    and "row_of (io_scope opts) (ie_sha env key) db = Some ex" "ir_fingerprint ex = fp"
    and "ir_status ex = status_failed_retryable" "ir_locked_until ex = Some until" "now < ir_expires_at ex"
    and "marshal_stored_response env cfg d = Inr body"
  shows "if now < until
    then idem_execute env cfg sql_repo now opts (Inr d) db =
      (Idem_done (Inl (conflict_with_retry_after err_retry_backoff (Some until) now)), db)
    else fst (idem_execute env cfg sql_repo now opts (Inr d) db) = Idem_done (Inr (d, False)) \<and>
      (\<exists>row. row_of (io_scope opts) (ie_sha env key) (snd (idem_execute env cfg sql_repo now opts (Inr d) db)) =
          Some row \<and> ir_status row = status_succeeded \<and> ir_response_body row = Some body)"
proof (cases "now < until")
  case True
  with assms idem_execute_existing [OF assms(1,3), of cfg now "Inr d"] show ?thesis
    by (simp add: idem_found_def request_ctx_def idem_existing_def status_defs)
next
  case False
  let ?c = "request_ctx env cfg opts key fp now"
  let ?f = "idem_step env cfg sql_repo now (Inr d)"
  let ?P = "\<lambda>x. ir_id x = ir_id ex \<and> ir_status x = status_failed_retryable \<and>
      (case ir_locked_until x of None \<Rightarrow> True | Some t \<Rightarrow> t \<le> now)"
  let ?g = "\<lambda>x. x\<lparr>ir_status := status_processing, ir_locked_until := Some (now + ic_processing_timeout cfg),
      ir_error_reason := None, ir_updated_at := now, ir_expires_at := now + request_ttl cfg opts\<rparr>"
  let ?h = "\<lambda>x. x\<lparr>ir_status := status_succeeded, ir_response_status := Some 200, ir_response_body := Some body,
      ir_error_reason := None, ir_locked_until := None, ir_expires_at := now + request_ttl cfg opts,
      ir_updated_at := now\<rparr>"
  let ?c' = "?c\<lparr>ix_record := (ix_record ?c)\<lparr>ir_id := ir_id ex\<rparr>\<rparr>"
  let ?db1 = "fst (update_rows ?P ?g db)"
  let ?db2 = "fst (update_rows (\<lambda>x. ir_id x = ir_id ex) ?h ?db1)"
  from assms(3) have ex: "ex \<in> set (db_rows db)" "ir_scope ex = io_scope opts" "ir_key_hash ex = ie_sha env key"
    by (auto simp: row_of_def find_Some_iff)
  with assms(2) have nz: "ir_id ex \<noteq> 0" by (auto simp: rows_ok_def)
  have taken: "snd (update_rows ?P ?g db)"
    using ex(1) assms(5,6) False by (auto simp: update_rows_def list_ex_iff intro!: bexI [of _ ex])
  have found: "idem_found env ?c ex = Idem_reclaim_failed ?c ex"
    using assms(4-7) False by (simp add: idem_found_def idem_existing_def request_ctx_def status_defs)
  have 1: "?f (Idem_reclaim_failed ?c ex, db) = (Idem_running ?c', ?db1)"
    using taken nz by (simp add: sql_repo_def sql_try_reclaim_eq Let_def idem_enter_def request_ctx_def)
  have 2: "?f (Idem_running ?c', ?db1) = (Idem_mark_succeeded ?c' d body (now + request_ttl cfg opts), ?db1)"
    using assms(8) by (simp add: request_ctx_def idem_outcome_def Let_def)
  have 3: "?f (Idem_mark_succeeded ?c' d body (now + request_ttl cfg opts), ?db1) = (Idem_done (Inr (d, False)), ?db2)"
    by (simp add: sql_repo_def sql_mark_succeeded_def)
  have res: "idem_execute env cfg sql_repo now opts (Inr d) db = (Idem_done (Inr (d, False)), ?db2)"
    using idem_execute_existing [OF assms(1,3), of cfg now "Inr d"] found 1 2 3
    by (simp add: eval_nat_numeral funpow_swap1 del: funpow.simps(2)) (simp add: funpow_swap1)
  have ok2: "rows_ok ?db2" using assms(2) by (intro rows_ok_update) (simp_all add: keeps_key_def)
  have "?h (?g ex) \<in> set (db_rows ?db2)"
  proof -
    have "?P ex" using assms(5,6) False by simp
    from update_rows_in [where P = ?P and f = ?g, OF ex(1) this] have "?g ex \<in> set (db_rows ?db1)" .
    from update_rows_in [where P = "\<lambda>x. ir_id x = ir_id ex" and f = ?h, OF this] show ?thesis by simp
  qed
  moreover have "row_of (io_scope opts) (ie_sha env key) ?db2 = Some y \<Longrightarrow> y = ?h (?g ex)" for y
    using ok2 calculation ex(2,3) by (auto simp: row_of_def find_Some_iff rows_ok_def same_key_def)
  ultimately have "row_of (io_scope opts) (ie_sha env key) ?db2 = Some (?h (?g ex))"
    using ex(2,3) by (cases "row_of (io_scope opts) (ie_sha env key) ?db2") (auto simp: row_of_None list_ex_iff)
  with res False show ?thesis by simp
qed

theorem idem_execute_after_failure_witness:
  "fst (idem_execute plain_env default_idem_config sql_repo 9 order_request (Inr ''x'')
     \<lparr>db_rows = [(ix_record (order_ctx 1 1 1))\<lparr>ir_status := ''failed_retryable'', ir_locked_until := Some 7\<rparr>],
      db_next_id = 2\<rparr>) = Idem_done (Inr (''x'', False))"
proof -
  let ?ex = "(ix_record (order_ctx 1 1 1))\<lparr>ir_status := ''failed_retryable'', ir_locked_until := Some 7\<rparr>"
  let ?db = "\<lparr>db_rows = [?ex], db_next_id = 2\<rparr>"
  have m: "marshal_stored_response plain_env default_idem_config ''x'' = Inr ''x''"
    by (simp add: marshal_stored_response_def plain_env_def default_idem_config_def Let_def)
  have "rows_ok ?db" "row_of (io_scope order_request) (ie_sha plain_env ''k1'') ?db = Some ?ex"
    by (simp_all add: rows_ok_def row_of_def order_ctx_def order_request_def plain_env_def)
  from idem_execute_after_failure [OF order_request_ok this, of 7 9, OF _ _ _ _ m] show ?thesis
    by (simp add: order_ctx_def status_defs hour_def)
qed

section \<open>Limits\<close>

text \<open>C14: a response longer than the configured limit is stored truncated with a marker that
  is not JSON, so it can never be replayed: the first call succeeds, and every later call
  with the same key is answered with the store being unavailable. The hypothesis on
  \<open>json.Unmarshal\<close> is that no JSON text ends with a closing parenthesis.\<close>

theorem long_response_not_replayed:
  assumes "request_ok env opts key fp" "row_of (io_scope opts) (ie_sha env key) db = None" "rows_ok db"
    and "ie_marshal env d = Inr raw" "0 < ic_max_stored_response_len cfg"
    and "ic_max_stored_response_len cfg < int (length (ie_redact env raw))"
    and "\<And>s. \<exists>e. ie_unmarshal env (s @ ''...(truncated)'') = Inl e"
    and "now2 < now1 + request_ttl cfg opts"
  shows "fst (idem_execute env cfg sql_repo now1 opts (Inr d) db) = Idem_done (Inr (d, False)) \<and>
    (\<exists>e. fst (idem_execute env cfg sql_repo now2 opts outcome
         (snd (idem_execute env cfg sql_repo now1 opts (Inr d) db))) =
       Idem_done (Inl (cause_of err_store_unavailable e)))"
proof -
  let ?body = "truncate_utf8 (ie_redact env raw) (ic_max_stored_response_len cfg) @ ''...(truncated)''"
  have m: "marshal_stored_response env cfg d = Inr ?body"
    using assms(4-6) by (simp add: marshal_stored_response_def Let_def)
  let ?row = "(owned_row env cfg opts key fp now1 (db_next_id db))
      \<lparr>ir_status := status_succeeded, ir_response_status := Some 200, ir_response_body := Some ?body,
       ir_error_reason := None, ir_locked_until := None, ir_expires_at := now1 + request_ttl cfg opts,
       ir_updated_at := now1\<rparr>"
  from idem_execute_succeeds [OF assms(1-3) m, of now1] obtain db' where
    db': "idem_execute env cfg sql_repo now1 opts (Inr d) db = (Idem_done (Inr (d, False)), db')"
    "db_rows db' = db_rows db @ [?row]" by blast
  have r: "row_of (io_scope opts) (ie_sha env key) db' = Some ?row"
    by (rule row_of_append [OF assms(2) db'(2)]) (simp_all add: owned_row_def request_ctx_def)
  have "trim_space ?body \<noteq> []"
    by (rule trim_space_not_blank [of "CHR '')''"]) simp_all
  moreover obtain e where "ie_unmarshal env ?body = Inl e" using assms(7) by blast
  ultimately have "decode_stored_response env (Some ?body) = Inl (Wrapping_error ''decode stored response'' e)"
    by (simp add: decode_stored_response_def)
  then have "idem_found env (request_ctx env cfg opts key fp now2) ?row =
      Idem_done (Inl (cause_of err_store_unavailable (Wrapping_error ''decode stored response'' e)))"
    using assms(8) by (simp add: idem_found_def idem_existing_def owned_row_def request_ctx_def idem_unavailable_def)
  with idem_execute_existing [OF assms(1) r, of cfg now2 outcome] db'(1) show ?thesis by auto
qed

definition strict_env :: "(string, string) idem_env" where
  "strict_env = plain_env\<lparr>ie_unmarshal := (\<lambda>s. if last s = CHR '')'' then Inl (Plain_error ''invalid'') else Inr s)\<rparr>"

theorem long_response_not_replayed_witness:
  "\<exists>e. fst (idem_execute strict_env (default_idem_config\<lparr>ic_max_stored_response_len := 3\<rparr>) sql_repo hour order_request
      (Inr ''x'') (snd (idem_execute strict_env (default_idem_config\<lparr>ic_max_stored_response_len := 3\<rparr>) sql_repo second
        order_request (Inr ''abcdef'') empty_db))) =
    Idem_done (Inl (cause_of err_store_unavailable e))"
proof -
  have ok: "request_ok strict_env order_request ''k1''
     (''POST'' @ [CHR 0x0A] @ ''/o'' @ [CHR 0x0A] @ ''u1'' @ [CHR 0x0A] @ ''{}'')"
    using order_request_ok by (simp add: request_ok_def strict_env_def build_fingerprint_def plain_env_def)
  show ?thesis
    by (rule conjunct2 [OF long_response_not_replayed [OF ok empty_db_ok(2,1), where raw = "''abcdef''"]])
       (simp_all add: strict_env_def plain_env_def default_idem_config_def request_ttl_def order_request_def
         second_def hour_def)
qed

text \<open>Steps of several requests at one instant, in the order of a schedule.\<close>

fun idem_schedule ::
  "('p, 'd) idem_env \<Rightarrow> idem_config \<Rightarrow> instant \<Rightarrow> (nat \<times> 'd) list \<Rightarrow>
     idem_db \<times> (nat \<Rightarrow> 'd idem_pc) \<Rightarrow> idem_db \<times> (nat \<Rightarrow> 'd idem_pc)" where
  "idem_schedule env cfg t [] s = s"
| "idem_schedule env cfg t ((p, d) # sched) (db, ps) =
     (case idem_step env cfg sql_repo t (Inr d) (ps p, db) of
        (pc, db') \<Rightarrow> idem_schedule env cfg t sched (db', ps(p := pc)))"

definition stale_db :: idem_db where
  "stale_db = \<lparr>db_rows = [(ix_record (order_ctx 0 1 0))\<lparr>ir_status := ''succeeded'', ir_locked_until := None\<rparr>],
     db_next_id = 2\<rparr>"


section \<open>Stored bodies and waiting times\<close>

lemma shrink_utf8_spec:
  "shrink_utf8 n s \<le> n \<and> utf8_valid (take (shrink_utf8 n s) s) \<and>
     (\<forall>k. shrink_utf8 n s < k \<and> k \<le> n \<longrightarrow> \<not> utf8_valid (take k s))"
proof (induction n)
  case 0
  then show ?case by auto
next
  case (Suc n)
  show ?case
  proof (cases "utf8_valid (take (Suc n) s)")
    case False
    have "\<not> utf8_valid (take k s)" if "shrink_utf8 n s < k" "k \<le> Suc n" for k
      using Suc.IH that False by (cases "k = Suc n") auto
    with Suc.IH False show ?thesis by auto
  qed auto
qed

text \<open>truncation keeps whole characters. A string longer than the limit is cut to its
  longest well-formed UTF-8 prefix within the limit; other strings are not changed.\<close>

theorem truncate_utf8_longest:
  "if 0 < n \<and> n < int (length s)
   then (\<exists>k. int k \<le> n \<and> truncate_utf8 s n = take k s \<and> utf8_valid (take k s) \<and>
          (\<forall>j. k < j \<and> int j \<le> n \<longrightarrow> \<not> utf8_valid (take j s)))
   else truncate_utf8 s n = s"
proof (cases "0 < n \<and> n < int (length s)")
  case True
  then have "truncate_utf8 s n = take (shrink_utf8 (nat n) s) s" by (simp add: truncate_utf8_def)
  with shrink_utf8_spec [of "nat n" s] True show ?thesis
    by (auto intro!: exI [of _ "shrink_utf8 (nat n) s"] simp: nat_le_iff le_nat_iff)
qed (auto simp: truncate_utf8_def)

theorem truncate_utf8_longest_witness:
  "truncate_utf8 [CHR 0x61, CHR 0xC3, CHR 0xA9] 2 = [CHR 0x61]"
proof -
  have v: "\<not> utf8_valid (take 2 [CHR 0x61, CHR 0xC3, CHR 0xA9])"
    "utf8_valid (take 1 [CHR 0x61, CHR 0xC3, CHR 0xA9])" by code_simp+
  obtain k where k: "int k \<le> 2" "truncate_utf8 [CHR 0x61, CHR 0xC3, CHR 0xA9] 2 = take k [CHR 0x61, CHR 0xC3, CHR 0xA9]"
    "utf8_valid (take k [CHR 0x61, CHR 0xC3, CHR 0xA9])"
    "\<And>j. k < j \<and> int j \<le> 2 \<Longrightarrow> \<not> utf8_valid (take j [CHR 0x61, CHR 0xC3, CHR 0xA9])"
    using truncate_utf8_longest [of 2 "[CHR 0x61, CHR 0xC3, CHR 0xA9]"] by auto
  have "k \<noteq> 2" using k(3) v(1) by auto
  moreover have "k \<noteq> 0" using k(4) [of 1] v(2) by auto
  ultimately have "k = 1" using k(1) by linarith
  with k(2) show ?thesis by simp
qed

text \<open>the waiting time of a conflict can be read back. \<open>RetryAfterSecondsFromError\<close> of the
  error a conflict makes, also when that error is wrapped, is the number of whole seconds
  until the lock ends, and at least one.\<close>

theorem retry_after_round_trip:
  assumes "locked - now < 2 ^ 63"
  shows "retry_after_seconds (Some (wrap_all ms (conflict_with_retry_after err_in_progress (Some locked) now))) =
    max 1 (go_quot (locked - now) second)"
proof -
  let ?q = "go_quot (locked - now) second"
  have "?q < 2 ^ 63"
  proof (cases "locked - now \<le> 0")
    case True
    then have "?q \<le> 0" by (simp add: go_quot_def second_def sgn_if pos_imp_zdiv_nonneg_iff)
    then show ?thesis by simp
  next
    case False
    then have "?q = (locked - now) div second" by (simp add: go_quot_def second_def)
    also have "\<dots> \<le> locked - now" using False by (simp add: second_def)
    finally show ?thesis using assms by simp
  qed
  then have "go_atoi (itoa (if ?q \<le> 0 then 1 else ?q)) = Some (if ?q \<le> 0 then 1 else ?q)"
    by (intro go_atoi_itoa) auto
  then show ?thesis
    by (simp add: retry_after_seconds_def conflict_with_retry_after_def metadata_of_def err_in_progress_def
        conflict_def new_app_def with_metadata_def Let_def)
qed

theorem retry_after_round_trip_witness:
  "retry_after_seconds (Some (conflict_with_retry_after err_in_progress (Some (90 * second)) second)) = 89"
  using retry_after_round_trip [of "90 * second" second "[]"] by (simp add: second_def go_quot_def)

end
