(* ===== verification/AuthAbuse.thy ===== *)
theory AuthAbuse
  imports Prelude "HOL-Library.Word"
begin

unbundle bit_operations_syntax

text \<open>
  The limiter of invalid API-key attempts
  (\<^verbatim>\<open>internal/service/invalid_auth_abuse_limiter.go\<close>): sixteen shards of a map from client
  keys to failure windows, a global bound on the tracked clients, and one overflow window
  for the clients beyond it. Each method is one atomic operation; \<open>now\<close> is the clock it
  reads. A nil limiter is \<open>None\<close>.
\<close>

section \<open>State\<close>

record abuse_entry =
  ae_failures :: int
  ae_window_start :: instant
  ae_blocked_until :: instant

record abuse_overflow =
  ao_failures :: int
  ao_window_start :: instant
  ao_blocked_until :: instant

record abuse_limiter =
  al_threshold :: int
  al_window :: duration
  al_block :: duration
  al_capacity :: int
  al_shards :: "(string, abuse_entry) gomap list"
  al_overflow :: abuse_overflow
  al_tracked :: int
  al_recorded :: "64 word"
  al_blocked :: "64 word"
  al_rejected :: "64 word"
  al_expired :: "64 word"
  al_overflowed :: "64 word"
  al_global_blocked :: "64 word"
  al_cleanup_next :: int
  al_cleanup_cursor :: "32 word"

record abuse_config =
  ac_enabled :: bool
  ac_threshold :: int
  ac_window_seconds :: int
  ac_block_seconds :: int
  ac_capacity :: int

record abuse_health =
  ah_enabled :: bool
  ah_tracked :: int
  ah_capacity :: int
  ah_recorded :: "64 word"
  ah_blocks :: "64 word"
  ah_rejected :: "64 word"
  ah_expired :: "64 word"
  ah_overflowed :: "64 word"
  ah_global_blocked :: "64 word"

text \<open>\<open>time.UnixNano\<close>: the Unix epoch is 62135596800 seconds after the Go zero time.\<close>

definition unix_nano :: "instant \<Rightarrow> int" where
  "unix_nano t = t - 62135596800 * second"

definition abuse_shard_count :: nat where
  "abuse_shard_count = 16"

definition new_abuse_limiter :: "abuse_config option \<Rightarrow> abuse_limiter option" where
  "new_abuse_limiter cfg =
     (case cfg of None \<Rightarrow> None
      | Some c \<Rightarrow>
          if \<not> ac_enabled c then None
          else if ac_threshold c \<le> 0 \<or> ac_window_seconds c \<le> 0 \<or> ac_block_seconds c \<le> 0 \<or>
                  ac_capacity c \<le> 0 then None
          else Some
            \<lparr>al_threshold = ac_threshold c, al_window = ac_window_seconds c * second,
             al_block = ac_block_seconds c * second, al_capacity = ac_capacity c,
             al_shards = replicate abuse_shard_count [],
             al_overflow = \<lparr>ao_failures = 0, ao_window_start = zero_time, ao_blocked_until = zero_time\<rparr>,
             al_tracked = 0, al_recorded = 0, al_blocked = 0, al_rejected = 0, al_expired = 0,
             al_overflowed = 0, al_global_blocked = 0, al_cleanup_next = 0, al_cleanup_cursor = 0\<rparr>)"

section \<open>Shards\<close>

definition fnv_hash :: "string \<Rightarrow> 32 word" where
  "fnv_hash key =
     foldl (\<lambda>h c. (h XOR of_nat (of_char c)) * 16777619) 2166136261 key"

definition shard_index :: "string \<Rightarrow> nat" where
  "shard_index key = unat (fnv_hash key mod of_nat abuse_shard_count)"

definition entry_expired :: "abuse_limiter \<Rightarrow> abuse_entry \<Rightarrow> instant \<Rightarrow> bool" where
  "entry_expired l e now \<longleftrightarrow>
     ae_blocked_until e \<le> now \<and> ae_window_start e \<le> now \<and> ae_window_start e + al_window l \<le> now"

definition reserve_entry :: "abuse_limiter \<Rightarrow> abuse_limiter \<times> bool" where
  "reserve_entry l =
     (if al_capacity l \<le> al_tracked l then (l, False)
      else (l\<lparr>al_tracked := al_tracked l + 1\<rparr>, True))"

definition abuse_cleanup :: "abuse_limiter \<Rightarrow> instant \<Rightarrow> abuse_limiter" where
  "abuse_cleanup l now =
     (if al_tracked l < al_capacity l then l
      else if unix_nano now < al_cleanup_next l then l
      else
        let cursor = al_cleanup_cursor l + 1;
            i = unat ((cursor - 1) mod of_nat abuse_shard_count);
            shard = al_shards l ! i;
            kept = gm_filter (\<lambda>_ e. \<not> entry_expired l e now) shard;
            gone = gm_len shard - gm_len kept
        in l\<lparr>al_cleanup_next := unix_nano (now + 100 * millisecond), al_cleanup_cursor := cursor,
             al_shards := (al_shards l)[i := kept], al_tracked := al_tracked l - int gone,
             al_expired := al_expired l + of_nat gone\<rparr>)"

text \<open>Looking up the client's entry, which is dropped when it has expired.\<close>

definition abuse_lookup :: "abuse_limiter \<Rightarrow> string \<Rightarrow> instant \<Rightarrow> abuse_limiter \<times> abuse_entry option" where
  "abuse_lookup l key now =
     (let i = shard_index key in
      case gm_get (al_shards l ! i) key of
        None \<Rightarrow> (l, None)
      | Some e \<Rightarrow>
          if entry_expired l e now then
            (l\<lparr>al_shards := (al_shards l)[i := gm_delete key (al_shards l ! i)],
               al_tracked := al_tracked l - 1, al_expired := al_expired l + 1\<rparr>, None)
          else (l, Some e))"

section \<open>Overflow\<close>

definition record_overflow :: "abuse_limiter \<Rightarrow> instant \<Rightarrow> abuse_limiter" where
  "record_overflow l now =
     (let l1 = l\<lparr>al_overflowed := al_overflowed l + 1\<rparr>; o0 = al_overflow l1 in
      if now < ao_blocked_until o0 then l1
      else
        let o1 = (if is_zero_time (ao_window_start o0) \<or> ao_window_start o0 + al_window l \<le> now
                  then o0\<lparr>ao_window_start := now, ao_failures := 0\<rparr> else o0);
            o2 = o1\<lparr>ao_failures := ao_failures o1 + 1\<rparr>
        in if al_threshold l \<le> ao_failures o2
           then l1\<lparr>al_overflow := \<lparr>ao_failures = 0, ao_window_start = now + al_block l,
                                  ao_blocked_until = now + al_block l\<rparr>,
                   al_blocked := al_blocked l1 + 1\<rparr>
           else l1\<lparr>al_overflow := o2\<rparr>)"

definition check_overflow :: "abuse_limiter \<Rightarrow> instant \<Rightarrow> duration \<times> bool" where
  "check_overflow l now =
     (if now < ao_blocked_until (al_overflow l)
      then (ao_blocked_until (al_overflow l) - now, True) else (0, False))"

section \<open>The methods\<close>

definition abuse_check :: "abuse_limiter \<Rightarrow> string \<Rightarrow> instant \<Rightarrow> abuse_limiter \<times> duration \<times> bool" where
  "abuse_check l key now =
     (if key = [] then (l, 0, False)
      else
        let l1 = abuse_cleanup l now; (l2, entry) = abuse_lookup l1 key now in
        case entry of
          Some e \<Rightarrow>
            if now < ae_blocked_until e then
              (l2\<lparr>al_rejected := al_rejected l2 + 1\<rparr>, ae_blocked_until e - now, True)
            else (l2, 0, False)
        | None \<Rightarrow>
            if al_capacity l2 \<le> al_tracked l2 then
              (case check_overflow l2 now of
                 (retry, blocked) \<Rightarrow>
                   if blocked then
                     (l2\<lparr>al_rejected := al_rejected l2 + 1, al_global_blocked := al_global_blocked l2 + 1\<rparr>,
                      retry, True)
                   else (l2, 0, False))
            else (l2, 0, False))"

text \<open>Counting a failure in an entry; the second result says whether it blocks the client.\<close>

definition count_failure :: "abuse_limiter \<Rightarrow> abuse_entry \<Rightarrow> instant \<Rightarrow> abuse_entry \<times> bool" where
  "count_failure l e now =
     (if now < ae_blocked_until e then (e, False)
      else
        let e1 = (if now < ae_window_start e \<or> ae_window_start e + al_window l \<le> now
                  then e\<lparr>ae_window_start := now, ae_failures := 0\<rparr> else e);
            e2 = e1\<lparr>ae_failures := ae_failures e1 + 1\<rparr>
        in if al_threshold l \<le> ae_failures e2
           then (\<lparr>ae_failures = 0, ae_window_start = now + al_block l,
                  ae_blocked_until = now + al_block l\<rparr>, True)
           else (e2, False))"

definition abuse_record :: "abuse_limiter \<Rightarrow> string \<Rightarrow> instant \<Rightarrow> abuse_limiter" where
  "abuse_record l key now =
     (if key = [] then l
      else
        let l1 = abuse_cleanup (l\<lparr>al_recorded := al_recorded l + 1\<rparr>) now;
            (l2, entry) = abuse_lookup l1 key now;
            (l3, reserved) = (case entry of Some e \<Rightarrow> (l2, True) | None \<Rightarrow> reserve_entry l2)
        in if \<not> reserved then record_overflow l3 now
           else
             let e = (case entry of Some e \<Rightarrow> e
                      | None \<Rightarrow> \<lparr>ae_failures = 0, ae_window_start = now, ae_blocked_until = zero_time\<rparr>);
                 (e', blocks) = count_failure l3 e now;
                 i = shard_index key;
                 l4 = l3\<lparr>al_shards := (al_shards l3)[i := gm_set key e' (al_shards l3 ! i)]\<rparr>
             in if blocks then l4\<lparr>al_blocked := al_blocked l4 + 1\<rparr> else l4)"

definition limiter_health :: "abuse_limiter \<Rightarrow> abuse_health" where
  "limiter_health l =
     \<lparr>ah_enabled = True, ah_tracked = al_tracked l, ah_capacity = al_capacity l,
      ah_recorded = al_recorded l, ah_blocks = al_blocked l, ah_rejected = al_rejected l,
      ah_expired = al_expired l, ah_overflowed = al_overflowed l,
      ah_global_blocked = al_global_blocked l\<rparr>"

text \<open>The service's entry points; the service without a limiter never blocks.\<close>

definition check_invalid_auth :: "abuse_limiter option \<Rightarrow> string \<Rightarrow> instant \<Rightarrow> abuse_limiter option \<times> duration \<times> bool" where
  "check_invalid_auth s key now =
     (case s of None \<Rightarrow> (None, 0, False)
      | Some l \<Rightarrow> (case abuse_check l key now of (l', d, b) \<Rightarrow> (Some l', d, b)))"

definition record_invalid_auth :: "abuse_limiter option \<Rightarrow> string \<Rightarrow> instant \<Rightarrow> abuse_limiter option" where
  "record_invalid_auth s key now = map_option (\<lambda>l. abuse_record l key now) s"

definition invalid_auth_health :: "abuse_limiter option \<Rightarrow> abuse_health" where
  "invalid_auth_health s =
     (case s of Some l \<Rightarrow> limiter_health l
      | None \<Rightarrow> \<lparr>ah_enabled = False, ah_tracked = 0, ah_capacity = 0, ah_recorded = 0, ah_blocks = 0,
                 ah_rejected = 0, ah_expired = 0, ah_overflowed = 0, ah_global_blocked = 0\<rparr>)"

section \<open>The bookkeeping invariant\<close>

definition shards_size :: "(string, abuse_entry) gomap list \<Rightarrow> nat" where
  "shards_size ss = sum_list (map gm_len ss)"

definition abuse_inv :: "abuse_limiter \<Rightarrow> bool" where
  "abuse_inv l \<longleftrightarrow>
     length (al_shards l) = abuse_shard_count \<and> (\<forall>s \<in> set (al_shards l). gm_ok s) \<and>
     (\<forall>i < abuse_shard_count. \<forall>k \<in> gm_keys (al_shards l ! i). shard_index k = i) \<and>
     al_tracked l = int (shards_size (al_shards l)) \<and> al_tracked l \<le> al_capacity l \<and>
     0 < al_threshold l \<and> 0 < al_window l \<and> 0 < al_block l"

lemma index_mod_less [simp]: "unat (w mod of_nat abuse_shard_count :: 32 word) < abuse_shard_count"
  by (simp add: unat_mod abuse_shard_count_def)

lemma shard_index_less [simp]: "shard_index k < abuse_shard_count"
  by (simp add: shard_index_def)

lemma shards_size_update:
  "i < length ss \<Longrightarrow> int (shards_size (ss[i := s])) = int (shards_size ss) + int (gm_len s) - int (gm_len (ss ! i))"
proof -
  assume i: "i < length ss"
  then have "gm_len (ss ! i) \<le> shards_size ss"
    using elem_le_sum_list [of i "map gm_len ss"] by (simp add: shards_size_def)
  moreover have "shards_size (ss[i := s]) = shards_size ss + gm_len s - gm_len (ss ! i)"
    using i sum_list_update [of i "map gm_len ss" "gm_len s"] by (simp add: shards_size_def map_update)
  ultimately show ?thesis by simp
qed

lemma abuse_invD:
  assumes "abuse_inv l"
  shows "length (al_shards l) = abuse_shard_count" "i < abuse_shard_count \<Longrightarrow> gm_ok (al_shards l ! i)"
    "i < abuse_shard_count \<Longrightarrow> k \<in> gm_keys (al_shards l ! i) \<Longrightarrow> shard_index k = i"
    "al_tracked l = int (shards_size (al_shards l))" "al_tracked l \<le> al_capacity l"
    "0 < al_threshold l" "0 < al_window l" "0 < al_block l"
  using assms unfolding abuse_inv_def by (auto simp del: less_nat_zero_code)

lemma abuse_inv_update:
  assumes inv: "abuse_inv l" and i: "i < abuse_shard_count" and s: "gm_ok s" "\<forall>k \<in> gm_keys s. shard_index k = i"
    and l': "al_shards l' = (al_shards l)[i := s]"
      "al_tracked l' = al_tracked l + int (gm_len s) - int (gm_len (al_shards l ! i))"
      "al_tracked l' \<le> al_capacity l'" "al_threshold l' = al_threshold l" "al_window l' = al_window l"
      "al_block l' = al_block l"
  shows "abuse_inv l'"
proof -
  have "gm_ok t" if "t \<in> set (al_shards l')" for t
    using that s(1) inv l'(1) by (auto simp: abuse_inv_def dest!: set_update_subset_insert [THEN subsetD])
  moreover have "shard_index k = j" if "j < abuse_shard_count" "k \<in> gm_keys (al_shards l' ! j)" for j k
    using that s(2) inv i l'(1) by (cases "j = i") (auto simp: abuse_inv_def)
  ultimately show ?thesis
    using inv i l' shards_size_update [of i "al_shards l" s] by (simp add: abuse_inv_def)
qed

lemma abuse_cleanup_inv: "abuse_inv l \<Longrightarrow> abuse_inv (abuse_cleanup l now)"
proof -
  assume inv: "abuse_inv l"
  let ?i = "unat (al_cleanup_cursor l mod of_nat abuse_shard_count)"
  let ?s = "gm_filter (\<lambda>_ e. \<not> entry_expired l e now) (al_shards l ! ?i)"
  have i: "?i < abuse_shard_count" by simp
  with inv have "gm_ok (al_shards l ! ?i)" by (simp add: abuse_inv_def)
  moreover have "\<forall>k \<in> gm_keys ?s. shard_index k = ?i"
  proof
    fix k assume "k \<in> gm_keys ?s"
    then have "k \<in> gm_keys (al_shards l ! ?i)" by (rule subsetD [OF gm_keys_filter])
    with i show "shard_index k = ?i" by (rule abuse_invD(3) [OF inv])
  qed
  moreover have "gm_len ?s \<le> gm_len (al_shards l ! ?i)" by (rule gm_len_filter)
  ultimately show ?thesis
  proof (cases "al_tracked l < al_capacity l \<or> unix_nano now < al_cleanup_next l")
    case True
    with inv show ?thesis by (auto simp: abuse_cleanup_def)
  next
    case False
    let ?l = "abuse_cleanup l now"
    have eqs: "al_shards ?l = (al_shards l)[?i := ?s]"
      "al_tracked ?l = al_tracked l + int (gm_len ?s) - int (gm_len (al_shards l ! ?i))"
      "al_capacity ?l = al_capacity l" "al_threshold ?l = al_threshold l" "al_window ?l = al_window l"
      "al_block ?l = al_block l"
      using False \<open>gm_len ?s \<le> _\<close> by (simp_all add: abuse_cleanup_def Let_def)
    have "al_tracked ?l \<le> al_capacity ?l"
      using eqs(2,3) \<open>gm_len ?s \<le> _\<close> inv by (simp add: abuse_inv_def)
    with eqs \<open>gm_ok (al_shards l ! ?i)\<close> \<open>\<forall>k \<in> gm_keys ?s. _\<close> show ?thesis
      by (intro abuse_inv_update [OF inv i, of ?s]) simp_all
  qed
qed

lemma abuse_lookup_inv:
  assumes inv: "abuse_inv l"
  shows "abuse_inv (fst (abuse_lookup l key now))"
proof -
  let ?s = "al_shards l ! shard_index key"
  from inv have ok: "gm_ok ?s" "\<forall>k \<in> gm_keys ?s. shard_index k = shard_index key"
    by (auto simp: abuse_inv_def)
  show ?thesis
  proof (cases "gm_get ?s key")
    case None
    with inv show ?thesis by (simp add: abuse_lookup_def)
  next
    case (Some e)
    then have "?s \<noteq> []" by auto
    then have "1 \<le> gm_len ?s" by (cases ?s) auto
    with Some ok inv show ?thesis
      by (auto simp: abuse_lookup_def Let_def gm_len_delete gm_keys_delete
          intro!: abuse_inv_update [OF inv shard_index_less, where s = "gm_delete key ?s"])
         (simp add: abuse_inv_def)
  qed
qed


section \<open>The entry of a client\<close>

definition client_entry :: "abuse_limiter \<Rightarrow> string \<Rightarrow> abuse_entry option" where
  "client_entry l key = gm_get (al_shards l ! shard_index key) key"

definition fresh_entry :: "instant \<Rightarrow> abuse_entry" where
  "fresh_entry now = \<lparr>ae_failures = 0, ae_window_start = now, ae_blocked_until = zero_time\<rparr>"

definition live :: "abuse_limiter \<Rightarrow> instant \<Rightarrow> abuse_entry option \<Rightarrow> abuse_entry option" where
  "live l now x = (case x of Some e \<Rightarrow> if entry_expired l e now then None else Some e | None \<Rightarrow> None)"

definition limits :: "abuse_limiter \<Rightarrow> int \<times> duration \<times> duration \<times> int" where
  "limits l = (al_threshold l, al_window l, al_block l, al_capacity l)"

lemma limits_steps [simp]:
  "limits (abuse_cleanup l now) = limits l"
  "limits (fst (abuse_lookup l key now)) = limits l"
  "limits (record_overflow l now) = limits l"
  "limits (al_shards_update f l) = limits l"
  "limits (al_tracked_update g l) = limits l"
  "limits (al_recorded_update h l) = limits l"
  "limits (al_blocked_update h l) = limits l"
  "limits (al_rejected_update h l) = limits l"
  "limits (al_global_blocked_update h l) = limits l"
  by (simp_all add: limits_def abuse_cleanup_def abuse_lookup_def record_overflow_def Let_def
      split: option.split)

lemma entry_expired_limits: "limits l = limits l' \<Longrightarrow> entry_expired l = entry_expired l'"
  by (auto simp: limits_def entry_expired_def fun_eq_iff)

lemma live_limits: "limits l = limits l' \<Longrightarrow> live l = live l'"
  by (auto simp: live_def fun_eq_iff entry_expired_limits [of l l'] split: option.splits)

lemma client_entry_frame [simp]:
  "client_entry (al_rejected_update h l) key = client_entry l key"
  "client_entry (al_recorded_update h l) key = client_entry l key"
  "client_entry (al_blocked_update h l) key = client_entry l key"
  "client_entry (al_global_blocked_update h l) key = client_entry l key"
  "client_entry (al_tracked_update g l) key = client_entry l key"
  "client_entry (record_overflow l now) key = client_entry l key"
  by (simp_all add: client_entry_def record_overflow_def Let_def)

lemma client_entry_store:
  assumes "length (al_shards l) = abuse_shard_count"
  shows "client_entry (l\<lparr>al_shards := (al_shards l)[shard_index k := gm_set k e (al_shards l ! shard_index k)]\<rparr>) key
    = (if key = k then Some e else client_entry l key)"
  using assms by (cases "shard_index key = shard_index k") (auto simp: client_entry_def)

lemma cleanup_client:
  assumes inv: "abuse_inv l"
  shows "client_entry (abuse_cleanup l now) key = client_entry l key \<or>
    live l now (client_entry l key) = None \<and> client_entry (abuse_cleanup l now) key = None"
proof -
  let ?i = "unat (al_cleanup_cursor l mod of_nat abuse_shard_count)"
  have "?i < length (al_shards l)" using abuse_invD(1) [OF inv] by simp
  moreover have "gm_ok (al_shards l ! ?i)"
    by (rule abuse_invD(2) [OF inv]) simp
  ultimately show ?thesis
    by (cases "shard_index key = ?i")
       (auto simp: abuse_cleanup_def client_entry_def Let_def live_def gm_get_filter split: option.split)
qed

lemma cleanup_live:
  "abuse_inv l \<Longrightarrow> live l now (client_entry (abuse_cleanup l now) key) = live l now (client_entry l key)"
  using cleanup_client [of l now key] by (auto simp: live_def)

lemma lookup_live:
  assumes "abuse_lookup l key now = (l2, x)" "abuse_inv l"
  shows "x = live l now (client_entry l key)" "client_entry l2 key = x"
    "k \<noteq> key \<Longrightarrow> client_entry l2 k = client_entry l k" "limits l2 = limits l" "abuse_inv l2"
proof -
  show "x = live l now (client_entry l key)"
    using assms(1) by (auto simp: abuse_lookup_def live_def client_entry_def Let_def split: option.splits if_splits)
  show "client_entry l2 key = x"
    using assms abuse_invD(1) [OF assms(2)]
    by (auto simp: abuse_lookup_def client_entry_def Let_def split: option.splits if_splits)
  show "client_entry l2 k = client_entry l k" if "k \<noteq> key"
    using assms(1) that abuse_invD(1) [OF assms(2)]
    by (cases "shard_index k = shard_index key")
       (auto simp: abuse_lookup_def client_entry_def Let_def split: option.splits if_splits)
  show "limits l2 = limits l" using limits_steps(2) [of l key now] assms(1) by simp
  show "abuse_inv l2" using abuse_lookup_inv [OF assms(2), of key now] assms(1) by simp
qed

lemma abuse_inv_counters [simp]:
  "abuse_inv (al_recorded_update h l) = abuse_inv l" "abuse_inv (al_rejected_update h l) = abuse_inv l"
  "abuse_inv (al_blocked_update h l) = abuse_inv l" "abuse_inv (al_global_blocked_update h l) = abuse_inv l"
  "abuse_inv (al_overflowed_update h l) = abuse_inv l" "abuse_inv (al_overflow_update v l) = abuse_inv l"
  by (simp_all add: abuse_inv_def)

lemma record_overflow_inv: "abuse_inv l \<Longrightarrow> abuse_inv (record_overflow l now)"
  by (simp add: record_overflow_def Let_def)


lemma count_failure_limits: "limits l = limits l' \<Longrightarrow> count_failure l = count_failure l'"
  by (auto simp: limits_def count_failure_def fun_eq_iff Let_def)

text \<open>What a failure does once the client's entry has been looked up.\<close>

lemma abuse_record_unfold:
  assumes "key \<noteq> []"
    and lk: "abuse_lookup (abuse_cleanup (l\<lparr>al_recorded := al_recorded l + 1\<rparr>) now) key now = (l2, x)"
    and cf: "count_failure l2 (case x of Some e \<Rightarrow> e | None \<Rightarrow> fresh_entry now) now = (e', blocks)"
  shows "abuse_record l key now =
    (if x = None \<and> al_capacity l2 \<le> al_tracked l2 then record_overflow l2 now
     else
       let l3 = l2\<lparr>al_tracked := al_tracked l2 + (if x = None then 1 else 0),
                    al_shards := (al_shards l2)[shard_index key := gm_set key e' (al_shards l2 ! shard_index key)]\<rparr>
       in if blocks then l3\<lparr>al_blocked := al_blocked l3 + 1\<rparr> else l3)"
proof -
  have "count_failure (l2\<lparr>al_tracked := t\<rparr>) = count_failure l2" for t
    by (rule count_failure_limits) simp
  with assms show ?thesis
    by (cases x) (auto simp: abuse_record_def reserve_entry_def fresh_entry_def Let_def)
qed

lemma store_inv:
  assumes inv: "abuse_inv l" and x: "client_entry l key = x" "x = None \<longrightarrow> al_tracked l < al_capacity l"
  shows "abuse_inv (l\<lparr>al_tracked := al_tracked l + (if x = None then 1 else 0),
    al_shards := (al_shards l)[shard_index key := gm_set key e' (al_shards l ! shard_index key)]\<rparr>)"
proof (rule abuse_inv_update [OF inv shard_index_less])
  let ?s = "al_shards l ! shard_index key"
  show "gm_ok (gm_set key e' ?s)" using abuse_invD(2) [OF inv, of "shard_index key"] by simp
  show "\<forall>k \<in> gm_keys (gm_set key e' ?s). shard_index k = shard_index key"
    using abuse_invD(3) [OF inv shard_index_less] by (auto simp: gm_keys_set)
qed (use x abuse_invD(5) [OF inv] in \<open>auto simp: gm_len_set client_entry_def\<close>)

lemma abuse_record_inv: "abuse_inv l \<Longrightarrow> abuse_inv (abuse_record l key now)"
proof (cases "key = []")
  case False
  assume inv: "abuse_inv l"
  obtain l2 x where lk:
    "abuse_lookup (abuse_cleanup (l\<lparr>al_recorded := al_recorded l + 1\<rparr>) now) key now = (l2, x)"
    by fastforce
  obtain e' blocks where cf:
    "count_failure l2 (case x of Some e \<Rightarrow> e | None \<Rightarrow> fresh_entry now) now = (e', blocks)"
    by fastforce
  have "abuse_inv (abuse_cleanup (l\<lparr>al_recorded := al_recorded l + 1\<rparr>) now)"
    using inv by (simp add: abuse_cleanup_inv)
  note l2 = lookup_live [OF lk this]
  show ?thesis
    unfolding abuse_record_unfold [OF False lk cf]
    using store_inv [OF l2(5,2), of e'] l2(5) by (auto simp: Let_def record_overflow_inv)
qed (simp add: abuse_record_def)

lemma abuse_check_unfold:
  assumes "key \<noteq> []" "abuse_lookup (abuse_cleanup l now) key now = (l2, x)"
  shows "abuse_check l key now =
    (case x of
       Some e \<Rightarrow>
         if now < ae_blocked_until e then
           (l2\<lparr>al_rejected := al_rejected l2 + 1\<rparr>, ae_blocked_until e - now, True)
         else (l2, 0, False)
     | None \<Rightarrow>
         if al_capacity l2 \<le> al_tracked l2 \<and> now < ao_blocked_until (al_overflow l2) then
           (l2\<lparr>al_rejected := al_rejected l2 + 1, al_global_blocked := al_global_blocked l2 + 1\<rparr>,
            ao_blocked_until (al_overflow l2) - now, True)
         else (l2, 0, False))"
  using assms by (auto simp: abuse_check_def Let_def check_overflow_def split: option.splits)

lemma abuse_check_inv: "abuse_inv l \<Longrightarrow> abuse_inv (fst (abuse_check l key now))"
proof (cases "key = []")
  case False
  assume inv: "abuse_inv l"
  obtain l2 x where lk: "abuse_lookup (abuse_cleanup l now) key now = (l2, x)" by fastforce
  from lookup_live(5) [OF lk abuse_cleanup_inv [OF inv]] show ?thesis
    by (simp add: abuse_check_unfold [OF False lk] split: option.split)
qed (simp add: abuse_check_def)

section \<open>Runs\<close>

datatype abuse_event = Abuse_record instant string | Abuse_check instant string

fun abuse_step :: "abuse_event \<Rightarrow> abuse_limiter \<Rightarrow> abuse_limiter" where
  "abuse_step (Abuse_record now key) l = abuse_record l key now"
| "abuse_step (Abuse_check now key) l = fst (abuse_check l key now)"

fun event_time :: "abuse_event \<Rightarrow> instant" where
  "event_time (Abuse_record now key) = now"
| "event_time (Abuse_check now key) = now"

fun is_failure_of :: "string \<Rightarrow> abuse_event \<Rightarrow> bool" where
  "is_failure_of key (Abuse_record now k) = (k = key)"
| "is_failure_of key (Abuse_check now k) = False"

lemma abuse_step_inv: "abuse_inv l \<Longrightarrow> abuse_inv (abuse_step ev l)"
  by (cases ev) (simp_all add: abuse_record_inv abuse_check_inv)

lemma abuse_run_inv: "abuse_inv l \<Longrightarrow> abuse_inv (fold abuse_step evs l)"
  by (induction evs arbitrary: l) (simp_all add: abuse_step_inv)

lemma new_abuse_limiter_inv: "new_abuse_limiter cfg = Some l \<Longrightarrow> abuse_inv l"
  by (auto simp: new_abuse_limiter_def abuse_inv_def shards_size_def second_def gm_keys_def
      map_replicate_const sum_list_replicate split: option.splits if_splits)

lemma abuse_step_limits: "abuse_inv l \<Longrightarrow> limits (abuse_step ev l) = limits l"
proof -
  assume inv: "abuse_inv l"
  have c: "limits (fst (abuse_check l key now)) = limits l" for key now
  proof (cases "key = []")
    case False
    obtain l2 x where lk: "abuse_lookup (abuse_cleanup l now) key now = (l2, x)" by fastforce
    from lookup_live(4) [OF lk abuse_cleanup_inv [OF inv]] show ?thesis
      by (simp add: abuse_check_unfold [OF False lk] split: option.split)
  qed (simp add: abuse_check_def)
  have "limits (abuse_record l key now) = limits l" for key now
  proof (cases "key = []")
    case False
    obtain l2 x where lk:
      "abuse_lookup (abuse_cleanup (l\<lparr>al_recorded := al_recorded l + 1\<rparr>) now) key now = (l2, x)"
      by fastforce
    have "limits l2 = limits l"
      using lookup_live(4) [OF lk abuse_cleanup_inv] inv by simp
    moreover obtain e' blocks where cf:
      "count_failure l2 (case x of Some e \<Rightarrow> e | None \<Rightarrow> fresh_entry now) now = (e', blocks)"
      by fastforce
    ultimately show ?thesis by (simp add: abuse_record_unfold [OF False lk cf] Let_def)
  qed (simp add: abuse_record_def)
  with c show ?thesis by (cases ev) simp_all
qed


section \<open>One client among the others\<close>

text \<open>An event that is no failure of the client keeps its entry, or drops it when it has expired.\<close>

lemma abuse_step_other:
  assumes inv: "abuse_inv l" and ev: "\<not> is_failure_of key ev"
  shows "client_entry (abuse_step ev l) key = client_entry l key \<or>
    live l (event_time ev) (client_entry l key) = None \<and> client_entry (abuse_step ev l) key = None"
proof (cases ev)
  case (Abuse_record now k)
  with ev have k: "k \<noteq> key" by simp
  show ?thesis
  proof (cases "k = []")
    case False
    let ?l = "l\<lparr>al_recorded := al_recorded l + 1\<rparr>"
    obtain l2 x where lk: "abuse_lookup (abuse_cleanup ?l now) k now = (l2, x)" by fastforce
    obtain e' blocks where cf:
      "count_failure l2 (case x of Some e \<Rightarrow> e | None \<Rightarrow> fresh_entry now) now = (e', blocks)"
      by fastforce
    have inv1: "abuse_inv ?l" using inv by simp
    note l2 = lookup_live [OF lk abuse_cleanup_inv [OF inv1]]
    have "client_entry (abuse_record l k now) key = client_entry l2 key"
      using k abuse_invD(1) [OF l2(5)] client_entry_store [of "l2\<lparr>al_tracked := u\<rparr>" for u]
      by (simp add: abuse_record_unfold [OF False lk cf] Let_def)
    also have "\<dots> = client_entry (abuse_cleanup ?l now) key" using l2(3) [of key] k by simp
    finally show ?thesis
      using cleanup_client [OF inv1, of now key] Abuse_record live_limits [of ?l l] by simp
  qed (use Abuse_record in \<open>simp add: abuse_record_def\<close>)
next
  case (Abuse_check now k)
  show ?thesis
  proof (cases "k = []")
    case False
    obtain l2 x where lk: "abuse_lookup (abuse_cleanup l now) k now = (l2, x)" by fastforce
    note l2 = lookup_live [OF lk abuse_cleanup_inv [OF inv]]
    have "client_entry (fst (abuse_check l k now)) key = client_entry l2 key"
      by (simp add: abuse_check_unfold [OF False lk] split: option.split)
    moreover have "client_entry l2 key = client_entry (abuse_cleanup l now) key \<or>
      live l now (client_entry (abuse_cleanup l now) key) = None \<and> client_entry l2 key = None"
    proof (cases "k = key")
      case True
      then show ?thesis
        using l2(1,2) live_limits [of "abuse_cleanup l now" l]
        by (auto simp: live_def split: option.splits if_splits)
    qed (use l2(3) in auto)
    ultimately show ?thesis
      using cleanup_client [OF inv, of now key] Abuse_check by auto
  qed (use Abuse_check in \<open>simp add: abuse_check_def\<close>)
qed

lemma abuse_record_self:
  assumes inv: "abuse_inv l" and key: "key \<noteq> []"
    and room: "live l now (client_entry l key) = None \<Longrightarrow> al_tracked l < al_capacity l"
  shows "client_entry (abuse_record l key now) key = Some (fst (count_failure l
    (case live l now (client_entry l key) of Some e \<Rightarrow> e | None \<Rightarrow> fresh_entry now) now))"
proof -
  let ?l = "l\<lparr>al_recorded := al_recorded l + 1\<rparr>"
  obtain l2 x where lk: "abuse_lookup (abuse_cleanup ?l now) key now = (l2, x)" by fastforce
  obtain e' blocks where cf:
    "count_failure l2 (case x of Some e \<Rightarrow> e | None \<Rightarrow> fresh_entry now) now = (e', blocks)"
    by fastforce
  have inv1: "abuse_inv ?l" using inv by simp
  note l2 = lookup_live [OF lk abuse_cleanup_inv [OF inv1]]
  have x: "x = live l now (client_entry l key)"
    using l2(1) cleanup_live [OF inv1, of now key] live_limits [of ?l l] live_limits [of "abuse_cleanup ?l now" ?l]
    by simp
  have "al_tracked l2 < al_capacity l2" if "x = None"
    using lk room that unfolding x abuse_lookup_def
    by (auto simp: abuse_cleanup_def Let_def split: option.splits if_splits)
  with l2(4) have room2: "\<not> (x = None \<and> al_capacity l2 \<le> al_tracked l2)" by auto
  then have "client_entry (abuse_record l key now) key = Some e'"
    using abuse_invD(1) [OF l2(5)] client_entry_store [of "l2\<lparr>al_tracked := u\<rparr>" for u]
    unfolding abuse_record_unfold [OF key lk cf] if_not_P [OF room2] by (simp add: Let_def)
  moreover have "count_failure l2 = count_failure l" using l2(4) by (intro count_failure_limits) simp
  ultimately show ?thesis using cf x by simp
qed

text \<open>A check of a client whose entry is known.\<close>

lemma abuse_check_entry:
  assumes inv: "abuse_inv l" and key: "key \<noteq> []" and e: "client_entry l key = Some e"
    and keep: "\<not> entry_expired l e now"
  shows "snd (abuse_check l key now) =
    (if now < ae_blocked_until e then (ae_blocked_until e - now, True) else (0, False))"
proof -
  obtain l2 x where lk: "abuse_lookup (abuse_cleanup l now) key now = (l2, x)" by fastforce
  have "x = Some e"
    using lookup_live(1) [OF lk abuse_cleanup_inv [OF inv]] cleanup_live [OF inv, of now key] e keep
      live_limits [of "abuse_cleanup l now" l]
    by (simp add: live_def)
  then show ?thesis by (simp add: abuse_check_unfold [OF key lk])
qed

lemma cleanup_drop_room:
  assumes inv: "abuse_inv l" and e: "client_entry l key = Some e"
    and gone: "client_entry (abuse_cleanup l now) key = None"
  shows "al_tracked (abuse_cleanup l now) < al_capacity l"
proof (cases "al_tracked l < al_capacity l \<or> unix_nano now < al_cleanup_next l")
  case True
  then have "abuse_cleanup l now = l" by (auto simp: abuse_cleanup_def)
  with e gone show ?thesis by simp
next
  case False
  let ?i = "unat (al_cleanup_cursor l mod of_nat abuse_shard_count)"
  let ?P = "\<lambda>_ e. \<not> entry_expired l e now"
  let ?s = "gm_filter ?P (al_shards l ! ?i)"
  have i: "?i < length (al_shards l)" using abuse_invD(1) [OF inv] by simp
  have eq: "abuse_cleanup l now = l\<lparr>al_cleanup_next := unix_nano (now + 100 * millisecond),
      al_cleanup_cursor := al_cleanup_cursor l + 1, al_shards := (al_shards l)[?i := ?s],
      al_tracked := al_tracked l - int (gm_len (al_shards l ! ?i) - gm_len ?s),
      al_expired := al_expired l + of_nat (gm_len (al_shards l ! ?i) - gm_len ?s)\<rparr>"
    using False by (simp add: abuse_cleanup_def Let_def)
  have k: "shard_index key = ?i"
    using e gone i by (rule_tac ccontr) (simp add: eq client_entry_def)
  have ok: "gm_ok (al_shards l ! ?i)" using abuse_invD(2) [OF inv shard_index_less, of key] k by simp
  have "gm_get (al_shards l ! ?i) key = Some e" "gm_get ?s key = None"
    using e gone i k by (simp_all add: eq client_entry_def)
  with ok have "(key, e) \<in> set (al_shards l ! ?i)" "entry_expired l e now"
    by (auto simp: gm_get_filter dest: map_of_SomeD split: if_splits)
  then have "gm_len ?s < gm_len (al_shards l ! ?i)"
    unfolding gm_filter_def by (intro length_filter_less [where x = "(key, e)"]) simp_all
  with abuse_invD(5) [OF inv] show ?thesis by (simp add: eq)
qed

lemma abuse_check_expired:
  assumes inv: "abuse_inv l" and key: "key \<noteq> []" and e: "client_entry l key = Some e"
    and gone: "entry_expired l e now"
  shows "snd (abuse_check l key now) = (0, False)"
proof -
  let ?l = "abuse_cleanup l now"
  obtain l2 x where lk: "abuse_lookup ?l key now = (l2, x)" by fastforce
  have inv1: "abuse_inv ?l" by (rule abuse_cleanup_inv [OF inv])
  have "x = None"
    using lookup_live(1) [OF lk inv1] cleanup_live [OF inv, of now key] e gone
      live_limits [of "abuse_cleanup l now" l]
    by (simp add: live_def)
  moreover have "al_tracked l2 < al_capacity l2"
  proof (cases "client_entry ?l key")
    case None
    from cleanup_drop_room [OF inv e None] lk None limits_steps(1) [of l now] show ?thesis
      by (auto simp: abuse_lookup_def client_entry_def limits_def)
  next
    case (Some e1)
    with cleanup_client [OF inv, of now key] e have "e1 = e" by auto
    with Some lk gone \<open>x = None\<close> abuse_invD(5) [OF inv1] limits_steps(1) [of l now] show ?thesis
      by (auto simp: abuse_lookup_def client_entry_def Let_def split: if_splits)
  qed
  ultimately show ?thesis by (simp add: abuse_check_unfold [OF key lk])
qed


section \<open>Counting the failures of one client\<close>

definition failures_of :: "string \<Rightarrow> abuse_event list \<Rightarrow> nat" where
  "failures_of key evs = length (filter (is_failure_of key) evs)"

text \<open>\<open>n\<close> failures of the client have been counted in the window opened at \<open>t1\<close>.\<close>

definition counted :: "string \<Rightarrow> instant \<Rightarrow> nat \<Rightarrow> abuse_limiter \<Rightarrow> bool" where
  "counted key t1 n l \<longleftrightarrow> abuse_inv l \<and> int n < al_threshold l \<and>
     client_entry l key = Some \<lparr>ae_failures = int n, ae_window_start = t1, ae_blocked_until = zero_time\<rparr>"

definition blocked_from :: "string \<Rightarrow> instant \<Rightarrow> abuse_limiter \<Rightarrow> bool" where
  "blocked_from key tn l \<longleftrightarrow> abuse_inv l \<and>
     client_entry l key = Some \<lparr>ae_failures = 0, ae_window_start = tn + al_block l,
       ae_blocked_until = tn + al_block l\<rparr>"

lemma counted_live:
  assumes "counted key t1 n l" "t1 \<le> now" "now < t1 + al_window l"
  shows "live l now (client_entry l key) =
    Some \<lparr>ae_failures = int n, ae_window_start = t1, ae_blocked_until = zero_time\<rparr>"
  using assms by (simp add: counted_def live_def entry_expired_def)

lemma counted_step:
  assumes c: "counted key t1 n l" and key: "key \<noteq> []"
    and t: "0 \<le> t1" "t1 \<le> event_time ev" "event_time ev < t1 + al_window l"
    and less: "int n + (if is_failure_of key ev then 1 else 0) < al_threshold l"
  shows "counted key t1 (n + (if is_failure_of key ev then 1 else 0)) (abuse_step ev l)"
proof -
  from c have inv: "abuse_inv l" by (simp add: counted_def)
  have lim: "al_threshold (abuse_step ev l) = al_threshold l"
    using abuse_step_limits [OF inv, of ev] by (simp add: limits_def)
  note lv = counted_live [OF c t(2,3)]
  show ?thesis
  proof (cases "is_failure_of key ev")
    case True
    then obtain now where ev: "ev = Abuse_record now key" by (cases ev) auto
    have "client_entry (abuse_record l key now) key = Some (fst (count_failure l
      \<lparr>ae_failures = int n, ae_window_start = t1, ae_blocked_until = zero_time\<rparr> now))"
      using abuse_record_self [OF inv key, of now] lv ev by simp
    with True ev t less lim abuse_step_inv [OF inv, of ev] show ?thesis
      by (simp add: counted_def count_failure_def Let_def zero_time_def)
  next
    case False
    with abuse_step_other [OF inv False] lv c abuse_step_inv [OF inv, of ev] lim show ?thesis
      by (auto simp: counted_def)
  qed
qed

lemma abuse_run_limits: "abuse_inv l \<Longrightarrow> limits (fold abuse_step evs l) = limits l"
  by (induction evs arbitrary: l) (simp_all add: abuse_step_limits abuse_step_inv)

lemma counted_run:
  assumes "counted key t1 n l" "key \<noteq> []" "0 \<le> t1"
    "\<forall>ev \<in> set evs. t1 \<le> event_time ev \<and> event_time ev < t1 + al_window l"
    "int (n + failures_of key evs) < al_threshold l"
  shows "counted key t1 (n + failures_of key evs) (fold abuse_step evs l)"
  using assms
proof (induction evs arbitrary: n l)
  case Nil
  then show ?case by (simp add: failures_of_def)
next
  case (Cons ev evs)
  let ?l = "abuse_step ev l" and ?n = "n + (if is_failure_of key ev then 1 else 0)"
  have n: "n + failures_of key (ev # evs) = ?n + failures_of key evs" by (simp add: failures_of_def)
  have inv: "abuse_inv l" using Cons.prems(1) by (simp add: counted_def)
  have lim: "al_window ?l = al_window l" "al_threshold ?l = al_threshold l"
    using abuse_step_limits [OF inv, of ev] by (simp_all add: limits_def)
  have "counted key t1 ?n ?l"
    using Cons.prems by (intro counted_step) (auto simp: n)
  from Cons.IH [OF this] Cons.prems show ?case unfolding n by (simp add: lim n)
qed

lemma first_failure:
  assumes inv: "abuse_inv l" and key: "key \<noteq> []" "client_entry l key = None"
    and room: "al_tracked l < al_capacity l" and t1: "0 \<le> t1"
  shows "1 < al_threshold l \<Longrightarrow> counted key t1 1 (abuse_record l key t1)"
    "al_threshold l = 1 \<Longrightarrow> blocked_from key t1 (abuse_record l key t1)"
proof -
  have e: "client_entry (abuse_record l key t1) key = Some (fst (count_failure l (fresh_entry t1) t1))"
    using abuse_record_self [OF inv key(1), of t1] key(2) room by (simp add: live_def)
  have lim: "al_threshold (abuse_record l key t1) = al_threshold l" "al_block (abuse_record l key t1) = al_block l"
    using abuse_step_limits [OF inv, of "Abuse_record t1 key"] by (simp_all add: limits_def)
  show "1 < al_threshold l \<Longrightarrow> counted key t1 1 (abuse_record l key t1)"
    "al_threshold l = 1 \<Longrightarrow> blocked_from key t1 (abuse_record l key t1)"
    using e lim t1 abuse_record_inv [OF inv] abuse_invD(7) [OF inv]
    by (simp_all add: counted_def blocked_from_def count_failure_def fresh_entry_def Let_def zero_time_def)
qed

lemma last_failure:
  assumes c: "counted key t1 n l" and key: "key \<noteq> []" and t: "0 \<le> t1" "t1 \<le> tn" "tn < t1 + al_window l"
    and n: "int n + 1 = al_threshold l"
  shows "blocked_from key tn (abuse_record l key tn)"
proof -
  from c have inv: "abuse_inv l" by (simp add: counted_def)
  have "client_entry (abuse_record l key tn) key = Some (fst (count_failure l
    \<lparr>ae_failures = int n, ae_window_start = t1, ae_blocked_until = zero_time\<rparr> tn))"
    using abuse_record_self [OF inv key, of tn] counted_live [OF c t(2,3)] by simp
  moreover have "al_block (abuse_record l key tn) = al_block l"
    using abuse_step_limits [OF inv, of "Abuse_record tn key"] by (simp add: limits_def)
  ultimately show ?thesis
    using t n abuse_record_inv [OF inv] by (simp add: blocked_from_def count_failure_def Let_def zero_time_def)
qed

lemma blocked_check:
  assumes b: "blocked_from key tn l" and key: "key \<noteq> []" and t: "tn \<le> t"
  shows "snd (abuse_check l key t) = (if t < tn + al_block l then (tn + al_block l - t, True) else (0, False))"
proof -
  from b have inv: "abuse_inv l" and e: "client_entry l key = Some \<lparr>ae_failures = 0,
      ae_window_start = tn + al_block l, ae_blocked_until = tn + al_block l\<rparr>"
    by (simp_all add: blocked_from_def)
  show ?thesis
    using abuse_check_entry [OF inv key e, of t] abuse_check_expired [OF inv key e, of t]
    by (cases "entry_expired l \<lparr>ae_failures = 0, ae_window_start = tn + al_block l,
        ae_blocked_until = tn + al_block l\<rparr> t") (auto simp: entry_expired_def)
qed

lemma counted_check:
  assumes c: "counted key t1 n l" and key: "key \<noteq> []" and t: "0 \<le> t1" "t1 \<le> t"
  shows "snd (abuse_check l key t) = (0, False)"
proof -
  let ?e = "\<lparr>ae_failures = int n, ae_window_start = t1, ae_blocked_until = zero_time\<rparr>"
  from c have inv: "abuse_inv l" and e: "client_entry l key = Some ?e" by (simp_all add: counted_def)
  show ?thesis
    using abuse_check_entry [OF inv key e, of t] abuse_check_expired [OF inv key e, of t] t
    by (cases "entry_expired l ?e t") (auto simp: zero_time_def)
qed

section \<open>Properties\<close>

text \<open>Every limiter the methods can reach keeps its books: the number of tracked
  clients, which decides admission to the table, is the number of the entries of all shards, it
  never exceeds the capacity, no shard has a key twice and every key is in the shard its hash
  selects, whatever the calls and their clock readings.\<close>

theorem abuse_books_balance:
  assumes "new_abuse_limiter (Some c) = Some l0" "l = fold abuse_step evs l0"
  shows "al_tracked l = int (sum_list (map gm_len (al_shards l))) \<and> al_tracked l \<le> ac_capacity c \<and>
    (\<forall>i < 16. gm_ok (al_shards l ! i) \<and> (\<forall>k \<in> gm_keys (al_shards l ! i). shard_index k = i))"
proof -
  have inv: "abuse_inv l0" by (rule new_abuse_limiter_inv [OF assms(1)])
  have l: "abuse_inv l" unfolding assms(2) by (rule abuse_run_inv [OF inv])
  have "limits l = limits l0"
    unfolding assms(2) by (rule abuse_run_limits [OF inv])
  then have cap: "al_capacity l = ac_capacity c"
    using assms(1) by (auto simp: limits_def new_abuse_limiter_def split: if_splits)
  have "gm_ok (al_shards l ! i)" "\<forall>k \<in> gm_keys (al_shards l ! i). shard_index k = i" if "i < 16" for i
    using abuse_invD(2,3) [OF l, of i] that by (auto simp: abuse_shard_count_def)
  with abuse_invD(4,5) [OF l] cap show ?thesis by (simp add: shards_size_def)
qed



text \<open>Other clients' failures cannot get a client rejected while there is room. Whatever
  the calls, a client without a recorded failure of its own is rejected only when the table of
  tracked clients is full and the shared overflow window of the untracked ones is blocked, and
  then only for the rest of the overflow's block.\<close>

theorem abuse_innocent_client:
  assumes "new_abuse_limiter cfg = Some l0" "l = fold abuse_step evs l0"
    and "failures_of key evs = 0" "snd (abuse_check l key t) = (retry, True)"
  shows "al_tracked l = al_capacity l \<and> t < ao_blocked_until (al_overflow l) \<and>
    retry = ao_blocked_until (al_overflow l) - t"
proof -
  have inv0: "abuse_inv l0" by (rule new_abuse_limiter_inv [OF assms(1)])
  have "client_entry l0 key = None"
    using assms(1) by (auto simp: new_abuse_limiter_def client_entry_def split: option.splits if_splits)
  with inv0 assms(3) have none: "client_entry l key = None"
    unfolding assms(2)
  proof (induction evs arbitrary: l0)
    case (Cons ev evs)
    from Cons.prems(2) have "\<not> is_failure_of key ev" "failures_of key evs = 0"
      by (auto simp: failures_of_def split: if_splits)
    with Cons abuse_step_other [OF Cons.prems(1), of key ev] abuse_step_inv [OF Cons.prems(1), of ev]
    show ?case by auto
  qed simp
  have inv: "abuse_inv l" unfolding assms(2) by (rule abuse_run_inv [OF inv0])
  have key: "key \<noteq> []" using assms(4) by (auto simp: abuse_check_def)
  let ?l1 = "abuse_cleanup l t"
  obtain l2 x where lk: "abuse_lookup ?l1 key t = (l2, x)" by fastforce
  have "client_entry ?l1 key = None" using cleanup_client [OF inv, of t key] none by auto
  with lk have l2: "l2 = ?l1" "x = None" by (auto simp: abuse_lookup_def client_entry_def)
  have ov: "al_overflow ?l1 = al_overflow l" "al_tracked ?l1 \<le> al_tracked l" "al_capacity ?l1 = al_capacity l"
    by (simp_all add: abuse_cleanup_def Let_def)
  show ?thesis
    using assms(4) abuse_invD(5) [OF inv] ov by (auto simp: abuse_check_unfold [OF key lk] l2 split: if_splits)
qed

section \<open>Witnesses\<close>

definition demo_abuse_config :: abuse_config where
  "demo_abuse_config = \<lparr>ac_enabled = True, ac_threshold = 2, ac_window_seconds = 60,
     ac_block_seconds = 300, ac_capacity = 1\<rparr>"

definition demo_limiter :: abuse_limiter where
  "demo_limiter = \<lparr>al_threshold = 2, al_window = 60 * second, al_block = 300 * second, al_capacity = 1,
     al_shards = replicate 16 [],
     al_overflow = \<lparr>ao_failures = 0, ao_window_start = zero_time, ao_blocked_until = zero_time\<rparr>,
     al_tracked = 0, al_recorded = 0, al_blocked = 0, al_rejected = 0, al_expired = 0,
     al_overflowed = 0, al_global_blocked = 0, al_cleanup_next = 0, al_cleanup_cursor = 0\<rparr>"

lemma demo_limiter_new: "new_abuse_limiter (Some demo_abuse_config) = Some demo_limiter"
  by (simp add: new_abuse_limiter_def demo_abuse_config_def demo_limiter_def abuse_shard_count_def)

definition demo_calls :: "abuse_event list" where
  "demo_calls = [Abuse_record (10 * second) ''a'', Abuse_record (11 * second) ''b'',
     Abuse_record (12 * second) ''b'', Abuse_check (13 * second) ''c'']"

lemma abuse_books_balance_witness:
  "al_tracked (fold abuse_step demo_calls demo_limiter) \<le> 1"
  using abuse_books_balance [OF demo_limiter_new refl, of demo_calls] by (simp add: demo_abuse_config_def)


lemma abuse_innocent_client_witness:
  "al_tracked (fold abuse_step demo_calls demo_limiter) = 1"
proof -
  have "snd (abuse_check (fold abuse_step demo_calls demo_limiter) ''c'' (14 * second)) = (298 * second, True)"
    by code_simp
  from abuse_innocent_client [OF demo_limiter_new refl _ this] show ?thesis
    by (simp add: failures_of_def demo_calls_def) code_simp
qed

end
