(* ===== verification/CompositeRoute.thy ===== *)
theory CompositeRoute
  imports Platforms AppErrors "HOL-Library.Product_Lexorder"
begin

text \<open>
  Composite groups: which concrete platform and upstream model serve a request
  (\<^verbatim>\<open>internal/service/composite_model_route.go\<close>, \<^verbatim>\<open>composite_route_resolver.go\<close> and
  \<^verbatim>\<open>composite_platform.go\<close>). The route repository and the account catalog are functions
  the resolver holds; each may fail.
\<close>

section \<open>Routes\<close>

record model_ownership =
  mo_target_platform :: string
  mo_matched :: bool
  mo_ambiguous :: bool
  mo_openai_oauth_claimed :: bool

record composite_route =
  rt_id :: int
  rt_group_id :: int
  rt_public_model :: string
  rt_match_type :: string
  rt_target_platform :: string
  rt_upstream_model :: string
  rt_endpoint :: string
  rt_priority :: int
  rt_enabled :: bool
  rt_notes :: string
  rt_created_at :: instant
  rt_updated_at :: instant

record route_decision =
  dc_matched :: bool
  dc_source :: string
  dc_group_id :: int
  dc_public_model :: string
  dc_target_platform :: string
  dc_upstream_model :: string
  dc_endpoint :: string
  dc_route :: "composite_route option"
  dc_reason :: string

record route_input =
  ri_public_model :: string
  ri_match_type :: string
  ri_target_platform :: string
  ri_upstream_model :: string
  ri_endpoint :: string
  ri_priority :: int
  ri_enabled :: bool
  ri_notes :: string

definition match_exact :: string where "match_exact = ''exact''"
definition match_prefix :: string where "match_prefix = ''prefix''"
definition endpoint_any :: string where "endpoint_any = ''any''"
definition known_endpoints :: "string list" where
  "known_endpoints = [''messages'', ''count_tokens'', ''responses'', ''chat_completions'', ''embeddings'',
     ''images'', ''gemini'']"
definition source_explicit :: string where "source_explicit = ''route''"
definition source_detector :: string where "source_detector = ''detector''"
definition source_account :: string where "source_account = ''account_model''"
definition err_route_not_found :: go_error where
  "err_route_not_found = not_found ''COMPOSITE_ROUTE_NOT_FOUND'' ''composite route not found''"
definition err_route_exists :: go_error where
  "err_route_exists = conflict ''COMPOSITE_ROUTE_EXISTS'' ''composite route already exists''"

definition normalize_endpoint :: "(string \<Rightarrow> string) \<Rightarrow> string \<Rightarrow> string" where
  "normalize_endpoint uni endpoint =
     (let e = to_lower uni (trim_space endpoint) in
      if e = [] then endpoint_any else if e \<in> set known_endpoints then e else endpoint_any)"

definition normalize_match_type :: "(string \<Rightarrow> string) \<Rightarrow> string \<Rightarrow> string" where
  "normalize_match_type uni t =
     (if to_lower uni (trim_space t) = match_prefix then match_prefix else match_exact)"

definition normalize_route_input :: "(string \<Rightarrow> string) \<Rightarrow> route_input \<Rightarrow> route_input" where
  "normalize_route_input uni input =
     (let public = trim_space (ri_public_model input);
          mt = normalize_match_type uni (ri_match_type input);
          upstream = trim_space (ri_upstream_model input)
      in input\<lparr>ri_public_model := public, ri_match_type := mt,
           ri_target_platform := trim_space (ri_target_platform input),
           ri_upstream_model := (if upstream = [] \<and> mt = match_exact then public else upstream),
           ri_endpoint := normalize_endpoint uni (ri_endpoint input),
           ri_notes := trim_space (ri_notes input)\<rparr>)"

section \<open>Matching\<close>

record route_candidate =
  cd_route :: composite_route
  cd_match_strength :: int
  cd_endpoint_weight :: int
  cd_prefix_len :: int

definition route_candidate_of ::
  "(string \<Rightarrow> string) \<Rightarrow> string \<Rightarrow> string \<Rightarrow> composite_route \<Rightarrow> route_candidate option" where
  "route_candidate_of uni model endpoint route0 =
     (let r1 = route0\<lparr>rt_endpoint := normalize_endpoint uni (rt_endpoint route0)\<rparr> in
      if rt_endpoint r1 \<noteq> endpoint \<and> rt_endpoint r1 \<noteq> endpoint_any then None
      else
        let r2 = r1\<lparr>rt_match_type := normalize_match_type uni (rt_match_type r1)\<rparr>;
            public = trim_space (rt_public_model r2);
            weight = (if rt_endpoint r2 = endpoint then 1 else 0)
        in if public = [] then None
           else if rt_match_type r2 = match_exact then
             if public \<noteq> model then None
             else Some \<lparr>cd_route = r2, cd_match_strength = 2, cd_endpoint_weight = weight,
                        cd_prefix_len = int (length public)\<rparr>
           else if rt_match_type r2 = match_prefix then
             if \<not> prefix public model then None
             else Some \<lparr>cd_route = r2, cd_match_strength = 1, cd_endpoint_weight = weight,
                        cd_prefix_len = int (length public)\<rparr>
           else None)"

definition candidate_less :: "route_candidate \<Rightarrow> route_candidate \<Rightarrow> bool" where
  "candidate_less a b =
     (if cd_match_strength a \<noteq> cd_match_strength b then cd_match_strength b < cd_match_strength a
      else if cd_endpoint_weight a \<noteq> cd_endpoint_weight b then cd_endpoint_weight b < cd_endpoint_weight a
      else if cd_prefix_len a \<noteq> cd_prefix_len b then cd_prefix_len b < cd_prefix_len a
      else if rt_priority (cd_route a) \<noteq> rt_priority (cd_route b)
      then rt_priority (cd_route a) < rt_priority (cd_route b)
      else rt_id (cd_route a) < rt_id (cd_route b))"

definition match_composite_route ::
  "(string \<Rightarrow> string) \<Rightarrow> composite_route list \<Rightarrow> string \<Rightarrow> string \<Rightarrow> composite_route option" where
  "match_composite_route uni routes model endpoint =
     (if routes = [] then None
      else
        let candidates = List.map_filter (route_candidate_of uni model endpoint) routes in
        if candidates = [] then None
        else Some (cd_route (hd (stable_sort candidate_less candidates))))"

section \<open>The resolver\<close>

record route_resolver =
  rr_repo :: "(int \<Rightarrow> bool \<Rightarrow> go_error + composite_route list) option"
  rr_ownership :: "(int \<Rightarrow> string \<Rightarrow> go_error + model_ownership) option"

definition new_route_resolver ::
  "(int \<Rightarrow> bool \<Rightarrow> go_error + composite_route list) option \<Rightarrow> route_resolver" where
  "new_route_resolver repo = \<lparr>rr_repo = repo, rr_ownership = None\<rparr>"

definition set_ownership_resolver ::
  "(int \<Rightarrow> string \<Rightarrow> go_error + model_ownership) option \<Rightarrow> route_resolver option \<Rightarrow> route_resolver option" where
  "set_ownership_resolver f r = map_option (\<lambda>rr. rr\<lparr>rr_ownership := f\<rparr>) r"

definition active_repo ::
  "route_resolver option \<Rightarrow> int \<Rightarrow> (int \<Rightarrow> bool \<Rightarrow> go_error + composite_route list) option" where
  "active_repo r gid = (case r of None \<Rightarrow> None | Some rr \<Rightarrow> if 0 < gid then rr_repo rr else None)"

definition active_ownership ::
  "route_resolver option \<Rightarrow> int \<Rightarrow> (int \<Rightarrow> string \<Rightarrow> go_error + model_ownership) option" where
  "active_ownership r gid = (case r of None \<Rightarrow> None | Some rr \<Rightarrow> if 0 < gid then rr_ownership rr else None)"

definition filter_system_one ::
  "(string \<Rightarrow> string) \<Rightarrow> composite_route list \<Rightarrow> string list \<Rightarrow> string \<Rightarrow> string list" where
  "filter_system_one uni routes models endpoint =
     filter (\<lambda>m. case match_composite_route uni routes m (normalize_endpoint uni endpoint) of
               None \<Rightarrow> True | Some route \<Rightarrow> rt_target_platform route \<noteq> platform_typesafe) models"

definition list_exact_public_models ::
  "(string \<Rightarrow> string) \<Rightarrow> route_resolver option \<Rightarrow> int \<Rightarrow> string \<Rightarrow> bool \<Rightarrow> go_error + string list" where
  "list_exact_public_models uni r gid endpoint include_system_one =
     (case active_repo r gid of None \<Rightarrow> Inr []
      | Some repo \<Rightarrow> (case repo gid False of Inl e \<Rightarrow> Inl e
          | Inr routes \<Rightarrow>
              let models = filter (\<lambda>m. m \<noteq> [])
                    (map (\<lambda>route. trim_space (rt_public_model route))
                      (filter (\<lambda>route. rt_enabled route \<and> rt_match_type route = match_exact \<and>
                         (endpoint = [] \<or> normalize_endpoint uni (rt_endpoint route) = endpoint_any \<or>
                          normalize_endpoint uni (rt_endpoint route) = endpoint)) routes))
              in Inr (if include_system_one then models else filter_system_one uni routes models endpoint)))"

definition filter_codex_models ::
  "(string \<Rightarrow> string) \<Rightarrow> route_resolver option \<Rightarrow> int \<Rightarrow> string list \<Rightarrow> go_error + string list" where
  "filter_codex_models uni r gid models =
     (case active_repo r gid of None \<Rightarrow> Inr models
      | Some repo \<Rightarrow> (case repo gid False of Inl e \<Rightarrow> Inl e
          | Inr routes \<Rightarrow> Inr (filter_system_one uni routes models ''responses'')))"

definition reason_ambiguous :: string where
  "reason_ambiguous = ''model is exposed by multiple provider platforms''"
definition reason_oauth_ambiguous :: string where
  "reason_oauth_ambiguous = ''model is exposed by multiple provider platforms including OAuth accounts''"

definition oauth_ambiguous :: "route_decision \<Rightarrow> bool" where
  "oauth_ambiguous d \<longleftrightarrow> \<not> dc_matched d \<and> dc_reason d = reason_oauth_ambiguous"

text \<open>The quoting of \<^verbatim>\<open>%q\<close> is the parameter \<open>quote\<close>.\<close>

definition ambiguous_message :: "(string \<Rightarrow> string) \<Rightarrow> route_decision \<Rightarrow> string" where
  "ambiguous_message quote d =
     ''Model '' @ quote (dc_public_model d) @
     '' is mapped on multiple provider platforms in this group; configure an explicit composite route''"

definition open_decision :: "int \<Rightarrow> string \<Rightarrow> string \<Rightarrow> route_decision" where
  "open_decision gid model endpoint =
     \<lparr>dc_matched = False, dc_source = [], dc_group_id = gid, dc_public_model = model, dc_target_platform = [],
      dc_upstream_model = [], dc_endpoint = endpoint, dc_route = None, dc_reason = []\<rparr>"

definition resolve_by_detector ::
  "(string \<Rightarrow> string) \<Rightarrow> route_decision \<Rightarrow> route_decision \<times> go_error option" where
  "resolve_by_detector uni d =
     (case detect_model_platform uni (dc_public_model d) of
        Some platform \<Rightarrow>
          (d\<lparr>dc_matched := True, dc_source := source_detector, dc_target_platform := platform,
             dc_upstream_model := dc_public_model d\<rparr>, None)
      | None \<Rightarrow> (d\<lparr>dc_reason := ''no explicit route or built-in detector match''\<rparr>, None))"

definition resolve_by_owner ::
  "(string \<Rightarrow> string) \<Rightarrow> route_resolver option \<Rightarrow> route_decision \<Rightarrow> route_decision \<times> go_error option" where
  "resolve_by_owner uni r d =
     (case active_ownership r (dc_group_id d) of
        None \<Rightarrow> resolve_by_detector uni d
      | Some owner \<Rightarrow> (case owner (dc_group_id d) (dc_public_model d) of
          Inl e \<Rightarrow>
            (if detect_model_platform uni (dc_public_model d) = None
             then (d, Some (Wrapping_error ''resolve account model ownership'' e))
             else resolve_by_detector uni d)
        | Inr o_ship \<Rightarrow>
            if mo_ambiguous o_ship then
              (d\<lparr>dc_reason :=
                 (case detect_model_platform uni (dc_public_model d) of
                    Some guessed \<Rightarrow>
                      if mo_openai_oauth_claimed o_ship \<and> uses_openai_gateway guessed
                      then reason_oauth_ambiguous else reason_ambiguous
                  | None \<Rightarrow> reason_ambiguous)\<rparr>, None)
            else if mo_matched o_ship then
              let platform = trim_space (mo_target_platform o_ship) in
              if \<not> is_concrete_platform platform then
                (d\<lparr>dc_reason := ''account model ownership has no concrete target platform''\<rparr>, None)
              else
                (d\<lparr>dc_matched := True, dc_source := source_account, dc_target_platform := platform,
                   dc_upstream_model := dc_public_model d\<rparr>, None)
            else resolve_by_detector uni d))"

definition resolve_route ::
  "(string \<Rightarrow> string) \<Rightarrow> route_resolver option \<Rightarrow> int \<Rightarrow> string \<Rightarrow> string \<Rightarrow>
   route_decision \<times> go_error option" where
  "resolve_route uni r gid model0 endpoint0 =
     (let model = trim_space model0; endpoint = normalize_endpoint uni endpoint0;
          d = open_decision gid model endpoint
      in if model = [] then (d\<lparr>dc_reason := ''model is required''\<rparr>, None)
         else case active_repo r gid of
             None \<Rightarrow> resolve_by_owner uni r d
           | Some repo \<Rightarrow> (case repo gid False of
               Inl e \<Rightarrow> (d, Some (Wrapping_error ''list composite routes'' e))
             | Inr routes \<Rightarrow> (case match_composite_route uni routes model endpoint of
                 None \<Rightarrow> resolve_by_owner uni r d
               | Some route \<Rightarrow>
                   let upstream = trim_space (rt_upstream_model route) in
                   (d\<lparr>dc_matched := True, dc_source := source_explicit,
                      dc_target_platform := rt_target_platform route,
                      dc_upstream_model := (if upstream = [] then model else upstream),
                      dc_route := Some route\<rparr>, None))))"

section \<open>The decision in the request context\<close>

record route_context =
  rc_target_platform :: "string option"
  rc_upstream_model :: "string option"
  rc_public_model :: "string option"
  rc_source :: "string option"

definition with_resolved_platform :: "route_context option \<Rightarrow> string \<Rightarrow> route_context option" where
  "with_resolved_platform ctx platform =
     (case ctx of None \<Rightarrow> None
      | Some c \<Rightarrow> if trim_space platform = [] then Some c
                   else Some (c\<lparr>rc_target_platform := Some (trim_space platform)\<rparr>))"

definition context_string :: "(route_context \<Rightarrow> string option) \<Rightarrow> route_context option \<Rightarrow> string option" where
  "context_string get ctx =
     (case ctx of None \<Rightarrow> None
      | Some c \<Rightarrow> (case get c of None \<Rightarrow> None
          | Some v \<Rightarrow> if trim_space v = [] then None else Some (trim_space v)))"

definition resolved_platform :: "route_context option \<Rightarrow> string option" where
  "resolved_platform = context_string rc_target_platform"
definition resolved_upstream_model :: "route_context option \<Rightarrow> string option" where
  "resolved_upstream_model = context_string rc_upstream_model"
definition requested_public_model :: "route_context option \<Rightarrow> string option" where
  "requested_public_model = context_string rc_public_model"
definition resolved_route_source :: "route_context option \<Rightarrow> string option" where
  "resolved_route_source = context_string rc_source"

definition with_route_decision :: "route_context option \<Rightarrow> route_decision \<Rightarrow> route_context option" where
  "with_route_decision ctx d =
     (if ctx = None \<or> \<not> dc_matched d then ctx
      else
        let put = (\<lambda>upd v c. if trim_space v = [] then c else upd (\<lambda>_. Some (trim_space v)) c)
        in map_option (put rc_source_update (dc_source d))
             (map_option (put rc_public_model_update (dc_public_model d))
               (map_option (put rc_upstream_model_update (dc_upstream_model d))
                 (with_resolved_platform ctx (dc_target_platform d)))))"

record route_group =
  rg_id :: int
  rg_platform :: string

definition resolve_route_decision ::
  "(string \<Rightarrow> string) \<Rightarrow> route_resolver option \<Rightarrow> route_context option \<Rightarrow> route_group option \<Rightarrow> string \<Rightarrow> string \<Rightarrow>
   route_decision \<times> bool \<times> go_error option" where
  "resolve_route_decision uni r ctx grp requested endpoint =
     (case grp of
        None \<Rightarrow> (open_decision 0 [] [], False, None)
      | Some g \<Rightarrow>
          if rg_platform g \<noteq> platform_composite then (open_decision 0 [] [], False, None)
          else case resolved_platform ctx of
              Some platform \<Rightarrow>
                ((open_decision (rg_id g) requested (normalize_endpoint uni endpoint))
                   \<lparr>dc_matched := True,
                    dc_source := (case resolved_route_source ctx of Some s \<Rightarrow> s | None \<Rightarrow> source_detector),
                    dc_target_platform := platform,
                    dc_upstream_model := (case resolved_upstream_model ctx of Some m \<Rightarrow> m | None \<Rightarrow> requested)\<rparr>,
                 True, None)
            | None \<Rightarrow>
                (case resolve_route uni r (rg_id g) requested endpoint of
                   (d, Some e) \<Rightarrow> (d, False, Some e)
                 | (d, None) \<Rightarrow> (d, dc_matched d, None)))"

end
