(* ===== verification/RouteResolution.thy ===== *)
theory RouteResolution
  imports CompositeRoute
begin

text \<open>
  What the resolution of composite routes promises: which route wins, independence of the
  order in which the repository lists the routes, failing closed, the model catalog, and the
  round trip of a decision through the request context.
\<close>

section \<open>The winning route\<close>

text \<open>When a route serves a model at an endpoint, and how routes that do are ranked: exact
  before prefix, the endpoint's own before \<open>any\<close>, longer public models first, then the
  priority, then the identifier; the least rank wins.\<close>

definition is_prefix_route :: "(string \<Rightarrow> string) \<Rightarrow> composite_route \<Rightarrow> bool" where
  "is_prefix_route uni r \<longleftrightarrow> normalize_match_type uni (rt_match_type r) = match_prefix"

definition route_applies :: "(string \<Rightarrow> string) \<Rightarrow> string \<Rightarrow> string \<Rightarrow> composite_route \<Rightarrow> bool" where
  "route_applies uni model endpoint r \<longleftrightarrow>
     normalize_endpoint uni (rt_endpoint r) \<in> {endpoint, endpoint_any} \<and>
     trim_space (rt_public_model r) \<noteq> [] \<and>
     (if is_prefix_route uni r then prefix (trim_space (rt_public_model r)) model
      else trim_space (rt_public_model r) = model)"

definition route_rank :: "(string \<Rightarrow> string) \<Rightarrow> string \<Rightarrow> composite_route \<Rightarrow> nat \<times> nat \<times> int \<times> int \<times> int" where
  "route_rank uni endpoint r =
     (if is_prefix_route uni r then 1 else 0,
      if normalize_endpoint uni (rt_endpoint r) = endpoint then 0 else 1,
      - int (length (trim_space (rt_public_model r))), rt_priority r, rt_id r)"

definition normalized_route :: "(string \<Rightarrow> string) \<Rightarrow> composite_route \<Rightarrow> composite_route" where
  "normalized_route uni r =
     r\<lparr>rt_endpoint := normalize_endpoint uni (rt_endpoint r),
       rt_match_type := normalize_match_type uni (rt_match_type r)\<rparr>"

definition candidate_rank :: "route_candidate \<Rightarrow> int \<times> int \<times> int \<times> int \<times> int" where
  "candidate_rank c =
     (- cd_match_strength c, - cd_endpoint_weight c, - cd_prefix_len c, rt_priority (cd_route c), rt_id (cd_route c))"

lemma candidate_less_rank: "candidate_less a b \<longleftrightarrow> candidate_rank a < candidate_rank b"
  by (auto simp: candidate_less_def candidate_rank_def)

lemmas candidate_sort = stable_sort_key [of candidate_less candidate_rank, OF candidate_less_rank]

lemma match_kinds: "match_exact \<noteq> match_prefix" "match_prefix \<noteq> match_exact"
  by (simp_all add: match_exact_def match_prefix_def)

lemma normalize_match_type_cases:
  "normalize_match_type uni t = match_prefix \<or> normalize_match_type uni t = match_exact"
  by (simp add: normalize_match_type_def)

lemma candidate_of_applies:
  "route_candidate_of uni model endpoint r = None \<longleftrightarrow> \<not> route_applies uni model endpoint r"
  using normalize_match_type_cases [of uni "rt_match_type r"]
  by (auto simp: route_candidate_of_def route_applies_def is_prefix_route_def Let_def match_kinds)

lemma candidate_of_Some:
  assumes "route_candidate_of uni model endpoint r = Some c"
  shows "cd_route c = normalized_route uni r" "cd_prefix_len c = int (length (trim_space (rt_public_model r)))"
    "cd_match_strength c = (if is_prefix_route uni r then 1 else 2)"
    "cd_endpoint_weight c = (if normalize_endpoint uni (rt_endpoint r) = endpoint then 1 else 0)"
  using assms
  by (auto simp: route_candidate_of_def normalized_route_def is_prefix_route_def Let_def match_kinds
      split: if_splits)

lemma candidate_rank_le:
  assumes "route_candidate_of uni model endpoint r = Some c" "route_candidate_of uni model endpoint r' = Some c'"
  shows "candidate_rank c \<le> candidate_rank c' \<longleftrightarrow> route_rank uni endpoint r \<le> route_rank uni endpoint r'"
  using candidate_of_Some [OF assms(1)] candidate_of_Some [OF assms(2)]
  by (auto simp: candidate_rank_def route_rank_def normalized_route_def)

lemma match_None:
  "match_composite_route uni routes model endpoint = None \<longleftrightarrow>
     (\<forall>r \<in> set routes. \<not> route_applies uni model endpoint r)"
  by (auto simp: match_composite_route_def Let_def map_filter_Nil candidate_of_applies)

lemma match_Some:
  assumes "match_composite_route uni routes model endpoint = Some w"
  shows "\<exists>r \<in> set routes. w = normalized_route uni r \<and> route_applies uni model endpoint r \<and>
    (\<forall>r' \<in> set routes. route_applies uni model endpoint r' \<longrightarrow> route_rank uni endpoint r \<le> route_rank uni endpoint r')"
proof -
  let ?cs = "List.map_filter (route_candidate_of uni model endpoint) routes"
  let ?c = "hd (sort_key candidate_rank ?cs)"
  have ne: "?cs \<noteq> []" and w: "w = cd_route ?c"
    using assms by (auto simp: match_composite_route_def Let_def candidate_sort split: if_splits)
  from hd_sort_key(1) [OF ne, of candidate_rank] obtain r where
    r: "r \<in> set routes" "route_candidate_of uni model endpoint r = Some ?c"
    by (auto simp: map_filter_set)
  have "route_rank uni endpoint r \<le> route_rank uni endpoint r'"
    if r': "r' \<in> set routes" "route_applies uni model endpoint r'" for r'
  proof -
    obtain c' where c': "route_candidate_of uni model endpoint r' = Some c'"
      using r'(2) candidate_of_applies [of uni model endpoint r']
      by (cases "route_candidate_of uni model endpoint r'") auto
    with r'(1) have "c' \<in> set ?cs" by (auto simp: map_filter_set)
    from hd_sort_key(2) [OF ne this, of candidate_rank] candidate_rank_le [OF r(2) c'] show ?thesis by simp
  qed
  moreover have "route_applies uni model endpoint r"
    using r(2) candidate_of_applies [of uni model endpoint r] by auto
  ultimately show ?thesis using r w candidate_of_Some(1) [OF r(2)] by auto
qed

text \<open>C39: The route that serves a request is the best one that applies: no route is found
  exactly when none applies to the model and the endpoint, and the route found is a listed route
  that applies and has the least rank of those that do, where an exact route ranks before a
  prefix route, a route for the endpoint before one for any endpoint, a longer public model
  before a shorter, then a smaller priority and a smaller identifier.\<close>

theorem composite_route_winner:
  "case match_composite_route uni routes model endpoint of
     None \<Rightarrow> \<forall>r \<in> set routes. \<not> route_applies uni model endpoint r
   | Some w \<Rightarrow> \<exists>r \<in> set routes. w = normalized_route uni r \<and> route_applies uni model endpoint r \<and>
       (\<forall>r' \<in> set routes. route_applies uni model endpoint r' \<longrightarrow>
          route_rank uni endpoint r \<le> route_rank uni endpoint r')"
  using match_None [of uni routes model endpoint] match_Some [of uni routes model endpoint]
  by (cases "match_composite_route uni routes model endpoint") auto

text \<open>With distinct route identifiers, the route that serves a request does not depend on the
  order in which the repository lists the routes.\<close>

theorem composite_route_order_free:
  assumes "distinct (map rt_id routes)" "mset routes' = mset routes"
  shows "match_composite_route uni routes' model endpoint = match_composite_route uni routes model endpoint"
proof -
  have set: "set routes' = set routes" using assms(2) by (metis set_mset_mset)
  have uniq: "r = r'" if "r \<in> set routes" "r' \<in> set routes" "rt_id r = rt_id r'" for r r'
    using that assms(1) by (auto simp: distinct_map dest: inj_onD)
  show ?thesis
  proof (cases "match_composite_route uni routes model endpoint")
    case None
    then have "match_composite_route uni routes' model endpoint = None"
      by (simp only: match_None set)
    with None show ?thesis by simp
  next
    case (Some w)
    then obtain w' where w': "match_composite_route uni routes' model endpoint = Some w'"
      using match_None [of uni routes model endpoint] match_None [of uni routes' model endpoint] set
      by (cases "match_composite_route uni routes' model endpoint") auto
    from match_Some [OF Some] match_Some [OF w', unfolded set] obtain r r' where
      r: "r \<in> set routes" "w = normalized_route uni r" "r' \<in> set routes" "w' = normalized_route uni r'"
      and "route_rank uni endpoint r = route_rank uni endpoint r'"
      by (metis order_antisym)
    then have "r = r'" by (intro uniq) (simp_all add: route_rank_def)
    with r Some w' show ?thesis by simp
  qed
qed


section \<open>Failing closed\<close>

definition explicit_route ::
  "(string \<Rightarrow> string) \<Rightarrow> route_resolver option \<Rightarrow> int \<Rightarrow> string \<Rightarrow> string \<Rightarrow> composite_route option" where
  "explicit_route uni r gid model endpoint =
     (case active_repo r gid of None \<Rightarrow> None
      | Some repo \<Rightarrow> (case repo gid False of Inl e \<Rightarrow> None
          | Inr routes \<Rightarrow> match_composite_route uni routes (trim_space model) (normalize_endpoint uni endpoint)))"

lemma open_decision_sel [simp]:
  "dc_matched (open_decision gid m ep) = False" "dc_public_model (open_decision gid m ep) = m"
  "dc_group_id (open_decision gid m ep) = gid" "dc_endpoint (open_decision gid m ep) = ep"
  "dc_reason (open_decision gid m ep) = []" "dc_route (open_decision gid m ep) = None"
  by (simp_all add: open_decision_def)

lemma source_names: "source_explicit \<noteq> source_detector" "source_explicit \<noteq> source_account"
  "source_detector \<noteq> source_account"
  by (simp_all add: source_explicit_def source_detector_def source_account_def)

lemma by_detector_matched:
  assumes "resolve_by_detector uni d0 = (d, err)" "\<not> dc_matched d0" "dc_matched d"
  shows "err = None \<and> is_concrete_platform (dc_target_platform d) \<and> dc_source d = source_detector \<and>
    dc_upstream_model d = dc_public_model d0 \<and> dc_public_model d = dc_public_model d0 \<and>
    dc_endpoint d = dc_endpoint d0 \<and> dc_group_id d = dc_group_id d0 \<and> dc_reason d = dc_reason d0 \<and>
    dc_route d = dc_route d0"
  using assms by (auto simp: resolve_by_detector_def detected_concrete split: option.splits)

lemma by_owner_matched:
  assumes "resolve_by_owner uni r d0 = (d, err)" "\<not> dc_matched d0" "dc_matched d"
  shows "err = None \<and> is_concrete_platform (dc_target_platform d) \<and>
    dc_source d \<in> {source_account, source_detector} \<and>
    dc_upstream_model d = dc_public_model d0 \<and> dc_public_model d = dc_public_model d0 \<and>
    dc_endpoint d = dc_endpoint d0 \<and> dc_group_id d = dc_group_id d0 \<and> dc_reason d = dc_reason d0 \<and>
    dc_route d = dc_route d0"
  using assms by_detector_matched [of uni d0 d err]
  by (auto simp: resolve_by_owner_def Let_def split: option.splits sum.splits if_splits)

lemma normalize_endpoint_known: "normalize_endpoint uni e \<in> set (endpoint_any # known_endpoints)"
  by (simp add: normalize_endpoint_def Let_def)

text \<open>The resolution in one equation for a non-blank model.\<close>

lemma resolve_route_unfold:
  assumes "trim_space m \<noteq> []"
  shows "resolve_route uni r gid m ep =
    (case explicit_route uni r gid m ep of
       Some route \<Rightarrow>
         ((open_decision gid (trim_space m) (normalize_endpoint uni ep))
            \<lparr>dc_matched := True, dc_source := source_explicit, dc_target_platform := rt_target_platform route,
             dc_upstream_model := (if trim_space (rt_upstream_model route) = [] then trim_space m
               else trim_space (rt_upstream_model route)),
             dc_route := Some route\<rparr>, None)
     | None \<Rightarrow>
         (case active_repo r gid of
            Some repo \<Rightarrow>
              (case repo gid False of
                 Inl e \<Rightarrow> (open_decision gid (trim_space m) (normalize_endpoint uni ep),
                           Some (Wrapping_error ''list composite routes'' e))
               | Inr _ \<Rightarrow> resolve_by_owner uni r (open_decision gid (trim_space m) (normalize_endpoint uni ep)))
          | None \<Rightarrow> resolve_by_owner uni r (open_decision gid (trim_space m) (normalize_endpoint uni ep))))"
  using assms
  by (auto simp: resolve_route_def explicit_route_def Let_def split: option.split sum.split)

lemma matched_decision:
  assumes "resolve_route uni r gid m ep = (d, err)" "dc_matched d"
  shows "err = None \<and> dc_group_id d = gid \<and> dc_public_model d = trim_space m \<and> trim_space m \<noteq> [] \<and>
    dc_endpoint d \<in> set (endpoint_any # known_endpoints) \<and> dc_upstream_model d \<noteq> [] \<and> dc_reason d = [] \<and>
    (case explicit_route uni r gid m ep of
       Some route \<Rightarrow> dc_source d = source_explicit \<and> dc_route d = Some route \<and>
         dc_target_platform d = rt_target_platform route \<and>
         dc_upstream_model d = (if trim_space (rt_upstream_model route) = [] then trim_space m
           else trim_space (rt_upstream_model route))
     | None \<Rightarrow> dc_source d \<in> {source_account, source_detector} \<and>
         is_concrete_platform (dc_target_platform d) \<and> dc_upstream_model d = trim_space m \<and>
         dc_route d = None)"
proof -
  have m: "trim_space m \<noteq> []"
    using assms by (auto simp: resolve_route_def Let_def)
  note un = resolve_route_unfold [OF m, of uni r gid ep]
  show ?thesis
  proof (cases "explicit_route uni r gid m ep")
    case (Some route)
    with assms(1) m normalize_endpoint_known [of uni ep] show ?thesis by (auto simp: un)
  next
    case None
    let ?d = "open_decision gid (trim_space m) (normalize_endpoint uni ep)"
    from None assms have "resolve_by_owner uni r ?d = (d, err)"
      by (auto simp: un split: option.splits sum.splits)
    from by_owner_matched [OF this _ assms(2)] None m normalize_endpoint_known [of uni ep] show ?thesis
      by simp
  qed
qed

text \<open>A composite group answers only with a provider it has reason for. Whenever a request is
  matched, there was no error, the public model is the request's own and not blank, the endpoint
  is a known one and an upstream model is given; and either the explicit route for the request
  exists and gives the target (and its upstream model, or the requested model if that is blank), or
  there is no explicit route and the target, found from the accounts or the model's name, is one of
  the registered concrete platforms, serving the requested model itself.\<close>

theorem composite_fails_closed:
  assumes "resolve_route uni r gid m ep = (d, err)" "dc_matched d"
  shows "err = None \<and> dc_group_id d = gid \<and> dc_public_model d = trim_space m \<and> trim_space m \<noteq> [] \<and>
    dc_endpoint d \<in> set (endpoint_any # known_endpoints) \<and> dc_upstream_model d \<noteq> [] \<and>
    (case explicit_route uni r gid m ep of
       Some route \<Rightarrow> dc_source d = source_explicit \<and> dc_route d = Some route \<and>
         dc_target_platform d = rt_target_platform route \<and>
         dc_upstream_model d = (if trim_space (rt_upstream_model route) = [] then trim_space m
           else trim_space (rt_upstream_model route))
     | None \<Rightarrow> dc_source d \<in> {source_account, source_detector} \<and>
         is_concrete_platform (dc_target_platform d) \<and> dc_upstream_model d = trim_space m)"
  using matched_decision [OF assms] by (auto split: option.splits)

text \<open>A request is rejected as ambiguous between OAuth accounts exactly when no explicit
  route serves it, the account catalog reports several provider platforms with an OAuth account of
  the OpenAI gateway among the claimants, and the model's name points to a platform of the OpenAI
  gateway.\<close>

theorem composite_oauth_rejection:
  assumes "resolve_route uni r gid m ep = (d, None)"
  shows "oauth_ambiguous d \<longleftrightarrow>
    trim_space m \<noteq> [] \<and> explicit_route uni r gid m ep = None \<and>
    (\<exists>owner o_ship guessed. active_ownership r gid = Some owner \<and> owner gid (trim_space m) = Inr o_ship \<and>
       mo_ambiguous o_ship \<and> mo_openai_oauth_claimed o_ship \<and>
       detect_model_platform uni (trim_space m) = Some guessed \<and> uses_openai_gateway guessed)"
proof (cases "trim_space m = []")
  case True
  with assms show ?thesis
    by (auto simp: resolve_route_def Let_def oauth_ambiguous_def reason_oauth_ambiguous_def)
next
  case False
  note un = resolve_route_unfold [OF False, of uni r gid ep]
  show ?thesis
  proof (cases "explicit_route uni r gid m ep")
    case (Some route)
    with assms show ?thesis by (auto simp: un oauth_ambiguous_def)
  next
    case None
    let ?d = "open_decision gid (trim_space m) (normalize_endpoint uni ep)"
    from None assms have "resolve_by_owner uni r ?d = (d, None)"
      by (auto simp: un split: option.splits sum.splits)
    with None False show ?thesis
      by (auto simp: resolve_by_owner_def resolve_by_detector_def oauth_ambiguous_def Let_def
          reason_oauth_ambiguous_def reason_ambiguous_def split: option.splits sum.splits if_splits)
  qed
qed

section \<open>The catalog\<close>

text \<open>Every model a composite group lists in its catalog for an endpoint can be requested:
  resolving it at that endpoint matches an explicit exact route for exactly this model, and when
  the System One models are left out of the list, that route's target is another platform.\<close>

theorem composite_catalog_resolves:
  assumes "list_exact_public_models uni r gid endpoint include_system_one = Inr models" "m \<in> set models"
    and "normalize_endpoint uni endpoint = endpoint"
  shows "\<exists>d route. resolve_route uni r gid m endpoint = (d, None) \<and> dc_matched d \<and>
    dc_source d = source_explicit \<and> dc_route d = Some route \<and> rt_match_type route = match_exact \<and>
    trim_space (rt_public_model route) = m \<and>
    (\<not> include_system_one \<longrightarrow> dc_target_platform d \<noteq> platform_typesafe)"
proof -
  from assms(1,2) obtain repo routes where repo: "active_repo r gid = Some repo" "repo gid False = Inr routes"
    by (auto simp: list_exact_public_models_def Let_def split: option.splits sum.splits)
  have ne: "endpoint \<noteq> []"
    using normalize_endpoint_known [of uni endpoint] assms(3)
    by (auto simp: endpoint_any_def known_endpoints_def)
  from assms(1,2) repo ne obtain r0 where r0: "r0 \<in> set routes" "rt_match_type r0 = match_exact"
      "normalize_endpoint uni (rt_endpoint r0) \<in> {endpoint, endpoint_any}" "trim_space (rt_public_model r0) = m"
      "m \<noteq> []"
    and sys: "\<not> include_system_one \<Longrightarrow>
      m \<in> set (filter_system_one uni routes [m] endpoint)"
    by (auto simp: list_exact_public_models_def filter_system_one_def Let_def split: if_splits)
  have trim: "trim_space m = m" using r0(4) by auto
  have exact: "\<not> is_prefix_route uni r0"
    using r0(2) by (simp add: is_prefix_route_def normalize_match_type_def match_kinds trim_space_graphic)
      (simp add: match_exact_def match_prefix_def to_lower_def is_ascii_def ascii_lower_char_def trim_space_graphic)
  have app0: "route_applies uni m endpoint r0"
    using r0 exact by (auto simp: route_applies_def)
  then obtain w where w: "match_composite_route uni routes m endpoint = Some w"
    using match_None [of uni routes m endpoint] r0(1) by (cases "match_composite_route uni routes m endpoint") auto
  from match_Some [OF w] app0 r0(1) obtain r1 where r1: "w = normalized_route uni r1"
      "route_applies uni m endpoint r1" "route_rank uni endpoint r1 \<le> route_rank uni endpoint r0"
    by blast
  have "\<not> is_prefix_route uni r1" using r1(3) exact by (auto simp: route_rank_def)
  with r1(1,2) normalize_match_type_cases [of uni "rt_match_type r1"]
  have "rt_match_type w = match_exact" "trim_space (rt_public_model w) = m"
    by (auto simp: is_prefix_route_def normalized_route_def route_applies_def)
  moreover have "explicit_route uni r gid m endpoint = Some w"
    using repo w assms(3) trim by (simp add: explicit_route_def)
  moreover have "\<not> include_system_one \<longrightarrow> rt_target_platform w \<noteq> platform_typesafe"
    using sys w assms(3) by (auto simp: filter_system_one_def)
  ultimately show ?thesis
    using trim r0(5) by (simp add: resolve_route_unfold)
qed

section \<open>The decision in the context\<close>

lemma source_trim [simp]:
  "trim_space source_explicit = source_explicit" "trim_space source_account = source_account"
  "trim_space source_detector = source_detector"
  by (rule trim_space_graphic, simp add: source_explicit_def source_account_def source_detector_def)+

lemma source_not_Nil [simp]: "source_explicit \<noteq> []" "source_account \<noteq> []" "source_detector \<noteq> []"
  by (simp_all add: source_explicit_def source_account_def source_detector_def)

lemma detector_endpoint: "dc_endpoint (fst (resolve_by_detector uni d)) = dc_endpoint d"
  by (simp add: resolve_by_detector_def split: option.split)

lemma resolve_endpoint: "dc_endpoint (fst (resolve_route uni r gid m ep)) = normalize_endpoint uni ep"
  by (auto simp: resolve_route_def resolve_by_owner_def Let_def detector_endpoint
      split: option.split sum.split)

text \<open>A decision survives the request context: after a matched decision with a target has been
  stored, resolving again in the same composite group gives the same target, upstream model and source,
  whatever the resolver and the repository would now say.\<close>

theorem composite_decision_round_trip:
  assumes "resolve_route uni r (rg_id g) m ep = (d, err)" "dc_matched d" "trim_space (dc_target_platform d) \<noteq> []"
    and "rg_platform g = platform_composite" "trim_space m = m"
  shows "resolve_route_decision uni r' (with_route_decision (Some c) d) (Some g) m ep =
    (d\<lparr>dc_target_platform := trim_space (dc_target_platform d), dc_route := None\<rparr>, True, None)"
proof -
  let ?u = "dc_upstream_model d"
  note d = matched_decision [OF assms(1,2)]
  have u: "trim_space ?u = ?u" and src: "trim_space (dc_source d) = dc_source d" "dc_source d \<noteq> []"
    using d by (auto simp: source_trim source_not_Nil split: option.splits)
  let ?c = "c\<lparr>rc_target_platform := Some (trim_space (dc_target_platform d)), rc_upstream_model := Some ?u,
    rc_public_model := Some m, rc_source := Some (dc_source d)\<rparr>"
  have "with_route_decision (Some c) d = Some ?c"
    using d assms(2,3,5) u src by (simp add: with_route_decision_def with_resolved_platform_def)
  moreover have "resolved_platform (Some ?c) = Some (trim_space (dc_target_platform d))"
      "resolved_upstream_model (Some ?c) = Some ?u" "resolved_route_source (Some ?c) = Some (dc_source d)"
    using d assms(3) u src
    by (simp_all add: resolved_platform_def resolved_upstream_model_def resolved_route_source_def context_string_def)
  moreover have "dc_endpoint d = normalize_endpoint uni ep"
    using assms(1,2) resolve_endpoint [of uni r "rg_id g" m ep] by simp
  ultimately show ?thesis
    using d assms(2,4,5)
    by (intro prod_eqI route_decision.equality) (simp_all add: resolve_route_decision_def)
qed


section \<open>Normalising the input\<close>

lemma normalize_endpoint_idem: "normalize_endpoint uni (normalize_endpoint uni e) = normalize_endpoint uni e"
proof -
  have "\<forall>k \<in> set (endpoint_any # known_endpoints). trim_space k = k \<and> to_lower uni k = k"
    by (auto simp: endpoint_any_def known_endpoints_def to_lower_def is_ascii_def ascii_lower_char_def
        intro!: trim_space_graphic)
  with normalize_endpoint_known [of uni e] have
    "trim_space (normalize_endpoint uni e) = normalize_endpoint uni e"
    "to_lower uni (normalize_endpoint uni e) = normalize_endpoint uni e" by blast+
  moreover have "normalize_endpoint uni e \<noteq> []"
    using normalize_endpoint_known [of uni e] by (auto simp: endpoint_any_def known_endpoints_def)
  ultimately show ?thesis
    using normalize_endpoint_known [of uni e] by (auto simp: normalize_endpoint_def [of uni "normalize_endpoint uni e"])
qed

lemma normalize_match_type_idem [simp]:
  "normalize_match_type uni (normalize_match_type uni t) = normalize_match_type uni t"
proof -
  have "trim_space match_prefix = match_prefix" "trim_space match_exact = match_exact"
    by (rule trim_space_graphic, simp add: match_prefix_def match_exact_def)+
  then show ?thesis
    by (simp add: normalize_match_type_def)
      (simp add: match_prefix_def match_exact_def to_lower_def is_ascii_def ascii_lower_char_def)
qed

text \<open>Normalising the input of a route is idempotent, so storing a route that was read back
  does not change it; and it does not change which requests the route serves nor the upstream model
  it gives them: a route built from the normalised input applies to the same requests, and an exact
  route's blank upstream model is filled with the only model it can be asked for.\<close>

theorem normalize_route_input_stable:
  fixes uni :: "string \<Rightarrow> string" and input :: route_input and r :: composite_route
  defines "n \<equiv> normalize_route_input uni input"
    and "build \<equiv> \<lambda>i. r\<lparr>rt_public_model := ri_public_model i, rt_match_type := ri_match_type i,
      rt_upstream_model := ri_upstream_model i, rt_endpoint := ri_endpoint i\<rparr>"
  shows "normalize_route_input uni n = n \<and>
    route_applies uni model endpoint (build n) = route_applies uni model endpoint (build input) \<and>
    (route_applies uni model endpoint (build input) \<longrightarrow>
      (if trim_space (rt_upstream_model (build n)) = [] then model else trim_space (rt_upstream_model (build n))) =
      (if trim_space (rt_upstream_model (build input)) = [] then model else trim_space (rt_upstream_model (build input))))"
proof (intro conjI)
  show "normalize_route_input uni n = n"
    by (simp add: n_def normalize_route_input_def Let_def normalize_endpoint_idem)
  show "route_applies uni model endpoint (build n) = route_applies uni model endpoint (build input)"
    by (simp add: n_def build_def normalize_route_input_def Let_def route_applies_def is_prefix_route_def
        normalize_endpoint_idem)
  show "route_applies uni model endpoint (build input) \<longrightarrow>
      (if trim_space (rt_upstream_model (build n)) = [] then model else trim_space (rt_upstream_model (build n))) =
      (if trim_space (rt_upstream_model (build input)) = [] then model else trim_space (rt_upstream_model (build input)))"
    by (auto simp: n_def build_def normalize_route_input_def Let_def route_applies_def is_prefix_route_def
        match_kinds)
qed

section \<open>Witnesses\<close>

definition demo_route :: "int \<Rightarrow> string \<Rightarrow> string \<Rightarrow> string \<Rightarrow> string \<Rightarrow> composite_route" where
  "demo_route n public mt target ep =
     \<lparr>rt_id = n, rt_group_id = 1, rt_public_model = public, rt_match_type = mt, rt_target_platform = target,
      rt_upstream_model = [], rt_endpoint = ep, rt_priority = 10, rt_enabled = True, rt_notes = [],
      rt_created_at = 0, rt_updated_at = 0\<rparr>"

definition demo_routes :: "composite_route list" where
  "demo_routes =
     [demo_route 1 ''k'' ''prefix'' ''deepseek'' ''any'',
      demo_route 2 ''k4'' ''exact'' ''kimi'' ''messages'',
      demo_route 3 ''k4'' ''prefix'' ''opencode_go'' ''any'']"

definition demo_resolver :: "route_resolver option" where
  "demo_resolver = Some \<lparr>rr_repo = Some (\<lambda>_ _. Inr demo_routes),
     rr_ownership = Some (\<lambda>_ _. Inr \<lparr>mo_target_platform = [], mo_matched = False, mo_ambiguous = True,
       mo_openai_oauth_claimed = True\<rparr>)\<rparr>"

lemma composite_fails_closed_witness:
  "dc_upstream_model (fst (resolve_route id demo_resolver 1 '' k4f '' ''any'')) = ''k4f''"
proof -
  let ?r = "resolve_route id demo_resolver 1 '' k4f '' ''any''"
  have 1: "?r = (fst ?r, snd ?r)" and 2: "dc_matched (fst ?r)" and 3: "trim_space '' k4f '' = ''k4f''"
    and 4: "map_option rt_upstream_model (explicit_route id demo_resolver 1 '' k4f '' ''any'') = Some []"
    by (simp, code_simp, code_simp, code_simp)
  from composite_fails_closed [OF 1 2] 3 4 show ?thesis by auto
qed

lemma composite_route_winner_witness:
  "map_option rt_id (match_composite_route id demo_routes ''k4'' ''messages'') = Some 2"
proof -
  let ?r2 = "demo_route 2 ''k4'' ''exact'' ''kimi'' ''messages''"
  have r2: "?r2 \<in> set demo_routes" by (simp add: demo_routes_def)
  have app: "route_applies id ''k4'' ''messages'' ?r2" and exact: "\<not> is_prefix_route id ?r2"
    and other: "list_all (\<lambda>r. \<not> is_prefix_route id r \<longrightarrow> rt_id r = 2) demo_routes"
    by code_simp+
  obtain w where w: "match_composite_route id demo_routes ''k4'' ''messages'' = Some w"
    using composite_route_winner [where uni = id and routes = demo_routes and model = "''k4''" and endpoint = "''messages''"] r2 app
    by (cases "match_composite_route id demo_routes ''k4'' ''messages''") auto
  with composite_route_winner [where uni = id and routes = demo_routes and model = "''k4''" and endpoint = "''messages''"] obtain r where
    r: "r \<in> set demo_routes" "w = normalized_route id r" "route_rank id ''messages'' r \<le> route_rank id ''messages'' ?r2"
    using r2 app by auto
  with exact have "\<not> is_prefix_route id r" by (auto simp: route_rank_def less_eq_prod_def)
  with other r(1) have "rt_id r = 2" unfolding list_all_iff by blast
  with r(2) w show ?thesis by (simp add: normalized_route_def)
qed

end
