(* ===== verification/ModelAllowlist.thy ===== *)
theory ModelAllowlist
  imports Prelude AppErrors
begin

text \<open>
  The allowlist of models of a group (\<^verbatim>\<open>internal/service/group_model_allowlist.go\<close>): entries
  with \<open>*\<close> as the only wildcard. Parameters: \<open>uni\<close>, the Unicode lower-casing of a string with
  bytes of 0x80 or more; \<open>fld\<close>, \<open>strings.EqualFold\<close> on such strings; and \<open>alias\<close>, the
  normalisation of the spellings of OpenAI models
  (\<^verbatim>\<open>NormalizeOpenAICompatRequestedModel\<close>), over which every statement is quantified.
\<close>

section \<open>Data\<close>

record model_allowlist =
  wl_enabled :: bool
  wl_models :: "string list"

record domain_allowlist =
  dw_enabled :: bool
  dw_models :: "string list"

definition domain_allowlist_of :: "model_allowlist \<Rightarrow> domain_allowlist" where
  "domain_allowlist_of cfg = \<lparr>dw_enabled = wl_enabled cfg, dw_models = wl_models cfg\<rparr>"

definition allowlist_from_domain :: "domain_allowlist \<Rightarrow> model_allowlist" where
  "allowlist_from_domain cfg = \<lparr>wl_enabled = dw_enabled cfg, wl_models = dw_models cfg\<rparr>"

definition allowlist_enabled :: "model_allowlist option \<Rightarrow> bool" where
  "allowlist_enabled grp = (case grp of None \<Rightarrow> False | Some a \<Rightarrow> wl_enabled a)"

section \<open>Normalising a submitted list\<close>

definition empty_allowlist_error :: go_error where
  "empty_allowlist_error =
     new_app 400 ''INVALID_MODEL_ALLOWLIST'' ''model allowlist cannot be enabled with an empty model list''"

text \<open>The loop: trimmed, non-blank, the first of each lower-case spelling.\<close>

fun dedup_models :: "(string \<Rightarrow> string) \<Rightarrow> string set \<Rightarrow> string list \<Rightarrow> string list" where
  "dedup_models uni seen [] = []"
| "dedup_models uni seen (m0 # ms) =
     (let m = trim_space m0; key = to_lower uni m in
      if m = [] then dedup_models uni seen ms
      else if key \<in> seen then dedup_models uni seen ms
      else m # dedup_models uni (insert key seen) ms)"

definition normalize_allowlist ::
  "(string \<Rightarrow> string) \<Rightarrow> model_allowlist \<Rightarrow> model_allowlist \<times> go_error option" where
  "normalize_allowlist uni cfg =
     (let out = \<lparr>wl_enabled = wl_enabled cfg, wl_models = dedup_models uni {} (wl_models cfg)\<rparr>
      in (out, if wl_models out = [] \<and> wl_enabled out then Some empty_allowlist_error else None))"

section \<open>Admission\<close>

text \<open>The parts after the first: each but the last at its first occurrence, the last as a suffix.\<close>

fun match_parts :: "string list \<Rightarrow> string \<Rightarrow> bool" where
  "match_parts [] m = False"
| "match_parts [p] m = suffix p m"
| "match_parts (p # q # ps) m =
     (case str_index m p of None \<Rightarrow> False | Some i \<Rightarrow> match_parts (q # ps) (drop (i + length p) m))"

definition pattern_matches :: "(string \<Rightarrow> string) \<Rightarrow> string \<Rightarrow> string \<Rightarrow> bool" where
  "pattern_matches uni pattern0 model0 =
     (let pattern = to_lower uni pattern0; model = to_lower uni model0;
          parts = split_at CHR ''*'' pattern
      in if length parts = 1 then pattern = model
         else if \<not> prefix (hd parts) model then False
         else match_parts (tl parts) (drop (length (hd parts)) model))"

definition model_id_overrides :: "(string, string) gomap" where
  "model_id_overrides =
     [(''claude-sonnet-4-5'', ''claude-sonnet-4-5-20250929''),
      (''claude-opus-4-5'', ''claude-opus-4-5-20251101''),
      (''claude-haiku-4-5'', ''claude-haiku-4-5-20251001'')]"

definition normalize_model_id :: "string \<Rightarrow> string" where
  "normalize_model_id i =
     (if i = [] then i else case gm_get model_id_overrides i of Some m \<Rightarrow> m | None \<Rightarrow> i)"

definition add_candidate :: "(string \<Rightarrow> string) \<Rightarrow> string \<Rightarrow> string list \<Rightarrow> string list" where
  "add_candidate uni v cs =
     (let value = to_lower uni (trim_space v) in
      if value = [] \<or> value \<in> set cs then cs else cs @ [value])"

definition allowlist_candidates :: "(string \<Rightarrow> string) \<Rightarrow> (string \<Rightarrow> string) \<Rightarrow> string \<Rightarrow> string list" where
  "allowlist_candidates uni alias model =
     add_candidate uni (alias model)
       (add_candidate uni (normalize_model_id (trim_suffix ''-thinking'' model))
         (add_candidate uni (trim_prefix ''models/'' model)
           (add_candidate uni model [])))"

definition allowlist_allows ::
  "(string \<Rightarrow> string) \<Rightarrow> (string \<Rightarrow> string) \<Rightarrow> model_allowlist \<Rightarrow> string \<Rightarrow> bool" where
  "allowlist_allows uni alias a model0 =
     (if \<not> wl_enabled a then True
      else
        let model = trim_space model0 in
        if model = [] then True
        else
          let candidates = allowlist_candidates uni alias model in
          \<exists>e \<in> set (wl_models a). trim_space e \<noteq> [] \<and>
            (\<exists>c \<in> set candidates. pattern_matches uni (trim_space e) c))"

section \<open>Listing\<close>

definition source_allows ::
  "(string \<Rightarrow> string) \<Rightarrow> (string \<Rightarrow> string \<Rightarrow> bool) \<Rightarrow> string list \<Rightarrow> string \<Rightarrow> bool" where
  "source_allows uni fld patterns model =
     ((\<exists>p \<in> set patterns. equal_fold fld p model \<or>
        suffix ''*'' p \<and> prefix (to_lower uni (trim_suffix ''*'' p)) (to_lower uni model)) \<or>
      (let n = normalize_model_id (trim_suffix ''-thinking'' model) in
       \<not> equal_fold fld n model \<and> (\<exists>p \<in> set patterns. equal_fold fld p n)))"

definition add_listed :: "(string \<Rightarrow> string) \<Rightarrow> string \<Rightarrow> string list \<Rightarrow> string list" where
  "add_listed uni m out = (if to_lower uni m \<in> set (map (to_lower uni) out) then out else out @ [m])"

definition list_pattern :: "(string \<Rightarrow> string) \<Rightarrow> string \<Rightarrow> string \<Rightarrow> string list \<Rightarrow> string list" where
  "list_pattern uni entry p out =
     (if pattern_matches uni entry p then add_listed uni p out
      else if suffix ''*'' p \<and> CHR ''*'' \<notin> set (trim_suffix ''*'' p) \<and>
        prefix (to_lower uni (trim_suffix ''*'' p)) (to_lower uni entry) then add_listed uni entry out
      else out)"

definition list_entry ::
  "(string \<Rightarrow> string) \<Rightarrow> (string \<Rightarrow> string \<Rightarrow> bool) \<Rightarrow> string list \<Rightarrow> string \<Rightarrow> string list \<Rightarrow> string list" where
  "list_entry uni fld patterns entry0 out =
     (let entry = trim_space entry0 in
      if entry = [] then out
      else if CHR ''*'' \<in> set entry then
        fold (list_pattern uni entry) patterns out
      else if source_allows uni fld patterns entry then add_listed uni entry out
      else out)"

definition filter_for_listing ::
  "(string \<Rightarrow> string) \<Rightarrow> (string \<Rightarrow> string \<Rightarrow> bool) \<Rightarrow> model_allowlist \<Rightarrow> string list \<Rightarrow> string list" where
  "filter_for_listing uni fld a source =
     (if \<not> wl_enabled a then source
      else if wl_models a = [] then []
      else
        let patterns = filter (\<lambda>p. p \<noteq> []) (map trim_space source) in
        if patterns = [] then [] else fold (list_entry uni fld patterns) (wl_models a) [])"

section \<open>What a pattern means\<close>

text \<open>The meaning of a pattern: \<open>*\<close> stands for any string, every other byte for itself.\<close>

fun glob :: "string \<Rightarrow> string \<Rightarrow> bool" where
  "glob [] m = (m = [])"
| "glob (c # p) m =
     (if c = CHR ''*'' then glob p m \<or> (case m of [] \<Rightarrow> False | _ # m' \<Rightarrow> glob (c # p) m')
      else (case m of [] \<Rightarrow> False | d # m' \<Rightarrow> c = d \<and> glob p m'))"

lemma glob_star: "glob (CHR ''*'' # p) m \<longleftrightarrow> (\<exists>u v. m = u @ v \<and> glob p v)"
proof (induction m)
  case (Cons d m)
  have "(\<exists>u v. d # m = u @ v \<and> glob p v) \<longleftrightarrow> glob p (d # m) \<or> (\<exists>u v. m = u @ v \<and> glob p v)"
    by (auto simp: Cons_eq_append_conv)
  with Cons show ?case by simp
qed auto

declare glob.simps(2) [simp del]

lemma glob_byte: "c \<noteq> CHR ''*'' \<Longrightarrow> glob (c # p) m \<longleftrightarrow> (\<exists>m'. m = c # m' \<and> glob p m')"
  by (cases m) (auto simp: glob.simps(2))

text \<open>The meaning of the parts between the stars.\<close>

fun glob_parts :: "string list \<Rightarrow> string \<Rightarrow> bool" where
  "glob_parts [] m = False"
| "glob_parts [p] m = (m = p)"
| "glob_parts (p # q # ps) m = (\<exists>u v. m = p @ u @ v \<and> glob_parts (q # ps) v)"

lemma glob_parts_step:
  "ps \<noteq> [] \<Longrightarrow> glob_parts (p # ps) m \<longleftrightarrow> (\<exists>u v. m = p @ u @ v \<and> glob_parts ps v)"
  by (cases ps) auto

lemma glob_split: "glob p m \<longleftrightarrow> glob_parts (split_at CHR ''*'' p) m"
proof (induction p arbitrary: m)
  case Nil
  then show ?case by simp
next
  case (Cons c p)
  show ?case
  proof (cases "c = CHR ''*''")
    case True
    with Cons show ?thesis by (simp add: glob_star glob_parts_step)
  next
    case False
    obtain w ps where s: "split_at CHR ''*'' p = w # ps"
      by (cases "split_at CHR ''*'' p") auto
    with False Cons show ?thesis by (cases ps) (auto simp: glob_byte)
  qed
qed

text \<open>Taking the first occurrence of each part is enough.\<close>

lemma match_parts_glob:
  "ps \<noteq> [] \<Longrightarrow> match_parts ps m \<longleftrightarrow> (\<exists>u v. m = u @ v \<and> glob_parts ps v)"
proof (induction ps m rule: match_parts.induct)
  case (2 p m)
  then show ?case by (auto simp: suffix_def)
next
  case (3 p q ps m)
  show ?case
  proof
    assume "match_parts (p # q # ps) m"
    then obtain i where i: "str_index m p = Some i" "match_parts (q # ps) (drop (i + length p) m)"
      by (auto split: option.splits)
    from str_index_Some [OF i(1)] obtain x y where m: "m = x @ p @ y" "length x = i" by blast
    with "3.IH" [OF i(1)] i(2) obtain u v where "y = u @ v" "glob_parts (q # ps) v" by auto
    with m show "\<exists>u v. m = u @ v \<and> glob_parts (p # q # ps) v" by auto
  next
    assume "\<exists>u v. m = u @ v \<and> glob_parts (p # q # ps) v"
    then obtain u u' v where m: "m = u @ p @ (u' @ v)" and v: "glob_parts (q # ps) v" by auto
    from str_index_le [OF m] obtain i where i: "i \<le> length u" "str_index m p = Some i" by blast
    have "drop (i + length p) m = drop (i + length p) (u @ p @ u') @ v"
      using i(1) by (simp add: m)
    with "3.IH" [OF i(2)] v i(2) show "match_parts (p # q # ps) m" by auto
  qed
qed simp

lemma split_at_single: "split_at c s = [w] \<Longrightarrow> w = s"
  by (induction s arbitrary: w) (auto split: list.splits if_splits)

lemma pattern_matches_glob: "pattern_matches uni p m \<longleftrightarrow> glob (to_lower uni p) (to_lower uni m)"
proof -
  let ?p = "to_lower uni p" and ?m = "to_lower uni m"
  obtain w ps where s: "split_at CHR ''*'' ?p = w # ps"
    by (cases "split_at CHR ''*'' ?p") auto
  show ?thesis
  proof (cases "ps = []")
    case True
    with s split_at_single [of "CHR ''*''" ?p w] show ?thesis
      by (auto simp: pattern_matches_def glob_split)
  next
    case False
    then have "glob ?p ?m \<longleftrightarrow> (\<exists>x. ?m = w @ x \<and> match_parts ps x)"
      by (auto simp: glob_split s glob_parts_step match_parts_glob)
    with s False show ?thesis
      by (auto simp: pattern_matches_def Let_def prefix_def)
  qed
qed

section \<open>Admission\<close>

text \<open>What is used of lower-casing: it is idempotent, empties no string and makes no \<open>*\<close>; and
  of case folding: it identifies what lower-casing identifies.\<close>

definition lower_ok :: "(string \<Rightarrow> string) \<Rightarrow> bool" where
  "lower_ok uni \<longleftrightarrow> (\<forall>s. to_lower uni (to_lower uni s) = to_lower uni s) \<and> (\<forall>s. to_lower uni s = [] \<longrightarrow> s = []) \<and>
     (\<forall>s. CHR ''*'' \<in> set (to_lower uni s) \<longrightarrow> CHR ''*'' \<in> set s)"

definition fold_ok :: "(string \<Rightarrow> string) \<Rightarrow> (string \<Rightarrow> string \<Rightarrow> bool) \<Rightarrow> bool" where
  "fold_ok uni fld \<longleftrightarrow> (\<forall>s t. to_lower uni s = to_lower uni t \<longrightarrow> equal_fold fld s t)"

lemma lower_okD:
  "lower_ok uni \<Longrightarrow> to_lower uni (to_lower uni s) = to_lower uni s"
  "lower_ok uni \<Longrightarrow> to_lower uni s = [] \<longleftrightarrow> s = []"
proof -
  assume ok: "lower_ok uni"
  then show "to_lower uni (to_lower uni s) = to_lower uni s" unfolding lower_ok_def by blast
  have "to_lower uni [] = []" by (simp add: to_lower_def is_ascii_def)
  with ok show "to_lower uni s = [] \<longleftrightarrow> s = []" unfolding lower_ok_def by metis
qed

lemma ascii_lower_idem [simp]: "ascii_lower_char (ascii_lower_char c) = ascii_lower_char c"
  by (simp add: ascii_lower_char_def Let_def)

lemma is_ascii_lower [simp]: "is_ascii s \<Longrightarrow> is_ascii (map ascii_lower_char s)"
  by (auto simp: is_ascii_def list_all_iff ascii_lower_char_def Let_def)

lemma of_char_lower: "(of_char (ascii_lower_char c) :: nat) =
  (if 65 \<le> (of_char c :: nat) \<and> (of_char c :: nat) \<le> 90 then of_char c + 32 else of_char c)"
  by (simp add: ascii_lower_char_def Let_def)

lemma lower_star: "ascii_lower_char c = CHR ''*'' \<Longrightarrow> c = CHR ''*''"
proof -
  assume "ascii_lower_char c = CHR ''*''"
  then have "(of_char (ascii_lower_char c) :: nat) = 42" by simp
  then have "(of_char c :: nat) = of_char (CHR ''*'')" unfolding of_char_lower by (auto split: if_splits)
  then show ?thesis by (simp only: of_char_eq_iff)
qed

lemma lower_ok_id [simp]: "lower_ok id"
  using lower_star by (fastforce simp: lower_ok_def to_lower_def comp_def)

lemma add_candidate_set:
  "set (add_candidate uni v cs) =
     (if to_lower uni (trim_space v) = [] then set cs else insert (to_lower uni (trim_space v)) (set cs))"
  by (auto simp: add_candidate_def Let_def)

definition spellings :: "(string \<Rightarrow> string) \<Rightarrow> string \<Rightarrow> string set" where
  "spellings alias m =
     {m, trim_prefix ''models/'' m, normalize_model_id (trim_suffix ''-thinking'' m), alias m}"

text \<open>C40: An enabled allowlist admits a model exactly when one of its entries means it: some
  non-blank entry, lower-cased and read as a pattern in which \<open>*\<close> stands for any string, matches
  the whole of one of the model's spellings (its own, without \<open>models/\<close>, as the Claude ID without
  \<open>-thinking\<close>, or under the OpenAI alias), lower-cased. A disabled list, or a request without a
  model, is admitted. The code's matcher takes the first occurrence of each part and never
  backtracks; it nevertheless accepts every string the pattern means.\<close>

theorem allowlist_admission:
  assumes "lower_ok uni"
  shows "allowlist_allows uni alias a model \<longleftrightarrow>
    \<not> wl_enabled a \<or> trim_space model = [] \<or>
    (\<exists>e \<in> set (wl_models a). \<exists>s \<in> spellings alias (trim_space model).
       trim_space e \<noteq> [] \<and> trim_space s \<noteq> [] \<and>
       glob (to_lower uni (trim_space e)) (to_lower uni (trim_space s)))"
  unfolding allowlist_allows_def allowlist_candidates_def spellings_def
  by (auto simp: Let_def add_candidate_set pattern_matches_glob lower_okD [OF assms])


section \<open>Listing\<close>

lemma glob_self: "glob p p"
proof (induction p)
  case (Cons c p)
  then show ?case
  proof (cases "c = CHR ''*''")
    case True
    have "c # p = [c] @ p" by simp
    with Cons True show ?thesis unfolding True glob_star by blast
  qed (simp add: glob_byte)
qed simp

lemma glob_plain: "CHR ''*'' \<notin> set p \<Longrightarrow> glob p m \<longleftrightarrow> m = p"
proof (induction p arbitrary: m)
  case (Cons c p)
  then have "c \<noteq> CHR ''*''" "\<And>m. glob p m \<longleftrightarrow> m = p" by auto
  then show ?case using glob_byte [of c p m] by auto
qed simp

lemma add_listed_set: "set (add_listed uni m out) \<subseteq> insert m (set out)" "set out \<subseteq> set (add_listed uni m out)"
  by (auto simp: add_listed_def)

lemma add_listed_has: "\<exists>x \<in> set (add_listed uni m out). to_lower uni x = to_lower uni m"
  by (auto simp: add_listed_def)

text \<open>What is listed for an entry it matches itself; and nothing listed is lost.\<close>

definition listed_for :: "(string \<Rightarrow> string) \<Rightarrow> string list \<Rightarrow> string \<Rightarrow> string \<Rightarrow> bool" where
  "listed_for uni patterns entry m \<longleftrightarrow>
     trim_space entry \<noteq> [] \<and> pattern_matches uni (trim_space entry) m \<and> (m \<in> set patterns \<or> m = trim_space entry)"

lemma list_entry_fold:
  shows "m \<in> set (fold (list_pattern uni entry) ps out) \<Longrightarrow>
      m \<in> set out \<or> pattern_matches uni entry m \<and> (m \<in> set ps \<or> m = entry)"
    and "set out \<subseteq> set (fold (list_pattern uni entry) ps out)"
    and "p \<in> set ps \<Longrightarrow> pattern_matches uni entry p \<Longrightarrow>
      \<exists>x \<in> set (fold (list_pattern uni entry) ps out). to_lower uni x = to_lower uni p"
proof -
  have self: "pattern_matches uni entry entry" by (simp add: pattern_matches_glob glob_self)
  show "m \<in> set (fold (list_pattern uni entry) ps out) \<Longrightarrow>
      m \<in> set out \<or> pattern_matches uni entry m \<and> (m \<in> set ps \<or> m = entry)"
  proof (induction ps arbitrary: out)
    case (Cons q ps)
    have "m \<in> set (list_pattern uni entry q out) \<Longrightarrow>
        m \<in> set out \<or> pattern_matches uni entry m \<and> (m = q \<or> m = entry)" for m
      using self by (auto simp: list_pattern_def add_listed_def split: if_splits)
    with Cons.IH [of "list_pattern uni entry q out"] Cons.prems show ?case by auto
  qed simp
  show mono: "set out \<subseteq> set (fold (list_pattern uni entry) ps out)" for ps out
  proof (induction ps arbitrary: out)
    case (Cons q ps)
    have "set out \<subseteq> set (list_pattern uni entry q out)" by (auto simp: list_pattern_def add_listed_def)
    with Cons.IH [of "list_pattern uni entry q out"] show ?case by auto
  qed simp
  show "p \<in> set ps \<Longrightarrow> pattern_matches uni entry p \<Longrightarrow>
      \<exists>x \<in> set (fold (list_pattern uni entry) ps out). to_lower uni x = to_lower uni p"
  proof (induction ps arbitrary: out)
    case (Cons q ps)
    show ?case
    proof (cases "p = q")
      case True
      with Cons.prems(2) have "list_pattern uni entry q out = add_listed uni p out" by (simp add: list_pattern_def)
      with add_listed_has [of uni p out] mono [of "add_listed uni p out" ps] show ?thesis by auto
    qed (use Cons in auto)
  qed simp
qed

lemma list_entry_sound:
  "m \<in> set (list_entry uni fld patterns entry out) \<Longrightarrow> m \<in> set out \<or> listed_for uni patterns entry m"
  using list_entry_fold(1) [of m uni "trim_space entry" patterns out]
  by (auto simp: list_entry_def listed_for_def Let_def pattern_matches_glob glob_self add_listed_def
      split: if_splits)

lemma list_entry_mono: "set out \<subseteq> set (list_entry uni fld patterns entry out)"
  using list_entry_fold(2) [of out uni "trim_space entry" patterns] add_listed_set(2) [of out uni]
  by (auto simp: list_entry_def Let_def)

lemma list_entries_sound:
  "m \<in> set (fold (list_entry uni fld patterns) es out) \<Longrightarrow>
    m \<in> set out \<or> (\<exists>e \<in> set es. listed_for uni patterns e m)"
proof (induction es arbitrary: out)
  case (Cons e es)
  from Cons.IH [of "list_entry uni fld patterns e out"] Cons.prems list_entry_sound [of m uni fld patterns e out]
  show ?case by auto
qed simp

lemma list_entries_mono: "set out \<subseteq> set (fold (list_entry uni fld patterns) es out)"
proof (induction es arbitrary: out)
  case (Cons e es)
  from Cons.IH [of "list_entry uni fld patterns e out"] list_entry_mono [of out uni fld patterns e]
  show ?case by auto
qed simp

lemma list_entry_complete:
  assumes ok: "lower_ok uni" "fold_ok uni fld" and p: "p \<in> set patterns"
    and e: "trim_space entry \<noteq> []" "pattern_matches uni (trim_space entry) p"
  shows "\<exists>x \<in> set (list_entry uni fld patterns entry out). to_lower uni x = to_lower uni p"
proof (cases "CHR ''*'' \<in> set (trim_space entry)")
  case True
  with e list_entry_fold(3) [OF p e(2), of out] show ?thesis by (simp add: list_entry_def)
next
  case False
  with ok(1) have "CHR ''*'' \<notin> set (to_lower uni (trim_space entry))" unfolding lower_ok_def by blast
  with e(2) have eq: "to_lower uni p = to_lower uni (trim_space entry)"
    by (simp add: pattern_matches_glob glob_plain)
  with ok(2) have "equal_fold fld p (trim_space entry)" by (simp add: fold_ok_def)
  with p have "source_allows uni fld patterns (trim_space entry)" by (auto simp: source_allows_def)
  with False e(1) eq add_listed_has [of uni "trim_space entry" out] show ?thesis
    by (simp add: list_entry_def)
qed

lemma list_entries_complete:
  assumes "lower_ok uni" "fold_ok uni fld" "p \<in> set patterns"
    and "e \<in> set es" "trim_space e \<noteq> []" "pattern_matches uni (trim_space e) p"
  shows "\<exists>x \<in> set (fold (list_entry uni fld patterns) es out). to_lower uni x = to_lower uni p"
  using assms(4)
proof (induction es arbitrary: out)
  case (Cons f es)
  show ?case
  proof (cases "e = f")
    case True
    with list_entry_complete [OF assms(1,2,3,5,6), of out]
      list_entries_mono [of "list_entry uni fld patterns e out" uni fld patterns es]
    show ?thesis by auto
  qed (use Cons in auto)
qed simp

text \<open>What an enabled allowlist lists can be called, and what it admits is listed. Every model of
  the filtered list is admitted, whatever the OpenAI alias; and every model of the source whose own
  spelling an entry means appears in the list, up to letter case.\<close>

theorem allowlist_listing_agrees:
  assumes "lower_ok uni" "fold_ok uni fld" "wl_enabled a"
  shows "(\<forall>m \<in> set (filter_for_listing uni fld a source). allowlist_allows uni alias a m) \<and>
    (\<forall>s \<in> set source. \<forall>e \<in> set (wl_models a).
       trim_space s \<noteq> [] \<and> trim_space e \<noteq> [] \<and>
       glob (to_lower uni (trim_space e)) (to_lower uni (trim_space s)) \<longrightarrow>
       (\<exists>m \<in> set (filter_for_listing uni fld a source). to_lower uni m = to_lower uni (trim_space s)))"
proof (intro conjI ballI impI)
  let ?ps = "filter (\<lambda>p. p \<noteq> []) (map trim_space source)"
  fix m assume "m \<in> set (filter_for_listing uni fld a source)"
  then have "m \<in> set (fold (list_entry uni fld ?ps) (wl_models a) [])"
    using assms(3) by (auto simp: filter_for_listing_def Let_def split: if_splits)
  from list_entries_sound [OF this] obtain e where e: "e \<in> set (wl_models a)" "listed_for uni ?ps e m" by auto
  then have m: "trim_space m = m" "m \<noteq> []" by (auto simp: listed_for_def)
  then have "to_lower uni m \<in> set (allowlist_candidates uni alias m)"
    by (simp add: allowlist_candidates_def add_candidate_set lower_okD [OF assms(1)])
  moreover from e(2) have "trim_space e \<noteq> []" "pattern_matches uni (trim_space e) (to_lower uni m)"
    by (simp_all add: listed_for_def pattern_matches_glob lower_okD [OF assms(1)])
  ultimately show "allowlist_allows uni alias a m"
    using e(1) m unfolding allowlist_allows_def Let_def by auto
next
  let ?ps = "filter (\<lambda>p. p \<noteq> []) (map trim_space source)"
  fix s e
  assume s: "s \<in> set source" and e: "e \<in> set (wl_models a)" and h: "trim_space s \<noteq> [] \<and> trim_space e \<noteq> [] \<and>
       glob (to_lower uni (trim_space e)) (to_lower uni (trim_space s))"
  then have p: "trim_space s \<in> set ?ps" by auto
  then have "?ps \<noteq> []" by (metis empty_iff empty_set)
  with e assms(3) have "filter_for_listing uni fld a source = fold (list_entry uni fld ?ps) (wl_models a) []"
    by (auto simp: filter_for_listing_def Let_def)
  with list_entries_complete [OF assms(1,2) p e] h
  show "\<exists>m \<in> set (filter_for_listing uni fld a source). to_lower uni m = to_lower uni (trim_space s)"
    by (simp add: pattern_matches_glob)
qed

section \<open>Normalising\<close>

definition entry_keys :: "(string \<Rightarrow> string) \<Rightarrow> string list \<Rightarrow> string set" where
  "entry_keys uni ms = (\<lambda>m. to_lower uni (trim_space m)) ` {m \<in> set ms. trim_space m \<noteq> []}"

lemma entry_keys_Cons:
  "entry_keys uni (m # ms) =
    (if trim_space m = [] then entry_keys uni ms else insert (to_lower uni (trim_space m)) (entry_keys uni ms))"
proof -
  have "{x \<in> set (m # ms). trim_space x \<noteq> []} =
      (if trim_space m = [] then {x \<in> set ms. trim_space x \<noteq> []} else insert m {x \<in> set ms. trim_space x \<noteq> []})"
    by auto
  then show ?thesis by (simp add: entry_keys_def)
qed

lemma dedup_models_Cons:
  "dedup_models uni seen (m # ms) =
    (if trim_space m = [] \<or> to_lower uni (trim_space m) \<in> seen then dedup_models uni seen ms
     else trim_space m # dedup_models uni (insert (to_lower uni (trim_space m)) seen) ms)"
  by (simp add: Let_def)

declare dedup_models.simps(2) [simp del]
declare dedup_models_Cons [simp]

lemma dedup_models_keys:
  "to_lower uni ` set (dedup_models uni seen ms) = entry_keys uni ms - seen"
proof (induction ms arbitrary: seen)
  case (Cons m ms)
  consider "trim_space m = []" | "trim_space m \<noteq> []" "to_lower uni (trim_space m) \<in> seen"
    | "trim_space m \<noteq> []" "to_lower uni (trim_space m) \<notin> seen" by blast
  then show ?case using Cons.IH by cases (auto simp: entry_keys_Cons)
qed (simp add: entry_keys_def)

lemma dedup_models_clean:
  "\<forall>m \<in> set (dedup_models uni seen ms). trim_space m = m \<and> m \<noteq> []"
  by (induction ms arbitrary: seen) auto

lemma dedup_models_distinct: "distinct (map (to_lower uni) (dedup_models uni seen ms))"
proof (induction ms arbitrary: seen)
  case (Cons m ms)
  have "to_lower uni (trim_space m) \<notin>
      to_lower uni ` set (dedup_models uni (insert (to_lower uni (trim_space m)) seen) ms)"
    by (simp add: dedup_models_keys)
  with Cons.IH show ?case by simp
qed simp

lemma dedup_models_id:
  "\<forall>m \<in> set ms. trim_space m = m \<and> m \<noteq> [] \<Longrightarrow> distinct (map (to_lower uni) ms) \<Longrightarrow>
   to_lower uni ` set ms \<inter> seen = {} \<Longrightarrow> dedup_models uni seen ms = ms"
proof (induction ms arbitrary: seen)
  case (Cons m ms)
  have "dedup_models uni (insert (to_lower uni m) seen) ms = ms"
    using Cons.prems by (intro Cons.IH) auto
  with Cons.prems show ?case by auto
qed simp

lemma clean_keys: "\<forall>m \<in> set ms. trim_space m = m \<and> m \<noteq> [] \<Longrightarrow> entry_keys uni ms = to_lower uni ` set ms"
proof -
  assume c: "\<forall>m \<in> set ms. trim_space m = m \<and> m \<noteq> []"
  then have "{m \<in> set ms. trim_space m \<noteq> []} = set ms" by auto
  moreover have "to_lower uni (trim_space m) = to_lower uni m" if "m \<in> set ms" for m using c that by simp
  ultimately show ?thesis unfolding entry_keys_def by (simp cong: image_cong)
qed

lemma allows_keys:
  "allowlist_allows uni alias a m \<longleftrightarrow>
    \<not> wl_enabled a \<or> trim_space m = [] \<or>
    (\<exists>k \<in> entry_keys uni (wl_models a). \<exists>c \<in> set (allowlist_candidates uni alias (trim_space m)). glob k (to_lower uni c))"
  by (auto simp: allowlist_allows_def Let_def pattern_matches_glob entry_keys_def)

text \<open>Normalising a submitted allowlist does not change what it admits. It leaves trimmed,
  non-blank entries that differ by more than letter case, a second normalisation changes nothing, and
  it is rejected exactly when it is enabled and has no non-blank entry, the list that would
  admit no model.\<close>

theorem normalize_allowlist_faithful:
  fixes uni :: "string \<Rightarrow> string" and cfg :: model_allowlist
  defines "n \<equiv> fst (normalize_allowlist uni cfg)"
  shows "allowlist_allows uni alias n m = allowlist_allows uni alias cfg m \<and>
    (\<forall>e \<in> set (wl_models n). trim_space e = e \<and> e \<noteq> []) \<and> distinct (map (to_lower uni) (wl_models n)) \<and>
    fst (normalize_allowlist uni n) = n \<and>
    (snd (normalize_allowlist uni cfg) = Some empty_allowlist_error \<longleftrightarrow>
      wl_enabled cfg \<and> (\<forall>e \<in> set (wl_models cfg). trim_space e = []))"
proof -
  have n: "wl_enabled n = wl_enabled cfg" "wl_models n = dedup_models uni {} (wl_models cfg)"
    by (simp_all add: n_def normalize_allowlist_def)
  have clean: "\<forall>e \<in> set (wl_models n). trim_space e = e \<and> e \<noteq> []"
    unfolding n(2) by (rule dedup_models_clean)
  have dist: "distinct (map (to_lower uni) (wl_models n))" unfolding n(2) by (rule dedup_models_distinct)
  have keys: "entry_keys uni (wl_models n) = entry_keys uni (wl_models cfg)"
    using clean_keys [OF clean] dedup_models_keys [of uni "{}" "wl_models cfg"] by (simp add: n(2))
  have "wl_models n = [] \<longleftrightarrow> to_lower uni ` set (wl_models n) = {}" by simp
  also have "\<dots> \<longleftrightarrow> (\<forall>e \<in> set (wl_models cfg). trim_space e = [])"
    unfolding n(2) dedup_models_keys by (auto simp: entry_keys_def)
  finally have err: "snd (normalize_allowlist uni cfg) = Some empty_allowlist_error \<longleftrightarrow>
      wl_enabled cfg \<and> (\<forall>e \<in> set (wl_models cfg). trim_space e = [])"
    by (auto simp: normalize_allowlist_def Let_def n)
  have "dedup_models uni {} (wl_models n) = wl_models n"
    using clean dist by (intro dedup_models_id) auto
  then have "fst (normalize_allowlist uni n) = n"
    by (simp add: normalize_allowlist_def)
  then show ?thesis using clean dist err by (simp add: allows_keys keys n(1))
qed

text \<open>The promise written above \<^verbatim>\<open>allowlistSourcePatternAllowsModel\<close>, that an admitted model is
  visible in the list, fails for the spellings only admission knows: with the single entry
  \<open>gemini-2.5-pro\<close> the source model \<open>models/gemini-2.5-pro\<close> is admitted but the list is empty.\<close>

theorem allowlist_hides_admitted:
  "let a = \<lparr>wl_enabled = True, wl_models = [''gemini-2.5-pro'']\<rparr> in
     allowlist_allows id alias a ''models/gemini-2.5-pro'' \<and>
     filter_for_listing id fld a [''models/gemini-2.5-pro''] = []"
proof -
  have t: "trim_space ''models/gemini-2.5-pro'' = ''models/gemini-2.5-pro''" "trim_space ''gemini-2.5-pro'' = ''gemini-2.5-pro''"
    "trim_prefix ''models/'' ''models/gemini-2.5-pro'' = ''gemini-2.5-pro''"
    "to_lower id ''gemini-2.5-pro'' = ''gemini-2.5-pro''" "pattern_matches id ''gemini-2.5-pro'' ''gemini-2.5-pro''"
    by code_simp+
  have "''gemini-2.5-pro'' \<in> set (allowlist_candidates id alias ''models/gemini-2.5-pro'')"
    by (simp only: allowlist_candidates_def add_candidate_set t) simp
  with t have "allowlist_allows id alias \<lparr>wl_enabled = True, wl_models = [''gemini-2.5-pro'']\<rparr> ''models/gemini-2.5-pro''"
    by (auto simp: allowlist_allows_def Let_def)
  moreover have "\<not> source_allows id fld [''models/gemini-2.5-pro''] ''gemini-2.5-pro''"
    by (simp add: source_allows_def equal_fold_def is_ascii_def to_lower_def trim_suffix_def
        normalize_model_id_def model_id_overrides_def suffix_def prefix_def ascii_lower_char_def)
  ultimately show ?thesis
    by (simp add: filter_for_listing_def list_entry_def t)
qed

section \<open>Witnesses\<close>

definition demo_allowlist :: model_allowlist where
  "demo_allowlist = \<lparr>wl_enabled = True, wl_models = ['' Claude-*-4-5 '', [], ''gpt-5'', ''GPT-5'']\<rparr>"

lemma allowlist_admission_witness:
  "allowlist_allows id id demo_allowlist ''claude-opus-4-5'' \<and>
   \<not> allowlist_allows id id demo_allowlist ''claude-opus-4-1''"
proof -
  have 1: "glob (to_lower id (trim_space '' Claude-*-4-5 '')) (to_lower id (trim_space ''claude-opus-4-5''))"
    and 2: "trim_space '' Claude-*-4-5 '' \<noteq> []" "trim_space ''claude-opus-4-5'' = ''claude-opus-4-5''"
    and 3: "\<not> allowlist_allows id id demo_allowlist ''claude-opus-4-1''"
    by code_simp+
  have "allowlist_allows id id demo_allowlist ''claude-opus-4-5''"
    unfolding allowlist_admission [OF lower_ok_id]
    using 1 2 by (auto simp: demo_allowlist_def spellings_def)
  with 3 show ?thesis by simp
qed

end
