(* ===== verification/AdminAccess.thy ===== *)
theory AdminAccess
  imports Prelude
begin

text \<open>
  Scoped administration keys (\<^verbatim>\<open>internal/pkg/adminaccess\<close>): the policy of a key, the resources
  its rules cover, the catalog that ties every permission to routes, and the validation of a
  policy. The display texts of the catalog (label and category) are left out, and an error
  carries what its message reports.
\<close>

section \<open>Policies\<close>

record access_rule =
  ar_permissions :: "string list"
  ar_group_ids :: "int list"
  ar_all_groups :: bool
  ar_include_ungrouped :: bool
  ar_account_types :: "string list"
  ar_platforms :: "string list"

record access_policy =
  ap_rules :: "access_rule list"
  ap_global_permissions :: "string list"

record access_principal =
  pr_key_id :: string
  pr_key_name :: string
  pr_creator_id :: int
  pr_policy :: access_policy

record access_account =
  aa_id :: int
  aa_group_ids :: "int list"
  aa_type :: string
  aa_platform :: string

definition rule_matches :: "access_rule \<Rightarrow> access_account \<Rightarrow> bool" where
  "rule_matches r a =
     (if aa_type a \<notin> set (ar_account_types r) \<or>
         (ar_platforms r \<noteq> [] \<and> aa_platform a \<notin> set (ar_platforms r)) then False
      else if aa_group_ids a = [] then ar_include_ungrouped r
      else if ar_all_groups r then True
      else (\<exists>i \<in> set (aa_group_ids a). 0 < i \<and> i \<in> set (ar_group_ids r)))"

definition rules_for :: "access_policy \<Rightarrow> string \<Rightarrow> access_rule list" where
  "rules_for p permission = filter (\<lambda>r. permission \<in> set (ar_permissions r)) (ap_rules p)"

definition allows_account :: "access_policy \<Rightarrow> string \<Rightarrow> access_account \<Rightarrow> bool" where
  "allows_account p permission a \<longleftrightarrow> (\<exists>r \<in> set (rules_for p permission). rule_matches r a)"

definition allows_group :: "access_policy \<Rightarrow> string \<Rightarrow> access_account \<Rightarrow> int \<Rightarrow> bool" where
  "allows_group p permission a gid \<longleftrightarrow>
     0 < gid \<and> (\<exists>r \<in> set (rules_for p permission).
       rule_matches r a \<and> (ar_all_groups r \<or> gid \<in> set (ar_group_ids r)))"

definition allows_group_config :: "access_policy \<Rightarrow> string \<Rightarrow> int \<Rightarrow> string \<Rightarrow> bool" where
  "allows_group_config p permission gid platform \<longleftrightarrow>
     0 < gid \<and> (\<exists>r \<in> set (rules_for p permission).
       (ar_all_groups r \<or> gid \<in> set (ar_group_ids r)) \<and>
       (ar_platforms r = [] \<or> platform \<in> set (ar_platforms r)))"

section \<open>The catalog\<close>

record permission_definition =
  pd_id :: string
  pd_scope :: string
  pd_routes :: "string list"

definition permission_definitions :: "permission_definition list" where
  "permission_definitions =
    [\<lparr>pd_id = ''accounts.read'', pd_scope = ''account'',
      pd_routes = [''GET /accounts'', ''GET /accounts/:id'', ''GET /accounts/:id/models'']\<rparr>,
     \<lparr>pd_id = ''accounts.create'', pd_scope = ''account'',
      pd_routes = [''POST /accounts'', ''POST /accounts/import/codex-session'']\<rparr>,
     \<lparr>pd_id = ''accounts.update'', pd_scope = ''account'',
      pd_routes = [''PUT /accounts/:id'']\<rparr>,
     \<lparr>pd_id = ''accounts.credentials'', pd_scope = ''account'',
      pd_routes = [''PUT /accounts/:id'']\<rparr>,
     \<lparr>pd_id = ''accounts.models.write'', pd_scope = ''account'',
      pd_routes = [''PUT /accounts/:id'', ''POST /accounts/bulk-update'']\<rparr>,
     \<lparr>pd_id = ''accounts.network'', pd_scope = ''account'',
      pd_routes = [''PUT /accounts/:id'']\<rparr>,
     \<lparr>pd_id = ''accounts.status'', pd_scope = ''account'',
      pd_routes = [''PUT /accounts/:id'', ''POST /accounts/:id/schedulable'']\<rparr>,
     \<lparr>pd_id = ''accounts.schedule'', pd_scope = ''account'',
      pd_routes = [''PUT /accounts/:id'']\<rparr>,
     \<lparr>pd_id = ''accounts.refresh'', pd_scope = ''account'',
      pd_routes = [''POST /accounts/:id/refresh'']\<rparr>,
     \<lparr>pd_id = ''accounts.recover'', pd_scope = ''account'',
      pd_routes = [''POST /accounts/:id/clear-error'']\<rparr>,
     \<lparr>pd_id = ''accounts.delete'', pd_scope = ''account'',
      pd_routes = [''DELETE /accounts/:id'']\<rparr>,
     \<lparr>pd_id = ''accounts.groups'', pd_scope = ''account'',
      pd_routes = [''PUT /accounts/:id'']\<rparr>,
     \<lparr>pd_id = ''groups.models.read'', pd_scope = ''group'',
      pd_routes = [''GET /groups'', ''GET /groups/all'', ''GET /groups/:id'',
        ''GET /groups/:id/model-allowlist-candidates'']\<rparr>,
     \<lparr>pd_id = ''groups.models.write'', pd_scope = ''group'',
      pd_routes = [''PUT /groups/:id'']\<rparr>,
     \<lparr>pd_id = ''proxies.read'', pd_scope = ''global'',
      pd_routes = [''GET /proxies'', ''GET /proxies/all'', ''GET /proxies/:id'']\<rparr>,
     \<lparr>pd_id = ''models.defaults.read'', pd_scope = ''global'',
      pd_routes = [''GET /accounts/antigravity/default-model-mapping'',
        ''GET /groups/:id/model-allowlist-candidates'']\<rparr>,
     \<lparr>pd_id = ''dashboard.read'', pd_scope = ''global'',
      pd_routes = [''GET /dashboard/snapshot-v2'', ''GET /dashboard/stats'', ''GET /dashboard/realtime'',
        ''GET /dashboard/trend'', ''GET /dashboard/models'', ''GET /dashboard/groups'',
        ''GET /dashboard/api-keys-trend'', ''GET /dashboard/users-trend'',
        ''GET /dashboard/users-ranking'', ''POST /dashboard/users-usage'',
        ''POST /dashboard/api-keys-usage'', ''GET /dashboard/user-breakdown'']\<rparr>,
     \<lparr>pd_id = ''users.read'', pd_scope = ''global'',
      pd_routes = [''GET /users'', ''GET /users/:id'', ''GET /users/:id/rpm-status'',
        ''GET /users/:id/attributes'']\<rparr>,
     \<lparr>pd_id = ''users.balance.read'', pd_scope = ''global'',
      pd_routes = [''GET /users/:id/balance-history'']\<rparr>,
     \<lparr>pd_id = ''users.balance.write'', pd_scope = ''global'',
      pd_routes = [''POST /users/:id/balance'']\<rparr>,
     \<lparr>pd_id = ''users.quotas.read'', pd_scope = ''global'',
      pd_routes = [''GET /users/:id/platform-quotas'']\<rparr>,
     \<lparr>pd_id = ''users.quotas.write'', pd_scope = ''global'',
      pd_routes = [''PUT /users/:id/platform-quotas'', ''POST /users/:id/platform-quotas/reset'']\<rparr>,
     \<lparr>pd_id = ''groups.read'', pd_scope = ''global'',
      pd_routes = [''GET /groups'', ''GET /groups/all'', ''GET /groups/:id'',
        ''GET /groups/:id/rate-multipliers'', ''GET /groups/:id/composite-routes'',
        ''GET /groups/:id/model-allowlist-candidates'']\<rparr>,
     \<lparr>pd_id = ''usage.read'', pd_scope = ''global'',
      pd_routes = [''GET /usage'', ''GET /usage/stats'', ''GET /users/:id/usage'']\<rparr>,
     \<lparr>pd_id = ''payment.read'', pd_scope = ''global'',
      pd_routes = [''GET /payment/dashboard'', ''GET /payment/orders'', ''GET /payment/orders/:id'']\<rparr>,
     \<lparr>pd_id = ''payment.cancel'', pd_scope = ''global'',
      pd_routes = [''POST /payment/orders/:id/cancel'']\<rparr>,
     \<lparr>pd_id = ''payment.fulfill'', pd_scope = ''global'',
      pd_routes = [''POST /payment/orders/:id/retry'']\<rparr>,
     \<lparr>pd_id = ''payment.refund'', pd_scope = ''global'',
      pd_routes = [''POST /payment/orders/:id/refund'', ''POST /payment/orders/:id/refund/query'']\<rparr>,
     \<lparr>pd_id = ''payment.plans.read'', pd_scope = ''global'',
      pd_routes = [''GET /payment/plans'']\<rparr>,
     \<lparr>pd_id = ''payment.plans.write'', pd_scope = ''global'',
      pd_routes = [''POST /payment/plans'', ''PUT /payment/plans/:id'', ''DELETE /payment/plans/:id'']\<rparr>,
     \<lparr>pd_id = ''subscriptions.read'', pd_scope = ''global'',
      pd_routes = [''GET /subscriptions'', ''GET /subscriptions/:id'', ''GET /subscriptions/:id/progress'',
        ''GET /groups/:id/subscriptions'', ''GET /users/:id/subscriptions'']\<rparr>,
     \<lparr>pd_id = ''subscriptions.assign'', pd_scope = ''global'',
      pd_routes = [''POST /subscriptions/assign'', ''POST /subscriptions/bulk-assign'']\<rparr>,
     \<lparr>pd_id = ''subscriptions.extend'', pd_scope = ''global'',
      pd_routes = [''POST /subscriptions/:id/extend'']\<rparr>,
     \<lparr>pd_id = ''subscriptions.revoke'', pd_scope = ''global'',
      pd_routes = [''POST /subscriptions/:id/revoke'', ''DELETE /subscriptions/:id'']\<rparr>,
     \<lparr>pd_id = ''subscriptions.restore'', pd_scope = ''global'',
      pd_routes = [''POST /subscriptions/:id/restore'']\<rparr>,
     \<lparr>pd_id = ''subscriptions.reset'', pd_scope = ''global'',
      pd_routes = [''POST /subscriptions/:id/reset-quota'']\<rparr>,
     \<lparr>pd_id = ''announcements.read'', pd_scope = ''global'',
      pd_routes = [''GET /announcements'', ''GET /announcements/:id'',
        ''GET /announcements/:id/read-status'']\<rparr>,
     \<lparr>pd_id = ''announcements.write'', pd_scope = ''global'',
      pd_routes = [''POST /announcements'', ''PUT /announcements/:id'']\<rparr>,
     \<lparr>pd_id = ''announcements.delete'', pd_scope = ''global'',
      pd_routes = [''DELETE /announcements/:id'']\<rparr>,
     \<lparr>pd_id = ''promo.read'', pd_scope = ''global'',
      pd_routes = [''GET /promo-codes'', ''GET /promo-codes/:id'', ''GET /promo-codes/:id/usages'']\<rparr>,
     \<lparr>pd_id = ''promo.write'', pd_scope = ''global'',
      pd_routes = [''POST /promo-codes'', ''PUT /promo-codes/:id'']\<rparr>,
     \<lparr>pd_id = ''promo.delete'', pd_scope = ''global'',
      pd_routes = [''DELETE /promo-codes/:id'']\<rparr>,
     \<lparr>pd_id = ''ops.read'', pd_scope = ''global'',
      pd_routes = [''GET /ops/concurrency'', ''GET /ops/user-concurrency'',
        ''GET /ops/account-availability'', ''GET /ops/realtime-traffic'', ''GET /ops/ingress-rejections'',
        ''GET /ops/ingress-rejections/health'', ''GET /ops/auth-cache-invalidation/health'',
        ''GET /ops/dashboard/snapshot-v2'', ''GET /ops/dashboard/overview'',
        ''GET /ops/dashboard/throughput-trend'', ''GET /ops/dashboard/latency-histogram'',
        ''GET /ops/dashboard/error-trend'', ''GET /ops/dashboard/error-distribution'',
        ''GET /ops/dashboard/openai-token-stats'']\<rparr>,
     \<lparr>pd_id = ''ops.errors.read'', pd_scope = ''global'',
      pd_routes = [''GET /ops/errors'', ''GET /ops/errors/:id'', ''GET /ops/request-errors'',
        ''GET /ops/request-errors/:id'', ''GET /ops/request-errors/:id/upstream-errors'',
        ''GET /ops/upstream-errors'', ''GET /ops/upstream-errors/:id'', ''GET /ops/requests'']\<rparr>,
     \<lparr>pd_id = ''ops.errors.resolve'', pd_scope = ''global'',
      pd_routes = [''PUT /ops/errors/:id/resolve'', ''PUT /ops/request-errors/:id/resolve'',
        ''PUT /ops/upstream-errors/:id/resolve'']\<rparr>,
     \<lparr>pd_id = ''ops.alerts.read'', pd_scope = ''global'',
      pd_routes = [''GET /ops/alert-rules'', ''GET /ops/alert-events'', ''GET /ops/alert-events/:id'']\<rparr>,
     \<lparr>pd_id = ''ops.alerts.write'', pd_scope = ''global'',
      pd_routes = [''POST /ops/alert-rules'', ''PUT /ops/alert-rules/:id'',
        ''DELETE /ops/alert-rules/:id'', ''PUT /ops/alert-events/:id/status'', ''POST /ops/alert-silences'']\<rparr>,
     \<lparr>pd_id = ''system.read'', pd_scope = ''global'',
      pd_routes = [''GET /system/version'', ''GET /system/check-updates'',
        ''GET /system/rollback-versions'']\<rparr>]"

definition permission_catalog :: "(string \<times> string) list" where
  "permission_catalog = map (\<lambda>d. (pd_id d, pd_scope d)) permission_definitions"

text \<open>A route of the catalog is a method, a space and a path; the space is replaced by
  \<^verbatim>\<open>" /api/v1/admin"\<close> and the result compared with the request's method and path.\<close>

definition admin_prefix :: string where
  "admin_prefix = '' /api/v1/admin''"

definition route_target :: "string \<Rightarrow> string option" where
  "route_target route =
     (case dropWhile (\<lambda>c. c \<noteq> CHR '' '') route of [] \<Rightarrow> None
      | _ # path \<Rightarrow> Some (takeWhile (\<lambda>c. c \<noteq> CHR '' '') route @ admin_prefix @ path))"

definition definition_covers :: "permission_definition \<Rightarrow> string \<Rightarrow> bool" where
  "definition_covers d target \<longleftrightarrow> (\<exists>route \<in> set (pd_routes d). route_target route = Some target)"

definition route_allowed :: "access_policy \<Rightarrow> string \<Rightarrow> string \<Rightarrow> bool" where
  "route_allowed p mth path =
     (let target = mth @ '' '' @ path in
      \<exists>d \<in> set permission_definitions. definition_covers d target \<and>
        (pd_scope d = ''global'' \<and> pd_id d \<in> set (ap_global_permissions p) \<or>
         pd_scope d \<in> {''account'', ''group''} \<and> rules_for p (pd_id d) \<noteq> []))"

section \<open>Validation\<close>

datatype policy_error =
  Too_many_rules | Bad_global_permission string | Scope_too_wide | Bad_resource_permission string
  | Bad_group_id | Bad_account_type string | Bad_platform

definition account_kinds :: "string list" where
  "account_kinds = [''oauth'', ''setup-token'', ''apikey'', ''upstream'', ''bedrock'', ''service_account'']"

definition catalog_scope :: "string \<Rightarrow> string" where
  "catalog_scope permission =
     (case gm_get (fold (\<lambda>(i, s). gm_set i s) permission_catalog []) permission of None \<Rightarrow> [] | Some s \<Rightarrow> s)"

fun first_error :: "('a \<Rightarrow> 'e option) \<Rightarrow> 'a list \<Rightarrow> 'e option" where
  "first_error f [] = None"
| "first_error f (x # xs) = (case f x of Some e \<Rightarrow> Some e | None \<Rightarrow> first_error f xs)"

definition validate_rule :: "access_rule \<Rightarrow> policy_error option" where
  "validate_rule r =
     (if 64 < length (ar_permissions r) \<or> 1000 < length (ar_group_ids r) \<or> 32 < length (ar_account_types r) \<or>
         64 < length (ar_platforms r) then Some Scope_too_wide
      else case first_error (\<lambda>p. if catalog_scope p \<noteq> ''account'' \<and> catalog_scope p \<noteq> ''group''
                  then Some (Bad_resource_permission p) else None) (ar_permissions r) of
          Some e \<Rightarrow> Some e
        | None \<Rightarrow> (case first_error (\<lambda>i. if i \<le> 0 then Some Bad_group_id else None) (ar_group_ids r) of
            Some e \<Rightarrow> Some e
          | None \<Rightarrow> (case first_error (\<lambda>k. if k \<notin> set account_kinds then Some (Bad_account_type k) else None)
                (ar_account_types r) of
              Some e \<Rightarrow> Some e
            | None \<Rightarrow> first_error (\<lambda>pl. if trim_space pl \<noteq> pl \<or> pl = [] \<or> 64 < length pl \<or> pl = ''*''
                then Some Bad_platform else None) (ar_platforms r))))"

definition validate_policy :: "access_policy \<Rightarrow> policy_error option" where
  "validate_policy p =
     (if 32 < length (ap_rules p) \<or> 128 < length (ap_global_permissions p) then Some Too_many_rules
      else case first_error (\<lambda>g. if catalog_scope g \<noteq> ''global'' then Some (Bad_global_permission g) else None)
             (ap_global_permissions p) of
          Some e \<Rightarrow> Some e
        | None \<Rightarrow> first_error validate_rule (ap_rules p))"

section \<open>The gate of a scoped key\<close>

text \<open>\<open>strings.Contains\<close>.\<close>

definition str_contains :: "string \<Rightarrow> string \<Rightarrow> bool" where
  "str_contains s p \<longleftrightarrow> str_index s p \<noteq> None"

definition scoped_request_denied :: "access_policy \<Rightarrow> string \<Rightarrow> string \<Rightarrow> bool" where
  "scoped_request_denied p mth path \<longleftrightarrow>
     str_contains path ''/settings/admin-api-key'' \<or> \<not> route_allowed p mth path"

section \<open>The same scope as database predicates\<close>

text \<open>The predicates the account repository builds from a policy, and what they mean for an
  account row with its group links.\<close>

datatype account_predicate =
  Type_in "string list" | Platform_in "string list" | Has_groups | Has_groups_in "int list"
  | Not_pred account_predicate | And_pred "account_predicate list" | Or_pred "account_predicate list"

fun row_satisfies :: "access_account \<Rightarrow> account_predicate \<Rightarrow> bool" where
  "row_satisfies a (Type_in ts) = (aa_type a \<in> set ts)"
| "row_satisfies a (Platform_in ps) = (aa_platform a \<in> set ps)"
| "row_satisfies a Has_groups = (aa_group_ids a \<noteq> [])"
| "row_satisfies a (Has_groups_in gs) = (\<exists>g \<in> set (aa_group_ids a). g \<in> set gs)"
| "row_satisfies a (Not_pred q) = (\<not> row_satisfies a q)"
| "row_satisfies a (And_pred qs) = list_all (row_satisfies a) qs"
| "row_satisfies a (Or_pred qs) = list_ex (row_satisfies a) qs"

definition group_terms :: "access_rule \<Rightarrow> account_predicate list" where
  "group_terms rule =
     (if ar_group_ids rule \<noteq> [] then [Has_groups_in (ar_group_ids rule)] else []) @
     (if ar_include_ungrouped rule then [Not_pred Has_groups] else [])"

definition rule_predicate :: "access_rule \<Rightarrow> account_predicate option" where
  "rule_predicate rule =
     (if ar_account_types rule = [] then None
      else
        let terms = [Type_in (ar_account_types rule)] @
              (if ar_platforms rule \<noteq> [] then [Platform_in (ar_platforms rule)] else []) @
              (if ar_all_groups rule \<and> \<not> ar_include_ungrouped rule then [Has_groups] else [])
        in if ar_all_groups rule then Some (And_pred terms)
           else if group_terms rule = [] then None
           else Some (And_pred (terms @ [Or_pred (group_terms rule)])))"

definition scoped_account_predicates :: "access_policy \<Rightarrow> string \<Rightarrow> account_predicate list" where
  "scoped_account_predicates p permission = List.map_filter rule_predicate (rules_for p permission)"

section \<open>Validation, declaratively\<close>

lemma first_error_None: "first_error f xs = None \<longleftrightarrow> (\<forall>x \<in> set xs. f x = None)"
  by (induction xs) (auto split: option.splits)

definition good_rule :: "access_rule \<Rightarrow> bool" where
  "good_rule r \<longleftrightarrow>
     length (ar_permissions r) \<le> 64 \<and> length (ar_group_ids r) \<le> 1000 \<and> length (ar_account_types r) \<le> 32 \<and>
     length (ar_platforms r) \<le> 64 \<and>
     (\<forall>p \<in> set (ar_permissions r). catalog_scope p \<in> {''account'', ''group''}) \<and>
     (\<forall>i \<in> set (ar_group_ids r). 0 < i) \<and> set (ar_account_types r) \<subseteq> set account_kinds \<and>
     (\<forall>pl \<in> set (ar_platforms r). trim_space pl = pl \<and> pl \<noteq> [] \<and> length pl \<le> 64 \<and> pl \<noteq> ''*'')"

lemma or_else_None: "(case x of Some e \<Rightarrow> Some e | None \<Rightarrow> y) = None \<longleftrightarrow> x = None \<and> y = None"
  by (cases x) auto

lemma validate_rule_None: "validate_rule r = None \<longleftrightarrow> good_rule r"
  unfolding validate_rule_def good_rule_def
  by (simp add: or_else_None first_error_None not_less not_le subset_iff) blast

text \<open>A policy is accepted exactly when it has at most 32 rules and 128 global permissions,
  every global permission has the global scope in the catalog, and every rule is in bounds, names only
  account and group permissions, positive groups, known account types and trimmed, non-blank
  platforms other than \<open>*\<close>. In particular an accepted policy never grants a permission both
  globally and by a rule, and no group selection implies a global permission.\<close>

theorem policy_validation:
  "(validate_policy p = None \<longleftrightarrow>
     length (ap_rules p) \<le> 32 \<and> length (ap_global_permissions p) \<le> 128 \<and>
     (\<forall>g \<in> set (ap_global_permissions p). catalog_scope g = ''global'') \<and> (\<forall>r \<in> set (ap_rules p). good_rule r)) \<and>
   (validate_policy p = None \<longrightarrow>
     (\<forall>r \<in> set (ap_rules p). set (ar_permissions r) \<inter> set (ap_global_permissions p) = {}))"
proof -
  have *: "validate_policy p = None \<longleftrightarrow>
     length (ap_rules p) \<le> 32 \<and> length (ap_global_permissions p) \<le> 128 \<and>
     (\<forall>g \<in> set (ap_global_permissions p). catalog_scope g = ''global'') \<and> (\<forall>r \<in> set (ap_rules p). good_rule r)"
    by (auto simp: validate_policy_def or_else_None first_error_None validate_rule_None not_less)
  have "catalog_scope x = ''global'' \<Longrightarrow> catalog_scope x \<notin> {''account'', ''group''}" for x by auto
  with * show ?thesis unfolding good_rule_def by blast
qed

section \<open>What a policy grants\<close>

definition join_policies :: "access_policy \<Rightarrow> access_policy \<Rightarrow> access_policy" where
  "join_policies p q = \<lparr>ap_rules = ap_rules p @ ap_rules q,
     ap_global_permissions = ap_global_permissions p @ ap_global_permissions q\<rparr>"

lemma rules_for_join: "rules_for (join_policies p q) x = rules_for p x @ rules_for q x"
  by (simp add: rules_for_def join_policies_def)

lemma globals_join: "set (ap_global_permissions (join_policies p q)) =
    set (ap_global_permissions p) \<union> set (ap_global_permissions q)"
  by (simp add: join_policies_def)

text \<open>Rules never combine. Putting the rules and global permissions of two policies into one
  grants an account, a group change, a group configuration or a route exactly when one of the two
  already grants it: no access arises from the groups of one rule, the account types of another and the
  permission of a third.\<close>

theorem grants_never_combine:
  "allows_account (join_policies p q) perm a = (allows_account p perm a \<or> allows_account q perm a) \<and>
   allows_group (join_policies p q) perm a g = (allows_group p perm a g \<or> allows_group q perm a g) \<and>
   allows_group_config (join_policies p q) perm g pl = (allows_group_config p perm g pl \<or> allows_group_config q perm g pl) \<and>
   route_allowed (join_policies p q) m path = (route_allowed p m path \<or> route_allowed q m path)"
proof (intro conjI)
  show "route_allowed (join_policies p q) m path = (route_allowed p m path \<or> route_allowed q m path)"
    unfolding route_allowed_def Let_def rules_for_join globals_join by auto
qed (auto simp: allows_account_def allows_group_def allows_group_config_def rules_for_join)

text \<open>A permitted group change stays within the rule that permits it: the target group is
  positive, the account is covered now, and it is still covered by the same permission after its groups
  have been replaced by any set that contains the target, so a key cannot move an account out of
  its own reach into a group it was not given.\<close>

theorem group_change_confined:
  assumes "allows_group p perm a g" "g \<in> set gs"
  shows "0 < g \<and> allows_account p perm a \<and> allows_account p perm (a\<lparr>aa_group_ids := gs\<rparr>)"
proof -
  from assms obtain r where r: "0 < g" "r \<in> set (rules_for p perm)" "rule_matches r a"
      "ar_all_groups r \<or> g \<in> set (ar_group_ids r)"
    by (auto simp: allows_group_def)
  have "gs \<noteq> []" using assms(2) by auto
  with r assms(2) have "rule_matches r (a\<lparr>aa_group_ids := gs\<rparr>)"
    by (auto simp: rule_matches_def split: if_splits)
  with r show ?thesis by (auto simp: allows_account_def)
qed

lemma rule_predicate_matches:
  assumes "\<forall>i \<in> set (ar_group_ids r). 0 < i"
  shows "(\<exists>q. rule_predicate r = Some q \<and> row_satisfies a q) \<longleftrightarrow> rule_matches r a"
proof -
  have "(\<exists>g \<in> set (aa_group_ids a). g \<in> set (ar_group_ids r)) \<longleftrightarrow>
      (\<exists>i \<in> set (aa_group_ids a). 0 < i \<and> i \<in> set (ar_group_ids r))"
    using assms by blast
  then show ?thesis
    by (auto simp: rule_predicate_def group_terms_def rule_matches_def Let_def)
qed

text \<open>For an accepted policy the account list a scoped key sees is exactly what its rules cover:
  the database predicates built from the policy select an account row if and only if
  \<^verbatim>\<open>AllowsAccount\<close> holds for it.\<close>

theorem scope_predicates_agree:
  assumes "validate_policy p = None"
  shows "row_satisfies a (Or_pred (scoped_account_predicates p perm)) \<longleftrightarrow> allows_account p perm a"
proof -
  have pos: "\<forall>i \<in> set (ar_group_ids r). 0 < i" if "r \<in> set (rules_for p perm)" for r
    using that assms
    by (auto simp: rules_for_def validate_policy_def or_else_None first_error_None validate_rule_None good_rule_def
        split: if_splits)
  have "row_satisfies a (Or_pred (scoped_account_predicates p perm)) \<longleftrightarrow>
      (\<exists>r \<in> set (rules_for p perm). \<exists>q. rule_predicate r = Some q \<and> row_satisfies a q)"
    by (auto simp: scoped_account_predicates_def list_ex_iff map_filter_set)
  also have "\<dots> \<longleftrightarrow> allows_account p perm a"
    unfolding allows_account_def using rule_predicate_matches pos by blast
  finally show ?thesis .
qed

section \<open>What no scoped key can reach\<close>

definition reserved_areas :: "string list" where
  "reserved_areas = [''/settings'', ''/admin-api-key'', ''/backups'', ''/accounts/data'', ''/restart'', ''/model-catalog'']"

text \<open>
  The catalog is small enough to look at every route of it: what follows a slash is compared with the reserved areas, and
  what follows the method has to begin with a slash.
\<close>

primrec has_area :: "string list \<Rightarrow> string \<Rightarrow> bool" where
  "has_area areas [] \<longleftrightarrow> False"
| "has_area areas (c # s) \<longleftrightarrow> (if c = CHR ''/'' then list_ex (\<lambda>a. prefix a s) areas else False) \<or> has_area areas s"

primrec path_rooted :: "string \<Rightarrow> bool" where
  "path_rooted [] \<longleftrightarrow> False"
| "path_rooted (c # s) \<longleftrightarrow> (if c = CHR '' '' then prefix ''/'' s else path_rooted s)"

lemma not_slash:
  "list_all (\<lambda>c. (c = CHR ''/'') = False) ''abcdefghijklmnopqrstuvwxyzDEGLOPSTUACH0123456789:- *''"
  by (simp only: list.pred_inject char.inject simp_thms)

lemma routes_fine:
  "list_all (\<lambda>d. list_all (\<lambda>r. \<not> has_area (map tl reserved_areas) r \<and> (prefix ''GET '' r \<or> \<not> has_area [''system''] r)
      \<and> path_rooted r) (pd_routes d)) permission_definitions"
  by (simp only: permission_definitions_def reserved_areas_def list.map list.sel list.pred_inject permission_definition.select_convs
      has_area.simps path_rooted.simps list_ex_Nil_iff list_ex_Cons_iff not_slash [unfolded list.pred_inject]
      prefix_code if_True if_False refl char.inject simp_thms cong: if_weak_cong)

lemma path_rooted_append: "CHR '' '' \<notin> set m \<Longrightarrow> path_rooted (m @ CHR '' '' # p) = prefix ''/'' p"
  by (induction m) auto

lemma has_area_append: "has_area areas p \<Longrightarrow> has_area areas (m @ p)"
  by (induction m) auto

lemma str_contains_area: "str_contains s (CHR ''/'' # a) \<Longrightarrow> a \<in> set areas \<Longrightarrow> has_area areas s"
  by (induction s) (auto simp: str_contains_def str_index.simps [of "[]"] str_index.simps [of "_ # _"] list_ex_iff split: if_splits)

lemma method_of_target: "CHR '' '' \<notin> set m \<Longrightarrow> takeWhile (\<lambda>c. c \<noteq> CHR '' '') (m @ CHR '' '' # p) = m"
  by (induction m) auto

lemma route_target_Some:
  assumes "route_target r = Some (m @ '' '' @ path)" "CHR '' '' \<notin> set m"
  obtains p where "r = m @ CHR '' '' # p" "path = ''/api/v1/admin'' @ p"
proof -
  let ?m = "takeWhile (\<lambda>c. c \<noteq> CHR '' '') r"
  from assms(1) obtain c p where d: "dropWhile (\<lambda>c. c \<noteq> CHR '' '') r = c # p" and t: "m @ '' '' @ path = ?m @ admin_prefix @ p"
    by (auto simp: route_target_def split: list.splits)
  have "c = CHR '' ''" using hd_dropWhile [of "\<lambda>c. c \<noteq> CHR '' ''" r] d by simp
  with d have r: "r = ?m @ CHR '' '' # p" by (metis takeWhile_dropWhile_id)
  have "CHR '' '' \<notin> set ?m" by (auto dest: set_takeWhileD)
  from arg_cong [OF t, of "takeWhile (\<lambda>c. c \<noteq> CHR '' '')"] have "?m = m"
    by (simp add: admin_prefix_def method_of_target assms(2) \<open>CHR '' '' \<notin> set ?m\<close>)
  moreover from this t have "path = ''/api/v1/admin'' @ p" by (simp add: admin_prefix_def)
  ultimately show ?thesis using r that by metis
qed

text \<open>C15: However wide its policy, a scoped key reaches only routes of the administration API, none
  under the settings, the administration keys, the backups, the account export or import, the
  restart or the model catalog, and of the system routes only reading ones: a key can neither mint
  keys nor change the configuration.\<close>

theorem scoped_key_confined:
  assumes "route_allowed p m path" "CHR '' '' \<notin> set m"
  shows "prefix ''/api/v1/admin/'' path \<and> (\<forall>area \<in> set reserved_areas. \<not> str_contains path area) \<and>
    (prefix ''/api/v1/admin/system'' path \<longrightarrow> m = ''GET'')"
proof -
  from assms obtain d r where "d \<in> set permission_definitions" "r \<in> set (pd_routes d)" "route_target r = Some (m @ '' '' @ path)"
    by (auto simp: route_allowed_def definition_covers_def Let_def)
  then obtain q where r: "r = m @ CHR '' '' # q" "path = ''/api/v1/admin'' @ q"
    and fine: "\<not> has_area (map tl reserved_areas) r" "prefix ''GET '' r \<or> \<not> has_area [''system''] r" "path_rooted r"
    using routes_fine route_target_Some [OF _ assms(2)] unfolding list_all_iff by metis
  from fine(3) obtain s where q: "q = CHR ''/'' # s" by (auto simp: r path_rooted_append assms(2) prefix_def)
  have area: "\<not> has_area (map tl reserved_areas) q"
    using fine(1) has_area_append [of _ q "m @ '' ''"] by (auto simp: r)
  then have "\<not> has_area (map tl reserved_areas) path"
    by (simp add: r q reserved_areas_def)
  then have "\<not> str_contains path area" if "area \<in> set reserved_areas" for area
    using that str_contains_area [of path "tl area" "map tl reserved_areas"] by (auto simp: reserved_areas_def)
  moreover have "m = ''GET''" if "prefix ''/api/v1/admin/system'' path"
  proof -
    from that have "has_area [''system''] q" by (simp add: r q)
    then have "prefix ''GET '' r" using fine(2) has_area_append [of _ q "m @ '' ''"] by (auto simp: r)
    then show ?thesis using assms(2) by (auto simp: r prefix_def append_eq_append_conv2 Cons_eq_append_conv append_eq_Cons_conv)
  qed
  ultimately show ?thesis by (simp add: r q)
qed

section \<open>Witnesses\<close>

definition demo_policy :: access_policy where
  "demo_policy = \<lparr>ap_rules =
     [\<lparr>ar_permissions = [''accounts.groups'', ''accounts.read''], ar_group_ids = [1, 3], ar_all_groups = False,
       ar_include_ungrouped = False, ar_account_types = [''oauth''], ar_platforms = []\<rparr>,
      \<lparr>ar_permissions = [''accounts.read''], ar_group_ids = [2], ar_all_groups = False,
       ar_include_ungrouped = True, ar_account_types = [''apikey''], ar_platforms = [''openai'']\<rparr>],
     ap_global_permissions = [''system.read'']\<rparr>"

lemma scoped_key_confined_witness:
  "\<not> str_contains ''/api/v1/admin/system/version'' ''/settings''"
proof -
  have "route_allowed demo_policy ''GET'' ''/api/v1/admin/system/version''" by code_simp
  from scoped_key_confined [OF this] show ?thesis by (simp add: reserved_areas_def)
qed

end
