(* ===== verification/AnthropicConvert.thy ===== *)
theory AnthropicConvert
  imports Prelude
begin

text \<open>
  The conversion of answers of the OpenAI Responses API into Anthropic messages
  (\<^verbatim>\<open>internal/pkg/apicompat/responses_to_anthropic.go\<close>): the whole response, and the stateful
  converter of streamed events. Of the Responses structures the records keep the fields the
  converters read; the Anthropic blocks, deltas and events, which the code tags with a type, are
  datatypes. JSON is the parameter \<open>json_lib\<close>.
\<close>

section \<open>The Responses side\<close>

record res_part =
  pt_type :: string
  pt_text :: string

record res_item =
  im_type :: string
  im_id :: string
  im_content :: "res_part list"
  im_status :: string
  im_encrypted :: string
  im_summary :: "res_part list"
  im_call_id :: string
  im_name :: string
  im_arguments :: string
  im_action :: "string option"

record res_usage =
  ru_input_tokens :: int
  ru_output_tokens :: int
  ru_cache_creation :: int
  ru_cached :: "int option"

record res_response =
  rs_id :: string
  rs_model :: string
  rs_status :: string
  rs_output :: "res_item list"
  rs_usage :: "res_usage option"
  rs_incomplete_reason :: "string option"

record res_event =
  re_type :: string
  re_response :: "res_response option"
  re_usage :: "res_usage option"
  re_item :: "res_item option"
  re_output_index :: int
  re_content_index :: int
  re_delta :: string
  re_text :: string
  re_arguments :: string

section \<open>The Anthropic side\<close>

record ant_usage =
  au_input_tokens :: int
  au_output_tokens :: int
  au_cache_creation :: int
  au_cache_read :: int

datatype ant_block =
  Text_block string
  | Thinking_block string string
  | Tool_use_block string string string
  | Server_tool_block string string string
  | Search_result_block string string

datatype ant_delta =
  Text_delta string | Input_json_delta string | Thinking_delta string | Signature_delta string

record ant_response =
  an_id :: string
  an_model :: string
  an_content :: "ant_block list"
  an_stop_reason :: "string option"
  an_usage :: ant_usage

datatype ant_event =
  Message_start ant_response
  | Block_start int ant_block
  | Block_delta int ant_delta
  | Block_stop int
  | Message_delta string ant_usage
  | Message_stop

record json_lib =
  jl_valid :: "string \<Rightarrow> bool"
  jl_object :: "string \<Rightarrow> (string, string) gomap option"
  jl_marshal_object :: "(string, string) gomap \<Rightarrow> string option"
  jl_query :: "string \<Rightarrow> string"

definition zero_usage :: ant_usage where
  "zero_usage = \<lparr>au_input_tokens = 0, au_output_tokens = 0, au_cache_creation = 0, au_cache_read = 0\<rparr>"

section \<open>Pieces both conversions use\<close>

definition from_responses_call_id :: "string \<Rightarrow> string" where
  "from_responses_call_id i =
     (if prefix ''fc_'' i \<and> (prefix ''toolu_'' (drop 3 i) \<or> prefix ''call_'' (drop 3 i)) then drop 3 i else i)"

definition usage_from_responses :: "res_usage option \<Rightarrow> ant_usage" where
  "usage_from_responses usage =
     (case usage of None \<Rightarrow> zero_usage
      | Some u \<Rightarrow>
          let cached = (case ru_cached u of None \<Rightarrow> 0 | Some n \<Rightarrow> n);
              input = ru_input_tokens u - cached - ru_cache_creation u
          in \<lparr>au_input_tokens = (if input < 0 then 0 else input), au_output_tokens = ru_output_tokens u,
              au_cache_creation = ru_cache_creation u, au_cache_read = cached\<rparr>)"

definition is_tool_use :: "ant_block \<Rightarrow> bool" where
  "is_tool_use b = (case b of Tool_use_block _ _ _ \<Rightarrow> True | _ \<Rightarrow> False)"

definition contains_tool_use :: "ant_block list \<Rightarrow> bool" where
  "contains_tool_use bs \<longleftrightarrow> (\<exists>b \<in> set bs. is_tool_use b)"

definition stop_reason_of_status :: "string \<Rightarrow> string option \<Rightarrow> ant_block list \<Rightarrow> string" where
  "stop_reason_of_status status reason blocks =
     (if status = ''incomplete'' then
        (if reason = Some ''max_output_tokens'' then ''max_tokens'' else ''end_turn'')
      else if status = ''completed'' then
        (if contains_tool_use blocks then ''tool_use'' else ''end_turn'')
      else ''end_turn'')"

definition sanitize_tool_input :: "json_lib \<Rightarrow> string \<Rightarrow> string \<Rightarrow> string" where
  "sanitize_tool_input js name raw =
     (if name \<noteq> ''Read'' \<or> raw = [] then raw
      else case jl_object js raw of
          None \<Rightarrow> raw
        | Some input \<Rightarrow>
            (case gm_get input ''pages'' of
               None \<Rightarrow> raw
             | Some pages \<Rightarrow>
                 if pages \<noteq> [CHR 0x22, CHR 0x22] then raw
                 else case jl_marshal_object js (gm_delete ''pages'' input) of None \<Rightarrow> raw | Some s \<Rightarrow> s))"

section \<open>The whole response\<close>

definition item_blocks :: "json_lib \<Rightarrow> res_item \<Rightarrow> ant_block list" where
  "item_blocks js item =
     (if im_type item = ''reasoning'' then
        (let summary = concat (map pt_text (filter (\<lambda>s. pt_type s = ''summary_text'' \<and> pt_text s \<noteq> []) (im_summary item)))
         in if summary \<noteq> [] \<or> trim_space (im_encrypted item) \<noteq> []
            then [Thinking_block summary (im_encrypted item)] else [])
      else if im_type item = ''message'' then
        map (\<lambda>p. Text_block (pt_text p)) (filter (\<lambda>p. pt_type p = ''output_text'' \<and> pt_text p \<noteq> []) (im_content item))
      else if im_type item = ''function_call'' then
        [Tool_use_block (from_responses_call_id (im_call_id item)) (im_name item)
           (sanitize_tool_input js (im_name item) (im_arguments item))]
      else if im_type item = ''web_search_call'' then
        (let tid = ''srvtoolu_'' @ im_id item; query = (case im_action item of None \<Rightarrow> [] | Some q \<Rightarrow> q)
         in [Server_tool_block tid ''web_search'' (jl_query js query), Search_result_block tid ''[]''])
      else [])"

definition responses_to_anthropic :: "json_lib \<Rightarrow> res_response \<Rightarrow> string \<Rightarrow> ant_response" where
  "responses_to_anthropic js resp model =
     (let found = concat (map (item_blocks js) (rs_output resp));
          blocks = (if found = [] then [Text_block []] else found)
      in \<lparr>an_id = rs_id resp, an_model = model, an_content = blocks,
          an_stop_reason = Some (stop_reason_of_status (rs_status resp) (rs_incomplete_reason resp) blocks),
          an_usage = usage_from_responses (rs_usage resp)\<rparr>)"

section \<open>The stream\<close>

record conv_state =
  cv_start_sent :: bool
  cv_stop_sent :: bool
  cv_index :: int
  cv_open :: bool
  cv_block_type :: string
  cv_tool_name :: string
  cv_tool_args :: string
  cv_tool_had_delta :: bool
  cv_signature :: string
  cv_has_tool_call :: bool
  cv_block_of_output :: "int \<rightharpoonup> int"
  cv_text_by_part :: "(int \<times> int) \<rightharpoonup> string"
  cv_text_delivered :: bool
  cv_usage :: ant_usage
  cv_response_id :: string
  cv_model :: string
  cv_created :: int

definition new_conv_state :: "int \<Rightarrow> conv_state" where
  "new_conv_state now_unix =
     \<lparr>cv_start_sent = False, cv_stop_sent = False, cv_index = 0, cv_open = False, cv_block_type = [],
      cv_tool_name = [], cv_tool_args = [], cv_tool_had_delta = False, cv_signature = [], cv_has_tool_call = False,
      cv_block_of_output = Map.empty, cv_text_by_part = Map.empty, cv_text_delivered = False,
      cv_usage = zero_usage, cv_response_id = [], cv_model = [], cv_created = now_unix\<rparr>"

text \<open>Every handler returns the events it emits and the state it leaves.\<close>

type_synonym conv_result = "ant_event list \<times> conv_state"

definition close_block :: "conv_state \<Rightarrow> conv_result" where
  "close_block st =
     (if \<not> cv_open st then ([], st)
      else
        let idx = cv_index st; thinking = (cv_block_type st = ''thinking''); sig = trim_space (cv_signature st);
            signed = (if thinking \<and> sig \<noteq> [] then [Block_delta idx (Signature_delta sig)] else []);
            st1 = (if thinking then st\<lparr>cv_signature := []\<rparr> else st)
        in (signed @ [Block_stop idx],
            st1\<lparr>cv_open := False, cv_index := cv_index st + 1, cv_tool_name := [], cv_tool_args := [],
                cv_tool_had_delta := False\<rparr>))"

definition handle_created :: "res_event \<Rightarrow> conv_state \<Rightarrow> conv_result" where
  "handle_created evt st =
     (let st1 = (case re_response evt of None \<Rightarrow> st
            | Some r \<Rightarrow> st\<lparr>cv_response_id := rs_id r, cv_model := (if cv_model st = [] then rs_model r else cv_model st)\<rparr>)
      in if cv_start_sent st1 then ([], st1)
         else ([Message_start \<lparr>an_id = cv_response_id st1, an_model = cv_model st1, an_content = [],
                  an_stop_reason = None, an_usage = zero_usage\<rparr>], st1\<lparr>cv_start_sent := True\<rparr>))"

definition open_block :: "ant_block \<Rightarrow> string \<Rightarrow> conv_state \<Rightarrow> conv_result" where
  "open_block b kind st =
     (let (evs, st1) = close_block st
      in (evs @ [Block_start (cv_index st1) b], st1\<lparr>cv_open := True, cv_block_type := kind\<rparr>))"

definition handle_item_added :: "res_event \<Rightarrow> conv_state \<Rightarrow> conv_result" where
  "handle_item_added evt st =
     (case re_item evt of
        None \<Rightarrow> ([], st)
      | Some item \<Rightarrow>
          if im_type item = ''function_call'' \<or> im_type item = ''custom_tool_call'' then
            (let (evs, st1) = open_block (Tool_use_block (from_responses_call_id (im_call_id item)) (im_name item) ''{}'')
                    ''tool_use'' st
             in (evs, st1\<lparr>cv_block_of_output := (cv_block_of_output st1)(re_output_index evt \<mapsto> cv_index st1),
                  cv_tool_name := im_name item, cv_tool_args := [], cv_tool_had_delta := False, cv_has_tool_call := True\<rparr>))
          else if im_type item = ''reasoning'' then
            (let (evs, st1) = open_block (Thinking_block [] []) ''thinking'' st
             in (evs, st1\<lparr>cv_block_of_output := (cv_block_of_output st1)(re_output_index evt \<mapsto> cv_index st1),
                  cv_signature := trim_space (im_encrypted item)\<rparr>))
          else ([], st))"

definition text_part_of :: "res_event \<Rightarrow> int \<times> int" where
  "text_part_of evt = (re_output_index evt, re_content_index evt)"

definition emit_text :: "string \<Rightarrow> int \<times> int \<Rightarrow> conv_state \<Rightarrow> conv_result" where
  "emit_text text part st =
     (if text = [] then ([], st)
      else
        let (evs, st1) = (if \<not> cv_open st \<or> cv_block_type st \<noteq> ''text''
               then open_block (Text_block []) ''text'' st else ([], st));
            delivered = (case cv_text_by_part st1 part of None \<Rightarrow> [] | Some s \<Rightarrow> s)
        in (evs @ [Block_delta (cv_index st1) (Text_delta text)],
            st1\<lparr>cv_text_by_part := (cv_text_by_part st1)(part \<mapsto> delivered @ text), cv_text_delivered := True\<rparr>))"

definition recover_text :: "string \<Rightarrow> int \<times> int \<Rightarrow> conv_state \<Rightarrow> conv_result" where
  "recover_text text part st =
     (if cv_text_by_part st part = None \<and> cv_text_delivered st then ([], st)
      else
        let delivered = (case cv_text_by_part st part of None \<Rightarrow> [] | Some s \<Rightarrow> s)
        in if text = delivered \<or> \<not> prefix delivered text then ([], st)
           else emit_text (drop (length delivered) text) part st)"

definition handle_text_delta :: "res_event \<Rightarrow> conv_state \<Rightarrow> conv_result" where
  "handle_text_delta evt st = emit_text (re_delta evt) (text_part_of evt) st"

definition handle_block_done :: "conv_state \<Rightarrow> conv_result" where
  "handle_block_done st = (if \<not> cv_open st then ([], st) else close_block st)"

definition handle_text_done :: "res_event \<Rightarrow> conv_state \<Rightarrow> conv_result" where
  "handle_text_done evt st =
     (if cv_stop_sent st then handle_block_done st
      else
        let (evs, st1) = recover_text (re_text evt) (text_part_of evt) st; (evs', st2) = handle_block_done st1
        in (evs @ evs', st2))"

definition handle_args_delta :: "json_lib \<Rightarrow> res_event \<Rightarrow> conv_state \<Rightarrow> conv_result" where
  "handle_args_delta js evt st =
     (if re_delta evt = [] then ([], st)
      else if cv_block_type st = ''tool_use'' \<and> cv_tool_name st = ''Read'' then
        let st1 = st\<lparr>cv_tool_args := cv_tool_args st @ re_delta evt\<rparr> in
        if cv_tool_had_delta st1 \<or> \<not> jl_valid js (cv_tool_args st1) then ([], st1)
        else (case cv_block_of_output st1 (re_output_index evt) of
            None \<Rightarrow> ([], st1)
          | Some b \<Rightarrow> ([Block_delta b (Input_json_delta (sanitize_tool_input js (cv_tool_name st1) (cv_tool_args st1)))],
                       st1\<lparr>cv_tool_had_delta := True\<rparr>))
      else
        let st1 = (if cv_block_type st = ''tool_use'' then st\<lparr>cv_tool_had_delta := True\<rparr> else st)
        in (case cv_block_of_output st1 (re_output_index evt) of
            None \<Rightarrow> ([], st1)
          | Some b \<Rightarrow> ([Block_delta b (Input_json_delta (re_delta evt))], st1)))"

definition handle_args_done :: "json_lib \<Rightarrow> res_event \<Rightarrow> conv_state \<Rightarrow> conv_result" where
  "handle_args_done js evt st =
     (if \<not> cv_open st then ([], st)
      else if cv_block_type st \<noteq> ''tool_use'' then handle_block_done st
      else
        let raw = (if re_arguments evt = [] then cv_tool_args st else re_arguments evt) in
        if raw = [] \<or> cv_tool_had_delta st then close_block st
        else
          let clean = (if cv_tool_name st = ''Read'' then sanitize_tool_input js (cv_tool_name st) raw else raw) in
          if cv_tool_name st = ''Read'' \<and> clean = [] then close_block st
          else
            let b = (case cv_block_of_output st (re_output_index evt) of None \<Rightarrow> cv_index st | Some i \<Rightarrow> i) in
            if \<not> cv_open st \<or> b \<noteq> cv_index st then ([], st)
            else let (evs, st1) = close_block st in (Block_delta b (Input_json_delta clean) # evs, st1))"

definition handle_reasoning_delta :: "res_event \<Rightarrow> conv_state \<Rightarrow> conv_result" where
  "handle_reasoning_delta evt st =
     (if re_delta evt = [] then ([], st)
      else case cv_block_of_output st (re_output_index evt) of
          None \<Rightarrow> ([], st)
        | Some b \<Rightarrow> ([Block_delta b (Thinking_delta (re_delta evt))], st))"

definition handle_web_search_done :: "json_lib \<Rightarrow> res_item \<Rightarrow> conv_state \<Rightarrow> conv_result" where
  "handle_web_search_done js item st =
     (let (evs, st1) = close_block st; tid = ''srvtoolu_'' @ im_id item;
          query = (case im_action item of None \<Rightarrow> [] | Some q \<Rightarrow> q); i = cv_index st1
      in (evs @ [Block_start i (Server_tool_block tid ''web_search'' (jl_query js query)), Block_stop i,
                 Block_start (i + 1) (Search_result_block tid ''[]''), Block_stop (i + 1)],
          st1\<lparr>cv_index := i + 2\<rparr>))"

definition handle_item_done :: "json_lib \<Rightarrow> res_event \<Rightarrow> conv_state \<Rightarrow> conv_result" where
  "handle_item_done js evt st =
     (case re_item evt of
        None \<Rightarrow> ([], st)
      | Some item \<Rightarrow>
          if im_type item = ''web_search_call'' \<and> im_status item = ''completed'' then handle_web_search_done js item st
          else
            let st1 = (if im_type item = ''reasoning'' \<and> trim_space (im_encrypted item) \<noteq> []
                       then st\<lparr>cv_signature := trim_space (im_encrypted item)\<rparr> else st)
            in if cv_open st1 then close_block st1 else ([], st1))"

text \<open>The texts of the terminal payload, each with its part.\<close>

definition terminal_texts :: "res_response \<Rightarrow> ((int \<times> int) \<times> string) list" where
  "terminal_texts r =
     concat (map (\<lambda>(oi, item). if im_type item \<noteq> ''message'' then []
         else map (\<lambda>(ci, p). ((int oi, int ci), pt_text p))
                (filter (\<lambda>(ci, p). pt_type p = ''output_text'') (enumerate 0 (im_content item))))
       (enumerate 0 (rs_output r)))"

fun emit_texts :: "((int \<times> int) \<times> string) list \<Rightarrow> conv_state \<Rightarrow> conv_result" where
  "emit_texts [] st = ([], st)"
| "emit_texts ((part, text) # ts) st =
     (let (evs, st1) = emit_text text part st; (evs', st2) = emit_texts ts st1 in (evs @ evs', st2))"

definition recover_terminal_text :: "res_event \<Rightarrow> conv_state \<Rightarrow> conv_result" where
  "recover_terminal_text evt st =
     (case re_response evt of
        None \<Rightarrow> ([], st)
      | Some r \<Rightarrow>
          if cv_text_delivered st then ([], st)
          else
            let (evs, st1) = emit_texts (terminal_texts r) st
            in if evs \<noteq> [] then (let (evs', st2) = close_block st1 in (evs @ evs', st2)) else (evs, st1))"

definition terminal_usage :: "res_event \<Rightarrow> ant_usage \<Rightarrow> ant_usage" where
  "terminal_usage evt u0 =
     (let u1 = (case re_usage evt of None \<Rightarrow> u0 | Some u \<Rightarrow> usage_from_responses (Some u))
      in case re_response evt of None \<Rightarrow> u1
         | Some r \<Rightarrow> (case rs_usage r of None \<Rightarrow> u1 | Some u \<Rightarrow> usage_from_responses (Some u)))"

definition terminal_stop_reason :: "res_event \<Rightarrow> bool \<Rightarrow> string" where
  "terminal_stop_reason evt has_tool_call =
     (case re_response evt of
        None \<Rightarrow> ''end_turn''
      | Some r \<Rightarrow>
          if rs_status r = ''incomplete'' then
            (if rs_incomplete_reason r = Some ''max_output_tokens'' then ''max_tokens'' else ''end_turn'')
          else if rs_status r = ''completed'' then (if has_tool_call then ''tool_use'' else ''end_turn'')
          else ''end_turn'')"

definition handle_completed :: "res_event \<Rightarrow> conv_state \<Rightarrow> conv_result" where
  "handle_completed evt st =
     (if cv_stop_sent st then ([], st)
      else
        let (evs1, st1) = close_block st; (evs2, st2) = recover_terminal_text evt st1;
            st3 = st2\<lparr>cv_usage := terminal_usage evt (cv_usage st2)\<rparr>
        in (evs1 @ evs2 @ [Message_delta (terminal_stop_reason evt (cv_has_tool_call st3)) (cv_usage st3), Message_stop],
            st3\<lparr>cv_stop_sent := True\<rparr>))"

definition terminal_types :: "string list" where
  "terminal_types = [''response.completed'', ''response.done'', ''response.incomplete'', ''response.failed'']"

definition convert_event :: "json_lib \<Rightarrow> res_event \<Rightarrow> conv_state \<Rightarrow> conv_result" where
  "convert_event js evt st =
     (let t = re_type evt in
      if t = ''response.created'' then handle_created evt st
      else if t = ''response.output_item.added'' then handle_item_added evt st
      else if t = ''response.output_text.delta'' then handle_text_delta evt st
      else if t = ''response.output_text.done'' then handle_text_done evt st
      else if t = ''response.function_call_arguments.delta'' \<or> t = ''response.custom_tool_call_input.delta''
        then handle_args_delta js evt st
      else if t = ''response.function_call_arguments.done'' then handle_args_done js evt st
      else if t = ''response.output_item.done'' then handle_item_done js evt st
      else if t = ''response.reasoning_summary_text.delta'' \<or> t = ''response.reasoning_text.delta''
        then handle_reasoning_delta evt st
      else if t = ''response.reasoning_summary_text.done'' then ([], st)
      else if t \<in> set terminal_types then handle_completed evt st
      else ([], st))"

definition finalize_stream :: "conv_state \<Rightarrow> conv_result" where
  "finalize_stream st =
     (if \<not> cv_start_sent st \<or> cv_stop_sent st then ([], st)
      else
        let (evs, st1) = close_block st
        in (evs @ [Message_delta (if cv_has_tool_call st1 then ''tool_use'' else ''end_turn'') (cv_usage st1), Message_stop],
            st1\<lparr>cv_stop_sent := True\<rparr>))"

text \<open>The stream of a whole upstream answer.\<close>

fun convert_events :: "json_lib \<Rightarrow> res_event list \<Rightarrow> conv_state \<Rightarrow> conv_result" where
  "convert_events js [] st = ([], st)"
| "convert_events js (evt # evts) st =
     (let (evs, st1) = convert_event js evt st; (evs', st2) = convert_events js evts st1 in (evs @ evs', st2))"

definition convert_stream :: "json_lib \<Rightarrow> res_event list \<Rightarrow> conv_state \<Rightarrow> conv_result" where
  "convert_stream js evts st =
     (let (evs, st1) = convert_events js evts st; (evs', st2) = finalize_stream st1 in (evs @ evs', st2))"

end
