(* ===== verification/StreamTransducer.thy ===== *)
theory StreamTransducer
  imports Main
begin

text \<open>
  The interface of the stream converters. A converter turns every incoming event into a list of
  outgoing ones and a new state; a protocol is a partial step function that says which event may
  come next. The locale relates the protocol of the source, the state of the converter and
  the protocol of the client, and shows once that a step-wise correspondence gives one
  for whole streams.
\<close>

fun run_protocol :: "('q \<Rightarrow> 'o \<Rightarrow> 'q option) \<Rightarrow> 'q \<Rightarrow> 'o list \<Rightarrow> 'q option" where
  "run_protocol step q [] = Some q"
| "run_protocol step q (x # xs) = (case step q x of None \<Rightarrow> None | Some q' \<Rightarrow> run_protocol step q' xs)"

lemma run_protocol_append:
  "run_protocol step q (xs @ ys) =
     (case run_protocol step q xs of None \<Rightarrow> None | Some q' \<Rightarrow> run_protocol step q' ys)"
  by (induction xs arbitrary: q) (auto split: option.splits)

lemma run_protocol_appendI:
  "run_protocol step q xs = Some q' \<Longrightarrow> run_protocol step q' ys = r \<Longrightarrow> run_protocol step q (xs @ ys) = r"
  by (simp add: run_protocol_append)

fun transduce :: "('e \<Rightarrow> 's \<Rightarrow> 'o list \<times> 's) \<Rightarrow> 'e list \<Rightarrow> 's \<Rightarrow> 'o list \<times> 's" where
  "transduce conv [] s = ([], s)"
| "transduce conv (e # es) s =
     (let (os, s1) = conv e s; (os', s2) = transduce conv es s1 in (os @ os', s2))"

lemma transduce_append:
  "transduce conv (es @ es') s =
     (let (os, s1) = transduce conv es s; (os', s2) = transduce conv es' s1 in (os @ os', s2))"
  by (induction es arbitrary: s) (auto split: prod.splits)

locale stream_transducer =
  fixes conv :: "'e \<Rightarrow> 's \<Rightarrow> 'o list \<times> 's"
    and source :: "'u \<Rightarrow> 'e \<Rightarrow> 'u option"
    and client :: "'q \<Rightarrow> 'o \<Rightarrow> 'q option"
    and rel :: "'u \<Rightarrow> 's \<Rightarrow> 'q \<Rightarrow> bool"
  assumes conv_step:
    "rel u s q \<Longrightarrow> source u e = Some u' \<Longrightarrow> conv e s = (os, s') \<Longrightarrow>
     \<exists>q'. run_protocol client q os = Some q' \<and> rel u' s' q'"
begin

theorem conv_run:
  assumes "rel u s q" "run_protocol source u es = Some u'" "transduce conv es s = (os, s')"
  shows "\<exists>q'. run_protocol client q os = Some q' \<and> rel u' s' q'"
  using assms
proof (induction es arbitrary: u s q os)
  case Nil
  then show ?case by auto
next
  case (Cons e es)
  obtain os1 s1 os2 where c: "conv e s = (os1, s1)" "transduce conv es s1 = (os2, s')" "os = os1 @ os2"
    using Cons.prems(3) by (auto split: prod.splits)
  obtain u1 where u: "source u e = Some u1" "run_protocol source u1 es = Some u'"
    using Cons.prems(2) by (auto split: option.splits)
  from conv_step [OF Cons.prems(1) u(1) c(1)] obtain q1 where
    q1: "run_protocol client q os1 = Some q1" "rel u1 s1 q1" by blast
  from Cons.IH [OF q1(2) u(2) c(2)] q1(1) c(3) show ?case by (auto simp: run_protocol_append)
qed

end

text \<open>A source without a protocol of its own: every event may come at any time.\<close>

definition any_event :: "unit \<Rightarrow> 'e \<Rightarrow> unit option" where
  "any_event u e = Some ()"

lemma run_any_event [simp]: "run_protocol any_event u es = Some ()"
  by (induction es arbitrary: u) (simp_all add: any_event_def)

end
