(* ===== verification/AnthropicProtocol.thy ===== *)
theory AnthropicProtocol
  imports AnthropicConvert StreamTransducer
begin

text \<open>
  The protocol of the streamed answer: what an Anthropic client accepts, what a Responses source
  sends, and that the converter turns the one into the other.
\<close>

section \<open>The client's protocol\<close>

datatype block_kind = Text_kind | Thinking_kind | Tool_kind | Server_kind | Result_kind

fun kind_of_block :: "ant_block \<Rightarrow> block_kind" where
  "kind_of_block (Text_block _) = Text_kind"
| "kind_of_block (Thinking_block _ _) = Thinking_kind"
| "kind_of_block (Tool_use_block _ _ _) = Tool_kind"
| "kind_of_block (Server_tool_block _ _ _) = Server_kind"
| "kind_of_block (Search_result_block _ _) = Result_kind"

fun delta_fits :: "block_kind \<Rightarrow> ant_delta \<Rightarrow> bool" where
  "delta_fits k (Text_delta _) = (k = Text_kind)"
| "delta_fits k (Input_json_delta _) = (k = Tool_kind)"
| "delta_fits k (Thinking_delta _) = (k = Thinking_kind)"
| "delta_fits k (Signature_delta _) = (k = Thinking_kind)"

datatype client_phase = Awaiting | Between int | Inside int block_kind | Ended | Stopped

fun client_step :: "client_phase \<Rightarrow> ant_event \<Rightarrow> client_phase option" where
  "client_step Awaiting (Message_start m) = Some (Between 0)"
| "client_step (Between n) (Block_start i b) = (if i = n then Some (Inside n (kind_of_block b)) else None)"
| "client_step (Inside n k) (Block_delta i d) = (if i = n \<and> delta_fits k d then Some (Inside n k) else None)"
| "client_step (Inside n k) (Block_stop i) = (if i = n then Some (Between (n + 1)) else None)"
| "client_step (Between n) (Message_delta r u) = Some Ended"
| "client_step Ended Message_stop = Some Stopped"
| "client_step q e = None"

abbreviation client_run :: "client_phase \<Rightarrow> ant_event list \<Rightarrow> client_phase option" where
  "client_run \<equiv> run_protocol client_step"

text \<open>Only the starts and stops of blocks: the next index, and whether a block is open.\<close>

fun frame_step :: "int \<times> bool \<Rightarrow> ant_event \<Rightarrow> (int \<times> bool) option" where
  "frame_step (n, opened) (Block_start i b) = (if \<not> opened \<and> i = n then Some (n, True) else None)"
| "frame_step (n, opened) (Block_stop i) = (if opened \<and> i = n then Some (n + 1, False) else None)"
| "frame_step q e = Some q"

section \<open>The source's protocol\<close>

definition handled_types :: "string list" where
  "handled_types =
     [''response.created'', ''response.output_item.added'', ''response.output_text.delta'',
      ''response.output_text.done'', ''response.function_call_arguments.delta'',
      ''response.custom_tool_call_input.delta'', ''response.function_call_arguments.done'',
      ''response.output_item.done'', ''response.reasoning_summary_text.delta'', ''response.reasoning_text.delta'']
     @ terminal_types"

datatype source_phase =
  Src_start | Src_between | Src_text int | Src_tool int bool | Src_reasoning int | Src_other int | Src_done

text \<open>Items come one after the other; the events of an item carry its output index and come between
  its \<open>added\<close> and its \<open>done\<close>; arguments are finished once; a terminal event ends the stream.\<close>

definition item_phase :: "int \<Rightarrow> res_item \<Rightarrow> source_phase" where
  "item_phase i item =
     (if im_type item = ''message'' then Src_text i
      else if im_type item = ''function_call'' \<or> im_type item = ''custom_tool_call'' then Src_tool i False
      else if im_type item = ''reasoning'' then Src_reasoning i else Src_other i)"

definition inside_step :: "int \<Rightarrow> string list \<Rightarrow> source_phase \<Rightarrow> res_event \<Rightarrow> source_phase option" where
  "inside_step i types stay e =
     (if re_type e \<in> set terminal_types then Some Src_done
      else if re_type e = ''response.output_item.done'' \<and> re_output_index e = i \<and> re_item e \<noteq> None
        then Some Src_between
      else if re_type e \<in> set types \<and> re_output_index e = i then Some stay
      else if re_type e \<notin> set handled_types then Some stay
      else None)"

fun source_step :: "source_phase \<Rightarrow> res_event \<Rightarrow> source_phase option" where
  "source_step Src_start e =
     (if re_type e = ''response.created'' then Some Src_between
      else if re_type e \<notin> set handled_types then Some Src_start else None)"
| "source_step Src_between e =
     (if re_type e \<in> set terminal_types then Some Src_done
      else if re_type e = ''response.output_item.added''
        then (case re_item e of None \<Rightarrow> None | Some item \<Rightarrow> Some (item_phase (re_output_index e) item))
      else if re_type e \<notin> set handled_types then Some Src_between else None)"
| "source_step (Src_text i) e =
     inside_step i [''response.output_text.delta'', ''response.output_text.done''] (Src_text i) e"
| "source_step (Src_tool i finished) e =
     (if \<not> finished \<and> re_type e = ''response.function_call_arguments.done'' \<and> re_output_index e = i
      then Some (Src_tool i True)
      else inside_step i (if finished then [] else
        [''response.function_call_arguments.delta'', ''response.custom_tool_call_input.delta'']) (Src_tool i finished) e)"
| "source_step (Src_reasoning i) e =
     inside_step i [''response.reasoning_summary_text.delta'', ''response.reasoning_text.delta''] (Src_reasoning i) e"
| "source_step (Src_other i) e = inside_step i [] (Src_other i) e"
| "source_step Src_done e = None"

section \<open>The converter as a transducer\<close>

lemma convert_events_transduce: "convert_events js evts st = transduce (convert_event js) evts st"
  by (induction evts arbitrary: st) (simp_all add: split_def)

text \<open>The frame of a state: the index of the next or the open block.\<close>

definition frame :: "conv_state \<Rightarrow> int \<times> bool" where
  "frame st = (cv_index st, cv_open st)"

definition frame_ok :: "conv_state \<Rightarrow> conv_result \<Rightarrow> bool" where
  "frame_ok st r \<longleftrightarrow> run_protocol frame_step (frame st) (fst r) = Some (frame (snd r))"

lemma frame_nil: "frame st' = frame st \<Longrightarrow> frame_ok st ([], st')"
  by (simp add: frame_ok_def)

lemma frame_seq:
  "frame_ok st (evs, st1) \<Longrightarrow> frame_ok st1 (evs', st2) \<Longrightarrow> frame_ok st (evs @ evs', st2)"
  by (simp add: frame_ok_def run_protocol_append)

lemma frame_let:
  assumes "frame_ok st r" "\<And>st1. frame_ok st1 (f st1)"
  shows "frame_ok st (let (evs, st1) = r; (evs', st2) = f st1 in (evs @ evs', st2))"
proof -
  obtain e1 s1 e2 s2 where "r = (e1, s1)" "f s1 = (e2, s2)" by (cases r, cases "f (snd r)") auto
  then show ?thesis using assms(1) assms(2) [of s1] by (simp add: frame_seq)
qed

lemma frame_cong: "frame st = frame st' \<Longrightarrow> frame_ok st r = frame_ok st' r"
  by (simp add: frame_ok_def)

lemma frame_delta: "frame_ok st r \<Longrightarrow> frame_ok st (Block_delta i d # fst r, snd r)"
  by (cases st) (simp add: frame_ok_def frame_def)

lemma frame_close: "frame_ok st (close_block st)"
  by (auto simp: frame_ok_def frame_def close_block_def Let_def)

lemma close_closed: "\<not> cv_open (snd (close_block st))"
  by (auto simp: close_block_def Let_def)

lemma frame_open: "frame_ok st (open_block b kind st)"
  using frame_close [of st] close_closed [of st]
  by (auto simp: frame_ok_def frame_def open_block_def run_protocol_append split: prod.splits)

lemma frame_emit: "frame_ok st (emit_text text part st)"
  using frame_open [of st "Text_block []" "''text''"]
  by (auto simp: frame_ok_def frame_def emit_text_def run_protocol_append Let_def split: prod.splits)

lemma frame_emits: "frame_ok st (emit_texts ts st)"
proof (induction ts arbitrary: st)
  case Nil
  show ?case by (simp add: frame_nil)
next
  case (Cons x ts)
  show ?case by (cases x) (simp only: emit_texts.simps, rule frame_let [OF frame_emit Cons.IH])
qed

lemma frame_block_done: "frame_ok st (handle_block_done st)"
  by (simp add: handle_block_done_def frame_close frame_nil)

lemma frame_handle_created: "frame_ok st (handle_created evt st)"
  by (auto simp: handle_created_def frame_ok_def frame_def Let_def split: option.split)

lemma frame_handle_item_added: "frame_ok st (handle_item_added evt st)"
proof (cases "re_item evt")
  case None
  then show ?thesis by (simp add: handle_item_added_def frame_nil)
next
  case (Some item)
  have upd: "frame_ok st (let (evs, st1) = open_block b k st in (evs, g st1))" if "\<And>s. frame (g s) = frame s" for b k g
    using frame_open [of st b k] that by (cases "open_block b k st") (simp add: frame_ok_def)
  show ?thesis
    unfolding handle_item_added_def Some option.case
  proof (split if_split, intro conjI impI)
    show "frame_ok st (let (evs, st1) = open_block
        (Tool_use_block (from_responses_call_id (im_call_id item)) (im_name item) ''{}'') ''tool_use'' st
      in (evs, st1\<lparr>cv_block_of_output := (cv_block_of_output st1)(re_output_index evt \<mapsto> cv_index st1),
           cv_tool_name := im_name item, cv_tool_args := [], cv_tool_had_delta := False, cv_has_tool_call := True\<rparr>))"
      by (rule upd) (simp add: frame_def)
    show "frame_ok st (if im_type item = ''reasoning'' then
        let (evs, st1) = open_block (Thinking_block [] []) ''thinking'' st
        in (evs, st1\<lparr>cv_block_of_output := (cv_block_of_output st1)(re_output_index evt \<mapsto> cv_index st1),
             cv_signature := trim_space (im_encrypted item)\<rparr>) else ([], st))"
      by (split if_split, intro conjI impI, rule upd) (simp_all add: frame_def frame_nil)
  qed
qed

lemma frame_handle_text_done: "frame_ok st (handle_text_done evt st)"
proof -
  have "frame_ok st (recover_text t p st)" for t p
    by (simp add: recover_text_def Let_def frame_emit frame_nil)
  from frame_let [OF this frame_block_done] show ?thesis
    by (simp add: handle_text_done_def frame_block_done)
qed

lemma frame_handle_args_delta: "frame_ok st (handle_args_delta js evt st)"
  by (auto simp: handle_args_delta_def frame_ok_def frame_def Let_def split: option.split)

lemma frame_handle_args_done: "frame_ok st (handle_args_done js evt st)"
  using frame_delta [OF frame_close [of st]]
  by (simp add: handle_args_done_def Let_def frame_close frame_block_done frame_nil split_def)

lemma frame_handle_reasoning_delta: "frame_ok st (handle_reasoning_delta evt st)"
  by (auto simp: handle_reasoning_delta_def frame_ok_def frame_def split: option.split)

lemma frame_web_search_done: "frame_ok st (handle_web_search_done js item st)"
  using frame_close [of st] close_closed [of st]
  by (cases "close_block st") (simp add: handle_web_search_done_def frame_ok_def frame_def run_protocol_append Let_def)

lemma frame_handle_item_done: "frame_ok st (handle_item_done js evt st)"
proof (cases "re_item evt")
  case (Some item)
  have "frame_ok st (close_block (st\<lparr>cv_signature := s\<rparr>))" for s
    using frame_close [of "st\<lparr>cv_signature := s\<rparr>"] by (simp add: frame_ok_def frame_def)
  then show ?thesis
    by (simp add: handle_item_done_def Some Let_def frame_web_search_done frame_close frame_nil)
       (simp add: frame_ok_def frame_def)
qed (simp add: handle_item_done_def frame_nil)

lemma frame_recover_terminal: "frame_ok st (recover_terminal_text evt st)"
proof (cases "re_response evt")
  case (Some r)
  obtain e1 s1 e2 s2 where 1: "emit_texts (terminal_texts r) st = (e1, s1)" "close_block s1 = (e2, s2)" by fastforce
  have "frame_ok st (e1, s1)" using frame_emits [of st "terminal_texts r"] by (simp add: 1)
  moreover have "frame_ok st (e1 @ e2, s2)" using calculation frame_close [of s1] by (simp add: 1 frame_seq)
  ultimately show ?thesis by (auto simp: recover_terminal_text_def Some 1 frame_nil)
qed (simp add: recover_terminal_text_def frame_nil)

lemma frame_handle_completed: "frame_ok st (handle_completed evt st)"
proof (cases "cv_stop_sent st")
  case False
  obtain e1 st1 e2 st2 where 1: "close_block st = (e1, st1)" "recover_terminal_text evt st1 = (e2, st2)"
    by fastforce
  with frame_close [of st] frame_recover_terminal [of st1 evt] have "frame_ok st (e1 @ e2, st2)"
    by (auto intro: frame_seq)
  then have "run_protocol frame_step (frame st) ((e1 @ e2) @ [Message_delta r u, Message_stop]) = Some (frame st2)" for r u
    by (subst run_protocol_append) (simp add: frame_ok_def frame_def)
  with 1 False show ?thesis by (simp add: handle_completed_def frame_ok_def Let_def) (simp add: frame_def)
qed (simp add: handle_completed_def frame_nil)

lemma frame_finalize: "frame_ok st (finalize_stream st)"
  using frame_close [of st]
  by (auto simp: finalize_stream_def frame_ok_def frame_def run_protocol_append split: prod.split)

lemmas frame_handlers = frame_handle_created frame_handle_item_added frame_handle_text_done
  frame_handle_args_delta frame_handle_args_done frame_handle_reasoning_delta frame_handle_item_done
  frame_handle_completed

lemma frame_convert: "frame_ok st (convert_event js evt st)"
  by (simp add: convert_event_def Let_def frame_handlers handle_text_delta_def frame_emit frame_nil)

interpretation frames: stream_transducer "convert_event js" any_event frame_step "\<lambda>_ st q. q = frame st"
proof
  fix u :: unit and st q evt u' os st'
  assume "q = frame st" "convert_event js evt st = (os, st')"
  with frame_convert [of st js evt] show "\<exists>q'. run_protocol frame_step q os = Some q' \<and> q' = frame st'"
    by (simp add: frame_ok_def)
qed

text \<open>The blocks of the client's stream never overlap and are numbered without gaps, whatever the
  upstream sends and in whatever order: reading only the starts and stops of content blocks, the
  converted stream is start 0, stop 0, start 1, stop 1 and so on, and after the end of the stream has
  been handled no block is left open once the message has been started.\<close>

theorem stream_blocks_balanced:
  "\<exists>n. run_protocol frame_step (0, False) (fst (convert_stream js evts (new_conv_state t))) =
     Some (n, cv_open (snd (convert_stream js evts (new_conv_state t)))) \<and>
   (cv_start_sent (snd (convert_events js evts (new_conv_state t))) \<and>
    \<not> cv_stop_sent (snd (convert_events js evts (new_conv_state t))) \<longrightarrow>
    \<not> cv_open (snd (convert_stream js evts (new_conv_state t))))"
proof -
  let ?s0 = "new_conv_state t"
  obtain os1 s1 where 1: "convert_events js evts ?s0 = (os1, s1)" by fastforce
  obtain os2 s2 where 2: "finalize_stream s1 = (os2, s2)" by fastforce
  have "\<exists>q'. run_protocol frame_step (0, False) os1 = Some q' \<and> q' = frame s1"
    by (rule frames.conv_run [of "(0, False)" ?s0 "()" evts "()"])
       (use 1 in \<open>simp_all add: frame_def new_conv_state_def flip: convert_events_transduce\<close>)
  moreover have "run_protocol frame_step (frame s1) os2 = Some (frame s2)"
    using frame_finalize [of s1] 2 by (simp add: frame_ok_def)
  moreover have "\<not> cv_open s2" if "cv_start_sent s1" "\<not> cv_stop_sent s1"
    using 2 that close_closed [of s1] by (auto simp: finalize_stream_def split: prod.splits)
  ultimately show ?thesis by (simp add: convert_stream_def 1 2 run_protocol_append frame_def)
qed

section \<open>The client's phase in a state of the converter\<close>

definition kind_of_type :: "string \<Rightarrow> block_kind" where
  "kind_of_type t = (if t = ''text'' then Text_kind else if t = ''thinking'' then Thinking_kind
     else if t = ''tool_use'' then Tool_kind else Server_kind)"

definition phase_of :: "conv_state \<Rightarrow> client_phase" where
  "phase_of st =
     (if \<not> cv_start_sent st then Awaiting else if cv_stop_sent st then Stopped
      else if cv_open st then Inside (cv_index st) (kind_of_type (cv_block_type st)) else Between (cv_index st))"

definition client_ok :: "conv_state \<Rightarrow> conv_result \<Rightarrow> bool" where
  "client_ok st r \<longleftrightarrow> client_run (phase_of st) (fst r) = Some (phase_of (snd r))"

definition live :: "conv_state \<Rightarrow> bool" where
  "live st \<longleftrightarrow> cv_start_sent st \<and> \<not> cv_stop_sent st"

definition live_step :: "conv_state \<Rightarrow> conv_result \<Rightarrow> bool" where
  "live_step st r \<longleftrightarrow> client_ok st r \<and> live (snd r)"

lemma client_seq: "client_ok st (e1, s1) \<Longrightarrow> client_ok s1 (e2, s2) \<Longrightarrow> client_ok st (e1 @ e2, s2)"
  by (simp add: client_ok_def run_protocol_append)

lemma live_seq: "live_step st (e1, s1) \<Longrightarrow> live_step s1 (e2, s2) \<Longrightarrow> live_step st (e1 @ e2, s2)"
  by (auto simp: live_step_def intro: client_seq)

lemma live_nil: "live st \<Longrightarrow> live_step st ([], st)"
  by (simp add: live_step_def client_ok_def)

lemma live_close: "live st \<Longrightarrow> live_step st (close_block st)"
  by (auto simp: live_step_def live_def client_ok_def phase_of_def close_block_def kind_of_type_def Let_def)

lemma close_idle: "\<not> cv_open st \<Longrightarrow> close_block st = ([], st)"
  by (simp add: close_block_def)

lemma live_block_done: "live st \<Longrightarrow> live_step st (handle_block_done st)"
  by (simp add: handle_block_done_def live_close live_nil)

lemma block_done_closed: "\<not> cv_open (snd (handle_block_done st))"
  by (simp add: handle_block_done_def close_closed)

lemma live_open:
  assumes "live st" "kind_of_block b = kind_of_type k"
  shows "live_step st (open_block b k st)"
  using live_close [OF assms(1)] close_closed [of st] assms(2)
  by (cases "close_block st")
     (auto simp: open_block_def live_step_def live_def client_ok_def run_protocol_append phase_of_def)

lemma live_emit: "live st \<Longrightarrow> live_step st (emit_text text part st)"
proof -
  assume l: "live st"
  let ?r = "if \<not> cv_open st \<or> cv_block_type st \<noteq> ''text'' then open_block (Text_block []) ''text'' st else ([], st)"
  obtain evs s1 where r: "?r = (evs, s1)" by fastforce
  have ok: "live_step st (evs, s1)"
    using live_open [OF l, of "Text_block []" "''text''"] live_nil [OF l] r
    by (auto simp: kind_of_type_def split: if_splits)
  have t: "cv_open s1" "cv_block_type s1 = ''text''"
    using r by (auto simp: open_block_def split: if_splits prod.splits)
  have s1: "cv_start_sent s1" "\<not> cv_stop_sent s1" using ok by (auto simp: live_step_def live_def)
  have p: "phase_of s1 = Inside (cv_index s1) Text_kind" using t s1 by (simp add: phase_of_def kind_of_type_def)
  have "live_step st (evs @ [Block_delta (cv_index s1) (Text_delta text)],
      s1\<lparr>cv_text_by_part := f, cv_text_delivered := True\<rparr>)" for f
    by (rule live_seq [OF ok])
       (simp add: live_step_def live_def client_ok_def p, simp add: phase_of_def t s1 kind_of_type_def)
  then show ?thesis
    by (cases "text = []") (simp_all only: emit_text_def r live_nil [OF l] Let_def prod.case if_True if_False refl)
qed

lemma live_recover: "live st \<Longrightarrow> live_step st (recover_text t p st)"
  by (simp add: recover_text_def Let_def live_emit live_nil)

lemma emit_text_type:
  "cv_open st \<longrightarrow> cv_block_type st = ''text'' \<Longrightarrow>
   cv_open (snd (emit_text t p st)) \<longrightarrow> cv_block_type (snd (emit_text t p st)) = ''text''"
  by (auto simp: emit_text_def open_block_def Let_def split: prod.split)

lemma live_text_done: "live st \<Longrightarrow> live_step st (handle_text_done evt st)"
proof -
  assume l: "live st"
  obtain e1 s1 e2 s2 where
    1: "recover_text (re_text evt) (text_part_of evt) st = (e1, s1)" "handle_block_done s1 = (e2, s2)" by fastforce
  have "live_step st (e1, s1)" using live_recover [OF l, of "re_text evt" "text_part_of evt"] by (simp add: 1)
  then show ?thesis
    using l live_block_done [of s1] by (auto simp: handle_text_done_def 1 live_def live_step_def intro: client_seq)
qed

lemma text_done_closed: "\<not> cv_open (snd (handle_text_done evt st))"
  using block_done_closed by (auto simp: handle_text_done_def split: prod.split) (metis snd_conv)

lemma live_web_search:
  assumes "live st"
  shows "live_step st (handle_web_search_done js item st)"
  using live_close [OF assms] close_closed [of st]
  by (cases "close_block st")
     (auto simp: handle_web_search_done_def live_step_def live_def client_ok_def run_protocol_append phase_of_def Let_def)

lemma live_item_done: "live st \<Longrightarrow> live_step st (handle_item_done js evt st)"
proof -
  assume l: "live st"
  have sig: "live (st\<lparr>cv_signature := s\<rparr>)" "phase_of (st\<lparr>cv_signature := s\<rparr>) = phase_of st" for s
    using l by (simp_all add: live_def phase_of_def)
  have "live_step st (close_block (st\<lparr>cv_signature := s\<rparr>))" "live_step st ([], st\<lparr>cv_signature := s\<rparr>)" for s
    using live_close [OF sig(1) [of s]] live_nil [OF sig(1) [of s]] by (simp_all add: live_step_def client_ok_def sig)
  then show ?thesis
    by (simp add: handle_item_done_def Let_def live_web_search [OF l] live_close [OF l] live_nil [OF l] split: option.split)
qed

lemma item_done_closed: "re_item evt \<noteq> None \<Longrightarrow> \<not> cv_open (snd (handle_item_done js evt st))"
  using close_closed [of st] close_closed
  by (cases "close_block st") (auto simp: handle_item_done_def handle_web_search_done_def Let_def split: option.split)

lemma live_emits: "live st \<Longrightarrow> live_step st (emit_texts ts st)"
proof (induction ts arbitrary: st)
  case Nil
  then show ?case by (simp add: live_nil)
next
  case (Cons x ts)
  obtain part t where x: "x = (part, t)" by fastforce
  obtain e1 s1 e2 s2 where 1: "emit_text t part st = (e1, s1)" "emit_texts ts s1 = (e2, s2)" by fastforce
  have "live_step st (e1, s1)" using live_emit [OF Cons.prems, of t part] by (simp add: 1)
  with Cons.IH [of s1] show ?case by (auto simp: x 1 live_step_def intro: client_seq)
qed

lemma emit_nonempty: "t \<noteq> [] \<Longrightarrow> fst (emit_text t p st) \<noteq> []"
  by (auto simp: emit_text_def Let_def split: prod.split)

lemma emits_none: "fst (emit_texts ts st) = [] \<Longrightarrow> snd (emit_texts ts st) = st"
proof (induction ts arbitrary: st)
  case (Cons x ts)
  obtain part t where x: "x = (part, t)" by fastforce
  obtain e1 s1 e2 s2 where 1: "emit_text t part st = (e1, s1)" "emit_texts ts s1 = (e2, s2)" by fastforce
  from Cons.prems have "e1 = []" "e2 = []" by (simp_all add: x 1)
  with emit_nonempty [of t part st] 1 have "t = []" by auto
  with 1 have "s1 = st" by (simp add: emit_text_def)
  with Cons.IH [of st] 1 \<open>e2 = []\<close> show ?case by (simp add: x 1)
qed simp

lemma live_recover_terminal:
  assumes "live st" "\<not> cv_open st"
  shows "live_step st (recover_terminal_text evt st)" "\<not> cv_open (snd (recover_terminal_text evt st))"
proof -
  have "live_step st (recover_terminal_text evt st) \<and> \<not> cv_open (snd (recover_terminal_text evt st))"
  proof (cases "re_response evt")
    case (Some r)
    obtain e1 s1 e2 s2 where 1: "emit_texts (terminal_texts r) st = (e1, s1)" "close_block s1 = (e2, s2)" by fastforce
    have a: "live_step st (e1, s1)" using live_emits [OF assms(1), of "terminal_texts r"] by (simp add: 1)
    moreover have "live_step s1 (e2, s2)" using a live_close [of s1] by (simp add: 1 live_step_def)
    moreover have "\<not> cv_open s2" using close_closed [of s1] by (simp add: 1)
    moreover have "e1 = [] \<Longrightarrow> s1 = st" using emits_none [of "terminal_texts r" st] by (simp add: 1)
    ultimately show ?thesis
      using assms by (auto simp: recover_terminal_text_def Some 1 live_nil intro: live_seq)
  qed (simp add: recover_terminal_text_def live_nil assms)
  then show "live_step st (recover_terminal_text evt st)" "\<not> cv_open (snd (recover_terminal_text evt st))" by auto
qed

lemma client_completed:
  assumes "live st"
  shows "client_ok st (handle_completed evt st)" "phase_of (snd (handle_completed evt st)) = Stopped"
proof -
  obtain e1 s1 e2 s2 where 1: "close_block st = (e1, s1)" "recover_terminal_text evt s1 = (e2, s2)" by fastforce
  have s1: "live_step st (e1, s1)" "\<not> cv_open s1" using live_close [OF assms] close_closed [of st] by (simp_all add: 1)
  then have l1: "live s1" by (simp add: live_step_def)
  have s2: "live_step s1 (e2, s2)" "\<not> cv_open s2" using live_recover_terminal [OF l1 s1(2), of evt] by (simp_all add: 1)
  have l2: "cv_start_sent s2" "\<not> cv_stop_sent s2" using s2 by (simp_all add: live_step_def live_def)
  have "client_run (phase_of st) (e1 @ e2) = Some (Between (cv_index s2))"
    using live_seq [OF s1(1) s2(1)] l2 s2(2) by (simp add: live_step_def client_ok_def) (simp add: phase_of_def)
  then have "client_run (phase_of st) ((e1 @ e2) @ [Message_delta r u, Message_stop]) = Some Stopped" for r u
    by (subst run_protocol_append) simp
  moreover have ns: "\<not> cv_stop_sent st" using assms by (simp add: live_def)
  ultimately show "client_ok st (handle_completed evt st)"
    by (simp add: handle_completed_def client_ok_def Let_def 1) (simp add: phase_of_def l2)
  show "phase_of (snd (handle_completed evt st)) = Stopped"
    by (simp add: handle_completed_def ns Let_def 1 phase_of_def l2)
qed

lemma client_finalize:
  assumes "cv_start_sent st"
  shows "client_run (phase_of st) (fst (finalize_stream st)) = Some Stopped"
proof (cases "cv_stop_sent st")
  case False
  then have "live st" using assms by (simp add: live_def)
  from live_close [OF this] close_closed [of st] show ?thesis
    by (cases "close_block st")
       (simp add: finalize_stream_def assms False live_step_def live_def client_ok_def run_protocol_append phase_of_def)
qed (simp add: finalize_stream_def phase_of_def assms)

section \<open>What the converter knows of the source\<close>

fun tracks :: "source_phase \<Rightarrow> conv_state \<Rightarrow> bool" where
  "tracks Src_start st \<longleftrightarrow> \<not> cv_start_sent st \<and> \<not> cv_stop_sent st \<and> \<not> cv_open st \<and> cv_index st = 0"
| "tracks Src_between st \<longleftrightarrow> live st \<and> \<not> cv_open st"
| "tracks (Src_text i) st \<longleftrightarrow> live st \<and> (cv_open st \<longrightarrow> cv_block_type st = ''text'')"
| "tracks (Src_tool i finished) st \<longleftrightarrow> live st \<and>
     (if finished then \<not> cv_open st
      else cv_open st \<and> cv_block_type st = ''tool_use'' \<and> cv_block_of_output st i = Some (cv_index st))"
| "tracks (Src_reasoning i) st \<longleftrightarrow> live st \<and>
     cv_open st \<and> cv_block_type st = ''thinking'' \<and> cv_block_of_output st i = Some (cv_index st)"
| "tracks (Src_other i) st \<longleftrightarrow> live st \<and> \<not> cv_open st"
| "tracks Src_done st \<longleftrightarrow> cv_start_sent st \<and> cv_stop_sent st"

definition good_step :: "source_phase \<Rightarrow> conv_state \<Rightarrow> conv_result \<Rightarrow> bool" where
  "good_step u st r \<longleftrightarrow> client_ok st r \<and> tracks u (snd r)"

lemma step_created:
  "tracks Src_start st \<Longrightarrow> good_step Src_between st (handle_created evt st)"
  by (auto simp: good_step_def client_ok_def handle_created_def phase_of_def live_def Let_def split: option.split)

lemma step_item_added:
  assumes "live st" "\<not> cv_open st" "re_item evt = Some item"
  shows "good_step (item_phase (re_output_index evt) item) st (handle_item_added evt st)"
  using assms(1,2)
  by (simp add: good_step_def handle_item_added_def assms(3) item_phase_def open_block_def close_idle)
     (auto simp: client_ok_def phase_of_def live_def kind_of_type_def)

lemma step_terminal: "live st \<Longrightarrow> good_step Src_done st (handle_completed evt st)"
  using client_completed [of st evt]
  by (auto simp: good_step_def phase_of_def split: if_splits)

lemma step_item_done: "live st \<Longrightarrow> re_item evt \<noteq> None \<Longrightarrow> good_step Src_between st (handle_item_done js evt st)"
  using live_item_done [of st js evt] item_done_closed [of evt js st] by (simp add: good_step_def live_step_def)

lemma step_text_delta: "tracks (Src_text i) st \<Longrightarrow> good_step (Src_text i) st (handle_text_delta evt st)"
  using live_emit [of st "re_delta evt" "text_part_of evt"] emit_text_type [of st "re_delta evt" "text_part_of evt"]
  by (simp add: good_step_def live_step_def handle_text_delta_def)

lemma step_text_done: "tracks (Src_text i) st \<Longrightarrow> good_step (Src_text i) st (handle_text_done evt st)"
  using live_text_done [of st evt] text_done_closed [of evt st] by (simp add: good_step_def live_step_def)

lemma step_args_delta:
  "tracks (Src_tool i False) st \<Longrightarrow> re_output_index evt = i \<Longrightarrow>
   good_step (Src_tool i False) st (handle_args_delta js evt st)"
  by (auto simp: good_step_def handle_args_delta_def client_ok_def phase_of_def live_def kind_of_type_def Let_def)

lemma step_args_done:
  assumes "tracks (Src_tool i False) st" "re_output_index evt = i"
  shows "good_step (Src_tool i True) st (handle_args_done js evt st)"
proof -
  obtain e s where c: "close_block st = (e, s)" by fastforce
  have l: "live st" and t: "cv_open st" "cv_block_type st = ''tool_use''" "cv_block_of_output st i = Some (cv_index st)"
    using assms(1) by simp_all
  have 1: "good_step (Src_tool i True) st (e, s)"
    using live_close [OF l] close_closed [of st] by (simp add: c good_step_def live_step_def)
  have "phase_of st = Inside (cv_index st) Tool_kind"
    using l t by (simp add: phase_of_def live_def kind_of_type_def)
  with 1 have "good_step (Src_tool i True) st (Block_delta (cv_index st) (Input_json_delta x) # e, s)" for x
    by (simp add: good_step_def client_ok_def)
  with 1 show ?thesis by (simp add: handle_args_done_def t assms(2) c Let_def)
qed

lemma step_reasoning_delta:
  "tracks (Src_reasoning i) st \<Longrightarrow> re_output_index evt = i \<Longrightarrow>
   good_step (Src_reasoning i) st (handle_reasoning_delta evt st)"
  by (auto simp: good_step_def handle_reasoning_delta_def client_ok_def phase_of_def live_def kind_of_type_def)

lemma step_unhandled:
  "re_type evt \<notin> set handled_types \<Longrightarrow> tracks u st \<Longrightarrow> good_step u st (convert_event js evt st)"
  by (simp add: good_step_def convert_event_def handled_types_def Let_def client_ok_def)

lemma convert_terminal: "re_type evt \<in> set terminal_types \<Longrightarrow> convert_event js evt st = handle_completed evt st"
  by (auto simp: convert_event_def terminal_types_def)

lemma dispatch:
  "re_type evt = ''response.created'' \<Longrightarrow> convert_event js evt st = handle_created evt st"
  "re_type evt = ''response.output_item.added'' \<Longrightarrow> convert_event js evt st = handle_item_added evt st"
  "re_type evt = ''response.output_text.delta'' \<Longrightarrow> convert_event js evt st = handle_text_delta evt st"
  "re_type evt = ''response.output_text.done'' \<Longrightarrow> convert_event js evt st = handle_text_done evt st"
  "re_type evt = ''response.function_call_arguments.delta'' \<Longrightarrow> convert_event js evt st = handle_args_delta js evt st"
  "re_type evt = ''response.custom_tool_call_input.delta'' \<Longrightarrow> convert_event js evt st = handle_args_delta js evt st"
  "re_type evt = ''response.function_call_arguments.done'' \<Longrightarrow> convert_event js evt st = handle_args_done js evt st"
  "re_type evt = ''response.output_item.done'' \<Longrightarrow> convert_event js evt st = handle_item_done js evt st"
  "re_type evt = ''response.reasoning_summary_text.delta'' \<Longrightarrow> convert_event js evt st = handle_reasoning_delta evt st"
  "re_type evt = ''response.reasoning_text.delta'' \<Longrightarrow> convert_event js evt st = handle_reasoning_delta evt st"
  by (simp_all add: convert_event_def)

lemma inside_good:
  assumes "tracks u st" "live st" "inside_step i types stay evt = Some u'" "stay = u"
    and "re_type evt \<in> set types \<Longrightarrow> re_output_index evt = i \<Longrightarrow> good_step u st (convert_event js evt st)"
  shows "good_step u' st (convert_event js evt st)"
proof -
  have "good_step Src_between st (convert_event js evt st)" if "re_type evt = ''response.output_item.done''" "re_item evt \<noteq> None"
    using step_item_done [OF assms(2), of evt js] that by (simp add: convert_event_def)
  with assms show ?thesis
    by (auto simp: inside_step_def convert_terminal step_terminal step_unhandled split: if_splits)
qed

lemma good_convert:
  assumes "tracks u st" "source_step u evt = Some u'"
  shows "good_step u' st (convert_event js evt st)"
proof (cases u)
  case Src_start
  with assms show ?thesis
    by (auto simp: step_unhandled dispatch step_created split: if_splits)
next
  case Src_between
  with assms show ?thesis
    by (auto simp: step_unhandled convert_terminal step_terminal dispatch step_item_added split: if_splits option.splits)
next
  case (Src_text i)
  with assms have a: "tracks (Src_text i) st" "live st"
    "inside_step i [''response.output_text.delta'', ''response.output_text.done''] (Src_text i) evt = Some u'"
    by simp_all
  show ?thesis
    by (rule inside_good [OF a refl]) (use a(1) in \<open>auto simp: dispatch step_text_delta step_text_done simp del: tracks.simps\<close>)
next
  case (Src_tool i finished)
  show ?thesis
  proof (cases "\<not> finished \<and> re_type evt = ''response.function_call_arguments.done'' \<and> re_output_index evt = i")
    case True
    with assms Src_tool have "u' = Src_tool i True" "tracks (Src_tool i False) st" "re_output_index evt = i" by auto
    with step_args_done True show ?thesis by (simp add: dispatch)
  next
    case False
    with assms Src_tool have a: "tracks (Src_tool i finished) st" "live st"
      "inside_step i (if finished then [] else
        [''response.function_call_arguments.delta'', ''response.custom_tool_call_input.delta'']) (Src_tool i finished) evt
         = Some u'"
      by (simp_all split: if_splits)
    show ?thesis
      by (rule inside_good [OF a refl])
         (use a(1) in \<open>auto simp: dispatch step_args_delta simp del: tracks.simps split: if_splits\<close>)
  qed
next
  case (Src_reasoning i)
  with assms have a: "tracks (Src_reasoning i) st" "live st"
    "inside_step i [''response.reasoning_summary_text.delta'', ''response.reasoning_text.delta''] (Src_reasoning i) evt
       = Some u'"
    by simp_all
  show ?thesis
    by (rule inside_good [OF a refl]) (use a(1) in \<open>auto simp: dispatch step_reasoning_delta simp del: tracks.simps\<close>)
next
  case (Src_other i)
  with assms have a: "tracks (Src_other i) st" "live st" "inside_step i [] (Src_other i) evt = Some u'" by simp_all
  show ?thesis by (rule inside_good [OF a refl]) simp
next
  case Src_done
  with assms show ?thesis by simp
qed

interpretation messages: stream_transducer "convert_event js" source_step client_step
  "\<lambda>u st q. tracks u st \<and> q = phase_of st"
proof
  fix u st q evt u' os st'
  assume "tracks u st \<and> q = phase_of st" "source_step u evt = Some u'" "convert_event js evt st = (os, st')"
  with good_convert [of u st evt u' js]
  show "\<exists>q'. run_protocol client_step q os = Some q' \<and> (tracks u' st' \<and> q' = phase_of st')"
    by (simp add: good_step_def client_ok_def)
qed

lemma tracks_started: "tracks u st \<Longrightarrow> u \<noteq> Src_start \<Longrightarrow> cv_start_sent st"
  by (cases u) (auto simp: live_def)

text \<open>C28: A well-formed upstream stream becomes a well-formed client stream, truncated or not: when the
  Responses events arrive in the order the API documents and the response has been created, the
  converted stream is one \<open>message_start\<close>, then content blocks numbered from 0 that do not
  overlap, each with deltas of its own kind and index only, then one \<open>message_delta\<close> and one
  \<open>message_stop\<close>, and nothing after it. The end of the stream that the proxy synthesises
  completes whatever prefix of the stream arrived.\<close>

theorem stream_is_well_typed:
  assumes "run_protocol source_step Src_start evts = Some u" "u \<noteq> Src_start"
  shows "client_run Awaiting (fst (convert_stream js evts (new_conv_state t))) = Some Stopped"
proof -
  let ?s0 = "new_conv_state t"
  obtain os1 s1 where 1: "convert_events js evts ?s0 = (os1, s1)" by fastforce
  have "\<exists>q'. client_run Awaiting os1 = Some q' \<and> (tracks u s1 \<and> q' = phase_of s1)"
    by (rule messages.conv_run [OF _ assms(1), where s = ?s0 and js = js])
       (use 1 in \<open>simp_all add: phase_of_def new_conv_state_def flip: convert_events_transduce\<close>)
  with tracks_started [of u s1] client_finalize [of s1] assms(2) show ?thesis
    by (auto simp: convert_stream_def 1 run_protocol_append split: prod.split)
qed

definition sample_json :: json_lib where
  "sample_json = \<lparr>jl_valid = (\<lambda>s. s \<noteq> [] \<and> last s = CHR 0x7D), jl_object = (\<lambda>s. None),
     jl_marshal_object = (\<lambda>m. None), jl_query = (\<lambda>q. q)\<rparr>"

definition sample_event :: "string \<Rightarrow> string \<Rightarrow> res_item option \<Rightarrow> res_event" where
  "sample_event ty d item = \<lparr>re_type = ty, re_response = None, re_usage = None, re_item = item, re_output_index = 0,
     re_content_index = 0, re_delta = d, re_text = [], re_arguments = []\<rparr>"

definition sample_item :: "string \<Rightarrow> string \<Rightarrow> res_item" where
  "sample_item ty args = \<lparr>im_type = ty, im_id = ''i'', im_content = [\<lparr>pt_type = ''output_text'', pt_text = ''hi''\<rparr>],
     im_status = ''completed'', im_encrypted = [], im_summary = [], im_call_id = ''fc_call_1'', im_name = ''Read'',
     im_arguments = args, im_action = None\<rparr>"

theorem stream_is_well_typed_witness:
  "client_run Awaiting (fst (convert_stream sample_json
     [sample_event ''response.created'' [] None,
      sample_event ''response.output_item.added'' [] (Some (sample_item ''function_call'' [])),
      sample_event ''response.function_call_arguments.delta'' ''{}'' None] (new_conv_state 0))) = Some Stopped"
  by (rule stream_is_well_typed [where u = "Src_tool 0 False"])
     (simp_all add: sample_event_def sample_item_def item_phase_def inside_step_def handled_types_def terminal_types_def)

theorem stream_blocks_balanced_witness:
  "\<not> cv_open (snd (convert_stream sample_json
     [sample_event ''response.created'' [] None,
      sample_event ''response.output_item.added'' [] (Some (sample_item ''function_call'' []))] (new_conv_state 0)))"
  using stream_blocks_balanced [of sample_json "[sample_event ''response.created'' [] None,
      sample_event ''response.output_item.added'' [] (Some (sample_item ''function_call'' []))]" 0]
  by (elim exE conjE impE)
     (simp_all add: dispatch sample_event_def sample_item_def handle_created_def handle_item_added_def new_conv_state_def
       open_block_def close_block_def)

end
