(* ===== verification/AnthropicEquivalence.thy ===== *)
theory AnthropicEquivalence
  imports AnthropicProtocol
begin

text \<open>
  What a client reads from a converted stream, and that it is the message the conversion of the
  whole response gives: a reader of Anthropic events, the stream in which an upstream sends a
  response, and the equivalence of the two conversions.
\<close>

section \<open>The reader\<close>

text \<open>The finished blocks, and the open block with the JSON fragments that arrived for it.\<close>

type_synonym reader = "ant_block list \<times> (ant_block \<times> string) option"

fun add_delta :: "ant_block \<times> string \<Rightarrow> ant_delta \<Rightarrow> ant_block \<times> string" where
  "add_delta (Text_block s, j) (Text_delta d) = (Text_block (s @ d), j)"
| "add_delta (Thinking_block s g, j) (Thinking_delta d) = (Thinking_block (s @ d) g, j)"
| "add_delta (Thinking_block s g, j) (Signature_delta d) = (Thinking_block s d, j)"
| "add_delta (b, j) (Input_json_delta d) = (b, j @ d)"
| "add_delta (b, j) d = (b, j)"

fun seal :: "ant_block \<times> string \<Rightarrow> ant_block" where
  "seal (Tool_use_block i n placeholder, j) = Tool_use_block i n (if j = [] then placeholder else j)"
| "seal (b, j) = b"

fun read_step :: "ant_event \<Rightarrow> reader \<Rightarrow> reader" where
  "read_step (Block_start i b) (bs, cur) = (bs, Some (b, []))"
| "read_step (Block_delta i d) (bs, Some cur) = (bs, Some (add_delta cur d))"
| "read_step (Block_stop i) (bs, Some cur) = (bs @ [seal cur], None)"
| "read_step e r = r"

definition read_blocks :: "ant_event list \<Rightarrow> reader \<Rightarrow> reader" where
  "read_blocks evs r = fold read_step evs r"

lemma read_blocks_simps [simp]:
  "read_blocks [] r = r"
  "read_blocks (e # evs) r = read_blocks evs (read_step e r)"
  "read_blocks (evs @ evs') r = read_blocks evs' (read_blocks evs r)"
  by (simp_all add: read_blocks_def)

text \<open>The message a client holds at the end of the stream.\<close>

fun message_step :: "ant_event \<Rightarrow> ant_response option \<Rightarrow> ant_response option" where
  "message_step (Message_start m) r = Some m"
| "message_step (Message_delta reason u) r = map_option (\<lambda>m. m\<lparr>an_stop_reason := Some reason, an_usage := u\<rparr>) r"
| "message_step e r = r"

definition read_message :: "ant_event list \<Rightarrow> ant_response option" where
  "read_message evs =
     map_option (\<lambda>m. m\<lparr>an_content := fst (read_blocks evs ([], None))\<rparr>) (fold message_step evs None)"

section \<open>How an upstream sends a response\<close>

definition plain_event :: "string \<Rightarrow> res_event" where
  "plain_event t = \<lparr>re_type = t, re_response = None, re_usage = None, re_item = None, re_output_index = 0,
     re_content_index = 0, re_delta = [], re_text = [], re_arguments = []\<rparr>"

abbreviation delta_event :: "string \<Rightarrow> int \<Rightarrow> int \<Rightarrow> string \<Rightarrow> res_event" where
  "delta_event t oi ci d \<equiv> (plain_event t)\<lparr>re_output_index := oi, re_content_index := ci, re_delta := d\<rparr>"

abbreviation item_event :: "string \<Rightarrow> int \<Rightarrow> res_item \<Rightarrow> res_event" where
  "item_event t oi item \<equiv> (plain_event t)\<lparr>re_output_index := oi, re_item := Some item\<rparr>"

definition blank_item :: "res_item \<Rightarrow> res_item" where
  "blank_item item = item\<lparr>im_content := [], im_status := ''in_progress'', im_encrypted := [], im_summary := [],
     im_arguments := []\<rparr>"

definition part_events :: "(string \<Rightarrow> string list) \<Rightarrow> int \<Rightarrow> int \<Rightarrow> string \<Rightarrow> res_event list" where
  "part_events chop oi ci t =
     map (delta_event ''response.output_text.delta'' oi ci) (chop t)
     @ [(plain_event ''response.output_text.done'')\<lparr>re_output_index := oi, re_content_index := ci, re_text := t\<rparr>]"

fun parts_events :: "(string \<Rightarrow> string list) \<Rightarrow> int \<Rightarrow> int \<Rightarrow> res_part list \<Rightarrow> res_event list" where
  "parts_events chop oi ci [] = []"
| "parts_events chop oi ci (p # ps) =
     (if pt_type p = ''output_text'' then part_events chop oi ci (pt_text p) else []) @ parts_events chop oi (ci + 1) ps"

definition inner_events :: "(string \<Rightarrow> string list) \<Rightarrow> int \<Rightarrow> res_item \<Rightarrow> res_event list" where
  "inner_events chop oi item =
     (if im_type item = ''message'' then parts_events chop oi 0 (im_content item)
      else if im_type item = ''function_call'' then
        map (delta_event ''response.function_call_arguments.delta'' oi 0) (chop (im_arguments item))
        @ [(plain_event ''response.function_call_arguments.done'')
             \<lparr>re_output_index := oi, re_arguments := im_arguments item\<rparr>]
      else if im_type item = ''reasoning'' then
        map (delta_event ''response.reasoning_summary_text.delta'' oi 0)
          (concat (map (chop \<circ> pt_text) (filter (\<lambda>s. pt_type s = ''summary_text'' \<and> pt_text s \<noteq> []) (im_summary item))))
      else [])"

definition item_events :: "(string \<Rightarrow> string list) \<Rightarrow> int \<Rightarrow> res_item \<Rightarrow> res_event list" where
  "item_events chop oi item =
     item_event ''response.output_item.added'' oi (blank_item item) # inner_events chop oi item
     @ [item_event ''response.output_item.done'' oi item]"

fun output_events :: "(string \<Rightarrow> string list) \<Rightarrow> int \<Rightarrow> res_item list \<Rightarrow> res_event list" where
  "output_events chop oi [] = []"
| "output_events chop oi (item # items) = item_events chop oi item @ output_events chop (oi + 1) items"

definition response_events :: "(string \<Rightarrow> string list) \<Rightarrow> res_response \<Rightarrow> res_event list" where
  "response_events chop resp =
     (plain_event ''response.created'')\<lparr>re_response := Some resp\<rparr> # output_events chop 0 (rs_output resp)
     @ [(plain_event ''response.completed'')\<lparr>re_response := Some resp\<rparr>]"

text \<open>The items the two conversions treat alike.\<close>

definition streamable :: "json_lib \<Rightarrow> res_item \<Rightarrow> bool" where
  "streamable js item \<longleftrightarrow>
     (if im_type item = ''message'' then True
      else if im_type item = ''function_call'' then im_arguments item \<noteq> [] \<and>
        (im_name item = ''Read'' \<longrightarrow>
           (\<forall>p \<in> set (prefixes (im_arguments item)). jl_valid js p \<longrightarrow> p = im_arguments item) \<and>
           sanitize_tool_input js (im_name item) (im_arguments item) \<noteq> [])
      else if im_type item = ''reasoning'' then trim_space (im_encrypted item) = im_encrypted item \<and>
        (im_encrypted item \<noteq> [] \<or>
         (\<exists>s \<in> set (im_summary item). pt_type s = ''summary_text'' \<and> pt_text s \<noteq> []))
      else if im_type item = ''web_search_call'' then im_status item = ''completed'' else False)"

section \<open>One text part\<close>

text \<open>What the conversion of the content of a message leaves alone.\<close>

definition meta :: "conv_state \<Rightarrow> bool \<times> bool \<times> bool \<times> ant_usage \<times> string" where
  "meta st = (cv_start_sent st, cv_stop_sent st, cv_has_tool_call st, cv_usage st, cv_model st)"

definition resting :: "conv_state \<Rightarrow> bool" where
  "resting st \<longleftrightarrow> live st \<and> \<not> cv_open st"

text \<open>The text \<open>s\<close> of the part has reached the client and nothing else is open.\<close>

definition text_at :: "int \<times> int \<Rightarrow> conv_state \<Rightarrow> string \<Rightarrow> bool" where
  "text_at part st s \<longleftrightarrow> live st \<and>
     (if s = [] then \<not> cv_open st \<and> cv_text_by_part st part = None
      else cv_open st \<and> cv_block_type st = ''text'' \<and> cv_text_by_part st part = Some s \<and> cv_text_delivered st)"

definition reading :: "string \<Rightarrow> (ant_block \<times> string) option" where
  "reading s = (if s = [] then None else Some (Text_block s, []))"

definition only_part :: "int \<times> int \<Rightarrow> conv_state \<Rightarrow> conv_state \<Rightarrow> bool" where
  "only_part part st st' \<longleftrightarrow> meta st' = meta st \<and> (cv_text_delivered st \<longrightarrow> cv_text_delivered st') \<and> (\<forall>p. p \<noteq> part \<longrightarrow> cv_text_by_part st' p = cv_text_by_part st p)"

lemma only_part_trans: "only_part p st st1 \<Longrightarrow> only_part p st1 st2 \<Longrightarrow> only_part p st st2"
  by (simp add: only_part_def)

lemma only_part_refl [simp]: "only_part p st st"
  by (simp add: only_part_def)

lemma live_meta: "meta st' = meta st \<Longrightarrow> live st' = live st"
  by (simp add: live_def meta_def)

lemma emit_text_at:
  assumes "text_at part st s"
  shows "text_at part (snd (emit_text d part st)) (s @ d) \<and>
    read_blocks (fst (emit_text d part st)) (bs, reading s) = (bs, reading (s @ d)) \<and>
    only_part part st (snd (emit_text d part st)) \<and>
    cv_text_delivered (snd (emit_text d part st)) = (cv_text_delivered st \<or> d \<noteq> [])"
  using assms
  by (auto simp: text_at_def emit_text_def reading_def only_part_def meta_def live_def Let_def open_block_def
      close_idle split: prod.split)

lemma close_text_at:
  assumes "text_at part st s"
  shows "resting (snd (handle_block_done st)) \<and>
    read_blocks (fst (handle_block_done st)) (bs, reading s) = (bs @ (if s = [] then [] else [Text_block s]), None) \<and>
    only_part part st (snd (handle_block_done st))"
  using assms
  by (auto simp: text_at_def handle_block_done_def close_block_def reading_def only_part_def meta_def resting_def live_def
      Let_def)

lemma recover_text_at:
  assumes "text_at part st s" "prefix s t" "s \<noteq> [] \<or> \<not> cv_text_delivered st \<or> t = []"
  shows "text_at part (snd (recover_text t part st)) t \<and>
    read_blocks (fst (recover_text t part st)) (bs, reading s) = (bs, reading t) \<and>
    only_part part st (snd (recover_text t part st))"
proof -
  obtain d where t: "t = s @ d" using assms(2) by (auto simp: prefix_def)
  have known: "cv_text_by_part st part = (if s = [] then None else Some s)"
    using assms(1) by (auto simp: text_at_def)
  have "recover_text t part st = (if d = [] then ([], st) else emit_text d part st)"
    using assms(3) by (auto simp: recover_text_def known t)
  then have "recover_text t part st = emit_text d part st" by (simp add: emit_text_def)
  with emit_text_at [OF assms(1), of d bs] show ?thesis by (simp add: t)
qed

lemma convert_events_append:
  "convert_events js (xs @ ys) st =
     (let (os, s1) = convert_events js xs st; (os', s2) = convert_events js ys s1 in (os @ os', s2))"
  by (simp add: convert_events_transduce transduce_append)

lemma text_deltas:
  assumes "text_at (oi, ci) st s"
    and "convert_events js (map (delta_event ''response.output_text.delta'' oi ci) ds) st = (evs, st')"
  shows "text_at (oi, ci) st' (s @ concat ds) \<and> read_blocks evs (bs, reading s) = (bs, reading (s @ concat ds)) \<and>
    only_part (oi, ci) st st' \<and> (cv_text_delivered st' \<longleftrightarrow> cv_text_delivered st \<or> concat ds \<noteq> [])"
  using assms
proof (induction ds arbitrary: st s evs)
  case Nil
  then show ?case by simp
next
  case (Cons d ds)
  have c: "convert_event js (delta_event ''response.output_text.delta'' oi ci d) st = emit_text d (oi, ci) st"
    by (simp add: dispatch plain_event_def handle_text_delta_def text_part_of_def)
  obtain e1 s1 e2 where 1: "emit_text d (oi, ci) st = (e1, s1)"
    "convert_events js (map (delta_event ''response.output_text.delta'' oi ci) ds) s1 = (e2, st')" "evs = e1 @ e2"
    using Cons.prems(2) by (auto simp: c split: prod.splits)
  note step = emit_text_at [OF Cons.prems(1), of d bs, unfolded 1 fst_conv snd_conv]
  from Cons.IH [OF conjunct1 [OF step] 1(2)] step show ?case by (auto simp: 1(3) intro: only_part_trans)
qed

lemma text_part_read:
  assumes "text_at (oi, ci) st []" "prefix (concat ds) t"
    and "concat ds \<noteq> [] \<or> \<not> cv_text_delivered st \<or> t = []"
    and "convert_events js (map (delta_event ''response.output_text.delta'' oi ci) ds
       @ [(plain_event ''response.output_text.done'')\<lparr>re_output_index := oi, re_content_index := ci, re_text := t\<rparr>]) st
       = (evs, st')"
  shows "read_blocks evs (bs, None) = (bs @ (if t = [] then [] else [Text_block t]), None) \<and>
    resting st' \<and> only_part (oi, ci) st st' \<and> (t \<noteq> [] \<longrightarrow> cv_text_delivered st')"
proof -
  let ?done = "(plain_event ''response.output_text.done'')\<lparr>re_output_index := oi, re_content_index := ci, re_text := t\<rparr>"
  obtain e1 s1 e2 s2 e3 s3 where
    1: "convert_events js (map (delta_event ''response.output_text.delta'' oi ci) ds) st = (e1, s1)"
      "recover_text t (oi, ci) s1 = (e2, s2)" "handle_block_done s2 = (e3, s3)" by fastforce
  from text_deltas [OF assms(1) 1(1), where bs = bs] have s1: "text_at (oi, ci) s1 (concat ds)"
    "read_blocks e1 (bs, None) = (bs, reading (concat ds))" "only_part (oi, ci) st s1"
    "cv_text_delivered s1 \<longleftrightarrow> cv_text_delivered st \<or> concat ds \<noteq> []" by (simp_all add: reading_def)
  have "concat ds \<noteq> [] \<or> \<not> cv_text_delivered s1 \<or> t = []" using s1(4) assms(3) by auto
  note s2 = recover_text_at [OF s1(1) assms(2) this, where bs = bs, unfolded 1 fst_conv snd_conv]
  note s3 = close_text_at [OF conjunct1 [OF s2], where bs = bs, unfolded 1 fst_conv snd_conv]
  have "\<not> cv_stop_sent s1" using s1(1) by (simp add: text_at_def live_def)
  then have "convert_event js ?done s1 = (e2 @ e3, s3)"
    by (simp add: dispatch plain_event_def handle_text_done_def text_part_of_def 1)
  then have "evs = e1 @ e2 @ e3" "st' = s3" using assms(4) by (simp_all add: convert_events_append 1)
  moreover have "t \<noteq> [] \<longrightarrow> cv_text_delivered s3" using s2 s3 by (auto simp: text_at_def only_part_def)
  ultimately show ?thesis using s1 s2 s3 by (auto intro: only_part_trans)
qed

text \<open>The text of a part reaches the client exactly once, however the upstream splits it: whatever
  prefix of it came as deltas, the done event adds exactly the missing tail and closes the block, so
  that the client reads one text block with the whole text and no other part is touched. A done event
  without deltas counts only while no text was delivered at all.\<close>

theorem text_part_delivered_once:
  assumes "text_at (oi, ci) st []" "prefix (concat ds) t"
    and "concat ds \<noteq> [] \<or> \<not> cv_text_delivered st \<or> t = []"
    and "convert_events js (map (delta_event ''response.output_text.delta'' oi ci) ds
       @ [(plain_event ''response.output_text.done'')\<lparr>re_output_index := oi, re_content_index := ci, re_text := t\<rparr>]) st
       = (evs, st')"
  shows "read_blocks evs (bs, None) = (bs @ (if t = [] then [] else [Text_block t]), None) \<and>
    resting st' \<and> only_part (oi, ci) st st' \<and> (t \<noteq> [] \<longrightarrow> cv_text_delivered st')"
  using assms by (rule text_part_read)

section \<open>Whole items\<close>

text \<open>The parts of the output items from \<open>oi\<close> on have not been streamed.\<close>

definition unseen :: "int \<Rightarrow> conv_state \<Rightarrow> bool" where
  "unseen oi st \<longleftrightarrow> (\<forall>i c. oi \<le> i \<longrightarrow> cv_text_by_part st (i, c) = None)"

definition text_blocks :: "res_part list \<Rightarrow> ant_block list" where
  "text_blocks ps = map (\<lambda>p. Text_block (pt_text p)) (filter (\<lambda>p. pt_type p = ''output_text'' \<and> pt_text p \<noteq> []) ps)"

lemma parts_read:
  assumes "\<And>t. concat (chop t) = t" "resting st" "\<And>c. ci \<le> c \<Longrightarrow> cv_text_by_part st (oi, c) = None"
    and "convert_events js (parts_events chop oi ci ps) st = (evs, st')"
  shows "read_blocks evs (bs, None) = (bs @ text_blocks ps, None) \<and> resting st' \<and> meta st' = meta st \<and>
    (\<forall>i c. i \<noteq> oi \<longrightarrow> cv_text_by_part st' (i, c) = cv_text_by_part st (i, c)) \<and>
    (cv_text_delivered st \<or> text_blocks ps \<noteq> [] \<longrightarrow> cv_text_delivered st')"
  using assms(2-)
proof (induction ps arbitrary: ci st bs evs)
  case Nil
  then show ?case by (simp add: text_blocks_def)
next
  case (Cons p ps)
  show ?case
  proof (cases "pt_type p = ''output_text''")
    case False
    then show ?thesis using Cons.IH [of st "ci + 1" evs bs] Cons.prems by (simp add: text_blocks_def)
  next
    case True
    obtain e1 s1 e2 where 1: "convert_events js (part_events chop oi ci (pt_text p)) st = (e1, s1)"
      "convert_events js (parts_events chop oi (ci + 1) ps) s1 = (e2, st')" "evs = e1 @ e2"
      using Cons.prems(3) True by (auto simp: convert_events_append split: prod.splits)
    have "text_at (oi, ci) st []" using Cons.prems(1,2) by (simp add: text_at_def resting_def)
    from text_part_read [OF this _ _ 1(1) [unfolded part_events_def], where bs = bs] assms(1)
    have 2: "read_blocks e1 (bs, None) = (bs @ (if pt_text p = [] then [] else [Text_block (pt_text p)]), None)"
      "resting s1" "only_part (oi, ci) st s1" "pt_text p \<noteq> [] \<longrightarrow> cv_text_delivered s1" by auto
    have "\<And>c. ci + 1 \<le> c \<Longrightarrow> cv_text_by_part s1 (oi, c) = None"
      using 2(3) Cons.prems(2) by (simp add: only_part_def)
    from Cons.IH [OF 2(2) this 1(2)] 2 1(3) True show ?thesis
      by (auto simp: only_part_def text_blocks_def)
  qed
qed

text \<open>The client has received the fragment \<open>j\<close> of the arguments of the open tool block.\<close>

definition tool_at :: "json_lib \<Rightarrow> int \<Rightarrow> string \<Rightarrow> conv_state \<Rightarrow> string \<Rightarrow> string \<Rightarrow> bool" where
  "tool_at js oi name st s j \<longleftrightarrow> live st \<and> cv_open st \<and> cv_block_type st = ''tool_use'' \<and> cv_tool_name st = name \<and>
     cv_block_of_output st oi = Some (cv_index st) \<and>
     (if name = ''Read'' then cv_tool_args st = s \<and> (cv_tool_had_delta st \<longleftrightarrow> s \<noteq> [] \<and> jl_valid js s) \<and>
        j = (if s \<noteq> [] \<and> jl_valid js s then sanitize_tool_input js name s else [])
      else (cv_tool_had_delta st \<longleftrightarrow> s \<noteq> []) \<and> j = s)"

definition same_texts :: "conv_state \<Rightarrow> conv_state \<Rightarrow> bool" where
  "same_texts st st' \<longleftrightarrow> meta st' = meta st \<and> cv_text_by_part st' = cv_text_by_part st \<and>
     cv_text_delivered st' = cv_text_delivered st"

lemma args_deltas:
  assumes "tool_at js oi name st s j" "name = ''Read'' \<longrightarrow> (\<forall>p. prefix p (s @ concat ds) \<and> jl_valid js p \<longrightarrow> p = s @ concat ds)"
    and "convert_events js (map (delta_event ''response.function_call_arguments.delta'' oi 0) ds) st = (evs, st')"
  shows "\<exists>j'. tool_at js oi name st' (s @ concat ds) j' \<and> same_texts st st' \<and>
    (\<forall>bs a b c. read_blocks evs (bs, Some (Tool_use_block a b c, j)) = (bs, Some (Tool_use_block a b c, j')))"
  using assms
proof (induction ds arbitrary: st s j evs)
  case Nil
  then show ?case by (auto simp: same_texts_def)
next
  case (Cons d ds)
  let ?e = "delta_event ''response.function_call_arguments.delta'' oi 0 d"
  obtain e1 s1 e2 where 1: "convert_event js ?e st = (e1, s1)"
    "convert_events js (map (delta_event ''response.function_call_arguments.delta'' oi 0) ds) s1 = (e2, st')" "evs = e1 @ e2"
    using Cons.prems(3) by (auto split: prod.splits)
  have once: "d = []" if "name = ''Read''" "jl_valid js s"
    using Cons.prems(2) that by (auto simp: prefix_def)
  have "\<exists>j'. tool_at js oi name s1 (s @ d) j' \<and> same_texts st s1 \<and>
    (\<forall>bs a b c. read_blocks e1 (bs, Some (Tool_use_block a b c, j)) = (bs, Some (Tool_use_block a b c, j')))"
    using 1(1) Cons.prems(1) once
    by (cases "d = []"; cases "name = ''Read''"; cases "jl_valid js s")
       (auto simp: dispatch plain_event_def handle_args_delta_def tool_at_def same_texts_def meta_def live_def Let_def
         split: if_splits)
  then obtain j1 where 2: "tool_at js oi name s1 (s @ d) j1" "same_texts st s1"
    "\<And>bs a b c. read_blocks e1 (bs, Some (Tool_use_block a b c, j)) = (bs, Some (Tool_use_block a b c, j1))" by blast
  from Cons.IH [OF 2(1) _ 1(2)] Cons.prems(2) obtain j' where "tool_at js oi name st' (s @ concat (d # ds)) j'" "same_texts s1 st'"
    "\<And>bs a b c. read_blocks e2 (bs, Some (Tool_use_block a b c, j1)) = (bs, Some (Tool_use_block a b c, j'))" by auto
  with 2 1(3) show ?case by (auto simp: same_texts_def)
qed

lemma close_reading:
  assumes "live st" "cv_open st" "cv_block_type st \<noteq> ''thinking''" "close_block st = (evs, st')"
  shows "read_blocks evs (bs, Some cur) = (bs @ [seal cur], None) \<and> resting st' \<and> same_texts st st'"
  using assms by (auto simp: close_block_def resting_def live_def same_texts_def meta_def)

lemma args_done_read:
  assumes "tool_at js oi name st t j" "t \<noteq> []" "name = ''Read'' \<longrightarrow> sanitize_tool_input js name t \<noteq> []"
    and "convert_event js ((plain_event ''response.function_call_arguments.done'')
           \<lparr>re_output_index := oi, re_arguments := t\<rparr>) st = (evs, st')"
  shows "read_blocks evs (bs, Some (Tool_use_block a b c, j)) = (bs @ [Tool_use_block a b (sanitize_tool_input js name t)], None)
    \<and> resting st' \<and> same_texts st st'"
proof -
  obtain e s where c: "close_block st = (e, s)" by fastforce
  have t: "live st" "cv_open st" "cv_block_type st \<noteq> ''thinking''" "cv_block_type st = ''tool_use''" "cv_tool_name st = name"
    "cv_block_of_output st oi = Some (cv_index st)" using assms(1) by (simp_all add: tool_at_def)
  have plain: "sanitize_tool_input js name t = t" if "name \<noteq> ''Read''" using that by (simp add: sanitize_tool_input_def)
  note r = close_reading [OF t(1,2,3) c]
  show ?thesis
  proof (cases "cv_tool_had_delta st")
    case True
    then have "j = sanitize_tool_input js name t" using assms(1,2) plain by (auto simp: tool_at_def split: if_splits)
    moreover have "evs = e" "st' = s"
      using assms(2,4) True t by (simp_all add: dispatch plain_event_def handle_args_done_def c)
    ultimately show ?thesis using r [of bs "(Tool_use_block a b c, j)"] assms(2,3) plain by (cases "name = ''Read''") auto
  next
    case False
    then have "j = []" using assms(1,2) by (auto simp: tool_at_def split: if_splits)
    moreover have "evs = Block_delta (cv_index st) (Input_json_delta (sanitize_tool_input js name t)) # e" "st' = s"
      using assms(2,3,4) False t plain
      by (auto simp: dispatch plain_event_def handle_args_done_def c Let_def split: if_splits)
    ultimately show ?thesis
      using r [of bs "(Tool_use_block a b c, sanitize_tool_input js name t)"] assms(2,3) plain
      by (cases "name = ''Read''") auto
  qed
qed

text \<open>What one item does to the converter and to the reader.\<close>

definition item_effect :: "json_lib \<Rightarrow> int \<Rightarrow> res_item \<Rightarrow> conv_state \<Rightarrow> ant_event list \<Rightarrow> conv_state \<Rightarrow> bool" where
  "item_effect js oi item st evs st' \<longleftrightarrow>
     (\<forall>bs. read_blocks evs (bs, None) = (bs @ item_blocks js item, None)) \<and> resting st' \<and>
     cv_usage st' = cv_usage st \<and> cv_model st' = cv_model st \<and>
     (cv_has_tool_call st' \<longleftrightarrow> cv_has_tool_call st \<or> im_type item = ''function_call'') \<and>
     (\<forall>i c. i \<noteq> oi \<longrightarrow> cv_text_by_part st' (i, c) = cv_text_by_part st (i, c)) \<and>
     (cv_text_delivered st \<or> im_type item = ''message'' \<and> text_blocks (im_content item) \<noteq> [] \<longrightarrow> cv_text_delivered st')"

lemma idle_done:
  assumes "resting st" "im_type item \<noteq> ''web_search_call''" "im_type item \<noteq> ''reasoning''"
  shows "convert_event js (item_event ''response.output_item.done'' oi item) st = ([], st)"
  using assms by (simp add: dispatch plain_event_def handle_item_done_def resting_def)

lemma split_item_events:
  assumes "convert_events js (item_events chop oi item) st = (evs, st')"
  obtains e1 s1 e2 s2 e3 where
    "convert_event js (item_event ''response.output_item.added'' oi (blank_item item)) st = (e1, s1)"
    "convert_events js (inner_events chop oi item) s1 = (e2, s2)"
    "convert_event js (item_event ''response.output_item.done'' oi item) s2 = (e3, st')" "evs = e1 @ e2 @ e3"
  using assms by (auto simp: item_events_def convert_events_append split: prod.splits)

lemma ignored_added:
  assumes "im_type item \<notin> {''function_call'', ''custom_tool_call'', ''reasoning''}"
  shows "convert_event js (item_event ''response.output_item.added'' oi (blank_item item)) st = ([], st)"
  using assms by (simp add: dispatch plain_event_def handle_item_added_def blank_item_def)

lemma message_item:
  assumes "\<And>t. concat (chop t) = t" "resting st" "unseen oi st" "im_type item = ''message''"
    and "convert_events js (item_events chop oi item) st = (evs, st')"
  shows "item_effect js oi item st evs st'"
proof -
  from assms(5) obtain e1 s1 e2 s2 e3 where
    1: "convert_event js (item_event ''response.output_item.added'' oi (blank_item item)) st = (e1, s1)"
      "convert_events js (inner_events chop oi item) s1 = (e2, s2)"
      "convert_event js (item_event ''response.output_item.done'' oi item) s2 = (e3, st')" "evs = e1 @ e2 @ e3"
    by (rule split_item_events)
  have s1: "e1 = []" "s1 = st" using 1(1) ignored_added [of item js oi st] assms(4) by simp_all
  have e2: "convert_events js (parts_events chop oi 0 (im_content item)) st = (e2, s2)"
    using 1(2) assms(4) by (simp add: inner_events_def s1)
  have "\<And>c. 0 \<le> c \<Longrightarrow> cv_text_by_part st (oi, c) = None" using assms(3) by (simp add: unseen_def)
  note r = parts_read [OF assms(1,2) this e2]
  have "e3 = []" "st' = s2" using 1(3) idle_done [of s2 item js oi] r assms(4) by simp_all
  with r assms(4) show ?thesis
    by (auto simp: item_effect_def 1(4) s1 meta_def item_blocks_def text_blocks_def)
qed

lemma call_item:
  assumes "\<And>t. concat (chop t) = t" "resting st" "streamable js item" "im_type item = ''function_call''"
    and "convert_events js (item_events chop oi item) st = (evs, st')"
  shows "item_effect js oi item st evs st'"
proof -
  let ?name = "im_name item" and ?t = "im_arguments item"
  let ?b = "Tool_use_block (from_responses_call_id (im_call_id item)) ?name"
  let ?ds = "map (delta_event ''response.function_call_arguments.delta'' oi 0) (chop ?t)"
  from assms(5) obtain e1 s1 e2 s2 e3 where
    1: "convert_event js (item_event ''response.output_item.added'' oi (blank_item item)) st = (e1, s1)"
      "convert_events js (inner_events chop oi item) s1 = (e2, s2)"
      "convert_event js (item_event ''response.output_item.done'' oi item) s2 = (e3, st')" "evs = e1 @ e2 @ e3"
    by (rule split_item_events)
  have a: "e1 = [Block_start (cv_index st) (?b ''{}'')]" "tool_at js oi ?name s1 [] []" "cv_text_by_part s1 = cv_text_by_part st"
    "cv_text_delivered s1 = cv_text_delivered st"
    "cv_has_tool_call s1" "cv_usage s1 = cv_usage st" "cv_model s1 = cv_model st"
    using 1(1) assms(2,4)
    by (auto simp: dispatch plain_event_def handle_item_added_def blank_item_def open_block_def close_idle resting_def
        tool_at_def live_def split: if_splits)
  obtain f1 t1 f2 where 2: "convert_events js ?ds s1 = (f1, t1)"
    "convert_event js ((plain_event ''response.function_call_arguments.done'')\<lparr>re_output_index := oi, re_arguments := ?t\<rparr>) t1
       = (f2, s2)" "e2 = f1 @ f2"
    using 1(2) assms(4) by (auto simp: inner_events_def convert_events_append split: prod.splits)
  have whole: "concat (chop ?t) = ?t" by (rule assms(1))
  have "?name = ''Read'' \<longrightarrow> (\<forall>p. prefix p ([] @ concat (chop ?t)) \<and> jl_valid js p \<longrightarrow> p = [] @ concat (chop ?t))"
    using assms(3,4) by (auto simp: streamable_def whole)
  from args_deltas [OF a(2) this 2(1)] obtain j where
    j: "tool_at js oi ?name t1 ?t j" "same_texts s1 t1"
      "read_blocks f1 (bs, Some (?b ''{}'', [])) = (bs, Some (?b ''{}'', j))" for bs
    by (auto simp: whole)
  have "?t \<noteq> []" "?name = ''Read'' \<longrightarrow> sanitize_tool_input js ?name ?t \<noteq> []" using assms(3,4) by (simp_all add: streamable_def)
  note r = args_done_read [OF j(1) this 2(2)]
  have "e3 = []" "st' = s2" using 1(3) idle_done [of s2 item js oi] r assms(4) by simp_all
  with r a j assms(4) show ?thesis
    by (auto simp: item_effect_def 1(4) 2(3) same_texts_def meta_def item_blocks_def)
qed

text \<open>A thinking block stays open for the whole reasoning item.\<close>

definition thinking_at :: "int \<Rightarrow> conv_state \<Rightarrow> bool" where
  "thinking_at oi st \<longleftrightarrow> live st \<and> cv_open st \<and> cv_block_type st = ''thinking'' \<and> cv_signature st = [] \<and>
     cv_block_of_output st oi = Some (cv_index st)"

lemma thinking_deltas:
  assumes "thinking_at oi st"
    and "convert_events js (map (delta_event ''response.reasoning_summary_text.delta'' oi 0) ds) st = (evs, st')"
  shows "st' = st \<and> read_blocks evs (bs, Some (Thinking_block s [], [])) = (bs, Some (Thinking_block (s @ concat ds) [], []))"
  using assms
proof (induction ds arbitrary: s evs)
  case (Cons d ds)
  let ?e = "delta_event ''response.reasoning_summary_text.delta'' oi 0 d"
  have c: "convert_event js ?e st =
      (if d = [] then ([], st) else ([Block_delta (cv_index st) (Thinking_delta d)], st))"
    using assms(1) by (simp add: dispatch plain_event_def handle_reasoning_delta_def thinking_at_def)
  obtain e2 where 2: "convert_events js (map (delta_event ''response.reasoning_summary_text.delta'' oi 0) ds) st = (e2, st')"
    "evs = (if d = [] then [] else [Block_delta (cv_index st) (Thinking_delta d)]) @ e2"
    using Cons.prems(2) by (auto simp: c split: prod.splits if_splits)
  from Cons.IH [OF assms(1) 2(1), of "s @ d"] show ?case by (cases "d = []") (simp_all add: 2(2))
qed simp

lemma reasoning_item:
  assumes "\<And>t. concat (chop t) = t" "resting st" "streamable js item" "im_type item = ''reasoning''"
    and "convert_events js (item_events chop oi item) st = (evs, st')"
  shows "item_effect js oi item st evs st'"
proof -
  let ?ps = "filter (\<lambda>s. pt_type s = ''summary_text'' \<and> pt_text s \<noteq> []) (im_summary item)"
  let ?summary = "concat (map pt_text ?ps)" and ?enc = "im_encrypted item"
  have chopped: "concat (concat (map (chop \<circ> pt_text) ps)) = concat (map pt_text ps)" for ps
    by (induction ps) (simp_all add: assms(1))
  from assms(5) obtain e1 s1 e2 s2 e3 where
    1: "convert_event js (item_event ''response.output_item.added'' oi (blank_item item)) st = (e1, s1)"
      "convert_events js (inner_events chop oi item) s1 = (e2, s2)"
      "convert_event js (item_event ''response.output_item.done'' oi item) s2 = (e3, st')" "evs = e1 @ e2 @ e3"
    by (rule split_item_events)
  have a: "e1 = [Block_start (cv_index st) (Thinking_block [] [])]" "thinking_at oi s1" "cv_text_by_part s1 = cv_text_by_part st"
    "cv_text_delivered s1 = cv_text_delivered st"
    "cv_has_tool_call s1 = cv_has_tool_call st" "cv_usage s1 = cv_usage st" "cv_model s1 = cv_model st"
    using 1(1) assms(2,4)
    by (auto simp: dispatch plain_event_def handle_item_added_def blank_item_def open_block_def close_idle resting_def
        thinking_at_def live_def trim_space_def split: if_splits)
  have "convert_events js (map (delta_event ''response.reasoning_summary_text.delta'' oi 0)
      (concat (map (chop \<circ> pt_text) ?ps))) s1 = (e2, s2)"
    using 1(2) assms(4) by (simp add: inner_events_def)
  from thinking_deltas [OF a(2) this, where s = "[]"] have b: "s2 = s1"
    "\<And>bs. read_blocks e2 (bs, Some (Thinking_block [] [], [])) = (bs, Some (Thinking_block ?summary [], []))"
    by (simp_all add: chopped)
  have trimmed: "trim_space ?enc = ?enc" using assms(3,4) by (simp add: streamable_def)
  have "?summary \<noteq> [] \<or> ?enc \<noteq> []" using assms(3,4) by (auto simp: streamable_def)
  then have ib: "item_blocks js item = [Thinking_block ?summary ?enc]"
    using assms(4) by (auto simp: item_blocks_def trimmed Let_def)
  have empty: "trim_space [] = []" by (simp add: trim_space_def)
  have "e3 = (if ?enc = [] then [] else [Block_delta (cv_index s1) (Signature_delta ?enc)]) @ [Block_stop (cv_index s1)]"
    "resting st'" "same_texts s1 st'"
    using 1(3) a(2) assms(4)
    by (auto simp: b dispatch plain_event_def handle_item_done_def trimmed empty close_block_def thinking_at_def resting_def
        live_def same_texts_def meta_def Let_def split: if_splits)
  with a b assms(4) show ?thesis
    by (auto simp: item_effect_def ib 1(4) same_texts_def meta_def)
qed

lemma search_item:
  assumes "resting st" "streamable js item" "im_type item = ''web_search_call''"
    and "convert_events js (item_events chop oi item) st = (evs, st')"
  shows "item_effect js oi item st evs st'"
proof -
  from assms(4) obtain e1 s1 e2 s2 e3 where
    1: "convert_event js (item_event ''response.output_item.added'' oi (blank_item item)) st = (e1, s1)"
      "convert_events js (inner_events chop oi item) s1 = (e2, s2)"
      "convert_event js (item_event ''response.output_item.done'' oi item) s2 = (e3, st')" "evs = e1 @ e2 @ e3"
    by (rule split_item_events)
  have "e1 = []" "s1 = st" using 1(1) ignored_added [of item js oi st] assms(3) by simp_all
  moreover have "e2 = []" "s2 = s1" using 1(2) assms(3) by (simp_all add: inner_events_def)
  moreover have "im_status item = ''completed''" using assms(2,3) by (simp add: streamable_def)
  ultimately show ?thesis
    using 1(3,4) assms(1,3)
    by (auto simp: dispatch plain_event_def handle_item_done_def handle_web_search_done_def close_idle resting_def
        item_effect_def item_blocks_def live_def Let_def)
qed

lemma any_item:
  assumes "\<And>t. concat (chop t) = t" "resting st" "unseen oi st" "streamable js item"
    and "convert_events js (item_events chop oi item) st = (evs, st')"
  shows "item_effect js oi item st evs st'"
proof -
  from assms(4) consider "im_type item = ''message''" | "im_type item = ''function_call''"
    | "im_type item = ''reasoning''" | "im_type item = ''web_search_call''"
    by (auto simp: streamable_def split: if_splits)
  then show ?thesis
    by cases (rule message_item [OF assms(1,2,3) _ assms(5)] call_item [OF assms(1,2,4) _ assms(5)]
        reasoning_item [OF assms(1,2,4) _ assms(5)] search_item [OF assms(2,4) _ assms(5)]; assumption)+
qed

lemma output_read:
  assumes "\<And>t. concat (chop t) = t" "resting st" "unseen oi st" "\<And>item. item \<in> set items \<Longrightarrow> streamable js item"
    and "convert_events js (output_events chop oi items) st = (evs, st')"
  shows "read_blocks evs (bs, None) = (bs @ concat (map (item_blocks js) items), None) \<and> resting st' \<and>
    cv_usage st' = cv_usage st \<and> cv_model st' = cv_model st \<and>
    (cv_has_tool_call st' \<longleftrightarrow> cv_has_tool_call st \<or> (\<exists>item \<in> set items. im_type item = ''function_call'')) \<and>
    (cv_text_delivered st \<or> (\<exists>item \<in> set items. im_type item = ''message'' \<and> text_blocks (im_content item) \<noteq> [])
       \<longrightarrow> cv_text_delivered st')"
  using assms(2-)
proof (induction items arbitrary: oi st bs evs)
  case Nil
  then show ?case by simp
next
  case (Cons item items)
  obtain e1 s1 e2 where 1: "convert_events js (item_events chop oi item) st = (e1, s1)"
    "convert_events js (output_events chop (oi + 1) items) s1 = (e2, st')" "evs = e1 @ e2"
    using Cons.prems(4) by (auto simp: convert_events_append split: prod.splits)
  have r: "item_effect js oi item st e1 s1" using any_item [OF assms(1) Cons.prems(1,2) _ 1(1)] Cons.prems(3) by simp
  then have "unseen (oi + 1) s1" using Cons.prems(2) by (auto simp: unseen_def item_effect_def)
  with r have "read_blocks e2 (bs @ item_blocks js item, None)
      = ((bs @ item_blocks js item) @ concat (map (item_blocks js) items), None) \<and> resting st' \<and>
    cv_usage st' = cv_usage s1 \<and> cv_model st' = cv_model s1 \<and>
    (cv_has_tool_call st' \<longleftrightarrow> cv_has_tool_call s1 \<or> (\<exists>item \<in> set items. im_type item = ''function_call'')) \<and>
    (cv_text_delivered s1 \<or> (\<exists>item \<in> set items. im_type item = ''message'' \<and> text_blocks (im_content item) \<noteq> [])
       \<longrightarrow> cv_text_delivered st')"
    by (intro Cons.IH [OF _ _ _ 1(2)]) (use Cons.prems(3) in \<open>auto simp: item_effect_def\<close>)
  with r show ?case by (auto simp: item_effect_def 1(3))
qed

section \<open>The whole response\<close>

text \<open>Only the creation and the end of a response say something about the message itself.\<close>

fun block_event :: "ant_event \<Rightarrow> bool" where
  "block_event (Message_start m) = False"
| "block_event (Message_delta r u) = False"
| "block_event Message_stop = False"
| "block_event e = True"

abbreviation only_blocks :: "conv_result \<Rightarrow> bool" where
  "only_blocks r \<equiv> list_all block_event (fst r)"

lemma blocks_close [simp]: "only_blocks (close_block st)"
  by (simp add: close_block_def Let_def)

lemma blocks_open [simp]: "only_blocks (open_block b k st)"
  using blocks_close [of st] by (simp add: open_block_def split_def Let_def del: blocks_close)

lemma blocks_emit [simp]: "only_blocks (emit_text t p st)"
  using blocks_open [of "Text_block []" "''text''" st] by (simp add: emit_text_def split_def Let_def del: blocks_open)

lemma blocks_done [simp]: "only_blocks (handle_block_done st)"
  by (simp add: handle_block_done_def)

lemma blocks_handlers:
  "only_blocks (handle_item_added evt st)" "only_blocks (handle_text_delta evt st)" "only_blocks (handle_text_done evt st)"
  "only_blocks (handle_args_delta js evt st)" "only_blocks (handle_args_done js evt st)"
  "only_blocks (handle_reasoning_delta evt st)" "only_blocks (handle_item_done js evt st)"
proof -
  show "only_blocks (handle_item_added evt st)" by (simp add: handle_item_added_def split_def Let_def split: option.split)
  show "only_blocks (handle_text_delta evt st)" by (simp add: handle_text_delta_def)
  have "only_blocks (recover_text t p st)" for t p by (simp add: recover_text_def Let_def)
  then show "only_blocks (handle_text_done evt st)" by (simp add: handle_text_done_def split_def Let_def)
  show "only_blocks (handle_args_delta js evt st)" by (simp add: handle_args_delta_def Let_def split: option.split)
  show "only_blocks (handle_args_done js evt st)" by (simp add: handle_args_done_def Let_def split_def)
  show "only_blocks (handle_reasoning_delta evt st)" by (simp add: handle_reasoning_delta_def split: option.split)
  have "only_blocks (handle_web_search_done js item st)" for item
    by (simp add: handle_web_search_done_def Let_def split_def)
  then show "only_blocks (handle_item_done js evt st)"
    by (simp add: handle_item_done_def Let_def split: option.split)
qed

lemma blocks_convert:
  "re_type evt \<noteq> ''response.created'' \<Longrightarrow> re_type evt \<notin> set terminal_types \<Longrightarrow> only_blocks (convert_event js evt st)"
  by (simp add: convert_event_def Let_def blocks_handlers)

lemma blocks_converts:
  "list_all (\<lambda>e. re_type e \<noteq> ''response.created'' \<and> re_type e \<notin> set terminal_types) es \<Longrightarrow>
   only_blocks (convert_events js es st)"
  by (induction es arbitrary: st) (simp_all add: blocks_convert split_def Let_def)

lemma inner_types:
  "list_all (\<lambda>e. re_type e \<noteq> ''response.created'' \<and> re_type e \<notin> set terminal_types) (output_events chop oi items)"
proof -
  have "list_all (\<lambda>e. re_type e \<noteq> ''response.created'' \<and> re_type e \<notin> set terminal_types) (parts_events chop oi ci ps)"
    for oi ci ps
    by (induction ps arbitrary: ci) (auto simp: part_events_def plain_event_def terminal_types_def list_all_iff)
  then have "list_all (\<lambda>e. re_type e \<noteq> ''response.created'' \<and> re_type e \<notin> set terminal_types) (item_events chop oi item)"
    for oi item
    by (auto simp: item_events_def inner_events_def plain_event_def terminal_types_def list_all_iff)
  then show ?thesis by (induction items arbitrary: oi) simp_all
qed

lemma message_steps_blocks: "list_all block_event evs \<Longrightarrow> fold message_step evs r = r"
proof (induction evs)
  case (Cons e evs)
  then show ?case by (cases e) simp_all
qed simp

lemma blocks_have_tool_use:
  assumes "\<And>item. item \<in> set items \<Longrightarrow> streamable js item"
  shows "contains_tool_use (concat (map (item_blocks js) items)) \<longleftrightarrow> (\<exists>item \<in> set items. im_type item = ''function_call'')"
proof -
  have "contains_tool_use (item_blocks js item) \<longleftrightarrow> im_type item = ''function_call''" for item
    by (auto simp: item_blocks_def contains_tool_use_def is_tool_use_def Let_def)
  then show ?thesis by (auto simp: contains_tool_use_def)
qed

lemma emits_empty: "list_all (\<lambda>(p, t). t = []) ts \<Longrightarrow> emit_texts ts st = ([], st)"
  by (induction ts) (auto simp: emit_text_def)

lemma no_terminal_text:
  assumes "cv_text_delivered st \<or> \<not> (\<exists>item \<in> set (rs_output r). im_type item = ''message'' \<and> text_blocks (im_content item) \<noteq> [])"
  shows "recover_terminal_text ((plain_event ty)\<lparr>re_response := Some r\<rparr>) st = ([], st)"
proof (cases "cv_text_delivered st")
  case False
  have "list_all (\<lambda>(p, t). t = []) (terminal_texts r)"
    using assms False by (fastforce simp: list_all_iff terminal_texts_def text_blocks_def filter_empty_conv in_set_enumerate_eq)
  then have "emit_texts (terminal_texts r) st = ([], st)" by (rule emits_empty)
  then show ?thesis by (simp add: recover_terminal_text_def plain_event_def False)
qed (simp add: recover_terminal_text_def plain_event_def)

lemma terminal_stop_reason_whole:
  "terminal_stop_reason ((plain_event ty)\<lparr>re_response := Some r\<rparr>) (contains_tool_use bs)
     = stop_reason_of_status (rs_status r) (rs_incomplete_reason r) bs"
  by (simp add: terminal_stop_reason_def stop_reason_of_status_def plain_event_def)


section \<open>Examples\<close>

definition single_chars :: "string \<Rightarrow> string list" where
  "single_chars s = map (\<lambda>c. [c]) s"

lemma concat_single_chars [simp]: "concat (single_chars s) = s"
  by (induction s) (simp_all add: single_chars_def)

definition sample_response :: res_response where
  "sample_response = \<lparr>rs_id = ''r'', rs_model = ''m'', rs_status = ''completed'',
     rs_output = [sample_item ''message'' [], sample_item ''function_call'' ''{x}'', sample_item ''web_search_call'' []],
     rs_usage = Some \<lparr>ru_input_tokens = 9, ru_output_tokens = 2, ru_cache_creation = 1, ru_cached = Some 3\<rparr>,
     rs_incomplete_reason = None\<rparr>"


theorem text_part_delivered_once_witness:
  "read_blocks (fst (convert_events sample_json (map (delta_event ''response.output_text.delta'' 0 0) [''he'', ''l'']
       @ [(plain_event ''response.output_text.done'')\<lparr>re_output_index := 0, re_content_index := 0, re_text := ''hello''\<rparr>])
       ((new_conv_state 0)\<lparr>cv_start_sent := True\<rparr>))) ([], None) = ([Text_block ''hello''], None)"
  using text_part_delivered_once [where st = "(new_conv_state 0)\<lparr>cv_start_sent := True\<rparr>" and oi = 0 and ci = 0
      and ds = "[''he'', ''l'']" and t = "''hello''" and js = sample_json and bs = "[]", OF _ _ _ prod.collapse [symmetric]]
  by (simp add: text_at_def live_def new_conv_state_def)

text \<open>A call of a custom tool is streamed as a tool use, but the conversion of the whole response has no
  branch for it and drops it, and with it the stop reason \<open>tool_use\<close>.\<close>

lemma custom_tool_call_differs:
  assumes "im_type item = ''custom_tool_call''" "re_item evt = Some item" "\<not> cv_open st"
  shows "fst (handle_item_added evt st)
      = [Block_start (cv_index st) (Tool_use_block (from_responses_call_id (im_call_id item)) (im_name item) ''{}'')]"
    and "item_blocks js item = []"
  using assms by (simp_all add: handle_item_added_def open_block_def close_idle item_blocks_def)

end
