(* ===== verification/RedisKeys.thy ===== *)
theory RedisKeys
  imports Prelude
begin

text \<open>
  What the caches use of Redis: sorted sets with a time to live, counters, the answer of a call over the
  network. Clocks of the server are in milliseconds; the score of a member is an instant, in the
  seconds or milliseconds that the callers write.
\<close>

section \<open>Times to live and calls\<close>

definition key_gone :: "int \<Rightarrow> int option \<Rightarrow> bool" where
  "key_gone clk expiry \<longleftrightarrow> (case expiry of None \<Rightarrow> False | Some e \<Rightarrow> e \<le> clk)"

text \<open>A call reaches the server and comes back, reaches it without its answer coming back, or does
  not reach it.\<close>

datatype net = Net_ok | Net_lost | Net_down

section \<open>Sorted sets\<close>

record zkey =
  zk_members :: "(string, int) gomap"
  zk_expiry :: "int option"

definition no_zkey :: zkey where
  "no_zkey = \<lparr>zk_members = [], zk_expiry = None\<rparr>"

text \<open>An empty set is deleted, and its time to live with it.\<close>

definition zkeep :: "zkey \<Rightarrow> zkey" where
  "zkeep z = (if zk_members z = [] then no_zkey else z)"

definition zrem_upto :: "int \<Rightarrow> zkey \<Rightarrow> zkey" where
  "zrem_upto lim z = zkeep (z\<lparr>zk_members := gm_filter (\<lambda>m s. lim < s) (zk_members z)\<rparr>)"

definition zrem :: "string \<Rightarrow> zkey \<Rightarrow> zkey" where
  "zrem m z = zkeep (z\<lparr>zk_members := gm_delete m (zk_members z)\<rparr>)"

definition zadd :: "string \<Rightarrow> int \<Rightarrow> zkey \<Rightarrow> zkey" where
  "zadd m score z = z\<lparr>zk_members := gm_set m score (zk_members z)\<rparr>"

text \<open>\<open>EXPIRE\<close> in seconds; it does nothing to a key that does not exist.\<close>

definition zexpire :: "int \<Rightarrow> int \<Rightarrow> zkey \<Rightarrow> zkey" where
  "zexpire clk ttl z = (if zk_members z = [] then z else z\<lparr>zk_expiry := Some (clk + 1000 * ttl)\<rparr>)"

definition zscore :: "string \<Rightarrow> zkey \<Rightarrow> int option" where
  "zscore m z = gm_get (zk_members z) m"

definition zmembers :: "zkey \<Rightarrow> string set" where
  "zmembers z = gm_keys (zk_members z)"

definition zok :: "zkey \<Rightarrow> bool" where
  "zok z \<longleftrightarrow> gm_ok (zk_members z)"

named_theorems zset \<open>laws of sorted sets\<close>

lemma zkeep_same [simp]: "zk_members (zkeep z) = zk_members z"
  by (simp add: zkeep_def no_zkey_def)

lemma zok_ops [simp, zset]:
  "zok no_zkey" "zok z \<Longrightarrow> zok (zkeep z)" "zok z \<Longrightarrow> zok (zrem_upto lim z)" "zok z \<Longrightarrow> zok (zrem m z)"
  "zok z \<Longrightarrow> zok (zadd m s z)" "zok z \<Longrightarrow> zok (zexpire clk ttl z)"
  by (simp_all add: zok_def zrem_upto_def zrem_def zadd_def zexpire_def no_zkey_def)

lemma zmembers_ops [zset]:
  "zmembers no_zkey = {}" "zmembers (zkeep z) = zmembers z" "zmembers (zrem m z) = zmembers z - {m}"
  "zmembers (zadd m s z) = insert m (zmembers z)" "zmembers (zexpire clk ttl z) = zmembers z"
  by (simp_all add: zmembers_def zrem_def zadd_def zexpire_def no_zkey_def gm_keys_delete gm_keys_set gm_keys_def [of "[]"])

lemma zscore_ops [zset]:
  "zscore m no_zkey = None" "zscore m (zkeep z) = zscore m z" "zscore m (zrem m' z) = (if m = m' then None else zscore m z)"
  "zscore m (zadd m' s z) = (if m = m' then Some s else zscore m z)" "zscore m (zexpire clk ttl z) = zscore m z"
  by (simp_all add: zscore_def zrem_def zadd_def zexpire_def no_zkey_def)

lemma zscore_rem_upto:
  "zok z \<Longrightarrow> zscore m (zrem_upto lim z) = (case zscore m z of Some s \<Rightarrow> if lim < s then Some s else None | None \<Rightarrow> None)"
  by (simp add: zscore_def zrem_upto_def zok_def gm_get_filter)

lemma zmembers_score: "m \<in> zmembers z \<longleftrightarrow> (\<exists>s. zscore m z = Some s)"
  by (auto simp: zmembers_def zscore_def dest: gm_keys_get gm_get_in_keys)

lemma zmembers_rem_upto: "zmembers (zrem_upto lim z) \<subseteq> zmembers z"
  by (simp add: zmembers_def zrem_upto_def gm_keys_filter)

lemma zmembers_finite [simp]: "finite (zmembers z)"
  by (simp add: zmembers_def gm_keys_def)

lemma zcard_members: "zok z \<Longrightarrow> gm_len (zk_members z) = card (zmembers z)"
  by (metis distinct_card gm_keys_def gm_ok_def length_map list.set_map zmembers_def zok_def)

end
