(* ===== verification/InflightCache.thy ===== *)
theory InflightCache
  imports RedisKeys
begin

text \<open>
  The cache of amounts reserved for requests in flight
  (\<^verbatim>\<open>internal/repository/billing_inflight_cache.go\<close>): the Lua scripts over a sorted set of deadlines
  and a hash of amounts, and the methods that call them. Amounts are of any type with the arithmetic
  the scripts use; the code computes with doubles, and the theorems that need the laws of exact
  arithmetic ask for an ordered group.
\<close>

section \<open>The two keys of a script\<close>

record 'm flight_keys =
  fk_scores :: "(string, int) gomap"
  fk_amounts :: "(string, 'm) gomap"
  fk_scores_expiry :: "int option"
  fk_amounts_expiry :: "int option"

definition no_flights :: "'m flight_keys" where
  "no_flights = \<lparr>fk_scores = [], fk_amounts = [], fk_scores_expiry = None, fk_amounts_expiry = None\<rparr>"

text \<open>Keys whose time to live has run out on the server, at its clock \<open>clk\<close>, are gone.\<close>

definition server_view :: "int \<Rightarrow> 'm flight_keys \<Rightarrow> 'm flight_keys" where
  "server_view clk k =
     (let k1 = (if key_gone clk (fk_scores_expiry k) then k\<lparr>fk_scores := [], fk_scores_expiry := None\<rparr> else k)
      in if key_gone clk (fk_amounts_expiry k1) then k1\<lparr>fk_amounts := [], fk_amounts_expiry := None\<rparr> else k1)"

text \<open>An empty set or hash is deleted, and its time to live with it.\<close>

definition drop_empty :: "'m flight_keys \<Rightarrow> 'm flight_keys" where
  "drop_empty k =
     k\<lparr>fk_scores_expiry := (if fk_scores k = [] then None else fk_scores_expiry k),
       fk_amounts_expiry := (if fk_amounts k = [] then None else fk_amounts_expiry k)\<rparr>"

definition prune_flights :: "int \<Rightarrow> 'm flight_keys \<Rightarrow> 'm flight_keys" where
  "prune_flights now k =
     (let expired = map fst (filter (\<lambda>(m, s). s \<le> now) (fk_scores k))
      in if expired = [] then k
         else drop_empty (k\<lparr>fk_scores := gm_filter (\<lambda>m s. now < s) (fk_scores k),
                            fk_amounts := gm_filter (\<lambda>m a. m \<notin> set expired) (fk_amounts k)\<rparr>))"

definition flight_sum :: "(string, 'm::{plus,zero}) gomap \<Rightarrow> 'm" where
  "flight_sum amounts = foldl (+) 0 (map snd amounts)"

definition enter_flight :: "int \<Rightarrow> int \<Rightarrow> string \<Rightarrow> 'm \<Rightarrow> int \<Rightarrow> 'm flight_keys \<Rightarrow> 'm flight_keys" where
  "enter_flight clk expire_at member amount key_ttl k =
     k\<lparr>fk_scores := gm_set member expire_at (fk_scores k), fk_amounts := gm_set member amount (fk_amounts k),
       fk_scores_expiry := Some (clk + key_ttl), fk_amounts_expiry := Some (clk + key_ttl)\<rparr>"

section \<open>The scripts\<close>

definition reserve_script ::
  "int \<Rightarrow> int \<Rightarrow> int \<Rightarrow> string \<Rightarrow> 'm \<Rightarrow> 'm \<Rightarrow> int \<Rightarrow> 'm::{plus,minus,zero,ord} flight_keys \<Rightarrow>
   (bool \<times> 'm \<times> nat) \<times> 'm flight_keys" where
  "reserve_script clk now expire_at member amount balance key_ttl k =
     (let k1 = prune_flights now (server_view clk k); total = flight_sum (fk_amounts k1); n = gm_len (fk_scores k1)
      in if n > 0 \<and> balance - total < amount then ((False, total, n), k1)
         else ((True, total, n), enter_flight clk expire_at member amount key_ttl k1))"

definition leave_flight :: "string \<Rightarrow> 'm flight_keys \<Rightarrow> 'm flight_keys" where
  "leave_flight member k =
     drop_empty (k\<lparr>fk_scores := gm_delete member (fk_scores k), fk_amounts := gm_delete member (fk_amounts k)\<rparr>)"

definition release_script :: "int \<Rightarrow> string \<Rightarrow> 'm flight_keys \<Rightarrow> 'm flight_keys" where
  "release_script clk member k = leave_flight member (server_view clk k)"

definition extend_expiry :: "int \<Rightarrow> int \<Rightarrow> int option \<Rightarrow> int option" where
  "extend_expiry clk ttl expiry =
     (case expiry of None \<Rightarrow> Some (clk + ttl) | Some e \<Rightarrow> if e - clk < ttl then Some (clk + ttl) else Some e)"

definition renew_script :: "int \<Rightarrow> string \<Rightarrow> int \<Rightarrow> int \<Rightarrow> int \<Rightarrow> 'm flight_keys \<Rightarrow> bool \<times> 'm flight_keys" where
  "renew_script clk member expire_at key_ttl now k =
     (let k1 = server_view clk k in
      case gm_get (fk_scores k1) member of
        None \<Rightarrow> (False, k1)
      | Some score \<Rightarrow>
          if score \<le> now then (False, leave_flight member k1)
          else (True, drop_empty (k1\<lparr>fk_scores := gm_set member expire_at (fk_scores k1),
                  fk_scores_expiry := extend_expiry clk key_ttl (fk_scores_expiry k1),
                  fk_amounts_expiry := extend_expiry clk key_ttl (fk_amounts_expiry k1)\<rparr>)))"

definition reserve_scope_script ::
  "int \<Rightarrow> int \<Rightarrow> int \<Rightarrow> string \<Rightarrow> 'm \<Rightarrow> int \<Rightarrow> 'm::{plus,zero} flight_keys \<Rightarrow> 'm \<times> 'm flight_keys" where
  "reserve_scope_script clk now expire_at member amount key_ttl k =
     (let k1 = prune_flights now (server_view clk k)
      in (flight_sum (fk_amounts k1), enter_flight clk expire_at member amount key_ttl k1))"

section \<open>The cache\<close>

type_synonym 'm flight_store = "string \<times> string \<Rightarrow> 'm flight_keys"

definition billing_inflight_keys :: "int \<Rightarrow> string \<times> string" where
  "billing_inflight_keys uid =
     (''billing:inflight:{'' @ itoa uid @ ''}'', ''billing:inflight_amt:{'' @ itoa uid @ ''}'')"

definition billing_scope_keys :: "string \<Rightarrow> string \<times> string" where
  "billing_scope_keys scope =
     (''billing:inflight_scope:{'' @ scope @ ''}'', ''billing:inflight_scope_amt:{'' @ scope @ ''}'')"

definition ttl_ms :: "duration \<Rightarrow> int" where
  "ttl_ms ttl = (let ms = go_quot ttl millisecond in if ms \<le> 0 then 1 else ms)"

text \<open>One script run at the server. \<open>None\<close> is the error of the client.\<close>

definition run_script :: "net \<Rightarrow> string \<times> string \<Rightarrow> ('m flight_keys \<Rightarrow> 'r \<times> 'm flight_keys) \<Rightarrow> 'm flight_store
  \<Rightarrow> 'r option \<times> 'm flight_store" where
  "run_script net keys script st =
     (if net = Net_down then (None, st)
      else let (r, k) = script (st keys) in (if net = Net_ok then Some r else None, st(keys := k)))"

text \<open>The clocks are in milliseconds: \<open>clk\<close> of the server, \<open>now\<close> of the caller.\<close>

definition cache_reserve_balance ::
  "net \<Rightarrow> int \<Rightarrow> int \<Rightarrow> int \<Rightarrow> string \<Rightarrow> 'm \<Rightarrow> 'm \<Rightarrow> duration \<Rightarrow> 'm::{plus,minus,zero,ord} flight_store \<Rightarrow>
   (bool \<times> 'm) option \<times> 'm flight_store" where
  "cache_reserve_balance net clk now uid rid amount balance ttl st =
     (let (r, st1) = run_script net (billing_inflight_keys uid)
            (reserve_script clk now (now + ttl_ms ttl) rid amount balance (ttl_ms ttl)) st
      in (map_option (\<lambda>(allowed, total, n). (allowed, total)) r, st1))"

definition cache_release_balance :: "net \<Rightarrow> int \<Rightarrow> int \<Rightarrow> string \<Rightarrow> 'm flight_store \<Rightarrow> unit option \<times> 'm flight_store" where
  "cache_release_balance net clk uid rid st =
     run_script net (billing_inflight_keys uid) (\<lambda>k. ((), release_script clk rid k)) st"

definition cache_renew_balance ::
  "net \<Rightarrow> int \<Rightarrow> int \<Rightarrow> int \<Rightarrow> string \<Rightarrow> duration \<Rightarrow> 'm flight_store \<Rightarrow> bool option \<times> 'm flight_store" where
  "cache_renew_balance net clk now uid rid ttl st =
     run_script net (billing_inflight_keys uid) (renew_script clk rid (now + ttl_ms ttl) (ttl_ms ttl) now) st"

definition cache_reserve_scope ::
  "net \<Rightarrow> int \<Rightarrow> int \<Rightarrow> string \<Rightarrow> string \<Rightarrow> 'm \<Rightarrow> duration \<Rightarrow> 'm::{plus,zero} flight_store \<Rightarrow> 'm option \<times> 'm flight_store" where
  "cache_reserve_scope net clk now scope rid amount ttl st =
     run_script net (billing_scope_keys scope)
       (reserve_scope_script clk now (now + ttl_ms ttl) rid amount (ttl_ms ttl)) st"

definition cache_release_scope :: "net \<Rightarrow> int \<Rightarrow> string \<Rightarrow> string \<Rightarrow> 'm flight_store \<Rightarrow> unit option \<times> 'm flight_store" where
  "cache_release_scope net clk scope rid st =
     run_script net (billing_scope_keys scope) (\<lambda>k. ((), release_script clk rid k)) st"

section \<open>Sums of amounts\<close>

lemma flight_sum_list: "flight_sum m = sum_list (map snd (m :: (string \<times> 'm::comm_monoid_add) list))"
proof -
  have "foldl (+) a xs = a + sum_list xs" for a :: 'm and xs
    by (induction xs arbitrary: a) (simp_all add: add.assoc)
  then show ?thesis by (simp add: flight_sum_def)
qed

definition positive_flights :: "(string, 'm::{zero,ord}) gomap \<Rightarrow> bool" where
  "positive_flights m \<longleftrightarrow> list_all (\<lambda>(k, a). 0 < a) m"

lemma positive_update: "positive_flights m \<Longrightarrow> 0 < a \<Longrightarrow> positive_flights (gm_set k a m)"
  by (induction m) (auto simp: positive_flights_def)

lemma positive_filter: "positive_flights m \<Longrightarrow> positive_flights (filter P m)"
  by (simp add: positive_flights_def list_all_iff)

lemma sum_nonneg: "positive_flights m \<Longrightarrow> 0 \<le> flight_sum (m :: (string, 'm::linordered_ab_group_add) gomap)"
  by (induction m) (auto simp: flight_sum_list positive_flights_def)

lemma sum_filter: "positive_flights m \<Longrightarrow> flight_sum (filter P m) \<le> flight_sum (m :: (string, 'm::linordered_ab_group_add) gomap)"
  by (induction m) (auto simp: flight_sum_list positive_flights_def intro: add_increasing)

lemma sum_update:
  "positive_flights m \<Longrightarrow> 0 < a \<Longrightarrow>
   flight_sum (gm_set k a m) \<le> flight_sum (m :: (string, 'm::linordered_ab_group_add) gomap) + a"
  by (induction m)
     (auto simp: flight_sum_list positive_flights_def add.assoc intro: add_increasing order.trans [OF _ add_left_mono])

section \<open>What every script keeps\<close>

text \<open>Both keys hold the same members and expire together; no amount is negative; the sum stays
  within the balance unless a single request is in flight.\<close>

definition flights_ok :: "'m \<Rightarrow> 'm::linordered_ab_group_add flight_keys \<Rightarrow> bool" where
  "flights_ok b k \<longleftrightarrow>
     gm_ok (fk_scores k) \<and> gm_ok (fk_amounts k) \<and> gm_keys (fk_scores k) = gm_keys (fk_amounts k) \<and>
     fk_scores_expiry k = fk_amounts_expiry k \<and> positive_flights (fk_amounts k) \<and>
     (flight_sum (fk_amounts k) \<le> b \<or> gm_len (fk_amounts k) \<le> 1)"

lemma same_keys_len:
  "gm_ok m \<Longrightarrow> gm_ok m' \<Longrightarrow> gm_keys m = gm_keys m' \<Longrightarrow> gm_len m = gm_len m'"
  by (metis distinct_card gm_keys_def gm_ok_def length_map set_map)

lemma gm_keys_Nil [simp]: "gm_keys [] = {}"
  by (simp add: gm_keys_def)

lemma ok_none: "flights_ok b no_flights"
  by (simp add: flights_ok_def no_flights_def positive_flights_def)

lemma gm_delete_filter: "gm_delete k m = filter (\<lambda>(k', v). k \<noteq> k') m"
  by (simp add: AList.delete_eq case_prod_unfold)

lemma gm_ok_sub: "gm_ok m \<Longrightarrow> gm_ok (filter P m)"
  by (simp add: gm_ok_def distinct_map_filter)

lemma keys_filter_split:
  "gm_ok m \<Longrightarrow> gm_keys (filter P m) = gm_keys m - set (map fst (filter (\<lambda>x. \<not> P x) m))"
  by (induction m) (auto simp: gm_ok_def gm_keys_def image_iff)

lemma keys_filter_key: "gm_keys (filter (\<lambda>(k, v). Q k) m) = {k \<in> gm_keys m. Q k}"
  by (auto simp: gm_keys_def image_iff)

lemma shrink_ok:
  assumes "flights_ok b k" "fk_scores k' = filter P (fk_scores k)" "fk_amounts k' = filter Q (fk_amounts k)"
    and "gm_keys (fk_scores k') = gm_keys (fk_amounts k')" "fk_scores_expiry k' = fk_amounts_expiry k'"
  shows "flights_ok b k'"
proof -
  have "flight_sum (fk_amounts k') \<le> flight_sum (fk_amounts k)" "gm_len (fk_amounts k') \<le> gm_len (fk_amounts k)"
    using assms(1,3) by (simp_all add: flights_ok_def sum_filter)
  with assms(1) have "flight_sum (fk_amounts k') \<le> b \<or> gm_len (fk_amounts k') \<le> 1"
    unfolding flights_ok_def by (meson order_trans)
  with assms show ?thesis by (simp add: flights_ok_def positive_filter gm_ok_sub)
qed

lemma ok_server_view: "flights_ok b k \<Longrightarrow> flights_ok b (server_view clk k)"
  by (auto simp: server_view_def Let_def flights_ok_def positive_flights_def)

lemma same_empty: "gm_keys m = gm_keys m' \<Longrightarrow> m = [] \<longleftrightarrow> m' = []"
  by (auto simp: gm_keys_def)

lemma ok_drop_empty: "flights_ok b k \<Longrightarrow> flights_ok b (drop_empty k)"
  using same_empty [of "fk_scores k" "fk_amounts k"] by (simp add: flights_ok_def drop_empty_def)

lemma ok_prune: "flights_ok b k \<Longrightarrow> flights_ok b (prune_flights now k)"
proof -
  assume ok: "flights_ok b k"
  let ?e = "map fst (filter (\<lambda>(m, s). s \<le> now) (fk_scores k))"
  let ?k = "k\<lparr>fk_scores := gm_filter (\<lambda>m s. now < s) (fk_scores k), fk_amounts := gm_filter (\<lambda>m a. m \<notin> set ?e) (fk_amounts k)\<rparr>"
  have "gm_keys (gm_filter (\<lambda>m s. now < s) (fk_scores k)) = gm_keys (fk_scores k) - set ?e"
    using ok keys_filter_split [of "fk_scores k" "\<lambda>(m, s). now < s"]
    by (simp add: flights_ok_def gm_filter_def case_prod_unfold not_less)
  moreover have "gm_keys (gm_filter (\<lambda>m a. m \<notin> set ?e) (fk_amounts k)) = gm_keys (fk_amounts k) - set ?e"
    by (auto simp: keys_filter_key gm_filter_def)
  moreover have "gm_keys (fk_scores k) = gm_keys (fk_amounts k)" "fk_scores_expiry k = fk_amounts_expiry k"
    using ok by (simp_all add: flights_ok_def)
  ultimately have "flights_ok b ?k"
    by (intro shrink_ok [OF ok, where P = "\<lambda>(m, s). now < s" and Q = "\<lambda>(m, a). m \<notin> set ?e"])
       (simp_all add: gm_filter_def)
  then show ?thesis using ok by (simp add: prune_flights_def Let_def ok_drop_empty)
qed

lemma ok_leave: "flights_ok b k \<Longrightarrow> flights_ok b (leave_flight m k)"
proof -
  assume ok: "flights_ok b k"
  have "flights_ok b (k\<lparr>fk_scores := gm_delete m (fk_scores k), fk_amounts := gm_delete m (fk_amounts k)\<rparr>)"
    by (rule shrink_ok [OF ok, where P = "\<lambda>(k', v). m \<noteq> k'" and Q = "\<lambda>(k', v). m \<noteq> k'"])
       (use ok in \<open>simp_all add: flights_ok_def gm_delete_filter [symmetric] gm_keys_delete\<close>)
  then show ?thesis by (simp add: leave_flight_def ok_drop_empty)
qed

lemma ok_enter:
  assumes "flights_ok b k" "0 < amount" "fk_amounts k = [] \<or> flight_sum (fk_amounts k) + amount \<le> b"
  shows "flights_ok b (enter_flight clk e m amount ttl k)"
proof -
  have "flight_sum (gm_set m amount (fk_amounts k)) \<le> b \<or> gm_len (gm_set m amount (fk_amounts k)) \<le> 1"
    using assms sum_update [of "fk_amounts k" amount m] by (auto simp: flights_ok_def)
  then show ?thesis
    using assms by (simp add: flights_ok_def enter_flight_def gm_keys_set positive_update)
qed

lemma ok_reserve:
  assumes "flights_ok b k" "0 < amount" "balance \<le> b"
  shows "flights_ok b (snd (reserve_script clk now e m amount balance ttl k))"
proof -
  let ?k = "prune_flights now (server_view clk k)"
  have ok: "flights_ok b ?k" by (intro ok_prune ok_server_view assms(1))
  then have len: "gm_len (fk_scores ?k) = gm_len (fk_amounts ?k)"
    by (intro same_keys_len) (simp_all add: flights_ok_def)
  have "flights_ok b (enter_flight clk e m amount ttl ?k)"
    if "\<not> (gm_len (fk_scores ?k) > 0 \<and> balance - flight_sum (fk_amounts ?k) < amount)"
  proof (rule ok_enter [OF ok assms(2)])
    show "fk_amounts ?k = [] \<or> flight_sum (fk_amounts ?k) + amount \<le> b"
      using that assms(3) by (auto simp: len not_less algebra_simps)
  qed
  with ok show ?thesis by (simp add: reserve_script_def Let_def)
qed

lemma ok_release: "flights_ok b k \<Longrightarrow> flights_ok b (release_script clk m k)"
  by (simp add: release_script_def ok_leave ok_server_view)

lemma ok_renew:
  assumes "flights_ok b k"
  shows "flights_ok b (snd (renew_script clk m e ttl now k))"
proof -
  let ?k = "server_view clk k"
  have ok: "flights_ok b ?k" by (rule ok_server_view [OF assms])
  have "flights_ok b (?k\<lparr>fk_scores := gm_set m e (fk_scores ?k),
      fk_scores_expiry := extend_expiry clk ttl (fk_scores_expiry ?k),
      fk_amounts_expiry := extend_expiry clk ttl (fk_amounts_expiry ?k)\<rparr>)" if "gm_get (fk_scores ?k) m = Some s" for s
    using ok gm_get_in_keys [OF that] by (auto simp: flights_ok_def gm_keys_set)
  with ok show ?thesis by (auto simp: renew_script_def Let_def ok_leave ok_drop_empty split: option.split)
qed

section \<open>All users\<close>

datatype 'm cache_op =
  Op_reserve net int int int string 'm 'm duration
  | Op_release net int int string
  | Op_renew net int int int string duration
  | Op_reserve_scope net int int string string 'm duration
  | Op_release_scope net int string string

fun cache_step :: "'m::{plus,minus,zero,ord} cache_op \<Rightarrow> 'm flight_store \<Rightarrow> 'm flight_store" where
  "cache_step (Op_reserve net clk now uid rid amount balance ttl) st =
     snd (cache_reserve_balance net clk now uid rid amount balance ttl st)"
| "cache_step (Op_release net clk uid rid) st = snd (cache_release_balance net clk uid rid st)"
| "cache_step (Op_renew net clk now uid rid ttl) st = snd (cache_renew_balance net clk now uid rid ttl st)"
| "cache_step (Op_reserve_scope net clk now scope rid amount ttl) st =
     snd (cache_reserve_scope net clk now scope rid amount ttl st)"
| "cache_step (Op_release_scope net clk scope rid) st = snd (cache_release_scope net clk scope rid st)"

text \<open>What the service passes: a positive amount, and a balance of at most \<open>b uid\<close>.\<close>

fun op_within :: "(int \<Rightarrow> 'm) \<Rightarrow> 'm::{zero,ord} cache_op \<Rightarrow> bool" where
  "op_within b (Op_reserve net clk now uid rid amount balance ttl) \<longleftrightarrow> 0 < amount \<and> balance \<le> b uid"
| "op_within b _ \<longleftrightarrow> True"

lemma user_keys_inj: "billing_inflight_keys u = billing_inflight_keys v \<longleftrightarrow> u = v"
  by (auto simp: billing_inflight_keys_def dest: itoa_inj)

lemma user_scope_keys: "billing_inflight_keys u \<noteq> billing_scope_keys s"
  by (simp add: billing_inflight_keys_def billing_scope_keys_def)

lemma run_script_other: "keys \<noteq> keys' \<Longrightarrow> snd (run_script net keys f st) keys' = st keys'"
  by (simp add: run_script_def split: prod.split)

lemma run_script_own:
  "snd (run_script net keys f st) keys = (if net = Net_down then st keys else snd (f (st keys)))"
  by (simp add: run_script_def split: prod.split)

lemma step_ok:
  assumes "flights_ok (b uid) (st (billing_inflight_keys uid))" "op_within b oper"
  shows "flights_ok (b uid) (cache_step oper st (billing_inflight_keys uid))"
proof (cases oper)
  case (Op_reserve net clk now u rid amount balance ttl)
  have "snd (cache_reserve_balance net clk now u rid amount balance ttl st)
      = snd (run_script net (billing_inflight_keys u)
          (reserve_script clk now (now + ttl_ms ttl) rid amount balance (ttl_ms ttl)) st)"
    by (simp add: cache_reserve_balance_def split: prod.split)
  with Op_reserve assms show ?thesis
    by (cases "u = uid") (simp_all add: run_script_own run_script_other user_keys_inj ok_reserve)
next
  case (Op_release net clk u rid)
  with assms show ?thesis
    by (cases "u = uid")
       (simp_all add: cache_release_balance_def run_script_own run_script_other user_keys_inj ok_release)
next
  case (Op_renew net clk now u rid ttl)
  with assms show ?thesis
    by (cases "u = uid")
       (simp_all add: cache_renew_balance_def run_script_own run_script_other user_keys_inj ok_renew)
next
  case (Op_reserve_scope net clk now scope rid amount ttl)
  with assms show ?thesis
    using user_scope_keys [of uid scope] by (simp add: cache_reserve_scope_def run_script_other)
next
  case (Op_release_scope net clk scope rid)
  with assms show ?thesis
    using user_scope_keys [of uid scope] by (simp add: cache_release_scope_def run_script_other)
qed

lemma steps_ok:
  "flights_ok (b uid) (st (billing_inflight_keys uid)) \<Longrightarrow> list_all (op_within b) ops \<Longrightarrow>
   flights_ok (b uid) (fold cache_step ops st (billing_inflight_keys uid))"
  by (induction ops arbitrary: st) (simp_all add: step_ok)

text \<open>C34: Requests in flight never overdraw a balance together. Whatever reservations, renewals and
  releases of all users and scopes are interleaved, with whatever clocks and whatever answers are
  lost on the network, the amounts in flight of a user sum to at most the largest balance presented for him, except
  that a single request may exceed it alone.\<close>

theorem flights_within_balance:
  fixes b :: "int \<Rightarrow> 'm::linordered_ab_group_add"
  assumes "list_all (op_within b) ops"
  shows "flight_sum (fk_amounts (fold cache_step ops (\<lambda>_. no_flights) (billing_inflight_keys uid))) \<le> b uid \<or>
    gm_len (fk_amounts (fold cache_step ops (\<lambda>_. no_flights) (billing_inflight_keys uid))) \<le> 1"
  using steps_ok [where st = "\<lambda>_. no_flights" and b = b and uid = uid, OF ok_none assms]
  by (simp add: flights_ok_def)


theorem flights_within_balance_witness:
  "let k = fold cache_step
      [Op_reserve Net_ok 0 0 7 ''a'' 6 10 second, Op_reserve Net_lost 1 1 7 ''b'' 4 10 second,
       Op_reserve Net_ok 2 2 8 ''d'' 50 40 second, Op_renew Net_ok 900 900 7 ''b'' second]
      (\<lambda>_. no_flights) (billing_inflight_keys 7)
   in flight_sum (fk_amounts k) \<le> (10::int) \<or> gm_len (fk_amounts k) \<le> 1"
  using flights_within_balance [where b = "\<lambda>u. if u = 7 then 10 else (40 :: int)" and uid = 7 and
      ops = "[Op_reserve Net_ok 0 0 7 ''a'' 6 10 second, Op_reserve Net_lost 1 1 7 ''b'' 4 10 second,
       Op_reserve Net_ok 2 2 8 ''d'' 50 40 second, Op_renew Net_ok 900 900 7 ''b'' second]"]
  by (simp add: Let_def)

end
