(* ===== verification/UsageRecordPool.thy ===== *)
theory UsageRecordPool
  imports Prelude "HOL-Library.Word"
begin

text \<open>
  The pool that records usage (\<^verbatim>\<open>internal/service/usage_record_worker_pool.go\<close>): its options and
  their normal form, the submission of a task with the overflow policies, and the automatic scaling.
  The queue and its workers are the package \<open>pond\<close>: what a call observes of it is an argument.
\<close>

section \<open>Options\<close>

record usage_options =
  uo_workers :: int
  uo_queue :: int
  uo_timeout :: duration
  uo_policy :: string
  uo_sample :: int
  uo_auto :: bool
  uo_min :: int
  uo_max :: int
  uo_up_percent :: int
  uo_down_percent :: int
  uo_up_step :: int
  uo_down_step :: int
  uo_interval :: duration
  uo_cooldown :: duration

definition default_usage_options :: usage_options where
  "default_usage_options =
     \<lparr>uo_workers = 128, uo_queue = 16384, uo_timeout = 5 * second, uo_policy = ''sync'', uo_sample = 10, uo_auto = True,
      uo_min = 128, uo_max = 512, uo_up_percent = 70, uo_down_percent = 15, uo_up_step = 32, uo_down_step = 16,
      uo_interval = 3 * second, uo_cooldown = 10 * second\<rparr>"

definition or_default :: "int \<Rightarrow> int \<Rightarrow> int" where
  "or_default v d = (if v \<le> 0 then d else v)"

definition normal_policy :: "(string \<Rightarrow> string) \<Rightarrow> string \<Rightarrow> string" where
  "normal_policy low p =
     (let q = to_lower low (trim_space p) in if q \<in> {''drop'', ''sample'', ''sync''} then q else ''sync'')"

definition normal_sample :: "string \<Rightarrow> int \<Rightarrow> int" where
  "normal_sample policy n =
     (let m = (if n < 0 then 0 else n); m1 = (if m > 100 then 100 else m)
      in if policy = ''sample'' \<and> m1 = 0 then 10 else m1)"

definition normal_scaling :: "usage_options \<Rightarrow> usage_options" where
  "normal_scaling u =
     (let lo = or_default (uo_min u) 128; hi0 = or_default (uo_max u) 512; hi = (if hi0 < lo then lo else hi0);
          w0 = (if uo_workers u < lo then lo else uo_workers u); w = (if w0 > hi then hi else w0);
          up = (if uo_up_percent u \<le> 0 \<or> uo_up_percent u > 100 then 70 else uo_up_percent u);
          down0 = (if uo_down_percent u < 0 \<or> uo_down_percent u \<ge> 100 then 15 else uo_down_percent u);
          down = (if down0 \<ge> up then max 0 (go_quot up 2) else down0)
      in u\<lparr>uo_min := lo, uo_max := hi, uo_workers := w, uo_up_percent := up, uo_down_percent := down,
           uo_up_step := or_default (uo_up_step u) 32, uo_down_step := or_default (uo_down_step u) 16,
           uo_interval := or_default (uo_interval u) (3 * second),
           uo_cooldown := (if uo_cooldown u < 0 then 10 * second else uo_cooldown u)\<rparr>)"

definition normalize_usage_options :: "(string \<Rightarrow> string) \<Rightarrow> usage_options \<Rightarrow> usage_options" where
  "normalize_usage_options low u =
     (let policy = normal_policy low (uo_policy u);
          u1 = u\<lparr>uo_workers := or_default (uo_workers u) 128, uo_queue := or_default (uo_queue u) 16384,
                 uo_timeout := or_default (uo_timeout u) (5 * second), uo_policy := policy,
                 uo_sample := normal_sample policy (uo_sample u)\<rparr>
      in if uo_auto u1 then normal_scaling u1 else u1\<lparr>uo_min := uo_workers u1, uo_max := uo_workers u1\<rparr>)"

text \<open>The section of the configuration; its durations are numbers of seconds.\<close>

record usage_config =
  uc_workers :: int
  uc_queue :: int
  uc_timeout_seconds :: int
  uc_policy :: string
  uc_sample :: int
  uc_auto :: bool
  uc_min :: int
  uc_max :: int
  uc_up_percent :: int
  uc_down_percent :: int
  uc_up_step :: int
  uc_down_step :: int
  uc_interval_seconds :: int
  uc_cooldown_seconds :: int

definition usage_options_of_config :: "(string \<Rightarrow> string) \<Rightarrow> usage_config option \<Rightarrow> usage_options" where
  "usage_options_of_config low cfg =
     (case cfg of
        None \<Rightarrow> default_usage_options
      | Some c \<Rightarrow>
          let d = default_usage_options; keep = (\<lambda>v def. if v > 0 then v else def);
              keep0 = (\<lambda>v def. if v \<ge> 0 then v else def); policy = trim_space (to_lower low (uc_policy c))
          in normalize_usage_options low
               \<lparr>uo_workers = keep (uc_workers c) (uo_workers d), uo_queue = keep (uc_queue c) (uo_queue d),
                uo_timeout = (if uc_timeout_seconds c > 0 then uc_timeout_seconds c * second else uo_timeout d),
                uo_policy = (if policy = [] then uo_policy d else policy), uo_sample = keep0 (uc_sample c) (uo_sample d),
                uo_auto = uc_auto c, uo_min = keep (uc_min c) (uo_min d), uo_max = keep (uc_max c) (uo_max d),
                uo_up_percent = keep (uc_up_percent c) (uo_up_percent d),
                uo_down_percent = keep0 (uc_down_percent c) (uo_down_percent d),
                uo_up_step = keep (uc_up_step c) (uo_up_step d), uo_down_step = keep (uc_down_step c) (uo_down_step d),
                uo_interval = (if uc_interval_seconds c > 0 then uc_interval_seconds c * second else uo_interval d),
                uo_cooldown = (if uc_cooldown_seconds c \<ge> 0 then uc_cooldown_seconds c * second else uo_cooldown d)\<rparr>)"

section \<open>The pool\<close>

record usage_pool =
  up_options :: usage_options
  up_overflows :: "64 word"
  up_dropped_full :: "64 word"
  up_dropped_stopped :: "64 word"
  up_sync :: "64 word"
  up_last_scale :: int

definition new_usage_pool :: "(string \<Rightarrow> string) \<Rightarrow> usage_options \<Rightarrow> usage_pool" where
  "new_usage_pool low u =
     \<lparr>up_options = normalize_usage_options low u, up_overflows = 0, up_dropped_full = 0, up_dropped_stopped = 0,
      up_sync = 0, up_last_scale = 0\<rparr>"

datatype submit_mode = Mode_enqueued | Mode_dropped | Mode_dropped_stopped | Mode_sync

definition mode_dropped :: "submit_mode \<Rightarrow> bool" where
  "mode_dropped m \<longleftrightarrow> m = Mode_dropped \<or> m = Mode_dropped_stopped"

text \<open>What a submission sees: whether the queue is stopped before it, accepts the task, is stopped after.\<close>

record queue_view =
  qv_stopped_before :: bool
  qv_accepts :: bool
  qv_stopped_after :: bool

definition should_sync_fallback :: "usage_pool \<Rightarrow> bool \<times> usage_pool" where
  "should_sync_fallback p =
     (if uo_sample (up_options p) \<le> 0 then (False, p)
      else let n = up_overflows p + 1
           in (sint ((n - 1) mod 100) < uo_sample (up_options p), p\<lparr>up_overflows := n\<rparr>))"

text \<open>The mode, whether the submitter ran the task itself, and the pool after.\<close>

definition pool_submit :: "queue_view \<Rightarrow> usage_pool \<Rightarrow> submit_mode \<times> bool \<times> usage_pool" where
  "pool_submit v p =
     (if qv_stopped_before v then (Mode_dropped_stopped, False, p\<lparr>up_dropped_stopped := up_dropped_stopped p + 1\<rparr>)
      else if qv_accepts v then (Mode_enqueued, False, p)
      else if qv_stopped_after v then (Mode_dropped_stopped, False, p\<lparr>up_dropped_stopped := up_dropped_stopped p + 1\<rparr>)
      else if uo_policy (up_options p) = ''sync'' then (Mode_sync, True, p\<lparr>up_sync := up_sync p + 1\<rparr>)
      else
        let (again, p1) = (if uo_policy (up_options p) = ''sample'' then should_sync_fallback p else (False, p))
        in if again then (Mode_sync, True, p1\<lparr>up_sync := up_sync p1 + 1\<rparr>)
           else (Mode_dropped, False, p1\<lparr>up_dropped_full := up_dropped_full p1 + 1\<rparr>))"

section \<open>Automatic scaling\<close>

record scale_view =
  sv_stopped :: bool
  sv_queue_size :: int
  sv_current :: int
  sv_waiting :: "64 word"
  sv_running :: "64 word"

definition resize_pool :: "int \<Rightarrow> int \<Rightarrow> instant \<Rightarrow> usage_pool \<Rightarrow> int option \<times> usage_pool" where
  "resize_pool current target now p =
     (if target = current then (None, p) else (Some target, p\<lparr>up_last_scale := now\<rparr>))"

text \<open>The new number of workers, when the tick changes it.\<close>

definition auto_scale_tick :: "scale_view \<Rightarrow> instant \<Rightarrow> usage_pool \<Rightarrow> int option \<times> usage_pool" where
  "auto_scale_tick v now p =
     (let u = up_options p; current = sv_current v; waiting = sint (sv_waiting v); running = sint (sv_running v) in
      if sv_stopped v \<or> sv_queue_size v \<le> 0 \<or> current \<le> 0 \<or> waiting < 0 then (None, p)
      else
        let queue_percent = go_quot (waiting * 100) (sv_queue_size v);
            running_percent = go_quot (running * 100) current
        in if up_last_scale p > 0 \<and> now - up_last_scale p < uo_cooldown u then (None, p)
           else if queue_percent \<ge> uo_up_percent u \<and> current < uo_max u then
             (let t = current + uo_up_step u in resize_pool current (if t > uo_max u then uo_max u else t) now p)
           else if queue_percent \<le> uo_down_percent u \<and> waiting = 0 \<and> running_percent \<le> uo_down_percent u \<and>
             current > uo_min u then
             (let t = current - uo_down_step u in resize_pool current (if t < uo_min u then uo_min u else t) now p)
           else (None, p))"


section \<open>Facts\<close>

lemma policy_normal: "normal_policy low p \<in> {''drop'', ''sample'', ''sync''}"
  by (simp add: normal_policy_def Let_def)

lemma policy_fixed: "q \<in> {''drop'', ''sample'', ''sync''} \<Longrightarrow> normal_policy low q = q"
  by (auto simp: normal_policy_def to_lower_plain trim_space_graphic)

lemma go_quot_half: "0 < up \<Longrightarrow> 0 \<le> go_quot up 2 \<and> go_quot up 2 < up"
  by (simp add: go_quot_def)

definition scaling_ok :: "usage_options \<Rightarrow> bool" where
  "scaling_ok u \<longleftrightarrow> 0 < uo_min u \<and> uo_min u \<le> uo_workers u \<and> uo_workers u \<le> uo_max u \<and> 0 < uo_queue u \<and> 0 < uo_timeout u \<and>
     uo_policy u \<in> {''drop'', ''sample'', ''sync''} \<and> 0 \<le> uo_sample u \<and> uo_sample u \<le> 100 \<and>
     (uo_policy u = ''sample'' \<longrightarrow> 0 < uo_sample u) \<and>
     (uo_auto u \<longrightarrow> 0 < uo_up_percent u \<and> uo_up_percent u \<le> 100 \<and> 0 \<le> uo_down_percent u \<and>
        uo_down_percent u < uo_up_percent u \<and> 0 < uo_up_step u \<and> 0 < uo_down_step u \<and> 0 < uo_interval u \<and>
        0 \<le> uo_cooldown u)"

lemma or_default_pos: "0 < d \<Longrightarrow> 0 < or_default v d"
  by (simp add: or_default_def)

lemma or_default_id: "0 < v \<Longrightarrow> or_default v d = v"
  by (simp add: or_default_def)

lemma normal_sample_range:
  "0 \<le> normal_sample p n" "normal_sample p n \<le> 100" "p = ''sample'' \<Longrightarrow> 0 < normal_sample p n"
  by (simp_all add: normal_sample_def Let_def)

definition base_ok :: "usage_options \<Rightarrow> bool" where
  "base_ok u \<longleftrightarrow> 0 < uo_queue u \<and> 0 < uo_timeout u \<and> uo_policy u \<in> {''drop'', ''sample'', ''sync''} \<and>
     0 \<le> uo_sample u \<and> uo_sample u \<le> 100 \<and> (uo_policy u = ''sample'' \<longrightarrow> 0 < uo_sample u)"

definition percents_ok :: "usage_options \<Rightarrow> bool" where
  "percents_ok u \<longleftrightarrow> 0 < uo_up_percent u \<and> uo_up_percent u \<le> 100 \<and> 0 \<le> uo_down_percent u \<and>
     uo_down_percent u < uo_up_percent u"

definition steps_ok_options :: "usage_options \<Rightarrow> bool" where
  "steps_ok_options u \<longleftrightarrow> 0 < uo_up_step u \<and> 0 < uo_down_step u \<and> 0 < uo_interval u \<and> 0 \<le> uo_cooldown u"

definition workers_ok :: "usage_options \<Rightarrow> bool" where
  "workers_ok u \<longleftrightarrow> 0 < uo_min u \<and> uo_min u \<le> uo_workers u \<and> uo_workers u \<le> uo_max u"

lemma scaling_ok_split:
  "scaling_ok u \<longleftrightarrow> workers_ok u \<and> base_ok u \<and> (uo_auto u \<longrightarrow> percents_ok u \<and> steps_ok_options u)"
  by (simp add: scaling_ok_def workers_ok_def base_ok_def percents_ok_def steps_ok_options_def)

lemma scaling_workers: "workers_ok (normal_scaling u)"
proof -
  have "0 < or_default (uo_min u) 128" by (rule or_default_pos) simp
  then show ?thesis by (simp add: workers_ok_def normal_scaling_def Let_def)
qed

lemma scaling_percents: "percents_ok (normal_scaling u)"
proof -
  define up where "up = (if uo_up_percent u \<le> 0 \<or> uo_up_percent u > 100 then 70 else uo_up_percent u)"
  have "0 < up" "up \<le> 100" by (simp_all add: up_def)
  with go_quot_half [of up] have "percents_ok (normal_scaling u)"
    unfolding percents_ok_def normal_scaling_def Let_def up_def [symmetric]
    by (simp add: max_def)
  then show ?thesis .
qed

lemma scaling_steps: "steps_ok_options (normal_scaling u)"
  by (simp add: steps_ok_options_def normal_scaling_def Let_def or_default_pos time_defs)

lemma scaling_base: "base_ok (normal_scaling u) = base_ok u"
  by (simp add: base_ok_def normal_scaling_def Let_def)

lemma normalized_ok: "scaling_ok (normalize_usage_options low u)"
proof -
  let ?p = "normal_policy low (uo_policy u)"
  let ?u = "u\<lparr>uo_workers := or_default (uo_workers u) 128, uo_queue := or_default (uo_queue u) 16384,
      uo_timeout := or_default (uo_timeout u) (5 * second), uo_policy := ?p, uo_sample := normal_sample ?p (uo_sample u)\<rparr>"
  have b: "base_ok ?u"
    using policy_normal [of low "uo_policy u"] normal_sample_range [of ?p "uo_sample u"]
    by (simp add: base_ok_def or_default_pos time_defs)
  then have "base_ok (?u\<lparr>uo_min := uo_workers ?u, uo_max := uo_workers ?u\<rparr>)" by (simp add: base_ok_def)
  moreover have "workers_ok (?u\<lparr>uo_min := uo_workers ?u, uo_max := uo_workers ?u\<rparr>)"
    using or_default_pos [of 128 "uo_workers u"] by (simp add: workers_ok_def)
  moreover have "uo_auto (normal_scaling ?u) = uo_auto u" by (simp add: normal_scaling_def Let_def)
  ultimately show ?thesis
    using b by (simp add: normalize_usage_options_def Let_def scaling_ok_split scaling_workers scaling_percents scaling_steps
        scaling_base)
qed

lemma normal_sample_fixed:
  "0 \<le> n \<Longrightarrow> n \<le> 100 \<Longrightarrow> (p = ''sample'' \<Longrightarrow> 0 < n) \<Longrightarrow> normal_sample p n = n"
  by (auto simp: normal_sample_def Let_def)

lemma scaling_fixed: "workers_ok u \<Longrightarrow> percents_ok u \<Longrightarrow> steps_ok_options u \<Longrightarrow> normal_scaling u = u"
  by (cases u) (simp add: workers_ok_def percents_ok_def steps_ok_options_def normal_scaling_def Let_def or_default_id)

lemma normal_fixed:
  assumes "scaling_ok u" "\<not> uo_auto u \<longrightarrow> uo_min u = uo_workers u \<and> uo_max u = uo_workers u"
  shows "normalize_usage_options low u = u"
proof -
  have ok: "workers_ok u" "base_ok u" "uo_auto u \<longrightarrow> percents_ok u \<and> steps_ok_options u"
    using assms(1) by (simp_all add: scaling_ok_split)
  have "u\<lparr>uo_workers := or_default (uo_workers u) 128, uo_queue := or_default (uo_queue u) 16384,
      uo_timeout := or_default (uo_timeout u) (5 * second), uo_policy := normal_policy low (uo_policy u),
      uo_sample := normal_sample (normal_policy low (uo_policy u)) (uo_sample u)\<rparr> = u"
    using ok(1,2) policy_fixed [of "uo_policy u" low]
    by (cases u) (simp add: workers_ok_def base_ok_def or_default_id normal_sample_fixed)
  moreover have "\<not> uo_auto u \<Longrightarrow> u\<lparr>uo_min := uo_workers u, uo_max := uo_workers u\<rparr> = u"
    using assms(2) by (cases u) simp
  ultimately show ?thesis using ok by (simp add: normalize_usage_options_def Let_def scaling_fixed)
qed

lemma normalize_idem:
  "normalize_usage_options low (normalize_usage_options low u) = normalize_usage_options low u"
proof (rule normal_fixed [OF normalized_ok])
  show "\<not> uo_auto (normalize_usage_options low u) \<longrightarrow>
    uo_min (normalize_usage_options low u) = uo_workers (normalize_usage_options low u) \<and>
    uo_max (normalize_usage_options low u) = uo_workers (normalize_usage_options low u)"
    by (simp add: normalize_usage_options_def normal_scaling_def Let_def)
qed

text \<open>The automatic scaling stays within its limits. Whatever options are configured, a tick that
  changes the number of workers moves it towards the load only, by at most one step, keeps it
  between the normalised minimum and maximum, and comes no sooner than the cooldown after the last
  change.\<close>

theorem auto_scale_within_limits:
  assumes "up_options p = normalize_usage_options low u" "uo_auto (up_options p)"
    and "uo_min (up_options p) \<le> sv_current v" "sv_current v \<le> uo_max (up_options p)"
    and "auto_scale_tick v now p = (Some target, p')"
  shows "uo_min (up_options p) \<le> target \<and> target \<le> uo_max (up_options p) \<and>
    (sv_current v < target \<and> target \<le> sv_current v + uo_up_step (up_options p) \<or>
     target < sv_current v \<and> sv_current v - uo_down_step (up_options p) \<le> target \<and> sv_waiting v = 0) \<and>
    (up_last_scale p \<le> 0 \<or> up_last_scale p + uo_cooldown (up_options p) \<le> now) \<and>
    up_last_scale p' = now \<and> up_options p' = up_options p"
proof -
  have "0 < uo_up_step (up_options p)" "0 < uo_down_step (up_options p)"
    using normalized_ok [of low u] assms(1,2) by (simp_all add: scaling_ok_def)
  moreover have "sint (sv_waiting v) = 0 \<longleftrightarrow> sv_waiting v = 0" using signed_word_eqI [of "sv_waiting v" 0] by auto
  ultimately show ?thesis
    using assms(3-5) unfolding auto_scale_tick_def resize_pool_def Let_def
    by (simp split: if_splits) (auto simp: not_less)
qed

theorem auto_scale_within_limits_witness:
  "fst (auto_scale_tick \<lparr>sv_stopped = False, sv_queue_size = 10, sv_current = 500, sv_waiting = 9, sv_running = 500\<rparr>
      1000 (new_usage_pool id default_usage_options)) = Some 512 \<and> 512 \<le> uo_max (normalize_usage_options id default_usage_options)"
proof -
  let ?p = "new_usage_pool id default_usage_options"
  let ?v = "\<lparr>sv_stopped = False, sv_queue_size = 10, sv_current = 500, sv_waiting = 9, sv_running = 500\<rparr>"
  have opts: "up_options ?p = default_usage_options" by code_simp
  have n: "normalize_usage_options id default_usage_options = default_usage_options" by code_simp
  have t: "auto_scale_tick ?v 1000 ?p = (Some 512, ?p\<lparr>up_last_scale := 1000\<rparr>)"
    by (simp add: auto_scale_tick_def opts resize_pool_def Let_def go_quot_def)
       (simp add: new_usage_pool_def default_usage_options_def)
  have "512 \<le> uo_max (up_options ?p)"
    using auto_scale_within_limits [of ?p id default_usage_options ?v 1000 512, OF _ _ _ _ t]
    by (simp add: opts n) (simp add: default_usage_options_def)
  with t show ?thesis by (simp add: opts n)
qed

end
