(* ===== verification/InflightReservation.thy ===== *)
theory InflightReservation
  imports InflightCache UsageRecordPool StreamTransducer
begin

text \<open>
  The life of a reservation (\<^verbatim>\<open>internal/service/billing_inflight_reservation.go\<close>): its making for a
  request, the counted references of the handler and of the billing tasks, and its release, together
  with the submission of billing tasks by the handlers
  (\<^verbatim>\<open>internal/handler/openai_gateway_handler.go\<close>, \<^verbatim>\<open>gateway_handler.go\<close>) to the pool that runs
  them. Threads interleave at the atomic operations of the code.
\<close>

section \<open>Making a reservation\<close>

record 'm inflight_config =
  ic_enabled :: bool
  ic_ttl_seconds :: int
  ic_default_max_tokens :: int
  ic_max_output_tokens :: int
  ic_max_input_tokens :: int
  ic_max_usd :: 'm
  ic_fail_closed :: bool

text \<open>What the service reads of its configuration and of the abilities of its cache; \<open>bs_finite\<close>
  says that an amount is neither infinite nor not a number.\<close>

record 'm billing_service =
  bs_config :: "'m inflight_config option"
  bs_simple_mode :: bool
  bs_balance_cache :: bool
  bs_scope_cache :: bool
  bs_renewer :: bool
  bs_finite :: "'m \<Rightarrow> bool"

definition inflight_reservation_config :: "'m billing_service \<Rightarrow> 'm inflight_config option" where
  "inflight_reservation_config s =
     (case bs_config s of
        None \<Rightarrow> None
      | Some cfg \<Rightarrow> if \<not> ic_enabled cfg \<or> bs_simple_mode s then None else Some cfg)"

definition inflight_enabled :: "'m billing_service \<Rightarrow> bool" where
  "inflight_enabled s \<longleftrightarrow> inflight_reservation_config s \<noteq> None"

definition inflight_fail_closed :: "'m billing_service \<Rightarrow> bool" where
  "inflight_fail_closed s \<longleftrightarrow> (case inflight_reservation_config s of None \<Rightarrow> False | Some cfg \<Rightarrow> ic_fail_closed cfg)"

record 'm reservation =
  rv_on_balance :: bool
  rv_user :: int
  rv_rid :: string
  rv_amount :: 'm
  rv_ttl :: duration
  rv_scopes :: "string list"
  rv_refs :: int
  rv_renewing :: bool

definition reservation_ttl :: "'m inflight_config \<Rightarrow> duration" where
  "reservation_ttl cfg = (if ic_ttl_seconds cfg > 0 then ic_ttl_seconds cfg * second else 15 * minute)"

definition subscription_scope :: "int \<Rightarrow> string" where
  "subscription_scope i = ''sub:'' @ itoa i"

definition api_key_scope :: "int \<Rightarrow> string" where
  "api_key_scope i = ''apikey:'' @ itoa i"

datatype reserve_error = Insufficient_balance

definition cap_estimate :: "'m inflight_config \<Rightarrow> bool \<Rightarrow> 'm::{zero,ord} \<Rightarrow> 'm" where
  "cap_estimate cfg capped estimate =
     (if capped \<and> ic_max_usd cfg > 0 \<and> estimate > ic_max_usd cfg then ic_max_usd cfg else estimate)"

text \<open>\<open>user\<close> is the user's identifier, \<open>subscribed\<close> that a subscription pays, \<open>balance\<close> the
  balance read, \<open>rid\<close> the fresh identifier.\<close>

definition reserve_inflight ::
  "'m::{plus,minus,zero,ord} billing_service \<Rightarrow> net \<Rightarrow> int \<Rightarrow> int \<Rightarrow> string \<Rightarrow> int option \<Rightarrow> bool \<Rightarrow> 'm \<Rightarrow> bool \<Rightarrow> bool \<Rightarrow>
   'm option \<Rightarrow> 'm flight_store \<Rightarrow> (reserve_error + 'm reservation option) \<times> 'm flight_store" where
  "reserve_inflight s net clk now rid user subscribed estimate0 renew capped balance st =
     (case (inflight_reservation_config s, user) of
        (Some cfg, Some uid) \<Rightarrow>
          let estimate = cap_estimate cfg capped estimate0 in
          if subscribed \<or> estimate \<le> 0 \<or> \<not> bs_finite s estimate \<or> \<not> bs_balance_cache s then (Inr None, st)
          else (case balance of
              None \<Rightarrow> (Inr None, st)
            | Some bal \<Rightarrow>
                (case cache_reserve_balance net clk now uid rid estimate bal (reservation_ttl cfg) st of
                   (None, st1) \<Rightarrow> (Inr None, st1)
                 | (Some (allowed, tot), st1) \<Rightarrow>
                     if \<not> allowed then (Inl Insufficient_balance, st1)
                     else (Inr (Some \<lparr>rv_on_balance = True, rv_user = uid, rv_rid = rid, rv_amount = estimate,
                             rv_ttl = reservation_ttl cfg, rv_scopes = [], rv_refs = 1,
                             rv_renewing = (renew \<and> bs_renewer s)\<rparr>), st1)))
      | _ \<Rightarrow> (Inr None, st))"

definition reserve_inflight_scope ::
  "'m::{plus,minus,zero,ord} billing_service \<Rightarrow> net \<Rightarrow> int \<Rightarrow> int \<Rightarrow> string \<Rightarrow> 'm reservation option \<Rightarrow> int \<Rightarrow> string \<Rightarrow> 'm \<Rightarrow>
   'm flight_store \<Rightarrow> ('m reservation option \<times> 'm) \<times> 'm flight_store" where
  "reserve_inflight_scope s net clk now rid res uid scope amount st =
     (case inflight_reservation_config s of
        None \<Rightarrow> ((res, 0), st)
      | Some cfg \<Rightarrow>
          if \<not> bs_scope_cache s then ((res, 0), st)
          else
            let r = (case res of Some r \<Rightarrow> r
                  | None \<Rightarrow> \<lparr>rv_on_balance = False, rv_user = uid, rv_rid = rid, rv_amount = amount,
                      rv_ttl = reservation_ttl cfg, rv_scopes = [], rv_refs = 1, rv_renewing = False\<rparr>)
            in (case cache_reserve_scope net clk now scope (rv_rid r) amount (rv_ttl r) st of
                  (None, st1) \<Rightarrow> ((Some r, 0), st1)
                | (Some pending, st1) \<Rightarrow> ((Some (r\<lparr>rv_scopes := rv_scopes r @ [scope]\<rparr>), pending), st1)))"

definition token_counts :: "'m inflight_config \<Rightarrow> int \<Rightarrow> int \<Rightarrow> int \<times> int" where
  "token_counts cfg body_bytes max_tokens =
     (let i0 = (if body_bytes > 0 then go_quot body_bytes 4 else 0);
          i = (if ic_max_input_tokens cfg > 0 \<and> i0 > ic_max_input_tokens cfg then ic_max_input_tokens cfg else i0);
          o0 = (if max_tokens \<le> 0 then (if ic_default_max_tokens cfg \<le> 0 then 8192 else ic_default_max_tokens cfg) else max_tokens);
          ou = (if ic_max_output_tokens cfg > 0 \<and> o0 > ic_max_output_tokens cfg then ic_max_output_tokens cfg else o0)
      in (i, ou))"

section \<open>Releasing it\<close>

text \<open>What the release does at the cache; \<open>net\<close> says what happens to the call for each key.\<close>

fun release_scopes :: "(string \<Rightarrow> net) \<Rightarrow> int \<Rightarrow> string \<Rightarrow> string list \<Rightarrow> 'm flight_store \<Rightarrow> 'm flight_store" where
  "release_scopes net clk rid [] st = st"
| "release_scopes net clk rid (scope # scopes) st =
     release_scopes net clk rid scopes (snd (cache_release_scope (net scope) clk scope rid st))"

definition release_effects :: "net \<Rightarrow> (string \<Rightarrow> net) \<Rightarrow> int \<Rightarrow> 'm reservation \<Rightarrow> 'm flight_store \<Rightarrow> 'm flight_store" where
  "release_effects net scope_net clk r st =
     (let st1 = (if rv_on_balance r then snd (cache_release_balance net clk (rv_user r) (rv_rid r) st) else st)
      in release_scopes scope_net clk (rv_rid r) (rv_scopes r) st1)"

section \<open>Billing tasks\<close>

text \<open>A task is in the queue, run by its submitter, or refused; then it has run or was dropped. \<open>bt_ref\<close>
  says that it holds a reference not yet returned.\<close>

datatype task_state = Waiting | Inline | Refused | Ran | Dropped_task

record bill_task =
  bt_mandatory :: bool
  bt_state :: task_state
  bt_ref :: bool

definition settled :: "bill_task \<Rightarrow> bool" where
  "settled t \<longleftrightarrow> bt_state t = Ran \<or> bt_state t = Dropped_task"

record 'm bill_run =
  br_res :: "'m reservation"
  br_handler_done :: bool
  br_releasing :: nat
  br_released :: bool
  br_release_calls :: nat
  br_tasks :: "bill_task list"
  br_pool :: "usage_pool option"
  br_store :: "'m flight_store"

definition acquire_ref :: "'m reservation \<Rightarrow> bool \<times> 'm reservation" where
  "acquire_ref r = (if rv_refs r \<le> 0 then (False, r) else (True, r\<lparr>rv_refs := rv_refs r + 1\<rparr>))"

text \<open>The decrement; a thread that sees no reference left goes on to release.\<close>

definition dec_ref :: "'m bill_run \<Rightarrow> 'm bill_run" where
  "dec_ref b =
     (let r = (br_res b)\<lparr>rv_refs := rv_refs (br_res b) - 1\<rparr>
      in b\<lparr>br_res := r, br_releasing := (if rv_refs r \<le> 0 then br_releasing b + 1 else br_releasing b)\<rparr>)"

definition do_release :: "net \<Rightarrow> (string \<Rightarrow> net) \<Rightarrow> int \<Rightarrow> 'm bill_run \<Rightarrow> 'm bill_run" where
  "do_release net scope_net clk b =
     (let r = (br_res b)\<lparr>rv_renewing := False\<rparr> in
      if br_released b then b\<lparr>br_res := r\<rparr>
      else b\<lparr>br_res := r\<lparr>rv_refs := 0\<rparr>, br_released := True, br_release_calls := br_release_calls b + 1,
             br_store := release_effects net scope_net clk r (br_store b)\<rparr>)"

definition handler_done :: "'m bill_run \<Rightarrow> 'm bill_run" where
  "handler_done b =
     (if br_handler_done b then b
      else dec_ref (b\<lparr>br_handler_done := True, br_res := (br_res b)\<lparr>rv_renewing := False\<rparr>\<rparr>))"

text \<open>What the submission of a task comes to: the pool may be missing.\<close>

definition submit_state :: "bool \<Rightarrow> queue_view \<Rightarrow> usage_pool option \<Rightarrow> task_state \<times> usage_pool option" where
  "submit_state mandatory v pool =
     (case pool of
        None \<Rightarrow> (Inline, None)
      | Some p \<Rightarrow>
          let (mode, inline, p1) = pool_submit v p in
          (if inline then Inline
           else if mode = Mode_enqueued then Waiting
           else if mandatory \<or> mode = Mode_dropped_stopped then Inline else Refused, Some p1))"

definition submit_task :: "bool \<Rightarrow> queue_view \<Rightarrow> 'm bill_run \<Rightarrow> 'm bill_run" where
  "submit_task mandatory v b =
     (let (acquired, r) = acquire_ref (br_res b); (state, pool) = submit_state mandatory v (br_pool b)
      in b\<lparr>br_res := r, br_pool := pool,
           br_tasks := br_tasks b @ [\<lparr>bt_mandatory = mandatory, bt_state = state, bt_ref = acquired\<rparr>]\<rparr>)"

text \<open>A task ends, by running or by being abandoned, and gives its reference back.\<close>

definition settle_task :: "nat \<Rightarrow> 'm bill_run \<Rightarrow> 'm bill_run" where
  "settle_task i b =
     (let t = br_tasks b ! i;
          b1 = b\<lparr>br_tasks := (br_tasks b)[i := t\<lparr>bt_state := (if bt_state t = Refused then Dropped_task else Ran),
                    bt_ref := False\<rparr>]\<rparr>
      in if bt_ref t then dec_ref b1 else b1)"

datatype bill_action =
  Submit bool queue_view | Settle nat | Handler_returns | Release_step net "string \<Rightarrow> net" int | Renew_tick net int int

fun bill_step :: "'m bill_run \<Rightarrow> bill_action \<Rightarrow> 'm bill_run option" where
  "bill_step b (Submit mandatory v) = Some (submit_task mandatory v b)"
| "bill_step b (Settle i) =
     (if i < length (br_tasks b) \<and> \<not> settled (br_tasks b ! i) then Some (settle_task i b) else None)"
| "bill_step b Handler_returns = (if br_handler_done b then None else Some (handler_done b))"
| "bill_step b (Release_step net scope_net clk) =
     (if br_releasing b = 0 then None
      else Some (do_release net scope_net clk (b\<lparr>br_releasing := br_releasing b - 1\<rparr>)))"
| "bill_step b (Renew_tick net clk now) =
     (let r = br_res b in
      if \<not> rv_renewing r then None
      else (case cache_renew_balance net clk now (rv_user r) (rv_rid r) (rv_ttl r) (br_store b) of
          (None, st) \<Rightarrow> Some (b\<lparr>br_store := st\<rparr>)
        | (Some alive, st) \<Rightarrow> Some (b\<lparr>br_store := st, br_res := r\<lparr>rv_renewing := alive\<rparr>\<rparr>)))"

definition start_run :: "'m reservation \<Rightarrow> usage_pool option \<Rightarrow> 'm flight_store \<Rightarrow> 'm bill_run" where
  "start_run r pool st =
     \<lparr>br_res = r, br_handler_done = False, br_releasing = 0, br_released = False, br_release_calls = 0, br_tasks = [],
      br_pool = pool, br_store = st\<rparr>"


section \<open>What every run keeps\<close>

definition held :: "bill_task list \<Rightarrow> nat" where
  "held ts = length (filter bt_ref ts)"

definition owed :: "'m bill_run \<Rightarrow> int" where
  "owed b = (if br_handler_done b then 0 else 1) + int (held (br_tasks b))"

definition run_ok :: "'m bill_run \<Rightarrow> bool" where
  "run_ok b \<longleftrightarrow> rv_refs (br_res b) = owed b \<and>
     br_releasing b + br_release_calls b = (if owed b = 0 then 1 else 0) \<and>
     (br_released b \<longleftrightarrow> br_release_calls b = 1) \<and> list_all (\<lambda>t. settled t \<longrightarrow> \<not> bt_ref t) (br_tasks b)"

lemma held_simps [simp]:
  "held [] = 0" "held (t # ts) = (if bt_ref t then Suc (held ts) else held ts)" "held (ts @ us) = held ts + held us"
  by (simp_all add: held_def)

lemma held_update:
  "i < length ts \<Longrightarrow> bt_ref (ts ! i) \<Longrightarrow> \<not> bt_ref t \<Longrightarrow> Suc (held (ts[i := t])) = held ts"
proof (induction ts arbitrary: i)
  case (Cons u ts)
  then show ?case by (cases i) auto
qed simp

lemma held_same: "i < length ts \<Longrightarrow> bt_ref (ts ! i) = bt_ref t \<Longrightarrow> held (ts[i := t]) = held ts"
proof (induction ts arbitrary: i)
  case (Cons u ts)
  then show ?case by (cases i) auto
qed simp

lemma run_ok_start: "rv_refs r = 1 \<Longrightarrow> run_ok (start_run r pool st)"
  by (simp add: run_ok_def start_run_def owed_def)

lemma run_ok_submit: "run_ok b \<Longrightarrow> run_ok (submit_task mandatory v b)"
  by (auto simp: run_ok_def submit_task_def acquire_ref_def owed_def settled_def submit_state_def Let_def
      split: prod.split option.split)

lemma owed_nonneg: "0 \<le> owed b"
  by (simp add: owed_def)

lemma run_ok_dec:
  assumes "rv_refs (br_res b) = owed b + 1" "br_releasing b = 0" "br_release_calls b = 0" "\<not> br_released b"
    and "list_all (\<lambda>t. settled t \<longrightarrow> \<not> bt_ref t) (br_tasks b)"
  shows "run_ok (dec_ref b)"
proof -
  have "owed (dec_ref b) = owed b" by (simp add: owed_def dec_ref_def Let_def)
  with assms owed_nonneg [of b] show ?thesis by (auto simp: run_ok_def) (simp_all add: dec_ref_def Let_def)
qed

lemma run_ok_handler: "run_ok b \<Longrightarrow> \<not> br_handler_done b \<Longrightarrow> run_ok (handler_done b)"
  unfolding handler_done_def by (simp, rule run_ok_dec) (auto simp: run_ok_def owed_def split: if_splits)

lemma list_all_update: "list_all P xs \<Longrightarrow> P x \<Longrightarrow> list_all P (xs[i := x])"
  by (metis list_all_length length_list_update nth_list_update nth_list_update_neq)

lemma run_ok_settle:
  assumes "run_ok b" "i < length (br_tasks b)" "\<not> settled (br_tasks b ! i)"
  shows "run_ok (settle_task i b)"
proof -
  let ?t = "br_tasks b ! i"
  let ?u = "?t\<lparr>bt_state := (if bt_state ?t = Refused then Dropped_task else Ran), bt_ref := False\<rparr>"
  have all: "list_all (\<lambda>t. settled t \<longrightarrow> \<not> bt_ref t) ((br_tasks b)[i := ?u])"
    using assms(1) by (intro list_all_update) (simp_all add: run_ok_def)
  show ?thesis
  proof (cases "bt_ref ?t")
    case True
    have "Suc (held ((br_tasks b)[i := ?u])) = held (br_tasks b)" using assms(2) True by (intro held_update) simp_all
    with assms(1) all have "run_ok (dec_ref (b\<lparr>br_tasks := (br_tasks b)[i := ?u]\<rparr>))"
      by (intro run_ok_dec) (auto simp: run_ok_def owed_def split: if_splits)
    with True show ?thesis by (simp add: settle_task_def Let_def)
  next
    case False
    have "held ((br_tasks b)[i := ?u]) = held (br_tasks b)" using assms(2) False by (intro held_same) simp_all
    with assms(1) all False show ?thesis by (simp add: run_ok_def settle_task_def owed_def Let_def)
  qed
qed

lemma run_ok_release:
  assumes "run_ok b" "br_releasing b \<noteq> 0"
  shows "run_ok (do_release net scope_net clk (b\<lparr>br_releasing := br_releasing b - 1\<rparr>))"
  using assms by (auto simp: run_ok_def do_release_def owed_def Let_def split: if_splits)

lemma run_ok_renew:
  "run_ok b \<Longrightarrow> bill_step b (Renew_tick net clk now) = Some b' \<Longrightarrow> run_ok b'"
  by (auto simp: run_ok_def owed_def Let_def split: if_splits prod.splits option.splits)

lemma run_ok_step: "run_ok b \<Longrightarrow> bill_step b a = Some b' \<Longrightarrow> run_ok b'"
proof (cases a)
  case (Renew_tick net clk now)
  then show "run_ok b \<Longrightarrow> bill_step b a = Some b' \<Longrightarrow> run_ok b'" using run_ok_renew by blast
qed (auto simp: run_ok_submit run_ok_handler run_ok_settle run_ok_release [simplified] split: if_splits)

lemma run_ok_run: "run_ok b \<Longrightarrow> run_protocol bill_step b acts = Some b' \<Longrightarrow> run_ok b'"
proof (induction acts arbitrary: b)
  case (Cons a acts)
  then show ?case by (auto split: option.splits intro: run_ok_step)
qed simp

section \<open>The end of a run\<close>

fun finishing :: "bill_action \<Rightarrow> bool" where
  "finishing (Settle i) = True"
| "finishing Handler_returns = True"
| "finishing (Release_step net scope_net clk) = True"
| "finishing _ = False"

definition bill_quiet :: "'m bill_run \<Rightarrow> bool" where
  "bill_quiet b \<longleftrightarrow> br_handler_done b \<and> br_releasing b = 0 \<and> list_all settled (br_tasks b)"

definition open_tasks :: "bill_task list \<Rightarrow> nat" where
  "open_tasks ts = length (filter (\<lambda>t. \<not> settled t) ts)"

definition bill_left :: "'m bill_run \<Rightarrow> nat" where
  "bill_left b = 2 * open_tasks (br_tasks b) + (if br_handler_done b then 0 else 2) + br_releasing b"

lemma open_tasks_update:
  "i < length ts \<Longrightarrow> \<not> settled (ts ! i) \<Longrightarrow> settled t \<Longrightarrow> Suc (open_tasks (ts[i := t])) = open_tasks ts"
proof (induction ts arbitrary: i)
  case (Cons u ts)
  then show ?case by (cases i) (auto simp: open_tasks_def)
qed simp

lemma dec_ref_fields [simp]:
  "br_tasks (dec_ref b) = br_tasks b" "br_handler_done (dec_ref b) = br_handler_done b"
  "br_releasing (dec_ref b) \<le> Suc (br_releasing b)" "br_pool (dec_ref b) = br_pool b"
  by (simp_all add: dec_ref_def Let_def)

lemma finishing_decreases:
  assumes "finishing a" "bill_step b a = Some b'"
  shows "Suc (bill_left b') \<le> bill_left b"
proof (cases a)
  case (Settle i)
  let ?t = "br_tasks b ! i"
  let ?u = "?t\<lparr>bt_state := (if bt_state ?t = Refused then Dropped_task else Ran), bt_ref := False\<rparr>"
  let ?b = "b\<lparr>br_tasks := (br_tasks b)[i := ?u]\<rparr>"
  have i: "i < length (br_tasks b)" "\<not> settled ?t" "b' = settle_task i b" using Settle assms(2) by (simp_all split: if_splits)
  have "Suc (open_tasks ((br_tasks b)[i := ?u])) = open_tasks (br_tasks b)"
    using i(1,2) by (intro open_tasks_update) (simp_all add: settled_def)
  moreover have "b' = (if bt_ref ?t then dec_ref ?b else ?b)" by (simp add: i(3) settle_task_def Let_def)
  moreover have "br_releasing (dec_ref ?b) \<le> Suc (br_releasing ?b)" by (rule dec_ref_fields)
  ultimately show ?thesis by (auto simp: bill_left_def)
next
  case Handler_returns
  let ?b = "b\<lparr>br_handler_done := True, br_res := (br_res b)\<lparr>rv_renewing := False\<rparr>\<rparr>"
  have "br_releasing (dec_ref ?b) \<le> Suc (br_releasing ?b)" by (rule dec_ref_fields)
  then show ?thesis using assms(2) Handler_returns
    by (auto simp: bill_left_def handler_done_def simp del: dec_ref_fields(3) split: if_splits)
next
  case (Release_step net scope_net clk)
  then show ?thesis using assms(2) by (auto simp: bill_left_def do_release_def Let_def split: if_splits)
qed (use assms in simp_all)

lemma finishing_bounded:
  "list_all finishing acts \<Longrightarrow> run_protocol bill_step b acts = Some b' \<Longrightarrow> length acts + bill_left b' \<le> bill_left b"
proof (induction acts arbitrary: b)
  case (Cons a acts)
  obtain b1 where "bill_step b a = Some b1" "run_protocol bill_step b1 acts = Some b'"
    using Cons.prems(2) by (auto split: option.splits)
  with Cons.IH [of b1] finishing_decreases [of a b b1] Cons.prems(1) show ?case by simp
qed simp

lemma not_quiet_goes_on:
  assumes "\<not> bill_quiet b"
  shows "\<exists>a. finishing a \<and> bill_step b a \<noteq> None"
proof -
  consider "\<not> br_handler_done b" | "br_releasing b \<noteq> 0" | i where "i < length (br_tasks b)" "\<not> settled (br_tasks b ! i)"
    using assms by (auto simp: bill_quiet_def list_all_length)
  then show ?thesis
  proof cases
    case 1
    then have "finishing Handler_returns \<and> bill_step b Handler_returns \<noteq> None" by simp
    then show ?thesis by blast
  next
    case 2
    then have "finishing (Release_step Net_ok (\<lambda>_. Net_ok) 0) \<and> bill_step b (Release_step Net_ok (\<lambda>_. Net_ok) 0) \<noteq> None" by simp
    then show ?thesis by blast
  next
    case 3
    then have "finishing (Settle i) \<and> bill_step b (Settle i) \<noteq> None" by simp
    then show ?thesis by blast
  qed
qed

lemma quiet_released:
  assumes "run_ok b" "bill_quiet b"
  shows "br_released b \<and> br_release_calls b = 1 \<and> rv_refs (br_res b) = 0"
proof -
  have "list_all (\<lambda>t. \<not> bt_ref t) (br_tasks b)" using assms by (simp add: run_ok_def bill_quiet_def list_all_iff)
  then have "held (br_tasks b) = 0" by (simp add: held_def list_all_iff)
  with assms show ?thesis by (simp add: run_ok_def owed_def bill_quiet_def)
qed

text \<open>C29: A reservation is always given back, and once only. From any state a run of a request can
  reach, whatever tasks have been submitted, refused or run inline and however the threads
  interleave: the threads that still have something to finish can always go on, they need at most
  \<open>bill_left\<close> steps, and when none is left the reservation has been released exactly once.\<close>

theorem reservation_released_once:
  assumes "rv_refs r = 1" "run_protocol bill_step (start_run r pool st) acts = Some b"
    and "list_all finishing rest" "run_protocol bill_step b rest = Some b'"
  shows "length rest \<le> bill_left b \<and>
    (bill_quiet b' \<and> br_released b' \<and> br_release_calls b' = 1 \<or>
     \<not> bill_quiet b' \<and> (\<exists>a. finishing a \<and> bill_step b' a \<noteq> None))"
proof -
  have "run_ok b'" using run_ok_run [OF run_ok_run [OF run_ok_start [OF assms(1)] assms(2)] assms(4)] .
  with finishing_bounded [OF assms(3,4)] not_quiet_goes_on [of b'] quiet_released [of b'] show ?thesis by auto
qed

text \<open>A reservation is not given back early: while the handler has not returned, or a billing task
  that took over a reference has neither run nor been dropped, no release has reached the cache and no
  thread is about to release.\<close>

theorem no_early_release:
  assumes "rv_refs r = 1" "run_protocol bill_step (start_run r pool st) acts = Some b"
    and "\<not> br_handler_done b \<or> list_ex bt_ref (br_tasks b)"
  shows "br_release_calls b = 0 \<and> br_releasing b = 0 \<and> \<not> br_released b \<and> 0 < rv_refs (br_res b)"
proof -
  have ok: "run_ok b" by (rule run_ok_run [OF run_ok_start [OF assms(1)] assms(2)])
  have "0 < held (br_tasks b)" if "list_ex bt_ref (br_tasks b)"
    using that by (induction "br_tasks b") (auto simp: held_def list_ex_iff filter_empty_conv)
  then have "0 < owed b" using assms(3) by (auto simp: owed_def)
  with ok show ?thesis by (simp add: run_ok_def)
qed


section \<open>No bill is lost\<close>

text \<open>No task may be refused: the pool is missing or runs overflowing tasks in the submitter.\<close>

definition never_drops :: "usage_pool option \<Rightarrow> bool" where
  "never_drops pool \<longleftrightarrow> (case pool of None \<Rightarrow> True | Some p \<Rightarrow> uo_policy (up_options p) = ''sync'')"

definition kept :: "bool \<Rightarrow> bill_task \<Rightarrow> bool" where
  "kept safe t \<longleftrightarrow> (bt_mandatory t \<or> safe \<longrightarrow> bt_state t \<noteq> Refused \<and> bt_state t \<noteq> Dropped_task)"

lemma submit_options:
  "pool_submit v p = (mode, inline, p') \<Longrightarrow> up_options p' = up_options p"
  by (auto simp: pool_submit_def should_sync_fallback_def Let_def split: if_splits prod.splits)

lemma submit_sync:
  "pool_submit v p = (mode, inline, p') \<Longrightarrow> uo_policy (up_options p) = ''sync'' \<Longrightarrow>
   mode = Mode_dropped_stopped \<or> mode = Mode_enqueued \<or> inline"
  by (auto simp: pool_submit_def split: if_splits)

lemma submit_state_kept:
  assumes "submit_state mandatory v pool = (state, pool')"
  shows "never_drops pool' = never_drops pool" "kept (never_drops pool) \<lparr>bt_mandatory = mandatory, bt_state = state, bt_ref = a\<rparr>"
proof -
  show "never_drops pool' = never_drops pool"
    using assms by (auto simp: submit_state_def never_drops_def split: option.splits prod.splits dest: submit_options)
  show "kept (never_drops pool) \<lparr>bt_mandatory = mandatory, bt_state = state, bt_ref = a\<rparr>"
    using assms by (auto simp: submit_state_def never_drops_def kept_def split: option.splits prod.splits if_splits
        dest: submit_sync)
qed

definition all_kept :: "bool \<Rightarrow> 'm bill_run \<Rightarrow> bool" where
  "all_kept safe b \<longleftrightarrow> never_drops (br_pool b) = safe \<and> list_all (kept safe) (br_tasks b)"

lemma kept_settled: "kept safe t \<Longrightarrow> kept safe (t\<lparr>bt_state := (if bt_state t = Refused then Dropped_task else Ran), bt_ref := False\<rparr>)"
  by (auto simp: kept_def)

lemma all_kept_settle: "all_kept safe b \<Longrightarrow> i < length (br_tasks b) \<Longrightarrow> all_kept safe (settle_task i b)"
proof -
  assume a: "all_kept safe b" "i < length (br_tasks b)"
  let ?t = "br_tasks b ! i"
  have "kept safe ?t" using a by (simp add: all_kept_def list_all_length)
  from kept_settled [OF this] a(1)
  have "list_all (kept safe) ((br_tasks b)[i := ?t\<lparr>bt_state := (if bt_state ?t = Refused then Dropped_task else Ran), bt_ref := False\<rparr>])"
    by (intro list_all_update) (simp_all add: all_kept_def)
  with a(1) show ?thesis by (simp add: all_kept_def settle_task_def Let_def)
qed

lemma all_kept_step: "all_kept safe b \<Longrightarrow> bill_step b a = Some b' \<Longrightarrow> all_kept safe b'"
proof (cases a)
  case (Submit mandatory v)
  assume "all_kept safe b" "bill_step b a = Some b'"
  moreover obtain state pool where 1: "submit_state mandatory v (br_pool b) = (state, pool)" by fastforce
  moreover obtain acq r where "acquire_ref (br_res b) = (acq, r)" by fastforce
  ultimately show ?thesis
    using Submit submit_state_kept(1) [OF 1] submit_state_kept(2) [OF 1, of acq] by (auto simp: all_kept_def submit_task_def)
next
  case (Settle i)
  assume "all_kept safe b" "bill_step b a = Some b'"
  with Settle show ?thesis by (auto simp: all_kept_settle split: if_splits)
next
  case Handler_returns
  assume "all_kept safe b" "bill_step b a = Some b'"
  with Handler_returns show ?thesis by (auto simp: all_kept_def handler_done_def split: if_splits)
next
  case (Release_step net scope_net clk)
  assume "all_kept safe b" "bill_step b a = Some b'"
  with Release_step show ?thesis by (auto simp: all_kept_def do_release_def Let_def split: if_splits)
next
  case (Renew_tick net clk now)
  assume "all_kept safe b" "bill_step b a = Some b'"
  with Renew_tick show ?thesis by (auto simp: all_kept_def Let_def split: if_splits prod.splits option.splits)
qed

lemma all_kept_run: "all_kept safe b \<Longrightarrow> run_protocol bill_step b acts = Some b' \<Longrightarrow> all_kept safe b'"
proof (induction acts arbitrary: b)
  case (Cons a acts)
  then show ?case by (auto split: option.splits intro: all_kept_step)
qed simp

text \<open>C33: No mandatory bill is lost, and with the overflow policy \<open>sync\<close> or without a pool no bill at
  all: such a task is never refused or dropped, whether the queue is full, is being stopped or is
  gone, and once the run is quiet it has run.\<close>

theorem bills_not_lost:
  assumes "run_protocol bill_step (start_run r pool st) acts = Some b" "t \<in> set (br_tasks b)"
    and "bt_mandatory t \<or> never_drops pool"
  shows "bt_state t \<noteq> Refused \<and> bt_state t \<noteq> Dropped_task \<and> (bill_quiet b \<longrightarrow> bt_state t = Ran)"
proof -
  have "all_kept (never_drops pool) b"
    by (rule all_kept_run [OF _ assms(1)]) (simp add: all_kept_def start_run_def)
  with assms(2,3) have "bt_state t \<noteq> Refused \<and> bt_state t \<noteq> Dropped_task" by (auto simp: all_kept_def kept_def list_all_iff)
  moreover have "settled t" if "bill_quiet b" using that assms(2) by (auto simp: bill_quiet_def list_all_iff)
  ultimately show ?thesis by (auto simp: settled_def)
qed

section \<open>Examples\<close>

definition sample_reservation :: "int reservation" where
  "sample_reservation = \<lparr>rv_on_balance = True, rv_user = 1, rv_rid = ''q'', rv_amount = 3, rv_ttl = second, rv_scopes = [],
     rv_refs = 1, rv_renewing = False\<rparr>"

definition full_queue :: queue_view where
  "full_queue = \<lparr>qv_stopped_before = False, qv_accepts = False, qv_stopped_after = False\<rparr>"

definition sample_bills :: "bill_action list" where
  "sample_bills = [Submit False (full_queue\<lparr>qv_accepts := True\<rparr>), Submit True full_queue, Handler_returns]"

lemmas sample_defs = sample_bills_def start_run_def sample_reservation_def full_queue_def new_usage_pool_def submit_task_def
  acquire_ref_def submit_state_def pool_submit_def handler_done_def dec_ref_def settle_task_def settled_def Let_def

lemma sample_policy: "uo_policy (normalize_usage_options id (default_usage_options\<lparr>uo_policy := ''drop''\<rparr>)) = ''drop''"
  by code_simp

theorem reservation_released_once_witness:
  "case run_protocol bill_step (start_run sample_reservation None (\<lambda>_. no_flights)) sample_bills of None \<Rightarrow> False
   | Some b \<Rightarrow> bill_left b = 4 \<and>
       (case run_protocol bill_step b [Settle 1, Settle 0, Release_step Net_ok (\<lambda>_. Net_ok) 5] of None \<Rightarrow> False
        | Some b' \<Rightarrow> bill_quiet b' \<and> br_release_calls b' = 1)"
proof -
  let ?b0 = "start_run sample_reservation None (\<lambda>_. no_flights)"
  let ?rest = "[Settle 1, Settle 0, Release_step Net_ok (\<lambda>_. Net_ok) 5]"
  obtain b where b: "run_protocol bill_step ?b0 sample_bills = Some b" "bill_left b = 4"
    by (auto simp: sample_defs bill_left_def open_tasks_def)
  obtain b' where b': "run_protocol bill_step ?b0 (sample_bills @ ?rest) = Some b'" "bill_quiet b'"
    by (auto simp: sample_defs bill_quiet_def do_release_def)
  from b'(1) have r: "run_protocol bill_step b ?rest = Some b'" by (simp add: run_protocol_append b(1))
  from reservation_released_once [OF _ b(1) _ r] b r b'(2) show ?thesis by (simp add: sample_reservation_def)
qed

theorem no_early_release_witness:
  "case run_protocol bill_step (start_run sample_reservation None (\<lambda>_. no_flights)) sample_bills of None \<Rightarrow> False
   | Some b \<Rightarrow> br_handler_done b \<and> br_release_calls b = 0"
proof -
  obtain b where b: "run_protocol bill_step (start_run sample_reservation None (\<lambda>_. no_flights)) sample_bills = Some b"
    "br_handler_done b" "list_ex bt_ref (br_tasks b)"
    by (auto simp: sample_defs)
  from no_early_release [OF _ b(1)] b show ?thesis by (simp add: sample_reservation_def)
qed

theorem bills_not_lost_witness:
  "case run_protocol bill_step (start_run sample_reservation
      (Some (new_usage_pool id (default_usage_options\<lparr>uo_policy := ''drop''\<rparr>))) (\<lambda>_. no_flights)) sample_bills of None \<Rightarrow> False
   | Some b \<Rightarrow> bt_state (br_tasks b ! 1) \<noteq> Dropped_task"
proof -
  let ?b0 = "start_run sample_reservation (Some (new_usage_pool id (default_usage_options\<lparr>uo_policy := ''drop''\<rparr>))) (\<lambda>_. no_flights)"
  obtain b where b: "run_protocol bill_step ?b0 sample_bills = Some b" "1 < length (br_tasks b)" "bt_mandatory (br_tasks b ! 1)"
    using sample_policy by (auto simp: sample_defs)
  have "br_tasks b ! 1 \<in> set (br_tasks b)" using b(2) by (rule nth_mem)
  from bills_not_lost [OF b(1) this] b show ?thesis by simp
qed

end
