(* ===== verification/PaymentNotifications.thy ===== *)
theory PaymentNotifications
  imports Prelude
begin

text \<open>
  The row of a payment order and what is decided from it without the database: currencies
  (\<^verbatim>\<open>internal/payment/currency.go\<close>), the instance of the provider an order belongs to
  (\<^verbatim>\<open>payment_refund.go\<close>, \<^verbatim>\<open>payment_order_provider_snapshot.go\<close>), the checks of a
  notification (\<^verbatim>\<open>payment_fulfillment.go\<close>) and the references used to query a provider
  (\<^verbatim>\<open>payment_order_lifecycle.go\<close>). Amounts are of any type with the operations used.
\<close>

section \<open>Orders\<close>

datatype order_status =
  Pending | Paid | Recharging | Completed | Expired | Cancelled | Failed_order
  | Refund_requested | Refunding | Refund_pending | Partially_refunded | Refunded | Refund_failed

text \<open>The snapshot of the provider, each field without surrounding white space.\<close>

record provider_snapshot =
  ps_instance :: string
  ps_provider :: string
  ps_app_id :: string
  ps_merchant_id :: string
  ps_currency :: string

record 'm pay_order =
  po_id :: int
  po_user :: int
  po_type :: string
  po_status :: order_status
  po_amount :: 'm
  po_bonus :: 'm
  po_pay_amount :: 'm
  po_code :: string
  po_payment_type :: string
  po_instance :: string
  po_provider :: string
  po_snapshot :: "provider_snapshot option"
  po_out_trade_no :: string
  po_trade_no :: string
  po_group :: "int option"
  po_days :: "int option"
  po_updated_at :: instant
  po_expires_at :: instant
  po_paid_at :: "instant option"
  po_completed_at :: "instant option"
  po_failed_at :: "instant option"
  po_refund_amount :: 'm

definition is_refund_status :: "order_status \<Rightarrow> bool" where
  "is_refund_status s \<longleftrightarrow>
     s \<in> {Refund_requested, Refunding, Refund_pending, Partially_refunded, Refunded, Refund_failed}"

definition supported_order_type :: "string \<Rightarrow> bool" where
  "supported_order_type t \<longleftrightarrow> t = ''balance'' \<or> t = ''subscription''"

section \<open>The surroundings of a call\<close>

record provider_instance =
  pi_id :: int
  pi_key :: string
  pi_types :: string
  pi_refund_enabled :: bool
  pi_user_refund :: bool

text \<open>
  What the calls read of the rest of the system. \<open>pe_finite\<close> holds of the numbers that are neither
  NaN nor infinite, \<open>pe_cent\<close>, \<open>pe_half_unit n\<close> and \<open>pe_code_eps\<close> are the floating-point constants
  0.01, \<open>10^-n / 2\<close> and 1e-8. From the decimal package: \<open>pe_less_bonus\<close>, the difference of two amounts
  to two digits, \<open>pe_round\<close>, and \<open>pe_share p r a n\<close>, the rounded \<open>p * r / a\<close>. \<open>pe_registry\<close> gives the provider
  registered for a payment type, \<open>pe_affiliate\<close> the rebate credited for a user and a base amount
  where the service exists, \<open>pe_assign_ok\<close> whether a subscription can be assigned, \<open>pe_add_days\<close> is
  \<^verbatim>\<open>time.AddDate\<close> for days, \<open>pe_max_expiry\<close> the end of 2099.
\<close>

record 'm pay_env =
  pe_upper :: "string \<Rightarrow> string"
  pe_fold :: "string \<Rightarrow> string \<Rightarrow> bool"
  pe_finite :: "'m \<Rightarrow> bool"
  pe_cent :: 'm
  pe_half_unit :: "nat \<Rightarrow> 'm"
  pe_code_eps :: 'm
  pe_less_bonus :: "'m \<Rightarrow> 'm \<Rightarrow> 'm"
  pe_round :: "'m \<Rightarrow> nat \<Rightarrow> 'm"
  pe_share :: "'m \<Rightarrow> 'm \<Rightarrow> 'm \<Rightarrow> nat \<Rightarrow> 'm"
  pe_registry :: "string \<Rightarrow> string"
  pe_instances :: "provider_instance list"
  pe_group_active :: "int \<Rightarrow> bool"
  pe_affiliate :: "(int \<Rightarrow> 'm \<Rightarrow> 'm) option"
  pe_assign_ok :: "int \<Rightarrow> int \<Rightarrow> bool"
  pe_add_days :: "instant \<Rightarrow> int \<Rightarrow> instant"
  pe_max_expiry :: instant

section \<open>Currencies\<close>

definition normalize_currency :: "(string \<Rightarrow> string) \<Rightarrow> string \<Rightarrow> string option" where
  "normalize_currency upper raw =
     (let c = to_upper upper (trim_space raw) in
      if c = [] then Some ''CNY''
      else if length c \<noteq> 3 then None
      else if list_all (byte_in 0x41 0x5A) c then Some c else None)"

text \<open>The digits of the minor unit of the interfaces and those an amount may have.\<close>

definition currency_unit :: "(string \<Rightarrow> string) \<Rightarrow> string \<Rightarrow> nat \<times> nat" where
  "currency_unit upper currency =
     (case normalize_currency upper currency of
        None \<Rightarrow> (2, 2)
      | Some c \<Rightarrow>
          if c \<in> {''BIF'', ''CLP'', ''DJF'', ''GNF'', ''JPY'', ''KMF'', ''KRW'', ''MGA'', ''PYG'', ''RWF'', ''VND'', ''VUV'',
                  ''XAF'', ''XOF'', ''XPF''} then (0, 0)
          else if c \<in> {''ISK'', ''UGX''} then (2, 0)
          else if c \<in> {''BHD'', ''IQD'', ''JOD'', ''KWD'', ''LYD'', ''OMR'', ''TND''} then (3, 3)
          else (2, 2))"

definition currency_minor_unit :: "(string \<Rightarrow> string) \<Rightarrow> string \<Rightarrow> nat" where
  "currency_minor_unit upper c = fst (currency_unit upper c)"

definition currency_fraction_digits :: "(string \<Rightarrow> string) \<Rightarrow> string \<Rightarrow> nat" where
  "currency_fraction_digits upper c = snd (currency_unit upper c)"

definition order_currency :: "(string \<Rightarrow> string) \<Rightarrow> 'm pay_order \<Rightarrow> string" where
  "order_currency upper row =
     (case po_snapshot row of
        None \<Rightarrow> ''CNY''
      | Some s \<Rightarrow> (case normalize_currency upper (ps_currency s) of None \<Rightarrow> ''CNY'' | Some c \<Rightarrow> c))"

definition amount_tolerance :: "'m pay_env \<Rightarrow> string \<Rightarrow> 'm" where
  "amount_tolerance env currency =
     (let n = currency_minor_unit (pe_upper env) currency in if n \<le> 2 then pe_cent env else pe_half_unit env n)"

definition valid_provider_amount :: "'m pay_env \<Rightarrow> 'm::{zero,ord} \<Rightarrow> bool" where
  "valid_provider_amount env a \<longleftrightarrow> 0 < a \<and> pe_finite env a"

section \<open>The instance of an order\<close>

definition base_payment_type :: "string \<Rightarrow> string" where
  "base_payment_type t =
     (if t = ''easypay'' then ''easypay''
      else if t = ''airwallex'' then ''airwallex''
      else if t = ''stripe'' \<or> t = ''card'' \<or> t = ''link'' then ''stripe''
      else if prefix ''alipay'' t then ''alipay''
      else if prefix ''wxpay'' t then ''wxpay''
      else t)"

definition normalize_visible_type :: "string \<Rightarrow> string" where
  "normalize_visible_type t =
     (let s = trim_space t in
      if s \<in> {''alipay'', ''alipay_direct''} then ''alipay''
      else if s \<in> {''wxpay'', ''wxpay_direct''} then ''wxpay'' else s)"

definition instance_supports_type :: "string \<Rightarrow> string \<Rightarrow> bool" where
  "instance_supports_type types target \<longleftrightarrow> types = [] \<or>
     (\<exists>t \<in> set (split_at CHR '','' types). trim_space t = target \<or>
        normalize_visible_type (trim_space t) = normalize_visible_type target)"

definition legacy_matches_instance :: "string \<Rightarrow> provider_instance \<Rightarrow> bool" where
  "legacy_matches_instance payment_type inst =
     (let base = base_payment_type (trim_space payment_type); key = trim_space (pi_key inst) in
      if base = [] then False
      else if base = ''stripe'' then key = ''stripe''
      else if key = ''stripe'' then False
      else if key = base then True
      else instance_supports_type (pi_types inst) base)"

definition filter_legacy_instances :: "string \<Rightarrow> provider_instance list \<Rightarrow> provider_instance list" where
  "filter_legacy_instances payment_type insts =
     (if trim_space payment_type = [] then insts else filter (legacy_matches_instance payment_type) insts)"

definition only_one :: "'a list \<Rightarrow> 'a option" where
  "only_one xs = (case xs of [x] \<Rightarrow> Some x | _ \<Rightarrow> None)"

definition unique_legacy_instance :: "'m pay_env \<Rightarrow> 'm pay_order \<Rightarrow> provider_instance option" where
  "unique_legacy_instance env row =
     (let ptype = base_payment_type (trim_space (po_payment_type row)); key = trim_space (po_provider row) in
      if key \<noteq> [] then
        only_one (filter_legacy_instances ptype (filter (\<lambda>i. pi_key i = key) (pe_instances env)))
      else if ptype = [] then None
      else only_one (filter_legacy_instances ptype (pe_instances env)))"

definition instance_by_id :: "'m pay_env \<Rightarrow> int \<Rightarrow> provider_instance option" where
  "instance_by_id env i = find (\<lambda>inst. pi_id inst = i) (pe_instances env)"

text \<open>An instance, none, or an error (\<open>Inl\<close>).\<close>

definition snapshot_instance ::
  "'m pay_env \<Rightarrow> 'm pay_order \<Rightarrow> provider_snapshot \<Rightarrow> unit + provider_instance option" where
  "snapshot_instance env row s =
     (let own = trim_space (ps_instance s); column = trim_space (po_instance row);
          chosen = (if own = [] then column else own) in
      if chosen = [] then Inl ()
      else if column \<noteq> [] \<and> ps_instance s \<noteq> [] \<and> \<not> equal_fold (pe_fold env) column (ps_instance s) then Inl ()
      else (case go_atoi chosen of
          None \<Rightarrow> Inl ()
        | Some i \<Rightarrow>
            (case instance_by_id env i of
               None \<Rightarrow> Inl ()
             | Some inst \<Rightarrow>
                 if ps_provider s \<noteq> [] \<and> \<not> equal_fold (pe_fold env) (trim_space (pi_key inst)) (ps_provider s) then Inl ()
                 else Inr (Some inst))))"

definition order_instance :: "'m pay_env \<Rightarrow> 'm pay_order \<Rightarrow> unit + provider_instance option" where
  "order_instance env row =
     (case po_snapshot row of
        Some s \<Rightarrow> snapshot_instance env row s
      | None \<Rightarrow>
          if trim_space (po_instance row) = [] then Inr (unique_legacy_instance env row)
          else (case go_atoi (trim_space (po_instance row)) of
              None \<Rightarrow> Inr None
            | Some i \<Rightarrow> (case instance_by_id env i of None \<Rightarrow> Inl () | Some inst \<Rightarrow> Inr (Some inst))))"

definition refund_instance :: "'m pay_env \<Rightarrow> 'm pay_order \<Rightarrow> unit + provider_instance option" where
  "refund_instance env row =
     (case po_snapshot row of
        Some s \<Rightarrow> snapshot_instance env row s
      | None \<Rightarrow>
          if trim_space (po_instance row) = [] then Inr None
          else (case go_atoi (trim_space (po_instance row)) of
              None \<Rightarrow> Inl ()
            | Some i \<Rightarrow> (case instance_by_id env i of None \<Rightarrow> Inl () | Some inst \<Rightarrow> Inr (Some inst))))"

section \<open>The checks of a notification\<close>

definition expected_notification_key :: "(string \<Rightarrow> string) \<Rightarrow> string \<Rightarrow> string \<Rightarrow> string \<Rightarrow> string" where
  "expected_notification_key registry payment_type order_key instance_key =
     (if trim_space instance_key \<noteq> [] then trim_space instance_key
      else if trim_space order_key \<noteq> [] then trim_space order_key
      else if trim_space (registry payment_type) \<noteq> [] then trim_space (registry payment_type)
      else trim_space payment_type)"

definition expected_key_for_order :: "(string \<Rightarrow> string) \<Rightarrow> 'm pay_order \<Rightarrow> string \<Rightarrow> string" where
  "expected_key_for_order registry row instance_key =
     (let own = (case po_snapshot row of
            Some s \<Rightarrow> if ps_provider s \<noteq> [] then ps_provider s else po_provider row
          | None \<Rightarrow> po_provider row) in
      expected_notification_key registry (po_payment_type row) own instance_key)"

definition notice_value :: "(string \<times> string) list \<Rightarrow> string \<Rightarrow> string" where
  "notice_value md k = (case map_of md k of None \<Rightarrow> [] | Some v \<Rightarrow> v)"

definition field_agrees :: "(string \<Rightarrow> string \<Rightarrow> bool) \<Rightarrow> string \<Rightarrow> string \<Rightarrow> bool" where
  "field_agrees fld expected actual \<longleftrightarrow>
     trim_space expected = [] \<or> actual \<noteq> [] \<and> equal_fold fld (trim_space expected) actual"

definition metadata_ok ::
  "(string \<Rightarrow> string) \<Rightarrow> (string \<Rightarrow> string \<Rightarrow> bool) \<Rightarrow> provider_snapshot option \<Rightarrow> string \<Rightarrow> (string \<times> string) list \<Rightarrow> bool" where
  "metadata_ok upper fld snap key md =
     (if md = [] then True
      else (case snap of
        None \<Rightarrow> True
      | Some s \<Rightarrow>
          let value = (\<lambda>k. trim_space (notice_value md k));
              currency = to_upper upper (value ''currency'');
              state_ok = (\<lambda>k good. value k = [] \<or> equal_fold fld (value k) good);
              p = trim_space key in
          if p = ''wxpay'' then
            field_agrees fld (ps_app_id s) (value ''appid'') \<and> field_agrees fld (ps_merchant_id s) (value ''mchid'') \<and>
            field_agrees fld (ps_currency s) currency \<and> state_ok ''trade_state'' ''SUCCESS''
          else if p = ''alipay'' then field_agrees fld (ps_app_id s) (value ''app_id'')
          else if p = ''easypay'' then field_agrees fld (ps_merchant_id s) (value ''pid'')
          else if p = ''stripe'' then field_agrees fld (ps_currency s) currency
          else if p = ''airwallex'' then
            field_agrees fld (ps_merchant_id s) (value ''account_id'') \<and> field_agrees fld (ps_currency s) currency \<and>
            state_ok ''status'' ''SUCCEEDED''
          else True))"

text \<open>A verified notification of a payment, for the order with the number \<open>nt_order\<close>.\<close>

record 'm notification =
  nt_order :: int
  nt_trade_no :: string
  nt_paid :: 'm
  nt_provider :: string
  nt_metadata :: "(string \<times> string) list"

datatype pay_error =
  Order_not_found | Invalid_order_type | Invalid_order_status | Missing_subscription | Order_conflict
  | Lease_lost | Provider_mismatch | Metadata_mismatch | Invalid_paid_amount | Paid_amount_mismatch
  | Code_mismatch | Code_used | Code_expired | Code_missing | Code_invalid | Code_exists | Code_type
  | User_missing | Group_inactive | Assign_failed | Not_paid | Already_completed | Forbidden_order | Store_failed

text \<open>The error of a notification and the audit entry it leaves.\<close>

definition check_notification ::
  "'m pay_env \<Rightarrow> 'm::{zero,ord,minus,abs} pay_order \<Rightarrow> 'm notification \<Rightarrow> (pay_error \<times> string) option" where
  "check_notification env row n =
     (let instance_key = (case order_instance env row of Inr (Some inst) \<Rightarrow> pi_key inst | _ \<Rightarrow> []);
          expected = expected_key_for_order (pe_registry env) row instance_key;
          key = trim_space (nt_provider n) in
      if expected \<noteq> [] \<and> key \<noteq> [] \<and> \<not> equal_fold (pe_fold env) expected key then
        Some (Provider_mismatch, ''PAYMENT_PROVIDER_MISMATCH'')
      else if \<not> metadata_ok (pe_upper env) (pe_fold env) (po_snapshot row) (nt_provider n) (nt_metadata n) then
        Some (Metadata_mismatch, ''PAYMENT_PROVIDER_METADATA_MISMATCH'')
      else if \<not> valid_provider_amount env (nt_paid n) then Some (Invalid_paid_amount, ''PAYMENT_INVALID_AMOUNT'')
      else if amount_tolerance env (order_currency (pe_upper env) row) < \<bar>nt_paid n - po_pay_amount row\<bar> then
        Some (Paid_amount_mismatch, ''PAYMENT_AMOUNT_MISMATCH'')
      else None)"

section \<open>References to orders\<close>

text \<open>\<open>parseLegacyPaymentOrderID\<close>, once the number was not found.\<close>

definition legacy_order_id :: "string \<Rightarrow> int option" where
  "legacy_order_id raw =
     (let s = trim_space raw in
      if \<not> prefix ''sub2_'' s then None
      else (let t = trim_prefix ''sub2_'' s in
        if t = [] \<or> t = s then None
        else (case go_atoi t of None \<Rightarrow> None | Some i \<Rightarrow> if i \<le> 0 then None else Some i)))"

definition order_query_reference :: "string option \<Rightarrow> 'm pay_order \<Rightarrow> string" where
  "order_query_reference prov_key row =
     (let k1 = (case prov_key of None \<Rightarrow> [] | Some k \<Rightarrow> trim_space k);
          k2 = (if k1 = [] then (case po_snapshot row of None \<Rightarrow> [] | Some s \<Rightarrow> trim_space (ps_provider s)) else k1);
          k3 = (if k2 = [] then trim_space (po_provider row) else k2);
          k4 = (if k3 = [] then trim_space (po_payment_type row) else k3) in
      if base_payment_type k4 \<in> {''alipay'', ''easypay'', ''wxpay''} then trim_space (po_out_trade_no row)
      else if trim_space (po_trade_no row) \<noteq> [] then trim_space (po_trade_no row)
      else trim_space (po_out_trade_no row))"

definition should_persist_trade_no :: "(string \<Rightarrow> string \<Rightarrow> bool) \<Rightarrow> string \<Rightarrow> string \<Rightarrow> string \<Rightarrow> bool" where
  "should_persist_trade_no fld query_ref upstream current =
     (let u = trim_space upstream in
      if u = [] then False
      else if equal_fold fld u (trim_space current) then False
      else if equal_fold fld u (trim_space query_ref) then False else True)"

definition normalize_lookup_no :: "string \<Rightarrow> string option" where
  "normalize_lookup_no raw =
     (let s = trim_space raw in
      if s = [] then None
      else if 64 < length s then None
      else if list_all (\<lambda>c. byte_in 0x61 0x7A c \<or> byte_in 0x41 0x5A c \<or> byte_in 0x30 0x39 c \<or> c = CHR ''_'' \<or> c = CHR ''-'') s
      then Some s else None)"

definition allows_registry_fallback :: "'m pay_order \<Rightarrow> bool" where
  "allows_registry_fallback row \<longleftrightarrow>
     po_snapshot row = None \<and> trim_space (po_instance row) = [] \<and> trim_space (po_provider row) = []"

definition fallback_provider_key :: "(string \<Rightarrow> string) \<Rightarrow> 'm pay_order \<Rightarrow> string" where
  "fallback_provider_key registry row =
     (if trim_space (registry (po_payment_type row)) \<noteq> [] then trim_space (registry (po_payment_type row))
      else trim_space (base_payment_type (trim_space (po_payment_type row))))"

lemma accepted_notification:
  "check_notification env row n = None \<Longrightarrow>
     valid_provider_amount env (nt_paid n) \<and>
     \<not> amount_tolerance env (order_currency (pe_upper env) row) < \<bar>nt_paid n - po_pay_amount row\<bar> \<and>
     metadata_ok (pe_upper env) (pe_fold env) (po_snapshot row) (nt_provider n) (nt_metadata n)"
  by (auto simp: check_notification_def Let_def split: if_splits)

end
