(* ===== verification/PaymentOrders.thy ===== *)
theory PaymentOrders
  imports PaymentNotifications
begin

text \<open>
  The life of payment orders (\<^verbatim>\<open>internal/service/payment_fulfillment.go\<close>,
  \<^verbatim>\<open>payment_order_lifecycle.go\<close>) and the redemption of the codes that pay a balance out
  (\<^verbatim>\<open>redeem_service.go\<close>). A job is a call in progress; one step of a job is one statement or
  transaction at the database, so that runs can interleave the calls of all servers.
  The best-effort audit entries are written with the statement they follow.
\<close>

section \<open>The database\<close>

record 'm redeem_code =
  rc_code :: string
  rc_type :: string
  rc_value :: 'm
  rc_status :: string
  rc_used_by :: "int option"
  rc_expires_at :: "instant option"

record 'm pay_user =
  pu_balance :: 'm
  pu_recharged :: 'm

text \<open>The tables; an audit entry is unique per order and action. The last four are records of what has
  happened: the payouts to balances and of subscriptions, the rebates accrued, and the orders for
  which a notification passed the checks.\<close>

record 'm pay_db =
  pd_orders :: "int \<rightharpoonup> 'm pay_order"
  pd_codes :: "string \<rightharpoonup> 'm redeem_code"
  pd_users :: "int \<rightharpoonup> 'm pay_user"
  pd_audits :: "(int \<times> string) set"
  pd_sub_notes :: "(int \<times> int) \<Rightarrow> string list"
  pd_credits :: "(string \<times> int \<times> 'm) list"
  pd_grants :: "(int \<times> int \<times> int \<times> int) list"
  pd_rebates :: "(int \<times> 'm) list"
  pd_confirmed :: "int set"

definition empty_pay_db :: "'m pay_db" where
  "empty_pay_db = \<lparr>pd_orders = Map.empty, pd_codes = Map.empty, pd_users = Map.empty, pd_audits = {},
     pd_sub_notes = (\<lambda>_. []), pd_credits = [], pd_grants = [], pd_rebates = [], pd_confirmed = {}\<rparr>"

definition audit :: "int \<Rightarrow> string \<Rightarrow> 'm pay_db \<Rightarrow> 'm pay_db" where
  "audit oid action db = db\<lparr>pd_audits := insert (oid, action) (pd_audits db)\<rparr>"

definition has_audit :: "int \<Rightarrow> string \<Rightarrow> 'm pay_db \<Rightarrow> bool" where
  "has_audit oid action db \<longleftrightarrow> (oid, action) \<in> pd_audits db"

text \<open>An update of the row of an order under a condition: whether it hit, and the table after. Every
  update of an order sets its time of update.\<close>

definition update_order ::
  "int \<Rightarrow> instant \<Rightarrow> ('m pay_order \<Rightarrow> bool) \<Rightarrow> ('m pay_order \<Rightarrow> 'm pay_order) \<Rightarrow> 'm pay_db \<Rightarrow> bool \<times> 'm pay_db" where
  "update_order oid now guard f db =
     (case pd_orders db oid of
        None \<Rightarrow> (False, db)
      | Some row \<Rightarrow>
          if guard row then (True, db\<lparr>pd_orders := (pd_orders db)(oid \<mapsto> (f row)\<lparr>po_updated_at := now\<rparr>)\<rparr>)
          else (False, db))"

section \<open>Conditions\<close>

definition grace_period :: duration where
  "grace_period = 5 * minute"

definition payable :: "instant \<Rightarrow> 'm pay_order \<Rightarrow> bool" where
  "payable now row \<longleftrightarrow> po_status row = Pending \<or> po_status row = Cancelled \<or>
     po_status row = Expired \<and> now - grace_period \<le> po_updated_at row"

definition lease_duration :: duration where
  "lease_duration = 5 * minute"

definition leasable :: "instant \<Rightarrow> 'm pay_order \<Rightarrow> bool" where
  "leasable now row \<longleftrightarrow> po_status row = Paid \<or> po_status row = Failed_order \<or>
     po_status row = Recharging \<and> po_updated_at row \<le> now - lease_duration"

definition fulfillable :: "order_status \<Rightarrow> bool" where
  "fulfillable s \<longleftrightarrow> s = Paid \<or> s = Failed_order \<or> s = Recharging"

definition valid_payment_code :: "'m pay_env \<Rightarrow> 'm::{ord,minus,abs} pay_order \<Rightarrow> 'm redeem_code \<Rightarrow> bool" where
  "valid_payment_code env row code \<longleftrightarrow>
     rc_code code = po_code row \<and> rc_type code = ''balance'' \<and> pe_finite env (rc_value code) \<and>
     \<not> pe_code_eps env < \<bar>rc_value code - po_amount row\<bar> \<and>
     (if rc_status code = ''unused'' then rc_used_by code = None
      else if rc_status code = ''used'' then rc_used_by code = Some (po_user row) else False)"

definition code_expired :: "instant \<Rightarrow> 'm redeem_code \<Rightarrow> bool" where
  "code_expired now code \<longleftrightarrow> rc_status code = ''expired'' \<or>
     rc_status code = ''unused'' \<and> (case rc_expires_at code of None \<Rightarrow> False | Some t \<Rightarrow> t \<le> now)"

definition code_can_use :: "instant \<Rightarrow> 'm redeem_code \<Rightarrow> bool" where
  "code_can_use now code \<longleftrightarrow> rc_status code = ''unused'' \<and> \<not> code_expired now code"

section \<open>Payouts\<close>

text \<open>\<open>CreateCode\<close>; the code of a row is unique.\<close>

definition create_code :: "instant \<Rightarrow> 'm::zero redeem_code \<Rightarrow> 'm pay_db \<Rightarrow> pay_error option \<times> 'm pay_db" where
  "create_code now code0 db =
     (let code = code0\<lparr>rc_code := trim_space (rc_code code0),
            rc_type := (if rc_type code0 = [] then ''balance'' else rc_type code0),
            rc_status := (if rc_status code0 = [] then ''unused'' else rc_status code0)\<rparr> in
      if rc_code code = [] then (Some Code_invalid, db)
      else if rc_type code \<noteq> ''invitation'' \<and> rc_value code = 0 then (Some Code_invalid, db)
      else if code_expired now code then (Some Code_expired, db)
      else if pd_codes db (rc_code code) \<noteq> None then (Some Code_exists, db)
      else (None, db\<lparr>pd_codes := (pd_codes db)(rc_code code \<mapsto> code)\<rparr>))"

text \<open>The checks of a redemption before its transaction. Codes of concurrency and subscriptions are
  redeemed by other branches, which are left out.\<close>

definition check_redeem :: "instant \<Rightarrow> int \<Rightarrow> string \<Rightarrow> 'm pay_db \<Rightarrow> pay_error + 'm redeem_code" where
  "check_redeem now uid c db =
     (case pd_codes db c of
        None \<Rightarrow> Inl Code_missing
      | Some code \<Rightarrow>
          if code_expired now code then Inl Code_expired
          else if \<not> code_can_use now code then Inl Code_used
          else if rc_type code \<noteq> ''balance'' then Inl Code_type
          else if pd_users db uid = None then Inl User_missing
          else Inr code)"

text \<open>The transaction: the code is marked used if it is still unused, and the balance is changed; a negative
  amount takes it down to zero at most, a positive one counts as a recharge.\<close>

definition credit_user :: "'m::{zero,plus,ord} \<Rightarrow> 'm pay_user \<Rightarrow> 'm pay_user" where
  "credit_user amount u =
     (if amount < 0 then u\<lparr>pu_balance := max (pu_balance u + amount) 0\<rparr>
      else u\<lparr>pu_balance := pu_balance u + amount,
             pu_recharged := (if 0 < amount then pu_recharged u + amount else pu_recharged u)\<rparr>)"

definition use_code :: "'m::{zero,plus,ord} redeem_code \<Rightarrow> int \<Rightarrow> 'm pay_db \<Rightarrow> pay_error option \<times> 'm pay_db" where
  "use_code code uid db =
     (case pd_codes db (rc_code code) of
        None \<Rightarrow> (Some Code_used, db)
      | Some cur \<Rightarrow>
          if rc_status cur \<noteq> ''unused'' then (Some Code_used, db)
          else (case pd_users db uid of
              None \<Rightarrow> (Some User_missing, db)
            | Some u \<Rightarrow>
                (None, db\<lparr>pd_codes := (pd_codes db)(rc_code code \<mapsto> cur\<lparr>rc_status := ''used'', rc_used_by := Some uid\<rparr>),
                    pd_users := (pd_users db)(uid \<mapsto> credit_user (rc_value code) u),
                    pd_credits := pd_credits db @ [(rc_code code, uid, rc_value code)]\<rparr>)))"

definition order_note :: "int \<Rightarrow> string" where
  "order_note oid = ''payment order '' @ itoa oid"

text \<open>The assignment of a subscription, in one transaction with the audit entry that claims it.\<close>

definition assign_once :: "'m pay_env \<Rightarrow> 'm pay_order \<Rightarrow> int \<Rightarrow> int \<Rightarrow> 'm pay_db \<Rightarrow> pay_error option \<times> 'm pay_db" where
  "assign_once env row gid days db =
     (let oid = po_id row; uid = po_user row in
      if has_audit oid ''SUBSCRIPTION_ASSIGNED'' db \<or> has_audit oid ''SUBSCRIPTION_SUCCESS'' db then (None, db)
      else if order_note oid \<in> set (pd_sub_notes db (uid, gid)) then (None, audit oid ''SUBSCRIPTION_ASSIGNED'' db)
      else if \<not> pe_assign_ok env uid gid then (Some Assign_failed, db)
      else (None, audit oid ''SUBSCRIPTION_ASSIGNED'' (db\<lparr>pd_grants := pd_grants db @ [(oid, uid, gid, days)],
              pd_sub_notes := (pd_sub_notes db)((uid, gid) := pd_sub_notes db (uid, gid) @ [order_note oid])\<rparr>)))"

text \<open>The base of the rebate is the part of a recharge that was paid for.\<close>

definition amount_without_bonus :: "'m pay_env \<Rightarrow> 'm::{zero,ord} pay_order \<Rightarrow> 'm" where
  "amount_without_bonus env row =
     (if po_type row \<noteq> ''balance'' \<or> po_bonus row \<le> 0 then po_amount row
      else let base = pe_less_bonus env (po_amount row) (po_bonus row) in if base < 0 then 0 else base)"

definition rebate_base :: "'m pay_env \<Rightarrow> 'm::{zero,ord} pay_order \<Rightarrow> 'm" where
  "rebate_base env row =
     (if po_type row = ''balance'' then amount_without_bonus env row
      else if po_type row = ''subscription'' then po_amount row else 0)"

text \<open>The rebate, in one transaction with its claim.\<close>

definition rebate_once :: "'m pay_env \<Rightarrow> 'm::{zero,ord} pay_order \<Rightarrow> 'm pay_db \<Rightarrow> 'm pay_db" where
  "rebate_once env row db =
     (if rebate_base env row \<le> 0 then db
      else case pe_affiliate env of
        None \<Rightarrow> db
      | Some accrue \<Rightarrow>
          if has_audit (po_id row) ''AFFILIATE_REBATE_APPLIED'' db \<or> has_audit (po_id row) ''AFFILIATE_REBATE_SKIPPED'' db then db
          else (let amount = accrue (po_user row) (rebate_base env row) in
            if amount \<le> 0 then audit (po_id row) ''AFFILIATE_REBATE_SKIPPED'' db
            else audit (po_id row) ''AFFILIATE_REBATE_APPLIED'' (db\<lparr>pd_rebates := pd_rebates db @ [(po_id row, amount)]\<rparr>)))"

section \<open>Jobs\<close>

text \<open>What a provider answers when it is asked for a payment: the first answer and the one to the
  retry, \<open>None\<close> for a failed call.\<close>

record 'm provider_reply =
  pr_paid :: bool
  pr_amount :: 'm
  pr_trade_no :: string
  pr_metadata :: "(string \<times> string) list"

record 'm provider_answers =
  an_provider :: "string option"
  an_first :: "'m provider_reply option"
  an_retry :: "'m provider_reply option"

text \<open>A job carries the rows it has read, and the version of the lease it holds. The redemption a job
  makes is for a payment with the lease, or a public one.\<close>

datatype 'm job =
    J_confirm "'m notification"
  | J_to_paid "'m pay_order" "'m notification"
  | J_already int
  | J_execute int
  | J_reject int
  | J_balance int
  | J_subscription int
  | J_retry int
  | J_lease "'m pay_order"
  | J_lease_missed "'m pay_order"
  | J_lease_check "'m pay_order"
  | J_lookup "'m pay_order" instant
  | J_create "'m pay_order" instant
  | J_redeem "'m pay_order" instant
  | J_use "'m pay_order" instant "'m redeem_code"
  | J_group "'m pay_order" instant
  | J_assign "'m pay_order" instant int int
  | J_rebate "'m pay_order" instant
  | J_complete "'m pay_order" instant
  | J_complete_missed "'m pay_order" instant
  | J_fail "'m pay_order" instant pay_error
  | J_cancel int "int option" "'m provider_answers"
  | J_expire int "'m provider_answers"
  | J_verify int int "'m provider_answers"
  | J_persist "'m pay_order" string "'m notification"
  | J_mark int order_status
  | J_provider_failed int
  | J_public int string
  | J_public_use int "'m redeem_code"
  | J_done "pay_error option"

text \<open>\<open>checkPaidWithOptions\<close>: the job that takes a payment found at the provider in; \<open>None\<close> when there is
  none.\<close>

definition paid_reply :: "'m pay_env \<Rightarrow> 'm::{zero,ord} provider_answers \<Rightarrow> 'm provider_reply option" where
  "paid_reply env an =
     (case an_first an of
        None \<Rightarrow> None
      | Some r \<Rightarrow>
          if \<not> pr_paid r then None
          else if valid_provider_amount env (pr_amount r) then Some r
          else (case an_retry an of
              None \<Rightarrow> None
            | Some r2 \<Rightarrow> if pr_paid r2 \<and> valid_provider_amount env (pr_amount r2) then Some r2 else None))"

definition check_paid :: "'m pay_env \<Rightarrow> 'm::{zero,ord} provider_answers \<Rightarrow> 'm pay_order \<Rightarrow> 'm job option" where
  "check_paid env an row =
     (case an_provider an of
        None \<Rightarrow> None
      | Some key \<Rightarrow>
          let query_ref = order_query_reference (Some key) row in
          if query_ref = [] then None
          else (case paid_reply env an of
              None \<Rightarrow> None
            | Some r \<Rightarrow>
                let upstream = trim_space (pr_trade_no r);
                    persist = should_persist_trade_no (pe_fold env) query_ref upstream (po_trade_no row);
                    n = \<lparr>nt_order = po_id row, nt_trade_no = (if persist then upstream else po_trade_no row),
                         nt_paid = pr_amount r, nt_provider = key, nt_metadata = pr_metadata r\<rparr> in
                Some (if persist then J_persist row upstream n else J_confirm n)))"

definition cancel_core :: "'m pay_env \<Rightarrow> 'm::{zero,ord} provider_answers \<Rightarrow> 'm pay_order \<Rightarrow> order_status \<Rightarrow> 'm job" where
  "cancel_core env an row fs =
     (if po_trade_no row \<noteq> [] \<or> po_payment_type row \<noteq> [] then
        (case check_paid env an row of Some j \<Rightarrow> j | None \<Rightarrow> J_mark (po_id row) fs)
      else J_mark (po_id row) fs)"

text \<open>The checks of a fulfilment on the row it read.\<close>

definition check_fulfilment :: "'m pay_order \<Rightarrow> 'm job option" where
  "check_fulfilment row =
     (if po_status row = Completed then Some (J_done None)
      else if is_refund_status (po_status row) \<or> \<not> fulfillable (po_status row) then Some (J_done (Some Invalid_order_status))
      else None)"

definition after_lease :: "'m pay_order \<Rightarrow> instant \<Rightarrow> 'm job" where
  "after_lease row v = (if po_type row = ''subscription'' then J_group row v else J_lookup row v)"

definition success_action :: "'m pay_order \<Rightarrow> string" where
  "success_action row = (if po_type row = ''subscription'' then ''SUBSCRIPTION_SUCCESS'' else ''RECHARGE_SUCCESS'')"

end
