(* ===== verification/PaymentFulfilment.thy ===== *)
theory PaymentFulfilment
  imports PaymentOrders
begin

text \<open>
  The steps of the calls on payment orders, one definition per statement of the functions of
  \<^verbatim>\<open>payment_fulfillment.go\<close>, \<^verbatim>\<open>payment_order_lifecycle.go\<close> and \<^verbatim>\<open>redeem_service.go\<close>,
  what a call does when a statement fails, and the system of all calls of all servers.
\<close>

section \<open>Payment notifications\<close>

definition confirm_step ::
  "'m pay_env \<Rightarrow> 'm::{zero,ord,minus,abs} notification \<Rightarrow> 'm pay_db \<Rightarrow> 'm job \<times> 'm pay_db" where
  "confirm_step env n db =
     (case pd_orders db (nt_order n) of
        None \<Rightarrow> (J_done None, db)
      | Some row \<Rightarrow>
          (case check_notification env row n of
             Some (e, action) \<Rightarrow> (J_done (Some e), audit (po_id row) action db)
           | None \<Rightarrow> (J_to_paid row n, db\<lparr>pd_confirmed := insert (po_id row) (pd_confirmed db)\<rparr>)))"

definition to_paid_step :: "instant \<Rightarrow> 'm pay_order \<Rightarrow> 'm notification \<Rightarrow> 'm pay_db \<Rightarrow> 'm job \<times> 'm pay_db" where
  "to_paid_step now row n db =
     (let (hit, db') = update_order (po_id row) now (payable now)
            (\<lambda>r. r\<lparr>po_status := Paid, po_pay_amount := nt_paid n, po_trade_no := nt_trade_no n,
                  po_paid_at := Some now, po_failed_at := None\<rparr>) db in
      if \<not> hit then (J_already (po_id row), db')
      else (J_execute (po_id row), audit (po_id row) ''ORDER_PAID''
             (if po_status row = Cancelled \<or> po_status row = Expired then audit (po_id row) ''ORDER_RECOVERED'' db' else db')))"

definition already_step :: "int \<Rightarrow> 'm pay_db \<Rightarrow> 'm job \<times> 'm pay_db" where
  "already_step oid db =
     (case pd_orders db oid of
        None \<Rightarrow> (J_done None, db)
      | Some cur \<Rightarrow>
          if po_status cur = Completed \<or> po_status cur = Refunded then (J_done None, db)
          else if fulfillable (po_status cur) then (J_execute oid, db)
          else if po_status cur = Expired then (J_done None, audit oid ''PAYMENT_AFTER_EXPIRY'' db)
          else (J_done None, db))"

definition execute_step :: "int \<Rightarrow> 'm pay_db \<Rightarrow> 'm job \<times> 'm pay_db" where
  "execute_step oid db =
     (case pd_orders db oid of
        None \<Rightarrow> (J_done (Some Order_not_found), db)
      | Some row \<Rightarrow>
          if po_type row = ''subscription'' then (J_subscription oid, db)
          else if po_type row = ''balance'' then (J_balance oid, db)
          else (J_reject oid, db))"

definition reject_step :: "instant \<Rightarrow> int \<Rightarrow> 'm pay_db \<Rightarrow> 'm job \<times> 'm pay_db" where
  "reject_step now oid db =
     (let (hit, db') = update_order oid now (\<lambda>r. po_status r = Paid \<or> po_status r = Recharging)
            (\<lambda>r. r\<lparr>po_status := Failed_order, po_failed_at := Some now\<rparr>) db in
      (J_done None, if hit then audit oid ''FULFILLMENT_FAILED'' db' else db'))"

definition retry_step :: "int \<Rightarrow> 'm pay_db \<Rightarrow> 'm job \<times> 'm pay_db" where
  "retry_step oid db =
     (case pd_orders db oid of
        None \<Rightarrow> (J_done (Some Order_not_found), db)
      | Some row \<Rightarrow>
          if po_paid_at row = None then (J_done (Some Not_paid), db)
          else if is_refund_status (po_status row) then (J_done (Some Invalid_order_status), db)
          else if po_status row = Completed then (J_done (Some Already_completed), db)
          else if \<not> fulfillable (po_status row) then (J_done (Some Invalid_order_status), db)
          else if \<not> supported_order_type (po_type row) then (J_done (Some Invalid_order_type), db)
          else (J_execute oid, audit oid ''RECHARGE_RETRY'' db))"

section \<open>Fulfilment under a lease\<close>

definition balance_step :: "int \<Rightarrow> 'm pay_db \<Rightarrow> 'm job \<times> 'm pay_db" where
  "balance_step oid db =
     (case pd_orders db oid of
        None \<Rightarrow> (J_done (Some Order_not_found), db)
      | Some row \<Rightarrow>
          if po_type row \<noteq> ''balance'' then (J_done (Some Invalid_order_type), db)
          else (case check_fulfilment row of Some j \<Rightarrow> (j, db) | None \<Rightarrow> (J_lease row, db)))"

definition subscription_step :: "int \<Rightarrow> 'm pay_db \<Rightarrow> 'm job \<times> 'm pay_db" where
  "subscription_step oid db =
     (case pd_orders db oid of
        None \<Rightarrow> (J_done (Some Order_not_found), db)
      | Some row \<Rightarrow>
          (case check_fulfilment row of
             Some j \<Rightarrow> (j, db)
           | None \<Rightarrow>
               if po_group row = None \<or> po_days row = None then (J_done (Some Missing_subscription), db)
               else (J_lease row, db)))"

definition lease_step :: "instant \<Rightarrow> 'm pay_order \<Rightarrow> 'm pay_db \<Rightarrow> 'm job \<times> 'm pay_db" where
  "lease_step now row db =
     (let (hit, db') = update_order (po_id row) now (leasable now)
            (\<lambda>r. r\<lparr>po_status := Recharging, po_failed_at := None\<rparr>) db in
      (if hit then J_lease_check row else J_lease_missed row, db'))"

definition lease_missed_step :: "'m pay_order \<Rightarrow> 'm pay_db \<Rightarrow> 'm job" where
  "lease_missed_step row db =
     (case pd_orders db (po_id row) of
        None \<Rightarrow> J_done (Some Store_failed)
      | Some cur \<Rightarrow> if po_status cur = Completed then J_done None else J_done (Some Order_conflict))"

definition lease_check_step :: "'m pay_order \<Rightarrow> 'm pay_db \<Rightarrow> 'm job" where
  "lease_check_step row db =
     (case pd_orders db (po_id row) of
        None \<Rightarrow> J_done (Some Store_failed)
      | Some cur \<Rightarrow>
          if po_status cur \<noteq> Recharging then J_done (Some Lease_lost) else after_lease row (po_updated_at cur))"

definition lookup_step :: "'m pay_env \<Rightarrow> 'm::{ord,minus,abs} pay_order \<Rightarrow> instant \<Rightarrow> 'm pay_db \<Rightarrow> 'm job" where
  "lookup_step env row v db =
     (case pd_codes db (po_code row) of
        None \<Rightarrow> J_create row v
      | Some code \<Rightarrow>
          if \<not> valid_payment_code env row code then J_fail row v Code_mismatch
          else if rc_status code = ''used'' then J_rebate row v else J_redeem row v)"

definition payment_code :: "'m pay_order \<Rightarrow> 'm redeem_code" where
  "payment_code row =
     \<lparr>rc_code = po_code row, rc_type = ''balance'', rc_value = po_amount row, rc_status = ''unused'',
      rc_used_by = None, rc_expires_at = None\<rparr>"

definition create_step :: "instant \<Rightarrow> 'm::zero pay_order \<Rightarrow> instant \<Rightarrow> 'm pay_db \<Rightarrow> 'm job \<times> 'm pay_db" where
  "create_step now row v db =
     (case create_code now (payment_code row) db of
        (None, db') \<Rightarrow> (J_redeem row v, db')
      | (Some e, db') \<Rightarrow> (J_fail row v e, db'))"

definition redeem_step :: "instant \<Rightarrow> 'm pay_order \<Rightarrow> instant \<Rightarrow> 'm pay_db \<Rightarrow> 'm job" where
  "redeem_step now row v db =
     (case check_redeem now (po_user row) (po_code row) db of
        Inl e \<Rightarrow> J_fail row v e
      | Inr code \<Rightarrow> J_use row v code)"

definition use_step ::
  "'m::{zero,plus,ord} pay_order \<Rightarrow> instant \<Rightarrow> 'm redeem_code \<Rightarrow> 'm pay_db \<Rightarrow> 'm job \<times> 'm pay_db" where
  "use_step row v code db =
     (case use_code code (po_user row) db of
        (None, db') \<Rightarrow> (J_rebate row v, db')
      | (Some e, db') \<Rightarrow> (J_fail row v e, db'))"

definition group_step :: "'m pay_env \<Rightarrow> 'm pay_order \<Rightarrow> instant \<Rightarrow> 'm job" where
  "group_step env row v =
     (case (po_group row, po_days row) of
        (Some gid, Some days) \<Rightarrow>
          if pe_group_active env gid then J_assign row v gid days else J_fail row v Group_inactive
      | _ \<Rightarrow> J_fail row v Missing_subscription)"

definition assign_step :: "'m pay_env \<Rightarrow> 'm pay_order \<Rightarrow> instant \<Rightarrow> int \<Rightarrow> int \<Rightarrow> 'm pay_db \<Rightarrow> 'm job \<times> 'm pay_db" where
  "assign_step env row v gid days db =
     (case assign_once env row gid days db of
        (None, db') \<Rightarrow> (J_rebate row v, db')
      | (Some e, db') \<Rightarrow> (J_fail row v e, db'))"

definition complete_step :: "instant \<Rightarrow> 'm pay_order \<Rightarrow> instant \<Rightarrow> 'm pay_db \<Rightarrow> 'm job \<times> 'm pay_db" where
  "complete_step now row v db =
     (let (hit, db') = update_order (po_id row) now (\<lambda>r. po_status r = Recharging \<and> po_updated_at r = v)
            (\<lambda>r. r\<lparr>po_status := Completed, po_completed_at := Some now\<rparr>) db in
      if hit then (J_done None, audit (po_id row) (success_action row) db') else (J_complete_missed row v, db'))"

definition complete_missed_step :: "'m pay_order \<Rightarrow> instant \<Rightarrow> 'm pay_db \<Rightarrow> 'm job" where
  "complete_missed_step row v db =
     (case pd_orders db (po_id row) of
        None \<Rightarrow> J_fail row v Lease_lost
      | Some cur \<Rightarrow> if po_status cur = Completed then J_done None else J_fail row v Lease_lost)"

text \<open>Every failure of the work is recorded by \<open>markFailed\<close>, which the version of the lease guards.\<close>

definition fail_step :: "instant \<Rightarrow> 'm pay_order \<Rightarrow> instant \<Rightarrow> pay_error \<Rightarrow> 'm pay_db \<Rightarrow> 'm job \<times> 'm pay_db" where
  "fail_step now row v e db =
     (let (hit, db') = update_order (po_id row) now (\<lambda>r. po_status r = Recharging \<and> po_updated_at r = v)
            (\<lambda>r. r\<lparr>po_status := Failed_order, po_failed_at := Some now\<rparr>) db in
      (J_done (Some e), if hit then audit (po_id row) ''FULFILLMENT_FAILED'' db' else db'))"


section \<open>Cancelling, expiring and checking orders\<close>

definition cancel_step ::
  "'m pay_env \<Rightarrow> int \<Rightarrow> int option \<Rightarrow> 'm::{zero,ord} provider_answers \<Rightarrow> 'm pay_db \<Rightarrow> 'm job" where
  "cancel_step env oid owner an db =
     (case pd_orders db oid of
        None \<Rightarrow> J_done (Some Order_not_found)
      | Some row \<Rightarrow>
          if owner \<noteq> None \<and> owner \<noteq> Some (po_user row) then J_done (Some Forbidden_order)
          else if po_status row \<noteq> Pending then J_done (Some Invalid_order_status)
          else cancel_core env an row Cancelled)"

definition expire_step :: "'m pay_env \<Rightarrow> instant \<Rightarrow> int \<Rightarrow> 'm::{zero,ord} provider_answers \<Rightarrow> 'm pay_db \<Rightarrow> 'm job" where
  "expire_step env now oid an db =
     (case pd_orders db oid of
        None \<Rightarrow> J_done None
      | Some row \<Rightarrow>
          if po_status row = Pending \<and> po_expires_at row \<le> now then cancel_core env an row Expired else J_done None)"

definition verify_step :: "'m pay_env \<Rightarrow> int \<Rightarrow> int \<Rightarrow> 'm::{zero,ord} provider_answers \<Rightarrow> 'm pay_db \<Rightarrow> 'm job" where
  "verify_step env oid uid an db =
     (case pd_orders db oid of
        None \<Rightarrow> J_done (Some Order_not_found)
      | Some row \<Rightarrow>
          if po_user row \<noteq> uid then J_done (Some Forbidden_order)
          else if po_status row = Pending \<or> po_status row = Expired then
            (case check_paid env an row of Some j \<Rightarrow> j | None \<Rightarrow> J_done None)
          else J_done None)"

text \<open>The trade number found at the provider is written without a condition on the status.\<close>

definition persist_step :: "instant \<Rightarrow> 'm pay_order \<Rightarrow> string \<Rightarrow> 'm notification \<Rightarrow> 'm pay_db \<Rightarrow> 'm job \<times> 'm pay_db" where
  "persist_step now row t n db =
     (J_confirm n, snd (update_order (po_id row) now (\<lambda>_. True) (\<lambda>r. r\<lparr>po_trade_no := t\<rparr>) db))"

definition mark_step :: "instant \<Rightarrow> int \<Rightarrow> order_status \<Rightarrow> 'm pay_db \<Rightarrow> 'm job \<times> 'm pay_db" where
  "mark_step now oid fs db =
     (let (hit, db') = update_order oid now (\<lambda>r. po_status r = Pending) (\<lambda>r. r\<lparr>po_status := fs\<rparr>) db in
      (J_done None, if hit then audit oid (if fs = Expired then ''ORDER_EXPIRED'' else ''ORDER_CANCELLED'') db' else db'))"

text \<open>An order whose creation failed at the provider is marked without a condition either.\<close>

definition provider_failed_step :: "instant \<Rightarrow> int \<Rightarrow> 'm pay_db \<Rightarrow> 'm job \<times> 'm pay_db" where
  "provider_failed_step now oid db =
     (J_done None, snd (update_order oid now (\<lambda>_. True) (\<lambda>r. r\<lparr>po_status := Failed_order\<rparr>) db))"

section \<open>Public redemption\<close>

definition public_step :: "instant \<Rightarrow> int \<Rightarrow> string \<Rightarrow> 'm pay_db \<Rightarrow> 'm job" where
  "public_step now uid c db =
     (case check_redeem now uid c db of Inl e \<Rightarrow> J_done (Some e) | Inr code \<Rightarrow> J_public_use uid code)"

definition public_use_step :: "int \<Rightarrow> 'm::{zero,plus,ord} redeem_code \<Rightarrow> 'm pay_db \<Rightarrow> 'm job \<times> 'm pay_db" where
  "public_use_step uid code db = (case use_code code uid db of (e, db') \<Rightarrow> (J_done e, db'))"

section \<open>A step of a job\<close>

fun job_step ::
  "'m pay_env \<Rightarrow> instant \<Rightarrow> 'm::{zero,plus,minus,ord,abs} job \<Rightarrow> 'm pay_db \<Rightarrow> 'm job \<times> 'm pay_db" where
  "job_step env now (J_confirm n) db = confirm_step env n db"
| "job_step env now (J_to_paid row n) db = to_paid_step now row n db"
| "job_step env now (J_already oid) db = already_step oid db"
| "job_step env now (J_execute oid) db = execute_step oid db"
| "job_step env now (J_reject oid) db = reject_step now oid db"
| "job_step env now (J_balance oid) db = balance_step oid db"
| "job_step env now (J_subscription oid) db = subscription_step oid db"
| "job_step env now (J_retry oid) db = retry_step oid db"
| "job_step env now (J_lease row) db = lease_step now row db"
| "job_step env now (J_lease_missed row) db = (lease_missed_step row db, db)"
| "job_step env now (J_lease_check row) db = (lease_check_step row db, db)"
| "job_step env now (J_lookup row v) db = (lookup_step env row v db, db)"
| "job_step env now (J_create row v) db = create_step now row v db"
| "job_step env now (J_redeem row v) db = (redeem_step now row v db, db)"
| "job_step env now (J_use row v code) db = use_step row v code db"
| "job_step env now (J_group row v) db = (group_step env row v, db)"
| "job_step env now (J_assign row v gid days) db = assign_step env row v gid days db"
| "job_step env now (J_rebate row v) db = (J_complete row v, rebate_once env row db)"
| "job_step env now (J_complete row v) db = complete_step now row v db"
| "job_step env now (J_complete_missed row v) db = (complete_missed_step row v db, db)"
| "job_step env now (J_fail row v e) db = fail_step now row v e db"
| "job_step env now (J_cancel oid owner an) db = (cancel_step env oid owner an db, db)"
| "job_step env now (J_expire oid an) db = (expire_step env now oid an db, db)"
| "job_step env now (J_verify oid uid an) db = (verify_step env oid uid an db, db)"
| "job_step env now (J_persist row t n) db = persist_step now row t n db"
| "job_step env now (J_mark oid fs) db = mark_step now oid fs db"
| "job_step env now (J_provider_failed oid) db = provider_failed_step now oid db"
| "job_step env now (J_public uid c) db = (public_step now uid c db, db)"
| "job_step env now (J_public_use uid code) db = public_use_step uid code db"
| "job_step env now (J_done r) db = (J_done r, db)"

text \<open>What a call does when its statement fails, whether or not it took effect.\<close>

fun job_fault :: "'m job \<Rightarrow> 'm job" where
  "job_fault (J_confirm n) = J_done None"
| "job_fault (J_already oid) = J_done None"
| "job_fault (J_reject oid) = J_done None"
| "job_fault (J_balance oid) = J_done (Some Order_not_found)"
| "job_fault (J_subscription oid) = J_done (Some Order_not_found)"
| "job_fault (J_retry oid) = J_done (Some Order_not_found)"
| "job_fault (J_lookup row v) = J_fail row v Store_failed"
| "job_fault (J_create row v) = J_fail row v Store_failed"
| "job_fault (J_redeem row v) = J_fail row v Store_failed"
| "job_fault (J_use row v code) = J_fail row v Store_failed"
| "job_fault (J_group row v) = J_fail row v Group_inactive"
| "job_fault (J_assign row v gid days) = J_fail row v Store_failed"
| "job_fault (J_rebate row v) = J_fail row v Store_failed"
| "job_fault (J_complete row v) = J_fail row v Store_failed"
| "job_fault (J_complete_missed row v) = J_fail row v Lease_lost"
| "job_fault (J_fail row v e) = J_done (Some e)"
| "job_fault (J_cancel oid owner an) = J_done (Some Order_not_found)"
| "job_fault (J_verify oid uid an) = J_done (Some Order_not_found)"
| "job_fault (J_persist row t n) = J_confirm n"
| "job_fault (J_provider_failed oid) = J_done None"
| "job_fault (J_done r) = J_done r"
| "job_fault j = J_done (Some Store_failed)"

section \<open>The system\<close>

text \<open>A job that a caller starts.\<close>

fun starting :: "'m job \<Rightarrow> bool" where
  "starting (J_confirm n) = True"
| "starting (J_retry oid) = True"
| "starting (J_cancel oid owner an) = True"
| "starting (J_expire oid an) = True"
| "starting (J_verify oid uid an) = True"
| "starting (J_provider_failed oid) = True"
| "starting (J_public uid c) = True"
| "starting j = False"

definition order_code :: "int \<Rightarrow> nat \<Rightarrow> string" where
  "order_code oid n = ''PAY-'' @ itoa oid @ ''-'' @ itoa (int (n mod 100000))"

definition fresh_order :: "instant \<Rightarrow> nat \<Rightarrow> 'm pay_order \<Rightarrow> 'm pay_order" where
  "fresh_order now n row =
     row\<lparr>po_status := Pending, po_code := order_code (po_id row) n, po_trade_no := [], po_updated_at := now,
         po_paid_at := None, po_completed_at := None, po_failed_at := None\<rparr>"

record 'm pay_state =
  st_db :: "'m pay_db"
  st_jobs :: "nat \<rightharpoonup> 'm job"

text \<open>
  Steps of the system at any time of the clock of the server that makes them: a user or an order is
  created, a code is created by an administrator, a job starts, steps, sees its statement fail
  before or after it took effect, or disappears with its server.
\<close>

inductive pay_step :: "'m pay_env \<Rightarrow> 'm::{zero,plus,minus,ord,abs} pay_state \<Rightarrow> 'm pay_state \<Rightarrow> bool"
  for env where
  new_user: "pd_users (st_db s) uid = None \<Longrightarrow>
     pay_step env s (s\<lparr>st_db := (st_db s)\<lparr>pd_users := (pd_users (st_db s))(uid \<mapsto> u)\<rparr>\<rparr>)"
| new_order: "pd_orders (st_db s) (po_id row) = None \<Longrightarrow> 0 < po_id row \<Longrightarrow>
     pay_step env s (s\<lparr>st_db := (st_db s)\<lparr>pd_orders := (pd_orders (st_db s))(po_id row \<mapsto> fresh_order now n row)\<rparr>\<rparr>)"
| admin_code: "rc_type code = ''balance'' \<Longrightarrow> rc_status code = ''unused'' \<Longrightarrow> rc_used_by code = None \<Longrightarrow>
     pay_step env s (s\<lparr>st_db := snd (create_code now code (st_db s))\<rparr>)"
| start_job: "st_jobs s i = None \<Longrightarrow> starting j \<Longrightarrow> pay_step env s (s\<lparr>st_jobs := (st_jobs s)(i \<mapsto> j)\<rparr>)"
| run_job: "st_jobs s i = Some j \<Longrightarrow> job_step env now j (st_db s) = (j', db') \<Longrightarrow>
     pay_step env s (s\<lparr>st_db := db', st_jobs := (st_jobs s)(i \<mapsto> j')\<rparr>)"
| fault_before: "st_jobs s i = Some j \<Longrightarrow> pay_step env s (s\<lparr>st_jobs := (st_jobs s)(i \<mapsto> job_fault j)\<rparr>)"
| fault_after: "st_jobs s i = Some j \<Longrightarrow> job_step env now j (st_db s) = (j', db') \<Longrightarrow>
     pay_step env s (s\<lparr>st_db := db', st_jobs := (st_jobs s)(i \<mapsto> job_fault j)\<rparr>)"
| crash: "st_jobs s i = Some j \<Longrightarrow> pay_step env s (s\<lparr>st_jobs := (st_jobs s)(i := None)\<rparr>)"

definition pay_start :: "'m pay_state" where
  "pay_start = \<lparr>st_db = empty_pay_db, st_jobs = Map.empty\<rparr>"

definition pay_reachable :: "'m pay_env \<Rightarrow> 'm::{zero,plus,minus,ord,abs} pay_state \<Rightarrow> bool" where
  "pay_reachable env s \<longleftrightarrow> (pay_step env)\<^sup>*\<^sup>* pay_start s"

lemma pay_reachable_induct [consumes 1, case_names start step]:
  assumes "pay_reachable env s" "P pay_start"
    and "\<And>s s'. pay_reachable env s \<Longrightarrow> P s \<Longrightarrow> pay_step env s s' \<Longrightarrow> P s'"
  shows "P s"
  using assms(1) unfolding pay_reachable_def
proof (induction rule: rtranclp_induct)
  case base
  show ?case by (rule assms(2))
next
  case (step y z)
  then show ?case using assms(3) [unfolded pay_reachable_def] by blast
qed

end
