(* ===== verification/PaymentRuns.thy ===== *)
theory PaymentRuns
  imports PaymentFulfilment
begin

text \<open>
  What all interleavings of the calls on payment orders keep: every code is paid out at most once, a
  completed order has been paid for and delivered exactly once, and an order whose lease has
  gone stale is completed by the next call.
\<close>

section \<open>Views of the database\<close>

definition same_order :: "'m pay_order \<Rightarrow> 'm pay_order \<Rightarrow> bool" where
  "same_order a b \<longleftrightarrow> po_id a = po_id b \<and> po_user a = po_user b \<and> po_type a = po_type b \<and>
     po_amount a = po_amount b \<and> po_code a = po_code b \<and> po_group a = po_group b \<and> po_days a = po_days b"

definition credits_of :: "string \<Rightarrow> 'm pay_db \<Rightarrow> (string \<times> int \<times> 'm) list" where
  "credits_of c db = filter (\<lambda>e. fst e = c) (pd_credits db)"

definition grants_of :: "int \<Rightarrow> 'm pay_db \<Rightarrow> (int \<times> int \<times> int \<times> int) list" where
  "grants_of oid db = filter (\<lambda>e. fst e = oid) (pd_grants db)"

definition rebates_of :: "int \<Rightarrow> 'm pay_db \<Rightarrow> (int \<times> 'm) list" where
  "rebates_of oid db = filter (\<lambda>e. fst e = oid) (pd_rebates db)"

definition near_amount :: "'m pay_env \<Rightarrow> 'm::{ord,minus,abs} pay_order \<Rightarrow> 'm \<Rightarrow> bool" where
  "near_amount env row v \<longleftrightarrow> v = po_amount row \<or> \<not> pe_code_eps env < \<bar>v - po_amount row\<bar>"

text \<open>An order that has been delivered: its subscription has been assigned once, or its code has been
  credited once, to its user.\<close>

definition delivered :: "'m pay_env \<Rightarrow> 'm::{ord,minus,abs} pay_order \<Rightarrow> 'm pay_db \<Rightarrow> bool" where
  "delivered env row db \<longleftrightarrow>
     (if po_type row = ''subscription''
      then \<exists>gid days. po_group row = Some gid \<and> po_days row = Some days \<and>
             grants_of (po_id row) db = [(po_id row, po_user row, gid, days)]
      else \<exists>v. near_amount env row v \<and> credits_of (po_code row) db = [(po_code row, po_user row, v)])"

section \<open>The invariant of the database\<close>

definition code_ok :: "string \<Rightarrow> 'm redeem_code \<Rightarrow> 'm pay_db \<Rightarrow> bool" where
  "code_ok c code db \<longleftrightarrow> rc_code code = c \<and> rc_type code = ''balance'' \<and>
     (rc_status code = ''unused'' \<and> rc_used_by code = None \<and> credits_of c db = [] \<or>
      rc_status code = ''used'' \<and> (\<exists>u. rc_used_by code = Some u \<and> credits_of c db = [(c, u, rc_value code)]))"

definition codes_ok :: "'m pay_db \<Rightarrow> bool" where
  "codes_ok db \<longleftrightarrow> (\<forall>c code. pd_codes db c = Some code \<longrightarrow> code_ok c code db) \<and>
     (\<forall>c. pd_codes db c = None \<longrightarrow> credits_of c db = [])"

definition grants_ok :: "'m pay_db \<Rightarrow> bool" where
  "grants_ok db \<longleftrightarrow>
     (\<forall>oid. (has_audit oid ''SUBSCRIPTION_ASSIGNED'' db \<longleftrightarrow> grants_of oid db \<noteq> []) \<and>
        (has_audit oid ''SUBSCRIPTION_SUCCESS'' db \<longrightarrow> grants_of oid db \<noteq> []) \<and> length (grants_of oid db) \<le> 1) \<and>
     (\<forall>u g oid. order_note oid \<in> set (pd_sub_notes db (u, g)) \<longrightarrow> grants_of oid db \<noteq> []) \<and>
     (\<forall>oid u g d. (oid, u, g, d) \<in> set (pd_grants db) \<longrightarrow> (\<exists>row. pd_orders db oid = Some row \<and>
        po_user row = u \<and> po_group row = Some g \<and> po_days row = Some d))"

definition rebates_ok :: "'m pay_db \<Rightarrow> bool" where
  "rebates_ok db \<longleftrightarrow>
     (\<forall>oid. length (rebates_of oid db) \<le> 1 \<and>
        (rebates_of oid db \<noteq> [] \<longrightarrow> has_audit oid ''AFFILIATE_REBATE_APPLIED'' db))"

definition order_ok :: "'m pay_env \<Rightarrow> int \<Rightarrow> 'm::{ord,minus,abs} pay_order \<Rightarrow> 'm pay_db \<Rightarrow> bool" where
  "order_ok env oid row db \<longleftrightarrow> po_id row = oid \<and> 0 < oid \<and> (\<exists>n. po_code row = order_code oid n) \<and>
     (po_status row = Completed \<longrightarrow> delivered env row db) \<and>
     (po_status row \<in> {Paid, Recharging, Completed} \<or> po_paid_at row \<noteq> None \<longrightarrow> oid \<in> pd_confirmed db)"

definition orders_ok :: "'m pay_env \<Rightarrow> 'm::{ord,minus,abs} pay_db \<Rightarrow> bool" where
  "orders_ok env db \<longleftrightarrow> (\<forall>oid row. pd_orders db oid = Some row \<longrightarrow> order_ok env oid row db)"

definition db_ok :: "'m pay_env \<Rightarrow> 'm::{ord,minus,abs} pay_db \<Rightarrow> bool" where
  "db_ok env db \<longleftrightarrow> codes_ok db \<and> grants_ok db \<and> rebates_ok db \<and> orders_ok env db"

text \<open>How the database may grow.\<close>

definition db_grows :: "'m pay_db \<Rightarrow> 'm pay_db \<Rightarrow> bool" where
  "db_grows db db' \<longleftrightarrow>
     (\<forall>oid row. pd_orders db oid = Some row \<longrightarrow> (\<exists>row'. pd_orders db' oid = Some row' \<and> same_order row' row)) \<and>
     (\<forall>c code. pd_codes db c = Some code \<longrightarrow> (\<exists>code'. pd_codes db' c = Some code' \<and> rc_value code' = rc_value code)) \<and>
     (\<forall>c. credits_of c db \<noteq> [] \<longrightarrow> credits_of c db' = credits_of c db) \<and>
     (\<forall>oid. grants_of oid db \<noteq> [] \<longrightarrow> grants_of oid db' = grants_of oid db) \<and>
     pd_confirmed db \<subseteq> pd_confirmed db'"

lemma same_order_refl [simp]: "same_order row row"
  by (simp add: same_order_def)

lemma same_order_trans: "same_order a b \<Longrightarrow> same_order b c \<Longrightarrow> same_order a c"
  by (simp add: same_order_def)

lemma same_order_sym: "same_order a b \<Longrightarrow> same_order b a"
  by (simp add: same_order_def)

lemma delivered_same: "same_order a b \<Longrightarrow> delivered env a db = delivered env b db"
  by (simp add: same_order_def delivered_def near_amount_def)

lemma db_grows_refl [simp]: "db_grows db db"
  by (auto simp: db_grows_def intro: same_order_refl)

lemma db_grows_trans:
  assumes "db_grows a b" "db_grows b c"
  shows "db_grows a c"
proof -
  have o: "\<exists>r'. pd_orders c oid = Some r' \<and> same_order r' row" if "pd_orders a oid = Some row" for oid row
  proof -
    from assms(1) that obtain r1 where "pd_orders b oid = Some r1" "same_order r1 row"
      unfolding db_grows_def by blast
    moreover from assms(2) this(1) obtain r2 where "pd_orders c oid = Some r2" "same_order r2 r1"
      unfolding db_grows_def by blast
    ultimately show ?thesis using same_order_trans by blast
  qed
  have k: "\<exists>d'. pd_codes c x = Some d' \<and> rc_value d' = rc_value d" if "pd_codes a x = Some d" for x d
  proof -
    from assms(1) that obtain d1 where "pd_codes b x = Some d1" "rc_value d1 = rc_value d"
      unfolding db_grows_def by blast
    moreover from assms(2) this(1) obtain d2 where "pd_codes c x = Some d2" "rc_value d2 = rc_value d1"
      unfolding db_grows_def by blast
    ultimately show ?thesis by simp
  qed
  have "credits_of x c = credits_of x a" if "credits_of x a \<noteq> []" for x
    using assms that unfolding db_grows_def by metis
  moreover have "grants_of x c = grants_of x a" if "grants_of x a \<noteq> []" for x
    using assms that unfolding db_grows_def by metis
  moreover have "pd_confirmed a \<subseteq> pd_confirmed c" using assms unfolding db_grows_def by blast
  ultimately show ?thesis using o k unfolding db_grows_def by blast
qed

lemma delivered_grows: "delivered env row db \<Longrightarrow> db_grows db db' \<Longrightarrow> delivered env row db'"
  by (auto simp: delivered_def db_grows_def split: if_splits)

lemma order_ok_grows: "order_ok env oid row db \<Longrightarrow> db_grows db db' \<Longrightarrow> order_ok env oid row db'"
  using delivered_grows [of env row db db'] by (auto simp: order_ok_def db_grows_def)


section \<open>Operations that keep the invariant\<close>

text \<open>\<open>kept env db db'\<close>: the invariant holds after, and the database has only grown.\<close>

definition kept :: "'m pay_env \<Rightarrow> 'm::{ord,minus,abs} pay_db \<Rightarrow> 'm pay_db \<Rightarrow> bool" where
  "kept env db db' \<longleftrightarrow> db_ok env db' \<and> db_grows db db'"

lemma kept_refl: "db_ok env db \<Longrightarrow> kept env db db"
  by (simp add: kept_def)

lemma kept_trans: "kept env a b \<Longrightarrow> kept env b c \<Longrightarrow> kept env a c"
  unfolding kept_def using db_grows_trans by blast

text \<open>The views see only their own tables.\<close>

lemma views_update [simp]:
  "credits_of c (db\<lparr>pd_orders := os\<rparr>) = credits_of c db" "grants_of i (db\<lparr>pd_orders := os\<rparr>) = grants_of i db"
  "rebates_of i (db\<lparr>pd_orders := os\<rparr>) = rebates_of i db" "has_audit i a (db\<lparr>pd_orders := os\<rparr>) = has_audit i a db"
  "credits_of c (db\<lparr>pd_audits := as\<rparr>) = credits_of c db" "grants_of i (db\<lparr>pd_audits := as\<rparr>) = grants_of i db"
  "rebates_of i (db\<lparr>pd_audits := as\<rparr>) = rebates_of i db"
  "credits_of c (db\<lparr>pd_confirmed := cf\<rparr>) = credits_of c db" "grants_of i (db\<lparr>pd_confirmed := cf\<rparr>) = grants_of i db"
  "rebates_of i (db\<lparr>pd_confirmed := cf\<rparr>) = rebates_of i db" "has_audit i a (db\<lparr>pd_confirmed := cf\<rparr>) = has_audit i a db"
  "credits_of c (db\<lparr>pd_users := us\<rparr>) = credits_of c db" "grants_of i (db\<lparr>pd_users := us\<rparr>) = grants_of i db"
  "rebates_of i (db\<lparr>pd_users := us\<rparr>) = rebates_of i db" "has_audit i a (db\<lparr>pd_users := us\<rparr>) = has_audit i a db"
  "credits_of c (db\<lparr>pd_codes := cs\<rparr>) = credits_of c db" "grants_of i (db\<lparr>pd_codes := cs\<rparr>) = grants_of i db"
  "rebates_of i (db\<lparr>pd_codes := cs\<rparr>) = rebates_of i db" "has_audit i a (db\<lparr>pd_codes := cs\<rparr>) = has_audit i a db"
  "credits_of c (db\<lparr>pd_rebates := rs\<rparr>) = credits_of c db" "grants_of i (db\<lparr>pd_rebates := rs\<rparr>) = grants_of i db"
  "has_audit i a (db\<lparr>pd_rebates := rs\<rparr>) = has_audit i a db"
  "credits_of c (db\<lparr>pd_sub_notes := ns\<rparr>) = credits_of c db" "grants_of i (db\<lparr>pd_sub_notes := ns\<rparr>) = grants_of i db"
  "rebates_of i (db\<lparr>pd_sub_notes := ns\<rparr>) = rebates_of i db" "has_audit i a (db\<lparr>pd_sub_notes := ns\<rparr>) = has_audit i a db"
  "grants_of i (db\<lparr>pd_credits := cr\<rparr>) = grants_of i db" "rebates_of i (db\<lparr>pd_credits := cr\<rparr>) = rebates_of i db"
  "has_audit i a (db\<lparr>pd_credits := cr\<rparr>) = has_audit i a db"
  "credits_of c (db\<lparr>pd_grants := gr\<rparr>) = credits_of c db" "rebates_of i (db\<lparr>pd_grants := gr\<rparr>) = rebates_of i db"
  "has_audit i a (db\<lparr>pd_grants := gr\<rparr>) = has_audit i a db"
  by (simp_all add: credits_of_def grants_of_def rebates_of_def has_audit_def)

lemma audit_sel [simp]:
  "pd_orders (audit i a db) = pd_orders db" "pd_codes (audit i a db) = pd_codes db" "pd_users (audit i a db) = pd_users db"
  "pd_confirmed (audit i a db) = pd_confirmed db" "pd_sub_notes (audit i a db) = pd_sub_notes db"
  "pd_grants (audit i a db) = pd_grants db" "credits_of c (audit i a db) = credits_of c db"
  "grants_of o' (audit i a db) = grants_of o' db" "rebates_of o' (audit i a db) = rebates_of o' db"
  "has_audit o' b (audit i a db) = (o' = i \<and> b = a \<or> has_audit o' b db)"
  by (auto simp: audit_def has_audit_def)

lemma delivered_cong:
  "credits_of (po_code row) db' = credits_of (po_code row) db \<Longrightarrow> grants_of (po_id row) db' = grants_of (po_id row) db
     \<Longrightarrow> delivered env row db' = delivered env row db"
  by (simp add: delivered_def)

lemma kept_audit:
  assumes "db_ok env db" "a = ''SUBSCRIPTION_SUCCESS'' \<or> a = ''SUBSCRIPTION_ASSIGNED'' \<Longrightarrow> grants_of i db \<noteq> []"
  shows "kept env db (audit i a db)"
proof -
  have del: "delivered env row (audit i a db) = delivered env row db" for row by (rule delivered_cong) simp_all
  have "codes_ok (audit i a db)" using assms(1) by (simp add: db_ok_def codes_ok_def code_ok_def)
  moreover have "grants_ok (audit i a db)" using assms by (auto simp: db_ok_def grants_ok_def)
  moreover have "rebates_ok (audit i a db)" using assms(1) by (auto simp: db_ok_def rebates_ok_def)
  moreover have "orders_ok env (audit i a db)" using assms(1) by (auto simp: db_ok_def orders_ok_def order_ok_def del)
  moreover have "db_grows db (audit i a db)" by (auto simp: db_grows_def intro: same_order_refl)
  ultimately show ?thesis by (simp add: kept_def db_ok_def)
qed

lemma kept_confirm: "db_ok env db \<Longrightarrow> kept env db (db\<lparr>pd_confirmed := insert i (pd_confirmed db)\<rparr>)"
proof -
  assume ok: "db_ok env db"
  let ?db = "db\<lparr>pd_confirmed := insert i (pd_confirmed db)\<rparr>"
  have del: "delivered env row ?db = delivered env row db" for row by (rule delivered_cong) simp_all
  have "db_ok env ?db" using ok
    by (auto simp: db_ok_def codes_ok_def code_ok_def grants_ok_def rebates_ok_def orders_ok_def order_ok_def del)
  moreover have "db_grows db ?db" by (auto simp: db_grows_def)
  ultimately show ?thesis by (simp add: kept_def)
qed

lemma kept_users: "db_ok env db \<Longrightarrow> kept env db (db\<lparr>pd_users := us\<rparr>)"
proof -
  assume ok: "db_ok env db"
  have del: "delivered env row (db\<lparr>pd_users := us\<rparr>) = delivered env row db" for row by (rule delivered_cong) simp_all
  have "db_ok env (db\<lparr>pd_users := us\<rparr>)" using ok
    by (auto simp: db_ok_def codes_ok_def code_ok_def grants_ok_def rebates_ok_def orders_ok_def order_ok_def del)
  then show ?thesis by (auto simp: kept_def db_grows_def)
qed

text \<open>The update of an order.\<close>

lemma kept_order:
  assumes ok: "db_ok env db" and row: "pd_orders db i = Some row" and same: "same_order row' row"
    and new: "order_ok env i row' db"
  shows "kept env db (db\<lparr>pd_orders := (pd_orders db)(i \<mapsto> row')\<rparr>)"
proof -
  let ?db = "db\<lparr>pd_orders := (pd_orders db)(i \<mapsto> row')\<rparr>"
  have del: "delivered env r ?db = delivered env r db" for r by (rule delivered_cong) simp_all
  have "orders_ok env ?db"
    using ok new by (auto simp: db_ok_def orders_ok_def order_ok_def del)
  moreover have "grants_ok ?db"
  proof -
    have "\<exists>r. pd_orders ?db oid = Some r \<and> po_user r = u \<and> po_group r = Some g \<and> po_days r = Some d"
      if "(oid, u, g, d) \<in> set (pd_grants db)" for oid u g d
    proof -
      from ok that obtain r where "pd_orders db oid = Some r" "po_user r = u" "po_group r = Some g" "po_days r = Some d"
        unfolding db_ok_def grants_ok_def by blast
      with row same show ?thesis by (cases "oid = i") (auto simp: same_order_def)
    qed
    with ok show ?thesis unfolding db_ok_def grants_ok_def by simp
  qed
  moreover have "codes_ok ?db" "rebates_ok ?db"
    using ok by (simp_all add: db_ok_def codes_ok_def code_ok_def rebates_ok_def)
  moreover have "db_grows db ?db" using row same by (auto simp: db_grows_def)
  ultimately show ?thesis by (simp add: kept_def db_ok_def)
qed

lemma kept_update_order:
  assumes ok: "db_ok env db" and upd: "update_order i now guard f db = (hit, db')"
    and new: "\<And>row. pd_orders db i = Some row \<Longrightarrow> guard row \<Longrightarrow> order_ok env i row db
       \<Longrightarrow> same_order (f row) row \<and> order_ok env i ((f row)\<lparr>po_updated_at := now\<rparr>) db"
  shows "kept env db db'"
proof (cases "\<exists>row. pd_orders db i = Some row \<and> guard row")
  case True
  then obtain row where row: "pd_orders db i = Some row" "guard row" by blast
  with ok have "order_ok env i row db" by (auto simp: db_ok_def orders_ok_def)
  from new [OF row this] have "same_order ((f row)\<lparr>po_updated_at := now\<rparr>) row" "order_ok env i ((f row)\<lparr>po_updated_at := now\<rparr>) db"
    by (auto simp: same_order_def)
  with kept_order [OF ok row(1)] upd row show ?thesis by (auto simp: update_order_def)
next
  case False
  then have "db' = db" using upd by (auto simp: update_order_def split: option.splits if_splits)
  with ok show ?thesis by (simp add: kept_refl)
qed


section \<open>Codes of orders\<close>

lemma mark_split: "c \<notin> set xs \<Longrightarrow> c \<notin> set ys \<Longrightarrow> xs @ c # s = ys @ c # t \<Longrightarrow> xs = ys"
proof (induction xs arbitrary: ys)
  case Nil
  then show ?case by (cases ys) auto
next
  case (Cons x xs)
  then show ?case by (cases ys) auto
qed

lemma no_dash: "0 < i \<Longrightarrow> CHR ''-'' \<notin> set (itoa i)"
  using digits_of_nat_is_digit [of "CHR ''-''" "nat i"] by (auto simp: itoa_def is_digit_def)

lemma order_code_inj: "order_code i m = order_code j n \<Longrightarrow> 0 < i \<Longrightarrow> 0 < j \<Longrightarrow> i = j"
  unfolding order_code_def using mark_split [of "CHR ''-''" "itoa i" "itoa j"] no_dash [of i] no_dash [of j]
  by (auto dest: itoa_inj)

lemma last_digit: "\<exists>d ds. is_digit d \<and> rev (digits_of_nat k) = d # ds"
proof -
  have "digits_of_nat k \<noteq> []" by simp
  then obtain d ds where "rev (digits_of_nat k) = d # ds" by (cases "rev (digits_of_nat k)") auto
  moreover from this have "d \<in> set (digits_of_nat k)" by (metis list.set_intros(1) set_rev)
  ultimately show ?thesis using digits_of_nat_is_digit by blast
qed

lemma white_not_digit: "w \<in> set (map rev white_runes) \<Longrightarrow> is_digit d \<Longrightarrow> \<not> prefix w (d # ds)"
  by (auto simp: white_runes_def is_digit_def)

lemma trim_order_code [simp]: "trim_space (order_code i n) = order_code i n"
proof -
  have front: "strip_any white_runes (order_code i n) = order_code i n"
    by (rule strip_any_id) (auto simp: white_runes_def order_code_def)
  obtain d ds where d: "is_digit d" "rev (itoa (int (n mod 100000))) = d # ds"
    using last_digit [of "n mod 100000"] by (auto simp: itoa_def)
  then have "rev (order_code i n) = d # ds @ rev (''PAY-'' @ itoa i @ ''-'')" by (simp add: order_code_def)
  with d(1) have "strip_any (map rev white_runes) (rev (order_code i n)) = rev (order_code i n)"
    using white_not_digit [OF _ d(1)] by (intro strip_any_id) (metis (no_types))
  with front show ?thesis by (simp add: trim_space_def)
qed

lemma order_code_not_Nil [simp]: "order_code i n \<noteq> []"
  by (simp add: order_code_def)


section \<open>Payouts keep the invariant\<close>

lemma db_ok_parts: "db_ok env db \<Longrightarrow> codes_ok db \<and> grants_ok db \<and> rebates_ok db \<and> orders_ok env db"
  by (simp add: db_ok_def)

lemma orders_ok_grows:
  "orders_ok env db \<Longrightarrow> db_grows db db' \<Longrightarrow> pd_orders db' = pd_orders db \<Longrightarrow> orders_ok env db'"
  by (auto simp: orders_ok_def intro: order_ok_grows)

lemma kept_new_order:
  assumes ok: "db_ok env db" and fresh: "pd_orders db (po_id row) = None" "0 < po_id row"
  shows "kept env db (db\<lparr>pd_orders := (pd_orders db)(po_id row \<mapsto> fresh_order now n row)\<rparr>)"
proof -
  let ?db = "db\<lparr>pd_orders := (pd_orders db)(po_id row \<mapsto> fresh_order now n row)\<rparr>"
  have del: "delivered env r ?db = delivered env r db" for r by (rule delivered_cong) simp_all
  have "grants_ok ?db"
  proof -
    have "\<exists>r. pd_orders ?db oid = Some r \<and> po_user r = u \<and> po_group r = Some g \<and> po_days r = Some d"
      if "(oid, u, g, d) \<in> set (pd_grants db)" for oid u g d
    proof -
      from db_ok_parts [OF ok] that obtain r
        where "pd_orders db oid = Some r" "po_user r = u" "po_group r = Some g" "po_days r = Some d"
        unfolding grants_ok_def by blast
      with fresh show ?thesis by (cases "oid = po_id row") auto
    qed
    with db_ok_parts [OF ok] show ?thesis unfolding grants_ok_def by simp
  qed
  moreover have "orders_ok env ?db"
  proof -
    have "order_ok env (po_id row) (fresh_order now n row) ?db" using fresh(2)
      by (auto simp: order_ok_def fresh_order_def)
    moreover have "order_ok env oid r ?db" if "pd_orders db oid = Some r" for oid r
      using db_ok_parts [OF ok] that by (simp add: orders_ok_def order_ok_def del)
    ultimately show ?thesis by (simp add: orders_ok_def)
  qed
  moreover have "codes_ok ?db" "rebates_ok ?db"
    using db_ok_parts [OF ok] by (simp_all add: codes_ok_def code_ok_def rebates_ok_def)
  moreover have "db_grows db ?db" using fresh by (auto simp: db_grows_def)
  ultimately show ?thesis by (simp add: kept_def db_ok_def)
qed

text \<open>What a creation of a code of a balance does.\<close>

lemma create_code_cases:
  assumes "create_code now code db = (r, db')" "rc_type code = ''balance''" "rc_status code = ''unused''"
  shows "db' = db \<and> r \<noteq> None \<or>
    r = None \<and> pd_codes db (trim_space (rc_code code)) = None \<and>
    db' = db\<lparr>pd_codes := (pd_codes db)(trim_space (rc_code code) \<mapsto> code\<lparr>rc_code := trim_space (rc_code code)\<rparr>)\<rparr>"
  using assms by (cases code) (auto simp: create_code_def Let_def split: if_splits)

lemma kept_create_code:
  assumes ok: "db_ok env db" and cr: "create_code now code db = (r, db')"
    and shape: "rc_type code = ''balance''" "rc_status code = ''unused''" "rc_used_by code = None"
  shows "kept env db db'"
  using create_code_cases [OF cr shape(1,2)]
proof (elim disjE conjE)
  assume "db' = db"
  with ok show ?thesis by (simp add: kept_refl)
next
  let ?c = "trim_space (rc_code code)"
  assume none: "pd_codes db ?c = None"
    and db': "db' = db\<lparr>pd_codes := (pd_codes db)(?c \<mapsto> code\<lparr>rc_code := ?c\<rparr>)\<rparr>"
  have grows: "db_grows db db'" unfolding db' using none by (auto simp: db_grows_def)
  moreover have "codes_ok db'" using db_ok_parts [OF ok] none shape
    by (auto simp: db' codes_ok_def code_ok_def)
  moreover have "orders_ok env db'"
    using db_ok_parts [OF ok] grows by (auto intro: orders_ok_grows simp: db')
  moreover have "grants_ok db'" "rebates_ok db'"
    using db_ok_parts [OF ok] by (simp_all add: db' grants_ok_def rebates_ok_def)
  ultimately show ?thesis by (simp add: kept_def db_ok_def)
qed

lemma credits_of_append: "pd_credits db' = pd_credits db @ [(c, u, v)] \<Longrightarrow>
    credits_of x db' = credits_of x db @ (if x = c then [(c, u, v)] else [])"
  by (simp add: credits_of_def)

lemma kept_use_code:
  assumes ok: "db_ok env db" and use: "use_code code uid db = (r, db')"
    and link: "\<And>cur. pd_codes db (rc_code code) = Some cur \<Longrightarrow> rc_value cur = rc_value code"
  shows "kept env db db' \<and> (r = None \<longrightarrow> credits_of (rc_code code) db' = [(rc_code code, uid, rc_value code)])"
proof (cases "r")
  case None
  let ?c = "rc_code code"
  from use None obtain cur u where cur: "pd_codes db ?c = Some cur" "rc_status cur = ''unused''"
    and db': "db' = db\<lparr>pd_codes := (pd_codes db)(?c \<mapsto> cur\<lparr>rc_status := ''used'', rc_used_by := Some uid\<rparr>),
                    pd_users := (pd_users db)(uid \<mapsto> credit_user (rc_value code) u),
                    pd_credits := pd_credits db @ [(?c, uid, rc_value code)]\<rparr>"
    by (auto simp: use_code_def split: option.splits if_splits)
  have app: "credits_of x db' = credits_of x db @ (if x = ?c then [(?c, uid, rc_value code)] else [])" for x
    by (rule credits_of_append) (simp add: db')
  from db_ok_parts [OF ok] cur(1) have "code_ok ?c cur db" by (simp add: codes_ok_def)
  with cur(2) have before: "credits_of ?c db = []" and shape: "rc_code cur = ?c" "rc_type cur = ''balance''"
    by (simp_all add: code_ok_def)
  have "codes_ok db'" unfolding codes_ok_def
  proof (intro conjI allI impI)
    fix x d
    assume d: "pd_codes db' x = Some d"
    show "code_ok x d db'"
    proof (cases "x = ?c")
      case True
      with d shape before link [OF cur(1)] app [of x] show ?thesis by (auto simp: code_ok_def db')
    next
      case False
      then have "pd_codes db x = Some d" using d by (simp add: db')
      with db_ok_parts [OF ok] have "code_ok x d db" by (simp add: codes_ok_def)
      with app [of x] False show ?thesis by (simp add: code_ok_def)
    qed
  next
    fix x
    assume "pd_codes db' x = None"
    then have "pd_codes db x = None" "x \<noteq> ?c" by (auto simp: db' split: if_splits)
    with db_ok_parts [OF ok] app [of x] show "credits_of x db' = []" by (simp add: codes_ok_def)
  qed
  moreover have views: "grants_of i db' = grants_of i db" "rebates_of i db' = rebates_of i db" "has_audit i a db' = has_audit i a db" for i a
    by (simp_all add: db' grants_of_def rebates_of_def has_audit_def)
  moreover have grows: "db_grows db db'" using before cur(1) app views
    by (auto simp: db_grows_def) (auto simp: db')
  moreover have "orders_ok env db'" using db_ok_parts [OF ok] grows by (auto intro: orders_ok_grows simp: db')
  moreover have "grants_ok db'" "rebates_ok db'"
    using db_ok_parts [OF ok] views by (simp_all add: db' grants_ok_def rebates_ok_def)
  ultimately show ?thesis using app [of ?c] before by (simp add: kept_def db_ok_def)
next
  case (Some e)
  with use have "db' = db" by (auto simp: use_code_def split: option.splits if_splits)
  with ok Some show ?thesis by (simp add: kept_refl)
qed


definition stored :: "'m pay_order \<Rightarrow> 'm pay_db \<Rightarrow> bool" where
  "stored row db \<longleftrightarrow> (\<exists>cur. pd_orders db (po_id row) = Some cur \<and> same_order cur row)"

lemma stored_grows: "stored row db \<Longrightarrow> db_grows db db' \<Longrightarrow> stored row db'"
  unfolding stored_def db_grows_def using same_order_trans by blast

text \<open>A subscription that has been granted for an order is the one of the order.\<close>

lemma granted_entry:
  assumes ok: "db_ok env db" and st: "stored row db" and g: "grants_of (po_id row) db \<noteq> []"
  shows "\<exists>gid days. po_group row = Some gid \<and> po_days row = Some days \<and>
           grants_of (po_id row) db = [(po_id row, po_user row, gid, days)]"
proof -
  from db_ok_parts [OF ok] have len: "length (grants_of (po_id row) db) \<le> 1" by (simp add: grants_ok_def)
  from g obtain e es where es: "grants_of (po_id row) db = e # es" by (cases "grants_of (po_id row) db") auto
  with len have es': "grants_of (po_id row) db = [e]" by simp
  then have "e \<in> set (grants_of (po_id row) db)" by simp
  then have mem: "e \<in> set (pd_grants db)" and id: "fst e = po_id row" by (simp_all add: grants_of_def)
  obtain u gg d where e: "e = (po_id row, u, gg, d)" using id by (cases e) auto
  from db_ok_parts [OF ok] mem obtain r where "pd_orders db (po_id row) = Some r" "po_user r = u" "po_group r = Some gg" "po_days r = Some d"
    unfolding e grants_ok_def by blast
  with st es' e show ?thesis by (auto simp: stored_def same_order_def)
qed

lemma order_note_inj: "order_note i = order_note j \<Longrightarrow> i = j"
  by (auto simp: order_note_def dest: itoa_inj)

lemma kept_assign_once:
  assumes ok: "db_ok env db" and st: "stored row db"
    and sub: "po_group row = Some gid" "po_days row = Some days"
    and asg: "assign_once env row gid days db = (r, db')"
  shows "kept env db db' \<and> (r = None \<longrightarrow> grants_of (po_id row) db' = [(po_id row, po_user row, gid, days)])"
proof -
  let ?i = "po_id row"
  note G = db_ok_parts [OF ok]
  have entry: "grants_of ?i db = [(?i, po_user row, gid, days)]" if "grants_of ?i db \<noteq> []"
    using granted_entry [OF ok st that] sub by auto
  consider (again) "db' = db" "r = None" "grants_of ?i db \<noteq> []"
    | (noted) "db' = audit ?i ''SUBSCRIPTION_ASSIGNED'' db" "r = None" "grants_of ?i db \<noteq> []"
    | (refused) "db' = db" "r \<noteq> None"
    | (granted) "grants_of ?i db = []" "r = None"
      "db' = audit ?i ''SUBSCRIPTION_ASSIGNED'' (db\<lparr>pd_grants := pd_grants db @ [(?i, po_user row, gid, days)],
              pd_sub_notes := (pd_sub_notes db)((po_user row, gid) := pd_sub_notes db (po_user row, gid) @ [order_note ?i])\<rparr>)"
  proof -
    show ?thesis
    proof (cases "has_audit ?i ''SUBSCRIPTION_ASSIGNED'' db \<or> has_audit ?i ''SUBSCRIPTION_SUCCESS'' db")
      case True
      then have "grants_of ?i db \<noteq> []" using G by (auto simp: grants_ok_def)
      with True asg show ?thesis by (intro again) (auto simp: assign_once_def Let_def)
    next
      case no: False
      then have none: "grants_of ?i db = []" using G by (auto simp: grants_ok_def)
      then have "order_note ?i \<notin> set (pd_sub_notes db (po_user row, gid))" using G unfolding grants_ok_def by blast
      with no none asg show ?thesis
        by (cases "pe_assign_ok env (po_user row) gid") (auto simp: assign_once_def Let_def intro: refused granted)
    qed
  qed
  then show ?thesis
  proof cases
    case again
    with ok entry show ?thesis by (simp add: kept_refl)
  next
    case noted
    with ok entry show ?thesis by (simp add: kept_audit)
  next
    case refused
    with ok show ?thesis by (auto simp: kept_refl)
  next
    case granted
    let ?e = "(?i, po_user row, gid, days)"
    have gr: "grants_of j db' = (if j = ?i then [?e] else grants_of j db)" for j
      using granted(1) unfolding granted(3) by (auto simp: grants_of_def audit_def)
    have others: "credits_of c db' = credits_of c db" "rebates_of j db' = rebates_of j db"
      "has_audit j a db' = (j = ?i \<and> a = ''SUBSCRIPTION_ASSIGNED'' \<or> has_audit j a db)"
      "pd_orders db' = pd_orders db" "pd_codes db' = pd_codes db" "pd_confirmed db' = pd_confirmed db" for c j a
      unfolding granted(3) by (auto simp: credits_of_def rebates_of_def has_audit_def audit_def)
    have grows: "db_grows db db'" using granted(1) by (auto simp: db_grows_def gr others)
    have marked: "order_note j \<in> set (pd_sub_notes db' (u, g)) \<Longrightarrow> j = ?i \<or> order_note j \<in> set (pd_sub_notes db (u, g))" for j u g
      unfolding granted(3) by (auto simp: audit_def split: if_splits dest: order_note_inj)
    have backed: "grants_of j db' \<noteq> []" if "order_note j \<in> set (pd_sub_notes db' (u, g))" for j u g
    proof -
      from marked [OF that] G have "j = ?i \<or> grants_of j db \<noteq> []" unfolding grants_ok_def by blast
      then show ?thesis by (auto simp: gr)
    qed
    have "grants_ok db'" unfolding grants_ok_def
    proof (intro conjI allI impI)
      fix oid u g d
      assume "(oid, u, g, d) \<in> set (pd_grants db')"
      then have "(oid, u, g, d) \<in> set (pd_grants db) \<or> (oid, u, g, d) = ?e" by (auto simp: granted(3) audit_def)
      then show "\<exists>r. pd_orders db' oid = Some r \<and> po_user r = u \<and> po_group r = Some g \<and> po_days r = Some d"
        using G st sub unfolding grants_ok_def by (auto simp: others stored_def same_order_def)
    qed (use G backed in \<open>auto simp: grants_ok_def gr others split: if_splits\<close>)
    moreover have "codes_ok db'" "rebates_ok db'"
      using G by (auto simp: codes_ok_def code_ok_def rebates_ok_def others)
    moreover have "orders_ok env db'" using G grows by (auto intro: orders_ok_grows simp: others)
    ultimately show ?thesis using grows gr granted(2) by (simp add: kept_def db_ok_def)
  qed
qed

lemma kept_rebate_once:
  assumes ok: "db_ok env db"
  shows "kept env db (rebate_once env row db)"
proof -
  note G = db_ok_parts [OF ok]
  let ?i = "po_id row" and ?x = "''AFFILIATE_REBATE_APPLIED''"
  have new: "kept env db (audit ?i ?x (db\<lparr>pd_rebates := pd_rebates db @ [(?i, a)]\<rparr>))" if "\<not> has_audit ?i ?x db" for a
  proof -
    let ?db = "audit ?i ?x (db\<lparr>pd_rebates := pd_rebates db @ [(?i, a)]\<rparr>)"
    from that G have none: "rebates_of ?i db = []" by (auto simp: rebates_ok_def)
    then have rb: "rebates_of j (db\<lparr>pd_rebates := pd_rebates db @ [(?i, a)]\<rparr>) = (if j = ?i then [(?i, a)] else rebates_of j db)" for j
      by (auto simp: rebates_of_def)
    have grows: "db_grows db ?db" by (auto simp: db_grows_def)
    have "rebates_ok ?db" using G by (auto simp: rebates_ok_def rb)
    moreover have "orders_ok env ?db" using G grows by (auto intro: orders_ok_grows)
    moreover have "codes_ok ?db" using G by (auto simp: codes_ok_def code_ok_def)
    moreover have "grants_ok ?db" using G by (auto simp: grants_ok_def)
    ultimately show ?thesis using grows by (simp add: kept_def db_ok_def)
  qed
  have skip: "kept env db (audit ?i ''AFFILIATE_REBATE_SKIPPED'' db)" by (rule kept_audit [OF ok]) simp
  show ?thesis using ok new skip
    by (auto simp: rebate_once_def Let_def kept_refl split: option.split)
qed


section \<open>The invariant of the jobs\<close>

definition known :: "'m pay_order \<Rightarrow> 'm pay_db \<Rightarrow> bool" where
  "known row db \<longleftrightarrow> stored row db \<and> po_id row \<in> pd_confirmed db \<and> (\<exists>n. po_code row = order_code (po_id row) n)"

definition linked :: "'m redeem_code \<Rightarrow> 'm pay_db \<Rightarrow> bool" where
  "linked code db \<longleftrightarrow> (\<exists>cur. pd_codes db (rc_code code) = Some cur \<and> rc_value cur = rc_value code)"

definition worth :: "'m pay_env \<Rightarrow> 'm::{ord,minus,abs} pay_order \<Rightarrow> 'm pay_db \<Rightarrow> bool" where
  "worth env row db \<longleftrightarrow> po_type row \<noteq> ''subscription'' \<and>
     (\<exists>cur. pd_codes db (po_code row) = Some cur \<and> near_amount env row (rc_value cur))"

fun job_ok :: "'m pay_env \<Rightarrow> 'm::{ord,minus,abs} job \<Rightarrow> 'm pay_db \<Rightarrow> bool" where
  "job_ok env (J_to_paid row n) db = known row db"
| "job_ok env (J_already oid) db = (oid \<in> pd_confirmed db)"
| "job_ok env (J_execute oid) db = (oid \<in> pd_confirmed db)"
| "job_ok env (J_reject oid) db = (oid \<in> pd_confirmed db)"
| "job_ok env (J_balance oid) db = (oid \<in> pd_confirmed db)"
| "job_ok env (J_subscription oid) db = (oid \<in> pd_confirmed db)"
| "job_ok env (J_lease row) db = known row db"
| "job_ok env (J_lease_missed row) db = known row db"
| "job_ok env (J_lease_check row) db = known row db"
| "job_ok env (J_lookup row v) db = (known row db \<and> po_type row \<noteq> ''subscription'')"
| "job_ok env (J_create row v) db = (known row db \<and> po_type row \<noteq> ''subscription'')"
| "job_ok env (J_redeem row v) db = (known row db \<and> worth env row db)"
| "job_ok env (J_use row v code) db = (known row db \<and> worth env row db \<and> rc_code code = po_code row \<and> linked code db)"
| "job_ok env (J_group row v) db = (known row db \<and> po_type row = ''subscription'')"
| "job_ok env (J_assign row v gid days) db = (known row db \<and> po_type row = ''subscription'' \<and>
     po_group row = Some gid \<and> po_days row = Some days)"
| "job_ok env (J_rebate row v) db = (known row db \<and> delivered env row db)"
| "job_ok env (J_complete row v) db = (known row db \<and> delivered env row db)"
| "job_ok env (J_complete_missed row v) db = known row db"
| "job_ok env (J_fail row v e) db = known row db"
| "job_ok env (J_mark oid fs) db = (fs = Cancelled \<or> fs = Expired)"
| "job_ok env (J_public_use uid code) db = linked code db"
| "job_ok env j db = True"

lemma known_grows: "known row db \<Longrightarrow> db_grows db db' \<Longrightarrow> known row db'"
  using stored_grows unfolding known_def db_grows_def by blast

lemma linked_grows: "linked code db \<Longrightarrow> db_grows db db' \<Longrightarrow> linked code db'"
  unfolding linked_def db_grows_def by metis

lemma worth_grows: "worth env row db \<Longrightarrow> db_grows db db' \<Longrightarrow> worth env row db'"
  unfolding worth_def db_grows_def by metis

lemma job_ok_grows: "job_ok env j db \<Longrightarrow> db_grows db db' \<Longrightarrow> job_ok env j db'"
  by (cases j) (auto intro: known_grows linked_grows worth_grows delivered_grows, auto simp: db_grows_def)

lemma job_ok_fault: "job_ok env j db \<Longrightarrow> job_ok env (job_fault j) db"
  by (cases j) auto


section \<open>Every step keeps the invariants\<close>

text \<open>What a step has to show.\<close>

definition advances :: "'m pay_env \<Rightarrow> 'm::{ord,minus,abs} pay_db \<Rightarrow> 'm job \<times> 'm pay_db \<Rightarrow> bool" where
  "advances env db r \<longleftrightarrow> kept env db (snd r) \<and> job_ok env (fst r) (snd r)"

lemma advances_same [intro]: "db_ok env db \<Longrightarrow> job_ok env j db \<Longrightarrow> advances env db (j, db)"
  by (simp add: advances_def kept_refl)

lemma advances_kept: "kept env db db' \<Longrightarrow> job_ok env j db' \<Longrightarrow> advances env db (j, db')"
  by (simp add: advances_def)

lemma kept_ok: "kept env db db' \<Longrightarrow> db_ok env db'"
  by (simp add: kept_def)

lemma kept_known: "kept env db db' \<Longrightarrow> known row db \<Longrightarrow> known row db'"
  unfolding kept_def using known_grows by blast

lemma kept_confirmed: "kept env db db' \<Longrightarrow> i \<in> pd_confirmed db \<Longrightarrow> i \<in> pd_confirmed db'"
  unfolding kept_def db_grows_def by blast

text \<open>An audit entry of the calls other than the two claims of a subscription.\<close>

lemma kept_plain_audit:
  "kept env db db' \<Longrightarrow> a \<noteq> ''SUBSCRIPTION_SUCCESS'' \<Longrightarrow> a \<noteq> ''SUBSCRIPTION_ASSIGNED'' \<Longrightarrow> kept env db (audit i a db')"
  using kept_trans [OF _ kept_audit] kept_ok by metis

lemma row_ok: "db_ok env db \<Longrightarrow> pd_orders db i = Some row \<Longrightarrow> order_ok env i row db"
  by (simp add: db_ok_def orders_ok_def)

lemma row_known: "db_ok env db \<Longrightarrow> pd_orders db i = Some row \<Longrightarrow> i \<in> pd_confirmed db \<Longrightarrow> known row db"
  using row_ok [of env db i row] by (auto simp: known_def stored_def order_ok_def)

lemma order_ok_status:
  assumes "order_ok env i row db" "same_order row' row" "po_status row' = Completed \<Longrightarrow> delivered env row db"
    and "po_status row' \<in> {Paid, Recharging, Completed} \<or> po_paid_at row' \<noteq> None \<Longrightarrow> i \<in> pd_confirmed db"
  shows "order_ok env i row' db"
  using assms delivered_same [OF assms(2)] by (auto simp: order_ok_def same_order_def)

lemma confirm_advances: "db_ok env db \<Longrightarrow> advances env db (confirm_step env n db)"
proof (cases "pd_orders db (nt_order n)")
  case (Some row)
  assume ok: "db_ok env db"
  show ?thesis
  proof (cases "check_notification env row n")
    case None
    let ?db = "db\<lparr>pd_confirmed := insert (po_id row) (pd_confirmed db)\<rparr>"
    have kept: "kept env db ?db" using ok by (rule kept_confirm)
    have "po_id row = nt_order n" using row_ok [OF ok Some] by (simp add: order_ok_def)
    then have "known row ?db" using row_known [OF kept_ok [OF kept], of "nt_order n" row] Some by simp
    with None Some kept show ?thesis by (simp add: confirm_step_def advances_kept)
  next
    case (Some e)
    then obtain err action where e: "check_notification env row n = Some (err, action)" by (cases e) auto
    then have "action \<noteq> ''SUBSCRIPTION_SUCCESS'' \<and> action \<noteq> ''SUBSCRIPTION_ASSIGNED''"
      by (auto simp: check_notification_def Let_def split: if_splits)
    with e \<open>pd_orders db (nt_order n) = Some row\<close> ok show ?thesis
      by (simp add: confirm_step_def advances_kept kept_plain_audit kept_refl)
  qed
qed (auto simp: confirm_step_def)

lemma to_paid_advances:
  assumes ok: "db_ok env db" and k: "known row db"
  shows "advances env db (to_paid_step now row n db)"
proof -
  obtain hit db' where upd: "update_order (po_id row) now (payable now)
            (\<lambda>r. r\<lparr>po_status := Paid, po_pay_amount := nt_paid n, po_trade_no := nt_trade_no n,
                  po_paid_at := Some now, po_failed_at := None\<rparr>) db = (hit, db')" by fastforce
  have "kept env db db'"
    by (rule kept_update_order [OF ok upd])
       (use k in \<open>auto simp: same_order_def known_def intro: order_ok_status\<close>)
  with k upd show ?thesis
    by (auto simp: to_paid_step_def advances_def kept_plain_audit known_def dest: kept_confirmed)
qed

lemma already_advances: "db_ok env db \<Longrightarrow> oid \<in> pd_confirmed db \<Longrightarrow> advances env db (already_step oid db)"
  by (auto simp: already_step_def kept_refl intro!: advances_kept kept_plain_audit split: option.split)

lemma execute_advances: "db_ok env db \<Longrightarrow> oid \<in> pd_confirmed db \<Longrightarrow> advances env db (execute_step oid db)"
  by (auto simp: execute_step_def split: option.split)

lemma reject_advances:
  assumes ok: "db_ok env db" and k: "oid \<in> pd_confirmed db"
  shows "advances env db (reject_step now oid db)"
proof -
  obtain hit db' where upd: "update_order oid now (\<lambda>r. po_status r = Paid \<or> po_status r = Recharging)
            (\<lambda>r. r\<lparr>po_status := Failed_order, po_failed_at := Some now\<rparr>) db = (hit, db')" by fastforce
  have "kept env db db'"
    by (rule kept_update_order [OF ok upd]) (use k in \<open>auto simp: same_order_def intro: order_ok_status\<close>)
  with upd show ?thesis by (auto simp: reject_step_def advances_def kept_plain_audit)
qed


lemma retry_advances: "db_ok env db \<Longrightarrow> advances env db (retry_step oid db)"
proof (cases "pd_orders db oid")
  case (Some row)
  assume ok: "db_ok env db"
  have "kept env db (audit oid ''RECHARGE_RETRY'' db)" using ok by (simp add: kept_plain_audit kept_refl)
  moreover have "oid \<in> pd_confirmed db" if "po_paid_at row \<noteq> None"
    using row_ok [OF ok Some] that by (auto simp: order_ok_def)
  ultimately show ?thesis using Some ok by (auto simp: retry_step_def intro: advances_kept)
qed (auto simp: retry_step_def)

lemma check_fulfilment_done: "check_fulfilment row = Some j \<Longrightarrow> \<exists>r. j = J_done r"
  by (auto simp: check_fulfilment_def split: if_splits)

lemma balance_advances: "db_ok env db \<Longrightarrow> oid \<in> pd_confirmed db \<Longrightarrow> advances env db (balance_step oid db)"
  by (auto simp: balance_step_def row_known split: option.split dest!: check_fulfilment_done)

lemma subscription_advances: "db_ok env db \<Longrightarrow> oid \<in> pd_confirmed db \<Longrightarrow> advances env db (subscription_step oid db)"
  by (auto simp: subscription_step_def row_known split: option.split dest!: check_fulfilment_done)

lemma lease_advances:
  assumes ok: "db_ok env db" and k: "known row db"
  shows "advances env db (lease_step now row db)"
proof -
  obtain hit db' where upd: "update_order (po_id row) now (leasable now)
            (\<lambda>r. r\<lparr>po_status := Recharging, po_failed_at := None\<rparr>) db = (hit, db')" by fastforce
  have "kept env db db'"
    by (rule kept_update_order [OF ok upd]) (use k in \<open>auto simp: same_order_def known_def intro: order_ok_status\<close>)
  with k upd show ?thesis by (auto simp: lease_step_def advances_def dest: kept_known)
qed

lemma lease_check_advances: "db_ok env db \<Longrightarrow> known row db \<Longrightarrow> advances env db (lease_check_step row db, db)"
  by (auto simp: lease_check_step_def after_lease_def split: option.split)

lemma lookup_advances:
  assumes ok: "db_ok env db" and k: "known row db" and t: "po_type row \<noteq> ''subscription''"
  shows "advances env db (lookup_step env row v db, db)"
proof (cases "pd_codes db (po_code row)")
  case None
  with ok k t show ?thesis by (auto simp: lookup_step_def)
next
  case (Some code)
  with db_ok_parts [OF ok] have c: "code_ok (po_code row) code db" by (simp add: codes_ok_def)
  have "job_ok env (J_rebate row v) db" if "valid_payment_code env row code" "rc_status code = ''used''"
    using that c k t by (auto simp: code_ok_def valid_payment_code_def delivered_def near_amount_def)
  moreover have "job_ok env (J_redeem row v) db" if "valid_payment_code env row code"
    using that Some k t by (auto simp: worth_def valid_payment_code_def near_amount_def)
  ultimately show ?thesis using ok k Some by (auto simp: lookup_step_def)
qed

lemma create_advances:
  assumes ok: "db_ok env db" and k: "known row db" and t: "po_type row \<noteq> ''subscription''"
  shows "advances env db (create_step now row v db)"
proof -
  obtain r db' where cr: "create_code now (payment_code row) db = (r, db')" by fastforce
  have kept: "kept env db db'" by (rule kept_create_code [OF ok cr]) (simp_all add: payment_code_def)
  from k obtain n where code: "trim_space (po_code row) = po_code row" by (auto simp: known_def)
  have "worth env row db'" if "r = None"
    using create_code_cases [OF cr] that code t by (auto simp: worth_def near_amount_def payment_code_def)
  with kept cr kept_known [OF kept k] show ?thesis
    by (cases r) (auto simp: create_step_def intro: advances_kept)
qed

lemma redeem_advances:
  assumes ok: "db_ok env db" and k: "known row db" and w: "worth env row db"
  shows "advances env db (redeem_step now row v db, db)"
proof (cases "check_redeem now (po_user row) (po_code row) db")
  case (Inl e)
  with ok k show ?thesis by (auto simp: redeem_step_def)
next
  case (Inr code)
  then have c: "pd_codes db (po_code row) = Some code" by (auto simp: check_redeem_def split: option.splits if_splits)
  with db_ok_parts [OF ok] have "code_ok (po_code row) code db" by (simp add: codes_ok_def)
  then have "rc_code code = po_code row" by (simp add: code_ok_def)
  with c ok k w Inr show ?thesis by (auto simp: redeem_step_def linked_def)
qed

lemma use_advances:
  assumes ok: "db_ok env db" and k: "known row db" and w: "worth env row db"
    and c: "rc_code code = po_code row" "linked code db"
  shows "advances env db (use_step row v code db)"
proof -
  obtain r db' where use: "use_code code (po_user row) db = (r, db')" by fastforce
  from kept_use_code [OF ok use] c(2) have kept: "kept env db db'"
    and paid: "r = None \<Longrightarrow> credits_of (rc_code code) db' = [(rc_code code, po_user row, rc_value code)]"
    by (auto simp: linked_def)
  have "delivered env row db'" if "r = None"
    using paid [OF that] c w by (auto simp: delivered_def worth_def linked_def)
  with kept use kept_known [OF kept k] show ?thesis
    by (cases r) (auto simp: use_step_def intro: advances_kept)
qed

lemma group_advances:
  "db_ok env db \<Longrightarrow> known row db \<Longrightarrow> po_type row = ''subscription'' \<Longrightarrow> advances env db (group_step env row v, db)"
  by (auto simp: group_step_def split: option.split)

lemma assign_advances:
  assumes ok: "db_ok env db" and k: "known row db" and t: "po_type row = ''subscription''"
    and sub: "po_group row = Some gid" "po_days row = Some days"
  shows "advances env db (assign_step env row v gid days db)"
proof -
  obtain r db' where asg: "assign_once env row gid days db = (r, db')" by fastforce
  from k have st: "stored row db" by (simp add: known_def)
  from kept_assign_once [OF ok st sub asg] have kept: "kept env db db'"
    and paid: "r = None \<Longrightarrow> grants_of (po_id row) db' = [(po_id row, po_user row, gid, days)]" by auto
  from t sub paid have "r = None \<Longrightarrow> delivered env row db'" by (simp add: delivered_def)
  with kept asg kept_known [OF kept k] show ?thesis
    by (cases r) (auto simp: assign_step_def intro: advances_kept)
qed

lemma rebate_advances:
  "db_ok env db \<Longrightarrow> known row db \<Longrightarrow> delivered env row db \<Longrightarrow> advances env db (J_complete row v, rebate_once env row db)"
  using kept_rebate_once [of env db row] delivered_grows [of env row db "rebate_once env row db"]
  by (auto simp: advances_def kept_def intro: known_grows)


lemma complete_advances:
  assumes ok: "db_ok env db" and k: "known row db" and d: "delivered env row db"
  shows "advances env db (complete_step now row v db)"
proof -
  obtain hit db' where upd: "update_order (po_id row) now (\<lambda>r. po_status r = Recharging \<and> po_updated_at r = v)
            (\<lambda>r. r\<lparr>po_status := Completed, po_completed_at := Some now\<rparr>) db = (hit, db')" by fastforce
  have kept: "kept env db db'"
  proof (rule kept_update_order [OF ok upd])
    fix r
    assume r: "pd_orders db (po_id row) = Some r" "order_ok env (po_id row) r db"
    with k have "same_order r row" by (simp add: known_def stored_def)
    with d have "delivered env r db" by (simp add: delivered_same)
    with r k show "same_order (r\<lparr>po_status := Completed, po_completed_at := Some now\<rparr>) r \<and>
        order_ok env (po_id row) ((r\<lparr>po_status := Completed, po_completed_at := Some now\<rparr>)\<lparr>po_updated_at := now\<rparr>) db"
      by (auto simp: same_order_def known_def intro: order_ok_status)
  qed
  have "delivered env row db'" using delivered_grows [OF d] kept by (simp add: kept_def)
  then have "grants_of (po_id row) db' \<noteq> []" if "success_action row = ''SUBSCRIPTION_SUCCESS''"
    using that by (auto simp: success_action_def delivered_def split: if_splits)
  then have "kept env db (audit (po_id row) (success_action row) db')"
    using kept_trans [OF kept kept_audit [OF kept_ok [OF kept], of "success_action row" "po_id row"]]
    by (auto simp: success_action_def split: if_splits)
  with kept upd kept_known [OF kept k] show ?thesis by (auto simp: complete_step_def advances_def)
qed

lemma complete_missed_advances:
  "db_ok env db \<Longrightarrow> known row db \<Longrightarrow> advances env db (complete_missed_step row v db, db)"
  by (auto simp: complete_missed_step_def split: option.split)

lemma fail_advances:
  assumes ok: "db_ok env db"
  shows "advances env db (fail_step now row v e db)"
proof -
  obtain hit db' where upd: "update_order (po_id row) now (\<lambda>r. po_status r = Recharging \<and> po_updated_at r = v)
            (\<lambda>r. r\<lparr>po_status := Failed_order, po_failed_at := Some now\<rparr>) db = (hit, db')" by fastforce
  have "kept env db db'"
    by (rule kept_update_order [OF ok upd]) (auto simp: same_order_def order_ok_def delivered_def)
  with upd show ?thesis by (auto simp: fail_step_def advances_def kept_plain_audit)
qed

lemma check_paid_ok: "check_paid env an row = Some j \<Longrightarrow> job_ok env j db"
  by (auto simp: check_paid_def Let_def split: option.splits if_splits)

lemma cancel_core_ok: "fs = Cancelled \<or> fs = Expired \<Longrightarrow> job_ok env (cancel_core env an row fs) db"
  using check_paid_ok by (auto simp: cancel_core_def split: option.split)

lemma cancel_advances: "db_ok env db \<Longrightarrow> advances env db (cancel_step env oid owner an db, db)"
  by (auto simp: cancel_step_def cancel_core_ok split: option.split)

lemma expire_advances: "db_ok env db \<Longrightarrow> advances env db (expire_step env now oid an db, db)"
  by (auto simp: expire_step_def cancel_core_ok split: option.split)

lemma verify_advances: "db_ok env db \<Longrightarrow> advances env db (verify_step env oid uid an db, db)"
  by (auto simp: verify_step_def check_paid_ok split: option.split)

text \<open>Updates that do not touch what an order was paid or delivered for.\<close>

lemma kept_bland_update:
  assumes ok: "db_ok env db"
    and f: "\<And>r. same_order (f r) r" "\<And>r. po_paid_at (f r) = po_paid_at r"
      "\<And>r. po_status (f r) = po_status r \<or> po_status (f r) \<in> {Failed_order, Cancelled, Expired}"
  shows "kept env db (snd (update_order i now guard f db))"
proof -
  obtain hit db' where upd: "update_order i now guard f db = (hit, db')" by fastforce
  have "kept env db db'"
  proof (rule kept_update_order [OF ok upd])
    fix r
    assume r: "order_ok env i r db"
    have "po_status (f r) = Completed \<Longrightarrow> delivered env r db"
      using r f(3) [of r] by (auto simp: order_ok_def)
    moreover have "po_status (f r) \<in> {Paid, Recharging, Completed} \<or> po_paid_at (f r) \<noteq> None \<Longrightarrow> i \<in> pd_confirmed db"
      using r f(2,3) [of r] unfolding order_ok_def by (metis insertE order_status.distinct emptyE)
    moreover have "same_order ((f r)\<lparr>po_updated_at := now\<rparr>) r" using f(1) [of r] by (simp add: same_order_def)
    ultimately have "order_ok env i ((f r)\<lparr>po_updated_at := now\<rparr>) db" by (intro order_ok_status [OF r]) simp_all
    with f(1) [of r] show "same_order (f r) r \<and> order_ok env i ((f r)\<lparr>po_updated_at := now\<rparr>) db" by blast
  qed
  with upd show ?thesis by simp
qed

lemma persist_advances: "db_ok env db \<Longrightarrow> advances env db (persist_step now row t n db)"
  unfolding persist_step_def by (rule advances_kept, rule kept_bland_update) (auto simp: same_order_def)

lemma provider_failed_advances: "db_ok env db \<Longrightarrow> advances env db (provider_failed_step now oid db)"
  unfolding provider_failed_step_def by (rule advances_kept, rule kept_bland_update) (auto simp: same_order_def)

lemma mark_advances:
  assumes ok: "db_ok env db" and fs: "fs = Cancelled \<or> fs = Expired"
  shows "advances env db (mark_step now oid fs db)"
proof -
  have "kept env db (snd (update_order oid now (\<lambda>r. po_status r = Pending) (\<lambda>r. r\<lparr>po_status := fs\<rparr>) db))"
    by (rule kept_bland_update [OF ok]) (use fs in \<open>auto simp: same_order_def\<close>)
  then show ?thesis
    by (cases "update_order oid now (\<lambda>r. po_status r = Pending) (\<lambda>r. r\<lparr>po_status := fs\<rparr>) db")
       (auto simp: mark_step_def advances_def kept_plain_audit)
qed

lemma public_advances: "db_ok env db \<Longrightarrow> advances env db (public_step now uid c db, db)"
proof (cases "check_redeem now uid c db")
  case (Inr code)
  assume ok: "db_ok env db"
  from Inr have c: "pd_codes db c = Some code" by (auto simp: check_redeem_def split: option.splits if_splits)
  with db_ok_parts [OF ok] have "rc_code code = c" by (simp add: codes_ok_def code_ok_def)
  with c ok Inr show ?thesis by (auto simp: public_step_def linked_def)
qed (auto simp: public_step_def)

lemma public_use_advances:
  assumes ok: "db_ok env db" and l: "linked code db"
  shows "advances env db (public_use_step uid code db)"
proof -
  obtain r db' where use: "use_code code uid db = (r, db')" by fastforce
  from kept_use_code [OF ok use] l have "kept env db db'" by (auto simp: linked_def)
  with use show ?thesis by (simp add: public_use_step_def advances_def)
qed

lemmas step_advances =
  confirm_advances to_paid_advances already_advances execute_advances reject_advances balance_advances
  subscription_advances retry_advances lease_advances lease_check_advances lookup_advances create_advances
  redeem_advances use_advances group_advances assign_advances rebate_advances complete_advances
  complete_missed_advances fail_advances cancel_advances expire_advances verify_advances persist_advances
  mark_advances provider_failed_advances public_advances public_use_advances

lemma lease_missed_advances: "db_ok env db \<Longrightarrow> advances env db (lease_missed_step row db, db)"
  by (auto simp: lease_missed_step_def split: option.split)

lemma job_step_advances: "db_ok env db \<Longrightarrow> job_ok env j db \<Longrightarrow> advances env db (job_step env now j db)"
  by (cases j) (simp_all add: step_advances lease_missed_advances, auto)

section \<open>Reachable states\<close>

definition pay_ok :: "'m pay_env \<Rightarrow> 'm::{zero,plus,minus,ord,abs} pay_state \<Rightarrow> bool" where
  "pay_ok env s \<longleftrightarrow> db_ok env (st_db s) \<and> (\<forall>i j. st_jobs s i = Some j \<longrightarrow> job_ok env j (st_db s))"

lemma pay_ok_db:
  assumes "pay_ok env s" "kept env (st_db s) db'"
  shows "pay_ok env (s\<lparr>st_db := db'\<rparr>)"
  using assms by (auto simp: pay_ok_def kept_def intro: job_ok_grows)

lemma pay_ok_job:
  assumes "pay_ok env s" "kept env (st_db s) db'" "job_ok env j db'"
  shows "pay_ok env (s\<lparr>st_db := db', st_jobs := (st_jobs s)(i \<mapsto> j)\<rparr>)"
  using assms by (auto simp: pay_ok_def kept_def intro: job_ok_grows)

lemma starting_ok: "starting j \<Longrightarrow> job_ok env j db"
  by (cases j) auto

lemma pay_ok_start: "pay_ok env pay_start"
  by (simp add: pay_ok_def pay_start_def empty_pay_db_def db_ok_def codes_ok_def grants_ok_def rebates_ok_def orders_ok_def
      credits_of_def grants_of_def rebates_of_def has_audit_def)

lemma pay_ok_step:
  assumes ok: "pay_ok env s" and st: "pay_step env s s'"
  shows "pay_ok env s'"
proof -
  have db: "db_ok env (st_db s)" using ok by (simp add: pay_ok_def)
  have advanced: "kept env (st_db s) db' \<and> job_ok env j' db' \<and> job_ok env (job_fault j) db'"
    if "st_jobs s i = Some j" "job_step env now j (st_db s) = (j', db')" for i j now j' db'
  proof -
    from ok that(1) have "job_ok env j (st_db s)" by (simp add: pay_ok_def)
    with job_step_advances [OF db this, of now] that(2) show ?thesis
      by (auto simp: advances_def kept_def intro: job_ok_fault job_ok_grows)
  qed
  from st show ?thesis
  proof cases
    case (new_user uid u)
    then show ?thesis using pay_ok_db [OF ok kept_users [OF db]] by simp
  next
    case (new_order row now n)
    then show ?thesis using pay_ok_db [OF ok kept_new_order [OF db]] by simp
  next
    case (admin_code code now)
    then show ?thesis
      using pay_ok_db [OF ok kept_create_code [OF db, of now code "fst (create_code now code (st_db s))"]] by simp
  next
    case (start_job i j)
    then show ?thesis using ok starting_ok by (auto simp: pay_ok_def)
  next
    case (run_job i j now j' db')
    then show ?thesis using pay_ok_job [OF ok] advanced by blast
  next
    case (fault_before i j)
    with ok have "job_ok env (job_fault j) (st_db s)" by (auto simp: pay_ok_def intro: job_ok_fault)
    with fault_before ok show ?thesis by (auto simp: pay_ok_def)
  next
    case (fault_after i j now j' db')
    then show ?thesis using pay_ok_job [OF ok] advanced by blast
  next
    case (crash i j)
    then show ?thesis using ok by (auto simp: pay_ok_def)
  qed
qed

lemma pay_reachable_ok: "pay_reachable env s \<Longrightarrow> pay_ok env s"
  by (induction rule: pay_reachable_induct) (auto intro: pay_ok_start pay_ok_step)

end
