(* ===== verification/PaymentSafety.thy ===== *)
theory PaymentSafety
  imports PaymentRuns
begin

text \<open>
  The properties of the payment orders: payouts happen once and move the balance they record, a completed
  order has been confirmed and delivered, and a paid order is completed by a call that runs
  undisturbed, wherever the calls before it stopped.
\<close>

section \<open>Payouts happen once\<close>

text \<open>
  C16: In every state that calls, faults and crashes can reach, a code has been credited at most once,
  and exactly when it is marked used, to the user it is marked with; a subscription has been
  assigned and a rebate accrued at most once for an order.
\<close>

theorem payouts_happen_once:
  assumes "pay_reachable env s"
  shows "length (credits_of c (st_db s)) \<le> 1 \<and>
    (credits_of c (st_db s) = [] \<longleftrightarrow> (\<nexists>code. pd_codes (st_db s) c = Some code \<and> rc_status code = ''used'')) \<and>
    (\<forall>u v. (c, u, v) \<in> set (pd_credits (st_db s)) \<longrightarrow>
       (\<exists>code. pd_codes (st_db s) c = Some code \<and> rc_used_by code = Some u \<and> rc_value code = v)) \<and>
    length (grants_of oid (st_db s)) \<le> 1 \<and> length (rebates_of oid (st_db s)) \<le> 1"
proof -
  note G = db_ok_parts [OF pay_reachable_ok [OF assms, unfolded pay_ok_def, THEN conjunct1]]
  have code: "length (credits_of c (st_db s)) \<le> 1 \<and>
      (credits_of c (st_db s) = [] \<longleftrightarrow> (\<nexists>code. pd_codes (st_db s) c = Some code \<and> rc_status code = ''used''))"
  proof (cases "pd_codes (st_db s) c")
    case (Some code)
    then have "code_ok c code (st_db s)" using G by (simp add: codes_ok_def)
    with Some show ?thesis by (auto simp: code_ok_def)
  qed (use G in \<open>simp add: codes_ok_def\<close>)
  have "\<exists>code. pd_codes (st_db s) c = Some code \<and> rc_used_by code = Some u \<and> rc_value code = v"
    if "(c, u, v) \<in> set (pd_credits (st_db s))" for u v
  proof -
    from that have mem: "(c, u, v) \<in> set (credits_of c (st_db s))" by (simp add: credits_of_def)
    then obtain code where c: "pd_codes (st_db s) c = Some code"
      using G by (cases "pd_codes (st_db s) c") (auto simp: codes_ok_def)
    then have "code_ok c code (st_db s)" using G by (simp add: codes_ok_def)
    with c mem show ?thesis by (auto simp: code_ok_def)
  qed
  with code G show ?thesis by (auto simp: grants_ok_def rebates_ok_def)
qed

section \<open>Balances move with the records\<close>

lemma update_order_sel [simp]:
  "pd_users (snd (update_order i now g f db)) = pd_users db" "pd_credits (snd (update_order i now g f db)) = pd_credits db"
  by (auto simp: update_order_def split: option.splits)

lemma audit_credits [simp]: "pd_credits (audit i a db) = pd_credits db"
  by (simp add: audit_def)

lemma rebate_once_sel [simp]: "pd_users (rebate_once env row db) = pd_users db" "pd_credits (rebate_once env row db) = pd_credits db"
  by (auto simp: rebate_once_def Let_def split: option.split)

definition moves :: "'m::{zero,plus,ord} pay_db \<Rightarrow> 'm pay_db \<Rightarrow> bool" where
  "moves db db' \<longleftrightarrow> pd_users db' = pd_users db \<and> pd_credits db' = pd_credits db \<or>
     (\<exists>c uid v u. pd_credits db' = pd_credits db @ [(c, uid, v)] \<and> pd_users db uid = Some u \<and>
        pd_users db' = (pd_users db)(uid \<mapsto> credit_user v u))"

lemma use_code_moves: "moves db (snd (use_code code uid db))"
  by (auto simp: use_code_def moves_def split: option.split)

lemma assign_once_sel [simp]:
  "pd_users (snd (assign_once env row g d db)) = pd_users db" "pd_credits (snd (assign_once env row g d db)) = pd_credits db"
  by (auto simp: assign_once_def Let_def)

lemma create_code_sel [simp]:
  "pd_users (snd (create_code now code db)) = pd_users db" "pd_credits (snd (create_code now code db)) = pd_credits db"
  by (auto simp: create_code_def Let_def)

lemma quiet: "pd_users db' = pd_users db \<Longrightarrow> pd_credits db' = pd_credits db \<Longrightarrow> moves db db'"
  by (simp add: moves_def)

lemma job_step_moves: "moves db (snd (job_step env now j db))"
proof (cases j)
  case (J_use row v code)
  then show ?thesis using use_code_moves [of db code "po_user row"]
    by (cases "use_code code (po_user row) db") (auto simp: use_step_def split: option.split)
next
  case (J_public_use uid code)
  then show ?thesis using use_code_moves [of db code uid]
    by (cases "use_code code uid db") (auto simp: public_use_step_def)
next
  case (J_confirm n)
  then show ?thesis by (auto intro!: quiet simp: confirm_step_def split: option.split)
next
  case (J_to_paid row n)
  then show ?thesis by (auto intro!: quiet simp: to_paid_step_def update_order_def split: option.split)
next
  case (J_already oid)
  then show ?thesis by (auto intro!: quiet simp: already_step_def split: option.split)
next
  case (J_create row v)
  obtain r d where e: "create_code now (payment_code row) db = (r, d)" by fastforce
  with create_code_sel [of now "payment_code row" db] have "moves db d" by (simp add: quiet)
  with J_create e show ?thesis by (cases r) (simp_all add: create_step_def)
next
  case (J_assign row v gid days)
  obtain r d where e: "assign_once env row gid days db = (r, d)" by fastforce
  with assign_once_sel [of env row gid days db] have "moves db d" by (simp add: quiet)
  with J_assign e show ?thesis by (cases r) (simp_all add: assign_step_def)
qed (auto intro!: quiet simp: execute_step_def reject_step_def retry_step_def balance_step_def subscription_step_def lease_step_def
  complete_step_def fail_step_def persist_step_def mark_step_def provider_failed_step_def Let_def update_order_def split: option.split)

text \<open>
  Balances change only together with the record of credits: in every step either nothing is credited
  and no existing balance changes, or one credit is recorded and the balance of its user alone
  moves, by that amount.
\<close>

theorem balances_move_with_credits:
  assumes "pay_step env s s'" "pd_users (st_db s) uid = Some u"
  shows "pd_credits (st_db s') = pd_credits (st_db s) \<and> pd_users (st_db s') uid = Some u \<or>
    (\<exists>c who v. pd_credits (st_db s') = pd_credits (st_db s) @ [(c, who, v)] \<and>
       pd_users (st_db s') uid = Some (if who = uid then credit_user v u else u))"
proof -
  have run: "pd_credits db' = pd_credits (st_db s) \<and> pd_users db' uid = Some u \<or>
    (\<exists>c who v. pd_credits db' = pd_credits (st_db s) @ [(c, who, v)] \<and>
       pd_users db' uid = Some (if who = uid then credit_user v u else u))"
    if "job_step env now j (st_db s) = (j', db')" for now j j' db'
  proof -
    have "moves (st_db s) db'" using job_step_moves [of "st_db s" env now j] that by simp
    then show ?thesis unfolding moves_def
    proof (elim disjE exE conjE)
      fix c who v u'
      assume m: "pd_credits db' = pd_credits (st_db s) @ [(c, who, v)]" "pd_users (st_db s) who = Some u'"
        "pd_users db' = (pd_users (st_db s))(who \<mapsto> credit_user v u')"
      then have "pd_users db' uid = Some (if who = uid then credit_user v u else u)" using assms(2) by auto
      with m(1) show ?thesis by blast
    qed (use assms(2) in simp)
  qed
  from assms(1) show ?thesis
  proof cases
    case (new_user uid' u')
    with assms(2) show ?thesis by auto
  next
    case (run_job i j now j' db')
    then show ?thesis using run [OF run_job(3)] by simp
  next
    case (fault_after i j now j' db')
    then show ?thesis using run [OF fault_after(3)] by simp
  qed (use assms(2) in simp_all)
qed

section \<open>Completed orders\<close>

text \<open>
  C17: A completed order has had a notification that passed every check, and has been delivered once: the
  credits of its code are exactly one, to its user, of its amount up to the tolerance of eight
  decimals, or exactly one subscription was assigned for it, the one ordered; and no other order has its code.
\<close>

theorem completed_order_delivered:
  assumes "pay_reachable env s" "pd_orders (st_db s) oid = Some row" "po_status row = Completed"
  shows "oid \<in> pd_confirmed (st_db s) \<and> delivered env row (st_db s) \<and>
    (\<forall>oid' row'. pd_orders (st_db s) oid' = Some row' \<and> po_code row' = po_code row \<longrightarrow> oid' = oid)"
proof -
  have ok: "db_ok env (st_db s)" using pay_reachable_ok [OF assms(1)] by (simp add: pay_ok_def)
  from row_ok [OF this assms(2)] have o: "order_ok env oid row (st_db s)" .
  have "oid' = oid" if "pd_orders (st_db s) oid' = Some row'" "po_code row' = po_code row" for oid' row'
    using row_ok [OF ok that(1)] o that(2) order_code_inj unfolding order_ok_def by metis
  with o assms(3) show ?thesis by (auto simp: order_ok_def)
qed

section \<open>A call that runs undisturbed\<close>

text \<open>The steps of a job alone, with the clock at each step.\<close>

fun runs ::
  "'m pay_env \<Rightarrow> (nat \<Rightarrow> instant) \<Rightarrow> nat \<Rightarrow> nat \<Rightarrow> 'm::{zero,plus,minus,ord,abs} job \<times> 'm pay_db \<Rightarrow> 'm job \<times> 'm pay_db" where
  "runs env clock k 0 x = x"
| "runs env clock k (Suc n) x = runs env clock (Suc k) n (job_step env (clock k) (fst x) (snd x))"

definition completes ::
  "'m pay_env \<Rightarrow> (nat \<Rightarrow> instant) \<Rightarrow> nat \<Rightarrow> nat \<Rightarrow> int \<Rightarrow> 'm::{zero,plus,minus,ord,abs} job \<Rightarrow> 'm pay_db \<Rightarrow> bool" where
  "completes env clock k n oid j db \<longleftrightarrow>
     (\<exists>db' row. runs env clock k n (j, db) = (J_done None, db') \<and> pd_orders db' oid = Some row \<and> po_status row = Completed)"

lemma completes_done: "pd_orders db oid = Some row \<Longrightarrow> po_status row = Completed \<Longrightarrow> completes env clock k n oid (J_done None) db"
proof (induction n arbitrary: k)
  case 0
  then show ?case by (simp add: completes_def)
next
  case (Suc n)
  then show ?case by (simp add: completes_def)
qed

lemma completes_Suc:
  "completes env clock k (Suc n) oid j db \<longleftrightarrow>
     completes env clock (Suc k) n oid (fst (job_step env (clock k) j db)) (snd (job_step env (clock k) j db))"
  by (simp add: completes_def)

text \<open>The row of an order while the call holds its lease.\<close>

definition leased :: "'m pay_order \<Rightarrow> instant \<Rightarrow> 'm pay_db \<Rightarrow> bool" where
  "leased row v db \<longleftrightarrow>
     (\<exists>cur. pd_orders db (po_id row) = Some cur \<and> po_status cur = Recharging \<and> po_updated_at cur = v)"

lemma completes_complete: "leased row v db \<Longrightarrow> completes env clock k (Suc n) (po_id row) (J_complete row v) db"
  by (auto simp: completes_Suc leased_def complete_step_def update_order_def intro!: completes_done)

lemma leased_cong: "pd_orders db' = pd_orders db \<Longrightarrow> leased row v db' = leased row v db"
  by (simp add: leased_def)

lemma rebate_once_orders [simp]: "pd_orders (rebate_once env row db) = pd_orders db"
  by (auto simp: rebate_once_def Let_def split: option.split)

lemma completes_rebate: "leased row v db \<Longrightarrow> completes env clock k (Suc (Suc n)) (po_id row) (J_rebate row v) db"
  using completes_complete [of row v "rebate_once env row db" env clock "Suc k" n]
  by (subst completes_Suc) (simp add: leased_def)

text \<open>The balance: a code that can be used, or has been, or is still missing.\<close>

definition usable_code :: "'m pay_env \<Rightarrow> (nat \<Rightarrow> instant) \<Rightarrow> 'm::{ord,minus,abs} pay_order \<Rightarrow> 'm pay_db \<Rightarrow> bool" where
  "usable_code env clock row db \<longleftrightarrow>
     (\<forall>code. pd_codes db (po_code row) = Some code \<longrightarrow>
        valid_payment_code env row code \<and> (\<forall>k. \<not> code_expired (clock k) code))"

lemma use_code_orders [simp]: "pd_orders (snd (use_code code uid db)) = pd_orders db"
  by (auto simp: use_code_def split: option.split)

lemma completes_redeem:
  assumes l: "leased row v db" and u: "pd_users db (po_user row) \<noteq> None"
    and c: "pd_codes db (po_code row) = Some code" "rc_status code = ''unused''" "rc_type code = ''balance''"
      "rc_code code = po_code row" "\<not> code_expired (clock k) code"
  shows "completes env clock k (Suc (Suc (Suc (Suc n)))) (po_id row) (J_redeem row v) db"
proof -
  have red: "job_step env (clock k) (J_redeem row v) db = (J_use row v code, db)"
    using u c by (auto simp: redeem_step_def check_redeem_def code_can_use_def)
  obtain r d where use: "use_code code (po_user row) db = (r, d)" by fastforce
  then have "r = None" using u c by (auto simp: use_code_def)
  with use have step: "job_step env (clock (Suc k)) (J_use row v code) db = (J_rebate row v, d)"
    by (simp add: use_step_def)
  have "leased row v d" using l use_code_orders [of code "po_user row" db] use by (simp add: leased_def)
  then have "completes env clock (Suc (Suc k)) (Suc (Suc n)) (po_id row) (J_rebate row v) d" by (rule completes_rebate)
  then show ?thesis by (subst completes_Suc, subst completes_Suc) (simp only: red step fst_conv snd_conv)
qed

lemma completes_lookup:
  assumes l: "leased row v db" and u: "pd_users db (po_user row) \<noteq> None" and amt: "po_amount row \<noteq> 0"
    and code: "trim_space (po_code row) = po_code row" "po_code row \<noteq> []" and c: "usable_code env clock row db"
  shows "completes env clock k (Suc (Suc (Suc (Suc (Suc (Suc n)))))) (po_id row) (J_lookup row v) db"
proof (cases "pd_codes db (po_code row)")
  case None
  let ?d = "db\<lparr>pd_codes := (pd_codes db)(po_code row \<mapsto> payment_code row)\<rparr>"
  have look: "job_step env (clock k) (J_lookup row v) db = (J_create row v, db)" using None by (simp add: lookup_step_def)
  have create: "job_step env (clock (Suc k)) (J_create row v) db = (J_redeem row v, ?d)"
    using None code amt by (simp add: create_step_def create_code_def payment_code_def code_expired_def Let_def)
  have "leased row v ?d" using l by (simp add: leased_def)
  then have "completes env clock (Suc (Suc k)) (Suc (Suc (Suc (Suc n)))) (po_id row) (J_redeem row v) ?d"
    by (rule completes_redeem [where code = "payment_code row"]) (use u in \<open>simp_all add: payment_code_def code_expired_def\<close>)
  then show ?thesis by (subst completes_Suc, subst completes_Suc) (simp only: look create fst_conv snd_conv)
next
  case (Some code')
  with c have ok: "valid_payment_code env row code'" "\<not> code_expired (clock i) code'" for i by (auto simp: usable_code_def)
  show ?thesis
  proof (cases "rc_status code' = ''used''")
    case True
    then have "job_step env (clock k) (J_lookup row v) db = (J_rebate row v, db)" using Some ok by (simp add: lookup_step_def)
    with completes_rebate [OF l] show ?thesis by (subst completes_Suc) simp
  next
    case False
    then have step: "job_step env (clock k) (J_lookup row v) db = (J_redeem row v, db)" using Some ok by (simp add: lookup_step_def)
    have "rc_status code' = ''unused''" "rc_type code' = ''balance''" "rc_code code' = po_code row"
      using ok(1) False by (auto simp: valid_payment_code_def split: if_splits)
    with completes_redeem [OF l u Some] ok(2) step show ?thesis by (subst completes_Suc) simp
  qed
qed


text \<open>The subscription.\<close>

lemma assign_once_orders [simp]: "pd_orders (snd (assign_once env row g d db)) = pd_orders db"
  by (auto simp: assign_once_def Let_def)

lemma completes_group:
  assumes l: "leased row v db" and sub: "po_group row = Some gid" "po_days row = Some days"
    and ok: "pe_group_active env gid" "pe_assign_ok env (po_user row) gid"
  shows "completes env clock k (Suc (Suc (Suc (Suc n)))) (po_id row) (J_group row v) db"
proof -
  have group: "job_step env (clock k) (J_group row v) db = (J_assign row v gid days, db)"
    using sub ok by (simp add: group_step_def)
  obtain r d where asg: "assign_once env row gid days db = (r, d)" by fastforce
  then have "r = None" using ok by (auto simp: assign_once_def Let_def split: if_splits)
  with asg have assign: "job_step env (clock (Suc k)) (J_assign row v gid days) db = (J_rebate row v, d)"
    by (simp add: assign_step_def)
  have "leased row v d" using l assign_once_orders [of env row gid days db] asg by (simp add: leased_def)
  then have "completes env clock (Suc (Suc k)) (Suc (Suc n)) (po_id row) (J_rebate row v) d" by (rule completes_rebate)
  then show ?thesis by (subst completes_Suc, subst completes_Suc) (simp only: group assign fst_conv snd_conv)
qed

text \<open>What an order needs to be fulfilled, whatever was done for it before.\<close>

definition can_fulfil :: "'m pay_env \<Rightarrow> (nat \<Rightarrow> instant) \<Rightarrow> 'm::{zero,ord,minus,abs} pay_order \<Rightarrow> 'm pay_db \<Rightarrow> bool" where
  "can_fulfil env clock row db \<longleftrightarrow>
     po_type row = ''balance'' \<and> po_amount row \<noteq> 0 \<and> pd_users db (po_user row) \<noteq> None \<and> usable_code env clock row db \<or>
     po_type row = ''subscription'' \<and> (\<exists>gid days. po_group row = Some gid \<and> po_days row = Some days \<and>
        pe_group_active env gid \<and> pe_assign_ok env (po_user row) gid)"

lemma completes_after_lease:
  assumes "leased row v db" "can_fulfil env clock row db" "\<exists>i n. po_code row = order_code i n"
  shows "completes env clock k (Suc (Suc (Suc (Suc (Suc (Suc n)))))) (po_id row) (after_lease row v) db"
proof -
  from assms(3) obtain i m where "po_code row = order_code i m" by blast
  then have code: "trim_space (po_code row) = po_code row" "po_code row \<noteq> []" by simp_all
  show ?thesis
  proof (cases "po_type row = ''subscription''")
    case True
    with assms(2) obtain gid days where "po_group row = Some gid" "po_days row = Some days"
      "pe_group_active env gid" "pe_assign_ok env (po_user row) gid" by (auto simp: can_fulfil_def)
    with completes_group [OF assms(1) this, of clock k "Suc (Suc n)"] True show ?thesis by (simp add: after_lease_def)
  next
    case False
    with assms(2) have "pd_users db (po_user row) \<noteq> None" "po_amount row \<noteq> 0" "usable_code env clock row db"
      by (auto simp: can_fulfil_def)
    with completes_lookup [OF assms(1) this(1,2) code this(3), of k n] False show ?thesis by (simp add: after_lease_def)
  qed
qed

lemma completes_lease:
  assumes row: "pd_orders db (po_id row) = Some row" and now: "leasable (clock k) row"
    and can: "can_fulfil env clock row db" and code: "\<exists>i n. po_code row = order_code i n"
  shows "completes env clock k (Suc (Suc (Suc (Suc (Suc (Suc (Suc (Suc n)))))))) (po_id row) (J_lease row) db"
proof -
  let ?d = "db\<lparr>pd_orders := (pd_orders db)(po_id row \<mapsto> row\<lparr>po_status := Recharging, po_failed_at := None, po_updated_at := clock k\<rparr>)\<rparr>"
  have lease: "job_step env (clock k) (J_lease row) db = (J_lease_check row, ?d)"
    using row now by (simp add: lease_step_def update_order_def)
  have check: "job_step env (clock (Suc k)) (J_lease_check row) ?d = (after_lease row (clock k), ?d)"
    by (simp add: lease_check_step_def)
  have "leased row (clock k) ?d" by (simp add: leased_def)
  moreover have "can_fulfil env clock row ?d" using can by (auto simp: can_fulfil_def usable_code_def)
  ultimately have "completes env clock (Suc (Suc k)) (Suc (Suc (Suc (Suc (Suc (Suc n)))))) (po_id row) (after_lease row (clock k)) ?d"
    using code by (rule completes_after_lease)
  then show ?thesis by (subst completes_Suc, subst completes_Suc) (simp only: lease check fst_conv snd_conv)
qed

lemma leasable_fulfillable: "leasable now row \<Longrightarrow> fulfillable (po_status row) \<and> po_status row \<noteq> Completed \<and> \<not> is_refund_status (po_status row)"
  by (auto simp: leasable_def fulfillable_def is_refund_status_def)

lemma completes_retry:
  assumes row: "pd_orders db oid = Some row" "po_id row = oid" "\<exists>i n. po_code row = order_code i n"
    and paid: "po_paid_at row \<noteq> None" and now: "\<forall>k. leasable (clock k) row" and can: "can_fulfil env clock row db"
  shows "completes env clock k (Suc (Suc (Suc (Suc (Suc (Suc (Suc (Suc (Suc (Suc (Suc n))))))))))) oid (J_retry oid) db"
proof -
  let ?d = "audit oid ''RECHARGE_RETRY'' db"
  from now leasable_fulfillable have st: "fulfillable (po_status row)" "po_status row \<noteq> Completed" "\<not> is_refund_status (po_status row)"
    by blast+
  have t: "po_type row = ''balance'' \<or> po_type row = ''subscription''" using can by (auto simp: can_fulfil_def)
  have retry: "job_step env (clock k) (J_retry oid) db = (J_execute oid, ?d)"
    using row paid st t by (auto simp: retry_step_def supported_order_type_def)
  obtain j where exec: "job_step env (clock (Suc k)) (J_execute oid) ?d = (j, ?d)"
    and lease: "job_step env (clock (Suc (Suc k))) j ?d = (J_lease row, ?d)"
  proof (cases "po_type row = ''subscription''")
    case True
    with can row st show thesis
      by (intro that [of "J_subscription oid"])
         (auto simp: execute_step_def subscription_step_def check_fulfilment_def can_fulfil_def)
  next
    case False
    with can t row st show thesis
      by (intro that [of "J_balance oid"]) (auto simp: execute_step_def balance_step_def check_fulfilment_def)
  qed
  have "can_fulfil env clock row ?d" using can by (auto simp: can_fulfil_def usable_code_def)
  then have "completes env clock (Suc (Suc (Suc k))) (Suc (Suc (Suc (Suc (Suc (Suc (Suc (Suc n)))))))) (po_id row) (J_lease row) ?d"
    using row now by (intro completes_lease) simp_all
  then show ?thesis using row(2) retry exec lease
    by (subst completes_Suc, subst completes_Suc, subst completes_Suc) simp
qed

lemma runs_ok: "db_ok env db \<Longrightarrow> job_ok env j db \<Longrightarrow> runs env clock k n (j, db) = (j', db') \<Longrightarrow> db_ok env db'"
proof (induction n arbitrary: k j db)
  case (Suc n)
  from job_step_advances [OF Suc.prems(1,2), of "clock k"] have
    "db_ok env (snd (job_step env (clock k) j db))" "job_ok env (fst (job_step env (clock k) j db)) (snd (job_step env (clock k) j db))"
    by (simp_all add: advances_def kept_def)
  from Suc.IH [OF this] Suc.prems(3) show ?case by simp
qed simp



section \<open>A run\<close>

definition demo_env :: "int pay_env" where
  "demo_env = \<lparr>pe_upper = id, pe_fold = (=), pe_finite = (\<lambda>_. True), pe_cent = 1, pe_half_unit = (\<lambda>_. 0), pe_code_eps = 0,
     pe_less_bonus = (-), pe_round = (\<lambda>a _. a), pe_share = (\<lambda>p _ _ _. p), pe_registry = (\<lambda>_. []), pe_instances = [],
     pe_group_active = (\<lambda>_. True), pe_affiliate = Some (\<lambda>_ base. base div 10), pe_assign_ok = (\<lambda>_ _. True),
     pe_add_days = (+), pe_max_expiry = 1000000\<rparr>"

definition demo_order :: "int pay_order" where
  "demo_order = \<lparr>po_id = 1, po_user = 7, po_type = ''balance'', po_status = Pending, po_amount = 1200, po_bonus = 200,
     po_pay_amount = 1000, po_code = [], po_payment_type = ''alipay'', po_instance = [], po_provider = ''alipay'',
     po_snapshot = None, po_out_trade_no = ''sub2_x'', po_trade_no = [], po_group = None, po_days = None,
     po_updated_at = 0, po_expires_at = 1000, po_paid_at = None, po_completed_at = None, po_failed_at = None,
     po_refund_amount = 0\<rparr>"

definition demo_notification :: "int notification" where
  "demo_notification = \<lparr>nt_order = 1, nt_trade_no = ''T1'', nt_paid = 1001, nt_provider = ''alipay'', nt_metadata = []\<rparr>"

definition demo_db :: "int pay_db" where
  "demo_db = empty_pay_db\<lparr>pd_users := [7 \<mapsto> \<lparr>pu_balance = 5, pu_recharged = 0\<rparr>],
     pd_orders := [1 \<mapsto> fresh_order 50 42 demo_order]\<rparr>"

definition paid_db :: "int pay_db" where
  "paid_db = snd (runs demo_env (\<lambda>_. 100) 0 2 (J_confirm demo_notification, demo_db))"

lemma reach_step: "pay_reachable env s \<Longrightarrow> pay_step env s s' \<Longrightarrow> pay_reachable env s'"
  unfolding pay_reachable_def by (rule rtranclp.rtrancl_into_rtrancl)

lemma reach_runs:
  "pay_reachable env s \<Longrightarrow> st_jobs s i = Some j \<Longrightarrow> runs env clock k n (j, st_db s) = (j', db') \<Longrightarrow>
     pay_reachable env (s\<lparr>st_db := db', st_jobs := (st_jobs s)(i \<mapsto> j')\<rparr>)"
proof (induction n arbitrary: s j k)
  case 0
  then have "s\<lparr>st_db := db', st_jobs := (st_jobs s)(i \<mapsto> j')\<rparr> = s" by (cases s) (auto simp: fun_upd_idem)
  with 0 show ?case by (simp del: fun_upd_apply)
next
  case (Suc n)
  obtain j1 db1 where st: "job_step env (clock k) j (st_db s) = (j1, db1)" by fastforce
  let ?s = "s\<lparr>st_db := db1, st_jobs := (st_jobs s)(i \<mapsto> j1)\<rparr>"
  have "pay_reachable env ?s" using reach_step [OF Suc.prems(1) run_job [OF Suc.prems(2) st]] .
  from Suc.IH [OF this, of j1 "Suc k"] Suc.prems(3) st show ?case by (simp del: fun_upd_apply add: fun_upd_same)
qed

lemma check_demo: "check_notification demo_env (fresh_order 50 42 demo_order) demo_notification = None"
proof -
  have "trim_space ''alipay'' = ''alipay''" "currency_minor_unit id ''CNY'' = 2" "go_atoi [] = None" by code_simp+
  then show ?thesis
    by (simp add: check_notification_def demo_env_def demo_order_def demo_notification_def fresh_order_def Let_def
        order_instance_def unique_legacy_instance_def filter_legacy_instances_def only_one_def expected_key_for_order_def
        expected_notification_key_def metadata_ok_def valid_provider_amount_def amount_tolerance_def order_currency_def equal_fold_def)
qed

lemma paid_row:
  "pd_orders paid_db 1 = Some ((fresh_order 50 42 demo_order)\<lparr>po_status := Paid, po_pay_amount := 1001, po_trade_no := ''T1'',
     po_paid_at := Some 100, po_failed_at := None, po_updated_at := 100\<rparr>)"
  "runs demo_env (\<lambda>_. 100) 0 2 (J_confirm demo_notification, demo_db) = (J_execute 1, paid_db)"
  "pd_users paid_db 7 \<noteq> None" "pd_codes paid_db = Map.empty"
  using check_demo
  by (simp_all add: paid_db_def numeral_2_eq_2 confirm_step_def demo_db_def to_paid_step_def update_order_def payable_def)
     (simp_all add: demo_notification_def fresh_order_def demo_order_def empty_pay_db_def audit_def)


lemma reach_paid: "pay_reachable demo_env \<lparr>st_db = paid_db, st_jobs = Map.empty\<rparr>"
proof -
  let ?u = "\<lparr>pu_balance = 5, pu_recharged = 0\<rparr> :: int pay_user"
  let ?n = "J_confirm demo_notification"
  have "pay_reachable demo_env pay_start" by (simp add: pay_reachable_def)
  from reach_step [OF this new_user [of pay_start 7 demo_env ?u]]
  have "pay_reachable demo_env \<lparr>st_db = empty_pay_db\<lparr>pd_users := [7 \<mapsto> ?u]\<rparr>, st_jobs = Map.empty\<rparr>"
    by (simp add: pay_start_def empty_pay_db_def)
  from reach_step [OF this new_order [of _ demo_order demo_env 50 42]]
  have "pay_reachable demo_env \<lparr>st_db = demo_db, st_jobs = Map.empty\<rparr>"
    by (simp add: demo_db_def empty_pay_db_def demo_order_def)
  from reach_step [OF this start_job [of _ 0 ?n]]
  have "pay_reachable demo_env \<lparr>st_db = demo_db, st_jobs = [0 \<mapsto> ?n]\<rparr>" by simp
  from reach_runs [OF this, of 0 ?n "\<lambda>_. 100" 0 2] paid_row(2)
  have "pay_reachable demo_env \<lparr>st_db = paid_db, st_jobs = [0 \<mapsto> J_execute 1]\<rparr>" by simp
  from reach_step [OF this crash [of _ 0 "J_execute 1"]] show ?thesis by simp
qed

lemma demo_can: "can_fulfil demo_env (\<lambda>_. 200) (the (pd_orders paid_db 1)) paid_db"
  using paid_row(3,4) by (simp add: paid_row(1) can_fulfil_def usable_code_def fresh_order_def demo_order_def)


text \<open>The state after that retry.\<close>

lemma reach_completed:
  "\<exists>s row. pay_reachable demo_env s \<and> pd_orders (st_db s) 1 = Some row \<and> po_status row = Completed \<and>
     (credits_of (po_code row) (st_db s) \<noteq> [] \<or> grants_of 1 (st_db s) \<noteq> [])"
proof -
  let ?row = "the (pd_orders paid_db 1)"
  have "completes demo_env (\<lambda>_. 200) 0 11 1 (J_retry 1) paid_db"
    using completes_retry [of paid_db 1 ?row "\<lambda>_. 200" demo_env 0 0] demo_can
    by (simp add: paid_row(1) leasable_def fresh_order_def demo_order_def eval_nat_numeral)
       (blast)
  then obtain db' row where run: "runs demo_env (\<lambda>_. 200) 0 11 (J_retry 1, paid_db) = (J_done None, db')"
    "pd_orders db' 1 = Some row" "po_status row = Completed" by (auto simp: completes_def)
  from reach_step [OF reach_paid start_job [of _ 0 "J_retry 1"]]
  have "pay_reachable demo_env \<lparr>st_db = paid_db, st_jobs = [0 \<mapsto> J_retry 1]\<rparr>" by simp
  from reach_runs [OF this, of 0 "J_retry 1" "\<lambda>_. 200" 0 11] run(1)
  have "pay_reachable demo_env \<lparr>st_db = db', st_jobs = [0 \<mapsto> J_done None]\<rparr>" by simp
  moreover from pay_reachable_ok [OF this] have "order_ok demo_env 1 row db'"
    by (intro row_ok [OF _ run(2)]) (simp add: pay_ok_def)
  with run(3) have "credits_of (po_code row) db' \<noteq> [] \<or> grants_of 1 db' \<noteq> []"
    by (auto simp: order_ok_def delivered_def split: if_splits)
  ultimately show ?thesis using run by (metis pay_state.select_convs(1))
qed

theorem completed_order_delivered_witness:
  "\<exists>s row. pay_reachable demo_env s \<and> pd_orders (st_db s) 1 = Some row \<and> 1 \<in> pd_confirmed (st_db s) \<and>
     delivered demo_env row (st_db s)"
  using reach_completed completed_order_delivered by blast

theorem payouts_happen_once_witness:
  "\<exists>s row. pay_reachable demo_env s \<and> pd_orders (st_db s) 1 = Some row \<and>
     (credits_of (po_code row) (st_db s) \<noteq> [] \<or> grants_of 1 (st_db s) \<noteq> []) \<and>
     length (credits_of (po_code row) (st_db s)) \<le> 1 \<and> length (grants_of 1 (st_db s)) \<le> 1"
  using reach_completed payouts_happen_once by metis

definition demo_code :: "int redeem_code" where
  "demo_code = \<lparr>rc_code = ''gift'', rc_type = ''balance'', rc_value = 30, rc_status = ''unused'', rc_used_by = None, rc_expires_at = None\<rparr>"

definition gift_state :: "int pay_state" where
  "gift_state = \<lparr>st_db = empty_pay_db\<lparr>pd_users := [7 \<mapsto> \<lparr>pu_balance = 5, pu_recharged = 0\<rparr>], pd_codes := [''gift'' \<mapsto> demo_code]\<rparr>,
     st_jobs = [0 \<mapsto> J_public_use 7 demo_code]\<rparr>"

theorem balances_move_with_credits_witness:
  "\<exists>s'. pay_step demo_env gift_state s' \<and> pd_credits (st_db s') \<noteq> pd_credits (st_db gift_state) \<and>
     (\<exists>c who v. pd_credits (st_db s') = pd_credits (st_db gift_state) @ [(c, who, v)] \<and>
       pd_users (st_db s') 7 = Some (if who = 7 then credit_user v \<lparr>pu_balance = 5, pu_recharged = 0\<rparr>
         else \<lparr>pu_balance = 5, pu_recharged = 0\<rparr>))"
proof -
  let ?r = "job_step demo_env 0 (J_public_use 7 demo_code) (st_db gift_state)"
  let ?s = "gift_state\<lparr>st_db := snd ?r, st_jobs := (st_jobs gift_state)(0 \<mapsto> fst ?r)\<rparr>"
  have st: "pay_step demo_env gift_state ?s"
    by (rule run_job [where j = "J_public_use 7 demo_code" and now = 0]) (simp_all add: gift_state_def)
  have new: "pd_credits (st_db ?s) \<noteq> pd_credits (st_db gift_state)"
    by (simp add: gift_state_def demo_code_def public_use_step_def use_code_def empty_pay_db_def)
  have u: "pd_users (st_db gift_state) 7 = Some \<lparr>pu_balance = 5, pu_recharged = 0\<rparr>" by (simp add: gift_state_def)
  from balances_move_with_credits [OF st u] new st show ?thesis by blast
qed

end
