(* ===== verification/PaymentRefunds.thy ===== *)
theory PaymentRefunds
  imports PaymentOrders
begin

text \<open>
  Refunds of payment orders (\<^verbatim>\<open>internal/service/payment_refund.go\<close>): requests, plans, the
  execution with its deductions from balance or subscription, the gateway, the pending refunds and
  their finalization. The statements are the steps of jobs, as for the fulfilment.
\<close>

section \<open>State\<close>

datatype deduction = No_deduction | Balance_deduction | Subscription_deduction

record 'm refund_plan =
  rp_row :: "'m pay_order"
  rp_amount :: 'm
  rp_gateway :: 'm
  rp_force :: bool
  rp_deduction :: deduction
  rp_balance :: 'm
  rp_days :: int
  rp_sub :: int
  rp_held :: bool

record subscription =
  sb_user :: int
  sb_group :: int
  sb_expires :: instant
  sb_status :: string

datatype gateway_answer = Gateway_success | Gateway_pending | Gateway_failed

text \<open>The detail of a pending refund is that of its audit entry. \<open>rd_answers\<close> records what the gateway
  answered to the calls for an order, \<open>rd_taken\<close> what has been deducted from its user and not returned.\<close>

record 'm refund_db =
  rd_db :: "'m pay_db"
  rd_subs :: "int \<rightharpoonup> subscription"
  rd_pending :: "int \<rightharpoonup> 'm refund_plan"
  rd_answers :: "(int \<times> gateway_answer) list"
  rd_taken :: "int \<Rightarrow> 'm"

definition with_db :: "('m pay_db \<Rightarrow> 'm pay_db) \<Rightarrow> 'm refund_db \<Rightarrow> 'm refund_db" where
  "with_db f rd = rd\<lparr>rd_db := f (rd_db rd)\<rparr>"

definition refund_order :: "int \<Rightarrow> 'm refund_db \<Rightarrow> 'm pay_order option" where
  "refund_order oid rd = pd_orders (rd_db rd) oid"

datatype refund_error =
  Refund_not_found | Refund_forbidden | Refund_type | Refund_status | Refund_disabled | Provider_lookup_failed
  | Refund_amount_invalid | Refund_exceeds | Needs_force | Balance_too_low | Refund_conflict | Deduction_failed
  | Refund_gateway_failed | Refund_store | Refund_pending_answer

section \<open>Amounts and plans\<close>

definition gateway_refund_amount :: "'m pay_env \<Rightarrow> 'm::{zero,ord,minus,abs} \<Rightarrow> 'm \<Rightarrow> 'm \<Rightarrow> string \<Rightarrow> 'm" where
  "gateway_refund_amount env order_amount paid refund currency =
     (let digits = currency_fraction_digits (pe_upper env) currency in
      if order_amount \<le> 0 \<or> paid \<le> 0 \<or> refund \<le> 0 then 0
      else if \<bar>refund - order_amount\<bar> \<le> amount_tolerance env currency then pe_round env paid digits
      else pe_share env paid refund order_amount digits)"

definition active_subscription :: "int \<Rightarrow> int \<Rightarrow> instant \<Rightarrow> (int \<times> subscription) list \<Rightarrow> int option" where
  "active_subscription uid gid now subs =
     map_option fst (find (\<lambda>(i, s). sb_user s = uid \<and> sb_group s = gid \<and> sb_status s = ''active'' \<and> now < sb_expires s) subs)"

text \<open>\<open>prepDeduct\<close>: what the plan will deduct, or the answer that the refund has to be forced.\<close>

definition prep_deduct ::
  "'m::{zero,ord} pay_order \<Rightarrow> 'm refund_plan \<Rightarrow> bool \<Rightarrow> int option \<Rightarrow> 'm refund_db \<Rightarrow> refund_error + 'm refund_plan" where
  "prep_deduct row p force sub rd =
     (if po_type row = ''subscription'' then
        (case (po_group row, po_days row) of
           (Some gid, Some days) \<Rightarrow>
             (case sub of
                Some i \<Rightarrow> Inr (p\<lparr>rp_deduction := Subscription_deduction, rp_days := days, rp_sub := i\<rparr>)
              | None \<Rightarrow>
                  if force then Inr (p\<lparr>rp_deduction := Subscription_deduction, rp_days := days\<rparr>) else Inl Needs_force)
         | _ \<Rightarrow> Inr (p\<lparr>rp_deduction := Subscription_deduction\<rparr>))
      else (case pd_users (rd_db rd) (po_user row) of
          None \<Rightarrow> if force then Inr p else Inl Needs_force
        | Some u \<Rightarrow>
            if pu_balance u < rp_amount p \<and> \<not> force then Inl Needs_force
            else Inr (p\<lparr>rp_deduction := Balance_deduction, rp_balance := max 0 (min (rp_amount p) (pu_balance u))\<rparr>)))"

definition refundable :: "order_status \<Rightarrow> bool" where
  "refundable st \<longleftrightarrow> st = Completed \<or> st = Refund_requested \<or> st = Refund_failed"

text \<open>\<open>PrepareRefund\<close>; the subscription of the user that is active, if any, is an argument.\<close>

definition prepare_refund ::
  "'m pay_env \<Rightarrow> int \<Rightarrow> 'm::{zero,ord,minus,abs} \<Rightarrow> bool \<Rightarrow> bool \<Rightarrow> int option \<Rightarrow> 'm refund_db \<Rightarrow> refund_error + 'm refund_plan" where
  "prepare_refund env oid amt0 force deduct sub rd =
     (case refund_order oid rd of
        None \<Rightarrow> Inl Refund_not_found
      | Some row \<Rightarrow>
          if \<not> refundable (po_status row) then Inl Refund_status
          else (case refund_instance env row of
              Inl _ \<Rightarrow> Inl Provider_lookup_failed
            | Inr None \<Rightarrow> Inl Refund_disabled
            | Inr (Some inst) \<Rightarrow>
                if \<not> pi_refund_enabled inst then Inl Refund_disabled
                else if \<not> pe_finite env amt0 then Inl Refund_amount_invalid
                else
                  let amt = (if amt0 \<le> 0 then po_amount row else amt0);
                      currency = order_currency (pe_upper env) row in
                  if amount_tolerance env currency < amt - po_amount row then Inl Refund_exceeds
                  else
                    let p = \<lparr>rp_row = row, rp_amount = amt,
                             rp_gateway = gateway_refund_amount env (po_amount row) (po_pay_amount row) amt currency,
                             rp_force = force, rp_deduction = No_deduction, rp_balance = 0, rp_days = 0, rp_sub = 0,
                             rp_held = False\<rparr> in
                    if deduct then prep_deduct row p force sub rd else Inr p))"

section \<open>Deductions\<close>

text \<open>\<open>DeductAvailableBalance\<close>: what is there, at most the amount.\<close>

definition take_balance :: "int \<Rightarrow> int \<Rightarrow> 'm::{zero,minus,plus,ord} \<Rightarrow> 'm refund_db \<Rightarrow> 'm option \<times> 'm refund_db" where
  "take_balance oid uid amount rd =
     (if amount < 0 then (None, rd)
      else case pd_users (rd_db rd) uid of
        None \<Rightarrow> (None, rd)
      | Some u \<Rightarrow>
          let taken = min amount (max (pu_balance u) 0) in
          (Some taken, with_db (\<lambda>db. db\<lparr>pd_users := (pd_users db)(uid \<mapsto> u\<lparr>pu_balance := pu_balance u - taken\<rparr>)\<rparr>)
             (rd\<lparr>rd_taken := (rd_taken rd)(oid := rd_taken rd oid + taken)\<rparr>)))"

text \<open>\<open>UpdateBalance\<close>; a positive amount also counts as a recharge.\<close>

definition update_balance :: "'m::{zero,plus,ord} \<Rightarrow> 'm pay_user \<Rightarrow> 'm pay_user" where
  "update_balance amount u =
     u\<lparr>pu_balance := pu_balance u + amount,
       pu_recharged := (if 0 < amount then pu_recharged u + amount else pu_recharged u)\<rparr>"

definition return_balance :: "int \<Rightarrow> int \<Rightarrow> 'm::{zero,minus,plus,ord} \<Rightarrow> 'm refund_db \<Rightarrow> 'm refund_db option" where
  "return_balance oid uid amount rd =
     (case pd_users (rd_db rd) uid of
        None \<Rightarrow> None
      | Some u \<Rightarrow> Some (with_db (\<lambda>db. db\<lparr>pd_users := (pd_users db)(uid \<mapsto> update_balance amount u)\<rparr>)
                     (rd\<lparr>rd_taken := (rd_taken rd)(oid := rd_taken rd oid - amount)\<rparr>)))"

datatype extend_error = Sub_missing | Sub_shortens_expired | Sub_would_expire

definition max_validity_days :: int where
  "max_validity_days = 36500"

definition extend_subscription ::
  "'m pay_env \<Rightarrow> instant \<Rightarrow> int \<Rightarrow> int \<Rightarrow> 'm refund_db \<Rightarrow> extend_error + 'm refund_db" where
  "extend_subscription env now i days0 rd =
     (case rd_subs rd i of
        None \<Rightarrow> Inl Sub_missing
      | Some s \<Rightarrow>
          let days = max (- max_validity_days) (min max_validity_days days0);
              expired = (sb_expires s \<le> now) in
          if expired \<and> days < 0 then Inl Sub_shortens_expired
          else
            let until = min (pe_add_days env (if expired then now else sb_expires s) days) (pe_max_expiry env) in
            if until \<le> now then Inl Sub_would_expire
            else Inr (rd\<lparr>rd_subs := (rd_subs rd)(i \<mapsto> s\<lparr>sb_expires := until,
                    sb_status := (if sb_status s = ''expired'' then ''active'' else sb_status s)\<rparr>)\<rparr>))"

text \<open>The days of a subscription are taken from it, or all of it when they would let it expire.\<close>

definition take_days :: "'m pay_env \<Rightarrow> instant \<Rightarrow> int \<Rightarrow> int \<Rightarrow> 'm refund_db \<Rightarrow> 'm refund_db option" where
  "take_days env now i days rd =
     (case extend_subscription env now i (- days) rd of
        Inr rd' \<Rightarrow> Some rd'
      | Inl Sub_would_expire \<Rightarrow> Some (rd\<lparr>rd_subs := (rd_subs rd)(i := None)\<rparr>)
      | Inl _ \<Rightarrow> None)"

text \<open>What a plan still has to return, and its return; \<open>None\<close> when that fails.\<close>

definition takes_balance :: "'m::{zero,ord} refund_plan \<Rightarrow> bool" where
  "takes_balance p \<longleftrightarrow> rp_deduction p = Balance_deduction \<and> 0 < rp_balance p"

definition takes_days :: "'m refund_plan \<Rightarrow> bool" where
  "takes_days p \<longleftrightarrow> rp_deduction p = Subscription_deduction \<and> 0 < rp_days p \<and> 0 < rp_sub p"

definition return_deduction ::
  "'m pay_env \<Rightarrow> instant \<Rightarrow> 'm::{zero,plus,minus,ord} refund_plan \<Rightarrow> 'm refund_db \<Rightarrow> 'm refund_db option" where
  "return_deduction env now p rd =
     (case (if takes_balance p then return_balance (po_id (rp_row p)) (po_user (rp_row p)) (rp_balance p) rd else Some rd) of
        None \<Rightarrow> None
      | Some rd' \<Rightarrow>
          if takes_days p then
            (case extend_subscription env now (rp_sub p) (rp_days p) rd' of Inl _ \<Rightarrow> None | Inr rd2 \<Rightarrow> Some rd2)
          else Some rd')"

section \<open>The gateway\<close>

text \<open>The answer of a provider: whether the call failed, and the status of its response if there is one.\<close>

record gateway_reply =
  gr_error :: bool
  gr_status :: "string option"

definition read_status :: "string option \<Rightarrow> gateway_answer" where
  "read_status st =
     (case st of
        None \<Rightarrow> Gateway_failed
      | Some s \<Rightarrow>
          let t = trim_space s in
          if t = ''success'' \<or> t = ''refunded'' then Gateway_success
          else if t = ''pending'' then Gateway_pending else Gateway_failed)"

definition read_refund_reply :: "gateway_reply \<Rightarrow> gateway_answer" where
  "read_refund_reply r =
     (if gr_error r then
        (case gr_status r of
           Some s \<Rightarrow> if trim_space s = ''pending'' then Gateway_pending else Gateway_failed
         | None \<Rightarrow> Gateway_failed)
      else read_status (gr_status r))"

end
