(* ===== verification/RefundExecution.thy ===== *)
theory RefundExecution
  imports PaymentRefunds
begin

text \<open>
  The steps of the calls that refund an order, and the system of all of them
  (\<^verbatim>\<open>payment_refund.go\<close>).
\<close>

section \<open>Jobs\<close>

datatype 'm refund_job =
    R_request int int
  | R_mark_requested "'m pay_order"
  | R_prepare int 'm bool bool "int option"
  | R_lock "'m refund_plan"
  | R_deduct "'m refund_plan"
  | R_days "'m refund_plan"
  | R_gateway "'m refund_plan"
  | R_ok "'m refund_plan"
  | R_pending "'m refund_plan"
  | R_rollback "'m refund_plan"
  | R_rollback_failed "'m refund_plan"
  | R_failed "'m refund_plan"
  | R_restore "'m refund_plan" refund_error
  | F_query int "int option"
  | F_success "'m refund_plan"
  | F_failed "'m refund_plan"
  | F_kept "'m refund_plan"
  | R_done "refund_error option"

section \<open>Requests and execution\<close>

definition request_step :: "'m pay_env \<Rightarrow> int \<Rightarrow> int \<Rightarrow> 'm::ord refund_db \<Rightarrow> 'm refund_job" where
  "request_step env oid uid rd =
     (case refund_order oid rd of
        None \<Rightarrow> R_done (Some Refund_not_found)
      | Some row \<Rightarrow>
          if po_user row \<noteq> uid then R_done (Some Refund_forbidden)
          else if po_type row \<noteq> ''balance'' then R_done (Some Refund_type)
          else if po_status row \<noteq> Completed then R_done (Some Refund_status)
          else (case refund_instance env row of
              Inr (Some inst) \<Rightarrow>
                if \<not> pi_user_refund inst then R_done (Some Refund_disabled)
                else (case pd_users (rd_db rd) (po_user row) of
                    None \<Rightarrow> R_done (Some Refund_store)
                  | Some u \<Rightarrow> if pu_balance u < po_amount row then R_done (Some Balance_too_low) else R_mark_requested row)
            | _ \<Rightarrow> R_done (Some Refund_disabled)))"

definition set_order ::
  "int \<Rightarrow> instant \<Rightarrow> ('m pay_order \<Rightarrow> bool) \<Rightarrow> ('m pay_order \<Rightarrow> 'm pay_order) \<Rightarrow> 'm refund_db \<Rightarrow> bool \<times> 'm refund_db" where
  "set_order oid now guard f rd =
     (case update_order oid now guard f (rd_db rd) of (hit, db) \<Rightarrow> (hit, rd\<lparr>rd_db := db\<rparr>))"

definition mark_requested_step :: "instant \<Rightarrow> 'm pay_order \<Rightarrow> 'm refund_db \<Rightarrow> 'm refund_job \<times> 'm refund_db" where
  "mark_requested_step now row rd =
     (let (hit, rd') = set_order (po_id row) now
            (\<lambda>r. po_user r = po_user row \<and> po_status r = Completed \<and> po_type r = ''balance'')
            (\<lambda>r. r\<lparr>po_status := Refund_requested, po_refund_amount := po_amount row\<rparr>) rd in
      if hit then (R_done None, with_db (audit (po_id row) ''REFUND_REQUESTED'') rd') else (R_done (Some Refund_conflict), rd'))"

definition lock_step :: "instant \<Rightarrow> 'm refund_plan \<Rightarrow> 'm refund_db \<Rightarrow> 'm refund_job \<times> 'm refund_db" where
  "lock_step now p rd =
     (let (hit, rd') = set_order (po_id (rp_row p)) now (\<lambda>r. refundable (po_status r)) (\<lambda>r. r\<lparr>po_status := Refunding\<rparr>) rd in
      (if hit then R_deduct p else R_done (Some Refund_conflict), rd'))"

text \<open>A deduction that an earlier attempt could not return is not made again.\<close>

definition rollback_open :: "int \<Rightarrow> 'm refund_db \<Rightarrow> bool" where
  "rollback_open oid rd \<longleftrightarrow> has_audit oid ''REFUND_ROLLBACK_FAILED'' (rd_db rd)"

definition deduct_step :: "'m::{zero,plus,minus,ord} refund_plan \<Rightarrow> 'm refund_db \<Rightarrow> 'm refund_job \<times> 'm refund_db" where
  "deduct_step p rd =
     (let oid = po_id (rp_row p) in
      if \<not> takes_balance p then (R_days p, rd)
      else if rollback_open oid rd then (R_days (p\<lparr>rp_balance := 0\<rparr>), rd)
      else (case take_balance oid (po_user (rp_row p)) (rp_balance p) rd of
          (None, rd') \<Rightarrow> (R_restore p Deduction_failed, rd')
        | (Some taken, rd') \<Rightarrow> (R_days (p\<lparr>rp_balance := taken\<rparr>), rd')))"

definition days_step :: "'m pay_env \<Rightarrow> instant \<Rightarrow> 'm refund_plan \<Rightarrow> 'm refund_db \<Rightarrow> 'm refund_job \<times> 'm refund_db" where
  "days_step env now p rd =
     (if \<not> takes_days p then (R_gateway p, rd)
      else if rollback_open (po_id (rp_row p)) rd then (R_gateway (p\<lparr>rp_days := 0\<rparr>), rd)
      else (case take_days env now (rp_sub p) (rp_days p) rd of
          None \<Rightarrow> (R_restore p Deduction_failed, rd)
        | Some rd' \<Rightarrow> (R_gateway p, rd')))"

text \<open>Without a trade number the gateway is not asked and the refund counts as made.\<close>

definition gateway_step :: "gateway_reply \<Rightarrow> 'm refund_plan \<Rightarrow> 'm refund_db \<Rightarrow> 'm refund_job \<times> 'm refund_db" where
  "gateway_step reply p rd =
     (let oid = po_id (rp_row p) in
      if po_trade_no (rp_row p) = [] then (R_ok p, with_db (audit oid ''REFUND_NO_TRADE_NO'') rd)
      else
        let a = read_refund_reply reply; rd' = rd\<lparr>rd_answers := rd_answers rd @ [(oid, a)]\<rparr> in
        (case a of Gateway_success \<Rightarrow> R_ok p | Gateway_pending \<Rightarrow> R_pending p | Gateway_failed \<Rightarrow> R_rollback p, rd'))"

definition refunded_status :: "'m::ord refund_plan \<Rightarrow> order_status" where
  "refunded_status p = (if rp_amount p < po_amount (rp_row p) then Partially_refunded else Refunded)"

definition ok_step :: "instant \<Rightarrow> 'm::ord refund_plan \<Rightarrow> 'm refund_db \<Rightarrow> 'm refund_job \<times> 'm refund_db" where
  "ok_step now p rd =
     (let (hit, rd') = set_order (po_id (rp_row p)) now (\<lambda>_. True)
            (\<lambda>r. r\<lparr>po_status := refunded_status p, po_refund_amount := rp_amount p\<rparr>) rd in
      if hit then (R_done None, with_db (audit (po_id (rp_row p)) ''REFUND_SUCCESS'') rd') else (R_done (Some Refund_store), rd'))"

text \<open>An audit entry written in a transaction: the index on order and action refuses a second one.\<close>

definition audit_tx :: "int \<Rightarrow> string \<Rightarrow> 'm refund_db \<Rightarrow> 'm refund_db option" where
  "audit_tx oid action rd = (if has_audit oid action (rd_db rd) then None else Some (with_db (audit oid action) rd))"

definition pending_step :: "instant \<Rightarrow> 'm refund_plan \<Rightarrow> 'm refund_db \<Rightarrow> 'm refund_job \<times> 'm refund_db" where
  "pending_step now p rd =
     (let oid = po_id (rp_row p);
          (hit, rd') = set_order oid now (\<lambda>_. True)
            (\<lambda>r. r\<lparr>po_status := Refund_pending, po_refund_amount := rp_amount p, po_failed_at := None\<rparr>) rd in
      if \<not> hit then (R_done (Some Refund_store), rd)
      else (case audit_tx oid ''REFUND_PENDING'' rd' of
          None \<Rightarrow> (R_done (Some Refund_store), rd)
        | Some rd2 \<Rightarrow> (R_done (Some Refund_pending_answer), rd2\<lparr>rd_pending := (rd_pending rd2)(oid \<mapsto> p\<lparr>rp_held := True\<rparr>)\<rparr>)))"

definition rollback_step ::
  "'m pay_env \<Rightarrow> instant \<Rightarrow> 'm::{zero,plus,minus,ord} refund_plan \<Rightarrow> 'm refund_db \<Rightarrow> 'm refund_job \<times> 'm refund_db" where
  "rollback_step env now p rd =
     (case return_deduction env now p rd of
        None \<Rightarrow> (R_rollback_failed p, rd)
      | Some rd' \<Rightarrow> (R_restore p Refund_gateway_failed, rd'))"

definition rollback_failed_step :: "'m refund_plan \<Rightarrow> 'm refund_db \<Rightarrow> 'm refund_job \<times> 'm refund_db" where
  "rollback_failed_step p rd = (R_failed p, with_db (audit (po_id (rp_row p)) ''REFUND_ROLLBACK_FAILED'') rd)"

definition failed_step :: "instant \<Rightarrow> 'm refund_plan \<Rightarrow> 'm refund_db \<Rightarrow> 'm refund_job \<times> 'm refund_db" where
  "failed_step now p rd =
     (R_done (Some Refund_gateway_failed),
      with_db (audit (po_id (rp_row p)) ''REFUND_FAILED'')
        (snd (set_order (po_id (rp_row p)) now (\<lambda>_. True) (\<lambda>r. r\<lparr>po_status := Refund_failed, po_failed_at := Some now\<rparr>) rd)))"

definition restore_step :: "instant \<Rightarrow> 'm refund_plan \<Rightarrow> refund_error \<Rightarrow> 'm refund_db \<Rightarrow> 'm refund_job \<times> 'm refund_db" where
  "restore_step now p e rd =
     (let st = (if po_status (rp_row p) = Refund_requested then Refund_requested else Completed);
          rd' = snd (set_order (po_id (rp_row p)) now (\<lambda>_. True) (\<lambda>r. r\<lparr>po_status := st\<rparr>) rd) in
      (R_done (Some e),
       if e = Refund_gateway_failed then with_db (audit (po_id (rp_row p)) ''REFUND_GATEWAY_FAILED'') rd' else rd'))"

section \<open>Pending refunds\<close>

text \<open>The plan of a finalization: what the audit entry says is held; for an order of before there was one,
  the balance is deducted at the end.\<close>

definition finalize_plan ::
  "'m pay_env \<Rightarrow> 'm::{zero,ord,minus,abs} pay_order \<Rightarrow> int option \<Rightarrow> 'm refund_db \<Rightarrow> refund_error + 'm refund_plan" where
  "finalize_plan env row sub rd =
     (let p = \<lparr>rp_row = row, rp_amount = po_refund_amount row,
            rp_gateway = gateway_refund_amount env (po_amount row) (po_pay_amount row) (po_refund_amount row)
              (order_currency (pe_upper env) row),
            rp_force = False, rp_deduction = Balance_deduction,
            rp_balance = (if po_type row = ''balance'' then po_refund_amount row else 0),
            rp_days = 0, rp_sub = 0, rp_held = False\<rparr> in
      case rd_pending rd (po_id row) of
        Some d \<Rightarrow> Inr (p\<lparr>rp_held := True, rp_deduction := rp_deduction d, rp_balance := rp_balance d,
                     rp_days := rp_days d, rp_sub := rp_sub d\<rparr>)
      | None \<Rightarrow> if po_type row = ''subscription'' then prep_deduct row p True sub rd else Inr p)"

definition query_step ::
  "'m pay_env \<Rightarrow> gateway_reply \<Rightarrow> int \<Rightarrow> int option \<Rightarrow> 'm::{zero,ord,minus,abs} refund_db \<Rightarrow> 'm refund_job \<times> 'm refund_db" where
  "query_step env reply oid sub rd =
     (case refund_order oid rd of
        None \<Rightarrow> (R_done (Some Refund_not_found), rd)
      | Some row \<Rightarrow>
          if po_status row \<noteq> Refund_pending then (R_done (Some Refund_status), rd)
          else if gr_error reply then (R_done (Some Refund_gateway_failed), rd)
          else (case finalize_plan env row sub rd of
              Inl e \<Rightarrow> (R_done (Some e), rd)
            | Inr p \<Rightarrow>
                (case read_status (gr_status reply) of
                   Gateway_success \<Rightarrow> (F_success p, rd)
                 | Gateway_failed \<Rightarrow> (F_failed p, rd)
                 | Gateway_pending \<Rightarrow> (R_done (Some Refund_pending_answer), with_db (audit oid ''REFUND_QUERY_PENDING'') rd))))"

definition final_deduction ::
  "'m pay_env \<Rightarrow> instant \<Rightarrow> 'm::{zero,plus,minus,ord} refund_plan \<Rightarrow> 'm refund_db \<Rightarrow> 'm refund_db option" where
  "final_deduction env now p rd =
     (if rp_held p then Some rd
      else
        case (if takes_balance p then (case take_balance (po_id (rp_row p)) (po_user (rp_row p)) (rp_balance p) rd of
               (None, _) \<Rightarrow> None | (Some _, rd') \<Rightarrow> Some rd') else Some rd) of
          None \<Rightarrow> None
        | Some rd' \<Rightarrow> if takes_days p then take_days env now (rp_sub p) (rp_days p) rd' else Some rd')"

text \<open>Each finalization is one transaction that claims the pending status first.\<close>

definition final_success_step ::
  "'m pay_env \<Rightarrow> instant \<Rightarrow> 'm::{zero,plus,minus,ord} refund_plan \<Rightarrow> 'm refund_db \<Rightarrow> 'm refund_job \<times> 'm refund_db" where
  "final_success_step env now p rd =
     (let oid = po_id (rp_row p);
          (hit, rd') = set_order oid now (\<lambda>r. po_status r = Refund_pending)
            (\<lambda>r. r\<lparr>po_status := refunded_status p, po_refund_amount := rp_amount p\<rparr>) rd in
      if \<not> hit then (R_done (Some Refund_conflict), rd)
      else (case final_deduction env now p rd' of
          None \<Rightarrow> (R_done (Some Deduction_failed), rd)
        | Some rd2 \<Rightarrow>
            (case audit_tx oid ''REFUND_SUCCESS'' rd2 of
               None \<Rightarrow> (R_done (Some Refund_store), rd)
             | Some rd3 \<Rightarrow> (R_done None, rd3))))"

definition claim_failed :: "instant \<Rightarrow> 'm refund_plan \<Rightarrow> 'm refund_db \<Rightarrow> bool \<times> 'm refund_db" where
  "claim_failed now p rd =
     (let (hit, rd') = set_order (po_id (rp_row p)) now (\<lambda>r. po_status r = Refund_pending)
            (\<lambda>r. r\<lparr>po_status := Refund_failed, po_failed_at := Some now\<rparr>) rd in
      (hit, rd'\<lparr>rd_answers := rd_answers rd' @ [(po_id (rp_row p), Gateway_failed)]\<rparr>))"

definition final_failed_step ::
  "'m pay_env \<Rightarrow> instant \<Rightarrow> 'm::{zero,plus,minus,ord} refund_plan \<Rightarrow> 'm refund_db \<Rightarrow> 'm refund_job \<times> 'm refund_db" where
  "final_failed_step env now p rd =
     (let (hit, rd') = claim_failed now p rd in
      if \<not> hit then (R_done (Some Refund_conflict), rd)
      else (case (if rp_held p then return_deduction env now p rd' else Some rd') of
          None \<Rightarrow> (F_kept p, rd)
        | Some rd2 \<Rightarrow>
            (case audit_tx (po_id (rp_row p)) ''REFUND_FAILED'' rd2 of
               None \<Rightarrow> (R_done (Some Refund_store), rd)
             | Some rd3 \<Rightarrow> (R_done (Some Refund_gateway_failed), rd3))))"

definition final_kept_step :: "instant \<Rightarrow> 'm refund_plan \<Rightarrow> 'm refund_db \<Rightarrow> 'm refund_job \<times> 'm refund_db" where
  "final_kept_step now p rd =
     (let oid = po_id (rp_row p); (hit, rd') = claim_failed now p rd in
      if \<not> hit then (R_done (Some Refund_conflict), rd)
      else (case audit_tx oid ''REFUND_ROLLBACK_FAILED'' rd' of
          None \<Rightarrow> (R_done (Some Refund_store), rd)
        | Some rd2 \<Rightarrow>
            (case audit_tx oid ''REFUND_FAILED'' rd2 of
               None \<Rightarrow> (R_done (Some Refund_store), rd)
             | Some rd3 \<Rightarrow> (R_done (Some Refund_gateway_failed), rd3))))"


section \<open>A step of a job\<close>

fun refund_job_step ::
  "'m pay_env \<Rightarrow> instant \<Rightarrow> gateway_reply \<Rightarrow> 'm::{zero,plus,minus,ord,abs} refund_job \<Rightarrow> 'm refund_db \<Rightarrow> 'm refund_job \<times> 'm refund_db" where
  "refund_job_step env now reply (R_request oid uid) rd = (request_step env oid uid rd, rd)"
| "refund_job_step env now reply (R_mark_requested row) rd = mark_requested_step now row rd"
| "refund_job_step env now reply (R_prepare oid amt force deduct sub) rd =
     ((case prepare_refund env oid amt force deduct sub rd of Inl e \<Rightarrow> R_done (Some e) | Inr p \<Rightarrow> R_lock p), rd)"
| "refund_job_step env now reply (R_lock p) rd = lock_step now p rd"
| "refund_job_step env now reply (R_deduct p) rd = deduct_step p rd"
| "refund_job_step env now reply (R_days p) rd = days_step env now p rd"
| "refund_job_step env now reply (R_gateway p) rd = gateway_step reply p rd"
| "refund_job_step env now reply (R_ok p) rd = ok_step now p rd"
| "refund_job_step env now reply (R_pending p) rd = pending_step now p rd"
| "refund_job_step env now reply (R_rollback p) rd = rollback_step env now p rd"
| "refund_job_step env now reply (R_rollback_failed p) rd = rollback_failed_step p rd"
| "refund_job_step env now reply (R_failed p) rd = failed_step now p rd"
| "refund_job_step env now reply (R_restore p e) rd = restore_step now p e rd"
| "refund_job_step env now reply (F_query oid sub) rd = query_step env reply oid sub rd"
| "refund_job_step env now reply (F_success p) rd = final_success_step env now p rd"
| "refund_job_step env now reply (F_failed p) rd = final_failed_step env now p rd"
| "refund_job_step env now reply (F_kept p) rd = final_kept_step now p rd"
| "refund_job_step env now reply (R_done r) rd = (R_done r, rd)"

text \<open>What a call does when its statement fails. A step without a statement cannot fail.\<close>

fun refund_fault :: "'m::{zero,ord} refund_job \<Rightarrow> 'm refund_job" where
  "refund_fault (R_deduct p) = (if takes_balance p then R_restore p Deduction_failed else R_days p)"
| "refund_fault (R_days p) = (if takes_days p then R_restore p Deduction_failed else R_gateway p)"
| "refund_fault (R_gateway p) = R_rollback p"
| "refund_fault (R_rollback p) = R_rollback_failed p"
| "refund_fault (R_rollback_failed p) = R_failed p"
| "refund_fault (F_failed p) = (if rp_held p then F_kept p else R_done (Some Refund_store))"
| "refund_fault (R_done r) = R_done r"
| "refund_fault j = R_done (Some Refund_store)"

section \<open>The system\<close>

record 'm refund_state =
  rs_db :: "'m refund_db"
  rs_jobs :: "nat \<rightharpoonup> 'm refund_job"

fun refund_starting :: "'m refund_job \<Rightarrow> bool" where
  "refund_starting (R_request oid uid) = True"
| "refund_starting (R_prepare oid amt force deduct sub) = True"
| "refund_starting (F_query oid sub) = True"
| "refund_starting j = False"

text \<open>
  The steps of the system. With \<open>strict\<close> a statement that fails has had no effect and the entry that a
  rollback failed, which the code writes without looking at the result, is written. A call of the gateway
  whose answer is lost is one that failed.
\<close>

inductive refund_step :: "'m pay_env \<Rightarrow> bool \<Rightarrow> 'm::{zero,plus,minus,ord,abs} refund_state \<Rightarrow> 'm refund_state \<Rightarrow> bool"
  for env strict where
  refund_start_job: "rs_jobs s i = None \<Longrightarrow> refund_starting j \<Longrightarrow>
     refund_step env strict s (s\<lparr>rs_jobs := (rs_jobs s)(i \<mapsto> j)\<rparr>)"
| refund_run: "rs_jobs s i = Some j \<Longrightarrow> refund_job_step env now reply j (rs_db s) = (j', rd') \<Longrightarrow>
     refund_step env strict s (s\<lparr>rs_db := rd', rs_jobs := (rs_jobs s)(i \<mapsto> j')\<rparr>)"
| refund_fault_before: "rs_jobs s i = Some j \<Longrightarrow> (strict \<Longrightarrow> \<forall>p. j \<noteq> R_rollback_failed p) \<Longrightarrow>
     refund_step env strict s (s\<lparr>rs_jobs := (rs_jobs s)(i \<mapsto> refund_fault j)\<rparr>)"
| refund_fault_after: "\<not> strict \<Longrightarrow> rs_jobs s i = Some j \<Longrightarrow> \<forall>p. j \<noteq> R_gateway p \<Longrightarrow>
     refund_job_step env now reply j (rs_db s) = (j', rd') \<Longrightarrow>
     refund_step env strict s (s\<lparr>rs_db := rd', rs_jobs := (rs_jobs s)(i \<mapsto> refund_fault j)\<rparr>)"
| refund_crash: "rs_jobs s i = Some j \<Longrightarrow> refund_step env strict s (s\<lparr>rs_jobs := (rs_jobs s)(i := None)\<rparr>)"

text \<open>At the start no order has seen a refund.\<close>

definition refund_start :: "'m::zero refund_state \<Rightarrow> bool" where
  "refund_start s \<longleftrightarrow> rs_jobs s = Map.empty \<and> rd_answers (rs_db s) = [] \<and> rd_pending (rs_db s) = Map.empty \<and>
     rd_taken (rs_db s) = (\<lambda>_. 0) \<and> pd_audits (rd_db (rs_db s)) = {} \<and>
     (\<forall>oid row. refund_order oid (rs_db s) = Some row \<longrightarrow> po_id row = oid \<and> \<not> is_refund_status (po_status row))"

definition refund_reachable :: "'m pay_env \<Rightarrow> bool \<Rightarrow> 'm::{zero,plus,minus,ord,abs} refund_state \<Rightarrow> bool" where
  "refund_reachable env strict s \<longleftrightarrow> (\<exists>s0. refund_start s0 \<and> (refund_step env strict)\<^sup>*\<^sup>* s0 s)"

lemma refund_reachable_induct [consumes 1, case_names start step]:
  assumes "refund_reachable env strict s" "\<And>s. refund_start s \<Longrightarrow> P s"
    and "\<And>s s'. P s \<Longrightarrow> refund_step env strict s s' \<Longrightarrow> P s'"
  shows "P s"
proof -
  from assms(1) obtain s0 where "refund_start s0" "(refund_step env strict)\<^sup>*\<^sup>* s0 s" unfolding refund_reachable_def by blast
  from this(2,1) show ?thesis
    by (induction rule: rtranclp_induct) (use assms(2,3) in blast)+
qed

end
