(* ===== verification/RefundSafety.thy ===== *)
theory RefundSafety
  imports RefundExecution
begin

text \<open>
  What the refunds of an order keep: one call at a time holds an order, the gateway accepts a refund of it
  once, what is deducted is returned when the refund fails, and the ways in which a refund gets stuck.
\<close>

section \<open>Views of an order\<close>

definition status_of :: "int \<Rightarrow> 'm refund_db \<Rightarrow> order_status option" where
  "status_of oid rd = map_option po_status (refund_order oid rd)"

definition answers_of :: "int \<Rightarrow> 'm refund_db \<Rightarrow> gateway_answer list" where
  "answers_of oid rd = map snd (filter (\<lambda>e. fst e = oid) (rd_answers rd))"

text \<open>A refund is accepted by the last answer unless that is a failure; between two acceptances the gateway
  has said that the first one failed.\<close>

definition accepted :: "gateway_answer list \<Rightarrow> bool" where
  "accepted as \<longleftrightarrow> as \<noteq> [] \<and> last as \<noteq> Gateway_failed"

fun accepted_once :: "bool \<Rightarrow> gateway_answer list \<Rightarrow> bool" where
  "accepted_once b [] = True"
| "accepted_once b (a # as) = (if a = Gateway_failed then accepted_once False as else \<not> b \<and> accepted_once True as)"

lemma accepted_Nil [simp]: "\<not> accepted []"
  by (simp add: accepted_def)

lemma accepted_snoc [simp]: "accepted (as @ [a]) = (a \<noteq> Gateway_failed)"
  by (simp add: accepted_def)

lemma accepted_once_snoc:
  "accepted_once b (as @ [a]) \<longleftrightarrow>
     accepted_once b as \<and> (a = Gateway_failed \<or> \<not> (if as = [] then b else accepted as))"
  by (induction as arbitrary: b) (auto simp: accepted_def)

text \<open>What is the same of an order before and after.\<close>

definition same_view :: "int \<Rightarrow> 'm refund_db \<Rightarrow> 'm refund_db \<Rightarrow> bool" where
  "same_view oid rd rd' \<longleftrightarrow> status_of oid rd' = status_of oid rd \<and> answers_of oid rd' = answers_of oid rd \<and>
     rollback_open oid rd' = rollback_open oid rd \<and> rd_pending rd' oid = rd_pending rd oid \<and>
     has_audit oid ''REFUND_PENDING'' (rd_db rd') = has_audit oid ''REFUND_PENDING'' (rd_db rd) \<and>
     rd_taken rd' oid = rd_taken rd oid"

lemma same_view_refl [simp]: "same_view oid rd rd"
  by (simp add: same_view_def)

lemma set_order_view:
  "set_order i now g f rd = (hit, rd') \<Longrightarrow>
     answers_of oid rd' = answers_of oid rd \<and> has_audit oid a (rd_db rd') = has_audit oid a (rd_db rd) \<and>
     rd_pending rd' = rd_pending rd \<and> rd_taken rd' = rd_taken rd \<and> rd_subs rd' = rd_subs rd \<and> rd_answers rd' = rd_answers rd \<and>
     pd_users (rd_db rd') = pd_users (rd_db rd) \<and> (oid \<noteq> i \<longrightarrow> status_of oid rd' = status_of oid rd) \<and>
     (hit \<longleftrightarrow> (\<exists>r. refund_order i rd = Some r \<and> g r)) \<and> (\<not> hit \<longrightarrow> rd' = rd) \<and>
     (hit \<longrightarrow> (\<exists>r. refund_order i rd = Some r \<and> g r \<and> status_of i rd' = Some (po_status (f r))))"
  by (auto simp: set_order_def update_order_def status_of_def refund_order_def answers_of_def has_audit_def
      split: option.splits if_splits prod.splits)

lemma with_audit_view [simp]:
  "status_of oid (with_db (audit i a) rd) = status_of oid rd" "answers_of oid (with_db (audit i a) rd) = answers_of oid rd"
  "rd_pending (with_db (audit i a) rd) = rd_pending rd" "rd_taken (with_db (audit i a) rd) = rd_taken rd"
  "rd_subs (with_db (audit i a) rd) = rd_subs rd" "rd_answers (with_db (audit i a) rd) = rd_answers rd"
  "has_audit oid b (rd_db (with_db (audit i a) rd)) = (oid = i \<and> b = a \<or> has_audit oid b (rd_db rd))"
  "refund_order oid (with_db (audit i a) rd) = refund_order oid rd"
  by (auto simp: with_db_def status_of_def refund_order_def answers_of_def audit_def has_audit_def)

lemma views_simple [simp]:
  "status_of oid (rd\<lparr>rd_answers := x\<rparr>) = status_of oid rd" "status_of oid (rd\<lparr>rd_taken := y\<rparr>) = status_of oid rd"
  "status_of oid (rd\<lparr>rd_subs := z\<rparr>) = status_of oid rd" "status_of oid (rd\<lparr>rd_pending := w\<rparr>) = status_of oid rd"
  "answers_of oid (rd\<lparr>rd_taken := y\<rparr>) = answers_of oid rd" "answers_of oid (rd\<lparr>rd_subs := z\<rparr>) = answers_of oid rd"
  "answers_of oid (rd\<lparr>rd_pending := w\<rparr>) = answers_of oid rd"
  "answers_of oid (rd\<lparr>rd_answers := rd_answers rd @ [(i, a)]\<rparr>) = answers_of oid rd @ (if oid = i then [a] else [])"
  by (auto simp: status_of_def refund_order_def answers_of_def)

lemma take_balance_view:
  "take_balance i u a rd = (r, rd') \<Longrightarrow> status_of oid rd' = status_of oid rd \<and> answers_of oid rd' = answers_of oid rd \<and>
     has_audit oid b (rd_db rd') = has_audit oid b (rd_db rd) \<and> rd_pending rd' = rd_pending rd \<and>
     (oid \<noteq> i \<longrightarrow> rd_taken rd' oid = rd_taken rd oid) \<and> (r = None \<longrightarrow> rd' = rd) \<and>
     (\<forall>t. r = Some t \<longrightarrow> rd_taken rd' i = rd_taken rd i + t)"
  by (auto simp: take_balance_def with_db_def status_of_def refund_order_def answers_of_def has_audit_def Let_def
      split: option.splits if_splits)

lemma extend_only_subs: "extend_subscription env now i d rd = Inr rd' \<Longrightarrow> \<exists>z. rd' = rd\<lparr>rd_subs := z\<rparr>"
  by (auto simp: extend_subscription_def Let_def split: option.splits if_splits)

lemma take_days_only_subs: "take_days env now i d rd = Some rd' \<Longrightarrow> \<exists>z. rd' = rd\<lparr>rd_subs := z\<rparr>"
  using extend_only_subs [of env now i "- d" rd] by (auto simp: take_days_def split: sum.splits extend_error.splits)

lemma subs_view [simp]: "same_view oid rd (rd\<lparr>rd_subs := z\<rparr>)"
  by (simp add: same_view_def rollback_open_def)

lemma return_balance_view:
  "return_balance i u a rd = Some rd' \<Longrightarrow> status_of oid rd' = status_of oid rd \<and> answers_of oid rd' = answers_of oid rd \<and>
     has_audit oid b (rd_db rd') = has_audit oid b (rd_db rd) \<and> rd_pending rd' = rd_pending rd \<and>
     (oid \<noteq> i \<longrightarrow> rd_taken rd' oid = rd_taken rd oid) \<and> rd_taken rd' i = rd_taken rd i - a"
  by (auto simp: return_balance_def with_db_def status_of_def refund_order_def answers_of_def has_audit_def split: option.splits)

lemma return_deduction_view:
  assumes "return_deduction env now p rd = Some rd'"
  shows "status_of oid rd' = status_of oid rd \<and> answers_of oid rd' = answers_of oid rd \<and>
     has_audit oid b (rd_db rd') = has_audit oid b (rd_db rd) \<and> rd_pending rd' = rd_pending rd \<and>
     (oid \<noteq> po_id (rp_row p) \<longrightarrow> rd_taken rd' oid = rd_taken rd oid) \<and>
     rd_taken rd' (po_id (rp_row p)) =
       (if takes_balance p then rd_taken rd (po_id (rp_row p)) - rp_balance p else rd_taken rd (po_id (rp_row p)))"
proof -
  let ?i = "po_id (rp_row p)"
  obtain r1 where r1: "(if takes_balance p then return_balance ?i (po_user (rp_row p)) (rp_balance p) rd else Some rd) = Some r1"
    and last: "\<exists>z. rd' = r1\<lparr>rd_subs := z\<rparr>"
  proof (cases "if takes_balance p then return_balance ?i (po_user (rp_row p)) (rp_balance p) rd else Some rd")
    case None
    with assms show thesis by (simp add: return_deduction_def)
  next
    case (Some r1)
    have "r1 = r1\<lparr>rd_subs := rd_subs r1\<rparr>" by simp
    with Some assms extend_only_subs show thesis
      by (intro that [OF Some]) (auto simp: return_deduction_def split: if_splits sum.splits intro: exI [of _ "rd_subs r1"])
  qed
  from last obtain z where z: "rd' = r1\<lparr>rd_subs := z\<rparr>" by blast
  show ?thesis
  proof (cases "takes_balance p")
    case True
    with r1 return_balance_view [of ?i _ "rp_balance p" rd r1 oid b] z show ?thesis by simp
  next
    case False
    with r1 z show ?thesis by simp
  qed
qed

section \<open>What a step changes\<close>

fun about :: "'m refund_job \<Rightarrow> int" where
  "about (R_mark_requested row) = po_id row"
| "about (F_query oid sub) = oid"
| "about (R_lock p) = po_id (rp_row p)"
| "about (R_deduct p) = po_id (rp_row p)"
| "about (R_days p) = po_id (rp_row p)"
| "about (R_gateway p) = po_id (rp_row p)"
| "about (R_ok p) = po_id (rp_row p)"
| "about (R_pending p) = po_id (rp_row p)"
| "about (R_rollback p) = po_id (rp_row p)"
| "about (R_rollback_failed p) = po_id (rp_row p)"
| "about (R_failed p) = po_id (rp_row p)"
| "about (R_restore p e) = po_id (rp_row p)"
| "about (F_success p) = po_id (rp_row p)"
| "about (F_failed p) = po_id (rp_row p)"
| "about (F_kept p) = po_id (rp_row p)"
| "about j = 0"

lemma same_view_trans: "same_view oid a b \<Longrightarrow> same_view oid b c \<Longrightarrow> same_view oid a c"
  by (simp add: same_view_def)

lemma set_order_other: "set_order i now g f rd = (hit, rd') \<Longrightarrow> oid \<noteq> i \<Longrightarrow> same_view oid rd rd'"
  using set_order_view [of i now g f rd hit rd' oid] by (auto simp: same_view_def rollback_open_def set_order_view)

lemma set_order_snd: "oid \<noteq> i \<Longrightarrow> same_view oid rd (snd (set_order i now g f rd))"
  by (cases "set_order i now g f rd") (simp add: set_order_other)

lemma pending_other: "oid \<noteq> i \<Longrightarrow> same_view oid rd (rd\<lparr>rd_pending := (rd_pending rd)(i \<mapsto> d)\<rparr>)"
  by (simp add: same_view_def rollback_open_def)

lemma audit_other: "oid \<noteq> i \<Longrightarrow> same_view oid rd (with_db (audit i a) rd)"
  by (simp add: same_view_def rollback_open_def)

lemma audit_plain: "a \<noteq> ''REFUND_ROLLBACK_FAILED'' \<Longrightarrow> a \<noteq> ''REFUND_PENDING'' \<Longrightarrow> same_view oid rd (with_db (audit i a) rd)"
  by (simp add: same_view_def rollback_open_def)

lemma answers_other: "oid \<noteq> i \<Longrightarrow> same_view oid rd (rd\<lparr>rd_answers := rd_answers rd @ [(i, a)]\<rparr>)"
  by (simp add: same_view_def rollback_open_def)

lemma take_balance_other: "take_balance i u a rd = (r, rd') \<Longrightarrow> oid \<noteq> i \<Longrightarrow> same_view oid rd rd'"
  by (auto simp: same_view_def rollback_open_def dest: take_balance_view)

lemma return_other: "return_deduction env now p rd = Some rd' \<Longrightarrow> oid \<noteq> po_id (rp_row p) \<Longrightarrow> same_view oid rd rd'"
  by (auto simp: same_view_def rollback_open_def dest: return_deduction_view)

lemma take_days_other: "take_days env now i d rd = Some rd' \<Longrightarrow> same_view oid rd rd'"
  by (auto dest!: take_days_only_subs)

lemma audit_tx_other: "audit_tx i a rd = Some rd' \<Longrightarrow> oid \<noteq> i \<Longrightarrow> same_view oid rd rd'"
  by (auto simp: audit_tx_def audit_other split: if_splits)

lemma final_deduction_other: "final_deduction env now p rd = Some rd' \<Longrightarrow> oid \<noteq> po_id (rp_row p) \<Longrightarrow> same_view oid rd rd'"
  using same_view_trans take_balance_other take_days_other
  by (auto simp: final_deduction_def split: if_splits option.splits prod.splits) blast+

lemma claim_failed_other: "claim_failed now p rd = (hit, rd') \<Longrightarrow> oid \<noteq> po_id (rp_row p) \<Longrightarrow> same_view oid rd rd'"
  using same_view_trans [OF set_order_other answers_other]
  by (auto simp: claim_failed_def split: prod.splits)

lemmas others = set_order_other audit_other audit_plain answers_other take_balance_other return_other take_days_other
  audit_tx_other final_deduction_other claim_failed_other

lemma step_other:
  assumes st: "refund_job_step env now reply j rd = (j', rd')" and other: "oid \<noteq> about j"
  shows "same_view oid rd rd'"
proof (cases j)
  case (F_success p)
  then show ?thesis using st other
    by (auto simp: final_success_step_def Let_def split: if_splits option.splits prod.splits
        dest!: set_order_other final_deduction_other audit_tx_other intro: same_view_trans)
next
  case (F_failed p)
  then show ?thesis using st other
    by (auto simp: final_failed_step_def Let_def split: if_splits option.splits prod.splits
        dest!: claim_failed_other return_other audit_tx_other intro: same_view_trans)
next
  case (F_kept p)
  then show ?thesis using st other
    by (auto simp: final_kept_step_def Let_def split: if_splits option.splits prod.splits
        dest!: claim_failed_other audit_tx_other intro: same_view_trans)
next
  case (R_pending p)
  then show ?thesis using st other
    by (auto simp: pending_step_def Let_def split: if_splits option.splits prod.splits
        dest!: set_order_other audit_tx_other intro: same_view_trans [OF _ pending_other] same_view_trans)
next
  case (R_failed p)
  then show ?thesis using st other
    by (auto simp: failed_step_def intro: same_view_trans [OF set_order_snd audit_other])
next
  case (R_restore p e)
  then show ?thesis using st other
    by (auto simp: restore_step_def Let_def intro: same_view_trans [OF set_order_snd audit_other] set_order_snd)
qed (use st other in \<open>auto simp: mark_requested_step_def lock_step_def deduct_step_def days_step_def gateway_step_def ok_step_def
     rollback_step_def rollback_failed_step_def query_step_def Let_def
     split: if_splits option.splits prod.splits sum.splits gateway_answer.splits
     dest: others intro: others same_view_trans\<close>)

text \<open>The jobs that hold the order they lock, and those of them that have no acceptance yet.\<close>

fun early :: "'m refund_job \<Rightarrow> bool" where
  "early (R_deduct p) = True"
| "early (R_days p) = True"
| "early (R_gateway p) = True"
| "early (R_rollback p) = True"
| "early (R_rollback_failed p) = True"
| "early (R_failed p) = True"
| "early (R_restore p e) = True"
| "early j = False"

fun holder :: "'m refund_job \<Rightarrow> bool" where
  "holder (R_ok p) = True"
| "holder (R_pending p) = True"
| "holder j = early j"

definition gone_through :: "order_status option \<Rightarrow> bool" where
  "gone_through st \<longleftrightarrow> st \<in> {Some Refunding, Some Refund_pending, Some Partially_refunded, Some Refunded}"

lemma read_reply_cases: "read_refund_reply r = Gateway_success \<or> read_refund_reply r = Gateway_pending \<or> read_refund_reply r = Gateway_failed"
  by (cases "read_refund_reply r") auto

lemma set_order_own:
  assumes "set_order i now g f rd = (hit, rd')" "status_of i rd = Some st"
    and "\<And>r. po_status (f r) = st'"
  shows "answers_of i rd' = answers_of i rd \<and> status_of i rd' = Some (if hit then st' else st)"
  using set_order_view [OF assms(1), of i] assms(2,3) by auto

lemma answers_set_order [simp]: "answers_of oid (snd (set_order i now g f rd)) = answers_of oid rd"
  using set_order_view [of i now g f rd] by (cases "set_order i now g f rd") auto

lemma status_set_order_all:
  "status_of i rd \<noteq> None \<Longrightarrow> (\<And>r. po_status (f r) = st') \<Longrightarrow> status_of i (snd (set_order i now (\<lambda>_. True) f rd)) = Some st'"
  using set_order_view [of i now "\<lambda>_. True" f rd "fst (set_order i now (\<lambda>_. True) f rd)" "snd (set_order i now (\<lambda>_. True) f rd)" i]
  by (auto simp: status_of_def)

lemma set_order_hit: "set_order i now g f rd = (hit, rd') \<Longrightarrow>
    (if hit then answers_of i rd' = answers_of i rd \<and> (\<exists>r. g r \<and> status_of i rd = Some (po_status r) \<and> status_of i rd' = Some (po_status (f r)))
     else rd' = rd)"
  by (auto simp: set_order_def update_order_def status_of_def refund_order_def answers_of_def
      split: option.splits if_splits prod.splits)

lemma own_held:
  assumes st: "refund_job_step env now reply j rd = (j', rd')" and h: "holder j"
    and run: "status_of (about j) rd = Some Refunding"
  shows "(holder j' \<longrightarrow> about j' = about j \<and> status_of (about j) rd' = Some Refunding) \<and> (early j' \<longrightarrow> early j) \<and>
    (answers_of (about j) rd' = answers_of (about j) rd \<or>
     (\<exists>a. early j \<and> holder j' \<and> answers_of (about j) rd' = answers_of (about j) rd @ [a] \<and> (early j' \<longleftrightarrow> a = Gateway_failed))) \<and>
    (\<not> early j \<longrightarrow> gone_through (status_of (about j) rd'))"
proof (cases j)
  case (R_deduct p)
  with st run show ?thesis
    by (auto simp: deduct_step_def Let_def gone_through_def split: if_splits option.splits prod.splits
        dest!: take_balance_view [where oid = "about j"])
next
  case (R_days p)
  with st run show ?thesis
    by (auto simp: days_step_def gone_through_def split: if_splits option.splits dest!: take_days_only_subs)
next
  case (R_gateway p)
  with st run show ?thesis
    by (auto simp: gateway_step_def Let_def gone_through_def split: if_splits gateway_answer.splits)
next
  case (R_ok p)
  with st run show ?thesis
    by (auto simp: ok_step_def Let_def gone_through_def refunded_status_def split: if_splits prod.splits dest!: set_order_hit)
next
  case (R_pending p)
  with st run show ?thesis
    by (auto simp: pending_step_def Let_def gone_through_def audit_tx_def split: if_splits prod.splits option.splits
        dest!: set_order_hit)
next
  case (R_rollback p)
  with st run show ?thesis
    by (auto simp: rollback_step_def gone_through_def split: option.splits dest!: return_deduction_view [where oid = "about j"])
next
  case (R_rollback_failed p)
  with st run show ?thesis by (auto simp: rollback_failed_step_def gone_through_def)
next
  case (R_failed p)
  with st run show ?thesis by (auto simp: failed_step_def status_set_order_all)
next
  case (R_restore p e)
  with st run show ?thesis
    by (cases "e = Refund_gateway_failed") (auto simp: restore_step_def Let_def status_set_order_all)
qed (use h in auto)

lemma final_deduction_own: "final_deduction env now p rd = Some rd' \<Longrightarrow>
    status_of oid rd' = status_of oid rd \<and> answers_of oid rd' = answers_of oid rd"
  by (auto simp: final_deduction_def split: if_splits option.splits prod.splits
      dest!: take_balance_view [where oid = oid] take_days_only_subs)

lemma claim_failed_own:
  assumes "claim_failed now p rd = (True, rd')"
  shows "status_of (po_id (rp_row p)) rd = Some Refund_pending \<and> status_of (po_id (rp_row p)) rd' = Some Refund_failed \<and>
    answers_of (po_id (rp_row p)) rd' = answers_of (po_id (rp_row p)) rd @ [Gateway_failed]"
proof -
  from assms obtain r0 where s: "set_order (po_id (rp_row p)) now (\<lambda>r. po_status r = Refund_pending)
            (\<lambda>r. r\<lparr>po_status := Refund_failed, po_failed_at := Some now\<rparr>) rd = (True, r0)"
    and rd': "rd' = r0\<lparr>rd_answers := rd_answers r0 @ [(po_id (rp_row p), Gateway_failed)]\<rparr>"
    by (auto simp: claim_failed_def split: prod.splits)
  from set_order_hit [OF s] show ?thesis unfolding rd' by auto
qed

text \<open>What a job that holds nothing can do to its order.\<close>

inductive free_effect :: "int \<Rightarrow> 'm refund_db \<Rightarrow> 'm refund_db \<Rightarrow> 'm refund_job \<Rightarrow> bool" where
  stays: "status_of i rd' = status_of i rd \<Longrightarrow> answers_of i rd' = answers_of i rd \<Longrightarrow> \<not> holder j' \<Longrightarrow> free_effect i rd rd' j'"
| locks: "status_of i rd = Some x \<Longrightarrow> refundable x \<Longrightarrow> status_of i rd' = Some Refunding \<Longrightarrow>
     answers_of i rd' = answers_of i rd \<Longrightarrow> about j' = i \<Longrightarrow> holder j' \<Longrightarrow> early j' \<Longrightarrow> free_effect i rd rd' j'"
| requests: "status_of i rd = Some Completed \<Longrightarrow> status_of i rd' = Some Refund_requested \<Longrightarrow>
     answers_of i rd' = answers_of i rd \<Longrightarrow> \<not> holder j' \<Longrightarrow> free_effect i rd rd' j'"
| succeeds: "status_of i rd = Some Refund_pending \<Longrightarrow> gone_through (status_of i rd') \<Longrightarrow>
     answers_of i rd' = answers_of i rd \<Longrightarrow> \<not> holder j' \<Longrightarrow> free_effect i rd rd' j'"
| fails: "status_of i rd = Some Refund_pending \<Longrightarrow> status_of i rd' = Some Refund_failed \<Longrightarrow>
     answers_of i rd' = answers_of i rd @ [Gateway_failed] \<Longrightarrow> \<not> holder j' \<Longrightarrow> free_effect i rd rd' j'"

lemma request_free: "\<not> holder (request_step env oid uid rd)"
  by (auto simp: request_step_def split: option.split sum.split)

lemma stays_same: "\<not> holder j' \<Longrightarrow> free_effect i rd rd j'"
  by (rule stays) simp_all

lemma own_free:
  assumes st: "refund_job_step env now reply j rd = (j', rd')" and h: "\<not> holder j"
  shows "free_effect (about j) rd rd' j'"
proof (cases j)
  case (R_mark_requested row)
  let ?g = "\<lambda>r. po_user r = po_user row \<and> po_status r = Completed \<and> po_type r = ''balance''"
    and ?f = "\<lambda>r. r\<lparr>po_status := Refund_requested, po_refund_amount := po_amount row\<rparr>"
  obtain hit r1 where s: "set_order (po_id row) now ?g ?f rd = (hit, r1)" by fastforce
  show ?thesis
  proof (cases hit)
    case True
    with s st R_mark_requested have "j' = R_done None" "rd' = with_db (audit (po_id row) ''REFUND_REQUESTED'') r1"
      by (auto simp: mark_requested_step_def)
    with set_order_hit [OF s] True R_mark_requested show ?thesis by (auto intro!: requests)
  next
    case False
    with s st R_mark_requested set_order_hit [OF s] have "rd' = rd" "\<not> holder j'" by (auto simp: mark_requested_step_def)
    then show ?thesis by (simp add: stays_same)
  qed
next
  case (R_lock p)
  obtain hit r1 where s: "set_order (po_id (rp_row p)) now (\<lambda>r. refundable (po_status r)) (\<lambda>r. r\<lparr>po_status := Refunding\<rparr>) rd
      = (hit, r1)" by fastforce
  show ?thesis
  proof (cases hit)
    case True
    with s st R_lock have "j' = R_deduct p" "rd' = r1" by (auto simp: lock_step_def)
    with set_order_hit [OF s] True R_lock show ?thesis by (auto intro!: locks)
  next
    case False
    with s st R_lock set_order_hit [OF s] have "rd' = rd" "\<not> holder j'" by (auto simp: lock_step_def)
    then show ?thesis by (simp add: stays_same)
  qed
next
  case (R_request oid uid)
  with st have "rd' = rd" "\<not> holder j'" by (auto simp: request_free)
  then show ?thesis by (simp add: stays_same)
next
  case (R_prepare oid amt force deduct sub)
  with st have "rd' = rd" "\<not> holder j'" by (auto split: sum.splits)
  then show ?thesis by (simp add: stays_same)
next
  case (F_query oid sub)
  with st have "\<not> holder j'" "rd' = rd \<or> rd' = with_db (audit oid ''REFUND_QUERY_PENDING'') rd"
    by (auto simp: query_step_def split: if_splits option.splits sum.splits gateway_answer.splits)
  then show ?thesis by (auto intro!: stays)
next
  case (F_success p)
  let ?i = "po_id (rp_row p)"
  show ?thesis
  proof (cases "rd' = rd \<and> \<not> holder j'")
    case False
    with st F_success obtain r1 r2 where s: "set_order ?i now (\<lambda>r. po_status r = Refund_pending)
            (\<lambda>r. r\<lparr>po_status := refunded_status p, po_refund_amount := rp_amount p\<rparr>) rd = (True, r1)"
      and d: "final_deduction env now p r1 = Some r2" and a: "audit_tx ?i ''REFUND_SUCCESS'' r2 = Some rd'" and j': "\<not> holder j'"
      by (auto simp: final_success_step_def Let_def split: if_splits option.splits prod.splits)
    have "status_of ?i rd' = status_of ?i r1" "answers_of ?i rd' = answers_of ?i r1"
      using final_deduction_own [OF d, of ?i] a by (auto simp: audit_tx_def split: if_splits)
    with set_order_hit [OF s] j' have "free_effect ?i rd rd' j'"
      by (intro succeeds) (cases "rp_amount p < po_amount (rp_row p)"; auto simp: gone_through_def refunded_status_def)+
    with F_success show ?thesis by simp
  qed (simp add: stays_same)
next
  case (F_failed p)
  let ?i = "po_id (rp_row p)"
  show ?thesis
  proof (cases "rd' = rd \<and> \<not> holder j'")
    case False
    with st F_failed obtain r1 r2 where c: "claim_failed now p rd = (True, r1)"
      and r: "(if rp_held p then return_deduction env now p r1 else Some r1) = Some r2"
      and a: "audit_tx ?i ''REFUND_FAILED'' r2 = Some rd'" and j': "\<not> holder j'"
      by (auto simp: final_failed_step_def Let_def split: if_splits option.splits prod.splits)
    have "status_of ?i r2 = status_of ?i r1" "answers_of ?i r2 = answers_of ?i r1"
      using r by (auto split: if_splits dest!: return_deduction_view [where oid = ?i])
    with claim_failed_own [OF c] a j' have "free_effect ?i rd rd' j'"
      by (intro fails) (auto simp: audit_tx_def split: if_splits)
    with F_failed show ?thesis by simp
  qed (simp add: stays_same)
next
  case (F_kept p)
  let ?i = "po_id (rp_row p)"
  show ?thesis
  proof (cases "rd' = rd \<and> \<not> holder j'")
    case False
    with st F_kept obtain r1 r2 where c: "claim_failed now p rd = (True, r1)"
      and a: "audit_tx ?i ''REFUND_ROLLBACK_FAILED'' r1 = Some r2" "audit_tx ?i ''REFUND_FAILED'' r2 = Some rd'" and j': "\<not> holder j'"
      by (auto simp: final_kept_step_def Let_def split: if_splits option.splits prod.splits)
    with claim_failed_own [OF c] have "free_effect ?i rd rd' j'"
      by (intro fails) (auto simp: audit_tx_def split: if_splits)
    with F_kept show ?thesis by simp
  qed (simp add: stays_same)
next
  case (R_done r)
  with st have "rd' = rd" "\<not> holder j'" by auto
  then show ?thesis by (simp add: stays_same)
qed (use h in auto)

lemma own_free_about: "refund_job_step env now reply j rd = (j', rd') \<Longrightarrow> \<not> holder j \<Longrightarrow> holder j' \<Longrightarrow> about j' = about j"
  using own_free [of env now reply j rd j' rd'] by (auto elim: free_effect.cases)

section \<open>One call holds an order, and the gateway accepts once\<close>

definition order_kept :: "int \<Rightarrow> 'm refund_db \<Rightarrow> bool" where
  "order_kept oid rd \<longleftrightarrow> accepted_once False (answers_of oid rd) \<and>
     (accepted (answers_of oid rd) \<longrightarrow> gone_through (status_of oid rd))"

definition job_kept :: "'m refund_job \<Rightarrow> 'm refund_db \<Rightarrow> bool" where
  "job_kept j rd \<longleftrightarrow> (holder j \<longrightarrow> status_of (about j) rd = Some Refunding) \<and>
     (early j \<longrightarrow> \<not> accepted (answers_of (about j) rd))"

definition refund_ok :: "'m refund_state \<Rightarrow> bool" where
  "refund_ok s \<longleftrightarrow> (\<forall>oid. order_kept oid (rs_db s)) \<and>
     (\<forall>i j. rs_jobs s i = Some j \<longrightarrow> job_kept j (rs_db s)) \<and>
     (\<forall>i i2 j j2. rs_jobs s i = Some j \<and> rs_jobs s i2 = Some j2 \<and> holder j \<and> holder j2 \<and> about j = about j2 \<longrightarrow> i = i2)"

lemma early_holder: "early j \<Longrightarrow> holder j"
  by (cases j) auto

lemma fault_roles:
  "(holder (refund_fault j) \<longrightarrow> holder j \<and> about (refund_fault j) = about j) \<and> (early (refund_fault j) \<longrightarrow> early j)"
  by (cases j) auto

lemma same_view_kept: "same_view oid rd rd' \<Longrightarrow> order_kept oid rd' = order_kept oid rd"
  by (simp add: same_view_def order_kept_def)

lemma job_kept_view: "same_view (about j) rd rd' \<Longrightarrow> job_kept j rd' = job_kept j rd"
  by (simp add: same_view_def job_kept_def)

lemma accepted_once_grow: "accepted_once False as \<Longrightarrow> \<not> accepted as \<or> a = Gateway_failed \<Longrightarrow> accepted_once False (as @ [a])"
  by (auto simp: accepted_once_snoc)

text \<open>What a step does to its own order.\<close>

lemma own_kept:
  assumes st: "refund_job_step env now reply j rd = (j', rd')" and o: "order_kept (about j) rd" and k: "job_kept j rd"
  shows "order_kept (about j) rd' \<and> job_kept j' rd'"
proof (cases "holder j")
  case True
  with k have run: "status_of (about j) rd = Some Refunding" by (simp add: job_kept_def)
  note H = own_held [OF st True run]
  have e: "\<not> accepted (answers_of (about j) rd)" if "early j" using k that by (simp add: job_kept_def)
  have "order_kept (about j) rd'"
    using H e o by (auto simp: order_kept_def gone_through_def intro!: accepted_once_grow)
  moreover have "job_kept j' rd'"
    using H e early_holder [of j'] by (auto simp: job_kept_def)
  ultimately show ?thesis ..
next
  case False
  from own_free [OF st False] have "order_kept (about j) rd'"
    by cases (use o in \<open>auto simp: order_kept_def gone_through_def refundable_def intro!: accepted_once_grow\<close>)
  moreover from own_free [OF st False] have "job_kept j' rd'"
    by cases (use o early_holder [of j'] in \<open>auto simp: job_kept_def order_kept_def gone_through_def refundable_def\<close>)
  ultimately show ?thesis ..
qed

lemma refund_ok_run:
  assumes ok: "refund_ok s" and j: "rs_jobs s i = Some j" and st: "refund_job_step env now reply j (rs_db s) = (j', rd')"
    and new: "holder j2 \<longrightarrow> holder j' \<and> about j2 = about j'" "early j2 \<longrightarrow> early j'"
  shows "refund_ok (s\<lparr>rs_db := rd', rs_jobs := (rs_jobs s)(i \<mapsto> j2)\<rparr>)"
proof -
  let ?o = "about j" and ?rd = "rs_db s"
  have kept: "order_kept oid ?rd" and jk: "rs_jobs s n = Some x \<Longrightarrow> job_kept x ?rd"
    and one: "rs_jobs s n = Some x \<Longrightarrow> rs_jobs s m = Some y \<Longrightarrow> holder x \<Longrightarrow> holder y \<Longrightarrow> about x = about y \<Longrightarrow> n = m" for oid n m x y
    using ok unfolding refund_ok_def by blast+
  note own = own_kept [OF st kept jk [OF j]]
  have orders: "order_kept oid rd'" for oid
    using own kept [of oid] same_view_kept [OF step_other [OF st]] by (cases "oid = ?o") auto
  have mine: "job_kept j2 rd'"
    using own new early_holder [of j2] by (auto simp: job_kept_def)
  have still: "status_of ?o rd' = Some Refunding \<and> answers_of ?o rd' = answers_of ?o ?rd \<and> \<not> holder j'"
    if "\<not> holder j" "status_of ?o ?rd = Some Refunding"
    using own_free [OF st that(1)] by cases (use that(2) in \<open>auto simp: refundable_def\<close>)
  have run: "status_of (about x) ?rd = Some Refunding" if "rs_jobs s n = Some x" "holder x" for n x
    using jk [OF that(1)] that(2) by (simp add: job_kept_def)
  have theirs: "job_kept x rd'" if x: "rs_jobs s n = Some x" "n \<noteq> i" for n x
  proof (cases "holder x \<and> about x = ?o")
    case True
    then have "\<not> holder j" using one [OF x(1) j] x(2) by blast
    with still run [OF x(1)] True jk [OF x(1)] show ?thesis by (auto simp: job_kept_def)
  next
    case False
    then show ?thesis
    proof (cases "holder x")
      case True
      with False have "about x \<noteq> ?o" by blast
      from job_kept_view [OF step_other [OF st this]] jk [OF x(1)] show ?thesis by simp
    next
      case False
      then show ?thesis using early_holder [of x] by (auto simp: job_kept_def)
    qed
  qed
  have alone: "n = i" if x: "rs_jobs s n = Some x" "holder x" "holder j2" "about x = about j2" for n x
  proof (cases "holder j")
    case True
    with own_held [OF st True run [OF j True]] new(1) x have "about x = ?o" by auto
    with one [OF x(1) j x(2) True] show ?thesis .
  next
    case False
    with new(1) x(3) have h: "holder j'" "about j2 = ?o" using own_free_about [OF st False] by auto
    with run [OF x(1,2)] x(4) still [OF False] show ?thesis by auto
  qed
  have pair: "n = m" if "((rs_jobs s)(i \<mapsto> j2)) n = Some x" "((rs_jobs s)(i \<mapsto> j2)) m = Some y" "holder x" "holder y" "about x = about y" for n m x y
  proof (cases "n = i")
    case True
    then have x: "x = j2" using that(1) by simp
    show ?thesis
    proof (rule ccontr)
      assume "n \<noteq> m"
      with True that(2) have "rs_jobs s m = Some y" by simp
      from alone [OF this that(4)] that(3,5) x True \<open>n \<noteq> m\<close> show False by simp
    qed
  next
    case False
    then have x: "rs_jobs s n = Some x" using that(1) by simp
    show ?thesis
    proof (cases "m = i")
      case True
      then have "y = j2" using that(2) by simp
      with alone [OF x that(3)] that(4,5) False show ?thesis by simp
    next
      case False
      then have "rs_jobs s m = Some y" using that(2) by simp
      from one [OF x this that(3-5)] show ?thesis .
    qed
  qed
  show ?thesis unfolding refund_ok_def
  proof (intro conjI allI impI)
    fix n x
    assume "rs_jobs (s\<lparr>rs_db := rd', rs_jobs := (rs_jobs s)(i \<mapsto> j2)\<rparr>) n = Some x"
    then show "job_kept x (rs_db (s\<lparr>rs_db := rd', rs_jobs := (rs_jobs s)(i \<mapsto> j2)\<rparr>))"
      using mine theirs by (cases "n = i") auto
  next
    fix n m x y
    assume "rs_jobs (s\<lparr>rs_db := rd', rs_jobs := (rs_jobs s)(i \<mapsto> j2)\<rparr>) n = Some x \<and>
      rs_jobs (s\<lparr>rs_db := rd', rs_jobs := (rs_jobs s)(i \<mapsto> j2)\<rparr>) m = Some y \<and> holder x \<and> holder y \<and> about x = about y"
    then show "n = m" using pair [of n x m y] by (simp del: fun_upd_apply)
  next
    fix oid
    show "order_kept oid (rs_db (s\<lparr>rs_db := rd', rs_jobs := (rs_jobs s)(i \<mapsto> j2)\<rparr>))" using orders by simp
  qed
qed

lemma fault_after_roles:
  assumes "refund_job_step env now reply j rd = (j', rd')" "\<forall>p. j \<noteq> R_gateway p"
  shows "(holder (refund_fault j) \<longrightarrow> holder j' \<and> about (refund_fault j) = about j') \<and> (early (refund_fault j) \<longrightarrow> early j')"
  using assms by (cases j)
    (auto simp: deduct_step_def days_step_def rollback_step_def rollback_failed_step_def Let_def split: if_splits option.splits prod.splits)

lemma refund_ok_jobs:
  assumes "refund_ok s" "\<And>n x. js n = Some x \<Longrightarrow> holder x \<Longrightarrow> \<exists>y. rs_jobs s n = Some y \<and> holder y \<and> about y = about x \<and> (early x \<longrightarrow> early y)"
  shows "refund_ok (s\<lparr>rs_jobs := js\<rparr>)"
  unfolding refund_ok_def
proof (intro conjI allI impI)
  fix n x
  assume x: "rs_jobs (s\<lparr>rs_jobs := js\<rparr>) n = Some x"
  show "job_kept x (rs_db (s\<lparr>rs_jobs := js\<rparr>))"
  proof (cases "holder x")
    case True
    with assms(2) x obtain y where "rs_jobs s n = Some y" "holder y" "about y = about x" "early x \<longrightarrow> early y" by fastforce
    moreover from this assms(1) have "job_kept y (rs_db s)" unfolding refund_ok_def by blast
    ultimately show ?thesis by (auto simp: job_kept_def)
  next
    case False
    then show ?thesis using early_holder [of x] by (auto simp: job_kept_def)
  qed
next
  fix n m x y
  assume h: "rs_jobs (s\<lparr>rs_jobs := js\<rparr>) n = Some x \<and> rs_jobs (s\<lparr>rs_jobs := js\<rparr>) m = Some y \<and> holder x \<and> holder y \<and> about x = about y"
  then obtain x' y' where "rs_jobs s n = Some x'" "holder x'" "about x' = about x" "rs_jobs s m = Some y'" "holder y'" "about y' = about y"
    using assms(2) [of n x] assms(2) [of m y] by auto
  with h assms(1) show "n = m" unfolding refund_ok_def by metis
qed (use assms(1) in \<open>auto simp: refund_ok_def\<close>)

lemma refund_ok_step: "refund_step env strict s s' \<Longrightarrow> refund_ok s \<Longrightarrow> refund_ok s'"
proof (induction rule: refund_step.induct)
  case (refund_start_job s i j)
  have "\<not> holder j" using refund_start_job(2) by (cases j) auto
  with refund_start_job show ?case by (intro refund_ok_jobs) (auto split: if_splits)
next
  case (refund_run s i j now reply j' rd')
  then show ?case by (intro refund_ok_run) auto
next
  case (refund_fault_before s i j)
  then show ?case using fault_roles [of j] by (intro refund_ok_jobs) (auto split: if_splits)
next
  case (refund_fault_after s i j now reply j' rd')
  then show ?case using fault_after_roles by (intro refund_ok_run) blast+
next
  case (refund_crash s i j)
  then show ?case by (intro refund_ok_jobs) (auto split: if_splits)
qed

lemma refund_start_ok: "refund_start s \<Longrightarrow> refund_ok s"
  by (auto simp: refund_start_def refund_ok_def order_kept_def answers_of_def)

lemma refund_reachable_ok: "refund_reachable env strict s \<Longrightarrow> refund_ok s"
  by (induction rule: refund_reachable_induct) (auto intro: refund_start_ok refund_ok_step)


section \<open>Orders that stay in REFUNDING\<close>

lemma free_frozen:
  assumes st: "refund_job_step env now reply j rd = (j', rd')" and h: "\<not> holder j"
    and run: "status_of (about j) rd = Some Refunding"
  shows "status_of (about j) rd' = Some Refunding \<and> answers_of (about j) rd' = answers_of (about j) rd \<and> \<not> holder j'"
  using own_free [OF st h] by cases (use run in \<open>auto simp: refundable_def\<close>)

text \<open>An order in REFUNDING that no call holds.\<close>

definition abandoned :: "int \<Rightarrow> 'm refund_state \<Rightarrow> bool" where
  "abandoned oid s \<longleftrightarrow> status_of oid (rs_db s) = Some Refunding \<and>
     (\<forall>i j. rs_jobs s i = Some j \<and> about j = oid \<longrightarrow> \<not> holder j)"

lemma held_about:
  assumes "refund_job_step env now reply j rd = (j', rd')" "holder j" "holder j'"
  shows "about j' = about j"
  using assms by (cases j)
    (auto simp: deduct_step_def days_step_def gateway_step_def ok_step_def pending_step_def rollback_step_def
      rollback_failed_step_def failed_step_def restore_step_def Let_def
      split: if_splits option.splits prod.splits gateway_answer.splits)

lemma job_abandoned:
  assumes ab: "abandoned oid s" and j: "rs_jobs s i = Some j" and st: "refund_job_step env now reply j (rs_db s) = (j', rd')"
  shows "status_of oid rd' = Some Refunding \<and> answers_of oid rd' = answers_of oid (rs_db s) \<and> (holder j' \<longrightarrow> about j' \<noteq> oid)"
proof (cases "about j = oid")
  case True
  with ab j have "\<not> holder j" "status_of (about j) (rs_db s) = Some Refunding" by (auto simp: abandoned_def)
  from free_frozen [OF st this] True show ?thesis by simp
next
  case False
  with step_other [OF st, of oid] ab have same: "status_of oid rd' = Some Refunding" "answers_of oid rd' = answers_of oid (rs_db s)"
    by (auto simp: same_view_def abandoned_def)
  have "about j' \<noteq> oid" if "holder j'"
  proof (cases "holder j")
    case True
    with held_about [OF st] that have "about j' = about j" by blast
    with False show ?thesis by simp
  next
    case no: False
    with own_free_about [OF st no that] False show ?thesis by simp
  qed
  with same show ?thesis by blast
qed

lemma abandoned_step: "refund_step env strict s s' \<Longrightarrow> abandoned oid s \<Longrightarrow> abandoned oid s'"
proof (induction rule: refund_step.induct)
  case (refund_start_job s i j)
  have "\<not> holder j" using refund_start_job(2) by (cases j) auto
  with refund_start_job show ?case by (auto simp: abandoned_def)
next
  case (refund_run s i j now reply j' rd')
  from job_abandoned [OF refund_run(3,1,2)] refund_run(3) show ?case by (auto simp: abandoned_def)
next
  case (refund_fault_before s i j)
  then show ?case using fault_roles [of j] by (auto simp: abandoned_def)
next
  case (refund_fault_after s i j now reply j' rd')
  from job_abandoned [OF refund_fault_after(5,2,4)] fault_after_roles [OF refund_fault_after(4,3)] refund_fault_after(5)
  show ?case by (auto simp: abandoned_def)
next
  case (refund_crash s i j)
  then show ?case by (auto simp: abandoned_def split: if_splits)
qed

lemma abandoned_for_ever: "(refund_step env strict)\<^sup>*\<^sup>* s s' \<Longrightarrow> abandoned oid s \<Longrightarrow> abandoned oid s'"
  by (induction rule: rtranclp_induct) (auto intro: abandoned_step)

text \<open>
  C24: A second refund of an order that the gateway leaves pending is lost: its entry REFUND_PENDING runs into the
  index that allows one per order, the transaction is rolled back, and from then on the order stays in
  REFUNDING for ever, whatever calls are made, although the gateway has accepted the refund.
\<close>

theorem second_pending_refund_stuck:
  assumes reach: "refund_reachable env strict s" and j: "rs_jobs s i = Some (R_pending p)"
    and before: "has_audit (po_id (rp_row p)) ''REFUND_PENDING'' (rd_db (rs_db s))"
    and later: "(refund_step env strict)\<^sup>*\<^sup>* (s\<lparr>rs_db := snd (pending_step now p (rs_db s)),
        rs_jobs := (rs_jobs s)(i \<mapsto> fst (pending_step now p (rs_db s)))\<rparr>) s'"
  shows "pending_step now p (rs_db s) = (R_done (Some Refund_store), rs_db s) \<and>
    status_of (po_id (rp_row p)) (rs_db s') = Some Refunding"
proof -
  have same: "pending_step now p (rs_db s) = (R_done (Some Refund_store), rs_db s)"
    using before by (auto simp: pending_step_def Let_def audit_tx_def dest: set_order_view split: prod.splits)
  have ok: "refund_ok s" by (rule refund_reachable_ok [OF reach])
  then have run: "status_of (po_id (rp_row p)) (rs_db s) = Some Refunding"
    using j unfolding refund_ok_def job_kept_def by fastforce
  have "\<not> holder x" if "rs_jobs s n = Some x" "about x = po_id (rp_row p)" "n \<noteq> i" for n x
  proof
    assume "holder x"
    with ok j that have "n = i" unfolding refund_ok_def by (metis about.simps(8) holder.simps(2))
    with that(3) show False by simp
  qed
  with run have "abandoned (po_id (rp_row p)) (s\<lparr>rs_db := rs_db s, rs_jobs := (rs_jobs s)(i \<mapsto> R_done (Some Refund_store))\<rparr>)"
    by (auto simp: abandoned_def)
  with abandoned_for_ever [OF later] same have "abandoned (po_id (rp_row p)) s'" by simp
  with same show ?thesis by (simp add: abandoned_def)
qed

end
