(* ===== verification/RefundMoney.thy ===== *)
theory RefundMoney
  imports RefundSafety
begin

text \<open>
  Where the money of a refund is: as long as statements that fail have no effect and a rollback that failed
  is recorded, a refund that has not gone through has returned what it deducted. Two runs show the
  assumptions of the properties of refunds met.
\<close>

section \<open>What a plan holds\<close>

definition held_of :: "'m::zero refund_plan \<Rightarrow> 'm" where
  "held_of p = (if rp_deduction p = Balance_deduction then rp_balance p else 0)"

definition plan_wf :: "'m::{zero,ord} refund_plan \<Rightarrow> bool" where
  "plan_wf p \<longleftrightarrow> (rp_deduction p = Balance_deduction \<longrightarrow> 0 \<le> rp_balance p)"

definition recorded :: "'m refund_plan \<Rightarrow> 'm refund_db \<Rightarrow> bool" where
  "recorded p rd \<longleftrightarrow> rp_held p \<and> (\<exists>d. rd_pending rd (po_id (rp_row p)) = Some d \<and>
     rp_deduction d = rp_deduction p \<and> rp_balance d = rp_balance p)"

definition same_ids :: "'m refund_db \<Rightarrow> 'm refund_db \<Rightarrow> bool" where
  "same_ids rd rd' \<longleftrightarrow> (\<forall>oid. map_option po_id (refund_order oid rd') = map_option po_id (refund_order oid rd))"

lemma held_not_taken: "plan_wf p \<Longrightarrow> \<not> takes_balance p \<Longrightarrow> held_of p = (0::'m::linordered_idom)"
  by (auto simp: held_of_def plan_wf_def takes_balance_def)



lemma same_ids_refl [simp]: "same_ids rd rd"
  by (simp add: same_ids_def)

lemma same_ids_trans: "same_ids a b \<Longrightarrow> same_ids b c \<Longrightarrow> same_ids a c"
  by (simp add: same_ids_def)

lemma set_order_ids: "set_order i now g f rd = (hit, rd') \<Longrightarrow> (\<And>r. po_id (f r) = po_id r) \<Longrightarrow> same_ids rd rd'"
  by (auto simp: same_ids_def set_order_def update_order_def refund_order_def split: option.splits if_splits prod.splits)

lemma set_order_ids_snd: "(\<And>r. po_id (f r) = po_id r) \<Longrightarrow> same_ids rd (snd (set_order i now g f rd))"
  by (cases "set_order i now g f rd") (auto dest: set_order_ids)

lemma ids_simple [simp]:
  "same_ids rd (with_db (audit i a) rd')= same_ids rd rd'" "same_ids rd (rd'\<lparr>rd_answers := x\<rparr>) = same_ids rd rd'"
  "same_ids rd (rd'\<lparr>rd_pending := y\<rparr>) = same_ids rd rd'" "same_ids rd (rd'\<lparr>rd_subs := z\<rparr>) = same_ids rd rd'"
  by (auto simp: same_ids_def refund_order_def with_db_def audit_def)

lemma take_balance_ids: "take_balance i u a rd = (r, rd') \<Longrightarrow> same_ids rd rd'"
  by (auto simp: take_balance_def same_ids_def refund_order_def with_db_def Let_def split: option.splits if_splits)

lemma take_days_ids: "take_days env now i d rd = Some rd' \<Longrightarrow> same_ids rd rd'"
  by (auto dest!: take_days_only_subs)

lemma return_ids: "return_deduction env now p rd = Some rd' \<Longrightarrow> same_ids rd rd'"
  by (auto simp: return_deduction_def return_balance_def same_ids_def refund_order_def with_db_def
      split: option.splits if_splits sum.splits dest!: extend_only_subs)

lemma audit_tx_ids: "audit_tx i a rd = Some rd' \<Longrightarrow> same_ids rd rd'"
  by (auto simp: audit_tx_def split: if_splits)

lemma claim_failed_ids: "claim_failed now p rd = (hit, rd') \<Longrightarrow> same_ids rd rd'"
  by (auto simp: claim_failed_def split: prod.splits dest!: set_order_ids)

lemma final_deduction_ids: "final_deduction env now p rd = Some rd' \<Longrightarrow> same_ids rd rd'"
  by (auto simp: final_deduction_def split: if_splits option.splits prod.splits
      dest!: take_balance_ids take_days_ids intro: same_ids_trans)

lemma step_ids:
  assumes st: "refund_job_step env now reply j rd = (j', rd')"
  shows "same_ids rd rd'"
proof (cases j)
  case (F_success p)
  show ?thesis
  proof (cases "rd' = rd")
    case False
    with st F_success obtain r1 r2 where s: "set_order (po_id (rp_row p)) now (\<lambda>r. po_status r = Refund_pending)
            (\<lambda>r. r\<lparr>po_status := refunded_status p, po_refund_amount := rp_amount p\<rparr>) rd = (True, r1)"
      and d: "final_deduction env now p r1 = Some r2" and a: "audit_tx (po_id (rp_row p)) ''REFUND_SUCCESS'' r2 = Some rd'"
      by (auto simp: final_success_step_def Let_def split: if_splits option.splits prod.splits)
    have "same_ids rd r1" by (rule set_order_ids [OF s]) simp
    with final_deduction_ids [OF d] audit_tx_ids [OF a] show ?thesis using same_ids_trans by blast
  qed simp
next
  case (F_failed p)
  with st show ?thesis
    by (auto simp: final_failed_step_def Let_def split: if_splits option.splits prod.splits
        dest!: claim_failed_ids return_ids audit_tx_ids intro: same_ids_trans)
next
  case (F_kept p)
  with st show ?thesis
    by (auto simp: final_kept_step_def Let_def split: if_splits option.splits prod.splits
        dest!: claim_failed_ids audit_tx_ids intro: same_ids_trans)
next
  case (R_pending p)
  with st show ?thesis
    by (auto simp: pending_step_def Let_def split: if_splits option.splits prod.splits
        dest!: set_order_ids audit_tx_ids intro: same_ids_trans)
next
  case (R_failed p)
  with st show ?thesis by (auto simp: failed_step_def intro!: set_order_ids_snd)
next
  case (R_restore p e)
  with st show ?thesis by (auto simp: restore_step_def Let_def intro!: set_order_ids_snd)
next
  case (R_days p)
  with st show ?thesis by (auto simp: days_step_def split: if_splits option.splits dest: take_days_ids)
next
  case (R_rollback p)
  with st show ?thesis by (auto simp: rollback_step_def split: option.splits dest: return_ids)
qed (use st in \<open>auto simp: mark_requested_step_def lock_step_def deduct_step_def gateway_step_def ok_step_def
     rollback_failed_step_def query_step_def Let_def
     split: if_splits option.splits prod.splits sum.splits gateway_answer.splits
     dest!: set_order_ids take_balance_ids\<close>)

section \<open>The invariant\<close>

definition money_order :: "int \<Rightarrow> 'm::linordered_idom refund_db \<Rightarrow> bool" where
  "money_order oid rd \<longleftrightarrow>
     (has_audit oid ''REFUND_PENDING'' (rd_db rd) \<longleftrightarrow> rd_pending rd oid \<noteq> None) \<and>
     (status_of oid rd = Some Refund_pending \<longrightarrow> rd_pending rd oid \<noteq> None) \<and>
     (\<not> rollback_open oid rd \<longrightarrow>
        (\<forall>st. status_of oid rd = Some st \<and> refundable st \<longrightarrow> rd_taken rd oid = 0) \<and>
        (status_of oid rd = Some Refund_pending \<longrightarrow>
           (\<exists>d. rd_pending rd oid = Some d \<and> plan_wf d \<and> rd_taken rd oid = held_of d)))"

fun money_plan :: "'m::linordered_idom refund_job \<Rightarrow> 'm refund_db \<Rightarrow> bool" where
  "money_plan (R_lock p) rd = plan_wf p"
| "money_plan (R_deduct p) rd = (plan_wf p \<and> (\<not> rollback_open (po_id (rp_row p)) rd \<longrightarrow> rd_taken rd (po_id (rp_row p)) = 0))"
| "money_plan (R_days p) rd = (plan_wf p \<and> (\<not> rollback_open (po_id (rp_row p)) rd \<longrightarrow> rd_taken rd (po_id (rp_row p)) = held_of p))"
| "money_plan (R_gateway p) rd = (plan_wf p \<and> (\<not> rollback_open (po_id (rp_row p)) rd \<longrightarrow> rd_taken rd (po_id (rp_row p)) = held_of p))"
| "money_plan (R_pending p) rd = (plan_wf p \<and> (\<not> rollback_open (po_id (rp_row p)) rd \<longrightarrow> rd_taken rd (po_id (rp_row p)) = held_of p))"
| "money_plan (R_rollback p) rd = (plan_wf p \<and> (\<not> rollback_open (po_id (rp_row p)) rd \<longrightarrow> rd_taken rd (po_id (rp_row p)) = held_of p))"
| "money_plan (R_failed p) rd = rollback_open (po_id (rp_row p)) rd"
| "money_plan (R_restore p e) rd = (\<not> rollback_open (po_id (rp_row p)) rd \<longrightarrow> rd_taken rd (po_id (rp_row p)) = 0)"
| "money_plan (F_success p) rd = recorded p rd"
| "money_plan (F_failed p) rd = recorded p rd"
| "money_plan (F_kept p) rd = recorded p rd"
| "money_plan j rd = True"


lemma money_order_view: "same_view oid rd rd' \<Longrightarrow> money_order oid rd' = money_order oid rd"
  by (simp add: same_view_def money_order_def)

lemma money_plan_view: "same_view (about j) rd rd' \<Longrightarrow> money_plan j rd' = money_plan j rd"
  by (cases j) (simp_all add: same_view_def recorded_def)

text \<open>The own order of a step. A set of an order changes only the status here.\<close>

lemma set_order_money:
  assumes "set_order i now g f rd = (hit, rd')"
  shows "rd_pending rd' = rd_pending rd \<and> rd_taken rd' = rd_taken rd \<and> rollback_open i rd' = rollback_open i rd \<and>
    has_audit i a (rd_db rd') = has_audit i a (rd_db rd)"
  using set_order_view [OF assms] by (simp add: rollback_open_def)

lemma set_order_snd_money [simp]:
  "rd_pending (snd (set_order i now g f rd)) = rd_pending rd" "rd_taken (snd (set_order i now g f rd)) = rd_taken rd"
  "has_audit k a (rd_db (snd (set_order i now g f rd))) = has_audit k a (rd_db rd)"
  using set_order_view [of i now g f rd "fst (set_order i now g f rd)" "snd (set_order i now g f rd)"] by auto

lemma rollback_audit [simp]: "rollback_open i (with_db (audit k a) rd) = (i = k \<and> a = ''REFUND_ROLLBACK_FAILED'' \<or> rollback_open i rd)"
  by (auto simp: rollback_open_def)

lemma rollback_set_order [simp]: "rollback_open i (snd (set_order k now g f rd)) = rollback_open i rd"
  by (simp add: rollback_open_def)

lemma money_plain_audit: "a \<noteq> ''REFUND_ROLLBACK_FAILED'' \<Longrightarrow> a \<noteq> ''REFUND_PENDING'' \<Longrightarrow>
    money_order oid (with_db (audit i a) rd) = money_order oid rd"
  by (rule money_order_view) (rule audit_plain)

lemma rollback_answers [simp]: "rollback_open i (rd\<lparr>rd_answers := x\<rparr>) = rollback_open i rd"
  by (simp add: rollback_open_def)

lemma money_answers [simp]: "money_order oid (rd\<lparr>rd_answers := x\<rparr>) = money_order oid rd"
  by (simp add: money_order_def)

lemma money_held:
  assumes st: "refund_job_step env now reply j rd = (j', rd')" and h: "holder j"
    and run: "status_of (about j) rd = Some Refunding" and o: "money_order (about j) rd" and m: "money_plan j rd"
  shows "money_order (about j) rd' \<and> money_plan j' rd'"
proof (cases j)
  case (R_deduct p)
  let ?i = "po_id (rp_row p)"
  show ?thesis
  proof (cases "takes_balance p \<and> \<not> rollback_open ?i rd")
    case False
    with st R_deduct have "rd' = rd" "j' = R_days (if takes_balance p then p\<lparr>rp_balance := 0\<rparr> else p)"
      by (auto simp: deduct_step_def Let_def split: if_splits)
    with o m R_deduct False held_not_taken [of p] show ?thesis by (auto simp: plan_wf_def held_of_def)
  next
    case True
    obtain r r1 where t: "take_balance ?i (po_user (rp_row p)) (rp_balance p) rd = (r, r1)" by fastforce
    note v = take_balance_view [OF t, of ?i]
    show ?thesis
    proof (cases r)
      case None
      with t v st R_deduct True have "rd' = rd" "j' = R_restore p Deduction_failed" by (auto simp: deduct_step_def Let_def)
      with o m R_deduct show ?thesis by auto
    next
      case (Some taken)
      with t st R_deduct True have "rd' = r1" "j' = R_days (p\<lparr>rp_balance := taken\<rparr>)" by (auto simp: deduct_step_def Let_def)
      moreover have "0 \<le> taken" using t Some
        by (auto simp: take_balance_def Let_def split: option.splits if_splits)
      moreover have "rp_deduction p = Balance_deduction" using True by (simp add: takes_balance_def)
      ultimately show ?thesis using v o m R_deduct Some run True
        by (auto simp: money_order_def rollback_open_def plan_wf_def held_of_def refundable_def)
    qed
  qed
next
  case (R_days p)
  let ?i = "po_id (rp_row p)"
  consider (none) "rd' = rd" "j' = R_gateway p" | (skipped) "rd' = rd" "j' = R_gateway (p\<lparr>rp_days := 0\<rparr>)"
    | (err) "rd' = rd" "takes_days p" "j' = R_restore p Deduction_failed"
    | (taken) z where "rd' = rd\<lparr>rd_subs := z\<rparr>" "j' = R_gateway p"
    using st R_days by (auto simp: days_step_def split: if_splits option.splits dest!: take_days_only_subs)
  then show ?thesis
  proof cases
    case none
    with o m R_days show ?thesis by simp
  next
    case skipped
    with o m R_days show ?thesis by (simp add: plan_wf_def held_of_def)
  next
    case err
    then have "held_of p = 0" by (simp add: held_of_def takes_days_def)
    with err o m R_days show ?thesis by simp
  next
    case (taken z)
    have "money_order ?i rd'" using o R_days taken by (simp add: money_order_view [OF subs_view])
    with taken m R_days show ?thesis by (simp add: rollback_open_def)
  qed
next
  case (R_gateway p)
  with st o m show ?thesis
    by (auto simp: gateway_step_def Let_def money_plain_audit rollback_answers split: if_splits gateway_answer.splits)
next
  case (R_ok p)
  let ?i = "po_id (rp_row p)" and ?f = "\<lambda>r. r\<lparr>po_status := refunded_status p, po_refund_amount := rp_amount p\<rparr>"
  obtain hit r1 where s: "set_order ?i now (\<lambda>_. True) ?f rd = (hit, r1)" by fastforce
  have "money_order ?i r1"
  proof (cases hit)
    case True
    with set_order_hit [OF s] have "status_of ?i r1 = Some (refunded_status p)" by auto
    with set_order_money [OF s] o R_ok show ?thesis by (auto simp: money_order_def refunded_status_def refundable_def)
  next
    case False
    with set_order_hit [OF s] o R_ok show ?thesis by simp
  qed
  with st s R_ok show ?thesis by (auto simp: ok_step_def money_plain_audit split: if_splits)
next
  case (R_pending p)
  let ?i = "po_id (rp_row p)"
  show ?thesis
  proof (cases "rd' = rd \<and> (\<exists>r. j' = R_done r)")
    case True
    with o R_pending show ?thesis by auto
  next
    case False
    obtain hit r1 where s: "set_order ?i now (\<lambda>_. True)
        (\<lambda>r. r\<lparr>po_status := Refund_pending, po_refund_amount := rp_amount p, po_failed_at := None\<rparr>) rd = (hit, r1)" by fastforce
    with False st R_pending have hit: "hit" and fresh: "\<not> has_audit ?i ''REFUND_PENDING'' (rd_db r1)"
      and new: "rd' = (with_db (audit ?i ''REFUND_PENDING'') r1)\<lparr>rd_pending := (rd_pending r1)(?i \<mapsto> p\<lparr>rp_held := True\<rparr>)\<rparr>"
      and j': "\<exists>r. j' = R_done r"
      by (auto simp: pending_step_def audit_tx_def Let_def split: if_splits)
    have "status_of ?i r1 = Some Refund_pending" using set_order_hit [OF s] hit by auto
    then have "status_of ?i rd' = Some Refund_pending" unfolding new by simp
    moreover have "rd_pending rd' ?i = Some (p\<lparr>rp_held := True\<rparr>)" "has_audit ?i ''REFUND_PENDING'' (rd_db rd')"
      "rd_taken rd' = rd_taken rd" "rollback_open ?i rd' = rollback_open ?i rd"
      unfolding new using set_order_money [OF s] by (simp_all add: rollback_open_def with_db_def audit_def has_audit_def)
    ultimately have "money_order ?i rd'" using m R_pending
      by (auto simp: money_order_def refundable_def plan_wf_def held_of_def)
    with j' R_pending show ?thesis by auto
  qed
next
  case (R_rollback p)
  let ?i = "po_id (rp_row p)"
  show ?thesis
  proof (cases "return_deduction env now p rd")
    case None
    with st R_rollback o show ?thesis by (auto simp: rollback_step_def)
  next
    case (Some r1)
    then have r: "rd' = r1" "j' = R_restore p Refund_gateway_failed" using st R_rollback by (simp_all add: rollback_step_def)
    note v = return_deduction_view [OF Some, of ?i]
    have "\<not> rollback_open ?i rd' \<Longrightarrow> rd_taken rd' ?i = 0"
      using m R_rollback v r held_not_taken [of p] by (auto simp: rollback_open_def held_of_def takes_balance_def split: if_splits)
    moreover have "money_order ?i rd'"
      using o R_rollback v r run by (auto simp: money_order_def rollback_open_def refundable_def)
    ultimately show ?thesis using r R_rollback by simp
  qed
next
  case (R_rollback_failed p)
  with st o m run show ?thesis by (auto simp: rollback_failed_step_def money_order_def)
next
  case (R_failed p)
  with st o m run show ?thesis by (auto simp: failed_step_def money_order_def rollback_open_def status_set_order_all)
next
  case (R_restore p e)
  let ?i = "po_id (rp_row p)"
  let ?st = "if po_status (rp_row p) = Refund_requested then Refund_requested else Completed"
  let ?r = "snd (set_order ?i now (\<lambda>_. True) (\<lambda>r. r\<lparr>po_status := ?st\<rparr>) rd)"
  have "status_of ?i ?r = Some ?st" using run R_restore by (intro status_set_order_all) auto
  moreover have "?st \<noteq> Refund_pending" by simp
  ultimately have "money_order ?i ?r" using o m R_restore by (auto simp: money_order_def rollback_open_def)
  with st R_restore show ?thesis by (auto simp: restore_step_def Let_def money_plain_audit)
qed (use h in auto)


text \<open>The jobs that hold nothing.\<close>

definition keyed :: "'m refund_db \<Rightarrow> bool" where
  "keyed rd \<longleftrightarrow> (\<forall>oid row. refund_order oid rd = Some row \<longrightarrow> po_id row = oid)"

lemma keyed_step: "keyed rd \<Longrightarrow> same_ids rd rd' \<Longrightarrow> keyed rd'"
  unfolding keyed_def same_ids_def by (metis map_option_eq_Some)

lemma prepare_wf: "prepare_refund env oid amt force deduct sub rd = Inr p \<Longrightarrow> plan_wf (p :: 'm::linordered_idom refund_plan)"
  by (auto simp: prepare_refund_def prep_deduct_def plan_wf_def Let_def split: option.splits sum.splits if_splits)

lemma finalize_recorded:
  "finalize_plan env row sub rd = Inr p \<Longrightarrow> rd_pending rd (po_id row) \<noteq> None \<Longrightarrow> recorded p rd"
  by (auto simp: finalize_plan_def recorded_def Let_def)

lemma claim_failed_money:
  assumes "claim_failed now p rd = (True, rd')"
  shows "rd_pending rd' = rd_pending rd \<and> rd_taken rd' = rd_taken rd \<and> has_audit i a (rd_db rd') = has_audit i a (rd_db rd)"
proof -
  from assms obtain r0 where s: "set_order (po_id (rp_row p)) now (\<lambda>r. po_status r = Refund_pending)
            (\<lambda>r. r\<lparr>po_status := Refund_failed, po_failed_at := Some now\<rparr>) rd = (True, r0)"
    and rd': "rd' = r0\<lparr>rd_answers := rd_answers r0 @ [(po_id (rp_row p), Gateway_failed)]\<rparr>"
    by (auto simp: claim_failed_def split: prod.splits)
  from set_order_view [OF s, of i] show ?thesis unfolding rd' by simp
qed

lemma request_money: "money_plan (request_step env oid uid rd) rd'"
  by (auto simp: request_step_def split: option.split sum.split)

lemma money_free:
  assumes st: "refund_job_step env now reply j rd = (j', rd')" and h: "\<not> holder j"
    and k: "keyed rd" and o: "\<forall>i. money_order i rd" and m: "money_plan j rd"
  shows "money_order (about j) rd' \<and> money_plan j' rd'"
proof (cases j)
  case (R_request oid uid)
  with st have "rd' = rd" "j' = request_step env oid uid rd" by auto
  with o show ?thesis by (simp add: request_money)
next
  case (R_prepare oid amt force deduct sub)
  with st o prepare_wf show ?thesis by (auto split: sum.splits)
next
  case (R_mark_requested row)
  let ?g = "\<lambda>r. po_user r = po_user row \<and> po_status r = Completed \<and> po_type r = ''balance''"
    and ?f = "\<lambda>r. r\<lparr>po_status := Refund_requested, po_refund_amount := po_amount row\<rparr>"
  obtain hit r1 where s: "set_order (po_id row) now ?g ?f rd = (hit, r1)" by fastforce
  have "money_order (po_id row) r1"
    using set_order_hit [OF s] set_order_money [OF s] o
    by (cases hit) (auto simp: money_order_def refundable_def)
  with st s R_mark_requested show ?thesis by (auto simp: mark_requested_step_def money_plain_audit split: if_splits)
next
  case (R_lock p)
  let ?i = "po_id (rp_row p)"
  obtain hit r1 where s: "set_order ?i now (\<lambda>r. refundable (po_status r)) (\<lambda>r. r\<lparr>po_status := Refunding\<rparr>) rd = (hit, r1)" by fastforce
  show ?thesis
  proof (cases hit)
    case True
    with set_order_hit [OF s] obtain x where x: "status_of ?i rd = Some x" "refundable x" "status_of ?i r1 = Some Refunding" by auto
    have "\<not> rollback_open ?i rd \<longrightarrow> rd_taken rd ?i = 0" using o x by (auto simp: money_order_def)
    with set_order_money [OF s] x(3) o st s True m R_lock show ?thesis
      by (auto simp: lock_step_def money_order_def refundable_def)
  next
    case False
    with set_order_hit [OF s] o st s R_lock show ?thesis by (auto simp: lock_step_def)
  qed
next
  case (F_query oid sub)
  show ?thesis
  proof (cases "refund_order oid rd")
    case None
    with st o F_query show ?thesis by (auto simp: query_step_def)
  next
    case (Some row)
    with k have id: "po_id row = oid" by (simp add: keyed_def)
    have q: "query_step env reply oid sub rd = (j', rd')" using st F_query by simp
    consider (ended) r where "j' = R_done r" "rd' = rd \<or> rd' = with_db (audit oid ''REFUND_QUERY_PENDING'') rd"
      | (plan) p where "po_status row = Refund_pending" "finalize_plan env row sub rd = Inr p" "j' = F_success p \<or> j' = F_failed p" "rd' = rd"
    proof (cases "po_status row \<noteq> Refund_pending \<or> gr_error reply")
      case True
      with q Some have "\<exists>r. j' = R_done r" "rd' = rd" by (auto simp: query_step_def split: if_splits)
      with ended show thesis by blast
    next
      case no: False
      show thesis
      proof (cases "finalize_plan env row sub rd")
        case (Inl e)
        with q Some no have "j' = R_done (Some e)" "rd' = rd" by (auto simp: query_step_def)
        with ended show thesis by blast
      next
        case (Inr p)
        show thesis
        proof (cases "read_status (gr_status reply)")
          case Gateway_pending
          with q Some no Inr have "j' = R_done (Some Refund_pending_answer)"
            "rd' = with_db (audit oid ''REFUND_QUERY_PENDING'') rd" by (auto simp: query_step_def)
          with ended show thesis by blast
        qed (use q Some no Inr plan [of p] in \<open>auto simp: query_step_def\<close>)
      qed
    qed
    then show ?thesis
    proof cases
      case ended
      with o F_query show ?thesis by (auto simp: money_plain_audit)
    next
      case plan
      have "rd_pending rd oid \<noteq> None" using o Some plan(1) by (auto simp: money_order_def status_of_def)
      with finalize_recorded [OF plan(2)] id have "recorded p rd" by simp
      with plan o F_query show ?thesis by auto
    qed
  qed
next
  case (F_success p)
  let ?i = "po_id (rp_row p)"
  show ?thesis
  proof (cases "rd' = rd")
    case True
    have "\<exists>r. j' = R_done r"
      using st F_success by (auto simp: final_success_step_def Let_def split: if_splits option.splits prod.splits)
    with True o F_success show ?thesis by auto
  next
    case False
    with st F_success obtain r1 r2 where s: "set_order ?i now (\<lambda>r. po_status r = Refund_pending)
            (\<lambda>r. r\<lparr>po_status := refunded_status p, po_refund_amount := rp_amount p\<rparr>) rd = (True, r1)"
      and d: "final_deduction env now p r1 = Some r2" and a: "audit_tx ?i ''REFUND_SUCCESS'' r2 = Some rd'" and j': "j' = R_done None"
      by (auto simp: final_success_step_def Let_def split: if_splits option.splits prod.splits)
    have "r2 = r1" using d m F_success by (simp add: final_deduction_def recorded_def)
    then have rd': "rd' = with_db (audit ?i ''REFUND_SUCCESS'') r1" using a by (simp add: audit_tx_def split: if_splits)
    have "status_of ?i r1 = Some (refunded_status p)" using set_order_hit [OF s] by auto
    with set_order_money [OF s] o have "money_order ?i r1"
      by (auto simp: money_order_def refunded_status_def refundable_def)
    with rd' j' F_success show ?thesis by (simp add: money_plain_audit)
  qed
next
  case (F_failed p)
  let ?i = "po_id (rp_row p)"
  from m F_failed have rec: "recorded p rd" by simp
  show ?thesis
  proof (cases "rd' = rd")
    case True
    have "(\<exists>r. j' = R_done r) \<or> j' = F_kept p"
      using st F_failed by (auto simp: final_failed_step_def Let_def split: if_splits option.splits prod.splits)
    with True o F_failed rec show ?thesis by auto
  next
    case False
    with st F_failed rec obtain r1 r2 r where c: "claim_failed now p rd = (True, r1)" and t: "return_deduction env now p r1 = Some r2"
      and a: "audit_tx ?i ''REFUND_FAILED'' r2 = Some rd'" and j': "j' = R_done r"
      by (auto simp: final_failed_step_def recorded_def Let_def split: if_splits option.splits prod.splits)
    note v = return_deduction_view [OF t, of ?i] and cm = claim_failed_money [OF c, of ?i] and co = claim_failed_own [OF c]
    have "rd_taken r2 ?i = 0" if "\<not> rollback_open ?i rd"
    proof -
      from o co that obtain d where d: "rd_pending rd ?i = Some d" "plan_wf d" "rd_taken rd ?i = held_of d" by (auto simp: money_order_def)
      with rec have "plan_wf p" "held_of d = held_of p" by (auto simp: recorded_def plan_wf_def held_of_def)
      with d cm v held_not_taken [of p] show ?thesis by (auto simp: held_of_def takes_balance_def split: if_splits)
    qed
    moreover have "status_of ?i r2 = Some Refund_failed" using v co by simp
    moreover have "rollback_open ?i r2 = rollback_open ?i rd" "rd_pending r2 = rd_pending rd"
      "has_audit ?i ''REFUND_PENDING'' (rd_db r2) = has_audit ?i ''REFUND_PENDING'' (rd_db rd)"
      using v cm by (simp_all add: rollback_open_def)
    ultimately have "money_order ?i r2" using o by (auto simp: money_order_def)
    then have "money_order ?i rd'" using a by (auto simp: audit_tx_def money_plain_audit split: if_splits)
    with j' F_failed show ?thesis by simp
  qed
next
  case (F_kept p)
  let ?i = "po_id (rp_row p)"
  show ?thesis
  proof (cases "rd' = rd")
    case True
    have "\<exists>r. j' = R_done r"
      using st F_kept by (auto simp: final_kept_step_def Let_def split: if_splits option.splits prod.splits)
    with True o F_kept show ?thesis by auto
  next
    case False
    with st F_kept obtain r1 r where c: "claim_failed now p rd = (True, r1)"
      and rd': "rd' = with_db (audit ?i ''REFUND_FAILED'') (with_db (audit ?i ''REFUND_ROLLBACK_FAILED'') r1)" and j': "j' = R_done r"
      by (auto simp: final_kept_step_def audit_tx_def Let_def split: if_splits option.splits prod.splits)
    have "money_order ?i rd'" unfolding rd' using o claim_failed_money [OF c, of ?i] claim_failed_own [OF c]
      by (auto simp: money_order_def)
    with j' F_kept show ?thesis by simp
  qed
next
  case (R_done r)
  with st o show ?thesis by auto
qed (use h in auto)




section \<open>The strict system\<close>

lemma pending_stable:
  assumes st: "refund_job_step env now reply j rd = (j', rd')" and o: "money_order oid rd" and d: "rd_pending rd oid = Some d"
  shows "rd_pending rd' oid = Some d"
proof (cases "oid = about j")
  case False
  with step_other [OF st] d show ?thesis by (simp add: same_view_def)
next
  case own: True
  show ?thesis
  proof (cases j)
    case (R_pending p)
    have "has_audit oid ''REFUND_PENDING'' (rd_db rd)" using o d by (simp add: money_order_def)
    with st R_pending own have "rd' = rd"
      by (auto simp: pending_step_def audit_tx_def Let_def dest: set_order_view split: prod.splits if_splits)
    with d show ?thesis by simp
  next
    case (F_success p)
    with st d show ?thesis
      by (auto simp: final_success_step_def final_deduction_def audit_tx_def Let_def split: if_splits option.splits prod.splits
          dest!: set_order_money take_balance_view take_days_only_subs)
  next
    case (F_failed p)
    with st d show ?thesis
      by (auto simp: final_failed_step_def audit_tx_def Let_def split: if_splits option.splits prod.splits
          dest!: claim_failed_money return_deduction_view)
  next
    case (F_kept p)
    with st d show ?thesis
      by (auto simp: final_kept_step_def audit_tx_def Let_def split: if_splits option.splits prod.splits
          dest!: claim_failed_money)
  qed (use st d in \<open>auto simp: mark_requested_step_def lock_step_def deduct_step_def days_step_def gateway_step_def ok_step_def
     rollback_step_def rollback_failed_step_def failed_step_def restore_step_def query_step_def Let_def
     split: if_splits option.splits prod.splits sum.splits gateway_answer.splits
     dest!: set_order_money take_balance_view take_days_only_subs return_deduction_view\<close>)
qed

text \<open>A job that does not hold the order leaves it alone while another does.\<close>

lemma free_same:
  assumes st: "refund_job_step env now reply j rd = (j', rd')" and h: "\<not> holder j"
    and run: "status_of (about j) rd = Some Refunding"
  shows "rd' = rd"
proof -
  have no: "hit = False \<and> r = rd" if "set_order (about j) now g f rd = (hit, r)" "\<And>r. g r \<Longrightarrow> po_status r \<noteq> Refunding" for g f hit r
    using set_order_view [OF that(1)] that(2) run unfolding status_of_def by (metis option.simps(9) option.inject)
  have pend: "hit = False \<and> r = rd" if "set_order i now (\<lambda>r. po_status r = Refund_pending) f rd = (hit, r)"
      "about j = i" for i f hit r
    by (rule no [OF that(1) [folded that(2)]]) simp
  show ?thesis
  proof (cases j)
    case (F_query oid sub)
    with st run show ?thesis by (auto simp: query_step_def status_of_def split: option.splits)
  next
    case (R_lock p)
    have "hit = False \<and> r = rd" if "set_order (about j) now (\<lambda>r. refundable (po_status r)) f rd = (hit, r)" for f hit r
      by (rule no [OF that]) (auto simp: refundable_def)
    with st R_lock show ?thesis by (auto simp: lock_step_def split: prod.splits)
  next
    case (R_mark_requested row)
    have "hit = False \<and> r = rd" if "set_order (about j) now
        (\<lambda>r. po_user r = po_user row \<and> po_status r = Completed \<and> po_type r = ''balance'') f rd = (hit, r)" for f hit r
      by (rule no [OF that]) simp
    with st R_mark_requested show ?thesis by (auto simp: mark_requested_step_def split: prod.splits if_splits)
  qed (use st h in \<open>auto simp: final_success_step_def final_failed_step_def final_kept_step_def
      claim_failed_def Let_def split: if_splits prod.splits option.splits dest!: pend\<close>)
qed

definition money_ok :: "'m::linordered_idom refund_state \<Rightarrow> bool" where
  "money_ok s \<longleftrightarrow> keyed (rs_db s) \<and> (\<forall>oid. money_order oid (rs_db s)) \<and>
     (\<forall>i j. rs_jobs s i = Some j \<longrightarrow> money_plan j (rs_db s))"

lemma money_plan_stable:
  assumes ok: "refund_ok s" and m: "money_ok s" and j: "rs_jobs s i = Some j" and x: "rs_jobs s n = Some x" "n \<noteq> i"
    and st: "refund_job_step env now reply j (rs_db s) = (j', rd')"
  shows "money_plan x rd'"
proof -
  have mx: "money_plan x (rs_db s)" and o: "money_order (about x) (rs_db s)" using m x(1) unfolding money_ok_def by blast+
  show ?thesis
  proof (cases "about x = about j")
    case False
    from money_plan_view [OF step_other [OF st False]] mx show ?thesis by simp
  next
    case same: True
    show ?thesis
    proof (cases "holder x")
      case True
      from ok x(1) True have "job_kept x (rs_db s)" unfolding refund_ok_def by blast
      with True same have "status_of (about j) (rs_db s) = Some Refunding" by (simp add: job_kept_def)
      moreover have "\<not> holder j" using ok x j True same unfolding refund_ok_def by metis
      ultimately have "rd' = rs_db s" using free_same [OF st] by blast
      with mx show ?thesis by simp
    next
      case False
      with mx o pending_stable [OF st] show ?thesis by (cases x) (auto simp: recorded_def)
    qed
  qed
qed

lemma money_fault: "money_plan j rd \<Longrightarrow> \<forall>p. j \<noteq> R_rollback_failed p \<Longrightarrow> money_plan (refund_fault j) rd"
  by (cases j) (auto simp: held_of_def takes_days_def takes_balance_def plan_wf_def)

lemma money_starting: "refund_starting j \<Longrightarrow> money_plan j rd"
  by (cases j) auto

lemma money_ok_step: "refund_step env strict s s' \<Longrightarrow> strict \<Longrightarrow> refund_ok s \<Longrightarrow> money_ok s \<Longrightarrow> money_ok s'"
proof (induction rule: refund_step.induct)
  case (refund_start_job s i j)
  then show ?case using money_starting by (auto simp: money_ok_def)
next
  case (refund_run s i j now reply j' rd')
  note j = refund_run(1) and st = refund_run(2) and ok = refund_run(4) and m = refund_run(5)
  have k: "keyed (rs_db s)" and o: "\<forall>oid. money_order oid (rs_db s)" and p: "money_plan j (rs_db s)"
    using m j unfolding money_ok_def by blast+
  have own: "money_order (about j) rd' \<and> money_plan j' rd'"
  proof (cases "holder j")
    case True
    with ok j have "status_of (about j) (rs_db s) = Some Refunding" unfolding refund_ok_def job_kept_def by blast
    from money_held [OF st True this] o p show ?thesis by blast
  next
    case False
    from money_free [OF st this k o p] show ?thesis .
  qed
  have "money_order oid rd'" for oid
    using own o money_order_view [OF step_other [OF st]] by (cases "oid = about j") auto
  moreover have "keyed rd'" by (rule keyed_step [OF k step_ids [OF st]])
  moreover have "money_plan x rd'" if "rs_jobs s n = Some x" "n \<noteq> i" for n x
    by (rule money_plan_stable [OF ok m j that st])
  ultimately show ?case using own by (simp add: money_ok_def)
next
  case (refund_fault_before s i j)
  then have "money_plan (refund_fault j) (rs_db s)" by (intro money_fault) (auto simp: money_ok_def)
  with refund_fault_before show ?case by (auto simp: money_ok_def)
next
  case (refund_crash s i j)
  then show ?case by (auto simp: money_ok_def)
qed simp

lemma money_start: "refund_start s \<Longrightarrow> money_ok s"
proof -
  assume s: "refund_start s"
  then have "\<And>oid st. status_of oid (rs_db s) = Some st \<Longrightarrow> \<not> is_refund_status st"
    by (auto simp: refund_start_def status_of_def)
  then have "status_of oid (rs_db s) \<noteq> Some Refund_pending" for oid unfolding is_refund_status_def by blast
  with s show ?thesis by (auto simp: refund_start_def money_ok_def keyed_def money_order_def has_audit_def)
qed

lemma refund_reachable_money: "refund_reachable env True s \<Longrightarrow> refund_ok s \<and> money_ok s"
  by (induction rule: refund_reachable_induct) (auto intro: refund_start_ok refund_ok_step money_start money_ok_step)



section \<open>A run of two refunds\<close>

fun refund_runs :: "'m pay_env \<Rightarrow> gateway_reply \<Rightarrow> nat \<Rightarrow> 'm::{zero,plus,minus,ord,abs} refund_job \<times> 'm refund_db \<Rightarrow> 'm refund_job \<times> 'm refund_db" where
  "refund_runs env reply 0 x = x"
| "refund_runs env reply (Suc n) x = refund_runs env reply n (refund_job_step env 100 reply (fst x) (snd x))"

definition shop_env :: "int pay_env" where
  "shop_env = \<lparr>pe_upper = id, pe_fold = (=), pe_finite = (\<lambda>_. True), pe_cent = 1, pe_half_unit = (\<lambda>_. 0),
     pe_code_eps = 0, pe_less_bonus = (-), pe_round = (\<lambda>a _. a), pe_share = (\<lambda>p _ _ _. p), pe_registry = (\<lambda>_. []),
     pe_instances = [\<lparr>pi_id = 3, pi_key = ''alipay'', pi_types = [], pi_refund_enabled = True, pi_user_refund = True\<rparr>],
     pe_group_active = (\<lambda>_. True), pe_affiliate = None, pe_assign_ok = (\<lambda>_ _. True), pe_add_days = (+), pe_max_expiry = 1000000\<rparr>"

definition shop_order :: "int pay_order" where
  "shop_order = \<lparr>po_id = 1, po_user = 7, po_type = ''balance'', po_status = Completed, po_amount = 30, po_bonus = 0,
     po_pay_amount = 30, po_code = ''PAY-1-1'', po_payment_type = ''alipay'', po_instance = ''3'', po_provider = ''alipay'',
     po_snapshot = None, po_out_trade_no = ''sub2_x'', po_trade_no = ''T1'', po_group = None, po_days = None,
     po_updated_at = 6, po_expires_at = 60, po_paid_at = Some 5, po_completed_at = Some 6, po_failed_at = None,
     po_refund_amount = 0\<rparr>"

definition shop_db :: "int refund_db" where
  "shop_db = \<lparr>rd_db = empty_pay_db\<lparr>pd_users := [7 \<mapsto> \<lparr>pu_balance = 50, pu_recharged = 30\<rparr>], pd_orders := [1 \<mapsto> shop_order]\<rparr>,
     rd_subs = Map.empty, rd_pending = Map.empty, rd_answers = [], rd_taken = (\<lambda>_. 0)\<rparr>"

definition still_pending :: gateway_reply where
  "still_pending = \<lparr>gr_error = False, gr_status = Some ''pending''\<rparr>"

definition has_failed :: gateway_reply where
  "has_failed = \<lparr>gr_error = False, gr_status = Some ''failed''\<rparr>"

definition first_refund :: "int refund_db" where
  "first_refund = snd (refund_runs shop_env still_pending 6 (R_prepare 1 0 False True None, shop_db))"

definition refund_failed_at_gateway :: "int refund_db" where
  "refund_failed_at_gateway = snd (refund_runs shop_env has_failed 2 (F_query 1 None, first_refund))"

lemma refund_reach_step: "refund_reachable env strict s \<Longrightarrow> refund_step env strict s s' \<Longrightarrow> refund_reachable env strict s'"
  unfolding refund_reachable_def by (blast intro: rtranclp.rtrancl_into_rtrancl)

lemma refund_reach_runs:
  "refund_reachable env strict \<lparr>rs_db = rd, rs_jobs = js(i \<mapsto> j)\<rparr> \<Longrightarrow> refund_runs env reply n (j, rd) = (j', rd') \<Longrightarrow>
     refund_reachable env strict \<lparr>rs_db = rd', rs_jobs = js(i \<mapsto> j')\<rparr>"
proof (induction n arbitrary: j rd)
  case (Suc n)
  obtain j1 rd1 where st: "refund_job_step env 100 reply j rd = (j1, rd1)" by fastforce
  from refund_reach_step [OF Suc.prems(1) refund_run [of _ i j env 100 reply j1 rd1]] st
  have "refund_reachable env strict \<lparr>rs_db = rd1, rs_jobs = js(i \<mapsto> j, i \<mapsto> j1)\<rparr>" by (simp del: fun_upd_apply add: fun_upd_same)
  then have "refund_reachable env strict \<lparr>rs_db = rd1, rs_jobs = js(i \<mapsto> j1)\<rparr>" by (simp only: fun_upd_upd)
  from Suc.IH [OF this] Suc.prems(2) st show ?case by simp
qed simp

lemma refund_call:
  assumes "refund_reachable env strict \<lparr>rs_db = rd, rs_jobs = js\<rparr>" "js i = None" "refund_starting j"
  shows "refund_reachable env strict \<lparr>rs_db = snd (refund_runs env reply n (j, rd)), rs_jobs = js(i \<mapsto> fst (refund_runs env reply n (j, rd)))\<rparr>"
proof -
  from refund_reach_step [OF assms(1) refund_start_job [of _ i j]] assms(2,3)
  have "refund_reachable env strict \<lparr>rs_db = rd, rs_jobs = js(i \<mapsto> j)\<rparr>" by simp
  from refund_reach_runs [OF this, of reply n] show ?thesis by simp
qed

lemma shop_start: "refund_start \<lparr>rs_db = shop_db, rs_jobs = Map.empty\<rparr>"
  by (auto simp: refund_start_def shop_db_def empty_pay_db_def refund_order_def shop_order_def is_refund_status_def split: if_splits)

lemma reach_first: "\<exists>js. refund_reachable shop_env True \<lparr>rs_db = first_refund, rs_jobs = js\<rparr> \<and> js 1 = None \<and> js 2 = None"
proof -
  have "refund_reachable shop_env True \<lparr>rs_db = shop_db, rs_jobs = Map.empty\<rparr>"
    using shop_start unfolding refund_reachable_def by blast
  from refund_call [OF this, where i = 0 and j = "R_prepare 1 0 False True None" and reply = still_pending and n = 6]
  show ?thesis by (fastforce simp: first_refund_def)
qed

lemma first_facts: "status_of 1 first_refund = Some Refund_pending \<and> \<not> rollback_open 1 first_refund \<and>
    answers_of 1 first_refund = [Gateway_pending]"
  by code_simp



lemma second_facts:
  "(case fst (refund_runs shop_env still_pending 5 (R_prepare 1 0 False True None, refund_failed_at_gateway)) of
      R_pending p \<Rightarrow> po_id (rp_row p) = 1 | _ \<Rightarrow> False) \<and>
   has_audit 1 ''REFUND_PENDING''
     (rd_db (snd (refund_runs shop_env still_pending 5 (R_prepare 1 0 False True None, refund_failed_at_gateway))))"
  by code_simp

theorem second_pending_refund_stuck_witness:
  "\<exists>s p. refund_reachable shop_env True s \<and> rs_jobs s 2 = Some (R_pending p) \<and>
     pending_step 100 p (rs_db s) = (R_done (Some Refund_store), rs_db s) \<and> status_of (po_id (rp_row p)) (rs_db s) = Some Refunding"
proof -
  from reach_first obtain js where js: "refund_reachable shop_env True \<lparr>rs_db = first_refund, rs_jobs = js\<rparr>" "js 1 = None" "js 2 = None"
    by blast
  let ?r = "refund_runs shop_env has_failed 2 (F_query 1 None, first_refund)"
  from refund_call [OF js(1,2), where j = "F_query 1 None" and reply = has_failed and n = 2]
  have "refund_reachable shop_env True \<lparr>rs_db = refund_failed_at_gateway, rs_jobs = js(1 \<mapsto> fst ?r)\<rparr>"
    by (simp add: refund_failed_at_gateway_def)
  from refund_call [OF this, where i = 2 and j = "R_prepare 1 0 False True None" and reply = still_pending and n = 5] js(3)
  obtain s where r: "refund_reachable shop_env True s"
    and s: "rs_jobs s 2 = Some (fst (refund_runs shop_env still_pending 5 (R_prepare 1 0 False True None, refund_failed_at_gateway)))"
      "rs_db s = snd (refund_runs shop_env still_pending 5 (R_prepare 1 0 False True None, refund_failed_at_gateway))"
    by fastforce
  from second_facts s obtain p where p: "rs_jobs s 2 = Some (R_pending p)" "has_audit (po_id (rp_row p)) ''REFUND_PENDING'' (rd_db (rs_db s))"
    by (auto split: refund_job.splits)
  from second_pending_refund_stuck [OF r p rtranclp.rtrancl_refl [where ?a = "_"], of 100] r p(1) show ?thesis by auto
qed


end
