(* ===== verification/ConcurrencySlots.thy ===== *)
theory ConcurrencySlots
  imports RedisKeys
begin

text \<open>
  The slots that bound the requests in flight of an account and a user, the leases of live calls and of
  websocket clients and the counters of waiting requests
  (\<^verbatim>\<open>internal/repository/concurrency_cache.go\<close>): the Lua scripts on the keys of Redis and the
  methods that call them. A script runs at the clock of the server; what a call of the network meets is
  an argument. The commands of a pipeline run as one step.
\<close>

section \<open>The keys\<close>

definition account_slot_key :: "int \<Rightarrow> string" where
  "account_slot_key i = ''concurrency:account:'' @ itoa i"

definition user_slot_key :: "int \<Rightarrow> string" where
  "user_slot_key i = ''concurrency:user:'' @ itoa i"

definition api_key_slot_key :: "int \<Rightarrow> string" where
  "api_key_slot_key i = ''concurrency:api_key:'' @ itoa i"

definition live_account_slot_key :: "int \<Rightarrow> string" where
  "live_account_slot_key i = ''concurrency:live:account:'' @ itoa i"

definition live_user_slot_key :: "int \<Rightarrow> string" where
  "live_user_slot_key i = ''concurrency:live:user:'' @ itoa i"

definition live_api_key_slot_key :: "int \<Rightarrow> string" where
  "live_api_key_slot_key i = ''concurrency:live:api_key:'' @ itoa i"

definition ingress_lease_key :: "int \<Rightarrow> string" where
  "ingress_lease_key i = ''concurrency:openai_ws_ingress:api_key:'' @ itoa i"

definition wait_queue_key :: "int \<Rightarrow> string" where
  "wait_queue_key i = ''concurrency:wait:'' @ itoa i"

definition account_wait_key :: "int \<Rightarrow> string" where
  "account_wait_key i = ''wait:account:'' @ itoa i"

text \<open>\<open>slotIndexSpec\<close>: the index of the accounts or users that are active, and their keys.\<close>

datatype slot_index = Account_index | User_index

fun index_key :: "slot_index \<Rightarrow> string" where
  "index_key Account_index = ''concurrency:account:active_index''"
| "index_key User_index = ''concurrency:user:active_index''"

fun index_slot_key :: "slot_index \<Rightarrow> int \<Rightarrow> string" where
  "index_slot_key Account_index = account_slot_key"
| "index_slot_key User_index = user_slot_key"

fun index_live_key :: "slot_index \<Rightarrow> int \<Rightarrow> string" where
  "index_live_key Account_index = live_account_slot_key"
| "index_live_key User_index = live_user_slot_key"

fun index_wait_key :: "slot_index \<Rightarrow> int \<Rightarrow> string" where
  "index_wait_key Account_index = account_wait_key"
| "index_wait_key User_index = wait_queue_key"

section \<open>The store\<close>

text \<open>The sorted sets, the counters with the time they expire, and whether the counters of before the
  index have been swept.\<close>

record slot_store =
  sl_sets :: "string \<Rightarrow> zkey"
  sl_waits :: "string \<Rightarrow> (int \<times> int) option"
  sl_swept :: bool

definition empty_slots :: slot_store where
  "empty_slots = \<lparr>sl_sets = (\<lambda>_. no_zkey), sl_waits = (\<lambda>_. None), sl_swept = False\<rparr>"

text \<open>Keys whose time to live has run out are gone.\<close>

definition redis_settle :: "int \<Rightarrow> slot_store \<Rightarrow> slot_store" where
  "redis_settle clk st = st\<lparr>
     sl_sets := (\<lambda>k. if key_gone clk (zk_expiry (sl_sets st k)) then no_zkey else sl_sets st k),
     sl_waits := (\<lambda>k. case sl_waits st k of None \<Rightarrow> None | Some (n, e) \<Rightarrow> if e \<le> clk then None else Some (n, e))\<rparr>"

text \<open>One call; \<open>None\<close> is the error of the client. The fate of a call is what the network does to it and
  the clock of the server when it runs.\<close>

type_synonym fate = "net \<times> int"

definition redis_call :: "fate \<Rightarrow> (int \<Rightarrow> slot_store \<Rightarrow> 'r \<times> slot_store) \<Rightarrow> slot_store \<Rightarrow> 'r option \<times> slot_store" where
  "redis_call f script st =
     (case f of (n, clk) \<Rightarrow>
        if n = Net_down then (None, st)
        else case script clk (redis_settle clk st) of (r, st') \<Rightarrow> (if n = Net_ok then Some r else None, st'))"

definition on_set :: "string \<Rightarrow> (zkey \<Rightarrow> zkey) \<Rightarrow> slot_store \<Rightarrow> slot_store" where
  "on_set k f st = st\<lparr>sl_sets := (sl_sets st)(k := f (sl_sets st k))\<rparr>"

definition zcard :: "string \<Rightarrow> slot_store \<Rightarrow> int" where
  "zcard k st = int (gm_len (zk_members (sl_sets st k)))"

definition redis_seconds :: "int \<Rightarrow> int" where
  "redis_seconds clk = clk div 1000"

section \<open>The scripts\<close>

definition live_ttl :: int where
  "live_ttl = 60"

definition ingress_ttl :: int where
  "ingress_ttl = 60"

definition take_slot :: "int \<Rightarrow> string \<Rightarrow> int \<Rightarrow> string \<Rightarrow> slot_store \<Rightarrow> slot_store" where
  "take_slot clk key ttl rid = on_set key (\<lambda>z. zexpire clk ttl (zadd rid (redis_seconds clk) z))"

definition acquire_script :: "string \<Rightarrow> string \<Rightarrow> int \<Rightarrow> int \<Rightarrow> string \<Rightarrow> int \<Rightarrow> slot_store \<Rightarrow> (bool \<times> int) \<times> slot_store" where
  "acquire_script key live limit ttl rid clk st =
     (let now = redis_seconds clk;
          st1 = on_set live (zrem_upto (now - 60)) (on_set key (zrem_upto (now - ttl)) st) in
      if zscore rid (sl_sets st1 key) \<noteq> None then ((True, now), take_slot clk key ttl rid st1)
      else if zcard key st1 + zcard live st1 < limit then ((True, now), take_slot clk key ttl rid st1)
      else ((False, now), st1))"

definition count_script :: "string \<Rightarrow> string \<Rightarrow> int \<Rightarrow> int \<Rightarrow> slot_store \<Rightarrow> int \<times> slot_store" where
  "count_script key live ttl clk st =
     (let now = redis_seconds clk;
          st1 = on_set live (zrem_upto (now - 60)) (on_set key (zrem_upto (now - ttl)) st) in
      (zcard key st1 + zcard live st1, st1))"

definition acquire_live_script ::
  "int \<Rightarrow> int \<Rightarrow> int \<Rightarrow> int \<Rightarrow> int \<Rightarrow> int \<Rightarrow> string \<Rightarrow> bool \<Rightarrow> int \<Rightarrow> slot_store \<Rightarrow> bool \<times> slot_store" where
  "acquire_live_script account user api account_max user_max ttl lease replacing clk st =
     (let lim = redis_seconds clk - ttl;
          al = live_account_slot_key account; ul = live_user_slot_key user; kl = live_api_key_slot_key api;
          st1 = on_set kl (zrem_upto lim) (on_set ul (zrem_upto lim) (on_set al (zrem_upto lim) st));
          account_count = zcard (account_slot_key account) st1 + zcard al st1;
          user_count = zcard (user_slot_key user) st1 + zcard ul st1;
          allowance = (if replacing then 1 else 0) in
      if zscore lease (sl_sets st1 al) \<noteq> None then (True, st1)
      else if account_max > 0 \<and> account_max + allowance \<le> account_count then (False, st1)
      else if user_max > 0 \<and> user_max + allowance \<le> user_count then (False, st1)
      else (True, take_slot clk kl ttl lease (take_slot clk ul ttl lease (take_slot clk al ttl lease st1))))"

fun check_leases :: "int \<Rightarrow> string \<Rightarrow> string list \<Rightarrow> slot_store \<Rightarrow> bool \<times> slot_store" where
  "check_leases lim lease [] st = (True, st)"
| "check_leases lim lease (k # ks) st =
     (let st1 = on_set k (zrem_upto lim) st in
      if zscore lease (sl_sets st1 k) = None then (False, st1) else check_leases lim lease ks st1)"

definition refresh_live_script :: "string list \<Rightarrow> int \<Rightarrow> string \<Rightarrow> int \<Rightarrow> slot_store \<Rightarrow> bool \<times> slot_store" where
  "refresh_live_script keys ttl lease clk st =
     (case check_leases (redis_seconds clk - ttl) lease keys st of
        (False, st1) \<Rightarrow> (False, st1)
      | (True, st1) \<Rightarrow> (True, fold (\<lambda>k. take_slot clk k ttl lease) keys st1))"

definition track_script :: "string \<Rightarrow> int \<Rightarrow> string \<Rightarrow> int \<Rightarrow> slot_store \<Rightarrow> unit \<times> slot_store" where
  "track_script key ttl rid clk st =
     ((), take_slot clk key ttl rid (on_set key (zrem_upto (redis_seconds clk - ttl)) st))"

definition acquire_ingress_script :: "string \<Rightarrow> int \<Rightarrow> int \<Rightarrow> string \<Rightarrow> int \<Rightarrow> slot_store \<Rightarrow> bool \<times> slot_store" where
  "acquire_ingress_script key limit ttl lease clk st =
     (let st1 = on_set key (zrem_upto (redis_seconds clk - ttl)) st in
      if zscore lease (sl_sets st1 key) \<noteq> None then (True, take_slot clk key ttl lease st1)
      else if zcard key st1 < limit then (True, take_slot clk key ttl lease st1)
      else (False, st1))"

text \<open>A lease that is gone is not made again.\<close>

definition refresh_ingress_script :: "string \<Rightarrow> int \<Rightarrow> string \<Rightarrow> int \<Rightarrow> slot_store \<Rightarrow> bool \<times> slot_store" where
  "refresh_ingress_script key ttl lease clk st =
     (let st1 = on_set key (zrem_upto (redis_seconds clk - ttl)) st in
      if zscore lease (sl_sets st1 key) = None then (False, st1) else (True, take_slot clk key ttl lease st1))"

definition wait_value :: "string \<Rightarrow> slot_store \<Rightarrow> int" where
  "wait_value key st = (case sl_waits st key of None \<Rightarrow> 0 | Some (n, e) \<Rightarrow> n)"

definition increment_wait_script :: "string \<Rightarrow> int \<Rightarrow> int \<Rightarrow> int \<Rightarrow> slot_store \<Rightarrow> (bool \<times> int) \<times> slot_store" where
  "increment_wait_script key max_wait ttl clk st =
     (if max_wait \<le> wait_value key st then ((False, redis_seconds clk), st)
      else ((True, redis_seconds clk),
            st\<lparr>sl_waits := (sl_waits st)(key \<mapsto> (wait_value key st + 1, clk + 1000 * ttl))\<rparr>))"

definition decrement_wait_script :: "string \<Rightarrow> int \<Rightarrow> slot_store \<Rightarrow> unit \<times> slot_store" where
  "decrement_wait_script key clk st =
     ((), case sl_waits st key of
        None \<Rightarrow> st
      | Some (n, e) \<Rightarrow> if 0 < n then st\<lparr>sl_waits := (sl_waits st)(key \<mapsto> (n - 1, e))\<rparr> else st)"

definition cleanup_script :: "string \<Rightarrow> int \<Rightarrow> int \<Rightarrow> slot_store \<Rightarrow> unit \<times> slot_store" where
  "cleanup_script key ttl clk st =
     ((), on_set key (\<lambda>z. let z1 = zrem_upto (redis_seconds clk - ttl) z in
        if zk_members z1 = [] then no_zkey else zexpire clk ttl z1) st)"

text \<open>Whatever does not carry the prefix of the process that starts is removed.\<close>

definition startup_script :: "string \<Rightarrow> string \<Rightarrow> int \<Rightarrow> int \<Rightarrow> slot_store \<Rightarrow> (int \<times> int) \<times> slot_store" where
  "startup_script key active ttl clk st =
     (let z = sl_sets st key;
          z1 = z\<lparr>zk_members := gm_filter (\<lambda>m s. prefix active m) (zk_members z)\<rparr>;
          remaining = gm_len (zk_members z1);
          z2 = (if remaining = 0 then no_zkey else zexpire clk ttl z1) in
      ((int (gm_len (zk_members z)) - int remaining, int remaining), on_set key (\<lambda>_. z2) st))"


section \<open>The cache\<close>

record slot_cache =
  sc_slot_ttl :: int
  sc_wait_ttl :: int

definition new_concurrency_cache :: "int \<Rightarrow> int \<Rightarrow> slot_cache" where
  "new_concurrency_cache slot_minutes wait_seconds =
     (let minutes = (if slot_minutes \<le> 0 then 15 else slot_minutes);
          waits = (if wait_seconds \<le> 0 then minutes * 60 else wait_seconds) in
      \<lparr>sc_slot_ttl = minutes * 60, sc_wait_ttl = waits\<rparr>)"

text \<open>The index only helps the clean-up to find candidates; its failures are ignored.\<close>

definition touch_active_index :: "fate \<Rightarrow> slot_index \<Rightarrow> int \<Rightarrow> int \<Rightarrow> slot_store \<Rightarrow> slot_store" where
  "touch_active_index f ix i expire_at st =
     (if i \<le> 0 \<or> expire_at \<le> 0 then st
      else snd (redis_call f (\<lambda>clk s. ((), on_set (index_key ix) (zadd (itoa i) expire_at) s)) st))"

definition index_ttl :: "slot_cache \<Rightarrow> int \<Rightarrow> int \<Rightarrow> int" where
  "index_ttl c slots waits =
     (let t = (if 0 < slots then sc_slot_ttl c else 0) in if 0 < waits \<and> t < sc_wait_ttl c then sc_wait_ttl c else t)"

text \<open>The time a client has read and the load it then sees, without the slots that had run out at that
  time.\<close>

definition read_time :: "fate \<Rightarrow> slot_store \<Rightarrow> int option \<times> slot_store" where
  "read_time f = redis_call f (\<lambda>clk st. (redis_seconds clk, st))"

definition positive_wait :: "string \<Rightarrow> slot_store \<Rightarrow> int" where
  "positive_wait key st = (if 0 < wait_value key st then wait_value key st else 0)"

definition active_load :: "slot_cache \<Rightarrow> slot_index \<Rightarrow> int \<Rightarrow> int \<Rightarrow> int \<Rightarrow> slot_store \<Rightarrow> (int \<times> int) \<times> slot_store" where
  "active_load c ix now i clk st =
     (let key = index_slot_key ix i; st1 = on_set key (zrem_upto (now - sc_slot_ttl c)) st in
      ((zcard key st1, positive_wait (index_wait_key ix i) st1), st1))"

definition refresh_active_index :: "slot_cache \<Rightarrow> (nat \<Rightarrow> fate) \<Rightarrow> slot_index \<Rightarrow> int \<Rightarrow> slot_store \<Rightarrow> slot_store" where
  "refresh_active_index c fs ix i st =
     (if i \<le> 0 then st
      else case read_time (fs 0) st of
        (None, st1) \<Rightarrow> st1
      | (Some now, st1) \<Rightarrow>
          (case redis_call (fs 1) (active_load c ix now i) st1 of
             (None, st2) \<Rightarrow> st2
           | (Some (slots, waits), st2) \<Rightarrow>
               if slots = 0 \<and> waits \<le> 0 then
                 snd (redis_call (fs 2) (\<lambda>clk s. ((), on_set (index_key ix) (zrem (itoa i)) s)) st2)
               else if index_ttl c slots waits \<le> 0 then st2
               else touch_active_index (fs 2) ix i (now + index_ttl c slots waits) st2))"

definition acquire_slot ::
  "slot_cache \<Rightarrow> (nat \<Rightarrow> fate) \<Rightarrow> slot_index \<Rightarrow> int \<Rightarrow> int \<Rightarrow> string \<Rightarrow> slot_store \<Rightarrow> bool option \<times> slot_store" where
  "acquire_slot c fs ix i limit rid st =
     (case redis_call (fs 0) (acquire_script (index_slot_key ix i) (index_live_key ix i) limit (sc_slot_ttl c) rid) st of
        (None, st1) \<Rightarrow> (None, st1)
      | (Some (ok, now), st1) \<Rightarrow>
          (Some ok, if ok then touch_active_index (fs 1) ix i (now + sc_slot_ttl c) st1 else st1))"

definition release_slot ::
  "slot_cache \<Rightarrow> (nat \<Rightarrow> fate) \<Rightarrow> slot_index \<Rightarrow> int \<Rightarrow> string \<Rightarrow> slot_store \<Rightarrow> unit option \<times> slot_store" where
  "release_slot c fs ix i rid st =
     (case redis_call (fs 0) (\<lambda>clk s. ((), on_set (index_slot_key ix i) (zrem rid) s)) st of
        (None, st1) \<Rightarrow> (None, st1)
      | (Some u, st1) \<Rightarrow> (Some u, refresh_active_index c (\<lambda>n. fs (Suc n)) ix i st1))"

definition cache_acquire_account_slot where
  "cache_acquire_account_slot c fs = acquire_slot c fs Account_index"

definition cache_acquire_user_slot where
  "cache_acquire_user_slot c fs = acquire_slot c fs User_index"

definition cache_release_account_slot where
  "cache_release_account_slot c fs = release_slot c fs Account_index"

definition cache_release_user_slot where
  "cache_release_user_slot c fs = release_slot c fs User_index"

definition cache_get_concurrency :: "slot_cache \<Rightarrow> fate \<Rightarrow> slot_index \<Rightarrow> int \<Rightarrow> slot_store \<Rightarrow> int option \<times> slot_store" where
  "cache_get_concurrency c f ix i = redis_call f (count_script (index_slot_key ix i) (index_live_key ix i) (sc_slot_ttl c))"

definition cache_get_account_concurrency where
  "cache_get_account_concurrency c f = cache_get_concurrency c f Account_index"

definition cache_get_user_concurrency where
  "cache_get_user_concurrency c f = cache_get_concurrency c f User_index"

definition cache_track_api_key_slot :: "slot_cache \<Rightarrow> fate \<Rightarrow> int \<Rightarrow> string \<Rightarrow> slot_store \<Rightarrow> unit option \<times> slot_store" where
  "cache_track_api_key_slot c f i rid = redis_call f (track_script (api_key_slot_key i) (sc_slot_ttl c) rid)"

definition cache_release_api_key_slot :: "fate \<Rightarrow> int \<Rightarrow> string \<Rightarrow> slot_store \<Rightarrow> unit option \<times> slot_store" where
  "cache_release_api_key_slot f i rid = redis_call f (\<lambda>clk s. ((), on_set (api_key_slot_key i) (zrem rid) s))"

definition cache_acquire_ingress_lease :: "fate \<Rightarrow> int \<Rightarrow> int \<Rightarrow> string \<Rightarrow> slot_store \<Rightarrow> bool option \<times> slot_store" where
  "cache_acquire_ingress_lease f i limit lease st =
     (if i \<le> 0 \<or> limit \<le> 0 \<or> lease = [] then (Some False, st)
      else redis_call f (acquire_ingress_script (ingress_lease_key i) limit ingress_ttl lease) st)"

definition cache_refresh_ingress_lease :: "fate \<Rightarrow> int \<Rightarrow> string \<Rightarrow> slot_store \<Rightarrow> bool option \<times> slot_store" where
  "cache_refresh_ingress_lease f i lease st =
     (if i \<le> 0 \<or> lease = [] then (Some False, st)
      else redis_call f (refresh_ingress_script (ingress_lease_key i) ingress_ttl lease) st)"

definition cache_release_ingress_lease :: "fate \<Rightarrow> int \<Rightarrow> string \<Rightarrow> slot_store \<Rightarrow> unit option \<times> slot_store" where
  "cache_release_ingress_lease f i lease st =
     (if i \<le> 0 \<or> lease = [] then (Some (), st)
      else redis_call f (\<lambda>clk s. ((), on_set (ingress_lease_key i) (zrem lease) s)) st)"

definition cache_acquire_live_lease ::
  "fate \<Rightarrow> int \<Rightarrow> int \<Rightarrow> int \<Rightarrow> int \<Rightarrow> int \<Rightarrow> string \<Rightarrow> bool \<Rightarrow> slot_store \<Rightarrow> bool option \<times> slot_store" where
  "cache_acquire_live_lease f account account_max user user_max api lease replacing st =
     (if account \<le> 0 \<or> user \<le> 0 \<or> api \<le> 0 \<or> lease = [] then (Some False, st)
      else redis_call f (acquire_live_script account user api account_max user_max live_ttl lease replacing) st)"

definition cache_refresh_live_lease :: "fate \<Rightarrow> int \<Rightarrow> int \<Rightarrow> int \<Rightarrow> string \<Rightarrow> slot_store \<Rightarrow> bool option \<times> slot_store" where
  "cache_refresh_live_lease f account user api lease st =
     (if lease = [] then (Some False, st)
      else redis_call f (refresh_live_script
        [live_account_slot_key account, live_user_slot_key user, live_api_key_slot_key api] live_ttl lease) st)"

definition cache_release_live_lease :: "fate \<Rightarrow> int \<Rightarrow> int \<Rightarrow> int \<Rightarrow> string \<Rightarrow> slot_store \<Rightarrow> unit option \<times> slot_store" where
  "cache_release_live_lease f account user api lease st =
     (if lease = [] then (Some (), st)
      else redis_call f (\<lambda>clk s. ((), on_set (live_api_key_slot_key api) (zrem lease)
        (on_set (live_user_slot_key user) (zrem lease) (on_set (live_account_slot_key account) (zrem lease) s)))) st)"

definition cache_increment_wait ::
  "slot_cache \<Rightarrow> (nat \<Rightarrow> fate) \<Rightarrow> slot_index \<Rightarrow> int \<Rightarrow> int \<Rightarrow> slot_store \<Rightarrow> bool option \<times> slot_store" where
  "cache_increment_wait c fs ix i max_wait st =
     (case redis_call (fs 0) (increment_wait_script (index_wait_key ix i) max_wait (sc_wait_ttl c)) st of
        (None, st1) \<Rightarrow> (None, st1)
      | (Some (ok, now), st1) \<Rightarrow>
          (Some ok, if ok then touch_active_index (fs 1) ix i (now + sc_wait_ttl c) st1 else st1))"

definition cache_decrement_wait :: "slot_cache \<Rightarrow> (nat \<Rightarrow> fate) \<Rightarrow> slot_index \<Rightarrow> int \<Rightarrow> slot_store \<Rightarrow> unit option \<times> slot_store" where
  "cache_decrement_wait c fs ix i st =
     (case redis_call (fs 0) (decrement_wait_script (index_wait_key ix i)) st of
        (None, st1) \<Rightarrow> (None, st1)
      | (Some u, st1) \<Rightarrow> (Some u, refresh_active_index c (\<lambda>n. fs (Suc n)) ix i st1))"

definition cache_increment_user_wait where
  "cache_increment_user_wait c fs = cache_increment_wait c fs User_index"

definition cache_increment_account_wait where
  "cache_increment_account_wait c fs = cache_increment_wait c fs Account_index"

definition cache_decrement_user_wait where
  "cache_decrement_user_wait c fs = cache_decrement_wait c fs User_index"

definition cache_decrement_account_wait where
  "cache_decrement_account_wait c fs = cache_decrement_wait c fs Account_index"

definition cache_account_waiting :: "fate \<Rightarrow> int \<Rightarrow> slot_store \<Rightarrow> int option \<times> slot_store" where
  "cache_account_waiting f i = redis_call f (\<lambda>clk st. (wait_value (account_wait_key i) st, st))"


section \<open>Reading many keys\<close>

record load_info =
  ld_id :: int
  ld_current :: int
  ld_waiting :: int
  ld_rate :: int

text \<open>What has run out at the time \<open>now\<close> that the client read is removed first.\<close>

definition prune_pair :: "slot_cache \<Rightarrow> string \<Rightarrow> string \<Rightarrow> int \<Rightarrow> slot_store \<Rightarrow> int \<times> slot_store" where
  "prune_pair c key live now st =
     (let st1 = on_set live (zrem_upto (now - live_ttl)) (on_set key (zrem_upto (now - sc_slot_ttl c)) st) in
      (zcard key st1 + zcard live st1, st1))"

fun count_keys :: "slot_cache \<Rightarrow> (int \<Rightarrow> string) \<Rightarrow> (int \<Rightarrow> string) \<Rightarrow> int \<Rightarrow> int list \<Rightarrow> slot_store \<Rightarrow> (int, int) gomap \<times> slot_store" where
  "count_keys c key live now [] st = ([], st)"
| "count_keys c key live now (i # is) st =
     (let (n, st1) = prune_pair c (key i) (live i) now st; (m, st2) = count_keys c key live now is st1 in
      (if gm_get m i = None then gm_set i n m else m, st2))"

definition count_batch ::
  "slot_cache \<Rightarrow> (nat \<Rightarrow> fate) \<Rightarrow> (int \<Rightarrow> string) \<Rightarrow> (int \<Rightarrow> string) \<Rightarrow> int list \<Rightarrow> slot_store \<Rightarrow> (int, int) gomap option \<times> slot_store" where
  "count_batch c fs key live is st =
     (if is = [] then (Some [], st)
      else case read_time (fs 0) st of
        (None, st1) \<Rightarrow> (None, st1)
      | (Some now, st1) \<Rightarrow> redis_call (fs 1) (\<lambda>clk. count_keys c key live now is) st1)"

definition cache_account_concurrency_batch where
  "cache_account_concurrency_batch c fs = count_batch c fs account_slot_key live_account_slot_key"

definition cache_api_key_concurrency_batch where
  "cache_api_key_concurrency_batch c fs = count_batch c fs api_key_slot_key live_api_key_slot_key"

definition load_rate :: "int \<Rightarrow> int \<Rightarrow> int \<Rightarrow> int" where
  "load_rate current waiting limit = (if 0 < limit then go_quot ((current + waiting) * 100) limit else 0)"

fun read_loads :: "slot_cache \<Rightarrow> slot_index \<Rightarrow> int \<Rightarrow> (int \<times> int) list \<Rightarrow> slot_store \<Rightarrow> (int, load_info) gomap \<times> slot_store" where
  "read_loads c ix now [] st = ([], st)"
| "read_loads c ix now ((i, limit) # xs) st =
     (let (n, st1) = prune_pair c (index_slot_key ix i) (index_live_key ix i) now st;
          w = wait_value (index_wait_key ix i) st1;
          (m, st2) = read_loads c ix now xs st1 in
      (if gm_get m i = None
       then gm_set i \<lparr>ld_id = i, ld_current = n, ld_waiting = w, ld_rate = load_rate n w limit\<rparr> m else m, st2))"

definition cache_loads_batch ::
  "slot_cache \<Rightarrow> (nat \<Rightarrow> fate) \<Rightarrow> slot_index \<Rightarrow> (int \<times> int) list \<Rightarrow> slot_store \<Rightarrow> (int, load_info) gomap option \<times> slot_store" where
  "cache_loads_batch c fs ix xs st =
     (if xs = [] then (Some [], st)
      else case read_time (fs 0) st of
        (None, st1) \<Rightarrow> (None, st1)
      | (Some now, st1) \<Rightarrow> redis_call (fs 1) (\<lambda>clk. read_loads c ix now xs) st1)"

definition cache_accounts_load_batch where
  "cache_accounts_load_batch c fs = cache_loads_batch c fs Account_index"

definition cache_users_load_batch where
  "cache_users_load_batch c fs = cache_loads_batch c fs User_index"

section \<open>Cleaning up\<close>

definition cache_cleanup_account_slots :: "slot_cache \<Rightarrow> (nat \<Rightarrow> fate) \<Rightarrow> int \<Rightarrow> slot_store \<Rightarrow> unit option \<times> slot_store" where
  "cache_cleanup_account_slots c fs i st =
     (case redis_call (fs 0) (cleanup_script (account_slot_key i) (sc_slot_ttl c)) st of
        (None, st1) \<Rightarrow> (None, st1)
      | (Some u, st1) \<Rightarrow> (Some u, refresh_active_index c (\<lambda>n. fs (Suc n)) Account_index i st1))"

definition member_id :: "string \<Rightarrow> int option" where
  "member_id m = (case go_atoi m of None \<Rightarrow> None | Some i \<Rightarrow> if i \<le> 0 then None else Some i)"

text \<open>The loads of the members of an index, in pipelines of 500.\<close>

fun read_chunk :: "slot_cache \<Rightarrow> slot_index \<Rightarrow> int \<Rightarrow> string list \<Rightarrow> slot_store \<Rightarrow> (string \<times> int \<times> int) list \<times> slot_store" where
  "read_chunk c ix now [] st = ([], st)"
| "read_chunk c ix now (m # ms) st =
     (case member_id m of
        None \<Rightarrow> read_chunk c ix now ms st
      | Some i \<Rightarrow>
          let ((slots, waits), st1) = active_load c ix now i 0 st; (ls, st2) = read_chunk c ix now ms st1 in
          ((m, slots, waits) # ls, st2))"

function read_index_loads ::
  "slot_cache \<Rightarrow> (nat \<Rightarrow> fate) \<Rightarrow> slot_index \<Rightarrow> int \<Rightarrow> string list \<Rightarrow> slot_store \<Rightarrow> (string \<times> int \<times> int) list option \<times> slot_store" where
  "read_index_loads c fs ix now [] st = (Some [], st)"
| "read_index_loads c fs ix now (m # ms) st =
     (case redis_call (fs 0) (\<lambda>clk. read_chunk c ix now (take 500 (m # ms))) st of
        (None, st1) \<Rightarrow> (None, st1)
      | (Some ls, st1) \<Rightarrow>
          (case read_index_loads c (\<lambda>n. fs (Suc n)) ix now (drop 500 (m # ms)) st1 of
             (None, st2) \<Rightarrow> (None, st2)
           | (Some ls2, st2) \<Rightarrow> (Some (ls @ ls2), st2)))"
  by pat_completeness auto

termination
  by (relation "measure (\<lambda>(c, fs, ix, now, ms, st). length ms)") auto

text \<open>The end of both clean-ups: the members that still stand for a load are set again, the others removed.\<close>

definition write_index :: "(nat \<Rightarrow> fate) \<Rightarrow> slot_index \<Rightarrow> (string \<times> int) list \<Rightarrow> string list \<Rightarrow> slot_store \<Rightarrow> slot_store" where
  "write_index fs ix refreshed stale st =
     (let st1 = (if refreshed = [] then st
            else snd (redis_call (fs 0) (\<lambda>clk s. ((), on_set (index_key ix) (fold (\<lambda>(m, t). zadd m t) refreshed) s)) st)) in
      if stale = [] then st1
      else snd (redis_call (fs 1) (\<lambda>clk s. ((), on_set (index_key ix) (fold zrem stale) s)) st1))"

text \<open>The members of an index with a score of at most \<open>now\<close>, the first thousand in the order of their
  scores. The order of the list stands for that of members with the same score.\<close>

definition expired_members :: "int \<Rightarrow> zkey \<Rightarrow> string list" where
  "expired_members now z = take 1000 (map fst (sort_key snd (filter (\<lambda>(m, s). s \<le> now) (zk_members z))))"

definition reconcile_index ::
  "slot_cache \<Rightarrow> (nat \<Rightarrow> fate) \<Rightarrow> (nat \<Rightarrow> fate) \<Rightarrow> (nat \<Rightarrow> fate) \<Rightarrow> slot_index \<Rightarrow> slot_store \<Rightarrow> unit option \<times> slot_store" where
  "reconcile_index c fs gs hs ix st =
     (case read_time (fs 0) st of
        (None, st1) \<Rightarrow> (None, st1)
      | (Some now, st1) \<Rightarrow>
          (case redis_call (fs 1) (\<lambda>clk s. (expired_members now (sl_sets s (index_key ix)), s)) st1 of
             (None, st2) \<Rightarrow> (None, st2)
           | (Some ms, st2) \<Rightarrow>
               (case read_index_loads c gs ix now (filter (\<lambda>m. member_id m \<noteq> None) ms) st2 of
                  (None, st3) \<Rightarrow> (None, st3)
                | (Some loads, st3) \<Rightarrow>
                    let idle = (\<lambda>(m, slots, waits). slots = 0 \<and> waits \<le> 0);
                        stale = filter (\<lambda>m. member_id m = None) ms @ map fst (filter idle loads);
                        refreshed = map (\<lambda>(m, slots, waits). (m, now + index_ttl c slots waits)) (filter (\<lambda>x. \<not> idle x) loads) in
                    (Some (), write_index hs ix refreshed stale st3))))"

definition cache_cleanup_slot_keys ::
  "slot_cache \<Rightarrow> (slot_index \<Rightarrow> nat \<Rightarrow> fate) \<Rightarrow> (slot_index \<Rightarrow> nat \<Rightarrow> fate) \<Rightarrow> (slot_index \<Rightarrow> nat \<Rightarrow> fate) \<Rightarrow> slot_store \<Rightarrow> unit option \<times> slot_store" where
  "cache_cleanup_slot_keys c fs gs hs st =
     (case reconcile_index c (fs Account_index) (gs Account_index) (hs Account_index) Account_index st of
        (None, st1) \<Rightarrow> (None, st1)
      | (Some u, st1) \<Rightarrow> reconcile_index c (fs User_index) (gs User_index) (hs User_index) User_index st1)"

section \<open>The start of a process\<close>

fun startup_members ::
  "slot_cache \<Rightarrow> (nat \<Rightarrow> fate) \<Rightarrow> slot_index \<Rightarrow> string \<Rightarrow> int \<Rightarrow> string list \<Rightarrow> slot_store \<Rightarrow>
   ((string \<times> int) list \<times> string list) option \<times> slot_store" where
  "startup_members c fs ix active now [] st = (Some ([], []), st)"
| "startup_members c fs ix active now (m # ms) st =
     (case member_id m of
        None \<Rightarrow>
          (case startup_members c fs ix active now ms st of
             (None, st1) \<Rightarrow> (None, st1)
           | (Some (refreshed, stale), st1) \<Rightarrow> (Some (refreshed, m # stale), st1))
      | Some i \<Rightarrow>
          (case redis_call (fs 0) (startup_script (index_slot_key ix i) active (sc_slot_ttl c)) st of
             (None, st1) \<Rightarrow> (None, st1)
           | (Some (removed, remaining), st1) \<Rightarrow>
               (case redis_call (fs 1) (\<lambda>clk s. ((), s\<lparr>sl_waits := (sl_waits s)(index_wait_key ix i := None)\<rparr>)) st1 of
                  (None, st2) \<Rightarrow> (None, st2)
                | (Some u, st2) \<Rightarrow>
                    (case startup_members c (\<lambda>n. fs (n + 2)) ix active now ms st2 of
                       (None, st3) \<Rightarrow> (None, st3)
                     | (Some (refreshed, stale), st3) \<Rightarrow>
                         (Some (if 0 < remaining then ((m, now + sc_slot_ttl c) # refreshed, stale) else (refreshed, m # stale)), st3)))))"

definition startup_index ::
  "slot_cache \<Rightarrow> (nat \<Rightarrow> fate) \<Rightarrow> (nat \<Rightarrow> fate) \<Rightarrow> slot_index \<Rightarrow> string \<Rightarrow> int \<Rightarrow> slot_store \<Rightarrow> unit option \<times> slot_store" where
  "startup_index c fs gs ix active now st =
     (case redis_call (fs 0) (\<lambda>clk s. (map fst (zk_members (sl_sets s (index_key ix))), s)) st of
        (None, st1) \<Rightarrow> (None, st1)
      | (Some ms, st1) \<Rightarrow>
          (case startup_members c gs ix active now ms st1 of
             (None, st2) \<Rightarrow> (None, st2)
           | (Some (refreshed, stale), st2) \<Rightarrow> (Some (), write_index (\<lambda>n. fs (Suc n)) ix refreshed stale st2)))"

text \<open>The counters of before the index are swept once.\<close>

definition sweep_legacy_waits :: "(nat \<Rightarrow> fate) \<Rightarrow> slot_store \<Rightarrow> unit option \<times> slot_store" where
  "sweep_legacy_waits fs st =
     (case redis_call (fs 0) (\<lambda>clk s. (sl_swept s, s)) st of
        (None, st1) \<Rightarrow> (None, st1)
      | (Some True, st1) \<Rightarrow> (Some (), st1)
      | (Some False, st1) \<Rightarrow>
          (case redis_call (fs 1) (\<lambda>clk s. ((), s\<lparr>sl_waits := (\<lambda>k.
                  if prefix ''wait:account:'' k \<or> prefix ''concurrency:wait:'' k then None else sl_waits s k)\<rparr>)) st1 of
             (None, st2) \<Rightarrow> (None, st2)
           | (Some u, st2) \<Rightarrow> redis_call (fs 2) (\<lambda>clk s. ((), s\<lparr>sl_swept := True\<rparr>)) st2))"

definition cache_cleanup_stale ::
  "slot_cache \<Rightarrow> (nat \<Rightarrow> fate) \<Rightarrow> (slot_index \<Rightarrow> nat \<Rightarrow> fate) \<Rightarrow> (slot_index \<Rightarrow> nat \<Rightarrow> fate) \<Rightarrow> string \<Rightarrow> slot_store \<Rightarrow> unit option \<times> slot_store" where
  "cache_cleanup_stale c fs gs hs active st =
     (if active = [] then (Some (), st)
      else case sweep_legacy_waits fs st of
        (None, st1) \<Rightarrow> (None, st1)
      | (Some u, st1) \<Rightarrow>
          (case read_time (fs 3) st1 of
             (None, st2) \<Rightarrow> (None, st2)
           | (Some now, st2) \<Rightarrow>
               (case startup_index c (gs Account_index) (hs Account_index) Account_index active now st2 of
                  (None, st3) \<Rightarrow> (None, st3)
                | (Some u2, st3) \<Rightarrow> startup_index c (gs User_index) (hs User_index) User_index active now st3)))"

end
