(* ===== verification/ConcurrencyGates.thy ===== *)
theory ConcurrencyGates
  imports ConcurrencySlots
begin

text \<open>
  One call of the store at a time: \<open>slot_op\<close> lists the scripts and commands that the methods of the
  concurrency cache send, \<open>op_effect\<close> what each does to the store. A gate is the set of slots of an
  account or a user together with the set of its live leases; the lemmas say what a call does to the
  two sets of a gate.
\<close>

section \<open>Keys are apart\<close>

lemma account_slot_key_inj [simp]: "account_slot_key i = account_slot_key j \<longleftrightarrow> i = j"
  by (auto simp: account_slot_key_def dest: itoa_inj)

lemma user_slot_key_inj [simp]: "user_slot_key i = user_slot_key j \<longleftrightarrow> i = j"
  by (auto simp: user_slot_key_def dest: itoa_inj)

lemma live_account_slot_key_inj [simp]: "live_account_slot_key i = live_account_slot_key j \<longleftrightarrow> i = j"
  by (auto simp: live_account_slot_key_def dest: itoa_inj)

lemma live_user_slot_key_inj [simp]: "live_user_slot_key i = live_user_slot_key j \<longleftrightarrow> i = j"
  by (auto simp: live_user_slot_key_def dest: itoa_inj)

lemma itoa_no_letter: "itoa i \<noteq> CHR ''a'' # s"
proof
  assume eq: "itoa i = CHR ''a'' # s"
  have "CHR ''a'' \<notin> set (digits_of_nat n)" for n
    by (rule digits_no_char) simp
  then have "CHR ''a'' \<notin> set (itoa i)" by (simp add: itoa_def)
  then show False by (simp add: eq)
qed

lemmas slot_key_defs = account_slot_key_def user_slot_key_def api_key_slot_key_def live_account_slot_key_def
  live_user_slot_key_def live_api_key_slot_key_def ingress_lease_key_def

lemma slot_keys_apart [simp]:
  "account_slot_key i \<noteq> user_slot_key j" "user_slot_key i \<noteq> account_slot_key j"
  "account_slot_key i \<noteq> api_key_slot_key j" "user_slot_key i \<noteq> api_key_slot_key j"
  "account_slot_key i \<noteq> live_account_slot_key j" "account_slot_key i \<noteq> live_user_slot_key j"
  "account_slot_key i \<noteq> live_api_key_slot_key j" "account_slot_key i \<noteq> ingress_lease_key j"
  "user_slot_key i \<noteq> live_account_slot_key j" "user_slot_key i \<noteq> live_user_slot_key j"
  "user_slot_key i \<noteq> live_api_key_slot_key j" "user_slot_key i \<noteq> ingress_lease_key j"
  "live_account_slot_key i \<noteq> account_slot_key j" "live_account_slot_key i \<noteq> user_slot_key j"
  "live_account_slot_key i \<noteq> api_key_slot_key j" "live_account_slot_key i \<noteq> live_user_slot_key j"
  "live_account_slot_key i \<noteq> live_api_key_slot_key j" "live_account_slot_key i \<noteq> ingress_lease_key j"
  "live_user_slot_key i \<noteq> account_slot_key j" "live_user_slot_key i \<noteq> user_slot_key j"
  "live_user_slot_key i \<noteq> api_key_slot_key j" "live_user_slot_key i \<noteq> live_account_slot_key j"
  "live_user_slot_key i \<noteq> live_api_key_slot_key j" "live_user_slot_key i \<noteq> ingress_lease_key j"
  "live_api_key_slot_key i \<noteq> live_account_slot_key j" "live_api_key_slot_key i \<noteq> live_user_slot_key j"
  "live_api_key_slot_key i \<noteq> account_slot_key j" "live_api_key_slot_key i \<noteq> user_slot_key j"
  by (simp_all add: slot_key_defs)

lemma index_keys_apart [simp]:
  "index_slot_key ix i \<noteq> index_key jx" "index_key jx \<noteq> index_slot_key ix i"
  "index_live_key ix i \<noteq> index_key jx" "index_key jx \<noteq> index_live_key ix i"
  "index_slot_key ix i \<noteq> index_live_key jx j" "index_live_key jx j \<noteq> index_slot_key ix i"
  "index_slot_key ix i \<noteq> api_key_slot_key j" "api_key_slot_key j \<noteq> index_slot_key ix i"
  "index_slot_key ix i \<noteq> live_api_key_slot_key j" "live_api_key_slot_key j \<noteq> index_slot_key ix i"
  "index_slot_key ix i \<noteq> ingress_lease_key j" "ingress_lease_key j \<noteq> index_slot_key ix i"
  "index_live_key ix i \<noteq> api_key_slot_key j" "api_key_slot_key j \<noteq> index_live_key ix i"
  "index_live_key ix i \<noteq> live_api_key_slot_key j" "live_api_key_slot_key j \<noteq> index_live_key ix i"
  "index_live_key ix i \<noteq> ingress_lease_key j" "ingress_lease_key j \<noteq> index_live_key ix i"
  by (cases ix; cases jx; auto simp: slot_key_defs itoa_no_letter dest: sym)+

lemma index_slot_key_inj [simp]: "index_slot_key ix i = index_slot_key jx j \<longleftrightarrow> ix = jx \<and> i = j"
  by (cases ix; cases jx) auto

lemma index_live_key_inj [simp]: "index_live_key ix i = index_live_key jx j \<longleftrightarrow> ix = jx \<and> i = j"
  by (cases ix; cases jx) auto

lemma index_key_inj [simp]: "index_key ix = index_key jx \<longleftrightarrow> ix = jx"
  by (cases ix; cases jx) auto

section \<open>Calls of the store\<close>

datatype slot_op =
    Acquire_op slot_index int int string
  | Release_op slot_index int string
  | Count_op slot_index int
  | Prune_op string int
  | Track_op int string
  | Untrack_op int string
  | Ingress_acquire_op int int string
  | Ingress_refresh_op int string
  | Ingress_release_op int string
  | Live_acquire_op int int int int int string bool
  | Live_refresh_op int int int string
  | Live_release_op int int int string
  | Wait_up_op slot_index int int
  | Wait_down_op slot_index int
  | Wait_delete_op slot_index int
  | Wait_sweep_op
  | Sweep_mark_op
  | Index_op slot_index "zkey \<Rightarrow> zkey"
  | Cleanup_op int
  | Startup_op slot_index int string
  | Read_op

text \<open>What a call does to the store, \<open>Prune_op key lim\<close> being the removal of the members of a set with a
  score of at most \<open>lim\<close>.\<close>

fun op_body :: "slot_cache \<Rightarrow> slot_op \<Rightarrow> int \<Rightarrow> slot_store \<Rightarrow> slot_store" where
  "op_body c (Acquire_op ix i limit rid) clk st =
     snd (acquire_script (index_slot_key ix i) (index_live_key ix i) limit (sc_slot_ttl c) rid clk st)"
| "op_body c (Release_op ix i rid) clk st = on_set (index_slot_key ix i) (zrem rid) st"
| "op_body c (Count_op ix i) clk st = snd (count_script (index_slot_key ix i) (index_live_key ix i) (sc_slot_ttl c) clk st)"
| "op_body c (Prune_op key lim) clk st = on_set key (zrem_upto lim) st"
| "op_body c (Track_op i rid) clk st = snd (track_script (api_key_slot_key i) (sc_slot_ttl c) rid clk st)"
| "op_body c (Untrack_op i rid) clk st = on_set (api_key_slot_key i) (zrem rid) st"
| "op_body c (Ingress_acquire_op i limit lease) clk st =
     snd (acquire_ingress_script (ingress_lease_key i) limit ingress_ttl lease clk st)"
| "op_body c (Ingress_refresh_op i lease) clk st = snd (refresh_ingress_script (ingress_lease_key i) ingress_ttl lease clk st)"
| "op_body c (Ingress_release_op i lease) clk st = on_set (ingress_lease_key i) (zrem lease) st"
| "op_body c (Live_acquire_op account user api account_max user_max lease replacing) clk st =
     snd (acquire_live_script account user api account_max user_max live_ttl lease replacing clk st)"
| "op_body c (Live_refresh_op account user api lease) clk st =
     snd (refresh_live_script [live_account_slot_key account, live_user_slot_key user, live_api_key_slot_key api]
       live_ttl lease clk st)"
| "op_body c (Live_release_op account user api lease) clk st =
     on_set (live_api_key_slot_key api) (zrem lease)
       (on_set (live_user_slot_key user) (zrem lease) (on_set (live_account_slot_key account) (zrem lease) st))"
| "op_body c (Wait_up_op ix i max_wait) clk st = snd (increment_wait_script (index_wait_key ix i) max_wait (sc_wait_ttl c) clk st)"
| "op_body c (Wait_down_op ix i) clk st = snd (decrement_wait_script (index_wait_key ix i) clk st)"
| "op_body c (Wait_delete_op ix i) clk st = st\<lparr>sl_waits := (sl_waits st)(index_wait_key ix i := None)\<rparr>"
| "op_body c Wait_sweep_op clk st = st\<lparr>sl_waits := (\<lambda>k.
     if prefix ''wait:account:'' k \<or> prefix ''concurrency:wait:'' k then None else sl_waits st k)\<rparr>"
| "op_body c Sweep_mark_op clk st = st\<lparr>sl_swept := True\<rparr>"
| "op_body c (Index_op ix f) clk st = on_set (index_key ix) f st"
| "op_body c (Cleanup_op i) clk st = snd (cleanup_script (account_slot_key i) (sc_slot_ttl c) clk st)"
| "op_body c (Startup_op ix i active) clk st = snd (startup_script (index_slot_key ix i) active (sc_slot_ttl c) clk st)"
| "op_body c Read_op clk st = st"

definition op_effect :: "slot_cache \<Rightarrow> slot_op \<Rightarrow> int \<Rightarrow> slot_store \<Rightarrow> slot_store" where
  "op_effect c a clk st = op_body c a clk (redis_settle clk st)"

text \<open>A client prunes a set by a time it read before.\<close>

fun op_timely :: "slot_cache \<Rightarrow> slot_op \<Rightarrow> int \<Rightarrow> bool" where
  "op_timely c (Prune_op key lim) clk \<longleftrightarrow>
     ((\<exists>ix i. key = index_slot_key ix i) \<longrightarrow> lim \<le> redis_seconds clk - sc_slot_ttl c) \<and>
     ((\<exists>ix i. key = index_live_key ix i) \<longrightarrow> lim \<le> redis_seconds clk - live_ttl)"
| "op_timely c _ clk \<longleftrightarrow> True"

section \<open>What happens to a set\<close>

text \<open>The members of a set are not of the future, and its time to live lasts as long as they do.\<close>

definition zfresh :: "int \<Rightarrow> int \<Rightarrow> zkey \<Rightarrow> bool" where
  "zfresh clk ttl z \<longleftrightarrow> (\<forall>m s. zscore m z = Some s \<longrightarrow>
     s \<le> redis_seconds clk \<and> (\<forall>e. zk_expiry z = Some e \<longrightarrow> 1000 * (s + ttl) \<le> e))"

text \<open>A change that only drops what has run out.\<close>

inductive calm :: "int \<Rightarrow> int \<Rightarrow> zkey \<Rightarrow> zkey \<Rightarrow> bool" for clk ttl where
  calm_same: "calm clk ttl z z"
| calm_gone: "key_gone clk (zk_expiry z) \<Longrightarrow> calm clk ttl z no_zkey"
| calm_prune: "lim \<le> redis_seconds clk - ttl \<Longrightarrow> calm clk ttl z (zrem_upto lim z)"
| calm_empty: "zk_members z = [] \<Longrightarrow> calm clk ttl z no_zkey"
| calm_expire: "calm clk ttl z (zexpire clk ttl z)"
| calm_trans: "calm clk ttl x y \<Longrightarrow> calm clk ttl y z \<Longrightarrow> calm clk ttl x z"

lemma redis_seconds_mono: "clk \<le> clk' \<Longrightarrow> redis_seconds clk \<le> redis_seconds clk'"
  by (simp add: redis_seconds_def zdiv_mono1)

lemma redis_seconds_le: "1000 * redis_seconds clk \<le> clk"
  by (simp add: redis_seconds_def)

lemma zfresh_later: "zfresh clk ttl z \<Longrightarrow> clk \<le> clk' \<Longrightarrow> zfresh clk' ttl z"
  unfolding zfresh_def using redis_seconds_mono by (meson order_trans)

lemma zfresh_none [simp]: "zfresh clk ttl no_zkey"
  by (simp add: zfresh_def zset)

lemma zrem_upto_expiry: "zk_expiry (zrem_upto lim z) = Some e \<Longrightarrow> zk_expiry z = Some e"
  by (auto simp: zrem_upto_def zkeep_def no_zkey_def split: if_splits)

lemma zrem_expiry: "zk_expiry (zrem m z) = Some e \<Longrightarrow> zk_expiry z = Some e"
  by (auto simp: zrem_def zkeep_def no_zkey_def split: if_splits)

lemma seconds_later: "s \<le> redis_seconds clk \<Longrightarrow> 1000 * s \<le> clk"
  using redis_seconds_le [of clk] by simp

lemma zexpire_expiry: "zk_expiry (zexpire clk ttl z) = (if zk_members z = [] then zk_expiry z else Some (clk + 1000 * ttl))"
  by (simp add: zexpire_def)

lemma zadd_not_Nil [simp]: "zk_members (zadd m s z) \<noteq> []"
  using zmembers_ops(4) [of m s z] by (auto simp: zmembers_def gm_keys_def)

lemma zfresh_zexpire: "zfresh clk ttl z \<Longrightarrow> zfresh clk ttl (zexpire clk ttl z)"
  unfolding zfresh_def by (auto simp: zset zexpire_expiry split: if_splits intro: seconds_later redis_seconds_le)

lemma zfresh_zrem: "zok z \<Longrightarrow> zfresh clk ttl z \<Longrightarrow> zfresh clk ttl (zrem m z)"
  unfolding zfresh_def by (auto simp: zset dest!: zrem_expiry split: if_splits)

lemma zfresh_take: "zfresh clk ttl z \<Longrightarrow> zfresh clk ttl (zexpire clk ttl (zadd m (redis_seconds clk) z))"
  unfolding zfresh_def by (auto simp: zset zexpire_expiry split: if_splits intro: seconds_later redis_seconds_le)

lemma calm_zok: "calm clk ttl z z' \<Longrightarrow> zok z \<Longrightarrow> zok z'"
  by (induction rule: calm.induct) simp_all

lemma calm_members: "calm clk ttl z z' \<Longrightarrow> zmembers z' \<subseteq> zmembers z"
proof (induction rule: calm.induct)
  case (calm_prune lim z)
  show ?case by (rule zmembers_rem_upto)
qed (auto simp: zset)

lemma calm_keeps:
  "calm clk ttl z z' \<Longrightarrow> zok z \<Longrightarrow> zfresh clk ttl z \<Longrightarrow>
   zfresh clk ttl z' \<and> (\<forall>m s. zscore m z = Some s \<longrightarrow> redis_seconds clk - ttl < s \<longrightarrow> zscore m z' = Some s)"
proof (induction rule: calm.induct)
  case (calm_gone z)
  then obtain e where e: "zk_expiry z = Some e" "e \<le> clk" by (auto simp: key_gone_def split: option.splits)
  have "\<not> redis_seconds clk - ttl < s" if "zscore m z = Some s" for m s
  proof -
    from that calm_gone e have "1000 * (s + ttl) \<le> clk" unfolding zfresh_def by fastforce
    then show ?thesis by (simp add: redis_seconds_def)
  qed
  then show ?case by auto
next
  case (calm_prune lim z)
  then show ?case
    unfolding zfresh_def by (auto simp: zscore_rem_upto split: option.splits if_splits dest!: zrem_upto_expiry)
next
  case (calm_empty z)
  then show ?case by (simp add: zscore_def)
next
  case (calm_expire z)
  then show ?case by (simp add: zfresh_zexpire zset)
next
  case (calm_trans x y z)
  then show ?case using calm_zok by blast
qed simp

lemmas calm_fresh = calm_keeps [THEN conjunct1]
lemmas calm_score = calm_keeps [THEN conjunct2, rule_format]


section \<open>What a call does to a gate\<close>

lemma sets_on_set [simp]: "sl_sets (on_set k f st) k' = (if k' = k then f (sl_sets st k) else sl_sets st k')"
  by (simp add: on_set_def)

lemma sets_take_slot [simp]:
  "sl_sets (take_slot clk k ttl rid st) k' =
     (if k' = k then zexpire clk ttl (zadd rid (redis_seconds clk) (sl_sets st k)) else sl_sets st k')"
  by (simp add: take_slot_def)

lemma sets_wait_scripts [simp]:
  "sl_sets (snd (increment_wait_script k m ttl clk st)) = sl_sets st"
  "sl_sets (snd (decrement_wait_script k clk st)) = sl_sets st"
  by (auto simp: increment_wait_script_def decrement_wait_script_def split: option.split)

lemma sets_check_leases: "k \<notin> set ks \<Longrightarrow> sl_sets (snd (check_leases lim lease ks st)) k = sl_sets st k"
  by (induction ks arbitrary: st) (auto simp: Let_def)

lemma sets_take_slots: "k \<notin> set ks \<Longrightarrow> sl_sets (fold (\<lambda>k. take_slot clk k ttl lease) ks st) k = sl_sets st k"
  by (induction ks arbitrary: st) auto

lemma sets_refresh_live: "k \<notin> set ks \<Longrightarrow> sl_sets (snd (refresh_live_script ks ttl lease clk st)) k = sl_sets st k"
  using sets_check_leases [of k ks "redis_seconds clk - ttl" lease st]
  by (auto simp: refresh_live_script_def sets_take_slots split: prod.split bool.split)

lemma calm_settle: "calm clk ttl (sl_sets st k) (sl_sets (redis_settle clk st) k)"
  by (auto simp: redis_settle_def intro: calm_same calm_gone)

lemmas script_defs = acquire_script_def count_script_def track_script_def acquire_ingress_script_def
  refresh_ingress_script_def acquire_live_script_def cleanup_script_def startup_script_def Let_def

lemma calm_cleanup:
  "calm clk ttl z (let z1 = zrem_upto (redis_seconds clk - ttl) z in if zk_members z1 = [] then no_zkey else zexpire clk ttl z1)"
proof -
  let ?z1 = "zrem_upto (redis_seconds clk - ttl) z"
  have "calm clk ttl z ?z1" by (rule calm_prune) simp
  moreover have "zk_members ?z1 = [] \<Longrightarrow> calm clk ttl ?z1 no_zkey" by (rule calm_empty)
  moreover have "calm clk ttl ?z1 (zexpire clk ttl ?z1)" by (rule calm_expire)
  ultimately show ?thesis by (auto simp: Let_def intro: calm_trans)
qed

lemma slot_body_calm:
  assumes "op_timely c a clk"
    and "\<And>limit rid. a \<noteq> Acquire_op ix i limit rid" "\<And>rid. a \<noteq> Release_op ix i rid" "\<And>p. a \<noteq> Startup_op ix i p"
  shows "calm clk (sc_slot_ttl c) (sl_sets st (index_slot_key ix i)) (sl_sets (op_body c a clk st) (index_slot_key ix i))"
proof (cases a)
  case (Prune_op k l)
  with assms(1) show ?thesis by (auto intro: calm_same calm_prune)
next
  case (Live_refresh_op account user api lease)
  have "index_slot_key ix i \<notin> set [live_account_slot_key account, live_user_slot_key user, live_api_key_slot_key api]"
    by (cases ix) simp_all
  with Live_refresh_op show ?thesis by (simp add: sets_refresh_live calm_same)
next
  case (Live_acquire_op account user api am um lease replacing)
  then show ?thesis by (cases ix) (simp_all add: script_defs calm_same)
next
  case (Live_release_op account user api lease)
  then show ?thesis by (cases ix) (simp_all add: calm_same)
next
  case (Cleanup_op j)
  then show ?thesis using calm_cleanup [of clk "sc_slot_ttl c"]
    by (cases ix) (auto simp: cleanup_script_def calm_same)
next
  case (Acquire_op jx j limit rid)
  with assms(2) show ?thesis by (auto simp: script_defs calm_same)
next
  case (Count_op jx j)
  then show ?thesis by (auto simp: script_defs calm_same calm_prune)
qed (use assms in \<open>auto simp: script_defs calm_same\<close>)

lemma slot_calm:
  assumes "op_timely c a clk"
    and "\<And>limit rid. a \<noteq> Acquire_op ix i limit rid" "\<And>rid. a \<noteq> Release_op ix i rid" "\<And>p. a \<noteq> Startup_op ix i p"
  shows "calm clk (sc_slot_ttl c) (sl_sets st (index_slot_key ix i)) (sl_sets (op_effect c a clk st) (index_slot_key ix i))"
  unfolding op_effect_def using slot_body_calm [OF assms] calm_settle by (blast intro: calm_trans)

lemma live_body_calm:
  assumes "op_timely c a clk"
    and "\<And>ac us ap am um le rp. a \<noteq> Live_acquire_op ac us ap am um le rp"
    and "\<And>ac us ap le. a \<noteq> Live_refresh_op ac us ap le" "\<And>ac us ap le. a \<noteq> Live_release_op ac us ap le"
  shows "calm clk live_ttl (sl_sets st (index_live_key ix i)) (sl_sets (op_body c a clk st) (index_live_key ix i))"
proof (cases a)
  case (Prune_op k l)
  with assms(1) show ?thesis by (auto intro: calm_same calm_prune)
next
  case (Cleanup_op j)
  then show ?thesis by (cases ix) (auto simp: cleanup_script_def calm_same)
qed (use assms in \<open>auto simp: script_defs calm_same live_ttl_def intro: calm_prune\<close>)


text \<open>A refresh renews only leases that are there.\<close>

lemma check_leases_calm:
  "lim \<le> redis_seconds clk - ttl \<Longrightarrow> calm clk ttl (sl_sets st k) (sl_sets (snd (check_leases lim lease ks st)) k)"
proof (induction ks arbitrary: st)
  case (Cons k' ks)
  have "calm clk ttl (sl_sets st k) (sl_sets (on_set k' (zrem_upto lim) st) k)"
    using Cons.prems by (auto intro: calm_same calm_prune)
  from this and Cons.IH [OF Cons.prems, of "on_set k' (zrem_upto lim) st"]
  have "calm clk ttl (sl_sets st k) (sl_sets (snd (check_leases lim lease ks (on_set k' (zrem_upto lim) st))) k)"
    by (rule calm_trans)
  with \<open>calm clk ttl (sl_sets st k) (sl_sets (on_set k' (zrem_upto lim) st) k)\<close> show ?case
    by (simp add: Let_def)
qed (simp add: calm_same)

lemma check_leases_there:
  "distinct ks \<Longrightarrow> fst (check_leases lim lease ks st) \<Longrightarrow> k \<in> set ks \<Longrightarrow>
   zscore lease (sl_sets (snd (check_leases lim lease ks st)) k) \<noteq> None"
  by (induction ks arbitrary: st) (auto simp: Let_def sets_check_leases split: if_splits)

lemma sets_take_slots_in:
  "distinct ks \<Longrightarrow> k \<in> set ks \<Longrightarrow> sl_sets (fold (\<lambda>k. take_slot clk k ttl lease) ks st) k =
     zexpire clk ttl (zadd lease (redis_seconds clk) (sl_sets st k))"
  by (induction ks arbitrary: st) (auto simp: sets_take_slots)

definition steady :: "int \<Rightarrow> zkey \<Rightarrow> zkey \<Rightarrow> bool" where
  "steady clk z z' \<longleftrightarrow> (zok z \<longrightarrow> zok z' \<and> zmembers z' \<subseteq> zmembers z \<and> (zfresh clk live_ttl z \<longrightarrow> zfresh clk live_ttl z'))"

lemma calm_steady: "calm clk live_ttl z z' \<Longrightarrow> steady clk z z'"
  unfolding steady_def using calm_zok calm_members calm_fresh by blast

lemma steady_trans: "steady clk x y \<Longrightarrow> steady clk y z \<Longrightarrow> steady clk x z"
  unfolding steady_def by blast

lemma steady_zrem: "steady clk z (zrem m z)"
  by (auto simp: steady_def zset zfresh_zrem)

lemma steady_retake: "zscore m z \<noteq> None \<Longrightarrow> steady clk z (zexpire clk live_ttl (zadd m (redis_seconds clk) z))"
  using zmembers_score [of m z] by (auto simp: steady_def zmembers_ops zfresh_take)

lemma steady_refresh:
  assumes "distinct ks"
  shows "steady clk (sl_sets st k) (sl_sets (snd (refresh_live_script ks live_ttl lease clk st)) k)"
proof -
  obtain r st1 where c: "check_leases (redis_seconds clk - live_ttl) lease ks st = (r, st1)" by fastforce
  have calm: "steady clk (sl_sets st k) (sl_sets st1 k)"
    using calm_steady [OF check_leases_calm [of "redis_seconds clk - live_ttl" clk live_ttl st k lease ks]] c by simp
  show ?thesis
  proof (cases "r \<and> k \<in> set ks")
    case True
    then have "zscore lease (sl_sets st1 k) \<noteq> None"
      using check_leases_there [OF assms, of "redis_seconds clk - live_ttl" lease st k] c by simp
    with True calm c show ?thesis
      by (auto simp: refresh_live_script_def sets_take_slots_in [OF assms] intro: steady_trans steady_retake)
  next
    case False
    with calm c show ?thesis by (auto simp: refresh_live_script_def sets_take_slots split: bool.split)
  qed
qed

lemma live_body_steady:
  assumes "op_timely c a clk" and "\<And>ac us ap am um le rp. a \<noteq> Live_acquire_op ac us ap am um le rp"
  shows "steady clk (sl_sets st (index_live_key ix i)) (sl_sets (op_body c a clk st) (index_live_key ix i))"
proof (cases a)
  case (Live_refresh_op ac us ap le)
  then show ?thesis by (simp add: steady_refresh)
next
  case (Live_release_op ac us ap le)
  then show ?thesis by (auto simp: steady_zrem calm_steady calm_same)
qed (rule calm_steady; rule live_body_calm; (rule assms | simp))+

lemma live_steady:
  assumes "op_timely c a clk" and "\<And>ac us ap am um le rp. a \<noteq> Live_acquire_op ac us ap am um le rp"
  shows "steady clk (sl_sets st (index_live_key ix i)) (sl_sets (op_effect c a clk st) (index_live_key ix i))"
  unfolding op_effect_def
  using calm_steady [OF calm_settle] live_body_steady [OF assms] by (rule steady_trans)

section \<open>Capacity\<close>

definition gate_load :: "slot_index \<Rightarrow> int \<Rightarrow> slot_store \<Rightarrow> int" where
  "gate_load ix i st = int (card (zmembers (sl_sets st (index_slot_key ix i)))) + int (card (zmembers (sl_sets st (index_live_key ix i))))"

definition gates_ok :: "slot_store \<Rightarrow> bool" where
  "gates_ok st \<longleftrightarrow> (\<forall>ix i. zok (sl_sets st (index_slot_key ix i)) \<and> zok (sl_sets st (index_live_key ix i)))"

text \<open>The limits a caller presents. A live lease may replace the regular slots of its caller, and may
  then exceed the limit by one until these are given back; a limit that is not positive would admit any number of leases.\<close>

fun limits_within :: "(slot_index \<Rightarrow> int \<Rightarrow> int) \<Rightarrow> bool \<Rightarrow> slot_op \<Rightarrow> bool" where
  "limits_within lim swaps (Acquire_op ix i limit rid) \<longleftrightarrow> limit \<le> lim ix i"
| "limits_within lim swaps (Live_acquire_op account user api account_max user_max lease replacing) \<longleftrightarrow>
     0 < account_max \<and> account_max \<le> lim Account_index account \<and>
     0 < user_max \<and> user_max \<le> lim User_index user \<and> (replacing \<longrightarrow> swaps)"
| "limits_within lim swaps _ \<longleftrightarrow> True"

definition gate_bound :: "(slot_index \<Rightarrow> int \<Rightarrow> int) \<Rightarrow> bool \<Rightarrow> slot_index \<Rightarrow> int \<Rightarrow> int" where
  "gate_bound lim swaps ix i = lim ix i + (if swaps then 1 else 0)"

lemma zcard_card: "zok (sl_sets st k) \<Longrightarrow> zcard k st = int (card (zmembers (sl_sets st k)))"
  by (simp add: zcard_def zcard_members)

lemma card_take: "card (zmembers (zexpire clk ttl (zadd m s z))) \<le> Suc (card (zmembers z))"
  by (simp add: zset card_insert_if)

lemma card_take_again: "zscore m z \<noteq> None \<Longrightarrow> card (zmembers (zexpire clk ttl (zadd m s z))) = card (zmembers z)"
  using zmembers_score [of m z] by (auto simp: zset insert_absorb)

lemma card_rem_upto: "card (zmembers (zrem_upto lim z)) \<le> card (zmembers z)"
  by (rule card_mono) (simp_all add: zmembers_rem_upto)

lemma settle_gates_ok: "gates_ok st \<Longrightarrow> gates_ok (redis_settle clk st)"
  by (auto simp: gates_ok_def redis_settle_def)

lemma card_gone: "card (zmembers (if b then no_zkey else z)) \<le> card (zmembers z)"
  by (simp add: zset)

lemma settle_load: "gate_load ix i (redis_settle clk st) \<le> gate_load ix i st"
  unfolding gate_load_def redis_settle_def by (simp add: card_gone add_mono)

lemma sub_card: "zmembers z' \<subseteq> zmembers z \<Longrightarrow> card (zmembers z') \<le> card (zmembers z)"
  by (simp add: card_mono)

text \<open>Only the two scripts that acquire add to a gate.\<close>

lemma filter_members: "zmembers (z\<lparr>zk_members := gm_filter P (zk_members z)\<rparr>) \<subseteq> zmembers z"
  by (simp add: zmembers_def gm_keys_filter)

lemma startup_slots:
  assumes "zok (sl_sets st k)"
  shows "zok (sl_sets (snd (startup_script k p ttl clk st)) k) \<and>
    zmembers (sl_sets (snd (startup_script k p ttl clk st)) k) \<subseteq> zmembers (sl_sets st k)"
proof -
  let ?z1 = "(sl_sets st k)\<lparr>zk_members := gm_filter (\<lambda>m s. prefix p m) (zk_members (sl_sets st k))\<rparr>"
  have z1: "zok ?z1" using assms by (simp add: zok_def)
  have "sl_sets (snd (startup_script k p ttl clk st)) k = (if gm_len (zk_members ?z1) = 0 then no_zkey else zexpire clk ttl ?z1)"
    by (simp add: startup_script_def Let_def)
  with z1 filter_members [where z = "sl_sets st k"] show ?thesis by (simp add: zmembers_ops)
qed

lemma slot_shrinks:
  assumes "zok (sl_sets st (index_slot_key ix i))" "\<And>limit rid. a \<noteq> Acquire_op ix i limit rid"
  shows "zok (sl_sets (op_body c a clk st) (index_slot_key ix i)) \<and>
    zmembers (sl_sets (op_body c a clk st) (index_slot_key ix i)) \<subseteq> zmembers (sl_sets st (index_slot_key ix i))"
proof -
  consider (prune) k l where "a = Prune_op k l" | (release) rid where "a = Release_op ix i rid"
    | (startup) p where "a = Startup_op ix i p"
    | (calm) "\<And>k l. a \<noteq> Prune_op k l" "\<And>rid. a \<noteq> Release_op ix i rid" "\<And>p. a \<noteq> Startup_op ix i p"
    by blast
  then show ?thesis
  proof cases
    case prune
    with assms(1) show ?thesis by (cases "index_slot_key ix i = k") (simp_all add: zmembers_rem_upto)
  next
    case release
    with assms(1) show ?thesis by (auto simp: zmembers_ops)
  next
    case startup
    with assms(1) show ?thesis by (simp add: startup_slots)
  next
    case calm
    then have "op_timely c a clk" by (cases a) auto
    with calm assms(2)
    have "calm clk (sc_slot_ttl c) (sl_sets st (index_slot_key ix i)) (sl_sets (op_body c a clk st) (index_slot_key ix i))"
      by (intro slot_body_calm) auto
    with assms(1) show ?thesis using calm_zok calm_members by blast
  qed
qed


lemma live_shrinks:
  assumes "zok (sl_sets st (index_live_key ix i))" "\<And>ac us ap am um le rp. a \<noteq> Live_acquire_op ac us ap am um le rp"
  shows "zok (sl_sets (op_body c a clk st) (index_live_key ix i)) \<and>
    zmembers (sl_sets (op_body c a clk st) (index_live_key ix i)) \<subseteq> zmembers (sl_sets st (index_live_key ix i))"
proof (cases "\<exists>k l. a = Prune_op k l")
  case True
  then obtain k l where "a = Prune_op k l" by blast
  with assms(1) show ?thesis by (cases "index_live_key ix i = k") (simp_all add: zmembers_rem_upto)
next
  case False
  then have "op_timely c a clk" by (cases a) auto
  from live_body_steady [OF this assms(2), of st ix i] assms(1) show ?thesis by (simp add: steady_def)
qed

lemma acquire_load:
  fixes c ix i limit rid clk st
  defines "st' \<equiv> op_body c (Acquire_op ix i limit rid) clk st"
  assumes "gates_ok st"
  shows "gate_load ix i st' \<le> max limit (gate_load ix i st)"
proof -
  let ?k = "index_slot_key ix i" and ?l = "index_live_key ix i" and ?now = "redis_seconds clk"
  let ?z = "zrem_upto (?now - sc_slot_ttl c) (sl_sets st ?k)" and ?y = "zrem_upto (?now - 60) (sl_sets st ?l)"
  let ?st1 = "on_set ?l (zrem_upto (?now - 60)) (on_set ?k (zrem_upto (?now - sc_slot_ttl c)) st)"
  have pruned: "gate_load ix i ?st1 \<le> gate_load ix i st"
    by (simp add: gate_load_def add_mono card_rem_upto)
  have ok: "zok ?z" "zok ?y" using assms(2) by (simp_all add: gates_ok_def)
  then have count: "zcard ?k ?st1 + zcard ?l ?st1 = gate_load ix i ?st1"
    by (simp add: zcard_card gate_load_def)
  consider "zscore rid ?z \<noteq> None" | "zscore rid ?z = None" "gate_load ix i ?st1 < limit"
    | "zscore rid ?z = None" "\<not> gate_load ix i ?st1 < limit" by blast
  then show ?thesis
  proof cases
    case 1
    then have "gate_load ix i st' = gate_load ix i ?st1"
      by (simp add: st'_def acquire_script_def Let_def gate_load_def card_take_again)
    with pruned show ?thesis by simp
  next
    case 2
    then have "gate_load ix i st' \<le> gate_load ix i ?st1 + 1"
      using card_take [of clk "sc_slot_ttl c" rid ?now ?z] count
      by (simp add: st'_def acquire_script_def Let_def gate_load_def)
    with 2 show ?thesis by simp
  next
    case 3
    then have "gate_load ix i st' = gate_load ix i ?st1"
      using count by (simp add: st'_def acquire_script_def Let_def)
    with pruned show ?thesis by simp
  qed
qed


lemma acquire_elsewhere:
  assumes "a = Acquire_op ix i limit rid" "(ix, i) \<noteq> (jx, j)"
  shows "gate_load jx j (op_body c a clk st) = gate_load jx j st"
  using assms by (auto simp: acquire_script_def Let_def gate_load_def)

lemma gates_ok_on_set: "gates_ok st \<Longrightarrow> (\<And>z. zok z \<Longrightarrow> zok (f z)) \<Longrightarrow> gates_ok (on_set k f st)"
  unfolding gates_ok_def sets_on_set by metis

lemma gates_ok_prune: "gates_ok st \<Longrightarrow> gates_ok (on_set k (zrem_upto lim) st)"
  by (rule gates_ok_on_set) simp_all

lemma gates_ok_take: "gates_ok st \<Longrightarrow> gates_ok (take_slot clk k ttl rid st)"
  unfolding take_slot_def by (rule gates_ok_on_set) simp_all

lemma acquire_ok: "gates_ok st \<Longrightarrow> gates_ok (op_body c (Acquire_op ix i limit rid) clk st)"
  by (simp add: acquire_script_def Let_def gates_ok_prune gates_ok_take)

lemma live_acquire_ok: "gates_ok st \<Longrightarrow> gates_ok (op_body c (Live_acquire_op ac us ap am um le rp) clk st)"
  by (simp add: acquire_live_script_def Let_def gates_ok_prune gates_ok_take)

text \<open>The gates a live lease passes.\<close>

fun live_limit :: "int \<Rightarrow> int \<Rightarrow> int \<Rightarrow> int \<Rightarrow> slot_index \<Rightarrow> int \<Rightarrow> int option" where
  "live_limit account user account_max user_max Account_index i = (if i = account then Some account_max else None)"
| "live_limit account user account_max user_max User_index i = (if i = user then Some user_max else None)"

lemma live_acquire_load:
  fixes c ac us ap am um le rp clk st ix i
  defines "st' \<equiv> op_body c (Live_acquire_op ac us ap am um le rp) clk st"
  assumes ok: "gates_ok st" and pos: "0 < am" "0 < um"
  shows "gate_load ix i st' \<le> gate_load ix i st \<or>
    (\<exists>m. live_limit ac us am um ix i = Some m \<and> gate_load ix i st' \<le> m + (if rp then 1 else 0))"
proof -
  let ?lim = "redis_seconds clk - live_ttl"
  let ?al = "live_account_slot_key ac" and ?ul = "live_user_slot_key us" and ?kl = "live_api_key_slot_key ap"
  let ?st1 = "on_set ?kl (zrem_upto ?lim) (on_set ?ul (zrem_upto ?lim) (on_set ?al (zrem_upto ?lim) st))"
  let ?takes = "take_slot clk ?kl live_ttl le (take_slot clk ?ul live_ttl le (take_slot clk ?al live_ttl le ?st1))"
  let ?all = "if rp then 1 else 0 :: int"
  have oka: "zok (sl_sets st (account_slot_key j))" "zok (sl_sets st (live_account_slot_key j))"
    "zok (sl_sets st (user_slot_key j))" "zok (sl_sets st (live_user_slot_key j))" for j
    using ok unfolding gates_ok_def by (metis index_slot_key.simps index_live_key.simps)+
  have pruned: "gate_load ix i ?st1 \<le> gate_load ix i st"
    by (cases ix) (simp_all add: gate_load_def card_rem_upto)
  have account: "zcard (account_slot_key ac) ?st1 + zcard ?al ?st1 = gate_load Account_index ac ?st1"
    using oka by (simp add: zcard_card gate_load_def)
  have user: "zcard (user_slot_key us) ?st1 + zcard ?ul ?st1 = gate_load User_index us ?st1"
    using oka by (simp add: zcard_card gate_load_def)
  have "st' = ?st1 \<or> (st' = ?takes \<and> gate_load Account_index ac ?st1 < am + ?all \<and> gate_load User_index us ?st1 < um + ?all)"
    using pos by (auto simp: st'_def acquire_live_script_def Let_def account user)
  moreover have "gate_load ix i ?takes \<le> gate_load ix i ?st1 + (if live_limit ac us am um ix i = None then 0 else 1)"
    using card_take [of clk live_ttl le "redis_seconds clk" "sl_sets ?st1 (index_live_key ix i)"]
    by (cases ix) (auto simp: gate_load_def)
  ultimately show ?thesis
    using pruned by (cases ix) (auto split: if_splits)
qed

definition gates_within :: "(slot_index \<Rightarrow> int \<Rightarrow> int) \<Rightarrow> bool \<Rightarrow> slot_store \<Rightarrow> bool" where
  "gates_within lim swaps st \<longleftrightarrow> gates_ok st \<and> (\<forall>ix i. gate_load ix i st \<le> gate_bound lim swaps ix i)"

lemma gates_within_body:
  assumes "gates_within lim swaps st" "limits_within lim swaps a"
  shows "gates_within lim swaps (op_body c a clk st)"
proof -
  have ok: "gates_ok st" and le: "gate_load ix i st \<le> gate_bound lim swaps ix i" for ix i
    using assms(1) by (auto simp: gates_within_def)
  consider (acq) ix i limit rid where "a = Acquire_op ix i limit rid"
    | (live) ac us ap am um lease rp where "a = Live_acquire_op ac us ap am um lease rp"
    | (other) "\<And>ix i limit rid. a \<noteq> Acquire_op ix i limit rid" "\<And>ac us ap am um le rp. a \<noteq> Live_acquire_op ac us ap am um le rp"
    by (cases a) auto
  then show ?thesis
  proof cases
    case acq
    have "gate_load jx j (op_body c a clk st) \<le> gate_bound lim swaps jx j" for jx j
    proof (cases "(ix, i) = (jx, j)")
      case True
      with acquire_load [OF ok, where c = c and ix = ix and i = i and limit = limit and rid = rid and clk = clk] le [of ix i] acq assms(2) show ?thesis
        by (auto simp: gate_bound_def)
    next
      case False
      with acquire_elsewhere [OF acq False] le show ?thesis by simp
    qed
    with acq acquire_ok [OF ok] show ?thesis by (simp add: gates_within_def)
  next
    case live
    have "gate_load jx j (op_body c a clk st) \<le> gate_bound lim swaps jx j" for jx j
      using live_acquire_load [OF ok, where ix = jx and i = j and c = c and ac = ac and us = us and ap = ap and am = am and um = um
        and le = lease and rp = rp and clk = clk] le [of jx j] live assms(2)
      by (cases jx) (auto simp: gate_bound_def split: if_splits)
    with live live_acquire_ok [OF ok] show ?thesis by (simp add: gates_within_def)
  next
    case other
    have s: "zok (sl_sets (op_body c a clk st) (index_slot_key ix i)) \<and>
        zmembers (sl_sets (op_body c a clk st) (index_slot_key ix i)) \<subseteq> zmembers (sl_sets st (index_slot_key ix i))" for ix i
      using ok other by (intro slot_shrinks) (auto simp: gates_ok_def)
    have l: "zok (sl_sets (op_body c a clk st) (index_live_key ix i)) \<and>
        zmembers (sl_sets (op_body c a clk st) (index_live_key ix i)) \<subseteq> zmembers (sl_sets st (index_live_key ix i))" for ix i
      using ok other by (intro live_shrinks) (auto simp: gates_ok_def)
    have "gate_load ix i (op_body c a clk st) \<le> gate_load ix i st" for ix i
      unfolding gate_load_def using s [of ix i] l [of ix i] by (simp add: sub_card add_mono)
    with s l le show ?thesis unfolding gates_within_def gates_ok_def by (meson order_trans)
  qed
qed

lemma gates_within_effect:
  "gates_within lim swaps st \<Longrightarrow> limits_within lim swaps a \<Longrightarrow> gates_within lim swaps (op_effect c a clk st)"
  unfolding op_effect_def
  by (rule gates_within_body) (auto simp: gates_within_def settle_gates_ok intro: order_trans [OF settle_load])

end
