(* ===== verification/ConcurrencyRuns.thy ===== *)
theory ConcurrencyRuns
  imports ConcurrencyGates
begin

text \<open>
  What the concurrency cache guarantees. The locale \<open>store_contract\<close> says what an invariant of the
  store asks of single calls; in it every method is shown to keep the invariant, whatever the network
  and the clocks do. Its interpretations bound the gates and the counters of waiting requests.
\<close>

section \<open>Invariants of the store\<close>

definition keeps :: "(slot_store \<Rightarrow> bool) \<Rightarrow> (slot_store \<Rightarrow> 'r \<times> slot_store) \<Rightarrow> bool" where
  "keeps I f \<longleftrightarrow> (\<forall>st. I st \<longrightarrow> I (snd (f st)))"

named_theorems keeps_rules \<open>composition of calls that keep an invariant\<close>

lemma keepsI: "(\<And>st. I st \<Longrightarrow> I (snd (f st))) \<Longrightarrow> keeps I f"
  by (simp add: keeps_def)

lemma keepsD: "keeps I f \<Longrightarrow> I st \<Longrightarrow> I (snd (f st))"
  by (simp add: keeps_def)

text \<open>What is done with the answer of a call.\<close>

lemma after_call:
  assumes "keeps I f" "I st" "\<And>r st1. I st1 \<Longrightarrow> I (snd (g r st1))"
  shows "I (snd (case f st of (r, st1) \<Rightarrow> g r st1))"
  using assms keepsD [of I f st] by (auto split: prod.split)

lemma after_call_store:
  assumes "keeps I f" "I st" "\<And>r st1. I st1 \<Longrightarrow> I (g r st1)"
  shows "I (case f st of (r, st1) \<Rightarrow> g r st1)"
  using assms keepsD [of I f st] by (auto split: prod.split)

fun plain_op :: "slot_op \<Rightarrow> bool" where
  "plain_op (Acquire_op ix i limit rid) = False"
| "plain_op (Live_acquire_op ac us ap am um lease rp) = False"
| "plain_op (Wait_up_op ix i max_wait) = False"
| "plain_op _ = True"

text \<open>The methods of the cache, and what each does to the store when its calls meet the fates \<open>fs\<close>,
  \<open>gs\<close> and \<open>hs\<close>.\<close>

datatype slot_method =
    M_acquire slot_index int int string
  | M_release slot_index int string
  | M_concurrency slot_index int
  | M_account_batch "int list"
  | M_api_key_batch "int list"
  | M_track int string
  | M_untrack int string
  | M_ingress_acquire int int string
  | M_ingress_refresh int string
  | M_ingress_release int string
  | M_live_acquire int int int int int string bool
  | M_live_refresh int int int string
  | M_live_release int int int string
  | M_wait_up slot_index int int
  | M_wait_down slot_index int
  | M_waiting int
  | M_loads slot_index "(int \<times> int) list"
  | M_cleanup_account int
  | M_cleanup
  | M_startup string

type_synonym fates = "(slot_index \<Rightarrow> nat \<Rightarrow> fate) \<times> (slot_index \<Rightarrow> nat \<Rightarrow> fate) \<times> (slot_index \<Rightarrow> nat \<Rightarrow> fate)"

fun method_store :: "slot_cache \<Rightarrow> fates \<Rightarrow> slot_method \<Rightarrow> slot_store \<Rightarrow> slot_store" where
  "method_store c (fs, gs, hs) (M_acquire ix i limit rid) st = snd (acquire_slot c (fs ix) ix i limit rid st)"
| "method_store c (fs, gs, hs) (M_release ix i rid) st = snd (release_slot c (fs ix) ix i rid st)"
| "method_store c (fs, gs, hs) (M_concurrency ix i) st = snd (cache_get_concurrency c (fs ix 0) ix i st)"
| "method_store c (fs, gs, hs) (M_account_batch js) st = snd (cache_account_concurrency_batch c (fs Account_index) js st)"
| "method_store c (fs, gs, hs) (M_api_key_batch js) st = snd (cache_api_key_concurrency_batch c (fs Account_index) js st)"
| "method_store c (fs, gs, hs) (M_track i rid) st = snd (cache_track_api_key_slot c (fs Account_index 0) i rid st)"
| "method_store c (fs, gs, hs) (M_untrack i rid) st = snd (cache_release_api_key_slot (fs Account_index 0) i rid st)"
| "method_store c (fs, gs, hs) (M_ingress_acquire i limit lease) st =
     snd (cache_acquire_ingress_lease (fs Account_index 0) i limit lease st)"
| "method_store c (fs, gs, hs) (M_ingress_refresh i lease) st = snd (cache_refresh_ingress_lease (fs Account_index 0) i lease st)"
| "method_store c (fs, gs, hs) (M_ingress_release i lease) st = snd (cache_release_ingress_lease (fs Account_index 0) i lease st)"
| "method_store c (fs, gs, hs) (M_live_acquire account account_max user user_max api lease replacing) st =
     snd (cache_acquire_live_lease (fs Account_index 0) account account_max user user_max api lease replacing st)"
| "method_store c (fs, gs, hs) (M_live_refresh account user api lease) st =
     snd (cache_refresh_live_lease (fs Account_index 0) account user api lease st)"
| "method_store c (fs, gs, hs) (M_live_release account user api lease) st =
     snd (cache_release_live_lease (fs Account_index 0) account user api lease st)"
| "method_store c (fs, gs, hs) (M_wait_up ix i max_wait) st = snd (cache_increment_wait c (fs ix) ix i max_wait st)"
| "method_store c (fs, gs, hs) (M_wait_down ix i) st = snd (cache_decrement_wait c (fs ix) ix i st)"
| "method_store c (fs, gs, hs) (M_waiting i) st = snd (cache_account_waiting (fs Account_index 0) i st)"
| "method_store c (fs, gs, hs) (M_loads ix xs) st = snd (cache_loads_batch c (fs ix) ix xs st)"
| "method_store c (fs, gs, hs) (M_cleanup_account i) st = snd (cache_cleanup_account_slots c (fs Account_index) i st)"
| "method_store c (fs, gs, hs) M_cleanup st = snd (cache_cleanup_slot_keys c fs gs hs st)"
| "method_store c (fs, gs, hs) (M_startup active) st = snd (cache_cleanup_stale c (fs Account_index) gs hs active st)"

text \<open>The calls of a method that present a limit.\<close>

fun method_ok :: "(slot_op \<Rightarrow> bool) \<Rightarrow> slot_method \<Rightarrow> bool" where
  "method_ok ok (M_acquire ix i limit rid) \<longleftrightarrow> ok (Acquire_op ix i limit rid)"
| "method_ok ok (M_live_acquire account account_max user user_max api lease replacing) \<longleftrightarrow>
     ok (Live_acquire_op account user api account_max user_max lease replacing)"
| "method_ok ok (M_wait_up ix i max_wait) \<longleftrightarrow> ok (Wait_up_op ix i max_wait)"
| "method_ok ok _ \<longleftrightarrow> True"

locale store_contract =
  fixes c :: slot_cache and ok :: "slot_op \<Rightarrow> bool" and I :: "slot_store \<Rightarrow> bool"
  assumes settle: "I st \<Longrightarrow> I (redis_settle clk st)"
    and body: "ok a \<Longrightarrow> I st \<Longrightarrow> I (op_body c a clk st)"
    and plain: "plain_op a \<Longrightarrow> ok a"
begin

lemma script:
  assumes "\<And>clk st. I st \<Longrightarrow> I (snd (s clk st))"
  shows "keeps I (redis_call f s)"
proof (rule keepsI)
  fix st
  assume "I st"
  then have "I (snd (s clk (redis_settle clk st)))" for clk by (intro assms settle)
  then have "I st'" if "s clk (redis_settle clk st) = (r, st')" for clk r st'
    using that by (metis snd_conv)
  with \<open>I st\<close> show "I (snd (redis_call f s st))"
    by (auto simp: redis_call_def split: prod.split)
qed

lemma one_op: "ok a \<Longrightarrow> (\<And>clk st. snd (s clk st) = op_body c a clk st) \<Longrightarrow> keeps I (redis_call f s)"
  by (rule script) (simp add: body)

lemma prune: "I st \<Longrightarrow> I (on_set k (zrem_upto l) st)"
  using body [of "Prune_op k l" st] plain by simp

lemma reading: "keeps I (read_time f)"
  unfolding read_time_def by (rule script) simp

lemma touching: "I st \<Longrightarrow> I (touch_active_index f ix i t st)"
  unfolding touch_active_index_def
  by (auto intro!: keepsD [OF one_op] plain [of "Index_op ix (zadd (itoa i) t)"])

lemma load: "I st \<Longrightarrow> I (snd (active_load c ix now i clk st))"
  by (simp add: active_load_def Let_def prune)

lemma index_call: "keeps I (redis_call f (\<lambda>clk s. ((), on_set (index_key ix) g s)))"
  by (rule one_op [of "Index_op ix g"]) (simp_all add: plain)

lemma reading_res: "read_time f st = (r, st1) \<Longrightarrow> I st \<Longrightarrow> I st1"
  using keepsD [OF reading, of st f] by simp

lemma load_res: "redis_call f (active_load c ix now i) st = (r, st1) \<Longrightarrow> I st \<Longrightarrow> I st1"
  using keepsD [OF script [of "active_load c ix now i" f], of st] load by simp

lemma refreshing: "I st \<Longrightarrow> I (refresh_active_index c fs ix i st)"
  unfolding refresh_active_index_def
  by (auto split: option.split prod.split intro!: keepsD [OF index_call] touching dest: reading_res load_res)

lemma acquiring: "ok (Acquire_op ix i limit rid) \<Longrightarrow> keeps I (acquire_slot c fs ix i limit rid)"
  unfolding acquire_slot_def
  by (rule keepsI, rule after_call [OF one_op [of "Acquire_op ix i limit rid"]])
     (auto split: option.split prod.split intro: touching)

lemma releasing: "keeps I (release_slot c fs ix i rid)"
  unfolding release_slot_def
  by (rule keepsI, rule after_call [OF one_op [of "Release_op ix i rid"]])
     (auto split: option.split prod.split intro: refreshing plain)

lemma waiting_up: "ok (Wait_up_op ix i max_wait) \<Longrightarrow> keeps I (cache_increment_wait c fs ix i max_wait)"
  unfolding cache_increment_wait_def
  by (rule keepsI, rule after_call [OF one_op [of "Wait_up_op ix i max_wait"]])
     (auto split: option.split prod.split intro: touching)

lemma waiting_down: "keeps I (cache_decrement_wait c fs ix i)"
  unfolding cache_decrement_wait_def
  by (rule keepsI, rule after_call [OF one_op [of "Wait_down_op ix i"]])
     (auto split: option.split prod.split intro: refreshing plain)

text \<open>Pipelines.\<close>

lemma call_res: "redis_call f s st = (r, st1) \<Longrightarrow> I st \<Longrightarrow> (\<And>clk st. I st \<Longrightarrow> I (snd (s clk st))) \<Longrightarrow> I st1"
  using keepsD [OF script [of s f], of st] by simp

lemma prune_pair_res: "prune_pair c key live now st = (n, st1) \<Longrightarrow> I st \<Longrightarrow> I st1"
  by (auto simp: prune_pair_def Let_def intro!: prune)

lemma active_load_res: "active_load c ix now i clk st = (r, st1) \<Longrightarrow> I st \<Longrightarrow> I st1"
  using load [of st ix now i clk] by simp

lemma counting: "count_keys c key live now js st = (m, st1) \<Longrightarrow> I st \<Longrightarrow> I st1"
  by (induction js arbitrary: st m st1) (auto split: prod.splits dest: prune_pair_res)

lemma reading_loads: "read_loads c ix now xs st = (m, st1) \<Longrightarrow> I st \<Longrightarrow> I st1"
  by (induction xs arbitrary: st m st1) (auto simp: Let_def split: prod.splits, meson prune_pair_res)

lemma reading_chunk: "read_chunk c ix now ms st = (ls, st1) \<Longrightarrow> I st \<Longrightarrow> I st1"
  by (induction ms arbitrary: st ls st1) (auto simp: Let_def split: prod.splits option.splits dest: active_load_res)

lemma pipeline: "(\<And>st r st1. p st = (r, st1) \<Longrightarrow> I st \<Longrightarrow> I st1) \<Longrightarrow> keeps I (redis_call f (\<lambda>clk. p))"
  by (rule script) (metis prod.collapse)

lemma count_batching: "keeps I (count_batch c fs key live js)"
  unfolding count_batch_def
  by (rule keepsI) (auto split: option.split prod.split intro!: keepsD [OF pipeline [OF counting]] dest: reading_res)

lemma load_batching: "keeps I (cache_loads_batch c fs ix xs)"
  unfolding cache_loads_batch_def
  by (rule keepsI) (auto split: option.split prod.split intro!: keepsD [OF pipeline [OF reading_loads]] dest: reading_res)

lemma chunk_res: "redis_call f (\<lambda>clk. read_chunk c ix now ms) st = (r, st1) \<Longrightarrow> I st \<Longrightarrow> I st1"
  using keepsD [OF pipeline [where p = "read_chunk c ix now ms" and f = f], of st] reading_chunk by simp

lemma reading_index: "read_index_loads c fs ix now ms st = (r, st1) \<Longrightarrow> I st \<Longrightarrow> I st1"
proof (induction ms arbitrary: fs st r st1 rule: length_induct)
  case (1 ms)
  show ?case
  proof (cases ms)
    case (Cons m ms')
    have "length (drop 499 ms') < length ms" using Cons by simp
    with 1(1) have IH: "I st2'" if "read_index_loads c gs ix now (drop 499 ms') st2 = (q, st2')" "I st2" for gs q st2 st2'
      using that by blast
    from 1(2,3) show ?thesis
      by (auto simp: Cons split: prod.splits option.splits dest: chunk_res IH)
  qed (use 1 in simp)
qed

lemma writing_index: "I st \<Longrightarrow> I (write_index fs ix refreshed stale st)"
  by (auto simp: write_index_def Let_def intro!: keepsD [OF index_call])

lemma expired_res: "redis_call f (\<lambda>clk s. (g s, s)) st = (r, st1) \<Longrightarrow> I st \<Longrightarrow> I st1"
  by (erule call_res) simp_all

lemma reconciling: "reconcile_index c fs gs hs ix st = (r, st1) \<Longrightarrow> I st \<Longrightarrow> I st1"
  unfolding reconcile_index_def
  by (auto simp: Let_def split: prod.splits option.splits intro!: writing_index dest: reading_res expired_res reading_index)

lemma cleaning: "keeps I (cache_cleanup_slot_keys c fs gs hs)"
  unfolding cache_cleanup_slot_keys_def
  by (rule keepsI) (auto split: option.split prod.split intro: reconciling reconciling [OF prod.collapse [symmetric]])

lemma cleaning_account: "keeps I (cache_cleanup_account_slots c fs i)"
  unfolding cache_cleanup_account_slots_def
  by (rule keepsI, rule after_call [OF one_op [of "Cleanup_op i"]])
     (auto split: option.split prod.split intro: refreshing plain)

text \<open>The start of a process.\<close>

lemma startup_res: "redis_call f (startup_script (index_slot_key ix i) active (sc_slot_ttl c)) st = (r, st1) \<Longrightarrow> I st \<Longrightarrow> I st1"
  using keepsD [OF one_op [of "Startup_op ix i active" "startup_script (index_slot_key ix i) active (sc_slot_ttl c)" f], of st]
  by (simp add: plain)

lemma wait_delete_res:
  "redis_call f (\<lambda>clk s. ((), s\<lparr>sl_waits := (sl_waits s)(index_wait_key ix i := None)\<rparr>)) st = (r, st1) \<Longrightarrow> I st \<Longrightarrow> I st1"
  using keepsD [OF one_op [of "Wait_delete_op ix i" "\<lambda>clk s. ((), s\<lparr>sl_waits := (sl_waits s)(index_wait_key ix i := None)\<rparr>)" f], of st]
  by (simp add: plain)

lemma starting_members: "startup_members c fs ix active now ms st = (r, st1) \<Longrightarrow> I st \<Longrightarrow> I st1"
proof (induction ms arbitrary: fs st r st1)
  case (Cons m ms)
  from Cons.prems show ?case
    by (auto split: prod.splits option.splits dest: startup_res wait_delete_res Cons.IH)
qed simp

lemma starting_index: "startup_index c fs gs ix active now st = (r, st1) \<Longrightarrow> I st \<Longrightarrow> I st1"
  unfolding startup_index_def
  by (auto split: prod.splits option.splits intro!: writing_index dest: starting_members expired_res)

lemma starting_index_snd: "I st \<Longrightarrow> I (snd (startup_index c fs gs ix active now st))"
  by (metis prod.collapse starting_index)

lemma wait_sweep_res:
  "redis_call f (\<lambda>clk s. ((), s\<lparr>sl_waits := (\<lambda>k. if prefix ''wait:account:'' k \<or> prefix ''concurrency:wait:'' k then None else sl_waits s k)\<rparr>)) st
     = (r, st1) \<Longrightarrow> I st \<Longrightarrow> I st1"
  by (erule call_res) (use body [of Wait_sweep_op] plain in simp_all)

lemma mark_res: "redis_call f (\<lambda>clk s. ((), s\<lparr>sl_swept := True\<rparr>)) st = (r, st1) \<Longrightarrow> I st \<Longrightarrow> I st1"
  by (erule call_res) (use body [of Sweep_mark_op] plain in simp_all)

lemma sweeping: "sweep_legacy_waits fs st = (r, st1) \<Longrightarrow> I st \<Longrightarrow> I st1"
  unfolding sweep_legacy_waits_def
  by (auto split: prod.splits option.splits bool.splits dest: expired_res wait_sweep_res mark_res)

lemma starting: "keeps I (cache_cleanup_stale c fs gs hs active)"
  unfolding cache_cleanup_stale_def
  by (rule keepsI) (auto split: option.split prod.split intro: starting_index_snd dest: sweeping reading_res starting_index)

text \<open>The calls of one script.\<close>

lemma counting_one: "keeps I (cache_get_concurrency c f ix i)"
  unfolding cache_get_concurrency_def by (rule one_op [of "Count_op ix i"]) (simp_all add: plain)

lemma tracking: "keeps I (cache_track_api_key_slot c f i rid)"
  unfolding cache_track_api_key_slot_def by (rule one_op [of "Track_op i rid"]) (simp_all add: plain)

lemma untracking: "keeps I (cache_release_api_key_slot f i rid)"
  unfolding cache_release_api_key_slot_def by (rule one_op [of "Untrack_op i rid"]) (simp_all add: plain)

lemma ingress_acquiring: "keeps I (cache_acquire_ingress_lease f i limit lease)"
  unfolding cache_acquire_ingress_lease_def
  by (rule keepsI) (auto intro!: keepsD [OF one_op [of "Ingress_acquire_op i limit lease"]] plain)

lemma ingress_refreshing: "keeps I (cache_refresh_ingress_lease f i lease)"
  unfolding cache_refresh_ingress_lease_def
  by (rule keepsI) (auto intro!: keepsD [OF one_op [of "Ingress_refresh_op i lease"]] plain)

lemma ingress_releasing: "keeps I (cache_release_ingress_lease f i lease)"
  unfolding cache_release_ingress_lease_def
  by (rule keepsI) (auto intro!: keepsD [OF one_op [of "Ingress_release_op i lease"]] plain)

lemma live_acquiring:
  "ok (Live_acquire_op ac us ap am um lease rp) \<Longrightarrow> keeps I (cache_acquire_live_lease f ac am us um ap lease rp)"
  unfolding cache_acquire_live_lease_def
  by (rule keepsI) (auto intro!: keepsD [OF one_op [of "Live_acquire_op ac us ap am um lease rp"]])

lemma live_refreshing: "keeps I (cache_refresh_live_lease f ac us ap lease)"
  unfolding cache_refresh_live_lease_def
  by (rule keepsI) (auto intro!: keepsD [OF one_op [of "Live_refresh_op ac us ap lease"]] plain)

lemma live_releasing: "keeps I (cache_release_live_lease f ac us ap lease)"
  unfolding cache_release_live_lease_def
  by (rule keepsI) (auto intro!: keepsD [OF one_op [of "Live_release_op ac us ap lease"]] plain)

lemma waiting_count: "keeps I (cache_account_waiting f i)"
  unfolding cache_account_waiting_def by (rule one_op [of Read_op]) (simp_all add: plain)

lemma methods:
  assumes "method_ok ok m" "I st"
  shows "I (method_store c F m st)"
proof (cases F)
  case (fields fs gs hs)
  with assms show ?thesis
    by (cases m)
       (auto simp: cache_account_concurrency_batch_def cache_api_key_concurrency_batch_def
         intro: keepsD [OF acquiring] keepsD [OF releasing] keepsD [OF counting_one] keepsD [OF count_batching]
           keepsD [OF tracking] keepsD [OF untracking] keepsD [OF ingress_acquiring] keepsD [OF ingress_refreshing]
           keepsD [OF ingress_releasing] keepsD [OF live_acquiring] keepsD [OF live_refreshing] keepsD [OF live_releasing]
           keepsD [OF waiting_up] keepsD [OF waiting_down] keepsD [OF waiting_count] keepsD [OF load_batching]
           keepsD [OF cleaning_account] keepsD [OF cleaning] keepsD [OF starting])
qed

lemma method_runs:
  "list_all (\<lambda>(F, m). method_ok ok m) ms \<Longrightarrow> I st \<Longrightarrow> I (fold (\<lambda>(F, m). method_store c F m) ms st)"
  by (induction ms arbitrary: st) (auto simp: methods)

end

section \<open>Gates and counters\<close>

lemma limits_plain: "plain_op a \<Longrightarrow> limits_within lim swaps a"
  by (cases a) simp_all

interpretation gates: store_contract c "limits_within lim swaps" "gates_within lim swaps" for c lim swaps
proof
  show "gates_within lim swaps st \<Longrightarrow> gates_within lim swaps (redis_settle clk st)" for st clk
    by (auto simp: gates_within_def settle_gates_ok intro: order_trans [OF settle_load])
qed (simp_all add: gates_within_body limits_plain)

definition waits_within :: "(string \<Rightarrow> int) \<Rightarrow> slot_store \<Rightarrow> bool" where
  "waits_within m st \<longleftrightarrow> (\<forall>k n e. sl_waits st k = Some (n, e) \<longrightarrow> 0 \<le> n \<and> n \<le> m k)"

fun waits_limited :: "(string \<Rightarrow> int) \<Rightarrow> slot_op \<Rightarrow> bool" where
  "waits_limited m (Wait_up_op ix i max_wait) \<longleftrightarrow> max_wait \<le> m (index_wait_key ix i)"
| "waits_limited m _ \<longleftrightarrow> True"

lemma waits_on_set [simp]: "sl_waits (on_set k f st) = sl_waits st"
  by (simp add: on_set_def)

lemma waits_take_slot [simp]: "sl_waits (take_slot clk k ttl rid st) = sl_waits st"
  by (simp add: take_slot_def)

lemma waits_check_leases [simp]: "sl_waits (snd (check_leases lim lease ks st)) = sl_waits st"
  by (induction ks arbitrary: st) (auto simp: Let_def)

lemma waits_take_slots [simp]: "sl_waits (fold (\<lambda>k. take_slot clk k ttl lease) ks st) = sl_waits st"
  by (induction ks arbitrary: st) auto

lemma waits_refresh_live [simp]: "sl_waits (snd (refresh_live_script ks ttl lease clk st)) = sl_waits st"
  using waits_check_leases [of "redis_seconds clk - ttl" lease ks st]
  by (cases "check_leases (redis_seconds clk - ttl) lease ks st") (simp add: refresh_live_script_def split: bool.split)

lemma one_less: "(n::int) \<le> x \<Longrightarrow> n - 1 \<le> x"
  by simp

lemma waits_body:
  "(\<And>ix i m. a \<noteq> Wait_up_op ix i m) \<Longrightarrow> waits_within m st \<Longrightarrow> waits_within m (op_body c a clk st)"
  by (cases a) (auto simp: waits_within_def script_defs decrement_wait_script_def split: option.splits intro: one_less)

lemma waits_up:
  assumes "waits_within m st" "max_wait \<le> m k"
  shows "waits_within m (snd (increment_wait_script k max_wait ttl clk st))"
  using assms by (auto simp: waits_within_def increment_wait_script_def wait_value_def split: option.splits)

lemma waits_limited_plain: "plain_op a \<Longrightarrow> waits_limited m a"
  by (cases a) simp_all

interpretation waits: store_contract c "waits_limited m" "waits_within m" for c m
proof
  fix a st clk
  assume "waits_limited m a" "waits_within m st"
  then show "waits_within m (op_body c a clk st)"
    by (cases "\<exists>ix i l. a = Wait_up_op ix i l") (auto simp: waits_up intro: waits_body)
qed (auto simp: waits_limited_plain waits_within_def redis_settle_def split: option.splits if_splits)

lemma gates_within_empty: "(\<And>ix i. 0 \<le> lim ix i) \<Longrightarrow> gates_within lim swaps empty_slots"
  by (auto simp: gates_within_def gates_ok_def gate_load_def gate_bound_def empty_slots_def zset)

text \<open>Slots and leases never exceed the limits. Whatever methods of the cache are called in whatever order,
  with whatever clocks and whatever calls of the network lost, the slots of an account or a user together with its live
  leases are never more than the largest limit presented for it, and one more at most when leases that replace
  regular slots are used.\<close>

theorem slots_within_limit:
  assumes "\<And>ix i. 0 \<le> lim ix i"
    and "list_all (\<lambda>(F, m). method_ok (limits_within lim swaps) m) ms"
  shows "gate_load ix i (fold (\<lambda>(F, m). method_store c F m) ms empty_slots) \<le> lim ix i + (if swaps then 1 else 0)"
  using gates.method_runs [OF assms(2) gates_within_empty [OF assms(1)], of c]
  by (simp add: gates_within_def gate_bound_def)

text \<open>The counters of waiting requests stay between zero and the largest queue presented, whatever
  is called and whatever calls are lost.\<close>

theorem wait_counters_bounded:
  assumes "list_all (\<lambda>(F, m). method_ok (waits_limited w) m) ms"
    and "sl_waits (fold (\<lambda>(F, m). method_store c F m) ms empty_slots) k = Some (n, e)"
  shows "0 \<le> n \<and> n \<le> w k"
proof -
  have "waits_within w empty_slots" by (simp add: waits_within_def empty_slots_def)
  from waits.method_runs [OF assms(1) this, of c] assms(2) show ?thesis unfolding waits_within_def by blast
qed

end
