(* ===== verification/ConcurrencyWorld.thy ===== *)
theory ConcurrencyWorld
  imports ConcurrencyRuns "HOL-Library.Word"
begin

text \<open>
  Requests that hold slots (\<^verbatim>\<open>internal/service/concurrency_service.go\<close>): processes take slots under
  ids of their own, run, end or crash, give the slot back or not, while the calls of all processes reach
  the store in any order. The clock is that of the store.
\<close>

section \<open>The ids of requests\<close>

definition digit36 :: "nat \<Rightarrow> char" where
  "digit36 d = (if d < 10 then char_of (48 + d) else char_of (87 + d))"

fun format36 :: "nat \<Rightarrow> string" where
  "format36 n = (if n < 36 then [digit36 n] else format36 (n div 36) @ [digit36 (n mod 36)])"

declare format36.simps [simp del]

text \<open>The prefix of a process is made of 64 bits that it draws at random.\<close>

definition request_id_prefix :: "64 word \<Rightarrow> string" where
  "request_id_prefix seed = CHR ''r'' # format36 (unat seed)"

definition generate_request_id :: "string \<Rightarrow> nat \<Rightarrow> string" where
  "generate_request_id pfx n = pfx @ ''-'' @ format36 n"

definition value36 :: "char \<Rightarrow> nat" where
  "value36 ch = (if of_char ch < (58::nat) then of_char ch - 48 else of_char ch - 87)"

lemma of_char_digit36: "d < 36 \<Longrightarrow> of_char (digit36 d) = (if d < 10 then 48 + d else 87 + d)"
  by (simp add: digit36_def of_char_of)

lemma value36_digit: "d < 36 \<Longrightarrow> value36 (digit36 d) = d"
  unfolding value36_def using of_char_digit36 [of d] by (cases "d < 10") auto

lemma format36_back: "foldl (\<lambda>n ch. 36 * n + value36 ch) 0 (format36 n) = n"
proof (induction n rule: format36.induct)
  case (1 n)
  then show ?case by (subst format36.simps) (auto simp: value36_digit)
qed

lemma format36_inj: "format36 m = format36 n \<longleftrightarrow> m = n"
  by (metis format36_back)

lemma digit36_dash: "d < 36 \<Longrightarrow> digit36 d \<noteq> CHR ''-''"
proof
  assume "d < 36" "digit36 d = CHR ''-''"
  then have "(of_char (digit36 d) :: nat) = 45" by simp
  with \<open>d < 36\<close> show False by (simp add: of_char_digit36 split: if_splits)
qed

lemma format36_no_dash: "CHR ''-'' \<notin> set (format36 n)"
proof (induction n rule: format36.induct)
  case (1 n)
  then show ?case
    using digit36_dash [of n] digit36_dash [of "n mod 36"] by (subst format36.simps) auto
qed

lemma split_dash:
  assumes "CHR ''-'' \<notin> set u" "CHR ''-'' \<notin> set v" "u @ CHR ''-'' # x = v @ CHR ''-'' # y"
  shows "u = v \<and> x = y"
proof -
  have "takeWhile (\<lambda>ch. ch \<noteq> CHR ''-'') (u @ CHR ''-'' # x) = u"
    using assms(1) by (subst takeWhile_append2) auto
  moreover have "takeWhile (\<lambda>ch. ch \<noteq> CHR ''-'') (v @ CHR ''-'' # y) = v"
    using assms(2) by (subst takeWhile_append2) auto
  ultimately show ?thesis using assms(3) by simp
qed

text \<open>Requests of different processes, or of one, never share an id.\<close>

lemma request_ids_distinct:
  "generate_request_id (request_id_prefix a) m = generate_request_id (request_id_prefix b) n \<longleftrightarrow> a = b \<and> m = n"
proof
  assume "generate_request_id (request_id_prefix a) m = generate_request_id (request_id_prefix b) n"
  then have "format36 (unat a) @ CHR ''-'' # format36 m = format36 (unat b) @ CHR ''-'' # format36 n"
    by (simp add: generate_request_id_def request_id_prefix_def)
  from split_dash [OF format36_no_dash format36_no_dash this] show "a = b \<and> m = n"
    by (simp add: format36_inj word_unat_eq_iff)
qed simp

section \<open>The system\<close>

text \<open>A request that holds a slot: its gate and id, and the second in which the slot was taken.\<close>

record slot_world =
  sw_store :: slot_store
  sw_clock :: int
  sw_running :: "slot_index \<times> int \<times> string \<Rightarrow> int option"
  sw_seq :: "64 word \<Rightarrow> nat"

definition world_start :: "int \<Rightarrow> slot_world" where
  "world_start clk = \<lparr>sw_store = empty_slots, sw_clock = clk, sw_running = (\<lambda>_. None), sw_seq = (\<lambda>_. 0)\<rparr>"

text \<open>\<open>AcquireAccountSlot\<close> and \<open>AcquireUserSlot\<close>: the request runs when the answer says so.\<close>

definition acquired_running ::
  "slot_index \<times> int \<times> string \<Rightarrow> (bool \<times> int) option \<Rightarrow> (slot_index \<times> int \<times> string \<Rightarrow> int option) \<Rightarrow>
   slot_index \<times> int \<times> string \<Rightarrow> int option" where
  "acquired_running k r running = (case r of Some (True, now) \<Rightarrow> running(k \<mapsto> now) | _ \<Rightarrow> running)"

fun holder_op :: "slot_op \<Rightarrow> bool" where
  "holder_op (Acquire_op ix i limit rid) = True"
| "holder_op (Release_op ix i rid) = True"
| "holder_op (Startup_op ix i active) = True"
| "holder_op _ = False"

inductive slot_step :: "slot_cache \<Rightarrow> (slot_index \<Rightarrow> int \<Rightarrow> int) \<Rightarrow> bool \<Rightarrow> slot_world \<Rightarrow> slot_world \<Rightarrow> bool"
  for c lim swaps where
  step_time: "sw_clock w \<le> clk \<Longrightarrow> slot_step c lim swaps w (w\<lparr>sw_clock := clk\<rparr>)"
| step_acquire: "\<lbrakk>0 < limit; limit \<le> lim ix i; rid = generate_request_id (request_id_prefix p) (sw_seq w p + 1);
    redis_call (n, sw_clock w) (acquire_script (index_slot_key ix i) (index_live_key ix i) limit (sc_slot_ttl c) rid)
      (sw_store w) = (r, st)\<rbrakk> \<Longrightarrow>
    slot_step c lim swaps w
      (w\<lparr>sw_store := st, sw_running := acquired_running (ix, i, rid) r (sw_running w), sw_seq := (sw_seq w)(p := sw_seq w p + 1)\<rparr>)"
| step_end: "slot_step c lim swaps w (w\<lparr>sw_running := (sw_running w)(k := None)\<rparr>)"
| step_release: "sw_running w (ix, i, rid) = None \<Longrightarrow>
    slot_step c lim swaps w (w\<lparr>sw_store := op_effect c (Release_op ix i rid) (sw_clock w) (sw_store w)\<rparr>)"
| step_other: "\<lbrakk>\<not> holder_op a; limits_within lim swaps a; op_timely c a (sw_clock w)\<rbrakk> \<Longrightarrow>
    slot_step c lim swaps w (w\<lparr>sw_store := op_effect c a (sw_clock w) (sw_store w)\<rparr>)"

inductive slot_reach :: "slot_cache \<Rightarrow> (slot_index \<Rightarrow> int \<Rightarrow> int) \<Rightarrow> bool \<Rightarrow> slot_world \<Rightarrow> bool" for c lim swaps where
  reach_start: "slot_reach c lim swaps (world_start clk)"
| reach_step: "slot_reach c lim swaps w \<Longrightarrow> slot_step c lim swaps w w' \<Longrightarrow> slot_reach c lim swaps w'"

text \<open>The requests of a gate that run since less than the time to live of their slots.\<close>

definition fresh_holders :: "slot_cache \<Rightarrow> slot_world \<Rightarrow> slot_index \<Rightarrow> int \<Rightarrow> string set" where
  "fresh_holders c w ix i =
     {rid. \<exists>t. sw_running w (ix, i, rid) = Some t \<and> redis_seconds (sw_clock w) < t + sc_slot_ttl c}"

text \<open>What holds in every state: the slot of each of them is in the store.\<close>

definition slot_covers :: "slot_cache \<Rightarrow> slot_world \<Rightarrow> bool" where
  "slot_covers c w \<longleftrightarrow>
     (\<forall>ix i. zfresh (sw_clock w) (sc_slot_ttl c) (sl_sets (sw_store w) (index_slot_key ix i)) \<and>
             zfresh (sw_clock w) live_ttl (sl_sets (sw_store w) (index_live_key ix i))) \<and>
     (\<forall>ix i rid t. sw_running w (ix, i, rid) = Some t \<longrightarrow> redis_seconds (sw_clock w) < t + sc_slot_ttl c \<longrightarrow>
        (\<exists>s. t \<le> s \<and> zscore rid (sl_sets (sw_store w) (index_slot_key ix i)) = Some s))"


section \<open>The invariant\<close>

lemma coversI:
  assumes "\<And>ix i. zfresh (sw_clock w) (sc_slot_ttl c) (sl_sets (sw_store w) (index_slot_key ix i))"
    and "\<And>ix i. zfresh (sw_clock w) live_ttl (sl_sets (sw_store w) (index_live_key ix i))"
    and "\<And>ix i rid t. sw_running w (ix, i, rid) = Some t \<Longrightarrow> redis_seconds (sw_clock w) < t + sc_slot_ttl c \<Longrightarrow>
      \<exists>s. t \<le> s \<and> zscore rid (sl_sets (sw_store w) (index_slot_key ix i)) = Some s"
  shows "slot_covers c w"
  using assms unfolding slot_covers_def by blast

lemma live_acquire_fresh:
  assumes "zok (sl_sets st (index_live_key ix i))" "zfresh clk live_ttl (sl_sets st (index_live_key ix i))"
  shows "zfresh clk live_ttl (sl_sets (op_effect c (Live_acquire_op ac us ap am um le rp) clk st) (index_live_key ix i))"
proof -
  let ?s = "redis_settle clk st" and ?k = "index_live_key ix i"
  let ?z = "zrem_upto (redis_seconds clk - live_ttl) (sl_sets ?s ?k)"
  have ok: "zok (sl_sets ?s ?k)" and fresh: "zfresh clk live_ttl (sl_sets ?s ?k)"
    using calm_settle [of clk live_ttl st ?k] assms calm_zok calm_keeps by blast+
  have z: "zfresh clk live_ttl ?z"
    using calm_prune [of "redis_seconds clk - live_ttl" clk live_ttl "sl_sets ?s ?k"] calm_keeps [OF _ ok fresh] by blast
  have "sl_sets (op_body c (Live_acquire_op ac us ap am um le rp) clk ?s) ?k
      \<in> {sl_sets ?s ?k, ?z, zexpire clk live_ttl (zadd le (redis_seconds clk) ?z)}"
    by (cases ix) (auto simp: acquire_live_script_def Let_def)
  with fresh z zfresh_take [OF z, of le] show ?thesis by (auto simp: op_effect_def)
qed

lemma acquire_slot_set:
  fixes c ix i limit rid clk st
  defines "res \<equiv> acquire_script (index_slot_key ix i) (index_live_key ix i) limit (sc_slot_ttl c) rid clk st"
  shows "sl_sets (snd res) (index_slot_key jx j) =
     (if jx = ix \<and> j = i
      then let z = zrem_upto (redis_seconds clk - sc_slot_ttl c) (sl_sets st (index_slot_key ix i))
           in if fst (fst res) then zexpire clk (sc_slot_ttl c) (zadd rid (redis_seconds clk) z) else z
      else sl_sets st (index_slot_key jx j))"
    and "snd (fst res) = redis_seconds clk"
  unfolding res_def by (auto simp: acquire_script_def Let_def)

lemma held_later:
  assumes "calm clk ttl z z'" "zok z" "zfresh clk ttl z" "zscore m z = Some s" "t \<le> s" "redis_seconds clk < t + ttl"
  shows "\<exists>s. t \<le> s \<and> zscore m z' = Some s"
  using calm_score [OF assms(1-4)] assms(5,6) by auto

lemma acquire_covers:
  assumes gates: "gates_within lim swaps (sw_store w)" and cov: "slot_covers c w"
    and call: "redis_call (n, sw_clock w) (acquire_script (index_slot_key ix i) (index_live_key ix i) limit (sc_slot_ttl c) rid)
      (sw_store w) = (r, st)"
  shows "slot_covers c (w\<lparr>sw_store := st, sw_running := acquired_running (ix, i, rid) r (sw_running w), sw_seq := q\<rparr>)"
proof (cases "n = Net_down")
  case True
  with call cov show ?thesis by (simp add: redis_call_def acquired_running_def slot_covers_def)
next
  case False
  let ?clk = "sw_clock w" let ?s = "redis_settle ?clk (sw_store w)"
  let ?res = "acquire_script (index_slot_key ix i) (index_live_key ix i) limit (sc_slot_ttl c) rid ?clk ?s"
  have st: "st = snd ?res" and r: "r = (if n = Net_ok then Some (fst ?res) else None)"
    using call False by (auto simp: redis_call_def split: prod.splits)
  have ok: "zok (sl_sets ?s (index_slot_key jx j))" for jx j
    using gates settle_gates_ok unfolding gates_within_def gates_ok_def by blast
  have ok0: "zok (sl_sets (sw_store w) (index_slot_key jx j))" "zok (sl_sets (sw_store w) (index_live_key jx j))" for jx j
    using gates unfolding gates_within_def gates_ok_def by blast+
  have fresh0: "zfresh ?clk (sc_slot_ttl c) (sl_sets (sw_store w) (index_slot_key jx j))"
    "zfresh ?clk live_ttl (sl_sets (sw_store w) (index_live_key jx j))" for jx j
    using cov unfolding slot_covers_def by blast+
  define z where "z jx j = (if jx = ix \<and> j = i
    then zrem_upto (redis_seconds ?clk - sc_slot_ttl c) (sl_sets ?s (index_slot_key ix i)) else sl_sets ?s (index_slot_key jx j))" for jx j
  have calm: "calm ?clk (sc_slot_ttl c) (sl_sets (sw_store w) (index_slot_key jx j)) (z jx j)" for jx j
    unfolding z_def using calm_settle calm_trans [OF calm_settle calm_prune [OF order_refl]] by simp
  have sets: "sl_sets st (index_slot_key jx j) = (if jx = ix \<and> j = i \<and> fst (fst ?res)
      then zexpire ?clk (sc_slot_ttl c) (zadd rid (redis_seconds ?clk) (z jx j)) else z jx j)" for jx j
    by (simp add: st z_def acquire_slot_set(1) Let_def)
  have zf: "zfresh ?clk (sc_slot_ttl c) (z jx j)" for jx j
    by (rule calm_fresh [OF calm ok0(1) fresh0(1)])
  show ?thesis
  proof (rule coversI; simp)
    fix jx j
    show "zfresh ?clk (sc_slot_ttl c) (sl_sets st (index_slot_key jx j))"
      using zf zfresh_take [OF zf] by (simp add: sets)
    have "steady ?clk (sl_sets (sw_store w) (index_live_key jx j)) (sl_sets (op_effect c (Acquire_op ix i limit rid) ?clk (sw_store w)) (index_live_key jx j))"
      by (rule live_steady) simp_all
    with ok0 fresh0 show "zfresh ?clk live_ttl (sl_sets st (index_live_key jx j))"
      by (simp add: steady_def op_effect_def st)
  next
    fix jx j rid' t
    assume run: "acquired_running (ix, i, rid) r (sw_running w) (jx, j, rid') = Some t"
      and young: "redis_seconds ?clk < t + sc_slot_ttl c"
    show "\<exists>s\<ge>t. zscore rid' (sl_sets st (index_slot_key jx j)) = Some s"
    proof (cases "jx = ix \<and> j = i \<and> rid' = rid \<and> fst (fst ?res) \<and> n = Net_ok")
      case True
      with run r have "t = snd (fst ?res)"
        by (auto simp: acquired_running_def split: prod.splits)
      then have "t = redis_seconds ?clk" by (simp add: acquire_slot_set(2))
      with True show ?thesis by (simp add: sets zset)
    next
      case False
      with run r have old: "sw_running w (jx, j, rid') = Some t"
        by (auto simp: acquired_running_def split: prod.splits bool.splits if_splits option.splits)
      with cov young obtain s where s: "t \<le> s" "zscore rid' (sl_sets (sw_store w) (index_slot_key jx j)) = Some s"
        unfolding slot_covers_def by blast
      then have "\<exists>s. t \<le> s \<and> zscore rid' (z jx j) = Some s"
        using held_later [OF calm ok0(1) fresh0(1) s(2) s(1) young] by blast
      moreover have "t \<le> redis_seconds ?clk" using s fresh0(1) unfolding zfresh_def by (meson order_trans)
      ultimately show ?thesis by (auto simp: sets zset)
    qed
  qed
qed


lemma release_covers:
  assumes gates: "gates_within lim swaps (sw_store w)" and cov: "slot_covers c w" and idle: "sw_running w (ix, i, rid) = None"
  shows "slot_covers c (w\<lparr>sw_store := op_effect c (Release_op ix i rid) (sw_clock w) (sw_store w)\<rparr>)"
proof -
  let ?clk = "sw_clock w" let ?s = "redis_settle ?clk (sw_store w)"
  have ok0: "zok (sl_sets (sw_store w) (index_slot_key jx j))" "zok (sl_sets (sw_store w) (index_live_key jx j))" for jx j
    using gates unfolding gates_within_def gates_ok_def by blast+
  have fresh0: "zfresh ?clk (sc_slot_ttl c) (sl_sets (sw_store w) (index_slot_key jx j))"
    "zfresh ?clk live_ttl (sl_sets (sw_store w) (index_live_key jx j))" for jx j
    using cov unfolding slot_covers_def by blast+
  have settled: "zok (sl_sets ?s (index_slot_key jx j)) \<and> zfresh ?clk (sc_slot_ttl c) (sl_sets ?s (index_slot_key jx j))" for jx j
    using calm_zok [OF calm_settle ok0(1)] calm_fresh [OF calm_settle ok0(1) fresh0(1)] by blast
  have sets: "sl_sets (op_effect c (Release_op ix i rid) ?clk (sw_store w)) (index_slot_key jx j) =
      (if jx = ix \<and> j = i then zrem rid (sl_sets ?s (index_slot_key ix i)) else sl_sets ?s (index_slot_key jx j))" for jx j
    by (simp add: op_effect_def)
  show ?thesis
  proof (rule coversI; simp)
    fix jx j
    show "zfresh ?clk (sc_slot_ttl c) (sl_sets (op_effect c (Release_op ix i rid) ?clk (sw_store w)) (index_slot_key jx j))"
      using settled by (simp add: sets zfresh_zrem)
    have "steady ?clk (sl_sets (sw_store w) (index_live_key jx j))
        (sl_sets (op_effect c (Release_op ix i rid) ?clk (sw_store w)) (index_live_key jx j))"
      by (rule live_steady) simp_all
    with ok0 fresh0 show "zfresh ?clk live_ttl (sl_sets (op_effect c (Release_op ix i rid) ?clk (sw_store w)) (index_live_key jx j))"
      by (simp add: steady_def)
  next
    fix jx j rid' t
    assume run: "sw_running w (jx, j, rid') = Some t" and young: "redis_seconds ?clk < t + sc_slot_ttl c"
    with cov obtain s where s: "t \<le> s" "zscore rid' (sl_sets (sw_store w) (index_slot_key jx j)) = Some s"
      unfolding slot_covers_def by blast
    have "\<exists>s. t \<le> s \<and> zscore rid' (sl_sets ?s (index_slot_key jx j)) = Some s"
      by (rule held_later [OF calm_settle ok0(1) fresh0(1) s(2) s(1) young])
    with run idle show "\<exists>s\<ge>t. zscore rid' (sl_sets (op_effect c (Release_op ix i rid) ?clk (sw_store w)) (index_slot_key jx j)) = Some s"
      by (auto simp: sets zset)
  qed
qed

lemma other_covers:
  assumes gates: "gates_within lim swaps (sw_store w)" and cov: "slot_covers c w"
    and a: "\<not> holder_op a" "op_timely c a (sw_clock w)"
  shows "slot_covers c (w\<lparr>sw_store := op_effect c a (sw_clock w) (sw_store w)\<rparr>)"
proof -
  let ?clk = "sw_clock w" let ?st = "op_effect c a ?clk (sw_store w)"
  have ok0: "zok (sl_sets (sw_store w) (index_slot_key jx j))" "zok (sl_sets (sw_store w) (index_live_key jx j))" for jx j
    using gates unfolding gates_within_def gates_ok_def by blast+
  have fresh0: "zfresh ?clk (sc_slot_ttl c) (sl_sets (sw_store w) (index_slot_key jx j))"
    "zfresh ?clk live_ttl (sl_sets (sw_store w) (index_live_key jx j))" for jx j
    using cov unfolding slot_covers_def by blast+
  have calm: "calm ?clk (sc_slot_ttl c) (sl_sets (sw_store w) (index_slot_key jx j)) (sl_sets ?st (index_slot_key jx j))" for jx j
    using a by (intro slot_calm) auto
  have "zfresh ?clk live_ttl (sl_sets ?st (index_live_key jx j))" for jx j
  proof (cases "\<exists>ac us ap am um le rp. a = Live_acquire_op ac us ap am um le rp")
    case True
    with ok0 fresh0 show ?thesis by (auto intro: live_acquire_fresh)
  next
    case False
    with live_steady [OF a(2), of "sw_store w" jx j] ok0 fresh0 show ?thesis by (auto simp: steady_def)
  qed
  moreover have "zfresh ?clk (sc_slot_ttl c) (sl_sets ?st (index_slot_key jx j))" for jx j
    by (rule calm_fresh [OF calm ok0(1) fresh0(1)])
  moreover have "\<exists>s. t \<le> s \<and> zscore rid (sl_sets ?st (index_slot_key jx j)) = Some s"
    if "sw_running w (jx, j, rid) = Some t" "redis_seconds ?clk < t + sc_slot_ttl c" for jx j rid t
    using cov that held_later [OF calm ok0(1) fresh0(1)] unfolding slot_covers_def by blast
  ultimately show ?thesis by (intro coversI) simp_all
qed

lemma not_holder_limits: "limits_within lim swaps (Release_op ix i rid)"
  by simp

lemma slot_step_inv:
  assumes "slot_step c lim swaps w w'" "gates_within lim swaps (sw_store w)" "slot_covers c w"
  shows "gates_within lim swaps (sw_store w') \<and> slot_covers c w'"
  using assms
proof (cases rule: slot_step.cases)
  case (step_time clk)
  with assms(2,3) redis_seconds_mono [of "sw_clock w" clk] show ?thesis
    unfolding slot_covers_def by (auto intro: zfresh_later)
next
  case (step_acquire limit ix i rid p n r st)
  have "gates_within lim swaps (snd (redis_call (n, sw_clock w)
      (acquire_script (index_slot_key ix i) (index_live_key ix i) limit (sc_slot_ttl c) rid) (sw_store w)))"
    using step_acquire by (intro keepsD [OF gates.one_op [of lim swaps "Acquire_op ix i limit rid" _ c]] assms(2)) simp_all
  with step_acquire acquire_covers [OF assms(2,3)] show ?thesis by simp
next
  case (step_end k)
  with assms(2,3) show ?thesis unfolding slot_covers_def by auto
next
  case (step_release ix i rid)
  with assms(2,3) show ?thesis by (simp add: release_covers gates_within_effect)
next
  case (step_other a)
  with assms(2,3) show ?thesis by (simp add: other_covers gates_within_effect)
qed

lemma slot_reach_inv:
  assumes "slot_reach c lim swaps w" "\<And>ix i. 0 \<le> lim ix i"
  shows "gates_within lim swaps (sw_store w) \<and> slot_covers c w"
  using assms(1)
proof (induction rule: slot_reach.induct)
  case (reach_start clk)
  have "slot_covers c (world_start clk)"
    by (simp add: slot_covers_def world_start_def empty_slots_def)
  with gates_within_empty [OF assms(2)] show ?case by (simp add: world_start_def)
next
  case (reach_step w w')
  then show ?case using slot_step_inv by blast
qed



section \<open>Slots that have run out\<close>

definition unexpired :: "int \<Rightarrow> zkey \<Rightarrow> string set" where
  "unexpired lim z = {m. \<exists>s. zscore m z = Some s \<and> lim < s}"

lemma unexpired_members: "unexpired lim z = {m \<in> zmembers z. lim < the (zscore m z)}"
  by (auto simp: unexpired_def zmembers_score)

definition all_ok :: "int \<Rightarrow> nat \<Rightarrow> fate" where
  "all_ok clk = (\<lambda>_. (Net_ok, clk))"

lemma unexpired_prune: "zok z \<Longrightarrow> zmembers (zrem_upto lim z) = unexpired lim z"
  unfolding unexpired_def set_eq_iff by (simp add: zmembers_score zscore_rem_upto split: option.split)

lemma unexpired_settle:
  assumes "zok (sl_sets st k)" "zfresh clk ttl (sl_sets st k)"
  shows "unexpired (redis_seconds clk - ttl) (sl_sets (redis_settle clk st) k) = unexpired (redis_seconds clk - ttl) (sl_sets st k)"
proof -
  have "zscore m (sl_sets st k) = Some s" if "zscore m (sl_sets (redis_settle clk st) k) = Some s" for m s
    using that by (auto simp: redis_settle_def zset split: if_splits)
  with calm_score [OF calm_settle assms] show ?thesis unfolding unexpired_def by blast
qed

lemma acquire_slot_answer:
  assumes ok: "gates_ok st"
    and fresh: "zfresh clk (sc_slot_ttl c) (sl_sets st (index_slot_key ix i))" "zfresh clk live_ttl (sl_sets st (index_live_key ix i))"
  shows "fst (acquire_slot c (all_ok clk) ix i limit rid st) =
    Some (rid \<in> unexpired (redis_seconds clk - sc_slot_ttl c) (sl_sets st (index_slot_key ix i)) \<or>
      int (card (unexpired (redis_seconds clk - sc_slot_ttl c) (sl_sets st (index_slot_key ix i)))) +
      int (card (unexpired (redis_seconds clk - live_ttl) (sl_sets st (index_live_key ix i)))) < limit)"
proof -
  let ?k = "index_slot_key ix i" and ?l = "index_live_key ix i" and ?now = "redis_seconds clk" and ?s = "redis_settle clk st"
  have oks: "zok (sl_sets ?s ?k)" "zok (sl_sets ?s ?l)" "zok (sl_sets st ?k)" "zok (sl_sets st ?l)"
    using ok settle_gates_ok [OF ok] unfolding gates_ok_def by blast+
  let ?z = "zrem_upto (?now - sc_slot_ttl c) (sl_sets ?s ?k)" and ?y = "zrem_upto (?now - 60) (sl_sets ?s ?l)"
  let ?st1 = "on_set ?l (zrem_upto (?now - 60)) (on_set ?k (zrem_upto (?now - sc_slot_ttl c)) ?s)"
  have z: "zmembers ?z = unexpired (?now - sc_slot_ttl c) (sl_sets st ?k)"
    by (simp add: unexpired_prune oks unexpired_settle fresh)
  have y: "zmembers ?y = unexpired (?now - live_ttl) (sl_sets st ?l)"
    using unexpired_settle [OF oks(4) fresh(2)] by (simp add: unexpired_prune oks live_ttl_def)
  have "zcard ?k ?st1 = int (card (zmembers ?z))" "zcard ?l ?st1 = int (card (zmembers ?y))"
    by (simp_all add: zcard_card oks)
  moreover have "zscore rid ?z \<noteq> None \<longleftrightarrow> rid \<in> zmembers ?z" by (auto simp: zmembers_score)
  ultimately have "fst (fst (acquire_script ?k ?l limit (sc_slot_ttl c) rid clk ?s)) \<longleftrightarrow>
      rid \<in> zmembers ?z \<or> int (card (zmembers ?z)) + int (card (zmembers ?y)) < limit"
    by (simp add: acquire_script_def Let_def)
  moreover have "fst (acquire_slot c (all_ok clk) ix i limit rid st)
      = Some (fst (fst (acquire_script ?k ?l limit (sc_slot_ttl c) rid clk ?s)))"
    by (cases "acquire_script ?k ?l limit (sc_slot_ttl c) rid clk ?s") (auto simp: acquire_slot_def redis_call_def all_ok_def)
  ultimately show ?thesis by (simp add: z y)
qed

text \<open>C22: A request is admitted exactly while there is room. In every reachable state a request whose call is answered
  gets a slot if and only if it has one that has not run out, or the slots and live leases that have not
  run out are fewer than the limit it presents; what has run out never counts, also when nobody removed it.\<close>

theorem acquire_answer_exact:
  assumes "slot_reach c lim swaps w" "\<And>ix i. 0 \<le> lim ix i"
  shows "fst (acquire_slot c (all_ok (sw_clock w)) ix i limit rid (sw_store w)) =
    Some (rid \<in> unexpired (redis_seconds (sw_clock w) - sc_slot_ttl c) (sl_sets (sw_store w) (index_slot_key ix i)) \<or>
      int (card (unexpired (redis_seconds (sw_clock w) - sc_slot_ttl c) (sl_sets (sw_store w) (index_slot_key ix i)))) +
      int (card (unexpired (redis_seconds (sw_clock w) - live_ttl) (sl_sets (sw_store w) (index_live_key ix i)))) < limit)"
  using slot_reach_inv [OF assms]
  by (intro acquire_slot_answer) (simp_all add: gates_within_def slot_covers_def)

text \<open>C31: Slots are not lost with their holders. From every reachable state, however its requests crashed and whatever
  releases were lost, once the time to live of slots and of leases has passed an account or user with a
  positive limit admits requests again.\<close>

theorem crashed_slots_return:
  assumes "slot_reach c lim swaps w" "\<And>ix i. 0 \<le> lim ix i"
    and "sw_clock w + 1000 * sc_slot_ttl c \<le> clk" "sw_clock w + 1000 * live_ttl \<le> clk" "sw_clock w \<le> clk" "0 < limit"
  shows "fst (acquire_slot c (all_ok clk) ix i limit rid (sw_store w)) = Some True"
proof -
  have inv: "gates_ok (sw_store w)" "slot_covers c w" using slot_reach_inv [OF assms(1,2)] by (auto simp: gates_within_def)
  have seconds: "redis_seconds (sw_clock w) \<le> redis_seconds clk - ttl" if "sw_clock w + 1000 * ttl \<le> clk" for ttl
    using that unfolding redis_seconds_def by linarith
  have none: "unexpired (redis_seconds clk - ttl) z = {}" if "zfresh (sw_clock w) ttl z" "sw_clock w + 1000 * ttl \<le> clk" for ttl z
    using that(1) seconds [OF that(2)] unfolding unexpired_def zfresh_def by fastforce
  have "zfresh clk (sc_slot_ttl c) (sl_sets (sw_store w) (index_slot_key ix i))"
    "zfresh clk live_ttl (sl_sets (sw_store w) (index_live_key ix i))"
    using inv(2) assms(5) zfresh_later unfolding slot_covers_def by blast+
  moreover have "unexpired (redis_seconds clk - sc_slot_ttl c) (sl_sets (sw_store w) (index_slot_key ix i)) = {}"
    "unexpired (redis_seconds clk - live_ttl) (sl_sets (sw_store w) (index_live_key ix i)) = {}"
    using inv(2) none assms(3,4) unfolding slot_covers_def by blast+
  ultimately show ?thesis using acquire_slot_answer [OF inv(1)] assms(6) by simp
qed


section \<open>The start of a process\<close>

text \<open>\<^verbatim>\<open>ProvideConcurrencyService\<close> (\<^verbatim>\<open>internal/service/wire.go\<close>): every process that starts cleans
  what does not carry its own prefix.\<close>

definition start_process :: "slot_cache \<Rightarrow> 64 word \<Rightarrow> slot_world \<Rightarrow> slot_world" where
  "start_process c p w = w\<lparr>sw_store := snd (cache_cleanup_stale c (all_ok (sw_clock w)) (\<lambda>_. all_ok (sw_clock w))
     (\<lambda>_. all_ok (sw_clock w)) (request_id_prefix p) (sw_store w))\<rparr>"

text \<open>No plain call adds to a gate.\<close>

definition gate_inside :: "slot_index \<Rightarrow> int \<Rightarrow> string set \<Rightarrow> string set \<Rightarrow> slot_store \<Rightarrow> bool" where
  "gate_inside ix i S T st \<longleftrightarrow> gates_ok st \<and> zmembers (sl_sets st (index_slot_key ix i)) \<subseteq> S \<and>
     zmembers (sl_sets st (index_live_key ix i)) \<subseteq> T"

interpretation inside: store_contract c plain_op "gate_inside ix i S T" for c ix i S T
proof
  fix st clk
  assume st: "gate_inside ix i S T st"
  then show "gate_inside ix i S T (redis_settle clk st)"
    by (auto simp: gate_inside_def settle_gates_ok) (auto simp: redis_settle_def zset split: if_splits)
  fix a
  assume a: "plain_op a"
  have "zok (sl_sets (op_body c a clk st) (index_slot_key jx j)) \<and>
      zmembers (sl_sets (op_body c a clk st) (index_slot_key jx j)) \<subseteq> zmembers (sl_sets st (index_slot_key jx j))" for jx j
    using st a by (intro slot_shrinks) (auto simp: gate_inside_def gates_ok_def)
  moreover have "zok (sl_sets (op_body c a clk st) (index_live_key jx j)) \<and>
      zmembers (sl_sets (op_body c a clk st) (index_live_key jx j)) \<subseteq> zmembers (sl_sets st (index_live_key jx j))" for jx j
    using st a by (intro live_shrinks) (auto simp: gate_inside_def gates_ok_def)
  ultimately show "gate_inside ix i S T (op_body c a clk st)"
    using st unfolding gate_inside_def gates_ok_def by blast
qed simp

lemma gone_none [simp]: "key_gone clk None = False"
  by (simp add: key_gone_def)

lemma settle_settle: "sl_sets (redis_settle clk (redis_settle clk st)) = sl_sets (redis_settle clk st)"
  by (rule ext) (auto simp: redis_settle_def no_zkey_def)

lemma startup_script_members:
  assumes "zok (sl_sets st k)"
  shows "zmembers (sl_sets (snd (startup_script k p ttl clk st)) k) \<subseteq> {m \<in> zmembers (sl_sets st k). prefix p m}"
proof -
  let ?z1 = "(sl_sets st k)\<lparr>zk_members := gm_filter (\<lambda>m s. prefix p m) (zk_members (sl_sets st k))\<rparr>"
  have "sl_sets (snd (startup_script k p ttl clk st)) k = (if gm_len (zk_members ?z1) = 0 then no_zkey else zexpire clk ttl ?z1)"
    by (simp add: startup_script_def Let_def)
  moreover have "zmembers ?z1 \<subseteq> {m \<in> zmembers (sl_sets st k). prefix p m}"
    by (auto simp: zmembers_def gm_keys_def gm_filter_def)
  ultimately show ?thesis by (auto simp: zmembers_ops split: if_splits)
qed

text \<open>With all calls answered the start goes through the whole index.\<close>

lemma answered: "redis_call (all_ok clk n) s st = (Some (fst (s clk (redis_settle clk st))), snd (s clk (redis_settle clk st)))"
  by (simp add: redis_call_def all_ok_def split: prod.split)

lemma all_ok_shift [simp]: "(\<lambda>n. all_ok clk (n + k)) = all_ok clk" "(\<lambda>n. all_ok clk (Suc n)) = all_ok clk"
  "(\<lambda>n. all_ok clk (Suc (Suc n))) = all_ok clk"
  by (simp_all add: all_ok_def)

lemma member_id_itoa: "0 < i \<Longrightarrow> i < 2 ^ 63 \<Longrightarrow> member_id (itoa i) = Some i"
  by (simp add: member_id_def go_atoi_itoa)

definition startup_one :: "slot_cache \<Rightarrow> slot_index \<Rightarrow> string \<Rightarrow> int \<Rightarrow> int \<Rightarrow> slot_store \<Rightarrow> slot_store" where
  "startup_one c ix p clk j st =
     op_effect c (Wait_delete_op ix j) clk (op_effect c (Startup_op ix j p) clk st)"

lemma startup_members_step:
  "(\<exists>r. startup_members c (all_ok clk) ix p now ms st = (Some r, st')) \<longleftrightarrow>
   st' = fold (\<lambda>j. startup_one c ix p clk j) (List.map_filter member_id ms) st"
proof (induction ms arbitrary: st)
  case Nil
  show ?case by (auto simp: map_filter_simps)
next
  case (Cons m ms)
  show ?case
  proof (cases "member_id m")
    case None
    then have "(\<exists>r. startup_members c (all_ok clk) ix p now (m # ms) st = (Some r, st')) \<longleftrightarrow>
        (\<exists>r. startup_members c (all_ok clk) ix p now ms st = (Some r, st'))"
      by (auto split: prod.splits option.splits)
    with Cons None show ?thesis by (simp add: map_filter_simps)
  next
    case (Some j)
    obtain a b where ab: "fst (startup_script (index_slot_key ix j) p (sc_slot_ttl c) clk (redis_settle clk st)) = (a, b)"
      by fastforce
    from Some have "(\<exists>r. startup_members c (all_ok clk) ix p now (m # ms) st = (Some r, st')) \<longleftrightarrow>
        (\<exists>r. startup_members c (all_ok clk) ix p now ms (startup_one c ix p clk j st) = (Some r, st'))"
      by (auto simp: answered ab startup_one_def op_effect_def split: prod.splits option.splits)
    with Cons Some show ?thesis by (simp add: map_filter_simps)
  qed
qed

lemma startup_one_inside:
  assumes "gate_inside ix i S T st"
  shows "gate_inside ix i (if j = i then {m \<in> S. prefix p m} else S) T (startup_one c ix p clk j st)"
proof -
  let ?s = "redis_settle clk st" let ?st1 = "op_effect c (Startup_op ix j p) clk st"
  have s: "gate_inside ix i S T ?s" by (rule inside.settle [OF assms])
  have st1: "gate_inside ix i S T ?st1" unfolding op_effect_def by (rule inside.body [OF _ s]) simp
  have "gate_inside ix i (if j = i then {m \<in> S. prefix p m} else S) T ?st1"
  proof (cases "j = i")
    case True
    have "zok (sl_sets ?s (index_slot_key ix i))" using s by (simp add: gate_inside_def gates_ok_def)
    from startup_script_members [OF this, of p "sc_slot_ttl c" clk] s
    have "zmembers (sl_sets ?st1 (index_slot_key ix i)) \<subseteq> {m \<in> S. prefix p m}"
      by (auto simp: gate_inside_def op_effect_def True)
    with st1 True show ?thesis by (simp add: gate_inside_def)
  qed (use st1 in simp)
  then show ?thesis
    unfolding startup_one_def op_effect_def [of c "Wait_delete_op ix j"] by (intro inside.body inside.settle) simp_all
qed

lemma startup_fold_inside:
  "gate_inside ix i S T st \<Longrightarrow> gate_inside ix i (if i \<in> set js then {m \<in> S. prefix p m} else S) T (fold (\<lambda>j. startup_one c ix p clk j) js st)"
proof (induction js arbitrary: st S)
  case (Cons j js)
  have "{m \<in> {m \<in> S. prefix p m}. prefix p m} = {m \<in> S. prefix p m}" by blast
  with Cons.IH [OF startup_one_inside [OF Cons.prems, of j p c clk]] show ?case by (auto split: if_splits)
qed simp

lemma startup_index_done: "\<exists>st'. startup_index c (all_ok clk) (all_ok clk) ix p now st = (Some (), st')"
proof -
  let ?s = "redis_settle clk st"
  let ?ms = "map fst (zk_members (sl_sets ?s (index_key ix)))"
  obtain r st2 where "startup_members c (all_ok clk) ix p now ?ms ?s = (Some r, st2)"
    using startup_members_step [of c clk ix p now ?ms ?s] by blast
  then show ?thesis by (cases r) (simp add: startup_index_def answered)
qed

lemma startup_index_clean:
  assumes "gate_inside ix i S T st" "itoa i \<in> zmembers (sl_sets (redis_settle clk st) (index_key ix))" "0 < i" "i < 2 ^ 63"
  shows "\<exists>st'. startup_index c (all_ok clk) (all_ok clk) ix p now st = (Some (), st') \<and> gate_inside ix i {m \<in> S. prefix p m} T st'"
proof -
  let ?s = "redis_settle clk st"
  let ?ms = "map fst (zk_members (sl_sets ?s (index_key ix)))"
  let ?st2 = "fold (\<lambda>j. startup_one c ix p clk j) (List.map_filter member_id ?ms) ?s"
  have "i \<in> set (List.map_filter member_id ?ms)"
    using assms(2) member_id_itoa [OF assms(3,4)] by (force simp: map_filter_set zmembers_def gm_keys_def)
  with startup_fold_inside [OF inside.settle [OF assms(1)], where js = "List.map_filter member_id ?ms"]
  have st2: "gate_inside ix i {m \<in> S. prefix p m} T ?st2" by simp
  obtain refreshed stale where "startup_members c (all_ok clk) ix p now ?ms ?s = (Some (refreshed, stale), ?st2)"
    using startup_members_step [of c clk ix p now ?ms ?s ?st2] by auto
  then have "startup_index c (all_ok clk) (all_ok clk) ix p now st = (Some (), write_index (all_ok clk) ix refreshed stale ?st2)"
    by (simp add: startup_index_def answered)
  with inside.writing_index [OF st2] show ?thesis by blast
qed


lemma settle_sets_only: "sl_sets s = sl_sets s' \<Longrightarrow> sl_sets (redis_settle clk s) = sl_sets (redis_settle clk s')"
  by (simp add: redis_settle_def cong: if_cong)

lemma sweep_answered:
  "\<exists>st1. sweep_legacy_waits (all_ok clk) st = (Some (), st1) \<and> sl_sets st1 = sl_sets (redis_settle clk st)"
proof -
  let ?s = "redis_settle clk st"
  let ?sweep = "\<lambda>s. s\<lparr>sl_waits := (\<lambda>k. if prefix ''wait:account:'' k \<or> prefix ''concurrency:wait:'' k then None else sl_waits s k)\<rparr>"
  have "sl_sets (redis_settle clk (?sweep (redis_settle clk ?s))) = sl_sets ?s"
    by (subst settle_sets_only [of _ ?s]) (simp_all add: settle_settle)
  then show ?thesis by (cases "sl_swept ?s") (simp_all add: sweep_legacy_waits_def answered)
qed

lemma cleanup_stale_clean:
  assumes "gate_inside Account_index i S T st" "itoa i \<in> zmembers (sl_sets (redis_settle clk st) (index_key Account_index))"
    and "0 < i" "i < 2 ^ 63" "p \<noteq> []"
  shows "fst (cache_cleanup_stale c (all_ok clk) (\<lambda>_. all_ok clk) (\<lambda>_. all_ok clk) p st) = Some () \<and>
    gate_inside Account_index i {m \<in> S. prefix p m} T (snd (cache_cleanup_stale c (all_ok clk) (\<lambda>_. all_ok clk) (\<lambda>_. all_ok clk) p st))"
proof -
  obtain st1 where st1: "sweep_legacy_waits (all_ok clk) st = (Some (), st1)" "sl_sets st1 = sl_sets (redis_settle clk st)"
    using sweep_answered by blast
  let ?st2 = "redis_settle clk st1"
  have "gate_inside Account_index i S T st1" by (rule inside.sweeping [OF st1(1) assms(1)])
  then have st2: "gate_inside Account_index i S T ?st2" by (rule inside.settle)
  have "sl_sets (redis_settle clk ?st2) = sl_sets (redis_settle clk st)"
    using settle_sets_only [OF st1(2), of clk] by (simp add: settle_settle)
  with assms(2) have "itoa i \<in> zmembers (sl_sets (redis_settle clk ?st2) (index_key Account_index))" by simp
  from startup_index_clean [OF st2 this assms(3,4), of c p "redis_seconds clk"] obtain st3 where
    st3: "startup_index c (all_ok clk) (all_ok clk) Account_index p (redis_seconds clk) ?st2 = (Some (), st3)"
      "gate_inside Account_index i {m \<in> S. prefix p m} T st3" by blast
  obtain st4 where st4: "startup_index c (all_ok clk) (all_ok clk) User_index p (redis_seconds clk) st3 = (Some (), st4)"
    using startup_index_done by blast
  have "gate_inside Account_index i {m \<in> S. prefix p m} T st4" by (rule inside.starting_index [OF st4 st3(2)])
  moreover have "cache_cleanup_stale c (all_ok clk) (\<lambda>_. all_ok clk) (\<lambda>_. all_ok clk) p st = (Some (), st4)"
    using assms(5) by (simp add: cache_cleanup_stale_def st1 read_time_def answered st3 st4)
  ultimately show ?thesis by simp
qed


text \<open>C21: The start of another process makes a running request's slot free. In every reachable state, for an account in the index of active accounts
  whose slots all belong to other processes and which has no live lease, the clean-up of a process that starts removes the slots of the
  requests that run; the next request is admitted whatever the limit, although the others still run. This is why the
  bound on running requests asks that no process starts.\<close>

theorem start_readmits:
  assumes "slot_reach c lim swaps w" "\<And>ix i. 0 \<le> lim ix i"
    and "itoa i \<in> zmembers (sl_sets (redis_settle (sw_clock w) (sw_store w)) (index_key Account_index))"
    and "0 < i" "i < 2 ^ 63"
    and "\<And>m. m \<in> zmembers (sl_sets (sw_store w) (account_slot_key i)) \<Longrightarrow> \<not> prefix (request_id_prefix p) m"
    and "zmembers (sl_sets (sw_store w) (live_account_slot_key i)) = {}" "0 < limit"
  shows "fst (acquire_slot c (all_ok (sw_clock w)) Account_index i limit rid (sw_store (start_process c p w))) = Some True \<and>
    fresh_holders c (start_process c p w) Account_index i = fresh_holders c w Account_index i"
proof -
  let ?st = "sw_store (start_process c p w)"
  have "gates_ok (sw_store w)" using slot_reach_inv [OF assms(1,2)] by (simp add: gates_within_def)
  with assms(7) have "gate_inside Account_index i (zmembers (sl_sets (sw_store w) (account_slot_key i))) {} (sw_store w)"
    by (simp add: gate_inside_def)
  from cleanup_stale_clean [OF this assms(3-5), of "request_id_prefix p" c]
  have "gate_inside Account_index i {m \<in> zmembers (sl_sets (sw_store w) (account_slot_key i)). prefix (request_id_prefix p) m} {} ?st"
    by (simp add: start_process_def request_id_prefix_def)
  then have ok: "gates_ok ?st" and empty: "zmembers (sl_sets ?st (account_slot_key i)) = {}" "zmembers (sl_sets ?st (live_account_slot_key i)) = {}"
    using assms(6) by (auto simp: gate_inside_def)
  then have none: "zscore m (sl_sets ?st (account_slot_key i)) = None" "zscore m (sl_sets ?st (live_account_slot_key i)) = None" for m
    using zmembers_score by (metis empty_iff option.exhaust)+
  then have "fst (acquire_slot c (all_ok (sw_clock w)) Account_index i limit rid ?st) = Some True"
    using assms(8) by (subst acquire_slot_answer [OF ok]) (simp_all add: zfresh_def unexpired_def)
  then show ?thesis by (simp add: fresh_holders_def start_process_def)
qed

section \<open>A run\<close>

text \<open>One request of the process with seed 1 holds the only slot of account 7.\<close>

definition demo_cache :: slot_cache where
  "demo_cache = new_concurrency_cache 15 0"

definition demo_world :: slot_world where
  "demo_world = (let w = world_start 5000; k = (Account_index, 7, ''r1-1'');
     res = redis_call (Net_ok, 5000) (acquire_script (account_slot_key 7) (live_account_slot_key 7) 1 900 ''r1-1'') (sw_store w);
     w1 = w\<lparr>sw_store := snd res, sw_running := acquired_running k (fst res) (sw_running w), sw_seq := (\<lambda>_. 0)(1 := 1)\<rparr> in
     w1\<lparr>sw_store := op_effect demo_cache (Index_op Account_index (zadd (itoa 7) 905)) 5000 (sw_store w1)\<rparr>)"

lemma demo_id: "generate_request_id (request_id_prefix 1) (Suc 0) = ''r1-1''" "request_id_prefix 2 = ''r2''"
  by code_simp+

lemma demo_reach: "slot_reach demo_cache (\<lambda>_ _. 1) False demo_world"
proof -
  let ?w = "world_start 5000"
  let ?res = "redis_call (Net_ok, 5000) (acquire_script (account_slot_key 7) (live_account_slot_key 7) 1 900 ''r1-1'') (sw_store ?w)"
  let ?w1 = "?w\<lparr>sw_store := snd ?res, sw_running := acquired_running (Account_index, 7, ''r1-1'') (fst ?res) (sw_running ?w),
    sw_seq := (\<lambda>_. 0)(1 := 1)\<rparr>"
  have "slot_step demo_cache (\<lambda>_ _. 1) False ?w (?w\<lparr>sw_store := snd ?res,
      sw_running := acquired_running (Account_index, 7, ''r1-1'') (fst ?res) (sw_running ?w), sw_seq := (sw_seq ?w)(1 := sw_seq ?w 1 + 1)\<rparr>)"
    by (rule step_acquire [where limit = 1 and n = Net_ok])
       (simp_all add: world_start_def demo_id demo_cache_def new_concurrency_cache_def)
  then have w1: "slot_reach demo_cache (\<lambda>_ _. 1) False ?w1"
    using reach_start [of demo_cache "\<lambda>_ _. 1" False 5000] by (auto simp: world_start_def intro: reach_step)
  have "slot_step demo_cache (\<lambda>_ _. 1) False ?w1
      (?w1\<lparr>sw_store := op_effect demo_cache (Index_op Account_index (zadd (itoa 7) 905)) (sw_clock ?w1) (sw_store ?w1)\<rparr>)"
    by (rule step_other) simp_all
  with w1 have "slot_reach demo_cache (\<lambda>_ _. 1) False
      (?w1\<lparr>sw_store := op_effect demo_cache (Index_op Account_index (zadd (itoa 7) 905)) (sw_clock ?w1) (sw_store ?w1)\<rparr>)"
    by (rule reach_step)
  then show ?thesis by (simp add: demo_world_def Let_def world_start_def)
qed


lemma demo_members:
  "gm_keys (zk_members (sl_sets (sw_store demo_world) (account_slot_key 7))) = {''r1-1''}"
  "gm_keys (zk_members (sl_sets (sw_store demo_world) (live_account_slot_key 7))) = {}"
  "itoa 7 \<in> gm_keys (zk_members (sl_sets (redis_settle (sw_clock demo_world) (sw_store demo_world)) (index_key Account_index)))"
  "sw_clock demo_world = 5000" "sw_running demo_world (Account_index, 7, ''r1-1'') = Some 5" "sc_slot_ttl demo_cache = 900"
  by code_simp+

lemma demo_running: "sw_running demo_world k \<noteq> None \<Longrightarrow> k = (Account_index, 7, ''r1-1'')"
  by (auto simp: demo_world_def Let_def world_start_def acquired_running_def split: option.splits prod.splits bool.splits if_splits)

lemma demo_holders: "fresh_holders demo_cache demo_world Account_index 7 = {''r1-1''}"
  using demo_running demo_members(4-6) by (auto simp: fresh_holders_def redis_seconds_def)

lemma slots_within_limit_witness:
  "gate_load Account_index 7 (fold (\<lambda>(F, m). method_store demo_cache F m)
     [((\<lambda>_. all_ok 5000, \<lambda>_. all_ok 5000, \<lambda>_. all_ok 5000), M_acquire Account_index 7 1 ''r1-1''),
      ((\<lambda>_. all_ok 6000, \<lambda>_. all_ok 6000, \<lambda>_. all_ok 6000), M_acquire Account_index 7 1 ''r1-2'')] empty_slots) \<le> 1"
  using slots_within_limit [of "\<lambda>_ _. 1" False "[((\<lambda>_. all_ok 5000, \<lambda>_. all_ok 5000, \<lambda>_. all_ok 5000), M_acquire Account_index 7 1 ''r1-1''),
      ((\<lambda>_. all_ok 6000, \<lambda>_. all_ok 6000, \<lambda>_. all_ok 6000), M_acquire Account_index 7 1 ''r1-2'')]" Account_index 7 demo_cache]
  by simp

definition demo_waits :: "(fates \<times> slot_method) list" where
  "demo_waits = [((\<lambda>_. all_ok 5000, \<lambda>_. all_ok 5000, \<lambda>_. all_ok 5000), M_wait_up User_index 3 20)]"

lemma demo_waiting:
  "sl_waits (fold (\<lambda>(F, m). method_store demo_cache F m) demo_waits empty_slots) (wait_queue_key 3) = Some (1, 905000)"
  by (simp add: demo_waits_def cache_increment_wait_def answered increment_wait_script_def touch_active_index_def
      demo_cache_def new_concurrency_cache_def wait_value_def redis_settle_def empty_slots_def redis_seconds_def redis_call_def all_ok_def)

lemma wait_counters_bounded_witness: "(0::int) \<le> 1 \<and> (1::int) \<le> 20"
  by (rule wait_counters_bounded [OF _ demo_waiting, of "\<lambda>_. 20"]) (simp add: demo_waits_def)


lemma acquire_answer_exact_witness:
  "fst (acquire_slot demo_cache (all_ok (sw_clock demo_world)) Account_index 7 1 ''r1-2'' (sw_store demo_world)) = Some False"
proof -
  have k: "zmembers (sl_sets (sw_store demo_world) (account_slot_key 7)) = {''r1-1''}"
    "zmembers (sl_sets (sw_store demo_world) (live_account_slot_key 7)) = {}"
    using demo_members(1,2) by (simp_all add: zmembers_def)
  have s: "zscore ''r1-1'' (sl_sets (sw_store demo_world) (account_slot_key 7)) = Some 5" by code_simp
  have "unexpired lim (sl_sets (sw_store demo_world) (account_slot_key 7)) = (if lim < 5 then {''r1-1''} else {})" for lim
    using s by (auto simp: unexpired_members k(1))
  moreover have "unexpired lim (sl_sets (sw_store demo_world) (live_account_slot_key 7)) = {}" for lim
    by (simp add: unexpired_members k(2))
  ultimately show ?thesis
    using acquire_answer_exact [OF demo_reach, of Account_index 7 1 "''r1-2''"] demo_members(4,6)
    by (simp add: redis_seconds_def)
qed

lemma crashed_slots_return_witness:
  "fst (acquire_slot demo_cache (all_ok 905000) Account_index 7 1 ''r2-1'' (sw_store demo_world)) = Some True"
  using crashed_slots_return [OF demo_reach, of 905000 1] demo_members(4,6) by (simp add: live_ttl_def)

lemma start_readmits_witness:
  "fst (acquire_slot demo_cache (all_ok (sw_clock demo_world)) Account_index 7 1 ''r2-1''
     (sw_store (start_process demo_cache 2 demo_world))) = Some True \<and>
   fresh_holders demo_cache (start_process demo_cache 2 demo_world) Account_index 7 = {''r1-1''}"
  using start_readmits [OF demo_reach, of 7 2 1 "''r2-1''"] demo_members(1-3) demo_id(2) demo_holders
  by (simp add: zmembers_def)

end
