(* ===== verification/ConcurrencyService.thy ===== *)
theory ConcurrencyService
  imports ConcurrencyWorld BoundedTables
begin

text \<open>
  The service in front of the concurrency cache (\<^verbatim>\<open>internal/service/concurrency_service.go\<close>): slots with their
  release functions, waiting queues that admit when the cache fails, leases of websocket clients and their
  renewal, and the short-lived cache of account loads. The cache is absent when no store is configured. A
  release function is the value that says what it gives back.
\<close>

section \<open>Slots\<close>

datatype slot_release = Release_nothing | Release_slot slot_index int string | Release_api_key int string

record acquire_result =
  ar_acquired :: bool
  ar_release :: "slot_release option"

text \<open>\<open>AcquireAccountSlot\<close> and \<open>AcquireUserSlot\<close>, with the number of ids the process has made.\<close>

definition service_acquire_slot ::
  "slot_cache \<Rightarrow> (nat \<Rightarrow> fate) \<Rightarrow> string \<Rightarrow> slot_index \<Rightarrow> int \<Rightarrow> int \<Rightarrow> nat \<Rightarrow> slot_store \<Rightarrow>
   acquire_result option \<times> nat \<times> slot_store" where
  "service_acquire_slot c fs pfx ix i limit seq st =
     (if limit \<le> 0 then (Some \<lparr>ar_acquired = True, ar_release = Some Release_nothing\<rparr>, seq, st)
      else let rid = generate_request_id pfx (seq + 1) in
        case acquire_slot c fs ix i limit rid st of
          (None, st1) \<Rightarrow> (None, seq + 1, st1)
        | (Some True, st1) \<Rightarrow> (Some \<lparr>ar_acquired = True, ar_release = Some (Release_slot ix i rid)\<rparr>, seq + 1, st1)
        | (Some False, st1) \<Rightarrow> (Some \<lparr>ar_acquired = False, ar_release = None\<rparr>, seq + 1, st1))"

definition service_acquire_account_slot where
  "service_acquire_account_slot c fs pfx = service_acquire_slot c fs pfx Account_index"

definition service_acquire_user_slot where
  "service_acquire_user_slot c fs pfx = service_acquire_slot c fs pfx User_index"

definition service_track_api_key ::
  "slot_cache option \<Rightarrow> fate \<Rightarrow> string \<Rightarrow> int \<Rightarrow> nat \<Rightarrow> slot_store \<Rightarrow> slot_release \<times> nat \<times> slot_store" where
  "service_track_api_key oc f pfx i seq st =
     (case oc of
        None \<Rightarrow> (Release_nothing, seq, st)
      | Some c \<Rightarrow>
          if i \<le> 0 then (Release_nothing, seq, st)
          else let rid = generate_request_id pfx (seq + 1) in
            case cache_track_api_key_slot c f i rid st of
              (None, st1) \<Rightarrow> (Release_nothing, seq + 1, st1)
            | (Some _, st1) \<Rightarrow> (Release_api_key i rid, seq + 1, st1))"

text \<open>What a release function does; its failure is logged.\<close>

fun run_release :: "slot_cache \<Rightarrow> (nat \<Rightarrow> fate) \<Rightarrow> slot_release \<Rightarrow> slot_store \<Rightarrow> slot_store" where
  "run_release c fs Release_nothing st = st"
| "run_release c fs (Release_slot ix i rid) st = snd (release_slot c fs ix i rid st)"
| "run_release c fs (Release_api_key i rid) st = snd (cache_release_api_key_slot (fs 0) i rid st)"

definition service_cleanup_stale where
  "service_cleanup_stale oc fs gs hs pfx st =
     (case oc of None \<Rightarrow> (Some (), st) | Some c \<Rightarrow> cache_cleanup_stale c fs gs hs pfx st)"

section \<open>Waiting\<close>

text \<open>A queue whose counter cannot be raised is not full.\<close>

definition service_increment_wait ::
  "slot_cache option \<Rightarrow> (nat \<Rightarrow> fate) \<Rightarrow> slot_index \<Rightarrow> int \<Rightarrow> int \<Rightarrow> slot_store \<Rightarrow> bool \<times> slot_store" where
  "service_increment_wait oc fs ix i max_wait st =
     (case oc of
        None \<Rightarrow> (True, st)
      | Some c \<Rightarrow> (case cache_increment_wait c fs ix i max_wait st of
          (None, st1) \<Rightarrow> (True, st1) | (Some ok, st1) \<Rightarrow> (ok, st1)))"

definition service_decrement_wait ::
  "slot_cache option \<Rightarrow> (nat \<Rightarrow> fate) \<Rightarrow> slot_index \<Rightarrow> int \<Rightarrow> slot_store \<Rightarrow> slot_store" where
  "service_decrement_wait oc fs ix i st =
     (case oc of None \<Rightarrow> st | Some c \<Rightarrow> snd (cache_decrement_wait c fs ix i st))"

definition service_increment_user_wait where
  "service_increment_user_wait oc fs = service_increment_wait oc fs User_index"

definition service_increment_account_wait where
  "service_increment_account_wait oc fs = service_increment_wait oc fs Account_index"

definition service_decrement_user_wait where
  "service_decrement_user_wait oc fs = service_decrement_wait oc fs User_index"

definition service_decrement_account_wait where
  "service_decrement_account_wait oc fs = service_decrement_wait oc fs Account_index"

definition service_account_waiting :: "slot_cache option \<Rightarrow> fate \<Rightarrow> int \<Rightarrow> slot_store \<Rightarrow> int option \<times> slot_store" where
  "service_account_waiting oc f i st = (case oc of None \<Rightarrow> (Some 0, st) | Some c \<Rightarrow> cache_account_waiting f i st)"

definition calculate_max_wait :: "int \<Rightarrow> int" where
  "calculate_max_wait concurrency = (if concurrency \<le> 0 then 1 else concurrency) + 20"

section \<open>Counts and loads\<close>

definition zero_concurrency_map :: "int list \<Rightarrow> (int, int) gomap" where
  "zero_concurrency_map js = fold (\<lambda>i. gm_set i 0) js []"

definition service_api_key_batch ::
  "slot_cache option \<Rightarrow> (nat \<Rightarrow> fate) \<Rightarrow> int list \<Rightarrow> slot_store \<Rightarrow> (int, int) gomap \<times> slot_store" where
  "service_api_key_batch oc fs js st =
     (let zero = zero_concurrency_map js in
      if js = [] then (zero, st)
      else case oc of
        None \<Rightarrow> (zero, st)
      | Some c \<Rightarrow> (case cache_api_key_concurrency_batch c fs js st of
          (None, st1) \<Rightarrow> (zero, st1)
        | (Some counts, st1) \<Rightarrow>
            (fold (\<lambda>i. gm_set i (case gm_get counts i of None \<Rightarrow> 0 | Some n \<Rightarrow> n)) js zero, st1)))"

definition service_account_batch ::
  "slot_cache option \<Rightarrow> (nat \<Rightarrow> fate) \<Rightarrow> int list \<Rightarrow> slot_store \<Rightarrow> (int, int) gomap option \<times> slot_store" where
  "service_account_batch oc fs js st =
     (if js = [] then (Some [], st)
      else case oc of
        None \<Rightarrow> (Some (zero_concurrency_map js), st)
      | Some c \<Rightarrow> cache_account_concurrency_batch c fs js st)"

definition service_users_load where
  "service_users_load oc fs xs st =
     (case oc of None \<Rightarrow> (Some [], st) | Some c \<Rightarrow> cache_users_load_batch c fs xs st)"

definition fetch_accounts_load ::
  "slot_cache option \<Rightarrow> (nat \<Rightarrow> fate) \<Rightarrow> (int \<times> int) list \<Rightarrow> slot_store \<Rightarrow> (int, load_info) gomap option \<times> slot_store" where
  "fetch_accounts_load oc fs xs st =
     (case oc of None \<Rightarrow> (Some [], st) | Some c \<Rightarrow> cache_accounts_load_batch c fs xs st)"

text \<open>The cache of loads, keyed by a hash of the accounts asked for.\<close>

record load_batch =
  lb_loads :: "(int, load_info) gomap"
  lb_expires :: instant

record load_cache =
  lc_ttl :: duration
  lc_entries :: "(string, load_batch) gomap"

definition max_load_entries :: nat where
  "max_load_entries = 256"

definition new_load_cache :: load_cache where
  "new_load_cache = \<lparr>lc_ttl = 200 * millisecond, lc_entries = []\<rparr>"

definition set_load_ttl :: "duration \<Rightarrow> load_cache \<Rightarrow> load_cache" where
  "set_load_ttl ttl lc = (if ttl \<le> 0 then \<lparr>lc_ttl = ttl, lc_entries = []\<rparr> else lc\<lparr>lc_ttl := ttl\<rparr>)"

definition le64 :: "int \<Rightarrow> int list" where
  "le64 x = map (\<lambda>k. x div 256 ^ k mod 256) [0..<8]"

definition load_batch_key :: "(int list \<Rightarrow> string) \<Rightarrow> (int \<times> int) list \<Rightarrow> string" where
  "load_batch_key sha xs = itoa (int (length xs)) @ '':'' @ sha (concat (map (\<lambda>(i, limit). le64 i @ le64 limit) xs))"

definition get_cached_loads ::
  "string \<Rightarrow> instant \<Rightarrow> (string, load_batch) gomap \<Rightarrow> (int, load_info) gomap option \<times> (string, load_batch) gomap" where
  "get_cached_loads key now m =
     (case gm_get m key of
        None \<Rightarrow> (None, m)
      | Some b \<Rightarrow> if lb_expires b \<le> now then (None, gm_delete key m) else (Some (lb_loads b), m))"

primrec evict_loads :: "string range_order \<Rightarrow> nat \<Rightarrow> (string, load_batch) gomap \<Rightarrow> (string, load_batch) gomap" where
  "evict_loads ord 0 m = m"
| "evict_loads ord (Suc n) m = evict_loads ord n (case ord (map fst m) of [] \<Rightarrow> m | k # _ \<Rightarrow> gm_delete k m)"

definition drop_expired_loads :: "instant \<Rightarrow> (string, load_batch) gomap \<Rightarrow> (string, load_batch) gomap" where
  "drop_expired_loads now = gm_filter (\<lambda>k b. now < lb_expires b)"

definition store_cached_loads ::
  "string range_order \<Rightarrow> instant \<Rightarrow> string \<Rightarrow> load_batch \<Rightarrow> (string, load_batch) gomap \<Rightarrow> (string, load_batch) gomap" where
  "store_cached_loads ord now key b m =
     (let m1 = (if max_load_entries \<le> gm_len m then
            (let m2 = drop_expired_loads now m in evict_loads ord (Suc (gm_len m2) - max_load_entries) m2) else m) in
      gm_set key b m1)"

text \<open>\<open>now1\<close> and \<open>now2\<close> are the times of the two looks into the cache, \<open>now3\<close> that of the removal of old entries.\<close>

definition get_accounts_load ::
  "(int list \<Rightarrow> string) \<Rightarrow> string range_order \<Rightarrow> instant \<times> instant \<times> instant \<Rightarrow> slot_cache option \<Rightarrow> (nat \<Rightarrow> fate) \<Rightarrow> bool \<Rightarrow>
   (int \<times> int) list \<Rightarrow> load_cache \<Rightarrow> slot_store \<Rightarrow> (int, load_info) gomap option \<times> load_cache \<times> slot_store" where
  "get_accounts_load sha ord nows oc fs allow xs lc st =
     (case nows of (now1, now2, now3) \<Rightarrow>
      if xs = [] \<or> oc = None then (Some [], lc, st)
      else if \<not> allow \<or> lc_ttl lc \<le> 0 then
        (case fetch_accounts_load oc fs xs st of (r, st1) \<Rightarrow> (r, lc, st1))
      else let key = load_batch_key sha xs in
        case get_cached_loads key now1 (lc_entries lc) of
          (Some loads, m1) \<Rightarrow> (Some loads, lc\<lparr>lc_entries := m1\<rparr>, st)
        | (None, m1) \<Rightarrow>
            (case get_cached_loads key now2 m1 of
               (Some loads, m2) \<Rightarrow> (Some loads, lc\<lparr>lc_entries := m2\<rparr>, st)
             | (None, m2) \<Rightarrow>
                 (case fetch_accounts_load oc fs xs st of
                    (None, st1) \<Rightarrow> (None, lc\<lparr>lc_entries := m2\<rparr>, st1)
                  | (Some loads, st1) \<Rightarrow>
                      (Some loads, lc\<lparr>lc_entries := store_cached_loads ord now3 key
                         \<lparr>lb_loads = loads, lb_expires = now2 + lc_ttl lc\<rparr> m2\<rparr>, st1))))"

section \<open>Leases of websocket clients\<close>

datatype ingress_answer = Ingress_free | Ingress_lease int string | Ingress_full | Ingress_error

definition service_acquire_ingress ::
  "slot_cache option \<Rightarrow> fate \<Rightarrow> string \<Rightarrow> int \<Rightarrow> int \<Rightarrow> nat \<Rightarrow> slot_store \<Rightarrow> ingress_answer \<times> nat \<times> slot_store" where
  "service_acquire_ingress oc f pfx i limit seq st =
     (if limit \<le> 0 then (Ingress_free, seq, st)
      else if oc = None \<or> i \<le> 0 then (Ingress_error, seq, st)
      else let lease = generate_request_id pfx (seq + 1) in
        case cache_acquire_ingress_lease f i limit lease st of
          (None, st1) \<Rightarrow> (Ingress_error, seq + 1, st1)
        | (Some True, st1) \<Rightarrow> (Ingress_lease i lease, seq + 1, st1)
        | (Some False, st1) \<Rightarrow> (Ingress_full, seq + 1, st1))"

definition ingress_lease_ttl :: duration where
  "ingress_lease_ttl = 60 * second"

definition ingress_refresh_interval :: duration where
  "ingress_refresh_interval = 20 * second"

text \<open>One renewal: the answer of the cache, the time after it, and the time when the lease was last confirmed.
  The second part of the result says that the lease is lost.\<close>

definition lease_refresh :: "bool option \<Rightarrow> instant \<Rightarrow> instant \<Rightarrow> instant \<times> bool" where
  "lease_refresh answer now confirmed =
     (if answer = Some True then (now, False)
      else (confirmed, answer = Some False \<or> ingress_lease_ttl \<le> now - confirmed))"

text \<open>The loop of renewals: the answers with their times; \<open>None\<close> once the context of the client is cancelled.\<close>

fun refresh_loop :: "(bool option \<times> instant) list \<Rightarrow> instant \<Rightarrow> instant option" where
  "refresh_loop [] confirmed = Some confirmed"
| "refresh_loop ((answer, now) # ticks) confirmed =
     (case lease_refresh answer now confirmed of
        (t, True) \<Rightarrow> None
      | (t, False) \<Rightarrow> refresh_loop ticks t)"


section \<open>Waiting for a slot\<close>

text \<open>\<^verbatim>\<open>internal/handler/gateway_helper.go\<close>: a request without a slot enters the queue of its user and polls. What
  wakes the loop is an event: the context is done (with or without the request), a ping is due and its
  write succeeds or not, or the timer fires and the store is called. \<open>seq\<close> is the number of ids the process has made.\<close>

datatype wait_event = Wait_done bool | Wait_ping bool | Wait_timer "nat \<Rightarrow> fate"

datatype slot_error = Store_failed | Request_cancelled | Wait_timed_out | Ping_failed | No_flusher | Queue_full

type_synonym slot_result = "slot_error + slot_release"

fun wait_loop ::
  "slot_cache \<Rightarrow> string \<Rightarrow> slot_index \<Rightarrow> int \<Rightarrow> int \<Rightarrow> bool \<Rightarrow> wait_event list \<Rightarrow> nat \<Rightarrow> slot_store \<Rightarrow> slot_result option \<times> nat \<times> slot_store" where
  "wait_loop c pfx ix i limit pings [] seq st = (None, seq, st)"
| "wait_loop c pfx ix i limit pings (Wait_done parent # es) seq st =
     (Some (Inl (if parent then Request_cancelled else Wait_timed_out)), seq, st)"
| "wait_loop c pfx ix i limit pings (Wait_ping written # es) seq st =
     (if \<not> pings \<or> written then wait_loop c pfx ix i limit pings es seq st else (Some (Inl Ping_failed), seq, st))"
| "wait_loop c pfx ix i limit pings (Wait_timer fs # es) seq st =
     (case service_acquire_slot c fs pfx ix i limit seq st of
        (None, seq1, st1) \<Rightarrow> (Some (Inl Store_failed), seq1, st1)
      | (Some r, seq1, st1) \<Rightarrow>
          (case ar_release r of
             Some rel \<Rightarrow> (Some (Inr rel), seq1, st1)
           | None \<Rightarrow> wait_loop c pfx ix i limit pings es seq1 st1))"

text \<open>\<open>waitForSlotWithPingTimeout\<close>: \<open>fs\<close> is met by the try at once, if there is one.\<close>

definition wait_for_slot ::
  "slot_cache \<Rightarrow> string \<Rightarrow> slot_index \<Rightarrow> int \<Rightarrow> int \<Rightarrow> bool \<Rightarrow> bool \<Rightarrow> bool \<Rightarrow> (nat \<Rightarrow> fate) option \<Rightarrow> wait_event list \<Rightarrow> nat \<Rightarrow> slot_store \<Rightarrow>
   slot_result option \<times> nat \<times> slot_store" where
  "wait_for_slot c pfx ix i limit is_stream has_ping flushes now_fs es seq st =
     (let needs_ping = is_stream \<and> has_ping;
          poll = (\<lambda>seq st. if needs_ping \<and> \<not> flushes then (Some (Inl No_flusher), seq, st)
             else wait_loop c pfx ix i limit needs_ping es seq st) in
      case now_fs of
        None \<Rightarrow> poll seq st
      | Some fs \<Rightarrow>
          (case service_acquire_slot c fs pfx ix i limit seq st of
             (None, seq1, st1) \<Rightarrow> (Some (Inl Store_failed), seq1, st1)
           | (Some r, seq1, st1) \<Rightarrow>
               (case ar_release r of Some rel \<Rightarrow> (Some (Inr rel), seq1, st1) | None \<Rightarrow> poll seq1 st1)))"

definition user_queue_limit :: "int \<Rightarrow> int" where
  "user_queue_limit limit = (let q = calculate_max_wait limit - limit in if q < 1 then 1 else q)"

text \<open>\<open>AcquireUserSlotWithWait\<close>, without the slot of the API key that is only counted: \<open>fs\<close>, \<open>gs\<close> and \<open>hs\<close>
  are met by the first try, the entry into the queue and the way out of it. A loop that has not ended
  has the result \<open>None\<close> and has not left the queue.\<close>

definition acquire_user_with_wait ::
  "slot_cache \<Rightarrow> string \<Rightarrow> int \<Rightarrow> int \<Rightarrow> bool \<Rightarrow> bool \<Rightarrow> bool \<Rightarrow> (nat \<Rightarrow> fate) \<Rightarrow> (nat \<Rightarrow> fate) \<Rightarrow> wait_event list \<Rightarrow> (nat \<Rightarrow> fate) \<Rightarrow> nat \<Rightarrow> slot_store \<Rightarrow>
   slot_result option \<times> nat \<times> slot_store" where
  "acquire_user_with_wait c pfx user limit is_stream has_ping flushes fs gs es hs seq st =
     (case service_acquire_slot c fs pfx User_index user limit seq st of
        (None, seq1, st1) \<Rightarrow> (Some (Inl Store_failed), seq1, st1)
      | (Some r, seq1, st1) \<Rightarrow>
          (case ar_release r of
             Some rel \<Rightarrow> (Some (Inr rel), seq1, st1)
           | None \<Rightarrow>
               (case service_increment_wait (Some c) gs User_index user (user_queue_limit limit) st1 of
                  (False, st2) \<Rightarrow> (Some (Inl Queue_full), seq1, st2)
                | (True, st2) \<Rightarrow>
                    (case wait_for_slot c pfx User_index user limit is_stream has_ping flushes None es seq1 st2 of
                       (None, seq3, st3) \<Rightarrow> (None, seq3, st3)
                     | (Some res, seq3, st3) \<Rightarrow> (Some res, seq3, service_decrement_wait (Some c) hs User_index user st3)))))"

text \<open>\<open>nextBackoff\<close>: \<open>jitter\<close> is the product with the random factor.\<close>

definition next_backoff :: "(duration \<Rightarrow> duration) \<Rightarrow> duration \<Rightarrow> duration" where
  "next_backoff jitter current =
     (let nxt = min (current * 3 div 2) (2 * second); j = jitter nxt in
      if j < 100 * millisecond then 100 * millisecond else if j > 2 * second then 2 * second else j)"

section \<open>Places in the queue\<close>

lemma acquire_keeps_waits:
  assumes "service_acquire_slot c fs pfx ix i limit seq st = (r, seq1, st1)" "waits_within w st"
  shows "waits_within w st1"
proof -
  have "waits_within w (snd (acquire_slot c fs ix i limit rid st))" for rid
    by (rule keepsD [OF waits.acquiring assms(2)]) simp
  then show ?thesis
    using assms by (auto simp: service_acquire_slot_def Let_def split: if_splits prod.splits option.splits bool.splits) (metis snd_conv)+
qed

lemma loop_keeps_waits:
  "wait_loop c pfx ix i limit pings es seq st = (r, seq1, st1) \<Longrightarrow> waits_within w st \<Longrightarrow> waits_within w st1"
proof (induction es arbitrary: seq st r seq1 st1)
  case (Cons e es)
  from Cons.prems show ?case
    by (cases e) (auto split: if_splits prod.splits option.splits dest: Cons.IH acquire_keeps_waits)
qed simp

lemma wait_keeps_waits:
  "wait_for_slot c pfx ix i limit b1 b2 b3 None es seq st = (r, seq1, st1) \<Longrightarrow> waits_within w st \<Longrightarrow> waits_within w st1"
  by (auto simp: wait_for_slot_def Let_def split: if_splits dest: loop_keeps_waits)

lemma waits_settle: "waits_within w st \<Longrightarrow> waits_within w (redis_settle clk st)"
  by (rule waits.settle)

lemma waits_raise: "waits_within w st \<Longrightarrow> waits_within (w(k := w k + 1)) st"
  unfolding waits_within_def by (metis fun_upd_apply order_trans zle_add1_eq_le less_le zless_add1_eq)

lemma script_up_waits:
  assumes "waits_within w st" "0 \<le> w k"
  shows "waits_within (w(k := w k + 1)) (snd (increment_wait_script k m ttl clk st))"
    and "\<not> fst (fst (increment_wait_script k m ttl clk st)) \<Longrightarrow> waits_within w (snd (increment_wait_script k m ttl clk st))"
  using assms by (auto simp: increment_wait_script_def waits_within_def wait_value_def split: option.splits if_splits) (smt (verit))+

lemma up_waits:
  assumes "service_increment_wait (Some c) gs ix i max_wait st = (r, st1)" "waits_within w st" "0 \<le> w (index_wait_key ix i)"
  shows "waits_within (w(index_wait_key ix i := w (index_wait_key ix i) + 1)) st1" and "\<not> r \<Longrightarrow> waits_within w st1"
proof -
  let ?k = "index_wait_key ix i" let ?w = "w(?k := w ?k + 1)"
  let ?call = "redis_call (gs 0) (increment_wait_script ?k max_wait (sc_wait_ttl c)) st"
  obtain n clk where f: "gs 0 = (n, clk)" by fastforce
  let ?res = "increment_wait_script ?k max_wait (sc_wait_ttl c) clk (redis_settle clk st)"
  have st2: "waits_within ?w (snd ?call)"
    using script_up_waits(1) [OF waits_settle [OF assms(2)] assms(3)] waits_raise [OF assms(2)]
    by (auto simp: redis_call_def f split: prod.split) (metis snd_conv)+
  with assms(1) show "waits_within ?w st1"
    by (auto simp: service_increment_wait_def cache_increment_wait_def split: prod.splits option.splits if_splits intro: waits.touching)
  assume "\<not> r"
  with assms(1) have "fst ?call = Some (False, snd (the (fst ?call)))" "st1 = snd ?call"
    by (auto simp: service_increment_wait_def cache_increment_wait_def split: prod.splits option.splits if_splits)
  moreover then have "n = Net_ok" "\<not> fst (fst ?res)" "snd ?call = snd ?res"
    by (auto simp: redis_call_def f split: prod.splits if_splits)
  ultimately show "waits_within w st1"
    using script_up_waits(2) [OF waits_settle [OF assms(2)] assms(3)] by simp
qed

lemma script_down_waits:
  assumes "waits_within (w(k := w k + 1)) st" "0 \<le> w k"
  shows "waits_within w (snd (decrement_wait_script k clk st))"
proof -
  have other: "0 \<le> n \<and> n \<le> w q" if "sl_waits st q = Some (n, e)" "q \<noteq> k" for q n e
    using assms(1) that unfolding waits_within_def by (metis fun_upd_other)
  have own: "0 \<le> n \<and> n \<le> w k + 1" if "sl_waits st k = Some (n, e)" for n e
    using assms(1) that unfolding waits_within_def by (metis fun_upd_same)
  have "0 \<le> n \<and> n \<le> w q" if n: "sl_waits (snd (decrement_wait_script k clk st)) q = Some (n, e)" for q n e
  proof (cases "q = k")
    case True
    with n own assms(2) show ?thesis by (fastforce simp: decrement_wait_script_def split: option.splits if_splits)
  next
    case False
    with n have "sl_waits st q = Some (n, e)" by (auto simp: decrement_wait_script_def split: option.splits if_splits)
    with False show ?thesis by (rule other [rotated])
  qed
  then show ?thesis unfolding waits_within_def by blast
qed

lemma down_waits:
  assumes "waits_within (w(index_wait_key ix i := w (index_wait_key ix i) + 1)) st" "0 \<le> w (index_wait_key ix i)"
    and "fst (hs 0) \<noteq> Net_down"
  shows "waits_within w (service_decrement_wait (Some c) hs ix i st)"
proof -
  let ?k = "index_wait_key ix i"
  let ?call = "redis_call (hs 0) (decrement_wait_script ?k) st"
  have "waits_within w (snd ?call)"
    using script_down_waits [OF waits_settle [OF assms(1)] assms(2)] assms(3)
    by (auto simp: redis_call_def split: prod.split) (metis snd_conv)+
  then show ?thesis
    by (auto simp: service_decrement_wait_def cache_decrement_wait_def split: prod.split option.split intro: waits.refreshing)
qed

text \<open>C35: A request that waits for a slot of its user takes its place in the queue back. Whatever the calls of the
  store meet and however the wait ends (a slot, a full queue, a timeout, a cancelled request, an error), no counter of waiting
  requests is higher afterwards than it was allowed to be before, provided the call that leaves the queue reaches the store.\<close>

theorem queue_place_returned:
  assumes "waits_within w st" "0 \<le> w (wait_queue_key user)" "fst (hs 0) \<noteq> Net_down"
    and "acquire_user_with_wait c pfx user limit is_stream has_ping flushes fs gs es hs seq st = (Some res, seq', st')"
  shows "waits_within w st'"
proof -
  have k: "index_wait_key User_index user = wait_queue_key user" by simp
  let ?w = "w(wait_queue_key user := w (wait_queue_key user) + 1)"
  have down: "waits_within w (service_decrement_wait (Some c) hs User_index user st3)" if "waits_within ?w st3" for st3
    using down_waits [where ix = User_index and i = user, unfolded k] that assms(2,3) by blast
  have up: "waits_within ?w st2" "\<not> r \<Longrightarrow> waits_within w st2"
    if "service_increment_wait (Some c) gs User_index user m st1 = (r, st2)" "waits_within w st1" for m st1 r st2
    using up_waits [where ix = User_index and i = user, unfolded k] that assms(2) by blast+
  show ?thesis
    using assms(1,4) unfolding acquire_user_with_wait_def
    by (auto split: prod.splits option.splits bool.splits dest: acquire_keeps_waits up wait_keeps_waits intro: down)
qed


lemma settle_waits: "sl_waits (redis_settle clk st) k = (case sl_waits st k of None \<Rightarrow> None | Some (n, e) \<Rightarrow> if e \<le> clk then None else Some (n, e))"
  by (simp add: redis_settle_def)

lemma touch_waits:
  "sl_waits (touch_active_index (all_ok clk n) ix i t st) k \<in> {sl_waits st k, sl_waits (redis_settle clk st) k}"
  by (auto simp: touch_active_index_def answered)

lemma refresh_waits:
  assumes "sl_waits st k = Some (n, e)" "clk < e"
  shows "sl_waits (refresh_active_index c (all_ok clk) ix i st) k = Some (n, e)"
  using assms by (auto simp: refresh_active_index_def read_time_def answered active_load_def Let_def touch_active_index_def settle_waits)

text \<open>C36: A waiter the store does not know of takes the place of another. When the queue of a user is full, a request whose call to
  enter it does not reach the store waits nevertheless, and leaves the counter one lower when it goes: the next request then
  enters the queue although nobody else has left it.\<close>

theorem unrecorded_waiter_frees_place:
  assumes "sl_waits (redis_settle clk st) (wait_queue_key user) = Some (max_wait, e)" "0 < max_wait"
  shows "fst (service_increment_wait (Some c) (all_ok clk) User_index user max_wait st) = False \<and>
    (case service_increment_wait (Some c) (\<lambda>_. (Net_down, clk)) User_index user max_wait st of (ok, st1) \<Rightarrow>
       ok \<and> fst (service_increment_wait (Some c) (all_ok clk) User_index user max_wait
         (service_decrement_wait (Some c) (all_ok clk) User_index user st1)) = True)"
proof -
  let ?k = "wait_queue_key user"
  have e: "clk < e" "sl_waits st ?k = Some (max_wait, e)"
    using assms(1) by (auto simp: settle_waits split: option.splits if_splits)
  have full: "increment_wait_script ?k max_wait (sc_wait_ttl c) clk (redis_settle clk st) = ((False, redis_seconds clk), redis_settle clk st)"
    using assms(1) by (simp add: increment_wait_script_def wait_value_def)
  have down: "service_increment_wait (Some c) (\<lambda>_. (Net_down, clk)) User_index user max_wait st = (True, st)"
    by (simp add: service_increment_wait_def cache_increment_wait_def redis_call_def)
  have "sl_waits (snd (decrement_wait_script ?k clk (redis_settle clk st))) ?k = Some (max_wait - 1, e)"
    using assms by (simp add: decrement_wait_script_def)
  then have left: "sl_waits (service_decrement_wait (Some c) (all_ok clk) User_index user st) ?k = Some (max_wait - 1, e)"
    using refresh_waits e(1) by (simp add: service_decrement_wait_def cache_decrement_wait_def answered)
  have "fst (service_increment_wait (Some c) (all_ok clk) User_index user max_wait st') = True"
    if "sl_waits st' ?k = Some (max_wait - 1, e)" for st'
    using that e(1) by (simp add: service_increment_wait_def cache_increment_wait_def answered increment_wait_script_def wait_value_def settle_waits)
  with full down left show ?thesis
    by (simp add: service_increment_wait_def [of "Some c" "all_ok clk"] cache_increment_wait_def answered)
qed

section \<open>Leases and loads\<close>

text \<open>A websocket client whose lease is not lost is confirmed. While the loop of renewals goes on, the store never denied the
  lease, and every renewal since the last confirmation failed without an answer, less than the life of the lease after it.\<close>

theorem lease_alive_confirmed:
  assumes "refresh_loop ticks start = Some t"
  shows "\<exists>as bs. ticks = as @ bs \<and> (as = [] \<and> t = start \<or> as \<noteq> [] \<and> last as = (Some True, t)) \<and>
    (\<forall>(answer, now) \<in> set bs. answer = None \<and> now < t + ingress_lease_ttl)"
  using assms
proof (induction ticks arbitrary: start)
  case (Cons x ticks)
  obtain answer now where x: "x = (answer, now)" by fastforce
  from Cons.prems x have step: "\<not> snd (lease_refresh answer now start)" "refresh_loop ticks (fst (lease_refresh answer now start)) = Some t"
    by (auto split: prod.splits bool.splits)
  from Cons.IH [OF step(2)] obtain as bs where IH: "ticks = as @ bs"
    "as = [] \<and> t = fst (lease_refresh answer now start) \<or> as \<noteq> [] \<and> last as = (Some True, t)"
    "\<forall>(answer, now) \<in> set bs. answer = None \<and> now < t + ingress_lease_ttl" by blast
  show ?case
  proof (cases "as = [] \<and> answer \<noteq> Some True")
    case True
    with IH step(1) have "t = start" "answer = None" "now < start + ingress_lease_ttl"
      by (auto simp: lease_refresh_def split: if_splits) (cases answer; auto)+
    with IH True x show ?thesis by (intro exI [of _ "[]"] exI [of _ "x # bs"]) auto
  next
    case False
    with IH x show ?thesis by (intro exI [of _ "x # as"] exI [of _ bs]) (auto simp: lease_refresh_def)
  qed
qed simp

lemma evict_ok: "order_ok ord \<Longrightarrow> gm_ok m \<Longrightarrow> gm_ok (evict_loads ord n m)"
  by (induction n arbitrary: m) (auto split: list.split)

lemma evict_get: "gm_ok m \<Longrightarrow> gm_get (evict_loads ord n m) q = Some v \<Longrightarrow> gm_get m q = Some v"
proof (induction n arbitrary: m)
  case (Suc n)
  show ?case
  proof (cases "ord (map fst m)")
    case (Cons k ks)
    have "gm_get (gm_delete k m) q = Some v"
      by (rule Suc.IH) (use Suc.prems Cons in simp_all)
    with Suc.prems(1) show ?thesis by (simp split: if_splits)
  qed (use Suc in simp)
qed simp

lemma evict_len: "order_ok ord \<Longrightarrow> gm_ok m \<Longrightarrow> gm_len (evict_loads ord n m) = gm_len m - n"
proof (induction n arbitrary: m)
  case (Suc n)
  show ?case
  proof (cases "ord (map fst m)")
    case Nil
    then have "m = []" using order_ok_length [OF Suc.prems(1), of "map fst m"] by simp
    with Suc Nil show ?thesis by simp
  next
    case (Cons k ks)
    then have "k \<in> gm_keys m" using order_ok_set [OF Suc.prems(1), of "map fst m"] by (auto simp: gm_keys_def)
    then have "gm_len (gm_delete k m) = gm_len m - 1" using gm_len_delete [OF Suc.prems(2), of k] by (auto dest: gm_keys_get)
    with Suc Cons show ?thesis by simp
  qed
qed simp

interpretation load_table: forgetful_table "\<lambda>(ord, now). order_ok ord" gm_ok gm_get gm_len max_load_entries
  "\<lambda>(ord, now). store_cached_loads ord now" gm_delete "\<lambda>(ord, now). drop_expired_loads now"
proof (unfold_locales, goal_cases)
  case (5 a m k' k v w)
  obtain ord now where a: "a = (ord, now)" by fastforce
  have "gm_get m k' = Some w" if "gm_get (evict_loads ord n (drop_expired_loads now m)) k' = Some w" for n
  proof -
    have "gm_get (drop_expired_loads now m) k' = Some w"
      by (rule evict_get [OF _ that]) (simp add: drop_expired_loads_def 5(2))
    then show ?thesis by (simp add: drop_expired_loads_def gm_get_filter 5(2) split: option.splits if_splits)
  qed
  with 5 a show ?case by (auto simp: store_cached_loads_def Let_def split: if_splits)
next
  case (9 a m k v)
  then show ?case
    using gm_len_filter [of "\<lambda>k b. snd a < lb_expires b" m]
    by (auto simp: store_cached_loads_def drop_expired_loads_def Let_def gm_len_set evict_len max_load_entries_def split: prod.splits)
qed (auto simp: store_cached_loads_def drop_expired_loads_def Let_def evict_ok gm_get_filter gm_len_delete gm_len_filter split: option.splits if_splits)


text \<open>Calls of the service with the history of what was fetched for the cache: the key, the loads, the time and the time to live then.\<close>

type_synonym load_history = "(string \<times> (int, load_info) gomap \<times> instant \<times> duration) list"

definition load_event ::
  "(int list \<Rightarrow> string) \<Rightarrow> instant \<times> instant \<times> instant \<Rightarrow> slot_cache option \<Rightarrow> (nat \<Rightarrow> fate) \<Rightarrow> bool \<Rightarrow> (int \<times> int) list \<Rightarrow> load_cache \<Rightarrow> slot_store \<Rightarrow>
   load_history" where
  "load_event sha nows oc fs allow xs lc st =
     (case nows of (now1, now2, now3) \<Rightarrow>
      if xs = [] \<or> oc = None \<or> \<not> allow \<or> lc_ttl lc \<le> 0 then []
      else let key = load_batch_key sha xs in
        case get_cached_loads key now1 (lc_entries lc) of
          (Some _, _) \<Rightarrow> []
        | (None, m1) \<Rightarrow>
            (case (fst (get_cached_loads key now2 m1), fst (fetch_accounts_load oc fs xs st)) of
               (None, Some loads) \<Rightarrow> [(key, loads, now2, lc_ttl lc)]
             | _ \<Rightarrow> []))"

inductive loads_reach :: "(int list \<Rightarrow> string) \<Rightarrow> load_cache \<Rightarrow> load_history \<Rightarrow> bool" for sha where
  loads_start: "loads_reach sha new_load_cache []"
| loads_ttl: "loads_reach sha lc h \<Longrightarrow> loads_reach sha (set_load_ttl ttl lc) h"
| loads_call: "loads_reach sha lc h \<Longrightarrow> order_ok ord \<Longrightarrow>
    get_accounts_load sha ord nows oc fs allow xs lc st = (r, lc', st') \<Longrightarrow>
    loads_reach sha lc' (load_event sha nows oc fs allow xs lc st @ h)"

definition fetched_batch :: "load_history \<Rightarrow> string \<Rightarrow> load_batch option" where
  "fetched_batch h key = map_option (\<lambda>(loads, t, ttl). \<lparr>lb_loads = loads, lb_expires = t + ttl\<rparr>) (map_of h key)"

lemma covers_less: "load_table.covers m f \<Longrightarrow> f \<subseteq>\<^sub>m g \<Longrightarrow> load_table.covers m g"
  unfolding load_table.covers_def map_le_def by (metis domI)

lemma covers_delete: "load_table.covers m f \<Longrightarrow> load_table.covers (gm_delete k m) f"
  by (rule covers_less [OF load_table.covers_del]) (auto simp: map_le_def)

lemma covers_get: "load_table.covers m f \<Longrightarrow> get_cached_loads key now m = (r, m') \<Longrightarrow> load_table.covers m' f"
  by (auto simp: get_cached_loads_def covers_delete split: option.splits if_splits)

lemma covers_store:
  assumes "load_table.covers m f" "order_ok ord"
  shows "load_table.covers (store_cached_loads ord now key b m) (f(key := Some b))"
  using load_table.covers_put [OF assms(1), of "(ord, now)" key b] assms(2) by simp

lemma fetched_Cons:
  "fetched_batch ((key, loads, t, ttl) # h) = (fetched_batch h)(key := Some \<lparr>lb_loads = loads, lb_expires = t + ttl\<rparr>)"
  by (auto simp: fetched_batch_def fun_eq_iff)

lemma loads_covered: "loads_reach sha lc h \<Longrightarrow> load_table.covers (lc_entries lc) (fetched_batch h)"
proof (induction rule: loads_reach.induct)
  case loads_start
  show ?case by (simp add: new_load_cache_def load_table.covers_def)
next
  case (loads_ttl lc h ttl)
  then show ?case by (auto simp: set_load_ttl_def load_table.covers_def)
next
  case (loads_call lc h ord nows oc fs allow xs st r lc' st')
  obtain now1 now2 now3 where n: "nows = (now1, now2, now3)" by (cases nows)
  let ?key = "load_batch_key sha xs"
  show ?case
  proof (cases "xs = [] \<or> oc = None \<or> \<not> allow \<or> lc_ttl lc \<le> 0")
    case True
    with loads_call n show ?thesis
      by (auto simp: get_accounts_load_def load_event_def split: if_splits prod.splits)
  next
    case False
    obtain r1 m1 where g1: "get_cached_loads ?key now1 (lc_entries lc) = (r1, m1)" by fastforce
    obtain r2 m2 where g2: "get_cached_loads ?key now2 m1 = (r2, m2)" by fastforce
    obtain r3 st1 where f: "fetch_accounts_load oc fs xs st = (r3, st1)" by fastforce
    have m1: "load_table.covers m1 (fetched_batch h)" by (rule covers_get [OF loads_call.IH g1])
    have m2: "load_table.covers m2 (fetched_batch h)" by (rule covers_get [OF m1 g2])
    have stored: "load_table.covers (store_cached_loads ord now3 ?key b m2) ((fetched_batch h)(?key := Some b))" for b
      by (rule covers_store [OF m2 loads_call.hyps(2)])
    show ?thesis
      using loads_call.hyps(2,3) False n g1 g2 f m1 m2
      by (cases r1; cases r2; cases r3)
         (auto simp: get_accounts_load_def load_event_def Let_def fetched_Cons stored)
  qed
qed

text \<open>Cached loads are recent. The cache of loads holds at most 256 answers, and an answer it gives is what the latest fetch
  for the same accounts and limits read from the store, given less than the time to live of that fetch after it.\<close>

theorem cached_loads_recent:
  assumes "loads_reach sha lc h" "get_cached_loads key now (lc_entries lc) = (Some loads, m)"
  shows "gm_len (lc_entries lc) \<le> 256 \<and> (\<exists>t ttl. map_of h key = Some (loads, t, ttl) \<and> now < t + ttl)"
proof -
  from assms(2) obtain b where b: "gm_get (lc_entries lc) key = Some b" "lb_loads b = loads" "now < lb_expires b"
    by (auto simp: get_cached_loads_def split: option.splits if_splits)
  from load_table.covers_lookup [OF loads_covered [OF assms(1)] b(1)]
  obtain t ttl where "map_of h key = Some (loads, t, ttl)" "lb_expires b = t + ttl"
    using b(2) by (auto simp: fetched_batch_def)
  with b(3) load_table.covers_bound [OF loads_covered [OF assms(1)]] show ?thesis by (auto simp: max_load_entries_def)
qed


section \<open>Examples\<close>

text \<open>The only slot of user 3 is taken; its next request does not reach the queue, waits and gives up.\<close>

definition demo_busy :: slot_store where
  "demo_busy = empty_slots\<lparr>sl_sets := (\<lambda>k. if k = user_slot_key 3 then \<lparr>zk_members = [(''r9-1'', 5)], zk_expiry = None\<rparr> else no_zkey)\<rparr>"

definition demo_wait :: "slot_result option \<times> nat \<times> slot_store" where
  "demo_wait = acquire_user_with_wait demo_cache ''r1'' 3 1 False False False (all_ok 5000) (\<lambda>_. (Net_down, 5000))
     [Wait_done False] (all_ok 5000) 0 demo_busy"

lemma demo_busy_answer: "fst (acquire_slot demo_cache (all_ok 5000) User_index 3 1 ''r1-1'' demo_busy) = Some False"
  by code_simp

lemma demo_wait_result: "fst demo_wait = Some (Inl Wait_timed_out)"
proof -
  have id: "generate_request_id ''r1'' (Suc 0) = ''r1-1''" by code_simp
  obtain st1 where "acquire_slot demo_cache (all_ok 5000) User_index 3 1 ''r1-1'' demo_busy = (Some False, st1)"
    using demo_busy_answer by (metis prod.collapse)
  then have "service_acquire_slot demo_cache (all_ok 5000) ''r1'' User_index 3 1 0 demo_busy =
      (Some \<lparr>ar_acquired = False, ar_release = None\<rparr>, 1, st1)"
    by (simp add: service_acquire_slot_def id)
  then show ?thesis
    by (simp add: demo_wait_def acquire_user_with_wait_def service_increment_wait_def cache_increment_wait_def redis_call_def wait_for_slot_def)
qed

lemma waits_busy: "waits_within w demo_busy"
  by (simp add: waits_within_def empty_slots_def demo_busy_def)

lemma queue_place_returned_witness: "waits_within (\<lambda>_. 0) (snd (snd demo_wait))"
proof (rule queue_place_returned [OF waits_busy])
  show "acquire_user_with_wait demo_cache ''r1'' 3 1 False False False (all_ok 5000) (\<lambda>_. (Net_down, 5000))
     [Wait_done False] (all_ok 5000) 0 demo_busy = (Some (Inl Wait_timed_out), fst (snd demo_wait), snd (snd demo_wait))"
    using demo_wait_result by (metis demo_wait_def prod.collapse)
qed (simp_all add: all_ok_def)

lemma unrecorded_waiter_frees_place_witness:
  "fst (service_increment_wait (Some demo_cache) (all_ok 5000) User_index 3 1 (empty_slots\<lparr>sl_waits := [wait_queue_key 3 \<mapsto> (1, 9000)]\<rparr>)) = False"
  using unrecorded_waiter_frees_place [of 5000 "empty_slots\<lparr>sl_waits := [wait_queue_key 3 \<mapsto> (1, 9000)]\<rparr>" 3 1 9000 demo_cache]
  by (simp add: settle_waits)

lemma lease_alive_confirmed_witness:
  "\<exists>as bs. [(Some True, 20 * second), (None, 40 * second)] = as @ bs \<and>
    (as = [] \<and> 20 * second = 0 \<or> as \<noteq> [] \<and> last as = (Some True, 20 * second)) \<and>
    (\<forall>(answer, now) \<in> set bs. answer = None \<and> now < 20 * second + ingress_lease_ttl)"
  by (rule lease_alive_confirmed) (simp add: lease_refresh_def ingress_lease_ttl_def second_def)

definition demo_loads :: "(int, load_info) gomap option \<times> load_cache \<times> slot_store" where
  "demo_loads = get_accounts_load (\<lambda>_. ''h'') id (0, 0, 0) (Some demo_cache) (all_ok 5000) True [(7, 2)] new_load_cache empty_slots"

lemma cached_loads_recent_witness:
  "gm_len (lc_entries (fst (snd demo_loads))) \<le> 256 \<and>
   (\<exists>t ttl. map_of (load_event (\<lambda>_. ''h'') (0, 0, 0) (Some demo_cache) (all_ok 5000) True [(7, 2)] new_load_cache empty_slots @ []) ''1:h'' =
      Some ([(7, \<lparr>ld_id = 7, ld_current = 0, ld_waiting = 0, ld_rate = 0\<rparr>)], t, ttl) \<and> 100 * millisecond < t + ttl)"
proof (rule cached_loads_recent)
  show "loads_reach (\<lambda>_. ''h'') (fst (snd demo_loads))
      (load_event (\<lambda>_. ''h'') (0, 0, 0) (Some demo_cache) (all_ok 5000) True [(7, 2)] new_load_cache empty_slots @ [])"
    by (rule loads_call [OF loads_start order_ok_id(1), where r = "fst demo_loads" and st' = "snd (snd demo_loads)"])
       (simp add: demo_loads_def)
  show "get_cached_loads ''1:h'' (100 * millisecond) (lc_entries (fst (snd demo_loads))) =
      (Some [(7, \<lparr>ld_id = 7, ld_current = 0, ld_waiting = 0, ld_rate = 0\<rparr>)], lc_entries (fst (snd demo_loads)))"
    by code_simp
qed

end
