(* ===== verification/BatchMoney.thy ===== *)
theory BatchMoney
  imports GoFloats RedisKeys
begin

text \<open>
  The money of batch-image jobs (\<^verbatim>\<open>service/batch_image_billing_hold.go\<close>, \<^verbatim>\<open>service/usage_billing.go\<close>,
  \<^verbatim>\<open>repository/usage_billing_repo.go\<close>): a hold moves an amount of a user from the balance to the frozen
  balance, a capture pays the actual cost out of it and returns the rest, a release returns all of it. Each is
  one transaction that first claims its request id. Amounts are rationals: floating-point rounding is left out.
\<close>

section \<open>Tables and errors\<close>

datatype batch_error =
    B_store
  | B_request_id_required
  | B_request_conflict
  | B_user_not_found
  | B_insufficient_balance
  | B_frozen_insufficient
  | B_cost_exceeds_hold
  | B_hold_failed "batch_error option"
  | B_billing_failed "batch_error option"
  | B_missing_api_key
  | B_missing_account
  | B_job_not_found
  | B_job_exists
  | B_invalid_transition
  | B_invalid_provider
  | B_unsupported_provider
  | B_unsupported_account
  | B_missing_provider_job
  | B_invalid_status
  | B_already_settled
  | B_manifest_conflict
  | B_pricing_missing
  | B_invalid_counts
  | B_record_delete_not_ready
  | B_cancel_failed
  | B_queue_failed
  | B_submit_failed
  | B_output_missing
  | B_state_conflict
  | B_parse_failed
  | B_no_result_lines
  | B_duplicate_custom_id
  | B_item_exists
  | B_idempotency_conflict

record bill_user =
  bu_balance :: rat
  bu_frozen :: rat

text \<open>What the transactions did to balances: batch, API key, user, amount held, actual cost. It is a history
  for the statements and not read by any operation.\<close>

datatype hold_move =
    Move_reserve string int int rat
  | Move_capture string int int rat rat
  | Move_release string int int rat

record hold_db =
  hd_users :: "int \<rightharpoonup> bill_user"
  hd_claims :: "string \<times> int \<rightharpoonup> string"
  hd_archive :: "string \<times> int \<rightharpoonup> string"
  hd_moves :: "hold_move list"

text \<open>SHA-256 in hexadecimal and the format \<^verbatim>\<open>%0.10f\<close> are parameters.\<close>

record batch_env =
  be_sha256 :: "string \<Rightarrow> string"
  be_fixed10 :: "rat \<Rightarrow> string"

section \<open>Commands\<close>

record hold_command =
  hc_request :: string
  hc_key :: int
  hc_fingerprint :: string
  hc_payload :: string
  hc_user :: int
  hc_batch :: string
  hc_hold :: rat
  hc_actual :: rat

definition hold_request_id :: "string \<Rightarrow> string" where
  "hold_request_id batch = ''batch_image_hold:'' @ trim_space batch"

definition capture_request_id :: "string \<Rightarrow> string" where
  "capture_request_id batch = ''batch_image_capture:'' @ trim_space batch"

definition release_request_id :: "string \<Rightarrow> string" where
  "release_request_id batch = ''batch_image_release:'' @ trim_space batch"

definition hold_fingerprint :: "batch_env \<Rightarrow> hold_command \<Rightarrow> string" where
  "hold_fingerprint env c =
     (let raw = itoa (hc_user c) @ ''|'' @ itoa (hc_key c) @ ''|'' @ trim_space (hc_batch c) @ ''|''
                  @ be_fixed10 env (hc_hold c) @ ''|'' @ be_fixed10 env (hc_actual c);
          payload = trim_space (hc_payload c)
      in be_sha256 env (if payload \<noteq> [] then raw @ ''|'' @ payload else raw))"

definition normalize_hold :: "batch_env \<Rightarrow> hold_command \<Rightarrow> hold_command" where
  "normalize_hold env c =
     (let c1 = c\<lparr>hc_request := trim_space (hc_request c), hc_batch := trim_space (hc_batch c)\<rparr>
      in if trim_space (hc_fingerprint c1) = [] then c1\<lparr>hc_fingerprint := hold_fingerprint env c1\<rparr> else c1)"

section \<open>Transactions\<close>

text \<open>\<open>INSERT \<dots> ON CONFLICT DO NOTHING\<close>, then the archive. The answer says whether the request is new.\<close>

definition claim_request :: "string \<Rightarrow> int \<Rightarrow> string \<Rightarrow> hold_db \<Rightarrow> batch_error + (bool \<times> hold_db)" where
  "claim_request rid key fp db =
     (case hd_claims db (rid, key) of
        Some old \<Rightarrow> if trim_space old \<noteq> trim_space fp then Inl B_request_conflict else Inr (False, db)
      | None \<Rightarrow>
          (let db1 = db\<lparr>hd_claims := (hd_claims db)((rid, key) \<mapsto> fp)\<rparr>
           in case hd_archive db (rid, key) of
                Some old \<Rightarrow> if trim_space old \<noteq> trim_space fp then Inl B_request_conflict else Inr (False, db1)
              | None \<Rightarrow> Inr (True, db1)))"

definition reserve_tx :: "hold_command \<Rightarrow> hold_db \<Rightarrow> batch_error + (bill_user option \<times> hold_db)" where
  "reserve_tx c db =
     (if hc_hold c \<le> 0 then Inr (None, db)
      else case hd_users db (hc_user c) of
             None \<Rightarrow> Inl B_user_not_found
           | Some u \<Rightarrow>
               if hc_hold c \<le> bu_balance u then
                 (let u1 = u\<lparr>bu_balance := bu_balance u - hc_hold c, bu_frozen := bu_frozen u + hc_hold c\<rparr>
                  in Inr (Some u1, db\<lparr>hd_users := (hd_users db)(hc_user c \<mapsto> u1),
                            hd_moves := Move_reserve (hc_batch c) (hc_key c) (hc_user c) (hc_hold c) # hd_moves db\<rparr>))
               else Inl B_insufficient_balance)"

definition cost_epsilon :: rat where
  "cost_epsilon = 1 / 100000000"

definition capture_tx :: "hold_command \<Rightarrow> hold_db \<Rightarrow> batch_error + (bill_user option \<times> hold_db)" where
  "capture_tx c db =
     (if hc_hold c \<le> 0 \<and> hc_actual c \<le> 0 then Inr (None, db)
      else if cost_epsilon < hc_actual c - hc_hold c then Inl B_cost_exceeds_hold
      else case hd_users db (hc_user c) of
             None \<Rightarrow> Inl B_user_not_found
           | Some u \<Rightarrow>
               if hc_hold c \<le> bu_frozen u then
                 (let u1 = u\<lparr>bu_balance := bu_balance u
                               + (if hc_actual c < hc_hold c then hc_hold c - hc_actual c else 0)
                               - (if hc_hold c < hc_actual c then hc_actual c - hc_hold c else 0),
                             bu_frozen := bu_frozen u - hc_hold c\<rparr>
                  in Inr (Some u1, db\<lparr>hd_users := (hd_users db)(hc_user c \<mapsto> u1),
                            hd_moves := Move_capture (hc_batch c) (hc_key c) (hc_user c) (hc_hold c) (hc_actual c) # hd_moves db\<rparr>))
               else Inl B_frozen_insufficient)"

definition hold_claim_exists :: "string \<Rightarrow> int \<Rightarrow> hold_db \<Rightarrow> bool" where
  "hold_claim_exists rid key db \<longleftrightarrow> hd_claims db (rid, key) \<noteq> None \<or> hd_archive db (rid, key) \<noteq> None"

definition release_tx :: "hold_command \<Rightarrow> hold_db \<Rightarrow> batch_error + (bill_user option \<times> hold_db)" where
  "release_tx c db =
     (if hc_hold c \<le> 0 then Inr (None, db)
      else if \<not> hold_claim_exists (hold_request_id (hc_batch c)) (hc_key c) db then Inr (None, db)
      else case hd_users db (hc_user c) of
             None \<Rightarrow> Inl B_user_not_found
           | Some u \<Rightarrow>
               if hc_hold c \<le> bu_frozen u then
                 (let u1 = u\<lparr>bu_balance := bu_balance u + hc_hold c, bu_frozen := bu_frozen u - hc_hold c\<rparr>
                  in Inr (Some u1, db\<lparr>hd_users := (hd_users db)(hc_user c \<mapsto> u1),
                            hd_moves := Move_release (hc_batch c) (hc_key c) (hc_user c) (hc_hold c) # hd_moves db\<rparr>))
               else Inl B_frozen_insufficient)"

text \<open>A transaction that fails, or whose request was claimed before, is rolled back.\<close>

definition apply_hold ::
  "batch_env \<Rightarrow> (hold_command \<Rightarrow> hold_db \<Rightarrow> batch_error + (bill_user option \<times> hold_db)) \<Rightarrow> hold_command \<Rightarrow> hold_db
     \<Rightarrow> (batch_error + bool \<times> bill_user option) \<times> hold_db" where
  "apply_hold env tx cmd db =
     (let c = normalize_hold env cmd
      in if hc_request c = [] then (Inl B_request_id_required, db)
         else case claim_request (hc_request c) (hc_key c) (hc_fingerprint c) db of
                Inl e \<Rightarrow> (Inl e, db)
              | Inr (fresh, db1) \<Rightarrow>
                  if \<not> fresh then (Inr (False, None), db)
                  else (case tx c db1 of
                          Inl e \<Rightarrow> (Inl e, db)
                        | Inr (u, db2) \<Rightarrow> (Inr (True, u), db2)))"

definition reserve_balance :: "batch_env \<Rightarrow> hold_command \<Rightarrow> hold_db \<Rightarrow> (batch_error + bool \<times> bill_user option) \<times> hold_db" where
  "reserve_balance env = apply_hold env reserve_tx"

definition capture_balance :: "batch_env \<Rightarrow> hold_command \<Rightarrow> hold_db \<Rightarrow> (batch_error + bool \<times> bill_user option) \<times> hold_db" where
  "capture_balance env = apply_hold env capture_tx"

definition release_balance :: "batch_env \<Rightarrow> hold_command \<Rightarrow> hold_db \<Rightarrow> (batch_error + bool \<times> bill_user option) \<times> hold_db" where
  "release_balance env = apply_hold env release_tx"

text \<open>A call of the store over the network: it may commit without its answer coming back, or not reach it.\<close>

definition store_call :: "net \<Rightarrow> 'd \<Rightarrow> (batch_error + 'a) \<times> 'd \<Rightarrow> (batch_error + 'a) \<times> 'd" where
  "store_call n db res =
     (case n of Net_ok \<Rightarrow> res | Net_lost \<Rightarrow> (Inl B_store, snd res) | Net_down \<Rightarrow> (Inl B_store, db))"

end
