(* ===== verification/BatchJobs.thy ===== *)
theory BatchJobs
  imports BatchMoney
begin

text \<open>
  Batch-image jobs (\<^verbatim>\<open>service/batch_image.go\<close>) and the statements on their table
  (\<^verbatim>\<open>repository/batch_image_repo.go\<close>): the states of a job and the transitions between them, the job
  as a row, each method of the repository as one transaction. Events are kept as their types; payloads and
  error messages are left out.
\<close>

section \<open>States\<close>

datatype batch_status =
    Bs_created | Bs_uploading | Bs_submitted | Bs_running | Bs_indexing | Bs_settling
  | Bs_completed | Bs_failed | Bs_cancelled | Bs_output_deleted

definition terminal_status :: "batch_status \<Rightarrow> bool" where
  "terminal_status s \<longleftrightarrow> s = Bs_completed \<or> s = Bs_failed \<or> s = Bs_cancelled \<or> s = Bs_output_deleted"

text \<open>The table of transitions; a status is never the empty string the code also refuses.\<close>

fun allowed_targets :: "batch_status \<Rightarrow> batch_status list" where
  "allowed_targets Bs_created = [Bs_uploading, Bs_submitted, Bs_cancelled]"
| "allowed_targets Bs_uploading = [Bs_submitted, Bs_cancelled]"
| "allowed_targets Bs_submitted = [Bs_running, Bs_indexing, Bs_failed, Bs_cancelled]"
| "allowed_targets Bs_running = [Bs_running, Bs_indexing, Bs_failed, Bs_cancelled]"
| "allowed_targets Bs_indexing = [Bs_settling, Bs_failed]"
| "allowed_targets Bs_settling = [Bs_completed]"
| "allowed_targets _ = []"

definition can_transition :: "batch_status \<Rightarrow> batch_status \<Rightarrow> bool" where
  "can_transition f t =
     (if terminal_status f then
        t = Bs_output_deleted \<and> f \<noteq> Bs_output_deleted \<and> (f = Bs_completed \<or> f = Bs_failed \<or> f = Bs_cancelled)
      else if t = Bs_failed then True
      else t \<in> set (allowed_targets f))"

definition processor_done :: "batch_status \<Rightarrow> bool" where
  "processor_done s = (if s = Bs_settling then True else terminal_status s)"

definition supported_provider :: "string \<Rightarrow> bool" where
  "supported_provider p \<longleftrightarrow> p = ''gemini_api'' \<or> p = ''vertex''"

section \<open>Rows\<close>

record batch_job =
  bj_batch :: string
  bj_user :: int
  bj_key :: "int option"
  bj_account :: "int option"
  bj_provider :: string
  bj_model :: string
  bj_status :: batch_status
  bj_provider_job :: "string option"
  bj_input_ref :: "string option"
  bj_output_ref :: "string option"
  bj_item_count :: int
  bj_success :: int
  bj_fail :: int
  bj_estimated :: rat
  bj_hold :: "rat option"
  bj_actual :: "rat option"
  bj_unit_price :: rat
  bj_price_version :: int
  bj_idempotency :: "string option"
  bj_request_hash :: "string option"
  bj_manifest_hash :: "string option"
  bj_retry_count :: int
  bj_version :: int
  bj_output_expires :: "instant option"
  bj_input_deleted :: "instant option"
  bj_output_deleted :: "instant option"
  bj_downloaded :: "instant option"
  bj_user_deleted :: "instant option"
  bj_error_code :: "string option"
  bj_updated :: instant
  bj_submitted :: "instant option"
  bj_started :: "instant option"
  bj_finished :: "instant option"
  bj_settled :: "instant option"

datatype item_status = Item_pending | Item_success | Item_failed

record batch_item =
  bi_custom_id :: string
  bi_item_status :: item_status
  bi_preview :: "string option"
  bi_source :: "string option"
  bi_line :: "int option"
  bi_mime :: "string option"
  bi_extension :: "string option"
  bi_images :: int
  bi_error :: "string option"

text \<open>The tables. \<open>bd_order\<close> lists the batches by their serial id, newest first.\<close>

record batch_db =
  bd_jobs :: "string \<rightharpoonup> batch_job"
  bd_order :: "string list"
  bd_items :: "string \<Rightarrow> batch_item list"
  bd_events :: "(string \<times> string) list"
  bd_money :: hold_db

definition set_if_null :: "'a option \<Rightarrow> 'a \<Rightarrow> 'a option" where
  "set_if_null old v = (case old of None \<Rightarrow> Some v | Some w \<Rightarrow> Some w)"

definition null_if_empty :: "string \<Rightarrow> string option" where
  "null_if_empty s = (if s = [] then None else Some s)"

definition deref :: "string option \<Rightarrow> string" where
  "deref v = (case v of None \<Rightarrow> [] | Some s \<Rightarrow> trim_space s)"

definition append_event :: "string \<Rightarrow> string \<Rightarrow> batch_db \<Rightarrow> batch_db" where
  "append_event batch ev db = db\<lparr>bd_events := (batch, ev) # bd_events db\<rparr>"

definition update_job :: "string \<Rightarrow> (batch_job \<Rightarrow> batch_job) \<Rightarrow> batch_db \<Rightarrow> batch_db" where
  "update_job batch f db =
     (case bd_jobs db batch of None \<Rightarrow> db | Some j \<Rightarrow> db\<lparr>bd_jobs := (bd_jobs db)(batch \<mapsto> f j)\<rparr>)"

section \<open>Reading and creating\<close>

definition get_job :: "string \<Rightarrow> batch_db \<Rightarrow> batch_error + batch_job" where
  "get_job batch db = (case bd_jobs db batch of None \<Rightarrow> Inl B_job_not_found | Some j \<Rightarrow> Inr j)"

definition owned_by :: "int \<Rightarrow> int \<Rightarrow> batch_job \<Rightarrow> bool" where
  "owned_by user key j \<longleftrightarrow> bj_user j = user \<and> bj_key j = Some key"

definition get_job_for_owner :: "int \<Rightarrow> int \<Rightarrow> string \<Rightarrow> batch_db \<Rightarrow> batch_error + batch_job" where
  "get_job_for_owner user key batch db =
     (case bd_jobs db batch of
        None \<Rightarrow> Inl B_job_not_found
      | Some j \<Rightarrow> if owned_by user key j \<and> bj_user_deleted j = None then Inr j else Inl B_job_not_found)"

definition get_job_by_idempotency :: "int \<Rightarrow> int \<Rightarrow> string \<Rightarrow> batch_db \<Rightarrow> batch_error + batch_job" where
  "get_job_by_idempotency user key k db =
     (case find (\<lambda>b. case bd_jobs db b of
                       None \<Rightarrow> False
                     | Some j \<Rightarrow> owned_by user key j \<and> bj_idempotency j = Some k) (bd_order db) of
        None \<Rightarrow> Inl B_job_not_found
      | Some b \<Rightarrow> get_job b db)"

definition create_job :: "batch_job \<Rightarrow> batch_db \<Rightarrow> (batch_error + batch_job) \<times> batch_db" where
  "create_job j db =
     (if \<not> supported_provider (bj_provider j) then (Inl B_invalid_provider, db)
      else if bd_jobs db (bj_batch j) \<noteq> None then (Inl B_job_exists, db)
      else (Inr j, db\<lparr>bd_jobs := (bd_jobs db)(bj_batch j \<mapsto> j), bd_order := bj_batch j # bd_order db\<rparr>))"

text \<open>Jobs whose submission has been silent since the cut-off, oldest first.\<close>

definition stale_unsubmitted :: "instant \<Rightarrow> batch_job \<Rightarrow> bool" where
  "stale_unsubmitted cutoff j \<longleftrightarrow>
     (bj_status j = Bs_created \<or> bj_status j = Bs_uploading) \<and> bj_provider_job j = None
     \<and> 0 < (case bj_hold j of None \<Rightarrow> bj_estimated j | Some h \<Rightarrow> h) \<and> bj_updated j \<le> cutoff"

definition row_limit :: "nat \<Rightarrow> nat" where
  "row_limit limit = (if limit = 0 \<or> 1000 < limit then 100 else limit)"

definition input_due :: "instant \<Rightarrow> batch_job \<Rightarrow> bool" where
  "input_due cutoff j \<longleftrightarrow>
     bj_input_deleted j = None \<and> bj_input_ref j \<noteq> None \<and> terminal_status (bj_status j)
     \<and> (case bj_finished j of Some t \<Rightarrow> t
        | None \<Rightarrow> (case bj_settled j of Some t \<Rightarrow> t | None \<Rightarrow> bj_updated j)) \<le> cutoff"

definition output_due :: "instant \<Rightarrow> batch_job \<Rightarrow> bool" where
  "output_due now j \<longleftrightarrow>
     bj_output_deleted j = None \<and> bj_output_ref j \<noteq> None \<and> bj_status j = Bs_completed
     \<and> (case bj_output_expires j of None \<Rightarrow> False | Some t \<Rightarrow> t \<le> now)"

definition jobs_by_id :: "batch_db \<Rightarrow> batch_job list" where
  "jobs_by_id db = List.map_filter (bd_jobs db) (rev (bd_order db))"

definition list_stale_unsubmitted :: "instant \<Rightarrow> nat \<Rightarrow> batch_db \<Rightarrow> batch_job list" where
  "list_stale_unsubmitted cutoff limit db =
     take (row_limit limit)
       (stable_sort (\<lambda>a b. bj_updated a < bj_updated b)
         (filter (stale_unsubmitted cutoff) (jobs_by_id db)))"

definition list_due_for_input :: "instant \<Rightarrow> nat \<Rightarrow> batch_db \<Rightarrow> batch_job list" where
  "list_due_for_input cutoff limit db = take (row_limit limit) (filter (input_due cutoff) (jobs_by_id db))"

definition list_due_for_output :: "instant \<Rightarrow> nat \<Rightarrow> batch_db \<Rightarrow> batch_job list" where
  "list_due_for_output now limit db =
     take (row_limit limit)
       (stable_sort (\<lambda>a b. the (bj_output_expires a) < the (bj_output_expires b)) (filter (output_due now) (jobs_by_id db)))"

section \<open>Changing a job\<close>

record transition_options =
  to_event :: string
  to_code :: "string option"

definition no_options :: "string \<Rightarrow> transition_options" where
  "no_options ev = \<lparr>to_event = ev, to_code = None\<rparr>"

definition move_job :: "batch_status \<Rightarrow> transition_options \<Rightarrow> instant \<Rightarrow> batch_job \<Rightarrow> batch_job" where
  "move_job t opts now j =
     j\<lparr>bj_status := t, bj_version := bj_version j + 1, bj_updated := now,
       bj_error_code := (if t = Bs_failed then to_code opts else bj_error_code j),
       bj_submitted := (if t = Bs_submitted then set_if_null (bj_submitted j) now else bj_submitted j),
       bj_started := (if t = Bs_running then set_if_null (bj_started j) now else bj_started j),
       bj_finished := (if t = Bs_completed \<or> t = Bs_failed \<or> t = Bs_cancelled then set_if_null (bj_finished j) now else bj_finished j),
       bj_settled := (if t = Bs_completed then set_if_null (bj_settled j) now else bj_settled j),
       bj_output_deleted := (if t = Bs_output_deleted then set_if_null (bj_output_deleted j) now else bj_output_deleted j)\<rparr>"

definition transition_job ::
  "string \<Rightarrow> batch_status \<Rightarrow> transition_options \<Rightarrow> instant \<Rightarrow> batch_db \<Rightarrow> (batch_error + unit) \<times> batch_db" where
  "transition_job batch t opts now db =
     (case bd_jobs db batch of
        None \<Rightarrow> (Inl B_job_not_found, db)
      | Some j \<Rightarrow>
          if \<not> can_transition (bj_status j) t then (Inl B_invalid_transition, db)
          else (let db1 = update_job batch (move_job t opts now) db
                in (Inr (), if to_event opts \<noteq> [] then append_event batch (to_event opts) db1 else db1)))"

definition unsubmitted :: "batch_job \<Rightarrow> bool" where
  "unsubmitted j \<longleftrightarrow> bj_status j = Bs_created \<or> bj_status j = Bs_uploading"

definition touch_submitting :: "string \<Rightarrow> instant \<Rightarrow> batch_db \<Rightarrow> (batch_error + unit) \<times> batch_db" where
  "touch_submitting batch now db =
     (Inr (), update_job batch (\<lambda>j. if unsubmitted j then j\<lparr>bj_updated := now\<rparr> else j) db)"

text \<open>The answer says whether the job was failed; the event is a statement of its own.\<close>

definition fail_stale_job ::
  "string \<Rightarrow> instant \<Rightarrow> string \<Rightarrow> instant \<Rightarrow> batch_db \<Rightarrow> (batch_error + bool) \<times> batch_db" where
  "fail_stale_job batch cutoff code now db =
     (case bd_jobs db batch of
        None \<Rightarrow> (Inr False, db)
      | Some j \<Rightarrow>
          if unsubmitted j \<and> bj_provider_job j = None \<and> bj_updated j \<le> cutoff then
            (Inr True,
             append_event batch ''billing_hold_recovery_failed_unsubmitted''
               (update_job batch (\<lambda>j. j\<lparr>bj_status := Bs_failed, bj_error_code := Some code,
                   bj_finished := set_if_null (bj_finished j) now, bj_updated := now, bj_version := bj_version j + 1\<rparr>) db))
          else (Inr False, db))"

definition update_output_ref :: "string \<Rightarrow> string \<Rightarrow> instant \<Rightarrow> batch_db \<Rightarrow> (batch_error + unit) \<times> batch_db" where
  "update_output_ref batch ref now db =
     (if bd_jobs db batch = None then (Inl B_job_not_found, db)
      else (Inr (), update_job batch (\<lambda>j. j\<lparr>bj_output_ref := Some ref, bj_updated := now\<rparr>) db))"

record provider_job =
  pj_name :: string
  pj_input_ref :: string
  pj_output_ref :: string

definition record_provider_submit ::
  "string \<Rightarrow> provider_job \<Rightarrow> instant \<Rightarrow> batch_db \<Rightarrow> (batch_error + unit) \<times> batch_db" where
  "record_provider_submit batch p now db =
     (case bd_jobs db batch of
        None \<Rightarrow> (Inl B_job_not_found, db)
      | Some j \<Rightarrow>
          if \<not> can_transition (bj_status j) Bs_submitted then (Inl B_invalid_transition, db)
          else (Inr (), append_event batch ''provider_submitted''
                 (update_job batch (\<lambda>j. j\<lparr>bj_status := Bs_submitted, bj_provider_job := Some (pj_name p),
                     bj_input_ref := null_if_empty (pj_input_ref p), bj_output_ref := null_if_empty (pj_output_ref p),
                     bj_submitted := set_if_null (bj_submitted j) now, bj_updated := now,
                     bj_version := bj_version j + 1\<rparr>) db)))"

definition record_submit_failure ::
  "string \<Rightarrow> string \<Rightarrow> bool \<Rightarrow> instant \<Rightarrow> batch_db \<Rightarrow> (batch_error + unit) \<times> batch_db" where
  "record_submit_failure batch code mark_failed now db =
     (if bd_jobs db batch = None then (Inl B_store, db)
      else (Inr (), append_event batch (if mark_failed then ''submit_failed'' else ''queue_failed'')
        (update_job batch (\<lambda>j.
           (let status = (if mark_failed then Bs_failed else bj_status j)
            in j\<lparr>bj_status := status, bj_error_code := Some code,
                 bj_finished := (if status = Bs_failed then set_if_null (bj_finished j) now else bj_finished j),
                 bj_updated := now, bj_version := bj_version j + 1\<rparr>)) db)))"

definition mark_settled ::
  "string \<Rightarrow> rat \<Rightarrow> string \<Rightarrow> instant \<Rightarrow> instant option \<Rightarrow> batch_db \<Rightarrow> (batch_error + unit) \<times> batch_db" where
  "mark_settled batch cost hash now expires db =
     (case bd_jobs db batch of
        None \<Rightarrow> (Inl B_job_not_found, db)
      | Some j \<Rightarrow>
          if bj_status j = Bs_settling
             \<and> (bj_manifest_hash j = None \<or> bj_manifest_hash j = Some [] \<or> bj_manifest_hash j = Some hash) then
            (Inr (), append_event batch ''settlement_completed''
               (update_job batch (\<lambda>j. j\<lparr>bj_status := Bs_completed, bj_actual := Some cost, bj_manifest_hash := Some hash,
                   bj_settled := set_if_null (bj_settled j) now, bj_finished := set_if_null (bj_finished j) now,
                   bj_output_expires := (if bj_output_expires j = None then expires else bj_output_expires j),
                   bj_updated := now, bj_version := bj_version j + 1\<rparr>) db))
          else if bj_status j \<noteq> Bs_settling then
            (Inl (if bj_status j = Bs_completed then B_already_settled else B_invalid_status), db)
          else (Inl B_manifest_conflict, db))"

definition record_settlement_failure ::
  "string \<Rightarrow> string \<Rightarrow> instant \<Rightarrow> batch_db \<Rightarrow> (batch_error + int) \<times> batch_db" where
  "record_settlement_failure batch code now db =
     (case bd_jobs db batch of
        None \<Rightarrow> (Inl B_job_not_found, db)
      | Some j \<Rightarrow>
          (Inr (bj_retry_count j + 1),
           append_event batch ''settlement_failed''
             (update_job batch (\<lambda>j. j\<lparr>bj_error_code := Some code, bj_retry_count := bj_retry_count j + 1,
                 bj_updated := now\<rparr>) db)))"

section \<open>Items\<close>

definition item_ids :: "batch_item list \<Rightarrow> string list" where
  "item_ids = map bi_custom_id"

definition create_items :: "string \<Rightarrow> batch_item list \<Rightarrow> batch_db \<Rightarrow> (batch_error + unit) \<times> batch_db" where
  "create_items batch items db =
     (if distinct (item_ids (bd_items db batch @ items)) then
        (Inr (), db\<lparr>bd_items := (bd_items db)(batch := bd_items db batch @ items)\<rparr>)
      else (Inl B_item_exists, db))"

text \<open>Rebuilding the items keeps the prompt previews of the old ones.\<close>

definition prompt_preview :: "batch_item list \<Rightarrow> string \<Rightarrow> string option" where
  "prompt_preview old cid =
     (case find (\<lambda>i. bi_custom_id i = cid) old of
        None \<Rightarrow> None
      | Some i \<Rightarrow> (case bi_preview i of Some p \<Rightarrow> if p \<noteq> [] then Some p else None | None \<Rightarrow> None))"

definition replace_items ::
  "string \<Rightarrow> batch_item list \<Rightarrow> int \<Rightarrow> int \<Rightarrow> instant \<Rightarrow> batch_db \<Rightarrow> (batch_error + unit) \<times> batch_db" where
  "replace_items batch items success failed now db =
     (case bd_jobs db batch of
        None \<Rightarrow> (Inl B_job_not_found, db)
      | Some j \<Rightarrow>
          if bj_status j \<noteq> Bs_indexing then (Inl B_state_conflict, db)
          else if \<not> distinct (item_ids items) then (Inl B_item_exists, db)
          else (let old = bd_items db batch;
                    items1 = map (\<lambda>i. if bi_preview i = None then i\<lparr>bi_preview := prompt_preview old (bi_custom_id i)\<rparr> else i) items
                in (Inr (), update_job batch (\<lambda>j. j\<lparr>bj_success := success, bj_fail := failed, bj_updated := now\<rparr>)
                      (db\<lparr>bd_items := (bd_items db)(batch := items1)\<rparr>))))"

section \<open>Clean-up and deletion\<close>

definition mark_input_deleted :: "string \<Rightarrow> instant \<Rightarrow> batch_db \<Rightarrow> (batch_error + unit) \<times> batch_db" where
  "mark_input_deleted batch t db =
     (if bd_jobs db batch = None then (Inl B_job_not_found, db)
      else (Inr (), append_event batch ''input_cleanup_completed''
              (update_job batch (\<lambda>j. j\<lparr>bj_input_deleted := set_if_null (bj_input_deleted j) t, bj_updated := t,
                  bj_version := bj_version j + 1\<rparr>) db)))"

definition mark_output_deleted :: "string \<Rightarrow> instant \<Rightarrow> batch_db \<Rightarrow> (batch_error + unit) \<times> batch_db" where
  "mark_output_deleted batch t db =
     (if bd_jobs db batch = None then (Inl B_job_not_found, db)
      else (Inr (), append_event batch ''output_cleanup_completed''
              (update_job batch (\<lambda>j. j\<lparr>bj_status := (if bj_status j = Bs_completed then Bs_output_deleted else bj_status j),
                  bj_output_deleted := set_if_null (bj_output_deleted j) t,
                  bj_finished := (if bj_status j = Bs_completed then set_if_null (bj_finished j) t else bj_finished j),
                  bj_updated := t, bj_version := bj_version j + 1\<rparr>) db)))"

definition mark_downloaded :: "string \<Rightarrow> instant \<Rightarrow> batch_db \<Rightarrow> (batch_error + unit) \<times> batch_db" where
  "mark_downloaded batch t db =
     (if bd_jobs db batch = None then (Inl B_job_not_found, db)
      else (Inr (), append_event batch ''download_completed''
              (update_job batch (\<lambda>j. j\<lparr>bj_downloaded := set_if_null (bj_downloaded j) t, bj_updated := t\<rparr>) db)))"

definition mark_user_deleted :: "int \<Rightarrow> int \<Rightarrow> string \<Rightarrow> instant \<Rightarrow> batch_db \<Rightarrow> (batch_error + unit) \<times> batch_db" where
  "mark_user_deleted user key batch t db =
     (case bd_jobs db batch of
        None \<Rightarrow> (Inl B_record_delete_not_ready, db)
      | Some j \<Rightarrow>
          if owned_by user key j \<and> bj_user_deleted j = None \<and> terminal_status (bj_status j) then
            (Inr (), append_event batch ''user_record_deleted''
               (update_job batch (\<lambda>j. j\<lparr>bj_user_deleted := Some t, bj_updated := t\<rparr>) db))
          else (Inl B_record_delete_not_ready, db))"

definition set_output_expires :: "string \<Rightarrow> instant \<Rightarrow> instant \<Rightarrow> batch_db \<Rightarrow> (batch_error + unit) \<times> batch_db" where
  "set_output_expires batch t now db =
     (if bd_jobs db batch = None then (Inl B_job_not_found, db)
      else (Inr (), update_job batch (\<lambda>j. j\<lparr>bj_output_expires := set_if_null (bj_output_expires j) t, bj_updated := now\<rparr>) db))"

definition record_cleanup_failure :: "string \<Rightarrow> string \<Rightarrow> instant \<Rightarrow> batch_db \<Rightarrow> (batch_error + unit) \<times> batch_db" where
  "record_cleanup_failure batch code now db =
     (if bd_jobs db batch = None then (Inl B_store, db)
      else (Inr (), append_event batch ''output_cleanup_failed''
        (update_job batch (\<lambda>j. j\<lparr>bj_error_code := Some code, bj_retry_count := bj_retry_count j + 1,
            bj_updated := now\<rparr>) db)))"

section \<open>Holds of a job\<close>

text \<open>The command of a hold, from the row the caller has read.\<close>

definition build_hold_command :: "batch_job \<Rightarrow> string \<Rightarrow> rat \<Rightarrow> string \<Rightarrow> batch_error + hold_command" where
  "build_hold_command j rid actual payload =
     (case bj_key j of
        None \<Rightarrow> Inl B_missing_api_key
      | Some key \<Rightarrow>
          if key \<le> 0 then Inl B_missing_api_key
          else (let hold = (case bj_hold j of None \<Rightarrow> bj_estimated j | Some h \<Rightarrow> h)
                in Inr \<lparr>hc_request = rid, hc_key = key, hc_fingerprint = [], hc_payload = trim_space payload,
                        hc_user = bj_user j, hc_batch = bj_batch j, hc_hold = (if hold < 0 then 0 else hold),
                        hc_actual = (if actual < 0 then 0 else actual)\<rparr>))"

definition money_call ::
  "net \<Rightarrow> batch_db \<Rightarrow> (batch_error + 'a) \<times> hold_db \<Rightarrow> (batch_error + 'a) \<times> batch_db" where
  "money_call n db res =
     (case store_call n (bd_money db) res of (r, m) \<Rightarrow> (r, db\<lparr>bd_money := m\<rparr>))"

definition reserve_hold :: "batch_env \<Rightarrow> net \<Rightarrow> batch_job \<Rightarrow> string \<Rightarrow> batch_db \<Rightarrow> batch_error option \<times> batch_db" where
  "reserve_hold env n j payload db =
     (case build_hold_command j (hold_request_id (bj_batch j)) 0 payload of
        Inl e \<Rightarrow> (Some e, db)
      | Inr c \<Rightarrow>
          if hc_hold c \<le> 0 then (None, db)
          else (case money_call n db (reserve_balance env c (bd_money db)) of
                  (Inr _, db1) \<Rightarrow> (None, db1)
                | (Inl e, db1) \<Rightarrow>
                    (Some (if e = B_insufficient_balance then B_insufficient_balance else B_hold_failed (Some e)), db1)))"

definition capture_hold :: "batch_env \<Rightarrow> net \<Rightarrow> batch_job \<Rightarrow> rat \<Rightarrow> string \<Rightarrow> batch_db \<Rightarrow> batch_error option \<times> batch_db" where
  "capture_hold env n j actual payload db =
     (case build_hold_command j (capture_request_id (bj_batch j)) actual payload of
        Inl e \<Rightarrow> (Some e, db)
      | Inr c \<Rightarrow>
          (case money_call n db (capture_balance env c (bd_money db)) of
             (Inr _, db1) \<Rightarrow> (None, db1)
           | (Inl e, db1) \<Rightarrow> (Some (B_billing_failed (Some e)), db1)))"

text \<open>A conflict of fingerprints counts as released: an earlier release was committed.\<close>

definition release_hold :: "batch_env \<Rightarrow> net \<Rightarrow> batch_job \<Rightarrow> string \<Rightarrow> batch_db \<Rightarrow> batch_error option \<times> batch_db" where
  "release_hold env n j payload db =
     (case build_hold_command j (release_request_id (bj_batch j)) 0 payload of
        Inl e \<Rightarrow> (Some e, db)
      | Inr c \<Rightarrow>
          if hc_hold c \<le> 0 then (None, db)
          else (case money_call n db (release_balance env c (bd_money db)) of
                  (Inr _, db1) \<Rightarrow> (None, db1)
                | (Inl e, db1) \<Rightarrow>
                    (if e = B_request_conflict then None else Some (B_hold_failed (Some e)), db1)))"

end
