(* ===== verification/BatchIndex.thy ===== *)
theory BatchIndex
  imports BatchJobs
begin

text \<open>
  The results of a batch (\<^verbatim>\<open>service/batch_image_processor.go\<close>): one line of JSON per item is read into a
  parsed result, and the indexer reconciles the lines with the items that were submitted.
\<close>

section \<open>JSON\<close>

text \<open>
  What \<^verbatim>\<open>encoding/json\<close> gives for \<^verbatim>\<open>any\<close>; a number is a finite float, an object a map. Reading the bytes of
  a line is the parameter \<open>ie_parse\<close>, lower case outside ASCII the parameter \<open>ie_lower\<close>.
\<close>

datatype json =
    J_null
  | J_bool bool
  | J_num rat
  | J_str string
  | J_arr "json list"
  | J_obj "(string \<times> json) list"

type_synonym json_map = "(string, json) gomap"

record index_env =
  ie_parse :: "string \<Rightarrow> json_map option"
  ie_lower :: "string \<Rightarrow> string"

definition json_string :: "json_map \<Rightarrow> string \<Rightarrow> string" where
  "json_string m key =
     (case gm_get m key of
        Some (J_str s) \<Rightarrow> trim_space s
      | Some (J_num q) \<Rightarrow> itoa (truncate_rat q)
      | _ \<Rightarrow> [])"

fun json_nested :: "json option \<Rightarrow> string list \<Rightarrow> json option" where
  "json_nested cur [] = cur"
| "json_nested cur (k # ks) =
     (case cur of Some (J_obj m) \<Rightarrow> json_nested (gm_get m k) ks | _ \<Rightarrow> None)"

definition nested_string :: "json_map \<Rightarrow> string list \<Rightarrow> string" where
  "nested_string m ks = (case json_nested (Some (J_obj m)) ks of Some (J_str s) \<Rightarrow> trim_space s | _ \<Rightarrow> [])"

fun first_non_empty :: "string list \<Rightarrow> string" where
  "first_non_empty [] = []"
| "first_non_empty (s # ss) = (if trim_space s \<noteq> [] then trim_space s else first_non_empty ss)"

fun first_map :: "json option list \<Rightarrow> json_map option" where
  "first_map [] = None"
| "first_map (v # vs) = (case v of Some (J_obj m) \<Rightarrow> Some m | _ \<Rightarrow> first_map vs)"

definition optional_string :: "string \<Rightarrow> string option" where
  "optional_string s = null_if_empty (trim_space s)"

section \<open>One line\<close>

datatype parsed_status = Parsed_succeeded | Parsed_failed

record parsed_result =
  pr_id :: string
  pr_status :: parsed_status
  pr_mime :: string
  pr_extension :: string
  pr_images :: int
  pr_code :: string

text \<open>An image is a part with inline data of an image type that is not empty.\<close>

definition image_mime :: "index_env \<Rightarrow> json \<Rightarrow> string option" where
  "image_mime env part =
     (case part of
        J_obj m \<Rightarrow>
          (case first_map [gm_get m ''inlineData'', gm_get m ''inline_data''] of
             None \<Rightarrow> None
           | Some inline \<Rightarrow>
               (let data = trim_space (json_string inline ''data'');
                    mime = first_non_empty [json_string inline ''mimeType'', json_string inline ''mime_type'']
                in if data = [] \<or> \<not> prefix ''image/'' (to_lower (ie_lower env) (trim_space mime)) then None
                   else Some (trim_space mime)))
      | _ \<Rightarrow> None)"

definition candidate_parts :: "json \<Rightarrow> json list" where
  "candidate_parts c =
     (case c of
        J_obj m \<Rightarrow> (case json_nested (Some (J_obj m)) [''content'', ''parts''] of Some (J_arr ps) \<Rightarrow> ps | _ \<Rightarrow> [])
      | _ \<Rightarrow> [])"

text \<open>The number of images and the type of the first one.\<close>

definition images_in_candidates :: "index_env \<Rightarrow> json option \<Rightarrow> int \<times> string" where
  "images_in_candidates env raw =
     (case raw of
        Some (J_arr cs) \<Rightarrow>
          (let mimes = List.map_filter (image_mime env) (concat (map candidate_parts cs))
           in (int (length mimes), case mimes of [] \<Rightarrow> [] | m # _ \<Rightarrow> m))
      | _ \<Rightarrow> (0, []))"

definition find_images :: "index_env \<Rightarrow> json_map \<Rightarrow> int \<times> string" where
  "find_images env obj =
     (let res = images_in_candidates env (json_nested (Some (J_obj obj)) [''response'', ''candidates''])
      in if 0 < fst res then res else images_in_candidates env (gm_get obj ''candidates''))"

definition failure_code :: "index_env \<Rightarrow> string \<Rightarrow> string \<Rightarrow> string" where
  "failure_code env code message =
     (let text = to_lower (ie_lower env) (trim_space (code @ '' '' @ message));
          has = (\<lambda>w. sublist w text)
      in if has ''safety'' \<or> has ''policy'' \<or> has ''blocked'' \<or> has ''prohibited'' then ''SAFETY_BLOCKED''
         else if has ''invalid_argument'' \<or> has ''invalid argument'' \<or> has ''bad request'' then ''INVALID_ARGUMENT''
         else if has ''quota'' \<or> has ''rate'' \<or> has ''resource_exhausted'' \<or> has ''too many requests'' then ''PROVIDER_RATE_LIMITED''
         else ''PROVIDER_ITEM_FAILED'')"

definition failure_of_fields :: "index_env \<Rightarrow> json_map \<Rightarrow> string option" where
  "failure_of_fields env obj =
     (let code_of = (\<lambda>m. failure_code env (first_non_empty [json_string m ''code'', json_string m ''status''])
                            (first_non_empty [json_string m ''message'', json_string m ''details'']))
      in case gm_get obj ''status'' of
           Some (J_obj m) \<Rightarrow> Some (code_of m)
         | _ \<Rightarrow> (case gm_get obj ''error'' of Some (J_obj m) \<Rightarrow> Some (code_of m) | _ \<Rightarrow> None))"

definition image_extension :: "index_env \<Rightarrow> string \<Rightarrow> string" where
  "image_extension env mime =
     (let m = to_lower (ie_lower env) (trim_space mime)
      in if m = ''image/png'' then ''png''
         else if m = ''image/jpeg'' \<or> m = ''image/jpg'' then ''jpg''
         else if m = ''image/webp'' then ''webp'' else [])"

definition has_candidates :: "json_map \<Rightarrow> bool" where
  "has_candidates obj \<longleftrightarrow>
     gm_get obj ''candidates'' \<noteq> None
     \<or> (case json_nested (Some (J_obj obj)) [''response'', ''candidates''] of Some (J_arr _) \<Rightarrow> True | _ \<Rightarrow> False)"

definition parse_result_line :: "index_env \<Rightarrow> string \<Rightarrow> batch_error + parsed_result" where
  "parse_result_line env line =
     (case ie_parse env line of
        None \<Rightarrow> Inl B_parse_failed
      | Some obj \<Rightarrow>
          (let cid = first_non_empty [json_string obj ''key'', json_string obj ''custom_id'',
                       json_string obj ''customId'', nested_string obj [''request'', ''key'']];
               (images, mime) = find_images env obj;
               failed = (\<lambda>code. Inr \<lparr>pr_id = cid, pr_status = Parsed_failed, pr_mime = [], pr_extension = [],
                                     pr_images = 0, pr_code = code\<rparr>)
           in if cid = [] then Inl B_parse_failed
              else if 0 < images then
                Inr \<lparr>pr_id = cid, pr_status = Parsed_succeeded, pr_mime = mime, pr_extension = image_extension env mime,
                     pr_images = images, pr_code = []\<rparr>
              else case failure_of_fields env obj of
                     Some code \<Rightarrow> failed code
                   | None \<Rightarrow>
                       if gm_get obj ''response'' \<noteq> None \<or> has_candidates obj then failed ''EMPTY_IMAGE_OUTPUT''
                       else failed ''PROVIDER_ITEM_FAILED''))"

section \<open>The expected items\<close>

definition list_limit :: "nat \<Rightarrow> nat" where
  "list_limit limit = (if limit = 0 \<or> 500 < limit then 100 else limit)"

definition list_items :: "string \<Rightarrow> nat \<Rightarrow> nat \<Rightarrow> batch_db \<Rightarrow> batch_item list" where
  "list_items batch limit offset db = take (list_limit limit) (drop offset (bd_items db batch))"

definition page_size :: nat where
  "page_size = 500"

text \<open>The pages of the items, until one is not full.\<close>

function expected_ids :: "string \<Rightarrow> nat \<Rightarrow> batch_db \<Rightarrow> string list" where
  "expected_ids batch offset db =
     (let page = list_items batch page_size offset db
      in item_ids page @ (if length page < page_size then [] else expected_ids batch (offset + length page) db))"
  by pat_completeness auto
termination
  by (relation "measure (\<lambda>(batch, offset, db). length (bd_items db batch) - offset)")
    (auto simp: list_items_def list_limit_def page_size_def)

declare expected_ids.simps [simp del]

section \<open>The indexer\<close>

record index_state =
  ix_seen :: "(string \<times> nat) list"
  ix_items :: "batch_item list"
  ix_success :: int
  ix_fail :: int
  ix_unknown :: int

definition new_index_state :: index_state where
  "new_index_state = \<lparr>ix_seen = [], ix_items = [], ix_success = 0, ix_fail = 0, ix_unknown = 0\<rparr>"

definition index_item :: "string option \<Rightarrow> nat \<Rightarrow> parsed_result \<Rightarrow> batch_item" where
  "index_item source line p =
     (let ok = (pr_status p = Parsed_succeeded)
      in \<lparr>bi_custom_id = pr_id p, bi_item_status = (if ok then Item_success else Item_failed), bi_preview = None,
          bi_source = source, bi_line = Some (int line),
          bi_mime = (if ok then optional_string (pr_mime p) else None),
          bi_extension = (if ok then optional_string (pr_extension p) else None),
          bi_images = pr_images p, bi_error = (if ok then None else optional_string (pr_code p))\<rparr>)"

text \<open>One line of the output, with its number; \<open>expected\<close> is empty when nothing is known of the items.\<close>

definition index_line ::
  "index_env \<Rightarrow> string list \<Rightarrow> string option \<Rightarrow> nat \<Rightarrow> string \<Rightarrow> index_state \<Rightarrow> batch_error + index_state" where
  "index_line env expected source line raw st =
     (let txt = trim_space raw
      in if txt = [] then Inr st
         else case parse_result_line env txt of
                Inl e \<Rightarrow> Inl e
              | Inr p \<Rightarrow>
                  if expected \<noteq> [] \<and> pr_id p \<notin> set expected then Inr (st\<lparr>ix_unknown := ix_unknown st + 1\<rparr>)
                  else if map_of (ix_seen st) (pr_id p) \<noteq> None then Inl B_duplicate_custom_id
                  else
                    (let st1 = st\<lparr>ix_seen := (pr_id p, line) # ix_seen st,
                                  ix_items := ix_items st @ [index_item source line p]\<rparr>
                     in Inr (if pr_status p = Parsed_succeeded then st1\<lparr>ix_success := ix_success st + 1\<rparr>
                             else st1\<lparr>ix_fail := ix_fail st + 1\<rparr>)))"

fun index_lines ::
  "index_env \<Rightarrow> string list \<Rightarrow> string option \<Rightarrow> nat \<Rightarrow> string list \<Rightarrow> index_state \<Rightarrow> batch_error + index_state" where
  "index_lines env expected source n [] st = Inr st"
| "index_lines env expected source n (raw # rest) st =
     (case index_line env expected source (Suc n) raw st of
        Inl e \<Rightarrow> Inl e
      | Inr st1 \<Rightarrow> index_lines env expected source (Suc n) rest st1)"

definition missing_item :: "string option \<Rightarrow> string \<Rightarrow> batch_item" where
  "missing_item source cid =
     \<lparr>bi_custom_id = cid, bi_item_status = Item_failed, bi_preview = None, bi_source = source, bi_line = None,
      bi_mime = None, bi_extension = None, bi_images = 0, bi_error = Some ''PROVIDER_RESULT_MISSING''\<rparr>"

text \<open>\<open>sort.Strings\<close> orders by bytes. The ids are the keys of a map, so each occurs once.\<close>

fun byte_less :: "string \<Rightarrow> string \<Rightarrow> bool" where
  "byte_less _ [] = False"
| "byte_less [] (_ # _) = True"
| "byte_less (a # as) (b # bs) =
     ((of_char a :: nat) < of_char b \<or> a = b \<and> byte_less as bs)"

definition missing_ids :: "string list \<Rightarrow> index_state \<Rightarrow> string list" where
  "missing_ids expected st =
     stable_sort byte_less (filter (\<lambda>c. map_of (ix_seen st) c = None) (remdups expected))"

definition add_missing :: "string list \<Rightarrow> string option \<Rightarrow> index_state \<Rightarrow> index_state" where
  "add_missing expected source st =
     (let ids = missing_ids expected st
      in st\<lparr>ix_items := ix_items st @ map (missing_item source) ids, ix_fail := ix_fail st + int (length ids)\<rparr>)"

text \<open>What the provider gives: the lines of the output and how reading them ended, or no output.\<close>

record result_stream =
  rs_lines :: "string list"
  rs_error :: "batch_error option"

definition source_object :: "batch_job \<Rightarrow> string option" where
  "source_object j =
     optional_string (if deref (bj_output_ref j) = [] then deref (bj_provider_job j) else deref (bj_output_ref j))"

definition build_index ::
  "index_env \<Rightarrow> string list \<Rightarrow> batch_job \<Rightarrow> result_stream \<Rightarrow> batch_error + index_state" where
  "build_index env expected j rs =
     (case index_lines env expected (source_object j) 0 (rs_lines rs) new_index_state of
        Inl e \<Rightarrow> Inl e
      | Inr st \<Rightarrow>
          (case rs_error rs of
             Some e \<Rightarrow> Inl e
           | None \<Rightarrow>
               (let st1 = (if expected \<noteq> [] then add_missing expected (source_object j) st else st)
                in if ix_items st1 = [] then Inl B_no_result_lines else Inr st1)))"

section \<open>The expected ids are all ids\<close>

lemma expected_ids_all: "expected_ids batch offset db = item_ids (drop offset (bd_items db batch))"
proof (induction batch offset db rule: expected_ids.induct)
  case (1 batch offset db)
  let ?xs = "drop offset (bd_items db batch)"
  let ?page = "list_items batch page_size offset db"
  have page: "?page = take page_size ?xs" by (simp add: list_items_def list_limit_def page_size_def)
  show ?case
  proof (cases "length ?page < page_size")
    case True
    with page have "?page = ?xs" by (simp add: min_def split: if_splits)
    with True show ?thesis by (simp add: expected_ids.simps [of batch offset])
  next
    case False
    with page have "length ?page = page_size" "page_size \<le> length ?xs" by (simp_all add: min_def split: if_splits)
    with False "1.IH" [OF refl] show ?thesis
      by (simp add: expected_ids.simps [of batch offset] page item_ids_def add.commute flip: map_append drop_drop)
  qed
qed

section \<open>What the indexer keeps\<close>

text \<open>The lines that were read, as their parsed results.\<close>

definition reads_as :: "index_env \<Rightarrow> string list \<Rightarrow> parsed_result \<Rightarrow> bool" where
  "reads_as env raws p \<longleftrightarrow> (\<exists>raw \<in> set raws. trim_space raw \<noteq> [] \<and> parse_result_line env (trim_space raw) = Inr p)"

definition is_success :: "batch_item \<Rightarrow> bool" where
  "is_success i \<longleftrightarrow> bi_item_status i = Item_success"

definition successes :: "batch_item list \<Rightarrow> int" where
  "successes items = int (length (filter is_success items))"

definition index_ok :: "index_env \<Rightarrow> string list \<Rightarrow> string list \<Rightarrow> index_state \<Rightarrow> bool" where
  "index_ok env expected raws st \<longleftrightarrow>
     item_ids (ix_items st) = rev (map fst (ix_seen st)) \<and> distinct (map fst (ix_seen st))
     \<and> (expected \<noteq> [] \<longrightarrow> set (item_ids (ix_items st)) \<subseteq> set expected)
     \<and> ix_success st = successes (ix_items st) \<and> ix_success st + ix_fail st = int (length (ix_items st))
     \<and> (\<forall>i \<in> set (ix_items st). \<exists>p. reads_as env raws p \<and> pr_id p = bi_custom_id i
            \<and> (is_success i \<longleftrightarrow> pr_status p = Parsed_succeeded))
     \<and> (\<forall>p. reads_as env raws p \<longrightarrow> (expected \<noteq> [] \<longrightarrow> pr_id p \<in> set expected) \<longrightarrow>
            (\<exists>i \<in> set (ix_items st). bi_custom_id i = pr_id p
               \<and> (is_success i \<longleftrightarrow> pr_status p = Parsed_succeeded)))"

lemma index_okD:
  assumes "index_ok env expected raws st"
  shows "item_ids (ix_items st) = rev (map fst (ix_seen st))" and "distinct (map fst (ix_seen st))"
    and "expected \<noteq> [] \<Longrightarrow> set (item_ids (ix_items st)) \<subseteq> set expected"
    and "ix_success st = successes (ix_items st)" and "ix_success st + ix_fail st = int (length (ix_items st))"
    and "i \<in> set (ix_items st) \<Longrightarrow> \<exists>p. reads_as env raws p \<and> pr_id p = bi_custom_id i
            \<and> (is_success i \<longleftrightarrow> pr_status p = Parsed_succeeded)"
    and "reads_as env raws q \<Longrightarrow> (expected \<noteq> [] \<longrightarrow> pr_id q \<in> set expected) \<Longrightarrow>
            \<exists>i \<in> set (ix_items st). bi_custom_id i = pr_id q \<and> (is_success i \<longleftrightarrow> pr_status q = Parsed_succeeded)"
  using assms unfolding index_ok_def by blast+

lemma seen_ids: "map_of (ix_seen st) c = None \<longleftrightarrow> c \<notin> set (map fst (ix_seen st))"
  by (simp add: map_of_eq_None_iff)

lemma index_item_simps [simp]:
  "bi_custom_id (index_item source n p) = pr_id p"
  "is_success (index_item source n p) \<longleftrightarrow> pr_status p = Parsed_succeeded"
  by (simp_all add: index_item_def is_success_def Let_def)

lemma reads_as_snoc:
  "reads_as env (raws @ [raw]) p \<longleftrightarrow>
     reads_as env raws p \<or> trim_space raw \<noteq> [] \<and> parse_result_line env (trim_space raw) = Inr p"
  by (auto simp: reads_as_def)

lemma index_line_ok:
  assumes "index_line env expected source n raw st = Inr st1" "index_ok env expected raws st"
  shows "index_ok env expected (raws @ [raw]) st1"
proof (cases "trim_space raw = []")
  case True
  then have "reads_as env (raws @ [raw]) = reads_as env raws" by (simp add: fun_eq_iff reads_as_snoc)
  then have "index_ok env expected (raws @ [raw]) st \<longleftrightarrow> index_ok env expected raws st" by (simp only: index_ok_def)
  moreover from True assms(1) have "st1 = st" by (simp add: index_line_def)
  ultimately show ?thesis using assms(2) by blast
next
  case False
  with assms(1) obtain p where p: "parse_result_line env (trim_space raw) = Inr p"
    by (auto simp: index_line_def split: sum.splits)
  show ?thesis
  proof (cases "expected \<noteq> [] \<and> pr_id p \<notin> set expected")
    case True
    with assms(1) False p have "st1 = st\<lparr>ix_unknown := ix_unknown st + 1\<rparr>" by (simp add: index_line_def)
    then have same: "ix_seen st1 = ix_seen st" "ix_items st1 = ix_items st" "ix_success st1 = ix_success st" "ix_fail st1 = ix_fail st"
      by simp_all
    note o = index_okD [OF assms(2)]
    show ?thesis
      unfolding index_ok_def same
    proof (intro conjI allI impI)
      show "\<forall>i \<in> set (ix_items st). \<exists>p. reads_as env (raws @ [raw]) p \<and> pr_id p = bi_custom_id i
            \<and> (is_success i \<longleftrightarrow> pr_status p = Parsed_succeeded)"
        using o(6) unfolding reads_as_snoc by blast
      show "\<exists>i \<in> set (ix_items st). bi_custom_id i = pr_id q \<and> (is_success i \<longleftrightarrow> pr_status q = Parsed_succeeded)"
        if "reads_as env (raws @ [raw]) q" "expected \<noteq> [] \<longrightarrow> pr_id q \<in> set expected" for q
        using that True p o(7) [of q] by (auto simp: reads_as_snoc)
    qed (use o in blast)+
  next
    case known: False
    with assms(1) False p have new: "pr_id p \<notin> set (map fst (ix_seen st))"
      by (auto simp: index_line_def seen_ids split: if_splits)
    with assms(1) False p known have st1:
      "ix_seen st1 = (pr_id p, n) # ix_seen st" "ix_items st1 = ix_items st @ [index_item source n p]"
      "ix_success st1 = ix_success st + (if pr_status p = Parsed_succeeded then 1 else 0)"
      "ix_fail st1 = ix_fail st + (if pr_status p = Parsed_succeeded then 0 else 1)"
      by (auto simp: index_line_def Let_def seen_ids split: if_splits)
    note o = index_okD [OF assms(2)]
    have now: "reads_as env (raws @ [raw]) q \<longleftrightarrow> reads_as env raws q \<or> q = p" for q
      using p False by (auto simp: reads_as_snoc)
    show ?thesis
      unfolding index_ok_def
    proof (intro conjI allI impI)
      show "item_ids (ix_items st1) = rev (map fst (ix_seen st1))" using o(1) by (simp add: st1 item_ids_def)
      show "distinct (map fst (ix_seen st1))" using o(2) new by (simp add: st1)
      show "set (item_ids (ix_items st1)) \<subseteq> set expected" if "expected \<noteq> []"
        using o(3) [OF that] that known by (simp add: st1 item_ids_def)
      show "ix_success st1 = successes (ix_items st1)" using o(4) by (simp add: st1 successes_def)
      show "ix_success st1 + ix_fail st1 = int (length (ix_items st1))" using o(5) by (simp add: st1)
      show "\<forall>i \<in> set (ix_items st1). \<exists>p. reads_as env (raws @ [raw]) p \<and> pr_id p = bi_custom_id i
            \<and> (is_success i \<longleftrightarrow> pr_status p = Parsed_succeeded)"
        using o(6) by (auto simp: st1 now)
      show "\<exists>i \<in> set (ix_items st1). bi_custom_id i = pr_id q \<and> (is_success i \<longleftrightarrow> pr_status q = Parsed_succeeded)"
        if "reads_as env (raws @ [raw]) q" "expected \<noteq> [] \<longrightarrow> pr_id q \<in> set expected" for q
        using that(1) o(7) [OF _ that(2)] by (auto simp: st1 now)
    qed
  qed
qed

lemma index_lines_ok:
  "index_lines env expected source n raws st = Inr st1 \<Longrightarrow> index_ok env expected before st
     \<Longrightarrow> index_ok env expected (before @ raws) st1"
proof (induction raws arbitrary: n st before)
  case (Cons raw rest)
  then obtain st0 where "index_line env expected source (Suc n) raw st = Inr st0"
    "index_lines env expected source (Suc n) rest st0 = Inr st1"
    by (auto split: sum.splits)
  with Cons.IH [of "Suc n" st0 "before @ [raw]"] index_line_ok [of _ _ _ _ _ st st0 before] Cons.prems show ?case
    by fastforce
qed simp

lemma new_index_ok: "index_ok env expected [] new_index_state"
  by (simp add: index_ok_def new_index_state_def item_ids_def successes_def reads_as_def)

lemma set_stable_sort: "set (stable_sort lt xs) = set xs"
  by (metis mset_stable_sort set_mset_mset)

lemma missing_ids_set: "set (missing_ids expected st) = {c \<in> set expected. c \<notin> set (map fst (ix_seen st))}"
  by (auto simp: missing_ids_def set_stable_sort seen_ids)

lemma missing_ids_distinct: "distinct (missing_ids expected st)"
proof -
  have "mset (missing_ids expected st) = mset (filter (\<lambda>c. map_of (ix_seen st) c = None) (remdups expected))"
    by (simp add: missing_ids_def mset_stable_sort)
  then show ?thesis using mset_eq_imp_distinct_iff by (metis distinct_filter distinct_remdups)
qed


definition demo_index_env :: index_env where
  "demo_index_env =
     \<lparr>ie_parse = (\<lambda>s. if s = ''1'' then
          Some [(''key'', J_str ''a''), (''candidates'', J_arr [J_obj [(''content'', J_obj [(''parts'', J_arr [J_obj
            [(''inlineData'', J_obj [(''data'', J_str ''x''), (''mimeType'', J_str ''image/png'')])]])])]])]
        else None), ie_lower = id\<rparr>"

definition demo_job :: batch_job where
  "demo_job =
     \<lparr>bj_batch = ''imgbatch_1'', bj_user = 7, bj_key = Some 3, bj_account = Some 5, bj_provider = ''gemini_api'',
      bj_model = ''m'', bj_status = Bs_created, bj_provider_job = None, bj_input_ref = None, bj_output_ref = None,
      bj_item_count = 2, bj_success = 0, bj_fail = 0, bj_estimated = 4, bj_hold = Some 4, bj_actual = None,
      bj_unit_price = 2, bj_price_version = 1, bj_idempotency = None, bj_request_hash = Some ''h'',
      bj_manifest_hash = None, bj_retry_count = 0, bj_version = 0, bj_output_expires = None, bj_input_deleted = None,
      bj_output_deleted = None, bj_downloaded = None, bj_user_deleted = None, bj_error_code = None, bj_updated = 0,
      bj_submitted = None, bj_started = None, bj_finished = None, bj_settled = None\<rparr>"

definition demo_stream :: result_stream where
  "demo_stream = \<lparr>rs_lines = ['' 1 '', []], rs_error = None\<rparr>"

definition demo_index :: index_state where
  "demo_index = (case build_index demo_index_env [''b'', ''a''] demo_job demo_stream of Inr st \<Rightarrow> st | Inl e \<Rightarrow> new_index_state)"


end
