(* ===== verification/BatchCalls.thy ===== *)
theory BatchCalls
  imports BatchIndex
begin

text \<open>
  The calls on batch-image jobs, statement by statement: submission and cancellation
  (\<^verbatim>\<open>service/batch_image_public.go\<close>), the round of a worker (\<^verbatim>\<open>service/batch_image_processor.go\<close>), settlement
  (\<^verbatim>\<open>service/batch_image_settlement.go\<close>) and the recovery of stale submissions
  (\<^verbatim>\<open>service/batch_image_billing_recovery.go\<close>). A \<open>batch_thread\<close> is a call in progress, named after the
  statement it is about to execute; \<open>thread_step\<close> executes one statement.
\<close>

section \<open>What comes from outside\<close>

text \<open>The answer of the provider to a submission; a failure carries the code that is recorded.\<close>

datatype submit_answer = Submit_fails string batch_error | Submit_answers "provider_job option"

datatype provider_state = Pst_queued | Pst_running | Pst_succeeded | Pst_failed | Pst_cancelled | Pst_expired | Pst_other

record provider_status =
  pv_state :: provider_state
  pv_output_ref :: string
  pv_code :: string

datatype status_answer = Status_error | Status_none | Status_is provider_status

text \<open>
  What one statement meets: the fate of its call of the store, the provider, the queue (\<open>oa_queued\<close>: the job is
  queued now, whether by this call or before), the resolution of the account, a price from the catalog for jobs
  without a price of their own, and whether the heart-beat of a submission comes first.
\<close>

record outside =
  oa_net :: net
  oa_submit :: submit_answer
  oa_status :: status_answer
  oa_output :: "result_stream option"
  oa_cancelled :: bool
  oa_queued :: bool
  oa_account :: bool
  oa_price :: "batch_error + rat"
  oa_beat :: bool

record batch_setup =
  bs_env :: batch_env
  bs_index :: index_env
  bs_retention_hours :: int

section \<open>Calls in progress\<close>

record submission =
  sb_job :: batch_job
  sb_items :: "batch_item list"

datatype call_result = Res_ok | Res_error batch_error | Res_terminal | Res_requeue

datatype batch_thread =
    Sub_lookup submission
  | Sub_requeue batch_job
  | Sub_create submission
  | Sub_reserve batch_job "batch_item list"
  | Sub_items batch_job "batch_item list"
  | Sub_upload batch_job
  | Sub_provider batch_job
  | Sub_record batch_job provider_job
  | Sub_abort batch_job batch_error
  | Sub_enqueue batch_job
  | Sub_unqueued batch_job
  | Sub_final batch_job
  | Sub_release batch_job string batch_error
  | Sub_release_only batch_job batch_error
  | Sub_unreleased batch_job
  | Sub_retry batch_job
  | Sub_fail batch_job string batch_error
  | Sub_hide batch_job batch_error
  | Can_read int int string
  | Can_provider batch_job
  | Can_enqueue batch_job
  | Can_move batch_job
  | Can_release batch_job
  | Can_retry batch_job
  | Wk_start string
  | Wk_read string
  | Wk_release batch_job
  | Wk_status batch_job
  | Wk_ref batch_job provider_status
  | Wk_running batch_job
  | Wk_indexing batch_job
  | Wk_expect batch_job
  | Wk_index batch_job "string list"
  | Wk_replace batch_job index_state
  | Wk_settling batch_job
  | Wk_fail batch_job string string
  | Wk_cancelled batch_job
  | St_read string
  | St_capture batch_job rat
  | St_mark batch_job rat
  | St_failure batch_job string batch_error
  | St_release batch_job
  | St_unreleased batch_job
  | St_exhaust batch_job
  | Rec_list instant nat
  | Rec_jobs "batch_job list" instant
  | Rec_release batch_job "batch_job list" instant
  | Rec_retry batch_job "batch_job list" instant
  | Th_done call_result

section \<open>Submission\<close>

text \<open>The row of a new job, from the checked request, the chosen account and the quote.\<close>

definition new_batch_job :: "instant \<Rightarrow> batch_job \<Rightarrow> batch_job" where
  "new_batch_job now j =
     j\<lparr>bj_status := Bs_created, bj_provider_job := None, bj_input_ref := None, bj_output_ref := None, bj_success := 0,
       bj_fail := 0, bj_actual := None, bj_price_version := 1, bj_manifest_hash := None, bj_retry_count := 0,
       bj_version := 0, bj_output_expires := None, bj_input_deleted := None, bj_output_deleted := None,
       bj_downloaded := None, bj_user_deleted := None, bj_error_code := None, bj_updated := now, bj_submitted := None,
       bj_started := None, bj_finished := None, bj_settled := None\<rparr>"

definition submit_lookup :: "net \<Rightarrow> submission \<Rightarrow> batch_db \<Rightarrow> batch_thread \<times> batch_db" where
  "submit_lookup n sb db =
     (case bj_idempotency (sb_job sb) of
        None \<Rightarrow> (Sub_create sb, db)
      | Some k \<Rightarrow>
          (case fst (store_call n db (get_job_by_idempotency (bj_user (sb_job sb)) (the (bj_key (sb_job sb))) k db, db)) of
             Inr old \<Rightarrow>
               (if deref (bj_request_hash old) \<noteq> deref (bj_request_hash (sb_job sb)) then Th_done (Res_error B_idempotency_conflict)
                else if bj_status old = Bs_submitted then Sub_requeue old else Th_done Res_ok, db)
           | Inl e \<Rightarrow> (if e = B_job_not_found then Sub_create sb else Th_done (Res_error e), db)))"

definition submit_create :: "net \<Rightarrow> instant \<Rightarrow> submission \<Rightarrow> batch_db \<Rightarrow> batch_thread \<times> batch_db" where
  "submit_create n now sb db =
     (case store_call n db (create_job (new_batch_job now (sb_job sb)) db) of
        (Inr j, db1) \<Rightarrow> (Sub_reserve j (sb_items sb), db1)
      | (Inl e, db1) \<Rightarrow> (Th_done (Res_error e), db1))"

definition submit_reserve :: "batch_env \<Rightarrow> net \<Rightarrow> batch_job \<Rightarrow> batch_item list \<Rightarrow> batch_db \<Rightarrow> batch_thread \<times> batch_db" where
  "submit_reserve env n j items db =
     (case reserve_hold env n j (deref (bj_request_hash j)) db of
        (None, db1) \<Rightarrow> (Sub_items j items, db1)
      | (Some e, db1) \<Rightarrow>
          (Sub_fail j (if e = B_insufficient_balance then ''INSUFFICIENT_BALANCE'' else ''BILLING_HOLD_FAILED'') e, db1))"

definition submit_items :: "net \<Rightarrow> batch_job \<Rightarrow> batch_item list \<Rightarrow> batch_db \<Rightarrow> batch_thread \<times> batch_db" where
  "submit_items n j items db =
     (case store_call n db (create_items (bj_batch j) items db) of
        (Inr _, db1) \<Rightarrow> (Sub_upload j, db1)
      | (Inl _, db1) \<Rightarrow> (Sub_release j ''ITEM_CREATE_FAILED'' B_queue_failed, db1))"

definition submit_upload :: "net \<Rightarrow> instant \<Rightarrow> batch_job \<Rightarrow> batch_db \<Rightarrow> batch_thread \<times> batch_db" where
  "submit_upload n now j db =
     (case store_call n db (transition_job (bj_batch j) Bs_uploading (no_options ''upload_started'') now db) of
        (Inr _, db1) \<Rightarrow> (Sub_provider (j\<lparr>bj_status := Bs_uploading\<rparr>), db1)
      | (Inl e, db1) \<Rightarrow>
          (if e = B_invalid_transition then Sub_release_only j e
           else Sub_release j ''UPLOAD_TRANSITION_FAILED'' e, db1))"

definition submit_provider :: "net \<Rightarrow> instant \<Rightarrow> bool \<Rightarrow> submit_answer \<Rightarrow> batch_job \<Rightarrow> batch_db \<Rightarrow> batch_thread \<times> batch_db" where
  "submit_provider n now beat answer j db =
     (if beat then (Sub_provider j, snd (store_call n db (touch_submitting (bj_batch j) now db)))
      else (case answer of
              Submit_fails code e \<Rightarrow> (Sub_release j code e, db)
            | Submit_answers None \<Rightarrow> (Sub_release j ''PROVIDER_SUBMIT_FAILED'' B_submit_failed, db)
            | Submit_answers (Some p) \<Rightarrow>
                (if trim_space (pj_name p) = [] then Sub_release j ''PROVIDER_SUBMIT_FAILED'' B_submit_failed
                 else Sub_record j p, db)))"

definition submit_record :: "net \<Rightarrow> instant \<Rightarrow> batch_job \<Rightarrow> provider_job \<Rightarrow> batch_db \<Rightarrow> batch_thread \<times> batch_db" where
  "submit_record n now j p db =
     (case store_call n db (record_provider_submit (bj_batch j) p now db) of
        (Inr _, db1) \<Rightarrow> (Sub_enqueue j, db1)
      | (Inl e, db1) \<Rightarrow> (Sub_abort j e, db1))"

text \<open>\<^verbatim>\<open>releaseFailedSubmitHold\<close>: a release that fails is left to a worker.\<close>

definition submit_release :: "batch_env \<Rightarrow> net \<Rightarrow> batch_job \<Rightarrow> batch_thread \<Rightarrow> batch_db \<Rightarrow> batch_thread \<times> batch_db" where
  "submit_release env n j next_thread db =
     (case release_hold env n j (deref (bj_request_hash j)) db of
        (None, db1) \<Rightarrow> (next_thread, db1)
      | (Some _, db1) \<Rightarrow> (Sub_unreleased j, db1))"

definition submit_hide :: "net \<Rightarrow> instant \<Rightarrow> batch_job \<Rightarrow> batch_db \<Rightarrow> batch_db" where
  "submit_hide n now j db =
     (if bj_provider_job j \<noteq> None then db
      else snd (store_call n db (mark_user_deleted (bj_user j) (the (bj_key j)) (bj_batch j) now db)))"

section \<open>Cancellation\<close>

definition cancel_read :: "net \<Rightarrow> int \<Rightarrow> int \<Rightarrow> string \<Rightarrow> batch_db \<Rightarrow> batch_thread \<times> batch_db" where
  "cancel_read n user key batch db =
     (case fst (store_call n db (get_job_for_owner user key batch db, db)) of
        Inl e \<Rightarrow> (Th_done (Res_error e), db)
      | Inr j \<Rightarrow>
          (if processor_done (bj_status j) then
             (if bj_status j = Bs_failed \<or> bj_status j = Bs_cancelled then Can_release j else Th_done Res_ok)
           else if deref (bj_provider_job j) \<noteq> [] then Can_provider j
           else Can_move j, db))"

definition cancel_provider :: "net \<Rightarrow> bool \<Rightarrow> bool \<Rightarrow> batch_job \<Rightarrow> batch_db \<Rightarrow> batch_thread \<times> batch_db" where
  "cancel_provider n account cancelled j db =
     (if \<not> supported_provider (bj_provider j) then (Th_done (Res_error B_unsupported_provider), db)
      else if bj_account j = None \<or> \<not> account \<or> \<not> cancelled then (Th_done (Res_error B_cancel_failed), db)
      else (Can_enqueue j, snd (store_call n db (Inr (), append_event (bj_batch j) ''job_cancel_requested'' db))))"

definition cancel_move :: "net \<Rightarrow> instant \<Rightarrow> batch_job \<Rightarrow> batch_db \<Rightarrow> batch_thread \<times> batch_db" where
  "cancel_move n now j db =
     (case store_call n db (transition_job (bj_batch j) Bs_cancelled (no_options ''job_cancelled'') now db) of
        (Inr _, db1) \<Rightarrow> (Can_release j, db1)
      | (Inl e, db1) \<Rightarrow> (Th_done (Res_error e), db1))"

definition cancel_release :: "batch_env \<Rightarrow> net \<Rightarrow> batch_job \<Rightarrow> batch_db \<Rightarrow> batch_thread \<times> batch_db" where
  "cancel_release env n j db =
     (case release_hold env n j (deref (bj_request_hash j)) db of
        (None, db1) \<Rightarrow> (Th_done Res_ok, db1)
      | (Some _, db1) \<Rightarrow> (Can_retry j, db1))"

section \<open>The round of a worker\<close>

text \<open>The lock of the queue lets one worker at a time process a batch.\<close>

definition work_start :: "net \<Rightarrow> string \<Rightarrow> batch_db \<Rightarrow> batch_thread \<times> batch_db" where
  "work_start n batch db =
     (case fst (store_call n db (get_job batch db, db)) of
        Inl e \<Rightarrow> (Th_done (Res_error e), db)
      | Inr j \<Rightarrow> (if bj_status j = Bs_settling then St_read batch else Wk_read batch, db))"

definition work_read :: "net \<Rightarrow> bool \<Rightarrow> string \<Rightarrow> batch_db \<Rightarrow> batch_thread \<times> batch_db" where
  "work_read n account batch db =
     (case fst (store_call n db (get_job batch db, db)) of
        Inl e \<Rightarrow> (Th_done (Res_error e), db)
      | Inr j \<Rightarrow>
          (if processor_done (bj_status j) then
             (if bj_status j = Bs_failed \<or> bj_status j = Bs_cancelled then Wk_release j else Th_done Res_terminal)
           else if \<not> supported_provider (bj_provider j) then Th_done (Res_error B_unsupported_provider)
           else if (case bj_account j of None \<Rightarrow> True | Some a \<Rightarrow> a \<le> 0) then Th_done (Res_error B_missing_account)
           else if \<not> account then Th_done (Res_error B_unsupported_account)
           else if deref (bj_provider_job j) = [] then Th_done (Res_error B_missing_provider_job)
           else if bj_status j = Bs_indexing then Wk_expect j
           else Wk_status j, db))"

definition work_release :: "batch_env \<Rightarrow> net \<Rightarrow> batch_job \<Rightarrow> batch_db \<Rightarrow> batch_thread \<times> batch_db" where
  "work_release env n j db =
     (if bj_status j \<noteq> Bs_failed \<and> bj_status j \<noteq> Bs_cancelled then (Th_done Res_terminal, db)
      else case release_hold env n j (deref (bj_request_hash j)) db of
             (None, db1) \<Rightarrow> (Th_done Res_terminal, db1)
           | (Some e, db1) \<Rightarrow> (Th_done (Res_error e), db1))"

text \<open>What follows from the state the provider reports.\<close>

definition after_status :: "batch_job \<Rightarrow> provider_status \<Rightarrow> batch_thread" where
  "after_status j st =
     (case pv_state st of
        Pst_running \<Rightarrow> if bj_status j \<noteq> Bs_running then Wk_running j else Th_done Res_requeue
      | Pst_succeeded \<Rightarrow> if bj_status j \<noteq> Bs_indexing then Wk_indexing j else Wk_expect j
      | Pst_failed \<Rightarrow> Wk_fail j ''job_failed'' (if trim_space (pv_code st) = [] then ''PROVIDER_BATCH_FAILED'' else trim_space (pv_code st))
      | Pst_expired \<Rightarrow> Wk_fail j ''job_failed'' (if trim_space (pv_code st) = [] then ''PROVIDER_BATCH_EXPIRED'' else trim_space (pv_code st))
      | Pst_cancelled \<Rightarrow> Wk_cancelled j
      | _ \<Rightarrow> Th_done Res_requeue)"

definition work_status :: "status_answer \<Rightarrow> batch_job \<Rightarrow> batch_thread" where
  "work_status answer j =
     (case answer of Status_error \<Rightarrow> Th_done Res_requeue | Status_none \<Rightarrow> Th_done Res_requeue | Status_is st \<Rightarrow> Wk_ref j st)"

definition work_ref :: "net \<Rightarrow> instant \<Rightarrow> batch_job \<Rightarrow> provider_status \<Rightarrow> batch_db \<Rightarrow> batch_thread \<times> batch_db" where
  "work_ref n now j st db =
     (let ref = trim_space (pv_output_ref st)
      in if ref = [] \<or> deref (bj_output_ref j) = ref then (after_status j st, db)
         else case store_call n db (update_output_ref (bj_batch j) ref now db) of
                (Inr _, db1) \<Rightarrow> (after_status (j\<lparr>bj_output_ref := Some ref\<rparr>) st, db1)
              | (Inl e, db1) \<Rightarrow> (Th_done (Res_error e), db1))"

definition work_move ::
  "net \<Rightarrow> instant \<Rightarrow> batch_job \<Rightarrow> batch_status \<Rightarrow> transition_options \<Rightarrow> batch_thread \<Rightarrow> batch_db \<Rightarrow> batch_thread \<times> batch_db" where
  "work_move n now j t opts next_thread db =
     (case store_call n db (transition_job (bj_batch j) t opts now db) of
        (Inr _, db1) \<Rightarrow> (next_thread, db1)
      | (Inl e, db1) \<Rightarrow> (Th_done (Res_error e), db1))"

definition index_failure :: "batch_job \<Rightarrow> batch_error \<Rightarrow> batch_thread" where
  "index_failure j e =
     (if e = B_output_missing then Th_done (Res_error e)
      else if e = B_state_conflict then Th_done Res_requeue
      else Wk_fail j ''indexing_failed'' (if e = B_duplicate_custom_id then ''DUPLICATE_CUSTOM_ID_IN_OUTPUT'' else ''INDEX_PARSE_FAILED''))"

definition work_expect :: "net \<Rightarrow> batch_job \<Rightarrow> batch_db \<Rightarrow> batch_thread \<times> batch_db" where
  "work_expect n j db =
     (case fst (store_call n db (Inr (expected_ids (bj_batch j) 0 db), db)) of
        Inl e \<Rightarrow> (index_failure j e, db)
      | Inr ids \<Rightarrow> (Wk_index j ids, db))"

definition work_index :: "index_env \<Rightarrow> result_stream option \<Rightarrow> batch_job \<Rightarrow> string list \<Rightarrow> batch_thread" where
  "work_index env output j ids =
     (case output of
        None \<Rightarrow> index_failure j B_output_missing
      | Some rs \<Rightarrow> (case build_index env ids j rs of Inl e \<Rightarrow> index_failure j e | Inr st \<Rightarrow> Wk_replace j st))"

definition work_replace :: "net \<Rightarrow> instant \<Rightarrow> batch_job \<Rightarrow> index_state \<Rightarrow> batch_db \<Rightarrow> batch_thread \<times> batch_db" where
  "work_replace n now j st db =
     (case store_call n db (replace_items (bj_batch j) (ix_items st) (ix_success st) (ix_fail st) now db) of
        (Inr _, db1) \<Rightarrow> (Wk_settling j, db1)
      | (Inl e, db1) \<Rightarrow> (index_failure j e, db1))"

section \<open>Settlement\<close>

definition manifest_hash :: "batch_env \<Rightarrow> batch_job \<Rightarrow> string" where
  "manifest_hash env j =
     (let sep = [CHR 0x00]
      in be_sha256 env (trim_space (bj_batch j) @ sep @ trim_space (bj_provider j) @ sep @ trim_space (bj_model j) @ sep
           @ deref (bj_provider_job j) @ sep @ deref (bj_output_ref j) @ sep
           @ itoa (bj_success j) @ sep @ itoa (bj_fail j) @ sep @ itoa (bj_item_count j)))"

definition settlement_max_retries :: int where
  "settlement_max_retries = 5"

definition retry_exhausted :: "batch_job \<Rightarrow> bool" where
  "retry_exhausted j \<longleftrightarrow>
     bj_status j = Bs_settling \<and> settlement_max_retries \<le> bj_retry_count j \<and> prefix ''SETTLEMENT_'' (deref (bj_error_code j))"

definition settlement_unit_price :: "batch_error + rat \<Rightarrow> batch_job \<Rightarrow> batch_error + rat" where
  "settlement_unit_price catalog j =
     (if 1 \<le> bj_price_version j then (if bj_unit_price j < 0 then Inl B_pricing_missing else Inr (bj_unit_price j))
      else catalog)"

definition held_amount :: "batch_job \<Rightarrow> rat" where
  "held_amount j = (case bj_hold j of None \<Rightarrow> bj_estimated j | Some h \<Rightarrow> h)"

definition positive_id :: "int option \<Rightarrow> bool" where
  "positive_id v = (case v of None \<Rightarrow> False | Some i \<Rightarrow> 0 < i)"

definition settle_checks :: "batch_env \<Rightarrow> batch_error + rat \<Rightarrow> batch_job \<Rightarrow> batch_thread" where
  "settle_checks env catalog j =
     (if bj_success j < 0 \<or> bj_fail j < 0 \<or> bj_item_count j < 0 \<or> bj_item_count j < bj_success j + bj_fail j then
        St_failure j ''SETTLEMENT_INVALID_COUNTS'' B_invalid_counts
      else if deref (bj_manifest_hash j) \<noteq> [] \<and> deref (bj_manifest_hash j) \<noteq> manifest_hash env j then
        St_failure j ''SETTLEMENT_MANIFEST_CONFLICT'' B_manifest_conflict
      else case (case settlement_unit_price catalog j of
                   Inl e \<Rightarrow> Inl e | Inr p \<Rightarrow> if p < 0 then Inl B_pricing_missing else Inr p) of
             Inl e \<Rightarrow> St_failure j ''SETTLEMENT_PRICING_MISSING'' e
           | Inr p \<Rightarrow>
               (let cost = of_int (bj_success j) * p
                in if cost_epsilon < cost - held_amount j then St_failure j ''SETTLEMENT_COST_EXCEEDS_HOLD'' B_cost_exceeds_hold
                   else St_capture j cost))"

definition settle_read :: "batch_env \<Rightarrow> net \<Rightarrow> batch_error + rat \<Rightarrow> string \<Rightarrow> batch_db \<Rightarrow> batch_thread \<times> batch_db" where
  "settle_read env n catalog batch db =
     (case fst (store_call n db (get_job batch db, db)) of
        Inl e \<Rightarrow> (Th_done (Res_error e), db)
      | Inr j \<Rightarrow>
          (if bj_status j = Bs_completed then Th_done Res_terminal
           else if bj_status j \<noteq> Bs_settling then Th_done (Res_error B_invalid_status)
           else if \<not> positive_id (bj_key j) then Th_done (Res_error B_missing_api_key)
           else if \<not> positive_id (bj_account j) then Th_done (Res_error B_missing_account)
           else if retry_exhausted j then St_release j
           else settle_checks env catalog j, db))"

text \<open>The pipeline tries again after a failure of billing and reports any other error to the worker.\<close>

definition settle_result :: "batch_error \<Rightarrow> call_result" where
  "settle_result e = (case e of B_billing_failed _ \<Rightarrow> Res_requeue | _ \<Rightarrow> Res_error e)"

definition settle_capture :: "batch_env \<Rightarrow> net \<Rightarrow> batch_job \<Rightarrow> rat \<Rightarrow> batch_db \<Rightarrow> batch_thread \<times> batch_db" where
  "settle_capture env n j cost db =
     (case capture_hold env n j cost (manifest_hash env j) db of
        (None, db1) \<Rightarrow> (St_mark j cost, db1)
      | (Some e, db1) \<Rightarrow> (St_failure j ''SETTLEMENT_BILLING_FAILED'' e, db1))"

definition output_retention :: "int \<Rightarrow> duration" where
  "output_retention hours = (if 0 < hours then hours * hour else 72 * hour)"

definition settle_mark :: "batch_setup \<Rightarrow> net \<Rightarrow> instant \<Rightarrow> batch_job \<Rightarrow> rat \<Rightarrow> batch_db \<Rightarrow> batch_thread \<times> batch_db" where
  "settle_mark su n now j cost db =
     (case store_call n db (mark_settled (bj_batch j) cost (manifest_hash (bs_env su) j) now
              (Some (now + output_retention (bs_retention_hours su))) db) of
        (Inr _, db1) \<Rightarrow> (Th_done Res_terminal, db1)
      | (Inl e, db1) \<Rightarrow> (Th_done (settle_result e), db1))"

definition settle_failure :: "net \<Rightarrow> instant \<Rightarrow> batch_job \<Rightarrow> string \<Rightarrow> batch_error \<Rightarrow> batch_db \<Rightarrow> batch_thread \<times> batch_db" where
  "settle_failure n now j code e db =
     (case store_call n db (record_settlement_failure (bj_batch j) code now db) of
        (Inr tries, db1) \<Rightarrow>
          (if settlement_max_retries \<le> tries then St_release (j\<lparr>bj_retry_count := tries, bj_error_code := Some code\<rparr>)
           else Th_done (settle_result e), db1)
      | (Inl _, db1) \<Rightarrow> (Th_done (settle_result e), db1))"

definition settle_release :: "batch_env \<Rightarrow> net \<Rightarrow> batch_job \<Rightarrow> batch_db \<Rightarrow> batch_thread \<times> batch_db" where
  "settle_release env n j db =
     (case release_hold env n j (deref (bj_request_hash j)) db of
        (None, db1) \<Rightarrow> (St_exhaust j, db1)
      | (Some _, db1) \<Rightarrow> (St_unreleased j, db1))"

definition settle_exhaust :: "net \<Rightarrow> instant \<Rightarrow> batch_job \<Rightarrow> batch_db \<Rightarrow> batch_thread \<times> batch_db" where
  "settle_exhaust n now j db =
     (case store_call n db (transition_job (bj_batch j) Bs_failed
              \<lparr>to_event = ''settlement_retry_exhausted'', to_code = Some ''SETTLEMENT_BILLING_RETRY_EXHAUSTED''\<rparr> now db) of
        (Inr _, db1) \<Rightarrow> (Th_done Res_terminal, db1)
      | (Inl e, db1) \<Rightarrow> (Th_done (settle_result e), db1))"

section \<open>Recovery of stale submissions\<close>

definition recover_list :: "net \<Rightarrow> instant \<Rightarrow> nat \<Rightarrow> batch_db \<Rightarrow> batch_thread \<times> batch_db" where
  "recover_list n cutoff limit db =
     (case fst (store_call n db (Inr (list_stale_unsubmitted cutoff limit db), db)) of
        Inl e \<Rightarrow> (Th_done (Res_error e), db)
      | Inr js \<Rightarrow> (Rec_jobs js cutoff, db))"

fun recover_jobs :: "net \<Rightarrow> instant \<Rightarrow> batch_job list \<Rightarrow> instant \<Rightarrow> batch_db \<Rightarrow> batch_thread \<times> batch_db" where
  "recover_jobs n now [] cutoff db = (Th_done Res_ok, db)"
| "recover_jobs n now (j # js) cutoff db =
     (case store_call n db (fail_stale_job (bj_batch j) cutoff ''SUBMIT_STALE_BEFORE_PROVIDER'' now db) of
        (Inr applied, db1) \<Rightarrow> (if applied then Rec_release (j\<lparr>bj_status := Bs_failed\<rparr>) js cutoff else Rec_jobs js cutoff, db1)
      | (Inl _, db1) \<Rightarrow> (Rec_jobs js cutoff, db1))"

definition recover_release :: "batch_env \<Rightarrow> net \<Rightarrow> batch_job \<Rightarrow> batch_job list \<Rightarrow> instant \<Rightarrow> batch_db \<Rightarrow> batch_thread \<times> batch_db" where
  "recover_release env n j js cutoff db =
     (case release_hold env n j (deref (bj_request_hash j)) db of
        (None, db1) \<Rightarrow> (Rec_jobs js cutoff, db1)
      | (Some _, db1) \<Rightarrow> (Rec_retry j js cutoff, db1))"

section \<open>One statement\<close>

fun thread_step :: "batch_setup \<Rightarrow> instant \<Rightarrow> outside \<Rightarrow> batch_thread \<Rightarrow> batch_db \<Rightarrow> batch_thread \<times> batch_db" where
  "thread_step su now ot (Sub_lookup sb) db = submit_lookup (oa_net ot) sb db"
| "thread_step su now ot (Sub_requeue j) db = (if oa_queued ot then Th_done Res_ok else Sub_unqueued j, db)"
| "thread_step su now ot (Sub_create sb) db = submit_create (oa_net ot) now sb db"
| "thread_step su now ot (Sub_reserve j items) db = submit_reserve (bs_env su) (oa_net ot) j items db"
| "thread_step su now ot (Sub_items j items) db = submit_items (oa_net ot) j items db"
| "thread_step su now ot (Sub_upload j) db = submit_upload (oa_net ot) now j db"
| "thread_step su now ot (Sub_provider j) db = submit_provider (oa_net ot) now (oa_beat ot) (oa_submit ot) j db"
| "thread_step su now ot (Sub_record j p) db = submit_record (oa_net ot) now j p db"
| "thread_step su now ot (Sub_abort j e) db =
     (Th_done (Res_error e),
      snd (store_call (oa_net ot) db (Inr (), append_event (bj_batch j) ''provider_job_aborted_after_submit'' db)))"
| "thread_step su now ot (Sub_enqueue j) db = (if oa_queued ot then Sub_final j else Sub_unqueued j, db)"
| "thread_step su now ot (Sub_unqueued j) db =
     (Th_done (Res_error B_queue_failed),
      snd (store_call (oa_net ot) db (record_submit_failure (bj_batch j) ''QUEUE_FAILED'' False now db)))"
| "thread_step su now ot (Sub_final j) db =
     (case fst (store_call (oa_net ot) db (get_job (bj_batch j) db, db)) of
        Inl e \<Rightarrow> (Th_done (Res_error e), db) | Inr _ \<Rightarrow> (Th_done Res_ok, db))"
| "thread_step su now ot (Sub_release j code e) db = submit_release (bs_env su) (oa_net ot) j (Sub_fail j code e) db"
| "thread_step su now ot (Sub_release_only j e) db = submit_release (bs_env su) (oa_net ot) j (Th_done (Res_error e)) db"
| "thread_step su now ot (Sub_unreleased j) db =
     (Sub_retry j, snd (store_call (oa_net ot) db (record_submit_failure (bj_batch j) ''BILLING_RELEASE_FAILED'' True now db)))"
| "thread_step su now ot (Sub_retry j) db =
     (Th_done (Res_error (B_hold_failed None)),
      if oa_queued ot then db
      else snd (store_call (oa_net ot) db (Inr (), append_event (bj_batch j) ''billing_retry_enqueue_failed'' db)))"
| "thread_step su now ot (Sub_fail j code e) db =
     (Sub_hide j e, snd (store_call (oa_net ot) db (record_submit_failure (bj_batch j) code True now db)))"
| "thread_step su now ot (Sub_hide j e) db = (Th_done (Res_error e), submit_hide (oa_net ot) now j db)"
| "thread_step su now ot (Can_read user key batch) db = cancel_read (oa_net ot) user key batch db"
| "thread_step su now ot (Can_provider j) db = cancel_provider (oa_net ot) (oa_account ot) (oa_cancelled ot) j db"
| "thread_step su now ot (Can_enqueue j) db =
     (if oa_queued ot then Th_done Res_ok else Th_done (Res_error B_cancel_failed), db)"
| "thread_step su now ot (Can_move j) db = cancel_move (oa_net ot) now j db"
| "thread_step su now ot (Can_release j) db = cancel_release (bs_env su) (oa_net ot) j db"
| "thread_step su now ot (Can_retry j) db =
     (Th_done (Res_error B_cancel_failed),
      if oa_queued ot then db
      else snd (store_call (oa_net ot) db (Inr (), append_event (bj_batch j) ''billing_retry_enqueue_failed'' db)))"
| "thread_step su now ot (Wk_start batch) db = work_start (oa_net ot) batch db"
| "thread_step su now ot (Wk_read batch) db = work_read (oa_net ot) (oa_account ot) batch db"
| "thread_step su now ot (Wk_release j) db = work_release (bs_env su) (oa_net ot) j db"
| "thread_step su now ot (Wk_status j) db = (work_status (oa_status ot) j, db)"
| "thread_step su now ot (Wk_ref j st) db = work_ref (oa_net ot) now j st db"
| "thread_step su now ot (Wk_running j) db =
     work_move (oa_net ot) now j Bs_running (no_options ''provider_status_checked'') (Th_done Res_requeue) db"
| "thread_step su now ot (Wk_indexing j) db =
     work_move (oa_net ot) now j Bs_indexing (no_options ''indexing_started'') (Wk_expect (j\<lparr>bj_status := Bs_indexing\<rparr>)) db"
| "thread_step su now ot (Wk_expect j) db = work_expect (oa_net ot) j db"
| "thread_step su now ot (Wk_index j ids) db = (work_index (bs_index su) (oa_output ot) j ids, db)"
| "thread_step su now ot (Wk_replace j st) db = work_replace (oa_net ot) now j st db"
| "thread_step su now ot (Wk_settling j) db =
     work_move (oa_net ot) now j Bs_settling (no_options ''indexing_completed'') (Th_done Res_requeue) db"
| "thread_step su now ot (Wk_fail j ev code) db =
     work_move (oa_net ot) now j Bs_failed \<lparr>to_event = ev, to_code = Some code\<rparr> (Wk_release (j\<lparr>bj_status := Bs_failed\<rparr>)) db"
| "thread_step su now ot (Wk_cancelled j) db =
     work_move (oa_net ot) now j Bs_cancelled (no_options ''job_failed'') (Wk_release (j\<lparr>bj_status := Bs_cancelled\<rparr>)) db"
| "thread_step su now ot (St_read batch) db = settle_read (bs_env su) (oa_net ot) (oa_price ot) batch db"
| "thread_step su now ot (St_capture j cost) db = settle_capture (bs_env su) (oa_net ot) j cost db"
| "thread_step su now ot (St_mark j cost) db = settle_mark su (oa_net ot) now j cost db"
| "thread_step su now ot (St_failure j code e) db = settle_failure (oa_net ot) now j code e db"
| "thread_step su now ot (St_release j) db = settle_release (bs_env su) (oa_net ot) j db"
| "thread_step su now ot (St_unreleased j) db =
     (Th_done Res_requeue,
      snd (store_call (oa_net ot) db (record_settlement_failure (bj_batch j) ''SETTLEMENT_RELEASE_FAILED'' now db)))"
| "thread_step su now ot (St_exhaust j) db = settle_exhaust (oa_net ot) now j db"
| "thread_step su now ot (Rec_list cutoff limit) db = recover_list (oa_net ot) cutoff limit db"
| "thread_step su now ot (Rec_jobs js cutoff) db = recover_jobs (oa_net ot) now js cutoff db"
| "thread_step su now ot (Rec_release j js cutoff) db = recover_release (bs_env su) (oa_net ot) j js cutoff db"
| "thread_step su now ot (Rec_retry j js cutoff) db = (Rec_jobs js cutoff, db)"
| "thread_step su now ot (Th_done r) db = (Th_done r, db)"

end
