(* ===== verification/BatchCleanup.thy ===== *)
theory BatchCleanup
  imports BatchCalls
begin

text \<open>
  The cleaning of inputs and outputs of batch-image jobs at the provider (\<^verbatim>\<open>service/batch_image_cleanup.go\<close>), statement
  by statement: one job on request of its owner or of an operator, or all jobs that are due. The provider is a
  parameter: what it answers comes with each statement.
\<close>

section \<open>Calls in progress\<close>

datatype cleanup_target = Target_input | Target_output

datatype cleanup_error = Cu_store batch_error | Cu_failed | Cu_not_ready | Cu_unsafe_path | Cu_provider_failed

text \<open>The answer of the provider; not finding the files counts as cleaned, any other failure carries its code.\<close>

datatype cleanup_answer = Cleaned | Files_not_found | Unsafe_path | Cleanup_fails string

record cleanup_run =
  cr_inputs :: nat
  cr_outputs :: nat
  cr_failures :: nat

text \<open>What follows the cleaning of a job: the answer to its owner, the answer to an operator, or the rest of a run.\<close>

datatype cleanup_after =
    After_owner int int string
  | After_single
  | After_run instant cleanup_target "batch_job list" cleanup_run

datatype cleanup_thread =
    Cl_owner int int string
  | Cl_read string cleanup_target
  | Cl_list_inputs instant
  | Cl_list_outputs instant cleanup_run
  | Cl_jobs instant cleanup_target "batch_job list" cleanup_run
  | Cl_check cleanup_target batch_job cleanup_after
  | Cl_provider cleanup_target batch_job cleanup_after
  | Cl_failure cleanup_target batch_job string cleanup_after
  | Cl_mark cleanup_target batch_job cleanup_after
  | Cl_final int int string
  | Cl_done "cleanup_error option"
  | Cl_run_done "cleanup_error option" cleanup_run

record cleanup_config =
  cc_input_hours :: int
  cc_batch_size :: int

definition input_retention :: "cleanup_config \<Rightarrow> duration" where
  "input_retention cfg = (if 0 < cc_input_hours cfg then cc_input_hours cfg * hour else 24 * hour)"

definition cleanup_batch_size :: "cleanup_config \<Rightarrow> nat" where
  "cleanup_batch_size cfg = (if 0 < cc_batch_size cfg then nat (cc_batch_size cfg) else 100)"

section \<open>Statements\<close>

text \<open>A job is cleaned, or was before, or it failed.\<close>

fun cleanup_next :: "cleanup_after \<Rightarrow> cleanup_error option \<Rightarrow> cleanup_thread" where
  "cleanup_next (After_owner user key batch) e = (if e = None then Cl_final user key batch else Cl_done e)"
| "cleanup_next After_single e = Cl_done e"
| "cleanup_next (After_run now t js r) e =
     Cl_jobs now t js
       (if e \<noteq> None then r\<lparr>cr_failures := cr_failures r + 1\<rparr>
        else case t of Target_input \<Rightarrow> r\<lparr>cr_inputs := cr_inputs r + 1\<rparr> | Target_output \<Rightarrow> r\<lparr>cr_outputs := cr_outputs r + 1\<rparr>)"

definition best_effort_event :: "net \<Rightarrow> string \<Rightarrow> string \<Rightarrow> batch_db \<Rightarrow> batch_db" where
  "best_effort_event n batch ev db = snd (store_call n db (Inr (), append_event batch ev db))"

definition cleanup_owner :: "net \<Rightarrow> int \<Rightarrow> int \<Rightarrow> string \<Rightarrow> batch_db \<Rightarrow> cleanup_thread \<times> batch_db" where
  "cleanup_owner n user key batch db =
     (case fst (store_call n db (get_job_for_owner user key batch db, db)) of
        Inl e \<Rightarrow> (Cl_done (Some (Cu_store e)), db)
      | Inr j \<Rightarrow>
          (if bj_status j = Bs_output_deleted \<or> bj_output_deleted j \<noteq> None then (Cl_done None, db)
           else if bj_status j \<noteq> Bs_completed then (Cl_done (Some Cu_not_ready), db)
           else (Cl_check Target_output j (After_owner user key batch),
                 best_effort_event n (bj_batch j) ''manual_output_delete_requested'' db)))"

definition cleanup_read :: "net \<Rightarrow> string \<Rightarrow> cleanup_target \<Rightarrow> batch_db \<Rightarrow> cleanup_thread \<times> batch_db" where
  "cleanup_read n batch t db =
     (case fst (store_call n db (get_job batch db, db)) of
        Inl e \<Rightarrow> (Cl_done (Some (Cu_store e)), db)
      | Inr j \<Rightarrow> (Cl_check t j After_single, db))"

definition cleanup_list_inputs :: "cleanup_config \<Rightarrow> net \<Rightarrow> instant \<Rightarrow> batch_db \<Rightarrow> cleanup_thread \<times> batch_db" where
  "cleanup_list_inputs cfg n now db =
     (let r = \<lparr>cr_inputs = 0, cr_outputs = 0, cr_failures = 0\<rparr>
      in case fst (store_call n db (Inr (list_due_for_input (now - input_retention cfg) (cleanup_batch_size cfg) db), db)) of
           Inl e \<Rightarrow> (Cl_run_done (Some (Cu_store e)) r, db)
         | Inr js \<Rightarrow> (Cl_jobs now Target_input js r, db))"

definition cleanup_list_outputs ::
  "cleanup_config \<Rightarrow> net \<Rightarrow> instant \<Rightarrow> cleanup_run \<Rightarrow> batch_db \<Rightarrow> cleanup_thread \<times> batch_db" where
  "cleanup_list_outputs cfg n now r db =
     (case fst (store_call n db (Inr (list_due_for_output now (cleanup_batch_size cfg) db), db)) of
        Inl e \<Rightarrow> (Cl_run_done (Some (Cu_store e)) r, db)
      | Inr js \<Rightarrow> (Cl_jobs now Target_output js r, db))"

fun cleanup_jobs :: "instant \<Rightarrow> cleanup_target \<Rightarrow> batch_job list \<Rightarrow> cleanup_run \<Rightarrow> cleanup_thread" where
  "cleanup_jobs now Target_input [] r = Cl_list_outputs now r"
| "cleanup_jobs now Target_output [] r = Cl_run_done None r"
| "cleanup_jobs now t (j # js) r = Cl_check t j (After_run now t js r)"

definition cleanup_check ::
  "net \<Rightarrow> cleanup_target \<Rightarrow> batch_job \<Rightarrow> cleanup_after \<Rightarrow> batch_db \<Rightarrow> cleanup_thread \<times> batch_db" where
  "cleanup_check n t j aft db =
     (case t of
        Target_input \<Rightarrow>
          (if bj_input_deleted j \<noteq> None then (cleanup_next aft None, db)
           else if \<not> terminal_status (bj_status j) then (cleanup_next aft (Some Cu_failed), db)
           else (Cl_provider t j aft, best_effort_event n (bj_batch j) ''input_cleanup_started'' db))
      | Target_output \<Rightarrow>
          (if bj_output_deleted j \<noteq> None \<or> bj_status j = Bs_output_deleted then (cleanup_next aft None, db)
           else if bj_status j \<noteq> Bs_completed \<and> bj_status j \<noteq> Bs_failed \<and> bj_status j \<noteq> Bs_cancelled then
             (cleanup_next aft (Some Cu_not_ready), db)
           else (Cl_provider t j aft, best_effort_event n (bj_batch j) ''output_cleanup_started'' db)))"

definition cleanup_code :: "string \<Rightarrow> string" where
  "cleanup_code reason = (if trim_space reason \<noteq> [] then trim_space reason else ''BATCH_IMAGE_PROVIDER_CLEANUP_FAILED'')"

text \<open>\<^verbatim>\<open>callProviderCleanup\<close>: \<open>account\<close> is the reason why the account of the job could not be resolved, if it could not.\<close>

definition cleanup_provider ::
  "string option \<Rightarrow> cleanup_answer \<Rightarrow> cleanup_target \<Rightarrow> batch_job \<Rightarrow> cleanup_after \<Rightarrow> cleanup_thread" where
  "cleanup_provider account answer t j aft =
     (if \<not> supported_provider (bj_provider j) then Cl_failure t j ''BATCH_IMAGE_UNSUPPORTED_PROVIDER'' aft
      else if \<not> positive_id (bj_account j) then Cl_failure t j ''BATCH_IMAGE_MISSING_ACCOUNT_ID'' aft
      else case account of
             Some reason \<Rightarrow> Cl_failure t j (cleanup_code reason) aft
           | None \<Rightarrow>
               (case answer of
                  Cleaned \<Rightarrow> Cl_mark t j aft
                | Files_not_found \<Rightarrow> Cl_mark t j aft
                | Unsafe_path \<Rightarrow> Cl_failure t j ''BATCH_IMAGE_CLEANUP_UNSAFE_PATH'' aft
                | Cleanup_fails reason \<Rightarrow> Cl_failure t j (cleanup_code reason) aft))"

definition cleanup_failure ::
  "net \<Rightarrow> instant \<Rightarrow> cleanup_target \<Rightarrow> batch_job \<Rightarrow> string \<Rightarrow> cleanup_after \<Rightarrow> batch_db \<Rightarrow> cleanup_thread \<times> batch_db" where
  "cleanup_failure n now t j code aft db =
     (cleanup_next aft (Some (if code = ''BATCH_IMAGE_CLEANUP_UNSAFE_PATH'' then Cu_unsafe_path else Cu_provider_failed)),
      best_effort_event n (bj_batch j) (case t of Target_input \<Rightarrow> ''input_cleanup_failed'' | Target_output \<Rightarrow> ''output_cleanup_failed'')
        (snd (store_call n db (record_cleanup_failure (bj_batch j) code now db))))"

definition cleanup_mark ::
  "net \<Rightarrow> instant \<Rightarrow> cleanup_target \<Rightarrow> batch_job \<Rightarrow> cleanup_after \<Rightarrow> batch_db \<Rightarrow> cleanup_thread \<times> batch_db" where
  "cleanup_mark n now t j aft db =
     (case store_call n db
             (case t of Target_input \<Rightarrow> mark_input_deleted (bj_batch j) now db
                      | Target_output \<Rightarrow> mark_output_deleted (bj_batch j) now db) of
        (Inr _, db1) \<Rightarrow> (cleanup_next aft None, db1)
      | (Inl e, db1) \<Rightarrow> (cleanup_next aft (Some (Cu_store e)), db1))"

fun cleanup_step ::
  "cleanup_config \<Rightarrow> instant \<Rightarrow> net \<Rightarrow> string option \<Rightarrow> cleanup_answer \<Rightarrow> cleanup_thread \<Rightarrow> batch_db \<Rightarrow> cleanup_thread \<times> batch_db" where
  "cleanup_step cfg now n account answer (Cl_owner user key batch) db = cleanup_owner n user key batch db"
| "cleanup_step cfg now n account answer (Cl_read batch t) db = cleanup_read n batch t db"
| "cleanup_step cfg now n account answer (Cl_list_inputs t0) db = cleanup_list_inputs cfg n t0 db"
| "cleanup_step cfg now n account answer (Cl_list_outputs t0 r) db = cleanup_list_outputs cfg n t0 r db"
| "cleanup_step cfg now n account answer (Cl_jobs t0 t js r) db = (cleanup_jobs t0 t js r, db)"
| "cleanup_step cfg now n account answer (Cl_check t j aft) db = cleanup_check n t j aft db"
| "cleanup_step cfg now n account answer (Cl_provider t j aft) db = (cleanup_provider account answer t j aft, db)"
| "cleanup_step cfg now n account answer (Cl_failure t j code aft) db = cleanup_failure n now t j code aft db"
| "cleanup_step cfg now n account answer (Cl_mark t j aft) db = cleanup_mark n now t j aft db"
| "cleanup_step cfg now n account answer (Cl_final user key batch) db =
     (Cl_done (case fst (store_call n db (get_job_for_owner user key batch db, db)) of Inl e \<Rightarrow> Some (Cu_store e) | Inr _ \<Rightarrow> None), db)"
| "cleanup_step cfg now n account answer (Cl_done e) db = (Cl_done e, db)"
| "cleanup_step cfg now n account answer (Cl_run_done e r) db = (Cl_run_done e r, db)"

section \<open>Records of the owner\<close>

text \<open>\<^verbatim>\<open>DeleteRecord\<close>: the row it has read decides whether it asks, the statement checks again.\<close>

definition delete_record ::
  "net \<Rightarrow> instant \<Rightarrow> int \<Rightarrow> int \<Rightarrow> batch_error + batch_job \<Rightarrow> batch_db \<Rightarrow> (batch_error + unit) \<times> batch_db" where
  "delete_record n now user key read db =
     (case read of
        Inl e \<Rightarrow> (Inl e, db)
      | Inr j \<Rightarrow>
          if \<not> processor_done (bj_status j) then (Inl B_record_delete_not_ready, db)
          else store_call n db (mark_user_deleted user key (bj_batch j) now db))"

definition record_download :: "net \<Rightarrow> instant \<Rightarrow> batch_error + batch_job \<Rightarrow> batch_db \<Rightarrow> (batch_error + unit) \<times> batch_db" where
  "record_download n now read db =
     (case read of Inl e \<Rightarrow> (Inl e, db) | Inr j \<Rightarrow> store_call n db (mark_downloaded (bj_batch j) now db))"

end
