(* ===== verification/BatchLedger.thy ===== *)
theory BatchLedger
  imports BatchCalls
begin

text \<open>
  What the three transactions on holds keep: the books of every user, the claims that make each of them happen once,
  and what a call of them does to one batch.
\<close>

section \<open>Moves\<close>

fun move_id :: "hold_move \<Rightarrow> string \<times> int" where
  "move_id (Move_reserve b k u h) = (b, k)"
| "move_id (Move_capture b k u h a) = (b, k)"
| "move_id (Move_release b k u h) = (b, k)"

fun is_reserve :: "hold_move \<Rightarrow> bool" where
  "is_reserve (Move_reserve b k u h) \<longleftrightarrow> True"
| "is_reserve _ \<longleftrightarrow> False"

fun is_capture :: "hold_move \<Rightarrow> bool" where
  "is_capture (Move_capture b k u h a) \<longleftrightarrow> True"
| "is_capture _ \<longleftrightarrow> False"

fun is_release :: "hold_move \<Rightarrow> bool" where
  "is_release (Move_release b k u h) \<longleftrightarrow> True"
| "is_release _ \<longleftrightarrow> False"

definition times_taken :: "string \<times> int \<Rightarrow> hold_db \<Rightarrow> nat" where
  "times_taken x m = length (filter (\<lambda>v. is_reserve v \<and> move_id v = x) (hd_moves m))"

definition times_paid :: "string \<times> int \<Rightarrow> hold_db \<Rightarrow> nat" where
  "times_paid x m = length (filter (\<lambda>v. is_capture v \<and> move_id v = x) (hd_moves m))"

definition times_returned :: "string \<times> int \<Rightarrow> hold_db \<Rightarrow> nat" where
  "times_returned x m = length (filter (\<lambda>v. is_release v \<and> move_id v = x) (hd_moves m))"

lemmas times_defs = times_taken_def times_paid_def times_returned_def

text \<open>What a user has frozen and spent according to the moves.\<close>

fun frozen_by :: "int \<Rightarrow> hold_move \<Rightarrow> rat" where
  "frozen_by v (Move_reserve b k u h) = (if u = v then h else 0)"
| "frozen_by v (Move_capture b k u h a) = (if u = v then - h else 0)"
| "frozen_by v (Move_release b k u h) = (if u = v then - h else 0)"

fun spent_by :: "int \<Rightarrow> hold_move \<Rightarrow> rat" where
  "spent_by v (Move_capture b k u h a) = (if u = v then a else 0)"
| "spent_by v _ = 0"

definition total_frozen :: "int \<Rightarrow> hold_db \<Rightarrow> rat" where
  "total_frozen u m = sum_list (map (frozen_by u) (hd_moves m))"

definition total_spent :: "int \<Rightarrow> hold_db \<Rightarrow> rat" where
  "total_spent u m = sum_list (map (spent_by u) (hd_moves m))"

section \<open>A transaction\<close>

lemma apply_hold_cases:
  assumes "apply_hold env tx cmd m = (r, m')"
  obtains (same) "m' = m" "\<And>u. r \<noteq> Inr (True, u)"
  | (fresh) c u where "c = normalize_hold env cmd" "hd_claims m (hc_request c, hc_key c) = None"
      "tx c (m\<lparr>hd_claims := (hd_claims m)((hc_request c, hc_key c) \<mapsto> hc_fingerprint c)\<rparr>) = Inr (u, m')"
      "r = Inr (True, u)"
  using assms
  by (auto simp: apply_hold_def claim_request_def Let_def split: if_splits sum.splits option.splits prod.splits)

text \<open>What one transaction does, whichever it is.\<close>

definition tx_shape ::
  "(hold_command \<Rightarrow> hold_db \<Rightarrow> batch_error + (bill_user option \<times> hold_db)) \<Rightarrow> (hold_command \<Rightarrow> hold_move) \<Rightarrow> bool" where
  "tx_shape tx mv \<longleftrightarrow>
     (\<forall>c m u m'. tx c m = Inr (u, m') \<longrightarrow>
        m' = m \<and> u = None
        \<or> (\<exists>w w'. hd_users m (hc_user c) = Some w \<and> u = Some w'
            \<and> m' = m\<lparr>hd_users := (hd_users m)(hc_user c \<mapsto> w'), hd_moves := mv c # hd_moves m\<rparr>
            \<and> bu_balance w' + bu_frozen w' + spent_by (hc_user c) (mv c) = bu_balance w + bu_frozen w
            \<and> bu_frozen w' = bu_frozen w + frozen_by (hc_user c) (mv c)
            \<and> (0 \<le> hc_hold c \<longrightarrow> 0 \<le> bu_frozen w \<longrightarrow> 0 \<le> bu_frozen w')))"

definition reserve_move :: "hold_command \<Rightarrow> hold_move" where
  "reserve_move c = Move_reserve (hc_batch c) (hc_key c) (hc_user c) (hc_hold c)"

definition capture_move :: "hold_command \<Rightarrow> hold_move" where
  "capture_move c = Move_capture (hc_batch c) (hc_key c) (hc_user c) (hc_hold c) (hc_actual c)"

definition release_move :: "hold_command \<Rightarrow> hold_move" where
  "release_move c = Move_release (hc_batch c) (hc_key c) (hc_user c) (hc_hold c)"

lemmas move_defs = reserve_move_def capture_move_def release_move_def

lemma reserve_shape: "tx_shape reserve_tx reserve_move"
  by (auto simp: tx_shape_def reserve_tx_def reserve_move_def Let_def split: if_splits option.splits)

lemma capture_shape: "tx_shape capture_tx capture_move"
  by (auto simp: tx_shape_def capture_tx_def capture_move_def Let_def split: if_splits option.splits)

lemma release_shape: "tx_shape release_tx release_move"
  by (auto simp: tx_shape_def release_tx_def release_move_def Let_def split: if_splits option.splits)

lemma tx_shapeE:
  assumes "tx_shape tx mv" "tx c m = Inr (u, m')"
  obtains (nothing) "m' = m" "u = None"
  | (moved) w w' where "hd_users m (hc_user c) = Some w" "u = Some w'"
      "m' = m\<lparr>hd_users := (hd_users m)(hc_user c \<mapsto> w'), hd_moves := mv c # hd_moves m\<rparr>"
      "bu_balance w' + bu_frozen w' + spent_by (hc_user c) (mv c) = bu_balance w + bu_frozen w"
      "bu_frozen w' = bu_frozen w + frozen_by (hc_user c) (mv c)"
      "0 \<le> hc_hold c \<Longrightarrow> 0 \<le> bu_frozen w \<Longrightarrow> 0 \<le> bu_frozen w'"
proof -
  note shape = assms(1) [unfolded tx_shape_def, THEN spec, THEN spec, THEN spec, THEN spec, THEN mp, OF assms(2)]
  from shape show ?thesis
  proof (elim disjE conjE exE)
    assume "m' = m" "u = None"
    then show ?thesis by (rule nothing)
  next
    fix w w'
    assume w: "hd_users m (hc_user c) = Some w" "u = Some w'"
      "m' = m\<lparr>hd_users := (hd_users m)(hc_user c \<mapsto> w'), hd_moves := mv c # hd_moves m\<rparr>"
      "bu_balance w' + bu_frozen w' + spent_by (hc_user c) (mv c) = bu_balance w + bu_frozen w"
      "bu_frozen w' = bu_frozen w + frozen_by (hc_user c) (mv c)"
      "0 \<le> hc_hold c \<longrightarrow> 0 \<le> bu_frozen w \<longrightarrow> 0 \<le> bu_frozen w'"
    from w(6) show ?thesis by (intro moved [OF w(1-5)]) iprover
  qed
qed

section \<open>The books\<close>

text \<open>The balances add up: what is frozen is what the moves froze, and nothing is lost but what was spent.\<close>

definition books_ok :: "(int \<rightharpoonup> bill_user) \<Rightarrow> hold_db \<Rightarrow> bool" where
  "books_ok start m \<longleftrightarrow>
     (\<forall>u. (hd_users m u = None \<longleftrightarrow> start u = None)
          \<and> (\<forall>w w0. hd_users m u = Some w \<longrightarrow> start u = Some w0 \<longrightarrow> 0 \<le> bu_frozen w
              \<and> bu_frozen w = bu_frozen w0 + total_frozen u m
              \<and> bu_balance w + bu_frozen w + total_spent u m = bu_balance w0 + bu_frozen w0))"

lemma mv_other_user:
  assumes "mv = reserve_move \<or> mv = capture_move \<or> mv = release_move" "u \<noteq> hc_user c"
  shows "frozen_by u (mv c) = 0" "spent_by u (mv c) = 0"
  using assms by (auto simp: move_defs)

lemma apply_hold_books:
  assumes "apply_hold env tx cmd m = (r, m')" "books_ok start m" "tx_shape tx mv" "0 \<le> hc_hold cmd"
    and "mv = reserve_move \<or> mv = capture_move \<or> mv = release_move"
  shows "books_ok start m'"
  using assms(1)
proof (cases rule: apply_hold_cases)
  case same
  with assms(2) show ?thesis by simp
next
  case (fresh c u)
  have "0 \<le> hc_hold c" using assms(4) fresh(1) by (simp add: normalize_hold_def Let_def)
  from assms(3) fresh(3) show ?thesis
  proof (cases rule: tx_shapeE)
    case nothing
    then have "hd_users m' = hd_users m" "total_frozen v m' = total_frozen v m" "total_spent v m' = total_spent v m" for v
      by (simp_all add: total_frozen_def total_spent_def)
    then have "books_ok start m' \<longleftrightarrow> books_ok start m" by (simp only: books_ok_def)
    with assms(2) show ?thesis by blast
  next
    case (moved w w')
    have bk1: "hd_users m v = None \<longleftrightarrow> start v = None" for v
      using assms(2) unfolding books_ok_def by blast
    have bk2: "0 \<le> bu_frozen y \<and> bu_frozen y = bu_frozen w0 + total_frozen v m
        \<and> bu_balance y + bu_frozen y + total_spent v m = bu_balance w0 + bu_frozen w0"
      if "hd_users m v = Some y" "start v = Some w0" for v y w0
      using assms(2) that unfolding books_ok_def by blast
    have totals: "total_frozen v m' = frozen_by v (mv c) + total_frozen v m"
      "total_spent v m' = spent_by v (mv c) + total_spent v m" for v
      by (simp_all add: moved total_frozen_def total_spent_def)
    show ?thesis
      unfolding books_ok_def
    proof (intro allI conjI impI)
      show "hd_users m' v = None \<longleftrightarrow> start v = None" for v
        using bk1 [of v] bk1 [of "hc_user c"] moved(1) by (auto simp: moved(3))
      fix v x w0 assume x: "hd_users m' v = Some x" "start v = Some w0"
      have "0 \<le> bu_frozen x \<and> bu_frozen x = bu_frozen w0 + total_frozen v m'
          \<and> bu_balance x + bu_frozen x + total_spent v m' = bu_balance w0 + bu_frozen w0"
      proof (cases "v = hc_user c")
        case True
        note bk2 [OF _ x(2), of w]
        moreover have "x = w'" using True x(1) moved by simp
        moreover have "hd_users m v = Some w" using True moved(1) by simp
        ultimately show ?thesis using moved(4-6) \<open>0 \<le> hc_hold c\<close> True by (simp add: totals)
      next
        case False
        then have "hd_users m v = Some x" using x(1) moved(3) by simp
        with bk2 [OF this x(2)] show ?thesis by (simp add: totals mv_other_user [OF assms(5) False])
      qed
      then show "0 \<le> bu_frozen x" "bu_frozen x = bu_frozen w0 + total_frozen v m'"
        "bu_balance x + bu_frozen x + total_spent v m' = bu_balance w0 + bu_frozen w0" by blast+
    qed
  qed
qed

section \<open>Once each\<close>

definition claimed :: "(string \<Rightarrow> string) \<Rightarrow> string \<times> int \<Rightarrow> hold_db \<Rightarrow> bool" where
  "claimed rid x m \<longleftrightarrow> hd_claims m (rid (fst x), snd x) \<noteq> None"

definition claims_ok :: "hold_db \<Rightarrow> bool" where
  "claims_ok m \<longleftrightarrow>
     (\<forall>x. times_taken x m \<le> of_bool (claimed hold_request_id x m)
        \<and> times_paid x m \<le> of_bool (claimed capture_request_id x m)
        \<and> times_returned x m \<le> of_bool (claimed release_request_id x m))"

text \<open>Identifiers of batches are printable, so that trimming does nothing to them.\<close>

definition batch_id_ok :: "string \<Rightarrow> bool" where
  "batch_id_ok b \<longleftrightarrow> (\<forall>c \<in> set b. 33 \<le> (of_char c :: nat) \<and> (of_char c :: nat) \<le> 126)"

lemma batch_id_trim [simp]: "batch_id_ok b \<Longrightarrow> trim_space b = b"
  by (simp add: batch_id_ok_def trim_space_graphic)

lemma request_id_graphic:
  assumes "batch_id_ok b"
  shows "trim_space (hold_request_id b) = hold_request_id b" "trim_space (capture_request_id b) = capture_request_id b"
    "trim_space (release_request_id b) = release_request_id b"
  using assms
  by (auto simp: hold_request_id_def capture_request_id_def release_request_id_def batch_id_ok_def trim_space_graphic
      intro!: trim_space_graphic)

lemma request_id_inj:
  assumes "batch_id_ok b" "batch_id_ok b'"
  shows "hold_request_id b = hold_request_id b' \<longleftrightarrow> b = b'"
    "capture_request_id b = capture_request_id b' \<longleftrightarrow> b = b'"
    "release_request_id b = release_request_id b' \<longleftrightarrow> b = b'"
  using assms by (simp_all add: hold_request_id_def capture_request_id_def release_request_id_def)

lemma request_ids_differ:
  "hold_request_id b \<noteq> capture_request_id b'" "hold_request_id b \<noteq> release_request_id b'"
  "capture_request_id b \<noteq> release_request_id b'" "capture_request_id b \<noteq> hold_request_id b'"
  "release_request_id b \<noteq> hold_request_id b'" "release_request_id b \<noteq> capture_request_id b'"
  by (simp_all add: hold_request_id_def capture_request_id_def release_request_id_def)

lemma request_id_not_Nil [simp]:
  "hold_request_id b \<noteq> []" "capture_request_id b \<noteq> []" "release_request_id b \<noteq> []"
  by (simp_all add: hold_request_id_def capture_request_id_def release_request_id_def)

end
