(* ===== verification/BatchSafety.thy ===== *)
theory BatchSafety
  imports BatchLedger
begin

text \<open>
  What every statement keeps of one batch. The statements are those of any number of concurrent calls; a batch has
  at most one submission and one worker at a time.
\<close>

section \<open>Calls that move money\<close>

text \<open>What a call about request ids \<open>rid\<close> and batch \<open>x\<close> may do to the ledger.\<close>

definition money_effect ::
  "(string \<Rightarrow> string) \<Rightarrow> (hold_move \<Rightarrow> bool) \<Rightarrow> string \<times> int \<Rightarrow> hold_db \<Rightarrow> hold_db \<Rightarrow> bool" where
  "money_effect rid P x m m' \<longleftrightarrow>
     m' = m
     \<or> (\<not> claimed rid x m \<and> claimed rid x m' \<and> hd_archive m' = hd_archive m
        \<and> (\<forall>y. y \<noteq> (rid (fst x), snd x) \<longrightarrow> hd_claims m' y = hd_claims m y)
        \<and> (hd_moves m' = hd_moves m \<or> (\<exists>v. hd_moves m' = v # hd_moves m \<and> P v \<and> move_id v = x)))"

lemma money_effect_refl [simp]: "money_effect rid P x m m"
  by (simp add: money_effect_def)

lemma apply_hold_effect:
  assumes "apply_hold env tx cmd m = (r, m')" "tx_shape tx mv" "P (mv (normalize_hold env cmd))"
    and "move_id (mv (normalize_hold env cmd)) = x"
    and "(hc_request (normalize_hold env cmd), hc_key (normalize_hold env cmd)) = (rid (fst x), snd x)"
  shows "money_effect rid P x m m'"
  using assms(1)
proof (cases rule: apply_hold_cases)
  case same
  then show ?thesis by simp
next
  case (fresh c u)
  from assms(2) fresh(3) show ?thesis
    by (cases rule: tx_shapeE) (use fresh assms in \<open>auto simp: money_effect_def claimed_def\<close>)
qed

text \<open>The fields of a row that say whose hold it is; no statement changes them.\<close>

definition ident :: "batch_job \<Rightarrow> string \<times> int \<times> int option \<times> rat" where
  "ident j = (bj_batch j, bj_user j, bj_key j, held_amount j)"

text \<open>A job as submissions create it: a printable id, a key and a positive hold.\<close>

definition job_valid :: "batch_job \<Rightarrow> bool" where
  "job_valid j \<longleftrightarrow> batch_id_ok (bj_batch j) \<and> positive_id (bj_key j) \<and> 0 < held_amount j"

definition hold_id :: "batch_job \<Rightarrow> string \<times> int" where
  "hold_id j = (bj_batch j, the (bj_key j))"

lemma ident_hold_id: "ident j = ident j' \<Longrightarrow> hold_id j = hold_id j'"
  by (simp add: ident_def hold_id_def)

lemma ident_valid: "ident j = ident j' \<Longrightarrow> job_valid j = job_valid j'"
  by (simp add: ident_def job_valid_def)

lemma build_hold_valid:
  assumes "job_valid j"
  obtains c where "build_hold_command j rid a payload = Inr c" "hc_hold c = held_amount j" "hc_batch c = bj_batch j"
    "hc_key c = the (bj_key j)" "hc_request c = rid" "hc_user c = bj_user j" "hc_fingerprint c = []"
  using assms
  by (auto simp: job_valid_def positive_id_def build_hold_command_def held_amount_def Let_def split: option.splits)

lemma normalize_hold_simps:
  assumes "batch_id_ok (hc_batch c)"
  shows "hc_batch (normalize_hold env c) = hc_batch c" "hc_key (normalize_hold env c) = hc_key c"
    "hc_hold (normalize_hold env c) = hc_hold c" "hc_user (normalize_hold env c) = hc_user c"
    "hc_actual (normalize_hold env c) = hc_actual c"
    "trim_space (hc_request c) = hc_request c \<Longrightarrow> hc_request (normalize_hold env c) = hc_request c"
  using assms by (simp_all add: normalize_hold_def Let_def)

lemma store_call_effect:
  assumes "store_call n m (r, m') = (q, m'')" "money_effect rid P x m m'"
  shows "money_effect rid P x m m''"
  using assms by (auto simp: store_call_def split: net.splits)

lemma money_call_unfold:
  "money_call n db res = (q, db') \<longleftrightarrow> (\<exists>m. store_call n (bd_money db) res = (q, m) \<and> db' = db\<lparr>bd_money := m\<rparr>)"
  by (auto simp: money_call_def split: prod.splits)

text \<open>A transaction on the hold of a job, over the network.\<close>

lemma hold_call_effect:
  assumes "store_call n m (apply_hold env tx c m) = (q, m')" "tx_shape tx mv" "job_valid j"
    and "hc_batch c = bj_batch j" "hc_key c = the (bj_key j)" "hc_request c = rid (bj_batch j)"
    and "trim_space (rid (bj_batch j)) = rid (bj_batch j)"
    and "\<And>c. P (mv c)" "\<And>c. move_id (mv c) = (hc_batch c, hc_key c)"
  shows "money_effect rid P (hold_id j) m m'"
proof -
  obtain r0 m0 where r0: "apply_hold env tx c m = (r0, m0)" by fastforce
  have "batch_id_ok (hc_batch c)" using assms(3,4) by (simp add: job_valid_def)
  from r0 assms(2) have "money_effect rid P (hold_id j) m m0"
    by (rule apply_hold_effect)
      (use assms normalize_hold_simps [OF \<open>batch_id_ok (hc_batch c)\<close>] in \<open>simp_all add: hold_id_def\<close>)
  with assms(1) r0 show ?thesis by (auto dest: store_call_effect)
qed

lemma move_simps [simp]:
  "is_reserve (reserve_move c)" "is_capture (capture_move c)" "is_release (release_move c)"
  "move_id (reserve_move c) = (hc_batch c, hc_key c)" "move_id (capture_move c) = (hc_batch c, hc_key c)"
  "move_id (release_move c) = (hc_batch c, hc_key c)"
  by (simp_all add: move_defs)

lemma valid_request_ids:
  assumes "job_valid j"
  shows "trim_space (hold_request_id (bj_batch j)) = hold_request_id (bj_batch j)"
    "trim_space (capture_request_id (bj_batch j)) = capture_request_id (bj_batch j)"
    "trim_space (release_request_id (bj_batch j)) = release_request_id (bj_batch j)"
  using assms by (simp_all add: job_valid_def request_id_graphic)

lemma reserve_hold_effect:
  assumes "reserve_hold env n j payload db = (r, db')" "job_valid j"
  shows "\<exists>m. db' = db\<lparr>bd_money := m\<rparr> \<and> money_effect hold_request_id is_reserve (hold_id j) (bd_money db) m"
proof -
  from assms(2) obtain c where c: "build_hold_command j (hold_request_id (bj_batch j)) 0 payload = Inr c"
    "hc_hold c = held_amount j" "hc_batch c = bj_batch j" "hc_key c = the (bj_key j)"
    "hc_request c = hold_request_id (bj_batch j)" by (rule build_hold_valid)
  from assms c obtain q m where m: "store_call n (bd_money db) (apply_hold env reserve_tx c (bd_money db)) = (q, m)"
    "db' = db\<lparr>bd_money := m\<rparr>"
    by (auto simp: reserve_hold_def reserve_balance_def job_valid_def money_call_unfold split: prod.splits sum.splits)
  from hold_call_effect [where rid = hold_request_id and P = is_reserve, OF m(1) reserve_shape assms(2) c(3-5) valid_request_ids(1) [OF assms(2)]] m(2)
  show ?thesis by auto
qed

lemma capture_hold_effect:
  assumes "capture_hold env n j cost payload db = (r, db')" "job_valid j"
  shows "\<exists>m. db' = db\<lparr>bd_money := m\<rparr> \<and> money_effect capture_request_id is_capture (hold_id j) (bd_money db) m"
proof -
  from assms(2) obtain c where c: "build_hold_command j (capture_request_id (bj_batch j)) cost payload = Inr c"
    "hc_hold c = held_amount j" "hc_batch c = bj_batch j" "hc_key c = the (bj_key j)"
    "hc_request c = capture_request_id (bj_batch j)" by (rule build_hold_valid)
  from assms c obtain q m where m: "store_call n (bd_money db) (apply_hold env capture_tx c (bd_money db)) = (q, m)"
    "db' = db\<lparr>bd_money := m\<rparr>"
    by (auto simp: capture_hold_def capture_balance_def job_valid_def money_call_unfold split: prod.splits sum.splits)
  from hold_call_effect [where rid = capture_request_id and P = is_capture, OF m(1) capture_shape assms(2) c(3-5) valid_request_ids(2) [OF assms(2)]] m(2)
  show ?thesis by auto
qed

lemma release_hold_effect:
  assumes "release_hold env n j payload db = (r, db')" "job_valid j"
  shows "\<exists>m. db' = db\<lparr>bd_money := m\<rparr> \<and> money_effect release_request_id is_release (hold_id j) (bd_money db) m"
proof -
  from assms(2) obtain c where c: "build_hold_command j (release_request_id (bj_batch j)) 0 payload = Inr c"
    "hc_hold c = held_amount j" "hc_batch c = bj_batch j" "hc_key c = the (bj_key j)"
    "hc_request c = release_request_id (bj_batch j)" by (rule build_hold_valid)
  from assms c obtain q m where m: "store_call n (bd_money db) (apply_hold env release_tx c (bd_money db)) = (q, m)"
    "db' = db\<lparr>bd_money := m\<rparr>"
    by (auto simp: release_hold_def release_balance_def job_valid_def money_call_unfold split: prod.splits sum.splits)
  from hold_call_effect [where rid = release_request_id and P = is_release, OF m(1) release_shape assms(2) c(3-5) valid_request_ids(3) [OF assms(2)]] m(2)
  show ?thesis by auto
qed

section \<open>What the result of a call says\<close>

text \<open>A hold is taken with its claim.\<close>

lemma reserve_hold_taken:
  assumes "reserve_hold env n j payload db = (r, db')" "job_valid j"
  shows "bd_money db' = bd_money db \<or> 0 < times_taken (hold_id j) (bd_money db')"
    and "r = None \<Longrightarrow> \<not> claimed hold_request_id (hold_id j) (bd_money db)
           \<Longrightarrow> hd_archive (bd_money db) (hold_request_id (bj_batch j), the (bj_key j)) = None
           \<Longrightarrow> 0 < times_taken (hold_id j) (bd_money db')"
proof -
  from assms(2) obtain c where c: "build_hold_command j (hold_request_id (bj_batch j)) 0 payload = Inr c"
    "hc_hold c = held_amount j" "hc_batch c = bj_batch j" "hc_key c = the (bj_key j)"
    "hc_request c = hold_request_id (bj_batch j)" by (rule build_hold_valid)
  let ?c = "normalize_hold env c"
  from assms(2) c have norm: "hc_hold ?c = held_amount j" "hc_batch ?c = bj_batch j" "hc_key ?c = the (bj_key j)"
    "hc_request ?c = hold_request_id (bj_batch j)" "0 < held_amount j"
    by (simp_all add: job_valid_def normalize_hold_simps request_id_graphic)
  obtain r0 m0 where r0: "reserve_balance env c (bd_money db) = (r0, m0)" by fastforce
  from r0 [unfolded reserve_balance_def] have step: "m0 = bd_money db \<and> (\<forall>u. r0 \<noteq> Inr (True, u)) \<or> 0 < times_taken (hold_id j) m0"
  proof (cases rule: apply_hold_cases)
    case (fresh c' u)
    with norm show ?thesis
      by (auto simp: reserve_tx_def Let_def times_taken_def hold_id_def split: option.splits if_splits)
  qed simp
  obtain q m where m: "money_call n db (reserve_balance env c (bd_money db)) = (q, db')"
    "r = None \<longleftrightarrow> (\<exists>v. q = Inr v)"
    using assms(1) c norm(5) by (auto simp: reserve_hold_def split: prod.splits sum.splits)
  then have m': "store_call n (bd_money db) (r0, m0) = (q, bd_money db')" by (auto simp: money_call_unfold r0)
  with step show "bd_money db' = bd_money db \<or> 0 < times_taken (hold_id j) (bd_money db')"
    by (auto simp: store_call_def split: net.splits)
  assume "r = None" "\<not> claimed hold_request_id (hold_id j) (bd_money db)"
    "hd_archive (bd_money db) (hold_request_id (bj_batch j), the (bj_key j)) = None"
  with m(2) m' have "\<exists>v. r0 = Inr v" "m0 = bd_money db'" by (auto simp: store_call_def split: net.splits)
  with step r0 \<open>\<not> claimed _ _ _\<close> \<open>hd_archive _ _ = None\<close> norm show "0 < times_taken (hold_id j) (bd_money db')"
    by (auto simp: reserve_balance_def apply_hold_def claim_request_def claimed_def hold_id_def Let_def
        split: option.splits if_splits sum.splits prod.splits)
qed

text \<open>Only a hold that was claimed is returned.\<close>

lemma release_hold_claimed:
  assumes "release_hold env n j payload db = (r, db')" "job_valid j"
    and "hd_archive (bd_money db) (hold_request_id (bj_batch j), the (bj_key j)) = None"
  shows "times_returned (hold_id j) (bd_money db') = times_returned (hold_id j) (bd_money db)
    \<or> claimed hold_request_id (hold_id j) (bd_money db)"
proof -
  from assms(2) obtain c where c: "build_hold_command j (release_request_id (bj_batch j)) 0 payload = Inr c"
    "hc_hold c = held_amount j" "hc_batch c = bj_batch j" "hc_key c = the (bj_key j)"
    "hc_request c = release_request_id (bj_batch j)" by (rule build_hold_valid)
  let ?c = "normalize_hold env c"
  from assms(2) c have norm: "hc_hold ?c = held_amount j" "hc_batch ?c = bj_batch j" "hc_key ?c = the (bj_key j)"
    "hc_request ?c = release_request_id (bj_batch j)" "0 < held_amount j"
    by (simp_all add: job_valid_def normalize_hold_simps request_id_graphic)
  obtain r0 m0 where r0: "release_balance env c (bd_money db) = (r0, m0)" by fastforce
  from r0 [unfolded release_balance_def] have step: "hd_moves m0 = hd_moves (bd_money db) \<or> claimed hold_request_id (hold_id j) (bd_money db)"
  proof (cases rule: apply_hold_cases)
    case (fresh c' u)
    with norm assms(3) show ?thesis
      by (auto simp: release_tx_def Let_def hold_claim_exists_def claimed_def hold_id_def request_ids_differ
          split: option.splits if_splits)
  qed simp
  obtain q where "money_call n db (release_balance env c (bd_money db)) = (q, db')"
    using assms(1) c norm(5) by (auto simp: release_hold_def split: prod.splits sum.splits)
  then have "store_call n (bd_money db) (r0, m0) = (q, bd_money db')" by (auto simp: money_call_unfold r0)
  with step show ?thesis by (auto simp: store_call_def times_returned_def split: net.splits)
qed

text \<open>The fingerprint of the capture of a job.\<close>

definition capture_print :: "batch_env \<Rightarrow> batch_job \<Rightarrow> rat \<Rightarrow> string \<Rightarrow> string" where
  "capture_print env j cost payload =
     (case build_hold_command j (capture_request_id (bj_batch j)) cost payload of
        Inl e \<Rightarrow> [] | Inr c \<Rightarrow> hc_fingerprint (normalize_hold env c))"

lemma capture_hold_again:
  assumes "job_valid j" "hd_claims (bd_money db) (capture_request_id (bj_batch j), the (bj_key j)) = Some (capture_print env j cost payload)"
  shows "capture_hold env Net_ok j cost payload db = (None, db)"
proof -
  from assms(1) obtain c where c: "build_hold_command j (capture_request_id (bj_batch j)) cost payload = Inr c"
    "hc_batch c = bj_batch j" "hc_key c = the (bj_key j)"
    "hc_request c = capture_request_id (bj_batch j)" by (rule build_hold_valid)
  with assms show ?thesis
    by (simp add: capture_hold_def money_call_def store_call_def capture_balance_def apply_hold_def claim_request_def
        capture_print_def normalize_hold_simps job_valid_def request_id_graphic Let_def)
qed

lemma capture_hold_fails:
  assumes "capture_hold env Net_ok j cost payload db = (Some e, db')" "job_valid j"
  shows "db' = db"
proof -
  from assms(2) obtain c where c: "build_hold_command j (capture_request_id (bj_batch j)) cost payload = Inr c"
    by (rule build_hold_valid)
  obtain r0 m0 where r0: "capture_balance env c (bd_money db) = (r0, m0)" by fastforce
  with assms(1) c have "\<exists>e. r0 = Inl e" "db' = db\<lparr>bd_money := m0\<rparr>"
    by (auto simp: capture_hold_def money_call_def store_call_def split: sum.splits)
  with r0 have "m0 = bd_money db"
    by (auto simp: capture_balance_def elim!: apply_hold_cases)
  with \<open>db' = _\<close> show ?thesis by simp
qed

lemma capture_hold_print:
  assumes "capture_hold env n j cost payload db = (r, db')" "job_valid j"
    and "times_paid (hold_id j) (bd_money db') \<noteq> times_paid (hold_id j) (bd_money db)"
  shows "hd_claims (bd_money db') (capture_request_id (bj_batch j), the (bj_key j)) = Some (capture_print env j cost payload)"
proof -
  from assms(2) obtain c where c: "build_hold_command j (capture_request_id (bj_batch j)) cost payload = Inr c"
    "hc_batch c = bj_batch j" "hc_key c = the (bj_key j)"
    "hc_request c = capture_request_id (bj_batch j)" by (rule build_hold_valid)
  let ?c = "normalize_hold env c"
  from assms(2) c have norm: "hc_batch ?c = bj_batch j" "hc_key ?c = the (bj_key j)"
    "hc_request ?c = capture_request_id (bj_batch j)"
    by (simp_all add: job_valid_def normalize_hold_simps request_id_graphic)
  obtain r0 m0 where r0: "capture_balance env c (bd_money db) = (r0, m0)" by fastforce
  obtain q where "money_call n db (capture_balance env c (bd_money db)) = (q, db')"
    using assms(1) c by (auto simp: capture_hold_def split: prod.splits sum.splits)
  then have q: "store_call n (bd_money db) (r0, m0) = (q, bd_money db')" by (auto simp: money_call_unfold r0)
  with assms(3) have "bd_money db' = m0" "m0 \<noteq> bd_money db" by (auto simp: store_call_def split: net.splits)
  from r0 [unfolded capture_balance_def] show ?thesis
  proof (cases rule: apply_hold_cases)
    case same
    with \<open>m0 \<noteq> _\<close> show ?thesis by simp
  next
    case (fresh c' u)
    from capture_shape fresh(3) show ?thesis
      by (cases rule: tx_shapeE) (use fresh norm c \<open>bd_money db' = m0\<close> in \<open>auto simp: capture_print_def\<close>)
  qed
qed

section \<open>Requests that were not made\<close>

definition unarchived :: "string \<times> int \<Rightarrow> hold_db \<Rightarrow> bool" where
  "unarchived x m \<longleftrightarrow> hd_archive m (hold_request_id (fst x), snd x) = None
     \<and> hd_archive m (capture_request_id (fst x), snd x) = None \<and> hd_archive m (release_request_id (fst x), snd x) = None"

definition unclaimed :: "string \<times> int \<Rightarrow> hold_db \<Rightarrow> bool" where
  "unclaimed x m \<longleftrightarrow> unarchived x m \<and> \<not> claimed hold_request_id x m \<and> \<not> claimed capture_request_id x m
     \<and> \<not> claimed release_request_id x m"

end
