(* ===== verification/BatchRaces.thy ===== *)
theory BatchRaces
  imports BatchSafety
begin

text \<open>
  What each call of the store does to a hold when it gets through, and three orders of events the code does not
  guard against: a job cancelled before its hold is taken, a job cancelled while it reaches the provider, and a capture
  whose answer is lost.
\<close>

section \<open>Calls that get through\<close>

definition set_claim :: "(string \<Rightarrow> string) \<Rightarrow> batch_job \<Rightarrow> string \<Rightarrow> hold_db \<Rightarrow> hold_db" where
  "set_claim rid j fp m = m\<lparr>hd_claims := (hd_claims m)((rid (bj_batch j), the (bj_key j)) \<mapsto> fp)\<rparr>"

lemma build_hold_command_valid:
  assumes "job_valid j"
  obtains c where "build_hold_command j rid a payload = Inr c" "hc_hold (normalize_hold env c) = held_amount j"
    "hc_batch (normalize_hold env c) = bj_batch j" "hc_key (normalize_hold env c) = the (bj_key j)"
    "hc_user (normalize_hold env c) = bj_user j" "hc_actual (normalize_hold env c) = (if a < 0 then 0 else a)"
    "hc_request (normalize_hold env c) = trim_space rid" "hc_hold c = held_amount j"
proof -
  from assms have "batch_id_ok (bj_batch j)" by (simp add: job_valid_def)
  with assms that show ?thesis
    by (auto simp: job_valid_def positive_id_def build_hold_command_def held_amount_def normalize_hold_def Let_def
        split: option.splits)
qed

text \<open>A request that was claimed moves nothing again.\<close>

lemma apply_hold_claimed:
  assumes "hd_claims m (hc_request (normalize_hold env c), hc_key (normalize_hold env c)) \<noteq> None"
  shows "snd (apply_hold env tx c m) = m"
  using assms by (auto simp: apply_hold_def claim_request_def Let_def)

lemma apply_hold_claimed_answer:
  assumes "hd_claims m (hc_request (normalize_hold env c), hc_key (normalize_hold env c)) \<noteq> None"
    and "hc_request (normalize_hold env c) \<noteq> []"
  shows "fst (apply_hold env tx c m) = Inl B_request_conflict \<or> fst (apply_hold env tx c m) = Inr (False, None)"
  using assms by (auto simp: apply_hold_def claim_request_def Let_def)

lemma store_call_snd: "snd res = db \<Longrightarrow> snd (store_call n db res) = db"
  by (cases res) (simp add: store_call_def split: net.splits)

lemma money_call_snd: "snd res = bd_money db \<Longrightarrow> snd (money_call n db res) = db"
  using store_call_snd [of res "bd_money db" n] by (auto simp: money_call_def split: prod.splits)

lemma release_hold_again:
  assumes "job_valid j" "claimed release_request_id (hold_id j) (bd_money db)"
  shows "snd (release_hold env n j payload db) = db" "release_hold env Net_ok j payload db = (None, db)"
proof -
  obtain c where c: "build_hold_command j (release_request_id (bj_batch j)) 0 payload = Inr c"
    "hc_key (normalize_hold env c) = the (bj_key j)" "hc_hold c = held_amount j"
    "hc_request (normalize_hold env c) = trim_space (release_request_id (bj_batch j))"
    by (rule build_hold_command_valid [OF assms(1), of "release_request_id (bj_batch j)" 0 payload env])
  then have same: "snd (release_balance env c (bd_money db)) = bd_money db"
    and answer: "fst (release_balance env c (bd_money db)) = Inl B_request_conflict
      \<or> fst (release_balance env c (bd_money db)) = Inr (False, None)"
    using assms valid_request_ids [OF assms(1)]
    by (simp_all add: release_balance_def apply_hold_claimed apply_hold_claimed_answer claimed_def hold_id_def)
  from money_call_snd [OF same, of n] c(1) show "snd (release_hold env n j payload db) = db"
    by (auto simp: release_hold_def split: prod.splits sum.splits)
  from same answer have "release_balance env c (bd_money db) = (Inl B_request_conflict, bd_money db)
      \<or> release_balance env c (bd_money db) = (Inr (False, None), bd_money db)"
    by (cases "release_balance env c (bd_money db)") simp
  then show "release_hold env Net_ok j payload db = (None, db)"
    using c(1) by (auto simp: release_hold_def money_call_def store_call_def)
qed

lemma reserve_hold_first:
  assumes "job_valid j" "unarchived (hold_id j) (bd_money db)" "\<not> claimed hold_request_id (hold_id j) (bd_money db)"
    and "hd_users (bd_money db) (bj_user j) = Some u" "held_amount j \<le> bu_balance u"
  obtains fp u' where "reserve_hold env Net_ok j payload db = (None, db\<lparr>bd_money := (set_claim hold_request_id j fp (bd_money db))
      \<lparr>hd_users := (hd_users (bd_money db))(bj_user j \<mapsto> u'),
       hd_moves := Move_reserve (bj_batch j) (the (bj_key j)) (bj_user j) (held_amount j) # hd_moves (bd_money db)\<rparr>\<rparr>)"
    "bu_balance u' = bu_balance u - held_amount j" "bu_frozen u' = bu_frozen u + held_amount j"
proof -
  obtain c where c: "build_hold_command j (hold_request_id (bj_batch j)) 0 payload = Inr c"
    "hc_hold (normalize_hold env c) = held_amount j"
    "hc_batch (normalize_hold env c) = bj_batch j" "hc_key (normalize_hold env c) = the (bj_key j)"
    "hc_user (normalize_hold env c) = bj_user j" "hc_hold c = held_amount j"
    "hc_request (normalize_hold env c) = trim_space (hold_request_id (bj_batch j))"
    by (rule build_hold_command_valid [OF assms(1), of "hold_request_id (bj_batch j)" 0 payload env])
  show ?thesis
    by (rule that [where fp = "hc_fingerprint (normalize_hold env c)" and
          u' = "u\<lparr>bu_balance := bu_balance u - held_amount j, bu_frozen := bu_frozen u + held_amount j\<rparr>"])
      (use assms c valid_request_ids [OF assms(1)] in
        \<open>simp_all add: reserve_hold_def money_call_def store_call_def reserve_balance_def apply_hold_def claim_request_def
          claimed_def hold_id_def unarchived_def reserve_tx_def job_valid_def set_claim_def Let_def\<close>)
qed

lemma release_hold_unheld:
  assumes "job_valid j" "unarchived (hold_id j) (bd_money db)" "\<not> claimed hold_request_id (hold_id j) (bd_money db)"
    and "\<not> claimed release_request_id (hold_id j) (bd_money db)"
  obtains fp where "release_hold env Net_ok j payload db =
    (None, db\<lparr>bd_money := set_claim release_request_id j fp (bd_money db)\<rparr>)"
proof -
  obtain c where c: "build_hold_command j (release_request_id (bj_batch j)) 0 payload = Inr c"
    "hc_hold (normalize_hold env c) = held_amount j"
    "hc_batch (normalize_hold env c) = bj_batch j" "hc_key (normalize_hold env c) = the (bj_key j)"
    "hc_user (normalize_hold env c) = bj_user j" "hc_hold c = held_amount j"
    "hc_request (normalize_hold env c) = trim_space (release_request_id (bj_batch j))"
    by (rule build_hold_command_valid [OF assms(1), of "release_request_id (bj_batch j)" 0 payload env])
  show ?thesis
    by (rule that [of "hc_fingerprint (normalize_hold env c)"])
      (use assms c valid_request_ids [OF assms(1)] in
        \<open>simp add: release_hold_def money_call_def store_call_def release_balance_def apply_hold_def claim_request_def
          claimed_def hold_id_def unarchived_def release_tx_def hold_claim_exists_def job_valid_def set_claim_def
          request_ids_differ Let_def\<close>)
qed

lemma release_hold_held:
  assumes "job_valid j" "unarchived (hold_id j) (bd_money db)" "claimed hold_request_id (hold_id j) (bd_money db)"
    and "\<not> claimed release_request_id (hold_id j) (bd_money db)"
    and "hd_users (bd_money db) (bj_user j) = Some u" "held_amount j \<le> bu_frozen u"
  obtains fp u' where "release_hold env Net_ok j payload db = (None, db\<lparr>bd_money := (set_claim release_request_id j fp (bd_money db))
      \<lparr>hd_users := (hd_users (bd_money db))(bj_user j \<mapsto> u'),
       hd_moves := Move_release (bj_batch j) (the (bj_key j)) (bj_user j) (held_amount j) # hd_moves (bd_money db)\<rparr>\<rparr>)"
    "bu_balance u' = bu_balance u + held_amount j" "bu_frozen u' = bu_frozen u - held_amount j"
proof -
  obtain c where c: "build_hold_command j (release_request_id (bj_batch j)) 0 payload = Inr c"
    "hc_hold (normalize_hold env c) = held_amount j"
    "hc_batch (normalize_hold env c) = bj_batch j" "hc_key (normalize_hold env c) = the (bj_key j)"
    "hc_user (normalize_hold env c) = bj_user j" "hc_hold c = held_amount j"
    "hc_request (normalize_hold env c) = trim_space (release_request_id (bj_batch j))"
    by (rule build_hold_command_valid [OF assms(1), of "release_request_id (bj_batch j)" 0 payload env])
  show ?thesis
    by (rule that [where fp = "hc_fingerprint (normalize_hold env c)" and
          u' = "u\<lparr>bu_balance := bu_balance u + held_amount j, bu_frozen := bu_frozen u - held_amount j\<rparr>"])
      (use assms c valid_request_ids [OF assms(1)] in
        \<open>auto simp: release_hold_def money_call_def store_call_def release_balance_def apply_hold_def claim_request_def
          claimed_def hold_id_def unarchived_def release_tx_def hold_claim_exists_def job_valid_def set_claim_def
          request_ids_differ Let_def\<close>)
qed

lemma ident_alt:
  "ident j = (bj_batch j, bj_user j, bj_key j, if bj_hold j = None then bj_estimated j else the (bj_hold j))"
  by (simp add: ident_def held_amount_def split: option.splits)

lemma ident_move_job [simp]: "ident (move_job t opts now j) = ident j"
  by (simp add: move_job_def ident_alt)

section \<open>Several statements of one call\<close>

fun run_thread :: "batch_setup \<Rightarrow> instant \<Rightarrow> outside \<Rightarrow> nat \<Rightarrow> batch_thread \<Rightarrow> batch_db \<Rightarrow> batch_thread \<times> batch_db" where
  "run_thread su now ot 0 th db = (th, db)"
| "run_thread su now ot (Suc n) th db = (case thread_step su now ot th db of (th1, db1) \<Rightarrow> run_thread su now ot n th1 db1)"

text \<open>The hold of a batch and the money of its user.\<close>

definition user_money :: "batch_job \<Rightarrow> batch_db \<Rightarrow> (rat \<times> rat) option" where
  "user_money j db = map_option (\<lambda>u. (bu_balance u, bu_frozen u)) (hd_users (bd_money db) (bj_user j))"

text \<open>A job that is cancelled in time.\<close>

lemma cancel_move_ok:
  assumes "bd_jobs db (bj_batch j) = Some r" "can_transition (bj_status r) Bs_cancelled" "oa_net ot = Net_ok"
  shows "thread_step su now ot (Can_move j) db =
    (Can_release j, append_event (bj_batch j) ''job_cancelled''
       (update_job (bj_batch j) (move_job Bs_cancelled (no_options ''job_cancelled'') now) db))"
  using assms by (simp add: cancel_move_def store_call_def transition_job_def no_options_def Let_def)

lemma db_simps [simp]:
  "bd_money (append_event b ev db) = bd_money db" "bd_jobs (append_event b ev db) = bd_jobs db"
  "bd_items (append_event b ev db) = bd_items db"
  "bd_money (update_job b f db) = bd_money db" "bd_items (update_job b f db) = bd_items db"
  by (simp_all add: append_event_def update_job_def split: option.splits)

lemma update_job_jobs: "bd_jobs (update_job b f db) = (bd_jobs db)(b := map_option f (bd_jobs db b))"
  by (auto simp: update_job_def split: option.splits)

text \<open>C10: A job that its owner cancels after its row was created and before its hold is taken loses the money of
  the hold: the cancellation claims the release although there is nothing to release yet, then the submission takes
  the hold, finds the job cancelled and asks for the release, which moves nothing; nor does any later release.\<close>

theorem cancelled_before_hold_strands_money:
  assumes j: "job_valid j" "bd_jobs db (bj_batch j) = Some j" "bj_status j = Bs_created"
    and fresh: "unclaimed (hold_id j) (bd_money db)" "distinct (item_ids (bd_items db (bj_batch j) @ items))"
    and u: "user_money j db = Some (balance, frozen)" "held_amount j \<le> balance" and net: "oa_net ot = Net_ok"
  shows "\<exists>db1 db2. run_thread su now ot 2 (Can_move j) db = (Th_done Res_ok, db1)
    \<and> run_thread su now ot 4 (Sub_reserve j items) db1 = (Th_done (Res_error B_invalid_transition), db2)
    \<and> user_money j db2 = Some (balance - held_amount j, frozen + held_amount j)
    \<and> (\<forall>n payload. snd (release_hold env n j payload db2) = db2)"
proof -
  define db0 where "db0 = append_event (bj_batch j) ''job_cancelled''
       (update_job (bj_batch j) (move_job Bs_cancelled (no_options ''job_cancelled'') now) db)"
  have "thread_step su now ot (Can_move j) db = (Can_release j, db0)"
    using cancel_move_ok [OF j(2) _ net, of su now] j(3) by (simp add: db0_def can_transition_def terminal_status_def)
  moreover have db0: "bd_money db0 = bd_money db" "bd_items db0 = bd_items db"
    "bd_jobs db0 (bj_batch j) = Some (move_job Bs_cancelled (no_options ''job_cancelled'') now j)"
    using j(2) by (simp_all add: db0_def update_job_jobs)
  obtain fp where "release_hold (bs_env su) Net_ok j (deref (bj_request_hash j)) db0 =
      (None, db0\<lparr>bd_money := set_claim release_request_id j fp (bd_money db0)\<rparr>)"
    by (rule release_hold_unheld [OF j(1), of db0 "bs_env su" "deref (bj_request_hash j)"])
      (use fresh db0 in \<open>auto simp: unclaimed_def\<close>)
  moreover define db1 where "db1 = db0\<lparr>bd_money := set_claim release_request_id j fp (bd_money db0)\<rparr>"
  ultimately have cancel: "run_thread su now ot 2 (Can_move j) db = (Th_done Res_ok, db1)"
    using net by (simp add: eval_nat_numeral cancel_release_def)
  from u obtain w where w: "hd_users (bd_money db) (bj_user j) = Some w" "bu_balance w = balance" "bu_frozen w = frozen"
    by (auto simp: user_money_def)
  obtain fp2 w' where res: "reserve_hold (bs_env su) Net_ok j (deref (bj_request_hash j)) db1 =
      (None, db1\<lparr>bd_money := (set_claim hold_request_id j fp2 (bd_money db1))
      \<lparr>hd_users := (hd_users (bd_money db1))(bj_user j \<mapsto> w'),
       hd_moves := Move_reserve (bj_batch j) (the (bj_key j)) (bj_user j) (held_amount j) # hd_moves (bd_money db1)\<rparr>\<rparr>)"
    "bu_balance w' = balance - held_amount j" "bu_frozen w' = frozen + held_amount j"
    by (rule reserve_hold_first [OF j(1), of db1 w "bs_env su" "deref (bj_request_hash j)"])
      (use fresh db0 u w in \<open>auto simp: unclaimed_def unarchived_def db1_def set_claim_def claimed_def hold_id_def request_ids_differ\<close>)
  define db2 where "db2 = db1\<lparr>bd_money := (set_claim hold_request_id j fp2 (bd_money db1))
      \<lparr>hd_users := (hd_users (bd_money db1))(bj_user j \<mapsto> w'),
       hd_moves := Move_reserve (bj_batch j) (the (bj_key j)) (bj_user j) (held_amount j) # hd_moves (bd_money db1)\<rparr>\<rparr>"
  define db3 where "db3 = db2\<lparr>bd_items := (bd_items db2)(bj_batch j := bd_items db2 (bj_batch j) @ items)\<rparr>"
  have "claimed release_request_id (hold_id j) (bd_money db3)"
    by (simp add: db3_def db2_def db1_def set_claim_def claimed_def hold_id_def request_ids_differ)
  note again = release_hold_again [OF j(1) this]
  have steps: "thread_step su now ot (Sub_reserve j items) db1 = (Sub_items j items, db2)"
    "thread_step su now ot (Sub_items j items) db2 = (Sub_upload j, db3)"
    "thread_step su now ot (Sub_upload j) db3 = (Sub_release_only j B_invalid_transition, db3)"
    using net fresh(2) db0 res(1)
    by (simp_all add: submit_reserve_def db2_def submit_items_def store_call_def create_items_def db1_def db3_def
        submit_upload_def transition_job_def can_transition_def move_job_def terminal_status_def)
  have sub: "run_thread su now ot 4 (Sub_reserve j items) db1 = (Th_done (Res_error B_invalid_transition), db3)"
    using steps again(2) net by (simp add: eval_nat_numeral submit_release_def)
  have "user_money j db3 = Some (balance - held_amount j, frozen + held_amount j)"
    by (simp add: user_money_def db3_def db2_def res)
  with cancel sub again(1) show ?thesis by blast
qed


text \<open>C11: A cancellation that read the job before it reached the provider cancels it after: the hold is returned, the
  job is cancelled while it names a provider job, no call asks the provider to stop, and a worker is done with it.\<close>

theorem cancelled_job_runs_unpaid:
  assumes j: "job_valid j" "bd_jobs db (bj_batch j) = Some j" "bj_status j = Bs_uploading" "bj_provider_job j = None"
      "bj_user_deleted j = None"
    and hold: "unarchived (hold_id j) (bd_money db)" "claimed hold_request_id (hold_id j) (bd_money db)"
      "\<not> claimed release_request_id (hold_id j) (bd_money db)"
    and u: "user_money j db = Some (balance, frozen)" "held_amount j \<le> frozen" and net: "oa_net ot = Net_ok"
  shows "\<exists>db1 db2.
    thread_step su now ot (Can_read (bj_user j) (the (bj_key j)) (bj_batch j)) db = (Can_move j, db)
    \<and> thread_step su now ot (Sub_record j p) db = (Sub_enqueue j, db1)
    \<and> run_thread su now ot 2 (Can_move j) db1 = (Th_done Res_ok, db2)
    \<and> user_money j db2 = Some (balance + held_amount j, frozen - held_amount j)
    \<and> (\<exists>r. bd_jobs db2 (bj_batch j) = Some r \<and> bj_status r = Bs_cancelled \<and> bj_provider_job r = Some (pj_name p))
    \<and> run_thread su now ot 3 (Wk_start (bj_batch j)) db2 = (Th_done Res_terminal, db2)"
proof -
  from j(1) obtain key where key: "bj_key j = Some key" by (auto simp: job_valid_def positive_id_def split: option.splits)
  have read: "thread_step su now ot (Can_read (bj_user j) (the (bj_key j)) (bj_batch j)) db = (Can_move j, db)"
    using j key net
    by (simp add: cancel_read_def store_call_def get_job_for_owner_def owned_by_def processor_done_def terminal_status_def deref_def)
  define db1 where "db1 = snd (record_provider_submit (bj_batch j) p now db)"
  have rec: "thread_step su now ot (Sub_record j p) db = (Sub_enqueue j, db1)"
    using j net
    by (simp add: submit_record_def store_call_def db1_def record_provider_submit_def can_transition_def terminal_status_def)
  obtain r where r: "bd_jobs db1 (bj_batch j) = Some r" "bj_status r = Bs_submitted" "bj_provider_job r = Some (pj_name p)"
    "ident r = ident j" and money1: "bd_money db1 = bd_money db"
    using j by (simp add: db1_def record_provider_submit_def can_transition_def terminal_status_def update_job_jobs
        ident_alt)
  define db2 where "db2 = append_event (bj_batch j) ''job_cancelled''
       (update_job (bj_batch j) (move_job Bs_cancelled (no_options ''job_cancelled'') now) db1)"
  define r2 where "r2 = move_job Bs_cancelled (no_options ''job_cancelled'') now r"
  have move: "thread_step su now ot (Can_move j) db1 = (Can_release j, db2)"
    using cancel_move_ok [OF r(1) _ net, of su now] r(2) by (simp add: db2_def can_transition_def terminal_status_def)
  have db2: "bd_money db2 = bd_money db" "bd_jobs db2 (bj_batch j) = Some r2"
    using r(1) money1 by (simp_all add: db2_def update_job_jobs r2_def)
  have r2: "bj_status r2 = Bs_cancelled" "bj_provider_job r2 = Some (pj_name p)" "ident r2 = ident j"
    using r by (simp_all add: r2_def) (simp_all add: move_job_def)
  from u obtain w where w: "hd_users (bd_money db) (bj_user j) = Some w" "bu_balance w = balance" "bu_frozen w = frozen"
    by (auto simp: user_money_def)
  obtain fp w' where res: "release_hold (bs_env su) Net_ok j (deref (bj_request_hash j)) db2 =
      (None, db2\<lparr>bd_money := (set_claim release_request_id j fp (bd_money db2))
      \<lparr>hd_users := (hd_users (bd_money db2))(bj_user j \<mapsto> w'),
       hd_moves := Move_release (bj_batch j) (the (bj_key j)) (bj_user j) (held_amount j) # hd_moves (bd_money db2)\<rparr>\<rparr>)"
    "bu_balance w' = balance + held_amount j" "bu_frozen w' = frozen - held_amount j"
    by (rule release_hold_held [OF j(1), of db2 w "bs_env su" "deref (bj_request_hash j)"])
      (use hold db2 u w in \<open>auto simp: db2\<close>)
  define db3 where "db3 = db2\<lparr>bd_money := (set_claim release_request_id j fp (bd_money db2))
      \<lparr>hd_users := (hd_users (bd_money db2))(bj_user j \<mapsto> w'),
       hd_moves := Move_release (bj_batch j) (the (bj_key j)) (bj_user j) (held_amount j) # hd_moves (bd_money db2)\<rparr>\<rparr>"
  have cancel: "run_thread su now ot 2 (Can_move j) db1 = (Th_done Res_ok, db3)"
    using move net res(1) by (simp add: eval_nat_numeral cancel_release_def db3_def)
  have "claimed release_request_id (hold_id r2) (bd_money db3)" "job_valid r2"
    using ident_hold_id [OF r2(3)] ident_valid [OF r2(3)] j(1)
    by (simp_all add: db3_def set_claim_def claimed_def hold_id_def)
  note again = release_hold_again(2) [OF this(2,1)]
  have row: "bd_jobs db3 (bj_batch j) = Some r2" by (simp add: db3_def db2)
  have work: "run_thread su now ot 3 (Wk_start (bj_batch j)) db3 = (Th_done Res_terminal, db3)"
    using row r2 net again
    by (simp add: eval_nat_numeral work_start_def work_read_def store_call_def get_job_def processor_done_def
        terminal_status_def work_release_def)
  have "user_money j db3 = Some (balance + held_amount j, frozen - held_amount j)"
    by (simp add: user_money_def db3_def res)
  with read rec cancel work row r2 show ?thesis by blast
qed

lemma capture_hold_lost:
  assumes "job_valid j" "unarchived (hold_id j) (bd_money db)" "\<not> claimed capture_request_id (hold_id j) (bd_money db)"
    and "hd_users (bd_money db) (bj_user j) = Some u" "held_amount j \<le> bu_frozen u" "0 \<le> cost" "cost \<le> held_amount j"
  obtains fp u' where "capture_hold env Net_lost j cost payload db = (Some (B_billing_failed (Some B_store)),
      db\<lparr>bd_money := (set_claim capture_request_id j fp (bd_money db))
      \<lparr>hd_users := (hd_users (bd_money db))(bj_user j \<mapsto> u'),
       hd_moves := Move_capture (bj_batch j) (the (bj_key j)) (bj_user j) (held_amount j) cost # hd_moves (bd_money db)\<rparr>\<rparr>)"
    "bu_balance u' = bu_balance u + (held_amount j - cost)" "bu_frozen u' = bu_frozen u - held_amount j"
proof -
  obtain c where c: "build_hold_command j (capture_request_id (bj_batch j)) cost payload = Inr c"
    "hc_hold (normalize_hold env c) = held_amount j" "hc_actual (normalize_hold env c) = (if cost < 0 then 0 else cost)"
    "hc_batch (normalize_hold env c) = bj_batch j" "hc_key (normalize_hold env c) = the (bj_key j)"
    "hc_user (normalize_hold env c) = bj_user j" "hc_hold c = held_amount j"
    "hc_request (normalize_hold env c) = trim_space (capture_request_id (bj_batch j))"
    by (rule build_hold_command_valid [OF assms(1), of "capture_request_id (bj_batch j)" cost payload env])
  have "\<not> cost_epsilon < cost - held_amount j" using assms(7) by (simp add: cost_epsilon_def)
  then show ?thesis
    by (intro that [where fp = "hc_fingerprint (normalize_hold env c)" and
          u' = "u\<lparr>bu_balance := bu_balance u + (held_amount j - cost), bu_frozen := bu_frozen u - held_amount j\<rparr>"])
      (use assms c valid_request_ids [OF assms(1)] in
        \<open>auto simp: capture_hold_def money_call_def store_call_def capture_balance_def apply_hold_def claim_request_def
          claimed_def hold_id_def unarchived_def capture_tx_def job_valid_def set_claim_def Let_def\<close>)
qed



section \<open>Examples\<close>

definition race_job :: "batch_status \<Rightarrow> int \<Rightarrow> batch_job" where
  "race_job s tries =
     \<lparr>bj_batch = ''imgbatch_1'', bj_user = 7, bj_key = Some 3, bj_account = Some 2, bj_provider = ''vertex'', bj_model = ''m'',
      bj_status = s, bj_provider_job = None, bj_input_ref = None, bj_output_ref = None, bj_item_count = 1, bj_success = 1,
      bj_fail = 0, bj_estimated = 4, bj_hold = Some 4, bj_actual = None, bj_unit_price = 1, bj_price_version = 1,
      bj_idempotency = None, bj_request_hash = Some ''h'', bj_manifest_hash = None, bj_retry_count = tries, bj_version = 0,
      bj_output_expires = None, bj_input_deleted = None, bj_output_deleted = None, bj_downloaded = None,
      bj_user_deleted = None, bj_error_code = None, bj_updated = 0, bj_submitted = None, bj_started = None,
      bj_finished = None, bj_settled = None\<rparr>"

definition race_db :: "batch_job \<Rightarrow> bool \<Rightarrow> batch_db" where
  "race_db j held =
     \<lparr>bd_jobs = [''imgbatch_1'' \<mapsto> j], bd_order = [''imgbatch_1''], bd_items = (\<lambda>b. []), bd_events = [],
      bd_money = \<lparr>hd_users = [7 \<mapsto> \<lparr>bu_balance = 10, bu_frozen = 9\<rparr>],
                  hd_claims = (if held then [(hold_request_id ''imgbatch_1'', 3) \<mapsto> ''fp''] else Map.empty),
                  hd_archive = Map.empty, hd_moves = []\<rparr>\<rparr>"

definition race_outside :: "net \<Rightarrow> outside" where
  "race_outside n =
     \<lparr>oa_net = n, oa_submit = Submit_answers None, oa_status = Status_none, oa_output = None, oa_cancelled = False,
      oa_queued = True, oa_account = True, oa_price = Inr 1, oa_beat = False\<rparr>"

definition race_setup :: batch_setup where
  "race_setup = \<lparr>bs_env = \<lparr>be_sha256 = (\<lambda>s. s), be_fixed10 = (\<lambda>r. [])\<rparr>, bs_index = demo_index_env, bs_retention_hours = 0\<rparr>"

lemma race_simps [simp]:
  "job_valid (race_job s tries)" "bj_batch (race_job s tries) = ''imgbatch_1''" "bj_status (race_job s tries) = s"
  "bj_retry_count (race_job s tries) = tries" "held_amount (race_job s tries) = 4" "bj_provider_job (race_job s tries) = None"
  "bj_user_deleted (race_job s tries) = None" "hold_id (race_job s tries) = (''imgbatch_1'', 3)"
  "bj_user (race_job s tries) = 7" "bj_key (race_job s tries) = Some 3"
  "bd_jobs (race_db j held) ''imgbatch_1'' = Some j" "bd_items (race_db j held) b = []"
  "unarchived x (bd_money (race_db j held))" "oa_net (race_outside n) = n"
  by (simp_all add: race_job_def job_valid_def held_amount_def batch_id_ok_def positive_id_def hold_id_def race_db_def
      unarchived_def race_outside_def)

lemma race_claims [simp]:
  "claimed hold_request_id (''imgbatch_1'', 3) (bd_money (race_db j held)) = held"
  "\<not> claimed capture_request_id (''imgbatch_1'', 3) (bd_money (race_db j held))"
  "\<not> claimed release_request_id (''imgbatch_1'', 3) (bd_money (race_db j held))"
  by (simp_all add: race_db_def claimed_def request_ids_differ)

lemma race_money [simp]: "user_money (race_job s tries) (race_db j held) = Some (10, 9)"
  by (simp add: user_money_def race_db_def race_job_def)

theorem cancelled_before_hold_witness:
  "\<exists>db1 db2. run_thread race_setup 5 (race_outside Net_ok) 2 (Can_move (race_job Bs_created 0))
      (race_db (race_job Bs_created 0) False) = (Th_done Res_ok, db1)
    \<and> run_thread race_setup 5 (race_outside Net_ok) 4 (Sub_reserve (race_job Bs_created 0) []) db1
        = (Th_done (Res_error B_invalid_transition), db2)
    \<and> user_money (race_job Bs_created 0) db2 = Some (6, 13)"
  using cancelled_before_hold_strands_money [of "race_job Bs_created 0" "race_db (race_job Bs_created 0) False" "[]" 10 9
      "race_outside Net_ok" race_setup 5]
  by (simp add: unclaimed_def item_ids_def) blast

theorem cancelled_job_runs_unpaid_witness:
  "\<exists>db1 db2. thread_step race_setup 5 (race_outside Net_ok) (Sub_record (race_job Bs_uploading 0) \<lparr>pj_name = ''p'', pj_input_ref = [], pj_output_ref = []\<rparr>)
      (race_db (race_job Bs_uploading 0) True) = (Sub_enqueue (race_job Bs_uploading 0), db1)
    \<and> run_thread race_setup 5 (race_outside Net_ok) 2 (Can_move (race_job Bs_uploading 0)) db1 = (Th_done Res_ok, db2)
    \<and> user_money (race_job Bs_uploading 0) db2 = Some (14, 5)
    \<and> map_option bj_provider_job (bd_jobs db2 ''imgbatch_1'') = Some (Some ''p'')"
proof -
  from cancelled_job_runs_unpaid [of "race_job Bs_uploading 0" "race_db (race_job Bs_uploading 0) True" 10 9
      "race_outside Net_ok" race_setup 5 "\<lparr>pj_name = ''p'', pj_input_ref = [], pj_output_ref = []\<rparr>"]
  obtain db1 db2 where "thread_step race_setup 5 (race_outside Net_ok) (Sub_record (race_job Bs_uploading 0) \<lparr>pj_name = ''p'', pj_input_ref = [], pj_output_ref = []\<rparr>)
      (race_db (race_job Bs_uploading 0) True) = (Sub_enqueue (race_job Bs_uploading 0), db1)"
    "run_thread race_setup 5 (race_outside Net_ok) 2 (Can_move (race_job Bs_uploading 0)) db1 = (Th_done Res_ok, db2)"
    "user_money (race_job Bs_uploading 0) db2 = Some (10 + 4, 9 - 4)"
    "\<exists>r. bd_jobs db2 ''imgbatch_1'' = Some r \<and> bj_provider_job r = Some ''p''"
    by (simp del: thread_step.simps run_thread.simps) blast
  then show ?thesis by (intro exI [of _ db1] exI [of _ db2]) (auto simp del: thread_step.simps run_thread.simps)
qed



end
