(* ===== verification/BatchWorld.thy ===== *)
theory BatchWorld
  imports BatchCleanup BatchRaces
begin

text \<open>
  All calls on batch images together: submissions, workers, cancellations, recoveries and clean-ups in any interleaving
  of their statements, any number of them at once and ending anywhere. A batch has one submission, which has drawn its id, and
  one worker at a time, which holds its lock.
\<close>

section \<open>Worlds and steps\<close>

record batch_world =
  bw_db :: batch_db
  bw_submits :: "string \<rightharpoonup> batch_thread"
  bw_workers :: "string \<rightharpoonup> batch_thread"
  bw_others :: "batch_thread list"
  bw_cleanups :: "cleanup_thread list"

text \<open>A submission starts with an id that is not in use and a positive hold.\<close>

definition new_submission :: "string \<Rightarrow> submission \<Rightarrow> batch_world \<Rightarrow> bool" where
  "new_submission b sb w \<longleftrightarrow>
     bj_batch (sb_job sb) = b \<and> job_valid (sb_job sb) \<and> bw_submits w b = None \<and> bd_jobs (bw_db w) b = None
     \<and> unclaimed (hold_id (sb_job sb)) (bd_money (bw_db w))"

fun starts_call :: "batch_thread \<Rightarrow> bool" where
  "starts_call (Can_read user key batch) \<longleftrightarrow> True"
| "starts_call (Rec_list cutoff limit) \<longleftrightarrow> True"
| "starts_call _ \<longleftrightarrow> False"

fun starts_cleanup :: "cleanup_thread \<Rightarrow> bool" where
  "starts_cleanup (Cl_owner user key batch) \<longleftrightarrow> True"
| "starts_cleanup (Cl_read batch t) \<longleftrightarrow> True"
| "starts_cleanup (Cl_list_inputs now) \<longleftrightarrow> True"
| "starts_cleanup _ \<longleftrightarrow> False"

text \<open>\<open>calm\<close> limits what statements meet; a run with \<open>\<lambda>th ot. True\<close> meets everything.\<close>

inductive batch_step ::
  "batch_setup \<Rightarrow> cleanup_config \<Rightarrow> (batch_thread \<Rightarrow> outside \<Rightarrow> bool) \<Rightarrow> batch_world \<Rightarrow> batch_world \<Rightarrow> bool"
  for su cfg calm where
    submit_begin: "new_submission b sb w \<Longrightarrow>
      batch_step su cfg calm w (w\<lparr>bw_submits := (bw_submits w)(b \<mapsto> Sub_lookup sb)\<rparr>)"
  | submit_step: "bw_submits w b = Some th \<Longrightarrow> calm th ot \<Longrightarrow> thread_step su now ot th (bw_db w) = (th', db') \<Longrightarrow>
      batch_step su cfg calm w (w\<lparr>bw_submits := (bw_submits w)(b \<mapsto> th'), bw_db := db'\<rparr>)"
  | submit_end: "batch_step su cfg calm w (w\<lparr>bw_submits := (bw_submits w)(b := None)\<rparr>)"
  | worker_begin: "bw_workers w b = None \<Longrightarrow>
      batch_step su cfg calm w (w\<lparr>bw_workers := (bw_workers w)(b \<mapsto> Wk_start b)\<rparr>)"
  | worker_step: "bw_workers w b = Some th \<Longrightarrow> calm th ot \<Longrightarrow> thread_step su now ot th (bw_db w) = (th', db') \<Longrightarrow>
      batch_step su cfg calm w (w\<lparr>bw_workers := (bw_workers w)(b \<mapsto> th'), bw_db := db'\<rparr>)"
  | worker_end: "batch_step su cfg calm w (w\<lparr>bw_workers := (bw_workers w)(b := None)\<rparr>)"
  | other_begin: "starts_call th \<Longrightarrow> batch_step su cfg calm w (w\<lparr>bw_others := th # bw_others w\<rparr>)"
  | other_step: "bw_others w = xs @ th # ys \<Longrightarrow> calm th ot \<Longrightarrow> thread_step su now ot th (bw_db w) = (th', db') \<Longrightarrow>
      batch_step su cfg calm w (w\<lparr>bw_others := xs @ th' # ys, bw_db := db'\<rparr>)"
  | other_end: "bw_others w = xs @ th # ys \<Longrightarrow> batch_step su cfg calm w (w\<lparr>bw_others := xs @ ys\<rparr>)"
  | cleanup_begin: "starts_cleanup th \<Longrightarrow> batch_step su cfg calm w (w\<lparr>bw_cleanups := th # bw_cleanups w\<rparr>)"
  | cleanup_step: "bw_cleanups w = xs @ th # ys \<Longrightarrow> cleanup_step cfg now n account answer th (bw_db w) = (th', db') \<Longrightarrow>
      batch_step su cfg calm w (w\<lparr>bw_cleanups := xs @ th' # ys, bw_db := db'\<rparr>)"
  | cleanup_end: "bw_cleanups w = xs @ th # ys \<Longrightarrow> batch_step su cfg calm w (w\<lparr>bw_cleanups := xs @ ys\<rparr>)"
  | downloaded: "batch_step su cfg calm w (w\<lparr>bw_db := snd (record_download n now (get_job_for_owner user key batch (bw_db w)) (bw_db w))\<rparr>)"
  | deleted: "batch_step su cfg calm w (w\<lparr>bw_db := snd (delete_record n now user key read (bw_db w))\<rparr>)"

definition empty_batch_db :: "(int \<rightharpoonup> bill_user) \<Rightarrow> batch_db" where
  "empty_batch_db users =
     \<lparr>bd_jobs = Map.empty, bd_order = [], bd_items = (\<lambda>b. []), bd_events = [],
      bd_money = \<lparr>hd_users = users, hd_claims = Map.empty, hd_archive = Map.empty, hd_moves = []\<rparr>\<rparr>"

definition empty_batch_world :: "(int \<rightharpoonup> bill_user) \<Rightarrow> batch_world" where
  "empty_batch_world users =
     \<lparr>bw_db = empty_batch_db users, bw_submits = Map.empty, bw_workers = Map.empty, bw_others = [], bw_cleanups = []\<rparr>"

inductive batch_reach ::
  "batch_setup \<Rightarrow> cleanup_config \<Rightarrow> (batch_thread \<Rightarrow> outside \<Rightarrow> bool) \<Rightarrow> (int \<rightharpoonup> bill_user) \<Rightarrow> batch_world \<Rightarrow> bool"
  for su cfg calm users where
    reach_start: "batch_reach su cfg calm users (empty_batch_world users)"
  | reach_step: "batch_reach su cfg calm users w \<Longrightarrow> batch_step su cfg calm w w' \<Longrightarrow> batch_reach su cfg calm users w'"

section \<open>Statements and the money\<close>

text \<open>What a statement may do to the money: nothing, or one transaction on a hold.\<close>

definition money_moved :: "hold_db \<Rightarrow> hold_db \<Rightarrow> bool" where
  "money_moved m m' \<longleftrightarrow>
     m' = m \<or> (\<exists>env tx mv c. m' = snd (apply_hold env tx c m) \<and> tx_shape tx mv \<and> 0 \<le> hc_hold c
        \<and> (mv = reserve_move \<or> mv = capture_move \<or> mv = release_move))"

lemma money_moved_refl [simp]: "money_moved m m"
  by (simp add: money_moved_def)

lemma money_moved_call:
  assumes "tx_shape tx mv" "0 \<le> hc_hold c" "mv = reserve_move \<or> mv = capture_move \<or> mv = release_move"
  shows "money_moved (bd_money db) (bd_money (snd (money_call n db (apply_hold env tx c (bd_money db)))))"
proof -
  have "money_moved (bd_money db) (snd (apply_hold env tx c (bd_money db)))"
    using assms unfolding money_moved_def by blast
  then show ?thesis
    by (cases "apply_hold env tx c (bd_money db)") (simp add: money_call_def store_call_def split: net.splits)
qed

lemma build_hold_nonneg: "build_hold_command j rid a payload = Inr c \<Longrightarrow> 0 \<le> hc_hold c"
  by (auto simp: build_hold_command_def Let_def split: option.splits if_splits)

lemma hold_calls_moved:
  "money_moved (bd_money db) (bd_money (snd (reserve_hold env n j payload db)))"
  "money_moved (bd_money db) (bd_money (snd (capture_hold env n j cost payload db)))"
  "money_moved (bd_money db) (bd_money (snd (release_hold env n j payload db)))"
proof -
  have "money_moved (bd_money db) (bd_money (snd (money_call n db (reserve_balance env c (bd_money db)))))"
    "money_moved (bd_money db) (bd_money (snd (money_call n db (capture_balance env c (bd_money db)))))"
    "money_moved (bd_money db) (bd_money (snd (money_call n db (release_balance env c (bd_money db)))))"
    if "0 \<le> hc_hold c" for c
    unfolding reserve_balance_def capture_balance_def release_balance_def
    using money_moved_call reserve_shape capture_shape release_shape that by blast+
  note moved = this [OF build_hold_nonneg]
  show "money_moved (bd_money db) (bd_money (snd (reserve_hold env n j payload db)))"
    using moved(1) by (fastforce simp: reserve_hold_def split: prod.splits sum.splits)
  show "money_moved (bd_money db) (bd_money (snd (capture_hold env n j cost payload db)))"
    using moved(2) by (fastforce simp: capture_hold_def split: prod.splits sum.splits)
  show "money_moved (bd_money db) (bd_money (snd (release_hold env n j payload db)))"
    using moved(3) by (fastforce simp: release_hold_def split: prod.splits sum.splits)
qed

text \<open>The statements on jobs, items and events.\<close>

lemma repo_money [simp]:
  "bd_money (snd (create_job j db)) = bd_money db" "bd_money (snd (transition_job b t opts now db)) = bd_money db"
  "bd_money (snd (touch_submitting b now db)) = bd_money db" "bd_money (snd (fail_stale_job b cutoff code now db)) = bd_money db"
  "bd_money (snd (update_output_ref b ref now db)) = bd_money db" "bd_money (snd (record_provider_submit b p now db)) = bd_money db"
  "bd_money (snd (record_submit_failure b code mf now db)) = bd_money db" "bd_money (snd (mark_settled b cost h now ex db)) = bd_money db"
  "bd_money (snd (record_settlement_failure b code now db)) = bd_money db" "bd_money (snd (create_items b items db)) = bd_money db"
  "bd_money (snd (replace_items b items s f now db)) = bd_money db" "bd_money (snd (mark_input_deleted b now db)) = bd_money db"
  "bd_money (snd (mark_output_deleted b now db)) = bd_money db" "bd_money (snd (mark_downloaded b now db)) = bd_money db"
  "bd_money (snd (mark_user_deleted u k b now db)) = bd_money db" "bd_money (snd (record_cleanup_failure b code now db)) = bd_money db"
  by (simp_all add: create_job_def transition_job_def touch_submitting_def fail_stale_job_def update_output_ref_def
      record_provider_submit_def record_submit_failure_def mark_settled_def record_settlement_failure_def create_items_def
      replace_items_def mark_input_deleted_def mark_output_deleted_def mark_downloaded_def mark_user_deleted_def
      record_cleanup_failure_def Let_def split: option.splits)

lemma store_call_money:
  assumes "store_call n db res = (r, db')" "bd_money (snd res) = bd_money db"
  shows "bd_money db' = bd_money db"
  using assms by (cases res) (auto simp: store_call_def split: net.splits)

lemma store_call_money_snd [simp]: "bd_money (snd res) = bd_money db \<Longrightarrow> bd_money (snd (store_call n db res)) = bd_money db"
  by (cases "store_call n db res") (simp add: store_call_money)

lemmas call_defs = submit_lookup_def submit_create_def submit_reserve_def submit_items_def submit_upload_def
  submit_provider_def submit_record_def submit_release_def submit_hide_def cancel_read_def cancel_provider_def
  cancel_move_def cancel_release_def work_start_def work_read_def work_release_def work_ref_def work_move_def
  work_expect_def work_replace_def settle_read_def settle_capture_def settle_mark_def settle_failure_def
  settle_release_def settle_exhaust_def recover_list_def recover_release_def

lemma snd_case_pair: "snd (case p of (a, b) \<Rightarrow> f a b) = (case p of (a, b) \<Rightarrow> snd (f a b))"
  by (cases p) simp

lemma hold_calls_movedD:
  "reserve_hold env n j payload db = (r, db') \<Longrightarrow> money_moved (bd_money db) (bd_money db')"
  "capture_hold env n j cost payload db = (r, db') \<Longrightarrow> money_moved (bd_money db) (bd_money db')"
  "release_hold env n j payload db = (r, db') \<Longrightarrow> money_moved (bd_money db) (bd_money db')"
  using hold_calls_moved(1) [of db env n j payload] hold_calls_moved(2) [of db env n j cost payload]
    hold_calls_moved(3) [of db env n j payload] by simp_all

lemma store_call_pair:
  "store_call n db (a, db1) = (r, db2) \<Longrightarrow> bd_money db1 = bd_money db \<Longrightarrow> bd_money db2 = bd_money db"
  by (auto simp: store_call_def split: net.splits)

lemma recover_jobs_money: "recover_jobs n now js cutoff db = (th, db') \<Longrightarrow> bd_money db' = bd_money db"
  by (cases js) (auto split: prod.splits sum.splits if_splits dest!: store_call_money)

lemma thread_step_money:
  assumes "thread_step su now ot th db = (th', db')"
  shows "money_moved (bd_money db) (bd_money db')"
  using assms
  by (cases th)
    (auto simp: call_defs Let_def split: prod.splits sum.splits option.splits if_splits submit_answer.splits
      dest!: store_call_money hold_calls_movedD recover_jobs_money)

lemmas cleanup_defs = cleanup_owner_def cleanup_read_def cleanup_list_inputs_def cleanup_list_outputs_def
  cleanup_check_def cleanup_failure_def cleanup_mark_def best_effort_event_def

lemma cleanup_step_money:
  assumes "cleanup_step cfg now n account answer th db = (th', db')"
  shows "bd_money db' = bd_money db"
  using assms
  by (cases th)
    (auto simp: cleanup_defs Let_def split: prod.splits sum.splits if_splits cleanup_target.splits dest!: store_call_money)

lemma owner_marks_money:
  "bd_money (snd (record_download n now read db)) = bd_money db" "bd_money (snd (delete_record n now user key read db)) = bd_money db"
  by (simp_all add: record_download_def delete_record_def split: sum.splits)

section \<open>The books along a run\<close>

lemma money_moved_books:
  assumes "money_moved m m'" "books_ok users m"
  shows "books_ok users m'"
proof -
  from assms(1) consider "m' = m"
    | env tx mv c where "m' = snd (apply_hold env tx c m)" "tx_shape tx mv" "0 \<le> hc_hold c"
        "mv = reserve_move \<or> mv = capture_move \<or> mv = release_move"
    unfolding money_moved_def by blast
  then show ?thesis
  proof cases
    case 2
    then show ?thesis using apply_hold_books [of env tx c m _ m' users mv] assms(2) by (metis prod.collapse)
  qed (use assms(2) in simp)
qed

lemma batch_step_books:
  assumes "batch_step su cfg calm w w'" "books_ok users (bd_money (bw_db w))"
  shows "books_ok users (bd_money (bw_db w'))"
  using assms
  by (cases rule: batch_step.cases)
    (auto dest: thread_step_money cleanup_step_money intro: money_moved_books simp: owner_marks_money)

text \<open>C6: However the calls on batch images interleave, fail or are cut short, the books of every user add up: what is
  frozen is what the moves of holds froze, it is never negative, and balance, frozen balance and the captured
  costs together stay what they were at the start.\<close>

theorem batch_books_balance:
  assumes "batch_reach su cfg calm users w" "\<And>u v. users u = Some v \<Longrightarrow> 0 \<le> bu_frozen v"
    and "hd_users (bd_money (bw_db w)) user = Some now_v" "users user = Some start_v"
  shows "0 \<le> bu_frozen now_v \<and> bu_frozen now_v = bu_frozen start_v + total_frozen user (bd_money (bw_db w))
    \<and> bu_balance now_v + bu_frozen now_v + total_spent user (bd_money (bw_db w)) = bu_balance start_v + bu_frozen start_v"
proof -
  from assms(1) have "books_ok users (bd_money (bw_db w))"
  proof induction
    case reach_start
    show ?case using assms(2)
      by (auto simp: books_ok_def empty_batch_world_def empty_batch_db_def total_frozen_def total_spent_def)
  next
    case (reach_step w w')
    then show ?case by (blast intro: batch_step_books)
  qed
  with assms(3,4) show ?thesis unfolding books_ok_def by blast
qed

definition race_users :: "int \<rightharpoonup> bill_user" where
  "race_users = [7 \<mapsto> \<lparr>bu_balance = 10, bu_frozen = 9\<rparr>]"

text \<open>A submission after some of its statements, with nothing in its way.\<close>

definition race_submission :: submission where
  "race_submission = \<lparr>sb_job = race_job Bs_created 0, sb_items = []\<rparr>"

primrec race_run :: "nat \<Rightarrow> batch_thread \<times> batch_db" where
  "race_run 0 = (Sub_lookup race_submission, empty_batch_db race_users)"
| "race_run (Suc k) = thread_step race_setup 5 (race_outside Net_ok) (fst (race_run k)) (snd (race_run k))"

definition race_world :: "nat \<Rightarrow> batch_world" where
  "race_world k = (empty_batch_world race_users)\<lparr>bw_submits := [''imgbatch_1'' \<mapsto> fst (race_run k)], bw_db := snd (race_run k)\<rparr>"

lemma race_world_step:
  assumes "\<And>th. calm th (race_outside Net_ok)"
  shows "batch_step race_setup \<lparr>cc_input_hours = 0, cc_batch_size = 0\<rparr> calm (race_world k) (race_world (Suc k))"
  using submit_step [where w = "race_world k" and b = "''imgbatch_1''" and th = "fst (race_run k)" and ot = "race_outside Net_ok" and calm = calm]
    assms by (simp add: race_world_def del: thread_step.simps)

lemma race_world_reach:
  assumes "\<And>th. calm th (race_outside Net_ok)"
  shows "batch_reach race_setup \<lparr>cc_input_hours = 0, cc_batch_size = 0\<rparr> calm race_users (race_world k)"
proof (induction k)
  case 0
  have "new_submission ''imgbatch_1'' race_submission (empty_batch_world race_users)"
    by (simp add: race_submission_def new_submission_def empty_batch_world_def empty_batch_db_def unclaimed_def unarchived_def claimed_def)
  from reach_step [OF reach_start submit_begin [OF this]] show ?case
    by (simp add: empty_batch_world_def race_world_def)
next
  case (Suc k)
  then show ?case using race_world_step [where calm = calm, OF assms] by (rule reach_step)
qed

definition race_row :: batch_job where
  "race_row = new_batch_job 5 (race_job Bs_created 0)"

lemma race_row_simps [simp]:
  shows "job_valid race_row" "hold_id race_row = (''imgbatch_1'', 3)" "bj_user race_row = 7" "held_amount race_row = 4"
  "bj_batch race_row = ''imgbatch_1''" "bj_key race_row = Some 3"
  and race_lookup: "bj_idempotency (race_job Bs_created 0) = None" "supported_provider (bj_provider race_row)"
  by (simp_all add: race_row_def new_batch_job_def race_job_def supported_provider_def job_valid_def batch_id_ok_def positive_id_def hold_id_def
      held_amount_def)

lemma race_created:
  obtains db where "race_run 2 = (Sub_reserve race_row [], db)" "bd_money db = bd_money (empty_batch_db race_users)"
    "bd_jobs db ''imgbatch_1'' = Some race_row"
proof (rule that)
  let ?db = "(empty_batch_db race_users)\<lparr>bd_jobs := [''imgbatch_1'' \<mapsto> race_row], bd_order := [''imgbatch_1'']\<rparr>"
  show "race_run 2 = (Sub_reserve race_row [], ?db)"
    by (simp add: race_run_def race_submission_def numeral_2_eq_2 submit_lookup_def submit_create_def create_job_def empty_batch_db_def
        race_row_def new_batch_job_def race_job_def supported_provider_def store_call_def)
qed simp_all

lemma race_reserved:
  obtains fp u where "bd_jobs (bw_db (race_world 3)) ''imgbatch_1'' = Some race_row"
    "hd_users (bd_money (bw_db (race_world 3))) 7 = Some u" "bu_balance u = 6" "bu_frozen u = 13"
    "hd_moves (bd_money (bw_db (race_world 3))) = [Move_reserve ''imgbatch_1'' 3 7 4]"
proof -
  obtain db where db: "race_run 2 = (Sub_reserve race_row [], db)" "bd_money db = bd_money (empty_batch_db race_users)"
    "bd_jobs db ''imgbatch_1'' = Some race_row" by (rule race_created)
  have "race_run 3 = submit_reserve (bs_env race_setup) Net_ok race_row [] db"
    using db(1) by (simp add: numeral_3_eq_3 numeral_2_eq_2 del: thread_step.simps(1-3))
  moreover obtain u fp where u: "reserve_hold (bs_env race_setup) Net_ok race_row (deref (bj_request_hash race_row)) db =
      (None, db\<lparr>bd_money := (set_claim hold_request_id race_row fp (bd_money db))
      \<lparr>hd_users := (hd_users (bd_money db))(bj_user race_row \<mapsto> u),
       hd_moves := Move_reserve (bj_batch race_row) (the (bj_key race_row)) (bj_user race_row) (held_amount race_row) # hd_moves (bd_money db)\<rparr>\<rparr>)"
    "bu_balance u = 10 - held_amount race_row" "bu_frozen u = 9 + held_amount race_row"
    by (rule reserve_hold_first [of race_row db "\<lparr>bu_balance = 10, bu_frozen = 9\<rparr>" "bs_env race_setup" "deref (bj_request_hash race_row)"])
      (simp_all add: db(2) empty_batch_db_def race_users_def unarchived_def claimed_def)
  ultimately show ?thesis
    using db by (intro that [of u]) (simp_all add: race_world_def submit_reserve_def set_claim_def empty_batch_db_def)
qed

theorem batch_books_balance_witness:
  "\<exists>v. hd_users (bd_money (bw_db (race_world 3))) 7 = Some v \<and> bu_frozen v = 9 + total_frozen 7 (bd_money (bw_db (race_world 3)))
     \<and> bu_balance v + bu_frozen v + total_spent 7 (bd_money (bw_db (race_world 3))) = 19
     \<and> bu_frozen v = 13"
proof -
  obtain v where v: "hd_users (bd_money (bw_db (race_world 3))) 7 = Some v" "bu_balance v = 6" "bu_frozen v = 13"
    by (rule race_reserved)
  have "\<And>u w. race_users u = Some w \<Longrightarrow> 0 \<le> bu_frozen w" by (auto simp: race_users_def split: if_splits)
  from batch_books_balance [OF race_world_reach [where calm = "\<lambda>th ot. True"] this v(1), where start_v = "\<lparr>bu_balance = 10, bu_frozen = 9\<rparr>"] v
  show ?thesis by (simp add: race_users_def)
qed

end
