(* ===== verification/BatchRuns.thy ===== *)
theory BatchRuns
  imports BatchWorld
begin

text \<open>
  The invariant of one batch: what its row, its hold, its submission and its worker may look like together. Each kind of
  call guarantees what the others rely on; the statements only change one row or move the money of one hold.
\<close>

section \<open>Stages of a job\<close>

definition young :: "batch_status \<Rightarrow> bool" where
  "young s \<longleftrightarrow> s = Bs_created \<or> s = Bs_uploading"

definition dead :: "batch_status \<Rightarrow> bool" where
  "dead s \<longleftrightarrow> s = Bs_failed \<or> s = Bs_cancelled"

definition early_stage :: "batch_status \<Rightarrow> bool" where
  "early_stage s \<longleftrightarrow> young s \<or> dead s"

definition busy :: "batch_status \<Rightarrow> bool" where
  "busy s \<longleftrightarrow> s = Bs_submitted \<or> s = Bs_running \<or> s = Bs_indexing"

definition working :: "batch_status \<Rightarrow> bool" where
  "working s \<longleftrightarrow> busy s \<or> dead s"

definition finished :: "batch_status \<Rightarrow> bool" where
  "finished s \<longleftrightarrow> s = Bs_completed \<or> s = Bs_output_deleted"

lemmas stage_defs = young_def dead_def early_stage_def busy_def working_def finished_def

text \<open>What a settlement reads of a row; it does not change while the job is settling.\<close>

definition settle_view :: "batch_job \<Rightarrow> (string \<times> int \<times> int option \<times> string \<times> string) \<times> (string option \<times> string option)
    \<times> (int \<times> int \<times> int) \<times> (rat \<times> rat option \<times> rat \<times> int) \<times> string option" where
  "settle_view j =
     ((bj_batch j, bj_user j, bj_key j, bj_provider j, bj_model j), (bj_provider_job j, bj_output_ref j),
      (bj_success j, bj_fail j, bj_item_count j), (bj_estimated j, bj_hold j, bj_unit_price j, bj_price_version j),
      bj_manifest_hash j)"

definition due :: "batch_job \<Rightarrow> rat" where
  "due j = of_int (bj_success j) * bj_unit_price j"

definition due_print :: "batch_env \<Rightarrow> batch_job \<Rightarrow> string" where
  "due_print env j = capture_print env j (due j) (manifest_hash env j)"

text \<open>The checks before the capture pass.\<close>

definition settle_passes :: "batch_env \<Rightarrow> batch_job \<Rightarrow> bool" where
  "settle_passes env j \<longleftrightarrow> settle_checks env (Inl B_store) j = St_capture j (due j)"

lemma build_hold_command_alt:
  "build_hold_command j rid actual payload =
     (case bj_key j of
        None \<Rightarrow> Inl B_missing_api_key
      | Some key \<Rightarrow>
          if key \<le> 0 then Inl B_missing_api_key
          else Inr \<lparr>hc_request = rid, hc_key = key, hc_fingerprint = [], hc_payload = trim_space payload,
                    hc_user = bj_user j, hc_batch = bj_batch j, hc_hold = (if held_amount j < 0 then 0 else held_amount j),
                    hc_actual = (if actual < 0 then 0 else actual)\<rparr>)"
  unfolding build_hold_command_def held_amount_def Let_def ..

lemma settle_view_same:
  assumes "settle_view j = settle_view j'"
  shows "ident j = ident j'" "due j = due j'" "manifest_hash env j = manifest_hash env j'" "due_print env j = due_print env j'"
    "settle_passes env j = settle_passes env j'" "bj_batch j = bj_batch j'" "bj_price_version j = bj_price_version j'"
proof -
  from assms show same: "ident j = ident j'" "due j = due j'" "manifest_hash env j = manifest_hash env j'"
    "bj_batch j = bj_batch j'" "bj_price_version j = bj_price_version j'"
    by (simp_all add: settle_view_def ident_alt due_def manifest_hash_def)
  from same(1) have fields: "bj_user j = bj_user j'" "bj_key j = bj_key j'" "held_amount j = held_amount j'"
    by (simp_all add: ident_def)
  have "build_hold_command j rid a p = build_hold_command j' rid a p" for rid a p
    unfolding build_hold_command_alt fields same(4) ..
  with same show "due_print env j = due_print env j'"
    by (simp add: due_print_def capture_print_def)
  from fields(3) assms same show "settle_passes env j = settle_passes env j'"
    by (simp add: settle_passes_def settle_checks_def settle_view_def settlement_unit_price_def Let_def)
qed

lemma settle_checks_cases:
  assumes "bj_price_version j = 1"
  obtains "settle_checks env catalog j = St_capture j (due j)" "settle_passes env j"
  | code e where "settle_checks env catalog j = St_failure j code e" "\<not> settle_passes env j"
      "prefix ''SETTLEMENT_'' (trim_space code)"
proof -
  have price: "settlement_unit_price catalog j = (if bj_unit_price j < 0 then Inl B_pricing_missing else Inr (bj_unit_price j))" for catalog
    using assms by (simp add: settlement_unit_price_def)
  have codes: "prefix ''SETTLEMENT_'' (trim_space ''SETTLEMENT_INVALID_COUNTS'')"
    "prefix ''SETTLEMENT_'' (trim_space ''SETTLEMENT_MANIFEST_CONFLICT'')"
    "prefix ''SETTLEMENT_'' (trim_space ''SETTLEMENT_PRICING_MISSING'')"
    "prefix ''SETTLEMENT_'' (trim_space ''SETTLEMENT_COST_EXCEEDS_HOLD'')"
    by code_simp+
  have same: "settle_checks env catalog j = settle_checks env (Inl B_store) j"
    by (simp add: settle_checks_def price)
  have "settle_checks env catalog j = St_capture j (due j)
      \<or> (\<exists>code e. settle_checks env catalog j = St_failure j code e \<and> prefix ''SETTLEMENT_'' (trim_space code))"
    using codes by (auto simp: settle_checks_def price due_def Let_def)
  then show ?thesis
  proof (elim disjE exE conjE)
    assume "settle_checks env catalog j = St_capture j (due j)"
    with same show ?thesis by (intro that(1)) (simp_all add: settle_passes_def)
  next
    fix code e assume fails: "settle_checks env catalog j = St_failure j code e" "prefix ''SETTLEMENT_'' (trim_space code)"
    with same have "settle_checks env (Inl B_store) j = St_failure j code e" by simp
    then have "\<not> settle_passes env j" by (simp add: settle_passes_def)
    then show ?thesis using that(2) fails by blast
  qed
qed

section \<open>The invariant of a row\<close>

fun forward :: "batch_thread option \<Rightarrow> bool" where
  "forward (Some (Sub_reserve j items)) \<longleftrightarrow> True"
| "forward (Some (Sub_items j items)) \<longleftrightarrow> True"
| "forward (Some (Sub_upload j)) \<longleftrightarrow> True"
| "forward (Some (Sub_provider j)) \<longleftrightarrow> True"
| "forward (Some (Sub_record j p)) \<longleftrightarrow> True"
| "forward _ \<longleftrightarrow> False"

definition taken_ok :: "batch_job \<Rightarrow> hold_db \<Rightarrow> bool" where
  "taken_ok j m \<longleftrightarrow>
     (\<not> early_stage (bj_status j) \<or> claimed hold_request_id (hold_id j) m \<longrightarrow> 0 < times_taken (hold_id j) m)"

definition charged_ok :: "batch_job \<Rightarrow> hold_db \<Rightarrow> bool" where
  "charged_ok j m \<longleftrightarrow>
     (finished (bj_status j) \<or> claimed capture_request_id (hold_id j) m \<longrightarrow> 0 < times_paid (hold_id j) m)"

definition returned_ok :: "batch_job \<Rightarrow> batch_thread option \<Rightarrow> hold_db \<Rightarrow> bool" where
  "returned_ok j sub m \<longleftrightarrow>
     (0 < times_returned (hold_id j) m \<longrightarrow>
        0 < times_taken (hold_id j) m
        \<and> (dead (bj_status j) \<or> young (bj_status j) \<and> \<not> forward sub \<or> retry_exhausted j))"

definition paid_ok :: "batch_env \<Rightarrow> batch_job \<Rightarrow> hold_db \<Rightarrow> bool" where
  "paid_ok env j m \<longleftrightarrow>
     (0 < times_paid (hold_id j) m \<longrightarrow>
        finished (bj_status j)
        \<or> bj_status j = Bs_settling \<and> \<not> retry_exhausted j \<and> settle_passes env j
          \<and> hd_claims m (capture_request_id (bj_batch j), the (bj_key j)) = Some (due_print env j))"

definition row_fine :: "batch_env \<Rightarrow> batch_thread option \<Rightarrow> hold_db \<Rightarrow> batch_job \<Rightarrow> bool" where
  "row_fine env sub m j \<longleftrightarrow>
     job_valid j \<and> bj_price_version j = 1 \<and> unarchived (hold_id j) m \<and> (young (bj_status j) \<longrightarrow> bj_provider_job j = None)
     \<and> taken_ok j m \<and> charged_ok j m \<and> returned_ok j sub m \<and> paid_ok env j m"

lemmas row_fine_defs = row_fine_def taken_ok_def charged_ok_def returned_ok_def paid_ok_def

definition batch_row_ok :: "batch_env \<Rightarrow> string \<Rightarrow> batch_thread option \<Rightarrow> batch_db \<Rightarrow> bool" where
  "batch_row_ok env b sub db \<longleftrightarrow> (\<forall>j. bd_jobs db b = Some j \<longrightarrow> bj_batch j = b \<and> row_fine env sub (bd_money db) j)"

text \<open>What the stage of a fine row says of its money.\<close>

lemma exhausted_settling: "retry_exhausted j \<Longrightarrow> bj_status j = Bs_settling"
  by (simp add: retry_exhausted_def)

lemma row_fine_money:
  assumes "row_fine env sub m j"
  shows "early_stage (bj_status j) \<Longrightarrow> times_paid (hold_id j) m = 0"
    and "busy (bj_status j) \<Longrightarrow> times_paid (hold_id j) m = 0"
    and "busy (bj_status j) \<Longrightarrow> times_returned (hold_id j) m = 0"
    and "\<not> early_stage (bj_status j) \<Longrightarrow> 0 < times_taken (hold_id j) m"
    and "young (bj_status j) \<Longrightarrow> forward sub \<Longrightarrow> times_returned (hold_id j) m = 0"
    and "finished (bj_status j) \<Longrightarrow> times_returned (hold_id j) m = 0"
    and "bj_status j = Bs_settling \<Longrightarrow> \<not> retry_exhausted j \<Longrightarrow> times_returned (hold_id j) m = 0"
    and "retry_exhausted j \<Longrightarrow> times_paid (hold_id j) m = 0"
    and "bj_status j = Bs_settling \<Longrightarrow> \<not> settle_passes env j \<Longrightarrow> times_paid (hold_id j) m = 0"
proof -
  have taken: "taken_ok j m" and returned: "returned_ok j sub m" and paid: "paid_ok env j m"
    using assms by (simp_all add: row_fine_def)
  note ex = exhausted_settling [of j]
  show "early_stage (bj_status j) \<Longrightarrow> times_paid (hold_id j) m = 0" "busy (bj_status j) \<Longrightarrow> times_paid (hold_id j) m = 0"
    "retry_exhausted j \<Longrightarrow> times_paid (hold_id j) m = 0"
    "bj_status j = Bs_settling \<Longrightarrow> \<not> settle_passes env j \<Longrightarrow> times_paid (hold_id j) m = 0"
    using paid ex by (auto simp: paid_ok_def stage_defs)
  show "busy (bj_status j) \<Longrightarrow> times_returned (hold_id j) m = 0"
    "young (bj_status j) \<Longrightarrow> forward sub \<Longrightarrow> times_returned (hold_id j) m = 0"
    "finished (bj_status j) \<Longrightarrow> times_returned (hold_id j) m = 0"
    "bj_status j = Bs_settling \<Longrightarrow> \<not> retry_exhausted j \<Longrightarrow> times_returned (hold_id j) m = 0"
    using returned ex by (auto simp: returned_ok_def stage_defs)
  show "\<not> early_stage (bj_status j) \<Longrightarrow> 0 < times_taken (hold_id j) m" using taken by (simp add: taken_ok_def)
qed

lemma row_fine_sub: "row_fine env sub m j \<Longrightarrow> (forward sub' \<Longrightarrow> forward sub) \<Longrightarrow> row_fine env sub' m j"
  by (auto simp: row_fine_defs)

lemma row_ok_sub: "batch_row_ok env b sub db \<Longrightarrow> (forward sub' \<Longrightarrow> forward sub) \<Longrightarrow> batch_row_ok env b sub' db"
  by (auto simp: batch_row_ok_def intro: row_fine_sub)

section \<open>What a call knows of a row\<close>

text \<open>A call holds a row it has read; \<open>P\<close> is what it knows of the row as it is now.\<close>

definition at_row :: "batch_job \<Rightarrow> (batch_job \<Rightarrow> bool) \<Rightarrow> batch_db \<Rightarrow> bool" where
  "at_row j P db \<longleftrightarrow> (\<exists>r. bd_jobs db (bj_batch j) = Some r \<and> ident r = ident j \<and> P r)"

definition early_row :: "batch_job \<Rightarrow> batch_db \<Rightarrow> bool" where
  "early_row j db \<longleftrightarrow> at_row j (\<lambda>r. early_stage (bj_status r)) db"

definition taken_here :: "batch_job \<Rightarrow> batch_db \<Rightarrow> bool" where
  "taken_here j db \<longleftrightarrow> 0 < times_taken (hold_id j) (bd_money db)"

definition working_row :: "batch_job \<Rightarrow> batch_db \<Rightarrow> bool" where
  "working_row j db \<longleftrightarrow> at_row j (\<lambda>r. working (bj_status r)) db"

definition dead_row :: "batch_job \<Rightarrow> batch_db \<Rightarrow> bool" where
  "dead_row j db \<longleftrightarrow> at_row j (\<lambda>r. dead (bj_status r)) db"

definition known_row :: "batch_job \<Rightarrow> batch_db \<Rightarrow> bool" where
  "known_row j db \<longleftrightarrow> at_row j (\<lambda>r. True) db"

definition ended_row :: "batch_job \<Rightarrow> batch_db \<Rightarrow> bool" where
  "ended_row j db \<longleftrightarrow> at_row j (\<lambda>r. terminal_status (bj_status r)) db"

lemmas row_defs = early_row_def working_row_def dead_row_def known_row_def ended_row_def

text \<open>A settlement that may capture, one that has captured, one that has failed and one that has given up.\<close>

definition may_capture :: "batch_env \<Rightarrow> batch_job \<Rightarrow> batch_db \<Rightarrow> bool" where
  "may_capture env j db \<longleftrightarrow>
     at_row j (\<lambda>r. bj_status r = Bs_settling \<and> settle_view r = settle_view j \<and> \<not> retry_exhausted r \<and> settle_passes env r) db"

definition has_captured :: "batch_env \<Rightarrow> batch_job \<Rightarrow> batch_db \<Rightarrow> bool" where
  "has_captured env j db \<longleftrightarrow> may_capture env j db \<and> 0 < times_paid (hold_id j) (bd_money db)"

definition not_captured :: "batch_job \<Rightarrow> batch_db \<Rightarrow> bool" where
  "not_captured j db \<longleftrightarrow> at_row j (\<lambda>r. bj_status r = Bs_settling) db \<and> times_paid (hold_id j) (bd_money db) = 0
     \<and> times_returned (hold_id j) (bd_money db) = 0"

definition given_up :: "batch_job \<Rightarrow> batch_db \<Rightarrow> bool" where
  "given_up j db \<longleftrightarrow> at_row j retry_exhausted db"

fun sub_ok :: "string \<Rightarrow> batch_thread \<Rightarrow> batch_db \<Rightarrow> bool" where
  "sub_ok b (Sub_lookup sb) db \<longleftrightarrow>
     bj_batch (sb_job sb) = b \<and> job_valid (sb_job sb) \<and> bd_jobs db b = None \<and> unclaimed (hold_id (sb_job sb)) (bd_money db)"
| "sub_ok b (Sub_create sb) db \<longleftrightarrow>
     bj_batch (sb_job sb) = b \<and> job_valid (sb_job sb) \<and> bd_jobs db b = None \<and> unclaimed (hold_id (sb_job sb)) (bd_money db)"
| "sub_ok b (Sub_requeue j) db \<longleftrightarrow> True"
| "sub_ok b (Sub_reserve j items) db \<longleftrightarrow>
     bj_batch j = b \<and> early_row j db \<and> \<not> claimed hold_request_id (hold_id j) (bd_money db)"
| "sub_ok b (Sub_items j items) db \<longleftrightarrow> bj_batch j = b \<and> early_row j db \<and> taken_here j db"
| "sub_ok b (Sub_upload j) db \<longleftrightarrow> bj_batch j = b \<and> early_row j db \<and> taken_here j db"
| "sub_ok b (Sub_provider j) db \<longleftrightarrow> bj_batch j = b \<and> early_row j db \<and> taken_here j db"
| "sub_ok b (Sub_record j p) db \<longleftrightarrow> bj_batch j = b \<and> early_row j db \<and> taken_here j db"
| "sub_ok b (Sub_release j code e) db \<longleftrightarrow> bj_batch j = b \<and> early_row j db"
| "sub_ok b (Sub_release_only j e) db \<longleftrightarrow> bj_batch j = b \<and> early_row j db"
| "sub_ok b (Sub_unreleased j) db \<longleftrightarrow> bj_batch j = b \<and> early_row j db"
| "sub_ok b (Sub_fail j code e) db \<longleftrightarrow> bj_batch j = b \<and> early_row j db"
| "sub_ok b (Sub_hide j e) db \<longleftrightarrow> bj_batch j = b"
| "sub_ok b (Sub_abort j e) db \<longleftrightarrow> True"
| "sub_ok b (Sub_enqueue j) db \<longleftrightarrow> True"
| "sub_ok b (Sub_final j) db \<longleftrightarrow> True"
| "sub_ok b (Sub_retry j) db \<longleftrightarrow> True"
| "sub_ok b (Th_done r) db \<longleftrightarrow> True"
| "sub_ok b _ db \<longleftrightarrow> False"

fun work_ok :: "batch_env \<Rightarrow> string \<Rightarrow> batch_thread \<Rightarrow> batch_db \<Rightarrow> bool" where
  "work_ok env b (Wk_start b') db \<longleftrightarrow> b' = b"
| "work_ok env b (Wk_read b') db \<longleftrightarrow> b' = b"
| "work_ok env b (Wk_release j) db \<longleftrightarrow> bj_batch j = b \<and> dead_row j db"
| "work_ok env b (Wk_status j) db \<longleftrightarrow> bj_batch j = b \<and> working_row j db"
| "work_ok env b (Wk_ref j st) db \<longleftrightarrow> bj_batch j = b \<and> working_row j db"
| "work_ok env b (Wk_running j) db \<longleftrightarrow> bj_batch j = b \<and> working_row j db"
| "work_ok env b (Wk_indexing j) db \<longleftrightarrow> bj_batch j = b \<and> working_row j db"
| "work_ok env b (Wk_expect j) db \<longleftrightarrow> bj_batch j = b \<and> working_row j db"
| "work_ok env b (Wk_index j ids) db \<longleftrightarrow> bj_batch j = b \<and> working_row j db"
| "work_ok env b (Wk_replace j st) db \<longleftrightarrow> bj_batch j = b \<and> working_row j db"
| "work_ok env b (Wk_settling j) db \<longleftrightarrow> bj_batch j = b \<and> working_row j db"
| "work_ok env b (Wk_fail j ev code) db \<longleftrightarrow> bj_batch j = b \<and> working_row j db"
| "work_ok env b (Wk_cancelled j) db \<longleftrightarrow> bj_batch j = b \<and> working_row j db"
| "work_ok env b (St_read b') db \<longleftrightarrow> b' = b"
| "work_ok env b (St_capture j cost) db \<longleftrightarrow> bj_batch j = b \<and> cost = due j \<and> may_capture env j db"
| "work_ok env b (St_mark j cost) db \<longleftrightarrow> bj_batch j = b \<and> has_captured env j db"
| "work_ok env b (St_failure j code e) db \<longleftrightarrow> bj_batch j = b \<and> not_captured j db \<and> prefix ''SETTLEMENT_'' (trim_space code)"
| "work_ok env b (St_release j) db \<longleftrightarrow> bj_batch j = b \<and> given_up j db"
| "work_ok env b (St_unreleased j) db \<longleftrightarrow> bj_batch j = b \<and> given_up j db"
| "work_ok env b (St_exhaust j) db \<longleftrightarrow> bj_batch j = b \<and> given_up j db"
| "work_ok env b (Th_done r) db \<longleftrightarrow> True"
| "work_ok env b _ db \<longleftrightarrow> False"

fun other_ok :: "batch_thread \<Rightarrow> batch_db \<Rightarrow> bool" where
  "other_ok (Can_read user key batch) db \<longleftrightarrow> True"
| "other_ok (Can_provider j) db \<longleftrightarrow> True"
| "other_ok (Can_enqueue j) db \<longleftrightarrow> True"
| "other_ok (Can_retry j) db \<longleftrightarrow> True"
| "other_ok (Can_move j) db \<longleftrightarrow> known_row j db"
| "other_ok (Can_release j) db \<longleftrightarrow> dead_row j db"
| "other_ok (Rec_list cutoff limit) db \<longleftrightarrow> True"
| "other_ok (Rec_jobs js cutoff) db \<longleftrightarrow> (\<forall>j \<in> set js. known_row j db)"
| "other_ok (Rec_release j js cutoff) db \<longleftrightarrow> dead_row j db \<and> (\<forall>j \<in> set js. known_row j db)"
| "other_ok (Rec_retry j js cutoff) db \<longleftrightarrow> (\<forall>j \<in> set js. known_row j db)"
| "other_ok (Th_done r) db \<longleftrightarrow> True"
| "other_ok _ db \<longleftrightarrow> False"

fun after_ok :: "cleanup_after \<Rightarrow> batch_db \<Rightarrow> bool" where
  "after_ok (After_run now t js r) db \<longleftrightarrow> (\<forall>j \<in> set js. ended_row j db)"
| "after_ok _ db \<longleftrightarrow> True"

fun cleanup_call_ok :: "cleanup_thread \<Rightarrow> batch_db \<Rightarrow> bool" where
  "cleanup_call_ok (Cl_jobs now t js r) db \<longleftrightarrow> (\<forall>j \<in> set js. ended_row j db)"
| "cleanup_call_ok (Cl_check t j aft) db \<longleftrightarrow> (terminal_status (bj_status j) \<longrightarrow> ended_row j db) \<and> after_ok aft db"
| "cleanup_call_ok (Cl_provider t j aft) db \<longleftrightarrow> ended_row j db \<and> after_ok aft db"
| "cleanup_call_ok (Cl_failure t j code aft) db \<longleftrightarrow> ended_row j db \<and> after_ok aft db"
| "cleanup_call_ok (Cl_mark t j aft) db \<longleftrightarrow> ended_row j db \<and> after_ok aft db"
| "cleanup_call_ok _ db \<longleftrightarrow> True"

definition batch_ok :: "batch_env \<Rightarrow> string \<Rightarrow> batch_thread option \<Rightarrow> batch_thread option \<Rightarrow> batch_db \<Rightarrow> bool" where
  "batch_ok env b sub work db \<longleftrightarrow>
     batch_row_ok env b sub db \<and> (\<forall>th. sub = Some th \<longrightarrow> sub_ok b th db) \<and> (\<forall>th. work = Some th \<longrightarrow> work_ok env b th db)"

section \<open>What calls rely on\<close>

text \<open>Rows keep their identity, a dead row stays dead and one that has ended stays ended.\<close>

definition rows_grow :: "batch_db \<Rightarrow> batch_db \<Rightarrow> bool" where
  "rows_grow db db' \<longleftrightarrow>
     (\<forall>b r. bd_jobs db b = Some r \<longrightarrow>
        (\<exists>r'. bd_jobs db' b = Some r' \<and> ident r' = ident r \<and> (dead (bj_status r) \<longrightarrow> dead (bj_status r'))
           \<and> (terminal_status (bj_status r) \<longrightarrow> terminal_status (bj_status r'))))"

text \<open>Nothing of another batch is touched.\<close>

definition same_batch :: "string \<Rightarrow> batch_db \<Rightarrow> batch_db \<Rightarrow> bool" where
  "same_batch b db db' \<longleftrightarrow>
     bd_jobs db' b = bd_jobs db b \<and> hd_archive (bd_money db') = hd_archive (bd_money db)
     \<and> (\<forall>k. times_taken (b, k) (bd_money db') = times_taken (b, k) (bd_money db)
           \<and> times_paid (b, k) (bd_money db') = times_paid (b, k) (bd_money db)
           \<and> times_returned (b, k) (bd_money db') = times_returned (b, k) (bd_money db))
     \<and> (batch_id_ok b \<longrightarrow>
          (\<forall>k. hd_claims (bd_money db') (hold_request_id b, k) = hd_claims (bd_money db) (hold_request_id b, k)
             \<and> hd_claims (bd_money db') (capture_request_id b, k) = hd_claims (bd_money db) (capture_request_id b, k)
             \<and> hd_claims (bd_money db') (release_request_id b, k) = hd_claims (bd_money db) (release_request_id b, k)))"

definition only_batch :: "string \<Rightarrow> batch_db \<Rightarrow> batch_db \<Rightarrow> bool" where
  "only_batch b db db' \<longleftrightarrow> (\<forall>b'. b' \<noteq> b \<longrightarrow> same_batch b' db db')"

text \<open>What a submission relies on: its row stays early, its hold stays taken, nobody else takes it.\<close>

definition sub_rely :: "string \<Rightarrow> batch_db \<Rightarrow> batch_db \<Rightarrow> bool" where
  "sub_rely b db db' \<longleftrightarrow>
     (bd_jobs db b = None \<longrightarrow> same_batch b db db')
     \<and> (\<forall>r. bd_jobs db b = Some r \<longrightarrow>
          (\<exists>r'. bd_jobs db' b = Some r' \<and> ident r' = ident r \<and> (early_stage (bj_status r) \<longrightarrow> early_stage (bj_status r'))
             \<and> times_taken (hold_id r) (bd_money db') = times_taken (hold_id r) (bd_money db)
             \<and> claimed hold_request_id (hold_id r) (bd_money db') = claimed hold_request_id (hold_id r) (bd_money db)))"

text \<open>What a worker relies on: a row it works on may only die, a settling row is left alone.\<close>

definition work_rely :: "string \<Rightarrow> batch_db \<Rightarrow> batch_db \<Rightarrow> bool" where
  "work_rely b db db' \<longleftrightarrow>
     (\<forall>r. bd_jobs db b = Some r \<longrightarrow>
        (\<exists>r'. bd_jobs db' b = Some r' \<and> ident r' = ident r
           \<and> (working (bj_status r) \<longrightarrow> working (bj_status r')) \<and> (dead (bj_status r) \<longrightarrow> dead (bj_status r'))
           \<and> (bj_status r = Bs_settling \<longrightarrow>
                bj_status r' = Bs_settling \<and> settle_view r' = settle_view r \<and> retry_exhausted r' = retry_exhausted r
                \<and> times_returned (hold_id r) (bd_money db') = times_returned (hold_id r) (bd_money db))
           \<and> times_paid (hold_id r) (bd_money db') = times_paid (hold_id r) (bd_money db)))"

section \<open>Each relies only on that\<close>

lemma at_row_batch: "at_row j P db \<Longrightarrow> \<exists>r. bd_jobs db (bj_batch j) = Some r \<and> hold_id r = hold_id j \<and> P r"
  by (metis at_row_def ident_hold_id)

lemma at_row_step:
  assumes "at_row j P db" "\<And>r. bd_jobs db (bj_batch j) = Some r \<Longrightarrow> P r
      \<Longrightarrow> \<exists>r'. bd_jobs db' (bj_batch j) = Some r' \<and> ident r' = ident r \<and> Q r'"
  shows "at_row j Q db'"
  using assms unfolding at_row_def by metis

lemma rows_grow_known:
  assumes "rows_grow db db'"
  shows "known_row j db \<Longrightarrow> known_row j db'" "dead_row j db \<Longrightarrow> dead_row j db'" "ended_row j db \<Longrightarrow> ended_row j db'"
  unfolding row_defs using assms
  by (auto simp: rows_grow_def elim!: at_row_step)

lemma other_ok_stable: "other_ok th db \<Longrightarrow> rows_grow db db' \<Longrightarrow> other_ok th db'"
  by (cases th) (auto intro: rows_grow_known)

lemma after_ok_stable: "after_ok aft db \<Longrightarrow> rows_grow db db' \<Longrightarrow> after_ok aft db'"
  by (cases aft) (auto intro: rows_grow_known)

lemma cleanup_ok_stable: "cleanup_call_ok th db \<Longrightarrow> rows_grow db db' \<Longrightarrow> cleanup_call_ok th db'"
  by (cases th) (auto intro: rows_grow_known after_ok_stable)

lemma sub_rely_row:
  assumes "sub_rely b db db'" "bj_batch j = b" "early_row j db"
  shows "early_row j db'" "taken_here j db' = taken_here j db"
    "claimed hold_request_id (hold_id j) (bd_money db') = claimed hold_request_id (hold_id j) (bd_money db)"
proof -
  from assms(2,3) obtain r where r: "bd_jobs db b = Some r" "ident r = ident j" "early_stage (bj_status r)"
    by (auto simp: early_row_def at_row_def)
  with assms(1) obtain r' where r': "bd_jobs db' b = Some r'" "ident r' = ident r" "early_stage (bj_status r')"
    "times_taken (hold_id r) (bd_money db') = times_taken (hold_id r) (bd_money db)"
    "claimed hold_request_id (hold_id r) (bd_money db') = claimed hold_request_id (hold_id r) (bd_money db)"
    unfolding sub_rely_def by blast
  have "hold_id r = hold_id j" using r(2) by (rule ident_hold_id)
  with r r' assms(2) show "early_row j db'" "taken_here j db' = taken_here j db"
    "claimed hold_request_id (hold_id j) (bd_money db') = claimed hold_request_id (hold_id j) (bd_money db)"
    by (auto simp: early_row_def at_row_def taken_here_def)
qed

lemma same_batch_claimed:
  assumes "same_batch (bj_batch j) db db'" "batch_id_ok (bj_batch j)"
  shows "claimed hold_request_id (hold_id j) (bd_money db') = claimed hold_request_id (hold_id j) (bd_money db)"
    "claimed capture_request_id (hold_id j) (bd_money db') = claimed capture_request_id (hold_id j) (bd_money db)"
    "claimed release_request_id (hold_id j) (bd_money db') = claimed release_request_id (hold_id j) (bd_money db)"
  using assms by (auto simp: same_batch_def claimed_def hold_id_def)

lemma same_batch_times:
  assumes "same_batch (bj_batch j) db db'"
  shows "times_taken (hold_id j) (bd_money db') = times_taken (hold_id j) (bd_money db)"
    "times_paid (hold_id j) (bd_money db') = times_paid (hold_id j) (bd_money db)"
    "times_returned (hold_id j) (bd_money db') = times_returned (hold_id j) (bd_money db)"
    "unarchived (hold_id j) (bd_money db') = unarchived (hold_id j) (bd_money db)"
  using assms by (auto simp: same_batch_def hold_id_def unarchived_def)

lemma same_batch_unclaimed:
  assumes "same_batch (bj_batch j) db db'" "job_valid j"
  shows "unclaimed (hold_id j) (bd_money db') = unclaimed (hold_id j) (bd_money db)"
  using same_batch_claimed [OF assms(1)] same_batch_times(4) [OF assms(1)] assms(2)
  by (simp add: unclaimed_def job_valid_def)

lemma sub_ok_stable:
  assumes "sub_ok b th db" "sub_rely b db db'"
  shows "sub_ok b th db'"
proof -
  have start: "bd_jobs db' b = None \<and> unclaimed (hold_id (sb_job sb)) (bd_money db')"
    if "bd_jobs db b = None" "bj_batch (sb_job sb) = b" "job_valid (sb_job sb)" "unclaimed (hold_id (sb_job sb)) (bd_money db)" for sb
  proof -
    have "same_batch b db db'" using assms(2) that(1) by (simp add: sub_rely_def)
    with same_batch_unclaimed [of "sb_job sb" db db'] that show ?thesis by (simp add: same_batch_def)
  qed
  show ?thesis
  proof (cases th)
    case (Sub_lookup sb)
    then show ?thesis using assms(1) start [of sb] by simp
  next
    case (Sub_create sb)
    then show ?thesis using assms(1) start [of sb] by simp
  qed (use assms(1) sub_rely_row [OF assms(2)] in auto)
qed

lemma work_rely_row:
  assumes "work_rely b db db'" "bj_batch j = b"
  shows "working_row j db \<Longrightarrow> working_row j db'" "dead_row j db \<Longrightarrow> dead_row j db'"
    "may_capture env j db \<Longrightarrow> may_capture env j db'" "has_captured env j db \<Longrightarrow> has_captured env j db'"
    "not_captured j db \<Longrightarrow> not_captured j db'" "given_up j db \<Longrightarrow> given_up j db'"
proof -
  have rely: "\<exists>r'. bd_jobs db' (bj_batch j) = Some r' \<and> ident r' = ident r
      \<and> (working (bj_status r) \<longrightarrow> working (bj_status r')) \<and> (dead (bj_status r) \<longrightarrow> dead (bj_status r'))
      \<and> (bj_status r = Bs_settling \<longrightarrow>
           bj_status r' = Bs_settling \<and> settle_view r' = settle_view r \<and> retry_exhausted r' = retry_exhausted r
           \<and> times_returned (hold_id r) (bd_money db') = times_returned (hold_id r) (bd_money db))
      \<and> times_paid (hold_id r) (bd_money db') = times_paid (hold_id r) (bd_money db)"
    if "bd_jobs db (bj_batch j) = Some r" for r
    using assms that by (auto simp: work_rely_def)
  have paid: "times_paid (hold_id j) (bd_money db') = times_paid (hold_id j) (bd_money db)" if "at_row j P db" for P
    using at_row_batch [OF that] rely by metis
  have returned: "times_returned (hold_id j) (bd_money db') = times_returned (hold_id j) (bd_money db)"
    if "at_row j (\<lambda>r. bj_status r = Bs_settling) db"
    using at_row_batch [OF that] rely by metis
  show "working_row j db \<Longrightarrow> working_row j db'"
    unfolding working_row_def by (erule at_row_step) (use rely in blast)
  show "dead_row j db \<Longrightarrow> dead_row j db'"
    unfolding dead_row_def by (erule at_row_step) (use rely in blast)
  have captures: "may_capture env j db'" if "may_capture env j db" for env
    using that unfolding may_capture_def
  proof (rule at_row_step)
    fix r assume r: "bd_jobs db (bj_batch j) = Some r"
      "bj_status r = Bs_settling \<and> settle_view r = settle_view j \<and> \<not> retry_exhausted r \<and> settle_passes env r"
    with rely obtain r' where "bd_jobs db' (bj_batch j) = Some r'" "ident r' = ident r" "bj_status r' = Bs_settling"
      "settle_view r' = settle_view r" "retry_exhausted r' = retry_exhausted r" by blast
    with r settle_view_same(5) [of r' r env] show "\<exists>r'. bd_jobs db' (bj_batch j) = Some r' \<and> ident r' = ident r
      \<and> bj_status r' = Bs_settling \<and> settle_view r' = settle_view j \<and> \<not> retry_exhausted r' \<and> settle_passes env r'" by auto
  qed
  then show "may_capture env j db \<Longrightarrow> may_capture env j db'" .
  show "has_captured env j db \<Longrightarrow> has_captured env j db'"
    using captures paid unfolding has_captured_def by (auto simp: may_capture_def)
  have settling: "at_row j (\<lambda>r. bj_status r = Bs_settling) db'" if "at_row j (\<lambda>r. bj_status r = Bs_settling) db"
    using that by (rule at_row_step) (use rely in blast)
  then show "not_captured j db \<Longrightarrow> not_captured j db'"
    using paid returned unfolding not_captured_def by auto
  show "given_up j db \<Longrightarrow> given_up j db'"
    unfolding given_up_def by (erule at_row_step) (use rely exhausted_settling in blast)
qed

lemma work_ok_stable:
  assumes "work_ok env b th db" "work_rely b db db'"
  shows "work_ok env b th db'"
  using assms(1) work_rely_row [OF assms(2)] by (cases th) auto

section \<open>Kinds of statements\<close>

text \<open>A statement leaves rows and money alone, changes one row, or moves the money of one hold.\<close>

definition untouched :: "batch_db \<Rightarrow> batch_db \<Rightarrow> bool" where
  "untouched db db' \<longleftrightarrow> bd_jobs db' = bd_jobs db \<and> bd_money db' = bd_money db"

definition row_change :: "string \<Rightarrow> batch_job \<Rightarrow> batch_job \<Rightarrow> batch_db \<Rightarrow> batch_db \<Rightarrow> bool" where
  "row_change b r r' db db' \<longleftrightarrow>
     bd_jobs db b = Some r \<and> bd_jobs db' = (bd_jobs db)(b \<mapsto> r') \<and> bd_money db' = bd_money db \<and> ident r' = ident r"

definition money_step ::
  "(string \<Rightarrow> string) \<Rightarrow> (hold_move \<Rightarrow> bool) \<Rightarrow> batch_job \<Rightarrow> batch_db \<Rightarrow> batch_db \<Rightarrow> bool" where
  "money_step rid P j db db' \<longleftrightarrow>
     bd_jobs db' = bd_jobs db \<and> money_effect rid P (hold_id j) (bd_money db) (bd_money db')"

lemma untouched_refl [simp]: "untouched db db"
  by (simp add: untouched_def)

lemma move_kinds:
  "is_release v \<Longrightarrow> \<not> is_reserve v" "is_release v \<Longrightarrow> \<not> is_capture v" "is_capture v \<Longrightarrow> \<not> is_reserve v"
  "is_capture v \<Longrightarrow> \<not> is_release v" "is_reserve v \<Longrightarrow> \<not> is_capture v" "is_reserve v \<Longrightarrow> \<not> is_release v"
  by (cases v; simp)+

lemma money_step_claims:
  assumes "money_step rid P j db db'"
  shows "hd_archive (bd_money db') = hd_archive (bd_money db)"
    and "y \<noteq> (rid (bj_batch j), the (bj_key j)) \<Longrightarrow> hd_claims (bd_money db') y = hd_claims (bd_money db) y"
    and "claimed rid' x (bd_money db) \<Longrightarrow> claimed rid' x (bd_money db')"
proof -
  from assms show "hd_archive (bd_money db') = hd_archive (bd_money db)"
    "y \<noteq> (rid (bj_batch j), the (bj_key j)) \<Longrightarrow> hd_claims (bd_money db') y = hd_claims (bd_money db) y"
    by (cases y; auto simp: money_step_def money_effect_def hold_id_def)+
  show "claimed rid' x (bd_money db) \<Longrightarrow> claimed rid' x (bd_money db')"
    using assms
    by (cases "(rid' (fst x), snd x) = (rid (bj_batch j), the (bj_key j))")
      (auto simp: money_step_def money_effect_def hold_id_def claimed_def)
qed

lemma money_step_times:
  assumes "money_step rid P j db db'"
  shows "x \<noteq> hold_id j \<or> (\<forall>v. P v \<longrightarrow> \<not> is_reserve v) \<Longrightarrow> times_taken x (bd_money db') = times_taken x (bd_money db)"
    and "x \<noteq> hold_id j \<or> (\<forall>v. P v \<longrightarrow> \<not> is_capture v) \<Longrightarrow> times_paid x (bd_money db') = times_paid x (bd_money db)"
    and "x \<noteq> hold_id j \<or> (\<forall>v. P v \<longrightarrow> \<not> is_release v) \<Longrightarrow> times_returned x (bd_money db') = times_returned x (bd_money db)"
    and "times_taken x (bd_money db) \<le> times_taken x (bd_money db')"
  using assms by (auto simp: money_step_def money_effect_def times_defs)

section \<open>Claims make moves happen once\<close>

definition claim_kind :: "(string \<Rightarrow> string) \<Rightarrow> (hold_move \<Rightarrow> bool) \<Rightarrow> bool" where
  "claim_kind rid P \<longleftrightarrow> rid = hold_request_id \<and> P = is_reserve \<or> rid = capture_request_id \<and> P = is_capture
     \<or> rid = release_request_id \<and> P = is_release"

lemma times_Cons:
  assumes "hd_moves m' = v # hd_moves m"
  shows "times_taken y m' = (if is_reserve v \<and> move_id v = y then Suc (times_taken y m) else times_taken y m)"
    "times_paid y m' = (if is_capture v \<and> move_id v = y then Suc (times_paid y m) else times_paid y m)"
    "times_returned y m' = (if is_release v \<and> move_id v = y then Suc (times_returned y m) else times_returned y m)"
  using assms by (simp_all add: times_defs)

lemma claims_ok_effect:
  assumes "claims_ok m" "money_effect rid P x m m'" "claim_kind rid P"
  shows "claims_ok m'"
  using assms(2) unfolding money_effect_def
proof (elim disjE)
  assume "m' = m"
  with assms(1) show ?thesis by simp
next
  assume step: "\<not> claimed rid x m \<and> claimed rid x m' \<and> hd_archive m' = hd_archive m
        \<and> (\<forall>y. y \<noteq> (rid (fst x), snd x) \<longrightarrow> hd_claims m' y = hd_claims m y)
        \<and> (hd_moves m' = hd_moves m \<or> (\<exists>v. hd_moves m' = v # hd_moves m \<and> P v \<and> move_id v = x))"
  then have mono: "claimed rid' y m'" if "claimed rid' y m" for rid' y
    using that by (metis claimed_def fst_conv snd_conv)
  have before: "times_taken y m \<le> of_bool (claimed hold_request_id y m)"
    "times_paid y m \<le> of_bool (claimed capture_request_id y m)"
    "times_returned y m \<le> of_bool (claimed release_request_id y m)" for y
    using assms(1) unfolding claims_ok_def by blast+
  have same: "times_taken y m \<le> of_bool (claimed hold_request_id y m')"
    "times_paid y m \<le> of_bool (claimed capture_request_id y m')"
    "times_returned y m \<le> of_bool (claimed release_request_id y m')" for y
    using before [of y] mono [of hold_request_id y] mono [of capture_request_id y] mono [of release_request_id y]
    by (auto simp: of_bool_def split: if_splits)
  have "times_taken y m' \<le> of_bool (claimed hold_request_id y m') \<and> times_paid y m' \<le> of_bool (claimed capture_request_id y m')
      \<and> times_returned y m' \<le> of_bool (claimed release_request_id y m')" for y
  proof (cases "hd_moves m' = hd_moves m")
    case True
    then show ?thesis using same [of y] by (simp add: times_defs)
  next
    case False
    with step obtain v where v: "hd_moves m' = v # hd_moves m" "P v" "move_id v = x" by blast
    note counts = times_Cons [OF v(1), of y]
    show ?thesis
    proof (cases "y = x")
      case False
      with v(3) same [of y] show ?thesis by (simp add: counts)
    next
      case True
      have new: "\<not> claimed rid y m" "claimed rid y m'" using step True by simp_all
      from assms(3) consider "rid = hold_request_id" "is_reserve v" | "rid = capture_request_id" "is_capture v"
        | "rid = release_request_id" "is_release v"
        using v(2) unfolding claim_kind_def by blast
      then show ?thesis
      proof cases
        case 1
        with new same(2,3) [of y] before(1) [of y] v(3) True move_kinds(5,6) [OF 1(2)] show ?thesis by (simp add: counts [unfolded True])
      next
        case 2
        with new same(1,3) [of y] before(2) [of y] v(3) True move_kinds(3,4) [OF 2(2)] show ?thesis by (simp add: counts [unfolded True])
      next
        case 3
        with new same(1,2) [of y] before(3) [of y] v(3) True move_kinds(1,2) [OF 3(2)] show ?thesis by (simp add: counts [unfolded True])
      qed
    qed
  qed
  then show ?thesis by (simp add: claims_ok_def)
qed

section \<open>What kinds of statements guarantee\<close>

lemma same_batch_untouched: "untouched db db' \<Longrightarrow> same_batch b db db'"
  by (simp add: untouched_def same_batch_def)

lemma only_batch_untouched: "untouched db db' \<Longrightarrow> only_batch b db db'"
  by (simp add: only_batch_def same_batch_untouched)

lemma only_batch_row: "row_change b r r' db db' \<Longrightarrow> only_batch b db db'"
  by (simp add: only_batch_def same_batch_def row_change_def)

lemma only_batch_money:
  assumes "money_step rid P j db db'" "job_valid j" "claim_kind rid P"
  shows "only_batch (bj_batch j) db db'"
  unfolding only_batch_def
proof (intro allI impI)
  fix b assume b: "b \<noteq> bj_batch j"
  have "times_taken (b, k) (bd_money db') = times_taken (b, k) (bd_money db)"
    "times_paid (b, k) (bd_money db') = times_paid (b, k) (bd_money db)"
    "times_returned (b, k) (bd_money db') = times_returned (b, k) (bd_money db)" for k
    using money_step_times [OF assms(1), of "(b, k)"] b by (simp_all add: hold_id_def)
  moreover have "hd_claims (bd_money db') (hold_request_id b, k) = hd_claims (bd_money db) (hold_request_id b, k)"
    "hd_claims (bd_money db') (capture_request_id b, k) = hd_claims (bd_money db) (capture_request_id b, k)"
    "hd_claims (bd_money db') (release_request_id b, k) = hd_claims (bd_money db) (release_request_id b, k)"
    if "batch_id_ok b" for k
  proof -
    have "batch_id_ok (bj_batch j)" using assms(2) by (simp add: job_valid_def)
    note inj = request_id_inj [OF that this]
    show "hd_claims (bd_money db') (hold_request_id b, k) = hd_claims (bd_money db) (hold_request_id b, k)"
      "hd_claims (bd_money db') (capture_request_id b, k) = hd_claims (bd_money db) (capture_request_id b, k)"
      "hd_claims (bd_money db') (release_request_id b, k) = hd_claims (bd_money db) (release_request_id b, k)"
      using money_step_claims(2) [OF assms(1)] b assms(3) inj request_ids_differ by (auto simp: claim_kind_def)
  qed
  ultimately show "same_batch b db db'"
    using assms(1) money_step_claims(1) [OF assms(1)] by (simp add: same_batch_def money_step_def)
qed

lemma rows_grow_kinds:
  "untouched db db' \<Longrightarrow> rows_grow db db'"
  "money_step rid P j db db' \<Longrightarrow> rows_grow db db'"
  "row_change b r r' db db' \<Longrightarrow> (dead (bj_status r) \<Longrightarrow> dead (bj_status r'))
     \<Longrightarrow> (terminal_status (bj_status r) \<Longrightarrow> terminal_status (bj_status r')) \<Longrightarrow> rows_grow db db'"
  by (auto simp: rows_grow_def untouched_def money_step_def row_change_def)

lemma sub_rely_kinds:
  "untouched db db' \<Longrightarrow> sub_rely b db db'"
  "row_change b r r' db db' \<Longrightarrow> (early_stage (bj_status r) \<Longrightarrow> early_stage (bj_status r')) \<Longrightarrow> sub_rely b db db'"
  by (auto simp: sub_rely_def untouched_def row_change_def same_batch_def)

lemma sub_rely_money:
  assumes "money_step rid P j db db'" "known_row j db" "rid = capture_request_id \<or> rid = release_request_id"
    and "\<And>v. P v \<Longrightarrow> \<not> is_reserve v"
  shows "sub_rely (bj_batch j) db db'"
proof -
  obtain r where r: "bd_jobs db (bj_batch j) = Some r" "hold_id r = hold_id j"
    using at_row_batch [OF assms(2) [unfolded known_row_def]] by blast
  have "(hold_request_id (fst (hold_id r)), snd (hold_id r)) \<noteq> (rid (bj_batch j), the (bj_key j))"
    using assms(3) by (auto simp: request_ids_differ)
  from money_step_claims(2) [OF assms(1) this]
  have "claimed hold_request_id (hold_id r) (bd_money db') = claimed hold_request_id (hold_id r) (bd_money db)"
    by (simp add: claimed_def)
  with r assms(1,4) money_step_times(1) [OF assms(1)] show ?thesis
    by (auto simp: sub_rely_def money_step_def)
qed

lemma work_rely_kinds:
  "untouched db db' \<Longrightarrow> work_rely b db db'"
  "row_change b r r' db db' \<Longrightarrow> (working (bj_status r) \<Longrightarrow> working (bj_status r'))
     \<Longrightarrow> (dead (bj_status r) \<Longrightarrow> dead (bj_status r'))
     \<Longrightarrow> (bj_status r = Bs_settling \<Longrightarrow> bj_status r' = Bs_settling \<and> settle_view r' = settle_view r \<and> retry_exhausted r' = retry_exhausted r)
     \<Longrightarrow> work_rely b db db'"
  by (auto simp: work_rely_def untouched_def row_change_def)

lemma work_rely_money:
  assumes "money_step rid P j db db'" "at_row j (\<lambda>r. bj_status r \<noteq> Bs_settling) db" "\<And>v. P v \<Longrightarrow> \<not> is_capture v"
  shows "work_rely (bj_batch j) db db'"
  using at_row_batch [OF assms(2)] assms(1,3) money_step_times(2) [OF assms(1)]
  by (auto simp: work_rely_def money_step_def)

lemma same_batch_rely: "same_batch b db db' \<Longrightarrow> batch_row_ok env b sub db \<Longrightarrow> sub_rely b db db' \<and> work_rely b db db'"
  using same_batch_times [of _ db db'] same_batch_claimed [of _ db db']
  by (auto simp: sub_rely_def work_rely_def batch_row_ok_def row_fine_def job_valid_def same_batch_def)

lemma row_ok_same:
  assumes "batch_row_ok env b sub db" "same_batch b db db'"
  shows "batch_row_ok env b sub db'"
  unfolding batch_row_ok_def
proof (intro allI impI)
  fix j assume "bd_jobs db' b = Some j"
  with assms(2) have j: "bd_jobs db b = Some j" by (simp add: same_batch_def)
  with assms(1) have ok: "bj_batch j = b" "row_fine env sub (bd_money db) j" by (auto simp: batch_row_ok_def)
  then have same: "same_batch (bj_batch j) db db'" "batch_id_ok (bj_batch j)"
    using assms(2) by (simp_all add: row_fine_def job_valid_def)
  note eqs = same_batch_claimed [OF same] same_batch_times [OF same(1)]
  have "hd_claims (bd_money db') (capture_request_id (bj_batch j), k) = hd_claims (bd_money db) (capture_request_id (bj_batch j), k)" for k
    using same by (simp add: same_batch_def)
  with ok show "bj_batch j = b \<and> row_fine env sub (bd_money db') j"
    by (simp add: row_fine_defs eqs)
qed

text \<open>The effects on the rest of the world that are the same for all calls.\<close>

definition keeps_batch :: "string \<Rightarrow> batch_db \<Rightarrow> batch_db \<Rightarrow> bool" where
  "keeps_batch b db db' \<longleftrightarrow> rows_grow db db' \<and> only_batch b db db' \<and> (claims_ok (bd_money db) \<longrightarrow> claims_ok (bd_money db'))"

lemma keeps_kinds:
  "untouched db db' \<Longrightarrow> keeps_batch b db db'"
  "money_step rid P j db db' \<Longrightarrow> job_valid j \<Longrightarrow> claim_kind rid P \<Longrightarrow> keeps_batch (bj_batch j) db db'"
  "row_change b r r' db db' \<Longrightarrow> (dead (bj_status r) \<Longrightarrow> dead (bj_status r'))
     \<Longrightarrow> (terminal_status (bj_status r) \<Longrightarrow> terminal_status (bj_status r')) \<Longrightarrow> keeps_batch b db db'"
proof -
  show "untouched db db' \<Longrightarrow> keeps_batch b db db'"
    by (auto simp: keeps_batch_def rows_grow_kinds only_batch_untouched untouched_def)
  show "money_step rid P j db db' \<Longrightarrow> job_valid j \<Longrightarrow> claim_kind rid P \<Longrightarrow> keeps_batch (bj_batch j) db db'"
    by (auto simp: keeps_batch_def rows_grow_kinds only_batch_money money_step_def intro: claims_ok_effect)
  show "row_change b r r' db db' \<Longrightarrow> (dead (bj_status r) \<Longrightarrow> dead (bj_status r'))
     \<Longrightarrow> (terminal_status (bj_status r) \<Longrightarrow> terminal_status (bj_status r')) \<Longrightarrow> keeps_batch b db db'"
    by (auto simp: keeps_batch_def rows_grow_kinds only_batch_row row_change_def)
qed

section \<open>Changes of a row that keep it fine\<close>

definition like :: "batch_job \<Rightarrow> batch_job \<Rightarrow> bool" where
  "like r r' \<longleftrightarrow> ident r' = ident r \<and> bj_price_version r' = bj_price_version r"

lemma likeD:
  assumes "like r r'"
  shows "hold_id r' = hold_id r" "job_valid r' = job_valid r" "bj_price_version r' = bj_price_version r"
  using assms ident_hold_id [of r' r] ident_valid [of r' r] by (auto simp: like_def)

lemma fine_minor:
  assumes "row_fine env sub m r" "bj_status r' = bj_status r" "settle_view r' = settle_view r"
    "retry_exhausted r' = retry_exhausted r"
  shows "row_fine env sub m r'"
proof -
  note same = settle_view_same [OF assms(3)]
  have "bj_provider_job r' = bj_provider_job r" "bj_key r' = bj_key r" using assms(3) by (simp_all add: settle_view_def)
  with assms same ident_hold_id [OF same(1)] ident_valid [OF same(1)] show ?thesis
    by (simp add: row_fine_defs)
qed

lemma fine_young:
  assumes fine: "row_fine env sub m r" and like: "like r r'"
    and young: "young (bj_status r)" "young (bj_status r')" "bj_provider_job r' = bj_provider_job r"
  shows "row_fine env sub m r'"
proof -
  note eqs = likeD [OF like]
  have zero: "times_paid (hold_id r) m = 0" using row_fine_money(1) [OF fine] young(1) by (simp add: early_stage_def)
  have stage: "\<not> retry_exhausted r" "early_stage (bj_status r)" "early_stage (bj_status r')" "\<not> finished (bj_status r)"
    "\<not> finished (bj_status r')" "\<not> dead (bj_status r)"
    using young exhausted_settling [of r] by (auto simp: stage_defs)
  have "taken_ok r' m" "charged_ok r' m" "returned_ok r' sub m" "paid_ok env r' m"
    using fine young stage zero by (simp_all add: row_fine_def taken_ok_def charged_ok_def returned_ok_def paid_ok_def eqs)
  with fine young show ?thesis by (simp add: row_fine_def eqs)
qed

lemma fine_dead:
  assumes fine: "row_fine env sub m r" and like: "like r r'" and zero: "times_paid (hold_id r) m = 0"
    and stage: "dead (bj_status r')"
  shows "row_fine env sub' m r'"
proof -
  note eqs = likeD [OF like]
  have st: "early_stage (bj_status r')" "\<not> young (bj_status r')" "\<not> finished (bj_status r')" using stage by (auto simp: stage_defs)
  have "taken_ok r' m" "charged_ok r' m" "returned_ok r' sub' m" "paid_ok env r' m"
    using fine stage st zero by (auto simp: row_fine_def taken_ok_def charged_ok_def returned_ok_def paid_ok_def eqs)
  with fine st show ?thesis by (simp add: row_fine_def eqs)
qed

lemma fine_unpaid:
  assumes "row_fine env sub m r" "like r r'" "times_paid (hold_id r) m = 0" "times_returned (hold_id r) m = 0"
    "0 < times_taken (hold_id r) m" "\<not> young (bj_status r')" "\<not> finished (bj_status r')"
  shows "row_fine env sub' m r'"
  using assms likeD [OF assms(2)]
  by (auto simp: row_fine_defs)

lemma fine_finished:
  assumes "row_fine env sub m r" "like r r'" "finished (bj_status r')" "0 < times_paid (hold_id r) m"
    "times_returned (hold_id r) m = 0" "0 < times_taken (hold_id r) m"
  shows "row_fine env sub' m r'"
  using assms likeD [OF assms(2)]
  by (auto simp: row_fine_defs stage_defs)

lemma fine_exhausted:
  assumes "row_fine env sub m r" "like r r'" "retry_exhausted r" "retry_exhausted r'"
  shows "row_fine env sub' m r'"
  using assms likeD [OF assms(2)] row_fine_money(4,8) [OF assms(1)] exhausted_settling [OF assms(3)] exhausted_settling [OF assms(4)]
  by (auto simp: row_fine_defs stage_defs)

lemma row_ok_change:
  assumes "row_change b r r' db db'" "batch_row_ok env b sub db" "row_fine env sub' (bd_money db) r'"
  shows "batch_row_ok env b sub' db'"
  using assms by (auto simp: batch_row_ok_def row_change_def ident_def)

lemma row_ok_untouched: "untouched db db' \<Longrightarrow> batch_row_ok env b sub db \<Longrightarrow> batch_row_ok env b sub db'"
  by (simp add: untouched_def batch_row_ok_def)

text \<open>The row a call works on.\<close>

lemma row_ok_at:
  assumes "batch_row_ok env b sub db" "row_change b r r' db db'"
  shows "row_fine env sub (bd_money db) r" "bj_batch r = b"
  using assms by (auto simp: batch_row_ok_def row_change_def)

lemma at_row_valid:
  assumes "batch_row_ok env (bj_batch j) sub db" "at_row j P db"
  obtains r where "bd_jobs db (bj_batch j) = Some r" "row_fine env sub (bd_money db) r" "hold_id r = hold_id j" "job_valid j" "P r"
    "ident r = ident j"
proof -
  from assms(2) obtain r where r: "bd_jobs db (bj_batch j) = Some r" "ident r = ident j" "P r" by (auto simp: at_row_def)
  with assms(1) have "row_fine env sub (bd_money db) r" by (auto simp: batch_row_ok_def)
  moreover from this have "job_valid j" using ident_valid [OF r(2)] by (simp add: row_fine_def)
  ultimately show ?thesis using that r ident_hold_id [OF r(2)] by blast
qed

section \<open>Statements on jobs over the network\<close>

lemma store_effect:
  assumes "store_call n db res = (x, db')"
  shows "(x, db') = res \<or> x = Inl B_store \<and> (db' = snd res \<or> db' = db)"
  using assms by (auto simp: store_call_def split: net.splits)

lemma row_change_jobs:
  "bd_jobs db b = Some r \<Longrightarrow> ident (f r) = ident r \<Longrightarrow> row_change b r (f r) db (update_job b f db)"
  by (simp add: row_change_def update_job_jobs)

lemma row_change_event:
  "row_change b r r' db db' \<Longrightarrow> row_change b r r' db (append_event b2 ev db')"
  by (simp add: row_change_def)

lemma untouched_event [simp]: "untouched db (append_event b ev db)"
  by (simp add: untouched_def)

text \<open>A statement with answer \<open>x\<close> changed nothing and failed, or changed one row as \<open>C\<close> says.\<close>

definition row_effect ::
  "string \<Rightarrow> (batch_job \<Rightarrow> batch_job \<Rightarrow> bool) \<Rightarrow> batch_db \<Rightarrow> (batch_error + 'a) \<times> batch_db \<Rightarrow> bool" where
  "row_effect b C db res \<longleftrightarrow>
     untouched db (snd res) \<and> isl (fst res) \<or> (\<exists>r r'. row_change b r r' db (snd res) \<and> C r r')"

lemma row_effect_call:
  assumes "row_effect b C db res" "store_call n db res = (x, db')"
  obtains (nothing) e where "untouched db db'" "x = Inl e" | (row) r r' where "row_change b r r' db db'" "C r r'"
  using assms(1) store_effect [OF assms(2)] unfolding row_effect_def
  by (metis fst_conv isl_def snd_conv untouched_refl)

lemma row_effect_simps [simp]:
  "row_effect b C db (Inl e, db)"
  "row_effect b C db (y, append_event b2 ev db1) = row_effect b C db (y, db1)"
  by (auto simp: row_effect_def row_change_def untouched_def)

lemma row_effect_update:
  assumes "bd_jobs db b = Some r" "ident (f r) = ident r" "C r (f r)"
  shows "row_effect b C db (y, update_job b f db)"
proof -
  have "row_change b r (f r) db (update_job b f db)" using assms(1,2) by (rule row_change_jobs)
  with assms(3) show ?thesis by (auto simp: row_effect_def)
qed

lemma transition_effect:
  "row_effect b (\<lambda>r r'. can_transition (bj_status r) t \<and> r' = move_job t opts now r) db (transition_job b t opts now db)"
  by (cases "bd_jobs db b") (auto simp: transition_job_def Let_def intro!: row_effect_update)

lemma touch_effect:
  "untouched db (snd (touch_submitting b now db)) \<or> (\<exists>r. row_change b r (r\<lparr>bj_updated := now\<rparr>) db (snd (touch_submitting b now db)))"
  by (cases "bd_jobs db b")
    (auto simp: touch_submitting_def update_job_def untouched_def row_change_def ident_alt)

lemma output_ref_effect:
  "row_effect b (\<lambda>r r'. \<exists>ref. r' = r\<lparr>bj_output_ref := ref, bj_updated := now\<rparr>) db (update_output_ref b ref now db)"
  by (cases "bd_jobs db b") (auto simp: update_output_ref_def ident_alt intro!: row_effect_update)

lemma like_ident: "ident r' = ident r \<Longrightarrow> bj_price_version r' = bj_price_version r \<Longrightarrow> like r r'"
  by (simp add: like_def)

lemma young_to_submitted: "can_transition s Bs_submitted \<Longrightarrow> young s"
  by (cases s) (auto simp: can_transition_def terminal_status_def young_def)

lemma provider_submit_effect:
  "row_effect b (\<lambda>r r'. young (bj_status r) \<and> like r r' \<and> bj_status r' = Bs_submitted) db (record_provider_submit b p now db)"
  by (cases "bd_jobs db b")
    (auto simp: record_provider_submit_def ident_alt like_def dest: young_to_submitted intro!: row_effect_update)

lemma submit_failure_effect:
  "row_effect b (\<lambda>r r'. like r r' \<and> bj_status r' = Bs_failed) db (record_submit_failure b code True now db)"
  by (cases "bd_jobs db b") (auto simp: record_submit_failure_def like_def ident_alt Let_def intro!: row_effect_update)

lemma stale_effect:
  "row_effect b (\<lambda>r r'. young (bj_status r) \<and> like r r' \<and> bj_status r' = Bs_failed) db (fail_stale_job b cutoff code now db)
   \<or> fail_stale_job b cutoff code now db = (Inr False, db)"
  by (cases "bd_jobs db b")
    (auto simp: fail_stale_job_def like_def ident_alt unsubmitted_def young_def intro!: row_effect_update)

lemma settled_effect:
  "row_effect b (\<lambda>r r'. bj_status r = Bs_settling \<and> like r r' \<and> bj_status r' = Bs_completed) db (mark_settled b cost h now ex db)"
  by (cases "bd_jobs db b") (auto simp: mark_settled_def like_def ident_alt intro!: row_effect_update)

lemma settlement_failure_effect:
  "row_effect b (\<lambda>r r'. like r r' \<and> bj_status r' = bj_status r \<and> bj_retry_count r' = bj_retry_count r + 1 \<and> bj_error_code r' = Some code) db
     (record_settlement_failure b code now db)"
  by (cases "bd_jobs db b") (auto simp: record_settlement_failure_def like_def ident_alt intro!: row_effect_update)

lemma row_effect_items: "row_effect b C (db\<lparr>bd_items := i\<rparr>) (y, db') = row_effect b C db (y, db')"
  by (simp add: row_effect_def row_change_def untouched_def)

lemma replace_effect:
  "row_effect b (\<lambda>r r'. bj_status r = Bs_indexing \<and> like r r' \<and> bj_status r' = Bs_indexing) db (replace_items b items s f now db)"
proof (cases "bd_jobs db b")
  case (Some r)
  have "row_effect b (\<lambda>r r'. bj_status r = Bs_indexing \<and> like r r' \<and> bj_status r' = Bs_indexing) db
     (Inr (), update_job b (\<lambda>j. j\<lparr>bj_success := s, bj_fail := f, bj_updated := now\<rparr>) (db\<lparr>bd_items := i\<rparr>))"
    if "bj_status r = Bs_indexing" for i
    by (subst row_effect_items [symmetric], rule row_effect_update) (use Some that in \<open>auto simp: like_def ident_alt\<close>)
  with Some show ?thesis by (simp add: replace_items_def Let_def)
qed (simp add: replace_items_def)

end
