(* ===== verification/BatchQuiet.thy ===== *)
theory BatchQuiet
  imports BatchRuns
begin

text \<open>
  What the three transactions on a hold leave of a fine row, which runs are quiet, and what every statement of a
  submission does in a quiet run: its row stays fine, it knows what its next statement needs, and the worker of
  the batch keeps what it relies on.
\<close>

section \<open>Calls on holds\<close>

lemma money_step_effect:
  assumes "\<exists>m. db' = db\<lparr>bd_money := m\<rparr> \<and> money_effect rid P (hold_id j) (bd_money db) m"
  shows "money_step rid P j db db'"
  using assms by (auto simp: money_step_def)

lemmas reserve_money = money_step_effect [OF reserve_hold_effect]
lemmas capture_money = money_step_effect [OF capture_hold_effect]
lemmas release_money = money_step_effect [OF release_hold_effect]

text \<open>A hold is paid with its claim.\<close>

lemma capture_hold_paid:
  assumes "capture_hold env n j cost payload db = (r, db')" "job_valid j"
  shows "bd_money db' = bd_money db \<or> 0 < times_paid (hold_id j) (bd_money db')"
    and "r = None \<Longrightarrow> \<not> claimed capture_request_id (hold_id j) (bd_money db)
           \<Longrightarrow> hd_archive (bd_money db) (capture_request_id (bj_batch j), the (bj_key j)) = None
           \<Longrightarrow> 0 < times_paid (hold_id j) (bd_money db')"
proof -
  obtain c where c: "build_hold_command j (capture_request_id (bj_batch j)) cost payload = Inr c"
    "hc_hold (normalize_hold env c) = held_amount j"
    "hc_batch (normalize_hold env c) = bj_batch j" "hc_key (normalize_hold env c) = the (bj_key j)"
    "hc_request (normalize_hold env c) = trim_space (capture_request_id (bj_batch j))"
    by (rule build_hold_command_valid [OF assms(2), of "capture_request_id (bj_batch j)" cost payload env])
  let ?c = "normalize_hold env c"
  from assms(2) c have norm: "hc_hold ?c = held_amount j" "hc_batch ?c = bj_batch j" "hc_key ?c = the (bj_key j)"
    "hc_request ?c = capture_request_id (bj_batch j)" "0 < held_amount j"
    by (simp_all add: job_valid_def valid_request_ids [OF assms(2)])
  obtain r0 m0 where r0: "capture_balance env c (bd_money db) = (r0, m0)" by fastforce
  from r0 [unfolded capture_balance_def]
  have step: "m0 = bd_money db \<and> (\<forall>u. r0 \<noteq> Inr (True, u)) \<or> 0 < times_paid (hold_id j) m0"
  proof (cases rule: apply_hold_cases)
    case (fresh c' u)
    with norm show ?thesis
      by (auto simp: capture_tx_def Let_def times_paid_def hold_id_def split: option.splits if_splits)
  qed simp
  obtain q where q: "money_call n db (capture_balance env c (bd_money db)) = (q, db')" "r = None \<longleftrightarrow> (\<exists>v. q = Inr v)"
    using assms(1) c by (auto simp: capture_hold_def split: prod.splits sum.splits)
  then have m': "store_call n (bd_money db) (r0, m0) = (q, bd_money db')" by (auto simp: money_call_unfold r0)
  with step show "bd_money db' = bd_money db \<or> 0 < times_paid (hold_id j) (bd_money db')"
    by (auto simp: store_call_def split: net.splits)
  assume "r = None" "\<not> claimed capture_request_id (hold_id j) (bd_money db)"
    "hd_archive (bd_money db) (capture_request_id (bj_batch j), the (bj_key j)) = None"
  with q m' have "\<exists>v. r0 = Inr v" "m0 = bd_money db'" by (auto simp: store_call_def split: net.splits)
  with step r0 \<open>\<not> claimed _ _ _\<close> \<open>hd_archive _ _ = None\<close> norm show "0 < times_paid (hold_id j) (bd_money db')"
    by (auto simp: capture_balance_def apply_hold_def claim_request_def claimed_def hold_id_def Let_def
        split: option.splits if_splits sum.splits prod.splits)
qed

section \<open>Holds move and rows stay fine\<close>

lemma hold_id_eq: "hold_id r = hold_id j \<longleftrightarrow> bj_batch r = bj_batch j \<and> the (bj_key r) = the (bj_key j)"
  by (auto simp: hold_id_def)

lemma money_step_other_claim:
  assumes "money_step rid P j db db'" "\<And>b b'. rid' b \<noteq> rid b'"
  shows "hd_claims (bd_money db') (rid' b, k) = hd_claims (bd_money db) (rid' b, k)"
    "claimed rid' x (bd_money db') = claimed rid' x (bd_money db)"
  using assms(2) by (auto simp: claimed_def intro!: arg_cong [OF money_step_claims(2) [OF assms(1)]] money_step_claims(2) [OF assms(1)])

lemma money_step_unarchived: "money_step rid P j db db' \<Longrightarrow> unarchived x (bd_money db') = unarchived x (bd_money db)"
  by (drule money_step_claims(1)) (simp add: unarchived_def)

lemma fine_reserve:
  assumes "row_fine env sub (bd_money db) r" "reserve_hold env n j payload db = (x, db')" "job_valid j" "hold_id r = hold_id j"
  shows "row_fine env sub (bd_money db') r"
proof -
  note step = reserve_money [OF assms(2,3)]
  note others = money_step_other_claim [OF step]
  have times: "times_paid y (bd_money db') = times_paid y (bd_money db)" "times_returned y (bd_money db') = times_returned y (bd_money db)"
    "times_taken y (bd_money db) \<le> times_taken y (bd_money db')" for y
    using money_step_times [OF step] move_kinds by blast+
  have taken: "bd_money db' = bd_money db \<or> 0 < times_taken (hold_id r) (bd_money db')"
    using reserve_hold_taken(1) [OF assms(2,3)] assms(4) by simp
  have "taken_ok r (bd_money db')" using taken assms(1) by (auto simp: row_fine_def taken_ok_def)
  moreover have "charged_ok r (bd_money db')" "paid_ok env r (bd_money db')"
    using assms(1) by (auto simp: row_fine_def charged_ok_def paid_ok_def times others request_ids_differ)
  moreover have "returned_ok r sub (bd_money db')"
    using assms(1) times(3) [of "hold_id r"] by (auto simp: row_fine_def returned_ok_def times(2))
  ultimately show ?thesis using assms(1) money_step_unarchived [OF step] by (simp add: row_fine_def)
qed

lemma fine_release:
  assumes "row_fine env sub (bd_money db) r" "release_hold env n j payload db = (x, db')" "job_valid j" "hold_id r = hold_id j"
    and stage: "dead (bj_status r) \<or> young (bj_status r) \<and> \<not> forward sub \<or> retry_exhausted r"
  shows "row_fine env sub (bd_money db') r"
proof -
  note step = release_money [OF assms(2,3)]
  note others = money_step_other_claim [OF step]
  have times: "times_paid y (bd_money db') = times_paid y (bd_money db)" "times_taken y (bd_money db') = times_taken y (bd_money db)" for y
    using money_step_times [OF step] move_kinds by blast+
  have "hd_archive (bd_money db) (hold_request_id (bj_batch j), the (bj_key j)) = None"
    using assms(1,4) by (simp add: row_fine_def unarchived_def hold_id_def)
  from release_hold_claimed [OF assms(2,3) this]
  have "times_returned (hold_id r) (bd_money db') = times_returned (hold_id r) (bd_money db) \<or> 0 < times_taken (hold_id r) (bd_money db)"
    using assms(1,4) by (auto simp: row_fine_def taken_ok_def)
  then have "returned_ok r sub (bd_money db')"
    using assms(1) stage by (auto simp: row_fine_def returned_ok_def times)
  moreover have "taken_ok r (bd_money db')" "charged_ok r (bd_money db')" "paid_ok env r (bd_money db')"
    using assms(1) by (auto simp: row_fine_def taken_ok_def charged_ok_def paid_ok_def times others request_ids_differ)
  ultimately show ?thesis using assms(1) money_step_unarchived [OF step] by (simp add: row_fine_def)
qed

lemma fine_capture:
  assumes "row_fine env sub (bd_money db) r" "capture_hold env n j (due j) (manifest_hash env j) db = (x, db')" "job_valid j"
    and stage: "bj_status r = Bs_settling" "settle_view r = settle_view j" "\<not> retry_exhausted r" "settle_passes env r"
  shows "row_fine env sub (bd_money db') r"
proof -
  note same = settle_view_same [OF stage(2)]
  have id: "hold_id r = hold_id j" using same(1) by (rule ident_hold_id)
  note step = capture_money [OF assms(2,3)]
  note others = money_step_other_claim [OF step]
  have times: "times_taken y (bd_money db') = times_taken y (bd_money db)" "times_returned y (bd_money db') = times_returned y (bd_money db)" for y
    using money_step_times [OF step] move_kinds by blast+
  have paid: "bd_money db' = bd_money db \<or> 0 < times_paid (hold_id r) (bd_money db')"
    using capture_hold_paid(1) [OF assms(2,3)] id by simp
  have print: "hd_claims (bd_money db') (capture_request_id (bj_batch r), the (bj_key r)) = Some (due_print env r)"
    if "times_paid (hold_id r) (bd_money db') \<noteq> times_paid (hold_id r) (bd_money db)"
    using capture_hold_print [OF assms(2,3)] that id same by (simp add: hold_id_eq due_print_def)
  have "paid_ok env r (bd_money db')"
  proof (cases "times_paid (hold_id r) (bd_money db') = times_paid (hold_id r) (bd_money db)")
    case False
    then show ?thesis using print stage by (simp add: paid_ok_def)
  next
    case True
    show ?thesis
    proof (cases "0 < times_paid (hold_id r) (bd_money db)")
      case paid: True
      then have claim: "hd_claims (bd_money db) (capture_request_id (bj_batch r), the (bj_key r)) = Some (due_print env r)"
        using assms(1) stage by (auto simp: row_fine_def paid_ok_def finished_def)
      then have "claimed capture_request_id (hold_id j) (bd_money db)" using id by (simp add: claimed_def hold_id_def)
      with step have "bd_money db' = bd_money db" by (auto simp: money_step_def money_effect_def)
      with claim stage show ?thesis by (simp add: paid_ok_def)
    qed (use True in \<open>simp add: paid_ok_def\<close>)
  qed
  moreover have "charged_ok r (bd_money db')"
    using paid assms(1) stage by (auto simp: row_fine_def charged_ok_def finished_def)
  moreover have "taken_ok r (bd_money db')" "returned_ok r sub (bd_money db')"
    using assms(1) by (auto simp: row_fine_def taken_ok_def returned_ok_def times others request_ids_differ)
  ultimately show ?thesis using assms(1) money_step_unarchived [OF step] by (simp add: row_fine_def)
qed

lemma row_ok_money:
  assumes "batch_row_ok env b sub db" "money_step rid P j db db'"
    and "\<And>r. bd_jobs db b = Some r \<Longrightarrow> row_fine env sub (bd_money db) r \<Longrightarrow> row_fine env sub' (bd_money db') r"
  shows "batch_row_ok env b sub' db'"
  using assms by (auto simp: batch_row_ok_def money_step_def)

section \<open>Rows a call works on\<close>

lemma at_row_change:
  assumes "row_change b r r' db db'" "at_row j P db" "bj_batch j = b" "Q r'"
  shows "at_row j Q db'"
  using assms by (auto simp: at_row_def row_change_def)

lemma at_row_is:
  assumes "row_change b r r' db db'" "at_row j P db" "bj_batch j = b"
  shows "P r" "ident r = ident j" "hold_id r = hold_id j"
  using assms ident_hold_id [of r j] by (auto simp: at_row_def row_change_def)

lemma at_row_money: "money_step rid P j db db' \<Longrightarrow> at_row i Q db' = at_row i Q db"
  by (simp add: money_step_def at_row_def)

lemma at_row_untouched: "untouched db db' \<Longrightarrow> at_row i Q db' = at_row i Q db"
  by (simp add: untouched_def at_row_def)

lemma at_row_any: "at_row j P db \<Longrightarrow> known_row j db"
  by (auto simp: known_row_def at_row_def)

lemma ident_status [simp]: "ident (j\<lparr>bj_status := s\<rparr>) = ident j" "bj_batch (j\<lparr>bj_status := s\<rparr>) = bj_batch j"
  "hold_id (j\<lparr>bj_status := s\<rparr>) = hold_id j"
  by (simp_all add: ident_alt hold_id_def)

lemma at_row_status [simp]: "at_row (j\<lparr>bj_status := s\<rparr>) P db = at_row j P db"
  by (simp add: at_row_def)

lemma known_status [simp]: "working_row (j\<lparr>bj_status := s\<rparr>) db = working_row j db" "dead_row (j\<lparr>bj_status := s\<rparr>) db = dead_row j db"
  by (simp_all add: working_row_def dead_row_def)

lemma taken_here_untouched: "untouched db db' \<Longrightarrow> taken_here j db' = taken_here j db"
  by (simp add: untouched_def taken_here_def)

lemma taken_here_change: "row_change b r r' db db' \<Longrightarrow> taken_here j db' = taken_here j db"
  by (simp add: row_change_def taken_here_def)

lemma sub_ok_untouched: "untouched db db' \<Longrightarrow> sub_ok b th db' = sub_ok b th db"
  by (cases th) (simp_all add: row_defs at_row_def taken_here_def untouched_def)

lemma work_ok_untouched: "untouched db db' \<Longrightarrow> work_ok env b th db' = work_ok env b th db"
  by (cases th)
    (simp_all add: row_defs at_row_def untouched_def has_captured_def may_capture_def not_captured_def given_up_def)

section \<open>Quiet runs\<close>

text \<open>The queue takes the jobs that are submitted, and captures reach the store and come back.\<close>

fun quiet_batch :: "batch_thread \<Rightarrow> outside \<Rightarrow> bool" where
  "quiet_batch (Sub_requeue j) ot \<longleftrightarrow> oa_queued ot"
| "quiet_batch (Sub_enqueue j) ot \<longleftrightarrow> oa_queued ot"
| "quiet_batch (St_capture j cost) ot \<longleftrightarrow> oa_net ot = Net_ok"
| "quiet_batch _ ot \<longleftrightarrow> True"

section \<open>Submissions\<close>

definition sub_post :: "batch_env \<Rightarrow> string \<Rightarrow> batch_thread \<Rightarrow> batch_db \<Rightarrow> batch_db \<Rightarrow> bool" where
  "sub_post env b th db db' \<longleftrightarrow> batch_row_ok env b (Some th) db' \<and> sub_ok b th db' \<and> work_rely b db db' \<and> keeps_batch b db db'"

lemma sub_post_untouched:
  assumes "batch_row_ok env b (Some th) db" "untouched db db'" "forward (Some th') \<Longrightarrow> forward (Some th)" "sub_ok b th' db"
  shows "sub_post env b th' db db'"
  using row_ok_sub [OF row_ok_untouched [OF assms(2,1)] assms(3)] assms(2,4)
  by (simp add: sub_post_def sub_ok_untouched work_rely_kinds(1) keeps_kinds(1))

lemma sub_post_change:
  assumes "batch_row_ok env b (Some th) db" "row_change b r r' db db'" "row_fine env (Some th') (bd_money db) r'" "sub_ok b th' db'"
    and "bj_status r \<noteq> Bs_settling" "working (bj_status r) \<Longrightarrow> working (bj_status r')" "dead (bj_status r) \<Longrightarrow> dead (bj_status r')"
    and "terminal_status (bj_status r) \<Longrightarrow> terminal_status (bj_status r')"
  shows "sub_post env b th' db db'"
  using row_ok_change [OF assms(2,1,3)] work_rely_kinds(2) [OF assms(2)] keeps_kinds(3) [OF assms(2)] assms(4-)
  by (simp add: sub_post_def)

lemma sub_post_money:
  assumes "batch_row_ok env b (Some th) db" "money_step rid P j db db'" "bj_batch j = b" "job_valid j" "claim_kind rid P"
    and "at_row j (\<lambda>r. bj_status r \<noteq> Bs_settling) db" "\<And>v. P v \<Longrightarrow> \<not> is_capture v"
    and "\<And>r. bd_jobs db b = Some r \<Longrightarrow> row_fine env (Some th) (bd_money db) r \<Longrightarrow> row_fine env (Some th) (bd_money db') r"
    and "forward (Some th') \<Longrightarrow> forward (Some th)" "sub_ok b th' db'"
  shows "sub_post env b th' db db'"
  using row_ok_sub [OF row_ok_money [OF assms(1,2,8)] assms(9)] work_rely_money [OF assms(2,6,7)] keeps_kinds(2) [OF assms(2,4,5)]
    assms(3,10)
  by (simp add: sub_post_def)

lemma early_stages:
  "early_stage s \<Longrightarrow> s \<noteq> Bs_settling" "early_stage s \<Longrightarrow> working s \<Longrightarrow> dead s" "early_stage s \<Longrightarrow> terminal_status s \<Longrightarrow> dead s"
  "dead s \<Longrightarrow> terminal_status s" "dead s \<Longrightarrow> working s" "dead s \<Longrightarrow> early_stage s" "young s \<Longrightarrow> \<not> dead s" "young s \<Longrightarrow> \<not> working s"
  "young s \<Longrightarrow> \<not> terminal_status s" "young s \<Longrightarrow> early_stage s" "early_stage s \<Longrightarrow> dead s \<or> young s"
  by (auto simp: stage_defs terminal_status_def)

lemma early_row_at:
  assumes "batch_row_ok env b sub db" "early_row j db" "bj_batch j = b"
  shows "job_valid j" "at_row j (\<lambda>r. bj_status r \<noteq> Bs_settling) db"
proof -
  show "job_valid j" using assms by (auto simp: early_row_def elim: at_row_valid)
  show "at_row j (\<lambda>r. bj_status r \<noteq> Bs_settling) db"
    using assms(2) early_stages(1) unfolding early_row_def by (auto simp: at_row_def)
qed

text \<open>A row is created.\<close>

lemma new_job_simps [simp]:
  "bj_batch (new_batch_job now j) = bj_batch j" "bj_status (new_batch_job now j) = Bs_created"
  "bj_provider_job (new_batch_job now j) = None" "bj_price_version (new_batch_job now j) = 1"
  "ident (new_batch_job now j) = ident j"
  by (simp_all add: new_batch_job_def ident_alt)

lemma new_job_valid:
  "job_valid (new_batch_job now j) = job_valid j" "hold_id (new_batch_job now j) = hold_id j"
  by (rule ident_valid ident_hold_id; simp)+

lemma submit_create_keeps:
  assumes "submit_create n now sb db = (th', db')" "sub_ok b (Sub_create sb) db" "batch_row_ok env b (Some (Sub_create sb)) db"
    and "claims_ok (bd_money db)"
  shows "sub_post env b th' db db'"
proof -
  define j where "j = new_batch_job now (sb_job sb)"
  define dbc where "dbc = db\<lparr>bd_jobs := (bd_jobs db)(b \<mapsto> j), bd_order := b # bd_order db\<rparr>"
  have start: "bj_batch (sb_job sb) = b" "job_valid (sb_job sb)" "bd_jobs db b = None" "unclaimed (hold_id (sb_job sb)) (bd_money db)"
    using assms(2) by simp_all
  then have j: "bj_batch j = b" "job_valid j" "unclaimed (hold_id j) (bd_money db)" by (simp_all add: j_def new_job_valid)
  have fine: "row_fine env (Some th) (bd_money db) j" for th
  proof -
    have "times_returned (hold_id j) (bd_money db) = 0" "times_paid (hold_id j) (bd_money db) = 0"
      using assms(4) j(3) unfolding claims_ok_def unclaimed_def by (metis le_zero_eq of_bool_eq(1))+
    with j show ?thesis
      by (simp add: row_fine_defs unclaimed_def j_def stage_defs)
  qed
  have created: "sub_post env b th db dbc" if "sub_ok b th dbc" for th
  proof -
    have "batch_row_ok env b (Some th) dbc" using fine j by (simp add: batch_row_ok_def dbc_def)
    moreover have "work_rely b db dbc" using start(3) by (simp add: work_rely_def)
    moreover have "rows_grow db dbc" using start(3) by (auto simp: rows_grow_def dbc_def)
    moreover have "only_batch b db dbc" by (simp add: only_batch_def same_batch_def dbc_def)
    ultimately show ?thesis using that by (simp add: sub_post_def keeps_batch_def) (simp add: dbc_def)
  qed
  have "sub_ok b (Sub_reserve j (sb_items sb)) dbc"
    using j by (simp add: early_row_def at_row_def dbc_def j_def stage_defs unclaimed_def)
  note reserve = created [OF this]
  have res: "create_job j db = (Inl B_invalid_provider, db) \<or> create_job j db = (Inr j, dbc)"
    using j start(3) by (simp add: create_job_def dbc_def)
  have "sub_post env b (Th_done q) db db" for q
    by (rule sub_post_untouched [OF assms(3)]) simp_all
  moreover have "sub_post env b (Th_done q) db dbc" for q by (rule created) simp
  ultimately show ?thesis
    using assms(1) res reserve
    by (auto simp: submit_create_def j_def [symmetric] store_call_def split: net.splits)
qed

lemma submit_reserve_keeps:
  assumes "submit_reserve env n j items db = (th', db')" "sub_ok b (Sub_reserve j items) db" "batch_row_ok env b (Some (Sub_reserve j items)) db"
  shows "sub_post env b th' db db'"
proof -
  have j: "bj_batch j = b" "early_row j db" "\<not> claimed hold_request_id (hold_id j) (bd_money db)" using assms(2) by simp_all
  note at = early_row_at [OF assms(3) j(2,1)]
  obtain x where x: "reserve_hold env n j (deref (bj_request_hash j)) db = (x, db')"
    and th': "th' = (if x = None then Sub_items j items else Sub_fail j (if x = Some B_insufficient_balance then ''INSUFFICIENT_BALANCE'' else ''BILLING_HOLD_FAILED'') (the x))"
    using assms(1) by (auto simp: submit_reserve_def split: prod.splits option.splits)
  note step = reserve_money [OF x at(1)]
  obtain r where r: "bd_jobs db b = Some r" "row_fine env (Some (Sub_reserve j items)) (bd_money db) r" "hold_id r = hold_id j"
    using at_row_valid [of env j _ db] assms(3) j(1,2) unfolding early_row_def by metis
  then have "hd_archive (bd_money db) (hold_request_id (bj_batch j), the (bj_key j)) = None"
    by (simp add: row_fine_def unarchived_def hold_id_def)
  then have "taken_here j db'" if "x = None"
    using reserve_hold_taken(2) [OF x at(1) that j(3)] by (simp add: taken_here_def)
  then have "sub_ok b th' db'"
    using j at_row_money [OF step] by (auto simp: th' early_row_def)
  moreover have "row_fine env (Some (Sub_reserve j items)) (bd_money db') r'"
    if "bd_jobs db b = Some r'" "row_fine env (Some (Sub_reserve j items)) (bd_money db) r'" for r'
    using fine_reserve [OF that(2) x at(1)] that(1) r by simp
  ultimately show ?thesis
    using sub_post_money [OF assms(3) step j(1) at(1) _ at(2) move_kinds(5)] by (simp add: claim_kind_def)
qed


text \<open>The rest of a submission.\<close>

lemma create_items_untouched: "untouched db (snd (create_items b items db))"
  by (simp add: create_items_def untouched_def)

lemma store_call_untouched:
  assumes "store_call n db res = (x, db')" "untouched db (snd res)"
  shows "untouched db db'"
  using store_effect [OF assms(1)] assms(2) by (metis snd_conv untouched_refl)

lemma store_call_untouched_snd: "untouched db (snd res) \<Longrightarrow> untouched db (snd (store_call n db res))"
  by (cases "store_call n db res") (simp add: store_call_untouched)

lemma submit_items_keeps:
  assumes "submit_items n j items db = (th', db')" "sub_ok b (Sub_items j items) db" "batch_row_ok env b (Some (Sub_items j items)) db"
  shows "sub_post env b th' db db'"
proof -
  obtain x where x: "store_call n db (create_items (bj_batch j) items db) = (x, db')"
    and th': "th' = (case x of Inr _ \<Rightarrow> Sub_upload j | Inl _ \<Rightarrow> Sub_release j ''ITEM_CREATE_FAILED'' B_queue_failed)"
    using assms(1) by (auto simp: submit_items_def split: prod.splits sum.splits)
  have "untouched db db'" using store_call_untouched [OF x create_items_untouched] .
  then show ?thesis
    by (rule sub_post_untouched [OF assms(3)]) (use assms(2) in \<open>auto simp: th' split: sum.splits\<close>)
qed

lemma move_job_simps [simp]:
  "bj_status (move_job t opts now r) = t" "bj_provider_job (move_job t opts now r) = bj_provider_job r"
  "like r (move_job t opts now r)"
  by (simp_all add: move_job_def like_def ident_alt)

lemma to_uploading: "can_transition s Bs_uploading \<Longrightarrow> s = Bs_created"
  by (cases s) (auto simp: can_transition_def terminal_status_def)

lemma submit_upload_keeps:
  assumes "submit_upload n now j db = (th', db')" "sub_ok b (Sub_upload j) db" "batch_row_ok env b (Some (Sub_upload j)) db"
  shows "sub_post env b th' db db'"
proof -
  have j: "bj_batch j = b" "early_row j db" "taken_here j db" using assms(2) by simp_all
  obtain x where x: "store_call n db (transition_job (bj_batch j) Bs_uploading (no_options ''upload_started'') now db) = (x, db')"
    and th': "th' = (case x of Inr _ \<Rightarrow> Sub_provider (j\<lparr>bj_status := Bs_uploading\<rparr>)
      | Inl e \<Rightarrow> if e = B_invalid_transition then Sub_release_only j e else Sub_release j ''UPLOAD_TRANSITION_FAILED'' e)"
    using assms(1) by (auto simp: submit_upload_def split: prod.splits sum.splits)
  show ?thesis
  proof (rule row_effect_call [OF transition_effect x])
    fix e assume "untouched db db'" "x = Inl e"
    then show ?thesis using sub_post_untouched [OF assms(3), of db' th' ] j by (simp add: th')
  next
    fix r r' assume "row_change (bj_batch j) r r' db db'" "can_transition (bj_status r) Bs_uploading
      \<and> r' = move_job Bs_uploading (no_options ''upload_started'') now r"
    then have change: "row_change b r r' db db'" and r': "bj_status r = Bs_created" "r' = move_job Bs_uploading (no_options ''upload_started'') now r"
      using j(1) to_uploading by auto
    have fine: "row_fine env (Some (Sub_upload j)) (bd_money db) r'"
      by (rule fine_young [OF row_ok_at(1) [OF assms(3) change]]) (simp_all add: r' young_def)
    have fw: "forward (Some th') \<Longrightarrow> forward (Some (Sub_upload j))" by simp
    have early_stage: "at_row j (\<lambda>r. early_stage (bj_status r)) db'"
      using at_row_change [OF change j(2) [unfolded early_row_def] j(1)] by (simp add: r' stage_defs)
    have "taken_here j db'" using j(3) taken_here_change [OF change] by simp
    with early_stage have "sub_ok b th' db'" using j(1) by (auto simp: th' early_row_def taken_here_def split: sum.splits)
    with row_fine_sub [OF fine fw] show ?thesis
      by (intro sub_post_change [OF assms(3) change]) (simp_all add: r' stage_defs terminal_status_def)
  qed
qed

lemma touch_minor: "settle_view (r\<lparr>bj_updated := now\<rparr>) = settle_view r" "retry_exhausted (r\<lparr>bj_updated := now\<rparr>) = retry_exhausted r"
  by (simp_all add: settle_view_def retry_exhausted_def)

lemma submit_provider_keeps:
  assumes "submit_provider n now beat answer j db = (th', db')" "sub_ok b (Sub_provider j) db" "batch_row_ok env b (Some (Sub_provider j)) db"
  shows "sub_post env b th' db db'"
proof (cases beat)
  case True
  have j: "bj_batch j = b" "early_row j db" "taken_here j db" using assms(2) by simp_all
  obtain x where x: "store_call n db (touch_submitting (bj_batch j) now db) = (x, db')" and th': "th' = Sub_provider j"
    using assms(1) True by (cases "store_call n db (touch_submitting (bj_batch j) now db)") (simp add: submit_provider_def)
  from store_effect [OF x] consider "untouched db db'" | "db' = snd (touch_submitting (bj_batch j) now db)"
    by (metis snd_conv untouched_refl)
  then show ?thesis
  proof cases
    case 1
    then show ?thesis by (rule sub_post_untouched [OF assms(3)]) (use assms(2) in \<open>simp_all add: th'\<close>)
  next
    case 2
    with touch_effect [of db "bj_batch j" now] consider "untouched db db'" | r where "row_change b r (r\<lparr>bj_updated := now\<rparr>) db db'"
      using j(1) by auto
    then show ?thesis
    proof cases
      case 1
      then show ?thesis by (rule sub_post_untouched [OF assms(3)]) (use assms(2) in \<open>simp_all add: th'\<close>)
    next
      case (2 r)
      note ro = at_row_is [OF 2 j(2) [unfolded early_row_def] j(1)]
      have "row_fine env (Some th') (bd_money db) (r\<lparr>bj_updated := now\<rparr>)"
        using row_ok_at(1) [OF assms(3) 2] by (auto simp: th' touch_minor intro: fine_minor)
      moreover have "sub_ok b th' db'"
        using at_row_change [OF 2 j(2) [unfolded early_row_def] j(1), of "\<lambda>r. early_stage (bj_status r)"] ro j taken_here_change [OF 2]
        by (simp add: th' early_row_def)
      ultimately show ?thesis
        using early_stages(1) ro(1) by (intro sub_post_change [OF assms(3) 2]) auto
    qed
  qed
next
  case False
  then show ?thesis
    using assms(1) by (intro sub_post_untouched [OF assms(3)])
      (use assms(2) in \<open>auto simp: submit_provider_def split: submit_answer.splits option.splits if_splits\<close>)
qed

lemma submit_record_keeps:
  assumes "submit_record n now j p db = (th', db')" "sub_ok b (Sub_record j p) db" "batch_row_ok env b (Some (Sub_record j p)) db"
  shows "sub_post env b th' db db'"
proof -
  have j: "bj_batch j = b" "early_row j db" "taken_here j db" using assms(2) by simp_all
  obtain x where x: "store_call n db (record_provider_submit (bj_batch j) p now db) = (x, db')"
    and th': "th' = (case x of Inr _ \<Rightarrow> Sub_enqueue j | Inl e \<Rightarrow> Sub_abort j e)"
    using assms(1) by (auto simp: submit_record_def split: prod.splits sum.splits)
  have idle: "\<not> forward (Some th')" "sub_ok b th' db''" for db'' by (auto simp: th' split: sum.splits)
  show ?thesis
  proof (rule row_effect_call [OF provider_submit_effect x])
    fix e assume "untouched db db'"
    then show ?thesis using sub_post_untouched [OF assms(3), of db' th' ] idle by simp
  next
    fix r r' assume "row_change (bj_batch j) r r' db db'" "young (bj_status r) \<and> like r r' \<and> bj_status r' = Bs_submitted"
    then have change: "row_change b r r' db db'" and r': "young (bj_status r)" "like r r'" "bj_status r' = Bs_submitted"
      using j(1) by auto
    note ro = at_row_is [OF change j(2) [unfolded early_row_def] j(1)]
    note fine = row_ok_at(1) [OF assms(3) change]
    have "row_fine env (Some th') (bd_money db) r'"
      by (rule fine_unpaid [OF fine r'(2)])
        (use row_fine_money(1,5) [OF fine] r' ro j(3) in \<open>auto simp: stage_defs taken_here_def\<close>)
    then show ?thesis
      using early_stages(7-10) [OF r'(1)] early_stages(1)
      by (intro sub_post_change [OF assms(3) change]) (auto simp: idle)
  qed
qed

lemma submit_release_keeps:
  assumes "submit_release env n j next_th db = (th', db')" "bj_batch j = b" "early_row j db" "batch_row_ok env b (Some th) db"
    and "\<not> forward (Some th)" "\<not> forward (Some next_th)" "\<And>db'. early_row j db' \<Longrightarrow> sub_ok b next_th db'"
  shows "sub_post env b th' db db'"
proof -
  note at = early_row_at [OF assms(4,3,2)]
  obtain x where x: "release_hold env n j (deref (bj_request_hash j)) db = (x, db')"
    and th': "th' = (if x = None then next_th else Sub_unreleased j)"
    using assms(1) by (auto simp: submit_release_def split: prod.splits option.splits)
  note step = release_money [OF x at(1)]
  have "early_row j db'" using assms(3) at_row_money [OF step] by (simp add: early_row_def)
  then have "sub_ok b th' db'" using assms(2,7) by (simp add: th')
  moreover have "row_fine env (Some th) (bd_money db') r" if r: "bd_jobs db b = Some r" "row_fine env (Some th) (bd_money db) r" for r
  proof (rule fine_release [OF r(2) x at(1)])
    show "hold_id r = hold_id j" "dead (bj_status r) \<or> young (bj_status r) \<and> \<not> forward (Some th) \<or> retry_exhausted r"
      using r(1) assms(2,3,5) ident_hold_id [of r j] early_stages(11) by (auto simp: early_row_def at_row_def)
  qed
  ultimately show ?thesis
    using sub_post_money [OF assms(4) step assms(2) at(1) _ at(2) move_kinds(2), of th'] assms(6) by (auto simp: claim_kind_def th')
qed

lemma submit_failure_keeps:
  assumes "store_call n db (record_submit_failure b code True now db) = (x, db')" "bj_batch j = b" "early_row j db" "batch_row_ok env b (Some th) db"
    and "\<not> forward (Some th')" "\<And>db'. sub_ok b th' db'"
  shows "sub_post env b th' db db'"
proof (rule row_effect_call [OF submit_failure_effect assms(1)])
  fix e assume "untouched db db'"
  then show ?thesis by (rule sub_post_untouched [OF assms(4)]) (use assms(5,6) in simp_all)
next
  fix r r' assume change: "row_change b r r' db db'" and r': "like r r' \<and> bj_status r' = Bs_failed"
  note ro = at_row_is [OF change assms(3) [unfolded early_row_def] assms(2)]
  note fine = row_ok_at(1) [OF assms(4) change]
  have "row_fine env (Some th') (bd_money db) r'"
    by (rule fine_dead [OF fine]) (use row_fine_money(1) [OF fine] ro(1) r' in \<open>auto simp: dead_def\<close>)
  then show ?thesis
    using ro(1) early_stages(1) r'
    by (intro sub_post_change [OF assms(4) change]) (auto simp: assms(6) stage_defs terminal_status_def)
qed

lemma user_deleted_effect:
  "row_effect b (\<lambda>r r'. settle_view r' = settle_view r \<and> bj_status r' = bj_status r \<and> retry_exhausted r' = retry_exhausted r \<and> terminal_status (bj_status r)) db
     (mark_user_deleted u k b now db)"
  by (cases "bd_jobs db b")
    (auto simp: mark_user_deleted_def settle_view_def retry_exhausted_def ident_alt intro!: row_effect_update)

lemma terminal_not_settling: "terminal_status s \<Longrightarrow> s \<noteq> Bs_settling"
  by (auto simp: terminal_status_def)

lemma submit_hide_keeps:
  assumes "sub_ok b (Sub_hide j e) db" "batch_row_ok env b (Some (Sub_hide j e)) db"
  shows "sub_post env b (Th_done q) db (submit_hide n now j db)"
proof (cases "bj_provider_job j = None")
  case True
  let ?res = "mark_user_deleted (bj_user j) (the (bj_key j)) (bj_batch j) now db"
  have b: "bj_batch j = b" using assms(1) by simp
  obtain x db' where x: "store_call n db ?res = (x, db')" by fastforce
  with True have db': "submit_hide n now j db = db'" by (simp add: submit_hide_def)
  show ?thesis
    unfolding db'
  proof (rule row_effect_call [OF user_deleted_effect x])
    fix e assume "untouched db db'"
    then show "sub_post env b (Th_done q) db db'" by (rule sub_post_untouched [OF assms(2)]) simp_all
  next
    fix r r' assume change0: "row_change (bj_batch j) r r' db db'" and r': "settle_view r' = settle_view r \<and> bj_status r' = bj_status r
      \<and> retry_exhausted r' = retry_exhausted r \<and> terminal_status (bj_status r)"
    from change0 b have change: "row_change b r r' db db'" by simp
    have "row_fine env (Some (Th_done q)) (bd_money db) r'"
      by (rule row_fine_sub [OF fine_minor [OF row_ok_at(1) [OF assms(2) change]]]) (use r' in simp_all)
    then show "sub_post env b (Th_done q) db db'"
      using r' terminal_not_settling by (intro sub_post_change [OF assms(2) change]) auto
  qed
next
  case False
  then show ?thesis by (intro sub_post_untouched [OF assms(2)]) (simp_all add: submit_hide_def)
qed


text \<open>Every statement of a submission.\<close>

lemma submit_lookup_same: "submit_lookup n sb db = (th', db') \<Longrightarrow> db' = db \<and> (th' = Sub_create sb \<or> (\<exists>j. th' = Sub_requeue j) \<or> (\<exists>q. th' = Th_done q))"
  by (auto simp: submit_lookup_def split: option.splits sum.splits if_splits)

lemma event_untouched: "untouched db (snd (store_call n db (Inr (), append_event b ev db)))"
  by (rule store_call_untouched_snd) simp

lemma submission_keeps:
  assumes "thread_step su now ot th db = (th', db')" "quiet_batch th ot" "sub_ok b th db" "batch_row_ok (bs_env su) b (Some th) db"
    and "claims_ok (bd_money db)"
  shows "sub_post (bs_env su) b th' db db'"
proof -
  have idle: "sub_post (bs_env su) b th' db db'" if "untouched db db'" "\<not> forward (Some th')" "sub_ok b th' db"
    using sub_post_untouched [OF assms(4) that(1)] that by blast
  show ?thesis
  proof (cases th)
    case (Sub_lookup sb)
    with assms(1) have "db' = db \<and> (th' = Sub_create sb \<or> (\<exists>j. th' = Sub_requeue j) \<or> (\<exists>q. th' = Th_done q))"
      by (simp add: submit_lookup_same)
    with assms(3) Sub_lookup show ?thesis by (intro idle) auto
  next
    case (Sub_create sb)
    with assms show ?thesis by (intro submit_create_keeps) simp_all
  next
    case (Sub_reserve j items)
    with assms show ?thesis by (intro submit_reserve_keeps) simp_all
  next
    case (Sub_items j items)
    with assms show ?thesis by (intro submit_items_keeps) simp_all
  next
    case (Sub_upload j)
    with assms show ?thesis by (intro submit_upload_keeps) simp_all
  next
    case (Sub_provider j)
    with assms show ?thesis by (intro submit_provider_keeps) simp_all
  next
    case (Sub_record j p)
    with assms show ?thesis by (intro submit_record_keeps) simp_all
  next
    case (Sub_release j code e)
    with assms(1) have "submit_release (bs_env su) (oa_net ot) j (Sub_fail j code e) db = (th', db')" by simp
    then show ?thesis by (rule submit_release_keeps [where th = th]) (use assms Sub_release in simp_all)
  next
    case (Sub_release_only j e)
    with assms(1) have "submit_release (bs_env su) (oa_net ot) j (Th_done (Res_error e)) db = (th', db')" by simp
    then show ?thesis by (rule submit_release_keeps [where th = th]) (use assms Sub_release_only in simp_all)
  next
    case (Sub_unreleased j)
    obtain x db1 where x: "store_call (oa_net ot) db (record_submit_failure b ''BILLING_RELEASE_FAILED'' True now db) = (x, db1)" by fastforce
    then have "db1 = db'" "th' = Sub_retry j" using assms(1,3) Sub_unreleased by auto
    with x show ?thesis by (intro submit_failure_keeps [where th = th and j = j]) (use assms Sub_unreleased in auto)
  next
    case (Sub_fail j code e)
    obtain x db1 where x: "store_call (oa_net ot) db (record_submit_failure b code True now db) = (x, db1)" by fastforce
    then have "db1 = db'" "th' = Sub_hide j e" using assms(1,3) Sub_fail by auto
    with x show ?thesis by (intro submit_failure_keeps [where th = th and j = j]) (use assms Sub_fail in auto)
  next
    case (Sub_hide j e)
    with assms submit_hide_keeps [of b j e db] show ?thesis by auto
  next
    case (Sub_requeue j)
    with assms(1-3) show ?thesis by (intro idle) auto
  next
    case (Sub_abort j e)
    with assms(1-3) event_untouched show ?thesis by (intro idle) auto
  next
    case (Sub_enqueue j)
    with assms(1-3) show ?thesis by (intro idle) auto
  next
    case (Sub_final j)
    with assms(1-3) show ?thesis by (intro idle) (auto split: sum.splits)
  next
    case (Sub_retry j)
    with assms(1-3) event_untouched show ?thesis by (intro idle) (auto split: if_splits)
  next
    case (Th_done q)
    with assms(1-3) show ?thesis by (intro idle) auto
  qed (use assms(3) in simp_all)
qed

end
