(* ===== verification/BatchWorkers.thy ===== *)
theory BatchWorkers
  imports BatchQuiet
begin

text \<open>
  What the statements of a worker and of its settlement do to the batch it has locked in a quiet run: the row stays fine, the
  worker knows what its next statement needs, and the submission of the batch keeps what it relies on.
\<close>

section \<open>Workers\<close>

definition work_post :: "batch_env \<Rightarrow> string \<Rightarrow> batch_thread option \<Rightarrow> batch_thread \<Rightarrow> batch_db \<Rightarrow> batch_db \<Rightarrow> bool" where
  "work_post env b sub th db db' \<longleftrightarrow> batch_row_ok env b sub db' \<and> work_ok env b th db' \<and> sub_rely b db db' \<and> keeps_batch b db db'"

lemma work_post_untouched:
  assumes "batch_row_ok env b sub db" "untouched db db'" "work_ok env b th' db"
  shows "work_post env b sub th' db db'"
  using row_ok_untouched [OF assms(2,1)] assms(2,3)
  by (simp add: work_post_def work_ok_untouched sub_rely_kinds(1) keeps_kinds(1))

lemma work_post_change:
  assumes "batch_row_ok env b sub db" "row_change b r r' db db'" "row_fine env sub (bd_money db) r'" "work_ok env b th' db'"
    and "early_stage (bj_status r) \<Longrightarrow> early_stage (bj_status r')" "dead (bj_status r) \<Longrightarrow> dead (bj_status r')"
    and "terminal_status (bj_status r) \<Longrightarrow> terminal_status (bj_status r')"
  shows "work_post env b sub th' db db'"
  using row_ok_change [OF assms(2,1,3)] sub_rely_kinds(2) [OF assms(2,5)] keeps_kinds(3) [OF assms(2)] assms(4-)
  by (simp add: work_post_def)

lemma work_post_money:
  assumes "batch_row_ok env b sub db" "money_step rid P j db db'" "bj_batch j = b" "job_valid j" "claim_kind rid P"
    and "known_row j db" "rid = capture_request_id \<or> rid = release_request_id" "\<And>v. P v \<Longrightarrow> \<not> is_reserve v"
    and "\<And>r. bd_jobs db b = Some r \<Longrightarrow> row_fine env sub (bd_money db) r \<Longrightarrow> row_fine env sub (bd_money db') r"
    and "work_ok env b th' db'"
  shows "work_post env b sub th' db db'"
  using row_ok_money [OF assms(1,2,9)] sub_rely_money [OF assms(2,6,7,8)] keeps_kinds(2) [OF assms(2,4,5)] assms(3,10)
  by (simp add: work_post_def)

lemma busy_stages:
  "busy s \<Longrightarrow> \<not> early_stage s" "busy s \<Longrightarrow> \<not> dead s" "busy s \<Longrightarrow> \<not> terminal_status s" "busy s \<Longrightarrow> working s" "dead s \<Longrightarrow> working s"
  "working s \<Longrightarrow> busy s \<or> dead s"
  by (auto simp: stage_defs terminal_status_def)

lemma working_moves:
  assumes "working s" "can_transition s t"
  shows "t \<noteq> Bs_output_deleted \<Longrightarrow> busy s" "t = Bs_settling \<Longrightarrow> s = Bs_indexing"
  using assms by (auto simp: stage_defs can_transition_def terminal_status_def)

text \<open>A working row moves on.\<close>

lemma fine_busy:
  assumes "row_fine env sub m r" "busy (bj_status r)" "like r r'" "busy (bj_status r') \<or> bj_status r' = Bs_settling \<or> dead (bj_status r')"
  shows "row_fine env sub m r'"
proof (rule fine_unpaid [OF assms(1,3)])
  show "times_paid (hold_id r) m = 0" "times_returned (hold_id r) m = 0" "0 < times_taken (hold_id r) m"
    using row_fine_money(2-4) [OF assms(1)] assms(2) by (auto simp: stage_defs)
  show "\<not> young (bj_status r')" "\<not> finished (bj_status r')" using assms(4) by (auto simp: stage_defs)
qed

lemma work_move_keeps:
  assumes "work_move n now j t opts next_th db = (th', db')" "bj_batch j = b" "working_row j db" "batch_row_ok env b sub db"
    and "busy t \<or> t = Bs_settling \<or> dead t" "\<And>db'. at_row j (\<lambda>r. bj_status r = t) db' \<Longrightarrow> work_ok env b next_th db'"
  shows "work_post env b sub th' db db'"
proof -
  obtain x where x: "store_call n db (transition_job (bj_batch j) t opts now db) = (x, db')"
    and th': "th' = (case x of Inr _ \<Rightarrow> next_th | Inl e \<Rightarrow> Th_done (Res_error e))"
    using assms(1) by (auto simp: work_move_def split: prod.splits sum.splits)
  show ?thesis
  proof (rule row_effect_call [OF transition_effect x])
    fix e assume "untouched db db'" "x = Inl e"
    then show ?thesis by (intro work_post_untouched [OF assms(4)]) (simp_all add: th')
  next
    fix r r' assume "row_change (bj_batch j) r r' db db'" "can_transition (bj_status r) t \<and> r' = move_job t opts now r"
    then have change: "row_change b r r' db db'" and r': "can_transition (bj_status r) t" "r' = move_job t opts now r"
      using assms(2) by auto
    note ro = at_row_is [OF change assms(3) [unfolded working_row_def] assms(2)]
    have "t \<noteq> Bs_output_deleted" using assms(5) by (auto simp: stage_defs)
    then have busy: "busy (bj_status r)" using working_moves(1) [OF ro(1) r'(1)] by simp
    have "row_fine env sub (bd_money db) r'"
      by (rule fine_busy [OF row_ok_at(1) [OF assms(4) change] busy]) (use assms(5) in \<open>simp_all add: r'\<close>)
    moreover have "at_row j (\<lambda>r. bj_status r = t) db'"
      using at_row_change [OF change assms(3) [unfolded working_row_def] assms(2)] by (simp add: r')
    then have "work_ok env b th' db'" using assms(6) by (simp add: th' split: sum.splits)
    ultimately show ?thesis
      using busy_stages(1-4) [OF busy] by (intro work_post_change [OF assms(4) change]) auto
  qed
qed

lemma work_start_keeps:
  assumes "work_start n b db = (th', db')" "batch_row_ok env b sub db"
  shows "work_post env b sub th' db db'"
  by (rule work_post_untouched [OF assms(2)])
    (use assms(1) in \<open>auto simp: work_start_def split: sum.splits if_splits\<close>)

lemma get_job_call:
  assumes "fst (store_call n db (get_job b db, db)) = Inr j"
  shows "bd_jobs db b = Some j"
  using assms by (auto simp: store_call_def get_job_def split: net.splits option.splits)

lemma row_read: "bd_jobs db b = Some j \<Longrightarrow> batch_row_ok env b sub db \<Longrightarrow> bj_batch j = b \<and> row_fine env sub (bd_money db) j"
  by (simp add: batch_row_ok_def)

lemma at_row_read: "bd_jobs db (bj_batch j) = Some j \<Longrightarrow> P j \<Longrightarrow> at_row j P db"
  by (auto simp: at_row_def)

lemma work_read_keeps:
  assumes "work_read n account b db = (th', db')" "batch_row_ok env b sub db"
  shows "work_post env b sub th' db db'"
proof (rule work_post_untouched [OF assms(2)])
  show "untouched db db'" using assms(1) by (auto simp: work_read_def split: sum.splits if_splits)
  show "work_ok env b th' db"
  proof (cases "fst (store_call n db (get_job b db, db))")
    case (Inl e)
    then show ?thesis using assms(1) by (auto simp: work_read_def)
  next
    case (Inr j)
    note row = get_job_call [OF this]
    note fine = row_read [OF row assms(2)]
    have at: "at_row j P db" if "P j" for P using row fine that by (auto intro: at_row_read)
    have "dead_row j db" if "bj_status j = Bs_failed \<or> bj_status j = Bs_cancelled"
      unfolding dead_row_def by (rule at) (use that in \<open>auto simp: dead_def\<close>)
    moreover have "working_row j db" if "\<not> processor_done (bj_status j)" "deref (bj_provider_job j) \<noteq> []"
    proof -
      have "\<not> young (bj_status j)" using fine that(2) by (auto simp: row_fine_def deref_def)
      then have "busy (bj_status j)" using that(1)
        by (cases "bj_status j") (auto simp: processor_done_def terminal_status_def stage_defs)
      then show ?thesis unfolding working_row_def by (intro at) (simp add: busy_stages)
    qed
    ultimately show ?thesis
      using assms(1) Inr fine by (auto simp: work_read_def split: if_splits)
  qed
qed

lemma after_status_ok:
  assumes "bj_batch j = b" "working_row j db"
  shows "work_ok env b (after_status j st) db"
  using assms by (auto simp: after_status_def split: provider_state.splits)

lemma output_ref_ident [simp]: "ident (j\<lparr>bj_output_ref := x\<rparr>) = ident j" "bj_batch (j\<lparr>bj_output_ref := x\<rparr>) = bj_batch j"
  by (simp_all add: ident_alt)

lemma working_row_ident: "ident j' = ident j \<Longrightarrow> working_row j' db = working_row j db"
  by (simp add: working_row_def at_row_def ident_def)

lemma work_ref_keeps:
  assumes "work_ref n now j st db = (th', db')" "bj_batch j = b" "working_row j db" "batch_row_ok env b sub db"
  shows "work_post env b sub th' db db'"
proof (cases "trim_space (pv_output_ref st) = [] \<or> deref (bj_output_ref j) = trim_space (pv_output_ref st)")
  case True
  then have "db' = db" "th' = after_status j st" using assms(1) by (auto simp: work_ref_def Let_def)
  then show ?thesis
    using after_status_ok [OF assms(2,3), of env st] by (intro work_post_untouched [OF assms(4)]) simp_all
next
  case False
  let ?ref = "trim_space (pv_output_ref st)"
  obtain x where x: "store_call n db (update_output_ref (bj_batch j) ?ref now db) = (x, db')"
    and th': "th' = (case x of Inr _ \<Rightarrow> after_status (j\<lparr>bj_output_ref := Some ?ref\<rparr>) st | Inl e \<Rightarrow> Th_done (Res_error e))"
    using assms(1) False by (auto simp: work_ref_def Let_def split: prod.splits sum.splits)
  show ?thesis
  proof (rule row_effect_call [OF output_ref_effect x])
    fix e assume "untouched db db'" "x = Inl e"
    then show ?thesis by (intro work_post_untouched [OF assms(4)]) (simp_all add: th')
  next
    fix r r' assume "row_change (bj_batch j) r r' db db'" "\<exists>ref. r' = r\<lparr>bj_output_ref := ref, bj_updated := now\<rparr>"
    then have change: "row_change b r r' db db'" and st: "bj_status r' = bj_status r" "like r r'"
      using assms(2) by (auto simp: like_def ident_alt)
    note ro = at_row_is [OF change assms(3) [unfolded working_row_def] assms(2)]
    note fine = row_ok_at(1) [OF assms(4) change]
    have "row_fine env sub (bd_money db) r'"
    proof (cases "busy (bj_status r)")
      case True
      then show ?thesis using fine_busy [OF fine True st(2)] st(1) by simp
    next
      case False
      then have "dead (bj_status r)" using busy_stages(6) [OF ro(1)] by simp
      then show ?thesis
        using fine_dead [OF fine st(2) row_fine_money(1) [OF fine early_stages(6)]] st(1) by simp
    qed
    moreover have "working_row j db'"
      unfolding working_row_def by (rule at_row_change [OF change assms(3) [unfolded working_row_def] assms(2)]) (use ro st in simp)
    then have "work_ok env b th' db'"
      using after_status_ok [of "j\<lparr>bj_output_ref := Some ?ref\<rparr>" b db' env st] assms(2)
      by (simp add: th' working_row_ident [of "j\<lparr>bj_output_ref := Some ?ref\<rparr>" j] split: sum.splits)
    ultimately show ?thesis using st by (intro work_post_change [OF assms(4) change]) simp_all
  qed
qed

lemma index_failure_ok: "bj_batch j = b \<Longrightarrow> working_row j db \<Longrightarrow> work_ok env b (index_failure j e) db"
  by (simp add: index_failure_def)

lemma work_expect_keeps:
  assumes "work_expect n j db = (th', db')" "bj_batch j = b" "working_row j db" "batch_row_ok env b sub db"
  shows "work_post env b sub th' db db'"
  by (rule work_post_untouched [OF assms(4)])
    (use assms(1-3) index_failure_ok [OF assms(2,3)] in \<open>auto simp: work_expect_def split: sum.splits\<close>)

lemma work_replace_keeps:
  assumes "work_replace n now j st db = (th', db')" "bj_batch j = b" "working_row j db" "batch_row_ok env b sub db"
  shows "work_post env b sub th' db db'"
proof -
  obtain x where x: "store_call n db (replace_items (bj_batch j) (ix_items st) (ix_success st) (ix_fail st) now db) = (x, db')"
    and th': "th' = (case x of Inr _ \<Rightarrow> Wk_settling j | Inl e \<Rightarrow> index_failure j e)"
    using assms(1) by (auto simp: work_replace_def split: prod.splits sum.splits)
  have ok: "work_ok env b th' db''" if "working_row j db''" for db''
    using index_failure_ok [OF assms(2) that] that assms(2) by (auto simp: th' split: sum.splits)
  show ?thesis
  proof (rule row_effect_call [OF replace_effect x])
    fix e assume "untouched db db'"
    then show ?thesis by (rule work_post_untouched [OF assms(4)]) (rule ok [OF assms(3)])
  next
    fix r r' assume "row_change (bj_batch j) r r' db db'" "bj_status r = Bs_indexing \<and> like r r' \<and> bj_status r' = Bs_indexing"
    then have change: "row_change b r r' db db'" and r': "bj_status r = Bs_indexing" "like r r'" "bj_status r' = Bs_indexing"
      using assms(2) by auto
    have "working_row j db'"
      unfolding working_row_def
      by (rule at_row_change [OF change assms(3) [unfolded working_row_def] assms(2)]) (simp add: r' stage_defs)
    moreover have "row_fine env sub (bd_money db) r'"
      by (rule fine_busy [OF row_ok_at(1) [OF assms(4) change] _ r'(2)]) (simp_all add: r' stage_defs)
    ultimately show ?thesis
      by (intro work_post_change [OF assms(4) change]) (simp_all add: ok r' stage_defs terminal_status_def)
  qed
qed

lemma work_release_keeps:
  assumes "work_release env n j db = (th', db')" "bj_batch j = b" "dead_row j db" "batch_row_ok env b sub db"
  shows "work_post env b sub th' db db'"
proof (cases "bj_status j \<noteq> Bs_failed \<and> bj_status j \<noteq> Bs_cancelled")
  case True
  then show ?thesis using assms(1) by (intro work_post_untouched [OF assms(4)]) (auto simp: work_release_def)
next
  case False
  obtain x where x: "release_hold env n j (deref (bj_request_hash j)) db = (x, db')" and th': "\<exists>q. th' = Th_done q"
    using assms(1) False by (auto simp: work_release_def split: prod.splits option.splits)
  obtain r where r: "bd_jobs db b = Some r" "hold_id r = hold_id j" "job_valid j" "dead (bj_status r)"
    using at_row_valid [of env j sub db] assms(2-4) unfolding dead_row_def by metis
  note step = release_money [OF x r(3)]
  show ?thesis
    using work_post_money [OF assms(4) step assms(2) r(3)] fine_release [OF _ x r(3)] r at_row_any [OF assms(3) [unfolded dead_row_def]]
      th' move_kinds(1) by (auto simp: claim_kind_def)
qed


section \<open>Settlements\<close>

lemma settle_read_keeps:
  assumes "settle_read env n catalog b db = (th', db')" "batch_row_ok env b sub db"
  shows "work_post env b sub th' db db'"
proof (rule work_post_untouched [OF assms(2)])
  show "untouched db db'" using assms(1) by (auto simp: settle_read_def split: sum.splits)
  show "work_ok env b th' db"
  proof (cases "fst (store_call n db (get_job b db, db))")
    case (Inl e)
    then show ?thesis using assms(1) by (auto simp: settle_read_def)
  next
    case (Inr j)
    note row = get_job_call [OF this]
    have j: "bj_batch j = b" "row_fine env sub (bd_money db) j" using row_read [OF row assms(2)] by simp_all
    have at: "at_row j P db" if "P j" for P using row j(1) that by (auto intro: at_row_read)
    have "given_up j db" if "retry_exhausted j"
      unfolding given_up_def by (rule at) (rule that)
    moreover have "work_ok env b (settle_checks env catalog j) db" if st: "bj_status j = Bs_settling" "\<not> retry_exhausted j"
    proof -
      have "bj_price_version j = 1" using j(2) by (simp add: row_fine_def)
      then show ?thesis
      proof (cases rule: settle_checks_cases [of j env catalog])
        case 1
        then have "may_capture env j db" unfolding may_capture_def by (intro at) (simp add: st)
        with 1 j(1) show ?thesis by simp
      next
        case (2 code e)
        have "at_row j (\<lambda>r. bj_status r = Bs_settling) db" by (rule at) (rule st(1))
        then have "not_captured j db"
          using row_fine_money(7,9) [OF j(2) st(1)] st(2) 2(2) by (simp add: not_captured_def)
        with 2 j(1) show ?thesis by simp
      qed
    qed
    ultimately show ?thesis
      using assms(1) Inr j(1) by (auto simp: settle_read_def split: if_splits)
  qed
qed

lemma billing_code: "prefix ''SETTLEMENT_'' (trim_space ''SETTLEMENT_BILLING_FAILED'')"
  by code_simp

lemma settle_capture_keeps:
  assumes "settle_capture env Net_ok j cost db = (th', db')" "bj_batch j = b" "cost = due j" "may_capture env j db" "batch_row_ok env b sub db"
  shows "work_post env b sub th' db db'"
proof -
  obtain x where x: "capture_hold env Net_ok j (due j) (manifest_hash env j) db = (x, db')"
    and th': "th' = (if x = None then St_mark j cost else St_failure j ''SETTLEMENT_BILLING_FAILED'' (the x))"
    using assms(1,3) by (auto simp: settle_capture_def split: prod.splits option.splits)
  obtain r where r: "bd_jobs db b = Some r" "row_fine env sub (bd_money db) r" "hold_id r = hold_id j" "job_valid j"
    "bj_status r = Bs_settling" "settle_view r = settle_view j" "\<not> retry_exhausted r" "settle_passes env r"
  proof -
    have row: "batch_row_ok env (bj_batch j) sub db" using assms(2,5) by simp
    show ?thesis
      by (rule at_row_valid [OF row assms(4) [unfolded may_capture_def]]) (use assms(2) that in auto)
  qed
  note step = capture_money [OF x r(4)]
  note same = settle_view_same [OF r(6)]
  have fine: "row_fine env sub (bd_money db') r'" if "bd_jobs db b = Some r'" for r'
    using fine_capture [OF r(2) x r(4-8)] that r(1) by simp
  have captures: "may_capture env j db'" using assms(4) at_row_money [OF step] by (simp add: may_capture_def)
  have "work_ok env b th' db'"
  proof (cases x)
    case None
    have "0 < times_paid (hold_id j) (bd_money db')"
    proof (cases "claimed capture_request_id (hold_id j) (bd_money db)")
      case True
      then have "0 < times_paid (hold_id j) (bd_money db)" using r(2,3) by (simp add: row_fine_def charged_ok_def)
      moreover have "bd_money db' = bd_money db" using True step by (auto simp: money_step_def money_effect_def)
      ultimately show ?thesis by simp
    next
      case False
      have "hd_archive (bd_money db) (capture_request_id (bj_batch j), the (bj_key j)) = None"
        using r(2,3) by (simp add: row_fine_def unarchived_def hold_id_def)
      with capture_hold_paid(2) [OF x r(4) None False] show ?thesis by simp
    qed
    with captures None assms(2) show ?thesis by (simp add: th' has_captured_def)
  next
    case (Some e)
    then have "db' = db" using capture_hold_fails [OF _ r(4)] x by simp
    have "times_paid (hold_id j) (bd_money db) = 0"
    proof (rule ccontr)
      assume "times_paid (hold_id j) (bd_money db) \<noteq> 0"
      then have "hd_claims (bd_money db) (capture_request_id (bj_batch r), the (bj_key r)) = Some (due_print env r)"
        using r(2,3,5) by (auto simp: row_fine_def paid_ok_def finished_def)
      then have "hd_claims (bd_money db) (capture_request_id (bj_batch j), the (bj_key j))
          = Some (capture_print env j (due j) (manifest_hash env j))"
        using r(3) same by (simp add: hold_id_eq due_print_def)
      from capture_hold_again [OF r(4) this] x Some show False by simp
    qed
    moreover have "times_returned (hold_id j) (bd_money db) = 0" using row_fine_money(7) [OF r(2,5,7)] r(3) by simp
    moreover have "at_row j (\<lambda>r. bj_status r = Bs_settling) db" using assms(4) by (auto simp: may_capture_def at_row_def)
    ultimately have "not_captured j db'" using \<open>db' = db\<close> by (simp add: not_captured_def)
    with Some assms(2) show ?thesis by (simp add: th' billing_code)
  qed
  with fine show ?thesis
    using work_post_money [OF assms(5) step assms(2) r(4) _ at_row_any [OF assms(4) [unfolded may_capture_def]] _ move_kinds(3)]
    by (simp add: claim_kind_def)
qed

lemma settle_mark_keeps:
  assumes "settle_mark su n now j cost db = (th', db')" "bj_batch j = b" "has_captured env j db" "batch_row_ok env b sub db"
  shows "work_post env b sub th' db db'"
proof -
  let ?ex = "Some (now + output_retention (bs_retention_hours su))"
  obtain x where x: "store_call n db (mark_settled (bj_batch j) cost (manifest_hash (bs_env su) j) now ?ex db) = (x, db')"
    and th': "\<exists>q. th' = Th_done q"
    using assms(1) by (auto simp: settle_mark_def split: prod.splits sum.splits)
  show ?thesis
  proof (rule row_effect_call [OF settled_effect x])
    fix e assume "untouched db db'"
    then show ?thesis by (rule work_post_untouched [OF assms(4)]) (use th' in auto)
  next
    fix r r' assume "row_change (bj_batch j) r r' db db'" "bj_status r = Bs_settling \<and> like r r' \<and> bj_status r' = Bs_completed"
    then have change: "row_change b r r' db db'" and r': "bj_status r = Bs_settling" "like r r'" "bj_status r' = Bs_completed"
      using assms(2) by auto
    have may: "may_capture env j db" and paid: "0 < times_paid (hold_id j) (bd_money db)" using assms(3) by (simp_all add: has_captured_def)
    note ro = at_row_is [OF change may [unfolded may_capture_def] assms(2)]
    note fine = row_ok_at(1) [OF assms(4) change]
    have "row_fine env sub (bd_money db) r'"
      by (rule fine_finished [OF fine r'(2)])
        (use ro paid row_fine_money(4,7) [OF fine] r' in \<open>auto simp: stage_defs\<close>)
    then show ?thesis
      using th' by (intro work_post_change [OF assms(4) change]) (auto simp: r' stage_defs terminal_status_def)
  qed
qed

lemma settlement_failure_answer:
  assumes "record_settlement_failure b code now db = (Inr tries, db')"
  shows "bd_jobs db' b \<noteq> None \<and> (\<forall>r. bd_jobs db' b = Some r \<longrightarrow> bj_retry_count r = tries)"
  using assms by (auto simp: record_settlement_failure_def update_job_jobs split: option.splits)

lemma settle_failure_keeps:
  assumes "settle_failure n now j code e db = (th', db')" "bj_batch j = b" "not_captured j db" "prefix ''SETTLEMENT_'' (trim_space code)"
    and "batch_row_ok env b sub db"
  shows "work_post env b sub th' db db'"
proof -
  obtain x where x: "store_call n db (record_settlement_failure (bj_batch j) code now db) = (x, db')"
    and th': "th' = (case x of Inr tries \<Rightarrow>
        if settlement_max_retries \<le> tries then St_release (j\<lparr>bj_retry_count := tries, bj_error_code := Some code\<rparr>)
        else Th_done (settle_result e) | Inl _ \<Rightarrow> Th_done (settle_result e))"
    using assms(1) by (auto simp: settle_failure_def split: prod.splits sum.splits)
  show ?thesis
  proof (rule row_effect_call [OF settlement_failure_effect x])
    fix e assume "untouched db db'" "x = Inl e"
    then show ?thesis by (intro work_post_untouched [OF assms(5)]) (simp_all add: th')
  next
    fix r r' assume "row_change (bj_batch j) r r' db db'" "like r r' \<and> bj_status r' = bj_status r
        \<and> bj_retry_count r' = bj_retry_count r + 1 \<and> bj_error_code r' = Some code"
    then have change: "row_change b r r' db db'" and r': "like r r'" "bj_status r' = bj_status r" "bj_error_code r' = Some code"
      using assms(2) by auto
    have st: "at_row j (\<lambda>r. bj_status r = Bs_settling) db" and zero: "times_paid (hold_id j) (bd_money db) = 0"
      "times_returned (hold_id j) (bd_money db) = 0" using assms(3) by (simp_all add: not_captured_def)
    note ro = at_row_is [OF change st assms(2)]
    note fine = row_ok_at(1) [OF assms(5) change]
    have "row_fine env sub (bd_money db) r'"
      by (rule fine_unpaid [OF fine r'(1)])
        (use ro zero row_fine_money(4) [OF fine] r' in \<open>auto simp: stage_defs\<close>)
    moreover have "work_ok env b th' db'"
    proof (cases x)
      case (Inr tries)
      then have "record_settlement_failure (bj_batch j) code now db = (Inr tries, db')" using store_effect [OF x] by auto
      from settlement_failure_answer [OF this] change assms(2) have "bj_retry_count r' = tries" by (auto simp: row_change_def)
      then have "retry_exhausted r'" if "settlement_max_retries \<le> tries"
        using that r' ro assms(4) by (simp add: retry_exhausted_def deref_def)
      moreover have "ident (j\<lparr>bj_retry_count := tries, bj_error_code := Some code\<rparr>) = ident j" by (simp add: ident_alt)
      ultimately show ?thesis
        using Inr assms(2) at_row_change [OF change st assms(2), of retry_exhausted] by (auto simp: th' given_up_def at_row_def)
    qed (simp add: th')
    ultimately show ?thesis by (intro work_post_change [OF assms(5) change]) (simp_all add: r')
  qed
qed

lemma exhausted_not_early: "retry_exhausted r \<Longrightarrow> \<not> early_stage (bj_status r)"
  by (auto simp: retry_exhausted_def stage_defs)

lemma settle_release_keeps:
  assumes "settle_release env n j db = (th', db')" "bj_batch j = b" "given_up j db" "batch_row_ok env b sub db"
  shows "work_post env b sub th' db db'"
proof -
  obtain x where x: "release_hold env n j (deref (bj_request_hash j)) db = (x, db')"
    and th': "th' = St_exhaust j \<or> th' = St_unreleased j"
    using assms(1) by (auto simp: settle_release_def split: prod.splits option.splits)
  obtain r where r: "bd_jobs db b = Some r" "hold_id r = hold_id j" "job_valid j" "retry_exhausted r"
    using at_row_valid [of env j sub db] assms(2-4) unfolding given_up_def by metis
  note step = release_money [OF x r(3)]
  have "given_up j db'" using assms(3) at_row_money [OF step] by (simp add: given_up_def)
  then have "work_ok env b th' db'" using th' assms(2) by auto
  then show ?thesis
    using work_post_money [OF assms(4) step assms(2) r(3)] fine_release [OF _ x r(3)] r at_row_any [OF assms(3) [unfolded given_up_def]]
      move_kinds(1) by (auto simp: claim_kind_def)
qed

lemma release_code: "prefix ''SETTLEMENT_'' (trim_space ''SETTLEMENT_RELEASE_FAILED'')"
  by code_simp

lemma settle_unreleased_keeps:
  assumes "store_call n db (record_settlement_failure b ''SETTLEMENT_RELEASE_FAILED'' now db) = (x, db')" "bj_batch j = b" "given_up j db"
    and "batch_row_ok env b sub db"
  shows "work_post env b sub (Th_done q) db db'"
proof (rule row_effect_call [OF settlement_failure_effect assms(1)])
  fix e assume "untouched db db'"
  then show ?thesis by (intro work_post_untouched [OF assms(4)]) simp_all
next
  fix r r' assume change: "row_change b r r' db db'" and "like r r' \<and> bj_status r' = bj_status r
      \<and> bj_retry_count r' = bj_retry_count r + 1 \<and> bj_error_code r' = Some ''SETTLEMENT_RELEASE_FAILED''"
  then have r': "like r r'" "bj_status r' = bj_status r" "bj_retry_count r' = bj_retry_count r + 1"
    "bj_error_code r' = Some ''SETTLEMENT_RELEASE_FAILED''" by simp_all
  note ro = at_row_is [OF change assms(3) [unfolded given_up_def] assms(2)]
  have "retry_exhausted r'" using ro(1) r' release_code by (simp add: retry_exhausted_def deref_def)
  with fine_exhausted [OF row_ok_at(1) [OF assms(4) change] r'(1) ro(1)] show ?thesis
    by (intro work_post_change [OF assms(4) change]) (simp_all add: r')
qed

lemma settle_exhaust_keeps:
  assumes "settle_exhaust n now j db = (th', db')" "bj_batch j = b" "given_up j db" "batch_row_ok env b sub db"
  shows "work_post env b sub th' db db'"
proof -
  let ?o = "\<lparr>to_event = ''settlement_retry_exhausted'', to_code = Some ''SETTLEMENT_BILLING_RETRY_EXHAUSTED''\<rparr>"
  obtain x where x: "store_call n db (transition_job (bj_batch j) Bs_failed ?o now db) = (x, db')"
    and th': "\<exists>q. th' = Th_done q"
    using assms(1) by (auto simp: settle_exhaust_def split: prod.splits sum.splits)
  show ?thesis
  proof (rule row_effect_call [OF transition_effect x])
    fix e assume "untouched db db'"
    then show ?thesis by (rule work_post_untouched [OF assms(4)]) (use th' in auto)
  next
    fix r r' assume "row_change (bj_batch j) r r' db db'" "can_transition (bj_status r) Bs_failed \<and> r' = move_job Bs_failed ?o now r"
    then have change: "row_change b r r' db db'" and r': "r' = move_job Bs_failed ?o now r" using assms(2) by auto
    note ro = at_row_is [OF change assms(3) [unfolded given_up_def] assms(2)]
    note fine = row_ok_at(1) [OF assms(4) change]
    have "row_fine env sub (bd_money db) r'"
      by (rule fine_dead [OF fine]) (use row_fine_money(8) [OF fine ro(1)] in \<open>simp_all add: r' dead_def\<close>)
    then show ?thesis
      using th' exhausted_settling [OF ro(1)]
      by (intro work_post_change [OF assms(4) change]) (auto simp: r' stage_defs terminal_status_def)
  qed
qed

text \<open>Every statement of a worker.\<close>

lemma worker_keeps:
  assumes "thread_step su now ot th db = (th', db')" "quiet_batch th ot" "work_ok (bs_env su) b th db" "batch_row_ok (bs_env su) b sub db"
  shows "work_post (bs_env su) b sub th' db db'"
proof -
  have at_working: "working_row j db'" if "at_row j (\<lambda>r. bj_status r = t) db'" "working t" for j t db'
    using that by (auto simp: working_row_def at_row_def)
  have at_dead: "dead_row j db'" if "at_row j (\<lambda>r. bj_status r = t) db'" "dead t" for j t db'
    using that by (auto simp: dead_row_def at_row_def)
  have moves: "work_post (bs_env su) b sub th' db db'"
    if "work_move (oa_net ot) now j t opts next_th db = (th', db')" "bj_batch j = b" "working_row j db"
      "busy t \<or> t = Bs_settling \<or> dead t" "\<And>db'. at_row j (\<lambda>r. bj_status r = t) db' \<Longrightarrow> work_ok (bs_env su) b next_th db'"
    for j t opts next_th
    using work_move_keeps [OF that(1-3) assms(4) that(4,5)] .
  show ?thesis
  proof (cases th)
    case (Wk_start b')
    with assms show ?thesis by (intro work_start_keeps) simp_all
  next
    case (Wk_read b')
    with assms show ?thesis by (intro work_read_keeps) simp_all
  next
    case (Wk_release j)
    with assms show ?thesis by (intro work_release_keeps [where j = j]) simp_all
  next
    case (Wk_status j)
    with assms show ?thesis
      by (intro work_post_untouched) (auto simp: work_status_def split: status_answer.splits)
  next
    case (Wk_ref j st)
    with assms show ?thesis by (intro work_ref_keeps [where j = j]) simp_all
  next
    case (Wk_running j)
    with assms have "work_move (oa_net ot) now j Bs_running (no_options ''provider_status_checked'') (Th_done Res_requeue) db = (th', db')" by simp
    then show ?thesis by (rule moves) (use assms(3) Wk_running in \<open>simp_all add: busy_def\<close>)
  next
    case (Wk_indexing j)
    with assms have "work_move (oa_net ot) now j Bs_indexing (no_options ''indexing_started'') (Wk_expect (j\<lparr>bj_status := Bs_indexing\<rparr>)) db = (th', db')" by simp
    then show ?thesis
      by (rule moves) (use assms(3) Wk_indexing at_working [of j Bs_indexing] in \<open>simp_all add: busy_def working_def\<close>)
  next
    case (Wk_expect j)
    with assms show ?thesis by (intro work_expect_keeps [where j = j]) simp_all
  next
    case (Wk_index j ids)
    with assms have j: "bj_batch j = b" "working_row j db" by simp_all
    with Wk_index assms(1) index_failure_ok [OF j] show ?thesis
      by (intro work_post_untouched [OF assms(4)]) (auto simp: work_index_def split: option.splits sum.splits)
  next
    case (Wk_replace j st)
    with assms show ?thesis by (intro work_replace_keeps [where j = j]) simp_all
  next
    case (Wk_settling j)
    with assms have "work_move (oa_net ot) now j Bs_settling (no_options ''indexing_completed'') (Th_done Res_requeue) db = (th', db')" by simp
    then show ?thesis by (rule moves) (use assms(3) Wk_settling in simp_all)
  next
    case (Wk_fail j ev code)
    with assms have "work_move (oa_net ot) now j Bs_failed \<lparr>to_event = ev, to_code = Some code\<rparr> (Wk_release (j\<lparr>bj_status := Bs_failed\<rparr>)) db = (th', db')" by simp
    then show ?thesis
      by (rule moves) (use assms(3) Wk_fail at_dead [of j Bs_failed] in \<open>simp_all add: dead_def\<close>)
  next
    case (Wk_cancelled j)
    with assms have "work_move (oa_net ot) now j Bs_cancelled (no_options ''job_failed'') (Wk_release (j\<lparr>bj_status := Bs_cancelled\<rparr>)) db = (th', db')" by simp
    then show ?thesis
      by (rule moves) (use assms(3) Wk_cancelled at_dead [of j Bs_cancelled] in \<open>simp_all add: dead_def\<close>)
  next
    case (St_read b')
    with assms show ?thesis by (intro settle_read_keeps) simp_all
  next
    case (St_capture j cost)
    with assms show ?thesis by (intro settle_capture_keeps [where j = j]) simp_all
  next
    case (St_mark j cost)
    with assms show ?thesis by (intro settle_mark_keeps [where j = j]) simp_all
  next
    case (St_failure j code e)
    with assms show ?thesis by (intro settle_failure_keeps [where j = j and code = code and e = e]) simp_all
  next
    case (St_release j)
    with assms show ?thesis by (intro settle_release_keeps [where j = j]) simp_all
  next
    case (St_unreleased j)
    obtain x db1 where x: "store_call (oa_net ot) db (record_settlement_failure b ''SETTLEMENT_RELEASE_FAILED'' now db) = (x, db1)" by fastforce
    then have "db1 = db'" "th' = Th_done Res_requeue" using assms(1,3) St_unreleased by auto
    with x show ?thesis using settle_unreleased_keeps assms(3,4) St_unreleased by auto
  next
    case (St_exhaust j)
    with assms show ?thesis by (intro settle_exhaust_keeps [where j = j]) simp_all
  next
    case (Th_done q)
    with assms show ?thesis by (intro work_post_untouched) auto
  qed (use assms(3) in simp_all)
qed

end
