(* ===== verification/BatchOthers.thy ===== *)
theory BatchOthers
  imports BatchWorkers
begin

text \<open>
  What the calls that may meet any batch at any time do in a quiet run: cancellations, recoveries of stale submissions,
  clean-ups, and the marks of downloads and deleted records.
\<close>

section \<open>Cancellations and recoveries\<close>

text \<open>What a statement of another call leaves, for every batch; \<open>subs\<close> are the submissions.\<close>

definition spreads :: "batch_env \<Rightarrow> (string \<Rightarrow> batch_thread option) \<Rightarrow> batch_db \<Rightarrow> batch_db \<Rightarrow> bool" where
  "spreads env subs db db' \<longleftrightarrow>
     (\<forall>b. batch_row_ok env b (subs b) db' \<and> sub_rely b db db' \<and> work_rely b db db')
     \<and> rows_grow db db' \<and> (claims_ok (bd_money db) \<longrightarrow> claims_ok (bd_money db'))"

lemma keeps_elsewhere:
  assumes "keeps_batch b db db'" "batch_row_ok env b' sub db" "b' \<noteq> b"
  shows "batch_row_ok env b' sub db'" "sub_rely b' db db'" "work_rely b' db db'"
proof -
  have "same_batch b' db db'" using assms(1,3) by (simp add: keeps_batch_def only_batch_def)
  then show "batch_row_ok env b' sub db'" "sub_rely b' db db'" "work_rely b' db db'"
    using row_ok_same [OF assms(2)] same_batch_rely [OF _ assms(2)] by simp_all
qed

lemma spreadsI:
  assumes "\<And>b. batch_row_ok env b (subs b) db" "keeps_batch b db db'" "batch_row_ok env b (subs b) db'" "sub_rely b db db'" "work_rely b db db'"
  shows "spreads env subs db db'"
  unfolding spreads_def
proof (intro conjI allI)
  fix b'
  show "batch_row_ok env b' (subs b') db'" "sub_rely b' db db'" "work_rely b' db db'"
    using keeps_elsewhere [OF assms(2) assms(1) [of b']] assms(3-5) by (cases "b' = b"; simp)+
qed (use assms(2) in \<open>simp_all add: keeps_batch_def\<close>)

lemma spreads_untouched:
  assumes "\<And>b. batch_row_ok env b (subs b) db" "untouched db db'"
  shows "spreads env subs db db'"
  using spreadsI [OF assms(1) keeps_kinds(1) [OF assms(2)] row_ok_untouched [OF assms(2,1)] sub_rely_kinds(1) [OF assms(2)]
      work_rely_kinds(1) [OF assms(2)]] .

lemma spreads_change:
  assumes "\<And>b. batch_row_ok env b (subs b) db" "row_change b r r' db db'" "row_fine env (subs b) (bd_money db) r'"
    and "early_stage (bj_status r) \<Longrightarrow> early_stage (bj_status r')" "working (bj_status r) \<Longrightarrow> working (bj_status r')"
    and "dead (bj_status r) \<Longrightarrow> dead (bj_status r')" "terminal_status (bj_status r) \<Longrightarrow> terminal_status (bj_status r')"
    and "bj_status r = Bs_settling \<Longrightarrow> bj_status r' = Bs_settling \<and> settle_view r' = settle_view r \<and> retry_exhausted r' = retry_exhausted r"
  shows "spreads env subs db db'"
  using spreadsI [OF assms(1) keeps_kinds(3) [OF assms(2)] row_ok_change [OF assms(2) assms(1) [of b] assms(3)]
      sub_rely_kinds(2) [OF assms(2)] work_rely_kinds(2) [OF assms(2)]] assms(4-) by blast

lemma spreads_release:
  assumes "\<And>b. batch_row_ok env b (subs b) db" "release_hold env n j payload db = (x, db')" "dead_row j db"
  shows "spreads env subs db db'"
proof -
  obtain r where r: "bd_jobs db (bj_batch j) = Some r" "hold_id r = hold_id j" "job_valid j" "dead (bj_status r)"
    using at_row_valid [OF assms(1) assms(3) [unfolded dead_row_def]] by metis
  note step = release_money [OF assms(2) r(3)]
  have at: "at_row j (\<lambda>r. bj_status r \<noteq> Bs_settling) db" using assms(3) by (auto simp: dead_row_def at_row_def dead_def)
  have "batch_row_ok env (bj_batch j) (subs (bj_batch j)) db'"
    by (rule row_ok_money [OF assms(1) step], rule fine_release [OF _ assms(2) r(3)]) (use r in auto)
  then show ?thesis
    using spreadsI [OF assms(1) keeps_kinds(2) [OF step r(3)]] work_rely_money [OF step at move_kinds(2)]
      sub_rely_money [OF step at_row_any [OF at] _ move_kinds(1)] by (simp add: claim_kind_def)
qed

lemma to_cancelled: "can_transition s Bs_cancelled \<Longrightarrow> young s \<or> busy s"
  by (cases s) (auto simp: can_transition_def terminal_status_def stage_defs)

lemma dies:
  assumes "row_fine env sub m r" "young (bj_status r) \<or> busy (bj_status r)" "like r r'" "dead (bj_status r')"
  shows "row_fine env sub m r'"
  using fine_dead [OF assms(1,3) _ assms(4)] row_fine_money(1,2) [OF assms(1)] assms(2) by (auto simp: early_stage_def)

lemma spreads_dies:
  assumes "\<And>b. batch_row_ok env b (subs b) db" "row_change b r r' db db'" "young (bj_status r) \<or> busy (bj_status r)" "like r r'"
    and "dead (bj_status r')"
  shows "spreads env subs db db'"
proof (rule spreads_change [OF assms(1,2)])
  show "row_fine env (subs b) (bd_money db) r'" using dies [OF row_ok_at(1) [OF assms(1,2)] assms(3-5)] .
  show "bj_status r = Bs_settling \<Longrightarrow> bj_status r' = Bs_settling \<and> settle_view r' = settle_view r \<and> retry_exhausted r' = retry_exhausted r"
    using assms(3) by (auto simp: stage_defs)
qed (use early_stages(4-6) [OF assms(5)] assms(5) in simp_all)

lemma dead_after:
  assumes "row_change (bj_batch j) r r' db db'" "known_row j db" "dead (bj_status r')"
  shows "dead_row j db'"
  using at_row_change [OF assms(1) assms(2) [unfolded known_row_def]] assms(3) by (simp add: dead_row_def)

definition other_post :: "batch_env \<Rightarrow> (string \<Rightarrow> batch_thread option) \<Rightarrow> batch_thread \<Rightarrow> batch_db \<Rightarrow> batch_db \<Rightarrow> bool" where
  "other_post env subs th db db' \<longleftrightarrow> other_ok th db' \<and> spreads env subs db db'"

lemma other_ok_untouched: "untouched db db' \<Longrightarrow> other_ok th db' = other_ok th db"
  by (cases th) (simp_all add: row_defs at_row_def untouched_def)

lemma other_post_untouched:
  assumes "\<And>b. batch_row_ok env b (subs b) db" "untouched db db'" "other_ok th' db"
  shows "other_post env subs th' db db'"
  using spreads_untouched [OF assms(1,2)] assms(2,3) by (simp add: other_post_def other_ok_untouched)

lemma cancel_read_keeps:
  assumes "cancel_read n user key batch db = (th', db')" "\<And>b. batch_row_ok env b (subs b) db"
  shows "other_post env subs th' db db'"
proof (rule other_post_untouched [OF assms(2)])
  show "untouched db db'" using assms(1) by (auto simp: cancel_read_def split: sum.splits)
  show "other_ok th' db"
  proof (cases "fst (store_call n db (get_job_for_owner user key batch db, db))")
    case (Inl e)
    then show ?thesis using assms(1) by (auto simp: cancel_read_def)
  next
    case (Inr j)
    then have row: "bd_jobs db batch = Some j"
      by (auto simp: store_call_def get_job_for_owner_def split: net.splits option.splits if_splits)
    then have "bd_jobs db (bj_batch j) = Some j" using row_read [OF _ assms(2) [of batch]] by simp
    then have "known_row j db" "dead (bj_status j) \<Longrightarrow> dead_row j db"
      by (auto simp: known_row_def dead_row_def intro: at_row_read)
    then show ?thesis using assms(1) Inr by (auto simp: cancel_read_def dead_def split: if_splits)
  qed
qed

lemma cancel_move_keeps:
  assumes "cancel_move n now j db = (th', db')" "known_row j db" "\<And>b. batch_row_ok env b (subs b) db"
  shows "other_post env subs th' db db'"
proof -
  obtain x where x: "store_call n db (transition_job (bj_batch j) Bs_cancelled (no_options ''job_cancelled'') now db) = (x, db')"
    and th': "th' = (case x of Inr _ \<Rightarrow> Can_release j | Inl e \<Rightarrow> Th_done (Res_error e))"
    using assms(1) by (auto simp: cancel_move_def split: prod.splits sum.splits)
  show ?thesis
  proof (rule row_effect_call [OF transition_effect x])
    fix e assume "untouched db db'" "x = Inl e"
    then show ?thesis by (intro other_post_untouched [OF assms(3)]) (simp_all add: th')
  next
    fix r r' assume change: "row_change (bj_batch j) r r' db db'"
      and r': "can_transition (bj_status r) Bs_cancelled \<and> r' = move_job Bs_cancelled (no_options ''job_cancelled'') now r"
    then have "like r r'" "dead (bj_status r')" "young (bj_status r) \<or> busy (bj_status r)"
      using to_cancelled by (auto simp: dead_def)
    with spreads_dies [OF assms(3) change] dead_after [OF change assms(2)] show ?thesis
      by (auto simp: other_post_def th' split: sum.splits)
  qed
qed

lemma jobs_by_id_row: "j \<in> set (jobs_by_id db) \<Longrightarrow> \<exists>b. bd_jobs db b = Some j"
  by (auto simp: jobs_by_id_def map_filter_def split: option.splits)

lemma listed_rows:
  "j \<in> set (list_stale_unsubmitted cutoff limit db) \<Longrightarrow> \<exists>b. bd_jobs db b = Some j"
  "j \<in> set (list_due_for_input cutoff limit db) \<Longrightarrow> \<exists>b. bd_jobs db b = Some j \<and> terminal_status (bj_status j)"
  "j \<in> set (list_due_for_output now limit db) \<Longrightarrow> \<exists>b. bd_jobs db b = Some j \<and> terminal_status (bj_status j)"
  by (auto simp: list_stale_unsubmitted_def list_due_for_input_def list_due_for_output_def input_due_def output_due_def
      terminal_status_def set_stable_sort dest!: in_set_takeD jobs_by_id_row)

lemma listed_at_row:
  assumes "bd_jobs db b = Some j" "\<And>b. batch_row_ok env b (subs b) db" "P j"
  shows "at_row j P db"
  using row_read [OF assms(1) assms(2)] assms(1,3) by (auto intro: at_row_read)

lemma recover_list_keeps:
  assumes "recover_list n cutoff limit db = (th', db')" "\<And>b. batch_row_ok env b (subs b) db"
  shows "other_post env subs th' db db'"
proof (rule other_post_untouched [OF assms(2)])
  show "untouched db db'" using assms(1) by (auto simp: recover_list_def split: sum.splits)
  have "known_row j db" if "j \<in> set (list_stale_unsubmitted cutoff limit db)" for j
    using listed_rows(1) [OF that] listed_at_row [OF _ assms(2)] by (auto simp: known_row_def)
  then show "other_ok th' db"
    using assms(1) by (auto simp: recover_list_def store_call_def split: sum.splits net.splits)
qed

lemma recover_jobs_keeps:
  assumes "recover_jobs n now js cutoff db = (th', db')" "\<forall>j \<in> set js. known_row j db" "\<And>b. batch_row_ok env b (subs b) db"
  shows "other_post env subs th' db db'"
proof (cases js)
  case Nil
  with assms(1) show ?thesis by (intro other_post_untouched [OF assms(3)]) auto
next
  case (Cons j rest)
  let ?res = "fail_stale_job (bj_batch j) cutoff ''SUBMIT_STALE_BEFORE_PROVIDER'' now db"
  obtain x where x: "store_call n db ?res = (x, db')"
    and th': "th' = (case x of Inr applied \<Rightarrow> if applied then Rec_release (j\<lparr>bj_status := Bs_failed\<rparr>) rest cutoff else Rec_jobs rest cutoff
      | Inl _ \<Rightarrow> Rec_jobs rest cutoff)"
    using assms(1) Cons by (auto split: prod.splits sum.splits)
  have rest: "\<forall>j \<in> set rest. known_row j db" and j: "known_row j db" using assms(2) Cons by simp_all
  show ?thesis
  proof (cases "?res = (Inr False, db)")
    case True
    then have "db' = db" "x = Inr False \<or> (\<exists>e. x = Inl e)" using store_effect [OF x] by auto
    then show ?thesis using rest by (intro other_post_untouched [OF assms(3)]) (auto simp: th')
  next
    case False
    with stale_effect [of "bj_batch j" db cutoff "''SUBMIT_STALE_BEFORE_PROVIDER''" now]
    have eff: "row_effect (bj_batch j) (\<lambda>r r'. young (bj_status r) \<and> like r r' \<and> bj_status r' = Bs_failed) db ?res" by simp
    show ?thesis
    proof (rule row_effect_call [OF eff x])
      fix e assume "untouched db db'" "x = Inl e"
      then show ?thesis using rest by (intro other_post_untouched [OF assms(3)]) (simp_all add: th')
    next
      fix r r' assume change: "row_change (bj_batch j) r r' db db'" and r': "young (bj_status r) \<and> like r r' \<and> bj_status r' = Bs_failed"
      then have "dead (bj_status r')" by (simp add: dead_def)
      with spreads_dies [OF assms(3) change] r' have sp: "spreads env subs db db'" by simp
      then have "\<forall>j \<in> set rest. known_row j db'" using rest rows_grow_known(1) by (auto simp: spreads_def)
      with sp dead_after [OF change j \<open>dead (bj_status r')\<close>] show ?thesis
        by (auto simp: other_post_def th' split: sum.splits)
    qed
  qed
qed

lemma other_release_keeps:
  assumes "release_hold env n j payload db = (x, db')" "dead_row j db" "\<And>b. batch_row_ok env b (subs b) db"
    and "\<And>db'. rows_grow db db' \<Longrightarrow> other_ok th' db'"
  shows "other_post env subs th' db db'"
  using spreads_release [OF assms(3,1,2)] assms(4) by (auto simp: other_post_def spreads_def)

lemma others_keep:
  assumes "thread_step su now ot th db = (th', db')" "other_ok th db" "\<And>b. batch_row_ok (bs_env su) b (subs b) db"
  shows "other_post (bs_env su) subs th' db db'"
proof -
  have idle: "other_post (bs_env su) subs th' db db'" if "untouched db db'" "other_ok th' db"
    using other_post_untouched [OF assms(3) that] .
  show ?thesis
  proof (cases th)
    case (Can_read user key batch)
    with assms show ?thesis by (intro cancel_read_keeps) simp_all
  next
    case (Can_provider j)
    with assms(1) show ?thesis
      by (intro idle) (auto simp: cancel_provider_def intro: event_untouched split: if_splits)
  next
    case (Can_enqueue j)
    with assms(1) show ?thesis by (intro idle) auto
  next
    case (Can_retry j)
    with assms(1) event_untouched show ?thesis by (intro idle) (auto split: if_splits)
  next
    case (Can_move j)
    with assms show ?thesis by (intro cancel_move_keeps [where j = j]) simp_all
  next
    case (Can_release j)
    obtain x db1 where x: "release_hold (bs_env su) (oa_net ot) j (deref (bj_request_hash j)) db = (x, db1)" by fastforce
    with Can_release assms(1) have "db1 = db'" "th' = (if x = None then Th_done Res_ok else Can_retry j)"
      by (auto simp: cancel_release_def split: option.splits)
    with x show ?thesis using assms(2) Can_release by (intro other_release_keeps [OF _ _ assms(3)]) auto
  next
    case (Rec_list cutoff limit)
    with assms show ?thesis by (intro recover_list_keeps) simp_all
  next
    case (Rec_jobs js cutoff)
    with assms show ?thesis by (intro recover_jobs_keeps [where js = js]) simp_all
  next
    case (Rec_release j js cutoff)
    obtain x db1 where x: "release_hold (bs_env su) (oa_net ot) j (deref (bj_request_hash j)) db = (x, db1)" by fastforce
    with Rec_release assms(1) have db1: "db1 = db'" "th' = (if x = None then Rec_jobs js cutoff else Rec_retry j js cutoff)"
      by (auto simp: recover_release_def split: option.splits)
    have "other_ok th' db2" if "rows_grow db db2" for db2
      using assms(2) Rec_release rows_grow_known(1) [OF that] by (auto simp: db1(2))
    with x db1(1) show ?thesis using assms(2) Rec_release by (intro other_release_keeps [OF _ _ assms(3)]) auto
  next
    case (Rec_retry j js cutoff)
    with assms(1,2) show ?thesis by (intro idle) auto
  next
    case (Th_done q)
    with assms(1) show ?thesis by (intro idle) auto
  qed (use assms(2) in simp_all)
qed

section \<open>Clean-ups\<close>

definition cleanup_post :: "batch_env \<Rightarrow> (string \<Rightarrow> batch_thread option) \<Rightarrow> cleanup_thread \<Rightarrow> batch_db \<Rightarrow> batch_db \<Rightarrow> bool" where
  "cleanup_post env subs th db db' \<longleftrightarrow> cleanup_call_ok th db' \<and> spreads env subs db db'"

lemma after_ok_untouched: "untouched db db' \<Longrightarrow> after_ok aft db' = after_ok aft db"
  by (cases aft) (simp_all add: row_defs at_row_def untouched_def)

lemma cleanup_ok_untouched:
  assumes "untouched db db'"
  shows "cleanup_call_ok th db' = cleanup_call_ok th db"
proof -
  have "ended_row j db' = ended_row j db" for j
    using assms by (simp add: ended_row_def at_row_def untouched_def)
  with after_ok_untouched [OF assms] show ?thesis by (cases th) simp_all
qed

lemma cleanup_post_untouched:
  assumes "\<And>b. batch_row_ok env b (subs b) db" "untouched db db'" "cleanup_call_ok th' db"
  shows "cleanup_post env subs th' db db'"
  using spreads_untouched [OF assms(1,2)] assms(2,3) by (simp add: cleanup_post_def cleanup_ok_untouched)

lemma cleanup_next_ok: "after_ok aft db \<Longrightarrow> cleanup_call_ok (cleanup_next aft e) db"
  by (cases aft) simp_all

lemma best_effort_untouched: "untouched db (best_effort_event n b ev db)"
  by (simp add: best_effort_event_def event_untouched)

text \<open>A row that has ended keeps its money; its status changes at most from completed to its output being deleted.\<close>

definition ended_change :: "batch_job \<Rightarrow> batch_job \<Rightarrow> bool" where
  "ended_change r r' \<longleftrightarrow>
     like r r' \<and> (bj_status r' = bj_status r \<or> bj_status r = Bs_completed \<and> bj_status r' = Bs_output_deleted)"

lemma ended_stages: "terminal_status s \<Longrightarrow> dead s \<or> finished s"
  by (auto simp: terminal_status_def stage_defs)

lemma spreads_ended:
  assumes ok: "\<And>b. batch_row_ok env b (subs b) db" and change: "row_change b r r' db db'"
    and r: "terminal_status (bj_status r)" "ended_change r r'"
  shows "spreads env subs db db'"
proof (rule spreads_change [OF ok change])
  have fine: "row_fine env (subs b) (bd_money db) r" using row_ok_at(1) [OF ok change] .
  note like = r(2) [unfolded ended_change_def, THEN conjunct1]
  show "row_fine env (subs b) (bd_money db) r'"
  proof (cases "dead (bj_status r)")
    case True
    then have "dead (bj_status r')" using r(2) by (auto simp: ended_change_def dead_def)
    with row_fine_money(1) [OF fine] True show ?thesis by (intro fine_dead [OF fine like]) (auto simp: early_stage_def)
  next
    case False
    then have st: "finished (bj_status r)" "finished (bj_status r')" "\<not> early_stage (bj_status r)"
      using ended_stages [OF r(1)] r(2) by (auto simp: ended_change_def stage_defs)
    moreover from fine st(1) have "0 < times_paid (hold_id r) (bd_money db)" by (simp add: row_fine_def charged_ok_def)
    ultimately show ?thesis
      using row_fine_money(4,6) [OF fine] by (intro fine_finished [OF fine like]) simp_all
  qed
qed (use r in \<open>auto simp: ended_change_def terminal_status_def stage_defs\<close>)

lemma ended_effects:
  "row_effect b ended_change db (record_cleanup_failure b code now db)"
  "row_effect b ended_change db (mark_input_deleted b now db)"
  "row_effect b ended_change db (mark_output_deleted b now db)"
  by (cases "bd_jobs db b";
      auto simp: record_cleanup_failure_def mark_input_deleted_def mark_output_deleted_def ended_change_def like_def ident_alt
        intro!: row_effect_update)+

lemma spreads_at_ended:
  assumes "\<And>b. batch_row_ok env b (subs b) db" "row_effect (bj_batch j) ended_change db res" "store_call n db res = (x, db')" "ended_row j db"
  shows "spreads env subs db db'"
proof (rule row_effect_call [OF assms(2,3)])
  fix e assume "untouched db db'"
  then show ?thesis by (rule spreads_untouched [OF assms(1)])
next
  fix r r' assume change: "row_change (bj_batch j) r r' db db'" and r': "ended_change r r'"
  from change assms(4) have "terminal_status (bj_status r)" by (simp add: ended_row_def at_row_def row_change_def)
  then show ?thesis using spreads_ended [OF assms(1) change _ r'] by simp
qed

lemma spreads_event:
  assumes "\<And>b. batch_row_ok env b (subs b) db" "spreads env subs db db'"
  shows "spreads env subs db (best_effort_event n b ev db')"
proof -
  have un: "bd_jobs (best_effort_event n b ev db') = bd_jobs db'" "bd_money (best_effort_event n b ev db') = bd_money db'"
    using best_effort_untouched [of db' n b ev] by (simp_all add: untouched_def)
  from assms(2) show ?thesis
    by (simp add: spreads_def un batch_row_ok_def sub_rely_def work_rely_def rows_grow_def same_batch_def)
qed

lemma read_ended:
  assumes "bd_jobs db b = Some j" "\<And>b. batch_row_ok env b (subs b) db" "terminal_status (bj_status j)"
  shows "ended_row j db"
  unfolding ended_row_def using assms(1,3) by (rule listed_at_row [where P = "\<lambda>r. terminal_status (bj_status r)", OF _ assms(2)])

lemma owner_read: "fst (store_call n db (get_job_for_owner user key b db, db)) = Inr j \<Longrightarrow> bd_jobs db b = Some j"
  by (auto simp: store_call_def get_job_for_owner_def split: net.splits option.splits if_splits)

lemma job_read: "fst (store_call n db (get_job b db, db)) = Inr j \<Longrightarrow> bd_jobs db b = Some j"
  by (auto simp: store_call_def get_job_def split: net.splits option.splits if_splits)

lemma list_read: "fst (store_call n db (Inr js, db)) = Inr js' \<Longrightarrow> js' = js"
  by (auto simp: store_call_def split: net.splits)

lemma cleanup_reads_keep:
  assumes "\<And>b. batch_row_ok env b (subs b) db" "cleanup_step cfg now n account answer th db = (th', db')" "starts_cleanup th \<or> (\<exists>t r. th = Cl_list_outputs t r)"
  shows "cleanup_post env subs th' db db'"
proof (rule cleanup_post_untouched [OF assms(1)])
  show "untouched db db'"
    using assms(2,3) best_effort_untouched
    by (cases th) (auto simp: cleanup_owner_def cleanup_read_def cleanup_list_inputs_def cleanup_list_outputs_def Let_def
        split: sum.splits if_splits)
  note ended = read_ended [OF _ assms(1)]
  have inputs: "j \<in> set (list_due_for_input c l db) \<Longrightarrow> ended_row j db"
    and outputs: "j \<in> set (list_due_for_output c l db) \<Longrightarrow> ended_row j db" for j c l
    using listed_rows(2,3) ended by blast+
  have "cleanup_call_ok (fst (cleanup_step cfg now n account answer th db)) db"
    using assms(3)
    by (cases th)
      (auto simp: cleanup_owner_def cleanup_read_def cleanup_list_inputs_def cleanup_list_outputs_def Let_def terminal_status_def
        dest!: list_read owner_read job_read intro: ended inputs outputs split: sum.splits if_splits)
  with assms(2) show "cleanup_call_ok th' db" by simp
qed

lemma cleanups_keep:
  assumes "\<And>b. batch_row_ok env b (subs b) db" "cleanup_step cfg now n account answer th db = (th', db')" "cleanup_call_ok th db"
  shows "cleanup_post env subs th' db db'"
proof -
  have idle: "cleanup_post env subs th' db db'" if "untouched db db'" "cleanup_call_ok th' db"
    using cleanup_post_untouched [OF assms(1) that] .
  show ?thesis
  proof (cases th)
    case (Cl_jobs t0 t js r)
    with assms(2,3) show ?thesis by (intro idle) (cases "(t0, t, js, r)" rule: cleanup_jobs.cases; auto)+
  next
    case (Cl_check t j aft)
    with assms(2,3) show ?thesis
      by (intro idle)
        (auto simp: cleanup_check_def cleanup_next_ok best_effort_untouched terminal_status_def split: cleanup_target.splits if_splits)
  next
    case (Cl_provider t j aft)
    with assms(2,3) show ?thesis
      by (intro idle) (auto simp: cleanup_provider_def split: option.splits cleanup_answer.splits)
  next
    case (Cl_failure t j code aft)
    obtain x db1 where x: "store_call n db (record_cleanup_failure (bj_batch j) code now db) = (x, db1)" by fastforce
    have sp: "spreads env subs db db1" using spreads_at_ended [OF assms(1) ended_effects(1) x] assms(3) Cl_failure by simp
    have "spreads env subs db db'"
      using spreads_event [OF assms(1) sp] assms(2) x Cl_failure by (auto simp: cleanup_failure_def)
    moreover from this have "after_ok aft db'" using after_ok_stable assms(3) Cl_failure by (auto simp: spreads_def)
    ultimately show ?thesis
      using assms(2) Cl_failure cleanup_next_ok by (auto simp: cleanup_failure_def cleanup_post_def)
  next
    case (Cl_mark t j aft)
    let ?res = "case t of Target_input \<Rightarrow> mark_input_deleted (bj_batch j) now db | Target_output \<Rightarrow> mark_output_deleted (bj_batch j) now db"
    obtain x where x: "store_call n db ?res = (x, db')" and th': "\<exists>e. th' = cleanup_next aft e"
      using assms(2) Cl_mark by (auto simp: cleanup_mark_def split: prod.splits sum.splits)
    have "row_effect (bj_batch j) ended_change db ?res" using ended_effects(2,3) by (cases t) simp_all
    from spreads_at_ended [OF assms(1) this x] assms(3) Cl_mark have sp: "spreads env subs db db'" by simp
    then have "after_ok aft db'" using after_ok_stable assms(3) Cl_mark by (auto simp: spreads_def)
    with sp th' show ?thesis by (auto simp: cleanup_post_def cleanup_next_ok)
  next
    case (Cl_final user key batch)
    with assms(2) show ?thesis by (intro idle) auto
  next
    case (Cl_done e)
    with assms(2) show ?thesis by (intro idle) auto
  next
    case (Cl_run_done e r)
    with assms(2) show ?thesis by (intro idle) auto
  qed (rule cleanup_reads_keep [OF assms(1,2)], simp)+
qed

text \<open>The marks of downloads and of records their owner has deleted.\<close>

definition minor_change :: "batch_job \<Rightarrow> batch_job \<Rightarrow> bool" where
  "minor_change r r' \<longleftrightarrow> settle_view r' = settle_view r \<and> bj_status r' = bj_status r \<and> retry_exhausted r' = retry_exhausted r"

lemma minor_effects:
  "row_effect b minor_change db (mark_downloaded b now db)"
  "row_effect b minor_change db (mark_user_deleted user key b now db)"
  by (cases "bd_jobs db b";
      auto simp: mark_downloaded_def mark_user_deleted_def minor_change_def settle_view_def retry_exhausted_def ident_alt
        intro!: row_effect_update)+

lemma spreads_minor:
  assumes ok: "\<And>b. batch_row_ok env b (subs b) db" and "row_effect b minor_change db res" "store_call n db res = (x, db')"
  shows "spreads env subs db db'"
proof (rule row_effect_call [OF assms(2,3)])
  fix e assume "untouched db db'"
  then show ?thesis by (rule spreads_untouched [OF ok])
next
  fix r r' assume change: "row_change b r r' db db'" and r': "minor_change r r'"
  show ?thesis
    by (rule spreads_change [OF ok change], rule fine_minor [OF row_ok_at(1) [OF ok change]])
      (use r' in \<open>simp_all add: minor_change_def\<close>)
qed

lemma records_keep:
  assumes "\<And>b. batch_row_ok env b (subs b) db"
  shows "spreads env subs db (snd (record_download n now read db))" "spreads env subs db (snd (delete_record n now user key read db))"
proof -
  have refl: "spreads env subs db db" using spreads_untouched [OF assms untouched_refl] .
  note minor = spreads_minor [OF assms minor_effects(1)] spreads_minor [OF assms minor_effects(2)]
  show "spreads env subs db (snd (record_download n now read db))" "spreads env subs db (snd (delete_record n now user key read db))"
    using refl minor [OF surjective_pairing] by (auto simp: record_download_def delete_record_def split: sum.splits)
qed

end
