(* ===== verification/BatchSettled.thy ===== *)
theory BatchSettled
  imports BatchOthers
begin

text \<open>
  Quiet runs of all calls on batch images: every step of the world keeps the invariant, so every hold is settled at most
  once, and the calls together refine the life a hold is meant to have.
\<close>

section \<open>The world\<close>

definition world_ok :: "batch_env \<Rightarrow> batch_world \<Rightarrow> bool" where
  "world_ok env w \<longleftrightarrow>
     (\<forall>b. batch_ok env b (bw_submits w b) (bw_workers w b) (bw_db w))
     \<and> (\<forall>th \<in> set (bw_others w). other_ok th (bw_db w)) \<and> (\<forall>th \<in> set (bw_cleanups w). cleanup_call_ok th (bw_db w))
     \<and> claims_ok (bd_money (bw_db w))"

lemma world_row: "world_ok env w \<Longrightarrow> batch_row_ok env b (bw_submits w b) (bw_db w)"
  by (simp add: world_ok_def batch_ok_def)

text \<open>A step of the world: rows stay, and the hold of a new row has not been taken.\<close>

definition world_goes :: "batch_env \<Rightarrow> batch_world \<Rightarrow> batch_world \<Rightarrow> bool" where
  "world_goes env w w' \<longleftrightarrow>
     world_ok env w' \<and> rows_grow (bw_db w) (bw_db w')
     \<and> (\<forall>b j. bd_jobs (bw_db w) b = None \<longrightarrow> bd_jobs (bw_db w') b = Some j \<longrightarrow> times_taken (hold_id j) (bd_money (bw_db w')) = 0)"

lemma sub_rely_none: "sub_rely b db db' \<Longrightarrow> bd_jobs db b = None \<Longrightarrow> bd_jobs db' b = None"
  by (simp add: sub_rely_def same_batch_def)

text \<open>A submission or a worker of one batch has moved.\<close>

lemma world_batch:
  assumes "world_ok env w" "keeps_batch b (bw_db w) db'" "batch_ok env b sub work db'"
    and "\<And>j. bd_jobs (bw_db w) b = None \<Longrightarrow> bd_jobs db' b = Some j \<Longrightarrow> times_taken (hold_id j) (bd_money db') = 0"
  shows "world_goes env w (w\<lparr>bw_submits := (bw_submits w)(b := sub), bw_workers := (bw_workers w)(b := work), bw_db := db'\<rparr>)"
proof -
  have grow: "rows_grow (bw_db w) db'" "claims_ok (bd_money db')" using assms(1,2) by (simp_all add: keeps_batch_def world_ok_def)
  note elsewhere = keeps_elsewhere [OF assms(2) world_row [OF assms(1)]]
  have "batch_ok env b' (bw_submits w b') (bw_workers w b') db'" if "b' \<noteq> b" for b'
    using elsewhere [OF that] assms(1) sub_ok_stable work_ok_stable
    by (fastforce simp: world_ok_def batch_ok_def)
  moreover have "bd_jobs (bw_db w) b' = None \<longrightarrow> bd_jobs db' b' = Some j \<longrightarrow> times_taken (hold_id j) (bd_money db') = 0" for b' j
    using elsewhere(2) [of b'] sub_rely_none assms(4) by (cases "b' = b") auto
  ultimately show ?thesis
    using assms(1,3) grow by (auto simp: world_goes_def world_ok_def intro: other_ok_stable cleanup_ok_stable)
qed

text \<open>Another call has moved.\<close>

lemma world_spreads:
  assumes "world_ok env w" "spreads env (bw_submits w) (bw_db w) db'"
    and "\<forall>th \<in> set ths. th \<in> set (bw_others w) \<or> other_ok th db'" "\<forall>th \<in> set cls. th \<in> set (bw_cleanups w) \<or> cleanup_call_ok th db'"
  shows "world_goes env w (w\<lparr>bw_others := ths, bw_cleanups := cls, bw_db := db'\<rparr>)"
proof -
  have grow: "rows_grow (bw_db w) db'" "claims_ok (bd_money db')"
    and rely: "\<And>b. batch_row_ok env b (bw_submits w b) db'" "\<And>b. sub_rely b (bw_db w) db'" "\<And>b. work_rely b (bw_db w) db'"
    using assms(1,2) by (simp_all add: spreads_def world_ok_def)
  have "batch_ok env b (bw_submits w b) (bw_workers w b) db'" for b
    using rely assms(1) sub_ok_stable work_ok_stable by (fastforce simp: world_ok_def batch_ok_def)
  with assms grow sub_rely_none [OF rely(2)] show ?thesis
    by (auto simp: world_goes_def world_ok_def intro: other_ok_stable cleanup_ok_stable)
qed

lemma new_row_untaken:
  assumes "thread_step su now ot th db = (th', db')" "sub_ok b th db" "claims_ok (bd_money db)"
    and "bd_jobs db b = None" "bd_jobs db' b = Some j"
  shows "times_taken (hold_id j) (bd_money db') = 0"
proof (cases th)
  case (Sub_create sb)
  then have sub: "bj_batch (sb_job sb) = b" "unclaimed (hold_id (sb_job sb)) (bd_money db)" using assms(2) by simp_all
  from assms(3) sub(2) have zero: "times_taken (hold_id (sb_job sb)) (bd_money db) = 0"
    unfolding claims_ok_def unclaimed_def by (metis le_zero_eq of_bool_eq(1))
  obtain x where x: "store_call (oa_net ot) db (create_job (new_batch_job now (sb_job sb)) db) = (x, db')"
    using assms(1) Sub_create by (auto simp: submit_create_def split: prod.splits sum.splits)
  then have "bd_money db' = bd_money db" by (auto dest: store_call_money)
  moreover from store_effect [OF x] assms(4,5) sub(1) have "hold_id j = hold_id (sb_job sb)"
    by (auto simp: create_job_def hold_id_eq new_batch_job_def split: if_splits)
  ultimately show ?thesis using zero by simp
next
  case (Sub_lookup sb)
  with assms show ?thesis using submit_lookup_same by fastforce
next
  case (Sub_hide i e)
  with assms show ?thesis
    by (auto simp: submit_hide_def mark_user_deleted_def store_call_def split: net.splits if_splits)
next
  case (Sub_abort i e)
  with assms event_untouched show ?thesis by (auto simp: untouched_def)
next
  case (Sub_retry i)
  with assms event_untouched show ?thesis by (auto simp: untouched_def split: if_splits)
next
  case (Sub_final i)
  with assms show ?thesis by (auto split: sum.splits)
qed (use assms in \<open>auto simp: early_row_def at_row_def\<close>)

lemma batch_world_start: "world_ok env (empty_batch_world users)"
  by (simp add: world_ok_def empty_batch_world_def empty_batch_db_def batch_ok_def batch_row_ok_def claims_ok_def times_defs)

lemma starts_ok: "starts_call th \<Longrightarrow> other_ok th db" "starts_cleanup cl \<Longrightarrow> cleanup_call_ok cl db"
  by (cases th; simp) (cases cl; simp)

lemma world_step:
  assumes "batch_step su cfg quiet_batch w w'" "world_ok (bs_env su) w"
  shows "world_goes (bs_env su) w w'"
proof -
  let ?env = "bs_env su" and ?db = "bw_db w"
  note rows = world_row [OF assms(2)]
  have batch: "batch_ok ?env b (bw_submits w b) (bw_workers w b) ?db" for b using assms(2) by (simp add: world_ok_def)
  have same: "keeps_batch b ?db ?db" "spreads ?env (bw_submits w) ?db ?db" for b
    using keeps_kinds(1) spreads_untouched rows untouched_refl by blast+
  show ?thesis
    using assms(1)
  proof (cases rule: batch_step.cases)
    case (submit_begin b sb)
    from submit_begin(2) batch [of b] have "batch_ok ?env b (Some (Sub_lookup sb)) (bw_workers w b) ?db"
      by (simp add: batch_ok_def batch_row_ok_def new_submission_def)
    from world_batch [OF assms(2) same(1) this] submit_begin(1) show ?thesis by simp
  next
    case (submit_step b th ot now th' db')
    have sub: "sub_ok b th ?db" "claims_ok (bd_money ?db)" using batch [of b] submit_step(2) assms(2) by (simp_all add: batch_ok_def world_ok_def)
    then have post: "sub_post ?env b th' ?db db'"
      using submission_keeps [OF submit_step(4,3)] rows [of b] submit_step(2) assms(2) by (simp add: world_ok_def)
    then have "batch_ok ?env b (Some th') (bw_workers w b) db'"
      using batch [of b] work_ok_stable by (fastforce simp: sub_post_def batch_ok_def)
    from world_batch [OF assms(2) _ this new_row_untaken [OF submit_step(4) sub]] post submit_step(1) show ?thesis
      by (simp add: sub_post_def)
  next
    case (submit_end b)
    have "batch_ok ?env b None (bw_workers w b) ?db"
      using batch [of b] row_ok_sub [OF rows [of b], of None] by (simp add: batch_ok_def)
    from world_batch [OF assms(2) same(1) this] submit_end show ?thesis by simp
  next
    case (worker_begin b)
    have "batch_ok ?env b (bw_submits w b) (Some (Wk_start b)) ?db" using batch [of b] by (simp add: batch_ok_def)
    from world_batch [OF assms(2) same(1) this] worker_begin(1) show ?thesis by simp
  next
    case (worker_step b th ot now th' db')
    have "work_ok ?env b th ?db" using batch [of b] worker_step(2) by (simp add: batch_ok_def)
    then have post: "work_post ?env b (bw_submits w b) th' ?db db'"
      using worker_keeps [OF worker_step(4,3)] rows [of b] by simp
    then have "batch_ok ?env b (bw_submits w b) (Some th') db'"
      using batch [of b] sub_ok_stable by (fastforce simp: work_post_def batch_ok_def)
    from world_batch [OF assms(2) _ this] post sub_rely_none worker_step(1) show ?thesis by (auto simp: work_post_def)
  next
    case (worker_end b)
    have "batch_ok ?env b (bw_submits w b) None ?db" using batch [of b] by (simp add: batch_ok_def)
    from world_batch [OF assms(2) same(1) this] worker_end show ?thesis by simp
  next
    case (other_begin th)
    from world_spreads [OF assms(2) same(2), of "th # bw_others w" "bw_cleanups w"] starts_ok(1) other_begin show ?thesis by simp
  next
    case (other_step xs th ys ot now th' db')
    have "other_ok th ?db" using assms(2) other_step(2) by (simp add: world_ok_def)
    from others_keep [OF other_step(4) this rows] have "other_ok th' db'" "spreads ?env (bw_submits w) ?db db'"
      by (simp_all add: other_post_def)
    from world_spreads [OF assms(2) this(2), of "xs @ th' # ys" "bw_cleanups w"] this(1) other_step(1,2) show ?thesis by auto
  next
    case (other_end xs th ys)
    from world_spreads [OF assms(2) same(2), of "xs @ ys" "bw_cleanups w"] other_end show ?thesis by auto
  next
    case (cleanup_begin th)
    from world_spreads [OF assms(2) same(2), of "bw_others w" "th # bw_cleanups w"] starts_ok(2) cleanup_begin show ?thesis by simp
  next
    case (cleanup_step xs th ys now n account answer th' db')
    have "cleanup_call_ok th ?db" using assms(2) cleanup_step(2) by (simp add: world_ok_def)
    from cleanups_keep [OF rows cleanup_step(3) this] have "cleanup_call_ok th' db'" "spreads ?env (bw_submits w) ?db db'"
      by (simp_all add: cleanup_post_def)
    from world_spreads [OF assms(2) this(2), of "bw_others w" "xs @ th' # ys"] this(1) cleanup_step(1,2) show ?thesis by auto
  next
    case (cleanup_end xs th ys)
    from world_spreads [OF assms(2) same(2), of "bw_others w" "xs @ ys"] cleanup_end show ?thesis by auto
  next
    case (downloaded n now user key batch)
    from world_spreads [OF assms(2) records_keep(1) [OF rows], where ths = "bw_others w" and cls = "bw_cleanups w"] downloaded show ?thesis by simp
  next
    case (deleted n now user key read)
    from world_spreads [OF assms(2) records_keep(2) [OF rows], where ths = "bw_others w" and cls = "bw_cleanups w"] deleted show ?thesis by simp
  qed
qed

lemma world_reach: "batch_reach su cfg quiet_batch users w \<Longrightarrow> world_ok (bs_env su) w"
  by (induction rule: batch_reach.induct) (auto simp: batch_world_start world_goes_def dest: world_step)


section \<open>Holds are settled once\<close>

text \<open>What the invariant says of the hold of a job.\<close>

lemma world_hold:
  assumes "world_ok env w" "bd_jobs (bw_db w) b = Some j"
  shows "times_taken (hold_id j) (bd_money (bw_db w)) \<le> 1"
    "times_paid (hold_id j) (bd_money (bw_db w)) + times_returned (hold_id j) (bd_money (bw_db w))
       \<le> times_taken (hold_id j) (bd_money (bw_db w))"
    "\<not> early_stage (bj_status j) \<Longrightarrow> 0 < times_taken (hold_id j) (bd_money (bw_db w))"
    "dead (bj_status j) \<Longrightarrow> times_paid (hold_id j) (bd_money (bw_db w)) = 0"
    "finished (bj_status j) \<Longrightarrow> 0 < times_paid (hold_id j) (bd_money (bw_db w))"
proof -
  let ?m = "bd_money (bw_db w)" and ?h = "hold_id j"
  have fine: "row_fine env (bw_submits w b) ?m j"
    using world_row [OF assms(1), of b] assms(2) by (simp add: batch_row_ok_def)
  have once: "times_taken ?h ?m \<le> 1" "times_paid ?h ?m \<le> 1" "times_returned ?h ?m \<le> 1"
    using assms(1) unfolding world_ok_def claims_ok_def by (meson of_bool_less_eq_one order_trans)+
  have returned: "0 < times_returned ?h ?m \<Longrightarrow> 0 < times_taken ?h ?m"
    using fine by (simp add: row_fine_def returned_ok_def)
  show taken: "\<not> early_stage (bj_status j) \<Longrightarrow> 0 < times_taken ?h ?m" using row_fine_money(4) [OF fine] .
  have paid: "0 < times_paid ?h ?m \<Longrightarrow> \<not> early_stage (bj_status j) \<and> times_returned ?h ?m = 0"
    using fine row_fine_money(6,7) [OF fine] by (auto simp: row_fine_def paid_ok_def stage_defs)
  then show "times_paid ?h ?m + times_returned ?h ?m \<le> times_taken ?h ?m" using once taken returned by fastforce
  show "dead (bj_status j) \<Longrightarrow> times_paid ?h ?m = 0" using paid by (auto simp: early_stage_def)
  show "finished (bj_status j) \<Longrightarrow> 0 < times_paid ?h ?m" using fine by (simp add: row_fine_def charged_ok_def)
  show "times_taken ?h ?m \<le> 1" by (rule once)
qed


section \<open>The life of a hold\<close>

text \<open>What a hold is meant to go through; a run of the system steps or stays.\<close>

datatype hold_phase = Hold_none | Hold_taken | Hold_charged | Hold_returned

inductive hold_step :: "hold_phase \<Rightarrow> hold_phase \<Rightarrow> bool" where
  takes: "hold_step Hold_none Hold_taken"
| charges: "hold_step Hold_taken Hold_charged"
| returns: "hold_step Hold_taken Hold_returned"

definition hold_phase_of :: "string \<times> int \<Rightarrow> hold_db \<Rightarrow> hold_phase" where
  "hold_phase_of x m =
     (if times_taken x m = 0 then Hold_none
      else if times_paid x m \<noteq> 0 then Hold_charged
      else if times_returned x m \<noteq> 0 then Hold_returned
      else Hold_taken)"

definition batch_phase :: "batch_world \<Rightarrow> string \<Rightarrow> hold_phase" where
  "batch_phase w b = (case bd_jobs (bw_db w) b of None \<Rightarrow> Hold_none | Some j \<Rightarrow> hold_phase_of (hold_id j) (bd_money (bw_db w)))"

definition one_move :: "hold_db \<Rightarrow> hold_db \<Rightarrow> bool" where
  "one_move m m' \<longleftrightarrow> hd_moves m' = hd_moves m \<or> (\<exists>v. hd_moves m' = v # hd_moves m)"

lemma one_move_refl [simp]: "one_move m m"
  by (simp add: one_move_def)

lemma apply_hold_one_move: "tx_shape tx mv \<Longrightarrow> one_move m (snd (apply_hold env tx c m))"
proof -
  assume shape: "tx_shape tx mv"
  obtain r m' where res: "apply_hold env tx c m = (r, m')" by fastforce
  show "one_move m (snd (apply_hold env tx c m))"
    by (rule apply_hold_cases [OF res]) (use shape in \<open>auto simp: res one_move_def elim!: tx_shapeE\<close>)
qed

lemma money_moved_once: "money_moved m m' \<Longrightarrow> one_move m m'"
  unfolding money_moved_def using apply_hold_one_move by (metis one_move_def)

lemma batch_step_move: "batch_step su cfg calm w w' \<Longrightarrow> one_move (bd_money (bw_db w)) (bd_money (bw_db w'))"
  by (cases rule: batch_step.cases, assumption)
    (auto dest: thread_step_money cleanup_step_money intro: money_moved_once simp: owner_marks_money)

lemma phase_of_move:
  assumes "one_move m m'" "times_taken x m \<le> 1" "times_paid x m + times_returned x m \<le> times_taken x m"
    and "times_taken x m' \<le> 1" "times_paid x m' + times_returned x m' \<le> times_taken x m'"
  shows "hold_step\<^sup>=\<^sup>= (hold_phase_of x m) (hold_phase_of x m')"
proof (cases "hd_moves m' = hd_moves m")
  case True
  then show ?thesis by (simp add: hold_phase_of_def times_defs)
next
  case False
  with assms(1) obtain v where v: "hd_moves m' = v # hd_moves m" by (auto simp: one_move_def)
  note counts = times_Cons [OF v, of x]
  show ?thesis
    using assms(2-) by (cases v) (auto simp: counts hold_phase_of_def hold_step.simps split: if_splits)
qed


text \<open>The hold of a batch of four: not taken before the third statement of its submission, taken after it.\<close>

lemma quiet_race: "quiet_batch th (race_outside Net_ok)"
  by (cases th) (simp_all add: race_outside_def)


end
