(* ===== verification/BatchQueue.thy ===== *)
theory BatchQueue
  imports RedisKeys BatchIndex
begin

text \<open>
  The queue of batch-image jobs in Redis (\<^verbatim>\<open>repository/batch_image_queue.go\<close>) and the worker that takes jobs from it
  (\<^verbatim>\<open>service/batch_image_worker.go\<close>), call by call. The five keys of the queue are different keys; scores and times to live
  are in milliseconds, \<open>clk\<close> is the clock of Redis and \<open>now\<close> that of the caller.
\<close>

section \<open>The state in Redis\<close>

text \<open>The head of a list is its left end. An inflight key and a lock carry the instant at which they expire.\<close>

record job_queue =
  jq_ready :: "string list"
  jq_delayed :: zkey
  jq_active :: zkey
  jq_inflight :: "string \<rightharpoonup> int"
  jq_locks :: "string \<rightharpoonup> string \<times> int"

definition empty_queue :: job_queue where
  "empty_queue = \<lparr>jq_ready = [], jq_delayed = no_zkey, jq_active = no_zkey, jq_inflight = Map.empty, jq_locks = Map.empty\<rparr>"

definition unix_milli :: "instant \<Rightarrow> int" where
  "unix_milli t = t div millisecond"

definition milliseconds :: "duration \<Rightarrow> int" where
  "milliseconds d = (if 0 \<le> d then d div millisecond else - ((- d) div millisecond))"

datatype queue_error = Q_already_queued | Q_invalid_payload | Q_store

definition valid_batch_id :: "string \<Rightarrow> bool" where
  "valid_batch_id b \<longleftrightarrow> prefix ''imgbatch_'' b \<and> length ''imgbatch_'' < length b"

record queue_options =
  qo_inflight_ttl :: duration
  qo_lock_ttl :: duration

definition normalize_queue_options :: "queue_options \<Rightarrow> queue_options" where
  "normalize_queue_options opts =
     \<lparr>qo_inflight_ttl = (if qo_inflight_ttl opts \<le> 0 then 7 * 24 * hour else qo_inflight_ttl opts),
      qo_lock_ttl = (if qo_lock_ttl opts \<le> 0 then 5 * minute else qo_lock_ttl opts)\<rparr>"

section \<open>Scripts and pipelines\<close>

text \<open>Keys that have expired are as good as deleted.\<close>

definition inflight_at :: "int \<Rightarrow> string \<Rightarrow> job_queue \<Rightarrow> bool" where
  "inflight_at clk b q = (case jq_inflight q b of None \<Rightarrow> False | Some e \<Rightarrow> clk < e)"

definition lock_holder :: "int \<Rightarrow> string \<Rightarrow> job_queue \<Rightarrow> string option" where
  "lock_holder clk b q = (case jq_locks q b of None \<Rightarrow> None | Some (tk, e) \<Rightarrow> if clk < e then Some tk else None)"

definition enqueue_script :: "int \<Rightarrow> int \<Rightarrow> string \<Rightarrow> job_queue \<Rightarrow> bool \<times> job_queue" where
  "enqueue_script clk ttl b q =
     (if inflight_at clk b q then (False, q)
      else (True, q\<lparr>jq_inflight := (jq_inflight q)(b \<mapsto> clk + ttl), jq_ready := b # jq_ready q\<rparr>))"

definition pop_ready_script :: "int \<Rightarrow> job_queue \<Rightarrow> string option \<times> job_queue" where
  "pop_ready_script t q =
     (case jq_ready q of
        [] \<Rightarrow> (None, q)
      | _ \<Rightarrow> (Some (last (jq_ready q)),
              q\<lparr>jq_ready := butlast (jq_ready q), jq_active := zadd (last (jq_ready q)) t (jq_active q)\<rparr>))"

text \<open>\<^verbatim>\<open>ZRANGEBYSCORE\<close> up to a score, in the order of scores and then bytes, with a limit.\<close>

definition zrange_upto :: "int \<Rightarrow> nat \<Rightarrow> zkey \<Rightarrow> string list" where
  "zrange_upto upto_score n z =
     take n (map fst (stable_sort (\<lambda>(a, s) (b, t). s < t \<or> s = t \<and> byte_less a b) (filter (\<lambda>(m, s). s \<le> upto_score) (zk_members z))))"

definition move_due_script :: "int \<Rightarrow> nat \<Rightarrow> job_queue \<Rightarrow> nat \<times> job_queue" where
  "move_due_script t n q =
     (let jobs = zrange_upto t n (jq_delayed q)
      in (length jobs, q\<lparr>jq_delayed := fold zrem jobs (jq_delayed q), jq_ready := rev jobs @ jq_ready q\<rparr>))"

definition recover_script :: "int \<Rightarrow> nat \<Rightarrow> job_queue \<Rightarrow> nat \<times> job_queue" where
  "recover_script t n q =
     (let jobs = zrange_upto t n (jq_active q)
      in (length jobs, q\<lparr>jq_active := fold zrem jobs (jq_active q), jq_ready := rev jobs @ jq_ready q\<rparr>))"

definition requeue_tx :: "instant \<Rightarrow> duration \<Rightarrow> string \<Rightarrow> job_queue \<Rightarrow> job_queue" where
  "requeue_tx now delay b q =
     (let q1 = q\<lparr>jq_active := zrem b (jq_active q), jq_delayed := zrem b (jq_delayed q)\<rparr>
      in if delay \<le> 0 then q1\<lparr>jq_ready := b # jq_ready q1\<rparr>
         else q1\<lparr>jq_delayed := zadd b (unix_milli (now + delay)) (jq_delayed q1)\<rparr>)"

definition ack_tx :: "string \<Rightarrow> job_queue \<Rightarrow> job_queue" where
  "ack_tx b q =
     q\<lparr>jq_active := zrem b (jq_active q), jq_delayed := zrem b (jq_delayed q), jq_inflight := (jq_inflight q)(b := None)\<rparr>"

text \<open>\<^verbatim>\<open>ZADD XX\<close>: only a member that is there is set.\<close>

definition heartbeat_add :: "int \<Rightarrow> string \<Rightarrow> job_queue \<Rightarrow> job_queue" where
  "heartbeat_add t b q =
     (if zscore b (jq_active q) = None then q else q\<lparr>jq_active := zadd b t (jq_active q)\<rparr>)"

definition lock_setnx :: "int \<Rightarrow> int \<Rightarrow> string \<Rightarrow> string \<Rightarrow> job_queue \<Rightarrow> bool \<times> job_queue" where
  "lock_setnx clk ttl b tk q =
     (if lock_holder clk b q \<noteq> None then (False, q) else (True, q\<lparr>jq_locks := (jq_locks q)(b \<mapsto> (tk, clk + ttl))\<rparr>))"

definition release_lock_script :: "int \<Rightarrow> string \<Rightarrow> string \<Rightarrow> job_queue \<Rightarrow> job_queue" where
  "release_lock_script clk b tk q =
     (if lock_holder clk b q = Some tk then q\<lparr>jq_locks := (jq_locks q)(b := None)\<rparr> else q)"

definition refresh_lock_script :: "int \<Rightarrow> int \<Rightarrow> string \<Rightarrow> string \<Rightarrow> job_queue \<Rightarrow> bool \<times> job_queue" where
  "refresh_lock_script clk ttl b tk q =
     (if lock_holder clk b q = Some tk then (True, q\<lparr>jq_locks := (jq_locks q)(b \<mapsto> (tk, clk + ttl))\<rparr>) else (False, q))"

section \<open>Methods of the queue\<close>

text \<open>A call whose answer is lost has run on the server.\<close>

definition queue_call :: "net \<Rightarrow> job_queue \<Rightarrow> 'a \<times> job_queue \<Rightarrow> (queue_error + 'a) \<times> job_queue" where
  "queue_call n q res =
     (case n of Net_ok \<Rightarrow> (Inr (fst res), snd res) | Net_lost \<Rightarrow> (Inl Q_store, snd res) | Net_down \<Rightarrow> (Inl Q_store, q))"

definition queue_enqueue :: "queue_options \<Rightarrow> int \<Rightarrow> net \<Rightarrow> string \<Rightarrow> job_queue \<Rightarrow> (queue_error + unit) \<times> job_queue" where
  "queue_enqueue opts clk n b q =
     (if \<not> valid_batch_id b then (Inl Q_invalid_payload, q)
      else case queue_call n q (enqueue_script clk (milliseconds (qo_inflight_ttl opts)) b q) of
             (Inl e, q1) \<Rightarrow> (Inl e, q1)
           | (Inr applied, q1) \<Rightarrow> (if applied then Inr () else Inl Q_already_queued, q1))"

definition queue_requeue :: "instant \<Rightarrow> net \<Rightarrow> string \<Rightarrow> duration \<Rightarrow> job_queue \<Rightarrow> (queue_error + unit) \<times> job_queue" where
  "queue_requeue now n b delay q =
     (if \<not> valid_batch_id b then (Inl Q_invalid_payload, q) else queue_call n q ((), requeue_tx now delay b q))"

definition queue_ack :: "net \<Rightarrow> string \<Rightarrow> job_queue \<Rightarrow> (queue_error + unit) \<times> job_queue" where
  "queue_ack n b q = (if \<not> valid_batch_id b then (Inl Q_invalid_payload, q) else queue_call n q ((), ack_tx b q))"

definition queue_heartbeat :: "instant \<Rightarrow> net \<Rightarrow> string \<Rightarrow> job_queue \<Rightarrow> (queue_error + unit) \<times> job_queue" where
  "queue_heartbeat now n b q =
     (if \<not> valid_batch_id b then (Inl Q_invalid_payload, q) else queue_call n q ((), heartbeat_add (unix_milli now) b q))"

definition queue_limit :: "int \<Rightarrow> nat" where
  "queue_limit l = (if l \<le> 0 then 100 else nat l)"

definition queue_move_due :: "instant \<Rightarrow> net \<Rightarrow> int \<Rightarrow> job_queue \<Rightarrow> (queue_error + nat) \<times> job_queue" where
  "queue_move_due now n limit q = queue_call n q (move_due_script (unix_milli now) (queue_limit limit) q)"

definition queue_recover :: "instant \<Rightarrow> net \<Rightarrow> duration \<Rightarrow> int \<Rightarrow> job_queue \<Rightarrow> (queue_error + nat) \<times> job_queue" where
  "queue_recover now n stale_after limit q =
     (if stale_after \<le> 0 then (Inl Q_invalid_payload, q)
      else queue_call n q (recover_script (unix_milli (now - stale_after)) (queue_limit limit) q))"

text \<open>\<open>token\<close> is \<open>None\<close> when no random bytes could be read.\<close>

definition queue_lock ::
  "queue_options \<Rightarrow> int \<Rightarrow> net \<Rightarrow> string option \<Rightarrow> string \<Rightarrow> duration \<Rightarrow> job_queue \<Rightarrow> (queue_error + string option) \<times> job_queue" where
  "queue_lock opts clk n token b ttl q =
     (if \<not> valid_batch_id b then (Inl Q_invalid_payload, q)
      else case token of
             None \<Rightarrow> (Inl Q_store, q)
           | Some tk \<Rightarrow>
               (case queue_call n q (lock_setnx clk (milliseconds (if ttl \<le> 0 then qo_lock_ttl opts else ttl)) b tk q) of
                  (Inl e, q1) \<Rightarrow> (Inl e, q1)
                | (Inr ok, q1) \<Rightarrow> (Inr (if ok then Some tk else None), q1)))"

definition queue_unlock :: "int \<Rightarrow> net \<Rightarrow> string \<Rightarrow> string \<Rightarrow> job_queue \<Rightarrow> job_queue" where
  "queue_unlock clk n b tk q = snd (queue_call n q ((), release_lock_script clk b tk q))"

text \<open>Whether the lock was still held comes back from Redis, the method drops it.\<close>

definition queue_refresh :: "int \<Rightarrow> net \<Rightarrow> string \<Rightarrow> string \<Rightarrow> duration \<Rightarrow> job_queue \<Rightarrow> (queue_error + bool) \<times> job_queue" where
  "queue_refresh clk n b tk ttl q =
     queue_call n q (refresh_lock_script clk (milliseconds (if ttl \<le> 0 then 5 * minute else ttl)) b tk q)"

section \<open>The worker\<close>

record worker_options =
  wo_reserve_block :: duration
  wo_lock_ttl :: duration
  wo_conflict_delay :: duration
  wo_requeue_delay :: duration
  wo_error_delay :: duration
  wo_error_backoff :: duration
  wo_delayed_poll :: duration
  wo_recovery_interval :: duration
  wo_stale_after :: duration
  wo_move_limit :: int
  wo_recover_limit :: int

definition positive_or :: "int \<Rightarrow> int \<Rightarrow> int" where
  "positive_or v d = (if v \<le> 0 then d else v)"

definition normalize_worker_options :: "worker_options \<Rightarrow> worker_options" where
  "normalize_worker_options opts =
     \<lparr>wo_reserve_block = positive_or (wo_reserve_block opts) (5 * second), wo_lock_ttl = positive_or (wo_lock_ttl opts) (5 * minute),
      wo_conflict_delay = positive_or (wo_conflict_delay opts) (5 * second),
      wo_requeue_delay = positive_or (wo_requeue_delay opts) (30 * second), wo_error_delay = positive_or (wo_error_delay opts) minute,
      wo_error_backoff = positive_or (wo_error_backoff opts) second, wo_delayed_poll = positive_or (wo_delayed_poll opts) (5 * second),
      wo_recovery_interval = positive_or (wo_recovery_interval opts) (5 * minute),
      wo_stale_after = positive_or (wo_stale_after opts) (10 * minute), wo_move_limit = positive_or (wo_move_limit opts) 100,
      wo_recover_limit = positive_or (wo_recover_limit opts) 100\<rparr>"

text \<open>The heartbeat of a job runs three times within the shorter of its two limits, at most once a second.\<close>

definition heartbeat_interval :: "worker_options \<Rightarrow> duration" where
  "heartbeat_interval opts =
     (let i = (if wo_stale_after opts < wo_lock_ttl opts then wo_stale_after opts else wo_lock_ttl opts) div 3
      in if i < second then second else i)"

text \<open>
  A round of the worker (\<^verbatim>\<open>RunOnce\<close>) between two calls; \<open>Qw_process\<close> is the call of the processor. A round ends with an error
  or without.
\<close>

datatype queue_worker =
    Qw_reserve instant
  | Qw_empty instant
  | Qw_discard string
  | Qw_lock string
  | Qw_process string string
  | Qw_requeue string duration "string option" "queue_error option"
  | Qw_ack string string
  | Qw_unlock string string "queue_error option"
  | Qw_done "queue_error option"

datatype process_answer = Process_fails | Process_terminal | Process_again duration

definition worker_reserve :: "instant \<Rightarrow> net \<Rightarrow> instant \<Rightarrow> job_queue \<Rightarrow> queue_worker \<times> job_queue" where
  "worker_reserve now n deadline q =
     (case queue_call n q (pop_ready_script (unix_milli now) q) of
        (Inl e, q1) \<Rightarrow> (Qw_done (Some e), q1)
      | (Inr None, q1) \<Rightarrow> (Qw_empty deadline, q1)
      | (Inr (Some b), q1) \<Rightarrow>
          (if valid_batch_id b then Qw_lock b else if b \<noteq> [] then Qw_discard b else Qw_done (Some Q_invalid_payload), q1))"

text \<open>\<^verbatim>\<open>Reserve\<close> asks again until its deadline.\<close>

definition worker_poll :: "instant \<Rightarrow> instant \<Rightarrow> queue_worker" where
  "worker_poll now deadline = (if deadline - now \<le> 0 then Qw_done None else Qw_reserve deadline)"

definition worker_lock ::
  "queue_options \<Rightarrow> worker_options \<Rightarrow> int \<Rightarrow> net \<Rightarrow> string option \<Rightarrow> string \<Rightarrow> job_queue \<Rightarrow> queue_worker \<times> job_queue" where
  "worker_lock qo wo clk n token b q =
     (case queue_lock qo clk n token b (wo_lock_ttl wo) q of
        (Inl e, q1) \<Rightarrow> (Qw_requeue b (wo_conflict_delay wo) None (Some e), q1)
      | (Inr None, q1) \<Rightarrow> (Qw_requeue b (wo_conflict_delay wo) None None, q1)
      | (Inr (Some tk), q1) \<Rightarrow> (Qw_process b tk, q1))"

fun worker_process :: "worker_options \<Rightarrow> process_answer \<Rightarrow> string \<Rightarrow> string \<Rightarrow> queue_worker" where
  "worker_process wo Process_fails b tk = Qw_requeue b (wo_error_delay wo) (Some tk) None"
| "worker_process wo Process_terminal b tk = Qw_ack b tk"
| "worker_process wo (Process_again d) b tk = Qw_requeue b (if d \<le> 0 then wo_requeue_delay wo else d) (Some tk) None"

fun after_queue :: "string \<Rightarrow> string option \<Rightarrow> queue_error option \<Rightarrow> queue_worker" where
  "after_queue b None e = Qw_done e"
| "after_queue b (Some tk) e = Qw_unlock b tk e"

definition worker_requeue ::
  "instant \<Rightarrow> net \<Rightarrow> string \<Rightarrow> duration \<Rightarrow> string option \<Rightarrow> queue_error option \<Rightarrow> job_queue \<Rightarrow> queue_worker \<times> job_queue" where
  "worker_requeue now n b delay tk e q =
     (case queue_requeue now n b delay q of
        (Inl e1, q1) \<Rightarrow> (after_queue b tk (Some e1), q1)
      | (Inr _, q1) \<Rightarrow> (after_queue b tk e, q1))"

definition worker_ack :: "net \<Rightarrow> string \<Rightarrow> string \<Rightarrow> job_queue \<Rightarrow> queue_worker \<times> job_queue" where
  "worker_ack n b tk q =
     (case queue_ack n b q of (Inl e, q1) \<Rightarrow> (Qw_unlock b tk (Some e), q1) | (Inr _, q1) \<Rightarrow> (Qw_unlock b tk None, q1))"

record queue_outside =
  qu_net :: net
  qu_token :: "string option"
  qu_answer :: process_answer

fun worker_call ::
  "queue_options \<Rightarrow> worker_options \<Rightarrow> instant \<Rightarrow> int \<Rightarrow> queue_outside \<Rightarrow> queue_worker \<Rightarrow> job_queue \<Rightarrow> queue_worker \<times> job_queue" where
  "worker_call qo wo now clk u (Qw_reserve deadline) q = worker_reserve now (qu_net u) deadline q"
| "worker_call qo wo now clk u (Qw_empty deadline) q = (worker_poll now deadline, q)"
| "worker_call qo wo now clk u (Qw_discard b) q =
     (Qw_done (Some Q_invalid_payload), snd (queue_call (qu_net u) q ((), q\<lparr>jq_active := zrem b (jq_active q)\<rparr>)))"
| "worker_call qo wo now clk u (Qw_lock b) q = worker_lock qo wo clk (qu_net u) (qu_token u) b q"
| "worker_call qo wo now clk u (Qw_process b tk) q = (worker_process wo (qu_answer u) b tk, q)"
| "worker_call qo wo now clk u (Qw_requeue b delay tk e) q = worker_requeue now (qu_net u) b delay tk e q"
| "worker_call qo wo now clk u (Qw_ack b tk) q = worker_ack (qu_net u) b tk q"
| "worker_call qo wo now clk u (Qw_unlock b tk e) q = (Qw_done e, queue_unlock clk (qu_net u) b tk q)"
| "worker_call qo wo now clk u (Qw_done e) q = (Qw_done e, q)"

end
