(* ===== verification/BatchQueueRuns.thy ===== *)
theory BatchQueueRuns
  imports BatchQueue
begin

text \<open>
  The queue with any number of workers: enqueuings, movers and recoveries, and the rounds of workers in any interleaving of
  their calls, each of which may be lost on the way or end anywhere. A job that has been queued is not lost and comes back to a worker,
  and a lock that is renewed in time is held by one worker.
\<close>

section \<open>Worlds and steps\<close>

text \<open>
  \<open>qs_leases\<close> says until when a worker knows it holds the lock it has taken with a token, by the last answer it got;
  \<open>qs_tokens\<close> are the tokens drawn so far.
\<close>

record queue_state =
  qs_queue :: job_queue
  qs_clock :: int
  qs_workers :: "queue_worker list"
  qs_leases :: "string \<rightharpoonup> int"
  qs_tokens :: "string set"

definition lock_millis :: "worker_options \<Rightarrow> int" where
  "lock_millis wo = milliseconds (wo_lock_ttl wo)"

fun lease_after :: "worker_options \<Rightarrow> int \<Rightarrow> queue_worker \<Rightarrow> queue_worker \<Rightarrow> (string \<rightharpoonup> int) \<Rightarrow> (string \<rightharpoonup> int)" where
  "lease_after wo clk (Qw_lock b) (Qw_process b' tk) leases = leases(tk \<mapsto> clk + lock_millis wo)"
| "lease_after wo clk th th' leases = leases"

definition draws :: "string option \<Rightarrow> string set \<Rightarrow> string set" where
  "draws token used = (case token of None \<Rightarrow> used | Some tk \<Rightarrow> insert tk used)"

text \<open>Tokens are 16 random bytes: no token is drawn twice.\<close>

inductive queue_step :: "queue_options \<Rightarrow> worker_options \<Rightarrow> queue_state \<Rightarrow> queue_state \<Rightarrow> bool" for qo wo where
  q_tick: "qs_clock w \<le> clk \<Longrightarrow> queue_step qo wo w (w\<lparr>qs_clock := clk\<rparr>)"
| q_enqueue: "queue_step qo wo w (w\<lparr>qs_queue := snd (queue_enqueue qo (qs_clock w) n b (qs_queue w))\<rparr>)"
| q_move: "queue_step qo wo w (w\<lparr>qs_queue := snd (queue_move_due now n (wo_move_limit wo) (qs_queue w))\<rparr>)"
| q_recover: "queue_step qo wo w (w\<lparr>qs_queue := snd (queue_recover now n (wo_stale_after wo) (wo_recover_limit wo) (qs_queue w))\<rparr>)"
| q_begin: "queue_step qo wo w (w\<lparr>qs_workers := Qw_reserve deadline # qs_workers w\<rparr>)"
| q_work: "qs_workers w = xs @ th # ys \<Longrightarrow> (\<And>tk. qu_token u = Some tk \<Longrightarrow> tk \<notin> qs_tokens w) \<Longrightarrow>
    worker_call qo wo now (qs_clock w) u th (qs_queue w) = (th', q') \<Longrightarrow>
    queue_step qo wo w (w\<lparr>qs_queue := q', qs_workers := xs @ th' # ys,
      qs_leases := lease_after wo (qs_clock w) th th' (qs_leases w), qs_tokens := draws (qu_token u) (qs_tokens w)\<rparr>)"
| q_beat: "qs_workers w = xs @ Qw_process b tk # ys \<Longrightarrow>
    queue_step qo wo w (w\<lparr>qs_queue := snd (queue_heartbeat now n b (qs_queue w))\<rparr>)"
| q_refresh: "qs_workers w = xs @ Qw_process b tk # ys \<Longrightarrow>
    queue_refresh (qs_clock w) n b tk (wo_lock_ttl wo) (qs_queue w) = (r, q') \<Longrightarrow>
    queue_step qo wo w (w\<lparr>qs_queue := q',
      qs_leases := (if r = Inr True then (qs_leases w)(tk \<mapsto> qs_clock w + lock_millis wo) else qs_leases w)\<rparr>)"
| q_end: "qs_workers w = xs @ th # ys \<Longrightarrow> queue_step qo wo w (w\<lparr>qs_workers := xs @ ys\<rparr>)"

definition empty_queue_state :: "int \<Rightarrow> queue_state" where
  "empty_queue_state clk = \<lparr>qs_queue = empty_queue, qs_clock = clk, qs_workers = [], qs_leases = Map.empty, qs_tokens = {}\<rparr>"

inductive queue_reach :: "queue_options \<Rightarrow> worker_options \<Rightarrow> queue_state \<Rightarrow> bool" for qo wo where
  queue_start: "queue_reach qo wo (empty_queue_state clk)"
| queue_next: "queue_reach qo wo w \<Longrightarrow> queue_step qo wo w w' \<Longrightarrow> queue_reach qo wo w'"

section \<open>Queued jobs are kept\<close>

definition queued :: "string \<Rightarrow> job_queue \<Rightarrow> bool" where
  "queued b q \<longleftrightarrow> b \<in> set (jq_ready q) \<or> b \<in> zmembers (jq_delayed q) \<or> b \<in> zmembers (jq_active q)"

definition queue_fine :: "job_queue \<Rightarrow> bool" where
  "queue_fine q \<longleftrightarrow>
     zok (jq_delayed q) \<and> zok (jq_active q) \<and> (\<forall>b. jq_inflight q b \<noteq> None \<longrightarrow> valid_batch_id b \<and> queued b q)"

lemma queue_fineI:
  assumes "queue_fine q" "zok (jq_delayed q')" "zok (jq_active q')"
    and "\<And>b. jq_inflight q' b \<noteq> None \<Longrightarrow> jq_inflight q b \<noteq> None \<and> (queued b q \<longrightarrow> queued b q') \<or> valid_batch_id b \<and> queued b q'"
  shows "queue_fine q'"
  using assms unfolding queue_fine_def by blast

lemma zrem_all:
  "zmembers (fold zrem js z) = zmembers z - set js" "zok z \<Longrightarrow> zok (fold zrem js z)"
  by (induction js arbitrary: z) (auto simp: zmembers_ops)

lemma set_zrange: "set (zrange_upto s n z) \<subseteq> zmembers z"
  using set_take_subset [of n] by (fastforce simp: zrange_upto_def set_stable_sort zmembers_def gm_keys_def)

lemma ready_last: "xs \<noteq> [] \<Longrightarrow> set xs = insert (last xs) (set (butlast xs))"
  by (induction xs) auto

lemma fine_enqueue: "queue_fine q \<Longrightarrow> valid_batch_id b \<Longrightarrow> queue_fine (snd (enqueue_script clk ttl b q))"
  by (auto simp: enqueue_script_def queue_fine_def queued_def)

lemma fine_pop: "queue_fine q \<Longrightarrow> queue_fine (snd (pop_ready_script t q))"
  using ready_last [of "jq_ready q"]
  by (auto simp: pop_ready_script_def queue_fine_def queued_def zmembers_ops split: list.split)

lemma fine_moves:
  assumes "queue_fine q"
  shows "queue_fine (snd (move_due_script t n q))" "queue_fine (snd (recover_script t n q))"
  using assms by (auto simp: move_due_script_def recover_script_def Let_def queue_fine_def queued_def zrem_all)

lemma fine_requeue: "queue_fine q \<Longrightarrow> queue_fine (requeue_tx now delay b q)"
  by (auto simp: requeue_tx_def Let_def queue_fine_def queued_def zmembers_ops)

lemma fine_ack: "queue_fine q \<Longrightarrow> queue_fine (ack_tx b q)"
  by (auto simp: ack_tx_def queue_fine_def queued_def zmembers_ops)

lemma fine_heartbeat: "queue_fine q \<Longrightarrow> queue_fine (heartbeat_add t b q)"
  by (auto simp: heartbeat_add_def queue_fine_def queued_def zmembers_ops)

lemma fine_discard: "queue_fine q \<Longrightarrow> \<not> valid_batch_id b \<Longrightarrow> queue_fine (q\<lparr>jq_active := zrem b (jq_active q)\<rparr>)"
  by (auto simp: queue_fine_def queued_def zmembers_ops)

lemma fine_locks [simp]: "queue_fine (q\<lparr>jq_locks := l\<rparr>) = queue_fine q"
  by (simp add: queue_fine_def queued_def)

lemma fine_lock_scripts [simp]:
  "queue_fine (snd (lock_setnx clk ttl b tk q)) = queue_fine q" "queue_fine (release_lock_script clk b tk q) = queue_fine q"
  "queue_fine (snd (refresh_lock_script clk ttl b tk q)) = queue_fine q"
  by (simp_all add: lock_setnx_def release_lock_script_def refresh_lock_script_def)

lemma fine_call: "queue_fine q \<Longrightarrow> queue_fine (snd res) \<Longrightarrow> queue_fine (snd (queue_call n q res))"
  by (simp add: queue_call_def split: net.split)

text \<open>What a method makes of the answer does not matter to the state.\<close>

lemma call_answer [simp]: "snd (case p of (Inl e, q1) \<Rightarrow> (f e, q1) | (Inr x, q1) \<Rightarrow> (g x, q1)) = snd p"
  by (cases p; simp split: sum.split)

lemma call_answer_option [simp]:
  "snd (case p of (Inl e, q1) \<Rightarrow> (f e, q1) | (Inr None, q1) \<Rightarrow> (h, q1) | (Inr (Some y), q1) \<Rightarrow> (k y, q1)) = snd p"
  by (cases p; simp split: sum.split option.split)

lemma fine_methods:
  assumes "queue_fine q"
  shows "queue_fine (snd (queue_enqueue qo clk n b q))" "queue_fine (snd (queue_requeue now n b d q))"
    "queue_fine (snd (queue_ack n b q))" "queue_fine (snd (queue_heartbeat now n b q))"
    "queue_fine (snd (queue_move_due now n l q))" "queue_fine (snd (queue_recover now n sa l q))"
    "queue_fine (snd (queue_lock qo clk n tk b ttl q))" "queue_fine (queue_unlock clk n b tok q)"
    "queue_fine (snd (queue_refresh clk n b tok ttl q))"
  using assms
  by (simp_all add: queue_enqueue_def queue_requeue_def queue_ack_def queue_heartbeat_def queue_move_due_def queue_recover_def
      queue_lock_def queue_unlock_def queue_refresh_def fine_call fine_enqueue fine_requeue fine_ack fine_heartbeat fine_moves
      split: option.split)

text \<open>A worker only discards what is not the id of a batch.\<close>

fun worker_fine :: "queue_worker \<Rightarrow> bool" where
  "worker_fine (Qw_discard b) \<longleftrightarrow> \<not> valid_batch_id b"
| "worker_fine (Qw_lock b) \<longleftrightarrow> valid_batch_id b"
| "worker_fine (Qw_process b tk) \<longleftrightarrow> valid_batch_id b"
| "worker_fine (Qw_requeue b d tk e) \<longleftrightarrow> valid_batch_id b"
| "worker_fine (Qw_ack b tk) \<longleftrightarrow> valid_batch_id b"
| "worker_fine _ \<longleftrightarrow> True"

lemma after_queue_fine [simp]: "worker_fine (after_queue b tk e)"
  by (cases tk) simp_all

lemma worker_call_fine:
  assumes "queue_fine q" "worker_fine th"
  shows "queue_fine (snd (worker_call qo wo now clk u th q))" "worker_fine (fst (worker_call qo wo now clk u th q))"
proof -
  show "queue_fine (snd (worker_call qo wo now clk u th q))"
    using assms by (cases th) (simp_all add: worker_reserve_def worker_poll_def worker_lock_def worker_requeue_def worker_ack_def fine_call fine_pop
        fine_methods fine_discard split: if_splits)
  show "worker_fine (fst (worker_call qo wo now clk u th q))"
    using assms(2)
    by (cases th; cases "qu_answer u")
      (auto simp: worker_reserve_def worker_poll_def worker_lock_def worker_requeue_def worker_ack_def split: prod.splits sum.splits option.splits)
qed

definition jobs_kept :: "queue_state \<Rightarrow> bool" where
  "jobs_kept w \<longleftrightarrow> queue_fine (qs_queue w) \<and> (\<forall>th \<in> set (qs_workers w). worker_fine th)"

lemma jobs_kept_step: "queue_step qo wo w w' \<Longrightarrow> jobs_kept w \<Longrightarrow> jobs_kept w'"
proof (induction rule: queue_step.induct)
  case (q_work w xs th ys u now th' q')
  then show ?case using worker_call_fine [of "qs_queue w" th qo wo now "qs_clock w" u] by (auto simp: jobs_kept_def)
next
  case (q_refresh w xs b tk ys n r q')
  then show ?case using fine_methods(9) [of "qs_queue w" "qs_clock w" n b tk "wo_lock_ttl wo"] by (simp add: jobs_kept_def)
qed (simp_all add: jobs_kept_def fine_methods)

lemma jobs_kept_reach: "queue_reach qo wo w \<Longrightarrow> jobs_kept w"
proof (induction rule: queue_reach.induct)
  case (queue_start clk)
  show ?case by (simp add: jobs_kept_def empty_queue_state_def empty_queue_def queue_fine_def)
qed (rule jobs_kept_step)

section \<open>A renewed lock is held_locks\<close>

text \<open>The batch a worker has locked, and its token, until it has given the lock back.\<close>

fun worker_token :: "queue_worker \<Rightarrow> (string \<times> string) option" where
  "worker_token (Qw_process b tk) = Some (b, tk)"
| "worker_token (Qw_requeue b d (Some tk) e) = Some (b, tk)"
| "worker_token (Qw_ack b tk) = Some (b, tk)"
| "worker_token (Qw_unlock b tk e) = Some (b, tk)"
| "worker_token _ = None"

definition held_locks :: "queue_worker list \<Rightarrow> (string \<times> string) list" where
  "held_locks ths = List.map_filter worker_token ths"

lemma held_locks_simps [simp]:
  "held_locks [] = []" "held_locks (th # ths) = (case worker_token th of None \<Rightarrow> held_locks ths | Some x \<Rightarrow> x # held_locks ths)"
  "held_locks (xs @ ys) = held_locks xs @ held_locks ys"
  by (auto simp: held_locks_def List.map_filter_def split: option.split)

definition lease_live :: "queue_state \<Rightarrow> string \<Rightarrow> bool" where
  "lease_live w tk = (case qs_leases w tk of None \<Rightarrow> False | Some u \<Rightarrow> qs_clock w < u)"

definition still_held :: "int \<Rightarrow> (string \<rightharpoonup> int) \<Rightarrow> job_queue \<Rightarrow> string \<times> string \<Rightarrow> bool" where
  "still_held clk leases q x =
     (\<forall>u. leases (snd x) = Some u \<longrightarrow> clk < u \<longrightarrow> (\<exists>e. jq_locks q (fst x) = Some (snd x, e) \<and> u \<le> e))"

lemma still_held_holder: "still_held clk leases q (b, tk) \<Longrightarrow> leases tk = Some u \<Longrightarrow> clk < u \<Longrightarrow> lock_holder clk b q = Some tk"
  by (auto simp: still_held_def lock_holder_def)

lemma still_held_locks: "jq_locks q' = jq_locks q \<Longrightarrow> still_held clk leases q' x = still_held clk leases q x"
  by (simp add: still_held_def)

lemma still_held_later: "still_held clk leases q x \<Longrightarrow> clk \<le> clk' \<Longrightarrow> still_held clk' leases q x"
  by (auto simp: still_held_def)

text \<open>A lock that changes hands, or is given back, is not the lock of another worker.\<close>

lemma still_held_change:
  assumes "still_held clk leases q x" "jq_locks q' = (jq_locks q)(b := l)"
    and "lock_holder clk b q = None \<or> lock_holder clk b q = Some tk \<and> snd x \<noteq> tk"
  shows "still_held clk leases q' x"
proof (cases "fst x = b")
  case True
  then have "still_held clk leases q (b, snd x)" using assms(1) by (metis prod.collapse)
  then show ?thesis
    using still_held_holder [of clk leases q b "snd x"] assms(3) unfolding still_held_def [of clk leases q'] by fastforce
next
  case False
  then show ?thesis using assms(1,2) by (simp add: still_held_def)
qed

definition locks_ok :: "worker_options \<Rightarrow> queue_state \<Rightarrow> bool" where
  "locks_ok wo w \<longleftrightarrow>
     (\<forall>b tk e. jq_locks (qs_queue w) b = Some (tk, e) \<longrightarrow> tk \<in> qs_tokens w)
     \<and> (\<forall>tk u. qs_leases w tk = Some u \<longrightarrow> tk \<in> qs_tokens w \<and> u \<le> qs_clock w + lock_millis wo)
     \<and> distinct (map snd (held_locks (qs_workers w))) \<and> snd ` set (held_locks (qs_workers w)) \<subseteq> qs_tokens w
     \<and> (\<forall>x \<in> set (held_locks (qs_workers w)). still_held (qs_clock w) (qs_leases w) (qs_queue w) x)"

lemma locks_ok_same:
  assumes "locks_ok wo w" "jq_locks q' = jq_locks (qs_queue w)" "held_locks ths = held_locks (qs_workers w)" "qs_tokens w \<subseteq> used"
  shows "locks_ok wo (w\<lparr>qs_queue := q', qs_workers := ths, qs_tokens := used\<rparr>)"
proof -
  have known: "\<And>b tk e. jq_locks (qs_queue w) b = Some (tk, e) \<Longrightarrow> tk \<in> qs_tokens w"
    "\<And>tk u. qs_leases w tk = Some u \<Longrightarrow> tk \<in> qs_tokens w" "snd ` set (held_locks (qs_workers w)) \<subseteq> qs_tokens w"
    using assms(1) by (simp_all add: locks_ok_def) blast+
  have "\<forall>b tk e. jq_locks q' b = Some (tk, e) \<longrightarrow> tk \<in> used" using known(1) assms(2,4) by (metis subsetD)
  moreover have "\<forall>tk u. qs_leases w tk = Some u \<longrightarrow> tk \<in> used" using known(2) assms(4) by blast
  moreover have "snd ` set (held_locks ths) \<subseteq> used" using known(3) assms(3,4) by (metis subset_trans)
  ultimately show ?thesis
    using assms(1,3) by (simp add: locks_ok_def still_held_locks [OF assms(2)])
qed

lemma locks_ok_queue:
  assumes "locks_ok wo w" "jq_locks q' = jq_locks (qs_queue w)"
  shows "locks_ok wo (w\<lparr>qs_queue := q'\<rparr>)"
  using assms still_held_locks [OF assms(2)] by (simp add: locks_ok_def)

text \<open>The calls that leave the locks alone.\<close>

lemma script_locks [simp]:
  "jq_locks (snd (enqueue_script clk ttl b q)) = jq_locks q" "jq_locks (snd (pop_ready_script t q)) = jq_locks q"
  "jq_locks (snd (move_due_script t n q)) = jq_locks q" "jq_locks (snd (recover_script t n q)) = jq_locks q"
  "jq_locks (requeue_tx now d b q) = jq_locks q" "jq_locks (ack_tx b q) = jq_locks q" "jq_locks (heartbeat_add t b q) = jq_locks q"
  by (simp_all add: enqueue_script_def pop_ready_script_def move_due_script_def recover_script_def requeue_tx_def ack_tx_def
      heartbeat_add_def Let_def split: list.split)

lemma queue_call_locks [simp]: "jq_locks (snd res) = jq_locks q \<Longrightarrow> jq_locks (snd (queue_call n q res)) = jq_locks q"
  by (simp add: queue_call_def split: net.split)

lemma method_locks [simp]:
  "jq_locks (snd (queue_enqueue qo clk n b q)) = jq_locks q" "jq_locks (snd (queue_requeue now n b d q)) = jq_locks q"
  "jq_locks (snd (queue_ack n b q)) = jq_locks q" "jq_locks (snd (queue_heartbeat now n b q)) = jq_locks q"
  "jq_locks (snd (queue_move_due now n l q)) = jq_locks q" "jq_locks (snd (queue_recover now n sa l q)) = jq_locks q"
  by (simp_all add: queue_enqueue_def queue_requeue_def queue_ack_def queue_heartbeat_def queue_move_due_def queue_recover_def)

lemma worker_call_keeps_locks:
  assumes "worker_call qo wo now clk u th q = (th', q')" "\<And>b. th \<noteq> Qw_lock b" "\<And>b tk e. th \<noteq> Qw_unlock b tk e"
  shows "jq_locks q' = jq_locks q" "worker_token th' = worker_token th" "lease_after wo clk th th' leases = leases"
proof -
  have th': "th' = fst (worker_call qo wo now clk u th q)" "q' = snd (worker_call qo wo now clk u th q)" using assms(1) by simp_all
  have after: "worker_token (after_queue b tk e) = map_option (Pair b) tk" for b tk e by (cases tk) simp_all
  have requeue: "worker_token (Qw_requeue b d tk e) = map_option (Pair b) tk" for b d tk e by (cases tk) simp_all
  show "jq_locks q' = jq_locks q"
    unfolding th' using assms(2,3)
    by (cases th) (auto simp: worker_reserve_def worker_poll_def worker_requeue_def worker_ack_def)
  show "worker_token th' = worker_token th"
    unfolding th' using assms(2,3)
    by (cases th; cases "qu_answer u")
      (auto simp: worker_reserve_def worker_poll_def worker_requeue_def worker_ack_def after requeue split: prod.splits sum.splits option.splits)
  show "lease_after wo clk th th' leases = leases"
  proof (cases th)
    case (Qw_lock b)
    with assms(2) show ?thesis by blast
  qed simp_all
qed

text \<open>What taking, giving back and renewing a lock do to the locks.\<close>

lemma worker_lock_effect:
  assumes "worker_lock qo wo clk n token b q = (th', q')" "0 < wo_lock_ttl wo"
  shows "jq_locks q' = jq_locks q \<and> worker_token th' = None \<and> (\<forall>b tk. th' \<noteq> Qw_process b tk)
    \<or> (\<exists>tk. token = Some tk \<and> lock_holder clk b q = None \<and> jq_locks q' = (jq_locks q)(b \<mapsto> (tk, clk + lock_millis wo))
        \<and> (worker_token th' = None \<and> (\<forall>b tk. th' \<noteq> Qw_process b tk) \<or> th' = Qw_process b tk))"
  using assms
  by (auto simp: worker_lock_def queue_lock_def queue_call_def lock_setnx_def lock_millis_def
      split: if_splits option.splits net.splits)

lemma queue_unlock_effect:
  "jq_locks (queue_unlock clk n b tk q) = jq_locks q
   \<or> lock_holder clk b q = Some tk \<and> jq_locks (queue_unlock clk n b tk q) = (jq_locks q)(b := None)"
  by (simp add: queue_unlock_def queue_call_def release_lock_script_def split: net.split)

lemma queue_refresh_effect:
  assumes "queue_refresh clk n b tk (wo_lock_ttl wo) q = (r, q')" "0 < wo_lock_ttl wo"
  shows "jq_locks q' = jq_locks q \<and> r \<noteq> Inr True
    \<or> lock_holder clk b q = Some tk \<and> jq_locks q' = (jq_locks q)(b \<mapsto> (tk, clk + lock_millis wo))"
  using assms
  by (auto simp: queue_refresh_def queue_call_def refresh_lock_script_def lock_millis_def split: if_splits net.splits)

lemma lease_after_taken:
  "worker_token th' = None \<or> (\<forall>b tk. th' \<noteq> Qw_process b tk) \<Longrightarrow> lease_after wo clk (Qw_lock b) th' leases = leases"
  by (cases th') auto

lemma locks_ok_work:
  assumes ok: "locks_ok wo w" and ttl: "0 < wo_lock_ttl wo"
    and workers: "qs_workers w = xs @ th # ys" and fresh: "\<And>tk. qu_token u = Some tk \<Longrightarrow> tk \<notin> qs_tokens w"
    and call: "worker_call qo wo now (qs_clock w) u th (qs_queue w) = (th', q')"
  shows "locks_ok wo (w\<lparr>qs_queue := q', qs_workers := xs @ th' # ys,
      qs_leases := lease_after wo (qs_clock w) th th' (qs_leases w), qs_tokens := draws (qu_token u) (qs_tokens w)\<rparr>)"
proof -
  have grow: "qs_tokens w \<subseteq> draws (qu_token u) (qs_tokens w)" by (auto simp: draws_def split: option.split)
  consider (lock) b where "th = Qw_lock b" | (unlock) b tk e where "th = Qw_unlock b tk e"
    | (rest) "\<And>b. th \<noteq> Qw_lock b" "\<And>b tk e. th \<noteq> Qw_unlock b tk e"
    by blast
  then show ?thesis
  proof cases
    case lock
    from call lock have lk: "worker_lock qo wo (qs_clock w) (qu_net u) (qu_token u) b (qs_queue w) = (th', q')" by simp
    from worker_lock_effect [OF lk ttl] show ?thesis
    proof (elim disjE exE conjE)
      assume same: "jq_locks q' = jq_locks (qs_queue w)" "worker_token th' = None" "\<forall>b tk. th' \<noteq> Qw_process b tk"
      have lease: "lease_after wo (qs_clock w) (Qw_lock b) th' (qs_leases w) = qs_leases w" by (rule lease_after_taken) (use same in simp)
      have "held_locks (xs @ th' # ys) = held_locks (qs_workers w)" using same by (simp add: workers lock)
      from locks_ok_same [OF ok same(1) this grow] show ?thesis by (simp add: lock lease)
    next
      fix tk assume tk: "qu_token u = Some tk" "lock_holder (qs_clock w) b (qs_queue w) = None"
        "jq_locks q' = (jq_locks (qs_queue w))(b \<mapsto> (tk, qs_clock w + lock_millis wo))"
      have new: "tk \<notin> qs_tokens w" "draws (qu_token u) (qs_tokens w) = insert tk (qs_tokens w)"
        using fresh tk(1) by (simp_all add: draws_def)
      have kept: "still_held (qs_clock w) (qs_leases w) q' x" if "x \<in> set (held_locks xs) \<union> set (held_locks ys)" for x
        using still_held_change [OF _ tk(3)] tk(2) ok that by (auto simp: locks_ok_def workers lock)
      {
        assume lost: "worker_token th' = None" "\<forall>b tk. th' \<noteq> Qw_process b tk"
        have lease: "lease_after wo (qs_clock w) (Qw_lock b) th' (qs_leases w) = qs_leases w" by (rule lease_after_taken) (use lost in simp)
        show ?thesis
          using ok new kept lost tk(3) by (auto simp: locks_ok_def workers lock lease split: if_splits)
      next
        assume th': "th' = Qw_process b tk"
        have others: "snd x \<noteq> tk" if "x \<in> set (held_locks xs) \<union> set (held_locks ys)" for x
          using ok new(1) that by (auto simp: locks_ok_def workers lock)
        then have "still_held (qs_clock w) ((qs_leases w)(tk \<mapsto> qs_clock w + lock_millis wo)) q' x"
          if "x \<in> set (held_locks xs) \<union> set (held_locks ys)" for x
          using kept [OF that] that by (simp add: still_held_def)
        moreover have "still_held (qs_clock w) ((qs_leases w)(tk \<mapsto> qs_clock w + lock_millis wo)) q' (b, tk)"
          by (simp add: still_held_def tk(3))
        ultimately show ?thesis
          using ok new others tk(3) by (auto simp: locks_ok_def workers lock th' split: if_splits)
      }
    qed
  next
    case unlock
    then have th': "th' = Qw_done e" "q' = queue_unlock (qs_clock w) (qu_net u) b tk (qs_queue w)" using call by simp_all
    have others: "snd x \<noteq> tk" "still_held (qs_clock w) (qs_leases w) (qs_queue w) x" if "x \<in> set (held_locks xs) \<union> set (held_locks ys)" for x
      using ok that by (auto simp: locks_ok_def workers unlock)
    have kept: "still_held (qs_clock w) (qs_leases w) q' x" if "x \<in> set (held_locks xs) \<union> set (held_locks ys)" for x
      using queue_unlock_effect [of "qs_clock w" "qu_net u" b tk "qs_queue w"] still_held_change [OF others(2) [OF that]] others [OF that]
        still_held_locks unfolding th'(2) by blast
    have "jq_locks (qs_queue w) b' = Some (tk', e')" if "jq_locks q' b' = Some (tk', e')" for b' tk' e'
      using queue_unlock_effect [of "qs_clock w" "qu_net u" b tk "qs_queue w"] that unfolding th'(2) by (auto split: if_splits)
    then have "\<forall>b' tk' e'. jq_locks q' b' = Some (tk', e') \<longrightarrow> tk' \<in> qs_tokens w"
      using ok [unfolded locks_ok_def, THEN conjunct1] by metis
    moreover have "\<forall>x \<in> set (held_locks (xs @ th' # ys)). still_held (qs_clock w) (qs_leases w) q' x" using kept by (auto simp: th'(1))
    moreover have "distinct (map snd (held_locks (xs @ th' # ys)))" "snd ` set (held_locks (xs @ th' # ys)) \<subseteq> qs_tokens w"
      using ok by (auto simp: locks_ok_def workers unlock th'(1))
    ultimately have ok': "locks_ok wo (w\<lparr>qs_queue := q', qs_workers := xs @ th' # ys\<rparr>)"
      using ok unfolding locks_ok_def by (simp del: held_locks_simps)
    from locks_ok_same [OF ok', where q' = q' and ths = "xs @ th' # ys"] grow show ?thesis by (simp add: unlock)
  next
    case rest
    note same = worker_call_keeps_locks [OF call rest]
    have "held_locks (xs @ th' # ys) = held_locks (qs_workers w)" by (simp add: workers same)
    from locks_ok_same [OF ok same(1) this grow] show ?thesis by (simp add: same)
  qed
qed

lemma locks_ok_refresh:
  assumes ok: "locks_ok wo w" and ttl: "0 < wo_lock_ttl wo" and workers: "qs_workers w = xs @ Qw_process b tk # ys"
    and call: "queue_refresh (qs_clock w) n b tk (wo_lock_ttl wo) (qs_queue w) = (r, q')"
  shows "locks_ok wo (w\<lparr>qs_queue := q',
      qs_leases := (if r = Inr True then (qs_leases w)(tk \<mapsto> qs_clock w + lock_millis wo) else qs_leases w)\<rparr>)"
  using queue_refresh_effect [OF call ttl]
proof (elim disjE conjE)
  assume "jq_locks q' = jq_locks (qs_queue w)" "r \<noteq> Inr True"
  with locks_ok_queue [OF ok] show ?thesis by simp
next
  assume got: "lock_holder (qs_clock w) b (qs_queue w) = Some tk"
    "jq_locks q' = (jq_locks (qs_queue w))(b \<mapsto> (tk, qs_clock w + lock_millis wo))"
  let ?leases = "if r = Inr True then (qs_leases w)(tk \<mapsto> qs_clock w + lock_millis wo) else qs_leases w"
  have tk: "tk \<in> qs_tokens w" and bound: "\<And>u. qs_leases w tk = Some u \<Longrightarrow> u \<le> qs_clock w + lock_millis wo"
    using ok by (auto simp: locks_ok_def workers)
  have others: "snd x \<noteq> tk" "still_held (qs_clock w) (qs_leases w) (qs_queue w) x" if "x \<in> set (held_locks xs) \<union> set (held_locks ys)" for x
    using ok that by (auto simp: locks_ok_def workers)
  have "still_held (qs_clock w) ?leases q' x" if "x \<in> set (held_locks xs) \<union> set (held_locks ys)" for x
    using still_held_change [OF others(2) [OF that] got(2)] got(1) others(1) [OF that] by (simp add: still_held_def)
  moreover have "still_held (qs_clock w) ?leases q' (b, tk)"
    using bound by (simp add: still_held_def got(2))
  ultimately have "\<forall>x \<in> set (held_locks (qs_workers w)). still_held (qs_clock w) ?leases q' x" by (auto simp: workers)
  then show ?thesis
    using ok tk by (simp add: locks_ok_def got(2))
qed

lemma locks_ok_step:
  assumes "queue_step qo wo w w'" "0 < wo_lock_ttl wo" "locks_ok wo w"
  shows "locks_ok wo w'"
  using assms
proof (induction rule: queue_step.induct)
  case (q_tick w clk)
  then show ?case using still_held_later by (fastforce simp: locks_ok_def)
next
  case (q_work w xs th ys u now th' q')
  then show ?case by (intro locks_ok_work) auto
next
  case (q_refresh w xs b tk ys n r q')
  then show ?case by (intro locks_ok_refresh) auto
next
  case (q_begin w deadline)
  then show ?case by (simp add: locks_ok_def)
next
  case (q_end w xs th ys)
  then show ?case by (auto simp: locks_ok_def split: option.splits)
qed (simp_all add: locks_ok_queue)

lemma locks_ok_reach:
  assumes "queue_reach qo wo w" "0 < wo_lock_ttl wo"
  shows "locks_ok wo w"
  using assms
proof (induction rule: queue_reach.induct)
  case (queue_start clk)
  show ?case by (simp add: locks_ok_def empty_queue_state_def empty_queue_def)
qed (rule locks_ok_step)

section \<open>One worker holds a lock that is renewed\<close>

lemma locks_ok_holder:
  assumes "locks_ok wo w" "Qw_process b tk \<in> set (qs_workers w)" "lease_live w tk"
  shows "lock_holder (qs_clock w) b (qs_queue w) = Some tk"
proof -
  have "(b, tk) \<in> set (held_locks (qs_workers w))" using split_list [OF assms(2)] by auto
  with assms(1) have "still_held (qs_clock w) (qs_leases w) (qs_queue w) (b, tk)" by (simp add: locks_ok_def)
  with assms(3) show ?thesis using still_held_holder by (auto simp: lease_live_def split: option.splits)
qed

text \<open>
  C8: Of all workers that process a batch at the same time at most one has taken or renewed its lock within the time to live of
  locks, whatever calls were lost and whoever crashed, and the lock in Redis is that worker's.
\<close>

theorem lock_exclusive:
  assumes "queue_reach qo wo w" "0 < wo_lock_ttl wo" "qs_workers w = xs @ Qw_process b t1 # ys @ Qw_process b t2 # zs"
  shows "\<not> (lease_live w t1 \<and> lease_live w t2)
    \<and> (lease_live w t1 \<longrightarrow> lock_holder (qs_clock w) b (qs_queue w) = Some t1)
    \<and> (lease_live w t2 \<longrightarrow> lock_holder (qs_clock w) b (qs_queue w) = Some t2)"
proof -
  note ok = locks_ok_reach [OF assms(1,2)]
  have "distinct (map snd (held_locks (qs_workers w)))" using ok by (simp add: locks_ok_def)
  then have "t1 \<noteq> t2" by (simp add: assms(3))
  with locks_ok_holder [OF ok, of b t1] locks_ok_holder [OF ok, of b t2] show ?thesis by (auto simp: assms(3))
qed

section \<open>A queued job comes back to a worker\<close>

text \<open>One round of the recovery and of the mover, at a time when what is in the queue is due.\<close>

definition sweep :: "worker_options \<Rightarrow> instant \<Rightarrow> job_queue \<Rightarrow> job_queue" where
  "sweep wo now q =
     snd (queue_move_due now Net_ok (wo_move_limit wo) (snd (queue_recover now Net_ok (wo_stale_after wo) (wo_recover_limit wo) q)))"

definition all_due :: "worker_options \<Rightarrow> instant \<Rightarrow> job_queue \<Rightarrow> bool" where
  "all_due wo now q \<longleftrightarrow>
     (\<forall>x \<in> set (zk_members (jq_active q)). snd x \<le> unix_milli (now - wo_stale_after wo))
     \<and> (\<forall>x \<in> set (zk_members (jq_delayed q)). snd x \<le> unix_milli now)"

definition unready :: "job_queue \<Rightarrow> nat" where
  "unready q = card (zmembers (jq_active q)) + card (zmembers (jq_delayed q))"

lemma zrange_some:
  assumes "\<forall>x \<in> set (zk_members z). snd x \<le> s" "zmembers z \<noteq> {}" "0 < n"
  shows "set (zrange_upto s n z) \<noteq> {}"
proof -
  have "filter (\<lambda>(m, t). t \<le> s) (zk_members z) = zk_members z" using assms(1) by (auto simp: filter_id_conv)
  then have "mset (stable_sort (\<lambda>(a, s) (b, t). s < t \<or> s = t \<and> byte_less a b) (filter (\<lambda>(m, t). t \<le> s) (zk_members z))) = mset (zk_members z)"
    by (simp add: mset_stable_sort)
  moreover have "zk_members z \<noteq> []" using assms(2) by (auto simp: zmembers_def gm_keys_def)
  ultimately have "stable_sort (\<lambda>(a, s) (b, t). s < t \<or> s = t \<and> byte_less a b) (filter (\<lambda>(m, t). t \<le> s) (zk_members z)) \<noteq> []"
    by (metis mset_zero_iff)
  with assms(3) show ?thesis by (simp add: zrange_upto_def)
qed

lemma zrem_members: "set (zk_members (zrem m z)) \<subseteq> set (zk_members z)"
  by (auto simp: zrem_def AList.delete_eq)

lemma zrem_all_members: "set (zk_members (fold zrem js z)) \<subseteq> set (zk_members z)"
proof (induction js arbitrary: z)
  case (Cons j js)
  have "set (zk_members (fold zrem js (zrem j z))) \<subseteq> set (zk_members (zrem j z))" by (rule Cons.IH)
  also have "\<dots> \<subseteq> set (zk_members z)" by (rule zrem_members)
  finally show ?case by simp
qed simp

lemma queue_limit_pos: "0 < queue_limit l"
  by (simp add: queue_limit_def)

lemma sweep_eq:
  assumes "0 < wo_stale_after wo"
  shows "jq_active (sweep wo now q) = fold zrem (zrange_upto (unix_milli (now - wo_stale_after wo)) (queue_limit (wo_recover_limit wo)) (jq_active q)) (jq_active q)"
    "jq_delayed (sweep wo now q) = fold zrem (zrange_upto (unix_milli now) (queue_limit (wo_move_limit wo)) (jq_delayed q)) (jq_delayed q)"
    "jq_ready (sweep wo now q) = rev (zrange_upto (unix_milli now) (queue_limit (wo_move_limit wo)) (jq_delayed q))
       @ rev (zrange_upto (unix_milli (now - wo_stale_after wo)) (queue_limit (wo_recover_limit wo)) (jq_active q)) @ jq_ready q"
    "jq_locks (sweep wo now q) = jq_locks q"
  using assms
  by (simp_all add: sweep_def queue_move_due_def queue_recover_def queue_call_def move_due_script_def recover_script_def Let_def)

lemma sweep_keeps:
  assumes "0 < wo_stale_after wo"
  shows "all_due wo now q \<Longrightarrow> all_due wo now (sweep wo now q)" "queued b q \<Longrightarrow> queued b (sweep wo now q)"
proof -
  note eqs = sweep_eq [OF assms]
  show "all_due wo now q \<Longrightarrow> all_due wo now (sweep wo now q)"
    using zrem_all_members unfolding all_due_def eqs by blast
  show "queued b q \<Longrightarrow> queued b (sweep wo now q)"
    unfolding queued_def eqs zrem_all by auto
qed

lemma removes_some:
  assumes "\<forall>x \<in> set (zk_members z). snd x \<le> s" "0 < n"
  shows "card (zmembers (fold zrem (zrange_upto s n z) z)) \<le> card (zmembers z)"
    "zmembers z \<noteq> {} \<Longrightarrow> card (zmembers (fold zrem (zrange_upto s n z) z)) < card (zmembers z)"
proof -
  show "card (zmembers (fold zrem (zrange_upto s n z) z)) \<le> card (zmembers z)"
    by (simp add: zrem_all card_mono)
  assume some: "zmembers z \<noteq> {}"
  obtain x where "x \<in> set (zrange_upto s n z)" using zrange_some [OF assms(1) some assms(2)] by (meson ex_in_conv)
  then have "zmembers z - set (zrange_upto s n z) \<subset> zmembers z" using set_zrange [of s n z] by blast
  then show "card (zmembers (fold zrem (zrange_upto s n z) z)) < card (zmembers z)"
    by (simp add: zrem_all psubset_card_mono)
qed

lemma sweep_decreases:
  assumes "0 < wo_stale_after wo" "all_due wo now q" "0 < unready q"
  shows "unready (sweep wo now q) < unready q"
proof -
  note eqs = sweep_eq [OF assms(1)]
  note active = removes_some [of "jq_active q", OF _ queue_limit_pos] and delayed = removes_some [of "jq_delayed q", OF _ queue_limit_pos]
  have "zmembers (jq_active q) \<noteq> {} \<or> zmembers (jq_delayed q) \<noteq> {}" using assms(3) by (auto simp: unready_def)
  then show ?thesis
  proof
    assume "zmembers (jq_active q) \<noteq> {}"
    then show ?thesis unfolding unready_def eqs
      by (intro add_less_le_mono active(2) delayed(1)) (use assms(2) in \<open>simp_all add: all_due_def\<close>)
  next
    assume "zmembers (jq_delayed q) \<noteq> {}"
    then show ?thesis unfolding unready_def eqs
      by (intro add_le_less_mono active(1) delayed(2)) (use assms(2) in \<open>simp_all add: all_due_def\<close>)
  qed
qed

lemma sweeps_empty:
  assumes "0 < wo_stale_after wo" "all_due wo now q" "queued b q"
  shows "\<exists>k \<le> unready q. b \<in> set (jq_ready ((sweep wo now ^^ k) q)) \<and> jq_locks ((sweep wo now ^^ k) q) = jq_locks q"
  using assms(2,3)
proof (induction "unready q" arbitrary: q rule: less_induct)
  case less
  show ?case
  proof (cases "unready q = 0")
    case True
    then have "zmembers (jq_active q) = {}" "zmembers (jq_delayed q) = {}" by (auto simp: unready_def)
    with less.prems(2) show ?thesis by (intro exI [of _ 0]) (simp add: queued_def)
  next
    case False
    then have less': "unready (sweep wo now q) < unready q" using sweep_decreases [OF assms(1) less.prems(1)] by simp
    from less.hyps [OF this sweep_keeps(1) [OF assms(1) less.prems(1)] sweep_keeps(2) [OF assms(1) less.prems(2)]]
    obtain k where "k \<le> unready (sweep wo now q)" "b \<in> set (jq_ready ((sweep wo now ^^ k) (sweep wo now q)))"
      "jq_locks ((sweep wo now ^^ k) (sweep wo now q)) = jq_locks (sweep wo now q)" by blast
    then show ?thesis using less' by (intro exI [of _ "Suc k"]) (simp add: funpow_swap1 sweep_eq(4) [OF assms(1)])
  qed
qed


text \<open>The jobs before it are taken, then it is taken.\<close>

definition next_job :: "instant \<Rightarrow> job_queue \<Rightarrow> job_queue" where
  "next_job now q = snd (worker_reserve now Net_ok now q)"

lemma pop_last:
  assumes "jq_ready q = ys @ [x]"
  shows "pop_ready_script t q = (Some x, q\<lparr>jq_ready := ys, jq_active := zadd x t (jq_active q)\<rparr>)"
  using assms by (cases ys) (simp_all add: pop_ready_script_def)

lemma next_job_ready:
  assumes "jq_ready q = ys @ [x]"
  shows "jq_ready (next_job now q) = ys" "jq_locks (next_job now q) = jq_locks q"
  by (simp_all add: next_job_def worker_reserve_def queue_call_def pop_last [OF assms])

lemma jobs_before:
  assumes "jq_ready q = ys @ b # zs"
  shows "jq_ready ((next_job now ^^ length zs) q) = ys @ [b] \<and> jq_locks ((next_job now ^^ length zs) q) = jq_locks q"
  using assms
proof (induction zs arbitrary: q rule: rev_induct)
  case (snoc z zs)
  from next_job_ready [of q "ys @ b # zs" z now] snoc.prems snoc.IH [of "next_job now q"] show ?case
    by (simp add: funpow_swap1)
qed simp

lemma worker_gets:
  assumes "jq_ready q = ys @ [b]" "valid_batch_id b"
  shows "fst (worker_reserve now Net_ok d q) = Qw_lock b" "jq_locks (snd (worker_reserve now Net_ok d q)) = jq_locks q"
  using assms by (simp_all add: worker_reserve_def queue_call_def pop_last)

lemma lock_holder_locks: "jq_locks q' = jq_locks q \<Longrightarrow> lock_holder clk b q' = lock_holder clk b q"
  by (simp add: lock_holder_def)


section \<open>A run\<close>

text \<open>The worker that has begun last goes on.\<close>

definition work_head :: "queue_options \<Rightarrow> worker_options \<Rightarrow> instant \<Rightarrow> queue_outside \<Rightarrow> queue_state \<Rightarrow> queue_state" where
  "work_head qo wo now u w =
     (case qs_workers w of
        [] \<Rightarrow> w
      | th # ths \<Rightarrow>
          (case worker_call qo wo now (qs_clock w) u th (qs_queue w) of
             (th', q') \<Rightarrow> w\<lparr>qs_queue := q', qs_workers := th' # ths,
               qs_leases := lease_after wo (qs_clock w) th th' (qs_leases w), qs_tokens := draws (qu_token u) (qs_tokens w)\<rparr>))"

lemma reach_work_head:
  assumes "queue_reach qo wo w" "\<And>tk. qu_token u = Some tk \<Longrightarrow> tk \<notin> qs_tokens w"
  shows "queue_reach qo wo (work_head qo wo now u w)"
proof (cases "qs_workers w")
  case Nil
  with assms(1) show ?thesis by (simp add: work_head_def)
next
  case (Cons th ths)
  obtain th' q' where call: "worker_call qo wo now (qs_clock w) u th (qs_queue w) = (th', q')" by fastforce
  from queue_next [OF assms(1) q_work [where xs = "[]" and ys = ths and th = th and u = u, OF _ assms(2) call]] Cons call
  show ?thesis by (simp add: work_head_def)
qed

text \<open>One worker takes a job and pauses for longer than its lock lasts; the job comes back to another one.\<close>

definition plain_queue :: queue_options where
  "plain_queue = normalize_queue_options \<lparr>qo_inflight_ttl = 0, qo_lock_ttl = 0\<rparr>"

definition plain_worker :: worker_options where
  "plain_worker = normalize_worker_options
     \<lparr>wo_reserve_block = 0, wo_lock_ttl = 0, wo_conflict_delay = 0, wo_requeue_delay = 0, wo_error_delay = 0,
      wo_error_backoff = 0, wo_delayed_poll = 0, wo_recovery_interval = 0, wo_stale_after = 0, wo_move_limit = 0,
      wo_recover_limit = 0\<rparr>"

definition drawing :: "string option \<Rightarrow> queue_outside" where
  "drawing tk = \<lparr>qu_net = Net_ok, qu_token = tk, qu_answer = Process_fails\<rparr>"

text \<open>A round that takes a job and locks it.\<close>

definition takes_job :: "string \<Rightarrow> queue_state \<Rightarrow> queue_state" where
  "takes_job tk w =
     work_head plain_queue plain_worker (qs_clock w * millisecond) (drawing (Some tk))
       (work_head plain_queue plain_worker (qs_clock w * millisecond) (drawing None)
         (w\<lparr>qs_workers := Qw_reserve 0 # qs_workers w\<rparr>))"

definition taken_state :: queue_state where
  "taken_state =
     takes_job ''t1'' ((empty_queue_state 0)\<lparr>qs_queue := snd (queue_enqueue plain_queue 0 Net_ok ''imgbatch_1'' empty_queue)\<rparr>)"

definition paused_state :: queue_state where
  "paused_state =
     takes_job ''t2'' (taken_state\<lparr>qs_clock := 700000,
       qs_queue := snd (queue_recover (700000 * millisecond) Net_ok (wo_stale_after plain_worker) (wo_recover_limit plain_worker)
         (qs_queue taken_state))\<rparr>)"

lemma reach_takes_job:
  assumes "queue_reach plain_queue plain_worker w" "tk \<notin> qs_tokens w"
  shows "queue_reach plain_queue plain_worker (takes_job tk w)"
proof -
  have same: "qs_tokens (work_head qo wo now (drawing None) v) = qs_tokens v" for qo wo now v
    by (simp add: work_head_def drawing_def draws_def split: list.split prod.split)
  show ?thesis
    unfolding takes_job_def
    by (intro reach_work_head queue_next [OF assms(1) q_begin]) (use assms(2) in \<open>simp_all add: same drawing_def [of "Some tk"]\<close>, simp add: drawing_def)
qed

lemma taken_reach: "queue_reach plain_queue plain_worker taken_state"
proof -
  from queue_next [OF queue_start q_enqueue [where n = Net_ok and b = "''imgbatch_1''"], of plain_queue plain_worker 0]
  have "queue_reach plain_queue plain_worker
      ((empty_queue_state 0)\<lparr>qs_queue := snd (queue_enqueue plain_queue 0 Net_ok ''imgbatch_1'' empty_queue)\<rparr>)"
    by (simp add: empty_queue_state_def)
  then show ?thesis unfolding taken_state_def by (rule reach_takes_job) (simp add: empty_queue_state_def)
qed

lemma paused_reach: "queue_reach plain_queue plain_worker paused_state"
proof -
  have clk: "qs_clock taken_state = 0" by code_simp
  from queue_next [OF queue_next [OF taken_reach q_tick [of taken_state 700000]] q_recover [where n = Net_ok and now = "700000 * millisecond"]] clk
  have "queue_reach plain_queue plain_worker (taken_state\<lparr>qs_clock := 700000,
      qs_queue := snd (queue_recover (700000 * millisecond) Net_ok (wo_stale_after plain_worker) (wo_recover_limit plain_worker)
         (qs_queue taken_state))\<rparr>)" by simp
  moreover have "qs_tokens taken_state = {''t1''}" by code_simp
  ultimately show ?thesis unfolding paused_state_def by (intro reach_takes_job) simp_all
qed

theorem lock_exclusive_witness:
  "qs_workers paused_state = [Qw_process ''imgbatch_1'' ''t2'', Qw_process ''imgbatch_1'' ''t1'']
   \<and> \<not> lease_live paused_state ''t1'' \<and> lock_holder (qs_clock paused_state) ''imgbatch_1'' (qs_queue paused_state) = Some ''t2''"
proof -
  have workers: "qs_workers paused_state = [Qw_process ''imgbatch_1'' ''t2'', Qw_process ''imgbatch_1'' ''t1'']" by code_simp
  have live: "lease_live paused_state ''t2''" by code_simp
  have ttl: "0 < wo_lock_ttl plain_worker" by code_simp
  from lock_exclusive [OF paused_reach ttl, of "[]" "''imgbatch_1''" "''t2''" "[]" "''t1''" "[]"] workers live
  show ?thesis by simp
qed



end
